(* ===== verification/Prelude.thy ===== *)
theory Prelude
  imports "HOL-Library.Word" "HOL-Library.Monad_Syntax"
begin

text \<open>
  Shared vocabulary of the development.

  Bytes are 8-bit words, a memory area is a list of bytes of fixed length.
  A C \<open>memcpy\<close> out of or into an area is \<open>memrd\<close> and \<open>memwr\<close>: they are
  \<open>None\<close> when the access leaves the area, so that undefined behaviour (and a failed
  \<open>assert\<close>) is a value of the model, and a theorem that an operation yields
  \<open>Some\<close> is a memory-safety theorem.  Unsigned C integers are naturals with the
  wrap-around written out (\<open>add32\<close>, \<open>sub32\<close>); conversions between signed and
  unsigned values are \<open>u32_of_int\<close> and \<open>s32_of_nat\<close>.  Little-endian (host order)
  and big-endian (network order) encodings of naturals are \<open>le_bytes\<close> and
  \<open>be_bytes\<close>.
\<close>

unbundle bit_operations_syntax

named_theorems mem_simps \<open>reads and writes of memory areas\<close>
named_theorems codec_simps \<open>encoding and decoding of integers\<close>

type_synonym byte = "8 word"
type_synonym bytes = "byte list"

section \<open>Machine integers\<close>

definition add32 :: "nat \<Rightarrow> nat \<Rightarrow> nat" where
  "add32 a b = (a + b) mod 2 ^ 32"

definition sub32 :: "nat \<Rightarrow> nat \<Rightarrow> nat" where
  "sub32 a b = (a + 2 ^ 32 - b mod 2 ^ 32) mod 2 ^ 32"

definition mul32 :: "nat \<Rightarrow> nat \<Rightarrow> nat" where
  "mul32 a b = (a * b) mod 2 ^ 32"

definition u32_of_int :: "int \<Rightarrow> nat" where
  "u32_of_int i = nat (i mod 2 ^ 32)"

definition u64_of_int :: "int \<Rightarrow> nat" where
  "u64_of_int i = nat (i mod 2 ^ 64)"

definition s32_of_nat :: "nat \<Rightarrow> int" where
  "s32_of_nat n = (if n mod 2 ^ 32 < 2 ^ 31 then int (n mod 2 ^ 32)
                   else int (n mod 2 ^ 32) - 2 ^ 32)"

lemma add32_small [simp]: "a + b < 2 ^ 32 \<Longrightarrow> add32 a b = a + b"
  by (simp add: add32_def)

lemma add32_lt [simp]: "add32 a b < 2 ^ 32"
  by (simp add: add32_def)

lemma sub32_small [simp]: "b \<le> a \<Longrightarrow> a < 2 ^ 32 \<Longrightarrow> sub32 a b = a - b"
  by (simp add: sub32_def mod_if)

lemma sub32_lt [simp]: "sub32 a b < 2 ^ 32"
  by (simp add: sub32_def)

lemma sub32_wrap: "a < b \<Longrightarrow> b < 2 ^ 32 \<Longrightarrow> sub32 a b = a + 2 ^ 32 - b"
  by (simp add: sub32_def mod_if)

lemma mul32_small [simp]: "a * b < 2 ^ 32 \<Longrightarrow> mul32 a b = a * b"
  by (simp add: mul32_def)

lemma u32_of_int_nonneg [simp]: "0 \<le> i \<Longrightarrow> i < 2 ^ 32 \<Longrightarrow> u32_of_int i = nat i"
  by (simp add: u32_of_int_def)

lemma u64_of_int_nonneg [simp]: "0 \<le> i \<Longrightarrow> i < 2 ^ 64 \<Longrightarrow> u64_of_int i = nat i"
  by (simp add: u64_of_int_def)

lemma s32_of_nat_small [simp]: "n < 2 ^ 31 \<Longrightarrow> s32_of_nat n = int n"
  by (simp add: s32_of_nat_def)

section \<open>Memory areas\<close>

definition memrd :: "'a list \<Rightarrow> nat \<Rightarrow> nat \<Rightarrow> 'a list option" where
  "memrd m p n = (if p + n \<le> length m then Some (take n (drop p m)) else None)"

definition memwr :: "'a list \<Rightarrow> nat \<Rightarrow> 'a list \<Rightarrow> 'a list option" where
  "memwr m p xs = (if p + length xs \<le> length m
                   then Some (take p m @ xs @ drop (p + length xs) m) else None)"

definition overlay :: "'a list \<Rightarrow> nat \<Rightarrow> 'a list \<Rightarrow> 'a list" where
  "overlay m p xs = take p m @ xs @ drop (p + length xs) m"

definition slice :: "'a list \<Rightarrow> nat \<Rightarrow> nat \<Rightarrow> 'a list" where
  "slice m p n = take n (drop p m)"

lemma memrd_Some [mem_simps]: "p + n \<le> length m \<Longrightarrow> memrd m p n = Some (slice m p n)"
  by (simp add: memrd_def slice_def)

lemma memrd_None [mem_simps]: "length m < p + n \<Longrightarrow> memrd m p n = None"
  by (simp add: memrd_def)

lemma memwr_Some [mem_simps]:
  "p + length xs \<le> length m \<Longrightarrow> memwr m p xs = Some (overlay m p xs)"
  by (simp add: memwr_def overlay_def)

lemma memwr_None [mem_simps]: "length m < p + length xs \<Longrightarrow> memwr m p xs = None"
  by (simp add: memwr_def)

lemma length_overlay [simp]: "p + length xs \<le> length m \<Longrightarrow> length (overlay m p xs) = length m"
  by (simp add: overlay_def)

lemma length_slice [simp]: "p + n \<le> length m \<Longrightarrow> length (slice m p n) = n"
  by (simp add: slice_def)

lemma overlay_Nil [simp]: "p \<le> length m \<Longrightarrow> overlay m p [] = m"
  by (simp add: overlay_def)

lemma slice_0 [simp]: "slice m p 0 = []"
  by (simp add: slice_def)

lemma nth_overlay:
  "p + length xs \<le> length m \<Longrightarrow> i < length m \<Longrightarrow>
   overlay m p xs ! i = (if p \<le> i \<and> i < p + length xs then xs ! (i - p) else m ! i)"
  by (auto simp: overlay_def nth_append min_def)

lemma overlay_single: "p < length m \<Longrightarrow> overlay m p [v] = m[p := v]"
  by (simp add: overlay_def upd_conv_take_nth_drop)

lemma nth_slice: "p + n \<le> length m \<Longrightarrow> i < n \<Longrightarrow> slice m p n ! i = m ! (p + i)"
  by (simp add: slice_def)

lemma slice_overlay_same [simp]:
  "p + length xs \<le> length m \<Longrightarrow> slice (overlay m p xs) p (length xs) = xs"
  by (rule nth_equalityI) (simp_all add: nth_slice nth_overlay)

lemma slice_overlay_disjoint:
  "p + length xs \<le> length m \<Longrightarrow> q + n \<le> length m \<Longrightarrow> q + n \<le> p \<or> p + length xs \<le> q \<Longrightarrow>
   slice (overlay m p xs) q n = slice m q n"
  by (rule nth_equalityI) (auto simp: nth_slice nth_overlay)

lemma slice_append: "p + a + b \<le> length m \<Longrightarrow> slice m p (a + b) = slice m p a @ slice m (p + a) b"
  by (simp add: slice_def take_add add.commute)

lemma overlay_overlay_adjacent:
  "p + length xs + length ys \<le> length m \<Longrightarrow>
   overlay (overlay m p xs) (p + length xs) ys = overlay m p (xs @ ys)"
  by (rule nth_equalityI) (auto simp: nth_overlay nth_append)

lemma take_drop_append [simp]: "take k xs @ drop k xs @ ys = xs @ ys"
  by (simp flip: append_assoc)

lemma overlay_join:
  "q = p + length xs \<Longrightarrow> p + length xs + length ys \<le> length m \<Longrightarrow>
   overlay (overlay m p xs) q ys = overlay m p (xs @ ys)"
  by (simp add: overlay_overlay_adjacent)

section \<open>Integer codecs\<close>

primrec le_bytes :: "nat \<Rightarrow> nat \<Rightarrow> bytes" where
  "le_bytes 0 n = []"
| "le_bytes (Suc k) n = word_of_nat n # le_bytes k (n div 256)"

primrec le_val :: "bytes \<Rightarrow> nat" where
  "le_val [] = 0"
| "le_val (b # bs) = unat b + 256 * le_val bs"

definition be_bytes :: "nat \<Rightarrow> nat \<Rightarrow> bytes" where
  "be_bytes k n = rev (le_bytes k n)"

definition be_val :: "bytes \<Rightarrow> nat" where
  "be_val bs = le_val (rev bs)"

lemma length_le_bytes [simp]: "length (le_bytes k n) = k"
  by (induction k arbitrary: n) auto

lemma length_be_bytes [simp]: "length (be_bytes k n) = k"
  by (simp add: be_bytes_def)

lemma le_val_le_bytes_mod: "le_val (le_bytes k n) = n mod 256 ^ k"
  by (induction k arbitrary: n) (simp_all add: unat_of_nat mod_mult2_eq)

lemma le_val_le_bytes [codec_simps]: "n < 256 ^ k \<Longrightarrow> le_val (le_bytes k n) = n"
  by (simp add: le_val_le_bytes_mod)

lemma be_val_be_bytes [codec_simps]: "n < 256 ^ k \<Longrightarrow> be_val (be_bytes k n) = n"
  by (simp add: be_val_def be_bytes_def le_val_le_bytes)

lemma unat_byte_lt: "unat (b :: byte) < 256"
  using unsigned_less [of b] by simp

lemma le_val_lt: "le_val bs < 256 ^ length bs"
proof (induction bs)
  case (Cons b bs)
  have "unat b + 256 * le_val bs < 256 + 256 * le_val bs" using unat_byte_lt by simp
  also have "\<dots> \<le> 256 * 256 ^ length bs" using Cons.IH by simp
  finally show ?case by simp
qed simp

lemma be_val_lt: "be_val bs < 256 ^ length bs"
  using le_val_lt [of "rev bs"] by (simp add: be_val_def)

lemma le_bytes_le_val: "le_bytes (length bs) (le_val bs) = bs"
proof (induction bs)
  case (Cons b bs)
  have "(unat b + 256 * le_val bs) div 256 = le_val bs"
    using unat_byte_lt [of b] by simp
  moreover have "word_of_nat (unat b + 256 * le_val bs) = b"
    by (rule word_unat_eq_iff [THEN iffD2])
      (simp add: unat_of_nat mod_add_right_eq [symmetric] unat_byte_lt del: of_nat_add)
  ultimately show ?case using Cons.IH by simp
qed simp

lemma be_bytes_be_val: "be_bytes (length bs) (be_val bs) = bs"
  using le_bytes_le_val [of "rev bs"] by (simp add: be_bytes_def be_val_def)

end
