(* ===== verification/Fifo.thy ===== *)
theory Fifo
  imports Prelude
begin

text \<open>
  The contract that the queues of the program share: a bounded first-in first-out
  channel.  An implementation offers \<open>put\<close> (the flag says whether the element was
  accepted) and \<open>get\<close> (no element when the channel is empty); both are \<open>None\<close> when
  the C code would fault.  The locale \<open>bounded_fifo\<close> states the laws for one operation
  and derives the law of a whole run: whatever the interleaving of puts and gets, nothing
  faults and the elements delivered, followed by those still inside, are exactly the
  elements that were inside, followed by those accepted, in order.
\<close>

datatype 'a fifo_op = Put 'a | Get

fun fifo_run ::
  "('s \<Rightarrow> 'a \<Rightarrow> (bool \<times> 's) option) \<Rightarrow> ('s \<Rightarrow> ('a option \<times> 's) option) \<Rightarrow>
   's \<Rightarrow> 'a fifo_op list \<Rightarrow> ('a list \<times> 'a list \<times> 's) option" where
  "fifo_run put get s [] = Some ([], [], s)"
| "fifo_run put get s (Put x # ops) =
     (case put s x of None \<Rightarrow> None
      | Some (b, s') \<Rightarrow>
          (case fifo_run put get s' ops of None \<Rightarrow> None
           | Some (acc, del, t) \<Rightarrow> Some (if b then x # acc else acc, del, t)))"
| "fifo_run put get s (Get # ops) =
     (case get s of None \<Rightarrow> None
      | Some (v, s') \<Rightarrow>
          (case fifo_run put get s' ops of None \<Rightarrow> None
           | Some (acc, del, t) \<Rightarrow>
               Some (acc, (case v of None \<Rightarrow> del | Some x \<Rightarrow> x # del), t)))"

fun op_ok :: "('a \<Rightarrow> bool) \<Rightarrow> 'a fifo_op \<Rightarrow> bool" where
  "op_ok ok (Put x) = ok x"
| "op_ok ok Get = True"

locale bounded_fifo =
  fixes put :: "'s \<Rightarrow> 'a \<Rightarrow> (bool \<times> 's) option"
    and get :: "'s \<Rightarrow> ('a option \<times> 's) option"
    and rep :: "'s \<Rightarrow> 'a list \<Rightarrow> bool"
    and ok :: "'a \<Rightarrow> bool"
  assumes put_law:
      "rep s xs \<Longrightarrow> ok x \<Longrightarrow>
       \<exists>b s'. put s x = Some (b, s') \<and> rep s' (if b then xs @ [x] else xs)"
    and get_nonempty: "rep s (x # xs) \<Longrightarrow> \<exists>s'. get s = Some (Some x, s') \<and> rep s' xs"
    and get_empty: "rep s [] \<Longrightarrow> \<exists>s'. get s = Some (None, s') \<and> rep s' []"
begin

lemma get_law:
  "rep s xs \<Longrightarrow> \<exists>v s' xs'. get s = Some (v, s') \<and> rep s' xs' \<and>
     xs = (case v of None \<Rightarrow> [] | Some x \<Rightarrow> [x]) @ xs'"
proof (cases xs)
  case Nil
  assume "rep s xs"
  with Nil obtain s' where "get s = Some (None, s')" "rep s' []" using get_empty by blast
  with Nil show ?thesis by (intro exI [of _ None]) auto
next
  case (Cons x ys)
  assume "rep s xs"
  with Cons obtain s' where "get s = Some (Some x, s')" "rep s' ys" using get_nonempty by blast
  with Cons show ?thesis by (intro exI [of _ "Some x"]) auto
qed

lemma run_law:
  "rep s xs \<Longrightarrow> list_all (op_ok ok) ops \<Longrightarrow>
   \<exists>acc del t rest. fifo_run put get s ops = Some (acc, del, t) \<and> rep t rest \<and>
     xs @ acc = del @ rest"
proof (induction ops arbitrary: s xs)
  case Nil
  then show ?case by simp
next
  case (Cons opn ops)
  show ?case
  proof (cases opn)
    case (Put x)
    with Cons.prems have "ok x" "list_all (op_ok ok) ops" by simp_all
    then obtain b s' where p: "put s x = Some (b, s')" "rep s' (if b then xs @ [x] else xs)"
      using put_law Cons.prems by meson
    with Cons.IH [OF p(2)] \<open>list_all (op_ok ok) ops\<close> obtain acc del t rest where
      "fifo_run put get s' ops = Some (acc, del, t)" "rep t rest"
      "(if b then xs @ [x] else xs) @ acc = del @ rest" by blast
    with p(1) Put show ?thesis by (cases b) simp_all
  next
    case Get
    obtain v s' xs' where g: "get s = Some (v, s')" "rep s' xs'"
      "xs = (case v of None \<Rightarrow> [] | Some x \<Rightarrow> [x]) @ xs'"
      using get_law Cons.prems by blast
    from Cons.prems have "list_all (op_ok ok) ops" by simp
    with Cons.IH [OF g(2)] obtain acc del t rest where
      "fifo_run put get s' ops = Some (acc, del, t)" "rep t rest" "xs' @ acc = del @ rest" by blast
    with g(1,3) Get show ?thesis by (cases v) simp_all
  qed
qed

end

end
