(* ===== verification/ShmContainers.thy ===== *)
theory ShmContainers
  imports Fifo
begin

text \<open>
  The shared-memory containers of libcomm: the circular queue \<open>CShmQueue\<close>
  (shm\_queue.h), the stack \<open>CShmStack\<close> (shm\_stack.h) and the arrays
  \<open>CShmArray\<close> and \<open>CShmRWArray\<close> (shm\_array.h).  The structure at the start of the
  segment is a record, the node area a list whose length is the room the segment really
  has, so that an access outside of it is \<open>None\<close>.  Every operation runs under the
  semaphore of its object (\<open>CLockGuard\<close>) or the lock stripe of its index, so that one
  definition is one atomic step.
\<close>

section \<open>CShmQueue\<close>

record 'a shm_queue =
  q_front :: nat
  q_rear :: nat
  q_size :: nat
  q_nodes :: "'a list"

definition IsFull :: "'a shm_queue \<Rightarrow> bool" where
  "IsFull q = (if q_front q = add32 (q_rear q) 1 mod q_size q then True else False)"

definition IsEmpty :: "'a shm_queue \<Rightarrow> bool" where
  "IsEmpty q = (q_front q = q_rear q)"

definition queue_Size :: "'a shm_queue \<Rightarrow> nat" where
  "queue_Size q = sub32 (add32 (q_rear q) (q_size q)) (q_front q) mod q_size q"

definition queue_Length :: "'a shm_queue \<Rightarrow> nat" where
  "queue_Length q = q_size q"

definition queue_Full :: "'a shm_queue \<Rightarrow> bool" where
  "queue_Full q = IsFull q"

definition queue_Empty :: "'a shm_queue \<Rightarrow> bool" where
  "queue_Empty q = IsEmpty q"

definition queue_Push :: "'a shm_queue \<Rightarrow> 'a \<Rightarrow> (int \<times> 'a shm_queue) option" where
  "queue_Push q v =
     (if IsFull q then Some (-1, q)
      else do {
        nodes \<leftarrow> memwr (q_nodes q) (q_rear q) [v];
        Some (0, q\<lparr>q_nodes := nodes, q_rear := add32 (q_rear q) 1 mod q_size q\<rparr>)
      })"

definition queue_Pop :: "'a shm_queue \<Rightarrow> 'a \<Rightarrow> (int \<times> 'a \<times> 'a shm_queue) option" where
  "queue_Pop q v =
     (if IsEmpty q then Some (-1, v, q)
      else do {
        vs \<leftarrow> memrd (q_nodes q) (q_front q) 1;
        Some (0, hd vs, q\<lparr>q_front := add32 (q_front q) 1 mod q_size q\<rparr>)
      })"

definition queue_Clean :: "'a shm_queue \<Rightarrow> 'a shm_queue" where
  "queue_Clean q = q\<lparr>q_front := 0, q_rear := 0\<rparr>"

text \<open>
  \<open>Init\<close>: the return codes of the semaphore and of the segment, whether the segment was
  created (\<open>tmp_init\<close>), the size of the segment and of its parts, and what the segment
  holds.  The size computation is \<open>size_t\<close> arithmetic stored in an \<open>unsigned int\<close>;
  the final \<open>assert\<close> aborts on a size of zero.
\<close>

definition queue_Init ::
  "int \<Rightarrow> int \<Rightarrow> int \<Rightarrow> nat \<Rightarrow> nat \<Rightarrow> nat \<Rightarrow> 'a shm_queue \<Rightarrow> (int \<times> 'a shm_queue) option" where
  "queue_Init sem_rc shm_rc tmp_init shm_size head_size node_size seg =
     (if sem_rc \<noteq> 0 then Some (-1, seg)
      else if shm_rc \<noteq> 0 then Some (-2, seg)
      else let seg' = (if tmp_init \<noteq> 0
                       then seg\<lparr>q_front := 0, q_rear := 0,
                                q_size := (((shm_size + 2 ^ 64 - head_size) mod 2 ^ 64)
                                           div node_size + 1) mod 2 ^ 32\<rparr>
                       else seg)
           in if q_size seg' \<noteq> 0 then Some (0, seg') else None)"

section \<open>The queue is a bounded FIFO\<close>

definition queue_inv :: "'a shm_queue \<Rightarrow> bool" where
  "queue_inv q \<longleftrightarrow> 0 < q_size q \<and> q_size q \<le> 2 ^ 31 \<and> q_size q \<le> length (q_nodes q) \<and>
     q_front q < q_size q \<and> q_rear q < q_size q"

definition queue_count :: "'a shm_queue \<Rightarrow> nat" where
  "queue_count q = (if q_front q \<le> q_rear q then q_rear q - q_front q
                    else q_rear q + q_size q - q_front q)"

definition queue_list :: "'a shm_queue \<Rightarrow> 'a list" where
  "queue_list q = map (\<lambda>i. q_nodes q ! ((q_front q + i) mod q_size q)) [0..<queue_count q]"

definition queue_rep :: "'a shm_queue \<Rightarrow> 'a list \<Rightarrow> bool" where
  "queue_rep q xs \<longleftrightarrow> queue_inv q \<and> queue_list q = xs"

definition queue_put :: "'a shm_queue \<Rightarrow> 'a \<Rightarrow> (bool \<times> 'a shm_queue) option" where
  "queue_put q v = map_option (\<lambda>(r, q'). (r = 0, q')) (queue_Push q v)"

definition queue_get :: "'a \<Rightarrow> 'a shm_queue \<Rightarrow> ('a option \<times> 'a shm_queue) option" where
  "queue_get v0 q = map_option (\<lambda>(r, v, q'). (if r = 0 then Some v else None, q')) (queue_Pop q v0)"

lemma length_queue_list [simp]: "length (queue_list q) = queue_count q"
  by (simp add: queue_list_def)

lemma succ_mod: "i < n \<Longrightarrow> Suc i mod n = (if Suc i = n then 0 else Suc i)"
  by simp

lemma IsFull_iff: "queue_inv q \<Longrightarrow> IsFull q \<longleftrightarrow> queue_count q = q_size q - 1"
  by (auto simp: IsFull_def queue_inv_def queue_count_def succ_mod)

lemma IsEmpty_iff: "queue_inv q \<Longrightarrow> IsEmpty q \<longleftrightarrow> queue_count q = 0"
  by (auto simp: IsEmpty_def queue_inv_def queue_count_def)

lemma queue_count_lt: "queue_inv q \<Longrightarrow> queue_count q < q_size q"
  by (auto simp: queue_inv_def queue_count_def)

lemma queue_rear_eq: "queue_inv q \<Longrightarrow> q_rear q = (q_front q + queue_count q) mod q_size q"
  by (auto simp: queue_inv_def queue_count_def)

lemma queue_Push_not_full:
  assumes "queue_inv q" "\<not> IsFull q"
  shows "\<exists>q'. queue_Push q v = Some (0, q') \<and> queue_inv q' \<and> queue_list q' = queue_list q @ [v] \<and>
           queue_count q' = Suc (queue_count q)"
proof -
  let ?n = "q_size q"
  let ?q = "q\<lparr>q_nodes := overlay (q_nodes q) (q_rear q) [v], q_rear := Suc (q_rear q) mod ?n\<rparr>"
  note inv = assms(1) [unfolded queue_inv_def]
  have push: "queue_Push q v = Some (0, ?q)"
    using inv assms(2) by (simp add: queue_Push_def mem_simps)
  have inv': "queue_inv ?q" using inv by (simp add: queue_inv_def)
  have cnt: "queue_count ?q = Suc (queue_count q)"
    using inv assms(2) IsFull_iff [OF assms(1)]
    by (auto simp: queue_count_def succ_mod split: if_splits)
  have "queue_list ?q ! i = (queue_list q @ [v]) ! i" if i: "i < Suc (queue_count q)" for i
  proof -
    have lt: "(q_front q + i) mod ?n < length (q_nodes q)"
      using inv by (meson mod_less_divisor order_less_le_trans)
    have ne: "(q_front q + i) mod ?n = q_rear q \<longleftrightarrow> i = queue_count q"
      using inv i queue_count_lt [OF assms(1)]
      by (auto simp: queue_count_def mod_if split: if_splits)
    have "queue_list ?q ! i = overlay (q_nodes q) (q_rear q) [v] ! ((q_front q + i) mod ?n)"
      using i cnt by (simp add: queue_list_def del: upt_Suc)
    also have "\<dots> = (q_nodes q)[q_rear q := v] ! ((q_front q + i) mod ?n)"
      using inv by (simp add: overlay_single)
    also have "\<dots> = (queue_list q @ [v]) ! i"
    proof (cases "i = queue_count q")
      case True
      with ne lt show ?thesis by (simp add: nth_append)
    next
      case False
      with ne i have "(q_front q + i) mod ?n \<noteq> q_rear q" "i < queue_count q" by simp_all
      then show ?thesis by (simp add: nth_append) (simp add: queue_list_def)
    qed
    finally show ?thesis .
  qed
  then have "queue_list ?q = queue_list q @ [v]"
    by (intro nth_equalityI) (simp_all add: cnt)
  with push inv' cnt show ?thesis by blast
qed

lemma queue_Pop_not_empty:
  assumes "queue_inv q" "queue_list q = x # xs"
  shows "\<exists>q'. queue_Pop q v = Some (0, x, q') \<and> queue_inv q' \<and> queue_list q' = xs"
proof -
  let ?n = "q_size q"
  let ?q = "q\<lparr>q_front := Suc (q_front q) mod ?n\<rparr>"
  note inv = assms(1) [unfolded queue_inv_def]
  have ne: "0 < queue_count q" using assms(2) length_queue_list [of q] by simp
  have x: "x = q_nodes q ! q_front q"
    using arg_cong [OF assms(2), of "\<lambda>l. l ! 0"] ne inv
    by (simp add: queue_list_def del: nth_map_upt)
  have pop: "queue_Pop q v = Some (0, x, ?q)"
    using inv ne IsEmpty_iff [OF assms(1)] x
    by (simp add: queue_Pop_def mem_simps slice_def hd_drop_conv_nth take_Suc)
  have inv': "queue_inv ?q" using inv by (simp add: queue_inv_def)
  have cnt: "Suc (queue_count ?q) = queue_count q"
    using inv ne by (auto simp: queue_count_def succ_mod split: if_splits)
  have "queue_list q = q_nodes q ! q_front q # queue_list ?q"
    using inv cnt [symmetric]
    by (simp add: queue_list_def upt_conv_Cons map_Suc_upt [symmetric] mod_add_left_eq
        del: upt_Suc map_Suc_upt)
  with assms(2) have "queue_list ?q = xs" by simp
  with pop inv' show ?thesis by blast
qed

interpretation shmq: bounded_fifo queue_put "queue_get v0" queue_rep "\<lambda>_. True" for v0
proof unfold_locales
  fix q :: "'a shm_queue" and xs x
  assume "queue_rep q xs"
  then show "\<exists>b q'. queue_put q x = Some (b, q') \<and> queue_rep q' (if b then xs @ [x] else xs)"
    using queue_Push_not_full [of q x]
    by (cases "IsFull q") (auto simp: queue_put_def queue_rep_def queue_Push_def)
next
  fix q :: "'a shm_queue" and x xs
  assume "queue_rep q (x # xs)"
  then show "\<exists>q'. queue_get v0 q = Some (Some x, q') \<and> queue_rep q' xs"
    using queue_Pop_not_empty [of q x xs v0] by (auto simp: queue_get_def queue_rep_def)
next
  fix q :: "'a shm_queue"
  assume "queue_rep q []"
  then show "\<exists>q'. queue_get v0 q = Some (None, q') \<and> queue_rep q' []"
    using IsEmpty_iff [of q] length_queue_list [of q]
    by (auto simp: queue_get_def queue_rep_def queue_Pop_def)
qed


text \<open>
  However pushes and pops on a \<open>CShmQueue\<close> are interleaved, no operation leaves the
  node area, and what was popped followed by what is left is what was there followed by
  the elements whose \<open>Push\<close> returned 0, in order: first in, first out, nothing lost or
  duplicated.
\<close>

theorem shm_queue_run_fifo:
  assumes "queue_inv q"
  shows "\<exists>acc del t. fifo_run queue_put (queue_get v0) q ops = Some (acc, del, t) \<and>
           queue_inv t \<and> queue_list q @ acc = del @ queue_list t"
  using shmq.run_law [of q "queue_list q" ops v0] assms
  by (auto simp: queue_rep_def list_all_iff elim: op_ok.elims)
    (metis (full_types) op_ok.elims(3))

theorem shm_queue_run_fifo_witness:
  "\<exists>acc del t. fifo_run queue_put (queue_get 0)
      \<lparr>q_front = 2, q_rear = 2, q_size = 3, q_nodes = [0, 0, 0 :: nat]\<rparr>
      [Put 5, Put 6, Get, Put 7] = Some (acc, del, t) \<and> queue_inv t \<and>
      queue_list \<lparr>q_front = 2, q_rear = 2, q_size = 3, q_nodes = [0, 0, 0 :: nat]\<rparr> @ acc
        = del @ queue_list t"
  by (rule shm_queue_run_fifo) (simp add: queue_inv_def)

text \<open>
  The observers of a \<open>CShmQueue\<close> agree with its contents: \<open>Size\<close> is the number of
  elements, \<open>Empty\<close> and \<open>Full\<close> are exact, one slot of \<open>Length\<close> is never used, and
  \<open>Push\<close> fails with -1 (changing nothing) exactly on a full queue, \<open>Pop\<close> exactly on an
  empty one.
\<close>

theorem shm_queue_observers:
  assumes "queue_inv q"
  shows "queue_Size q = length (queue_list q) \<and>
     (queue_Empty q \<longleftrightarrow> queue_list q = []) \<and>
     (queue_Full q \<longleftrightarrow> length (queue_list q) = queue_Length q - 1) \<and>
     length (queue_list q) < queue_Length q \<and>
     (queue_Push q v = Some (-1, q) \<longleftrightarrow> queue_Full q) \<and>
     (queue_Pop q w = Some (-1, w, q) \<longleftrightarrow> queue_Empty q)"
proof (intro conjI)
  note inv = assms [unfolded queue_inv_def]
  show "queue_Size q = length (queue_list q)"
    using inv by (auto simp: queue_Size_def queue_count_def sub32_small mod_if)
  show "queue_Empty q \<longleftrightarrow> queue_list q = []"
    using IsEmpty_iff [OF assms] length_queue_list [of q]
    by (metis length_0_conv queue_Empty_def)
  show "queue_Full q \<longleftrightarrow> length (queue_list q) = queue_Length q - 1"
    using IsFull_iff [OF assms] by (simp add: queue_Full_def queue_Length_def)
  show "length (queue_list q) < queue_Length q"
    using queue_count_lt [OF assms] by (simp add: queue_Length_def)
  show "queue_Push q v = Some (-1, q) \<longleftrightarrow> queue_Full q"
    using inv by (auto simp: queue_Push_def queue_Full_def mem_simps)
  show "queue_Pop q w = Some (-1, w, q) \<longleftrightarrow> queue_Empty q"
    using inv by (auto simp: queue_Pop_def queue_Empty_def mem_simps)
qed

theorem shm_queue_observers_witness:
  "queue_Full \<lparr>q_front = 1, q_rear = 0, q_size = 2, q_nodes = [8, 9 :: nat]\<rparr> \<longleftrightarrow>
   length (queue_list \<lparr>q_front = 1, q_rear = 0, q_size = 2, q_nodes = [8, 9 :: nat]\<rparr>) =
   queue_Length \<lparr>q_front = 1, q_rear = 0, q_size = 2, q_nodes = [8, 9 :: nat]\<rparr> - 1"
  using shm_queue_observers [of "\<lparr>q_front = 1, q_rear = 0, q_size = 2, q_nodes = [8, 9 :: nat]\<rparr>"]
  by (simp add: queue_inv_def)

section \<open>CShmStack\<close>

record 'a shm_stack =
  s_TotalItemNum :: nat
  s_CurItemNum :: nat
  s_nodes :: "'a list"

definition stack_Init ::
  "int \<Rightarrow> int \<Rightarrow> int \<Rightarrow> nat \<Rightarrow> nat \<Rightarrow> nat \<Rightarrow> 'a shm_stack \<Rightarrow> int \<times> 'a shm_stack" where
  "stack_Init sem_rc shm_rc tmp_init shm_size head_size node_size seg =
     (if sem_rc \<noteq> 0 then (-1, seg)
      else if shm_rc \<noteq> 0 then (-2, seg)
      else if tmp_init \<noteq> 0
           then (0, seg\<lparr>s_TotalItemNum := (((shm_size + 2 ^ 64 - head_size) mod 2 ^ 64)
                                           div node_size + 1) mod 2 ^ 64,
                        s_CurItemNum := 0\<rparr>)
           else (0, seg))"

definition stack_Size :: "'a shm_stack \<Rightarrow> nat" where
  "stack_Size s = s_CurItemNum s"

definition stack_Empty :: "'a shm_stack \<Rightarrow> bool" where
  "stack_Empty s = (stack_Size s = 0)"

definition stack_Push :: "'a shm_stack \<Rightarrow> 'a \<Rightarrow> (int \<times> 'a shm_stack) option" where
  "stack_Push s v =
     (if s_CurItemNum s \<ge> s_TotalItemNum s then Some (-1, s)
      else do {
        nodes \<leftarrow> memwr (s_nodes s) (s_CurItemNum s) [v];
        Some (0, s\<lparr>s_nodes := nodes, s_CurItemNum := s_CurItemNum s + 1\<rparr>)
      })"

definition stack_Pop :: "'a shm_stack \<Rightarrow> 'a \<Rightarrow> (int \<times> 'a \<times> 'a shm_stack) option" where
  "stack_Pop s v =
     (if s_CurItemNum s = 0 then Some (-1, v, s)
      else do {
        vs \<leftarrow> memrd (s_nodes s) (s_CurItemNum s - 1) 1;
        Some (0, hd vs, s\<lparr>s_CurItemNum := s_CurItemNum s - 1\<rparr>)
      })"

definition stack_inv :: "'a shm_stack \<Rightarrow> bool" where
  "stack_inv s \<longleftrightarrow> s_CurItemNum s \<le> s_TotalItemNum s \<and> s_TotalItemNum s \<le> length (s_nodes s) \<and>
     length (s_nodes s) < 2 ^ 63"

definition stack_list :: "'a shm_stack \<Rightarrow> 'a list" where
  "stack_list s = rev (take (s_CurItemNum s) (s_nodes s))"

lemma stack_Push_room:
  "stack_inv s \<Longrightarrow> length (stack_list s) < s_TotalItemNum s \<Longrightarrow>
   \<exists>s'. stack_Push s v = Some (0, s') \<and> stack_inv s' \<and> s_TotalItemNum s' = s_TotalItemNum s \<and>
     stack_list s' = v # stack_list s"
  by (auto simp: stack_Push_def mem_simps stack_list_def stack_inv_def overlay_single
      take_Suc_conv_app_nth)

lemma stack_Push_full:
  "stack_inv s \<Longrightarrow> \<not> length (stack_list s) < s_TotalItemNum s \<Longrightarrow> stack_Push s v = Some (-1, s)"
  by (auto simp: stack_Push_def stack_list_def stack_inv_def)

lemma stack_Pop_spec:
  assumes "stack_inv s"
  shows "\<exists>s'. stack_inv s' \<and> s_TotalItemNum s' = s_TotalItemNum s \<and>
           stack_Pop s w = Some (if stack_list s = [] then -1 else 0,
                                 if stack_list s = [] then w else hd (stack_list s), s') \<and>
           stack_list s' = tl (stack_list s)"
proof (cases "s_CurItemNum s")
  case 0
  with assms show ?thesis
    by (intro exI [of _ s]) (simp add: stack_Pop_def stack_list_def stack_inv_def)
next
  case (Suc n)
  with assms have "stack_list s = s_nodes s ! n # rev (take n (s_nodes s))"
    by (simp add: stack_list_def stack_inv_def take_Suc_conv_app_nth)
  with assms Suc show ?thesis
    by (intro exI [of _ "s\<lparr>s_CurItemNum := n\<rparr>"])
      (simp add: stack_Pop_def mem_simps slice_def hd_drop_conv_nth stack_inv_def
        stack_list_def take_Suc)
qed

text \<open>
  \<open>CShmStack\<close> is a bounded stack: on a well-formed stack \<open>Push\<close> conses the element
  unless \<open>TotalItemNum\<close> elements are inside (then it returns -1 and changes nothing), and
  \<open>Pop\<close> takes the most recent element off, or returns -1 on the empty stack; neither
  ever leaves the node area and both keep the stack well formed.
\<close>

theorem shm_stack_refines:
  assumes "stack_inv s"
  shows "(if length (stack_list s) < s_TotalItemNum s
          then \<exists>s'. stack_Push s v = Some (0, s') \<and> stack_inv s' \<and>
                 s_TotalItemNum s' = s_TotalItemNum s \<and> stack_list s' = v # stack_list s
          else stack_Push s v = Some (-1, s)) \<and>
     (\<exists>s'. stack_inv s' \<and> s_TotalItemNum s' = s_TotalItemNum s \<and>
           stack_Pop s w = Some (if stack_list s = [] then -1 else 0,
                                 if stack_list s = [] then w else hd (stack_list s), s') \<and>
           stack_list s' = tl (stack_list s))"
  using stack_Push_room [OF assms] stack_Push_full [OF assms] stack_Pop_spec [OF assms] by simp

theorem shm_stack_refines_witness:
  "\<exists>s'. stack_Push \<lparr>s_TotalItemNum = 2, s_CurItemNum = 1, s_nodes = [4, 0 :: nat]\<rparr> 9 = Some (0, s') \<and>
     stack_list s' = [9, 4]"
  using shm_stack_refines [of "\<lparr>s_TotalItemNum = 2, s_CurItemNum = 1, s_nodes = [4, 0 :: nat]\<rparr>" 9]
  by (auto simp: stack_inv_def stack_list_def)

section \<open>CShmArray and CShmRWArray\<close>

record 'a data_item =
  item_flag :: byte
  item_data :: 'a

record 'a shm_array =
  a_ArraySize :: nat
  a_Nodes :: "'a data_item list"

definition array_Init ::
  "int \<Rightarrow> int \<Rightarrow> int \<Rightarrow> nat \<Rightarrow> nat \<Rightarrow> nat \<Rightarrow> 'a shm_array \<Rightarrow> int \<times> 'a shm_array" where
  "array_Init sem_rc shm_rc tmp_init shm_size head_size item_size seg =
     (if sem_rc \<noteq> 0 then (-1, seg)
      else if shm_rc \<noteq> 0 then (-2, seg)
      else if tmp_init \<noteq> 0
           then (0, seg\<lparr>a_ArraySize := (((shm_size + 2 ^ 64 - head_size) mod 2 ^ 64)
                                        div item_size + 1) mod 2 ^ 64\<rparr>)
           else (0, seg))"

definition array_Length :: "'a shm_array \<Rightarrow> nat" where
  "array_Length a = a_ArraySize a"

definition array_SetValue :: "'a shm_array \<Rightarrow> nat \<Rightarrow> 'a \<Rightarrow> (int \<times> 'a shm_array) option" where
  "array_SetValue a idx v =
     (if idx \<ge> a_ArraySize a then Some (-1, a)
      else do {
        nodes \<leftarrow> memwr (a_Nodes a) idx [\<lparr>item_flag = 1, item_data = v\<rparr>];
        Some (0, a\<lparr>a_Nodes := nodes\<rparr>)
      })"

definition array_GetValue :: "'a shm_array \<Rightarrow> nat \<Rightarrow> 'a \<Rightarrow> (int \<times> 'a) option" where
  "array_GetValue a idx v =
     (if idx \<ge> a_ArraySize a then Some (-1, v)
      else do {
        its \<leftarrow> memrd (a_Nodes a) idx 1;
        (if item_flag (hd its) \<noteq> 1 then Some (-2, v) else Some (0, item_data (hd its)))
      })"

definition array_Delete :: "'a shm_array \<Rightarrow> nat \<Rightarrow> (int \<times> 'a shm_array) option" where
  "array_Delete a idx =
     (if idx \<ge> a_ArraySize a then Some (-1, a)
      else do {
        its \<leftarrow> memrd (a_Nodes a) idx 1;
        nodes \<leftarrow> memwr (a_Nodes a) idx [(hd its)\<lparr>item_flag := 0\<rparr>];
        Some (0, a\<lparr>a_Nodes := nodes\<rparr>)
      })"

text \<open>
  The read/write-locked array keeps the number of lock stripes in front of the array; an
  operation on \<open>idx\<close> takes the stripe \<open>idx mod rwlock_num\<close>, which each operation returns
  beside its result.  \<open>rwarray_Init\<close> gets the items that memory shows when it is laid out
  for \<open>rwlock_num\<close> stripes; \<open>sz_atomic\<close>, \<open>sz_rwlock\<close>, \<open>head_size\<close> and \<open>item_size\<close> are
  the sizes of the C types.
\<close>

record 'a rw_array =
  rw_rwlock_num :: nat
  rw_array :: "'a shm_array"

definition rwarray_Init ::
  "int \<Rightarrow> int \<Rightarrow> int \<Rightarrow> nat \<Rightarrow> nat \<Rightarrow> nat \<Rightarrow> nat \<Rightarrow> nat \<Rightarrow> nat \<Rightarrow>
   (nat \<Rightarrow> 'a shm_array) \<Rightarrow> 'a rw_array \<Rightarrow> int \<times> 'a rw_array" where
  "rwarray_Init sem_rc shm_rc tmp_init0 shm_size rwlock_num sz_atomic sz_rwlock head_size item_size
                area seg =
     (if sem_rc \<noteq> 0 then (-1, seg)
      else if shm_rc \<noteq> 0 then (-2, seg)
      else let tmp_init = (if tmp_init0 = 0 \<and> rw_rwlock_num seg \<noteq> rwlock_num then -1 else tmp_init0);
               head_pos = sz_atomic + sz_rwlock * rwlock_num
           in if head_pos + head_size > shm_size then (-3, seg)
              else if tmp_init \<noteq> 0
                   then (0, \<lparr>rw_rwlock_num = rwlock_num,
                             rw_array = (area rwlock_num)\<lparr>a_ArraySize :=
                               (shm_size - head_size - sz_rwlock * rwlock_num - sz_atomic)
                                 div item_size + 1\<rparr>\<rparr>)
                   else (0, seg\<lparr>rw_array := area rwlock_num\<rparr>))"

definition rwarray_Length :: "'a rw_array \<Rightarrow> nat" where
  "rwarray_Length a = a_ArraySize (rw_array a)"

definition rwarray_SetValue ::
  "'a rw_array \<Rightarrow> nat \<Rightarrow> 'a \<Rightarrow> (int \<times> nat option \<times> 'a rw_array) option" where
  "rwarray_SetValue a idx v =
     (if idx \<ge> rwarray_Length a then Some (-1, None, a)
      else do {
        nodes \<leftarrow> memwr (a_Nodes (rw_array a)) idx [\<lparr>item_flag = 1, item_data = v\<rparr>];
        Some (0, Some (idx mod rw_rwlock_num a),
              a\<lparr>rw_array := (rw_array a)\<lparr>a_Nodes := nodes\<rparr>\<rparr>)
      })"

definition rwarray_GetValue :: "'a rw_array \<Rightarrow> nat \<Rightarrow> 'a \<Rightarrow> (int \<times> nat option \<times> 'a) option" where
  "rwarray_GetValue a idx v =
     (if idx \<ge> rwarray_Length a then Some (-1, None, v)
      else do {
        its \<leftarrow> memrd (a_Nodes (rw_array a)) idx 1;
        (if item_flag (hd its) \<noteq> 1 then Some (-2, Some (idx mod rw_rwlock_num a), v)
         else Some (0, Some (idx mod rw_rwlock_num a), item_data (hd its)))
      })"

definition rwarray_Delete :: "'a rw_array \<Rightarrow> nat \<Rightarrow> (int \<times> nat option \<times> 'a rw_array) option" where
  "rwarray_Delete a idx =
     (if idx \<ge> rwarray_Length a then Some (-1, None, a)
      else do {
        its \<leftarrow> memrd (a_Nodes (rw_array a)) idx 1;
        nodes \<leftarrow> memwr (a_Nodes (rw_array a)) idx [(hd its)\<lparr>item_flag := 0\<rparr>];
        Some (0, Some (idx mod rw_rwlock_num a),
              a\<lparr>rw_array := (rw_array a)\<lparr>a_Nodes := nodes\<rparr>\<rparr>)
      })"

definition array_inv :: "'a shm_array \<Rightarrow> bool" where
  "array_inv a \<longleftrightarrow> a_ArraySize a \<le> length (a_Nodes a)"

text \<open>What an array holds: the elements set and not deleted, by index.\<close>

definition array_map :: "'a shm_array \<Rightarrow> nat \<rightharpoonup> 'a" where
  "array_map a = (\<lambda>i. if i < a_ArraySize a \<and> item_flag (a_Nodes a ! i) = 1
                      then Some (item_data (a_Nodes a ! i)) else None)"

lemma hd_slice_1: "i < length m \<Longrightarrow> hd (slice m i (Suc 0)) = m ! i"
  by (simp add: slice_def hd_drop_conv_nth take_Suc)

lemma array_map_update:
  "array_inv a \<Longrightarrow> idx < a_ArraySize a \<Longrightarrow>
   array_map (a\<lparr>a_Nodes := overlay (a_Nodes a) idx [it]\<rparr>) =
     (array_map a)(idx := if item_flag it = 1 then Some (item_data it) else None)"
  by (rule ext) (auto simp: array_map_def array_inv_def overlay_single nth_list_update)

lemmas array_defs =
  array_SetValue_def array_GetValue_def array_Delete_def
  rwarray_SetValue_def rwarray_GetValue_def rwarray_Delete_def rwarray_Length_def

lemma array_GetValue_map:
  "array_inv a \<Longrightarrow> array_GetValue a idx w =
     Some (if idx < array_Length a
           then (case array_map a idx of None \<Rightarrow> (-2, w) | Some v \<Rightarrow> (0, v)) else (-1, w))"
  by (auto simp: array_GetValue_def array_Length_def mem_simps hd_slice_1 array_inv_def array_map_def)

lemma array_SetValue_map:
  "array_inv a \<Longrightarrow> idx < array_Length a \<Longrightarrow>
   \<exists>b. array_SetValue a idx v = Some (0, b) \<and> array_inv b \<and> array_Length b = array_Length a \<and>
       array_map b = (array_map a)(idx \<mapsto> v)"
  by (intro exI [of _ "a\<lparr>a_Nodes := overlay (a_Nodes a) idx [\<lparr>item_flag = 1, item_data = v\<rparr>]\<rparr>"])
    (simp add: array_map_update array_Length_def array_SetValue_def mem_simps array_inv_def)

lemma array_Delete_map:
  "array_inv a \<Longrightarrow> idx < array_Length a \<Longrightarrow>
   \<exists>b. array_Delete a idx = Some (0, b) \<and> array_inv b \<and> array_Length b = array_Length a \<and>
       array_map b = (array_map a)(idx := None)"
  by (intro exI [of _ "a\<lparr>a_Nodes := overlay (a_Nodes a) idx [(a_Nodes a ! idx)\<lparr>item_flag := 0\<rparr>]\<rparr>"])
    (simp add: array_map_update array_Length_def array_Delete_def mem_simps array_inv_def hd_slice_1)

text \<open>
  C8: \<open>CShmArray\<close> implements a partial map from the indices below \<open>Length\<close>: \<open>SetValue\<close>
  updates it, \<open>Delete\<close> removes the binding, \<open>GetValue\<close> returns 0 and the value, -2 when
  nothing is bound (never set, or deleted) and -1 out of range; the operations never leave
  the node area.
\<close>

theorem shm_array_is_map:
  assumes "array_inv a"
  shows "array_GetValue a idx w =
           Some (if idx < array_Length a
                 then (case array_map a idx of None \<Rightarrow> (-2, w) | Some v \<Rightarrow> (0, v)) else (-1, w)) \<and>
     (idx < array_Length a \<longrightarrow>
        (\<exists>b. array_SetValue a idx v = Some (0, b) \<and> array_inv b \<and> array_Length b = array_Length a \<and>
             array_map b = (array_map a)(idx \<mapsto> v)) \<and>
        (\<exists>b. array_Delete a idx = Some (0, b) \<and> array_inv b \<and> array_Length b = array_Length a \<and>
             array_map b = (array_map a)(idx := None))) \<and>
     (\<not> idx < array_Length a \<longrightarrow> array_SetValue a idx v = Some (-1, a) \<and> array_Delete a idx = Some (-1, a))"
  using array_GetValue_map [OF assms] array_SetValue_map [OF assms] array_Delete_map [OF assms]
  by (simp add: array_SetValue_def array_Delete_def array_Length_def)

theorem shm_array_is_map_witness:
  "array_GetValue \<lparr>a_ArraySize = 1, a_Nodes = [\<lparr>item_flag = 1, item_data = 7 :: nat\<rparr>]\<rparr> 0 9
     = Some (0, 7)"
  using shm_array_is_map
    [of "\<lparr>a_ArraySize = 1, a_Nodes = [\<lparr>item_flag = 1, item_data = 7 :: nat\<rparr>]\<rparr>" 0 9]
  by (simp add: array_inv_def array_Length_def array_map_def)

text \<open>
  \<open>CShmRWArray\<close> computes what \<open>CShmArray\<close> computes on the same items, and every
  access in range is made under the lock stripe of its index, so that two accesses to one
  index always take the same stripe, which is one of the \<open>rwlock_num\<close> stripes.
\<close>

theorem shm_rwarray_refines_array:
  assumes "0 < rw_rwlock_num a" and "array_inv (rw_array a)"
  shows "map_option (\<lambda>(r, l, b). (r, rw_array b)) (rwarray_SetValue a idx v)
           = array_SetValue (rw_array a) idx v \<and>
     map_option (\<lambda>(r, l, x). (r, x)) (rwarray_GetValue a idx w) = array_GetValue (rw_array a) idx w \<and>
     map_option (\<lambda>(r, l, b). (r, rw_array b)) (rwarray_Delete a idx)
           = array_Delete (rw_array a) idx \<and>
     (\<forall>l \<in> {map_option (\<lambda>(r, l, b). l) (rwarray_SetValue a idx v),
            map_option (\<lambda>(r, l, x). l) (rwarray_GetValue a idx w),
            map_option (\<lambda>(r, l, b). l) (rwarray_Delete a idx)}.
        l = Some (if idx < rwarray_Length a then Some (idx mod rw_rwlock_num a) else None)) \<and>
     idx mod rw_rwlock_num a < rw_rwlock_num a"
  using assms
  by (auto simp: array_defs array_inv_def mem_simps hd_slice_1)

theorem shm_rwarray_refines_array_witness:
  "map_option (\<lambda>(r, l, x). (r, x)) (rwarray_GetValue \<lparr>rw_rwlock_num = 32,
      rw_array = \<lparr>a_ArraySize = 1, a_Nodes = [\<lparr>item_flag = 1, item_data = 7 :: nat\<rparr>]\<rparr>\<rparr> 0 9)
     = array_GetValue \<lparr>a_ArraySize = 1, a_Nodes = [\<lparr>item_flag = 1, item_data = 7 :: nat\<rparr>]\<rparr> 0 9"
  using shm_rwarray_refines_array [of "\<lparr>rw_rwlock_num = 32,
      rw_array = \<lparr>a_ArraySize = 1, a_Nodes = [\<lparr>item_flag = 1, item_data = 7 :: nat\<rparr>]\<rparr>\<rparr>" 0 9 9]
  by (simp add: array_inv_def)

end
