(* ===== verification/Ring.thy ===== *)
theory Ring
  imports Prelude
begin

text \<open>
  Reading and writing a run of bytes in a ring of \<open>length m\<close> bytes, when the position may
  be anything from 0 up to and including the length, as \<open>CShmMQ\<close> keeps it: a run that
  ends exactly at the end leaves the position there, the next run then starts at 0.
\<close>

definition ring_adv :: "nat \<Rightarrow> nat \<Rightarrow> nat \<Rightarrow> nat" where
  "ring_adv N p n = (if p + n \<le> N then p + n else p + n - N)"

definition ring_read :: "'a list \<Rightarrow> nat \<Rightarrow> nat \<Rightarrow> 'a list" where
  "ring_read m p n =
     (if p + n \<le> length m then slice m p n
      else slice m p (length m - p) @ slice m 0 (n - (length m - p)))"

definition ring_write :: "'a list \<Rightarrow> nat \<Rightarrow> 'a list \<Rightarrow> 'a list" where
  "ring_write m p xs =
     (if p + length xs \<le> length m then overlay m p xs
      else overlay (overlay m p (take (length m - p) xs)) 0 (drop (length m - p) xs))"

lemma ring_adv_le [simp]: "p \<le> N \<Longrightarrow> n \<le> N \<Longrightarrow> ring_adv N p n \<le> N"
  by (auto simp: ring_adv_def)

lemma ring_adv_0 [simp]: "p \<le> N \<Longrightarrow> ring_adv N p 0 = p"
  by (simp add: ring_adv_def)

lemma ring_adv_adv:
  "p \<le> N \<Longrightarrow> a + b < N \<Longrightarrow> ring_adv N (ring_adv N p a) b = ring_adv N p (a + b)"
  by (auto simp: ring_adv_def)

lemma ring_adv_eq_iff: "p \<le> N \<Longrightarrow> n < N \<Longrightarrow> ring_adv N p n = p \<longleftrightarrow> n = 0"
  by (auto simp: ring_adv_def)

lemma length_ring_read [simp]: "p \<le> length m \<Longrightarrow> n \<le> length m \<Longrightarrow> length (ring_read m p n) = n"
  by (auto simp: ring_read_def)

lemma length_ring_write [simp]:
  "p \<le> length m \<Longrightarrow> length xs \<le> length m \<Longrightarrow> length (ring_write m p xs) = length m"
  by (auto simp: ring_write_def)

text \<open>The byte at offset \<open>i\<close> of a run that starts at \<open>p\<close>.\<close>

definition ring_ix :: "nat \<Rightarrow> nat \<Rightarrow> nat \<Rightarrow> nat" where
  "ring_ix N p i = (if p + i < N then p + i else p + i - N)"

lemma ring_ix_lt: "p \<le> N \<Longrightarrow> i < N \<Longrightarrow> ring_ix N p i < N"
  by (auto simp: ring_ix_def)

lemma ring_ix_inj:
  "p \<le> N \<Longrightarrow> i < N \<Longrightarrow> j < N \<Longrightarrow> ring_ix N p i = ring_ix N p j \<longleftrightarrow> i = j"
  by (auto simp: ring_ix_def)

lemma ring_ix_adv:
  "p \<le> N \<Longrightarrow> a + i < N \<Longrightarrow> ring_ix N (ring_adv N p a) i = ring_ix N p (a + i)"
  by (auto simp: ring_ix_def ring_adv_def)

lemma nth_ring_read:
  "p \<le> length m \<Longrightarrow> n \<le> length m \<Longrightarrow> i < n \<Longrightarrow> ring_read m p n ! i = m ! ring_ix (length m) p i"
  by (auto simp: ring_read_def ring_ix_def nth_slice nth_append ac_simps)

lemma nth_ring_write_in:
  assumes "p \<le> length m" "length xs \<le> length m" "i < length xs"
  shows "ring_write m p xs ! ring_ix (length m) p i = xs ! i"
  using assms by (auto simp: ring_write_def ring_ix_def nth_overlay)

lemma nth_ring_write_out:
  assumes "p \<le> length m" "length xs \<le> length m" "length xs \<le> i" "i < length m"
  shows "ring_write m p xs ! ring_ix (length m) p i = m ! ring_ix (length m) p i"
  using assms by (auto simp: ring_write_def ring_ix_def nth_overlay)

lemma ring_read_write_same:
  assumes "p \<le> length m" "length xs \<le> length m"
  shows "ring_read (ring_write m p xs) p (length xs) = xs"
proof (rule nth_equalityI)
  show "length (ring_read (ring_write m p xs) p (length xs)) = length xs" using assms by simp
  fix i assume "i < length (ring_read (ring_write m p xs) p (length xs))"
  then have "i < length xs" using assms by simp
  then show "ring_read (ring_write m p xs) p (length xs) ! i = xs ! i"
    using assms by (simp add: nth_ring_read nth_ring_write_in)
qed

lemma ring_read_append:
  "p \<le> length m \<Longrightarrow> a + b < length m \<Longrightarrow>
   ring_read m p (a + b) = ring_read m p a @ ring_read m (ring_adv (length m) p a) b"
  by (rule nth_equalityI) (auto simp: nth_ring_read nth_append ring_ix_adv)

text \<open>Writing behind the used part does not disturb it: the used part starts at \<open>h\<close> and
  is \<open>n\<close> long, the written run starts where it ends.\<close>

lemma ring_read_write_behind:
  assumes "h \<le> length m" "n + length xs < length m"
  shows "ring_read (ring_write m (ring_adv (length m) h n) xs) h n = ring_read m h n"
proof (rule nth_equalityI)
  let ?N = "length m" let ?t = "ring_adv ?N h n"
  have t: "?t \<le> ?N" using assms by simp
  show "length (ring_read (ring_write m ?t xs) h n) = length (ring_read m h n)"
    using assms t by simp
  fix i assume "i < length (ring_read (ring_write m ?t xs) h n)"
  then have i: "i < n" using assms t by simp
  have off: "ring_ix ?N h i = ring_ix ?N ?t (?N - n + i)"
    using assms i by (auto simp: ring_ix_def ring_adv_def)
  have "ring_read (ring_write m ?t xs) h n ! i = ring_write m ?t xs ! ring_ix ?N h i"
    using assms i t by (simp add: nth_ring_read)
  also have "\<dots> = m ! ring_ix ?N h i"
    using assms i t by (simp add: off nth_ring_write_out)
  also have "\<dots> = ring_read m h n ! i"
    using assms i by (simp add: nth_ring_read)
  finally show "ring_read (ring_write m ?t xs) h n ! i = ring_read m h n ! i" .
qed

text \<open>A ring that holds the bytes \<open>xs\<close> between its head and its tail.\<close>

definition ring_holds :: "'a list \<Rightarrow> nat \<Rightarrow> nat \<Rightarrow> 'a list \<Rightarrow> bool" where
  "ring_holds m h t xs \<longleftrightarrow> h \<le> length m \<and> length xs < length m \<and>
     t = ring_adv (length m) h (length xs) \<and> ring_read m h (length xs) = xs"

lemma ring_holds_tail_le: "ring_holds m h t xs \<Longrightarrow> t \<le> length m"
  by (auto simp: ring_holds_def)

lemma ring_holds_empty_iff: "ring_holds m h t xs \<Longrightarrow> h = t \<longleftrightarrow> xs = []"
  using ring_adv_eq_iff [of h "length m" "length xs"] by (auto simp: ring_holds_def)

lemma ring_holds_used:
  "ring_holds m h t xs \<Longrightarrow> length xs = (if h \<le> t then t - h else t + length m - h)"
  by (auto simp: ring_holds_def ring_adv_def split: if_splits)

lemma ring_holds_append:
  assumes "ring_holds m h t xs" "length xs + length ys < length m"
  shows "ring_holds (ring_write m t ys) h (ring_adv (length m) t (length ys)) (xs @ ys)"
proof -
  let ?N = "length m"
  note r = assms(1) [unfolded ring_holds_def]
  have t: "t \<le> ?N" by (rule ring_holds_tail_le [OF assms(1)])
  have len: "length (ring_write m t ys) = ?N" using assms(2) t by simp
  have "ring_read (ring_write m t ys) h (length xs + length ys) =
        ring_read (ring_write m t ys) h (length xs) @
        ring_read (ring_write m t ys) (ring_adv ?N h (length xs)) (length ys)"
    using ring_read_append [of h "ring_write m t ys"] len r assms(2) by simp
  also have "\<dots> = xs @ ys"
    using ring_read_write_behind [of h m "length xs" ys] ring_read_write_same [of t m ys] r assms(2) t
    by simp
  finally show ?thesis
    using r assms(2) len ring_adv_adv [of h ?N "length xs" "length ys"] by (simp add: ring_holds_def)
qed

lemma ring_holds_split:
  assumes "ring_holds m h t (xs @ ys)"
  shows "ring_read m h (length xs) = xs" "ring_holds m (ring_adv (length m) h (length xs)) t ys"
proof -
  let ?N = "length m"
  note r = assms [unfolded ring_holds_def]
  have "ring_read m h (length xs) @ ring_read m (ring_adv ?N h (length xs)) (length ys) = xs @ ys"
    using ring_read_append [of h m "length xs" "length ys"] r by simp
  moreover have "length (ring_read m h (length xs)) = length xs" using r by simp
  ultimately have *: "ring_read m h (length xs) = xs"
    "ring_read m (ring_adv ?N h (length xs)) (length ys) = ys" by simp_all
  then show "ring_read m h (length xs) = xs" by simp
  show "ring_holds m (ring_adv ?N h (length xs)) t ys"
    using r * ring_adv_adv [of h ?N "length xs" "length ys"] by (simp add: ring_holds_def)
qed

end
