(* ===== verification/ShmMQ.thy ===== *)
theory ShmMQ
  imports Fifo Ring
begin

text \<open>
  The shared-memory message pipe \<open>CShmMQ\<close> (shmcommu.h, shmcommu.cpp) between the proxy
  and a worker group: a byte ring of \<open>blocksize_\<close> bytes with the positions \<open>head_\<close> and
  \<open>tail_\<close> in front of it, in which a message is a 27 byte header (time stamp, total
  length, flow, type, length of the extended data) followed by the data and the extended
  data.  \<open>enqueue\<close> and \<open>dequeue_i\<close> copy byte runs with one case for each place where the
  end of the ring can fall; the abstraction is the list of messages.  The layout is the
  LP64 one: \<open>struct timeval\<close> has 16 bytes, \<open>size_t\<close> 64 bits.
\<close>

section \<open>Data\<close>

record timeval =
  tv_sec :: nat
  tv_usec :: nat

record blob =
  b_len :: int
  b_data :: bytes
  b_ext_type :: byte
  b_ext_len :: nat
  b_extdata :: bytes

record shm_mq =
  mq_head :: nat
  mq_tail :: nat
  mq_block :: bytes
  mq_blocksize :: nat
  mq_msg_timeout :: int

record mq_stat =
  st_usedlen :: nat
  st_freelen :: nat
  st_totallen :: nat

abbreviation C_HEAD_SIZE :: nat where "C_HEAD_SIZE \<equiv> 27"
abbreviation MAX_BLOB_DATA_LEN :: int where "MAX_BLOB_DATA_LEN \<equiv> 16777216"
abbreviation COMMU_ERR_SHMNEW :: int where "COMMU_ERR_SHMNEW \<equiv> -102"
abbreviation COMMU_ERR_SHMMAP :: int where "COMMU_ERR_SHMMAP \<equiv> -103"
abbreviation COMMU_ERR_MQFULL :: int where "COMMU_ERR_MQFULL \<equiv> -121"
abbreviation COMMU_ERR_MQEMPTY :: int where "COMMU_ERR_MQEMPTY \<equiv> -122"
abbreviation COMMU_ERR_OTFBUFF :: int where "COMMU_ERR_OTFBUFF \<equiv> -123"

section \<open>Attaching the segment\<close>

text \<open>
  \<open>getmemory\<close> from the outcomes of its system calls: whether the segment exists, whether it
  could be created, whether it could be mapped.  \<open>mq_init\<close> turns the mapped segment (whose
  first eight bytes are the two positions) into a pipe; a segment that was just created has
  its positions cleared, an existing one is taken as it is.
\<close>

definition getmemory :: "bool \<Rightarrow> bool \<Rightarrow> bool \<Rightarrow> int" where
  "getmemory shm_exists shm_created shm_mapped =
     (if shm_exists then (if shm_mapped then 0 else COMMU_ERR_SHMMAP)
      else if shm_created then (if shm_mapped then 1 else COMMU_ERR_SHMMAP)
      else COMMU_ERR_SHMNEW)"

definition mq_init :: "bool \<Rightarrow> bool \<Rightarrow> bool \<Rightarrow> bytes \<Rightarrow> int \<Rightarrow> shm_mq \<Rightarrow> (int \<times> shm_mq) option" where
  "mq_init shm_exists shm_created shm_mapped seg shmsize q =
     (let ret = getmemory shm_exists shm_created shm_mapped
      in if ret < 0 then Some (ret, q)
         else do {
           seg' \<leftarrow> (if ret > 0 then memwr seg 0 (replicate 8 0) else Some seg);
           hd4 \<leftarrow> memrd seg' 0 4;
           tl4 \<leftarrow> memrd seg' 4 4;
           Some (0, q\<lparr>mq_head := le_val hd4, mq_tail := le_val tl4, mq_block := drop 8 seg',
                      mq_blocksize := u32_of_int (shmsize - 8)\<rparr>)
         })"

definition getstat :: "shm_mq \<Rightarrow> mq_stat" where
  "getstat q =
     (let head = mq_head q; tail = mq_tail q; bs = mq_blocksize q
      in \<lparr>st_usedlen = (if tail \<ge> head then sub32 tail head else sub32 (add32 tail bs) head),
          st_freelen = (if head > tail then sub32 head tail else sub32 (add32 head bs) tail),
          st_totallen = bs\<rparr>)"

section \<open>enqueue\<close>

definition mq_header :: "timeval \<Rightarrow> nat \<Rightarrow> nat \<Rightarrow> byte \<Rightarrow> nat \<Rightarrow> bytes" where
  "mq_header tval total_len flow msgtype ext_len =
     le_bytes 8 (tv_sec tval) @ le_bytes 8 (tv_usec tval) @ le_bytes 4 total_len @
     le_bytes 4 flow @ [msgtype] @ le_bytes 2 ext_len"

definition enqueue :: "shm_mq \<Rightarrow> blob \<Rightarrow> nat \<Rightarrow> byte \<Rightarrow> timeval \<Rightarrow> (int \<times> shm_mq) option" where
  "enqueue q b flow msgtype tval =
     (let head = mq_head q; tail = mq_tail q; bs = mq_blocksize q;
          free_len = (if head > tail then sub32 head tail else sub32 (add32 head bs) tail);
          tail_len = sub32 bs tail;
          len = u64_of_int (b_len b); ext_len = b_ext_len b;
          total_len = (C_HEAD_SIZE + len + ext_len) mod 2 ^ 32;
          sHead = mq_header tval total_len flow msgtype ext_len
      in if free_len \<le> total_len then Some (COMMU_ERR_MQFULL, q)
         else if tail_len \<ge> total_len then do {
           m1 \<leftarrow> memwr (mq_block q) tail sHead;
           d \<leftarrow> memrd (b_data b) 0 len;
           m2 \<leftarrow> memwr m1 (tail + C_HEAD_SIZE) d;
           e \<leftarrow> memrd (b_extdata b) 0 ext_len;
           m3 \<leftarrow> memwr m2 (tail + C_HEAD_SIZE + len) e;
           Some (0, q\<lparr>mq_block := m3, mq_tail := add32 tail total_len\<rparr>)
         }
         else if tail_len \<ge> (C_HEAD_SIZE + len) mod 2 ^ 64 \<and> tail_len < total_len then do {
           m1 \<leftarrow> memwr (mq_block q) tail sHead;
           d \<leftarrow> memrd (b_data b) 0 len;
           m2 \<leftarrow> memwr m1 (tail + C_HEAD_SIZE) d;
           let first_len = sub32 (sub32 tail_len C_HEAD_SIZE) len;
           let second_len = sub32 ext_len first_len;
           e1 \<leftarrow> memrd (b_extdata b) 0 first_len;
           m3 \<leftarrow> memwr m2 (tail + C_HEAD_SIZE + len) e1;
           e2 \<leftarrow> memrd (b_extdata b) first_len second_len;
           m4 \<leftarrow> memwr m3 0 e2;
           Some (0, q\<lparr>mq_block := m4, mq_tail := sub32 (add32 tail total_len) bs\<rparr>)
         }
         else if tail_len \<ge> C_HEAD_SIZE \<and> tail_len < (C_HEAD_SIZE + len) mod 2 ^ 64 then do {
           m1 \<leftarrow> memwr (mq_block q) tail sHead;
           let first_len = sub32 tail_len C_HEAD_SIZE;
           d1 \<leftarrow> memrd (b_data b) 0 first_len;
           m2 \<leftarrow> memwr m1 (tail + C_HEAD_SIZE) d1;
           let second_len = sub32 len first_len;
           d2 \<leftarrow> memrd (b_data b) first_len second_len;
           m3 \<leftarrow> memwr m2 0 d2;
           e \<leftarrow> memrd (b_extdata b) 0 ext_len;
           m4 \<leftarrow> memwr m3 second_len e;
           Some (0, q\<lparr>mq_block := m4, mq_tail := sub32 (add32 tail total_len) bs\<rparr>)
         }
         else do {
           h1 \<leftarrow> memrd sHead 0 tail_len;
           m1 \<leftarrow> memwr (mq_block q) tail h1;
           let second_len = sub32 C_HEAD_SIZE tail_len;
           h2 \<leftarrow> memrd sHead tail_len second_len;
           m2 \<leftarrow> memwr m1 0 h2;
           d \<leftarrow> memrd (b_data b) 0 len;
           m3 \<leftarrow> memwr m2 second_len d;
           e \<leftarrow> memrd (b_extdata b) 0 ext_len;
           m4 \<leftarrow> memwr m3 (second_len + len) e;
           Some (0, q\<lparr>mq_block := m4, mq_tail := add32 (add32 second_len (len mod 2 ^ 32)) ext_len\<rparr>)
         })"

section \<open>dequeue\<close>

text \<open>
  The header is copied in one piece or, when the end of the ring cuts it, in two; the second
  component is the position of the data.
\<close>

definition dequeue_head :: "bytes \<Rightarrow> nat \<Rightarrow> nat \<Rightarrow> (bytes \<times> nat) option" where
  "dequeue_head m bs head =
     (if head + C_HEAD_SIZE > bs then do {
        let first_size = sub32 bs head;
        let second_size = sub32 C_HEAD_SIZE first_size;
        h1 \<leftarrow> memrd m head first_size;
        h2 \<leftarrow> memrd m 0 second_size;
        Some (h1 @ h2, second_size)
      } else do {
        h \<leftarrow> memrd m head C_HEAD_SIZE;
        let data_pos = add32 head C_HEAD_SIZE;
        Some (h, if data_pos = bs then 0 else data_pos)
      })"

text \<open>
  The data and the extended data are copied into the buffers of the receiving blob; the
  first component is the new head.
\<close>

definition dequeue_body ::
  "bytes \<Rightarrow> nat \<Rightarrow> nat \<Rightarrow> nat \<Rightarrow> nat \<Rightarrow> nat \<Rightarrow> bytes \<Rightarrow> bytes \<Rightarrow> (nat \<times> bytes \<times> bytes) option" where
  "dequeue_body m bs data_pos data_len len ext_len data extdata =
     (if add32 data_pos len > bs then do {
        let first_size = sub32 bs data_pos;
        let second_size = sub32 len first_size;
        d1 \<leftarrow> memrd m data_pos first_size;
        data1 \<leftarrow> memwr data 0 d1;
        d2 \<leftarrow> memrd m 0 second_size;
        data2 \<leftarrow> memwr data1 first_size d2;
        e \<leftarrow> memrd m second_size ext_len;
        ext1 \<leftarrow> memwr extdata 0 e;
        Some (add32 second_size ext_len, data2, ext1)
      }
      else if bs \<ge> add32 data_pos len \<and> bs < add32 data_pos data_len then do {
        let first_size = sub32 (sub32 bs data_pos) len;
        let second_size = sub32 ext_len first_size;
        d \<leftarrow> memrd m data_pos len;
        data1 \<leftarrow> memwr data 0 d;
        e1 \<leftarrow> memrd m (data_pos + len) first_size;
        ext1 \<leftarrow> memwr extdata 0 e1;
        e2 \<leftarrow> memrd m 0 second_size;
        ext2 \<leftarrow> memwr ext1 first_size e2;
        Some (second_size, data1, ext2)
      }
      else do {
        d \<leftarrow> memrd m data_pos len;
        data1 \<leftarrow> memwr data 0 d;
        e \<leftarrow> memrd m (data_pos + len) ext_len;
        ext1 \<leftarrow> memwr extdata 0 e;
        Some (add32 data_pos data_len, data1, ext1)
      })"

text \<open>
  The result of \<open>dequeue_i\<close>: the return code, the pipe, the receiving blob and the three
  out-parameters, which keep their old values on an empty pipe.  A failed \<open>assert\<close>
  aborts, which is \<open>None\<close> like a fault.
\<close>

definition dequeue_i ::
  "shm_mq \<Rightarrow> blob \<Rightarrow> nat \<Rightarrow> byte \<Rightarrow> timeval \<Rightarrow> (int \<times> shm_mq \<times> blob \<times> nat \<times> byte \<times> timeval) option" where
  "dequeue_i q b flow0 msgtype0 ts0 =
     (let head = mq_head q; tail = mq_tail q; bs = mq_blocksize q
      in if head = tail
         then Some (COMMU_ERR_MQEMPTY, q, b\<lparr>b_len := 0, b_ext_len := 0\<rparr>, flow0, msgtype0, ts0)
         else do {
           let used_len = (if tail > head then sub32 tail head else sub32 (add32 tail bs) head);
           (sHead, data_pos) \<leftarrow> dequeue_head (mq_block q) bs head;
           let ts = \<lparr>tv_sec = le_val (slice sHead 0 8), tv_usec = le_val (slice sHead 8 8)\<rparr>;
           let total_len = le_val (slice sHead 16 4);
           let flow = le_val (slice sHead 20 4);
           let msgtype = sHead ! 24;
           let ext_len = le_val (slice sHead 25 2);
           let len = s32_of_nat (sub32 (sub32 total_len C_HEAD_SIZE) ext_len);
           let b1 = b\<lparr>b_len := len, b_ext_type := msgtype, b_ext_len := ext_len\<rparr>;
           let data_len = sub32 total_len C_HEAD_SIZE;
           (if \<not> (total_len \<le> used_len \<and> len \<le> s32_of_nat data_len \<and> len \<ge> 0) then None
            else if len > MAX_BLOB_DATA_LEN then Some (COMMU_ERR_OTFBUFF, q, b1, flow, msgtype, ts)
            else do {
              (head', data, extdata) \<leftarrow> dequeue_body (mq_block q) bs data_pos data_len (nat len)
                                         ext_len (b_data b) (b_extdata b);
              Some (0, q\<lparr>mq_head := head'\<rparr>, b1\<lparr>b_data := data, b_extdata := extdata\<rparr>,
                    flow, msgtype, ts)
            })
         })"

text \<open>\<open>CMisc::getdelay\<close>: milliseconds since \<open>begin\<close>, in unsigned 32-bit arithmetic.\<close>

definition getdelay :: "timeval \<Rightarrow> timeval \<Rightarrow> nat" where
  "getdelay now begin =
     (let d = sub32 (tv_sec now mod 2 ^ 32) (tv_sec begin mod 2 ^ 32);
          delay = (if d > 0 then mul32 d 1000 else d)
      in if tv_usec now > tv_usec begin
         then add32 delay ((tv_usec now - tv_usec begin) div 1000 mod 2 ^ 32)
         else sub32 delay ((tv_usec begin - tv_usec now) div 1000 mod 2 ^ 32))"

text \<open>
  \<open>dequeue\<close> drops messages that waited longer than \<open>msg_timeout_\<close>.  The clock is read once
  for each message taken out, so it is a function of the iteration.  The loop is fuelled.
\<close>

fun dequeue ::
  "nat \<Rightarrow> (nat \<Rightarrow> timeval) \<Rightarrow> shm_mq \<Rightarrow> blob \<Rightarrow> nat \<Rightarrow> byte \<Rightarrow> timeval \<Rightarrow>
   (int \<times> shm_mq \<times> blob \<times> nat \<times> byte) option" where
  "dequeue 0 clk q b flow msgtype ts = None"
| "dequeue (Suc fuel) clk q b flow msgtype ts =
     (case dequeue_i q b flow msgtype ts of
        None \<Rightarrow> None
      | Some (ret, q', b', flow', msgtype', ts') \<Rightarrow>
          if mq_msg_timeout q \<noteq> 0 \<and> ret = 0 \<and>
             getdelay (clk 0) ts' > u32_of_int (mq_msg_timeout q)
          then dequeue fuel (\<lambda>i. clk (Suc i)) q' b' flow' msgtype' ts'
          else Some (ret, q', b', flow', msgtype'))"

section \<open>Messages and their layout\<close>

record mq_msg =
  m_flow :: nat
  m_type :: byte
  m_data :: bytes
  m_ext :: bytes
  m_time :: timeval

definition msg_total :: "mq_msg \<Rightarrow> nat" where
  "msg_total m = C_HEAD_SIZE + length (m_data m) + length (m_ext m)"

definition mq_encode :: "mq_msg \<Rightarrow> bytes" where
  "mq_encode m = mq_header (m_time m) (msg_total m) (m_flow m) (m_type m) (length (m_ext m)) @
     m_data m @ m_ext m"

definition blob_msg :: "blob \<Rightarrow> nat \<Rightarrow> byte \<Rightarrow> timeval \<Rightarrow> mq_msg" where
  "blob_msg b flow msgtype tval =
     \<lparr>m_flow = flow, m_type = msgtype, m_data = take (nat (b_len b)) (b_data b),
      m_ext = take (b_ext_len b) (b_extdata b), m_time = tval\<rparr>"

text \<open>A blob whose lengths are those of its buffers, and a message that fits its header.\<close>

definition blob_ok :: "blob \<Rightarrow> bool" where
  "blob_ok b \<longleftrightarrow> 0 \<le> b_len b \<and> b_len b < 2 ^ 31 \<and> nat (b_len b) \<le> length (b_data b) \<and>
     b_ext_len b < 2 ^ 16 \<and> b_ext_len b \<le> length (b_extdata b)"

definition time_ok :: "timeval \<Rightarrow> bool" where
  "time_ok t \<longleftrightarrow> tv_sec t < 2 ^ 64 \<and> tv_usec t < 2 ^ 64"

definition msg_ok :: "mq_msg \<Rightarrow> bool" where
  "msg_ok m \<longleftrightarrow> m_flow m < 2 ^ 32 \<and> length (m_data m) \<le> 2 ^ 24 \<and> length (m_ext m) < 2 ^ 16 \<and>
     (m_data m \<noteq> [] \<or> m_ext m \<noteq> []) \<and> time_ok (m_time m)"

lemma length_mq_header [simp]: "length (mq_header tv n f t e) = C_HEAD_SIZE"
  by (simp add: mq_header_def)

lemma length_mq_encode [simp]: "length (mq_encode m) = msg_total m"
  by (simp add: mq_encode_def msg_total_def)

lemma msg_total_blob:
  "blob_ok b \<Longrightarrow> msg_total (blob_msg b f t tv) = C_HEAD_SIZE + nat (b_len b) + b_ext_len b"
  by (simp add: blob_ok_def blob_msg_def msg_total_def)

section \<open>enqueue writes the encoding into the ring\<close>

lemma ring_write_parts:
  "p \<le> length m \<Longrightarrow> length xs = length m - p \<Longrightarrow> length ys \<le> length m \<Longrightarrow>
   ring_write m p (xs @ ys) = overlay (overlay m p xs) 0 ys"
  by (cases ys) (auto simp: ring_write_def)

lemma ring_write_flat:
  "p + length xs \<le> length m \<Longrightarrow> ring_write m p xs = overlay m p xs"
  by (simp add: ring_write_def)

definition mq_room :: "shm_mq \<Rightarrow> nat" where
  "mq_room q = (if mq_head q > mq_tail q then mq_head q - mq_tail q
                else mq_head q + mq_blocksize q - mq_tail q)"

definition mq_wf :: "shm_mq \<Rightarrow> bool" where
  "mq_wf q \<longleftrightarrow> mq_blocksize q = length (mq_block q) \<and> mq_blocksize q < 2 ^ 31 \<and>
     mq_head q \<le> mq_blocksize q \<and> mq_tail q \<le> mq_blocksize q"

text \<open>The lengths that \<open>enqueue\<close> computes, when nothing wraps.\<close>

lemma mq_free_len:
  "mq_wf q \<Longrightarrow> (if mq_head q > mq_tail q then sub32 (mq_head q) (mq_tail q)
     else sub32 (add32 (mq_head q) (mq_blocksize q)) (mq_tail q)) = mq_room q"
  by (simp add: mq_wf_def mq_room_def)

lemma mq_tail_len: "mq_wf q \<Longrightarrow> sub32 (mq_blocksize q) (mq_tail q) = mq_blocksize q - mq_tail q"
  by (simp add: mq_wf_def)

lemma mq_room_le: "mq_wf q \<Longrightarrow> mq_room q \<le> mq_blocksize q"
  by (auto simp: mq_wf_def mq_room_def)

lemma blob_lens:
  assumes "blob_ok b"
  shows "u64_of_int (b_len b) = nat (b_len b)"
    and "(C_HEAD_SIZE + nat (b_len b) + b_ext_len b) mod 2 ^ 32 = C_HEAD_SIZE + nat (b_len b) + b_ext_len b"
    and "(C_HEAD_SIZE + nat (b_len b)) mod 2 ^ 64 = C_HEAD_SIZE + nat (b_len b)"
proof -
  have *: "0 \<le> b_len b" "nat (b_len b) < 2 ^ 31" "b_ext_len b < 2 ^ 16"
    using assms by (auto simp: blob_ok_def)
  show "u64_of_int (b_len b) = nat (b_len b)"
    using assms by (intro u64_of_int_nonneg) (auto simp: blob_ok_def)
  show "(C_HEAD_SIZE + nat (b_len b) + b_ext_len b) mod 2 ^ 32 = C_HEAD_SIZE + nat (b_len b) + b_ext_len b"
    by (rule mod_less) (use * in simp)
  show "(C_HEAD_SIZE + nat (b_len b)) mod 2 ^ 64 = C_HEAD_SIZE + nat (b_len b)"
    by (rule mod_less) (use * in simp)
qed

lemmas enqueue_unfold =
  enqueue_def [unfolded Let_def]

lemma enqueue_full:
  assumes "mq_wf q" "blob_ok b" "mq_room q \<le> C_HEAD_SIZE + nat (b_len b) + b_ext_len b"
  shows "enqueue q b flow ty tv = Some (COMMU_ERR_MQFULL, q)"
  using assms(3)
  by (simp only: enqueue_unfold mq_free_len [OF assms(1)] blob_lens [OF assms(2)] if_True)

lemma enqueue_writes:
  assumes wf: "mq_wf q" and ok: "blob_ok b"
    and room: "msg_total (blob_msg b flow ty tv) < mq_room q"
  shows "enqueue q b flow ty tv =
     Some (0, q\<lparr>mq_block := ring_write (mq_block q) (mq_tail q) (mq_encode (blob_msg b flow ty tv)),
                mq_tail := ring_adv (mq_blocksize q) (mq_tail q) (msg_total (blob_msg b flow ty tv))\<rparr>)"
proof -
  define n where "n = nat (b_len b)"
  define x where "x = b_ext_len b"
  define N where "N = mq_blocksize q"
  define t where "t = mq_tail q"
  define m where "m = mq_block q"
  define h where "h = mq_header tv (C_HEAD_SIZE + n + x) flow ty x"
  define d where "d = take n (b_data b)"
  define e where "e = take x (b_extdata b)"
  have b: "n < 2 ^ 31" "n \<le> length (b_data b)" "x < 2 ^ 16" "x \<le> length (b_extdata b)"
    using ok by (auto simp: blob_ok_def n_def x_def)
  have N: "length m = N" "N < 2 ^ 31" "t \<le> N"
    using wf by (auto simp: mq_wf_def N_def t_def m_def)
  have len [simp]: "length h = C_HEAD_SIZE" "length d = n" "length e = x"
    using b by (simp_all add: h_def d_def e_def)
  have T: "msg_total (blob_msg b flow ty tv) = C_HEAD_SIZE + n + x"
    using msg_total_blob [OF ok] by (simp add: n_def x_def)
  have tot: "C_HEAD_SIZE + n + x < N" "C_HEAD_SIZE + n + x < mq_room q"
    using room T mq_room_le [OF wf] by (auto simp: N_def)
  have enc: "mq_encode (blob_msg b flow ty tv) = h @ d @ e"
    using T b by (simp add: mq_encode_def h_def d_def e_def) (simp add: blob_msg_def n_def x_def)
  have sl: "slice (b_data b) 0 k = take k d" "slice (b_data b) k (n - k) = drop k d" if "k \<le> n" for k
    using that by (simp_all add: slice_def d_def drop_take)
  have se: "slice (b_extdata b) 0 k = take k e" "slice (b_extdata b) k (x - k) = drop k e" if "k \<le> x" for k
    using that by (simp_all add: slice_def e_def drop_take)
  have sh: "slice h 0 k = take k h" "slice h k (C_HEAD_SIZE - k) = drop k h" if "k \<le> C_HEAD_SIZE" for k
    using that by (simp_all add: slice_def)
  note unf = enqueue_unfold mq_free_len [OF wf] mq_tail_len [OF wf] blob_lens [OF ok]
  note fold = n_def [symmetric] x_def [symmetric] N_def [symmetric] t_def [symmetric]
    m_def [symmetric] h_def [symmetric]
  consider (flat) "C_HEAD_SIZE + n + x \<le> N - t"
    | (ext) "\<not> C_HEAD_SIZE + n + x \<le> N - t" "C_HEAD_SIZE + n \<le> N - t"
    | (data) "\<not> C_HEAD_SIZE + n \<le> N - t" "C_HEAD_SIZE \<le> N - t"
    | (head) "\<not> C_HEAD_SIZE \<le> N - t" by linarith
  then have "enqueue q b flow ty tv =
     Some (0, q\<lparr>mq_block := ring_write m t (h @ d @ e), mq_tail := ring_adv N t (C_HEAD_SIZE + n + x)\<rparr>)"
  proof cases
    case flat
    then show ?thesis
      using tot N b
      by (simp only: unf, simp only: fold) (simp add: mem_simps sl se ring_write_def ring_adv_def overlay_join)
  next
    case ext
    define k where "k = N - t - C_HEAD_SIZE - n"
    have k: "N - t = C_HEAD_SIZE + n + k" "k < x" "N = t + (C_HEAD_SIZE + n + k)"
      using ext N by (auto simp: k_def)
    have s: "sub32 (sub32 (C_HEAD_SIZE + n + k) C_HEAD_SIZE) n = k" "sub32 x k = x - k"
      "sub32 (add32 t (C_HEAD_SIZE + n + x)) N = x - k"
      using k N b tot by simp_all
    have ring: "ring_write m t (h @ d @ e) =
        overlay (overlay m t (h @ d @ take k e)) 0 (drop k e)"
      using ring_write_parts [of t m "h @ d @ take k e" "drop k e"] k N tot by simp
    have le: "t + C_HEAD_SIZE \<le> N" "t + C_HEAD_SIZE + n \<le> N" "t + C_HEAD_SIZE + n + k \<le> N"
      "x - k \<le> N" using k tot by simp_all
    have br: "\<not> mq_room q \<le> C_HEAD_SIZE + n + x" "\<not> C_HEAD_SIZE + n + x \<le> C_HEAD_SIZE + n + k"
      "C_HEAD_SIZE + n \<le> C_HEAD_SIZE + n + k" "C_HEAD_SIZE + n + k < C_HEAD_SIZE + n + x"
      "ring_adv N t (C_HEAD_SIZE + n + x) = x - k"
      using k(2) tot(2) by (simp_all add: ring_adv_def k(3))
    show ?thesis using k(2) b N(1) le
      by (simp only: unf, simp only: fold)
        (simp add: k(1) br s ring mem_simps sl se overlay_join)
  next
    case data
    define k where "k = N - t - C_HEAD_SIZE"
    have k: "N - t = C_HEAD_SIZE + k" "k < n" "N = t + (C_HEAD_SIZE + k)"
      using data N by (auto simp: k_def)
    have s: "sub32 (C_HEAD_SIZE + k) C_HEAD_SIZE = k" "sub32 n k = n - k"
      "sub32 (add32 t (C_HEAD_SIZE + n + x)) N = n - k + x"
      using k N b tot by simp_all
    have ring: "ring_write m t (h @ d @ e) =
        overlay (overlay m t (h @ take k d)) 0 (drop k d @ e)"
      using ring_write_parts [of t m "h @ take k d" "drop k d @ e"] k N tot by simp
    have le: "t + C_HEAD_SIZE \<le> N" "t + C_HEAD_SIZE + k \<le> N" "n - k + x \<le> N" "n - k \<le> N"
      using k tot by simp_all
    have br: "\<not> mq_room q \<le> C_HEAD_SIZE + n + x" "\<not> C_HEAD_SIZE + n + x \<le> C_HEAD_SIZE + k"
      "\<not> C_HEAD_SIZE + n \<le> C_HEAD_SIZE + k" "C_HEAD_SIZE \<le> C_HEAD_SIZE + k"
      "C_HEAD_SIZE + k < C_HEAD_SIZE + n"
      "ring_adv N t (C_HEAD_SIZE + n + x) = n - k + x"
      using k(2) tot(2) by (simp_all add: ring_adv_def k(3))
    show ?thesis using k(2) b N(1) le
      by (simp only: unf, simp only: fold)
        (simp add: k(1) br s ring mem_simps sl se overlay_join)
  next
    case head
    define k where "k = N - t"
    have k: "N - t = k" "k < C_HEAD_SIZE" "N = t + k"
      using head N by (auto simp: k_def)
    have s: "sub32 C_HEAD_SIZE k = C_HEAD_SIZE - k"
      "add32 (add32 (C_HEAD_SIZE - k) (n mod 2 ^ 32)) x = C_HEAD_SIZE - k + n + x"
      using k N b tot by simp_all
    have ring: "ring_write m t (h @ d @ e) =
        overlay (overlay m t (take k h)) 0 (drop k h @ d @ e)"
      using ring_write_parts [of t m "take k h" "drop k h @ d @ e"] k N tot by simp
    have le: "t + k \<le> N" "C_HEAD_SIZE - k + n + x \<le> N" "C_HEAD_SIZE - k + n \<le> N" "C_HEAD_SIZE - k \<le> N"
      using k tot by simp_all
    have br: "\<not> mq_room q \<le> C_HEAD_SIZE + n + x" "\<not> C_HEAD_SIZE + n + x \<le> k"
      "\<not> C_HEAD_SIZE + n \<le> k" "\<not> C_HEAD_SIZE \<le> k"
      "ring_adv N t (C_HEAD_SIZE + n + x) = C_HEAD_SIZE - k + n + x"
      using k(2) tot(2) by (simp_all add: ring_adv_def k(3))
    show ?thesis using k(2) b N(1) le
      by (simp only: unf, simp only: fold)
        (simp add: k(1) br s ring mem_simps sl se sh overlay_join)
  qed
  then show ?thesis by (simp only: enc T N_def t_def m_def)
qed

section \<open>dequeue reads the encoding back\<close>

text \<open>The position of the data, which is never the end of the ring.\<close>

definition data_pos :: "nat \<Rightarrow> nat \<Rightarrow> nat" where
  "data_pos N h = (if h + C_HEAD_SIZE < N then h + C_HEAD_SIZE else h + C_HEAD_SIZE - N)"

lemma dequeue_head_reads:
  assumes "h \<le> length m" "C_HEAD_SIZE < length m" "length m < 2 ^ 31"
  shows "dequeue_head m (length m) h = Some (ring_read m h C_HEAD_SIZE, data_pos (length m) h)"
proof (cases "h + C_HEAD_SIZE > length m")
  case True
  then have "sub32 (length m) h = length m - h"
    "sub32 C_HEAD_SIZE (length m - h) = C_HEAD_SIZE - (length m - h)"
    "C_HEAD_SIZE - (length m - h) = h + C_HEAD_SIZE - length m" using assms by simp_all
  with True assms show ?thesis
    by (simp add: dequeue_head_def Let_def mem_simps ring_read_def data_pos_def)
next
  case False
  with assms show ?thesis
    by (auto simp: dequeue_head_def Let_def mem_simps ring_read_def data_pos_def)
qed

lemma ring_read_end: "k \<le> length m \<Longrightarrow> ring_read m (length m) k = ring_read m 0 k"
  by (auto simp: ring_read_def slice_def)

lemma data_pos_read:
  assumes "h \<le> length m" "C_HEAD_SIZE + k < length m"
  shows "ring_read m (data_pos (length m) h) k = ring_read m (ring_adv (length m) h C_HEAD_SIZE) k"
proof (cases "h + C_HEAD_SIZE = length m")
  case True
  then show ?thesis using assms ring_read_end [of k m] by (simp add: data_pos_def ring_adv_def)
next
  case False
  then show ?thesis using assms by (auto simp: data_pos_def ring_adv_def)
qed

lemma data_pos_lt: "h \<le> N \<Longrightarrow> C_HEAD_SIZE < N \<Longrightarrow> data_pos N h < N"
  by (auto simp: data_pos_def)

lemma data_pos_adv:
  "0 < k \<Longrightarrow> h \<le> N \<Longrightarrow> C_HEAD_SIZE + k < N \<Longrightarrow>
   ring_adv N (data_pos N h) k = ring_adv N h (C_HEAD_SIZE + k)"
  by (auto simp: ring_adv_def data_pos_def)

lemma dequeue_body_reads:
  assumes p: "p < length m" "length m < 2 ^ 31" and rd: "ring_read m p (length d + length e) = d @ e"
    and lt: "0 < length d + length e" "length d + length e < length m"
    and cap: "length d \<le> length data" "length e \<le> length extdata"
  shows "dequeue_body m (length m) p (length d + length e) (length d) (length e) data extdata =
     Some (ring_adv (length m) p (length d + length e), overlay data 0 d, overlay extdata 0 e)"
proof -
  define n where "n = length d"
  define x where "x = length e"
  define N where "N = length m"
  note f = p rd lt cap
  have rd': "ring_read m p (n + x) = d @ e" using rd by (simp add: n_def x_def)
  have A: "add32 p n = p + n" "add32 p (n + x) = p + (n + x)"
    using p lt by (simp_all add: n_def x_def)
  consider (flat) "p + (n + x) \<le> N" | (ext) "p + n \<le> N" "N < p + (n + x)" | (data) "N < p + n"
    by linarith
  then have "dequeue_body m N p (n + x) n x data extdata =
     Some (ring_adv N p (n + x), overlay data 0 d, overlay extdata 0 e)"
  proof cases
    case flat
    then have "slice m p n @ slice m (p + n) x = d @ e"
      using rd' by (simp add: ring_read_def N_def slice_append)
    then have s: "slice m p n = d" "slice m (p + n) x = e"
      using flat by (simp_all add: N_def n_def append_eq_append_conv)
    have br: "\<not> p + n > N" "\<not> (N \<ge> p + n \<and> N < p + (n + x))" "ring_adv N p (n + x) = p + (n + x)"
      using flat by (simp_all add: ring_adv_def)
    have le: "p + n \<le> length m" "p + n + x \<le> length m" using flat by (simp_all add: N_def)
    show ?thesis using cap le
      by (simp only: dequeue_body_def A br if_False) (simp add: mem_simps s flip: n_def x_def)
  next
    case ext
    define k where "k = N - p - n"
    have k: "N = p + n + k" "k < x" using ext by (simp_all add: k_def)
    have sz: "sub32 (sub32 N p) n = k" "sub32 x k = x - k"
      using k p lt by (simp_all add: N_def x_def n_def)
    have "slice m p n @ slice m (p + n) k @ slice m 0 (x - k) = d @ e"
      using rd' ext k by (simp add: ring_read_def slice_append flip: N_def)
    then have s: "slice m p n = d" "slice m (p + n) k @ slice m 0 (x - k) = e"
      using k by (simp_all add: n_def append_eq_append_conv flip: N_def)
    have br: "\<not> p + n > N" "N \<ge> p + n \<and> N < p + (n + x)" "ring_adv N p (n + x) = x - k"
      using ext k by (simp_all add: ring_adv_def)
    have le: "p + n \<le> length m" "p + n + k \<le> length m" "x - k \<le> length m"
      "n \<le> length data" "k \<le> length extdata" "x \<le> length extdata" "k < x"
      using k cap lt by (simp_all add: n_def x_def flip: N_def)
    show ?thesis
      using le overlay_join [of k 0 "slice m (p + n) k" "slice m 0 (x - k)" extdata] s(2)
      by (simp only: dequeue_body_def Let_def A br sz if_True if_False)
         (simp add: mem_simps s(1) flip: n_def x_def)
  next
    case data
    define k where "k = N - p"
    have k: "N = p + k" "k < n" using data p by (simp_all add: k_def N_def)
    have sz: "sub32 N p = k" "sub32 n k = n - k" "add32 (n - k) x = n - k + x"
      using k p lt by (simp_all add: N_def x_def n_def)
    have kl: "n - k + x \<le> length m" using lt by (simp add: n_def x_def)
    have "slice m p k @ slice m 0 (n - k) @ slice m (n - k) x = d @ e"
      using rd' data k kl slice_append [of 0 "n - k" x m] by (simp add: ring_read_def flip: N_def)
    then have s: "slice m p k @ slice m 0 (n - k) = d" "slice m (n - k) x = e"
      using k kl append_eq_append_conv [of "slice m p k @ slice m 0 (n - k)" d "slice m (n - k) x" e]
      by (simp_all add: n_def flip: N_def)
    have br: "p + n > N" "ring_adv N p (n + x) = n - k + x"
      using data k by (simp_all add: ring_adv_def)
    have le: "p + k \<le> length m" "n - k \<le> length m" "n - k + x \<le> length m"
      "n \<le> length data" "k \<le> length data" "x \<le> length extdata" "k < n"
      using k cap kl by (simp_all add: n_def x_def flip: N_def)
    show ?thesis
      using le overlay_join [of k 0 "slice m p k" "slice m 0 (n - k)" data] s(1)
      by (simp only: dequeue_body_def Let_def A br sz if_True if_False)
         (simp add: mem_simps s(2) flip: n_def x_def)
  qed
  then show ?thesis by (simp add: n_def x_def N_def)
qed

lemma slice_append_left: "p + n \<le> length xs \<Longrightarrow> slice (xs @ ys) p n = slice xs p n"
  by (simp add: slice_def)

lemma header_fields:
  assumes "msg_ok m" "msg_total m < 2 ^ 32"
  defines "h \<equiv> mq_header (m_time m) (msg_total m) (m_flow m) (m_type m) (length (m_ext m))"
  shows "\<lparr>tv_sec = le_val (slice h 0 8), tv_usec = le_val (slice h 8 8)\<rparr> = m_time m"
    and "le_val (slice h 16 4) = msg_total m" and "le_val (slice h 20 4) = m_flow m"
    and "h ! 24 = m_type m" and "le_val (slice h 25 2) = length (m_ext m)"
  using assms(1,2)
  by (simp_all add: h_def mq_header_def slice_def nth_append msg_ok_def time_ok_def codec_simps)

definition deliver :: "blob \<Rightarrow> mq_msg \<Rightarrow> blob" where
  "deliver b m = b\<lparr>b_len := int (length (m_data m)), b_ext_type := m_type m,
     b_ext_len := length (m_ext m), b_data := overlay (b_data b) 0 (m_data m),
     b_extdata := overlay (b_extdata b) 0 (m_ext m)\<rparr>"

lemma msg_lens:
  assumes "msg_ok m" "msg_total m < 2 ^ 31"
  shows "sub32 (msg_total m) C_HEAD_SIZE = length (m_data m) + length (m_ext m)"
    and "s32_of_nat (sub32 (length (m_data m) + length (m_ext m)) (length (m_ext m))) = int (length (m_data m))"
    and "s32_of_nat (length (m_data m) + length (m_ext m)) = int (length (m_data m) + length (m_ext m))"
  using assms by (simp_all add: msg_total_def msg_ok_def)

lemma dequeue_i_reads:
  assumes wf: "mq_wf q" and ok: "msg_ok m"
    and holds: "ring_holds (mq_block q) (mq_head q) (mq_tail q) (mq_encode m @ rest)"
    and cap: "length (m_data m) \<le> length (b_data b)" "length (m_ext m) \<le> length (b_extdata b)"
  shows "dequeue_i q b f0 t0 ts0 =
     Some (0, q\<lparr>mq_head := ring_adv (mq_blocksize q) (mq_head q) (msg_total m)\<rparr>,
           deliver b m, m_flow m, m_type m, m_time m)"
proof -
  let ?m = "mq_block q" and ?h = "mq_head q" and ?N = "mq_blocksize q"
  let ?hd = "mq_header (m_time m) (msg_total m) (m_flow m) (m_type m) (length (m_ext m))"
  let ?n = "length (m_data m)" and ?x = "length (m_ext m)"
  have N: "?N = length ?m" "?h \<le> length ?m" "length ?m < 2 ^ 31" using wf by (auto simp: mq_wf_def)
  have tot: "msg_total m + length rest < length ?m" using holds by (simp add: ring_holds_def)
  then have lt: "C_HEAD_SIZE + (?n + ?x) < length ?m" by (simp add: msg_total_def)
  have parts: "ring_holds ?m ?h (mq_tail q) (?hd @ (m_data m @ m_ext m) @ rest)"
    using holds by (simp add: mq_encode_def)
  have hd: "ring_read ?m ?h C_HEAD_SIZE = ?hd"
    using ring_holds_split(1) [OF parts] by simp
  have "ring_read ?m (ring_adv (length ?m) ?h C_HEAD_SIZE) (?n + ?x) = m_data m @ m_ext m"
    using ring_holds_split(1) [OF ring_holds_split(2) [OF parts]] by simp
  then have body: "ring_read ?m (data_pos (length ?m) ?h) (?n + ?x) = m_data m @ m_ext m"
    using data_pos_read [of ?h ?m "?n + ?x"] N lt by simp
  have ne: "?h \<noteq> mq_tail q"
    using ring_holds_empty_iff [OF holds] by (auto simp: mq_encode_def mq_header_def)
  have used: "msg_total m \<le> (if mq_tail q > ?h then sub32 (mq_tail q) ?h
                              else sub32 (add32 (mq_tail q) ?N) ?h)"
  proof -
    have t: "mq_tail q \<le> length ?m" by (rule ring_holds_tail_le [OF holds])
    then show ?thesis using ring_holds_used [OF holds] ne N by (auto split: if_splits)
  qed
  have pos: "0 < ?n + ?x" using ok by (auto simp: msg_ok_def)
  have fin: "ring_adv (length ?m) (data_pos (length ?m) ?h) (?n + ?x) = ring_adv (length ?m) ?h (msg_total m)"
    using data_pos_adv [OF pos N(2) lt] by (simp only: msg_total_def add.assoc)
  have "dequeue_body ?m (length ?m) (data_pos (length ?m) ?h) (?n + ?x) ?n ?x (b_data b) (b_extdata b) =
     Some (ring_adv (length ?m) ?h (msg_total m), overlay (b_data b) 0 (m_data m), overlay (b_extdata b) 0 (m_ext m))"
    using dequeue_body_reads [OF _ N(3) body pos _ cap] data_pos_lt [of ?h "length ?m"] N lt fin by simp
  moreover have "dequeue_head ?m ?N ?h = Some (?hd, data_pos (length ?m) ?h)"
    using dequeue_head_reads [of ?h ?m] N lt hd by simp
  moreover have "msg_total m < 2 ^ 31" "msg_total m < 2 ^ 32" using tot N by simp_all
  note fields = header_fields [OF ok this(2)] msg_lens [OF ok this(1)]
  have data: "\<not> int ?n > MAX_BLOB_DATA_LEN" using ok by (simp add: msg_ok_def)
  ultimately show ?thesis
    using ne used [unfolded N(1)] data
    by (simp add: dequeue_i_def Let_def fields deliver_def N(1) split: if_splits)
qed

section \<open>The pipe is a bounded FIFO of messages\<close>

definition mq_rep :: "shm_mq \<Rightarrow> mq_msg list \<Rightarrow> bool" where
  "mq_rep q ms \<longleftrightarrow> mq_wf q \<and> list_all msg_ok ms \<and>
     ring_holds (mq_block q) (mq_head q) (mq_tail q) (concat (map mq_encode ms))"

lemma mq_rep_wf: "mq_rep q ms \<Longrightarrow> mq_wf q"
  by (simp add: mq_rep_def)

text \<open>The bytes in use, and how \<open>getstat\<close> and the full test see them.\<close>

definition mq_bytes :: "mq_msg list \<Rightarrow> nat" where
  "mq_bytes ms = (\<Sum>m\<leftarrow>ms. msg_total m)"

lemma length_concat_encode [simp]: "length (concat (map mq_encode ms)) = mq_bytes ms"
  by (simp add: mq_bytes_def length_concat o_def)

lemma mq_rep_room: "mq_rep q ms \<Longrightarrow> mq_room q = mq_blocksize q - mq_bytes ms"
proof -
  assume r: "mq_rep q ms"
  then have h: "ring_holds (mq_block q) (mq_head q) (mq_tail q) (concat (map mq_encode ms))"
    and N: "mq_blocksize q = length (mq_block q)" by (simp_all add: mq_rep_def mq_wf_def)
  have "mq_tail q \<le> length (mq_block q)" by (rule ring_holds_tail_le [OF h])
  with ring_holds_used [OF h] N h show ?thesis
    by (auto simp: mq_room_def ring_holds_def split: if_splits)
qed

lemma mq_rep_bytes_lt: "mq_rep q ms \<Longrightarrow> mq_bytes ms < mq_blocksize q"
  by (simp add: mq_rep_def mq_wf_def ring_holds_def)

lemma enqueue_rep:
  assumes rep: "mq_rep q ms" and ok: "blob_ok b" and mok: "msg_ok (blob_msg b flow ty tv)"
  shows "\<exists>q'. enqueue q b flow ty tv =
           Some (if mq_bytes ms + msg_total (blob_msg b flow ty tv) < mq_blocksize q
                 then 0 else COMMU_ERR_MQFULL, q') \<and>
         mq_blocksize q' = mq_blocksize q \<and> mq_msg_timeout q' = mq_msg_timeout q \<and>
         mq_rep q' (if mq_bytes ms + msg_total (blob_msg b flow ty tv) < mq_blocksize q
                    then ms @ [blob_msg b flow ty tv] else ms)"
proof (cases "mq_bytes ms + msg_total (blob_msg b flow ty tv) < mq_blocksize q")
  case True
  let ?m = "blob_msg b flow ty tv"
  have room: "msg_total ?m < mq_room q" using True mq_rep_room [OF rep] by simp
  have N: "mq_blocksize q = length (mq_block q)" using rep by (simp add: mq_rep_def mq_wf_def)
  have holds: "ring_holds (mq_block q) (mq_head q) (mq_tail q) (concat (map mq_encode ms))"
    using rep by (simp add: mq_rep_def)
  have "ring_holds (ring_write (mq_block q) (mq_tail q) (mq_encode ?m)) (mq_head q)
     (ring_adv (length (mq_block q)) (mq_tail q) (msg_total ?m)) (concat (map mq_encode ms) @ mq_encode ?m)"
    using ring_holds_append [OF holds, of "mq_encode ?m"] True N by simp
  with enqueue_writes [OF mq_rep_wf [OF rep] ok room] rep True mok N ring_holds_tail_le [OF holds]
  show ?thesis by (simp add: mq_rep_def mq_wf_def)
next
  case False
  then have "mq_room q \<le> C_HEAD_SIZE + nat (b_len b) + b_ext_len b"
    using mq_rep_room [OF rep] msg_total_blob [OF ok] by simp
  with enqueue_full [OF mq_rep_wf [OF rep] ok] False rep show ?thesis by simp
qed

lemma dequeue_i_rep:
  assumes rep: "mq_rep q (m # ms)"
    and cap: "length (m_data m) \<le> length (b_data b)" "length (m_ext m) \<le> length (b_extdata b)"
  shows "\<exists>q'. dequeue_i q b f0 t0 ts0 = Some (0, q', deliver b m, m_flow m, m_type m, m_time m) \<and>
           mq_blocksize q' = mq_blocksize q \<and> mq_msg_timeout q' = mq_msg_timeout q \<and> mq_rep q' ms"
proof -
  have holds: "ring_holds (mq_block q) (mq_head q) (mq_tail q) (mq_encode m @ concat (map mq_encode ms))"
    and ok: "msg_ok m" using rep by (simp_all add: mq_rep_def)
  have "mq_rep (q\<lparr>mq_head := ring_adv (mq_blocksize q) (mq_head q) (msg_total m)\<rparr>) ms"
    using ring_holds_split(2) [OF holds] rep by (auto simp: mq_rep_def mq_wf_def ring_holds_def)
  with dequeue_i_reads [OF mq_rep_wf [OF rep] ok holds cap] show ?thesis by simp
qed

lemma dequeue_i_empty:
  assumes "mq_rep q []"
  shows "dequeue_i q b f0 t0 ts0 =
     Some (COMMU_ERR_MQEMPTY, q, b\<lparr>b_len := 0, b_ext_len := 0\<rparr>, f0, t0, ts0)"
  using assms by (auto simp: dequeue_i_def mq_rep_def ring_holds_def mq_wf_def)

definition msg_blob :: "mq_msg \<Rightarrow> blob" where
  "msg_blob m = \<lparr>b_len = int (length (m_data m)), b_data = m_data m, b_ext_type = m_type m,
     b_ext_len = length (m_ext m), b_extdata = m_ext m\<rparr>"

definition mq_put :: "shm_mq \<Rightarrow> mq_msg \<Rightarrow> (bool \<times> shm_mq) option" where
  "mq_put q m = map_option (\<lambda>(r, q'). (r = 0, q'))
     (enqueue q (msg_blob m) (m_flow m) (m_type m) (m_time m))"

definition mq_get :: "blob \<Rightarrow> shm_mq \<Rightarrow> (mq_msg option \<times> shm_mq) option" where
  "mq_get b q = map_option
     (\<lambda>(r, q', b', f, t, ts). (if r = 0 then Some (blob_msg b' f t ts) else None, q'))
     (dequeue_i q b 0 0 \<lparr>tv_sec = 0, tv_usec = 0\<rparr>)"

text \<open>The buffers of the consumer are as large as its ring (\<open>CTShmCommu::init\<close>).\<close>

definition buffers_ok :: "blob \<Rightarrow> shm_mq \<Rightarrow> bool" where
  "buffers_ok b q \<longleftrightarrow> mq_blocksize q \<le> length (b_data b) \<and>
     (65535 \<le> length (b_extdata b) \<or> mq_blocksize q \<le> length (b_extdata b))"

lemma blob_msg_msg_blob [simp]: "blob_msg (msg_blob m) (m_flow m) (m_type m) (m_time m) = m"
  by (simp add: blob_msg_def msg_blob_def)

lemma blob_ok_msg_blob: "msg_ok m \<Longrightarrow> blob_ok (msg_blob m)"
  by (auto simp: msg_ok_def blob_ok_def msg_blob_def)

lemma take_overlay_0 [simp]: "length xs \<le> length m \<Longrightarrow> take (length xs) (overlay m 0 xs) = xs"
  by (simp add: overlay_def)

lemma blob_msg_deliver:
  "length (m_data m) \<le> length (b_data b) \<Longrightarrow> length (m_ext m) \<le> length (b_extdata b) \<Longrightarrow>
   blob_msg (deliver b m) (m_flow m) (m_type m) (m_time m) = m"
  by (simp add: blob_msg_def deliver_def)

lemma buffers_ok_msg:
  assumes "buffers_ok b q" "mq_rep q (m # ms)"
  shows "length (m_data m) \<le> length (b_data b)" "length (m_ext m) \<le> length (b_extdata b)"
proof -
  have "msg_total m < mq_blocksize q" "length (m_ext m) < 65536"
    using mq_rep_bytes_lt [OF assms(2)] assms(2) by (simp_all add: mq_bytes_def mq_rep_def msg_ok_def)
  then show "length (m_data m) \<le> length (b_data b)" "length (m_ext m) \<le> length (b_extdata b)"
    using assms(1) by (auto simp: buffers_ok_def msg_total_def)
qed

lemma mq_put_rep:
  assumes "mq_rep q ms" "msg_ok m"
  shows "\<exists>b q'. mq_put q m = Some (b, q') \<and> mq_blocksize q' = mq_blocksize q \<and>
           mq_rep q' (if b then ms @ [m] else ms)"
  using enqueue_rep [OF assms(1) blob_ok_msg_blob [OF assms(2)], of "m_flow m" "m_type m" "m_time m"] assms(2)
  by (auto simp: mq_put_def split: if_splits)

lemma mq_get_rep:
  assumes "mq_rep q (m # ms)" "buffers_ok b q"
  shows "\<exists>q'. mq_get b q = Some (Some m, q') \<and> mq_blocksize q' = mq_blocksize q \<and> mq_rep q' ms"
  using dequeue_i_rep [OF assms(1) buffers_ok_msg [OF assms(2,1)], of 0 0 "\<lparr>tv_sec = 0, tv_usec = 0\<rparr>"]
    buffers_ok_msg [OF assms(2,1)]
  by (auto simp: mq_get_def blob_msg_deliver)

lemma buffers_ok_blocksize:
  "mq_blocksize q' = mq_blocksize q \<Longrightarrow> buffers_ok b q' = buffers_ok b q"
  by (simp add: buffers_ok_def)

interpretation shmmq: bounded_fifo mq_put "mq_get b"
  "\<lambda>q ms. mq_rep q ms \<and> buffers_ok b q" msg_ok for b
proof (unfold_locales, goal_cases)
  case (1 q ms m)
  then obtain a q' where "mq_put q m = Some (a, q')" "mq_blocksize q' = mq_blocksize q"
    "mq_rep q' (if a then ms @ [m] else ms)" using mq_put_rep [of q ms m] by blast
  with 1 show ?case using buffers_ok_blocksize [of q' q b] by blast
next
  case (2 q m ms)
  then obtain q' where "mq_get b q = Some (Some m, q')" "mq_blocksize q' = mq_blocksize q"
    "mq_rep q' ms" using mq_get_rep [of q m ms b] by blast
  with 2 show ?case using buffers_ok_blocksize [of q' q b] by blast
next
  case (3 q)
  then have "mq_get b q = Some (None, q)" using dequeue_i_empty [of q b] by (simp add: mq_get_def)
  with 3 show ?case by blast
qed

lemma mq_rep_fresh:
  "p \<le> N \<Longrightarrow> 0 < N \<Longrightarrow> N < 2 ^ 31 \<Longrightarrow> length m = N \<Longrightarrow>
   mq_rep \<lparr>mq_head = p, mq_tail = p, mq_block = m, mq_blocksize = N, mq_msg_timeout = to\<rparr> []"
  by (simp add: mq_rep_def mq_wf_def ring_holds_def ring_read_def)

section \<open>Expiry, accounting and attachment\<close>

text \<open>The messages that \<open>dequeue\<close> leaves when it reads the clock once for each of them.\<close>

fun drop_expired :: "(nat \<Rightarrow> timeval) \<Rightarrow> int \<Rightarrow> mq_msg list \<Rightarrow> mq_msg list" where
  "drop_expired clk to [] = []"
| "drop_expired clk to (m # ms) =
     (if to \<noteq> 0 \<and> getdelay (clk 0) (m_time m) > u32_of_int to
      then drop_expired (\<lambda>i. clk (Suc i)) to ms else m # ms)"

lemma buffers_ok_deliver:
  assumes "buffers_ok b q" "mq_rep q (m # ms)"
  shows "buffers_ok (deliver b m) q"
  using buffers_ok_msg [OF assms] assms(1) by (auto simp: buffers_ok_def deliver_def)

definition dequeue_result ::
  "mq_msg list \<Rightarrow> int \<times> shm_mq \<times> blob \<times> nat \<times> byte \<Rightarrow> bool" where
  "dequeue_result ms r = (case r of (ret, q, b, flow, ty) \<Rightarrow>
     (case ms of [] \<Rightarrow> ret = COMMU_ERR_MQEMPTY \<and> mq_rep q [] \<and> b_len b = 0 \<and> b_ext_len b = 0
      | m # ms' \<Rightarrow> ret = 0 \<and> mq_rep q ms' \<and> flow = m_flow m \<and> ty = m_type m \<and>
          b_ext_type b = m_type m \<and> b_len b = int (length (m_data m)) \<and>
          take (length (m_data m)) (b_data b) = m_data m \<and>
          b_ext_len b = length (m_ext m) \<and> take (length (m_ext m)) (b_extdata b) = m_ext m))"

lemma dequeue_drops:
  "mq_rep q ms \<Longrightarrow> buffers_ok b q \<Longrightarrow> length ms < fuel \<Longrightarrow>
   \<exists>ret q' b' f t. dequeue fuel clk q b f0 t0 ts0 = Some (ret, q', b', f, t) \<and>
       dequeue_result (drop_expired clk (mq_msg_timeout q) ms) (ret, q', b', f, t) \<and>
       buffers_ok b' q' \<and> mq_msg_timeout q' = mq_msg_timeout q \<and> mq_blocksize q' = mq_blocksize q"
proof (induction ms arbitrary: fuel clk q b f0 t0 ts0)
  case Nil
  then obtain k where "fuel = Suc k" by (cases fuel) auto
  with Nil show ?case by (simp add: dequeue_i_empty dequeue_result_def buffers_ok_def)
next
  case (Cons m ms)
  then obtain k where k: "fuel = Suc k" "length ms < k" by (cases fuel) auto
  note cap = buffers_ok_msg [OF Cons.prems(2,1)]
  obtain q' where d: "dequeue_i q b f0 t0 ts0 = Some (0, q', deliver b m, m_flow m, m_type m, m_time m)"
    and q': "mq_blocksize q' = mq_blocksize q" "mq_msg_timeout q' = mq_msg_timeout q" "mq_rep q' ms"
    using dequeue_i_rep [OF Cons.prems(1) cap] by blast
  have bo: "buffers_ok (deliver b m) q'"
    using buffers_ok_deliver [OF Cons.prems(2,1)] q'(1) by (simp add: buffers_ok_def)
  show ?case
  proof (cases "mq_msg_timeout q \<noteq> 0 \<and> getdelay (clk 0) (m_time m) > u32_of_int (mq_msg_timeout q)")
    case True
    from Cons.IH [OF q'(3) bo k(2)] True d k q' show ?thesis by simp
  next
    case False
    then have "dequeue fuel clk q b f0 t0 ts0 = Some (0, q', deliver b m, m_flow m, m_type m)"
      by (auto simp: k(1) d)
    moreover have "drop_expired clk (mq_msg_timeout q) (m # ms) = m # ms" using False by auto
    ultimately show ?thesis using q' bo cap by (simp add: dequeue_result_def deliver_def)
  qed
qed

lemma getstat_counts:
  assumes "mq_rep q ms"
  shows "getstat q = \<lparr>st_usedlen = mq_bytes ms, st_freelen = mq_blocksize q - mq_bytes ms,
                      st_totallen = mq_blocksize q\<rparr>"
proof -
  have h: "ring_holds (mq_block q) (mq_head q) (mq_tail q) (concat (map mq_encode ms))"
    and wf: "mq_wf q" and N: "mq_blocksize q = length (mq_block q)" "mq_blocksize q < 2 ^ 31"
    using assms by (simp_all add: mq_rep_def mq_wf_def)
  have le: "mq_head q \<le> mq_blocksize q" "mq_tail q \<le> mq_blocksize q" using wf by (simp_all add: mq_wf_def)
  have "(if mq_tail q \<ge> mq_head q then sub32 (mq_tail q) (mq_head q)
         else sub32 (add32 (mq_tail q) (mq_blocksize q)) (mq_head q)) = mq_bytes ms"
    using ring_holds_used [OF h] N le by auto
  then show ?thesis
    using mq_free_len [OF wf] mq_rep_room [OF assms] by (simp add: getstat_def Let_def)
qed

text \<open>The eight bytes in front of the ring, as another process sees them.\<close>

definition mq_segment :: "shm_mq \<Rightarrow> bytes" where
  "mq_segment q = le_bytes 4 (mq_head q) @ le_bytes 4 (mq_tail q) @ mq_block q"

lemma length_mq_segment [simp]: "length (mq_segment q) = 8 + length (mq_block q)"
  by (simp add: mq_segment_def)

lemma mq_init_existing:
  assumes "mq_wf q"
  shows "mq_init True c True (mq_segment q) (int (length (mq_segment q))) p =
           Some (0, q\<lparr>mq_msg_timeout := mq_msg_timeout p\<rparr>)"
  using assms
  by (simp add: mq_init_def getmemory_def Let_def mem_simps mq_wf_def)
     (simp add: mq_segment_def slice_def codec_simps)

lemma mq_init_created:
  assumes "8 < length seg" "length seg < 2 ^ 31"
  shows "mq_init False True True seg (int (length seg)) p =
           Some (0, \<lparr>mq_head = 0, mq_tail = 0, mq_block = drop 8 seg,
                     mq_blocksize = length seg - 8, mq_msg_timeout = mq_msg_timeout p\<rparr>)"
proof -
  have z: "le_val [0, 0, 0, 0] = 0" by simp
  have r: "replicate 8 (0 :: byte) = [0,0,0,0,0,0,0,0]" by (simp add: numeral_eq_Suc)
  have "slice (overlay seg 0 (replicate 8 0)) 0 4 = [0,0,0,0]"
    "slice (overlay seg 0 (replicate 8 0)) 4 4 = [0,0,0,0]"
    using assms by (simp_all add: slice_def overlay_def r)
  moreover have "drop 8 (overlay seg 0 (replicate 8 (0::byte))) = drop 8 seg"
    by (simp add: overlay_def)
  ultimately show ?thesis using assms
    by (simp add: mq_init_def getmemory_def Let_def mem_simps z nat_diff_distrib)
qed

section \<open>The empty message at the end of the ring\<close>

lemma enqueue_empty_at_end:
  assumes "mq_wf q" "mq_head q = mq_tail q" "mq_tail q + C_HEAD_SIZE = mq_blocksize q" "0 < mq_tail q"
    and "blob_ok b" "b_len b = 0" "b_ext_len b = 0"
  shows "enqueue q b flow ty tv =
     Some (0, q\<lparr>mq_block := overlay (mq_block q) (mq_tail q) (mq_header tv C_HEAD_SIZE flow ty 0),
                mq_tail := mq_blocksize q\<rparr>)"
proof -
  have "msg_total (blob_msg b flow ty tv) = C_HEAD_SIZE" "mq_room q = mq_blocksize q"
    "mq_encode (blob_msg b flow ty tv) = mq_header tv C_HEAD_SIZE flow ty 0"
    using assms by (simp_all add: msg_total_blob mq_room_def)
      (simp add: mq_encode_def blob_msg_def msg_total_def)
  with enqueue_writes [of q b flow ty tv] assms show ?thesis
    by (simp add: ring_write_def ring_adv_def mq_wf_def)
qed

lemma dequeue_empty_at_end:
  assumes "mq_wf q" "mq_head q + C_HEAD_SIZE = mq_blocksize q" "mq_tail q = mq_blocksize q"
    and "slice (mq_block q) (mq_head q) C_HEAD_SIZE = mq_header tv C_HEAD_SIZE flow ty 0"
    and "flow < 2 ^ 32" "time_ok tv"
  shows "dequeue_i q b f0 t0 ts0 =
     Some (0, q\<lparr>mq_head := 0\<rparr>, b\<lparr>b_len := 0, b_ext_type := ty, b_ext_len := 0\<rparr>, flow, ty, tv)"
proof -
  let ?h = "mq_header tv C_HEAD_SIZE flow ty 0"
  have N: "mq_blocksize q = length (mq_block q)" "length (mq_block q) < 2 ^ 31"
    using assms(1) by (auto simp: mq_wf_def)
  have hd: "dequeue_head (mq_block q) (mq_blocksize q) (mq_head q) = Some (?h, 0)"
    using assms(2,4) N by (simp add: dequeue_head_def Let_def mem_simps)
  have f: "\<lparr>tv_sec = le_val (slice ?h 0 8), tv_usec = le_val (slice ?h 8 8)\<rparr> = tv"
    "le_val (slice ?h 16 4) = C_HEAD_SIZE" "le_val (slice ?h 20 4) = flow" "?h ! 24 = ty"
    "le_val (slice ?h 25 2) = 0"
    using assms(5,6) by (simp_all add: mq_header_def slice_def nth_append time_ok_def codec_simps)
  have ne: "mq_head q \<noteq> mq_tail q" "mq_head q < mq_tail q"
    "sub32 (mq_tail q) (mq_head q) = C_HEAD_SIZE" using assms N by auto
  have body: "dequeue_body (mq_block q) (mq_blocksize q) 0 0 0 0 (b_data b) (b_extdata b) =
     Some (0, b_data b, b_extdata b)"
    by (simp add: dequeue_body_def mem_simps)
  show ?thesis
    using ne by (simp add: dequeue_i_def Let_def hd f body)
qed

section \<open>Properties\<close>

text \<open>
  C4: The pipe is a FIFO of messages: whatever the interleaving of \<open>enqueue\<close> and
  \<open>dequeue_i\<close> calls with well-formed messages, no byte outside the ring or the buffers is
  touched, no \<open>assert\<close> fails, and the messages delivered (flow, type, time stamp, data
  and extended data), followed by those still in the ring, are the messages that were there
  followed by those \<open>enqueue\<close> accepted, in order.
\<close>

theorem shm_mq_run_fifo:
  assumes "mq_rep q ms" and "buffers_ok b q" and "list_all (op_ok msg_ok) ops"
  shows "\<exists>acc del q' rest. fifo_run mq_put (mq_get b) q ops = Some (acc, del, q') \<and>
           mq_rep q' rest \<and> ms @ acc = del @ rest"
  using shmmq.run_law [of q ms b ops] assms by auto

theorem shm_mq_run_fifo_witness:
  "\<exists>acc del q' rest.
     fifo_run mq_put (mq_get \<lparr>b_len = 0, b_data = replicate 60 0, b_ext_type = 0, b_ext_len = 0,
                              b_extdata = replicate 60 0\<rparr>)
       \<lparr>mq_head = 40, mq_tail = 40, mq_block = replicate 60 0, mq_blocksize = 60, mq_msg_timeout = 0\<rparr>
       [Put \<lparr>m_flow = 7, m_type = 0, m_data = [1, 2], m_ext = [3], m_time = \<lparr>tv_sec = 5, tv_usec = 6\<rparr>\<rparr>,
        Get, Get] = Some (acc, del, q') \<and> mq_rep q' rest \<and> [] @ acc = del @ rest"
  by (rule shm_mq_run_fifo) (simp_all add: mq_rep_fresh buffers_ok_def msg_ok_def time_ok_def)

text \<open>
  C5: \<open>enqueue\<close> never refuses a message that fits and never overwrites one that is
  waiting: for every blob with valid buffers it succeeds exactly when the bytes in use plus
  the new message leave at least one byte of the ring free, appends that message, and
  otherwise returns \<open>COMMU\_ERR\_MQFULL\<close> and leaves the waiting messages as they are.
\<close>

theorem shm_mq_enqueue_exact:
  assumes "mq_rep q ms" and "blob_ok b" and "msg_ok (blob_msg b flow ty tv)"
  shows "\<exists>q'. enqueue q b flow ty tv =
           Some (if mq_bytes ms + msg_total (blob_msg b flow ty tv) < mq_blocksize q
                 then 0 else COMMU_ERR_MQFULL, q') \<and>
         mq_rep q' (if mq_bytes ms + msg_total (blob_msg b flow ty tv) < mq_blocksize q
                    then ms @ [blob_msg b flow ty tv] else ms)"
  using enqueue_rep [OF assms] by blast

lemma blob_witness:
  "blob_ok \<lparr>b_len = 2, b_data = [1, 2, 9], b_ext_type = 0, b_ext_len = 1, b_extdata = [3]\<rparr>"
  "msg_ok (blob_msg \<lparr>b_len = 2, b_data = [1, 2, 9], b_ext_type = 0, b_ext_len = 1, b_extdata = [3]\<rparr>
             7 0 \<lparr>tv_sec = 5, tv_usec = 6\<rparr>)"
  by (simp_all add: blob_ok_def blob_msg_def msg_ok_def time_ok_def take_Cons')

theorem shm_mq_enqueue_exact_witness:
  "let b = \<lparr>b_len = 2, b_data = [1, 2, 9], b_ext_type = 0, b_ext_len = 1, b_extdata = [3]\<rparr>;
       m = blob_msg b 7 0 \<lparr>tv_sec = 5, tv_usec = 6\<rparr>;
       q = \<lparr>mq_head = 40, mq_tail = 40, mq_block = replicate 60 0, mq_blocksize = 60, mq_msg_timeout = 0\<rparr>
   in \<exists>q'. enqueue q b 7 0 \<lparr>tv_sec = 5, tv_usec = 6\<rparr> =
           Some (if mq_bytes [] + msg_total m < mq_blocksize q then 0 else COMMU_ERR_MQFULL, q') \<and>
         mq_rep q' (if mq_bytes [] + msg_total m < mq_blocksize q then [] @ [m] else [])"
  unfolding Let_def
  by (rule shm_mq_enqueue_exact [OF mq_rep_fresh blob_witness]) simp_all

text \<open>
  C6: \<open>dequeue\<close> terminates: one iteration per waiting message and one more are enough.
  It takes out exactly the longest prefix of messages that have waited longer than
  \<open>msg\_timeout\_\<close> when the clock is read for them, then delivers the first message that
  has not expired (flow, type, data and extended data intact), or reports
  \<open>COMMU\_ERR\_MQEMPTY\<close> when none is left; with \<open>msg\_timeout\_ = 0\<close> nothing is dropped.
\<close>

theorem shm_mq_dequeue_drops_expired:
  assumes "mq_rep q ms" and "buffers_ok b q" and "length ms < fuel"
  shows "\<exists>r. dequeue fuel clk q b f0 t0 ts0 = Some r \<and>
             dequeue_result (drop_expired clk (mq_msg_timeout q) ms) r"
  using dequeue_drops [OF assms] by blast

theorem shm_mq_dequeue_drops_expired_witness:
  "\<exists>r. dequeue 1 (\<lambda>_. \<lparr>tv_sec = 9, tv_usec = 0\<rparr>)
         \<lparr>mq_head = 40, mq_tail = 40, mq_block = replicate 60 0, mq_blocksize = 60, mq_msg_timeout = 5\<rparr>
         \<lparr>b_len = 0, b_data = replicate 60 0, b_ext_type = 0, b_ext_len = 0, b_extdata = replicate 60 0\<rparr>
         0 0 \<lparr>tv_sec = 0, tv_usec = 0\<rparr> = Some r \<and>
       dequeue_result (drop_expired (\<lambda>_. \<lparr>tv_sec = 9, tv_usec = 0\<rparr>) (mq_msg_timeout
         \<lparr>mq_head = 40, mq_tail = 40, mq_block = replicate 60 0, mq_blocksize = 60, mq_msg_timeout = 5\<rparr>) []) r"
  by (rule shm_mq_dequeue_drops_expired) (simp_all add: mq_rep_fresh buffers_ok_def)

text \<open>
  \<open>getstat\<close> is exact: the used length is the sum of the sizes of the waiting
  messages, headers included, and the used and the free length add up to the ring.
\<close>

theorem shm_mq_getstat_exact:
  assumes "mq_rep q ms"
  shows "getstat q = \<lparr>st_usedlen = mq_bytes ms, st_freelen = mq_blocksize q - mq_bytes ms,
                      st_totallen = mq_blocksize q\<rparr> \<and>
         st_usedlen (getstat q) + st_freelen (getstat q) = mq_blocksize q"
  using getstat_counts [OF assms] mq_rep_bytes_lt [OF assms] by simp

theorem shm_mq_getstat_exact_witness:
  "let q = \<lparr>mq_head = 60, mq_tail = 60, mq_block = replicate 60 0, mq_blocksize = 60, mq_msg_timeout = 0\<rparr>
   in getstat q = \<lparr>st_usedlen = mq_bytes [], st_freelen = mq_blocksize q - mq_bytes [],
                   st_totallen = mq_blocksize q\<rparr> \<and>
      st_usedlen (getstat q) + st_freelen (getstat q) = mq_blocksize q"
  unfolding Let_def by (rule shm_mq_getstat_exact [OF mq_rep_fresh]) simp_all

text \<open>
  Attaching to a segment that exists gives the pipe that the other process left
  there, with every message that waits in it; attaching to a segment that was just created
  gives an empty pipe over all of it but the two positions, whatever bytes it held.
\<close>

theorem shm_mq_attach:
  assumes "mq_rep q ms" and "8 < length seg" "length seg < 2 ^ 31"
  shows "(\<exists>q'. mq_init True c True (mq_segment q) (int (length (mq_segment q))) p = Some (0, q') \<and>
               mq_rep q' ms \<and> getstat q' = getstat q) \<and>
         (\<exists>q'. mq_init False True True seg (int (length seg)) p = Some (0, q') \<and>
               mq_rep q' [] \<and> mq_blocksize q' = length seg - 8)"
proof
  have "mq_rep (q\<lparr>mq_msg_timeout := mq_msg_timeout p\<rparr>) ms"
    using assms(1) by (simp add: mq_rep_def mq_wf_def)
  then show "\<exists>q'. mq_init True c True (mq_segment q) (int (length (mq_segment q))) p = Some (0, q') \<and>
               mq_rep q' ms \<and> getstat q' = getstat q"
    using mq_init_existing [OF mq_rep_wf [OF assms(1)], of c p] getstat_counts [OF assms(1)]
      getstat_counts [of "q\<lparr>mq_msg_timeout := mq_msg_timeout p\<rparr>" ms] by simp
  show "\<exists>q'. mq_init False True True seg (int (length seg)) p = Some (0, q') \<and>
               mq_rep q' [] \<and> mq_blocksize q' = length seg - 8"
    using mq_init_created [OF assms(2,3), of p] assms(2,3) mq_rep_fresh by simp
qed

theorem shm_mq_attach_witness:
  "let q = \<lparr>mq_head = 40, mq_tail = 40, mq_block = replicate 60 0, mq_blocksize = 60, mq_msg_timeout = 0\<rparr>
   in (\<exists>q'. mq_init True False True (mq_segment q) (int (length (mq_segment q))) q = Some (0, q') \<and>
               mq_rep q' [] \<and> getstat q' = getstat q) \<and>
      (\<exists>q'. mq_init False True True (replicate 90 7) (int (length (replicate 90 (7 :: byte)))) q =
               Some (0, q') \<and> mq_rep q' [] \<and> mq_blocksize q' = length (replicate 90 (7 :: byte)) - 8)"
  unfolding Let_def by (rule shm_mq_attach [OF mq_rep_fresh]) simp_all



end
