(* ===== verification/StdMap.thy ===== *)
theory StdMap
  imports Main
begin

text \<open>
  \<open>std::map\<close> as the program uses it: an association list with strictly increasing keys,
  because the order of iteration is observable (it is the order of the callbacks and of the
  output).  \<open>insert\<close> keeps the old value of a key that is present, \<open>operator[]\<close> with an
  assignment replaces it.
\<close>

type_synonym ('k, 'v) smap = "('k \<times> 'v) list"

fun smap_insert :: "'k :: linorder \<Rightarrow> 'v \<Rightarrow> ('k, 'v) smap \<Rightarrow> ('k, 'v) smap" where
  "smap_insert k v [] = [(k, v)]"
| "smap_insert k v ((k', v') # m) =
     (if k < k' then (k, v) # (k', v') # m
      else if k = k' then (k', v') # m
      else (k', v') # smap_insert k v m)"

fun smap_set :: "'k :: linorder \<Rightarrow> 'v \<Rightarrow> ('k, 'v) smap \<Rightarrow> ('k, 'v) smap" where
  "smap_set k v [] = [(k, v)]"
| "smap_set k v ((k', v') # m) =
     (if k < k' then (k, v) # (k', v') # m
      else if k = k' then (k, v) # m
      else (k', v') # smap_set k v m)"

fun smap_erase :: "'k :: linorder \<Rightarrow> ('k, 'v) smap \<Rightarrow> ('k, 'v) smap" where
  "smap_erase k [] = []"
| "smap_erase k ((k', v') # m) = (if k = k' then m else (k', v') # smap_erase k m)"

definition smap_ok :: "('k :: linorder, 'v) smap \<Rightarrow> bool" where
  "smap_ok m = sorted_wrt (<) (map fst m)"

lemma smap_ok_Nil [simp]: "smap_ok []"
  by (simp add: smap_ok_def)

lemma smap_ok_Cons [simp]: "smap_ok (p # m) \<longleftrightarrow> (\<forall>q\<in>set m. fst p < fst q) \<and> smap_ok m"
  by (auto simp: smap_ok_def)

lemma smap_ok_distinct: "smap_ok m \<Longrightarrow> distinct (map fst m)"
  by (induction m) auto

lemma smap_ok_filter [simp]: "smap_ok m \<Longrightarrow> smap_ok (filter P m)"
  by (induction m) auto

lemma set_smap_insert: "set (smap_insert k v m) \<subseteq> insert (k, v) (set m)"
  by (induction m rule: smap_insert.induct) auto

lemma set_smap_set: "set (smap_set k v m) \<subseteq> insert (k, v) (set m)"
  by (induction m rule: smap_set.induct) auto

lemma set_smap_erase: "set (smap_erase k m) \<subseteq> set m"
  by (induction m rule: smap_erase.induct) auto

lemma smap_ok_insert [simp]: "smap_ok m \<Longrightarrow> smap_ok (smap_insert k v m)"
proof (induction m rule: smap_insert.induct)
  case (2 k v k' v' m)
  then show ?case using set_smap_insert [of k v m] by fastforce
qed simp

lemma smap_ok_set [simp]: "smap_ok m \<Longrightarrow> smap_ok (smap_set k v m)"
proof (induction m rule: smap_set.induct)
  case (2 k v k' v' m)
  then show ?case using set_smap_set [of k v m] by fastforce
qed simp

lemma smap_ok_erase [simp]: "smap_ok m \<Longrightarrow> smap_ok (smap_erase k m)"
proof (induction m rule: smap_erase.induct)
  case (2 k k' v' m)
  then show ?case using set_smap_erase [of k m] by fastforce
qed simp

lemma map_of_below: "(\<forall>q\<in>set m. (k :: 'k :: linorder) < fst q) \<Longrightarrow> map_of m k = None"
  by (induction m) auto

lemma map_of_smap_insert [simp]:
  "smap_ok m \<Longrightarrow> map_of (smap_insert k v m) =
     (case map_of m k of None \<Rightarrow> (map_of m)(k \<mapsto> v) | Some _ \<Rightarrow> map_of m)"
proof (induction m rule: smap_insert.induct)
  case (2 k v k' v' m)
  then have "map_of m k = None" if "k < k'"
    using that by (intro map_of_below) auto
  with 2 show ?case
    by (cases "k < k'") (auto simp: fun_eq_iff split: option.splits)
qed (simp add: fun_eq_iff)

lemma map_of_smap_set [simp]: "smap_ok m \<Longrightarrow> map_of (smap_set k v m) = (map_of m)(k \<mapsto> v)"
  by (induction m rule: smap_set.induct) (auto simp: fun_eq_iff)

lemma map_of_smap_erase [simp]: "smap_ok m \<Longrightarrow> map_of (smap_erase k m) = (map_of m)(k := None)"
  by (induction m rule: smap_erase.induct) (auto simp: fun_eq_iff map_of_below)

lemma map_of_filter_val:
  "smap_ok m \<Longrightarrow> map_of (filter (\<lambda>(k, v). P k v) m) k =
     (case map_of m k of None \<Rightarrow> None | Some v \<Rightarrow> if P k v then Some v else None)"
  by (induction m) (auto simp: map_of_below split: option.splits)

end
