(* ===== verification/ShmCommu.thy ===== *)
theory ShmCommu
  imports ShmMQ StdMap
begin

text \<open>
  The communication component over two pipes, \<open>CTShmCommu\<close> (shmcommu.h, shmcommu.cpp),
  with its producer and consumer wrappers.  A callback into the server is an event of the
  trace that an operation returns: which callback, for which flow, with which blob; calling
  an unregistered \<open>CB_RECVDATA\<close> is \<open>None\<close>, the null function pointer that it is.  Locks,
  shared memory calls and the clock enter as the values they return.  The load check is not
  compiled in (\<open>LOAD_CHECK_ENABLE\<close> is commented out in the header).
\<close>

section \<open>Data\<close>

datatype cb_type =
  CB_CONNECT | CB_CONNECTED | CB_DISCONNECT | CB_RECVDATA | CB_RECVERROR | CB_RECVDONE |
  CB_SENDDATA | CB_SENDERROR | CB_SENDDONE | CB_HANGUP | CB_OVERLOAD | CB_TIMEOUT

datatype ctrl_type = CT_DISCONNECT | CT_CLOSE | CT_STAT | CT_LOAD | CT_GET_CONN_EXT_INFO

abbreviation EXT_TYPE_NONE :: byte where "EXT_TYPE_NONE \<equiv> 0"
abbreviation EXT_TYPE_CONNECTED :: byte where "EXT_TYPE_CONNECTED \<equiv> 1"
abbreviation EXT_TYPE_OVERLOAD :: byte where "EXT_TYPE_OVERLOAD \<equiv> 2"
abbreviation EXT_TYPE_TIMEOUT :: byte where "EXT_TYPE_TIMEOUT \<equiv> 3"
abbreviation EXT_TYPE_DISCONNECT :: byte where "EXT_TYPE_DISCONNECT \<equiv> 4"
abbreviation MAX_BLOB_EXTDATA_LEN :: nat where "MAX_BLOB_EXTDATA_LEN \<equiv> 65535"
abbreviation LOCK_TYPE_PRODUCER :: nat where "LOCK_TYPE_PRODUCER \<equiv> 1"
abbreviation LOCK_TYPE_COMSUMER :: nat where "LOCK_TYPE_COMSUMER \<equiv> 2"

record shm_conf =
  shmsize_producer :: int
  shmsize_comsumer :: int
  cf_locktype :: nat
  cf_expiretime :: int
  cf_maxpkg :: int
  cf_msg_timeout :: int

record shm_commu =
  producer :: shm_mq
  comsumer :: shm_mq
  buff_size :: nat
  buff_ext_size :: nat
  buff_blob :: blob
  locktype :: nat
  expiremap :: "(nat, nat) smap"
  expiretime :: int
  lastchecktime :: int
  func_list :: "cb_type \<Rightarrow> bool"

record commu_event =
  ev_cb :: cb_type
  ev_flow :: nat
  ev_blob :: blob

text \<open>Registering a function (\<open>f\<close> tells whether it is not null); every callback type is in range.\<close>

definition reg_cb :: "shm_commu \<Rightarrow> cb_type \<Rightarrow> bool \<Rightarrow> int \<times> shm_commu" where
  "reg_cb c ty f = (0, c\<lparr>func_list := (func_list c)(ty := f)\<rparr>)"

definition call_cb :: "shm_commu \<Rightarrow> cb_type \<Rightarrow> nat \<Rightarrow> blob \<Rightarrow> commu_event list" where
  "call_cb c ty flow b =
     (if func_list c ty then [\<lparr>ev_cb = ty, ev_flow = flow, ev_blob = b\<rparr>] else [])"

section \<open>Producer and consumer\<close>

text \<open>
  What the system calls of one \<open>init\<close> give: the segment exists, could be created, could be
  mapped, its bytes; the lock file could be opened and mapped (the variant with a shared
  \<open>pthread\<close> mutex, \<open>SLK_LINUX\<close> is not defined).
\<close>

record shm_env =
  env_exists :: bool
  env_created :: bool
  env_mapped :: bool
  env_seg :: bytes
  env_lock_opened :: bool
  env_lock_mapped :: bool

abbreviation COMMU_ERR_FILEOPEN :: int where "COMMU_ERR_FILEOPEN \<equiv> -111"
abbreviation COMMU_ERR_FILEMAP :: int where "COMMU_ERR_FILEMAP \<equiv> -112"

definition fresh_mq :: shm_mq where
  "fresh_mq = \<lparr>mq_head = 0, mq_tail = 0, mq_block = [], mq_blocksize = 0, mq_msg_timeout = 0\<rparr>"

definition producer_init :: "shm_env \<Rightarrow> int \<Rightarrow> (int \<times> shm_mq) option" where
  "producer_init e shmsize =
     mq_init (env_exists e) (env_created e) (env_mapped e) (env_seg e) shmsize fresh_mq"

definition producerL_init :: "shm_env \<Rightarrow> int \<Rightarrow> (int \<times> shm_mq) option" where
  "producerL_init e shmsize = do {
     (ret, q) \<leftarrow> producer_init e shmsize;
     Some (if ret = 0
           then (if env_lock_opened e
                 then (if env_lock_mapped e then 0 else COMMU_ERR_FILEMAP)
                 else COMMU_ERR_FILEOPEN)
           else ret, q)
   }"

definition comsumer_init :: "shm_env \<Rightarrow> int \<Rightarrow> (int \<times> shm_mq) option" where
  "comsumer_init e shmsize =
     mq_init (env_exists e) (env_created e) (env_mapped e) (env_seg e) shmsize fresh_mq"

definition comsumerL_init :: "shm_env \<Rightarrow> int \<Rightarrow> (int \<times> shm_mq) option" where
  "comsumerL_init e shmsize = do {
     (ret, q) \<leftarrow> comsumer_init e shmsize;
     Some (if ret = 0
           then (if env_lock_opened e
                 then (if env_lock_mapped e then 0 else COMMU_ERR_FILEMAP)
                 else COMMU_ERR_FILEOPEN)
           else ret, q)
   }"

definition produce :: "shm_mq \<Rightarrow> blob \<Rightarrow> nat \<Rightarrow> byte \<Rightarrow> timeval \<Rightarrow> (int \<times> shm_mq) option" where
  "produce q b flow msgtype tval = enqueue q b flow msgtype tval"

definition produceL :: "int \<Rightarrow> shm_mq \<Rightarrow> blob \<Rightarrow> nat \<Rightarrow> byte \<Rightarrow> timeval \<Rightarrow> (int \<times> shm_mq) option" where
  "produceL lock_rc q b flow msgtype tval =
     (if lock_rc = 0 then produce q b flow msgtype tval else Some (lock_rc, q))"

text \<open>
  The blob and the out-parameters are untouched when the lock is not obtained.  The clock
  gives one reading for each message that \<open>dequeue\<close> takes out.
\<close>

definition comsume_i ::
  "nat \<Rightarrow> (nat \<Rightarrow> timeval) \<Rightarrow> shm_mq \<Rightarrow> blob \<Rightarrow> nat \<Rightarrow> byte \<Rightarrow>
   (int \<times> shm_mq \<times> blob \<times> nat \<times> byte) option" where
  "comsume_i fuel clk q b flow msgtype =
     dequeue fuel clk q b flow msgtype \<lparr>tv_sec = 0, tv_usec = 0\<rparr>"

definition comsumeL_i ::
  "int \<Rightarrow> nat \<Rightarrow> (nat \<Rightarrow> timeval) \<Rightarrow> shm_mq \<Rightarrow> blob \<Rightarrow> nat \<Rightarrow> byte \<Rightarrow>
   (int \<times> shm_mq \<times> blob \<times> nat \<times> byte) option" where
  "comsumeL_i lock_rc fuel clk q b flow msgtype =
     (if lock_rc = 0
      then dequeue fuel clk q b flow msgtype \<lparr>tv_sec = 0, tv_usec = 0\<rparr>
      else Some (lock_rc, q, b, flow, msgtype))"

definition comsume ::
  "nat \<Rightarrow> int \<Rightarrow> nat \<Rightarrow> (nat \<Rightarrow> timeval) \<Rightarrow> shm_mq \<Rightarrow> blob \<Rightarrow> nat \<Rightarrow> byte \<Rightarrow>
   (int \<times> shm_mq \<times> blob \<times> nat \<times> byte) option" where
  "comsume lt lock_rc fuel clk q b flow msgtype = do {
     (ret, q', b', flow', msgtype') \<leftarrow>
       (if lt AND LOCK_TYPE_COMSUMER \<noteq> 0 then comsumeL_i lock_rc fuel clk q b flow msgtype
        else comsume_i fuel clk q b flow msgtype);
     Some (if ret = 0 \<or> ret \<noteq> COMMU_ERR_MQEMPTY then ret else COMMU_ERR_MQEMPTY,
           q', b', flow', msgtype')
   }"

section \<open>Initialisation\<close>

text \<open>
  \<open>newbuf n\<close> is what \<open>new char[n]\<close> returns.  The consumer is not initialised when the
  producer fails.
\<close>

definition commu_init ::
  "shm_conf \<Rightarrow> shm_env \<Rightarrow> shm_env \<Rightarrow> (nat \<Rightarrow> bytes) \<Rightarrow> int \<Rightarrow> (cb_type \<Rightarrow> bool) \<Rightarrow>
   (int \<times> shm_commu) option" where
  "commu_init conf ep ec newbuf now cbs =
     (if \<not> (cf_expiretime conf \<ge> 0 \<and> cf_maxpkg conf \<ge> 0) then None
      else do {
        let bs = u32_of_int (shmsize_comsumer conf);
        let b = \<lparr>b_len = s32_of_nat bs, b_data = newbuf bs, b_ext_type = EXT_TYPE_NONE,
                 b_ext_len = MAX_BLOB_EXTDATA_LEN, b_extdata = newbuf MAX_BLOB_EXTDATA_LEN\<rparr>;
        (ret, p) \<leftarrow> (if cf_locktype conf AND LOCK_TYPE_PRODUCER \<noteq> 0
                     then producerL_init ep (shmsize_producer conf)
                     else producer_init ep (shmsize_producer conf));
        let c = \<lparr>producer = p\<lparr>mq_msg_timeout := cf_msg_timeout conf\<rparr>, comsumer = fresh_mq,
                 buff_size = bs, buff_ext_size = MAX_BLOB_EXTDATA_LEN, buff_blob = b,
                 locktype = cf_locktype conf, expiremap = [], expiretime = cf_expiretime conf,
                 lastchecktime = now, func_list = cbs\<rparr>;
        if ret \<noteq> 0 then Some (ret, c)
        else do {
          (ret2, q) \<leftarrow> (if cf_locktype conf AND LOCK_TYPE_COMSUMER \<noteq> 0
                        then comsumerL_init ec (shmsize_comsumer conf)
                        else comsumer_init ec (shmsize_comsumer conf));
          Some (ret2, c\<lparr>comsumer := q\<lparr>mq_msg_timeout := cf_msg_timeout conf\<rparr>\<rparr>)
        }
      })"

section \<open>Expiry of flows\<close>

fun expire_split ::
  "shm_commu \<Rightarrow> nat \<Rightarrow> (nat, nat) smap \<Rightarrow> commu_event list \<times> (nat, nat) smap" where
  "expire_split c deadline [] = ([], [])"
| "expire_split c deadline ((flow, t) # m) =
     (let (evs, newmap) = expire_split c deadline m
      in if t < deadline then (call_cb c CB_TIMEOUT flow (buff_blob c) @ evs, newmap)
         else (evs, smap_insert flow t newmap))"

definition check_expire :: "shm_commu \<Rightarrow> int \<Rightarrow> int \<Rightarrow> shm_commu \<times> commu_event list" where
  "check_expire c now now2 =
     (if now - lastchecktime c > 60
      then let (evs, newmap) = expire_split c (u32_of_int (now2 - expiretime c)) (expiremap c);
               c1 = (if length newmap \<noteq> 0 then c\<lparr>expiremap := newmap\<rparr> else c)
           in (c1\<lparr>lastchecktime := now\<rparr>, evs)
      else (c, []))"

section \<open>poll and sendto\<close>

definition poll_dispatch :: "shm_commu \<Rightarrow> nat \<Rightarrow> byte \<Rightarrow> commu_event list option" where
  "poll_dispatch c flow msgtype =
     (if msgtype = EXT_TYPE_CONNECTED then Some (call_cb c CB_CONNECTED flow (buff_blob c))
      else if msgtype = EXT_TYPE_OVERLOAD then Some (call_cb c CB_OVERLOAD flow (buff_blob c))
      else if msgtype = EXT_TYPE_TIMEOUT then Some (call_cb c CB_TIMEOUT flow (buff_blob c))
      else if msgtype = EXT_TYPE_DISCONNECT then Some (call_cb c CB_DISCONNECT flow (buff_blob c))
      else if func_list c CB_RECVDATA then Some (call_cb c CB_RECVDATA flow (buff_blob c))
      else None)"

text \<open>
  The loop: with \<open>_SPP_PROXY\<close> (\<open>proxy\<close>) it goes on after a message unless the caller asked
  for a blocking poll; otherwise it ends after one turn.  \<open>dfuel\<close> bounds the messages one
  \<open>dequeue\<close> may drop, \<open>clk i\<close> is the clock of turn \<open>i\<close>, \<open>lk i\<close> the result of its lock.
\<close>

fun poll_loop ::
  "bool \<Rightarrow> bool \<Rightarrow> nat \<Rightarrow> nat \<Rightarrow> (nat \<Rightarrow> int) \<Rightarrow> (nat \<Rightarrow> nat \<Rightarrow> timeval) \<Rightarrow> shm_commu \<Rightarrow> nat \<Rightarrow> byte \<Rightarrow>
   (int \<times> shm_commu \<times> nat \<times> commu_event list) option" where
  "poll_loop proxy block 0 dfuel lk clk c flow msgtype = None"
| "poll_loop proxy block (Suc fuel) dfuel lk clk c flow msgtype =
     (case comsume (locktype c) (lk 0) dfuel (clk 0) (comsumer c) (buff_blob c) flow msgtype of
        None \<Rightarrow> None
      | Some (ret, q', b', flow', msgtype') \<Rightarrow>
          (let c' = c\<lparr>comsumer := q', buff_blob := b'\<rparr>
           in if ret = 0
              then (case poll_dispatch c' flow' msgtype' of
                      None \<Rightarrow> None
                    | Some evs \<Rightarrow>
                        if proxy \<and> \<not> block
                        then (case poll_loop proxy block fuel dfuel (\<lambda>i. lk (Suc i)) (\<lambda>i. clk (Suc i))
                                     c' flow' msgtype' of
                                None \<Rightarrow> None
                              | Some (r, c'', f, evs') \<Rightarrow> Some (r, c'', f, evs @ evs'))
                        else Some (ret, c', flow', evs))
              else Some (ret, c', flow', [])))"

definition poll ::
  "bool \<Rightarrow> bool \<Rightarrow> nat \<Rightarrow> nat \<Rightarrow> (nat \<Rightarrow> int) \<Rightarrow> (nat \<Rightarrow> nat \<Rightarrow> timeval) \<Rightarrow> int \<Rightarrow> int \<Rightarrow> shm_commu \<Rightarrow>
   (int \<times> shm_commu \<times> commu_event list) option" where
  "poll proxy block fuel dfuel lk clk now now2 c = do {
     (ret, c1, flow, evs) \<leftarrow> poll_loop proxy block fuel dfuel lk clk c 0 EXT_TYPE_NONE;
     if expiretime c1 \<noteq> 0
     then let c2 = (if ret = 0 then c1\<lparr>expiremap := smap_erase flow (expiremap c1)\<rparr> else c1);
              (c3, evs') = check_expire c2 now now2
          in Some (ret, c3, evs @ evs')
     else Some (ret, c1, evs)
   }"

definition sendto ::
  "int \<Rightarrow> timeval \<Rightarrow> int \<Rightarrow> shm_commu \<Rightarrow> nat \<Rightarrow> blob \<Rightarrow> (int \<times> shm_commu \<times> commu_event list) option" where
  "sendto lock_rc tval now c flow b = do {
     let msg_type = b_ext_type b;
     (ret, q) \<leftarrow> (if locktype c AND LOCK_TYPE_PRODUCER \<noteq> 0
                  then produceL lock_rc (producer c) b flow msg_type tval
                  else produce (producer c) b flow msg_type tval);
     let c1 = c\<lparr>producer := q\<rparr>;
     let c2 = (if expiretime c1 \<noteq> 0 \<and> ret = 0
               then c1\<lparr>expiremap := smap_insert flow (u32_of_int now) (expiremap c1)\<rparr> else c1);
     Some (ret, c2, if ret = 0 then call_cb c2 CB_SENDDATA flow b else call_cb c2 CB_SENDERROR flow b)
   }"

text \<open>\<open>ctrl\<close> only prints the two pipe statistics; the model returns them.\<close>

definition commu_ctrl :: "shm_commu \<Rightarrow> ctrl_type \<Rightarrow> mq_stat list" where
  "commu_ctrl c ty = (case ty of CT_STAT \<Rightarrow> [getstat (producer c), getstat (comsumer c)] | _ \<Rightarrow> [])"

section \<open>What a poll delivers\<close>

text \<open>The callback for a message, and the message without its time stamp, which is dropped.\<close>

definition msg_cb :: "mq_msg \<Rightarrow> cb_type" where
  "msg_cb m = (if m_type m = EXT_TYPE_CONNECTED then CB_CONNECTED
     else if m_type m = EXT_TYPE_OVERLOAD then CB_OVERLOAD
     else if m_type m = EXT_TYPE_TIMEOUT then CB_TIMEOUT
     else if m_type m = EXT_TYPE_DISCONNECT then CB_DISCONNECT else CB_RECVDATA)"

definition no_time :: timeval where
  "no_time = \<lparr>tv_sec = 0, tv_usec = 0\<rparr>"

definition event_msg :: "commu_event \<Rightarrow> cb_type \<times> mq_msg" where
  "event_msg e = (ev_cb e, blob_msg (ev_blob e) (ev_flow e) (b_ext_type (ev_blob e)) no_time)"

definition announced :: "(cb_type \<Rightarrow> bool) \<Rightarrow> mq_msg list \<Rightarrow> (cb_type \<times> mq_msg) list" where
  "announced cbs ms = map (\<lambda>m. (msg_cb m, m\<lparr>m_time := no_time\<rparr>)) (filter (\<lambda>m. cbs (msg_cb m)) ms)"

lemma announced_simps [simp]:
  "announced cbs [] = []"
  "announced cbs (m # ms) =
     (if cbs (msg_cb m) then [(msg_cb m, m\<lparr>m_time := no_time\<rparr>)] else []) @ announced cbs ms"
  by (simp_all add: announced_def)

definition lock_free :: "shm_commu \<Rightarrow> nat \<Rightarrow> bool" where
  "lock_free c k \<longleftrightarrow> locktype c AND k = 0"

lemma comsume_rep:
  assumes "mq_rep q ms" "buffers_ok b q" "length ms < dfuel" "lt AND LOCK_TYPE_COMSUMER = 0 \<or> rc = 0"
  shows "\<exists>ret q' b' f t. comsume lt rc dfuel clk q b f0 t0 = Some (ret, q', b', f, t) \<and>
       dequeue_result (drop_expired clk (mq_msg_timeout q) ms) (ret, q', b', f, t) \<and>
       buffers_ok b' q' \<and> mq_msg_timeout q' = mq_msg_timeout q \<and> mq_blocksize q' = mq_blocksize q"
proof -
  obtain ret q' b' f t where
    d: "dequeue dfuel clk q b f0 t0 \<lparr>tv_sec = 0, tv_usec = 0\<rparr> = Some (ret, q', b', f, t)"
    and r: "dequeue_result (drop_expired clk (mq_msg_timeout q) ms) (ret, q', b', f, t)"
      "buffers_ok b' q'" "mq_msg_timeout q' = mq_msg_timeout q" "mq_blocksize q' = mq_blocksize q"
    using dequeue_drops [OF assms(1-3)] by blast
  have "comsume lt rc dfuel clk q b f0 t0 = Some (ret, q', b', f, t)"
    using assms(4) by (auto simp: comsume_def comsumeL_i_def comsume_i_def d)
  with r show ?thesis by blast
qed

text \<open>A blob whose length is covered by its buffer.\<close>

definition blob_full :: "blob \<Rightarrow> bool" where
  "blob_full b \<longleftrightarrow> 0 \<le> b_len b \<and> nat (b_len b) \<le> length (b_data b)"

definition events_full :: "commu_event list \<Rightarrow> bool" where
  "events_full evs \<longleftrightarrow> (\<forall>e\<in>set evs. blob_full (ev_blob e))"

lemma events_full_simps [simp]:
  "events_full []" "events_full (xs @ ys) \<longleftrightarrow> events_full xs \<and> events_full ys"
  by (auto simp: events_full_def)

lemma poll_dispatch_event:
  assumes "func_list c CB_RECVDATA" "b_ext_type (buff_blob c) = m_type m" "ty = m_type m" "flow = m_flow m"
    and "b_len (buff_blob c) = int (length (m_data m))"
    and "take (length (m_data m)) (b_data (buff_blob c)) = m_data m"
    and "b_ext_len (buff_blob c) = length (m_ext m)"
    and "take (length (m_ext m)) (b_extdata (buff_blob c)) = m_ext m"
  shows "\<exists>evs. poll_dispatch c flow ty = Some evs \<and> map event_msg evs = announced (func_list c) [m] \<and>
    events_full evs"
proof -
  have "length (m_data m) \<le> length (b_data (buff_blob c))"
    using arg_cong [OF assms(6), of length] by simp
  then have "blob_full (buff_blob c)" using assms(5) by (simp add: blob_full_def)
  with assms show ?thesis
    by (auto simp: poll_dispatch_def call_cb_def msg_cb_def event_msg_def announced_def blob_msg_def events_full_def)
qed

text \<open>The messages that successive turns deliver when each turn drops the expired ones.\<close>

lemma length_drop_expired: "length (drop_expired clk to ms) \<le> length ms"
  by (induction clk to ms rule: drop_expired.induct) auto

function drain :: "(nat \<Rightarrow> nat \<Rightarrow> timeval) \<Rightarrow> int \<Rightarrow> mq_msg list \<Rightarrow> mq_msg list" where
  "drain clk to ms = (case drop_expired (clk 0) to ms of [] \<Rightarrow> []
     | m # r \<Rightarrow> m # drain (\<lambda>i. clk (Suc i)) to r)"
  by pat_completeness auto
termination
proof (relation "measure (\<lambda>(clk, to, ms). length ms)")
  fix clk :: "nat \<Rightarrow> nat \<Rightarrow> timeval" and to ms m r
  assume "drop_expired (clk 0) to ms = m # r"
  then show "((\<lambda>i. clk (Suc i), to, r), (clk, to, ms)) \<in> measure (\<lambda>(clk, to, ms). length ms)"
    using length_drop_expired [of "clk 0" to ms] by simp
qed simp

declare drain.simps [simp del]

lemma drain_no_timeout: "drain clk 0 ms = ms"
proof (induction ms arbitrary: clk)
  case Nil
  then show ?case by (simp add: drain.simps)
next
  case (Cons m ms)
  then show ?case by (simp add: drain.simps [of clk])
qed

definition locks_ok :: "shm_commu \<Rightarrow> (nat \<Rightarrow> int) \<Rightarrow> bool" where
  "locks_ok c lk \<longleftrightarrow> lock_free c LOCK_TYPE_COMSUMER \<or> (\<forall>i. lk i = 0)"

definition commu_ok :: "shm_commu \<Rightarrow> mq_msg list \<Rightarrow> bool" where
  "commu_ok c ms \<longleftrightarrow> mq_rep (comsumer c) ms \<and> buffers_ok (buff_blob c) (comsumer c) \<and>
     func_list c CB_RECVDATA"

text \<open>What \<open>poll\<close> leaves alone.\<close>

definition same_flows :: "shm_commu \<Rightarrow> shm_commu \<Rightarrow> bool" where
  "same_flows c c' \<longleftrightarrow> expiremap c' = expiremap c \<and> lastchecktime c' = lastchecktime c \<and>
     expiretime c' = expiretime c \<and> func_list c' = func_list c \<and> locktype c' = locktype c \<and>
     producer c' = producer c \<and> mq_msg_timeout (comsumer c') = mq_msg_timeout (comsumer c) \<and>
     mq_blocksize (comsumer c') = mq_blocksize (comsumer c)"

lemma same_flows_refl [simp]: "same_flows c c"
  by (simp add: same_flows_def)

lemma poll_turn:
  assumes "commu_ok c ms" "length ms < dfuel" "locks_ok c lk"
  shows "\<exists>ret q' b' f t.
    comsume (locktype c) (lk 0) dfuel (clk 0) (comsumer c) (buff_blob c) f0 t0 = Some (ret, q', b', f, t) \<and>
    (case drop_expired (clk 0) (mq_msg_timeout (comsumer c)) ms of
       [] \<Rightarrow> ret = COMMU_ERR_MQEMPTY \<and> commu_ok (c\<lparr>comsumer := q', buff_blob := b'\<rparr>) []
     | m # r \<Rightarrow> ret = 0 \<and> f = m_flow m \<and> commu_ok (c\<lparr>comsumer := q', buff_blob := b'\<rparr>) r \<and>
         (\<exists>evs. poll_dispatch (c\<lparr>comsumer := q', buff_blob := b'\<rparr>) f t = Some evs \<and>
            map event_msg evs = announced (func_list c) [m] \<and> events_full evs)) \<and>
    mq_msg_timeout q' = mq_msg_timeout (comsumer c) \<and> mq_blocksize q' = mq_blocksize (comsumer c)"
proof -
  note c = assms(1) [unfolded commu_ok_def]
  obtain ret q' b' f t where
    d: "comsume (locktype c) (lk 0) dfuel (clk 0) (comsumer c) (buff_blob c) f0 t0 = Some (ret, q', b', f, t)"
    and r: "dequeue_result (drop_expired (clk 0) (mq_msg_timeout (comsumer c)) ms) (ret, q', b', f, t)"
    and k: "buffers_ok b' q'" "mq_msg_timeout q' = mq_msg_timeout (comsumer c)" "mq_blocksize q' = mq_blocksize (comsumer c)"
    using comsume_rep [of "comsumer c" ms "buff_blob c" dfuel "locktype c" "lk 0" "clk 0" f0 t0] c assms(2,3)
    by (auto simp: locks_ok_def lock_free_def)
  let ?c = "c\<lparr>comsumer := q', buff_blob := b'\<rparr>"
  show ?thesis
  proof (cases "drop_expired (clk 0) (mq_msg_timeout (comsumer c)) ms")
    case Nil
    then show ?thesis using d r k c by (simp add: dequeue_result_def commu_ok_def)
  next
    case (Cons m ms')
    then have m: "ret = 0" "mq_rep q' ms'" "f = m_flow m" "t = m_type m" "b_ext_type b' = m_type m"
      "b_len b' = int (length (m_data m))" "take (length (m_data m)) (b_data b') = m_data m"
      "b_ext_len b' = length (m_ext m)" "take (length (m_ext m)) (b_extdata b') = m_ext m"
      using r by (simp_all add: dequeue_result_def)
    have "\<exists>evs. poll_dispatch ?c f t = Some evs \<and> map event_msg evs = announced (func_list ?c) [m] \<and> events_full evs"
      using m c by (intro poll_dispatch_event) simp_all
    then show ?thesis using d m k c Cons by (simp add: commu_ok_def)
  qed
qed

lemma poll_loop_proxy:
  "commu_ok c ms \<Longrightarrow> length ms < fuel \<Longrightarrow> length ms < dfuel \<Longrightarrow> locks_ok c lk \<Longrightarrow>
   \<exists>c' f evs. poll_loop True False fuel dfuel lk clk c f0 t0 = Some (COMMU_ERR_MQEMPTY, c', f, evs) \<and>
     commu_ok c' [] \<and> same_flows c c' \<and>
     map event_msg evs = announced (func_list c) (drain clk (mq_msg_timeout (comsumer c)) ms) \<and> events_full evs"
proof (induction fuel arbitrary: c ms lk clk f0 t0)
  case 0
  then show ?case by simp
next
  case (Suc fuel)
  obtain ret q' b' f t where
    d: "comsume (locktype c) (lk 0) dfuel (clk 0) (comsumer c) (buff_blob c) f0 t0 = Some (ret, q', b', f, t)"
    and turn: "case drop_expired (clk 0) (mq_msg_timeout (comsumer c)) ms of
       [] \<Rightarrow> ret = COMMU_ERR_MQEMPTY \<and> commu_ok (c\<lparr>comsumer := q', buff_blob := b'\<rparr>) []
     | m # r \<Rightarrow> ret = 0 \<and> f = m_flow m \<and> commu_ok (c\<lparr>comsumer := q', buff_blob := b'\<rparr>) r \<and>
         (\<exists>evs. poll_dispatch (c\<lparr>comsumer := q', buff_blob := b'\<rparr>) f t = Some evs \<and>
            map event_msg evs = announced (func_list c) [m] \<and> events_full evs)"
    and to: "mq_msg_timeout q' = mq_msg_timeout (comsumer c)" "mq_blocksize q' = mq_blocksize (comsumer c)"
    using poll_turn [of c ms dfuel lk clk f0 t0] Suc.prems by blast
  let ?c = "c\<lparr>comsumer := q', buff_blob := b'\<rparr>"
  show ?case
  proof (cases "drop_expired (clk 0) (mq_msg_timeout (comsumer c)) ms")
    case Nil
    then show ?thesis using d turn to by (simp add: drain.simps same_flows_def)
  next
    case (Cons m r)
    then obtain evs where m: "ret = 0" "commu_ok ?c r" "poll_dispatch ?c f t = Some evs"
      "map event_msg evs = announced (func_list c) [m]" "events_full evs" using turn by auto
    have "length r < length ms"
      using length_drop_expired [of "clk 0" "mq_msg_timeout (comsumer c)" ms] Cons by simp
    then obtain c' g evs' where
      "poll_loop True False fuel dfuel (\<lambda>i. lk (Suc i)) (\<lambda>i. clk (Suc i)) ?c f t =
         Some (COMMU_ERR_MQEMPTY, c', g, evs')"
      "commu_ok c' []" "same_flows ?c c'"
      "map event_msg evs' = announced (func_list c) (drain (\<lambda>i. clk (Suc i)) (mq_msg_timeout (comsumer c)) r)"
      "events_full evs'"
      using Suc.IH [OF m(2), of "\<lambda>i. lk (Suc i)" "\<lambda>i. clk (Suc i)" f t] Suc.prems to
      by (auto simp: locks_ok_def lock_free_def)
    then show ?thesis using d m to Cons by (simp add: drain.simps [of clk] same_flows_def)
  qed
qed

lemma poll_loop_worker:
  assumes "commu_ok c ms" "length ms < dfuel" "locks_ok c lk" "\<not> (proxy \<and> \<not> block)"
  shows "\<exists>ret c' f evs. poll_loop proxy block (Suc fuel) dfuel lk clk c f0 t0 = Some (ret, c', f, evs) \<and>
     same_flows c c' \<and>
     (case drop_expired (clk 0) (mq_msg_timeout (comsumer c)) ms of
        [] \<Rightarrow> ret = COMMU_ERR_MQEMPTY \<and> commu_ok c' [] \<and> evs = []
      | m # r \<Rightarrow> ret = 0 \<and> f = m_flow m \<and> commu_ok c' r \<and> map event_msg evs = announced (func_list c) [m] \<and>
          events_full evs)"
  using poll_turn [OF assms(1-3), of clk f0 t0] assms(4)
  by (cases "drop_expired (clk 0) (mq_msg_timeout (comsumer c)) ms") (auto simp: same_flows_def)

section \<open>Expiry\<close>

lemma expire_split_eq:
  "smap_ok m \<Longrightarrow> expire_split c d m =
     (concat (map (\<lambda>(f, t). call_cb c CB_TIMEOUT f (buff_blob c)) (filter (\<lambda>(f, t). t < d) m)),
      filter (\<lambda>(f, t). \<not> t < d) m)"
proof (induction c d m rule: expire_split.induct)
  case (2 c d f t m)
  have "smap_insert f t (filter (\<lambda>(f, t). \<not> t < d) m) = (f, t) # filter (\<lambda>(f, t). \<not> t < d) m"
    if "\<forall>q\<in>set m. f < fst q"
    using that by (cases "filter (\<lambda>(f, t). \<not> t < d) m") (auto simp: filter_eq_Cons_iff)
  with 2 show ?case by auto
qed simp

definition expired_flows :: "shm_commu \<Rightarrow> int \<Rightarrow> (nat, nat) smap" where
  "expired_flows c now2 = filter (\<lambda>(f, t). t < u32_of_int (now2 - expiretime c)) (expiremap c)"

definition live_flows :: "shm_commu \<Rightarrow> int \<Rightarrow> (nat, nat) smap" where
  "live_flows c now2 = filter (\<lambda>(f, t). \<not> t < u32_of_int (now2 - expiretime c)) (expiremap c)"

lemma check_expire_eq:
  assumes "smap_ok (expiremap c)" "60 < now - lastchecktime c"
  shows "check_expire c now now2 =
     (c\<lparr>expiremap := (if live_flows c now2 = [] then expiremap c else live_flows c now2),
        lastchecktime := now\<rparr>,
      concat (map (\<lambda>(f, t). call_cb c CB_TIMEOUT f (buff_blob c)) (expired_flows c now2)))"
  using assms by (simp add: check_expire_def expire_split_eq live_flows_def expired_flows_def Let_def)

section \<open>Initialisation and sending\<close>

text \<open>An endpoint over two empty pipes in segments \<open>sp\<close> and \<open>sc\<close> that were just created.\<close>

definition idle_commu ::
  "shm_conf \<Rightarrow> bytes \<Rightarrow> bytes \<Rightarrow> (nat \<Rightarrow> bytes) \<Rightarrow> int \<Rightarrow> (cb_type \<Rightarrow> bool) \<Rightarrow> shm_commu" where
  "idle_commu conf sp sc newbuf now cbs =
     \<lparr>producer = \<lparr>mq_head = 0, mq_tail = 0, mq_block = drop 8 sp, mq_blocksize = length sp - 8,
                  mq_msg_timeout = cf_msg_timeout conf\<rparr>,
      comsumer = \<lparr>mq_head = 0, mq_tail = 0, mq_block = drop 8 sc, mq_blocksize = length sc - 8,
                  mq_msg_timeout = cf_msg_timeout conf\<rparr>,
      buff_size = length sc, buff_ext_size = MAX_BLOB_EXTDATA_LEN,
      buff_blob = \<lparr>b_len = int (length sc), b_data = newbuf (length sc), b_ext_type = EXT_TYPE_NONE,
                   b_ext_len = MAX_BLOB_EXTDATA_LEN, b_extdata = newbuf MAX_BLOB_EXTDATA_LEN\<rparr>,
      locktype = cf_locktype conf, expiremap = [], expiretime = cf_expiretime conf,
      lastchecktime = now, func_list = cbs\<rparr>"

definition seg_created :: "shm_env \<Rightarrow> int \<Rightarrow> bool" where
  "seg_created e sz \<longleftrightarrow> \<not> env_exists e \<and> env_created e \<and> env_mapped e \<and>
     env_lock_opened e \<and> env_lock_mapped e \<and>
     sz = int (length (env_seg e)) \<and> 8 < length (env_seg e) \<and> length (env_seg e) < 2 ^ 31"

lemma endpoint_init_created:
  assumes "seg_created e sz"
  defines "q \<equiv> \<lparr>mq_head = 0, mq_tail = 0, mq_block = drop 8 (env_seg e),
           mq_blocksize = length (env_seg e) - 8, mq_msg_timeout = 0\<rparr>"
  shows "producer_init e sz = Some (0, q)" "producerL_init e sz = Some (0, q)"
    and "comsumer_init e sz = Some (0, q)" "comsumerL_init e sz = Some (0, q)"
proof -
  have *: "mq_init (env_exists e) (env_created e) (env_mapped e) (env_seg e) sz fresh_mq = Some (0, q)"
    using assms mq_init_created [of "env_seg e" fresh_mq] by (simp add: seg_created_def fresh_mq_def)
  then show "producer_init e sz = Some (0, q)" "comsumer_init e sz = Some (0, q)"
    by (simp_all add: producer_init_def comsumer_init_def)
  with assms show "producerL_init e sz = Some (0, q)" "comsumerL_init e sz = Some (0, q)"
    by (simp_all add: producerL_init_def comsumerL_init_def seg_created_def)
qed

lemma commu_init_created:
  assumes "cf_expiretime conf \<ge> 0" "cf_maxpkg conf \<ge> 0"
    and "seg_created ep (shmsize_producer conf)" "seg_created ec (shmsize_comsumer conf)"
  shows "commu_init conf ep ec newbuf now cbs =
           Some (0, idle_commu conf (env_seg ep) (env_seg ec) newbuf now cbs)"
proof -
  have "u32_of_int (shmsize_comsumer conf) = length (env_seg ec)"
    "s32_of_nat (length (env_seg ec)) = int (length (env_seg ec))"
    using assms(4) by (simp_all add: seg_created_def)
  then show ?thesis
    using assms(1,2)
    by (simp add: commu_init_def Let_def endpoint_init_created [OF assms(3)]
        endpoint_init_created [OF assms(4)] idle_commu_def)
qed

lemma idle_commu_ok:
  assumes "8 < length sp" "length sp < 2 ^ 31" "8 < length sc" "length sc < 2 ^ 31"
    and "\<And>n. length (newbuf n) = n" "cbs CB_RECVDATA"
  shows "commu_ok (idle_commu conf sp sc newbuf now cbs) []"
    "mq_rep (producer (idle_commu conf sp sc newbuf now cbs)) []"
  using assms mq_rep_fresh [of 0 "length sc - 8" "drop 8 sc"] mq_rep_fresh [of 0 "length sp - 8" "drop 8 sp"]
  by (simp_all add: commu_ok_def idle_commu_def buffers_ok_def)

definition sent_fits :: "shm_commu \<Rightarrow> mq_msg list \<Rightarrow> mq_msg \<Rightarrow> bool" where
  "sent_fits c ms m \<longleftrightarrow> mq_bytes ms + msg_total m < mq_blocksize (producer c)"

definition send_lock_ok :: "shm_commu \<Rightarrow> int \<Rightarrow> bool" where
  "send_lock_ok c rc \<longleftrightarrow> lock_free c LOCK_TYPE_PRODUCER \<or> rc = 0"

lemma sendto_rep:
  fixes now :: int
  assumes "mq_rep (producer c) ms" "blob_ok b" "msg_ok (blob_msg b flow (b_ext_type b) tv)"
    and "send_lock_ok c rc"
  defines "m \<equiv> blob_msg b flow (b_ext_type b) tv"
  defines "fits \<equiv> sent_fits c ms m"
  shows "\<exists>q. sendto rc tv now c flow b =
     Some (if fits then 0 else COMMU_ERR_MQFULL,
           c\<lparr>producer := q,
             expiremap := (if expiretime c \<noteq> 0 \<and> fits then smap_insert flow (u32_of_int now) (expiremap c)
                           else expiremap c)\<rparr>,
           call_cb c (if fits then CB_SENDDATA else CB_SENDERROR) flow b) \<and>
     mq_rep q (if fits then ms @ [m] else ms) \<and> mq_blocksize q = mq_blocksize (producer c)"
proof -
  obtain q where q: "enqueue (producer c) b flow (b_ext_type b) tv = Some (if fits then 0 else COMMU_ERR_MQFULL, q)"
    "mq_blocksize q = mq_blocksize (producer c)" "mq_rep q (if fits then ms @ [m] else ms)"
    using enqueue_rep [OF assms(1-3)] unfolding m_def fits_def sent_fits_def by blast
  have "(if locktype c AND LOCK_TYPE_PRODUCER \<noteq> 0 then produceL rc (producer c) b flow (b_ext_type b) tv
         else produce (producer c) b flow (b_ext_type b) tv) = Some (if fits then 0 else COMMU_ERR_MQFULL, q)"
    using q(1) assms(4) by (auto simp: produceL_def produce_def send_lock_ok_def lock_free_def)
  then have "sendto rc tv now c flow b =
     Some (if fits then 0 else COMMU_ERR_MQFULL,
           c\<lparr>producer := q,
             expiremap := (if expiretime c \<noteq> 0 \<and> fits then smap_insert flow (u32_of_int now) (expiremap c)
                           else expiremap c)\<rparr>,
           call_cb c (if fits then CB_SENDDATA else CB_SENDERROR) flow b)"
    by (simp add: sendto_def Let_def call_cb_def)
  with q show ?thesis by blast
qed

lemma mq_rep_timeout [simp]: "mq_rep (q\<lparr>mq_msg_timeout := t\<rparr>) ms \<longleftrightarrow> mq_rep q ms"
  by (simp add: mq_rep_def mq_wf_def)

text \<open>A sequence of \<open>sendto\<close> calls: the return codes and the endpoint afterwards.\<close>

fun send_all :: "shm_commu \<Rightarrow> (nat \<times> blob \<times> timeval) list \<Rightarrow> (int list \<times> shm_commu) option" where
  "send_all c [] = Some ([], c)"
| "send_all c ((flow, b, tv) # xs) =
     (case sendto 0 tv 0 c flow b of None \<Rightarrow> None
      | Some (ret, c', _) \<Rightarrow>
          (case send_all c' xs of None \<Rightarrow> None | Some (rets, c'') \<Rightarrow> Some (ret # rets, c'')))"

definition packet_msg :: "nat \<times> blob \<times> timeval \<Rightarrow> mq_msg" where
  "packet_msg p = (case p of (flow, b, tv) \<Rightarrow> blob_msg b flow (b_ext_type b) tv)"

definition packet_ok :: "nat \<times> blob \<times> timeval \<Rightarrow> bool" where
  "packet_ok p \<longleftrightarrow> blob_ok (fst (snd p)) \<and> msg_ok (packet_msg p)"

lemma send_all_rep:
  "mq_rep (producer c) ms \<Longrightarrow> list_all packet_ok xs \<Longrightarrow>
   \<exists>rets c'. send_all c xs = Some (rets, c') \<and> length rets = length xs \<and>
     set rets \<subseteq> {0, COMMU_ERR_MQFULL} \<and> mq_blocksize (producer c') = mq_blocksize (producer c) \<and>
     mq_rep (producer c') (ms @ map (packet_msg \<circ> fst) (filter (\<lambda>(p, r). r = 0) (zip xs rets)))"
proof (induction c xs arbitrary: ms rule: send_all.induct)
  case (1 c)
  then show ?case by simp
next
  case (2 c flow b tv xs)
  let ?m = "blob_msg b flow (b_ext_type b) tv"
  have ok: "blob_ok b" "msg_ok ?m" "list_all packet_ok xs"
    using "2.prems"(2) by (simp_all add: packet_ok_def [of "(flow, b, tv)"] packet_msg_def)
  have "send_lock_ok c 0" by (simp add: send_lock_ok_def)
  then obtain ret c' evs where s: "sendto 0 tv 0 c flow b = Some (ret, c', evs)"
    "ret = (if sent_fits c ms ?m then 0 else COMMU_ERR_MQFULL)"
    "mq_rep (producer c') (if sent_fits c ms ?m then ms @ [?m] else ms)"
    "mq_blocksize (producer c') = mq_blocksize (producer c)"
    using sendto_rep [OF "2.prems"(1) ok(1,2), of 0 0] by force
  from "2.IH" [OF s(1) refl refl s(3) ok(3)] obtain rets c'' where t:
    "send_all c' xs = Some (rets, c'')" "length rets = length xs" "set rets \<subseteq> {0, COMMU_ERR_MQFULL}"
    "mq_blocksize (producer c'') = mq_blocksize (producer c')"
    "mq_rep (producer c'') ((if sent_fits c ms ?m then ms @ [?m] else ms) @
       map (packet_msg \<circ> fst) (filter (\<lambda>(p, r). r = 0) (zip xs rets)))" by blast
  then show ?case using s by (cases "sent_fits c ms ?m") (simp_all add: packet_msg_def [of "(flow, b, tv)"] o_def)
qed

section \<open>Properties\<close>

text \<open>
  \<open>init\<close> with a valid configuration on two segments that did not exist ends with 0 and
  two empty pipes over the whole segments, a receive buffer that no message of the pipe can
  overflow, and no flow under supervision, whatever the lock type; a negative limit in the
  configuration is an assertion failure.
\<close>

theorem commu_init_ready:
  assumes "seg_created ep (shmsize_producer conf)" and "seg_created ec (shmsize_comsumer conf)"
    and "\<And>n. length (newbuf n) = n" and "cbs CB_RECVDATA"
  shows "if cf_expiretime conf \<ge> 0 \<and> cf_maxpkg conf \<ge> 0
         then \<exists>c. commu_init conf ep ec newbuf now cbs = Some (0, c) \<and> commu_ok c [] \<and>
                mq_rep (producer c) [] \<and> expiremap c = [] \<and>
                mq_blocksize (producer c) = length (env_seg ep) - 8 \<and>
                mq_blocksize (comsumer c) = length (env_seg ec) - 8 \<and>
                mq_msg_timeout (comsumer c) = cf_msg_timeout conf
         else commu_init conf ep ec newbuf now cbs = None"
proof (cases "cf_expiretime conf \<ge> 0 \<and> cf_maxpkg conf \<ge> 0")
  case True
  then have i: "commu_init conf ep ec newbuf now cbs =
      Some (0, idle_commu conf (env_seg ep) (env_seg ec) newbuf now cbs)"
    using commu_init_created assms by blast
  show ?thesis
    using True assms(1,2) idle_commu_ok [of "env_seg ep" "env_seg ec" newbuf cbs conf now, OF _ _ _ _ assms(3,4)]
    by (simp add: i seg_created_def) (simp add: idle_commu_def)
next
  case False
  then show ?thesis by (auto simp: commu_init_def)
qed

theorem commu_init_ready_witness:
  "let conf = \<lparr>shmsize_producer = 90, shmsize_comsumer = 70, cf_locktype = 3, cf_expiretime = 0,
               cf_maxpkg = 0, cf_msg_timeout = 100\<rparr>;
       ep = \<lparr>env_exists = False, env_created = True, env_mapped = True, env_seg = replicate 90 5, env_lock_opened = True, env_lock_mapped = True\<rparr>;
       ec = \<lparr>env_exists = False, env_created = True, env_mapped = True, env_seg = replicate 70 9, env_lock_opened = True, env_lock_mapped = True\<rparr>;
       newbuf = (\<lambda>n. replicate n 1)
   in if cf_expiretime conf \<ge> 0 \<and> cf_maxpkg conf \<ge> 0
      then \<exists>c. commu_init conf ep ec newbuf 1000 (\<lambda>_. True) = Some (0, c) \<and> commu_ok c [] \<and>
                mq_rep (producer c) [] \<and> expiremap c = [] \<and>
                mq_blocksize (producer c) = length (env_seg ep) - 8 \<and>
                mq_blocksize (comsumer c) = length (env_seg ec) - 8 \<and>
                mq_msg_timeout (comsumer c) = cf_msg_timeout conf
      else commu_init conf ep ec newbuf 1000 (\<lambda>_. True) = None"
  unfolding Let_def by (rule commu_init_ready) (simp_all add: seg_created_def)

text \<open>
  A poll of the proxy (\<open>\_SPP\_PROXY\<close>, not blocking) terminates within one turn per
  waiting message and one more, empties the pipe and calls, in the order of the messages,
  the callback registered for the type of each message that has not expired, with its flow,
  its data and its extended data.  It returns \<open>COMMU\_ERR\_MQEMPTY\<close>, so it never takes a
  flow whose answer arrived off the supervision map; the expiry check then runs on that map.
\<close>

theorem commu_poll_proxy_drains:
  assumes "commu_ok c ms" and "locks_ok c lk" and "length ms < fuel" and "length ms < dfuel"
  shows "\<exists>c1 evs c2 evs'. poll True False fuel dfuel lk clk now now2 c = Some (COMMU_ERR_MQEMPTY, c2, evs @ evs') \<and>
     map event_msg evs = announced (func_list c) (drain clk (mq_msg_timeout (comsumer c)) ms) \<and>
     commu_ok c1 [] \<and> expiremap c1 = expiremap c \<and>
     (c2, evs') = (if expiretime c = 0 then (c1, []) else check_expire c1 now now2)"
proof -
  obtain c1 f evs where
    "poll_loop True False fuel dfuel lk clk c 0 EXT_TYPE_NONE = Some (COMMU_ERR_MQEMPTY, c1, f, evs)"
    "commu_ok c1 []" "same_flows c c1"
    "map event_msg evs = announced (func_list c) (drain clk (mq_msg_timeout (comsumer c)) ms)"
    using poll_loop_proxy [OF assms(1,3,4,2), of clk 0 EXT_TYPE_NONE] by blast
  then show ?thesis
    by (cases "check_expire c1 now now2"; cases "expiretime c = 0")
       (fastforce simp: poll_def same_flows_def Let_def)+
qed

theorem commu_poll_proxy_drains_witness:
  "let c = idle_commu \<lparr>shmsize_producer = 90, shmsize_comsumer = 70, cf_locktype = 3, cf_expiretime = 0,
               cf_maxpkg = 0, cf_msg_timeout = 100\<rparr> (replicate 90 5) (replicate 70 9)
               (\<lambda>n. replicate n 1) 1000 (\<lambda>_. True);
       clk = (\<lambda>_ _. no_time)
   in \<exists>c1 evs c2 evs'. poll True False 1 1 (\<lambda>_. 0) clk 1000 1000 c = Some (COMMU_ERR_MQEMPTY, c2, evs @ evs') \<and>
     map event_msg evs = announced (func_list c) (drain clk (mq_msg_timeout (comsumer c)) []) \<and>
     commu_ok c1 [] \<and> expiremap c1 = expiremap c \<and>
     (c2, evs') = (if expiretime c = 0 then (c1, []) else check_expire c1 1000 1000)"
  unfolding Let_def
  by (rule commu_poll_proxy_drains [OF idle_commu_ok(1)]) (simp_all add: locks_ok_def)

text \<open>
  A poll of a worker takes one turn: it drops the expired messages at the front of the
  pipe and handles exactly the next one, or reports \<open>COMMU\_ERR\_MQEMPTY\<close> without a callback
  for a message; only a handled message takes its flow off the supervision map.
\<close>

theorem commu_poll_worker_one:
  assumes "commu_ok c ms" and "locks_ok c lk" and "length ms < dfuel" and "expiretime c = 0"
  shows "\<exists>ret c' evs. poll False block 1 dfuel lk clk now now2 c = Some (ret, c', evs) \<and>
     expiremap c' = expiremap c \<and>
     (case drop_expired (clk 0) (mq_msg_timeout (comsumer c)) ms of
        [] \<Rightarrow> ret = COMMU_ERR_MQEMPTY \<and> commu_ok c' [] \<and> evs = []
      | m # r \<Rightarrow> ret = 0 \<and> commu_ok c' r \<and> map event_msg evs = announced (func_list c) [m])"
proof -
  obtain ret c' f evs where
    "poll_loop False block (Suc 0) dfuel lk clk c 0 EXT_TYPE_NONE = Some (ret, c', f, evs)" "same_flows c c'"
    "case drop_expired (clk 0) (mq_msg_timeout (comsumer c)) ms of
        [] \<Rightarrow> ret = COMMU_ERR_MQEMPTY \<and> commu_ok c' [] \<and> evs = []
      | m # r \<Rightarrow> ret = 0 \<and> f = m_flow m \<and> commu_ok c' r \<and> map event_msg evs = announced (func_list c) [m] \<and>
          events_full evs"
    using poll_loop_worker [OF assms(1,3,2), of False block 0 clk 0 EXT_TYPE_NONE] by blast
  then show ?thesis using assms(4)
    by (auto simp del: poll_loop.simps simp: poll_def same_flows_def split: list.splits)
qed

theorem commu_poll_worker_one_witness:
  "let c = idle_commu \<lparr>shmsize_producer = 90, shmsize_comsumer = 70, cf_locktype = 3, cf_expiretime = 0,
               cf_maxpkg = 0, cf_msg_timeout = 100\<rparr> (replicate 90 5) (replicate 70 9)
               (\<lambda>n. replicate n 1) 1000 (\<lambda>_. True)
   in \<exists>ret c' evs. poll False True 1 1 (\<lambda>_. 0) (\<lambda>_ _. no_time) 1000 1000 c = Some (ret, c', evs) \<and>
     expiremap c' = expiremap c \<and>
     (case drop_expired ((\<lambda>_ _. no_time) 0) (mq_msg_timeout (comsumer c)) [] of
        [] \<Rightarrow> ret = COMMU_ERR_MQEMPTY \<and> commu_ok c' [] \<and> evs = []
      | m # r \<Rightarrow> ret = 0 \<and> commu_ok c' r \<and> map event_msg evs = announced (func_list c) [m])"
  unfolding Let_def
  by (rule commu_poll_worker_one [OF idle_commu_ok(1)]) (simp_all add: locks_ok_def idle_commu_def)

text \<open>
  C9: Two endpoints over the same pipe: after any sequence of \<open>sendto\<close> calls with
  well-formed blobs on one side, one poll of a proxy on the other side (which sees the pipe
  as the sender left it, no message timeout set) calls back exactly for the messages
  \<open>sendto\<close> accepted with 0, in order and unchanged; the others were refused with
  \<open>COMMU\_ERR\_MQFULL\<close>.
\<close>

theorem commu_link_delivers:
  assumes "mq_rep (producer a) []" and "list_all packet_ok xs" and "commu_ok b []"
    and "locks_ok b lk" and "expiretime b = 0" and "mq_blocksize (producer a) = mq_blocksize (comsumer b)"
    and "length xs < fuel" and "length xs < dfuel"
  shows "\<exists>rets a' b' evs. send_all a xs = Some (rets, a') \<and> set rets \<subseteq> {0, COMMU_ERR_MQFULL} \<and>
     poll True False fuel dfuel lk clk now now2 (b\<lparr>comsumer := (producer a')\<lparr>mq_msg_timeout := 0\<rparr>\<rparr>) =
       Some (COMMU_ERR_MQEMPTY, b', evs) \<and>
     map event_msg evs =
       announced (func_list b) (map (packet_msg \<circ> fst) (filter (\<lambda>(p, r). r = 0) (zip xs rets)))"
proof -
  obtain rets a' where s: "send_all a xs = Some (rets, a')" "length rets = length xs"
    "set rets \<subseteq> {0, COMMU_ERR_MQFULL}" "mq_blocksize (producer a') = mq_blocksize (producer a)"
    "mq_rep (producer a') (map (packet_msg \<circ> fst) (filter (\<lambda>(p, r). r = 0) (zip xs rets)))"
    using send_all_rep [OF assms(1,2)] by auto
  let ?ms = "map (packet_msg \<circ> fst) (filter (\<lambda>(p, r). r = 0) (zip xs rets))"
  let ?b = "b\<lparr>comsumer := (producer a')\<lparr>mq_msg_timeout := 0\<rparr>\<rparr>"
  have "length ?ms \<le> length xs"
    using length_filter_le [of "\<lambda>(p, r). r = 0" "zip xs rets"] s(2) by simp
  then have lens: "length ?ms < fuel" "length ?ms < dfuel" using assms(7,8) by linarith+
  have "commu_ok ?b ?ms"
    using s(4,5) assms(3,6) by (simp add: commu_ok_def buffers_ok_def)
  from poll_loop_proxy [OF this lens, of lk clk 0 EXT_TYPE_NONE] assms(4) obtain c' f evs where
    "poll_loop True False fuel dfuel lk clk ?b 0 EXT_TYPE_NONE = Some (COMMU_ERR_MQEMPTY, c', f, evs)"
    "same_flows ?b c'" "map event_msg evs = announced (func_list b) ?ms"
    by (auto simp: locks_ok_def lock_free_def drain_no_timeout)
  then show ?thesis using s(1,3) assms(5) by (simp add: poll_def same_flows_def)
qed

theorem commu_link_delivers_witness:
  "let conf = \<lparr>shmsize_producer = 90, shmsize_comsumer = 90, cf_locktype = 0, cf_expiretime = 0,
               cf_maxpkg = 0, cf_msg_timeout = 0\<rparr>;
       a = idle_commu conf (replicate 90 5) (replicate 90 9) (\<lambda>n. replicate n 1) 1000 (\<lambda>_. True);
       xs = [(7, \<lparr>b_len = 2, b_data = [1, 2, 9], b_ext_type = 0, b_ext_len = 1, b_extdata = [3]\<rparr>,
              \<lparr>tv_sec = 5, tv_usec = 6\<rparr>)]
   in \<exists>rets a' b' evs. send_all a xs = Some (rets, a') \<and> set rets \<subseteq> {0, COMMU_ERR_MQFULL} \<and>
     poll True False 2 2 (\<lambda>_. 0) (\<lambda>_ _. no_time) 0 0 (a\<lparr>comsumer := (producer a')\<lparr>mq_msg_timeout := 0\<rparr>\<rparr>) =
       Some (COMMU_ERR_MQEMPTY, b', evs) \<and>
     map event_msg evs =
       announced (func_list a) (map (packet_msg \<circ> fst) (filter (\<lambda>(p, r). r = 0) (zip xs rets)))"
proof -
  have p: "packet_ok (7, \<lparr>b_len = 2, b_data = [1, 2, 9], b_ext_type = 0, b_ext_len = 1, b_extdata = [3]\<rparr>,
              \<lparr>tv_sec = 5, tv_usec = 6\<rparr>)"
    using blob_witness by (simp add: packet_ok_def packet_msg_def)
  show ?thesis
    unfolding Let_def
    by (rule commu_link_delivers [OF idle_commu_ok(2) _ idle_commu_ok(1)])
       (simp_all add: locks_ok_def idle_commu_def lock_free_def p [simplified])
qed

text \<open>
  A check that finds every supervised flow expired calls the timeout callback for each
  of them, in the order of their numbers, but does not take them off the map, because the
  new map is swapped in only when it is not empty: the next check, a minute later, calls
  back for all of them again.
\<close>

theorem commu_expire_all_repeats:
  assumes "smap_ok (expiremap c)" and "expiremap c \<noteq> []" and "func_list c CB_TIMEOUT"
    and "\<forall>(f, t) \<in> set (expiremap c). t < u32_of_int (now2 - expiretime c) \<and> t < u32_of_int (now4 - expiretime c)"
    and "60 < now - lastchecktime c" and "60 < now3 - now"
  shows "\<exists>c1 c2 evs. check_expire c now now2 = (c1, evs) \<and> check_expire c1 now3 now4 = (c2, evs) \<and>
     map ev_flow evs = map fst (expiremap c) \<and> (\<forall>e \<in> set evs. ev_cb e = CB_TIMEOUT) \<and>
     expiremap c2 = expiremap c"
proof -
  let ?evs = "map (\<lambda>(f, t). \<lparr>ev_cb = CB_TIMEOUT, ev_flow = f, ev_blob = buff_blob c\<rparr>) (expiremap c)"
  let ?c1 = "c\<lparr>lastchecktime := now\<rparr>"
  have one: "check_expire d n n2 = (d\<lparr>lastchecktime := n\<rparr>, ?evs)"
    if "expiremap d = expiremap c" "buff_blob d = buff_blob c" "func_list d = func_list c"
      "expiretime d = expiretime c" "60 < n - lastchecktime d"
      "\<forall>(f, t) \<in> set (expiremap c). t < u32_of_int (n2 - expiretime c)" for d n n2
  proof -
    have "live_flows d n2 = []" "expired_flows d n2 = expiremap c"
      using that by (auto simp: live_flows_def expired_flows_def filter_empty_conv filter_id_conv)
    moreover have "concat (map (\<lambda>(f, t). call_cb d CB_TIMEOUT f (buff_blob d)) (expiremap c)) = ?evs"
      using assms(3) that by (simp add: call_cb_def case_prod_unfold concat_map_singleton)
    ultimately show ?thesis
      using check_expire_eq [of d n n2] assms(1) that by simp
  qed
  have "check_expire c now now2 = (?c1, ?evs)" using assms by (intro one) auto
  moreover have "check_expire ?c1 now3 now4 = (?c1\<lparr>lastchecktime := now3\<rparr>, ?evs)"
    using assms by (intro one) auto
  ultimately show ?thesis by (auto simp: case_prod_unfold)
qed

theorem commu_expire_all_repeats_witness:
  "let c = (idle_commu \<lparr>shmsize_producer = 90, shmsize_comsumer = 70, cf_locktype = 3, cf_expiretime = 10,
               cf_maxpkg = 0, cf_msg_timeout = 100\<rparr> (replicate 90 5) (replicate 70 9)
               (\<lambda>n. replicate n 1) 1000 (\<lambda>_. True))\<lparr>expiremap := [(3, 1000), (8, 1001)]\<rparr>
   in \<exists>c1 c2 evs. check_expire c 1100 1100 = (c1, evs) \<and> check_expire c1 1200 1200 = (c2, evs) \<and>
     map ev_flow evs = map fst (expiremap c) \<and> (\<forall>e \<in> set evs. ev_cb e = CB_TIMEOUT) \<and>
     expiremap c2 = expiremap c"
  unfolding Let_def by (rule commu_expire_all_repeats) (simp_all add: idle_commu_def u32_of_int_def)

end
