(* ===== verification/ByteBuffer.thy ===== *)
theory ByteBuffer
  imports Prelude
begin

text \<open>
  The contract of a growing byte buffer in a shared heap, as the connections of the socket
  component use it for what they have received and what they still have to send: append at
  the end (which may fail for lack of memory, leaving the buffer as it was), skip at the
  front, read everything.  \<open>rep h R c xs\<close> says that the buffer \<open>c\<close> holds \<open>xs\<close> in the heap
  \<open>h\<close>, whose other blocks in use are \<open>R\<close>; \<open>keep R\<close> that those blocks are not touched.
\<close>

datatype buf_op = App bytes | Skip nat

fun buf_run ::
  "(bytes \<Rightarrow> 'h \<Rightarrow> 'c \<Rightarrow> ((int + 'c) \<times> 'h) option) \<Rightarrow> (nat \<Rightarrow> 'h \<Rightarrow> 'c \<Rightarrow> ('c \<times> 'h) option) \<Rightarrow>
   'h \<Rightarrow> 'c \<Rightarrow> buf_op list \<Rightarrow> (buf_op list \<times> 'c \<times> 'h) option" where
  "buf_run app skip h c [] = Some ([], c, h)"
| "buf_run app skip h c (App d # ops) =
     (case app d h c of None \<Rightarrow> None
      | Some (Inl e, h') \<Rightarrow> buf_run app skip h' c ops
      | Some (Inr c', h') \<Rightarrow>
          (case buf_run app skip h' c' ops of None \<Rightarrow> None
           | Some (dn, c'', h'') \<Rightarrow> Some (App d # dn, c'', h'')))"
| "buf_run app skip h c (Skip n # ops) =
     (case skip n h c of None \<Rightarrow> None
      | Some (c', h') \<Rightarrow>
          (case buf_run app skip h' c' ops of None \<Rightarrow> None
           | Some (dn, c'', h'') \<Rightarrow> Some (Skip n # dn, c'', h'')))"

text \<open>The effect of the operations that were carried out.\<close>

fun buf_spec :: "bytes \<Rightarrow> buf_op list \<Rightarrow> bytes" where
  "buf_spec xs [] = xs"
| "buf_spec xs (App d # ops) = buf_spec (xs @ d) ops"
| "buf_spec xs (Skip n # ops) = buf_spec (drop n xs) ops"

definition appended :: "buf_op list \<Rightarrow> nat" where
  "appended ops = (\<Sum>x\<leftarrow>ops. case x of App d \<Rightarrow> length d | Skip n \<Rightarrow> 0)"

lemma appended_simps [simp]:
  "appended [] = 0" "appended (App d # ops) = length d + appended ops"
  "appended (Skip n # ops) = appended ops"
  by (simp_all add: appended_def)

locale byte_buffer =
  fixes app :: "bytes \<Rightarrow> 'h \<Rightarrow> 'c \<Rightarrow> ((int + 'c) \<times> 'h) option"
    and skip :: "nat \<Rightarrow> 'h \<Rightarrow> 'c \<Rightarrow> ('c \<times> 'h) option"
    and data :: "'h \<Rightarrow> 'c \<Rightarrow> bytes option"
    and rep :: "'h \<Rightarrow> (nat \<rightharpoonup> nat) \<Rightarrow> 'c \<Rightarrow> bytes \<Rightarrow> bool"
    and keep :: "(nat \<rightharpoonup> nat) \<Rightarrow> 'h \<Rightarrow> 'h \<Rightarrow> bool"
  assumes append_law: "rep h R c xs \<Longrightarrow> length xs + length d < 2 ^ 31 \<Longrightarrow>
      \<exists>r h'. app d h c = Some (r, h') \<and> keep R h h' \<and>
        (case r of Inl e \<Rightarrow> rep h' R c xs | Inr c' \<Rightarrow> rep h' R c' (xs @ d))"
    and skip_law: "rep h R c xs \<Longrightarrow> length xs < 2 ^ 31 \<Longrightarrow>
      \<exists>c' h'. skip n h c = Some (c', h') \<and> keep R h h' \<and> rep h' R c' (drop n xs)"
    and data_law: "rep h R c xs \<Longrightarrow> length xs < 2 ^ 31 \<Longrightarrow> data h c = Some xs"
    and keep_refl: "keep R h h"
    and keep_trans: "keep R h h1 \<Longrightarrow> keep R h1 h2 \<Longrightarrow> keep R h h2"
begin

lemma run_law:
  "rep h R c xs \<Longrightarrow> length xs + appended ops < 2 ^ 31 \<Longrightarrow>
   \<exists>dn c' h'. buf_run app skip h c ops = Some (dn, c', h') \<and> keep R h h' \<and>
     rep h' R c' (buf_spec xs dn) \<and> data h' c' = Some (buf_spec xs dn) \<and>
     length (buf_spec xs dn) < 2 ^ 31"
proof (induction ops arbitrary: h c xs)
  case Nil
  then show ?case using data_law keep_refl by auto
next
  case (Cons a ops)
  show ?case
  proof (cases a)
    case (App d)
    with Cons.prems have "length xs + length d < 2 ^ 31" by simp
    then obtain r h1 where r: "app d h c = Some (r, h1)" "keep R h h1"
      "case r of Inl e \<Rightarrow> rep h1 R c xs | Inr c' \<Rightarrow> rep h1 R c' (xs @ d)"
      using append_law [OF Cons.prems(1)] by blast
    show ?thesis
    proof (cases r)
      case (Inl e)
      then have "rep h1 R c xs" "length xs + appended ops < 2 ^ 31" using r(3) Cons.prems(2) App by simp_all
      from Cons.IH [OF this] show ?thesis using r App Inl keep_trans [OF r(2)] by force
    next
      case (Inr c1)
      then have "rep h1 R c1 (xs @ d)" "length (xs @ d) + appended ops < 2 ^ 31"
        using r(3) Cons.prems(2) App by simp_all
      from Cons.IH [OF this] obtain dn c' h' where
        "buf_run app skip h1 c1 ops = Some (dn, c', h')" "keep R h1 h'"
        "rep h' R c' (buf_spec (xs @ d) dn)" "data h' c' = Some (buf_spec (xs @ d) dn)"
        "length (buf_spec (xs @ d) dn) < 2 ^ 31" by blast
      then show ?thesis using r App Inr keep_trans [OF r(2)] by simp
    qed
  next
    case (Skip n)
    have "length xs < 2 ^ 31" using Cons.prems(2) by simp
    then obtain c1 h1 where r: "skip n h c = Some (c1, h1)" "keep R h h1" "rep h1 R c1 (drop n xs)"
      using skip_law [OF Cons.prems(1)] by blast
    have "length (drop n xs) + appended ops < 2 ^ 31" using Cons.prems(2) Skip by simp
    from Cons.IH [OF r(3) this] obtain dn c' h' where
      "buf_run app skip h1 c1 ops = Some (dn, c', h')" "keep R h1 h'"
      "rep h' R c' (buf_spec (drop n xs) dn)" "data h' c' = Some (buf_spec (drop n xs) dn)"
      "length (buf_spec (drop n xs) dn) < 2 ^ 31" by blast
    then show ?thesis using r Skip keep_trans [OF r(2)] by simp
  qed
qed

end

end
