(* ===== verification/BlockAlloc.thy ===== *)
theory BlockAlloc
  imports Prelude
begin

text \<open>
  The contract between a pool of memory blocks and its clients.  \<open>ok s u\<close> says that the
  blocks of the map \<open>u\<close> (address to size) are handed out in the pool state \<open>s\<close>.  Allocation
  may fail (address 0); otherwise it hands out a block that is not in use and is large
  enough.  No operation touches the contents of another block in use.  From the laws the
  locale derives the one for a whole run of a client, whatever it does with its blocks.
\<close>

datatype mem_op = New nat | Del nat | Store nat nat bytes

text \<open>
  A client holds blocks with their sizes and, once it has filled one completely, the
  contents it relies on.
\<close>

type_synonym client_blocks = "(nat \<times> nat \<times> bytes option) list"

definition client_store :: "nat \<Rightarrow> nat \<Rightarrow> bytes \<Rightarrow> bytes option \<Rightarrow> bytes option" where
  "client_store k off bs c =
     (if off = 0 \<and> length bs = k then Some bs else map_option (\<lambda>xs. overlay xs off bs) c)"

fun mem_run ::
  "('s \<Rightarrow> nat \<Rightarrow> (nat \<times> nat \<times> 's) option) \<Rightarrow> ('s \<Rightarrow> nat \<Rightarrow> nat \<Rightarrow> (int \<times> 's) option) \<Rightarrow>
   ('s \<Rightarrow> nat \<Rightarrow> nat \<Rightarrow> bytes \<Rightarrow> 's option) \<Rightarrow> 's \<Rightarrow> client_blocks \<Rightarrow> mem_op list \<Rightarrow>
   (client_blocks \<times> 's) option" where
  "mem_run alloc free store s bl [] = Some (bl, s)"
| "mem_run alloc free store s bl (New n # ops) =
     (case alloc s n of None \<Rightarrow> None
      | Some (p, k, s') \<Rightarrow> mem_run alloc free store s' (if p = 0 then bl else (p, k, None) # bl) ops)"
| "mem_run alloc free store s bl (Del i # ops) =
     (if i < length bl
      then (case bl ! i of (p, k, c) \<Rightarrow>
              (case free s p k of None \<Rightarrow> None
               | Some (rc, s') \<Rightarrow> if rc = 0 then mem_run alloc free store s' (take i bl @ drop (Suc i) bl) ops
                                 else None))
      else mem_run alloc free store s bl ops)"
| "mem_run alloc free store s bl (Store i off bs # ops) =
     (if i < length bl
      then (case bl ! i of (p, k, c) \<Rightarrow>
              if off + length bs \<le> k
              then (case store s p off bs of None \<Rightarrow> None
                    | Some s' \<Rightarrow> mem_run alloc free store s' (bl[i := (p, k, client_store k off bs c)]) ops)
              else mem_run alloc free store s bl ops)
      else mem_run alloc free store s bl ops)"

fun mem_op_ok :: "mem_op \<Rightarrow> bool" where
  "mem_op_ok (New n) = (n < 2 ^ 31)"
| "mem_op_ok _ = True"

definition held :: "client_blocks \<Rightarrow> nat \<rightharpoonup> nat" where
  "held bl = map_of (map (\<lambda>(p, k, c). (p, k)) bl)"

lemma held_Some: "distinct (map fst bl) \<Longrightarrow> held bl p = Some k \<longleftrightarrow> (\<exists>c. (p, k, c) \<in> set bl)"
  by (force simp: held_def map_of_eq_Some_iff o_def case_prod_unfold image_iff)

lemma held_None: "held bl p = None \<longleftrightarrow> p \<notin> fst ` set bl"
  by (force simp: held_def map_of_eq_None_iff)

locale block_allocator =
  fixes alloc :: "'s \<Rightarrow> nat \<Rightarrow> (nat \<times> nat \<times> 's) option"
    and free :: "'s \<Rightarrow> nat \<Rightarrow> nat \<Rightarrow> (int \<times> 's) option"
    and store :: "'s \<Rightarrow> nat \<Rightarrow> nat \<Rightarrow> bytes \<Rightarrow> 's option"
    and content :: "'s \<Rightarrow> nat \<Rightarrow> bytes option"
    and ok :: "'s \<Rightarrow> (nat \<rightharpoonup> nat) \<Rightarrow> bool"
  assumes alloc_law: "ok s u \<Longrightarrow> n < 2 ^ 31 \<Longrightarrow>
      \<exists>p k s'. alloc s n = Some (p, k, s') \<and> (\<forall>q\<in>dom u. content s' q = content s q) \<and>
        (if p = 0 then ok s' u else u p = None \<and> n < k \<and> ok s' (u(p \<mapsto> k)))"
    and free_law: "ok s u \<Longrightarrow> u p = Some k \<Longrightarrow>
      \<exists>s'. free s p k = Some (0, s') \<and> ok s' (u(p := None)) \<and>
        (\<forall>q\<in>dom u - {p}. content s' q = content s q)"
    and store_law: "ok s u \<Longrightarrow> u p = Some k \<Longrightarrow> off + length bs \<le> k \<Longrightarrow>
      \<exists>s' c. store s p off bs = Some s' \<and> ok s' u \<and> content s p = Some c \<and> length c = k \<and>
        content s' p = Some (overlay c off bs) \<and> (\<forall>q. q \<noteq> p \<longrightarrow> content s' q = content s q)"
    and content_law: "ok s u \<Longrightarrow> u p = Some k \<Longrightarrow> \<exists>c. content s p = Some c \<and> length c = k"
begin

definition client_ok :: "'s \<Rightarrow> client_blocks \<Rightarrow> bool" where
  "client_ok s bl \<longleftrightarrow> ok s (held bl) \<and> distinct (map fst bl) \<and>
     (\<forall>p k bs. (p, k, Some bs) \<in> set bl \<longrightarrow> content s p = Some bs)"

lemma client_contents:
  "client_ok s bl \<Longrightarrow> (p, k, Some bs) \<in> set bl \<Longrightarrow> content s p = Some bs"
  unfolding client_ok_def by blast

lemma client_okI:
  assumes "client_ok s bl" "ok s' (held bl')" "distinct (map fst bl')"
    and "\<And>p k bs. (p, k, Some bs) \<in> set bl' \<Longrightarrow> (p, k, Some bs) \<in> set bl"
    and "\<And>p. p \<in> fst ` set bl' \<Longrightarrow> p \<in> fst ` set bl \<Longrightarrow> content s' p = content s p"
  shows "client_ok s' bl'"
  unfolding client_ok_def
proof (intro conjI allI impI)
  fix p k bs assume m: "(p, k, Some bs) \<in> set bl'"
  then have "content s p = Some bs" using assms(4) client_contents [OF assms(1)] by blast
  moreover have "p \<in> fst ` set bl'" "p \<in> fst ` set bl" using m assms(4) [OF m] by force+
  ultimately show "content s' p = Some bs" using assms(5) by simp
qed (use assms in simp_all)

lemma run_law:
  "client_ok s bl \<Longrightarrow> list_all mem_op_ok ops \<Longrightarrow>
   \<exists>bl' s'. mem_run alloc free store s bl ops = Some (bl', s') \<and> client_ok s' bl'"
proof (induction ops arbitrary: s bl)
  case Nil
  then show ?case by simp
next
  case (Cons a ops)
  note c = Cons.prems(1) [unfolded client_ok_def]
  have ops: "list_all mem_op_ok ops" using Cons.prems(2) by simp
  show ?case
  proof (cases a)
    case (New n)
    with Cons.prems(2) have n: "n < 2 ^ 31" by simp
    obtain p k s' where al: "alloc s n = Some (p, k, s')" "\<forall>q\<in>dom (held bl). content s' q = content s q"
      "if p = 0 then ok s' (held bl) else held bl p = None \<and> n < k \<and> ok s' ((held bl)(p \<mapsto> k))"
      using alloc_law [OF conjunct1 [OF c] n] by (elim exE conjE)
    have same: "content s' q = content s q" if "q \<in> fst ` set bl" for q
      using that al(2) held_None [of bl q] by blast
    have "client_ok s' (if p = 0 then bl else (p, k, None) # bl)"
    proof (cases "p = 0")
      case True
      then show ?thesis using client_okI [OF Cons.prems(1), of s' bl] al(3) c same by simp
    next
      case False
      have "held ((p, k, None) # bl) = (held bl)(p \<mapsto> k)" by (simp add: held_def)
      moreover have "p \<notin> fst ` set bl" using al(3) False held_None [of bl p] by simp
      ultimately show ?thesis
        using client_okI [OF Cons.prems(1), of s' "(p, k, None) # bl"] al(3) c same False by simp
    qed
    from Cons.IH [OF this ops] New al(1) show ?thesis by simp
  next
    case (Del i)
    show ?thesis
    proof (cases "i < length bl")
      case False
      then show ?thesis using Del Cons.IH [OF Cons.prems(1) ops] by simp
    next
      case i: True
      obtain p k d where e: "bl ! i = (p, k, d)" by (cases "bl ! i") auto
      let ?bl = "take i bl @ drop (Suc i) bl"
      have bl: "bl = take i bl @ (p, k, d) # drop (Suc i) bl" using i e by (metis id_take_nth_drop)
      then have dis: "distinct (map fst (take i bl @ (p, k, d) # drop (Suc i) bl))" using c by simp
      have sub: "set ?bl \<subseteq> set bl" using set_take_subset set_drop_subset by fastforce
      have "(p, k, d) \<in> set bl" using i e by (metis nth_mem)
      then have hp: "held bl p = Some k" using c held_Some by blast
      obtain s' where f: "free s p k = Some (0, s')" "ok s' ((held bl)(p := None))"
        "\<forall>q\<in>dom (held bl) - {p}. content s' q = content s q" using free_law c hp by blast
      have pn: "p \<notin> fst ` set ?bl" using dis by auto
      have "held ?bl q = ((held bl)(p := None)) q" for q
      proof (cases "q = p")
        case True
        then show ?thesis using pn held_None by simp
      next
        case False
        have "held bl q = held (take i bl @ (p, k, d) # drop (Suc i) bl) q" using bl by simp
        also have "\<dots> = held ?bl q" using False by (auto simp: held_def map_add_def split: option.split)
        finally show ?thesis using False by simp
      qed
      then have h: "held ?bl = (held bl)(p := None)" by blast
      have "content s' q = content s q" if "q \<in> fst ` set ?bl" for q
        using that f(3) pn sub held_None [of bl q] by blast
      moreover have "distinct (map fst ?bl)" using dis by simp
      ultimately have "client_ok s' ?bl"
        using client_okI [OF Cons.prems(1), of s' ?bl] f(2) sub unfolding h by blast
      from Cons.IH [OF this ops] show ?thesis using Del i e f(1) by simp
    qed
  next
    case (Store i off bs)
    show ?thesis
    proof (cases "i < length bl \<and> off + length bs \<le> fst (snd (bl ! i))")
      case False
      then show ?thesis using Store Cons.IH [OF Cons.prems(1) ops] by (auto simp: case_prod_unfold)
    next
      case i: True
      obtain p k d where e: "bl ! i = (p, k, d)" by (cases "bl ! i") auto
      have m: "(p, k, d) \<in> set bl" using i e by (metis nth_mem)
      then have hp: "held bl p = Some k" using c held_Some by blast
      have off: "off + length bs \<le> k" using i e by simp
      obtain s' x where st: "store s p off bs = Some s'" "ok s' (held bl)" "content s p = Some x"
        "length x = k" "content s' p = Some (overlay x off bs)" "\<forall>q. q \<noteq> p \<longrightarrow> content s' q = content s q"
        using store_law [OF conjunct1 [OF c] hp off] by blast
      let ?bl = "bl[i := (p, k, client_store k off bs d)]"
      have "map (\<lambda>(p, k, c). (p, k)) ?bl = map (\<lambda>(p, k, c). (p, k)) bl"
        using i e by (metis (no_types, lifting) case_prod_conv list_update_id map_update nth_map)
      then have h: "held ?bl = held bl" by (simp add: held_def)
      have fst: "map fst ?bl = map fst bl"
        using i e by (metis fst_conv list_update_id map_update nth_map)
      have d: "overlay x off bs = y" if y: "client_store k off bs d = Some y" for y
      proof (cases "off = 0 \<and> length bs = k")
        case True
        then show ?thesis using y st(4) by (simp add: client_store_def overlay_def)
      next
        case False
        then obtain z where "d = Some z" "y = overlay z off bs"
          using y by (auto simp: client_store_def)
        then show ?thesis using client_contents [OF Cons.prems(1), of p k z] m st(3) by simp
      qed
      have "content s' q = Some ys" if "(q, j, Some ys) \<in> set ?bl" for q j ys
      proof -
        obtain n where n: "n < length bl" "?bl ! n = (q, j, Some ys)"
          using \<open>(q, j, Some ys) \<in> set ?bl\<close> by (metis in_set_conv_nth length_list_update)
        show ?thesis
        proof (cases "n = i")
          case True
          then show ?thesis using n i st(5) d by auto
        next
          case False
          then have b: "bl ! n = (q, j, Some ys)" using n by simp
          have "distinct (map fst bl)" using c by simp
          then have "fst (bl ! n) \<noteq> fst (bl ! i)"
            using False n(1) i by (metis (mono_tags, lifting) distinct_conv_nth length_map nth_map)
          then have "q \<noteq> p" using b e by simp
          moreover have "(q, j, Some ys) \<in> set bl" using b n(1) by (metis nth_mem)
          ultimately show ?thesis using st(6) client_contents [OF Cons.prems(1)] by simp
        qed
      qed
      then have "client_ok s' ?bl" using st(2) c unfolding client_ok_def h fst by blast
      from Cons.IH [OF this ops] show ?thesis using Store i e off st(1) by simp
    qed
  qed
qed

end

end
