(* ===== verification/MemPool.thy ===== *)
theory MemPool
  imports BlockAlloc StdMap
begin

text \<open>
  The block pool \<open>CMemPool\<close> of the socket component (mempool.h, mempool.cpp): free lists and
  sets of known blocks per block size, grown in batches and shrunk when much is free.
  \<open>new char[n]\<close> and \<open>delete[]\<close> work on a heap that is part of the model: a fresh address
  each time, unspecified contents of \<open>n\<close> bytes; deleting what is not allocated is \<open>None\<close>.
\<close>

section \<open>The heap\<close>

record heap =
  h_next :: nat
  h_mem :: "nat \<rightharpoonup> bytes"
  h_new :: "nat \<Rightarrow> nat \<Rightarrow> bytes"

definition char_new :: "nat \<Rightarrow> heap \<Rightarrow> nat \<times> heap" where
  "char_new n h = (h_next h, h\<lparr>h_next := Suc (h_next h),
     h_mem := (h_mem h)(h_next h \<mapsto> h_new h (h_next h) n)\<rparr>)"

definition char_delete :: "nat \<Rightarrow> heap \<Rightarrow> heap option" where
  "char_delete p h = (case h_mem h p of None \<Rightarrow> None
     | Some _ \<Rightarrow> Some (h\<lparr>h_mem := (h_mem h)(p := None)\<rparr>))"

section \<open>The pool\<close>

record mempool =
  mp_free :: "(nat, nat list) smap"
  mp_stub :: "(nat, nat set) smap"
  mp_allocated_size :: nat
  mp_water_mark :: nat
  mp_heap :: heap

abbreviation C_MAX_POOL_SIZE :: nat where "C_MAX_POOL_SIZE \<equiv> 2097152000"
abbreviation C_MAX_WATER_MARK :: nat where "C_MAX_WATER_MARK \<equiv> 1073741824"
abbreviation C_EXTEND_SET :: nat where "C_EXTEND_SET \<equiv> 128"
abbreviation C_SLOT_1 :: nat where "C_SLOT_1 \<equiv> 1048576"
abbreviation C_SLOT_2 :: nat where "C_SLOT_2 \<equiv> 67108864"
abbreviation C_ALLOC_CAPCITY :: nat where "C_ALLOC_CAPCITY \<equiv> 134217728"

definition mempool_new :: "(nat \<Rightarrow> nat \<Rightarrow> bytes) \<Rightarrow> mempool" where
  "mempool_new newbuf = \<lparr>mp_free = [], mp_stub = [], mp_allocated_size = 0,
     mp_water_mark = C_MAX_WATER_MARK, mp_heap = \<lparr>h_next = 1, h_mem = Map.empty, h_new = newbuf\<rparr>\<rparr>"

text \<open>The block size for a request; a shift by 32 bits is undefined, hence \<open>None\<close>.\<close>

function fit_bits :: "nat \<Rightarrow> nat \<Rightarrow> nat" where
  "fit_bits i n = (if n = 0 then i else fit_bits (i + 1) (n div 2))"
  by pat_completeness auto
termination by (relation "measure snd") auto

declare fit_bits.simps [simp del]

definition fit_block_size :: "nat \<Rightarrow> nat option" where
  "fit_block_size sz =
     (let i = fit_bits 10 (sz div 2 ^ 10); k = (if i < 10 then 10 else i)
      in if k < 32 then Some (2 ^ k) else None)"

definition fit_extend_set :: "nat \<Rightarrow> nat" where
  "fit_extend_set sz =
     (if sz < C_SLOT_1 then C_EXTEND_SET
      else if sz \<ge> C_SLOT_1 \<and> sz < C_SLOT_2 then C_ALLOC_CAPCITY div sz else 1)"

definition release_count :: "nat \<Rightarrow> nat \<Rightarrow> nat \<Rightarrow> nat \<Rightarrow> nat" where
  "release_count water_mark block_size free_count stub_count =
     (if mul32 free_count block_size < 2 ^ 20 then 0
      else if block_size > C_SLOT_2 then (if free_count > 1 then free_count div 2 else free_count)
      else if free_count \<ge> stub_count div 2 \<or> mul32 free_count block_size \<ge> water_mark
           then free_count div 2 else 0)"

fun delete_front :: "nat \<Rightarrow> nat list \<Rightarrow> heap \<Rightarrow> (nat list \<times> heap) option" where
  "delete_front 0 l h = Some (l, h)"
| "delete_front (Suc n) [] h = None"
| "delete_front (Suc n) (p # l) h =
     (case char_delete p h of None \<Rightarrow> None | Some h' \<Rightarrow> delete_front n l h')"

text \<open>\<open>release\<close>: the list and the set it gets are those of the size in the two maps.\<close>

definition release :: "nat \<Rightarrow> mempool \<Rightarrow> mempool option" where
  "release sz mp = do {
     l \<leftarrow> map_of (mp_free mp) sz;
     s \<leftarrow> map_of (mp_stub mp) sz;
     let todo_count = release_count (mp_water_mark mp) sz (length l mod 2 ^ 32) (card s mod 2 ^ 32);
     if todo_count = 0 then Some mp
     else if \<not> mp_allocated_size mp \<ge> mul32 sz todo_count then None
     else do {
       (l', h') \<leftarrow> delete_front todo_count l (mp_heap mp);
       Some (mp\<lparr>mp_free := smap_set sz l' (mp_free mp), mp_heap := h',
                mp_allocated_size := sub32 (mp_allocated_size mp) (mul32 sz todo_count)\<rparr>)
     }
   }"

function purge :: "nat \<Rightarrow> nat \<Rightarrow> nat \<Rightarrow> mempool \<Rightarrow> mempool option" where
  "purge purge_size last_alloc_size mem_size mp =
     (if sub32 last_alloc_size (mp_allocated_size mp) < mem_size \<and> purge_size \<ge> C_SLOT_1
      then (let ps = purge_size div 2
            in case map_of (mp_stub mp) ps of
                 None \<Rightarrow> purge ps last_alloc_size mem_size mp
               | Some _ \<Rightarrow>
                   (case map_of (mp_free mp) ps of
                      None \<Rightarrow> purge ps last_alloc_size mem_size mp
                    | Some _ \<Rightarrow>
                        (case release ps mp of None \<Rightarrow> None
                         | Some mp' \<Rightarrow> purge ps last_alloc_size mem_size mp')))
      else Some mp)"
  by pat_completeness auto
termination by (relation "measure fst") auto

declare purge.simps [simp del]

definition release_size :: "nat \<Rightarrow> mempool \<Rightarrow> (int \<times> mempool) option" where
  "release_size mem_size mp = do {
     let last_alloc_size = mp_allocated_size mp;
     mp' \<leftarrow> purge (2 ^ 31) last_alloc_size mem_size (mp\<lparr>mp_water_mark := C_ALLOC_CAPCITY\<rparr>);
     Some (if sub32 last_alloc_size (mp_allocated_size mp') < mem_size then -1 else 0,
           mp'\<lparr>mp_water_mark := C_MAX_WATER_MARK\<rparr>)
   }"

fun extend_blocks :: "nat \<Rightarrow> nat \<Rightarrow> nat list \<Rightarrow> nat set \<Rightarrow> heap \<Rightarrow> nat list \<times> nat set \<times> heap" where
  "extend_blocks 0 sz l s h = (l, s, h)"
| "extend_blocks (Suc n) sz l s h =
     (let (p, h') = char_new sz h in extend_blocks n sz (p # l) (insert p s) h')"

definition extend :: "nat \<Rightarrow> mempool \<Rightarrow> (int \<times> mempool) option" where
  "extend sz mp = do {
     let extend_set = fit_extend_set sz;
     let need = add32 (mp_allocated_size mp) (mul32 sz extend_set);
     (rc, mp1) \<leftarrow> (if need \<ge> C_MAX_POOL_SIZE then release_size (sub32 need C_MAX_POOL_SIZE) mp
                   else Some (0, mp));
     if rc \<noteq> 0 then Some (-1, mp1)
     else do {
       l \<leftarrow> map_of (mp_free mp1) sz;
       s \<leftarrow> map_of (mp_stub mp1) sz;
       let (l', s', h') = extend_blocks extend_set sz l s (mp_heap mp1);
       Some (0, mp1\<lparr>mp_free := smap_set sz l' (mp_free mp1), mp_stub := smap_set sz s' (mp_stub mp1),
                    mp_heap := h',
                    mp_allocated_size := add32 (mp_allocated_size mp1) (mul32 sz extend_set)\<rparr>)
     }
   }"

definition extend_new_size :: "nat \<Rightarrow> mempool \<Rightarrow> (int \<times> mempool) option" where
  "extend_new_size sz mp =
     extend sz (mp\<lparr>mp_free := smap_insert sz [] (mp_free mp), mp_stub := smap_insert sz {} (mp_stub mp)\<rparr>)"

text \<open>The result: the block (0 for \<open>NULL\<close>), its size when there is one, the pool.\<close>

definition allocate :: "nat \<Rightarrow> mempool \<Rightarrow> (nat \<times> nat \<times> mempool) option" where
  "allocate sz mp = do {
     block_size \<leftarrow> fit_block_size sz;
     (rc, mp1) \<leftarrow> (case map_of (mp_free mp) block_size of
                      None \<Rightarrow> extend_new_size block_size mp | Some _ \<Rightarrow> Some (0, mp));
     if rc \<noteq> 0 then Some (0, 0, mp1)
     else (case map_of (mp_free mp1) block_size of
         None \<Rightarrow> Some (0, 0, mp1)
       | Some l \<Rightarrow> do {
           (rc2, mp2) \<leftarrow> (if l = [] then extend block_size mp1 else Some (0, mp1));
           if rc2 \<noteq> 0 then Some (0, 0, mp2)
           else do {
             l2 \<leftarrow> map_of (mp_free mp2) block_size;
             (case l2 of [] \<Rightarrow> Some (0, 0, mp2)
              | p # l3 \<Rightarrow> Some (p, block_size, mp2\<lparr>mp_free := smap_set block_size l3 (mp_free mp2)\<rparr>))
           }
         })
   }"

definition recycle :: "nat \<Rightarrow> nat \<Rightarrow> mempool \<Rightarrow> (int \<times> mempool) option" where
  "recycle mem mem_size mp =
     (case map_of (mp_stub mp) mem_size of None \<Rightarrow> Some (-1, mp)
      | Some s \<Rightarrow>
          if mem \<notin> s then Some (-1, mp)
          else (case map_of (mp_free mp) mem_size of None \<Rightarrow> Some (-1, mp)
                | Some l \<Rightarrow>
                    (case release mem_size (mp\<lparr>mp_free := smap_set mem_size (mem # l) (mp_free mp)\<rparr>) of
                       None \<Rightarrow> None | Some mp' \<Rightarrow> Some (0, mp'))))"

text \<open>The destructor deletes every block in the sets of known blocks (in some order).\<close>

fun delete_all :: "nat list \<Rightarrow> heap \<Rightarrow> heap option" where
  "delete_all [] h = Some h"
| "delete_all (p # ps) h = (case char_delete p h of None \<Rightarrow> None | Some h' \<Rightarrow> delete_all ps h')"

definition mempool_destroy :: "mempool \<Rightarrow> heap option" where
  "mempool_destroy mp =
     delete_all (concat (map (\<lambda>(sz, s). sorted_list_of_set s) (mp_stub mp))) (mp_heap mp)"

section \<open>The state between calls\<close>

definition blk :: "heap \<Rightarrow> nat \<Rightarrow> nat option" where
  "blk h p = map_option length (h_mem h p)"

definition total :: "heap \<Rightarrow> nat" where
  "total h = (\<Sum>p\<in>dom (h_mem h). length (the (h_mem h p)))"

definition heap_ok :: "heap \<Rightarrow> bool" where
  "heap_ok h \<longleftrightarrow> 0 < h_next h \<and> finite (dom (h_mem h)) \<and> (\<forall>p\<in>dom (h_mem h). 0 < p \<and> p < h_next h) \<and>
     (\<forall>p n. length (h_new h p n) = n)"

text \<open>
  \<open>used\<close> are the blocks handed out, with their sizes.  Every block of the heap is either used
  or in exactly one free list, under its size, so nothing leaks; the recorded size is the
  sum over all blocks.
\<close>

definition pool_ok :: "mempool \<Rightarrow> (nat \<rightharpoonup> nat) \<Rightarrow> bool" where
  "pool_ok mp used \<longleftrightarrow>
     smap_ok (mp_free mp) \<and> smap_ok (mp_stub mp) \<and> heap_ok (mp_heap mp) \<and>
     (\<forall>k. map_of (mp_free mp) k = None \<longleftrightarrow> map_of (mp_stub mp) k = None) \<and>
     (\<forall>k l. map_of (mp_free mp) k = Some l \<longrightarrow>
        0 < k \<and> distinct l \<and> (\<forall>p\<in>set l. blk (mp_heap mp) p = Some k \<and> used p = None)) \<and>
     (\<forall>k l s. map_of (mp_free mp) k = Some l \<longrightarrow> map_of (mp_stub mp) k = Some s \<longrightarrow> set l \<subseteq> s) \<and>
     (\<forall>p k. used p = Some k \<longrightarrow>
        blk (mp_heap mp) p = Some k \<and> (\<exists>s. map_of (mp_stub mp) k = Some s \<and> p \<in> s)) \<and>
     (\<forall>p k. blk (mp_heap mp) p = Some k \<longrightarrow>
        used p \<noteq> None \<or> (\<exists>l. map_of (mp_free mp) k = Some l \<and> p \<in> set l)) \<and>
     mp_allocated_size mp = total (mp_heap mp) \<and> mp_allocated_size mp \<le> C_MAX_POOL_SIZE"

text \<open>What the pool's own housekeeping may not touch.\<close>

definition keeps :: "(nat \<rightharpoonup> nat) \<Rightarrow> mempool \<Rightarrow> mempool \<Rightarrow> bool" where
  "keeps used mp mp' \<longleftrightarrow> (\<forall>p\<in>dom used. h_mem (mp_heap mp') p = h_mem (mp_heap mp) p)"

lemma keeps_refl [simp]: "keeps used mp mp"
  by (simp add: keeps_def)

lemma keeps_trans: "keeps used a b \<Longrightarrow> keeps used b c \<Longrightarrow> keeps used a c"
  by (simp add: keeps_def)

lemma pool_ok_free:
  "pool_ok mp used \<Longrightarrow> map_of (mp_free mp) k = Some l \<Longrightarrow>
   0 < k \<and> distinct l \<and> (\<forall>p\<in>set l. blk (mp_heap mp) p = Some k \<and> used p = None) \<and>
   (\<exists>s. map_of (mp_stub mp) k = Some s \<and> set l \<subseteq> s)"
  unfolding pool_ok_def by (metis not_Some_eq)

lemma pool_ok_used:
  "pool_ok mp used \<Longrightarrow> used p = Some k \<Longrightarrow>
   blk (mp_heap mp) p = Some k \<and> (\<exists>s l. map_of (mp_stub mp) k = Some s \<and> p \<in> s \<and>
     map_of (mp_free mp) k = Some l)"
  unfolding pool_ok_def by (metis not_Some_eq option.distinct(1))

lemma pool_ok_cover:
  "pool_ok mp used \<Longrightarrow> blk (mp_heap mp) p = Some k \<Longrightarrow>
   used p \<noteq> None \<or> (\<exists>l. map_of (mp_free mp) k = Some l \<and> p \<in> set l)"
  unfolding pool_ok_def by blast

lemma pool_ok_dom: "pool_ok mp used \<Longrightarrow> map_of (mp_free mp) k = None \<longleftrightarrow> map_of (mp_stub mp) k = None"
  unfolding pool_ok_def by blast

lemma pool_ok_heap:
  "pool_ok mp used \<Longrightarrow> heap_ok (mp_heap mp) \<and> mp_allocated_size mp = total (mp_heap mp) \<and>
     mp_allocated_size mp \<le> C_MAX_POOL_SIZE \<and> smap_ok (mp_free mp) \<and> smap_ok (mp_stub mp)"
  unfolding pool_ok_def by blast

lemma blocks_total:
  assumes "heap_ok h" "distinct l" "\<forall>p\<in>set l. blk h p = Some k"
  shows "length l * k \<le> total h"
proof -
  have "(\<Sum>p\<in>set l. length (the (h_mem h p))) = (\<Sum>p\<in>set l. k)"
    using assms(3) by (intro sum.cong) (auto simp: blk_def)
  then have "length l * k = (\<Sum>p\<in>set l. length (the (h_mem h p)))"
    using assms(2) by (simp add: distinct_card)
  also have "\<dots> \<le> total h"
    unfolding total_def using assms by (intro sum_mono2) (auto simp: blk_def heap_ok_def)
  finally show ?thesis .
qed

lemma delete_front_ok:
  assumes "heap_ok h" "distinct l" "\<forall>p\<in>set l. blk h p = Some k" "n \<le> length l"
  shows "\<exists>h'. delete_front n l h = Some (drop n l, h') \<and> heap_ok h' \<and>
     h_mem h' = (\<lambda>p. if p \<in> set (take n l) then None else h_mem h p) \<and> total h' + n * k = total h"
  using assms
proof (induction n l h rule: delete_front.induct)
  case (3 n p l h)
  then obtain bs where bs: "h_mem h p = Some bs" "length bs = k" by (auto simp: blk_def)
  let ?h = "h\<lparr>h_mem := (h_mem h)(p := None)\<rparr>"
  have d: "char_delete p h = Some ?h" using bs by (simp add: char_delete_def)
  have ok: "heap_ok ?h" using "3.prems"(1) by (auto simp: heap_ok_def)
  have f: "finite (dom (h_mem h))" using "3.prems"(1) by (simp add: heap_ok_def)
  have "total h = length (the (h_mem h p)) + (\<Sum>q\<in>dom (h_mem h) - {p}. length (the (h_mem h q)))"
    unfolding total_def using bs f by (intro sum.remove) auto
  moreover have "total ?h = (\<Sum>q\<in>dom (h_mem h) - {p}. length (the (h_mem h q)))"
    unfolding total_def by (intro sum.cong) auto
  ultimately have t: "total ?h + k = total h" using bs by simp
  have "\<forall>q\<in>set l. blk ?h q = Some k" using "3.prems"(2,3) by (auto simp: blk_def)
  with "3.IH" [OF d ok] "3.prems"(2,4) obtain h' where
    "delete_front n l ?h = Some (drop n l, h')" "heap_ok h'"
    "h_mem h' = (\<lambda>q. if q \<in> set (take n l) then None else h_mem ?h q)" "total h' + n * k = total ?h" by auto
  then show ?case using d t by (auto simp: fun_eq_iff)
qed auto

lemma release_count_le: "release_count wm bs fc sc \<le> fc"
  by (simp add: release_count_def)

lemma release_ok:
  assumes ok: "pool_ok mp used" and l: "map_of (mp_free mp) k = Some l"
  shows "\<exists>mp'. release k mp = Some mp' \<and> pool_ok mp' used \<and> keeps used mp mp' \<and>
     mp_allocated_size mp' \<le> mp_allocated_size mp \<and> mp_stub mp' = mp_stub mp"
proof -
  let ?h = "mp_heap mp"
  obtain s where s: "map_of (mp_stub mp) k = Some s" "set l \<subseteq> s"
    and k: "0 < k" "distinct l" "\<forall>p\<in>set l. blk ?h p = Some k" "\<forall>p\<in>set l. used p = None"
    using pool_ok_free [OF ok l] by blast
  have h: "heap_ok ?h" "mp_allocated_size mp = total ?h" "mp_allocated_size mp \<le> C_MAX_POOL_SIZE"
    using pool_ok_heap [OF ok] by simp_all
  have lk: "length l * k \<le> total ?h" by (rule blocks_total [OF h(1) k(2,3)])
  have "length l \<le> length l * k" using k(1) by simp
  then have "length l \<le> C_MAX_POOL_SIZE" using lk h by linarith
  then have len: "length l < 2 ^ 32" by simp
  define n where "n = release_count (mp_water_mark mp) k (length l mod 2 ^ 32) (card s mod 2 ^ 32)"
  have n: "n \<le> length l" using release_count_le [of "mp_water_mark mp" k "length l mod 2 ^ 32"] len
    by (simp add: n_def)
  have "k * n \<le> length l * k" using n by simp
  then have kn: "k * n \<le> total ?h" using lk by linarith
  then have m: "mul32 k n = k * n" using h by simp
  obtain h' where h': "delete_front n l ?h = Some (drop n l, h')" "heap_ok h'"
    "h_mem h' = (\<lambda>p. if p \<in> set (take n l) then None else h_mem ?h p)" "total h' + n * k = total ?h"
    using delete_front_ok [OF h(1) k(2,3) n] by blast
  let ?mp = "mp\<lparr>mp_free := smap_set k (drop n l) (mp_free mp), mp_heap := h',
                mp_allocated_size := total h'\<rparr>"
  have sub: "sub32 (mp_allocated_size mp) (mul32 k n) = total h'"
    using m kn h h'(4) by (simp add: mult.commute)
  have r: "release k mp = Some (if n = 0 then mp else ?mp)"
    using h'(1) sub kn m h(2)
    by (simp only: release_def Let_def l s(1) bind.bind_lunit n_def [symmetric]) simp
  show ?thesis
  proof (cases "n = 0")
    case True
    then show ?thesis using r ok by simp
  next
    case False
    have out: "set (take n l) \<inter> set (drop n l) = {}"
      using k(2) by (metis append_take_drop_id distinct_append)
    have b: "blk h' p = (if p \<in> set (take n l) then None else blk ?h p)" for p
      by (simp add: blk_def h'(3))
    have tl: "p \<in> set (take n l) \<Longrightarrow> p \<in> set l" for p by (rule in_set_takeD)
    have dl: "p \<in> set (drop n l) \<Longrightarrow> p \<in> set l" for p by (rule in_set_dropD)
    have split: "p \<in> set l \<Longrightarrow> p \<in> set (take n l) \<or> p \<in> set (drop n l)" for p
      by (metis Un_iff append_take_drop_id set_append)
    have F: "map_of (mp_free ?mp) = (map_of (mp_free mp))(k \<mapsto> drop n l)"
      using pool_ok_heap [OF ok] by simp
    have "pool_ok ?mp used"
      unfolding pool_ok_def F
    proof (intro conjI allI impI, goal_cases)
      case (5 j l')
      then show ?case using pool_ok_free [OF ok, of j l'] k l by (auto split: if_splits)
    next
      case (6 j l')
      then show ?case using pool_ok_free [OF ok, of j l'] k l by (auto split: if_splits)
    next
      case (7 j l')
      show ?case
      proof (cases "j = k")
        case True
        then show ?thesis using 7 k(3,4) dl out b by fastforce
      next
        case False
        have "p \<notin> set l" if "p \<in> set l'" for p
          using that pool_ok_free [OF ok, of j l'] 7 False k(3) by fastforce
        then show ?thesis using 7 pool_ok_free [OF ok, of j l'] False b tl by (auto simp: b)
      qed
    next
      case (8 j l' s')
      then show ?case using pool_ok_free [OF ok, of j l'] s dl by (fastforce split: if_splits)
    next
      case (9 p j)
      then show ?case using pool_ok_used [OF ok, of p j] k(4) b tl by fastforce
    next
      case (10 p j)
      then show ?case using pool_ok_used [OF ok, of p j] by auto
    next
      case (11 p j)
      then have "blk ?h p = Some j" "p \<notin> set (take n l)" by (auto simp: b split: if_splits)
      with pool_ok_cover [OF ok this(1)] show ?case using l split by (cases "j = k") auto
    next
      case 12
      show ?case by simp
    next
      case 13
      then show ?case using h h'(4) by simp
    next
      case (4 j)
      show ?case using pool_ok_dom [OF ok, of j] l s(1) by auto
    qed (use pool_ok_heap [OF ok] h'(2) in simp_all)
    moreover have "keeps used mp ?mp"
      using h'(3) k(4) tl by (fastforce simp: keeps_def)
    moreover have "mp_allocated_size ?mp \<le> mp_allocated_size mp" using h h'(4) by simp
    ultimately show ?thesis using r False by simp
  qed
qed

section \<open>Making room\<close>

lemma purge_ok:
  "pool_ok mp used \<Longrightarrow>
   \<exists>mp'. purge ps la ms mp = Some mp' \<and> pool_ok mp' used \<and> keeps used mp mp' \<and>
     mp_allocated_size mp' \<le> mp_allocated_size mp \<and> mp_stub mp' = mp_stub mp"
proof (induction ps la ms mp rule: purge.induct)
  case (1 purge_size la ms mp)
  let ?ps = "purge_size div 2"
  show ?case
  proof (cases "sub32 la (mp_allocated_size mp) < ms \<and> purge_size \<ge> C_SLOT_1")
    case False
    then show ?thesis using 1(4) by (auto simp: purge.simps [of purge_size])
  next
    case True
    show ?thesis
    proof (cases "map_of (mp_stub mp) ?ps")
      case None
      then show ?thesis using 1(1) [OF True refl None 1(4)] True by (simp only: purge.simps [of purge_size] Let_def if_True) simp
    next
      case s: (Some s)
      then obtain l where l: "map_of (mp_free mp) ?ps = Some l"
        using pool_ok_dom [OF 1(4)] by (metis not_Some_eq)
      obtain mp1 where r: "release ?ps mp = Some mp1" "pool_ok mp1 used" "keeps used mp mp1"
        "mp_allocated_size mp1 \<le> mp_allocated_size mp" "mp_stub mp1 = mp_stub mp"
        using release_ok [OF 1(4) l] by blast
      obtain mp2 where "purge ?ps la ms mp1 = Some mp2" "pool_ok mp2 used" "keeps used mp1 mp2"
        "mp_allocated_size mp2 \<le> mp_allocated_size mp1" "mp_stub mp2 = mp_stub mp1"
        using 1(3) [OF True refl s l r(1,2)] by blast
      then show ?thesis using True s l r keeps_trans [OF r(3)]
        by (simp only: purge.simps [of purge_size] Let_def if_True) simp
    qed
  qed
qed

lemma pool_ok_water [simp]: "pool_ok (mp\<lparr>mp_water_mark := w\<rparr>) used = pool_ok mp used"
  by (simp add: pool_ok_def)

lemma keeps_water [simp]:
  "keeps used (mp\<lparr>mp_water_mark := w\<rparr>) mp' = keeps used mp mp'"
  "keeps used mp (mp'\<lparr>mp_water_mark := w\<rparr>) = keeps used mp mp'"
  by (simp_all add: keeps_def)

lemma release_size_ok:
  assumes "pool_ok mp used"
  shows "\<exists>rc mp'. release_size ms mp = Some (rc, mp') \<and> pool_ok mp' used \<and> keeps used mp mp' \<and>
     mp_allocated_size mp' \<le> mp_allocated_size mp \<and> mp_stub mp' = mp_stub mp \<and>
     (rc = 0 \<longrightarrow> mp_allocated_size mp' + ms \<le> mp_allocated_size mp)"
proof -
  obtain mp' where "purge (2 ^ 31) (mp_allocated_size mp) ms (mp\<lparr>mp_water_mark := C_ALLOC_CAPCITY\<rparr>) = Some mp'"
    "pool_ok mp' used" "keeps used mp mp'"
    "mp_allocated_size mp' \<le> mp_allocated_size mp" "mp_stub mp' = mp_stub mp"
    using purge_ok [of "mp\<lparr>mp_water_mark := C_ALLOC_CAPCITY\<rparr>" used "2 ^ 31"] assms by force
  moreover have "mp_allocated_size mp < 2 ^ 32" using pool_ok_heap [OF assms] by simp
  ultimately show ?thesis by (auto simp: release_size_def Let_def)
qed

lemma extend_blocks_ok:
  "heap_ok h \<Longrightarrow> 0 < sz \<Longrightarrow> \<exists>l' s' h'. extend_blocks n sz l s h = (l', s', h') \<and> heap_ok h' \<and>
     l' = rev [h_next h ..< h_next h + n] @ l \<and> s' = s \<union> {h_next h ..< h_next h + n} \<and>
     h_next h' = h_next h + n \<and>
     h_mem h' = (\<lambda>p. if h_next h \<le> p \<and> p < h_next h + n then Some (h_new h p sz) else h_mem h p) \<and>
     total h' = total h + n * sz"
proof (induction n arbitrary: l s h)
  case 0
  then show ?case by (auto simp: fun_eq_iff)
next
  case (Suc n)
  let ?p = "h_next h"
  let ?h = "h\<lparr>h_next := Suc ?p, h_mem := (h_mem h)(?p \<mapsto> h_new h ?p sz)\<rparr>"
  have new: "?p \<notin> dom (h_mem h)" "finite (dom (h_mem h))" "length (h_new h ?p sz) = sz"
    using Suc.prems(1) by (auto simp: heap_ok_def)
  have ok: "heap_ok ?h" using Suc.prems(1) by (auto simp: heap_ok_def intro: less_SucI)
  have "total ?h = length (the (h_mem ?h ?p)) + (\<Sum>q\<in>dom (h_mem h). length (the (h_mem ?h q)))"
    unfolding total_def using new by simp
  moreover have "(\<Sum>q\<in>dom (h_mem h). length (the (h_mem ?h q))) = total h"
    unfolding total_def using new(1) by (intro sum.cong) auto
  ultimately have t: "total ?h = sz + total h" using new(3) by simp
  obtain l' s' h' where "extend_blocks n sz (?p # l) (insert ?p s) ?h = (l', s', h')" "heap_ok h'"
     "l' = rev [h_next ?h ..< h_next ?h + n] @ ?p # l" "s' = insert ?p s \<union> {h_next ?h ..< h_next ?h + n}"
     "h_next h' = h_next ?h + n"
     "h_mem h' = (\<lambda>p. if h_next ?h \<le> p \<and> p < h_next ?h + n then Some (h_new ?h p sz) else h_mem ?h p)"
     "total h' = total ?h + n * sz" using Suc.IH [OF ok Suc.prems(2)] by blast
  then show ?case using t
    by (auto simp: char_new_def fun_eq_iff upt_conv_Cons simp del: upt_Suc)
qed

lemma fit_extend_set_bound: "k \<le> 2 ^ 31 \<Longrightarrow> k * fit_extend_set k \<le> 2 ^ 31"
proof -
  assume k: "k \<le> 2 ^ 31"
  have "k * (C_ALLOC_CAPCITY div k) \<le> C_ALLOC_CAPCITY" by (rule times_div_less_eq_dividend)
  also have "\<dots> \<le> 2 ^ 31" by simp
  finally show ?thesis using k by (auto simp: fit_extend_set_def)
qed

lemma fit_extend_set_pos: "0 < fit_extend_set k"
  by (auto simp: fit_extend_set_def div_greater_zero_iff)

lemma extend_ok:
  assumes ok: "pool_ok mp used" and l: "map_of (mp_free mp) k \<noteq> None" and k: "0 < k" "k \<le> 2 ^ 31"
  shows "\<exists>rc mp'. extend k mp = Some (rc, mp') \<and> pool_ok mp' used \<and> keeps used mp mp' \<and>
     (rc = 0 \<longrightarrow> (\<exists>l. map_of (mp_free mp') k = Some l \<and> l \<noteq> []))"
proof -
  let ?e = "fit_extend_set k"
  define need where "need = mp_allocated_size mp + k * ?e"
  have b: "k * ?e \<le> 2 ^ 31" by (rule fit_extend_set_bound [OF k(2)])
  have A: "mp_allocated_size mp \<le> C_MAX_POOL_SIZE" using pool_ok_heap [OF ok] by simp
  have m: "mul32 k ?e = k * ?e" "add32 (mp_allocated_size mp) (k * ?e) = need"
    "need < 2 ^ 32" using b A by (simp_all add: need_def)
  define rm where "rm = (if need \<ge> C_MAX_POOL_SIZE then release_size (sub32 need C_MAX_POOL_SIZE) mp
                   else Some (0, mp))"
  have "\<exists>rc mp1. rm = Some (rc, mp1) \<and> pool_ok mp1 used \<and> keeps used mp mp1 \<and>
      mp_stub mp1 = mp_stub mp \<and> (rc = 0 \<longrightarrow> mp_allocated_size mp1 + k * ?e \<le> C_MAX_POOL_SIZE)"
  proof (cases "need \<ge> C_MAX_POOL_SIZE")
    case True
    obtain rc mp1 where "release_size (sub32 need C_MAX_POOL_SIZE) mp = Some (rc, mp1)" "pool_ok mp1 used"
      "keeps used mp mp1" "mp_stub mp1 = mp_stub mp"
      "rc = 0 \<longrightarrow> mp_allocated_size mp1 + sub32 need C_MAX_POOL_SIZE \<le> mp_allocated_size mp"
      using release_size_ok [OF ok] by blast
    then show ?thesis using True m(3) by (auto simp: rm_def need_def)
  next
    case False
    then show ?thesis using ok by (simp add: rm_def need_def)
  qed
  then obtain rc mp1 where rm: "rm = Some (rc, mp1)" "pool_ok mp1 used" "keeps used mp mp1"
    "mp_stub mp1 = mp_stub mp" "rc = 0 \<longrightarrow> mp_allocated_size mp1 + k * ?e \<le> C_MAX_POOL_SIZE" by blast
  have e: "extend k mp = (if rc \<noteq> 0 then Some (-1, mp1) else do {
       l \<leftarrow> map_of (mp_free mp1) k; s \<leftarrow> map_of (mp_stub mp1) k;
       let (l', s', h') = extend_blocks ?e k l s (mp_heap mp1);
       Some (0, mp1\<lparr>mp_free := smap_set k l' (mp_free mp1), mp_stub := smap_set k s' (mp_stub mp1),
                    mp_heap := h', mp_allocated_size := add32 (mp_allocated_size mp1) (k * ?e)\<rparr>)})"
    using rm(1) by (simp only: extend_def Let_def m rm_def [symmetric]) simp
  show ?thesis
  proof (cases "rc = 0")
    case False
    then show ?thesis using e rm by simp
  next
    case True
    let ?h = "mp_heap mp1"
    obtain l s where ls: "map_of (mp_free mp1) k = Some l" "map_of (mp_stub mp1) k = Some s" "set l \<subseteq> s"
      using pool_ok_free [OF rm(2)] pool_ok_dom [OF rm(2), of k] pool_ok_dom [OF ok, of k] rm(4) l
      by (metis not_Some_eq)
    note kl = pool_ok_free [OF rm(2) ls(1)]
    have h: "heap_ok ?h" "mp_allocated_size mp1 = total ?h" using pool_ok_heap [OF rm(2)] by simp_all
    let ?new = "{h_next ?h ..< h_next ?h + ?e}"
    obtain l' s' h' where x: "extend_blocks ?e k l s ?h = (l', s', h')" "heap_ok h'"
     "l' = rev [h_next ?h ..< h_next ?h + ?e] @ l" "s' = s \<union> ?new"
     "h_mem h' = (\<lambda>p. if h_next ?h \<le> p \<and> p < h_next ?h + ?e then Some (h_new ?h p k) else h_mem ?h p)"
     "total h' = total ?h + ?e * k" using extend_blocks_ok [OF h(1) k(1)] by blast
    have a: "add32 (mp_allocated_size mp1) (k * ?e) = total h'" "total h' \<le> C_MAX_POOL_SIZE"
      using rm(5) True h(2) x(6) by (simp_all add: mult.commute)
    let ?mp = "mp1\<lparr>mp_free := smap_set k l' (mp_free mp1), mp_stub := smap_set k s' (mp_stub mp1),
                    mp_heap := h', mp_allocated_size := total h'\<rparr>"
    have r: "extend k mp = Some (0, ?mp)" using e True ls x(1) a(1) by simp
    have fresh: "blk ?h p = None \<and> used p = None" if "p \<in> ?new" for p
    proof -
      have "p \<notin> dom (h_mem ?h)" using that h(1) unfolding heap_ok_def by (meson atLeastLessThan_iff leD)
      then have "h_mem ?h p = None" by blast
      then have "blk ?h p = None" by (simp add: blk_def)
      moreover from this have "used p = None" using pool_ok_used [OF rm(2), of p] by (cases "used p") auto
      ultimately show ?thesis by simp
    qed
    have B: "blk h' p = (if p \<in> ?new then Some k else blk ?h p)" for p
    proof -
      have "length (h_new ?h p k) = k" using h(1) unfolding heap_ok_def by blast
      then show ?thesis by (simp add: blk_def x(5))
    qed
    have F: "map_of (mp_free ?mp) = (map_of (mp_free mp1))(k \<mapsto> l')"
      "map_of (mp_stub ?mp) = (map_of (mp_stub mp1))(k \<mapsto> s')"
      using pool_ok_heap [OF rm(2)] by simp_all
    have old: "p \<notin> ?new" if "blk ?h p \<noteq> None" for p using that fresh [of p] by metis
    have sl': "set l' = ?new \<union> set l" by (simp add: x(3))
    have "pool_ok ?mp used"
      unfolding pool_ok_def F
    proof (intro conjI allI impI, goal_cases)
      case (6 j m)
      have "distinct l'" using kl old by (auto simp: x(3))
      then show ?case using pool_ok_free [OF rm(2), of j m] 6 by (auto split: if_splits)
    next
      case (7 j m)
      have *: "blk h' p = Some i \<and> used p = None"
        if "map_of (mp_free mp1) i = Some n" "p \<in> set n" for i n p
      proof -
        have "blk ?h p = Some i" "used p = None" using pool_ok_free [OF rm(2) that(1)] that(2) by auto
        then show ?thesis using B [of p] old [of p] by auto
      qed
      show ?case
      proof (cases "j = k")
        case True
        then have m: "m = l'" using 7 by simp
        show ?thesis
        proof
          fix p assume "p \<in> set m"
          then consider "p \<in> ?new" | "p \<in> set l" using sl' m by blast
          then show "blk (mp_heap ?mp) p = Some j \<and> used p = None"
            using * [OF ls(1)] B [of p] fresh [of p] True by cases simp_all
        qed
      next
        case False
        then show ?thesis using 7 * by simp
      qed
    next
      case (8 j m t)
      then show ?case using pool_ok_free [OF rm(2), of j m] ls(3) x(4) sl' by (cases "j = k") auto
    next
      case (9 p j)
      then have "blk ?h p = Some j" using pool_ok_used [OF rm(2), of p j] by simp
      then show ?case using B [of p] old [of p] by auto
    next
      case (10 p j)
      then show ?case using pool_ok_used [OF rm(2), of p j] x(4) ls(2) by auto
    next
      case (11 p j)
      show ?case
      proof (cases "p \<in> ?new")
        case True
        then show ?thesis using 11 B sl' by auto
      next
        case False
        then have "blk ?h p = Some j" using 11 B [of p] by auto
        then have "used p \<noteq> None \<or> (\<exists>l. map_of (mp_free mp1) j = Some l \<and> p \<in> set l)"
          by (rule pool_ok_cover [OF rm(2)])
        then show ?thesis using sl' ls(1) by auto
      qed
    next
      case (4 j)
      show ?case using pool_ok_dom [OF rm(2), of j] ls by auto
    next
      case (5 j m)
      then show ?case using pool_ok_free [OF rm(2), of j m] k(1) by (auto split: if_splits)
    qed (use pool_ok_heap [OF rm(2)] x(2) a(2) in simp_all)
    moreover have "keeps used mp1 ?mp"
      using fresh x(5) by (fastforce simp: keeps_def)
    moreover have "l' \<noteq> []" using fit_extend_set_pos [of k] by (simp add: x(3))
    ultimately show ?thesis using r keeps_trans [OF rm(3)] F(1) by simp
  qed
qed

section \<open>Handing blocks out and taking them back\<close>

lemma fit_bits_spec: "\<exists>b. fit_bits i n = i + b \<and> n < 2 ^ b \<and> (n > 0 \<longrightarrow> 2 ^ b \<le> 2 * n)"
proof (induction i n rule: fit_bits.induct)
  case (1 i n)
  show ?case
  proof (cases "n = 0")
    case True
    then show ?thesis by (simp add: fit_bits.simps)
  next
    case False
    obtain b where b: "fit_bits (i + 1) (n div 2) = i + 1 + b" "n div 2 < 2 ^ b"
      "n div 2 > 0 \<longrightarrow> 2 ^ b \<le> 2 * (n div 2)" using 1 [OF False] by (elim exE conjE)
    have "b = 0 \<or> n div 2 > 0 \<or> n = 1" using False by linarith
    then have "2 ^ Suc b \<le> 2 * n"
    proof (cases "n div 2 > 0")
      case False
      then have "n = 1" using \<open>n \<noteq> 0\<close> by linarith
      moreover from False have "fit_bits (i + 1) (n div 2) = i + 1" by (simp add: fit_bits.simps)
      ultimately show ?thesis using b(1) by simp
    qed (use b(3) in auto)
    moreover have "n < 2 ^ Suc b" using b(2) by auto
    ultimately show ?thesis using False b(1) by (intro exI [of _ "Suc b"]) (simp add: fit_bits.simps [of i n])
  qed
qed

lemma fit_block_size_spec:
  assumes "sz < 2 ^ 31"
  shows "\<exists>k. fit_block_size sz = Some (2 ^ k) \<and> 10 \<le> k \<and> k \<le> 31 \<and> sz < 2 ^ k \<and>
     (2 ^ k :: nat) \<le> max 1024 (2 * sz)"
proof -
  obtain b where b: "fit_bits 10 (sz div 2 ^ 10) = 10 + b" "sz div 2 ^ 10 < 2 ^ b"
    "sz div 2 ^ 10 > 0 \<longrightarrow> 2 ^ b \<le> 2 * (sz div 2 ^ 10)"
    using fit_bits_spec [of 10 "sz div 2 ^ 10"] by (elim exE conjE)
  have "b \<le> 21"
  proof (cases "sz div 2 ^ 10 > 0")
    case True
    have "sz div 2 ^ 10 < 2 ^ 21" using assms by (simp add: less_mult_imp_div_less)
    then have "(2 :: nat) ^ b < 2 ^ 22" using b(3) True by (simp del: div_greater_zero_iff)
    then show ?thesis by (simp only: power_strict_increasing_iff)
  next
    case False
    then have "fit_bits 10 (sz div 2 ^ 10) = 10" by (simp add: fit_bits.simps)
    then show ?thesis using b(1) by simp
  qed
  moreover have "sz < 2 ^ (10 + b)"
  proof -
    have "sz div 2 ^ 10 < 2 ^ b" by (rule b(2))
    then have "sz < 2 ^ b * 2 ^ 10" by (simp only: div_less_iff_less_mult zero_less_power zero_less_numeral)
    then show ?thesis by (simp add: power_add)
  qed
  moreover have "(2 :: nat) ^ (10 + b) \<le> max 1024 (2 * sz)"
  proof (cases "sz div 2 ^ 10 > 0")
    case True
    then have "2 ^ (10 + b) \<le> 2 * ((sz div 2 ^ 10) * 2 ^ 10)" using b(3) by (simp add: power_add)
    also have "\<dots> \<le> 2 * sz" by simp
    finally show ?thesis by simp
  next
    case False
    then have "fit_bits 10 (sz div 2 ^ 10) = 10" by (simp add: fit_bits.simps)
    then show ?thesis using b(1) by simp
  qed
  ultimately show ?thesis
    by (intro exI [of _ "10 + b"]) (simp add: fit_block_size_def Let_def b(1) [simplified])
qed

lemma pool_ok_take:
  assumes ok: "pool_ok mp used" and l: "map_of (mp_free mp) k = Some (p # l)"
  shows "pool_ok (mp\<lparr>mp_free := smap_set k l (mp_free mp)\<rparr>) (used(p \<mapsto> k))" "used p = None" "p \<noteq> 0"
proof -
  note kl = pool_ok_free [OF ok l]
  have h: "heap_ok (mp_heap mp)" using pool_ok_heap [OF ok] by simp
  have "p \<in> dom (h_mem (mp_heap mp))" using kl by (auto simp: blk_def)
  then show "p \<noteq> 0" using h unfolding heap_ok_def by blast
  show u: "used p = None" using kl by simp
  let ?mp = "mp\<lparr>mp_free := smap_set k l (mp_free mp)\<rparr>"
  have F: "map_of (mp_free ?mp) = (map_of (mp_free mp))(k \<mapsto> l)" using pool_ok_heap [OF ok] by simp
  show "pool_ok ?mp (used(p \<mapsto> k))"
    unfolding pool_ok_def F
  proof (intro conjI allI impI, goal_cases)
    case (4 j)
    show ?case using pool_ok_dom [OF ok, of j] l by auto
  next
    case (5 j m)
    then show ?case using pool_ok_free [OF ok, of j m] kl by (auto split: if_splits)
  next
    case (6 j m)
    then show ?case using pool_ok_free [OF ok, of j m] kl by (auto split: if_splits)
  next
    case (7 j m)
    have "p \<notin> set m"
    proof (cases "j = k")
      case False
      then have "\<forall>q\<in>set m. blk (mp_heap mp) q = Some j" using 7 pool_ok_free [OF ok, of j m] by simp
      then show ?thesis using kl False by auto
    qed (use 7 kl in auto)
    then show ?case using 7 pool_ok_free [OF ok, of j m] kl by (cases "j = k") auto
  next
    case (8 j m s)
    then show ?case using pool_ok_free [OF ok, of j m] kl by (cases "j = k") auto
  next
    case (9 q j)
    then show ?case using pool_ok_used [OF ok, of q j] kl by (cases "q = p") auto
  next
    case (10 q j)
    then show ?case using pool_ok_used [OF ok, of q j] kl by (cases "q = p") auto
  next
    case (11 q j)
    then show ?case using pool_ok_cover [OF ok, of q j] l by (cases "q = p") auto
  qed (use pool_ok_heap [OF ok] in simp_all)
qed

lemma allocate_ok:
  assumes ok: "pool_ok mp used" and sz: "sz < 2 ^ 31"
  shows "\<exists>p bs mp'. allocate sz mp = Some (p, bs, mp') \<and> keeps used mp mp' \<and>
     (if p = 0 then pool_ok mp' used
      else used p = None \<and> sz < bs \<and> bs \<le> max 1024 (2 * sz) \<and> pool_ok mp' (used(p \<mapsto> bs)))"
proof -
  obtain e where e: "fit_block_size sz = Some (2 ^ e)" "10 \<le> e" "e \<le> 31" "sz < 2 ^ e"
    "(2 ^ e :: nat) \<le> max 1024 (2 * sz)" using fit_block_size_spec [OF sz] by blast
  define k :: nat where "k = 2 ^ e"
  have k: "0 < k" "k \<le> 2 ^ 31" "sz < k" "k \<le> max 1024 (2 * sz)"
    using e power_increasing [of e 31 "2 :: nat"] by (simp_all add: k_def)
  have f: "fit_block_size sz = Some k" using e(1) by (simp add: k_def)
  have new: "pool_ok (mp\<lparr>mp_free := smap_insert k [] (mp_free mp), mp_stub := smap_insert k {} (mp_stub mp)\<rparr>) used"
    (is "pool_ok ?n used") if none: "map_of (mp_free mp) k = None"
  proof -
    have F: "map_of (mp_free ?n) = (map_of (mp_free mp))(k \<mapsto> [])"
      "map_of (mp_stub ?n) = (map_of (mp_stub mp))(k \<mapsto> {})"
      using pool_ok_heap [OF ok] none pool_ok_dom [OF ok, of k] by (simp_all add: fun_eq_iff)
    show ?thesis
      unfolding pool_ok_def F
    proof (intro conjI allI impI, goal_cases)
      case (4 j)
      show ?case using pool_ok_dom [OF ok, of j] by simp
    next
      case (5 j m)
      then show ?case using pool_ok_free [OF ok, of j m] k(1) by (auto split: if_splits)
    next
      case (6 j m)
      then show ?case using pool_ok_free [OF ok, of j m] by (auto split: if_splits)
    next
      case (7 j m)
      then show ?case using pool_ok_free [OF ok, of j m] by (cases "j = k") auto
    next
      case (8 j m s)
      then show ?case using pool_ok_free [OF ok, of j m] by (cases "j = k") auto
    next
      case (9 q j)
      then show ?case using pool_ok_used [OF ok, of q j] by simp
    next
      case (10 q j)
      then show ?case using pool_ok_used [OF ok, of q j] none pool_ok_dom [OF ok, of k] by auto
    next
      case (11 q j)
      then show ?case using pool_ok_cover [OF ok, of q j] none by auto
    qed (use pool_ok_heap [OF ok] in simp_all)
  qed
  have first: "\<exists>rc mp1. (case map_of (mp_free mp) k of None \<Rightarrow> extend_new_size k mp | Some _ \<Rightarrow> Some (0, mp)) =
       Some (rc, mp1) \<and> pool_ok mp1 used \<and> keeps used mp mp1 \<and>
       (rc = 0 \<longrightarrow> map_of (mp_free mp1) k \<noteq> None)"
  proof (cases "map_of (mp_free mp) k")
    case None
    let ?n = "mp\<lparr>mp_free := smap_insert k [] (mp_free mp), mp_stub := smap_insert k {} (mp_stub mp)\<rparr>"
    have "map_of (mp_free ?n) k \<noteq> None" using pool_ok_heap [OF ok] None by simp
    from extend_ok [OF new [OF None] this k(1,2)] show ?thesis
      using None by (auto simp: extend_new_size_def keeps_def)
  qed (use ok in auto)
  then obtain rc mp1 where a: "(case map_of (mp_free mp) k of None \<Rightarrow> extend_new_size k mp | Some _ \<Rightarrow> Some (0, mp)) =
       Some (rc, mp1)" "pool_ok mp1 used" "keeps used mp mp1" "rc = 0 \<longrightarrow> map_of (mp_free mp1) k \<noteq> None"
    by blast
  show ?thesis
  proof (cases "rc = 0")
    case False
    then have "allocate sz mp = Some (0, 0, mp1)" by (simp add: allocate_def f a(1))
    then show ?thesis using a by simp
  next
    case True
    then obtain l where l: "map_of (mp_free mp1) k = Some l" using a(4) by auto
    have second: "\<exists>rc2 mp2. (if l = [] then extend k mp1 else Some (0, mp1)) = Some (rc2, mp2) \<and>
        pool_ok mp2 used \<and> keeps used mp1 mp2 \<and>
        (rc2 = 0 \<longrightarrow> (\<exists>m. map_of (mp_free mp2) k = Some m \<and> m \<noteq> []))"
      using extend_ok [OF a(2) _ k(1,2)] l a(2) by auto
    then obtain rc2 mp2 where b: "(if l = [] then extend k mp1 else Some (0, mp1)) = Some (rc2, mp2)"
      "pool_ok mp2 used" "keeps used mp1 mp2" "rc2 = 0 \<longrightarrow> (\<exists>m. map_of (mp_free mp2) k = Some m \<and> m \<noteq> [])"
      by blast
    note K = keeps_trans [OF a(3) b(3)]
    show ?thesis
    proof (cases "rc2 = 0")
      case False
      then have "allocate sz mp = Some (0, 0, mp2)" using True l b(1) by (simp add: allocate_def f a(1))
      then show ?thesis using b(2) K by simp
    next
      case r2: True
      then obtain p m where m: "map_of (mp_free mp2) k = Some (p # m)"
        using b(4) by (metis neq_Nil_conv)
      have "allocate sz mp = Some (p, k, mp2\<lparr>mp_free := smap_set k m (mp_free mp2)\<rparr>)"
        using True r2 l b(1) m by (simp add: allocate_def f a(1))
      then show ?thesis using pool_ok_take [OF b(2) m] k(3,4) K by (simp add: keeps_def)
    qed
  qed
qed

lemma recycle_ok:
  assumes ok: "pool_ok mp used" and p: "used p = Some k"
  shows "\<exists>mp'. recycle p k mp = Some (0, mp') \<and> pool_ok mp' (used(p := None)) \<and>
     keeps (used(p := None)) mp mp'"
proof -
  obtain s l where sl: "map_of (mp_stub mp) k = Some s" "p \<in> s" "map_of (mp_free mp) k = Some l"
    and b: "blk (mp_heap mp) p = Some k"
    using pool_ok_used [OF ok p] by blast
  note kl = pool_ok_free [OF ok sl(3)]
  let ?mp = "mp\<lparr>mp_free := smap_set k (p # l) (mp_free mp)\<rparr>"
  have F: "map_of (mp_free ?mp) = (map_of (mp_free mp))(k \<mapsto> p # l)" using pool_ok_heap [OF ok] by simp
  have "pool_ok ?mp (used(p := None))"
    unfolding pool_ok_def F
  proof (intro conjI allI impI, goal_cases)
    case (4 j)
    show ?case using pool_ok_dom [OF ok, of j] sl(3) by auto
  next
    case (5 j m)
    then show ?case using pool_ok_free [OF ok, of j m] kl by (auto split: if_splits)
  next
    case (6 j m)
    then show ?case using pool_ok_free [OF ok, of j m] kl p by (auto split: if_splits)
  next
    case (7 j m)
    then show ?case using pool_ok_free [OF ok, of j m] kl b by (cases "j = k") auto
  next
    case (8 j m t)
    then show ?case using pool_ok_free [OF ok, of j m] kl sl by (cases "j = k") auto
  next
    case (9 q j)
    then show ?case using pool_ok_used [OF ok, of q j] by (cases "q = p") auto
  next
    case (10 q j)
    then show ?case using pool_ok_used [OF ok, of q j] by (cases "q = p") auto
  next
    case (11 q j)
    then show ?case using pool_ok_cover [OF ok, of q j] sl(3) b by (cases "q = p") auto
  qed (use pool_ok_heap [OF ok] in simp_all)
  from release_ok [OF this, of k "p # l"] F obtain mp' where
    "release k ?mp = Some mp'" "pool_ok mp' (used(p := None))" "keeps (used(p := None)) ?mp mp'" by auto
  then show ?thesis using sl by (simp add: recycle_def keeps_def)
qed

section \<open>The pool is a block allocator\<close>

text \<open>Reading and writing inside a block; leaving it, or using a deleted one, is \<open>None\<close>.\<close>

definition mp_content :: "mempool \<Rightarrow> nat \<Rightarrow> bytes option" where
  "mp_content mp p = h_mem (mp_heap mp) p"

definition mp_load :: "mempool \<Rightarrow> nat \<Rightarrow> nat \<Rightarrow> nat \<Rightarrow> bytes option" where
  "mp_load mp p off n = (case mp_content mp p of None \<Rightarrow> None | Some c \<Rightarrow> memrd c off n)"

definition mp_store :: "mempool \<Rightarrow> nat \<Rightarrow> nat \<Rightarrow> bytes \<Rightarrow> mempool option" where
  "mp_store mp p off bs =
     (case mp_content mp p of None \<Rightarrow> None
      | Some c \<Rightarrow> (case memwr c off bs of None \<Rightarrow> None
          | Some c' \<Rightarrow> Some (mp\<lparr>mp_heap := (mp_heap mp)\<lparr>h_mem := (h_mem (mp_heap mp))(p \<mapsto> c')\<rparr>\<rparr>)))"

lemma pool_ok_heap_cong:
  assumes "pool_ok mp used" "heap_ok h" "\<And>p. blk h p = blk (mp_heap mp) p" "total h = total (mp_heap mp)"
  shows "pool_ok (mp\<lparr>mp_heap := h\<rparr>) used"
proof -
  have b: "blk h = blk (mp_heap mp)" by (rule ext) (rule assms(3))
  have hk: "heap_ok h = True" "heap_ok (mp_heap mp) = True"
    using assms(2) pool_ok_heap [OF assms(1)] by blast+
  have "pool_ok (mp\<lparr>mp_heap := h\<rparr>) used \<longleftrightarrow> pool_ok mp used"
    by (simp (no_asm) add: pool_ok_def b assms(4) hk)
  then show ?thesis using assms(1) by blast
qed

lemma mp_content_used:
  "pool_ok mp u \<Longrightarrow> u p = Some k \<Longrightarrow> \<exists>c. mp_content mp p = Some c \<and> length c = k"
  using pool_ok_used [of mp u p k] by (auto simp: blk_def mp_content_def)

lemma mp_store_ok:
  assumes ok: "pool_ok mp u" and p: "u p = Some k" and off: "off + length bs \<le> k"
  shows "\<exists>mp' c. mp_store mp p off bs = Some mp' \<and> pool_ok mp' u \<and> mp_content mp p = Some c \<and> length c = k \<and>
     mp_content mp' p = Some (overlay c off bs) \<and> (\<forall>q. q \<noteq> p \<longrightarrow> mp_content mp' q = mp_content mp q)"
proof -
  let ?h = "mp_heap mp"
  obtain c where c: "mp_content mp p = Some c" "length c = k" using mp_content_used [OF ok p] by blast
  then have hc: "h_mem ?h p = Some c" by (simp add: mp_content_def)
  let ?c = "overlay c off bs"
  let ?h' = "?h\<lparr>h_mem := (h_mem ?h)(p \<mapsto> ?c)\<rparr>"
  have len: "length ?c = length c" using off c(2) by simp
  have dom: "dom (h_mem ?h') = dom (h_mem ?h)" using hc by auto
  have "heap_ok ?h'" using pool_ok_heap [OF ok] unfolding heap_ok_def dom by simp
  moreover have "blk ?h' q = blk ?h q" for q using hc len by (simp add: blk_def)
  moreover have "total ?h' = total ?h"
    unfolding total_def dom using hc len by (intro sum.cong) auto
  ultimately have "pool_ok (mp\<lparr>mp_heap := ?h'\<rparr>) u" by (rule pool_ok_heap_cong [OF ok])
  moreover have "mp_store mp p off bs = Some (mp\<lparr>mp_heap := ?h'\<rparr>)"
    using c off by (simp add: mp_store_def mem_simps)
  ultimately show ?thesis using c by (auto simp: mp_content_def)
qed

interpretation pool: block_allocator "\<lambda>mp n. allocate n mp" "\<lambda>mp p k. recycle p k mp" mp_store mp_content pool_ok
proof (unfold_locales, goal_cases)
  case (1 mp u n)
  obtain p k mp' where a: "allocate n mp = Some (p, k, mp')" "keeps u mp mp'"
    "if p = 0 then pool_ok mp' u else u p = None \<and> n < k \<and> k \<le> max 1024 (2 * n) \<and> pool_ok mp' (u(p \<mapsto> k))"
    using allocate_ok [OF 1] by blast
  have "if p = 0 then pool_ok mp' u else u p = None \<and> n < k \<and> pool_ok mp' (u(p \<mapsto> k))"
    using a(3) by presburger
  moreover have "\<forall>q\<in>dom u. mp_content mp' q = mp_content mp q"
    using a(2) by (simp only: keeps_def mp_content_def)
  ultimately show ?case using a(1) by blast
next
  case (2 mp u p k)
  obtain mp' where "recycle p k mp = Some (0, mp')" "pool_ok mp' (u(p := None))" "keeps (u(p := None)) mp mp'"
    using recycle_ok [OF 2] by blast
  then show ?case by (simp add: keeps_def mp_content_def)
next
  case (3 mp u p k off bs)
  show ?case by (rule mp_store_ok [OF 3])
next
  case (4 mp u p k)
  show ?case by (rule mp_content_used [OF 4])
qed

lemma mempool_new_ok: "(\<And>p n. length (newbuf p n) = n) \<Longrightarrow> pool_ok (mempool_new newbuf) Map.empty"
  by (simp add: pool_ok_def mempool_new_def heap_ok_def blk_def total_def)

section \<open>Properties\<close>

text \<open>
  C14: For any client that only uses the blocks it holds, the pool is a correct allocator:
  no call faults or aborts (in particular the release loop frees nothing twice and the
  size assertion holds), \<open>recycle\<close> accepts every block that was handed out, the blocks held
  are distinct, each keeps what the client wrote to it, nothing leaks (every allocated block
  is held or in the free list of its size), and the recorded total is exact and never
  exceeds \<open>C\_MAX\_POOL\_SIZE\<close>.
\<close>

theorem mempool_client_run:
  assumes "\<And>p n. length (newbuf p n) = n" and "list_all mem_op_ok ops"
  shows "\<exists>bl mp. mem_run (\<lambda>mp n. allocate n mp) (\<lambda>mp p k. recycle p k mp) mp_store
                   (mempool_new newbuf) [] ops = Some (bl, mp) \<and>
     distinct (map fst bl) \<and> (\<forall>p k bs. (p, k, Some bs) \<in> set bl \<longrightarrow> mp_content mp p = Some bs) \<and>
     pool_ok mp (held bl) \<and> mp_allocated_size mp \<le> C_MAX_POOL_SIZE"
proof -
  have "pool.client_ok (mempool_new newbuf) []"
    using mempool_new_ok [of newbuf, OF assms(1)] by (simp add: pool.client_ok_def held_def)
  from pool.run_law [OF this assms(2)] obtain bl mp where
    r: "mem_run (\<lambda>mp n. allocate n mp) (\<lambda>mp p k. recycle p k mp) mp_store
                   (mempool_new newbuf) [] ops = Some (bl, mp)" "pool.client_ok mp bl" by blast
  then show ?thesis using pool_ok_heap [of mp "held bl"] unfolding pool.client_ok_def by blast
qed

theorem mempool_client_run_witness:
  "\<exists>bl mp. mem_run (\<lambda>mp n. allocate n mp) (\<lambda>mp p k. recycle p k mp) mp_store
                   (mempool_new (\<lambda>p n. replicate n 7)) [] [New 100, New 5000, Store 0 3 [1, 2], Del 1] = Some (bl, mp) \<and>
     distinct (map fst bl) \<and> (\<forall>p k bs. (p, k, Some bs) \<in> set bl \<longrightarrow> mp_content mp p = Some bs) \<and>
     pool_ok mp (held bl) \<and> mp_allocated_size mp \<le> C_MAX_POOL_SIZE"
  by (rule mempool_client_run) simp_all

text \<open>
  \<open>allocate\<close> of less than 2 GB either reports failure with the pool still consistent, or
  hands out a block that nobody holds, of a size larger than the request and at most twice
  it (1024 for small ones); the contents of the blocks in use are untouched either way.
  \<open>fit\_block\_size\<close> is the power of two from 1024 above the request.
\<close>

theorem mempool_allocate_fresh:
  assumes "pool_ok mp used" and "sz < 2 ^ 31"
  shows "\<exists>p bs mp'. allocate sz mp = Some (p, bs, mp') \<and>
     (\<forall>q\<in>dom used. mp_content mp' q = mp_content mp q) \<and>
     (if p = 0 then pool_ok mp' used
      else used p = None \<and> sz < bs \<and> bs \<le> max 1024 (2 * sz) \<and> pool_ok mp' (used(p \<mapsto> bs))) \<and>
     (\<exists>k. fit_block_size sz = Some (2 ^ k) \<and> 10 \<le> k \<and> k \<le> 31 \<and> sz < 2 ^ k)"
proof -
  obtain p bs mp' where a: "allocate sz mp = Some (p, bs, mp')" "keeps used mp mp'"
     "if p = 0 then pool_ok mp' used
      else used p = None \<and> sz < bs \<and> bs \<le> max 1024 (2 * sz) \<and> pool_ok mp' (used(p \<mapsto> bs))"
    using allocate_ok [OF assms] by blast
  moreover have "\<forall>q\<in>dom used. mp_content mp' q = mp_content mp q"
    using a(2) by (simp only: keeps_def mp_content_def)
  ultimately show ?thesis using fit_block_size_spec [OF assms(2)] by blast
qed

theorem mempool_allocate_fresh_witness:
  "let mp = mempool_new (\<lambda>p n. replicate n 7); used = Map.empty
   in \<exists>p bs mp'. allocate 5000 mp = Some (p, bs, mp') \<and>
     (\<forall>q\<in>dom used. mp_content mp' q = mp_content mp q) \<and>
     (if p = 0 then pool_ok mp' used
      else used p = None \<and> 5000 < bs \<and> bs \<le> max 1024 (2 * 5000) \<and> pool_ok mp' (used(p \<mapsto> bs))) \<and>
     (\<exists>k. fit_block_size 5000 = Some (2 ^ k) \<and> 10 \<le> k \<and> k \<le> 31 \<and> 5000 < (2 :: nat) ^ k)"
  unfolding Let_def by (rule mempool_allocate_fresh) (simp_all add: mempool_new_ok)

text \<open>
  \<open>release\<close> deletes blocks but leaves their addresses in the set of known blocks, and
  the destructor deletes every block of those sets: a pool that has ever released a block
  is destroyed with a double \<open>delete\<close>.  One allocation of 64 MB, given back, is enough.
\<close>

theorem mempool_destroy_double_delete:
  "\<exists>mp1 mp2. allocate (2 ^ 26) (mempool_new newbuf) = Some (1, 2 ^ 27, mp1) \<and>
     recycle 1 (2 ^ 27) mp1 = Some (0, mp2) \<and> mp_allocated_size mp2 = 0 \<and>
     h_mem (mp_heap mp2) = Map.empty \<and> mempool_destroy mp2 = None"
proof -
  let ?n = "2 ^ 27 :: nat"
  let ?h = "\<lparr>h_next = 2, h_mem = [1 \<mapsto> newbuf 1 ?n], h_new = newbuf\<rparr>"
  let ?mp = "\<lparr>mp_free = [(?n, [])], mp_stub = [(?n, {1})], mp_allocated_size = ?n,
     mp_water_mark = C_MAX_WATER_MARK, mp_heap = ?h\<rparr>"
  let ?mp2 = "?mp\<lparr>mp_allocated_size := 0, mp_heap := ?h\<lparr>h_mem := Map.empty\<rparr>\<rparr>"
  have "fit_bits 10 65536 = 27" by (simp add: fit_bits.simps)
  then have "fit_block_size (2 ^ 26) = Some ?n" by (simp add: fit_block_size_def Let_def)
  moreover have "extend_new_size ?n (mempool_new newbuf) = Some (0, ?mp\<lparr>mp_free := [(?n, [1])]\<rparr>)"
    by (simp add: extend_new_size_def extend_def mempool_new_def fit_extend_set_def Let_def char_new_def)
  ultimately have "allocate (2 ^ 26) (mempool_new newbuf) = Some (1, ?n, ?mp)"
    by (simp add: allocate_def) (simp add: mempool_new_def)
  moreover have "recycle 1 ?n ?mp = Some (0, ?mp2)"
    by (simp add: recycle_def release_def release_count_def Let_def char_delete_def)
  moreover have "mempool_destroy ?mp2 = None"
    by (simp add: mempool_destroy_def char_delete_def)
  ultimately show ?thesis by (intro exI [of _ ?mp] exI [of _ ?mp2]) simp
qed

end
