(* ===== verification/RawCache.thy ===== *)
theory RawCache
  imports ByteBuffer MemPool
begin

text \<open>
  \<open>CRawCache\<close> (cache.h, cache.cpp): the received and the unsent bytes of a connection, in one
  block of the pool with a head offset and a length.  An append that does not fit behind the
  data moves them to the front of the block or to a larger block; \<open>throw(0)\<close> when the pool
  is out of memory is the value \<open>Inl 0\<close>.
\<close>

section \<open>The cache\<close>

record raw_cache =
  rc_mem :: nat
  rc_block_size :: nat
  rc_data_head :: nat
  rc_data_len :: nat

definition raw_cache_new :: raw_cache where
  "raw_cache_new = \<lparr>rc_mem = 0, rc_block_size = 0, rc_data_head = 0, rc_data_len = 0\<rparr>"

text \<open>The bytes that \<open>data()\<close> points to (none for the null pointer); the check is an assert.\<close>

definition cache_data :: "mempool \<Rightarrow> raw_cache \<Rightarrow> bytes option" where
  "cache_data mp c =
     (if rc_data_len c = 0 then Some []
      else if \<not> rc_data_head c < rc_block_size c then None
      else mp_load mp (rc_mem c) (rc_data_head c) (rc_data_len c))"

definition cache_data_len :: "raw_cache \<Rightarrow> nat" where
  "cache_data_len c = rc_data_len c"

definition cache_append :: "bytes \<Rightarrow> mempool \<Rightarrow> raw_cache \<Rightarrow> ((int + raw_cache) \<times> mempool) option" where
  "cache_append data mp c =
     (let data_len = length data mod 2 ^ 32
      in if rc_mem c = 0
         then do {
           (p, bs, mp1) \<leftarrow> allocate data_len mp;
           if p = 0 then Some (Inl 0, mp1)
           else do {
             mp2 \<leftarrow> mp_store mp1 p 0 (take data_len data);
             Some (Inr \<lparr>rc_mem = p, rc_block_size = bs, rc_data_head = 0, rc_data_len = data_len\<rparr>, mp2)
           }
         }
         else if add32 (add32 data_len (rc_data_head c)) (rc_data_len c) \<le> rc_block_size c
         then do {
           mp1 \<leftarrow> mp_store mp (rc_mem c) (rc_data_head c + rc_data_len c) (take data_len data);
           Some (Inr (c\<lparr>rc_data_len := add32 (rc_data_len c) data_len\<rparr>), mp1)
         }
         else if add32 data_len (rc_data_len c) > rc_block_size c
         then do {
           (p, bs, mp1) \<leftarrow> allocate (add32 data_len (rc_data_len c)) mp;
           if p = 0 then Some (Inl 0, mp1)
           else do {
             old \<leftarrow> mp_load mp1 (rc_mem c) (rc_data_head c) (rc_data_len c);
             mp2 \<leftarrow> mp_store mp1 p 0 old;
             mp3 \<leftarrow> mp_store mp2 p (rc_data_len c) (take data_len data);
             (rc, mp4) \<leftarrow> recycle (rc_mem c) (rc_block_size c) mp3;
             Some (Inr \<lparr>rc_mem = p, rc_block_size = bs, rc_data_head = 0,
                        rc_data_len = add32 (rc_data_len c) data_len\<rparr>, mp4)
           }
         }
         else do {
           old \<leftarrow> mp_load mp (rc_mem c) (rc_data_head c) (rc_data_len c);
           mp1 \<leftarrow> mp_store mp (rc_mem c) 0 old;
           mp2 \<leftarrow> mp_store mp1 (rc_mem c) (rc_data_len c) (take data_len data);
           Some (Inr (c\<lparr>rc_data_head := 0, rc_data_len := add32 (rc_data_len c) data_len\<rparr>), mp2)
         })"

definition cache_skip :: "nat \<Rightarrow> mempool \<Rightarrow> raw_cache \<Rightarrow> (raw_cache \<times> mempool) option" where
  "cache_skip n mp c =
     (if rc_mem c = 0 then Some (c, mp)
      else if n \<ge> rc_data_len c then do {
        (rc, mp') \<leftarrow> recycle (rc_mem c) (rc_block_size c) mp;
        Some (raw_cache_new, mp')
      }
      else Some (c\<lparr>rc_data_head := add32 (rc_data_head c) n, rc_data_len := sub32 (rc_data_len c) n\<rparr>, mp))"

section \<open>What a cache holds\<close>

text \<open>The block of a cache, and the blocks in use: those of others (\<open>R\<close>) and this one.\<close>

definition owns :: "raw_cache \<Rightarrow> nat \<rightharpoonup> nat" where
  "owns c = (if rc_mem c = 0 then Map.empty else [rc_mem c \<mapsto> rc_block_size c])"

definition cache_rep :: "mempool \<Rightarrow> (nat \<rightharpoonup> nat) \<Rightarrow> raw_cache \<Rightarrow> bytes \<Rightarrow> bool" where
  "cache_rep mp R c xs \<longleftrightarrow> pool_ok mp (R ++ owns c) \<and> rc_mem c \<notin> dom R \<and> length xs = rc_data_len c \<and>
     (if rc_mem c = 0 then xs = [] \<and> c = raw_cache_new
      else rc_data_head c + rc_data_len c \<le> rc_block_size c \<and> rc_block_size c \<le> 2 ^ 31 \<and>
        (\<exists>b. mp_content mp (rc_mem c) = Some b \<and> length b = rc_block_size c \<and>
           slice b (rc_data_head c) (rc_data_len c) = xs))"

definition cache_keep :: "(nat \<rightharpoonup> nat) \<Rightarrow> mempool \<Rightarrow> mempool \<Rightarrow> bool" where
  "cache_keep R mp mp' \<longleftrightarrow> (\<forall>q\<in>dom R. mp_content mp' q = mp_content mp q)"

lemma owns_new [simp]: "owns raw_cache_new = Map.empty"
  by (simp add: owns_def raw_cache_new_def)

lemma owns_block: "rc_mem c \<noteq> 0 \<Longrightarrow> R ++ owns c = R(rc_mem c \<mapsto> rc_block_size c)"
  by (simp add: owns_def)

lemma pool_ok_not_0: "pool_ok mp u \<Longrightarrow> u 0 = None"
proof (rule ccontr)
  assume ok: "pool_ok mp u" "u 0 \<noteq> None"
  then obtain k where "u 0 = Some k" by auto
  from pool_ok_used [OF ok(1) this] have "0 \<in> dom (h_mem (mp_heap mp))" by (auto simp: blk_def)
  then show False using pool_ok_heap [OF ok(1)] unfolding heap_ok_def by blast
qed

lemma cache_rep_new: "pool_ok mp R \<Longrightarrow> cache_rep mp R raw_cache_new []"
  using pool_ok_not_0 [of mp R] by (auto simp: cache_rep_def) (auto simp: raw_cache_new_def)

lemma allocate_block:
  assumes "pool_ok mp u" "n < 2 ^ 31"
  shows "\<exists>p k mp'. allocate n mp = Some (p, k, mp') \<and> (\<forall>q\<in>dom u. mp_content mp' q = mp_content mp q) \<and>
    (if p = 0 then pool_ok mp' u else u p = None \<and> n < k \<and> k \<le> 2 ^ 31 \<and> pool_ok mp' (u(p \<mapsto> k)))"
proof -
  obtain p k mp' where a: "allocate n mp = Some (p, k, mp')" "\<forall>q\<in>dom u. mp_content mp' q = mp_content mp q"
    "if p = 0 then pool_ok mp' u else u p = None \<and> n < k \<and> pool_ok mp' (u(p \<mapsto> k))"
    using pool.alloc_law [OF assms] by blast
  have "k \<le> 2 ^ 31" if "p \<noteq> 0"
  proof -
    have "pool_ok mp' (u(p \<mapsto> k))" using a(3) that by simp
    from mp_content_used [OF this, of p k] pool_ok_used [OF this, of p k]
    obtain c where c: "h_mem (mp_heap mp') p = Some c" "length c = k" by (auto simp: mp_content_def)
    have h: "heap_ok (mp_heap mp')" "total (mp_heap mp') \<le> C_MAX_POOL_SIZE"
      using pool_ok_heap [OF \<open>pool_ok mp' (u(p \<mapsto> k))\<close>] by simp_all
    have "length [p] * k \<le> total (mp_heap mp')"
      by (rule blocks_total [OF h(1)]) (use c in \<open>simp_all add: blk_def\<close>)
    then show ?thesis using h(2) by simp
  qed
  then show ?thesis using a by auto
qed

lemma cache_keep_refl: "cache_keep R mp mp"
  by (simp add: cache_keep_def)

lemma cache_keep_trans: "cache_keep R a b \<Longrightarrow> cache_keep R b c \<Longrightarrow> cache_keep R a c"
  by (simp add: cache_keep_def)

lemma cache_keep_store:
  "\<forall>q. q \<noteq> p \<longrightarrow> mp_content mp' q = mp_content mp q \<Longrightarrow> R p = None \<Longrightarrow> cache_keep R mp mp'"
  unfolding cache_keep_def by (metis domIff)

lemma cache_keep_sub:
  "\<forall>q\<in>dom u. mp_content mp' q = mp_content mp q \<Longrightarrow> dom R \<subseteq> dom u \<Longrightarrow> cache_keep R mp mp'"
  unfolding cache_keep_def by blast

lemma cache_append_new:
  assumes rep: "cache_rep mp R c xs" and m: "rc_mem c = 0" and n: "length d < 2 ^ 31"
  shows "\<exists>r mp'. cache_append d mp c = Some (r, mp') \<and> cache_keep R mp mp' \<and>
        (case r of Inl e \<Rightarrow> cache_rep mp' R c xs | Inr c' \<Rightarrow> cache_rep mp' R c' (xs @ d))"
proof -
  have c: "xs = []" "c = raw_cache_new" "pool_ok mp R" "0 \<notin> dom R" using rep m by (auto simp: cache_rep_def)
  obtain p k mp1 where a: "allocate (length d) mp = Some (p, k, mp1)"
    "\<forall>q\<in>dom R. mp_content mp1 q = mp_content mp q"
    "if p = 0 then pool_ok mp1 R else R p = None \<and> length d < k \<and> k \<le> 2 ^ 31 \<and> pool_ok mp1 (R(p \<mapsto> k))"
    using allocate_block [OF c(3) n] by blast
  have dl: "length d mod 2 ^ 32 = length d" using n by simp
  show ?thesis
  proof (cases "p = 0")
    case True
    then have "cache_append d mp c = Some (Inl 0, mp1)"
      using m a(1) by (simp only: cache_append_def dl Let_def) simp
    then show ?thesis using True a c cache_rep_new by (simp add: cache_keep_def)
  next
    case False
    then have ok: "pool_ok mp1 (R(p \<mapsto> k))" "R p = None" "length d < k" "k \<le> 2 ^ 31" using a(3) by simp_all
    obtain mp2 b where s: "mp_store mp1 p 0 d = Some mp2" "pool_ok mp2 (R(p \<mapsto> k))" "length b = k"
      "mp_content mp2 p = Some (overlay b 0 d)" "\<forall>q. q \<noteq> p \<longrightarrow> mp_content mp2 q = mp_content mp1 q"
      using pool.store_law [OF ok(1), of p k 0 d] ok(3) by auto
    let ?c = "\<lparr>rc_mem = p, rc_block_size = k, rc_data_head = 0, rc_data_len = length d\<rparr>"
    have "cache_append d mp c = Some (Inr ?c, mp2)"
      using m a(1) False s(1) by (simp only: cache_append_def dl Let_def) simp
    moreover have "cache_rep mp2 R ?c (xs @ d)"
      using False s(2-4) ok c by (auto simp: cache_rep_def owns_def slice_def overlay_def)
    moreover have "cache_keep R mp mp2"
      using cache_keep_trans [OF cache_keep_sub [where R = R, OF a(2)] cache_keep_store [where R = R, OF s(5) ok(2)]] by blast
    ultimately show ?thesis by simp
  qed
qed

lemma cache_block:
  assumes rep: "cache_rep mp R c xs" and m: "rc_mem c \<noteq> 0"
  shows "\<exists>b. mp_content mp (rc_mem c) = Some b \<and> length b = rc_block_size c \<and>
      slice b (rc_data_head c) (rc_data_len c) = xs"
    and "pool_ok mp (R(rc_mem c \<mapsto> rc_block_size c))" "R (rc_mem c) = None" "length xs = rc_data_len c"
    and "rc_data_head c + rc_data_len c \<le> rc_block_size c" "rc_block_size c \<le> 2 ^ 31"
  using rep m by (auto simp: cache_rep_def owns_block)

lemma cache_repI:
  assumes "pool_ok mp (R(p \<mapsto> k))" "R p = None" "p \<noteq> 0" "k \<le> 2 ^ 31" "h0 + n \<le> k"
    and "mp_content mp p = Some b" "length b = k" "slice b h0 n = xs"
  shows "cache_rep mp R \<lparr>rc_mem = p, rc_block_size = k, rc_data_head = h0, rc_data_len = n\<rparr> xs"
  using assms by (auto simp: cache_rep_def owns_def)

lemma mp_load_content: "mp_content mp p = Some b \<Longrightarrow> off + n \<le> length b \<Longrightarrow> mp_load mp p off n = Some (slice b off n)"
  by (simp add: mp_load_def mem_simps)

lemma slice_overlay_tail:
  assumes "h + n + length d \<le> length b" "slice b h n = xs"
  shows "slice (overlay b (h + n) d) h (n + length d) = xs @ d"
proof -
  have "slice (overlay b (h + n) d) h (n + length d) =
      slice (overlay b (h + n) d) h n @ slice (overlay b (h + n) d) (h + n) (length d)"
    using assms(1) by (intro slice_append) simp
  then show ?thesis using assms slice_overlay_disjoint [of "h + n" d b h n] by simp
qed

lemma slice_overlay_two:
  assumes "length xs + length d \<le> length b"
  shows "slice (overlay (overlay b 0 xs) (length xs) d) 0 (length xs + length d) = xs @ d"
  using assms overlay_join [of "length xs" 0 xs d b] by (simp add: slice_def overlay_def)

lemma cache_append_flat:
  assumes rep: "cache_rep mp R c xs" and m: "rc_mem c \<noteq> 0" and n: "length xs + length d < 2 ^ 31"
    and room: "length d + rc_data_head c + rc_data_len c \<le> rc_block_size c"
  shows "\<exists>c' mp'. cache_append d mp c = Some (Inr c', mp') \<and> cache_keep R mp mp' \<and> cache_rep mp' R c' (xs @ d)"
proof -
  note cb = cache_block [OF rep m]
  obtain b where b: "mp_content mp (rc_mem c) = Some b" "length b = rc_block_size c"
    "slice b (rc_data_head c) (rc_data_len c) = xs" using cb(1) by blast
  have nums: "length d mod 2 ^ 32 = length d"
    "add32 (add32 (length d) (rc_data_head c)) (rc_data_len c) = length d + rc_data_head c + rc_data_len c"
    "add32 (rc_data_len c) (length d) = rc_data_len c + length d"
    using room cb(6) by simp_all
  obtain mp1 where s: "mp_store mp (rc_mem c) (rc_data_head c + rc_data_len c) d = Some mp1"
    "pool_ok mp1 (R(rc_mem c \<mapsto> rc_block_size c))"
    "mp_content mp1 (rc_mem c) = Some (overlay b (rc_data_head c + rc_data_len c) d)"
    "\<forall>q. q \<noteq> rc_mem c \<longrightarrow> mp_content mp1 q = mp_content mp q"
    using pool.store_law [OF cb(2), of "rc_mem c" "rc_block_size c" "rc_data_head c + rc_data_len c" d] room b(1)
    by auto
  let ?c = "c\<lparr>rc_data_len := rc_data_len c + length d\<rparr>"
  have "cache_append d mp c = Some (Inr ?c, mp1)"
    using m s(1) room by (simp only: cache_append_def Let_def nums) simp
  moreover have "cache_rep mp1 R ?c (xs @ d)"
    using cache_repI [where R = R, OF s(2) cb(3) m cb(6) _ s(3), of "rc_data_head c" "rc_data_len c + length d" "xs @ d"]
      slice_overlay_tail [OF _ b(3), of d] room b(2) by (cases c) (simp add: ac_simps)
  ultimately show ?thesis using cache_keep_store [where R = R, OF s(4) cb(3)] by blast
qed

lemma cache_append_move:
  assumes rep: "cache_rep mp R c xs" and m: "rc_mem c \<noteq> 0" and n: "length xs + length d < 2 ^ 31"
    and room: "\<not> length d + rc_data_head c + rc_data_len c \<le> rc_block_size c"
      "length d + rc_data_len c \<le> rc_block_size c"
  shows "\<exists>c' mp'. cache_append d mp c = Some (Inr c', mp') \<and> cache_keep R mp mp' \<and> cache_rep mp' R c' (xs @ d)"
proof -
  note cb = cache_block [OF rep m]
  obtain b where b: "mp_content mp (rc_mem c) = Some b" "length b = rc_block_size c"
    "slice b (rc_data_head c) (rc_data_len c) = xs" using cb(1) by blast
  have nums: "length d mod 2 ^ 32 = length d"
    "add32 (add32 (length d) (rc_data_head c)) (rc_data_len c) = length d + rc_data_head c + rc_data_len c"
    "add32 (length d) (rc_data_len c) = length d + rc_data_len c"
    "add32 (rc_data_len c) (length d) = rc_data_len c + length d"
    using room(2) cb(4,5,6) n by simp_all
  have ld: "mp_load mp (rc_mem c) (rc_data_head c) (rc_data_len c) = Some xs"
    using mp_load_content [OF b(1), of "rc_data_head c" "rc_data_len c"] b(2,3) cb(5) by simp
  obtain mp1 where s1: "mp_store mp (rc_mem c) 0 xs = Some mp1" "pool_ok mp1 (R(rc_mem c \<mapsto> rc_block_size c))"
    "mp_content mp1 (rc_mem c) = Some (overlay b 0 xs)"
    "\<forall>q. q \<noteq> rc_mem c \<longrightarrow> mp_content mp1 q = mp_content mp q"
    using pool.store_law [OF cb(2), of "rc_mem c" "rc_block_size c" 0 xs] cb(4,5) b(1) by auto
  have le: "rc_data_len c + length d \<le> rc_block_size c" using room(2) by linarith
  obtain mp2 where s2: "mp_store mp1 (rc_mem c) (rc_data_len c) d = Some mp2"
    "pool_ok mp2 (R(rc_mem c \<mapsto> rc_block_size c))"
    "mp_content mp2 (rc_mem c) = Some (overlay (overlay b 0 xs) (rc_data_len c) d)"
    "\<forall>q. q \<noteq> rc_mem c \<longrightarrow> mp_content mp2 q = mp_content mp1 q"
    using pool.store_law [OF s1(2), of "rc_mem c" "rc_block_size c" "rc_data_len c" d] le s1(3) by auto
  let ?c = "c\<lparr>rc_data_head := 0, rc_data_len := rc_data_len c + length d\<rparr>"
  have "cache_append d mp c = Some (Inr ?c, mp2)"
    using m s1(1) s2(1) room ld by (simp only: cache_append_def Let_def nums) simp
  moreover have "cache_rep mp2 R ?c (xs @ d)"
    using cache_repI [where R = R, OF s2(2) cb(3) m cb(6) _ s2(3), of 0 "rc_data_len c + length d" "xs @ d"]
      slice_overlay_two [of xs d b] room(2) b(2) cb(4) by (cases c) (simp add: ac_simps)
  ultimately show ?thesis
    using cache_keep_trans [OF cache_keep_store [where R = R, OF s1(4) cb(3)] cache_keep_store [where R = R, OF s2(4) cb(3)]] by blast
qed

lemma cache_append_grow:
  assumes rep: "cache_rep mp R c xs" and m: "rc_mem c \<noteq> 0" and n: "length xs + length d < 2 ^ 31"
    and room: "\<not> length d + rc_data_len c \<le> rc_block_size c"
  shows "\<exists>r mp'. cache_append d mp c = Some (r, mp') \<and> cache_keep R mp mp' \<and>
        (case r of Inl e \<Rightarrow> cache_rep mp' R c xs | Inr c' \<Rightarrow> cache_rep mp' R c' (xs @ d))"
proof -
  note cb = cache_block [OF rep m]
  let ?old = "rc_mem c" and ?k = "rc_block_size c"
  obtain b where b: "mp_content mp ?old = Some b" "length b = ?k"
    "slice b (rc_data_head c) (rc_data_len c) = xs" using cb(1) by blast
  have nums: "length d mod 2 ^ 32 = length d"
    "add32 (add32 (length d) (rc_data_head c)) (rc_data_len c) = length d + rc_data_head c + rc_data_len c"
    "add32 (length d) (rc_data_len c) = length d + rc_data_len c"
    "add32 (rc_data_len c) (length d) = rc_data_len c + length d"
    using cb(4,5,6) n by simp_all
  have nb: "\<not> length d + rc_data_head c + rc_data_len c \<le> ?k" using room by simp
  obtain p k mp1 where a: "allocate (length d + rc_data_len c) mp = Some (p, k, mp1)"
    "\<forall>q\<in>dom (R(?old \<mapsto> ?k)). mp_content mp1 q = mp_content mp q"
    "if p = 0 then pool_ok mp1 (R(?old \<mapsto> ?k))
     else (R(?old \<mapsto> ?k)) p = None \<and> length d + rc_data_len c < k \<and> k \<le> 2 ^ 31 \<and>
       pool_ok mp1 (R(?old \<mapsto> ?k, p \<mapsto> k))"
    using allocate_block [OF cb(2), of "length d + rc_data_len c"] n cb(4) by auto
  have b1: "mp_content mp1 ?old = Some b" using a(2) b(1) by simp
  have keep1: "cache_keep R mp mp1" by (rule cache_keep_sub [where R = R, OF a(2)]) auto
  show ?thesis
  proof (cases "p = 0")
    case True
    then have "cache_append d mp c = Some (Inl 0, mp1)"
      using m a(1) room nb by (simp only: cache_append_def Let_def nums) simp
    moreover have "cache_rep mp1 R c xs"
      using cache_repI [where R = R, OF _ cb(3) m cb(6) cb(5) b1 b(2,3)] a(3) True by (cases c) simp
    ultimately show ?thesis using keep1 by simp
  next
    case False
    then have ok: "pool_ok mp1 (R(?old \<mapsto> ?k, p \<mapsto> k))" "R p = None" "p \<noteq> ?old"
      "length d + rc_data_len c < k" "k \<le> 2 ^ 31" using a(3) by (auto split: if_splits)
    have ld: "mp_load mp1 ?old (rc_data_head c) (rc_data_len c) = Some xs"
      using mp_load_content [OF b1, of "rc_data_head c" "rc_data_len c"] b(2,3) cb(5) by simp
    obtain mp2 b2 where s1: "mp_store mp1 p 0 xs = Some mp2" "pool_ok mp2 (R(?old \<mapsto> ?k, p \<mapsto> k))" "length b2 = k"
      "mp_content mp2 p = Some (overlay b2 0 xs)" "\<forall>q. q \<noteq> p \<longrightarrow> mp_content mp2 q = mp_content mp1 q"
      using pool.store_law [OF ok(1), of p k 0 xs] ok(4) cb(4) by auto
    obtain mp3 where s2: "mp_store mp2 p (rc_data_len c) d = Some mp3" "pool_ok mp3 (R(?old \<mapsto> ?k, p \<mapsto> k))"
      "mp_content mp3 p = Some (overlay (overlay b2 0 xs) (rc_data_len c) d)"
      "\<forall>q. q \<noteq> p \<longrightarrow> mp_content mp3 q = mp_content mp2 q"
      using pool.store_law [OF s1(2), of p k "rc_data_len c" d] ok(4) s1(4) by auto
    have "(R(?old \<mapsto> ?k, p \<mapsto> k)) ?old = Some ?k" using ok(3) by simp
    from pool.free_law [OF s2(2) this] obtain mp4 where f: "recycle ?old ?k mp3 = Some (0, mp4)"
      "pool_ok mp4 ((R(?old \<mapsto> ?k, p \<mapsto> k))(?old := None))"
      "\<forall>q\<in>dom (R(?old \<mapsto> ?k, p \<mapsto> k)) - {?old}. mp_content mp4 q = mp_content mp3 q" by blast
    have u: "(R(?old \<mapsto> ?k, p \<mapsto> k))(?old := None) = R(p \<mapsto> k)"
      using cb(3) ok(3) by (auto simp: fun_eq_iff)
    have c4: "mp_content mp4 p = Some (overlay (overlay b2 0 xs) (rc_data_len c) d)"
      using f(3) s2(3) ok(3) by simp
    let ?c = "\<lparr>rc_mem = p, rc_block_size = k, rc_data_head = 0, rc_data_len = rc_data_len c + length d\<rparr>"
    have "cache_append d mp c = Some (Inr ?c, mp4)"
      using m a(1) False room nb ld s1(1) s2(1) f(1)
      by (simp only: cache_append_def Let_def nums) simp
    moreover have "cache_rep mp4 R ?c (xs @ d)"
      using f(2) ok(2,4,5) c4 s1(3) cb(4) slice_overlay_two [of xs d b2] False
      unfolding u by (intro cache_repI) (auto simp: ac_simps)
    moreover have "cache_keep R mp3 mp4"
      using f(3) cb(3) by (intro cache_keep_sub [of "(R(p \<mapsto> k))(?old := None)"]) auto
    then have "cache_keep R mp mp4"
      using cache_keep_trans [OF keep1 cache_keep_trans [OF cache_keep_store [where R = R, OF s1(5) ok(2)]
          cache_keep_trans [OF cache_keep_store [where R = R, OF s2(4) ok(2)]]]] by blast
    ultimately show ?thesis by simp
  qed
qed

lemma cache_append_ok:
  assumes rep: "cache_rep mp R c xs" and n: "length xs + length d < 2 ^ 31"
  shows "\<exists>r mp'. cache_append d mp c = Some (r, mp') \<and> cache_keep R mp mp' \<and>
        (case r of Inl e \<Rightarrow> cache_rep mp' R c xs | Inr c' \<Rightarrow> cache_rep mp' R c' (xs @ d))"
proof -
  consider (new) "rc_mem c = 0"
    | (flat) "rc_mem c \<noteq> 0" "length d + rc_data_head c + rc_data_len c \<le> rc_block_size c"
    | (move) "rc_mem c \<noteq> 0" "\<not> length d + rc_data_head c + rc_data_len c \<le> rc_block_size c"
        "length d + rc_data_len c \<le> rc_block_size c"
    | (grow) "rc_mem c \<noteq> 0" "\<not> length d + rc_data_len c \<le> rc_block_size c" by blast
  then show ?thesis
  proof cases
    case new
    then show ?thesis using cache_append_new [OF rep] n by simp
  next
    case flat
    then show ?thesis using cache_append_flat [OF rep _ n] by fastforce
  next
    case move
    then show ?thesis using cache_append_move [OF rep _ n] by fastforce
  next
    case grow
    then show ?thesis using cache_append_grow [OF rep _ n] by simp
  qed
qed

lemma cache_skip_ok:
  assumes rep: "cache_rep mp R c xs"
  shows "\<exists>c' mp'. cache_skip n mp c = Some (c', mp') \<and> cache_keep R mp mp' \<and> cache_rep mp' R c' (drop n xs)"
proof (cases "rc_mem c = 0")
  case True
  then have "xs = []" using rep by (simp add: cache_rep_def)
  then show ?thesis using True rep cache_keep_refl by (simp add: cache_skip_def)
next
  case m: False
  note cb = cache_block [OF rep m]
  show ?thesis
  proof (cases "n \<ge> rc_data_len c")
    case True
    obtain mp' where f: "recycle (rc_mem c) (rc_block_size c) mp = Some (0, mp')"
      "pool_ok mp' ((R(rc_mem c \<mapsto> rc_block_size c))(rc_mem c := None))"
      "\<forall>q\<in>dom (R(rc_mem c \<mapsto> rc_block_size c)) - {rc_mem c}. mp_content mp' q = mp_content mp q"
      using pool.free_law [OF cb(2), of "rc_mem c"] by auto
    have u: "(R(rc_mem c \<mapsto> rc_block_size c))(rc_mem c := None) = R"
      using cb(3) by (auto simp: fun_eq_iff)
    have "cache_skip n mp c = Some (raw_cache_new, mp')" using m True f(1) by (simp add: cache_skip_def)
    moreover have "cache_rep mp' R raw_cache_new (drop n xs)"
      using cache_rep_new f(2) True cb(4) unfolding u by simp
    moreover have "cache_keep R mp mp'" using f(3) cb(3) unfolding cache_keep_def by auto
    ultimately show ?thesis by blast
  next
    case False
    obtain b where b: "mp_content mp (rc_mem c) = Some b" "length b = rc_block_size c"
      "slice b (rc_data_head c) (rc_data_len c) = xs" using cb(1) by blast
    have "rc_data_head c + n < 2 ^ 32" using False cb(5,6) by simp
    then have nums: "add32 (rc_data_head c) n = rc_data_head c + n" "sub32 (rc_data_len c) n = rc_data_len c - n"
      using False cb(5,6) by simp_all
    let ?c = "c\<lparr>rc_data_head := rc_data_head c + n, rc_data_len := rc_data_len c - n\<rparr>"
    have "slice b (rc_data_head c + n) (rc_data_len c - n) = drop n xs"
      using b(3) by (auto simp: slice_def drop_take add.commute)
    then have "cache_rep mp R ?c (drop n xs)"
      using cache_repI [where R = R, OF cb(2,3) m cb(6) _ b(1,2), of "rc_data_head c + n" "rc_data_len c - n"]
        False cb(5) by (cases c) simp
    moreover have "cache_skip n mp c = Some (?c, mp)" using m False nums by (simp add: cache_skip_def)
    ultimately show ?thesis using cache_keep_refl by blast
  qed
qed

lemma cache_data_ok:
  assumes rep: "cache_rep mp R c xs"
  shows "cache_data mp c = Some xs" "cache_data_len c = length xs"
proof -
  show "cache_data_len c = length xs" using rep by (simp add: cache_rep_def cache_data_len_def)
  show "cache_data mp c = Some xs"
  proof (cases "rc_data_len c = 0")
    case True
    then show ?thesis using rep by (simp add: cache_data_def cache_rep_def)
  next
    case False
    then have m: "rc_mem c \<noteq> 0" using rep by (auto simp: cache_rep_def)
    note cb = cache_block [OF rep m]
    obtain b where b: "mp_content mp (rc_mem c) = Some b" "length b = rc_block_size c"
      "slice b (rc_data_head c) (rc_data_len c) = xs" using cb(1) by blast
    then show ?thesis
      using False cb(5) mp_load_content [OF b(1), of "rc_data_head c" "rc_data_len c"]
      by (simp add: cache_data_def)
  qed
qed

interpretation cache: byte_buffer cache_append cache_skip cache_data cache_rep cache_keep
proof (unfold_locales, goal_cases)
  case (1 h R c xs d)
  then show ?case by (rule cache_append_ok)
next
  case (2 h R c xs n)
  show ?case by (rule cache_skip_ok [OF 2(1)])
next
  case (3 h R c xs)
  show ?case by (rule cache_data_ok [OF 3(1)])
next
  case (4 R h)
  show ?case by (rule cache_keep_refl)
next
  case (5 R h h1 h2)
  then show ?case by (rule cache_keep_trans)
qed

section \<open>Properties\<close>

text \<open>
  C16: A cache is a byte queue.  Whatever the sequence of \<open>append\<close> and \<open>skip\<close> calls, no
  access leaves a block and no assert fails; the data are what was appended (by the calls
  that did not throw) minus what was skipped, in order, through every move and every growth
  of the block; the blocks of the other caches are not touched, and the pool stays
  consistent, so no block is lost or freed twice.
\<close>

theorem raw_cache_byte_queue:
  assumes "cache_rep mp R c xs" and "length xs + appended ops < 2 ^ 31"
  shows "\<exists>dn c' mp'. buf_run cache_append cache_skip mp c ops = Some (dn, c', mp') \<and>
     cache_data mp' c' = Some (buf_spec xs dn) \<and> cache_data_len c' = length (buf_spec xs dn) \<and>
     cache_rep mp' R c' (buf_spec xs dn) \<and> (\<forall>q\<in>dom R. mp_content mp' q = mp_content mp q)"
proof -
  obtain dn c' mp' where r: "buf_run cache_append cache_skip mp c ops = Some (dn, c', mp')"
    "cache_keep R mp mp'" "cache_rep mp' R c' (buf_spec xs dn)"
    using cache.run_law [OF assms] by blast
  then show ?thesis using cache_data_ok [OF r(3)] unfolding cache_keep_def by blast
qed

theorem raw_cache_byte_queue_witness:
  "let mp = mempool_new (\<lambda>p n. replicate n 7); ops = [App [1, 2, 3], Skip 2, App [4, 5], Skip 9]
   in \<exists>dn c' mp'. buf_run cache_append cache_skip mp raw_cache_new ops = Some (dn, c', mp') \<and>
     cache_data mp' c' = Some (buf_spec [] dn) \<and> cache_data_len c' = length (buf_spec [] dn) \<and>
     cache_rep mp' Map.empty c' (buf_spec [] dn) \<and>
     (\<forall>q\<in>dom (Map.empty :: nat \<rightharpoonup> nat). mp_content mp' q = mp_content mp q)"
  unfolding Let_def
  by (rule raw_cache_byte_queue [OF cache_rep_new]) (simp_all add: mempool_new_ok)

end
