(* ===== verification/ConnSet.thy ===== *)
theory ConnSet
  imports RawCache "HOL-Library.Sublist"
begin

text \<open>
  The connection table \<open>CConnSet\<close> (connset.h, connset.cpp): a fixed array of connections,
  indexed by the flow number modulo its size, each with a cache of received and a cache of
  unsent bytes in the shared pool.  The socket calls enter as what the kernel returns (the
  byte count and \<open>errno\<close>); what it takes from a buffer is an output of the operation.
  \<open>Inl\<close> is the exception that \<open>CRawCache::append\<close> throws.
\<close>

section \<open>The table\<close>

record conn_cache =
  cc_flow :: nat
  cc_fd :: int
  cc_access :: int
  cc_type :: nat
  cc_r :: raw_cache
  cc_w :: raw_cache

record conn_set =
  ccs :: "conn_cache list"
  maxconn :: nat
  curconn :: int

abbreviation UDP_SOCKET :: nat where "UDP_SOCKET \<equiv> 2"
abbreviation E_NEED_CLOSE :: int where "E_NEED_CLOSE \<equiv> 10000"
abbreviation E_NOT_FINDFD :: int where "E_NOT_FINDFD \<equiv> 20000"
abbreviation C_NEED_SEND :: int where "C_NEED_SEND \<equiv> 30000"
abbreviation EINTR :: int where "EINTR \<equiv> 4"
abbreviation EAGAIN :: int where "EAGAIN \<equiv> 11"
abbreviation EINPROGRESS :: int where "EINPROGRESS \<equiv> 115"
abbreviation C_READ_BUFFER_SIZE :: nat where "C_READ_BUFFER_SIZE \<equiv> 65536"

definition conn_new :: conn_cache where
  "conn_new = \<lparr>cc_flow = 0, cc_fd = 0, cc_access = 0, cc_type = 0, cc_r = raw_cache_new, cc_w = raw_cache_new\<rparr>"

definition conn_set_new :: "nat \<Rightarrow> conn_set" where
  "conn_set_new n = \<lparr>ccs = replicate n conn_new, maxconn = n, curconn = 0\<rparr>"

text \<open>The slot of a flow (division by zero for an empty table).\<close>

definition getcc :: "conn_set \<Rightarrow> nat \<Rightarrow> conn_cache option" where
  "getcc cs flow = (if flow mod maxconn cs < length (ccs cs) then Some (ccs cs ! (flow mod maxconn cs)) else None)"

definition setcc :: "conn_set \<Rightarrow> nat \<Rightarrow> conn_cache \<Rightarrow> conn_set" where
  "setcc cs flow cc = cs\<lparr>ccs := (ccs cs)[flow mod maxconn cs := cc]\<rparr>"

section \<open>Adding a connection\<close>

text \<open>
  The search for a free slot: \<open>flow\<close> is incremented (with wrap-around) until the slot is
  free or the end is reached; the result is the flow and whether the search was left early.
\<close>

function find_slot :: "conn_set \<Rightarrow> nat \<Rightarrow> nat \<Rightarrow> (nat \<times> bool) option" where
  "find_slot cs flow endflow =
     (let f = add32 flow 1
      in if f = endflow mod 2 ^ 32 then Some (f, False)
         else (case getcc cs f of None \<Rightarrow> None
               | Some cc \<Rightarrow> if cc_flow cc = 0 then Some (f, True) else find_slot cs f endflow))"
  by pat_completeness auto
termination
proof (relation "measure (\<lambda>(cs, flow, e). nat ((int e - int flow - 1) mod 2 ^ 32))")
  fix cs flow endflow f and cc :: conn_cache
  assume f: "f = add32 flow 1" and ne: "f \<noteq> endflow mod 2 ^ 32"
  let ?d = "int endflow - int flow - 1"
  have "int f = (int flow + 1) mod 2 ^ 32" by (simp add: f add32_def zmod_int add.commute)
  then have m: "(int endflow - int f - 1) mod 2 ^ 32 = (?d - 1) mod 2 ^ 32"
    using mod_diff_right_eq [of "int endflow - 1" "int flow + 1" "2 ^ 32"] by (simp add: algebra_simps)
  have "?d mod 2 ^ 32 \<noteq> 0"
  proof
    assume "?d mod 2 ^ 32 = 0"
    then have "(?d + (int flow + 1)) mod 2 ^ 32 = (int flow + 1) mod 2 ^ 32"
      by (metis add.left_neutral mod_add_left_eq)
    then have "int endflow mod 2 ^ 32 = int f" using \<open>int f = _\<close> by simp
    then have "int (endflow mod 2 ^ 32) = int f" by (simp add: zmod_int)
    with ne show False by simp
  qed
  moreover have b: "0 \<le> ?d mod 2 ^ 32" "?d mod 2 ^ 32 < 2 ^ 32" by simp_all
  ultimately have "0 < ?d mod 2 ^ 32" by linarith
  have "(?d - 1) mod 2 ^ 32 = (?d mod 2 ^ 32 - 1) mod 2 ^ 32" by (rule mod_diff_left_eq [symmetric])
  also have "\<dots> = ?d mod 2 ^ 32 - 1"
    using \<open>0 < ?d mod 2 ^ 32\<close> b(2) by (intro mod_pos_pos_trivial) linarith+
  finally have "(?d - 1) mod 2 ^ 32 = ?d mod 2 ^ 32 - 1" .
  then show "((cs, f, endflow), cs, flow, endflow) \<in> measure (\<lambda>(cs, flow, e). nat ((int e - int flow - 1) mod 2 ^ 32))"
    using m \<open>0 < ?d mod 2 ^ 32\<close> by simp
qed simp

declare find_slot.simps [simp del]

definition conn_addconn :: "int \<Rightarrow> nat \<Rightarrow> int \<Rightarrow> nat \<Rightarrow> conn_set \<Rightarrow> (int \<times> nat \<times> conn_set) option" where
  "conn_addconn now flow fd ty cs = do {
     cc \<leftarrow> getcc cs flow;
     (f, found) \<leftarrow> (if cc_flow cc > 0 then find_slot cs flow (add32 flow (maxconn cs)) else Some (flow, True));
     if \<not> found then Some (-1, f, cs)
     else do {
       cc' \<leftarrow> getcc cs f;
       Some (0, f, (setcc cs f (cc'\<lparr>cc_flow := f, cc_fd := fd, cc_access := now, cc_type := ty\<rparr>))
                     \<lparr>curconn := curconn cs + 1\<rparr>)
     }
   }"

definition conn_fd :: "nat \<Rightarrow> conn_set \<Rightarrow> int option" where
  "conn_fd flow cs = do { cc \<leftarrow> getcc cs flow; Some (if flow \<noteq> 0 \<and> cc_flow cc = flow then cc_fd cc else -1) }"

section \<open>Receiving and sending\<close>

text \<open>\<open>CSocket::receive\<close> and \<open>CSocket::send\<close> from the byte count and \<open>errno\<close> of the call.\<close>

definition sock_receive :: "int \<Rightarrow> int \<Rightarrow> int \<times> nat" where
  "sock_receive bytes errno = (if bytes < 0 then (if errno \<noteq> 0 then - errno else bytes, 0) else (0, nat bytes))"

definition sock_send :: "int \<Rightarrow> int \<Rightarrow> nat \<Rightarrow> int \<times> nat" where
  "sock_send bytes errno sent_len =
     (if bytes < 0 then (if errno \<noteq> 0 then - errno else bytes, sent_len) else (0, nat bytes))"

text \<open>\<open>buf\<close> is \<open>RecvBuffer\<close> after the call.\<close>

definition conn_recv ::
  "int \<Rightarrow> int \<Rightarrow> int \<Rightarrow> bytes \<Rightarrow> nat \<Rightarrow> mempool \<Rightarrow> conn_set \<Rightarrow> ((int + int) \<times> mempool \<times> conn_set) option" where
  "conn_recv now bytes errno buf flow mp cs = do {
     cc \<leftarrow> getcc cs flow;
     if cc_flow cc \<noteq> flow \<or> flow = 0 then Some (Inr (- E_NOT_FINDFD), mp, cs)
     else do {
       let cc1 = cc\<lparr>cc_access := now\<rparr>;
       let (ret, recvd_len) = sock_receive bytes errno;
       if ret = 0 \<and> recvd_len > 0
       then do {
         d \<leftarrow> memrd buf 0 recvd_len;
         (r, mp1) \<leftarrow> cache_append d mp (cc_r cc1);
         (case r of Inl e \<Rightarrow> Some (Inl e, mp1, setcc cs flow cc1)
          | Inr c \<Rightarrow> Some (Inr (int recvd_len), mp1, setcc cs flow (cc1\<lparr>cc_r := c\<rparr>)))
       }
       else Some (Inr (if cc_type cc \<noteq> UDP_SOCKET \<and> ret \<noteq> 0 \<and> ret = - EAGAIN then - EAGAIN else - E_NEED_CLOSE),
                  mp, setcc cs flow cc1)
     }
   }"

definition conn_send ::
  "int \<Rightarrow> int \<times> int \<Rightarrow> int \<times> int \<Rightarrow> nat \<Rightarrow> bytes \<Rightarrow> mempool \<Rightarrow> conn_set \<Rightarrow>
   ((int + int) \<times> bytes \<times> mempool \<times> conn_set) option" where
  "conn_send now s1 s2 flow data mp cs = do {
     cc \<leftarrow> getcc cs flow;
     if cc_flow cc \<noteq> flow \<or> flow = 0 then Some (Inr (- E_NOT_FINDFD), [], mp, cs)
     else do {
       let cc1 = cc\<lparr>cc_access := now\<rparr>;
       w \<leftarrow> cache_data mp (cc_w cc1);
       let (ret, sent_len) = (if cache_data_len (cc_w cc1) \<noteq> 0 then sock_send (fst s1) (snd s1) 0 else (0, 0));
       if cache_data_len (cc_w cc1) \<noteq> 0 \<and>
          (ret = - EAGAIN \<or> ret = - EINPROGRESS \<or> ret = - EINTR \<or>
           (ret = 0 \<and> sent_len < cache_data_len (cc_w cc1)))
       then do {
         (c1, mp1) \<leftarrow> cache_skip sent_len mp (cc_w cc1);
         (r, mp2) \<leftarrow> cache_append data mp1 c1;
         (case r of Inl e \<Rightarrow> Some (Inl e, take sent_len w, mp2, setcc cs flow (cc1\<lparr>cc_w := c1\<rparr>))
          | Inr c2 \<Rightarrow> Some (Inr 0, take sent_len w, mp2, setcc cs flow (cc1\<lparr>cc_w := c2\<rparr>)))
       }
       else if cache_data_len (cc_w cc1) \<noteq> 0 \<and> ret < 0
       then Some (Inr (- E_NEED_CLOSE), [], mp, setcc cs flow cc1)
       else do {
         let out1 = take sent_len w;
         (c1, mp1) \<leftarrow> cache_skip (cache_data_len (cc_w cc1)) mp (cc_w cc1);
         let cc2 = cc1\<lparr>cc_w := c1\<rparr>;
         let (ret2, sent2) = sock_send (fst s2) (snd s2) 0;
         let out = out1 @ take sent2 data;
         if ret2 < 0 \<and> ret2 \<noteq> - EAGAIN \<and> ret2 \<noteq> - EINPROGRESS \<and> ret2 \<noteq> - EINTR
         then Some (Inr (- E_NEED_CLOSE), out, mp1, setcc cs flow cc2)
         else if sent2 < length data
         then do {
           (r, mp2) \<leftarrow> cache_append (drop sent2 data) mp1 c1;
           (case r of Inl e \<Rightarrow> Some (Inl e, out, mp2, setcc cs flow cc2)
            | Inr c2 \<Rightarrow> Some (Inr (int sent2), out, mp2, setcc cs flow (cc2\<lparr>cc_w := c2\<rparr>)))
         }
         else Some (Inr (int sent2), out, mp1, setcc cs flow cc2)
       }
     }
   }"

definition conn_sendfromcache ::
  "int \<Rightarrow> int \<times> int \<Rightarrow> nat \<Rightarrow> mempool \<Rightarrow> conn_set \<Rightarrow> (int \<times> bytes \<times> mempool \<times> conn_set) option" where
  "conn_sendfromcache now s1 flow mp cs = do {
     cc \<leftarrow> getcc cs flow;
     if cc_flow cc \<noteq> flow \<or> flow = 0 then Some (- E_NOT_FINDFD, [], mp, cs)
     else do {
       let cc1 = cc\<lparr>cc_access := now\<rparr>;
       if cache_data_len (cc_w cc1) = 0 then Some (0, [], mp, setcc cs flow cc1)
       else do {
         w \<leftarrow> cache_data mp (cc_w cc1);
         let (ret, sent_len) = sock_send (fst s1) (snd s1) 0;
         if ret = 0
         then if sent_len = 0 then Some (C_NEED_SEND, [], mp, setcc cs flow cc1)
              else do {
                (c1, mp1) \<leftarrow> cache_skip sent_len mp (cc_w cc1);
                Some (if sent_len = cache_data_len (cc_w cc1) then 0 else int sent_len,
                      take sent_len w, mp1, setcc cs flow (cc1\<lparr>cc_w := c1\<rparr>))
              }
         else if ret = - EAGAIN then Some (C_NEED_SEND, [], mp, setcc cs flow cc1)
         else Some (- E_NEED_CLOSE, [], mp, setcc cs flow cc1)
       }
     }
   }"

section \<open>Closing\<close>

text \<open>The third component: whether the descriptor was closed.\<close>

definition conn_close :: "nat \<Rightarrow> mempool \<Rightarrow> conn_set \<Rightarrow> (int \<times> bool \<times> mempool \<times> conn_set) option" where
  "conn_close flow mp cs = do {
     cc \<leftarrow> getcc cs flow;
     if cc_flow cc = flow \<and> flow \<noteq> 0
     then do {
       (r, mp1) \<leftarrow> cache_skip (cache_data_len (cc_r cc)) mp (cc_r cc);
       (w, mp2) \<leftarrow> cache_skip (cache_data_len (cc_w cc)) mp1 (cc_w cc);
       Some (0, cc_type cc \<noteq> UDP_SOCKET, mp2,
             (setcc cs flow (cc\<lparr>cc_flow := 0, cc_access := 0, cc_type := 0, cc_r := r, cc_w := w\<rparr>))
               \<lparr>curconn := curconn cs - 1\<rparr>)
     }
     else Some (- E_NOT_FINDFD, False, mp, cs)
   }"

definition conn_check_expire :: "int \<Rightarrow> conn_set \<Rightarrow> nat list" where
  "conn_check_expire access_deadline cs =
     map cc_flow (filter (\<lambda>cc. cc_flow cc > 0 \<and> cc_access cc < access_deadline) (ccs cs))"

definition conn_canclose :: "nat \<Rightarrow> conn_set \<Rightarrow> int option" where
  "conn_canclose flow cs = do {
     cc \<leftarrow> getcc cs flow;
     Some (if cc_flow cc = 0 then 1
           else if cc_flow cc = flow then (if cache_data_len (cc_w cc) > 0 then 0 else 1)
           else 0)
   }"

section \<open>The table as a map from flows\<close>

definition conns_ok :: "conn_set \<Rightarrow> bool" where
  "conns_ok cs \<longleftrightarrow> length (ccs cs) = maxconn cs \<and> 0 < maxconn cs \<and> maxconn cs < 2 ^ 31 \<and>
     (\<forall>i<maxconn cs. cc_flow (ccs cs ! i) \<noteq> 0 \<longrightarrow>
        cc_flow (ccs cs ! i) mod maxconn cs = i \<and> cc_flow (ccs cs ! i) < 2 ^ 32) \<and>
     curconn cs = int (length (filter (\<lambda>cc. cc_flow cc \<noteq> 0) (ccs cs)))"

text \<open>The connection that a flow number denotes.\<close>

definition conn_of :: "conn_set \<Rightarrow> nat \<rightharpoonup> conn_cache" where
  "conn_of cs flow =
     (let cc = ccs cs ! (flow mod maxconn cs) in if flow \<noteq> 0 \<and> cc_flow cc = flow then Some cc else None)"

lemma getcc_ok: "conns_ok cs \<Longrightarrow> getcc cs flow = Some (ccs cs ! (flow mod maxconn cs))"
  by (simp add: getcc_def conns_ok_def)

lemma conn_fd_map: "conns_ok cs \<Longrightarrow> conn_fd flow cs = Some (case conn_of cs flow of None \<Rightarrow> -1 | Some cc \<Rightarrow> cc_fd cc)"
  by (simp add: conn_fd_def getcc_ok conn_of_def Let_def)

lemma conns_ok_new: "0 < n \<Longrightarrow> n < 2 ^ 31 \<Longrightarrow> conns_ok (conn_set_new n)"
  by (simp add: conns_ok_def conn_set_new_def conn_new_def)

lemma count_update:
  assumes "i < length xs"
  shows "int (length (filter P (xs[i := x]))) =
     int (length (filter P xs)) - (if P (xs ! i) then 1 else 0) + (if P x then 1 else 0)"
  using assms
proof (induction xs arbitrary: i)
  case (Cons a xs)
  show ?case
  proof (cases i)
    case (Suc j)
    then show ?thesis using Cons.IH [of j] Cons.prems by auto
  qed auto
qed simp

lemma conns_ok_set:
  assumes ok: "conns_ok cs" and new: "cc_flow cc \<noteq> 0 \<longrightarrow> cc_flow cc mod maxconn cs = flow mod maxconn cs \<and> cc_flow cc < 2 ^ 32"
    and n: "n = curconn cs - (if cc_flow (ccs cs ! (flow mod maxconn cs)) \<noteq> 0 then 1 else 0)
                + (if cc_flow cc \<noteq> 0 then 1 else 0)"
  shows "conns_ok ((setcc cs flow cc)\<lparr>curconn := n\<rparr>)"
  using assms count_update [of "flow mod maxconn cs" "ccs cs" "\<lambda>cc. cc_flow cc \<noteq> 0" cc]
  by (auto simp: conns_ok_def setcc_def nth_list_update)

lemma conn_of_set:
  assumes "conns_ok cs"
  shows "conn_of ((setcc cs flow cc)\<lparr>curconn := n\<rparr>) g =
     (if g mod maxconn cs = flow mod maxconn cs
      then (if g \<noteq> 0 \<and> cc_flow cc = g then Some cc else None) else conn_of cs g)"
  using assms by (auto simp: conn_of_def setcc_def conns_ok_def nth_list_update Let_def)

text \<open>The search finds the first free slot behind \<open>flow\<close>, if the numbers do not wrap.\<close>

lemma find_slot_spec:
  assumes ok: "conns_ok cs"
  shows "flow < e \<Longrightarrow> e < 2 ^ 32 \<Longrightarrow>
    \<exists>f b. find_slot cs flow e = Some (f, b) \<and> flow < f \<and> f \<le> e \<and> (b = (f < e)) \<and>
      (\<forall>g. flow < g \<longrightarrow> g < f \<longrightarrow> cc_flow (ccs cs ! (g mod maxconn cs)) \<noteq> 0) \<and>
      (b \<longrightarrow> cc_flow (ccs cs ! (f mod maxconn cs)) = 0)"
proof (induction "e - flow" arbitrary: flow)
  case 0
  then show ?case by simp
next
  case (Suc n)
  let ?f = "Suc flow"
  have f: "add32 flow 1 = ?f" using Suc.prems by simp
  have fs: "find_slot cs flow e = (if ?f = e then Some (?f, False)
      else if cc_flow (ccs cs ! (?f mod maxconn cs)) = 0 then Some (?f, True) else find_slot cs ?f e)"
    using Suc.prems by (subst find_slot.simps) (simp only: f Let_def getcc_ok [OF ok] option.case, simp)
  show ?case
  proof (cases "?f = e")
    case True
    then show ?thesis using fs by (intro exI [of _ ?f] exI [of _ False]) auto
  next
    case False
    show ?thesis
    proof (cases "cc_flow (ccs cs ! (?f mod maxconn cs)) = 0")
      case True
      then show ?thesis using fs False Suc.prems by (intro exI [of _ ?f] exI [of _ True]) auto
    next
      case nz: False
      have "n = e - ?f" "?f < e" using Suc.hyps(2) Suc.prems False by simp_all
      from Suc.hyps(1) [OF this Suc.prems(2)] obtain f b where
        "find_slot cs ?f e = Some (f, b)" "?f < f" "f \<le> e" "b = (f < e)"
        "\<forall>g. ?f < g \<longrightarrow> g < f \<longrightarrow> cc_flow (ccs cs ! (g mod maxconn cs)) \<noteq> 0"
        "b \<longrightarrow> cc_flow (ccs cs ! (f mod maxconn cs)) = 0" by blast
      moreover have "cc_flow (ccs cs ! (g mod maxconn cs)) \<noteq> 0" if "flow < g" "g < f" for g
        using that calculation(5) nz by (cases "g = ?f") auto
      ultimately show ?thesis using fs False nz by (intro exI [of _ f] exI [of _ b]) auto
    qed
  qed
qed

text \<open>Every slot is the slot of one of \<open>maxconn\<close> consecutive numbers.\<close>

lemma slot_in_window:
  assumes "0 < n" "i < n"
  shows "\<exists>g. flow \<le> g \<and> g < flow + n \<and> g mod n = (i :: nat)"
proof -
  let ?q = "flow mod n"
  show ?thesis
  proof (cases "?q \<le> i")
    case True
    have "(flow + (i - ?q)) mod n = (?q + (i - ?q)) mod n" by (simp add: mod_simps)
    then show ?thesis using True assms by (intro exI [of _ "flow + (i - ?q)"]) auto
  next
    case False
    have q: "?q < n" using assms by simp
    have "(flow + (n + i - ?q)) mod n = (?q + (n + i - ?q)) mod n" by (simp add: mod_simps)
    also have "?q + (n + i - ?q) = n + i" using q by linarith
    also have "(n + i) mod n = i" using assms by simp
    finally show ?thesis using False assms q by (intro exI [of _ "flow + (n + i - ?q)"]) auto
  qed
qed

lemma addconn_found:
  fixes fd now :: int and ty :: nat
  assumes ok: "conns_ok cs" and free: "cc_flow (ccs cs ! (f mod maxconn cs)) = 0" and f: "0 < f" "f < 2 ^ 32"
  defines "cc \<equiv> ccs cs ! (f mod maxconn cs)"
  defines "cs' \<equiv> (setcc cs f (cc\<lparr>cc_flow := f, cc_fd := fd, cc_access := now, cc_type := ty\<rparr>))
                     \<lparr>curconn := curconn cs + 1\<rparr>"
  shows "conns_ok cs'" "conn_fd f cs' = Some fd" "\<And>g. g \<noteq> f \<Longrightarrow> conn_of cs' g = conn_of cs g"
    "curconn cs' = curconn cs + 1" "conn_of cs f = None"
proof -
  show ok': "conns_ok cs'"
    using assms unfolding cs'_def by (intro conns_ok_set) auto
  show "conn_fd f cs' = Some fd"
    using f conn_fd_map [OF ok', of f] by (simp add: cs'_def conn_of_set [OF ok])
  show "conn_of cs' g = conn_of cs g" if "g \<noteq> f" for g
  proof -
    have "conn_of cs' g = (if g mod maxconn cs = f mod maxconn cs then None else conn_of cs g)"
      using that by (simp add: cs'_def conn_of_set [OF ok])
    then show ?thesis using free by (auto simp: conn_of_def Let_def)
  qed
  show "curconn cs' = curconn cs + 1" by (simp add: cs'_def)
  show "conn_of cs f = None" using free f by (simp add: conn_of_def Let_def)
qed

section \<open>The unsent bytes\<close>

text \<open>What is known of the cache of unsent bytes of a flow, the other blocks in use being \<open>R\<close>.\<close>

definition unsent :: "mempool \<Rightarrow> (nat \<rightharpoonup> nat) \<Rightarrow> conn_set \<Rightarrow> nat \<Rightarrow> bytes \<Rightarrow> bool" where
  "unsent mp R cs flow w \<longleftrightarrow> (\<exists>cc. getcc cs flow = Some cc \<and> cc_flow cc = flow \<and> flow \<noteq> 0 \<and> cache_rep mp R (cc_w cc) w)"

definition unread :: "mempool \<Rightarrow> (nat \<rightharpoonup> nat) \<Rightarrow> conn_set \<Rightarrow> nat \<Rightarrow> bytes \<Rightarrow> bool" where
  "unread mp R cs flow r \<longleftrightarrow> (\<exists>cc. getcc cs flow = Some cc \<and> cc_flow cc = flow \<and> flow \<noteq> 0 \<and> cache_rep mp R (cc_r cc) r)"

lemma getcc_setcc: "getcc cs flow \<noteq> None \<Longrightarrow> getcc (setcc cs flow cc) flow = Some cc"
  by (auto simp: getcc_def setcc_def split: if_splits)

text \<open>A kernel takes at most the bytes it was offered.\<close>

definition kernel_ok :: "int \<times> int \<Rightarrow> nat \<Rightarrow> bool" where
  "kernel_ok s n \<longleftrightarrow> fst s \<le> int n \<and> 0 \<le> snd s"

lemma sock_send_le:
  "kernel_ok s n \<Longrightarrow> sock_send (fst s) (snd s) 0 = (ret, sent) \<Longrightarrow> sent \<le> n \<and> ret \<le> 0 \<and> (ret < 0 \<longrightarrow> sent = 0)"
  by (auto simp: kernel_ok_def sock_send_def split: if_splits)

lemma send_sound:
  assumes u: "unsent mp R cs flow w" and n: "length w + length data < 2 ^ 31"
    and k: "kernel_ok s1 (length w)" "kernel_ok s2 (length data)"
  shows "\<exists>r out mp' cs' w'. conn_send now s1 s2 flow data mp cs = Some (r, out, mp', cs') \<and>
     cache_keep R mp mp' \<and> unsent mp' R cs' flow w' \<and>
     (case r of Inr rc \<Rightarrow> (if rc \<ge> 0 then out @ w' = w @ data else rc = - E_NEED_CLOSE \<and> prefix (out @ w') (w @ data))
      | Inl e \<Rightarrow> prefix (out @ w') (w @ data))"
proof -
  obtain cc where cc: "getcc cs flow = Some cc" "cc_flow cc = flow" "flow \<noteq> 0" "cache_rep mp R (cc_w cc) w"
    using u by (auto simp: unsent_def)
  have g: "getcc (setcc cs flow d) flow = Some d" for d using getcc_setcc cc(1) by simp
  have dat: "cache_data mp (cc_w cc) = Some w" "cache_data_len (cc_w cc) = length w"
    using cache_data_ok [OF cc(4)] by simp_all
  obtain ret sent where s1: "(if length w \<noteq> 0 then sock_send (fst s1) (snd s1) 0 else (0, 0)) = (ret, sent)"
    by (cases "if length w \<noteq> 0 then sock_send (fst s1) (snd s1) 0 else (0, 0)") auto
  have sent: "sent \<le> length w" "ret \<le> 0" "ret < 0 \<Longrightarrow> sent = 0"
    using s1 sock_send_le [OF k(1)] by (auto split: if_splits)
  obtain ret2 sent2 where s2: "sock_send (fst s2) (snd s2) 0 = (ret2, sent2)" by (cases "sock_send (fst s2) (snd s2) 0") auto
  have sent2: "sent2 \<le> length data" using sock_send_le [OF k(2) s2] by simp
  let ?retry = "length w \<noteq> 0 \<and> (ret = - EAGAIN \<or> ret = - EINPROGRESS \<or> ret = - EINTR \<or> (ret = 0 \<and> sent < length w))"
  have s1a: "w \<noteq> [] \<Longrightarrow> sock_send (fst s1) (snd s1) 0 = (ret, sent)" using s1 by simp
  have s1b: "w = [] \<Longrightarrow> ret = 0 \<and> sent = 0" using s1 by simp
  note unf = conn_send_def cc(1) cc(2) dat s1a s2 Let_def
  consider (retry) ?retry | (bad) "\<not> ?retry" "length w \<noteq> 0" "ret < 0" | (all) "\<not> ?retry" "\<not> (length w \<noteq> 0 \<and> ret < 0)"
    by blast
  then show ?thesis
  proof cases
    case retry
    obtain c1 mp1 where sk: "cache_skip sent mp (cc_w cc) = Some (c1, mp1)" "cache_keep R mp mp1"
      "cache_rep mp1 R c1 (drop sent w)" using cache.skip_law [OF cc(4)] n by fastforce
    obtain r mp2 where ap: "cache_append data mp1 c1 = Some (r, mp2)" "cache_keep R mp1 mp2"
      "case r of Inl e \<Rightarrow> cache_rep mp2 R c1 (drop sent w) | Inr c' \<Rightarrow> cache_rep mp2 R c' (drop sent w @ data)"
      using cache.append_law [OF sk(3), of data] n by fastforce
    note kp = cache_keep_trans [OF sk(2) ap(2)]
    show ?thesis
    proof (cases r)
      case (Inl e)
      let ?cs = "setcc cs flow (cc\<lparr>cc_access := now, cc_w := c1\<rparr>)"
      have "conn_send now s1 s2 flow data mp cs = Some (Inl e, take sent w, mp2, ?cs)"
        using retry cc(3) sk(1) ap(1) Inl by (cases "w = []") (auto simp: unf dest: s1b)
      moreover have "unsent mp2 R ?cs flow (drop sent w)" using ap(3) Inl cc g by (simp add: unsent_def)
      ultimately show ?thesis using kp by (intro exI [of _ "Inl e"]) fastforce
    next
      case (Inr c2)
      let ?cs = "setcc cs flow (cc\<lparr>cc_access := now, cc_w := c2\<rparr>)"
      have "conn_send now s1 s2 flow data mp cs = Some (Inr 0, take sent w, mp2, ?cs)"
        using retry cc(3) sk(1) ap(1) Inr by (cases "w = []") (auto simp: unf dest: s1b)
      moreover have "unsent mp2 R ?cs flow (drop sent w @ data)" using ap(3) Inr cc g by (simp add: unsent_def)
      ultimately show ?thesis using kp by (intro exI [of _ "Inr 0"]) fastforce
    qed
  next
    case bad
    let ?cs = "setcc cs flow (cc\<lparr>cc_access := now\<rparr>)"
    have "conn_send now s1 s2 flow data mp cs = Some (Inr (- E_NEED_CLOSE), [], mp, ?cs)"
      using bad cc(3) by (cases "w = []") (auto simp: unf dest: s1b)
    moreover have "unsent mp R ?cs flow w" using cc g by (simp add: unsent_def)
    ultimately show ?thesis using cache_keep_refl by (intro exI [of _ "Inr (- E_NEED_CLOSE)"]) fastforce
  next
    case all
    have sw: "sent = length w" using all sent s1 by (cases "length w = 0") auto
    obtain c1 mp1 where sk: "cache_skip (length w) mp (cc_w cc) = Some (c1, mp1)" "cache_keep R mp mp1"
      "cache_rep mp1 R c1 (drop (length w) w)" using cache.skip_law [OF cc(4)] n by fastforce
    have c1: "cache_rep mp1 R c1 []" using sk(3) by simp
    let ?cc = "cc\<lparr>cc_access := now, cc_w := c1\<rparr>"
    have u1: "unsent mp1 R (setcc cs flow ?cc) flow []" using c1 cc g by (simp add: unsent_def)
    let ?fail = "ret2 < 0 \<and> ret2 \<noteq> - EAGAIN \<and> ret2 \<noteq> - EINPROGRESS \<and> ret2 \<noteq> - EINTR"
    consider (fail) ?fail | (part) "\<not> ?fail" "sent2 < length data" | (fin) "\<not> ?fail" "\<not> sent2 < length data" by blast
    then show ?thesis
    proof cases
      case fail
      have "conn_send now s1 s2 flow data mp cs = Some (Inr (- E_NEED_CLOSE), w @ take sent2 data, mp1, setcc cs flow ?cc)"
        using all fail cc(3) sk(1) sw by (cases "w = []") (auto simp: unf dest: s1b)
      then show ?thesis using u1 sk(2) by (intro exI [of _ "Inr (- E_NEED_CLOSE)"]) (fastforce simp: take_is_prefix)
    next
      case part
      have len: "length [] + length (drop sent2 data) < 2 ^ 31" using n by simp
      obtain r mp2 where ap: "cache_append (drop sent2 data) mp1 c1 = Some (r, mp2)" "cache_keep R mp1 mp2"
        "case r of Inl e \<Rightarrow> cache_rep mp2 R c1 [] | Inr c' \<Rightarrow> cache_rep mp2 R c' (drop sent2 data)"
        using cache.append_law [OF c1 len] unfolding append_Nil by blast
      note kp = cache_keep_trans [OF sk(2) ap(2)]
      show ?thesis
      proof (cases r)
        case (Inl e)
        have "conn_send now s1 s2 flow data mp cs = Some (Inl e, w @ take sent2 data, mp2, setcc cs flow ?cc)"
          using all part cc(3) sk(1) ap(1) Inl sw by (cases "w = []") (auto simp: unf dest: s1b)
        moreover have "unsent mp2 R (setcc cs flow ?cc) flow []" using ap(3) Inl cc g by (simp add: unsent_def)
        ultimately show ?thesis using kp by (intro exI [of _ "Inl e"]) (fastforce simp: take_is_prefix)
      next
        case (Inr c2)
        let ?cs = "setcc cs flow (cc\<lparr>cc_access := now, cc_w := c2\<rparr>)"
        have "conn_send now s1 s2 flow data mp cs = Some (Inr (int sent2), w @ take sent2 data, mp2, ?cs)"
          using all part cc(3) sk(1) ap(1) Inr sw by (cases "w = []") (auto simp: unf dest: s1b)
        moreover have "unsent mp2 R ?cs flow (drop sent2 data)" using ap(3) Inr cc g by (simp add: unsent_def)
        ultimately show ?thesis using kp by (intro exI [of _ "Inr (int sent2)"]) fastforce
      qed
    next
      case fin
      have "conn_send now s1 s2 flow data mp cs = Some (Inr (int sent2), w @ take sent2 data, mp1, setcc cs flow ?cc)"
        using all fin cc(3) sk(1) sw by (cases "w = []") (auto simp: unf dest: s1b)
      then show ?thesis using u1 sk(2) fin sent2 by (intro exI [of _ "Inr (int sent2)"]) fastforce
    qed
  qed
qed

lemma sendfromcache_sound:
  assumes u: "unsent mp R cs flow w" and n: "length w < 2 ^ 31" and k: "kernel_ok s1 (length w)"
  shows "\<exists>rc out mp' cs' w'. conn_sendfromcache now s1 flow mp cs = Some (rc, out, mp', cs') \<and>
     cache_keep R mp mp' \<and> unsent mp' R cs' flow w' \<and> out @ w' = w \<and> (rc = 0 \<longleftrightarrow> w' = []) \<and>
     rc \<noteq> - E_NOT_FINDFD"
proof -
  obtain cc where cc: "getcc cs flow = Some cc" "cc_flow cc = flow" "flow \<noteq> 0" "cache_rep mp R (cc_w cc) w"
    using u by (auto simp: unsent_def)
  have g: "getcc (setcc cs flow d) flow = Some d" for d using getcc_setcc cc(1) by simp
  have dat: "cache_data mp (cc_w cc) = Some w" "cache_data_len (cc_w cc) = length w"
    using cache_data_ok [OF cc(4)] by simp_all
  obtain ret sent where s1: "sock_send (fst s1) (snd s1) 0 = (ret, sent)" by (cases "sock_send (fst s1) (snd s1) 0") auto
  have sent: "sent \<le> length w" "ret \<le> 0" using sock_send_le [OF k s1] by simp_all
  let ?cc = "cc\<lparr>cc_access := now\<rparr>"
  have same: "unsent mp R (setcc cs flow ?cc) flow w" using cc g by (simp add: unsent_def)
  note unf = conn_sendfromcache_def cc(1) cc(2) dat s1 Let_def
  show ?thesis
  proof (cases "w \<noteq> [] \<and> ret = 0 \<and> sent \<noteq> 0")
    case True
    obtain c1 mp1 where sk: "cache_skip sent mp (cc_w cc) = Some (c1, mp1)" "cache_keep R mp mp1"
      "cache_rep mp1 R c1 (drop sent w)" using cache.skip_law [OF cc(4) n] by blast
    have "conn_sendfromcache now s1 flow mp cs = Some (if sent = length w then 0 else int sent, take sent w, mp1,
        setcc cs flow (?cc\<lparr>cc_w := c1\<rparr>))"
      using True cc(3) sk(1) by (simp add: unf)
    moreover have "unsent mp1 R (setcc cs flow (?cc\<lparr>cc_w := c1\<rparr>)) flow (drop sent w)"
      using sk(3) cc g by (simp add: unsent_def)
    ultimately show ?thesis using sk(2) sent True
      by (intro exI [of _ "if sent = length w then 0 else int sent"]) fastforce
  next
    case False
    then have "\<exists>rc. conn_sendfromcache now s1 flow mp cs = Some (rc, [], mp, setcc cs flow ?cc) \<and>
        (rc = 0 \<longleftrightarrow> w = []) \<and> rc \<noteq> - E_NOT_FINDFD"
      using cc(3) by (auto simp: unf)
    then show ?thesis using same cache_keep_refl by fastforce
  qed
qed

text \<open>What receiving leaves alone: the type, the descriptor and the unsent bytes.\<close>

definition conn_rest :: "conn_set \<Rightarrow> nat \<Rightarrow> (nat \<times> int \<times> raw_cache) option" where
  "conn_rest cs flow = map_option (\<lambda>cc. (cc_type cc, cc_fd cc, cc_w cc)) (getcc cs flow)"

definition conn_type :: "conn_set \<Rightarrow> nat \<Rightarrow> nat option" where
  "conn_type cs flow = map_option fst (conn_rest cs flow)"

lemma recv_chunk:
  assumes u: "unread mp R cs flow r" and n: "bytes > 0" "nat bytes \<le> length buf" "length r + nat bytes < 2 ^ 31"
  shows "\<exists>x mp1 cs1. conn_recv now bytes errno buf flow mp cs = Some (x, mp1, cs1) \<and> cache_keep R mp mp1 \<and>
     conn_rest cs1 flow = conn_rest cs flow \<and>
     (case x of Inl e \<Rightarrow> unread mp1 R cs1 flow r
      | Inr n \<Rightarrow> n = bytes \<and> unread mp1 R cs1 flow (r @ take (nat bytes) buf))"
proof -
  obtain cc where cc: "getcc cs flow = Some cc" "cc_flow cc = flow" "flow \<noteq> 0" "cache_rep mp R (cc_r cc) r"
    using u by (auto simp: unread_def)
  have g: "getcc (setcc cs flow d) flow = Some d" for d using getcc_setcc cc(1) by simp
  let ?cc = "cc\<lparr>cc_access := now\<rparr>"
  let ?d = "take (nat bytes) buf"
  have d: "memrd buf 0 (nat bytes) = Some ?d" using n by (simp add: memrd_def)
  have "length r + length ?d < 2 ^ 31" using n by (simp add: min_def)
  from cache.append_law [OF cc(4) this] obtain x mp1 where ap: "cache_append ?d mp (cc_r cc) = Some (x, mp1)"
    "cache_keep R mp mp1" "case x of Inl e \<Rightarrow> cache_rep mp1 R (cc_r cc) r | Inr c' \<Rightarrow> cache_rep mp1 R c' (r @ ?d)"
    by blast
  show ?thesis
  proof (cases x)
    case (Inl e)
    have "conn_recv now bytes errno buf flow mp cs = Some (Inl e, mp1, setcc cs flow ?cc)"
      using n cc d ap(1) Inl by (simp add: conn_recv_def sock_receive_def Let_def)
    moreover have "unread mp1 R (setcc cs flow ?cc) flow r" using ap(3) Inl cc g by (simp add: unread_def)
    ultimately show ?thesis using ap(2) cc(1) g by (intro exI [of _ "Inl e"]) (auto simp: conn_rest_def)
  next
    case (Inr c')
    have "conn_recv now bytes errno buf flow mp cs = Some (Inr bytes, mp1, setcc cs flow (?cc\<lparr>cc_r := c'\<rparr>))"
      using n cc d ap(1) Inr by (simp add: conn_recv_def sock_receive_def Let_def)
    moreover have "unread mp1 R (setcc cs flow (?cc\<lparr>cc_r := c'\<rparr>)) flow (r @ ?d)"
      using ap(3) Inr cc g by (simp add: unread_def)
    ultimately show ?thesis using ap(2) cc(1) g by (intro exI [of _ "Inr bytes"]) (auto simp: conn_rest_def)
  qed
qed

lemma recv_nothing:
  assumes u: "unread mp R cs flow r" and n: "bytes \<le> 0"
  shows "\<exists>n cs1. conn_recv now bytes errno buf flow mp cs = Some (Inr n, mp, cs1) \<and>
     (n = - EAGAIN \<or> n = - E_NEED_CLOSE) \<and>
     (bytes < 0 \<and> errno = EAGAIN \<and> conn_type cs flow \<noteq> Some UDP_SOCKET \<longrightarrow> n = - EAGAIN) \<and>
     conn_rest cs1 flow = conn_rest cs flow \<and> unread mp R cs1 flow r"
proof -
  obtain cc where cc: "getcc cs flow = Some cc" "cc_flow cc = flow" "flow \<noteq> 0" "cache_rep mp R (cc_r cc) r"
    using u by (auto simp: unread_def)
  have g: "getcc (setcc cs flow d) flow = Some d" for d using getcc_setcc cc(1) by simp
  let ?cc = "cc\<lparr>cc_access := now\<rparr>"
  have "unread mp R (setcc cs flow ?cc) flow r" "conn_rest (setcc cs flow ?cc) flow = conn_rest cs flow"
    using cc g by (simp_all add: unread_def conn_rest_def)
  moreover have "\<exists>n. conn_recv now bytes errno buf flow mp cs = Some (Inr n, mp, setcc cs flow ?cc) \<and>
      (n = - EAGAIN \<or> n = - E_NEED_CLOSE) \<and>
      (bytes < 0 \<and> errno = EAGAIN \<and> conn_type cs flow \<noteq> Some UDP_SOCKET \<longrightarrow> n = - EAGAIN)"
    using cc n by (auto simp: conn_recv_def sock_receive_def conn_type_def conn_rest_def Let_def)
  ultimately show ?thesis by blast
qed

text \<open>The flow number that a new connection gets.\<close>

lemma addconn_spec:
  assumes "conns_ok cs" and "0 < flow" and "flow + maxconn cs < 2 ^ 32"
  shows "if \<exists>cc\<in>set (ccs cs). cc_flow cc = 0
    then \<exists>f cs'. conn_addconn now flow fd ty cs = Some (0, f, cs') \<and> conns_ok cs' \<and>
       flow \<le> f \<and> f < flow + maxconn cs \<and> conn_of cs f = None \<and> conn_fd f cs' = Some fd \<and>
       (\<forall>g. flow \<le> g \<and> g < f \<longrightarrow> cc_flow (ccs cs ! (g mod maxconn cs)) \<noteq> 0) \<and>
       (\<forall>g. g \<noteq> f \<longrightarrow> conn_of cs' g = conn_of cs g) \<and> curconn cs' = curconn cs + 1
    else conn_addconn now flow fd ty cs = Some (-1, flow + maxconn cs, cs)"
proof -
  let ?n = "maxconn cs" and ?busy = "\<lambda>g. cc_flow (ccs cs ! (g mod maxconn cs)) \<noteq> 0"
  have n: "0 < ?n" "length (ccs cs) = ?n" using assms(1) by (simp_all add: conns_ok_def)
  have add: "add32 flow ?n = flow + ?n" using assms(3) by simp
  note get = getcc_ok [OF assms(1)]
  obtain f b where f: "(if ?busy flow then find_slot cs flow (flow + ?n) else Some (flow, True)) = Some (f, b)"
    "flow \<le> f" "f \<le> flow + ?n" "b = (f < flow + ?n)" "\<forall>g. flow \<le> g \<longrightarrow> g < f \<longrightarrow> ?busy g" "b \<longrightarrow> \<not> ?busy f"
  proof (cases "?busy flow")
    case True
    obtain f b where "find_slot cs flow (flow + ?n) = Some (f, b)" "flow < f" "f \<le> flow + ?n" "b = (f < flow + ?n)"
      "\<forall>g. flow < g \<longrightarrow> g < f \<longrightarrow> ?busy g" "b \<longrightarrow> \<not> ?busy f"
      using find_slot_spec [OF assms(1), of flow "flow + ?n"] n(1) assms(3) by auto
    moreover have "?busy g" if "flow \<le> g" "g < f" for g
      using that calculation(5) True by (cases "g = flow") auto
    ultimately show ?thesis using True by (intro that [of f b]) auto
  next
    case False
    then show ?thesis using n(1) by (intro that [of flow True]) auto
  qed
  have a: "conn_addconn now flow fd ty cs = (if \<not> b then Some (-1, f, cs) else
      Some (0, f, (setcc cs f ((ccs cs ! (f mod ?n))\<lparr>cc_flow := f, cc_fd := fd, cc_access := now, cc_type := ty\<rparr>))
                     \<lparr>curconn := curconn cs + 1\<rparr>))"
  proof -
    have f1: "(if cc_flow (ccs cs ! (flow mod ?n)) > 0 then find_slot cs flow (flow + ?n) else Some (flow, True)) = Some (f, b)"
      using f(1) by simp
    show ?thesis unfolding conn_addconn_def get bind.bind_lunit add f1 by (simp add: get)
  qed
  have iff: "(\<exists>cc\<in>set (ccs cs). cc_flow cc = 0) \<longleftrightarrow> b"
  proof
    assume "\<exists>cc\<in>set (ccs cs). cc_flow cc = 0"
    then obtain i where i: "i < ?n" "cc_flow (ccs cs ! i) = 0" using n(2) by (metis in_set_conv_nth)
    obtain g where "flow \<le> g" "g < flow + ?n" "g mod ?n = i" using slot_in_window [OF n(1) i(1)] by blast
    with i(2) f(3-5) show b by (metis le_neq_implies_less)
  next
    assume b
    then have "\<not> ?busy f" using f(6) by simp
    then show "\<exists>cc\<in>set (ccs cs). cc_flow cc = 0" using n by (metis mod_less_divisor nth_mem)
  qed
  show ?thesis
  proof (cases b)
    case True
    have free: "cc_flow (ccs cs ! (f mod ?n)) = 0" "0 < f" "f < 2 ^ 32" using True f assms(2,3) by simp_all
    let ?cs = "(setcc cs f ((ccs cs ! (f mod ?n))\<lparr>cc_flow := f, cc_fd := fd, cc_access := now, cc_type := ty\<rparr>))
                     \<lparr>curconn := curconn cs + 1\<rparr>"
    have "conns_ok ?cs" "conn_fd f ?cs = Some fd" "\<And>g. g \<noteq> f \<Longrightarrow> conn_of ?cs g = conn_of cs g"
      "curconn ?cs = curconn cs + 1" "conn_of cs f = None"
      by (rule addconn_found [OF assms(1) free], assumption?)+
    then show ?thesis using True iff a f(2,4,5) by auto
  next
    case False
    then show ?thesis using iff a f(3,4) by auto
  qed
qed

section \<open>Properties\<close>

text \<open>
  \<open>addconn\<close>, as long as the flow numbers do not wrap around, gives the connection the
  first number not below the requested one whose slot is free: the number was not in use,
  \<open>fd\<close> finds the descriptor under it, every other flow keeps its connection, the count goes
  up by one and the table stays well formed.  It returns -1, with the table unchanged,
  exactly when no slot is free.
\<close>

theorem conn_addconn_first_free:
  assumes "conns_ok cs" and "0 < flow" and "flow + maxconn cs < 2 ^ 32"
  shows "if \<exists>cc\<in>set (ccs cs). cc_flow cc = 0
    then \<exists>f cs'. conn_addconn now flow fd ty cs = Some (0, f, cs') \<and> conns_ok cs' \<and>
       flow \<le> f \<and> f < flow + maxconn cs \<and> conn_of cs f = None \<and> conn_fd f cs' = Some fd \<and>
       (\<forall>g. flow \<le> g \<and> g < f \<longrightarrow> cc_flow (ccs cs ! (g mod maxconn cs)) \<noteq> 0) \<and>
       (\<forall>g. g \<noteq> f \<longrightarrow> conn_of cs' g = conn_of cs g) \<and> curconn cs' = curconn cs + 1
    else conn_addconn now flow fd ty cs = Some (-1, flow + maxconn cs, cs)"
  by (rule addconn_spec [OF assms])

theorem conn_addconn_first_free_witness:
  "let cs = conn_set_new 4 in
    if \<exists>cc\<in>set (ccs cs). cc_flow cc = 0
    then \<exists>f cs'. conn_addconn 50 9 3 1 cs = Some (0, f, cs') \<and> conns_ok cs' \<and>
       9 \<le> f \<and> f < 9 + maxconn cs \<and> conn_of cs f = None \<and> conn_fd f cs' = Some 3 \<and>
       (\<forall>g. 9 \<le> g \<and> g < f \<longrightarrow> cc_flow (ccs cs ! (g mod maxconn cs)) \<noteq> 0) \<and>
       (\<forall>g. g \<noteq> f \<longrightarrow> conn_of cs' g = conn_of cs g) \<and> curconn cs' = curconn cs + 1
    else conn_addconn 50 9 3 1 cs = Some (-1, 9 + maxconn cs, cs)"
  unfolding Let_def
  by (rule conn_addconn_first_free [OF conns_ok_new]) (simp_all add: conn_set_new_def)

text \<open>
  The comment that an overflow of the flow number does no harm is wrong.  When the slot
  of the largest number is taken and slot 0 is free, \<open>addconn\<close> wraps to the flow 0, which
  marks a free slot: it reports success and counts a connection that no flow finds, whose
  slot is still free, and whose descriptor is therefore lost; the count no longer matches
  the table.
\<close>

theorem conn_addconn_wraps_to_zero:
  assumes "conns_ok cs" and "1 < maxconn cs" and "cc_flow (ccs cs ! ((2 ^ 32 - 1) mod maxconn cs)) \<noteq> 0"
    and "cc_flow (ccs cs ! 0) = 0"
  shows "\<exists>cs'. conn_addconn now (2 ^ 32 - 1) fd ty cs = Some (0, 0, cs') \<and> curconn cs' = curconn cs + 1 \<and>
     conn_fd 0 cs' = Some (-1) \<and> (\<forall>g. conn_of cs' g = conn_of cs g) \<and> cc_flow (ccs cs' ! 0) = 0 \<and> \<not> conns_ok cs'"
proof -
  note get = getcc_ok [OF assms(1)]
  have n: "maxconn cs < 2 ^ 31" "length (ccs cs) = maxconn cs" using assms(1) by (simp_all add: conns_ok_def)
  have e: "add32 (2 ^ 32 - 1) (maxconn cs) = maxconn cs - 1"
    using assms(2) n by (simp add: add32_def mod_if)
  have z: "add32 (2 ^ 32 - 1) 1 = 0" by (simp add: add32_def)
  have me: "(maxconn cs - 1) mod 2 ^ 32 \<noteq> 0" using assms(2) n by simp
  have fs: "find_slot cs (2 ^ 32 - 1) (maxconn cs - 1) = Some (0, True)"
    using me assms(4) by (subst find_slot.simps) (simp only: z Let_def get, simp)
  let ?cs = "(setcc cs 0 ((ccs cs ! 0)\<lparr>cc_flow := 0, cc_fd := fd, cc_access := now, cc_type := ty\<rparr>))
                     \<lparr>curconn := curconn cs + 1\<rparr>"
  have a: "conn_addconn now (2 ^ 32 - 1) fd ty cs = Some (0, 0, ?cs)"
    unfolding conn_addconn_def get bind.bind_lunit e using assms(3) fs by (simp add: get)
  have same: "conn_of ?cs g = conn_of cs g" for g
    using assms(4) by (auto simp: conn_of_set [OF assms(1)]) (auto simp: conn_of_def Let_def)
  have z': "cc_flow (ccs ?cs ! 0) = 0" using n(2) assms(2) by (simp add: setcc_def)
  have "\<not> conns_ok ?cs"
  proof
    assume "conns_ok ?cs"
    then have "curconn ?cs = int (length (filter (\<lambda>cc. cc_flow cc \<noteq> 0) (ccs ?cs)))" by (simp add: conns_ok_def)
    also have "\<dots> = curconn cs"
      using count_update [of 0 "ccs cs" "\<lambda>cc. cc_flow cc \<noteq> 0"] assms n(2) by (simp add: setcc_def conns_ok_def)
    finally show False by simp
  qed
  moreover have "conn_fd 0 ?cs = Some (-1)"
    using n(2) assms(2) by (simp add: conn_fd_def getcc_def setcc_def)
  ultimately show ?thesis using a same z' by auto
qed

theorem conn_addconn_wraps_to_zero_witness:
  "let cs = \<lparr>ccs = [conn_new, conn_new\<lparr>cc_flow := 1\<rparr>], maxconn = 2, curconn = 1\<rparr> in
   \<exists>cs'. conn_addconn 50 (2 ^ 32 - 1) 3 1 cs = Some (0, 0, cs') \<and> curconn cs' = curconn cs + 1 \<and>
     conn_fd 0 cs' = Some (-1) \<and> (\<forall>g. conn_of cs' g = conn_of cs g) \<and> cc_flow (ccs cs' ! 0) = 0 \<and> \<not> conns_ok cs'"
  unfolding Let_def
  by (rule conn_addconn_wraps_to_zero) (auto simp: conns_ok_def conn_new_def less_2_cases_iff)

text \<open>
  C15: Sending loses, repeats and reorders nothing.  With a kernel that takes at most what it
  is offered, \<open>send\<close> with a non-negative result has handed the kernel a run of bytes that,
  followed by what is now unsent, is exactly what was unsent followed by the new data; when
  it asks for the connection to be closed (or the pool runs out of memory) what the kernel
  got and what is unsent is still a prefix of that.  \<open>sendfromcache\<close> hands over a prefix of
  the unsent bytes, keeps the rest, and returns 0 exactly when nothing is left.  Neither
  touches the blocks of the other caches.
\<close>

theorem conn_send_stream:
  assumes "unsent mp R cs flow w" and "length w + length data < 2 ^ 31"
    and "kernel_ok s1 (length w)" and "kernel_ok s2 (length data)"
  shows "(\<exists>r out mp' cs' w'. conn_send now s1 s2 flow data mp cs = Some (r, out, mp', cs') \<and>
       (\<forall>q\<in>dom R. mp_content mp' q = mp_content mp q) \<and> unsent mp' R cs' flow w' \<and>
       (case r of Inr rc \<Rightarrow> (if rc \<ge> 0 then out @ w' = w @ data
                            else rc = - E_NEED_CLOSE \<and> prefix (out @ w') (w @ data))
        | Inl e \<Rightarrow> prefix (out @ w') (w @ data))) \<and>
    (\<exists>rc out mp' cs' w'. conn_sendfromcache now s1 flow mp cs = Some (rc, out, mp', cs') \<and>
       (\<forall>q\<in>dom R. mp_content mp' q = mp_content mp q) \<and> unsent mp' R cs' flow w' \<and>
       out @ w' = w \<and> (rc = 0 \<longleftrightarrow> w' = []))"
proof
  show "\<exists>r out mp' cs' w'. conn_send now s1 s2 flow data mp cs = Some (r, out, mp', cs') \<and>
       (\<forall>q\<in>dom R. mp_content mp' q = mp_content mp q) \<and> unsent mp' R cs' flow w' \<and>
       (case r of Inr rc \<Rightarrow> (if rc \<ge> 0 then out @ w' = w @ data
                            else rc = - E_NEED_CLOSE \<and> prefix (out @ w') (w @ data))
        | Inl e \<Rightarrow> prefix (out @ w') (w @ data))"
    using send_sound [OF assms, of now] unfolding cache_keep_def by blast
  have "length w < 2 ^ 31" using assms(2) by simp
  from sendfromcache_sound [OF assms(1) this assms(3), of now]
  show "\<exists>rc out mp' cs' w'. conn_sendfromcache now s1 flow mp cs = Some (rc, out, mp', cs') \<and>
       (\<forall>q\<in>dom R. mp_content mp' q = mp_content mp q) \<and> unsent mp' R cs' flow w' \<and>
       out @ w' = w \<and> (rc = 0 \<longleftrightarrow> w' = [])"
    unfolding cache_keep_def by blast
qed

theorem conn_send_stream_witness:
  "let mp = mempool_new (\<lambda>p n. replicate n 7); R = Map.empty; w = [];
       cs = \<lparr>ccs = [conn_new, conn_new\<lparr>cc_flow := 1, cc_fd := 5\<rparr>], maxconn = 2, curconn = 1\<rparr>
   in (\<exists>r out mp' cs' w'. conn_send 50 (0, 0) (1, 0) 1 [8, 9] mp cs = Some (r, out, mp', cs') \<and>
       (\<forall>q\<in>dom R. mp_content mp' q = mp_content mp q) \<and> unsent mp' R cs' 1 w' \<and>
       (case r of Inr rc \<Rightarrow> (if rc \<ge> 0 then out @ w' = w @ [8, 9]
                            else rc = - E_NEED_CLOSE \<and> prefix (out @ w') (w @ [8, 9]))
        | Inl e \<Rightarrow> prefix (out @ w') (w @ [8, 9]))) \<and>
    (\<exists>rc out mp' cs' w'. conn_sendfromcache 50 (0, 0) 1 mp cs = Some (rc, out, mp', cs') \<and>
       (\<forall>q\<in>dom R. mp_content mp' q = mp_content mp q) \<and> unsent mp' R cs' 1 w' \<and>
       out @ w' = w \<and> (rc = 0 \<longleftrightarrow> w' = []))"
proof -
  have "unsent (mempool_new (\<lambda>p n. replicate n 7)) Map.empty
      \<lparr>ccs = [conn_new, conn_new\<lparr>cc_flow := 1, cc_fd := 5\<rparr>], maxconn = 2, curconn = 1\<rparr> 1 []"
    using cache_rep_new [OF mempool_new_ok] by (simp add: unsent_def getcc_def conn_new_def)
  then show ?thesis
    unfolding Let_def by (rule conn_send_stream) (simp_all add: kernel_ok_def)
qed

text \<open>
  \<open>recv\<close> reports exactly what it did: with a kernel that respects the receive buffer, a
  positive result is the number of bytes that the kernel delivered and they are now at the
  end of the unread bytes; with any other result (nothing there, a request to close the
  connection, the exception for lack of memory) the unread bytes are what they were.
\<close>

theorem conn_recv_appends:
  assumes "unread mp R cs flow r" and "length r < 2 ^ 30" and "length buf = C_READ_BUFFER_SIZE"
    and "bytes \<le> int C_READ_BUFFER_SIZE" and "0 \<le> errno"
  shows "\<exists>res mp' cs' r'. conn_recv now bytes errno buf flow mp cs = Some (res, mp', cs') \<and>
     (\<forall>q\<in>dom R. mp_content mp' q = mp_content mp q) \<and> unread mp' R cs' flow r' \<and>
     (case res of Inr n \<Rightarrow> (if n > 0 then n = bytes \<and> r' = r @ take (nat n) buf
                           else (n = - EAGAIN \<or> n = - E_NEED_CLOSE) \<and> r' = r)
      | Inl e \<Rightarrow> r' = r)"
proof (cases "bytes > 0")
  case True
  have "nat bytes \<le> C_READ_BUFFER_SIZE" using assms(4) by simp
  then have len: "nat bytes \<le> length buf" "length r + nat bytes < 2 ^ 31" using assms(2,3) by simp_all
  obtain x mp1 cs1 where c: "conn_recv now bytes errno buf flow mp cs = Some (x, mp1, cs1)"
    "cache_keep R mp mp1"
    "case x of Inl e \<Rightarrow> unread mp1 R cs1 flow r | Inr n \<Rightarrow> n = bytes \<and> unread mp1 R cs1 flow (r @ take (nat bytes) buf)"
    using recv_chunk [OF assms(1) True len] by blast
  then show ?thesis using True
    by (intro exI [of _ x] exI [of _ mp1] exI [of _ cs1])
       (cases x, auto simp: cache_keep_def)
next
  case False
  then obtain n cs1 where c: "conn_recv now bytes errno buf flow mp cs = Some (Inr n, mp, cs1)"
    "n = - EAGAIN \<or> n = - E_NEED_CLOSE" "unread mp R cs1 flow r"
    using recv_nothing [OF assms(1), of bytes] by (metis linorder_not_less)
  then show ?thesis
    by (intro exI [of _ "Inr n"] exI [of _ mp] exI [of _ cs1] exI [of _ r]) auto
qed

theorem conn_recv_appends_witness:
  "let mp = mempool_new (\<lambda>p n. replicate n 7); R = Map.empty;
       cs = \<lparr>ccs = [conn_new, conn_new\<lparr>cc_flow := 1, cc_fd := 5\<rparr>], maxconn = 2, curconn = 1\<rparr>
   in \<exists>res mp' cs' r'. conn_recv 50 3 0 (replicate C_READ_BUFFER_SIZE 8) 1 mp cs = Some (res, mp', cs') \<and>
     (\<forall>q\<in>dom R. mp_content mp' q = mp_content mp q) \<and> unread mp' R cs' 1 r' \<and>
     (case res of Inr n \<Rightarrow> (if n > 0 then n = 3 \<and> r' = [] @ take (nat n) (replicate C_READ_BUFFER_SIZE 8)
                           else (n = - EAGAIN \<or> n = - E_NEED_CLOSE) \<and> r' = [])
      | Inl e \<Rightarrow> r' = [])"
proof -
  have "unread (mempool_new (\<lambda>p n. replicate n 7)) Map.empty
      \<lparr>ccs = [conn_new, conn_new\<lparr>cc_flow := 1, cc_fd := 5\<rparr>], maxconn = 2, curconn = 1\<rparr> 1 []"
    using cache_rep_new [OF mempool_new_ok] by (simp add: unread_def getcc_def conn_new_def)
  then show ?thesis
    unfolding Let_def by (rule conn_recv_appends) simp_all
qed

text \<open>
  Closing a connection gives both its blocks back: afterwards the blocks in use are
  exactly those of the others, untouched; the flow denotes nothing any more, the count goes
  down by one and the other flows keep their connections.  The descriptor is closed unless
  it is the shared one of a UDP socket.
\<close>

theorem conn_close_returns_blocks:
  assumes "conns_ok cs" and "conn_of cs flow = Some cc" and "rc_mem (cc_r cc) \<notin> dom (owns (cc_w cc))"
    and "cache_rep mp (R ++ owns (cc_w cc)) (cc_r cc) r" and "cache_rep mp (R ++ owns (cc_r cc)) (cc_w cc) w"
  shows "\<exists>mp' cs'. conn_close flow mp cs = Some (0, cc_type cc \<noteq> UDP_SOCKET, mp', cs') \<and> pool_ok mp' R \<and>
     (\<forall>q\<in>dom R. mp_content mp' q = mp_content mp q) \<and> conns_ok cs' \<and> conn_of cs' flow = None \<and>
     (\<forall>g. g \<noteq> flow \<longrightarrow> conn_of cs' g = conn_of cs g) \<and> curconn cs' = curconn cs - 1"
proof -
  have get: "getcc cs flow = Some cc" "cc_flow cc = flow" "flow \<noteq> 0" "ccs cs ! (flow mod maxconn cs) = cc"
    using assms(2) getcc_ok [OF assms(1)] by (auto simp: conn_of_def Let_def split: if_splits)
  have empty: "c = raw_cache_new" if "cache_skip (cache_data_len d) m d = Some (c, m')" "cache_rep m T d xs" for d m c m' T xs
    using that by (auto simp: cache_skip_def cache_data_len_def cache_rep_def bind_eq_Some_conv split: if_splits)
  obtain c1 mp1 where s1: "cache_skip (cache_data_len (cc_r cc)) mp (cc_r cc) = Some (c1, mp1)"
    "cache_keep (R ++ owns (cc_w cc)) mp mp1" "cache_rep mp1 (R ++ owns (cc_w cc)) c1 (drop (cache_data_len (cc_r cc)) r)"
    using cache_skip_ok [OF assms(4)] by blast
  have c1: "c1 = raw_cache_new" by (rule empty [OF s1(1) assms(4)])
  have ok1: "pool_ok mp1 (R ++ owns (cc_w cc))" using s1(3) by (simp add: cache_rep_def c1)
  have "rc_mem (cc_w cc) \<notin> dom R" "rc_mem (cc_w cc) \<noteq> 0 \<Longrightarrow> mp_content mp1 (rc_mem (cc_w cc)) = mp_content mp (rc_mem (cc_w cc))"
    using assms(5) s1(2) by (auto simp: cache_rep_def cache_keep_def owns_def)
  then have w1: "cache_rep mp1 R (cc_w cc) w"
    using assms(5) ok1 by (auto simp: cache_rep_def)
  obtain c2 mp2 where s2: "cache_skip (cache_data_len (cc_w cc)) mp1 (cc_w cc) = Some (c2, mp2)"
    "cache_keep R mp1 mp2" "cache_rep mp2 R c2 (drop (cache_data_len (cc_w cc)) w)"
    using cache_skip_ok [OF w1] by blast
  have c2: "c2 = raw_cache_new" by (rule empty [OF s2(1) w1])
  have ok2: "pool_ok mp2 R" using s2(3) by (simp add: cache_rep_def c2)
  have "dom R \<subseteq> dom (R ++ owns (cc_w cc))" by auto
  then have keep: "\<forall>q\<in>dom R. mp_content mp2 q = mp_content mp q"
    using s1(2) s2(2) unfolding cache_keep_def by (metis subsetD)
  let ?cs = "(setcc cs flow (cc\<lparr>cc_flow := 0, cc_access := 0, cc_type := 0, cc_r := c1, cc_w := c2\<rparr>))
               \<lparr>curconn := curconn cs - 1\<rparr>"
  have c: "conn_close flow mp cs = Some (0, cc_type cc \<noteq> UDP_SOCKET, mp2, ?cs)"
    using get s1(1) s2(1) by (simp add: conn_close_def)
  have "conns_ok ?cs" using get by (intro conns_ok_set [OF assms(1)]) auto
  moreover have "conn_of ?cs g = (if g = flow then None else conn_of cs g)" for g
    using get by (auto simp: conn_of_set [OF assms(1)]) (auto simp: conn_of_def Let_def)
  ultimately show ?thesis using c ok2 keep by auto
qed

theorem conn_close_returns_blocks_witness:
  "let mp = mempool_new (\<lambda>p n. replicate n 7); R = Map.empty; cc = conn_new\<lparr>cc_flow := 1, cc_fd := 5\<rparr>;
       cs = \<lparr>ccs = [conn_new, cc], maxconn = 2, curconn = 1\<rparr>
   in \<exists>mp' cs'. conn_close 1 mp cs = Some (0, cc_type cc \<noteq> UDP_SOCKET, mp', cs') \<and> pool_ok mp' R \<and>
     (\<forall>q\<in>dom R. mp_content mp' q = mp_content mp q) \<and> conns_ok cs' \<and> conn_of cs' 1 = None \<and>
     (\<forall>g. g \<noteq> 1 \<longrightarrow> conn_of cs' g = conn_of cs g) \<and> curconn cs' = curconn cs - 1"
proof -
  have e: "cache_rep (mempool_new (\<lambda>p n. replicate n 7)) (Map.empty ++ owns (cc_w (conn_new\<lparr>cc_flow := 1, cc_fd := 5\<rparr>)))
      (cc_r (conn_new\<lparr>cc_flow := 1, cc_fd := 5\<rparr>)) []"
    "cache_rep (mempool_new (\<lambda>p n. replicate n 7)) (Map.empty ++ owns (cc_r (conn_new\<lparr>cc_flow := 1, cc_fd := 5\<rparr>)))
      (cc_w (conn_new\<lparr>cc_flow := 1, cc_fd := 5\<rparr>)) []"
    using cache_rep_new [OF mempool_new_ok] by (simp_all add: conn_new_def)
  show ?thesis
    unfolding Let_def
    by (rule conn_close_returns_blocks [OF _ _ _ e])
       (auto simp: conns_ok_def conn_of_def conn_new_def less_2_cases_iff)
qed

end
