(* ===== verification/NetOrder.thy ===== *)
theory NetOrder
  imports Prelude
begin

text \<open>
  Byte order.  The host is little-endian (the code is built for x86), so an unsigned integer
  that is stored through a pointer occupies \<open>le_bytes k n\<close>, and \<open>htons\<close>, \<open>htonl\<close>
  reverse the bytes of a value.  \<open>get_u16\<close>, \<open>get_u32\<close>, \<open>set_u16\<close>, \<open>set_u32\<close> are the
  pattern \<open>*(unsigned int *)(p + off)\<close> with the conversion; \<open>myhtonll\<close> and \<open>myntohll\<close>
  are the 64-bit conversions of \<open>protocol_pack.cpp\<close>.  The lemmas show that all of them
  read and write big-endian bytes.
\<close>

definition htons :: "nat \<Rightarrow> nat" where
  "htons n = le_val (be_bytes 2 n)"

definition htonl :: "nat \<Rightarrow> nat" where
  "htonl n = le_val (be_bytes 4 n)"

definition ntohs :: "nat \<Rightarrow> nat" where
  "ntohs n = be_val (le_bytes 2 n)"

definition ntohl :: "nat \<Rightarrow> nat" where
  "ntohl n = be_val (le_bytes 4 n)"

definition myntohll :: "nat \<Rightarrow> nat" where
  "myntohll n = (ntohl (n mod 2 ^ 32) * 2 ^ 32 + ntohl ((n div 2 ^ 32) mod 2 ^ 32)) mod 2 ^ 64"

definition myhtonll :: "nat \<Rightarrow> nat" where
  "myhtonll n = (htonl (n mod 2 ^ 32) * 2 ^ 32 + htonl ((n div 2 ^ 32) mod 2 ^ 32)) mod 2 ^ 64"

definition get_u16 :: "bytes \<Rightarrow> nat \<Rightarrow> nat option" where
  "get_u16 p off = map_option (\<lambda>b. ntohs (le_val b)) (memrd p off 2)"

definition get_u32 :: "bytes \<Rightarrow> nat \<Rightarrow> nat option" where
  "get_u32 p off = map_option (\<lambda>b. ntohl (le_val b)) (memrd p off 4)"

definition set_u16 :: "bytes \<Rightarrow> nat \<Rightarrow> nat \<Rightarrow> bytes option" where
  "set_u16 p off v = memwr p off (le_bytes 2 (htons v))"

definition set_u32 :: "bytes \<Rightarrow> nat \<Rightarrow> nat \<Rightarrow> bytes option" where
  "set_u32 p off v = memwr p off (le_bytes 4 (htonl v))"

lemma le_bytes_le_val': "length bs = k \<Longrightarrow> le_bytes k (le_val bs) = bs"
  using le_bytes_le_val [of bs] by simp

lemma be_bytes_be_val': "length bs = k \<Longrightarrow> be_bytes k (be_val bs) = bs"
  using be_bytes_be_val [of bs] by simp

lemma be_val_be_bytes_mod: "be_val (be_bytes k n) = n mod 256 ^ k"
  by (simp add: be_val_def be_bytes_def le_val_le_bytes_mod)

lemma host_order [codec_simps]:
  "le_bytes 2 (htons v) = be_bytes 2 v"
  "le_bytes 4 (htonl v) = be_bytes 4 v"
  "length b = 2 \<Longrightarrow> ntohs (le_val b) = be_val b"
  "length b = 4 \<Longrightarrow> ntohl (le_val b) = be_val b"
  by (simp_all add: htons_def htonl_def ntohs_def ntohl_def le_bytes_le_val')

lemma get_u16_slice: "off + 2 \<le> length p \<Longrightarrow> get_u16 p off = Some (be_val (slice p off 2))"
  by (simp add: get_u16_def memrd_Some codec_simps)

lemma get_u32_slice: "off + 4 \<le> length p \<Longrightarrow> get_u32 p off = Some (be_val (slice p off 4))"
  by (simp add: get_u32_def memrd_Some codec_simps)

lemma set_u16_overlay: "off + 2 \<le> length p \<Longrightarrow> set_u16 p off v = Some (overlay p off (be_bytes 2 v))"
  by (simp add: set_u16_def memwr_Some codec_simps)

lemma set_u32_overlay: "off + 4 \<le> length p \<Longrightarrow> set_u32 p off v = Some (overlay p off (be_bytes 4 v))"
  by (simp add: set_u32_def memwr_Some codec_simps)

lemma get_u32_lt: "get_u32 p off = Some v \<Longrightarrow> v < 2 ^ 32"
  using be_val_lt [of "slice p off 4"]
  by (cases "off + 4 \<le> length p") (auto simp: get_u32_slice, simp add: get_u32_def memrd_None)

section \<open>64-bit values\<close>

lemma le_bytes_add: "le_bytes (j + k) n = le_bytes j n @ le_bytes k (n div 256 ^ j)"
  by (induction j arbitrary: n) (simp_all add: div_mult2_eq)

lemma le_bytes_mod: "j \<le> k \<Longrightarrow> le_bytes j (n mod 256 ^ k) = le_bytes j n"
proof (induction j arbitrary: n k)
  case (Suc j)
  then obtain k' where k: "k = Suc k'" by (cases k) auto
  have "n mod 256 ^ k div 256 = (n div 256) mod 256 ^ k'"
    unfolding k power_Suc mod_mult2_eq by simp
  moreover have "(word_of_nat (n mod 256 ^ k) :: byte) = word_of_nat n"
    by (rule word_unat_eq_iff [THEN iffD2]) (simp add: unat_of_nat k mod_mult2_eq del: of_nat_add of_nat_mult)
  ultimately show ?case using Suc k by simp
qed simp

lemma be_bytes_add: "be_bytes (j + k) n = be_bytes k (n div 256 ^ j) @ be_bytes j n"
  by (simp add: be_bytes_def le_bytes_add)

lemma be_bytes_mod: "be_bytes k (n mod 256 ^ k) = be_bytes k n"
  by (simp add: be_bytes_def le_bytes_mod)

lemma le_val_append: "le_val (as @ bs) = le_val as + 256 ^ length as * le_val bs"
  by (induction as) (simp_all add: algebra_simps)

lemma myhtonll_bytes [codec_simps]: "le_bytes 8 (myhtonll v) = be_bytes 8 v"
proof -
  define hi lo where "hi = be_bytes 4 (v div 2 ^ 32)" and "lo = be_bytes 4 v"
  have p: "(2::nat) ^ 32 = 256 ^ 4" "(2::nat) ^ 64 = 256 ^ 8" by simp_all
  have l: "length hi = 4" "length lo = 4" by (simp_all add: hi_def lo_def)
  have "htonl (v mod 2 ^ 32) = le_val lo"
    unfolding htonl_def lo_def p be_bytes_mod ..
  moreover have "htonl ((v div 2 ^ 32) mod 2 ^ 32) = le_val hi"
    unfolding htonl_def hi_def p be_bytes_mod ..
  ultimately have "myhtonll v = le_val (hi @ lo) mod 256 ^ 8"
    unfolding myhtonll_def le_val_append l p by (simp add: algebra_simps)
  then have "le_bytes 8 (myhtonll v) = le_bytes 8 (le_val (hi @ lo))"
    using le_bytes_mod [of 8 8 "le_val (hi @ lo)"] by simp
  also have "\<dots> = hi @ lo" using l by (intro le_bytes_le_val') simp
  also have "\<dots> = be_bytes (4 + 4) v" unfolding hi_def lo_def p by (rule be_bytes_add [symmetric])
  finally show ?thesis by simp
qed

lemma myntohll_bytes [codec_simps]: "length b = 8 \<Longrightarrow> myntohll (le_val b) = be_val b"
proof -
  assume b: "length b = 8"
  define lo hi where "lo = take 4 b" and "hi = drop 4 b"
  have l: "length lo = 4" "length hi = 4" "b = lo @ hi" by (simp_all add: lo_def hi_def b)
  have p: "(2::nat) ^ 32 = 256 ^ 4" "(2::nat) ^ 64 = 256 ^ 8" by simp_all
  have lt: "le_val lo < 256 ^ 4" "le_val hi < 256 ^ 4" "be_val b < 256 ^ 8"
    using le_val_lt [of lo] le_val_lt [of hi] be_val_lt [of b] by (simp_all only: l(1,2) b)
  have "le_val b mod 256 ^ 4 = le_val lo"
    unfolding l(3) le_val_append l(1) using lt(1) by simp
  moreover have "le_val b div 256 ^ 4 = le_val hi"
    unfolding l(3) le_val_append l(1) using lt(1) by simp
  ultimately have "myntohll (le_val b) = (be_val lo * 256 ^ 4 + be_val hi) mod 256 ^ 8"
    unfolding myntohll_def p using lt(2) l by (simp add: codec_simps)
  also have "be_val lo * 256 ^ 4 + be_val hi = be_val b"
    unfolding be_val_def l(3) rev_append le_val_append by (simp add: l(2))
  finally show ?thesis using lt(3) by simp
qed

end
