(* ===== verification/PacketHeader.thy ===== *)
theory PacketHeader
  imports NetOrder
begin

text \<open>
  The packet header of \<open>libprotocol/include/protocol_pack.h\<close>: a packet is a byte area
  \<open>p\<close>, every field is reached through a fixed offset, and every access is checked against
  the area (\<open>None\<close> when it leaves it).  The 29-byte header is followed by the body, an
  optional cookie (two length bytes and the data, whose position stands in the low 24 bits
  of the reserved field) and the end mark.
\<close>

definition SOH :: byte where "SOH = 74"
definition EOT :: byte where "EOT = 87"
definition MAIN_VER :: byte where "MAIN_VER = 1"
definition SUB_VER :: byte where "SUB_VER = 0"
definition ENC_TYPE_NONE :: byte where "ENC_TYPE_NONE = 0"
definition ENC_TYPE_TEA :: byte where "ENC_TYPE_TEA = 1"
definition SOURCE_TYPE_IM_CLIENT :: byte where "SOURCE_TYPE_IM_CLIENT = 1"

definition MSG_MAIN_CMD_POS :: nat where "MSG_MAIN_CMD_POS = 7"
definition MSG_SUB_CMD_POS :: nat where "MSG_SUB_CMD_POS = 9"
definition MSG_SEQ_POS :: nat where "MSG_SEQ_POS = 11"
definition MSG_FROM_UIN_POS :: nat where "MSG_FROM_UIN_POS = 15"
definition MSG_TO_UIN_POS :: nat where "MSG_TO_UIN_POS = 19"
definition MSG_ENC_TYPE_POS :: nat where "MSG_ENC_TYPE_POS = 23"
definition MSG_SOURCE_TYPE_POS :: nat where "MSG_SOURCE_TYPE_POS = 24"
definition MSG_REV_POS :: nat where "MSG_REV_POS = 25"
definition MSG_HEADER_LEN :: nat where "MSG_HEADER_LEN = 29"

lemmas msg_pos = MSG_MAIN_CMD_POS_def MSG_SUB_CMD_POS_def MSG_SEQ_POS_def MSG_FROM_UIN_POS_def
  MSG_TO_UIN_POS_def MSG_ENC_TYPE_POS_def MSG_SOURCE_TYPE_POS_def MSG_REV_POS_def MSG_HEADER_LEN_def

record msg_header =
  soh :: byte
  main_ver :: byte
  sub_ver :: byte
  pack_len :: nat
  main_cmd :: nat
  sub_cmd :: nat
  seq :: nat
  from_uin :: nat
  to_uin :: nat
  enc_type :: byte
  source_type :: byte
  rev_field :: nat

text \<open>The constructor leaves \<open>pack_len\<close> unset: \<open>junk\<close> is what the memory held.\<close>

definition MsgHeader :: "nat \<Rightarrow> msg_header" where
  "MsgHeader junk =
     \<lparr>soh = SOH, main_ver = MAIN_VER, sub_ver = SUB_VER, pack_len = junk, main_cmd = 0, sub_cmd = 0,
      seq = 0, from_uin = 0, to_uin = 0, enc_type = ENC_TYPE_NONE,
      source_type = SOURCE_TYPE_IM_CLIENT, rev_field = 0\<rparr>"

section \<open>Field access\<close>

definition GetPackLen :: "bytes \<Rightarrow> nat option" where
  "GetPackLen p = get_u32 p 3"

definition SetPackLen :: "bytes \<Rightarrow> nat \<Rightarrow> bytes option" where
  "SetPackLen p len = set_u32 p 3 len"

definition SetPackCmd :: "bytes \<Rightarrow> nat \<Rightarrow> nat \<Rightarrow> bytes option" where
  "SetPackCmd p main sub =
     do { p \<leftarrow> set_u16 p MSG_MAIN_CMD_POS main; set_u16 p (MSG_MAIN_CMD_POS + 2) sub }"

definition GetPackCmd :: "bytes \<Rightarrow> (nat \<times> nat) option" where
  "GetPackCmd p =
     do { main \<leftarrow> get_u16 p MSG_MAIN_CMD_POS;
          sub \<leftarrow> get_u16 p (MSG_MAIN_CMD_POS + 2);
          Some (main, sub) }"

definition SetFromUin :: "bytes \<Rightarrow> nat \<Rightarrow> bytes option" where
  "SetFromUin p uin = set_u32 p MSG_FROM_UIN_POS uin"

definition GetFromUin :: "bytes \<Rightarrow> nat option" where
  "GetFromUin p = get_u32 p MSG_FROM_UIN_POS"

definition SetToUin :: "bytes \<Rightarrow> nat \<Rightarrow> bytes option" where
  "SetToUin p uin = set_u32 p MSG_TO_UIN_POS uin"

definition GetToUin :: "bytes \<Rightarrow> nat option" where
  "GetToUin p = get_u32 p MSG_TO_UIN_POS"

definition SetSequence :: "bytes \<Rightarrow> nat \<Rightarrow> bytes option" where
  "SetSequence p s = set_u32 p MSG_SEQ_POS s"

definition GetSequence :: "bytes \<Rightarrow> nat option" where
  "GetSequence p = get_u32 p MSG_SEQ_POS"

text \<open>
  The reserved field holds a byte in its top 8 bits and the cookie position in the low 24:
  \<open>(rev << 24) | (reserve & 0x00FFFFFF)\<close> is written with \<open>mod\<close> and \<open>div\<close>.
\<close>

definition SetReserve :: "bytes \<Rightarrow> nat \<Rightarrow> bytes option" where
  "SetReserve p r =
     do { reserve \<leftarrow> get_u32 p MSG_REV_POS;
          set_u32 p MSG_REV_POS ((r mod 2 ^ 8) * 2 ^ 24 + reserve mod 2 ^ 24) }"

definition GetReserve :: "bytes \<Rightarrow> nat option" where
  "GetReserve p = do { reserve \<leftarrow> get_u32 p MSG_REV_POS; Some (reserve div 2 ^ 24) }"

definition SetCookiePos :: "bytes \<Rightarrow> nat \<Rightarrow> bytes option" where
  "SetCookiePos p pos =
     do { reserve \<leftarrow> get_u32 p MSG_REV_POS;
          set_u32 p MSG_REV_POS ((reserve div 2 ^ 24) * 2 ^ 24 + pos mod 2 ^ 24) }"

definition GetCookiePos :: "bytes \<Rightarrow> nat option" where
  "GetCookiePos p = do { reserve \<leftarrow> get_u32 p MSG_REV_POS; Some (reserve mod 2 ^ 24) }"

definition GetEncType :: "bytes \<Rightarrow> byte option" where
  "GetEncType p = map_option hd (memrd p MSG_ENC_TYPE_POS 1)"

definition SetEncType :: "bytes \<Rightarrow> byte \<Rightarrow> bytes option" where
  "SetEncType p t = memwr p MSG_ENC_TYPE_POS [t]"

section \<open>Cookies\<close>

text \<open>
  \<open>SetCookie p len ck\<close> returns the code and the changed packet; \<open>len\<close> is the size of the
  caller's buffer.  The comparison and the updates of \<open>pack_len\<close> are unsigned.
\<close>

definition SetCookie :: "bytes \<Rightarrow> nat \<Rightarrow> bytes \<Rightarrow> (int \<times> bytes) option" where
  "SetCookie p len ck =
     do { pack_len \<leftarrow> GetPackLen p;
          ck_pos \<leftarrow> GetCookiePos p;
          (l, pack_len) \<leftarrow>
            (if ck_pos = 0 then Some (sub32 pack_len 1, pack_len)
             else do { ori_ck_len \<leftarrow> get_u16 p ck_pos; Some (ck_pos, sub32 pack_len (2 + ori_ck_len)) });
          if len < add32 pack_len (2 + length ck) then Some (- 1, p)
          else do { p \<leftarrow> set_u16 p l (length ck);
                    p \<leftarrow> memwr p (l + 2) ck;
                    p \<leftarrow> memwr p (l + 2 + length ck) [EOT];
                    p \<leftarrow> SetCookiePos p (sub32 pack_len 1);
                    p \<leftarrow> SetPackLen p (add32 pack_len (2 + length ck));
                    Some (s32_of_nat (add32 pack_len (2 + length ck)), p) } }"

definition SetCookie_str :: "bytes \<Rightarrow> nat \<Rightarrow> bytes \<Rightarrow> (int \<times> bytes) option" where
  "SetCookie_str p len cookie =
     (if 0xFFFF < length cookie then Some (- 2, p) else SetCookie p len cookie)"

text \<open>
  \<open>GetCookie p cap\<close>: the buffer of the caller has \<open>cap\<close> bytes; the result is the code, the
  bytes copied and the length reported.
\<close>

definition GetCookie :: "bytes \<Rightarrow> nat \<Rightarrow> (int \<times> bytes \<times> nat) option" where
  "GetCookie p cap =
     do { ck_pos \<leftarrow> GetCookiePos p;
          if ck_pos = 0 then Some (0, [], 0)
          else do { ck_len \<leftarrow> get_u16 p ck_pos;
                    if cap < ck_len then Some (- 1, [], ck_len)
                    else do { v \<leftarrow> memrd p (ck_pos + 2) ck_len; Some (0, v, ck_len) } } }"

definition GetCookie_str :: "bytes \<Rightarrow> bytes \<Rightarrow> (int \<times> bytes) option" where
  "GetCookie_str p ck =
     do { ck_pos \<leftarrow> GetCookiePos p;
          if ck_pos = 0 then Some (0, ck)
          else do { ck_len \<leftarrow> get_u16 p ck_pos;
                    if ck_len = 0 then Some (0, [])
                    else do { v \<leftarrow> memrd p (ck_pos + 2) ck_len; Some (0, v) } } }"

definition DelCookie :: "bytes \<Rightarrow> (int \<times> bytes) option" where
  "DelCookie p =
     do { pack_len \<leftarrow> GetPackLen p;
          ck_pos \<leftarrow> GetCookiePos p;
          if ck_pos \<le> MSG_HEADER_LEN \<or> pack_len \<le> ck_pos then Some (s32_of_nat pack_len, p)
          else do { ck_len \<leftarrow> get_u16 p ck_pos;
                    let pack_len = sub32 pack_len (2 + ck_len);
                    p \<leftarrow> memwr p ck_pos [EOT];
                    p \<leftarrow> SetCookiePos p 0;
                    p \<leftarrow> SetPackLen p pack_len;
                    Some (s32_of_nat pack_len, p) } }"

section \<open>The header as a byte string\<close>

definition hdr :: "msg_header \<Rightarrow> nat \<Rightarrow> nat \<Rightarrow> bytes" where
  "hdr h n r = [soh h, main_ver h, sub_ver h] @ be_bytes 4 n @ be_bytes 2 (main_cmd h) @
     be_bytes 2 (sub_cmd h) @ be_bytes 4 (seq h) @ be_bytes 4 (from_uin h) @ be_bytes 4 (to_uin h) @
     [enc_type h, source_type h] @ be_bytes 4 r"

lemma length_hdr [simp]: "length (hdr h n r) = 29"
  by (simp add: hdr_def)

lemma memrd_hdr [mem_simps]: "29 \<le> p \<Longrightarrow> memrd (hdr h n r @ xs) p k = memrd xs (p - 29) k"
  by (auto simp: memrd_def)

lemma memwr_hdr [mem_simps]:
  "29 \<le> p \<Longrightarrow> memwr (hdr h n r @ xs) p ys = map_option (\<lambda>xs. hdr h n r @ xs) (memwr xs (p - 29) ys)"
  by (auto simp: memwr_def)

lemma get_u16_hdr: "29 \<le> p \<Longrightarrow> get_u16 (hdr h n r @ xs) p = get_u16 xs (p - 29)"
  by (simp add: get_u16_def memrd_hdr)

lemma set_u16_hdr:
  "29 \<le> p \<Longrightarrow> set_u16 (hdr h n r @ xs) p v = map_option (\<lambda>xs. hdr h n r @ xs) (set_u16 xs (p - 29) v)"
  by (simp add: set_u16_def memwr_hdr)

lemma slice_hdr:
  "slice (hdr h n r @ xs) 3 4 = be_bytes 4 n"
  "slice (hdr h n r @ xs) 7 2 = be_bytes 2 (main_cmd h)"
  "slice (hdr h n r @ xs) 9 2 = be_bytes 2 (sub_cmd h)"
  "slice (hdr h n r @ xs) 11 4 = be_bytes 4 (seq h)"
  "slice (hdr h n r @ xs) 15 4 = be_bytes 4 (from_uin h)"
  "slice (hdr h n r @ xs) 19 4 = be_bytes 4 (to_uin h)"
  "slice (hdr h n r @ xs) 23 1 = [enc_type h]"
  "slice (hdr h n r @ xs) 24 1 = [source_type h]"
  "slice (hdr h n r @ xs) 25 4 = be_bytes 4 r"
  "slice (hdr h n r @ xs) 0 1 = [soh h]"
  "slice (hdr h n r @ xs) 1 1 = [main_ver h]"
  "slice (hdr h n r @ xs) 2 1 = [sub_ver h]"
  by (simp_all add: hdr_def slice_def)

lemma overlay_hdr:
  "overlay (hdr h n r @ xs) 3 (be_bytes 4 m) = hdr h m r @ xs"
  "overlay (hdr h n r @ xs) 25 (be_bytes 4 m) = hdr h n m @ xs"
  by (simp_all add: hdr_def overlay_def)

lemma GetPackLen_hdr [simp]: "n < 2 ^ 32 \<Longrightarrow> GetPackLen (hdr h n r @ xs) = Some n"
  by (simp add: GetPackLen_def get_u32_slice slice_hdr codec_simps)

lemma SetPackLen_hdr [simp]: "SetPackLen (hdr h n r @ xs) m = Some (hdr h m r @ xs)"
  by (simp add: SetPackLen_def set_u32_overlay overlay_hdr)

lemma get_rev_hdr: "r < 2 ^ 32 \<Longrightarrow> get_u32 (hdr h n r @ xs) 25 = Some r"
  by (simp add: get_u32_slice slice_hdr codec_simps)

lemma GetCookiePos_hdr [simp]: "r < 2 ^ 32 \<Longrightarrow> GetCookiePos (hdr h n r @ xs) = Some (r mod 2 ^ 24)"
  by (simp add: GetCookiePos_def msg_pos get_rev_hdr)

lemma SetCookiePos_hdr [simp]:
  "r < 2 ^ 32 \<Longrightarrow> SetCookiePos (hdr h n r @ xs) pos =
     Some (hdr h n (r div 2 ^ 24 * 2 ^ 24 + pos mod 2 ^ 24) @ xs)"
  by (simp add: SetCookiePos_def msg_pos get_rev_hdr set_u32_overlay overlay_hdr)

lemma GetEncType_hdr [simp]: "GetEncType (hdr h n r @ xs) = Some (enc_type h)"
  using slice_hdr(7) [of h n r xs] by (simp add: GetEncType_def msg_pos memrd_Some)

section \<open>Whole packets\<close>

text \<open>
  \<open>packet h body ck\<close> is the packet with the fields of \<open>h\<close>, the body and, if there is one, the
  cookie; the high byte of the reserved field is the application's, the low 24 bits are the
  position of the cookie.
\<close>

definition user_rev :: "msg_header \<Rightarrow> nat" where
  "user_rev h = rev_field h mod 2 ^ 32 div 2 ^ 24 * 2 ^ 24"

definition cookie_bytes :: "bytes option \<Rightarrow> bytes" where
  "cookie_bytes ck = (case ck of None \<Rightarrow> [] | Some c \<Rightarrow> be_bytes 2 (length c) @ c)"

definition packet :: "msg_header \<Rightarrow> bytes \<Rightarrow> bytes option \<Rightarrow> bytes" where
  "packet h body ck =
     hdr h (30 + length body + length (cookie_bytes ck))
         (user_rev h + (if ck = None then 0 else 29 + length body)) @
     body @ cookie_bytes ck @ [EOT]"

definition packet_fits :: "bytes \<Rightarrow> bytes option \<Rightarrow> bool" where
  "packet_fits body ck \<longleftrightarrow> 30 + length body + length (cookie_bytes ck) < 2 ^ 24 \<and>
     (\<forall>c. ck = Some c \<longrightarrow> length c < 2 ^ 16)"

lemma length_packet [simp]: "length (packet h body ck) = 30 + length body + length (cookie_bytes ck)"
  by (simp add: packet_def)

lemma cookie_bytes_simps [simp]:
  "cookie_bytes None = []" "cookie_bytes (Some c) = be_bytes 2 (length c) @ c"
  by (simp_all add: cookie_bytes_def)

lemma user_rev_props:
  "user_rev h \<le> 2 ^ 32 - 2 ^ 24" "user_rev h mod 2 ^ 24 = 0"
  "pos < 2 ^ 24 \<Longrightarrow> (user_rev h + pos) div 2 ^ 24 * 2 ^ 24 = user_rev h"
  "pos < 2 ^ 24 \<Longrightarrow> (user_rev h + pos) mod 2 ^ 24 = pos"
  "pos < 2 ^ 24 \<Longrightarrow> user_rev h + pos < 2 ^ 32"
proof -
  have "rev_field h mod 2 ^ 32 div 2 ^ 24 \<le> 255"
    using div_le_mono [of "rev_field h mod 2 ^ 32" "2 ^ 32 - 1" "2 ^ 24"] by simp
  then show le: "user_rev h \<le> 2 ^ 32 - 2 ^ 24" by (simp add: user_rev_def)
  show "pos < 2 ^ 24 \<Longrightarrow> user_rev h + pos < 2 ^ 32" using le by simp
qed (simp_all add: user_rev_def)

lemma packet_lens:
  assumes "packet_fits body ck"
  shows "GetPackLen (packet h body ck @ junk) = Some (30 + length body + length (cookie_bytes ck))"
    "GetCookiePos (packet h body ck @ junk) = Some (if ck = None then 0 else 29 + length body)"
proof -
  let ?pos = "if ck = None then 0 else 29 + length body"
  have lt: "?pos < 2 ^ 24" "30 + length body + length (cookie_bytes ck) < 2 ^ 32"
    using assms by (auto simp: packet_fits_def)
  have "user_rev h + ?pos < 2 ^ 32" by (rule user_rev_props(5) [OF lt(1)])
  then show "GetCookiePos (packet h body ck @ junk) = Some ?pos"
    unfolding packet_def append_assoc by (simp only: GetCookiePos_hdr user_rev_props(4) [OF lt(1)])
  show "GetPackLen (packet h body ck @ junk) = Some (30 + length body + length (cookie_bytes ck))"
    unfolding packet_def append_assoc by (simp only: GetPackLen_hdr lt(2))
qed

text \<open>Access behind the header and the body.\<close>

lemma after_body:
  assumes "p = 29 + length body + i"
  shows "memrd (hdr h n r @ body @ ys) p k = memrd ys i k"
    "memwr (hdr h n r @ body @ ys) p zs = map_option (\<lambda>ys. hdr h n r @ body @ ys) (memwr ys i zs)"
    "get_u16 (hdr h n r @ body @ ys) p = get_u16 ys i"
    "set_u16 (hdr h n r @ body @ ys) p v = map_option (\<lambda>ys. hdr h n r @ body @ ys) (set_u16 ys i v)"
proof -
  show "memrd (hdr h n r @ body @ ys) p k = memrd ys i k" for k
    using assms by (auto simp: memrd_def)
  then show "get_u16 (hdr h n r @ body @ ys) p = get_u16 ys i" by (simp add: get_u16_def)
  show "memwr (hdr h n r @ body @ ys) p zs = map_option (\<lambda>ys. hdr h n r @ body @ ys) (memwr ys i zs)" for zs
    using assms by (auto simp: memwr_def)
  then show "set_u16 (hdr h n r @ body @ ys) p v = map_option (\<lambda>ys. hdr h n r @ body @ ys) (set_u16 ys i v)"
    by (simp add: set_u16_def)
qed

lemma get_u16_front: "n < 2 ^ 16 \<Longrightarrow> get_u16 (be_bytes 2 n @ ys) 0 = Some n"
  by (simp add: get_u16_slice slice_def codec_simps)

lemma cookie_write:
  assumes "length c + 3 \<le> length ys"
  shows "(do { ys \<leftarrow> set_u16 ys 0 (length c); ys \<leftarrow> memwr ys 2 c; memwr ys (2 + length c) [EOT] }) =
    Some ((be_bytes 2 (length c) @ c @ [EOT]) @ drop (3 + length c) ys)"
  using assms by (simp add: set_u16_overlay memwr_Some overlay_join) (simp add: overlay_def numeral_3_eq_3)

lemma SetCookie_packet:
  assumes fits: "packet_fits body ck" "packet_fits body (Some c)"
    and buf: "buf = packet h body ck @ junk" and len: "len \<le> length buf"
  defines "n \<equiv> 32 + length body + length c"
  shows "SetCookie buf len c =
    Some (if len < n then (- 1, buf) else (int n, packet h body (Some c) @ drop n buf))"
proof -
  define pos where "pos = (if ck = None then 0 else 29 + length body)"
  define r where "r = user_rev h + pos"
  define m where "m = 30 + length body + length (cookie_bytes ck)"
  define ys where "ys = cookie_bytes ck @ [EOT] @ junk"
  have b: "buf = hdr h m r @ body @ ys" by (simp add: buf packet_def ys_def m_def r_def pos_def)
  have small: "30 + length body < 2 ^ 24" "n < 2 ^ 24" "m < 2 ^ 24" "pos < 2 ^ 24" "r < 2 ^ 32"
    using fits user_rev_props(5) [of pos h] by (auto simp: packet_fits_def n_def m_def r_def pos_def)
  have lens: "GetPackLen buf = Some m" "GetCookiePos buf = Some pos"
    using packet_lens [OF fits(1), of h junk] by (simp_all add: buf m_def pos_def)
  have start: "(if pos = 0 then Some (sub32 m 1, m)
      else do { ori_ck_len \<leftarrow> get_u16 buf pos; Some (pos, sub32 m (2 + ori_ck_len)) })
    = Some (29 + length body, 30 + length body)"
  proof (cases ck)
    case None
    then show ?thesis using small(1) by (simp add: m_def pos_def)
  next
    case (Some c0)
    have "length c0 < 2 ^ 16" using fits(1) Some by (simp add: packet_fits_def)
    then have "get_u16 buf (29 + length body) = Some (length c0)"
      unfolding b ys_def Some by (simp add: after_body(3) [where i = 0] get_u16_front)
    then show ?thesis using Some small(3) by (simp add: m_def pos_def)
  qed
  have n: "add32 (30 + length body) (2 + length c) = n" using small(2) by (simp add: n_def)
  show ?thesis
  proof (cases "len < n")
    case True
    then show ?thesis unfolding SetCookie_def
      by (simp only: lens start n bind.bind_lunit prod.case if_True)
  next
    case False
    then have "length c + 3 \<le> length ys" using len by (simp add: b n_def)
    then obtain y1 y2 where y: "set_u16 ys 0 (length c) = Some y1" "memwr y1 2 c = Some y2"
        "memwr y2 (2 + length c) [EOT] = Some ((be_bytes 2 (length c) @ c @ [EOT]) @ drop (3 + length c) ys)"
      using cookie_write [of c ys] by (auto simp: bind_eq_Some_conv)
    let ?y3 = "(be_bytes 2 (length c) @ c @ [EOT]) @ drop (3 + length c) ys"
    have p: "sub32 (30 + length body) 1 = 29 + length body" using small(1) by simp
    have r: "r div 2 ^ 24 * 2 ^ 24 + (29 + length body) mod 2 ^ 24 = user_rev h + (29 + length body)"
      using user_rev_props(3) [OF small(4), of h] small(1) by (simp add: r_def)
    have steps: "set_u16 buf (29 + length body) (length c) = Some (hdr h m r @ body @ y1)"
      "memwr (hdr h m r @ body @ y1) (29 + length body + 2) c = Some (hdr h m r @ body @ y2)"
      "memwr (hdr h m r @ body @ y2) (29 + length body + 2 + length c) [EOT] = Some (hdr h m r @ body @ ?y3)"
      using y unfolding b
      by (simp_all add: after_body(4) [where i = 0] after_body(2) [where i = 2]
          after_body(2) [where i = "2 + length c"])
    have cp: "SetCookiePos (hdr h m r @ body @ ?y3) (29 + length body) =
        Some (hdr h m (user_rev h + (29 + length body)) @ body @ ?y3)"
      by (simp only: SetCookiePos_hdr [OF small(5)] r)
    have "hdr h n (user_rev h + (29 + length body)) @ body @ ?y3 = packet h body (Some c) @ drop n buf"
      by (simp add: packet_def b n_def add.assoc)
    moreover have "s32_of_nat n = int n" using small(2) by simp
    ultimately show ?thesis
      unfolding SetCookie_def using False
      by (simp only: lens start n p steps cp SetPackLen_hdr bind.bind_lunit prod.case if_False)
  qed
qed

lemma GetCookie_packet:
  assumes "packet_fits body (Some c)"
  shows "GetCookie (packet h body (Some c) @ junk) cap =
      Some (if cap < length c then (- 1, [], length c) else (0, c, length c))"
    "GetCookie_str (packet h body (Some c) @ junk) old = Some (0, c)"
proof -
  let ?p = "packet h body (Some c) @ junk"
  have "length c < 2 ^ 16" using assms by (simp add: packet_fits_def)
  then have g: "get_u16 ?p (29 + length body) = Some (length c)"
    unfolding packet_def by (simp add: after_body(3) [where i = 0] get_u16_front)
  have m: "memrd ?p (29 + length body + 2) (length c) = Some c"
    unfolding packet_def by (simp add: after_body(1) [where i = 2]) (simp add: memrd_def)
  show "GetCookie ?p cap = Some (if cap < length c then (- 1, [], length c) else (0, c, length c))"
    unfolding GetCookie_def by (simp add: packet_lens(2) [OF assms] g m [simplified])
  show "GetCookie_str ?p old = Some (0, c)"
    unfolding GetCookie_str_def by (simp add: packet_lens(2) [OF assms] g m [simplified])
qed

lemma DelCookie_packet:
  assumes fits: "packet_fits body (Some c)" and buf: "buf = packet h body (Some c) @ junk"
  shows "DelCookie buf =
    Some (if body = [] then (int (32 + length c), buf)
          else (int (30 + length body), packet h body None @ drop (30 + length body) buf))"
proof -
  define n where "n = 32 + length body + length c"
  define r where "r = user_rev h + (29 + length body)"
  define ys where "ys = be_bytes 2 (length c) @ c @ [EOT] @ junk"
  have b: "buf = hdr h n r @ body @ ys" by (simp add: buf packet_def ys_def n_def r_def add.assoc)
  have small: "29 + length body < 2 ^ 24" "n < 2 ^ 24" "r < 2 ^ 32" "length c < 2 ^ 16"
    using fits user_rev_props(5) [of "29 + length body" h] by (auto simp: packet_fits_def n_def r_def)
  have lens: "GetPackLen buf = Some n" "GetCookiePos buf = Some (29 + length body)"
    using packet_lens [OF fits, of h junk] by (simp_all add: buf n_def)
  show ?thesis
  proof (cases "body = []")
    case True
    then show ?thesis using small(2) unfolding DelCookie_def
      by (simp add: lens msg_pos) (simp add: n_def)
  next
    case False
    have g: "get_u16 buf (29 + length body) = Some (length c)"
      using small(4) unfolding b ys_def by (simp add: after_body(3) [where i = 0] get_u16_front)
    have w: "memwr buf (29 + length body) [EOT] = Some (hdr h n r @ body @ EOT # drop 1 ys)"
      unfolding b by (simp add: after_body(2) [where i = 0]) (simp add: ys_def memwr_def)
    have s: "sub32 n (2 + length c) = 30 + length body" using small(2) by (simp add: n_def)
    have "r div 2 ^ 24 * 2 ^ 24 = user_rev h"
      using user_rev_props(3) [OF small(1), of h] by (simp add: r_def)
    then have c: "SetCookiePos (hdr h n r @ body @ EOT # drop 1 ys) 0 =
        Some (hdr h n (user_rev h) @ body @ EOT # drop 1 ys)"
      by (simp only: SetCookiePos_hdr [OF small(3)]) simp
    have "hdr h (30 + length body) (user_rev h) @ body @ EOT # drop 1 ys =
        packet h body None @ drop (30 + length body) buf"
      by (simp add: packet_def b)
    moreover have "\<not> (29 + length body \<le> MSG_HEADER_LEN \<or> n \<le> 29 + length body)"
      using False by (simp add: msg_pos n_def)
    moreover have "s32_of_nat (30 + length body) = int (30 + length body)" using small(1) by simp
    ultimately show ?thesis
      unfolding DelCookie_def using False
      by (simp only: lens g w s c SetPackLen_hdr bind.bind_lunit Let_def if_False)
  qed
qed

end
