(* ===== verification/Xxtea.thy ===== *)
theory Xxtea
  imports NetOrder
begin

text \<open>
  The XXTEA cipher of \<open>libprotocol/src/protocol_pack.cpp\<close>.  The vector is a list of 32-bit
  words, the key a list of at least four; \<open>sum\<close>, \<open>z\<close>, \<open>y\<close> are words, so all arithmetic
  wraps.  The byte-level entry points read the words in host order and leave the trailing
  \<open>len mod 4\<close> bytes alone.  The lemmas show that one round of decryption undoes one round
  of encryption, hence that decryption inverts encryption.
\<close>

type_synonym u32 = "32 word"

definition xxtea_delta :: u32 where
  "xxtea_delta = 0x9e3779b9"

definition xxtea_mx :: "u32 list \<Rightarrow> u32 \<Rightarrow> u32 \<Rightarrow> nat \<Rightarrow> u32 \<Rightarrow> u32 \<Rightarrow> u32" where
  "xxtea_mx k sm e p z y =
     (((drop_bit 5 z XOR push_bit 2 y) + (drop_bit 3 y XOR push_bit 4 z))
      XOR ((sm XOR y) + (k ! unat ((word_of_nat p AND 3) XOR e) XOR z)))"

definition xxtea_e :: "u32 \<Rightarrow> u32" where
  "xxtea_e sm = drop_bit 2 sm AND 3"

text \<open>One turn of the outer loop of the encryption: \<open>n\<close> is the last index.\<close>

definition xxtea_enc_round :: "u32 list \<Rightarrow> nat \<Rightarrow> u32 \<Rightarrow> u32 list \<Rightarrow> u32 \<Rightarrow> u32 list \<times> u32" where
  "xxtea_enc_round k n sm v z =
     (let e = xxtea_e sm;
          (v, z) = foldl (\<lambda>(v, z) p. let y = v ! (p + 1);
                                         z = v ! p + xxtea_mx k sm e p z y
                                     in (v[p := z], z)) (v, z) [0..<n];
          y = v ! 0;
          z = v ! n + xxtea_mx k sm e n z y
      in (v[n := z], z))"

primrec xxtea_enc_loop ::
    "nat \<Rightarrow> u32 list \<Rightarrow> nat \<Rightarrow> u32 \<Rightarrow> u32 list \<Rightarrow> u32 \<Rightarrow> u32 list" where
  "xxtea_enc_loop 0 k n sm v z = v"
| "xxtea_enc_loop (Suc q) k n sm v z =
     (let sm = sm + xxtea_delta; (v, z) = xxtea_enc_round k n sm v z
      in xxtea_enc_loop q k n sm v z)"

definition xxtea_long_encrypt :: "u32 list \<Rightarrow> nat \<Rightarrow> u32 list \<Rightarrow> u32 list option" where
  "xxtea_long_encrypt v len k =
     (if len = 0 \<or> length v < len \<or> length k < 4 then None
      else let n = len - 1; z = v ! n; q = 6 + 52 div (n + 1)
           in if n < 1 then Some v else Some (xxtea_enc_loop q k n 0 v z))"

definition xxtea_dec_round :: "u32 list \<Rightarrow> nat \<Rightarrow> u32 \<Rightarrow> u32 list \<Rightarrow> u32 \<Rightarrow> u32 list \<times> u32" where
  "xxtea_dec_round k n sm v y =
     (let e = xxtea_e sm;
          (v, y) = foldl (\<lambda>(v, y) p. let z = v ! (p - 1);
                                         y = v ! p - xxtea_mx k sm e p z y
                                     in (v[p := y], y)) (v, y) (rev [1..<n + 1]);
          z = v ! n;
          y = v ! 0 - xxtea_mx k sm e 0 z y
      in (v[0 := y], y))"

partial_function (option) xxtea_dec_loop ::
    "u32 list \<Rightarrow> nat \<Rightarrow> u32 \<Rightarrow> u32 list \<Rightarrow> u32 \<Rightarrow> u32 list option" where
  "xxtea_dec_loop k n sm v y =
     (if sm = 0 then Some v
      else let (v, y) = xxtea_dec_round k n sm v y
           in xxtea_dec_loop k n (sm - xxtea_delta) v y)"

definition xxtea_long_decrypt :: "u32 list \<Rightarrow> nat \<Rightarrow> u32 list \<Rightarrow> u32 list option" where
  "xxtea_long_decrypt v len k =
     (if len = 0 \<or> length v < len \<or> length k < 4 then None
      else let n = len - 1; y = v ! 0; q = 6 + 52 div (n + 1); sm = word_of_nat q * xxtea_delta
           in if n < 1 then Some v else xxtea_dec_loop k n sm v y)"

text \<open>The cast \<open>(unsigned int *)\<close> of a byte area.\<close>

fun words_of :: "bytes \<Rightarrow> u32 list" where
  "words_of (a # b # c # d # bs) = word_of_nat (le_val [a, b, c, d]) # words_of bs"
| "words_of _ = []"

definition bytes_of :: "u32 list \<Rightarrow> bytes" where
  "bytes_of ws = concat (map (\<lambda>w. le_bytes 4 (unat w)) ws)"

definition xxtea_encrypt :: "bytes \<Rightarrow> nat \<Rightarrow> bytes \<Rightarrow> bytes option" where
  "xxtea_encrypt v len key =
     (if len < 4 then Some v
      else map_option (\<lambda>w. bytes_of w @ drop (4 * (len div 4)) v)
             (xxtea_long_encrypt (words_of (take (4 * (len div 4)) v)) (len div 4) (words_of key)))"

definition xxtea_decrypt :: "bytes \<Rightarrow> nat \<Rightarrow> bytes \<Rightarrow> bytes option" where
  "xxtea_decrypt v len key =
     (if len < 4 then Some v
      else map_option (\<lambda>w. bytes_of w @ drop (4 * (len div 4)) v)
             (xxtea_long_decrypt (words_of (take (4 * (len div 4)) v)) (len div 4) (words_of key)))"

section \<open>One position of a round\<close>

text \<open>
  Seen from the outside a round updates the positions one after the other, each from its two
  cyclic neighbours.
\<close>

definition prev_ix :: "nat \<Rightarrow> nat \<Rightarrow> nat" where
  "prev_ix n p = (if p = 0 then n else p - 1)"

definition next_ix :: "nat \<Rightarrow> nat \<Rightarrow> nat" where
  "next_ix n p = (if p = n then 0 else p + 1)"

definition enc_at :: "(nat \<Rightarrow> u32 \<Rightarrow> u32 \<Rightarrow> u32) \<Rightarrow> nat \<Rightarrow> nat \<Rightarrow> u32 list \<Rightarrow> u32 list" where
  "enc_at mx n p v = v[p := v ! p + mx p (v ! prev_ix n p) (v ! next_ix n p)]"

definition dec_at :: "(nat \<Rightarrow> u32 \<Rightarrow> u32 \<Rightarrow> u32) \<Rightarrow> nat \<Rightarrow> nat \<Rightarrow> u32 list \<Rightarrow> u32 list" where
  "dec_at mx n p v = v[p := v ! p - mx p (v ! prev_ix n p) (v ! next_ix n p)]"

lemma length_enc_at [simp]: "length (enc_at mx n p v) = length v"
  by (simp add: enc_at_def)

lemma length_fold_enc_at [simp]: "length (fold (enc_at mx n) ps v) = length v"
  by (induction ps arbitrary: v) simp_all

lemma dec_enc_at: "0 < n \<Longrightarrow> n < length v \<Longrightarrow> p \<le> n \<Longrightarrow> dec_at mx n p (enc_at mx n p v) = v"
  by (simp add: dec_at_def enc_at_def prev_ix_def next_ix_def)

lemma fold_dec_enc:
  "0 < n \<Longrightarrow> n < length v \<Longrightarrow> (\<And>p. p \<in> set ps \<Longrightarrow> p \<le> n) \<Longrightarrow>
   fold (dec_at mx n) (rev ps) (fold (enc_at mx n) ps v) = v"
proof (induction ps arbitrary: v)
  case (Cons p ps)
  have "fold (dec_at mx n) (rev ps) (fold (enc_at mx n) ps (enc_at mx n p v)) = enc_at mx n p v"
    using Cons by simp
  then show ?case using Cons.prems by (simp add: dec_enc_at)
qed simp

lemma enc_inner:
  "m \<le> n \<Longrightarrow> n < length v \<Longrightarrow>
   foldl (\<lambda>(v, z) p. let y = v ! (p + 1); z = v ! p + mx p z y in (v[p := z], z)) (v, v ! n) [0..<m] =
     (fold (enc_at mx n) [0..<m] v, fold (enc_at mx n) [0..<m] v ! prev_ix n m)"
proof (induction m)
  case 0
  then show ?case by (simp add: prev_ix_def)
next
  case (Suc m)
  let ?F = "\<lambda>(v, z) p. let y = v ! (p + 1); z = v ! p + mx p z y in (v[p := z], z)"
  let ?W = "fold (enc_at mx n) [0..<m] v"
  have m: "m < length ?W" "m \<noteq> n" using Suc.prems by simp_all
  have "?F (?W, ?W ! prev_ix n m) m = (enc_at mx n m ?W, enc_at mx n m ?W ! m)"
    using m by (simp add: Let_def enc_at_def next_ix_def)
  moreover have "foldl ?F (v, v ! n) [0..<m] = (?W, ?W ! prev_ix n m)"
    using Suc by simp
  moreover have "prev_ix n (Suc m) = m" by (simp add: prev_ix_def)
  ultimately show ?case by simp
qed

lemma enc_round_eq:
  fixes sm :: u32 and k :: "u32 list"
  assumes "n < length v"
  defines "mx \<equiv> xxtea_mx k sm (xxtea_e sm)"
  shows "xxtea_enc_round k n sm v (v ! n) =
     (fold (enc_at mx n) [0..<n + 1] v, fold (enc_at mx n) [0..<n + 1] v ! n)"
proof -
  let ?w = "fold (enc_at mx n) [0..<n] v"
  have w: "n < length ?w" using assms(1) by simp
  have "xxtea_enc_round k n sm v (v ! n) =
     (let z = ?w ! n + mx n (?w ! prev_ix n n) (?w ! 0) in (?w[n := z], z))"
    unfolding xxtea_enc_round_def Let_def mx_def [symmetric]
    using enc_inner [OF order_refl assms(1), of mx] by (simp add: Let_def)
  also have "\<dots> = (enc_at mx n n ?w, enc_at mx n n ?w ! n)"
    using w by (simp add: Let_def enc_at_def next_ix_def)
  finally show ?thesis by simp
qed

lemma length_dec_at [simp]: "length (dec_at mx n p v) = length v"
  by (simp add: dec_at_def)

lemma length_fold_dec_at [simp]: "length (fold (dec_at mx n) ps v) = length v"
  by (induction ps arbitrary: v) simp_all

lemma dec_inner:
  "m \<le> n \<Longrightarrow> n < length v \<Longrightarrow>
   foldl (\<lambda>(v, y) p. let z = v ! (p - 1); y = v ! p - mx p z y in (v[p := y], y)) (v, v ! next_ix n m)
       (rev [1..<m + 1]) =
     (fold (dec_at mx n) (rev [1..<m + 1]) v,
      fold (dec_at mx n) (rev [1..<m + 1]) v ! (if m = 0 then next_ix n m else 1))"
proof (induction m arbitrary: v)
  case 0
  then show ?case by simp
next
  case (Suc m)
  let ?v = "dec_at mx n (Suc m) v"
  have s: "rev [1..<Suc m + 1] = Suc m # rev [1..<m + 1]" by simp
  have "?v ! next_ix n m = v ! Suc m - mx (Suc m) (v ! m) (v ! next_ix n (Suc m))"
    using Suc.prems by (simp add: dec_at_def next_ix_def prev_ix_def)
  then show ?case using Suc.IH [of ?v] Suc.prems unfolding s
    by (simp add: Let_def dec_at_def prev_ix_def next_ix_def)
qed

lemma dec_round_eq:
  fixes sm :: u32 and k :: "u32 list"
  assumes "0 < n" "n < length v"
  defines "mx \<equiv> xxtea_mx k sm (xxtea_e sm)"
  shows "xxtea_dec_round k n sm v (v ! 0) =
     (fold (dec_at mx n) (rev [0..<n + 1]) v, fold (dec_at mx n) (rev [0..<n + 1]) v ! 0)"
proof -
  let ?w = "fold (dec_at mx n) (rev [1..<n + 1]) v"
  have "next_ix n n = 0" by (simp add: next_ix_def)
  then have "xxtea_dec_round k n sm v (v ! 0) =
     (let y = ?w ! 0 - mx 0 (?w ! n) (?w ! 1) in (?w[0 := y], y))"
    unfolding xxtea_dec_round_def Let_def mx_def [symmetric]
    using dec_inner [OF order_refl assms(2), of mx] assms(1) by (simp add: Let_def)
  also have "\<dots> = (dec_at mx n 0 ?w, dec_at mx n 0 ?w ! 0)"
  proof -
    have "0 < length v" using assms(2) by linarith
    then have "0 < length ?w" by simp
    then show ?thesis using assms(1) by (simp add: Let_def dec_at_def next_ix_def prev_ix_def)
  qed
  also have "dec_at mx n 0 ?w = fold (dec_at mx n) (rev [0..<n + 1]) v"
    by (subst upt_rec [of 0]) simp
  finally show ?thesis .
qed

lemma dec_enc_round:
  assumes "0 < n" "n < length v" "xxtea_enc_round k n sm v (v ! n) = (w, z)"
  shows "length w = length v" "z = w ! n" "xxtea_dec_round k n sm w (w ! 0) = (v, v ! 0)"
proof -
  let ?mx = "xxtea_mx k sm (xxtea_e sm)"
  have w: "w = fold (enc_at ?mx n) [0..<n + 1] v" "z = w ! n"
    using assms(3) unfolding enc_round_eq [OF assms(2)] by auto
  show "length w = length v" "z = w ! n" using w by simp_all
  have "fold (dec_at ?mx n) (rev [0..<n + 1]) w = v"
    unfolding w(1) using assms(1,2) by (intro fold_dec_enc) auto
  then show "xxtea_dec_round k n sm w (w ! 0) = (v, v ! 0)"
    using dec_round_eq [OF assms(1), of w k sm] assms(2) w(1) by simp
qed

section \<open>The whole cipher\<close>

lemma enc_loop_length:
  "n < length v \<Longrightarrow> length (xxtea_enc_loop q k n sm v (v ! n)) = length v"
proof (induction q arbitrary: sm v)
  case (Suc q)
  obtain w z where w: "xxtea_enc_round k n (sm + xxtea_delta) v (v ! n) = (w, z)"
    by (cases "xxtea_enc_round k n (sm + xxtea_delta) v (v ! n)") auto
  then have "length w = length v" "z = w ! n"
    using enc_round_eq [OF Suc.prems, of k "sm + xxtea_delta"] by auto
  then show ?case using Suc.IH [of w] Suc.prems w by simp
qed simp

text \<open>
  Decrypting from the sum the encryption ended with walks back to its start, provided that no
  intermediate sum is zero.
\<close>

lemma dec_loop_enc_loop:
  assumes "0 < n"
  shows "n < length v \<Longrightarrow>
    (\<And>i. i < q \<Longrightarrow> sm + word_of_nat (Suc i) * xxtea_delta \<noteq> 0) \<Longrightarrow>
    xxtea_dec_loop k n (sm + word_of_nat q * xxtea_delta) (xxtea_enc_loop q k n sm v (v ! n))
      (xxtea_enc_loop q k n sm v (v ! n) ! 0) = xxtea_dec_loop k n sm v (v ! 0)"
proof (induction q arbitrary: sm v)
  case (Suc q)
  let ?s = "sm + xxtea_delta"
  obtain w z where w: "xxtea_enc_round k n ?s v (v ! n) = (w, z)"
    by (cases "xxtea_enc_round k n ?s v (v ! n)") auto
  note r = dec_enc_round [OF assms Suc.prems(1) w]
  have e: "xxtea_enc_loop (Suc q) k n sm v (v ! n) = xxtea_enc_loop q k n ?s w (w ! n)"
    using w r(2) by simp
  have s: "sm + word_of_nat (Suc q) * xxtea_delta = ?s + word_of_nat q * xxtea_delta"
    by (simp add: algebra_simps)
  have "?s \<noteq> 0" using Suc.prems(2) [of 0] by simp
  then have "xxtea_dec_loop k n ?s w (w ! 0) = xxtea_dec_loop k n sm v (v ! 0)"
    by (subst xxtea_dec_loop.simps) (simp add: r(3))
  moreover have "?s + word_of_nat (Suc i) * xxtea_delta \<noteq> 0" if "i < q" for i
    using Suc.prems(2) [of "Suc i"] that by (simp add: algebra_simps)
  ultimately show ?case
    using Suc.IH [of w ?s] Suc.prems(1) r(1) unfolding e s by simp
qed simp

lemma delta_multiples: "i < 32 \<Longrightarrow> (word_of_nat (Suc i) :: u32) * xxtea_delta \<noteq> 0"
proof -
  assume "i < 32"
  moreover have "\<forall>i \<in> set [0..<32]. (word_of_nat (Suc i) :: u32) * xxtea_delta \<noteq> 0"
    by (simp add: xxtea_delta_def upt_rec)
  ultimately show ?thesis by simp
qed

lemma rounds_le: "0 < n \<Longrightarrow> 6 + 52 div (n + 1) \<le> (32 :: nat)"
  using div_le_mono2 [of 2 "n + 1" 52] by simp

lemma long_decrypt_encrypt:
  assumes "0 < len" "length v = len" "4 \<le> length k"
  shows "\<exists>w. xxtea_long_encrypt v len k = Some w \<and> length w = len \<and> xxtea_long_decrypt w len k = Some v"
proof (cases "len - 1 < 1")
  case True
  then show ?thesis using assms by (simp add: xxtea_long_encrypt_def xxtea_long_decrypt_def)
next
  case False
  define n q where "n = len - 1" and "q = (6 + 52 div (n + 1) :: nat)"
  have n: "0 < n" "n < length v" "n + 1 = len" using False assms by (auto simp: n_def)
  let ?w = "xxtea_enc_loop q k n 0 v (v ! n)"
  have l: "length ?w = len" using enc_loop_length [OF n(2)] assms(2) by simp
  have nz: "0 + word_of_nat (Suc i) * xxtea_delta \<noteq> 0" if "i < q" for i
    using delta_multiples [of i] rounds_le [OF n(1)] that by (simp add: q_def)
  have "xxtea_dec_loop k n (0 + word_of_nat q * xxtea_delta) ?w (?w ! 0) = xxtea_dec_loop k n 0 v (v ! 0)"
    by (rule dec_loop_enc_loop [OF n(1,2) nz])
  then have "xxtea_dec_loop k n (word_of_nat q * xxtea_delta) ?w (?w ! 0) = Some v"
    by (simp add: xxtea_dec_loop.simps [of k n 0 v])
  moreover have "xxtea_long_decrypt ?w len k = xxtea_dec_loop k n (word_of_nat q * xxtea_delta) ?w (?w ! 0)"
    unfolding xxtea_long_decrypt_def Let_def n_def [symmetric] q_def [symmetric]
    using l assms(1,3) n(1) by simp
  moreover have "xxtea_long_encrypt v len k = Some ?w"
    unfolding xxtea_long_encrypt_def Let_def n_def [symmetric] q_def [symmetric]
    using assms n(1) by simp
  ultimately show ?thesis using l by auto
qed

section \<open>Bytes and words\<close>

lemma four_bytes: "length (xs :: bytes) = 4 \<Longrightarrow> \<exists>a b c d. xs = [a, b, c, d]"
  by (cases xs rule: words_of.cases) auto

lemma words_bytes_of: "words_of (bytes_of ws) = ws"
proof (induction ws)
  case (Cons w ws)
  obtain a b c d where l: "le_bytes 4 (unat w) = [a, b, c, d]"
    using four_bytes [OF length_le_bytes] by blast
  have "unat w < 256 ^ 4" using unsigned_less [of w] by simp
  then have "le_val [a, b, c, d] = unat w" unfolding l [symmetric] by (rule le_val_le_bytes)
  then show ?case using Cons by (simp add: bytes_of_def l del: le_val.simps)
qed (simp add: bytes_of_def)

lemma bytes_words_of: "length bs = 4 * m \<Longrightarrow> bytes_of (words_of bs) = bs \<and> length (words_of bs) = m"
proof (induction bs arbitrary: m rule: words_of.induct)
  case (1 a b c d bs)
  then obtain m' where m: "m = Suc m'" by (cases m) auto
  have lt: "le_val [a, b, c, d] < 2 ^ 32" using le_val_lt [of "[a, b, c, d]"] by simp
  have "le_bytes 4 (unat (word_of_nat (le_val [a, b, c, d]) :: u32)) = [a, b, c, d]"
  proof -
    have "unat (word_of_nat (le_val [a, b, c, d]) :: u32) = le_val [a, b, c, d]"
      using lt by (simp add: unat_of_nat del: le_val.simps)
    then show ?thesis by (simp add: le_bytes_le_val' del: le_val.simps)
  qed
  then show ?case using 1 m by (simp add: bytes_of_def del: le_val.simps)
qed (auto simp: bytes_of_def, presburger+)

lemma length_bytes_of [simp]: "length (bytes_of ws) = 4 * length ws"
  by (induction ws) (simp_all add: bytes_of_def)

lemma xxtea_decrypt_encrypt:
  assumes "length v = len" "length key = 16"
  shows "\<exists>w. xxtea_encrypt v len key = Some w \<and> length w = len \<and> xxtea_decrypt w len key = Some v"
proof (cases "len < 4")
  case True
  then show ?thesis using assms by (simp add: xxtea_encrypt_def xxtea_decrypt_def)
next
  case False
  define m where "m = len div 4"
  have m: "0 < m" "4 * m \<le> len" using False by (auto simp: m_def)
  let ?v = "take (4 * m) v"
  have lv: "length ?v = 4 * m" using m assms by simp
  have wv: "bytes_of (words_of ?v) = ?v" "length (words_of ?v) = m" using bytes_words_of [OF lv] by auto
  have "4 \<le> length (words_of key)" using bytes_words_of [of key 4] assms(2) by simp
  from long_decrypt_encrypt [OF m(1) wv(2) this]
  obtain w where w: "xxtea_long_encrypt (words_of ?v) m (words_of key) = Some w" "length w = m"
      "xxtea_long_decrypt w m (words_of key) = Some (words_of ?v)" by auto
  have "xxtea_encrypt v len key = Some (bytes_of w @ drop (4 * m) v)"
    using False w(1) by (simp add: xxtea_encrypt_def m_def)
  moreover have "xxtea_decrypt (bytes_of w @ drop (4 * m) v) len key = Some v"
    using False w(2,3) wv(1) by (simp add: xxtea_decrypt_def m_def [symmetric] words_bytes_of)
  moreover have "length (bytes_of w @ drop (4 * m) v) = len" using m assms w(2) by simp
  ultimately show ?thesis by blast
qed

lemma xxtea_short: "len < 8 \<Longrightarrow> length v = len \<Longrightarrow> length key = 16 \<Longrightarrow> xxtea_encrypt v len key = Some v"
proof (cases "len < 4")
  case False
  assume a: "len < 8" "length v = len" "length key = 16"
  then have m: "len div 4 = 1" using False by simp
  have "bytes_of (words_of (take 4 v)) = take 4 v \<and> length (words_of (take 4 v)) = 1"
    using bytes_words_of [of "take 4 v" 1] a False by simp
  moreover have "length (words_of key) = 4" using bytes_words_of [of key 4] a(3) by simp
  ultimately show ?thesis using False m by (simp add: xxtea_encrypt_def xxtea_long_encrypt_def)
qed (simp add: xxtea_encrypt_def)

end
