(* ===== verification/Packer.thy ===== *)
theory Packer
  imports PacketHeader Xxtea
begin

text \<open>
  \<open>Packer\<close> and \<open>FixedPacker\<close> of \<open>libprotocol/src/protocol_pack.cpp\<close>.  A packer is the byte
  string its stream holds; a fixed packer is a record of the caller's buffer, the tail, the
  size the caller announced and the sticky error.  The locale \<open>body_packer\<close> is what both
  promise and what the request templates rely on: an item that fits is appended to the body.
  The stack contents the packet buffers start with, the formatting of doubles by
  \<open>sprintf\<close> and the memory of a caller are parameters.
\<close>

definition RET_OK :: nat where "RET_OK = 0"
definition ERR_PROTOCOL :: nat where "ERR_PROTOCOL = 1"
definition ERR_ENC_TYPE :: nat where "ERR_ENC_TYPE = 2"
definition ERR_PROTOCOL_VER :: nat where "ERR_PROTOCOL_VER = 3"

lemmas proto_codes = RET_OK_def ERR_PROTOCOL_def ERR_ENC_TYPE_def ERR_PROTOCOL_VER_def

definition in_area :: "(bytes \<Rightarrow> bytes option) \<Rightarrow> bytes \<Rightarrow> nat \<Rightarrow> nat \<Rightarrow> bytes option" where
  "in_area f buf p n = do { v \<leftarrow> memrd buf p n; w \<leftarrow> f v; memwr buf p w }"

section \<open>Packer\<close>

definition PackByte :: "bytes \<Rightarrow> byte \<Rightarrow> bytes" where
  "PackByte oss v = oss @ [v]"

definition PackWord :: "bytes \<Rightarrow> nat \<Rightarrow> bytes" where
  "PackWord oss v = oss @ le_bytes 2 (htons v)"

definition PackDWord :: "bytes \<Rightarrow> nat \<Rightarrow> bytes" where
  "PackDWord oss v = oss @ le_bytes 4 (htonl v)"

definition PackQWord :: "bytes \<Rightarrow> nat \<Rightarrow> bytes" where
  "PackQWord oss v = oss @ le_bytes 8 (myhtonll v)"

definition PackBinary :: "bytes \<Rightarrow> bytes \<Rightarrow> bytes" where
  "PackBinary oss v = (if length v < 1 then oss else oss @ v)"

definition PackString :: "bytes \<Rightarrow> bytes \<Rightarrow> bytes" where
  "PackString oss v = oss @ v @ [0]"

text \<open>The C-string overload; \<open>None\<close> is the null pointer.\<close>

definition PackCString :: "bytes \<Rightarrow> bytes option \<Rightarrow> bytes" where
  "PackCString oss v = (case v of None \<Rightarrow> oss | Some s \<Rightarrow> oss @ takeWhile (\<lambda>b. b \<noteq> 0) s @ [0])"

text \<open>A double is formatted by \<open>sprintf "%f"\<close> into 64 bytes: longer texts overflow the array.\<close>

definition PackReal :: "('r \<Rightarrow> bytes) \<Rightarrow> bytes \<Rightarrow> 'r \<Rightarrow> bytes option" where
  "PackReal fmt oss v =
     (if 64 < length (fmt v) + 1 then None else Some (PackCString oss (Some (fmt v))))"

definition PackHeader :: "bytes \<Rightarrow> msg_header \<Rightarrow> nat \<Rightarrow> bytes option" where
  "PackHeader hbuf h body_size =
     do { b \<leftarrow> memwr hbuf 0 [soh h];
          b \<leftarrow> memwr b 1 [main_ver h];
          b \<leftarrow> memwr b 2 [sub_ver h];
          b \<leftarrow> set_u32 b 3 (add32 (add32 MSG_HEADER_LEN body_size) 1);
          b \<leftarrow> set_u16 b 7 (main_cmd h);
          b \<leftarrow> set_u16 b 9 (sub_cmd h);
          b \<leftarrow> set_u32 b 11 (seq h);
          b \<leftarrow> set_u32 b 15 (from_uin h);
          b \<leftarrow> set_u32 b 19 (to_uin h);
          b \<leftarrow> memwr b 23 [enc_type h];
          b \<leftarrow> memwr b 24 [source_type h];
          set_u32 b 25 (rev_field h) }"

text \<open>\<open>stk\<close> is what the stack holds where \<open>hbuf\<close> is put.\<close>

definition GetPack :: "(nat \<Rightarrow> byte) \<Rightarrow> bytes \<Rightarrow> msg_header \<Rightarrow> bytes option" where
  "GetPack stk oss h =
     do { let body_size = length oss mod 2 ^ 32;
          let pack_len = add32 (add32 MSG_HEADER_LEN body_size) 1;
          hbuf \<leftarrow> PackHeader (map stk [0..<pack_len]) h body_size;
          hbuf \<leftarrow> memwr hbuf MSG_HEADER_LEN (take body_size oss);
          memwr hbuf (sub32 pack_len 1) [EOT] }"

definition GetPack_key :: "(nat \<Rightarrow> byte) \<Rightarrow> bytes \<Rightarrow> msg_header \<Rightarrow> bytes \<Rightarrow> bytes option" where
  "GetPack_key stk oss h key =
     (if enc_type h \<noteq> ENC_TYPE_TEA then GetPack stk oss h
      else do { let body_size = length oss mod 2 ^ 32;
                let pack_len = add32 (add32 MSG_HEADER_LEN body_size) 1;
                hbuf \<leftarrow> PackHeader (map stk [0..<pack_len]) h body_size;
                hbuf \<leftarrow> memwr hbuf MSG_HEADER_LEN oss;
                hbuf \<leftarrow> in_area (\<lambda>v. xxtea_encrypt v body_size key) hbuf MSG_HEADER_LEN body_size;
                memwr hbuf (sub32 pack_len 1) [EOT] })"

definition GetPack_cookie :: "(nat \<Rightarrow> byte) \<Rightarrow> bytes \<Rightarrow> msg_header \<Rightarrow> bytes \<Rightarrow> bytes option" where
  "GetPack_cookie stk oss h ck =
     do { let body_size = length oss mod 2 ^ 32;
          let pack_len = add32 (add32 (add32 MSG_HEADER_LEN body_size) (2 + length ck)) 1;
          hbuf \<leftarrow> PackHeader (map stk [0..<pack_len]) h body_size;
          hbuf \<leftarrow> memwr hbuf MSG_HEADER_LEN (take body_size oss);
          hbuf \<leftarrow> set_u16 hbuf (MSG_HEADER_LEN + body_size) (length ck);
          hbuf \<leftarrow> memwr hbuf (MSG_HEADER_LEN + body_size + 2) ck;
          hbuf \<leftarrow> memwr hbuf (MSG_HEADER_LEN + body_size + 2 + length ck) [EOT];
          hbuf \<leftarrow> SetCookiePos hbuf (add32 MSG_HEADER_LEN body_size);
          SetPackLen hbuf pack_len }"

definition EncryptPack :: "bytes \<Rightarrow> nat \<Rightarrow> bytes \<Rightarrow> bytes option" where
  "EncryptPack pack len key =
     (if len \<le> MSG_HEADER_LEN + 1 then Some pack
      else do { t \<leftarrow> GetEncType pack;
                if t \<noteq> ENC_TYPE_TEA then Some pack
                else in_area (\<lambda>v. xxtea_encrypt v (len - MSG_HEADER_LEN - 1) key) pack
                       MSG_HEADER_LEN (len - MSG_HEADER_LEN - 1) })"

section \<open>FixedPacker\<close>

record fixed_packer =
  fp_buf :: bytes
  fp_tail :: nat
  fp_buflen :: int
  fp_err :: nat

definition FP_Init :: "fixed_packer \<Rightarrow> bytes \<Rightarrow> nat \<Rightarrow> int \<times> fixed_packer" where
  "FP_Init fp buf len =
     (if len < MSG_HEADER_LEN + 1 then (- 1, fp\<lparr>fp_err := ERR_PROTOCOL\<rparr>)
      else (0, fp\<lparr>fp_err := 0, fp_buf := buf, fp_tail := MSG_HEADER_LEN, fp_buflen := s32_of_nat len\<rparr>))"

definition LeftSpace :: "fixed_packer \<Rightarrow> int" where
  "LeftSpace fp = fp_buflen fp - int (fp_tail fp)"

definition fp_fail :: "fixed_packer \<Rightarrow> fixed_packer" where
  "fp_fail fp = fp\<lparr>fp_err := ERR_PROTOCOL\<rparr>"

definition fp_write :: "fixed_packer \<Rightarrow> bytes \<Rightarrow> fixed_packer option" where
  "fp_write fp v =
     do { b \<leftarrow> memwr (fp_buf fp) (fp_tail fp) v;
          Some (fp\<lparr>fp_buf := b, fp_tail := fp_tail fp + length v\<rparr>) }"

definition FP_PackByte :: "fixed_packer \<Rightarrow> byte \<Rightarrow> fixed_packer option" where
  "FP_PackByte fp v = (if LeftSpace fp < 1 then Some (fp_fail fp) else fp_write fp [v])"

definition FP_PackWord :: "fixed_packer \<Rightarrow> nat \<Rightarrow> fixed_packer option" where
  "FP_PackWord fp v =
     (if LeftSpace fp < 2 then Some (fp_fail fp) else fp_write fp (le_bytes 2 (htons v)))"

definition FP_PackDWord :: "fixed_packer \<Rightarrow> nat \<Rightarrow> fixed_packer option" where
  "FP_PackDWord fp v =
     (if LeftSpace fp < 4 then Some (fp_fail fp) else fp_write fp (le_bytes 4 (htonl v)))"

definition FP_PackQWord :: "fixed_packer \<Rightarrow> nat \<Rightarrow> fixed_packer option" where
  "FP_PackQWord fp v =
     (if LeftSpace fp < 8 then Some (fp_fail fp) else fp_write fp (le_bytes 8 (myhtonll v)))"

definition FP_PackBinary :: "fixed_packer \<Rightarrow> bytes \<Rightarrow> fixed_packer option" where
  "FP_PackBinary fp v =
     (if LeftSpace fp < s32_of_nat (length v) then Some (fp_fail fp)
      else if length v < 1 then Some fp
      else fp_write fp v)"

definition FP_PackString :: "fixed_packer \<Rightarrow> bytes \<Rightarrow> fixed_packer option" where
  "FP_PackString fp v =
     (if LeftSpace fp < s32_of_nat (length v + 1) then Some (fp_fail fp)
      else do { fp \<leftarrow> (if v \<noteq> [] then fp_write fp v else Some fp); fp_write fp [0] })"

definition FP_PackCString :: "fixed_packer \<Rightarrow> bytes option \<Rightarrow> fixed_packer option" where
  "FP_PackCString fp v =
     (case v of None \<Rightarrow> Some fp
      | Some s \<Rightarrow>
          let s = takeWhile (\<lambda>b. b \<noteq> 0) s; vlen = s32_of_nat (length s)
          in if LeftSpace fp < vlen + 1 then Some (fp_fail fp) else fp_write fp (s @ [0]))"

definition FP_PackReal :: "('r \<Rightarrow> bytes) \<Rightarrow> fixed_packer \<Rightarrow> 'r \<Rightarrow> fixed_packer option" where
  "FP_PackReal fmt fp v =
     (if 64 < length (fmt v) + 1 then None else FP_PackCString fp (Some (fmt v)))"

definition FP_GetBody :: "fixed_packer \<Rightarrow> bytes option" where
  "FP_GetBody fp = memrd (fp_buf fp) MSG_HEADER_LEN (fp_tail fp - MSG_HEADER_LEN)"

text \<open>\<open>GetPack\<close> sets \<open>len\<close> and leaves the packet in the buffer.\<close>

definition FP_GetPack :: "fixed_packer \<Rightarrow> msg_header \<Rightarrow> (int \<times> fixed_packer) option" where
  "FP_GetPack fp h =
     (if fp_err fp \<noteq> 0 then Some (0, fp)
      else do { let pack_len = fp_tail fp + 1;
                b \<leftarrow> PackHeader (fp_buf fp) h (pack_len - MSG_HEADER_LEN - 1);
                b \<leftarrow> memwr b (pack_len - 1) [EOT];
                Some (int pack_len, fp\<lparr>fp_buf := b\<rparr>) })"

definition FP_GetPack_key :: "fixed_packer \<Rightarrow> msg_header \<Rightarrow> bytes \<Rightarrow> (int \<times> fixed_packer) option" where
  "FP_GetPack_key fp h key =
     (if enc_type h \<noteq> ENC_TYPE_TEA then FP_GetPack fp h
      else if fp_err fp \<noteq> 0 then Some (0, fp)
      else do { let pack_len = fp_tail fp + 1;
                b \<leftarrow> PackHeader (fp_buf fp) h (pack_len - MSG_HEADER_LEN - 1);
                b \<leftarrow> in_area (\<lambda>v. xxtea_encrypt v (pack_len - MSG_HEADER_LEN - 1) key) b
                       MSG_HEADER_LEN (pack_len - MSG_HEADER_LEN - 1);
                b \<leftarrow> memwr b (pack_len - 1) [EOT];
                Some (int pack_len, fp\<lparr>fp_buf := b\<rparr>) })"

definition FP_GetPack_cookie :: "fixed_packer \<Rightarrow> msg_header \<Rightarrow> bytes \<Rightarrow> (int \<times> fixed_packer) option" where
  "FP_GetPack_cookie fp h ck =
     (let fp = (if LeftSpace fp < int (2 + length ck) then fp_fail fp else fp)
      in if fp_err fp \<noteq> 0 then Some (0, fp)
         else do { let pack_len = fp_tail fp + 1;
                   b \<leftarrow> PackHeader (fp_buf fp) h (pack_len - MSG_HEADER_LEN - 1);
                   let total_pack_len = pack_len + 2 + length ck;
                   b \<leftarrow> set_u16 b (fp_tail fp) (length ck);
                   b \<leftarrow> memwr b (fp_tail fp + 2) ck;
                   b \<leftarrow> memwr b (total_pack_len - 1) [EOT];
                   b \<leftarrow> SetCookiePos b (pack_len - 1);
                   b \<leftarrow> SetPackLen b total_pack_len;
                   Some (int total_pack_len, fp\<lparr>fp_buf := b\<rparr>) })"

section \<open>What a packer promises\<close>

datatype pack_item =
  Byte byte
| Word16 nat
| DWord nat
| QWord nat
| Binary bytes
| Str bytes

fun encode_item :: "pack_item \<Rightarrow> bytes" where
  "encode_item (Byte v) = [v]"
| "encode_item (Word16 v) = be_bytes 2 v"
| "encode_item (DWord v) = be_bytes 4 v"
| "encode_item (QWord v) = be_bytes 8 v"
| "encode_item (Binary v) = v"
| "encode_item (Str v) = v @ [0]"

definition encode_items :: "pack_item list \<Rightarrow> bytes" where
  "encode_items is = concat (map encode_item is)"

fun packer_put :: "bytes \<Rightarrow> pack_item \<Rightarrow> bytes option" where
  "packer_put oss (Byte v) = Some (PackByte oss v)"
| "packer_put oss (Word16 v) = Some (PackWord oss v)"
| "packer_put oss (DWord v) = Some (PackDWord oss v)"
| "packer_put oss (QWord v) = Some (PackQWord oss v)"
| "packer_put oss (Binary v) = Some (PackBinary oss v)"
| "packer_put oss (Str v) = Some (PackString oss v)"

fun fixed_put :: "fixed_packer \<Rightarrow> pack_item \<Rightarrow> fixed_packer option" where
  "fixed_put fp (Byte v) = FP_PackByte fp v"
| "fixed_put fp (Word16 v) = FP_PackWord fp v"
| "fixed_put fp (DWord v) = FP_PackDWord fp v"
| "fixed_put fp (QWord v) = FP_PackQWord fp v"
| "fixed_put fp (Binary v) = FP_PackBinary fp v"
| "fixed_put fp (Str v) = FP_PackString fp v"

primrec put_all :: "('p \<Rightarrow> pack_item \<Rightarrow> 'p option) \<Rightarrow> 'p \<Rightarrow> pack_item list \<Rightarrow> 'p option" where
  "put_all put p [] = Some p"
| "put_all put p (i # is) = do { p \<leftarrow> put p i; put_all put p is }"

lemma encode_items_simps [simp]:
  "encode_items [] = []" "encode_items (i # is) = encode_item i @ encode_items is"
  "encode_items (is @ js) = encode_items is @ encode_items js"
  by (simp_all add: encode_items_def)

lemma put_all_append:
  "put_all put p (is @ js) = do { p \<leftarrow> put_all put p is; put_all put p js }"
  by (induction "is" arbitrary: p) (simp_all add: bind_assoc)

locale body_packer =
  fixes put :: "'p \<Rightarrow> pack_item \<Rightarrow> 'p option"
    and ok :: "'p \<Rightarrow> bool"
    and body :: "'p \<Rightarrow> bytes"
    and room :: "'p \<Rightarrow> nat"
  assumes put_fits: "ok p \<Longrightarrow> length (encode_item i) \<le> room p \<Longrightarrow>
    \<exists>p'. put p i = Some p' \<and> ok p' \<and> body p' = body p @ encode_item i \<and>
         room p - length (encode_item i) \<le> room p'"
begin

lemma put_all_fits:
  "ok p \<Longrightarrow> length (encode_items is) \<le> room p \<Longrightarrow>
   \<exists>p'. put_all put p is = Some p' \<and> ok p' \<and> body p' = body p @ encode_items is \<and>
        room p - length (encode_items is) \<le> room p'"
proof (induction "is" arbitrary: p)
  case (Cons i "is")
  then obtain q where q: "put p i = Some q" "ok q" "body q = body p @ encode_item i"
      "room p - length (encode_item i) \<le> room q"
    using put_fits [of p i] by auto
  then show ?case using Cons.IH [of q] Cons.prems by fastforce
qed simp

end

definition big_room :: "bytes \<Rightarrow> nat" where
  "big_room oss = 2 ^ 32 - length oss"

interpretation oss: body_packer packer_put "\<lambda>_. True" "\<lambda>oss. oss" big_room
proof
  fix p i
  show "\<exists>p'. packer_put p i = Some p' \<and> True \<and> p' = p @ encode_item i \<and>
         big_room p - length (encode_item i) \<le> big_room p'"
    by (cases i) (auto simp: PackByte_def PackWord_def PackDWord_def PackQWord_def PackBinary_def
        PackString_def codec_simps big_room_def)
qed

text \<open>A fixed packer without error, its tail inside what the caller announced and provided.\<close>

definition fp_inv :: "fixed_packer \<Rightarrow> bool" where
  "fp_inv fp \<longleftrightarrow> 29 \<le> fp_tail fp \<and> int (fp_tail fp) \<le> fp_buflen fp \<and>
     fp_buflen fp < 2 ^ 31 \<and> nat (fp_buflen fp) \<le> length (fp_buf fp)"

definition fp_ok :: "fixed_packer \<Rightarrow> bool" where
  "fp_ok fp \<longleftrightarrow> fp_err fp = 0 \<and> fp_inv fp"

definition fp_body :: "fixed_packer \<Rightarrow> bytes" where
  "fp_body fp = slice (fp_buf fp) 29 (fp_tail fp - 29)"

definition fp_room :: "fixed_packer \<Rightarrow> nat" where
  "fp_room fp = nat (LeftSpace fp)"

lemma fp_write_ok:
  assumes "fp_inv fp" "length v \<le> fp_room fp"
  shows "\<exists>q. fp_write fp v = Some q \<and> fp_inv q \<and> fp_err q = fp_err fp \<and> fp_body q = fp_body fp @ v \<and>
             fp_room q = fp_room fp - length v"
proof -
  have room: "fp_tail fp + length v \<le> nat (fp_buflen fp)" "29 \<le> fp_tail fp"
      "nat (fp_buflen fp) \<le> length (fp_buf fp)"
    using assms by (auto simp: fp_inv_def fp_room_def LeftSpace_def)
  let ?q = "fp\<lparr>fp_buf := overlay (fp_buf fp) (fp_tail fp) v, fp_tail := fp_tail fp + length v\<rparr>"
  have "fp_write fp v = Some ?q" using room by (simp add: fp_write_def memwr_Some)
  moreover have "fp_err ?q = fp_err fp" by simp
  moreover have "fp_inv ?q" using assms room by (auto simp: fp_inv_def)
  moreover have "fp_body ?q = fp_body fp @ v"
  proof -
    have "slice (overlay (fp_buf fp) (fp_tail fp) v) 29 ((fp_tail fp - 29) + length v) =
        slice (overlay (fp_buf fp) (fp_tail fp) v) 29 (fp_tail fp - 29) @
        slice (overlay (fp_buf fp) (fp_tail fp) v) (29 + (fp_tail fp - 29)) (length v)"
      using room by (intro slice_append) simp
    then show ?thesis using room by (simp add: fp_body_def slice_overlay_disjoint)
  qed
  moreover have "fp_room ?q = fp_room fp - length v"
    using room by (simp add: fp_room_def LeftSpace_def nat_diff_distrib)
  ultimately show ?thesis by blast
qed

lemma fp_room_small: "fp_inv fp \<Longrightarrow> fp_room fp < 2 ^ 31"
  by (auto simp: fp_inv_def fp_room_def LeftSpace_def)

lemma fp_room_int: "fp_inv fp \<Longrightarrow> LeftSpace fp = int (fp_room fp)"
  by (auto simp: fp_inv_def fp_room_def LeftSpace_def)

text \<open>What a fixed packer does, item by item: append when there is room, fail otherwise.\<close>

lemma fixed_put_spec:
  assumes ok: "fp_inv fp" and small: "length (encode_item i) < 2 ^ 31"
  shows "fixed_put fp i =
    (if fp_room fp < length (encode_item i) then Some (fp_fail fp) else fp_write fp (encode_item i))"
proof -
  note r = fp_room_int [OF ok] fp_room_small [OF ok]
  have e: "fp_write fp [] = Some fp" using ok by (auto simp: fp_write_def fp_inv_def memwr_Some)
  show ?thesis
  proof (cases i)
    case (Binary v)
    then show ?thesis using small r e by (auto simp: FP_PackBinary_def)
  next
    case (Str v)
    have "fp_write fp (v @ [0]) = do { fp \<leftarrow> fp_write fp v; fp_write fp [0] }"
      if "\<not> fp_room fp < length v + 1"
    proof -
      have "fp_tail fp + length v + 1 \<le> length (fp_buf fp)"
        using that ok by (auto simp: fp_inv_def fp_room_def LeftSpace_def)
      then show ?thesis by (simp add: fp_write_def memwr_Some overlay_join)
    qed
    then show ?thesis using small r Str e by (auto simp: FP_PackString_def)
  qed (use r in \<open>auto simp: FP_PackByte_def FP_PackWord_def FP_PackDWord_def FP_PackQWord_def codec_simps\<close>)
qed

interpretation fixed: body_packer fixed_put fp_ok fp_body fp_room
proof
  fix p i
  assume "fp_ok p" "length (encode_item i) \<le> fp_room p"
  then have a: "fp_inv p" "length (encode_item i) \<le> fp_room p" "fp_err p = 0" by (simp_all add: fp_ok_def)
  have "length (encode_item i) < 2 ^ 31" using a(2) fp_room_small [OF a(1)] by linarith
  then have "fixed_put p i = fp_write p (encode_item i)" using fixed_put_spec [OF a(1)] a(2) by simp
  then show "\<exists>p'. fixed_put p i = Some p' \<and> fp_ok p' \<and> fp_body p' = fp_body p @ encode_item i \<and>
         fp_room p - length (encode_item i) \<le> fp_room p'"
    using fp_write_ok [OF a(1,2)] a(3) by (auto simp: fp_ok_def)
qed

text \<open>An error is never lost, and a body larger than the room always ends in one.\<close>

lemma put_all_fixed:
  "fp_inv fp \<Longrightarrow> list_all (\<lambda>i. length (encode_item i) < 2 ^ 31) is \<Longrightarrow>
   \<exists>q. put_all fixed_put fp is = Some q \<and> fp_inv q \<and> fp_room q \<le> fp_room fp \<and>
     (fp_err fp \<noteq> 0 \<longrightarrow> fp_err q \<noteq> 0) \<and>
     (fp_room fp < length (encode_items is) \<longrightarrow> fp_err q \<noteq> 0)"
proof (induction "is" arbitrary: fp)
  case (Cons i "is")
  have spec: "fixed_put fp i =
      (if fp_room fp < length (encode_item i) then Some (fp_fail fp) else fp_write fp (encode_item i))"
    using Cons.prems by (intro fixed_put_spec) auto
  show ?case
  proof (cases "fp_room fp < length (encode_item i)")
    case True
    have "fp_inv (fp_fail fp)" "fp_err (fp_fail fp) \<noteq> 0" "fp_room (fp_fail fp) = fp_room fp"
      using Cons.prems by (auto simp: fp_inv_def fp_fail_def fp_room_def LeftSpace_def ERR_PROTOCOL_def)
    then show ?thesis using Cons.IH [of "fp_fail fp"] Cons.prems spec True by auto
  next
    case False
    then obtain q where q: "fp_write fp (encode_item i) = Some q" "fp_inv q" "fp_err q = fp_err fp"
        "fp_room q = fp_room fp - length (encode_item i)"
      using fp_write_ok [OF Cons.prems(1), of "encode_item i"] by auto
    then obtain r where r: "put_all fixed_put q is = Some r" "fp_inv r" "fp_room r \<le> fp_room q"
        "fp_err q \<noteq> 0 \<longrightarrow> fp_err r \<noteq> 0" "fp_room q < length (encode_items is) \<longrightarrow> fp_err r \<noteq> 0"
      using Cons.IH [of q] Cons.prems by auto
    have "put_all fixed_put fp (i # is) = Some r" using spec False q(1) r(1) by simp
    moreover have "fp_room fp < length (encode_items (i # is)) \<longrightarrow> fp_room q < length (encode_items is)"
      using q(4) False by auto
    ultimately show ?thesis using q(3,4) r by auto
  qed
qed simp

lemma fp_write_same:
  "fp_write fp v = Some q \<Longrightarrow> fp_buflen q = fp_buflen fp \<and> length (fp_buf q) = length (fp_buf fp)"
  by (auto simp: fp_write_def memwr_def bind_eq_Some_conv split: if_splits)

lemma fixed_put_same:
  "fixed_put fp i = Some q \<Longrightarrow> fp_buflen q = fp_buflen fp \<and> length (fp_buf q) = length (fp_buf fp)"
  by (cases i)
    (auto simp: FP_PackByte_def FP_PackWord_def FP_PackDWord_def FP_PackQWord_def FP_PackBinary_def
      FP_PackString_def fp_fail_def bind_eq_Some_conv split: if_splits dest!: fp_write_same)

lemma put_all_same:
  "put_all fixed_put fp is = Some q \<Longrightarrow> fp_buflen q = fp_buflen fp \<and> length (fp_buf q) = length (fp_buf fp)"
  by (induction "is" arbitrary: fp) (auto simp: bind_eq_Some_conv dest!: fixed_put_same)

lemma FP_Init_ok:
  assumes "30 \<le> len" "len < 2 ^ 31" "length buf = len"
  obtains fp' where "FP_Init fp buf len = (0, fp')" "fp_ok fp'" "fp_body fp' = []" "fp_room fp' = len - 29"
    "fp_buflen fp' = int len" "fp_buf fp' = buf"
  using assms that [of "fp\<lparr>fp_err := 0, fp_buf := buf, fp_tail := 29, fp_buflen := int len\<rparr>"]
  by (simp add: FP_Init_def msg_pos fp_ok_def fp_inv_def fp_body_def fp_room_def LeftSpace_def nat_diff_distrib)

section \<open>The packets that are produced\<close>

lemma PackHeader_hdr:
  assumes "29 \<le> length b"
  shows "PackHeader b h n = Some (hdr h (add32 (add32 29 n) 1) (rev_field h) @ drop 29 b)"
proof -
  let ?n = "add32 (add32 29 n) 1"
  have "PackHeader b h n = Some (overlay b 0 (hdr h ?n (rev_field h)))"
    using assms
    by (simp add: PackHeader_def memwr_Some set_u16_overlay set_u32_overlay overlay_join hdr_def msg_pos)
  then show ?thesis by (simp add: overlay_def)
qed

lemma packet_None: "rev_field h mod 2 ^ 24 = 0 \<Longrightarrow> rev_field h < 2 ^ 32 \<Longrightarrow>
  packet h body None = hdr h (30 + length body) (rev_field h) @ body @ [EOT]"
proof -
  assume "rev_field h mod 2 ^ 24 = 0" "rev_field h < 2 ^ 32"
  then have "user_rev h = rev_field h"
    unfolding user_rev_def by (metis mod_less minus_mod_eq_div_mult diff_zero)
  then show ?thesis by (simp add: packet_def)
qed

lemma GetPack_hdr:
  assumes "30 + length oss < 2 ^ 32"
  shows "GetPack stk oss h = Some (hdr h (30 + length oss) (rev_field h) @ oss @ [EOT])"
proof -
  define b where "b = map stk [0..<30 + length oss]"
  have n: "length oss mod 2 ^ 32 = length oss" "add32 (add32 29 (length oss)) 1 = 30 + length oss"
      "sub32 (30 + length oss) 1 = 29 + length oss"
    using assms by simp_all
  have h: "PackHeader b h (length oss) = Some (hdr h (30 + length oss) (rev_field h) @ drop 29 b)"
    using PackHeader_hdr [of b h "length oss"] n(2) by (simp add: b_def)
  have "memwr (hdr h (30 + length oss) (rev_field h) @ drop 29 b) 29 oss =
      Some (hdr h (30 + length oss) (rev_field h) @ oss @ drop (29 + length oss) b)"
    by (simp add: memwr_hdr memwr_def b_def add.commute)
  moreover have "memwr (hdr h (30 + length oss) (rev_field h) @ oss @ drop (29 + length oss) b) (29 + length oss) [EOT] =
      Some (hdr h (30 + length oss) (rev_field h) @ oss @ [EOT])"
    by (simp add: after_body(2) [where i = 0] memwr_def b_def)
  ultimately show ?thesis
    unfolding GetPack_def Let_def MSG_HEADER_LEN_def n b_def [symmetric] h by simp
qed

lemma GetPack_key_hdr:
  assumes "30 + length oss < 2 ^ 32" "length key = 16" "enc_type h = ENC_TYPE_TEA"
  shows "\<exists>w. xxtea_encrypt oss (length oss) key = Some w \<and> length w = length oss \<and>
    xxtea_decrypt w (length oss) key = Some oss \<and>
    GetPack_key stk oss h key = Some (hdr h (30 + length oss) (rev_field h) @ w @ [EOT])"
proof -
  define b where "b = map stk [0..<30 + length oss]"
  define hd' where "hd' = hdr h (30 + length oss) (rev_field h)"
  obtain w where w: "xxtea_encrypt oss (length oss) key = Some w" "length w = length oss"
      "xxtea_decrypt w (length oss) key = Some oss"
    using xxtea_decrypt_encrypt [OF refl assms(2)] by blast
  have n: "length oss mod 2 ^ 32 = length oss" "add32 (add32 29 (length oss)) 1 = 30 + length oss"
      "sub32 (30 + length oss) 1 = 29 + length oss"
    using assms by simp_all
  have h: "PackHeader b h (length oss) = Some (hd' @ drop 29 b)"
    using PackHeader_hdr [of b h "length oss"] n(2) by (simp add: b_def hd'_def)
  have "memwr (hd' @ drop 29 b) 29 oss = Some (hd' @ oss @ drop (29 + length oss) b)"
    by (simp add: hd'_def memwr_hdr memwr_def b_def add.commute)
  moreover have "in_area (\<lambda>v. xxtea_encrypt v (length oss) key) (hd' @ oss @ drop (29 + length oss) b) 29 (length oss)
      = Some (hd' @ w @ drop (29 + length oss) b)"
    by (simp add: in_area_def hd'_def memrd_hdr memwr_hdr) (simp add: memrd_def memwr_def w)
  moreover have "memwr (hd' @ w @ drop (29 + length oss) b) (29 + length oss) [EOT] = Some (hd' @ w @ [EOT])"
    by (simp add: hd'_def after_body(2) [where i = 0] memwr_def b_def w(2))
  ultimately have "GetPack_key stk oss h key = Some (hd' @ w @ [EOT])"
    unfolding GetPack_key_def Let_def MSG_HEADER_LEN_def n b_def [symmetric] h by (simp add: assms(3))
  then show ?thesis using w by (auto simp: hd'_def)
qed

lemma GetPack_cookie_packet:
  assumes fits: "packet_fits oss (Some ck)" and rev: "rev_field h < 2 ^ 32"
  shows "GetPack_cookie stk oss h ck = Some (packet h oss (Some ck))"
proof -
  define N where "N = 32 + length oss + length ck"
  define b where "b = map stk [0..<N]"
  define hd' where "hd' = hdr h (30 + length oss) (rev_field h)"
  have small: "N < 2 ^ 24" using fits by (auto simp: packet_fits_def N_def)
  have n: "length oss mod 2 ^ 32 = length oss" "add32 (add32 29 (length oss)) 1 = 30 + length oss"
      "add32 29 (length oss) = 29 + length oss"
      "add32 (add32 (29 + length oss) (2 + length ck)) 1 = N"
    using small by (simp_all add: N_def)
  have h: "PackHeader b h (length oss) = Some (hd' @ drop 29 b)"
    using PackHeader_hdr [of b h "length oss"] n(2) by (simp add: b_def hd'_def N_def)
  define ys where "ys = drop (29 + length oss) b"
  have ly: "length ys = 3 + length ck" by (simp add: ys_def b_def N_def)
  then obtain y1 y2 where y: "set_u16 ys 0 (length ck) = Some y1" "memwr y1 2 ck = Some y2"
      "memwr y2 (2 + length ck) [EOT] = Some (be_bytes 2 (length ck) @ ck @ [EOT])"
    using cookie_write [of ck ys] by (auto simp: bind_eq_Some_conv)
  have "memwr (hd' @ drop 29 b) 29 oss = Some (hd' @ oss @ ys)"
    by (simp add: hd'_def memwr_hdr memwr_def b_def ys_def add.commute N_def)
  moreover have "set_u16 (hd' @ oss @ ys) (29 + length oss) (length ck) = Some (hd' @ oss @ y1)"
    "memwr (hd' @ oss @ y1) (29 + length oss + 2) ck = Some (hd' @ oss @ y2)"
    "memwr (hd' @ oss @ y2) (29 + length oss + 2 + length ck) [EOT] =
       Some (hd' @ oss @ be_bytes 2 (length ck) @ ck @ [EOT])"
    using y unfolding hd'_def
    by (simp_all add: after_body(4) [where i = 0] after_body(2) [where i = 2]
        after_body(2) [where i = "2 + length ck"])
  moreover have "rev_field h div 2 ^ 24 * 2 ^ 24 + (29 + length oss) mod 2 ^ 24 = user_rev h + (29 + length oss)"
    using small rev by (simp add: user_rev_def N_def)
  then have "SetCookiePos (hd' @ oss @ be_bytes 2 (length ck) @ ck @ [EOT]) (29 + length oss) =
     Some (hdr h (30 + length oss) (user_rev h + (29 + length oss)) @ oss @ be_bytes 2 (length ck) @ ck @ [EOT])"
    unfolding hd'_def by (simp only: SetCookiePos_hdr [OF rev])
  ultimately have "GetPack_cookie stk oss h ck =
      Some (hdr h N (user_rev h + (29 + length oss)) @ oss @ be_bytes 2 (length ck) @ ck @ [EOT])"
    unfolding GetPack_cookie_def Let_def MSG_HEADER_LEN_def n b_def [symmetric] h
    by (simp only: bind.bind_lunit take_all [OF order_refl] n SetPackLen_hdr)
  then show ?thesis by (simp add: packet_def N_def add.assoc)
qed

text \<open>The fixed packer's packet, when a byte is left for the end mark.\<close>

lemma FP_GetPack_hdr:
  assumes ok: "fp_ok fp" and room: "fp_tail fp < length (fp_buf fp)"
  shows "\<exists>q. FP_GetPack fp h = Some (int (30 + length (fp_body fp)), q) \<and>
    take (30 + length (fp_body fp)) (fp_buf q) =
      hdr h (30 + length (fp_body fp)) (rev_field h) @ fp_body fp @ [EOT]"
proof -
  define b where "b = fp_buf fp"
  define n where "n = fp_tail fp - 29"
  have t: "fp_tail fp = 29 + n" "fp_err fp = 0" "n < 2 ^ 31" using ok by (auto simp: fp_ok_def fp_inv_def n_def)
  have lb: "30 + n \<le> length b" using room t by (simp add: b_def)
  have body: "fp_body fp = take n (drop 29 b)" "length (fp_body fp) = n"
    using lb by (simp_all add: fp_body_def b_def n_def slice_def)
  define hd' where "hd' = hdr h (30 + n) (rev_field h)"
  have p: "PackHeader b h n = Some (hd' @ drop 29 b)"
    using PackHeader_hdr [of b h n] lb t(3) by (simp add: hd'_def)
  have "drop 29 b = fp_body fp @ drop (29 + n) b"
    unfolding body(1) by (metis append_take_drop_id drop_drop add.commute)
  then have w: "memwr (hd' @ drop 29 b) (29 + n) [EOT] = Some (hd' @ fp_body fp @ EOT # drop (30 + n) b)"
    using lb by (simp add: hd'_def after_body(2) [where i = 0] body(2)) (simp add: memwr_def)
  let ?q = "fp\<lparr>fp_buf := hd' @ fp_body fp @ EOT # drop (30 + n) b\<rparr>"
  have "FP_GetPack fp h = Some (int (30 + n), ?q)"
    unfolding FP_GetPack_def Let_def t(1) using p w t(2) by (simp add: b_def [symmetric] msg_pos)
  moreover have "take (30 + n) (fp_buf ?q) = hd' @ fp_body fp @ [EOT]"
    by (simp add: hd'_def body(2))
  ultimately show ?thesis unfolding body(2) hd'_def by blast
qed

lemma FP_GetPack_overflow:
  assumes ok: "fp_ok fp" and full: "fp_tail fp = length (fp_buf fp)"
  shows "FP_GetPack fp h = None"
proof -
  have t: "29 \<le> fp_tail fp" "fp_err fp = 0" using ok by (auto simp: fp_ok_def fp_inv_def)
  obtain b where b: "PackHeader (fp_buf fp) h (fp_tail fp - 29) = Some b" "length b = length (fp_buf fp)"
    using PackHeader_hdr [of "fp_buf fp" h "fp_tail fp - 29"] t(1) full by simp
  have "memwr b (fp_tail fp) [EOT] = None" using b(2) full by (simp add: memwr_None)
  then show ?thesis unfolding FP_GetPack_def Let_def using b(1) t(2) by (simp add: msg_pos)
qed

text \<open>From initialisation to the packet: the three cases.\<close>

lemma fixed_pack_cases:
  assumes len: "30 \<le> len" "len < 2 ^ 31" "length buf = len"
    and items: "list_all (\<lambda>i. length (encode_item i) < 2 ^ 31) is"
  shows "\<exists>p q. FP_Init fp buf len = (0, p) \<and> put_all fixed_put p is = Some q \<and>
    (let n = 29 + length (encode_items is) in
      (n < len \<longrightarrow> (\<exists>q' d. FP_GetPack q h = Some (int (n + 1), q') \<and>
         GetPack stk (encode_items is) h = Some d \<and> take (n + 1) (fp_buf q') = d)) \<and>
      (len < n \<longrightarrow> FP_GetPack q h = Some (0, q)) \<and>
      (n = len \<longrightarrow> fp_err q = 0 \<and> FP_GetPack q h = None))"
proof -
  obtain p where p: "FP_Init fp buf len = (0, p)" "fp_ok p" "fp_body p = []" "fp_room p = len - 29"
      "fp_buflen p = int len" "fp_buf p = buf"
    by (rule FP_Init_ok [OF len]) blast
  have inv: "fp_inv p" using p(2) by (simp add: fp_ok_def)
  obtain q where q: "put_all fixed_put p is = Some q"
      "fp_room p < length (encode_items is) \<longrightarrow> fp_err q \<noteq> 0"
    using put_all_fixed [OF inv items] by auto
  let ?n = "29 + length (encode_items is)"
  have good: "fp_ok q \<and> fp_body q = encode_items is \<and> fp_tail q = ?n" if "?n \<le> len"
  proof -
    have fit: "length (encode_items is) \<le> fp_room p" using that len p(4) by simp
    have g: "fp_ok q" "fp_body q = encode_items is"
      using fixed.put_all_fits [OF p(2) fit] q(1) p(3) by auto
    moreover have "29 \<le> fp_tail q" "fp_tail q \<le> length (fp_buf q)"
      using g(1) by (auto simp: fp_ok_def fp_inv_def)
    then have "length (fp_body q) = fp_tail q - 29" by (simp add: fp_body_def)
    ultimately show ?thesis using \<open>29 \<le> fp_tail q\<close> by simp
  qed
  have same: "length (fp_buf q) = len" using put_all_same [OF q(1)] p(6) len(3) by simp
  have "\<exists>q' d. FP_GetPack q h = Some (int (?n + 1), q') \<and> GetPack stk (encode_items is) h = Some d \<and>
      take (?n + 1) (fp_buf q') = d" if "?n < len"
  proof -
    have g: "fp_ok q" "fp_body q = encode_items is" "fp_tail q = ?n" using good that by simp_all
    have "fp_tail q < length (fp_buf q)" using that same g(3) by simp
    then show ?thesis
      using FP_GetPack_hdr [OF g(1), of h] g(2) GetPack_hdr [of "encode_items is" stk h] that len(2)
      by auto
  qed
  moreover have "FP_GetPack q h = Some (0, q)" if "len < ?n"
  proof -
    have "fp_room p < length (encode_items is)" using that p(4) len(1) by linarith
    then show ?thesis using q(2) by (simp add: FP_GetPack_def)
  qed
  moreover have "fp_err q = 0 \<and> FP_GetPack q h = None" if "?n = len"
  proof -
    have g: "fp_ok q" "fp_tail q = ?n" using good that by simp_all
    then have "FP_GetPack q h = None" using FP_GetPack_overflow [OF g(1)] same that by simp
    then show ?thesis using g(1) by (simp add: fp_ok_def)
  qed
  ultimately show ?thesis using p(1) q(1) unfolding Let_def by blast
qed

end
