(* ===== verification/UnPacker.thy ===== *)
theory UnPacker
  imports Packer
begin

text \<open>
  \<open>UnPacker\<close> of \<open>libprotocol/src/protocol_pack.cpp\<close>.  The state keeps the packet memory,
  the private copy \<open>m_Body\<close> and which of the two \<open>m_pBody\<close> points to; offsets and
  lengths are 32-bit unsigned, so the range checks wrap as in the code.  Every read is
  checked against the memory it goes to.
\<close>

record unpacker =
  up_data :: "bytes option"
  up_len :: nat
  up_err :: nat
  up_copy :: bytes
  up_in_copy :: bool
  up_bodylen :: nat
  up_off :: nat

text \<open>The memory from \<open>m_pBody\<close> on; a \<open>std::string\<close> keeps a zero behind its characters.\<close>

definition body_mem :: "unpacker \<Rightarrow> bytes option" where
  "body_mem up =
     (if up_in_copy up then Some (up_copy up @ [0])
      else map_option (drop MSG_HEADER_LEN) (up_data up))"

definition rd_body :: "unpacker \<Rightarrow> nat \<Rightarrow> nat \<Rightarrow> bytes option" where
  "rd_body up p n = do { m \<leftarrow> body_mem up; memrd m p n }"

definition UP_GetHeader :: "unpacker \<Rightarrow> msg_header option" where
  "UP_GetHeader up =
     do { d \<leftarrow> up_data up;
          b0 \<leftarrow> memrd d 0 1;
          b1 \<leftarrow> memrd d 1 1;
          b2 \<leftarrow> memrd d 2 1;
          n \<leftarrow> get_u32 d 3;
          mc \<leftarrow> get_u16 d 7;
          sc \<leftarrow> get_u16 d 9;
          sq \<leftarrow> get_u32 d 11;
          fu \<leftarrow> get_u32 d 15;
          tu \<leftarrow> get_u32 d 19;
          e \<leftarrow> memrd d 23 1;
          st \<leftarrow> memrd d 24 1;
          r \<leftarrow> get_u32 d 25;
          Some \<lparr>soh = hd b0, main_ver = hd b1, sub_ver = hd b2, pack_len = n, main_cmd = mc,
                sub_cmd = sc, seq = sq, from_uin = fu, to_uin = tu, enc_type = hd e,
                source_type = hd st, rev_field = r\<rparr> }"

definition CheckPack :: "unpacker \<Rightarrow> bytes option \<Rightarrow> nat \<Rightarrow> nat option" where
  "CheckPack up data len =
     (if len < MSG_HEADER_LEN + 1 \<or> data = None then Some ERR_PROTOCOL
      else do { d \<leftarrow> data;
                h \<leftarrow> UP_GetHeader up;
                if soh h \<noteq> SOH then Some ERR_PROTOCOL
                else if main_ver h \<noteq> MAIN_VER then Some ERR_PROTOCOL_VER
                else if len < pack_len h then Some ERR_PROTOCOL
                else do { b \<leftarrow> memrd d (sub32 (pack_len h) 1) 1;
                          if hd b \<noteq> EOT then Some ERR_PROTOCOL else Some RET_OK } })"

definition UP_Init :: "unpacker \<Rightarrow> bytes option \<Rightarrow> nat \<Rightarrow> (nat \<times> unpacker) option" where
  "UP_Init up data len =
     do { let up = up\<lparr>up_data := data, up_len := len, up_in_copy := False,
                      up_bodylen := sub32 (sub32 len MSG_HEADER_LEN) 1, up_off := 0\<rparr>;
          rc \<leftarrow> CheckPack up data len;
          Some (rc, up) }"

definition UP_Decrypt :: "unpacker \<Rightarrow> bytes \<Rightarrow> (nat \<times> unpacker) option" where
  "UP_Decrypt up key =
     do { d \<leftarrow> up_data up;
          t \<leftarrow> GetEncType d;
          if t = ENC_TYPE_NONE then Some (RET_OK, up)
          else if t \<noteq> ENC_TYPE_TEA then Some (ERR_ENC_TYPE, up)
          else if up_in_copy up then
            do { c \<leftarrow> in_area (\<lambda>v. xxtea_decrypt v (up_bodylen up) key) (up_copy up) 0 (up_bodylen up);
                 Some (RET_OK, up\<lparr>up_copy := c\<rparr>) }
          else
            do { d \<leftarrow> in_area (\<lambda>v. xxtea_decrypt v (up_bodylen up) key) d MSG_HEADER_LEN (up_bodylen up);
                 Some (RET_OK, up\<lparr>up_data := Some d\<rparr>) } }"

definition UP_DumpDecrypt :: "unpacker \<Rightarrow> bytes \<Rightarrow> (nat \<times> unpacker) option" where
  "UP_DumpDecrypt up key =
     do { d \<leftarrow> up_data up;
          t \<leftarrow> GetEncType d;
          if t = ENC_TYPE_NONE then Some (RET_OK, up)
          else if t \<noteq> ENC_TYPE_TEA then Some (ERR_ENC_TYPE, up)
          else do { b \<leftarrow> rd_body up 0 (up_bodylen up);
                    c \<leftarrow> xxtea_decrypt b (up_bodylen up) key;
                    Some (RET_OK, up\<lparr>up_copy := c, up_in_copy := True\<rparr>) } }"

definition DecryptPack :: "bytes \<Rightarrow> nat \<Rightarrow> bytes \<Rightarrow> bytes option" where
  "DecryptPack pack len key =
     (if len \<le> MSG_HEADER_LEN + 1 then Some pack
      else do { t \<leftarrow> GetEncType pack;
                if t \<noteq> ENC_TYPE_TEA then Some pack
                else in_area (\<lambda>v. xxtea_decrypt v (len - MSG_HEADER_LEN - 1) key) pack
                       MSG_HEADER_LEN (len - MSG_HEADER_LEN - 1) })"

text \<open>\<open>Reset\<close> clears the pointers and the error, not the offset.\<close>

definition UP_Reset :: "unpacker \<Rightarrow> unpacker" where
  "UP_Reset up =
     up\<lparr>up_data := None, up_len := 0, up_copy := [], up_in_copy := False, up_bodylen := 0,
        up_err := RET_OK\<rparr>"

definition up_fail :: "unpacker \<Rightarrow> unpacker" where
  "up_fail up = up\<lparr>up_err := ERR_PROTOCOL\<rparr>"

definition UnPackByte :: "unpacker \<Rightarrow> (byte \<times> unpacker) option" where
  "UnPackByte up =
     (if up_bodylen up < up_off up then Some (0, up_fail up)
      else do { b \<leftarrow> rd_body up (up_off up) 1;
                Some (hd b, up\<lparr>up_off := add32 (up_off up) 1\<rparr>) })"

definition UnPackWord :: "unpacker \<Rightarrow> (nat \<times> unpacker) option" where
  "UnPackWord up =
     (if up_bodylen up < add32 (up_off up) 2 then Some (0, up_fail up)
      else do { let up = up\<lparr>up_off := add32 (up_off up) 2\<rparr>;
                b \<leftarrow> rd_body up (sub32 (up_off up) 2) 2;
                Some (ntohs (le_val b), up) })"

definition UnPackDWord :: "unpacker \<Rightarrow> (nat \<times> unpacker) option" where
  "UnPackDWord up =
     (if up_bodylen up < add32 (up_off up) 4 then Some (0, up_fail up)
      else do { let up = up\<lparr>up_off := add32 (up_off up) 4\<rparr>;
                b \<leftarrow> rd_body up (sub32 (up_off up) 4) 4;
                Some (ntohl (le_val b), up) })"

definition UnPackQWord :: "unpacker \<Rightarrow> (nat \<times> unpacker) option" where
  "UnPackQWord up =
     (if up_bodylen up < add32 (up_off up) 8 then Some (0, up_fail up)
      else do { let up = up\<lparr>up_off := add32 (up_off up) 8\<rparr>;
                b \<leftarrow> rd_body up (sub32 (up_off up) 8) 8;
                Some (myntohll (le_val b), up) })"

definition UnPackBinary_buf :: "unpacker \<Rightarrow> nat \<Rightarrow> (nat \<times> bytes \<times> unpacker) option" where
  "UnPackBinary_buf up len =
     (if up_bodylen up < add32 (up_off up) len then Some (ERR_PROTOCOL, [], up_fail up)
      else do { v \<leftarrow> rd_body up (up_off up) len;
                Some (RET_OK, v, up\<lparr>up_off := add32 (up_off up) len\<rparr>) })"

text \<open>The pointer variant: the position in the body, \<open>None\<close> for the null pointer.\<close>

definition UnPackBinary_ptr :: "unpacker \<Rightarrow> nat \<Rightarrow> nat option \<times> unpacker" where
  "UnPackBinary_ptr up len =
     (if up_bodylen up < add32 (up_off up) len then (None, up_fail up)
      else (Some (up_off up), up\<lparr>up_off := add32 (up_off up) len\<rparr>))"

definition UnPackBinary_str :: "unpacker \<Rightarrow> bytes \<Rightarrow> nat \<Rightarrow> (nat \<times> bytes \<times> unpacker) option" where
  "UnPackBinary_str up data len =
     (if up_bodylen up < add32 (up_off up) len then Some (ERR_PROTOCOL, data, up_fail up)
      else if len = 0 then Some (RET_OK, data, up)
      else do { v \<leftarrow> rd_body up (up_off up) len;
                Some (RET_OK, v, up\<lparr>up_off := add32 (up_off up) len\<rparr>) })"

text \<open>The loop of \<open>UnPackString\<close>: it looks at the byte before it compares the pointer.\<close>

function scan_str :: "bytes \<Rightarrow> nat \<Rightarrow> nat \<Rightarrow> nat option" where
  "scan_str m q e =
     do { b \<leftarrow> memrd m q 1;
          if hd b \<noteq> 0 \<and> q < e then scan_str m (q + 1) e else Some q }"
  by auto

termination
  by (relation "measure (\<lambda>(m, q, e). e - q)") auto

declare scan_str.simps [simp del]

definition UnPackString :: "unpacker \<Rightarrow> (bytes \<times> unpacker) option" where
  "UnPackString up =
     do { m \<leftarrow> body_mem up;
          q \<leftarrow> scan_str m (up_off up) (up_bodylen up);
          if up_bodylen up \<le> q then Some ([], up)
          else do { v \<leftarrow> memrd m (up_off up) (q - up_off up);
                    Some (v, up\<lparr>up_off := add32 (up_off up) (q - up_off up + 1)\<rparr>) } }"

text \<open>The pointer variant returns the position and sets the length.\<close>

definition UnPackString_ptr :: "unpacker \<Rightarrow> nat \<Rightarrow> (nat option \<times> nat \<times> unpacker) option" where
  "UnPackString_ptr up len =
     do { m \<leftarrow> body_mem up;
          q \<leftarrow> scan_str m (up_off up) (up_bodylen up);
          if up_bodylen up \<le> q then Some (None, len, up)
          else Some (Some (up_off up), q - up_off up,
                     up\<lparr>up_off := add32 (up_off up) (q - up_off up + 1)\<rparr>) }"

definition UnPackReal :: "(bytes \<Rightarrow> 'r :: zero) \<Rightarrow> unpacker \<Rightarrow> ('r \<times> unpacker) option" where
  "UnPackReal atof up =
     do { (p, len, up') \<leftarrow> UnPackString_ptr up 0;
          case p of
            None \<Rightarrow> Some (0, up')
          | Some off \<Rightarrow> if 0 < len then do { v \<leftarrow> rd_body up off len; Some (atof v, up') } else Some (0, up') }"

section \<open>Reading what was packed\<close>

datatype item_shape = SByte | SWord | SDWord | SQWord | SBinary nat | SStr

fun shape_of :: "pack_item \<Rightarrow> item_shape" where
  "shape_of (Byte v) = SByte"
| "shape_of (Word16 v) = SWord"
| "shape_of (DWord v) = SDWord"
| "shape_of (QWord v) = SQWord"
| "shape_of (Binary v) = SBinary (length v)"
| "shape_of (Str v) = SStr"

text \<open>Values in range; a string must not contain the terminator.\<close>

fun item_ok :: "pack_item \<Rightarrow> bool" where
  "item_ok (Byte v) = True"
| "item_ok (Word16 v) = (v < 2 ^ 16)"
| "item_ok (DWord v) = (v < 2 ^ 32)"
| "item_ok (QWord v) = (v < 2 ^ 64)"
| "item_ok (Binary v) = True"
| "item_ok (Str v) = (0 \<notin> set v)"

fun unpack_item :: "unpacker \<Rightarrow> item_shape \<Rightarrow> (pack_item \<times> unpacker) option" where
  "unpack_item up SByte = map_option (\<lambda>(v, up). (Byte v, up)) (UnPackByte up)"
| "unpack_item up SWord = map_option (\<lambda>(v, up). (Word16 v, up)) (UnPackWord up)"
| "unpack_item up SDWord = map_option (\<lambda>(v, up). (DWord v, up)) (UnPackDWord up)"
| "unpack_item up SQWord = map_option (\<lambda>(v, up). (QWord v, up)) (UnPackQWord up)"
| "unpack_item up (SBinary n) = map_option (\<lambda>(rc, v, up). (Binary v, up)) (UnPackBinary_buf up n)"
| "unpack_item up SStr = map_option (\<lambda>(v, up). (Str v, up)) (UnPackString up)"

primrec unpack_items :: "unpacker \<Rightarrow> item_shape list \<Rightarrow> (pack_item list \<times> unpacker) option" where
  "unpack_items up [] = Some ([], up)"
| "unpack_items up (t # ts) =
     do { (i, up) \<leftarrow> unpack_item up t; (is, up) \<leftarrow> unpack_items up ts; Some (i # is, up) }"

text \<open>The body the unpacker sees, with what lies behind it in memory.\<close>

definition up_sees :: "unpacker \<Rightarrow> bytes \<Rightarrow> bytes \<Rightarrow> bool" where
  "up_sees up body tail \<longleftrightarrow> body_mem up = Some (body @ tail) \<and> up_bodylen up = length body \<and>
     tail \<noteq> [] \<and> length body < 2 ^ 32"

lemma up_sees_off [simp]:
  "up_sees (up\<lparr>up_off := n\<rparr>) body tail = up_sees up body tail"
  "up_sees (up\<lparr>up_err := e\<rparr>) body tail = up_sees up body tail"
  by (simp_all add: up_sees_def body_mem_def)

lemma body_mem_off [simp]: "body_mem (up\<lparr>up_off := n\<rparr>) = body_mem up"
  by (simp add: body_mem_def)

lemma rd_body_off [simp]: "rd_body (up\<lparr>up_off := n\<rparr>) = rd_body up"
  by (simp add: rd_body_def fun_eq_iff)

lemma rd_body_sees:
  "up_sees up body tail \<Longrightarrow> p + n \<le> length body \<Longrightarrow> rd_body up p n = Some (slice body p n)"
  by (simp add: rd_body_def up_sees_def memrd_def slice_def)

lemma slice_at: "drop p body = e @ rest \<Longrightarrow> slice body p (length e) = e"
  by (simp add: slice_def)

lemma scan_str_skip:
  "0 \<notin> set v \<Longrightarrow> p + length v < e \<Longrightarrow> e \<le> length m \<Longrightarrow> drop p m = v @ 0 # rest \<Longrightarrow>
   scan_str m p e = Some (p + length v)"
proof (induction v arbitrary: p)
  case Nil
  then have "memrd m p 1 = Some [0]" by (simp add: memrd_def)
  then show ?case by (subst scan_str.simps) simp
next
  case (Cons b v)
  then have "memrd m p 1 = Some [b]" by (simp add: memrd_def)
  moreover have "drop (p + 1) m = v @ 0 # rest"
    using Cons.prems(4) by (metis append_Cons drop_Suc tl_drop list.sel(3) Suc_eq_plus1)
  ultimately show ?case
    using Cons.IH [of "p + 1"] Cons.prems by (subst scan_str.simps) simp
qed

lemma unpack_item_encode:
  assumes sees: "up_sees up body tail" and off: "drop (up_off up) body = encode_item i @ rest"
    and le: "up_off up \<le> length body" and ok: "item_ok i"
  shows "unpack_item up (shape_of i) = Some (i, up\<lparr>up_off := up_off up + length (encode_item i)\<rparr>)"
proof -
  let ?o = "up_off up" and ?n = "length (encode_item i)"
  have len: "?o + ?n \<le> length body" using arg_cong [OF off, of length] le by simp
  have lt: "length body < 2 ^ 32" "up_bodylen up = length body" using sees by (simp_all add: up_sees_def)
  have a: "add32 ?o ?n = ?o + ?n" "sub32 (?o + ?n) ?n = ?o" using len lt(1) by simp_all
  have nf: "\<not> up_bodylen up < ?o + ?n" using len lt(2) by simp
  have rd: "rd_body up ?o ?n = Some (encode_item i)"
    using rd_body_sees [OF sees len] slice_at [OF off] by simp
  have s4: "numeral k = length (encode_item i) \<Longrightarrow> rd_body up ?o (numeral k) = Some (encode_item i)" for k
    using rd by simp
  show ?thesis
  proof (cases i)
    case (Byte v)
    then show ?thesis using a nf rd by (simp add: UnPackByte_def)
  next
    case (Word16 v)
    then show ?thesis using a nf rd ok by (simp add: UnPackWord_def codec_simps)
  next
    case (DWord v)
    then show ?thesis using a nf rd ok by (simp add: UnPackDWord_def codec_simps)
  next
    case (QWord v)
    then show ?thesis using a nf rd ok by (simp add: UnPackQWord_def codec_simps)
  next
    case (Binary v)
    then show ?thesis using a nf rd by (simp add: UnPackBinary_buf_def)
  next
    case (Str v)
    have m: "body_mem up = Some (body @ tail)" using sees by (simp add: up_sees_def)
    have d: "drop ?o (body @ tail) = v @ 0 # rest @ tail" using off Str le by simp
    have "scan_str (body @ tail) ?o (length body) = Some (?o + length v)"
      using ok Str len d by (intro scan_str_skip [where rest = "rest @ tail"]) auto
    moreover have "memrd (body @ tail) ?o (length v) = Some v"
      using d len Str by (simp add: memrd_def)
    ultimately show ?thesis using Str a len lt(2) m by (simp add: UnPackString_def)
  qed
qed

lemma unpack_items_encode:
  "up_sees up body tail \<Longrightarrow> drop (up_off up) body = encode_items is @ rest \<Longrightarrow> up_off up \<le> length body \<Longrightarrow>
   list_all item_ok is \<Longrightarrow>
   unpack_items up (map shape_of is) = Some (is, up\<lparr>up_off := up_off up + length (encode_items is)\<rparr>)"
proof (induction "is" arbitrary: up)
  case (Cons i "is")
  let ?up = "up\<lparr>up_off := up_off up + length (encode_item i)\<rparr>"
  have d: "drop (up_off up) body = encode_item i @ encode_items is @ rest" using Cons.prems(2) by simp
  have u: "unpack_item up (shape_of i) = Some (i, ?up)"
    using unpack_item_encode [OF Cons.prems(1) d] Cons.prems by simp
  have "drop (up_off ?up) body = encode_items is @ rest"
    using arg_cong [OF d, of "drop (length (encode_item i))"] by (simp add: add.commute)
  moreover have "up_off ?up \<le> length body" using arg_cong [OF d, of length] Cons.prems(3) by simp
  ultimately have "unpack_items ?up (map shape_of is) =
      Some (is, ?up\<lparr>up_off := up_off ?up + length (encode_items is)\<rparr>)"
    using Cons.IH [of ?up] Cons.prems by simp
  then show ?case using u by (simp add: add.assoc)
qed simp

section \<open>Accepted packets\<close>

definition wire_header :: "msg_header \<Rightarrow> bool" where
  "wire_header h \<longleftrightarrow> soh h = SOH \<and> main_ver h = MAIN_VER \<and> main_cmd h < 2 ^ 16 \<and> sub_cmd h < 2 ^ 16 \<and>
     seq h < 2 ^ 32 \<and> from_uin h < 2 ^ 32 \<and> to_uin h < 2 ^ 32 \<and> rev_field h < 2 ^ 32"

lemma GetHeader_hdr:
  assumes "wire_header h" "n < 2 ^ 32" "r < 2 ^ 32" "up_data up = Some (hdr h n r @ xs)"
  shows "UP_GetHeader up = Some (h\<lparr>pack_len := n, rev_field := r\<rparr>)"
proof -
  have s: "memrd (hdr h n r @ xs) p 1 = Some (slice (hdr h n r @ xs) p 1)" if "p < 29" for p
    using that by (simp add: memrd_Some)
  have g4: "get_u32 (hdr h n r @ xs) p = Some (be_val (slice (hdr h n r @ xs) p 4))" if "p \<le> 25" for p
    using that by (intro get_u32_slice) simp
  have g2: "get_u16 (hdr h n r @ xs) p = Some (be_val (slice (hdr h n r @ xs) p 2))" if "p \<le> 25" for p
    using that by (intro get_u16_slice) simp
  show ?thesis
    using assms(1-3) unfolding UP_GetHeader_def assms(4)
    by (simp add: s [simplified] g4 g2 slice_hdr [simplified] codec_simps wire_header_def)
qed

text \<open>A packet at the start of an area, which may go on behind it.\<close>

lemma Init_hdr_more:
  assumes "wire_header h" "r < 2 ^ 32" "30 + length b < 2 ^ 32"
  defines "d \<equiv> hdr h (30 + length b) r @ b @ [EOT]"
  shows "UP_Init up (Some (d @ ys)) (length d) =
      Some (RET_OK, up\<lparr>up_data := Some (d @ ys), up_len := length d, up_in_copy := False,
                      up_bodylen := length b, up_off := 0\<rparr>)"
proof -
  let ?up = "up\<lparr>up_data := Some (d @ ys), up_len := length d, up_in_copy := False, up_bodylen := length b, up_off := 0\<rparr>"
  have l: "length d = 30 + length b" by (simp add: d_def)
  have n: "sub32 (sub32 (length d) MSG_HEADER_LEN) 1 = length b" using assms(3) l by (simp add: msg_pos)
  have h: "UP_GetHeader ?up = Some (h\<lparr>pack_len := 30 + length b, rev_field := r\<rparr>)"
    using assms(1-3) by (intro GetHeader_hdr) (simp_all add: d_def)
  have e: "sub32 (30 + length b) 1 = 29 + length b" using assms(3) by simp
  have "memrd (d @ ys) (29 + length b) 1 = Some [EOT]"
    unfolding d_def by (simp add: after_body(1) [where i = 0]) (simp add: memrd_def)
  then have "CheckPack ?up (Some (d @ ys)) (length d) = Some RET_OK"
    unfolding CheckPack_def using h l e assms(1) by (simp add: msg_pos wire_header_def)
  then show ?thesis unfolding UP_Init_def n Let_def by simp
qed

lemma Init_hdr:
  assumes "wire_header h" "r < 2 ^ 32" "30 + length b < 2 ^ 32"
  defines "d \<equiv> hdr h (30 + length b) r @ b @ [EOT]"
  shows "UP_Init up (Some d) (length d) =
      Some (RET_OK, up\<lparr>up_data := Some d, up_len := length d, up_in_copy := False,
                      up_bodylen := length b, up_off := 0\<rparr>)"
  using Init_hdr_more [OF assms(1-3), of up "[]"] by (simp add: d_def)

end
