(* ===== verification/PacketTheorems.thy ===== *)
theory PacketTheorems
  imports UnPacker
begin

text \<open>
  The properties of the packet layer: what a packer writes an unpacker reads back, with and
  without encryption; the fixed packer agrees with the growing one as long as the packet fits;
  cookies can be set, read and removed; unpacking an accepted packet stays in the packet.
  The remaining theorems state where the code leaves the packet.
\<close>

text \<open>
  C17: Any sequence of items packed by \<open>Packer\<close> and turned into a packet by \<open>GetPack\<close>, in clear
  or encrypted with a 16-byte key, is accepted by \<open>UnPacker::Init\<close>; the header comes back field
  by field, and after \<open>Decrypt\<close> or \<open>DumpDecrypt\<close> the items come back in order without an error
  and consume the whole body; \<open>DumpDecrypt\<close> leaves the packet itself unchanged.
\<close>

theorem packet_roundtrip:
  assumes h: "wire_header h" "enc_type h = ENC_TYPE_NONE \<or> enc_type h = ENC_TYPE_TEA"
    and items: "list_all item_ok is" and size: "30 + length (encode_items is) < 2 ^ 32"
    and key: "length key = 16"
  shows "\<exists>oss d up1 up2 up3 up4 up5.
    put_all packer_put [] is = Some oss \<and> GetPack_key stk oss h key = Some d \<and>
    UP_Init up (Some d) (length d) = Some (RET_OK, up1) \<and>
    UP_GetHeader up1 = Some (h\<lparr>pack_len := length d\<rparr>) \<and>
    UP_Decrypt up1 key = Some (RET_OK, up2) \<and>
    unpack_items up2 (map shape_of is) = Some (is, up3) \<and>
    up_off up3 = up_bodylen up3 \<and> up_err up3 = up_err up \<and>
    UP_DumpDecrypt up1 key = Some (RET_OK, up4) \<and> up_data up4 = Some d \<and>
    unpack_items up4 (map shape_of is) = Some (is, up5) \<and> up_err up5 = up_err up"
proof -
  let ?oss = "encode_items is"
  have oss: "put_all packer_put [] is = Some ?oss"
    using oss.put_all_fits [of "is" "[]"] size by (auto simp: big_room_def)
  obtain w where w: "length w = length ?oss"
      "GetPack_key stk ?oss h key = Some (hdr h (30 + length ?oss) (rev_field h) @ w @ [EOT])"
      "enc_type h = ENC_TYPE_NONE \<longrightarrow> w = ?oss"
      "enc_type h = ENC_TYPE_TEA \<longrightarrow> xxtea_decrypt w (length ?oss) key = Some ?oss"
  proof (cases "enc_type h = ENC_TYPE_TEA")
    case True
    then show ?thesis using that GetPack_key_hdr [OF size key True, of stk]
      by (auto simp: ENC_TYPE_NONE_def ENC_TYPE_TEA_def)
  next
    case False
    then show ?thesis using that [of ?oss] GetPack_hdr [OF size, of stk h]
      by (simp add: GetPack_key_def)
  qed
  define d where "d = hdr h (30 + length w) (rev_field h) @ w @ [EOT]"
  have rev: "rev_field h < 2 ^ 32" using h(1) by (simp add: wire_header_def)
  define up1 where "up1 = up\<lparr>up_data := Some d, up_len := length d, up_in_copy := False,
      up_bodylen := length w, up_off := 0\<rparr>"
  have init: "UP_Init up (Some d) (length d) = Some (RET_OK, up1)"
    using Init_hdr [OF h(1) rev, of w up] size w(1) by (simp add: d_def up1_def)
  have hd1: "UP_GetHeader up1 = Some (h\<lparr>pack_len := length d\<rparr>)"
    using GetHeader_hdr [OF h(1) _ rev, of "30 + length w" up1 "w @ [EOT]"] size w(1)
    by (simp add: up1_def d_def)
  have enc: "GetEncType d = Some (enc_type h)" by (simp add: d_def)
  have dec: "\<exists>up2 tail2 up4 tail4. UP_Decrypt up1 key = Some (RET_OK, up2) \<and> up_sees up2 ?oss tail2 \<and>
      up_off up2 = 0 \<and> up_err up2 = up_err up \<and>
      UP_DumpDecrypt up1 key = Some (RET_OK, up4) \<and> up_data up4 = Some d \<and> up_sees up4 ?oss tail4 \<and>
      up_off up4 = 0 \<and> up_err up4 = up_err up"
  proof (cases "enc_type h = ENC_TYPE_NONE")
    case True
    then have "up_sees up1 ?oss [EOT]"
      using w(1,3) size by (simp add: up_sees_def up1_def body_mem_def d_def msg_pos)
    then show ?thesis using True enc w(3) by (auto simp: UP_Decrypt_def UP_DumpDecrypt_def up1_def)
  next
    case False
    then have t: "enc_type h = ENC_TYPE_TEA" using h(2) by simp
    have a: "in_area (\<lambda>v. xxtea_decrypt v (length ?oss) key) d 29 (length ?oss) =
        Some (hdr h (30 + length w) (rev_field h) @ ?oss @ [EOT])"
      unfolding d_def by (simp add: in_area_def memrd_hdr memwr_hdr)
        (use w(1,4) t in \<open>simp add: memrd_def memwr_def\<close>)
    have c: "rd_body up1 0 (length ?oss) = Some w"
      using w(1) by (simp add: rd_body_def body_mem_def up1_def d_def msg_pos memrd_def)
    let ?up2 = "up1\<lparr>up_data := Some (hdr h (30 + length w) (rev_field h) @ ?oss @ [EOT])\<rparr>"
    let ?up4 = "up1\<lparr>up_copy := ?oss, up_in_copy := True\<rparr>"
    have f: "up_data up1 = Some d" "\<not> up_in_copy up1" "up_bodylen up1 = length ?oss"
      by (simp_all add: up1_def w(1))
    have "UP_Decrypt up1 key = Some (RET_OK, ?up2)"
      unfolding UP_Decrypt_def using False t enc a f by (simp add: msg_pos)
    moreover have "UP_DumpDecrypt up1 key = Some (RET_OK, ?up4)"
      unfolding UP_DumpDecrypt_def using False t enc c w(4) f by simp
    moreover have "up_sees ?up2 ?oss [EOT]" "up_sees ?up4 ?oss [0]"
      using size w(1) by (simp_all add: up_sees_def body_mem_def up1_def msg_pos)
    ultimately show ?thesis by (fastforce simp: up1_def)
  qed
  then obtain up2 tail2 up4 tail4 where u: "UP_Decrypt up1 key = Some (RET_OK, up2)" "up_sees up2 ?oss tail2"
      "up_off up2 = 0" "up_err up2 = up_err up" "UP_DumpDecrypt up1 key = Some (RET_OK, up4)"
      "up_data up4 = Some d" "up_sees up4 ?oss tail4" "up_off up4 = 0" "up_err up4 = up_err up" by blast
  have "unpack_items up2 (map shape_of is) = Some (is, up2\<lparr>up_off := length ?oss\<rparr>)"
    using unpack_items_encode [OF u(2), of "is" "[]"] u(3) items by simp
  moreover have "unpack_items up4 (map shape_of is) = Some (is, up4\<lparr>up_off := length ?oss\<rparr>)"
    using unpack_items_encode [OF u(7), of "is" "[]"] u(8) items by simp
  moreover have "up_bodylen up2 = length ?oss" using u(2) by (simp add: up_sees_def)
  moreover have "GetPack_key stk ?oss h key = Some d" using w(1,2) by (simp add: d_def)
  ultimately show ?thesis using oss init hd1 u by fastforce
qed

definition demo_header :: "byte \<Rightarrow> msg_header" where
  "demo_header e = (MsgHeader 0)\<lparr>main_cmd := 0x1001, seq := 7, to_uin := 10001, enc_type := e\<rparr>"

definition demo_items :: "pack_item list" where
  "demo_items = [Word16 3, Str [104, 105], DWord 70000, Byte 9, Binary [1, 0, 2], QWord 5]"

definition demo_unpacker :: unpacker where
  "demo_unpacker = \<lparr>up_data = None, up_len = 0, up_err = 0, up_copy = [], up_in_copy = False,
     up_bodylen = 0, up_off = 0\<rparr>"

lemma demo_header_wire:
  "wire_header (demo_header e)" "enc_type (demo_header e) = e" "rev_field (demo_header e) = 0"
  by (simp_all add: demo_header_def wire_header_def MsgHeader_def)

lemma demo_items_ok: "list_all item_ok demo_items" "length (encode_items demo_items) = 21"
  by (simp_all add: demo_items_def)

theorem packet_roundtrip_witness:
  "\<exists>oss d up1 up2 up3. put_all packer_put [] demo_items = Some oss \<and>
    GetPack_key (\<lambda>_. 0) oss (demo_header ENC_TYPE_TEA) (replicate 16 5) = Some d \<and>
    UP_Init demo_unpacker (Some d) (length d) = Some (RET_OK, up1) \<and>
    UP_Decrypt up1 (replicate 16 5) = Some (RET_OK, up2) \<and>
    unpack_items up2 (map shape_of demo_items) = Some (demo_items, up3) \<and> up_err up3 = 0"
  using packet_roundtrip [of "demo_header ENC_TYPE_TEA" demo_items "replicate 16 5" "\<lambda>_. 0" demo_unpacker]
    demo_header_wire [of ENC_TYPE_TEA] demo_items_ok
  by (auto simp: demo_unpacker_def)

text \<open>
  C18: \<open>FixedPacker\<close> on a buffer of \<open>len\<close> bytes: when the items leave a byte for the end mark it
  produces exactly the packet of \<open>Packer\<close>; when they do not fit the error is set and
  \<open>GetPack\<close> reports length 0; when they fill the buffer exactly no error is raised and
  \<open>GetPack\<close> writes the end mark one byte behind the buffer.
\<close>

theorem fixed_packer_exact:
  assumes len: "30 \<le> len" "len < 2 ^ 31" "length buf = len"
    and items: "list_all (\<lambda>i. length (encode_item i) < 2 ^ 31) is"
  shows "\<exists>p q. FP_Init fp buf len = (0, p) \<and> put_all fixed_put p is = Some q \<and>
    (let n = 29 + length (encode_items is) in
      (n < len \<longrightarrow> (\<exists>q' d. FP_GetPack q h = Some (int (n + 1), q') \<and>
         GetPack stk (encode_items is) h = Some d \<and> take (n + 1) (fp_buf q') = d)) \<and>
      (len < n \<longrightarrow> FP_GetPack q h = Some (0, q)) \<and>
      (n = len \<longrightarrow> fp_err q = 0 \<and> FP_GetPack q h = None))"
  by (rule fixed_pack_cases [OF len items])

definition demo_fixed :: fixed_packer where
  "demo_fixed = \<lparr>fp_buf = [], fp_tail = 0, fp_buflen = 0, fp_err = 1\<rparr>"

theorem fixed_packer_exact_witness:
  "\<exists>p q. FP_Init demo_fixed (replicate 50 0) 50 = (0, p) \<and> put_all fixed_put p demo_items = Some q \<and>
     fp_err q = 0 \<and> FP_GetPack q (demo_header 0) = None"
  using fixed_packer_exact [of 50 "replicate 50 0" demo_items demo_fixed "demo_header 0" "\<lambda>_. 0"]
    demo_items_ok(2)
  by (auto simp: demo_items_def)

text \<open>
  A cookie set on a packet (with or without an older cookie) is read back unchanged,
  \<open>SetCookie\<close> refuses a buffer that is too small, and \<open>DelCookie\<close> gives back the packet
  without cookie, if the body is not empty: the cookie of a packet without body stands right
  behind the header, where \<open>DelCookie\<close> takes it for absent and leaves it.
\<close>

theorem cookie_set_get_delete:
  assumes fits: "packet_fits body old" "packet_fits body (Some c)"
    and buf: "buf = packet h body old @ junk" and len: "len \<le> length buf"
  defines "n \<equiv> 32 + length body + length c"
  shows "\<exists>buf'. SetCookie_str buf len c = Some (if len < n then (- 1, buf) else (int n, buf')) \<and>
    (n \<le> len \<longrightarrow> length buf' = length buf \<and>
      GetCookie buf' (length c) = Some (0, c, length c) \<and> GetCookie_str buf' prev = Some (0, c) \<and>
      (body \<noteq> [] \<longrightarrow> (\<exists>rest. DelCookie buf' = Some (int (30 + length body), packet h body None @ rest))) \<and>
      (body = [] \<longrightarrow> DelCookie buf' = Some (int n, buf')))"
proof -
  let ?buf = "packet h body (Some c) @ drop n buf"
  have "length c < 2 ^ 16" using fits(2) by (simp add: packet_fits_def)
  then have "SetCookie_str buf len c = Some (if len < n then (- 1, buf) else (int n, ?buf))"
    using SetCookie_packet [OF fits buf len] by (simp add: SetCookie_str_def n_def)
  moreover have "length ?buf = length buf" if "n \<le> len" using that len by (simp add: n_def)
  moreover have "GetCookie ?buf (length c) = Some (0, c, length c)" "GetCookie_str ?buf prev = Some (0, c)"
    by (simp_all add: GetCookie_packet [OF fits(2)])
  moreover have "\<exists>rest. DelCookie ?buf = Some (int (30 + length body), packet h body None @ rest)"
    if "body \<noteq> []" using that DelCookie_packet [OF fits(2) refl, of h "drop n buf"] by auto
  moreover have "DelCookie ?buf = Some (int n, ?buf)" if "body = []"
    using that DelCookie_packet [OF fits(2) refl, of h "drop n buf"] by (simp add: n_def)
  ultimately show ?thesis by blast
qed

theorem cookie_set_get_delete_witness:
  "\<exists>buf'. SetCookie_str (packet (demo_header 0) [] None @ replicate 10 0) 40 [1, 2] = Some (34, buf') \<and>
     GetCookie buf' 2 = Some (0, [1, 2], 2) \<and> DelCookie buf' = Some (34, buf')"
proof -
  have "packet_fits [] None" "packet_fits [] (Some [1, 2])" by (simp_all add: packet_fits_def)
  from cookie_set_get_delete [OF this refl, of 40 "demo_header 0" "replicate 10 0" "[]"]
  show ?thesis by (auto simp: numeral_2_eq_2)
qed

lemma scan_str_total: "p \<le> e \<Longrightarrow> e < length m \<Longrightarrow> \<exists>q. scan_str m p e = Some q \<and> p \<le> q \<and> q \<le> e"
proof (induction "e - p" arbitrary: p)
  case 0
  then show ?case by (subst scan_str.simps) (simp add: memrd_Some)
next
  case (Suc k)
  then have "\<exists>q. scan_str m (p + 1) e = Some q \<and> p + 1 \<le> q \<and> q \<le> e" by simp
  then show ?case using Suc.prems by (subst scan_str.simps) (auto simp: memrd_Some)
qed

definition safe_shape :: "nat \<Rightarrow> item_shape \<Rightarrow> bool" where
  "safe_shape n t \<longleftrightarrow> t \<noteq> SByte \<and> (\<forall>k. t = SBinary k \<longrightarrow> n + k < 2 ^ 32)"

lemma unpack_item_safe:
  assumes sees: "up_sees up body tail" and off: "up_off up \<le> length body"
    and len: "length body + 8 < 2 ^ 32" and t: "safe_shape (length body) t"
  shows "\<exists>i up'. unpack_item up t = Some (i, up') \<and> up_sees up' body tail \<and> up_off up' \<le> length body"
proof -
  note rd = rd_body_sees [OF sees]
  have bl: "up_bodylen up = length body" using sees by (simp add: up_sees_def)
  have a: "add32 (up_off up) k = up_off up + k" "sub32 (up_off up + k) k = up_off up"
    if "length body + k < 2 ^ 32" for k using that off by simp_all
  have s: "up_sees (up_fail up) body tail" "up_off (up_fail up) = up_off up"
    using sees by (simp_all add: up_fail_def)
  show ?thesis
  proof (cases t)
    case SByte
    then show ?thesis using t by (simp add: safe_shape_def)
  next
    case SWord
    then show ?thesis using a [of 2] rd len bl s sees off by (auto simp: UnPackWord_def)
  next
    case SDWord
    then show ?thesis using a [of 4] rd len bl s sees off by (auto simp: UnPackDWord_def)
  next
    case SQWord
    then show ?thesis using a [of 8] rd len bl s sees off by (auto simp: UnPackQWord_def)
  next
    case (SBinary k)
    then have "length body + k < 2 ^ 32" using t by (simp add: safe_shape_def)
    then show ?thesis using SBinary a [of k] rd bl s sees off by (auto simp: UnPackBinary_buf_def)
  next
    case SStr
    have m: "body_mem up = Some (body @ tail)" "tail \<noteq> []" using sees by (simp_all add: up_sees_def)
    then obtain q where q: "scan_str (body @ tail) (up_off up) (length body) = Some q"
        "up_off up \<le> q" "q \<le> length body"
      using scan_str_total [of "up_off up" "length body" "body @ tail"] off by auto
    then show ?thesis using SStr m bl sees off len by (auto simp: UnPackString_def memrd_Some)
  qed
qed

lemma unpack_items_safe:
  "up_sees up body tail \<Longrightarrow> up_off up \<le> length body \<Longrightarrow> length body + 8 < 2 ^ 32 \<Longrightarrow>
   list_all (safe_shape (length body)) ts \<Longrightarrow>
   \<exists>is up'. unpack_items up ts = Some (is, up') \<and> up_sees up' body tail \<and> up_off up' \<le> length body"
proof (induction ts arbitrary: up)
  case (Cons t ts)
  then obtain i up' where u: "unpack_item up t = Some (i, up')" "up_sees up' body tail"
      "up_off up' \<le> length body"
    using unpack_item_safe [of up body tail t] by auto
  then show ?case using Cons.IH [of up'] Cons.prems by fastforce
qed simp

text \<open>What an accepted packet gives: the body is all but the header and the last byte.\<close>

lemma Init_sees:
  assumes "UP_Init up (Some d) (length d) = Some (RET_OK, up1)" "length d < 2 ^ 32"
  shows "30 \<le> length d" "up_sees up1 (drop 29 (butlast d)) [last d]" "up_off up1 = 0"
proof -
  define up0 where "up0 = up\<lparr>up_data := Some d, up_len := length d, up_in_copy := False,
      up_bodylen := sub32 (sub32 (length d) MSG_HEADER_LEN) 1, up_off := 0\<rparr>"
  have i: "CheckPack up0 (Some d) (length d) = Some RET_OK" "up1 = up0"
    using assms(1) by (auto simp: UP_Init_def up0_def Let_def bind_eq_Some_conv)
  show l: "30 \<le> length d" using i(1) by (rule contrapos_pp) (simp add: CheckPack_def msg_pos proto_codes)
  then obtain bs x where "d = bs @ [x]" by (cases d rule: rev_cases) auto
  then have "drop 29 d = drop 29 (butlast d) @ [last d]" using l by simp
  then show "up_sees up1 (drop 29 (butlast d)) [last d]" "up_off up1 = 0"
    using l assms(2) by (simp_all add: up_sees_def body_mem_def i(2) up0_def msg_pos)
qed



text \<open>
  \<open>UnPackByte\<close> compares the offset with \<open>>\<close> instead of \<open>>=\<close>: at the end of the body it
  returns the end mark of the packet as data, without an error, and moves the offset behind
  the body, where \<open>UnPackString\<close> then reads outside the packet.
\<close>

theorem unpack_byte_past_end:
  assumes "up_sees up body [EOT]" "up_off up = length body" "length body < 2 ^ 32 - 1"
  shows "\<exists>up'. UnPackByte up = Some (EOT, up') \<and> up_err up' = up_err up \<and> up_bodylen up' < up_off up' \<and>
    UnPackString up' = None"
proof -
  have s: "body_mem up = Some (body @ [EOT])" "up_bodylen up = length body" "length body < 2 ^ 32"
    using assms(1) by (simp_all add: up_sees_def)
  have "memrd (body @ [EOT]) (length body) 1 = Some [EOT]" by (simp add: memrd_def)
  then have "UnPackByte up = Some (EOT, up\<lparr>up_off := length body + 1\<rparr>)"
    using s assms(2,3) by (simp add: UnPackByte_def rd_body_def)
  moreover have "scan_str (body @ [EOT]) (length body + 1) (length body) = None"
    by (subst scan_str.simps) (simp add: memrd_None)
  ultimately show ?thesis using s by (simp add: UnPackString_def)
qed

lemma init_sees_packet:
  assumes "wire_header h" "rev_field h < 2 ^ 24" "30 + length b < 2 ^ 32"
  shows "\<exists>up1. UP_Init up (Some (hdr h (30 + length b) (rev_field h) @ b @ [EOT])) (30 + length b) =
    Some (RET_OK, up1) \<and> up_sees up1 b [EOT] \<and> up_off up1 = 0 \<and> up_err up1 = up_err up"
  using Init_hdr [of h "rev_field h" b up] assms by (simp add: up_sees_def body_mem_def msg_pos)

theorem unpack_byte_past_end_witness:
  "\<exists>up1 up2. UP_Init demo_unpacker (Some (hdr (demo_header 0) 30 0 @ [EOT])) 30 = Some (RET_OK, up1) \<and>
     UnPackByte up1 = Some (EOT, up2) \<and> up_err up2 = 0 \<and> UnPackString up2 = None"
proof -
  obtain up1 where i: "UP_Init demo_unpacker (Some (hdr (demo_header 0) 30 0 @ [EOT])) 30 = Some (RET_OK, up1)"
      "up_sees up1 [] [EOT]" "up_off up1 = 0" "up_err up1 = 0"
    using init_sees_packet [of "demo_header 0" "[]" demo_unpacker] demo_header_wire [of 0]
    by (auto simp: demo_unpacker_def)
  then show ?thesis using unpack_byte_past_end [OF i(2)] by fastforce
qed

text \<open>
  \<open>CheckPack\<close> reads the end mark at \<open>pack_len - 1\<close> after comparing \<open>pack_len\<close> only from
  above: a packet that announces length 0 makes it read 4 GB behind the packet.
\<close>

theorem init_zero_length_out_of_bounds:
  assumes "wire_header h" "length xs < 2 ^ 32 - 30" "xs \<noteq> []" "r < 2 ^ 32"
  shows "UP_Init up (Some (hdr h 0 r @ xs)) (29 + length xs) = None"
proof -
  let ?up = "up\<lparr>up_data := Some (hdr h 0 r @ xs), up_len := 29 + length xs, up_in_copy := False,
      up_bodylen := sub32 (sub32 (29 + length xs) MSG_HEADER_LEN) 1, up_off := 0\<rparr>"
  have h: "UP_GetHeader ?up = Some (h\<lparr>pack_len := 0, rev_field := r\<rparr>)"
    using assms by (intro GetHeader_hdr [where xs = xs]) simp_all
  have w: "sub32 0 1 = 2 ^ 32 - 1" by (simp add: sub32_wrap)
  have "memrd (hdr h 0 r @ xs) (2 ^ 32 - 1) 1 = None"
    using assms(2) by (intro memrd_None) simp
  moreover have "0 < length xs" using assms(3) by simp
  ultimately have "CheckPack ?up (Some (hdr h 0 r @ xs)) (29 + length xs) = None"
    unfolding CheckPack_def using h w assms(1) by (simp add: msg_pos wire_header_def)
  then show ?thesis unfolding UP_Init_def Let_def by simp
qed

theorem init_zero_length_out_of_bounds_witness:
  "UP_Init demo_unpacker (Some (hdr (demo_header 0) 0 0 @ [EOT])) (29 + length [EOT]) = None"
  by (rule init_zero_length_out_of_bounds) (simp_all add: demo_header_wire)

text \<open>The header of a byte area, as \<open>UnPacker::GetHeader\<close> reads it.\<close>

definition header_of :: "bytes \<Rightarrow> msg_header option" where
  "header_of p = UP_GetHeader (demo_unpacker\<lparr>up_data := Some p\<rparr>)"

lemma header_of_slices:
  "29 \<le> length p \<Longrightarrow> header_of p = Some
     \<lparr>soh = hd (slice p 0 1), main_ver = hd (slice p 1 1), sub_ver = hd (slice p 2 1),
      pack_len = be_val (slice p 3 4), main_cmd = be_val (slice p 7 2), sub_cmd = be_val (slice p 9 2),
      seq = be_val (slice p 11 4), from_uin = be_val (slice p 15 4), to_uin = be_val (slice p 19 4),
      enc_type = hd (slice p 23 1), source_type = hd (slice p 24 1), rev_field = be_val (slice p 25 4)\<rparr>"
  by (simp add: header_of_def UP_GetHeader_def memrd_Some get_u16_slice get_u32_slice)

lemma slice_overlay_be:
  "p + k \<le> length m \<Longrightarrow> slice (overlay m p (be_bytes k v)) p k = be_bytes k v"
  using slice_overlay_same [of p "be_bytes k v" m] by simp

lemma slice_overlay_one: "p < length m \<Longrightarrow> slice (overlay m p [x]) p 1 = [x]"
  using slice_overlay_same [of p "[x]" m] by simp

lemmas header_simps = header_of_slices slice_overlay_disjoint slice_overlay_be slice_overlay_one [simplified]
  set_u16_overlay set_u32_overlay get_u16_slice get_u32_slice memrd_Some memwr_Some msg_pos codec_simps

lemma rev_high: "(a * 16777216 + b mod 16777216) div 16777216 = (a :: nat)"
  by simp

text \<open>
  On any area of at least 29 bytes each setter of the packet header changes its own field
  and no other, and each getter returns the field \<open>UnPacker::GetHeader\<close> reads; the reserved byte
  and the cookie position share one field without disturbing each other.
\<close>

theorem header_accessors:
  assumes p: "29 \<le> length p" and h: "header_of p = Some h"
    and v: "v < 2 ^ 32" "m < 2 ^ 16" "s < 2 ^ 16" "b < 2 ^ 8" "pos < 2 ^ 24"
  shows "GetPackLen p = Some (pack_len h) \<and> GetPackCmd p = Some (main_cmd h, sub_cmd h) \<and>
    GetSequence p = Some (seq h) \<and> GetFromUin p = Some (from_uin h) \<and> GetToUin p = Some (to_uin h) \<and>
    GetEncType p = Some (enc_type h) \<and> GetReserve p = Some (rev_field h div 2 ^ 24) \<and>
    GetCookiePos p = Some (rev_field h mod 2 ^ 24) \<and>
    (\<exists>p'. SetPackLen p v = Some p' \<and> header_of p' = Some (h\<lparr>pack_len := v\<rparr>)) \<and>
    (\<exists>p'. SetPackCmd p m s = Some p' \<and> header_of p' = Some (h\<lparr>main_cmd := m, sub_cmd := s\<rparr>)) \<and>
    (\<exists>p'. SetSequence p v = Some p' \<and> header_of p' = Some (h\<lparr>seq := v\<rparr>)) \<and>
    (\<exists>p'. SetFromUin p v = Some p' \<and> header_of p' = Some (h\<lparr>from_uin := v\<rparr>)) \<and>
    (\<exists>p'. SetToUin p v = Some p' \<and> header_of p' = Some (h\<lparr>to_uin := v\<rparr>)) \<and>
    (\<exists>p'. SetEncType p e = Some p' \<and> header_of p' = Some (h\<lparr>enc_type := e\<rparr>)) \<and>
    (\<exists>p'. SetReserve p b = Some p' \<and> GetReserve p' = Some b \<and> GetCookiePos p' = GetCookiePos p) \<and>
    (\<exists>p'. SetCookiePos p pos = Some p' \<and> GetCookiePos p' = Some pos \<and> GetReserve p' = GetReserve p)"
proof -
  let ?r = "be_val (slice p 25 4)"
  have "?r < 256 ^ length (slice p 25 4)" by (rule be_val_lt)
  then have "?r < 2 ^ 32" using p by simp
  then have "?r div 2 ^ 24 < 2 ^ 8" by (simp add: div_less_iff_less_mult)
  then have "be_val (be_bytes 4 (?r div 16777216 * 16777216 + pos)) = ?r div 16777216 * 16777216 + pos"
    using v by (intro be_val_be_bytes) simp
  then show ?thesis
    using p h v
    by (simp add: header_simps GetPackLen_def GetPackCmd_def GetSequence_def GetFromUin_def GetToUin_def
        GetReserve_def GetCookiePos_def GetEncType_def SetPackLen_def SetPackCmd_def SetSequence_def
        SetFromUin_def SetToUin_def SetEncType_def SetReserve_def SetCookiePos_def) auto
qed

theorem header_accessors_witness:
  "\<exists>p'. SetFromUin (hdr (demo_header 1) 30 0) 99 = Some p' \<and>
     header_of p' = Some ((demo_header 1)\<lparr>pack_len := 30, from_uin := 99\<rparr>)"
proof -
  have "header_of (hdr (demo_header 1) 30 0) = Some ((demo_header 1)\<lparr>pack_len := 30, rev_field := 0\<rparr>)"
    unfolding header_of_def by (rule GetHeader_hdr [where xs = "[]"]) (simp_all add: demo_header_wire)
  from header_accessors [OF _ this, of 99 1 1 1 1 0] show ?thesis
    by (simp add: demo_header_def MsgHeader_def)
qed

end
