(* ===== verification/AppCombo.thy ===== *)
theory AppCombo
  imports UnPacker
begin

text \<open>
  Combined requests and responses (\<open>libprotocol/include/app_combo_protocol.h\<close>,
  \<open>libprotocol/src/app_combo_protocol.cpp\<close>): a request packs several sub-requests, each with
  a server type and a route key, into one packet; a response carries the sub-responses.  The
  template parameter \<open>PACKER\<close> of \<open>MakeReq\<close> is the put operation of the locale
  \<open>body_packer\<close>, so that what is packed is proved once for both packers.
\<close>

definition DP_ERR_GENERAL :: nat where "DP_ERR_GENERAL = 1"

section \<open>Requests\<close>

record combo_req =
  cr_cookie :: bytes
  cr_header :: msg_header
  cr_reqs :: "(bytes \<times> nat) list"
  cr_timeout :: nat

definition COMBO_REQUEST_MAIN_CMD :: nat where "COMBO_REQUEST_MAIN_CMD = 0x0900"
definition COMBO_REQUEST_SUB_CMD :: nat where "COMBO_REQUEST_SUB_CMD = 1"

definition AppComboReq :: "nat \<Rightarrow> combo_req" where
  "AppComboReq junk =
     \<lparr>cr_cookie = [],
      cr_header = (MsgHeader junk)\<lparr>main_cmd := COMBO_REQUEST_MAIN_CMD, sub_cmd := COMBO_REQUEST_SUB_CMD\<rparr>,
      cr_reqs = [], cr_timeout = 0\<rparr>"

definition SetTimeout :: "combo_req \<Rightarrow> nat \<Rightarrow> combo_req" where
  "SetTimeout r t = r\<lparr>cr_timeout := t\<rparr>"

definition SetSeq :: "combo_req \<Rightarrow> nat \<Rightarrow> combo_req" where
  "SetSeq r s = r\<lparr>cr_header := (cr_header r)\<lparr>seq := s\<rparr>\<rparr>"

definition SetRouteKey :: "combo_req \<Rightarrow> nat \<Rightarrow> bool \<Rightarrow> combo_req" where
  "SetRouteKey r rk isUnique =
     r\<lparr>cr_header := (cr_header r)\<lparr>to_uin := rk, source_type := (if isUnique then 0 else 1)\<rparr>\<rparr>"

text \<open>The pair of server type and route key is one 64-bit value.\<close>

definition combo_Add :: "combo_req \<Rightarrow> nat \<Rightarrow> nat \<Rightarrow> bytes \<Rightarrow> combo_req" where
  "combo_Add r server_type route_key pk =
     r\<lparr>cr_reqs := cr_reqs r @ [(pk, server_type * 2 ^ 32 + route_key)]\<rparr>"

primrec MakeReq_loop :: "('p \<Rightarrow> pack_item \<Rightarrow> 'p option) \<Rightarrow> 'p \<Rightarrow> (bytes \<times> nat) list \<Rightarrow> 'p option" where
  "MakeReq_loop put pk [] = Some pk"
| "MakeReq_loop put pk (r # rs) =
     do { pk \<leftarrow> put pk (DWord (snd r div 2 ^ 32 mod 2 ^ 32));
          pk \<leftarrow> put pk (DWord (snd r mod 2 ^ 32));
          pk \<leftarrow> put pk (DWord (length (fst r) mod 2 ^ 32));
          pk \<leftarrow> put pk (Binary (take (length (fst r) mod 2 ^ 32) (fst r)));
          MakeReq_loop put pk rs }"

definition PackCookie :: "('p \<Rightarrow> pack_item \<Rightarrow> 'p option) \<Rightarrow> 'p \<Rightarrow> bytes \<Rightarrow> 'p option" where
  "PackCookie put pk cookie =
     do { let cookie_len = length cookie mod 2 ^ 16;
          pk \<leftarrow> put pk (Word16 cookie_len);
          put pk (Binary (take cookie_len cookie)) }"

definition MakeReq_body :: "('p \<Rightarrow> pack_item \<Rightarrow> 'p option) \<Rightarrow> 'p \<Rightarrow> combo_req \<Rightarrow> 'p option" where
  "MakeReq_body put pk r =
     do { pk \<leftarrow> put pk (Word16 (cr_timeout r));
          let req_num = length (cr_reqs r) mod 2 ^ 16;
          pk \<leftarrow> put pk (Word16 req_num);
          pk \<leftarrow> MakeReq_loop put pk (take req_num (cr_reqs r));
          PackCookie put pk (cr_cookie r) }"

definition MakeReq :: "(nat \<Rightarrow> byte) \<Rightarrow> combo_req \<Rightarrow> (int \<times> bytes) option" where
  "MakeReq stk r =
     do { pk \<leftarrow> MakeReq_body packer_put [] r;
          req \<leftarrow> GetPack stk pk (cr_header r);
          Some (s32_of_nat (length req), req) }"

definition MakeReq_fixed :: "fixed_packer \<Rightarrow> bytes \<Rightarrow> nat \<Rightarrow> combo_req \<Rightarrow> (int \<times> fixed_packer) option" where
  "MakeReq_fixed fp0 buf buf_len r =
     (let (rc, pk) = FP_Init (snd (FP_Init fp0 [] 0)) buf buf_len
      in if rc \<noteq> 0 then Some (- 1, pk)
         else do { pk \<leftarrow> MakeReq_body fixed_put pk r;
                   if fp_err pk \<noteq> 0 then Some (- 1, pk) else FP_GetPack pk (cr_header r) })"

definition req_items :: "combo_req \<Rightarrow> pack_item list" where
  "req_items r =
     [Word16 (cr_timeout r), Word16 (length (cr_reqs r))] @
     concat (map (\<lambda>(p, v). [DWord (v div 2 ^ 32), DWord (v mod 2 ^ 32), DWord (length p), Binary p]) (cr_reqs r)) @
     [Word16 (length (cr_cookie r)), Binary (cr_cookie r)]"

text \<open>Requests within the field widths of the protocol.\<close>

definition req_ok :: "combo_req \<Rightarrow> bool" where
  "req_ok r \<longleftrightarrow> cr_timeout r < 2 ^ 16 \<and> length (cr_reqs r) < 2 ^ 16 \<and> length (cr_cookie r) < 2 ^ 16 \<and>
     (\<forall>(p, v) \<in> set (cr_reqs r). length p < 2 ^ 32 \<and> v < 2 ^ 64)"

lemma MakeReq_loop_put_all:
  "(\<forall>(p, v) \<in> set rs. length p < 2 ^ 32 \<and> v < 2 ^ 64) \<Longrightarrow>
   MakeReq_loop put pk rs =
     put_all put pk (concat (map (\<lambda>(p, v). [DWord (v div 2 ^ 32), DWord (v mod 2 ^ 32), DWord (length p), Binary p]) rs))"
proof (induction rs arbitrary: pk)
  case (Cons r rs)
  obtain p v where r: "r = (p, v)" by (cases r)
  have "v div 2 ^ 32 mod 2 ^ 32 = v div 2 ^ 32" "length p mod 2 ^ 32 = length p"
    using Cons.prems r by (auto simp: div_less_iff_less_mult)
  then show ?case using Cons r by (simp add: bind_assoc)
qed simp

lemma MakeReq_body_put_all: "req_ok r \<Longrightarrow> MakeReq_body put pk r = put_all put pk (req_items r)"
  unfolding MakeReq_body_def req_items_def PackCookie_def req_ok_def
  by (simp add: MakeReq_loop_put_all put_all_append Let_def)

section \<open>Responses\<close>

record combo_rsp =
  rs_cookie :: bytes
  rs_retcode :: nat
  rs_num :: nat
  rs_list :: "(bytes \<times> nat) list"

definition AppComboRsp :: combo_rsp where
  "AppComboRsp = \<lparr>rs_cookie = [], rs_retcode = 0xFFFF, rs_num = 0, rs_list = []\<rparr>"

text \<open>\<open>GetRspCmd\<close> reads the command of the sub-packet at offset \<open>off\<close> of the body.\<close>

definition GetRspCmd :: "unpacker \<Rightarrow> nat \<Rightarrow> nat \<Rightarrow> (nat \<times> nat \<times> nat) option" where
  "GetRspCmd up off plen =
     (if plen < MSG_HEADER_LEN then Some (ERR_PROTOCOL, 0, 0)
      else do { a \<leftarrow> rd_body up (off + MSG_MAIN_CMD_POS) 2;
                b \<leftarrow> rd_body up (off + MSG_MAIN_CMD_POS + 2) 2;
                Some (RET_OK, htons (le_val a), htons (le_val b)) })"

text \<open>The loop over the records: whether it got through, and the list so far.\<close>

primrec ParseRsp_loop ::
    "nat \<Rightarrow> unpacker \<Rightarrow> (bytes \<times> nat) list \<Rightarrow> (bool \<times> (bytes \<times> nat) list) option" where
  "ParseRsp_loop 0 up l = Some (True, l)"
| "ParseRsp_loop (Suc n) up l =
     do { (len, up) \<leftarrow> UnPackDWord up;
          let (pRsp, up) = UnPackBinary_ptr up len;
          (case pRsp of
            None \<Rightarrow> Some (False, l)
          | Some off \<Rightarrow>
              do { (r, main, sub) \<leftarrow> GetRspCmd up off len;
                   if r \<noteq> 0 then Some (False, l)
                   else do { s \<leftarrow> rd_body up off len;
                             ParseRsp_loop n up (l @ [(s, main * 2 ^ 16 + sub)]) } }) }"

definition ParseRsp :: "combo_rsp \<Rightarrow> unpacker \<Rightarrow> bytes \<Rightarrow> nat \<Rightarrow> (int \<times> combo_rsp) option" where
  "ParseRsp rsp up0 buf buf_len =
     do { (ret, upk) \<leftarrow> UP_Init (up0\<lparr>up_err := RET_OK\<rparr>) (Some buf) buf_len;
          if ret \<noteq> RET_OK then Some (int ret, rsp)
          else do { (retcode, upk) \<leftarrow> UnPackWord upk;
                    if retcode \<noteq> 0 then Some (- 1, rsp\<lparr>rs_retcode := DP_ERR_GENERAL\<rparr>)
                    else do { (num, upk) \<leftarrow> UnPackWord upk;
                              (good, l) \<leftarrow> ParseRsp_loop num upk (rs_list rsp);
                              if good then Some (0, rsp\<lparr>rs_retcode := 0, rs_num := num, rs_list := l\<rparr>)
                              else Some (- 1, rsp\<lparr>rs_retcode := DP_ERR_GENERAL,
                                                rs_num := length l mod 2 ^ 32, rs_list := l\<rparr>) } } }"

definition GetSubRsp_buf :: "combo_rsp \<Rightarrow> bytes \<Rightarrow> nat \<Rightarrow> nat \<Rightarrow> (int \<times> bytes) option" where
  "GetSubRsp_buf rsp buf buf_len idx =
     (if rs_num rsp \<le> idx then Some (- 1, buf)
      else if length (rs_list rsp) \<le> idx then None
      else let r = fst (rs_list rsp ! idx)
           in if buf_len < length r then Some (- 2, buf)
              else do { b \<leftarrow> memwr buf 0 r; Some (s32_of_nat (length r), b) })"

definition GetSubRsp_str :: "combo_rsp \<Rightarrow> bytes \<Rightarrow> nat \<Rightarrow> (int \<times> bytes) option" where
  "GetSubRsp_str rsp subpack idx =
     (if rs_num rsp \<le> idx then Some (- 1, subpack)
      else if length (rs_list rsp) \<le> idx then None
      else let r = fst (rs_list rsp ! idx) in Some (s32_of_nat (length r), r))"

definition GetSubRspCmd :: "combo_rsp \<Rightarrow> nat \<Rightarrow> (int \<times> nat \<times> nat) option" where
  "GetSubRspCmd rsp idx =
     (if rs_num rsp \<le> idx then Some (- 1, 0, 0)
      else if length (rs_list rsp) \<le> idx then None
      else let cmd = snd (rs_list rsp ! idx) in Some (0, cmd div 2 ^ 16 mod 2 ^ 16, cmd mod 2 ^ 16))"

lemma encode_item_le: "i \<in> set is \<Longrightarrow> length (encode_item i) \<le> length (encode_items is)"
  by (induction "is") auto

section \<open>Properties\<close>

text \<open>
  \<open>MakeReq\<close> on either packer produces the same packet, whose body is the timeout, the number
  of sub-requests, each with server type, route key, length and data, and the cookie; the
  fixed-buffer variant returns -1 when the body does not fit.
\<close>

theorem combo_request_layout:
  assumes r: "req_ok r" and h: "wire_header (cr_header r)"
    and size: "30 + length (encode_items (req_items r)) < 2 ^ 31"
    and buf: "30 \<le> n" "n < 2 ^ 31" "length buf = n"
  shows "\<exists>d. MakeReq stk r = Some (int (30 + length (encode_items (req_items r))), d) \<and>
    d = hdr (cr_header r) (30 + length (encode_items (req_items r))) (rev_field (cr_header r)) @
          encode_items (req_items r) @ [EOT] \<and>
    (30 + length (encode_items (req_items r)) \<le> n \<longrightarrow>
       (\<exists>q. MakeReq_fixed fp0 buf n r = Some (int (length d), q) \<and> take (length d) (fp_buf q) = d)) \<and>
    (n + 1 < 30 + length (encode_items (req_items r)) \<longrightarrow>
       (\<exists>q. MakeReq_fixed fp0 buf n r = Some (- 1, q)))"
proof -
  let ?e = "encode_items (req_items r)" and ?h = "cr_header r"
  define d where "d = hdr ?h (30 + length ?e) (rev_field ?h) @ ?e @ [EOT]"
  have gp: "GetPack stk ?e ?h = Some d" using GetPack_hdr [of ?e stk ?h] size by (simp add: d_def)
  have "put_all packer_put [] (req_items r) = Some ?e"
    using oss.put_all_fits [of "req_items r" "[]"] size by (auto simp: big_room_def)
  then have m: "MakeReq stk r = Some (int (30 + length ?e), d)"
    using gp size by (simp add: MakeReq_def MakeReq_body_put_all [OF r] d_def)
  have small: "list_all (\<lambda>i. length (encode_item i) < 2 ^ 31) (req_items r)"
    using size by (auto simp: list_all_iff dest!: encode_item_le)
  from fixed_pack_cases [OF buf small, of "snd (FP_Init fp0 [] 0)" ?h stk]
  obtain p q where p: "FP_Init (snd (FP_Init fp0 [] 0)) buf n = (0, p)"
      "put_all fixed_put p (req_items r) = Some q"
      "29 + length ?e < n \<longrightarrow> (\<exists>q'. FP_GetPack q ?h = Some (int (30 + length ?e), q') \<and>
         take (30 + length ?e) (fp_buf q') = d)"
      "n < 29 + length ?e \<longrightarrow> FP_GetPack q ?h = Some (0, q)"
    by (auto simp: Let_def gp)
  have fixed: "MakeReq_fixed fp0 buf n r =
      (if fp_err q \<noteq> 0 then Some (- 1, q) else FP_GetPack q ?h)"
    by (simp add: MakeReq_fixed_def p(1,2) MakeReq_body_put_all [OF r])
  have ld: "length d = 30 + length ?e" by (simp add: d_def)
  have "\<exists>q. MakeReq_fixed fp0 buf n r = Some (int (length d), q) \<and> take (length d) (fp_buf q) = d"
    if "30 + length ?e \<le> n"
  proof -
    have "29 + length ?e < n" using that by simp
    then obtain q' where q': "FP_GetPack q ?h = Some (int (30 + length ?e), q')"
        "take (30 + length ?e) (fp_buf q') = d" using p(3) by blast
    then have "fp_err q = 0" by (auto simp: FP_GetPack_def split: if_splits)
    then show ?thesis using q' fixed ld by simp
  qed
  moreover have "\<exists>q. MakeReq_fixed fp0 buf n r = Some (- 1, q)" if "n + 1 < 30 + length ?e"
  proof -
    have "FP_GetPack q ?h = Some (0, q)" using that p(4) by simp
    then have "fp_err q \<noteq> 0" by (auto simp: FP_GetPack_def Let_def bind_eq_Some_conv split: if_splits)
    then show ?thesis using fixed by simp
  qed
  ultimately show ?thesis using m d_def by blast
qed

definition demo_req :: combo_req where
  "demo_req = combo_Add (SetTimeout (AppComboReq 0) 5) 2 10001 [1, 2, 3]"

theorem combo_request_layout_witness:
  "\<exists>d q. MakeReq (\<lambda>_. 0) demo_req = Some (51, d) \<and> length d = 51 \<and>
     MakeReq_fixed \<lparr>fp_buf = [], fp_tail = 0, fp_buflen = 0, fp_err = 0\<rparr> (replicate 100 0) 100 demo_req = Some (51, q) \<and>
     take 51 (fp_buf q) = d"
proof -
  have h: "req_ok demo_req" "wire_header (cr_header demo_req)" "length (encode_items (req_items demo_req)) = 21"
    by (simp_all add: demo_req_def req_ok_def wire_header_def combo_Add_def SetTimeout_def AppComboReq_def
        MsgHeader_def COMBO_REQUEST_MAIN_CMD_def COMBO_REQUEST_SUB_CMD_def req_items_def)
  from combo_request_layout [OF h(1,2), of 100 "replicate 100 0" "\<lambda>_. 0"
      "\<lparr>fp_buf = [], fp_tail = 0, fp_buflen = 0, fp_err = 0\<rparr>"]
  show ?thesis by (auto simp: h(3))
qed

text \<open>The command of a sub-packet.\<close>

definition sub_cmd_of :: "bytes \<Rightarrow> nat" where
  "sub_cmd_of s = be_val (slice s 7 2) * 2 ^ 16 + be_val (slice s 9 2)"

definition rsp_items :: "bytes list \<Rightarrow> pack_item list" where
  "rsp_items subs =
     [Word16 0, Word16 (length subs)] @ concat (map (\<lambda>s. [DWord (length s), Binary s]) subs)"

lemma UnPackDWord_encode:
  assumes "up_sees up body tail" "drop (up_off up) body = be_bytes 4 v @ rest" "up_off up \<le> length body"
    "v < 2 ^ 32"
  shows "UnPackDWord up = Some (v, up\<lparr>up_off := up_off up + 4\<rparr>)"
  using unpack_item_encode [of up body tail "DWord v" rest] assms by auto

lemma UnPackWord_encode:
  assumes "up_sees up body tail" "drop (up_off up) body = be_bytes 2 v @ rest" "up_off up \<le> length body"
    "v < 2 ^ 16"
  shows "UnPackWord up = Some (v, up\<lparr>up_off := up_off up + 2\<rparr>)"
  using unpack_item_encode [of up body tail "Word16 v" rest] assms by auto

lemma slice_drop: "slice body (p + i) n = slice (drop p body) i n"
  by (simp add: slice_def add.commute)

lemma htons_le_val: "length b = 2 \<Longrightarrow> htons (le_val b) = be_val b"
proof -
  assume "length b = 2"
  then obtain x y where b: "b = [x, y]" by (auto simp: numeral_2_eq_2 length_Suc_conv)
  have "le_bytes 2 (le_val b) = b" using b by (intro le_bytes_le_val') simp
  then show ?thesis by (simp add: htons_def be_bytes_def be_val_def)
qed

lemma ParseRsp_loop_reads:
  "up_sees up body tail \<Longrightarrow>
   drop (up_off up) body = encode_items (concat (map (\<lambda>s. [DWord (length s), Binary s]) subs)) @ rest \<Longrightarrow>
   up_off up \<le> length body \<Longrightarrow> (\<forall>s \<in> set subs. 29 \<le> length s) \<Longrightarrow>
   ParseRsp_loop (length subs) up l = Some (True, l @ map (\<lambda>s. (s, sub_cmd_of s)) subs)"
proof (induction subs arbitrary: up l)
  case (Cons s subs)
  define more where "more = encode_items (concat (map (\<lambda>s. [DWord (length s), Binary s]) subs)) @ rest"
  have d: "drop (up_off up) body = be_bytes 4 (length s) @ s @ more"
    using Cons.prems(2) by (simp add: more_def)
  have lt: "length body < 2 ^ 32" "up_bodylen up = length body" using Cons.prems(1) by (simp_all add: up_sees_def)
  have len: "up_off up + 4 + length s + length more = length body"
    using arg_cong [OF d, of length] Cons.prems(3) by simp
  let ?o = "up_off up + 4"
  let ?u1 = "up\<lparr>up_off := ?o\<rparr>" and ?u2 = "up\<lparr>up_off := ?o + length s\<rparr>"
  have u1: "UnPackDWord up = Some (length s, ?u1)"
    using UnPackDWord_encode [OF Cons.prems(1) d Cons.prems(3)] len lt(1) by simp
  have u2: "UnPackBinary_ptr ?u1 (length s) = (Some ?o, ?u2)"
    using len lt by (simp add: UnPackBinary_ptr_def)
  have d1: "drop ?o body = s @ more" using arg_cong [OF d, of "drop 4"] by (simp add: add.commute)
  have rd: "rd_body ?u2 (?o + i) n = Some (slice s i n)" if "i + n \<le> length s" for i n
  proof -
    have "rd_body up (?o + i) n = Some (slice body (?o + i) n)"
      using that len by (intro rd_body_sees [OF Cons.prems(1)]) simp
    moreover have "slice (s @ more) i n = slice s i n" using that by (simp add: slice_def)
    ultimately show ?thesis by (simp add: slice_drop d1)
  qed
  have s29: "29 \<le> length s" using Cons.prems(4) by simp
  have g: "GetRspCmd ?u2 ?o (length s) = Some (RET_OK, be_val (slice s 7 2), be_val (slice s 9 2))"
    using rd [of 7 2] rd [of 9 2] s29
    by (simp add: GetRspCmd_def msg_pos htons_le_val ac_simps)
  have "rd_body ?u2 ?o (length s) = Some s" using rd [of 0 "length s"] by (simp add: slice_def)
  then have "ParseRsp_loop (length (s # subs)) up l =
      ParseRsp_loop (length subs) ?u2 (l @ [(s, sub_cmd_of s)])"
    using u1 u2 g by (simp add: Let_def sub_cmd_of_def RET_OK_def)
  also have "\<dots> = Some (True, (l @ [(s, sub_cmd_of s)]) @ map (\<lambda>s. (s, sub_cmd_of s)) subs)"
  proof (rule Cons.IH)
    have "drop (?o + length s) body = more"
      using arg_cong [OF d1, of "drop (length s)"] by (simp add: add.commute)
    then show "drop (up_off ?u2) body =
        encode_items (concat (map (\<lambda>s. [DWord (length s), Binary s]) subs)) @ rest"
      by (simp add: more_def)
  qed (use Cons.prems len in auto)
  finally show ?case by simp
qed simp

text \<open>
  C20: A response packet that carries the sub-packets \<open>subs\<close> (each at least a header long) is
  parsed to exactly these sub-packets: their number, each sub-packet by its index, its command,
  and -1 for an index out of range.
\<close>

theorem combo_response_roundtrip:
  assumes h: "wire_header h" and subs: "length subs < 2 ^ 16" "\<forall>s \<in> set subs. 29 \<le> length s"
    and size: "30 + length (encode_items (rsp_items subs)) < 2 ^ 31"
  defines "b \<equiv> encode_items (rsp_items subs)"
  defines "d \<equiv> hdr h (30 + length b) (rev_field h) @ b @ [EOT]"
  shows "\<exists>rsp. ParseRsp AppComboRsp up d (length d) = Some (0, rsp) \<and> rs_num rsp = length subs \<and>
    (\<forall>i < length subs. GetSubRsp_str rsp old i = Some (int (length (subs ! i)), subs ! i) \<and>
       GetSubRspCmd rsp i = Some (0, be_val (slice (subs ! i) 7 2), be_val (slice (subs ! i) 9 2))) \<and>
    (\<forall>i \<ge> length subs. GetSubRsp_str rsp old i = Some (- 1, old))"
proof -
  let ?c = "concat (map (\<lambda>s. [DWord (length s), Binary s]) subs)"
  have be: "b = be_bytes 2 0 @ be_bytes 2 (length subs) @ encode_items ?c"
    by (simp add: b_def rsp_items_def)
  obtain u where u: "UP_Init (up\<lparr>up_err := RET_OK\<rparr>) (Some d) (length d) = Some (RET_OK, u)"
      "up_sees u b [EOT]" "up_off u = 0"
    using Init_hdr [OF h _ , of "rev_field h" b "up\<lparr>up_err := RET_OK\<rparr>"] h size
    by (auto simp: d_def b_def wire_header_def up_sees_def body_mem_def msg_pos)
  let ?u1 = "u\<lparr>up_off := 2\<rparr>" and ?u2 = "u\<lparr>up_off := 4\<rparr>"
  have w1: "UnPackWord u = Some (0, ?u1)"
    using UnPackWord_encode [OF u(2), of 0] u(3) be by simp
  have w2: "UnPackWord ?u1 = Some (length subs, ?u2)"
    using UnPackWord_encode [of ?u1 b "[EOT]" "length subs"] u(2) be subs(1) by simp
  let ?l = "map (\<lambda>s. (s, sub_cmd_of s)) subs"
  have lp: "ParseRsp_loop (length subs) ?u2 [] = Some (True, ?l)"
    using ParseRsp_loop_reads [of ?u2 b "[EOT]" subs "[]" "[]"] u(2) be subs(2) by simp
  let ?r = "AppComboRsp\<lparr>rs_retcode := 0, rs_num := length subs, rs_list := ?l\<rparr>"
  have p: "ParseRsp AppComboRsp up d (length d) = Some (0, ?r)"
    unfolding ParseRsp_def using u(1) w1 w2 lp by (simp add: AppComboRsp_def)
  have sub: "GetSubRsp_str ?r old i = Some (int (length (subs ! i)), subs ! i) \<and>
       GetSubRspCmd ?r i = Some (0, be_val (slice (subs ! i) 7 2), be_val (slice (subs ! i) 9 2))"
    if i: "i < length subs" for i
  proof -
    let ?s = "subs ! i"
    have s: "29 \<le> length ?s" using subs(2) i by simp
    have "length ?s \<le> length b"
      unfolding b_def rsp_items_def using i
      by (intro order.trans [OF _ encode_item_le [of "Binary ?s"]]) auto
    then have "s32_of_nat (length ?s) = int (length ?s)" using size by (simp add: b_def)
    moreover have "be_val (slice ?s 9 2) < 2 ^ 16" "be_val (slice ?s 7 2) < 2 ^ 16"
      using be_val_lt [of "slice ?s 9 2"] be_val_lt [of "slice ?s 7 2"] s by simp_all
    ultimately show ?thesis using i by (simp add: GetSubRsp_str_def GetSubRspCmd_def sub_cmd_of_def Let_def)
  qed
  show ?thesis using p sub by (intro exI [of _ ?r]) (simp add: GetSubRsp_str_def)
qed

definition demo_up :: unpacker where
  "demo_up = \<lparr>up_data = None, up_len = 0, up_err = 0, up_copy = [], up_in_copy = False,
     up_bodylen = 0, up_off = 0\<rparr>"

theorem combo_response_roundtrip_witness:
  "\<exists>d rsp. ParseRsp AppComboRsp demo_up d (length d) = Some (0, rsp) \<and> rs_num rsp = 2 \<and>
     GetSubRsp_str rsp [] 1 = Some (30, replicate 30 8) \<and> GetSubRspCmd rsp 1 = Some (0, 0x0808, 0x0808)"
proof -
  let ?h = "MsgHeader 0" and ?subs = "[replicate 29 7, replicate 30 8 :: bytes]"
  let ?b = "encode_items (rsp_items ?subs)"
  let ?d = "hdr ?h (30 + length ?b) (rev_field ?h) @ ?b @ [EOT]"
  have "wire_header ?h" "length ?subs < 2 ^ 16" "\<forall>s \<in> set ?subs. 29 \<le> length s" "30 + length ?b < 2 ^ 31"
    by (simp_all add: wire_header_def MsgHeader_def rsp_items_def)
  from combo_response_roundtrip [OF this, of demo_up "[]"]
  obtain rsp where r: "ParseRsp AppComboRsp demo_up ?d (length ?d) = Some (0, rsp)" "rs_num rsp = length ?subs"
      "GetSubRsp_str rsp [] 1 = Some (int (length (?subs ! 1)), ?subs ! 1)"
      "GetSubRspCmd rsp 1 = Some (0, be_val (slice (?subs ! 1) 7 2), be_val (slice (?subs ! 1) 9 2))"
    by auto
  have "replicate 2 8 = [8, 8 :: byte]" by (simp add: numeral_2_eq_2)
  then have "be_val (slice (replicate 30 8) 7 2) = 0x0808" "be_val (slice (replicate 30 8) 9 2) = 0x0808"
    by (simp_all add: slice_def be_val_def)
  then show ?thesis using r by (intro exI [of _ ?d] exI [of _ rsp]) simp
qed

text \<open>
  \<open>UnPackBinary\<close> compares \<open>m_Offset + len\<close> in 32 bits: a response whose first record
  announces a length just below \<open>2^32\<close> passes the check, and \<open>ParseRsp\<close> then copies 4 GB from
  the packet.  Every such packet makes the parser leave the packet memory.
\<close>

theorem combo_response_huge_length:
  assumes h: "wire_header h" and b: "b = encode_items [Word16 0, Word16 (Suc n), DWord len] @ rest"
    and len: "2 ^ 32 - 8 \<le> len" "len < 2 ^ 32" "n < 2 ^ 16 - 1" and size: "30 + length b < 2 ^ 31"
  defines "d \<equiv> hdr h (30 + length b) (rev_field h) @ b @ [EOT]"
  shows "ParseRsp rsp up d (length d) = None"
proof -
  obtain u where u: "UP_Init (up\<lparr>up_err := RET_OK\<rparr>) (Some d) (length d) = Some (RET_OK, u)"
      "up_sees u b [EOT]" "up_off u = 0"
    using Init_hdr [OF h _ , of "rev_field h" b "up\<lparr>up_err := RET_OK\<rparr>"] h size
    by (auto simp: d_def wire_header_def up_sees_def body_mem_def msg_pos)
  let ?u1 = "u\<lparr>up_off := 2\<rparr>" and ?u2 = "u\<lparr>up_off := 4\<rparr>" and ?u3 = "u\<lparr>up_off := 8\<rparr>"
  let ?u4 = "u\<lparr>up_off := len - (2 ^ 32 - 8)\<rparr>"
  have w1: "UnPackWord u = Some (0, ?u1)"
    using UnPackWord_encode [OF u(2), of 0] u(3) b by simp
  have w2: "UnPackWord ?u1 = Some (Suc n, ?u2)"
    using UnPackWord_encode [of ?u1 b "[EOT]" "Suc n"] u(2) b len by simp
  have w3: "UnPackDWord ?u2 = Some (len, ?u3)"
    using UnPackDWord_encode [of ?u2 b "[EOT]" len] u(2) b len by simp
  have bl: "up_bodylen u = length b" "8 \<le> length b" using u(2) b by (simp_all add: up_sees_def)
  have "add32 8 len = len - (2 ^ 32 - 8)" using len(1,2) by (simp add: add32_def mod_if)
  then have w4: "UnPackBinary_ptr ?u3 len = (Some 8, ?u4)"
    using bl len(2) by (simp add: UnPackBinary_ptr_def)
  have m: "rd_body ?u4 8 len = None"
    using u(2) size len(1) by (simp add: rd_body_def up_sees_def memrd_None)
  have "GetRspCmd ?u4 8 len = None \<or> (\<exists>x y. GetRspCmd ?u4 8 len = Some (RET_OK, x, y))"
    using len(1) by (cases "GetRspCmd ?u4 8 len") (auto simp: GetRspCmd_def msg_pos bind_eq_Some_conv)
  then have "ParseRsp_loop (Suc n) ?u2 l = None" for l
    using w3 w4 m by (auto simp: Let_def RET_OK_def)
  then show ?thesis unfolding ParseRsp_def using u(1) w1 w2 by (simp del: ParseRsp_loop.simps)
qed

theorem combo_response_huge_length_witness:
  "\<exists>d. length d = 61 \<and> ParseRsp AppComboRsp demo_up d 61 = None"
proof -
  let ?h = "MsgHeader 0" and ?b = "encode_items [Word16 0, Word16 (Suc 0), DWord (2 ^ 32 - 1)] @ replicate 23 0"
  let ?d = "hdr ?h (30 + length ?b) (rev_field ?h) @ ?b @ [EOT]"
  have "wire_header ?h" by (simp add: wire_header_def MsgHeader_def)
  from combo_response_huge_length [OF this refl, of "2 ^ 32 - 1" 0 "replicate 23 0" AppComboRsp demo_up]
  have "ParseRsp AppComboRsp demo_up ?d (length ?d) = None" by simp
  moreover have "length ?d = 61" by simp
  ultimately show ?thesis by metis
qed

text \<open>
  A response too short for its return code is taken for a success without records: the missing
  words are read as 0 and the error of the unpacker is never looked at.
\<close>

lemma combo_response_truncated:
  assumes h: "wire_header h" and b: "length b < 2"
  defines "d \<equiv> hdr h (30 + length b) (rev_field h) @ b @ [EOT]"
  shows "ParseRsp AppComboRsp up d (length d) = Some (0, AppComboRsp\<lparr>rs_retcode := 0\<rparr>)"
proof -
  obtain u where u: "UP_Init (up\<lparr>up_err := RET_OK\<rparr>) (Some d) (length d) = Some (RET_OK, u)"
      "up_sees u b [EOT]" "up_off u = 0"
    using Init_hdr [OF h _ , of "rev_field h" b "up\<lparr>up_err := RET_OK\<rparr>"] h b
    by (auto simp: d_def wire_header_def up_sees_def body_mem_def msg_pos)
  have "UnPackWord u = Some (0, up_fail u)" "UnPackWord (up_fail u) = Some (0, up_fail u)"
    using u(2,3) b by (simp_all add: UnPackWord_def up_sees_def up_fail_def)
  then show ?thesis unfolding ParseRsp_def using u(1) by (simp add: AppComboRsp_def)
qed

end
