(* ===== verification/CommuMng.thy ===== *)
theory CommuMng
  imports Prelude StdMap
begin

text \<open>
  The route tables to the servers behind a worker (\<open>TRouteTable\<close>, \<open>TRouteConfig\<close> of
  sockcommu.h and sockcommu.cpp) and the table of the connections to them, \<open>CCommuMng\<close>
  (commumng.h, sockcommumng.cpp): for each type of service the connection of each node.  A
  node list is behind a pointer, so a null pointer is \<open>None\<close>.  The abstract view is a map
  from pairs of service type and node to flows.
\<close>

section \<open>Routes\<close>

record sock_bind =
  sb_type :: nat
  sb_ip :: nat
  sb_port :: nat
  sb_path :: bytes

record node_info =
  n_serv_type :: nat
  n_node_id :: nat
  n_begin :: nat
  n_end :: nat
  n_bind :: sock_bind

record route_table =
  rt_serv_type :: nat
  rt_version :: string
  rt_route :: string
  rt_route_val :: int
  rt_nodes :: "(nat, node_info) smap"

record route_config =
  rc_max_conn :: int
  rc_maxpkg :: int
  rc_expiretime :: int
  rc_check_expire_interval :: int
  rc_tables :: "(nat, route_table) smap"

definition table_GetNodeInfo :: "route_table \<Rightarrow> nat \<Rightarrow> int \<times> node_info option" where
  "table_GetNodeInfo tbl node_id =
     (case map_of (rt_nodes tbl) node_id of Some n \<Rightarrow> (0, Some n) | None \<Rightarrow> (-1, None))"

fun first_node :: "(nat, node_info) smap \<Rightarrow> nat \<Rightarrow> nat" where
  "first_node [] key = 0"
| "first_node ((k, n) # m) key =
     (if n_begin n \<le> key \<and> key \<le> n_end n then n_node_id n else first_node m key)"

definition GetNodeID :: "route_table \<Rightarrow> nat \<Rightarrow> nat" where
  "GetNodeID tbl key = first_node (rt_nodes tbl) key"

definition GetRouteTable :: "route_config \<Rightarrow> nat \<Rightarrow> int \<times> route_table option" where
  "GetRouteTable conf serv_type =
     (case map_of (rc_tables conf) serv_type of Some t \<Rightarrow> (0, Some t) | None \<Rightarrow> (-1, None))"

definition config_GetNodeInfo :: "route_config \<Rightarrow> nat \<Rightarrow> nat \<Rightarrow> int \<times> node_info option" where
  "config_GetNodeInfo conf serv_type node_id =
     (case GetRouteTable conf serv_type of
        (_, Some tbl) \<Rightarrow> table_GetNodeInfo tbl node_id
      | _ \<Rightarrow> (-1, None))"

lemma first_node_find:
  "first_node m key =
     (case find (\<lambda>p. n_begin (snd p) \<le> key \<and> key \<le> n_end (snd p)) m of None \<Rightarrow> 0 | Some p \<Rightarrow> n_node_id (snd p))"
  by (induction m key rule: first_node.induct) auto

section \<open>Connections\<close>

type_synonym node_list = "(nat, nat) smap"
type_synonym commu_mng = "(nat, node_list option) smap"

definition AddConn :: "nat \<Rightarrow> nat \<Rightarrow> nat \<Rightarrow> commu_mng \<Rightarrow> int \<times> commu_mng" where
  "AddConn serv_type node_id flow g =
     (case map_of g serv_type of
        Some (Some nl) \<Rightarrow> (0, smap_set serv_type (Some (smap_set node_id flow nl)) g)
      | _ \<Rightarrow> (0, smap_set serv_type (Some (smap_set node_id flow [])) g))"

definition GetFlow :: "nat \<Rightarrow> nat \<Rightarrow> commu_mng \<Rightarrow> nat" where
  "GetFlow serv_type node_id g =
     (case map_of g serv_type of
        None \<Rightarrow> 0
      | Some None \<Rightarrow> 0
      | Some (Some nl) \<Rightarrow> (case map_of nl node_id of None \<Rightarrow> 0 | Some flow \<Rightarrow> flow))"

text \<open>The first node of a list that has the flow, and the list without it.\<close>

fun erase_flow :: "nat \<Rightarrow> node_list \<Rightarrow> node_list option" where
  "erase_flow flow [] = None"
| "erase_flow flow ((n, f) # nl) =
     (if f = flow then Some nl else map_option ((#) (n, f)) (erase_flow flow nl))"

fun RMConn :: "nat \<Rightarrow> commu_mng \<Rightarrow> int \<times> commu_mng" where
  "RMConn flow [] = (-1, [])"
| "RMConn flow ((st, None) # g) = (let (rc, g') = RMConn flow g in (rc, (st, None) # g'))"
| "RMConn flow ((st, Some nl) # g) =
     (case erase_flow flow nl of
        Some nl' \<Rightarrow> (0, (st, Some nl') # g)
      | None \<Rightarrow> let (rc, g') = RMConn flow g in (rc, (st, Some nl) # g'))"

fun GetServerTypeByFlow :: "nat \<Rightarrow> commu_mng \<Rightarrow> nat" where
  "GetServerTypeByFlow flow [] = 0"
| "GetServerTypeByFlow flow ((st, None) # g) = GetServerTypeByFlow flow g"
| "GetServerTypeByFlow flow ((st, Some nl) # g) =
     (if flow \<in> set (map snd nl) then st else GetServerTypeByFlow flow g)"

section \<open>The table as a map\<close>

definition mng_ok :: "commu_mng \<Rightarrow> bool" where
  "mng_ok g \<longleftrightarrow> smap_ok g \<and> (\<forall>(st, nlp) \<in> set g. case nlp of None \<Rightarrow> True | Some nl \<Rightarrow> smap_ok nl)"

definition flow_map :: "commu_mng \<Rightarrow> nat \<times> nat \<rightharpoonup> nat" where
  "flow_map g = (\<lambda>(st, n). case map_of g st of Some (Some nl) \<Rightarrow> map_of nl n | _ \<Rightarrow> None)"

lemma flow_map_apply: "flow_map g (st, n) = (case map_of g st of Some (Some nl) \<Rightarrow> map_of nl n | _ \<Rightarrow> None)"
  by (simp add: flow_map_def)

lemma mng_ok_Nil [simp]: "mng_ok []"
  by (simp add: mng_ok_def)

lemma mng_ok_node: "mng_ok g \<Longrightarrow> map_of g st = Some (Some nl) \<Longrightarrow> smap_ok nl"
  by (auto simp: mng_ok_def dest!: map_of_SomeD)

lemma mng_ok_set: "mng_ok g \<Longrightarrow> smap_ok nl \<Longrightarrow> mng_ok (smap_set st (Some nl) g)"
  unfolding mng_ok_def using set_smap_set [of st "Some nl" g] by fastforce

lemma GetFlow_map: "GetFlow st n g = (case flow_map g (st, n) of None \<Rightarrow> 0 | Some f \<Rightarrow> f)"
  by (simp add: GetFlow_def flow_map_def split: option.splits)

lemma AddConn_map:
  assumes "mng_ok g"
  shows "\<exists>g'. AddConn st n flow g = (0, g') \<and> mng_ok g' \<and> flow_map g' = (flow_map g)((st, n) \<mapsto> flow)"
proof -
  let ?nl = "case map_of g st of Some (Some nl) \<Rightarrow> nl | _ \<Rightarrow> []"
  have nl: "smap_ok ?nl"
    using mng_ok_node [OF assms] by (auto split: option.splits)
  have a: "AddConn st n flow g = (0, smap_set st (Some (smap_set n flow ?nl)) g)"
    by (simp add: AddConn_def split: option.splits)
  have ok: "smap_ok g" using assms by (simp add: mng_ok_def)
  have "map_of ?nl m = flow_map g (st, m)" for m
    by (simp add: flow_map_def split: option.splits)
  then have "flow_map (smap_set st (Some (smap_set n flow ?nl)) g) (t, m) = ((flow_map g)((st, n) \<mapsto> flow)) (t, m)" for t m
    using nl ok by (cases "t = st") (simp_all add: flow_map_apply)
  then show ?thesis using a mng_ok_set [OF assms] nl by (auto simp: fun_eq_iff)
qed

lemma erase_flow_None: "erase_flow flow nl = None \<longleftrightarrow> flow \<notin> set (map snd nl)"
  by (induction flow nl rule: erase_flow.induct) auto

lemma erase_flow_Some:
  "erase_flow flow nl = Some nl' \<Longrightarrow> smap_ok nl \<Longrightarrow>
   \<exists>n. map_of nl n = Some flow \<and> smap_ok nl' \<and> map_of nl' = (map_of nl)(n := None) \<and> set nl' \<subseteq> set nl"
proof (induction flow nl arbitrary: nl' rule: erase_flow.induct)
  case (2 flow n f nl)
  show ?case
  proof (cases "f = flow")
    case True
    have "map_of nl n = None" using "2.prems" by (intro map_of_below) simp
    then show ?thesis using True "2.prems" by (intro exI [of _ n]) auto
  next
    case False
    then obtain nl1 where nl1: "erase_flow flow nl = Some nl1" "nl' = (n, f) # nl1" using "2.prems" by auto
    have "smap_ok nl" using "2.prems" by simp
    from "2.IH" [OF False nl1(1) this] obtain m where m: "map_of nl m = Some flow" "smap_ok nl1"
      "map_of nl1 = (map_of nl)(m := None)" "set nl1 \<subseteq> set nl" by blast
    have "n \<noteq> m" using m(1) "2.prems"(2) by (auto dest!: map_of_SomeD)
    then show ?thesis using m nl1 "2.prems" by (intro exI [of _ m]) auto
  qed
qed simp

lemma mng_ok_Cons:
  "mng_ok ((st, nlp) # g) \<longleftrightarrow>
     (\<forall>q\<in>set g. st < fst q) \<and> (case nlp of None \<Rightarrow> True | Some nl \<Rightarrow> smap_ok nl) \<and> mng_ok g"
  by (auto simp: mng_ok_def)

lemma flow_map_Cons: "flow_map ((st, nlp) # g) (t, n) =
   (if t = st then (case nlp of None \<Rightarrow> None | Some nl \<Rightarrow> map_of nl n) else flow_map g (t, n))"
  by (simp add: flow_map_apply)

lemma flow_map_below: "\<forall>q\<in>set g. st < fst q \<Longrightarrow> flow_map g (t, n) = Some f \<Longrightarrow> st < t"
  by (auto simp: flow_map_apply split: option.splits dest!: map_of_SomeD)

lemma ran_flow_map_Cons:
  assumes "\<forall>q\<in>set g. st < fst q"
  shows "flow \<in> ran (flow_map ((st, nlp) # g)) \<longleftrightarrow>
     (\<exists>nl. nlp = Some nl \<and> flow \<in> ran (map_of nl)) \<or> flow \<in> ran (flow_map g)"
    (is "?l \<longleftrightarrow> ?r")
proof
  assume ?l
  then obtain t n where "flow_map ((st, nlp) # g) (t, n) = Some flow" by (auto simp: ran_def)
  then show ?r by (cases "t = st") (auto simp: flow_map_Cons ran_def split: option.splits)
next
  assume ?r
  then consider nl n where "nlp = Some nl" "map_of nl n = Some flow" | t n where "flow_map g (t, n) = Some flow"
    by (auto simp: ran_def)
  then show ?l
  proof cases
    case (1 nl n)
    then have "flow_map ((st, nlp) # g) (st, n) = Some flow" by (simp add: flow_map_Cons)
    then show ?thesis by (rule ranI)
  next
    case (2 t n)
    then have "flow_map ((st, nlp) # g) (t, n) = Some flow"
      using flow_map_below [OF assms] by (auto simp: flow_map_Cons)
    then show ?thesis by (rule ranI)
  qed
qed

lemma flow_in_list: "smap_ok nl \<Longrightarrow> flow \<in> set (map snd nl) \<longleftrightarrow> flow \<in> ran (map_of nl)"
  by (auto simp: ran_distinct smap_ok_distinct)

text \<open>\<open>RMConn\<close> removes one pair that had the flow, if there is one.\<close>

lemma RMConn_map:
  "mng_ok g \<Longrightarrow> \<exists>rc g'. RMConn flow g = (rc, g') \<and> mng_ok g' \<and> fst ` set g' = fst ` set g \<and>
     (if rc = 0 then \<exists>k. flow_map g k = Some flow \<and> flow_map g' = (flow_map g)(k := None)
      else rc = -1 \<and> flow \<notin> ran (flow_map g) \<and> g' = g)"
proof (induction flow g rule: RMConn.induct)
  case (1 flow)
  then show ?case by (simp add: flow_map_def ran_def)
next
  case (2 flow st g)
  then obtain rc g' where g': "RMConn flow g = (rc, g')" "mng_ok g'" "fst ` set g' = fst ` set g"
    "if rc = 0 then \<exists>k. flow_map g k = Some flow \<and> flow_map g' = (flow_map g)(k := None)
      else rc = -1 \<and> flow \<notin> ran (flow_map g) \<and> g' = g" by (auto simp: mng_ok_Cons)
  have below: "\<forall>q\<in>set g. st < fst q" using 2(2) by (simp add: mng_ok_Cons)
  then have "\<forall>q\<in>set g'. st < fst q" using g'(3) by (metis image_eqI imageE)
  then have ok: "mng_ok ((st, None) # g')" using g'(2) by (simp add: mng_ok_Cons)
  show ?case
  proof (cases "rc = 0")
    case True
    then obtain t n where k: "flow_map g (t, n) = Some flow" "flow_map g' = (flow_map g)((t, n) := None)"
      using g'(4) by (metis surj_pair)
    then have "t \<noteq> st" using flow_map_below [OF below] by blast
    then have "flow_map ((st, None) # g) (t, n) = Some flow"
      "flow_map ((st, None) # g') = (flow_map ((st, None) # g))((t, n) := None)"
      using k by (auto simp: fun_eq_iff flow_map_Cons)
    then show ?thesis using True g'(1,3) ok by (auto simp: Let_def)
  next
    case False
    then show ?thesis using g' ok
      by (auto simp: Let_def ran_flow_map_Cons [OF below])
  qed
next
  case (3 flow st nl g)
  have below: "\<forall>q\<in>set g. st < fst q" and nl: "smap_ok nl" and ok: "mng_ok g"
    using "3.prems" by (simp_all add: mng_ok_Cons)
  show ?case
  proof (cases "erase_flow flow nl")
    case (Some nl')
    from erase_flow_Some [OF this nl] obtain n where n: "map_of nl n = Some flow" "smap_ok nl'"
      "map_of nl' = (map_of nl)(n := None)" by blast
    then have "flow_map ((st, Some nl) # g) (st, n) = Some flow"
      "flow_map ((st, Some nl') # g) = (flow_map ((st, Some nl) # g))((st, n) := None)"
      by (auto simp: fun_eq_iff flow_map_Cons)
    then show ?thesis using Some n(2) ok below by (auto simp: mng_ok_Cons)
  next
    case None
    from "3.IH" [OF None ok] obtain rc g' where g': "RMConn flow g = (rc, g')" "mng_ok g'" "fst ` set g' = fst ` set g"
      "if rc = 0 then \<exists>k. flow_map g k = Some flow \<and> flow_map g' = (flow_map g)(k := None)
        else rc = -1 \<and> flow \<notin> ran (flow_map g) \<and> g' = g" by auto
    have "\<forall>q\<in>set g'. st < fst q" using g'(3) below by (metis image_eqI imageE)
    then have ok': "mng_ok ((st, Some nl) # g')" using g'(2) nl by (simp add: mng_ok_Cons)
    show ?thesis
    proof (cases "rc = 0")
      case True
      then obtain t n where k: "flow_map g (t, n) = Some flow" "flow_map g' = (flow_map g)((t, n) := None)"
        using g'(4) by (metis surj_pair)
      then have "t \<noteq> st" using flow_map_below [OF below] by blast
      then have "flow_map ((st, Some nl) # g) (t, n) = Some flow"
        "flow_map ((st, Some nl) # g') = (flow_map ((st, Some nl) # g))((t, n) := None)"
        using k by (auto simp: fun_eq_iff flow_map_Cons)
      then show ?thesis using True g'(1,3) ok' None by (auto simp: Let_def)
    next
      case False
      then show ?thesis using g' ok' None erase_flow_None [of flow nl] flow_in_list [OF nl, of flow]
        by (auto simp: Let_def ran_flow_map_Cons [OF below])
    qed
  qed
qed

lemma GetServerTypeByFlow_map:
  "mng_ok g \<Longrightarrow>
   (if flow \<in> ran (flow_map g) then \<exists>n. flow_map g (GetServerTypeByFlow flow g, n) = Some flow
    else GetServerTypeByFlow flow g = 0)"
proof (induction flow g rule: GetServerTypeByFlow.induct)
  case (1 flow)
  then show ?case by (simp add: flow_map_def ran_def)
next
  case (2 flow st g)
  then have "\<forall>q\<in>set g. st < fst q" by (simp add: mng_ok_Cons)
  with 2 show ?case using flow_map_below [of g st]
    by (fastforce simp: mng_ok_Cons flow_map_Cons ran_flow_map_Cons split: if_splits)
next
  case (3 flow st nl g)
  have below: "\<forall>q\<in>set g. st < fst q" and nl: "smap_ok nl" and ok: "mng_ok g"
    using "3.prems" by (simp_all add: mng_ok_Cons)
  show ?case
  proof (cases "flow \<in> ran (map_of nl)")
    case True
    then obtain n where "map_of nl n = Some flow" by (auto simp: ran_def)
    then have "flow_map ((st, Some nl) # g) (st, n) = Some flow" by (simp add: flow_map_Cons)
    then show ?thesis using True flow_in_list [OF nl, of flow] by (auto simp: ran_def)
  next
    case False
    then have e: "GetServerTypeByFlow flow ((st, Some nl) # g) = GetServerTypeByFlow flow g"
      using flow_in_list [OF nl] by simp
    have "flow \<notin> set (map snd nl)" using False flow_in_list [OF nl] by simp
    from "3.IH" [OF this ok] show ?thesis
      using False flow_map_below [OF below] unfolding e ran_flow_map_Cons [OF below]
      by (fastforce simp: flow_map_Cons split: if_splits)
  qed
qed

end
