(* ===== verification/SockCommu.thy ===== *)
theory SockCommu
  imports ConnSet CommuMng ShmCommu
begin

text \<open>
  The communication component over sockets, \<open>CTSockCommu\<close> (sockcommu.h, sockcommu.cpp).
  A registered callback is a function on the state of the component and of the server around
  it, because callbacks send and close on the component that calls them; the blob that it
  gets is the component's own (\<open>buff_blob_\<close>), so it is read from the state again after each
  call.  The system calls enter as the results they return: \<open>sk_now\<close> is the cached clock,
  \<open>sk_sends\<close> the results (byte count and errno) of the successive \<open>send\<close> calls for the number of
  bytes offered, \<open>sk_peer\<close> the
  result of \<open>getpeername\<close>; what the kernel took and which descriptors were closed is the
  trace \<open>sk_out\<close>, \<open>sk_closed\<close>.  Calling a null \<open>CB_RECVDATA\<close>, a failed assert and an
  exception that nobody catches are \<open>None\<close>.  The load check is not compiled in.
\<close>

section \<open>State\<close>

record conn_ext_info =
  x_fd :: int
  x_type :: nat
  x_localip :: nat
  x_localport :: nat
  x_remoteip :: nat
  x_remoteport :: nat

abbreviation SOCK_TYPE_TCP :: nat where "SOCK_TYPE_TCP \<equiv> 1"
abbreviation SOCK_TYPE_UDP :: nat where "SOCK_TYPE_UDP \<equiv> 2"
abbreviation SOCK_TYPE_UNIX :: nat where "SOCK_TYPE_UNIX \<equiv> 4"
abbreviation SOCK_MAX_BIND :: nat where "SOCK_MAX_BIND \<equiv> 100"
abbreviation EXT_TYPE_CONNEXTINFO :: byte where "EXT_TYPE_CONNEXTINFO \<equiv> 16"
abbreviation EXT_TYPE_CONNNODEINFO :: byte where "EXT_TYPE_CONNNODEINFO \<equiv> 17"

text \<open>
  The structures as they lie in memory; the padding behind the two ports is zero, as the
  constructor left it.  The address is a union of ip and port with a path.
\<close>

definition ext_bytes :: "conn_ext_info \<Rightarrow> bytes" where
  "ext_bytes e = le_bytes 4 (u32_of_int (x_fd e)) @ le_bytes 4 (x_type e) @ le_bytes 4 (x_localip e) @
     le_bytes 2 (x_localport e) @ [0, 0] @ le_bytes 4 (x_remoteip e) @ le_bytes 2 (x_remoteport e) @ [0, 0]"

definition node_bytes :: "node_info \<Rightarrow> bytes" where
  "node_bytes n = le_bytes 4 (n_serv_type n) @ le_bytes 4 (n_node_id n) @ le_bytes 4 (n_begin n) @
     le_bytes 4 (n_end n) @ le_bytes 4 (sb_type (n_bind n)) @
     (if sb_type (n_bind n) = SOCK_TYPE_UNIX then take 256 (sb_path (n_bind n) @ replicate 256 0)
      else le_bytes 4 (sb_ip (n_bind n)) @ le_bytes 2 (sb_port (n_bind n)) @ replicate 250 0)"

lemma length_ext_bytes [simp]: "length (ext_bytes e) = 24"
  by (simp add: ext_bytes_def)

lemma length_node_bytes [simp]: "length (node_bytes n) = 276"
  by (auto simp: node_bytes_def)

datatype epoll_ev = EV_IN | EV_INOUT

record sock_commu =
  sk_binds :: "sock_bind list"
  sk_maxconn :: int
  sk_expiretime :: int
  sk_check_interval :: int
  sk_lastcheck :: int
  sk_maxbindfd :: int
  sk_flow :: nat
  sk_blob :: blob
  sk_sbuf :: bytes
  sk_extinfo :: conn_ext_info
  sk_pool :: mempool
  sk_conns :: conn_set
  sk_epoll :: "int \<rightharpoonup> nat \<times> epoll_ev"
  sk_now :: int
  sk_sends :: "nat \<Rightarrow> nat \<Rightarrow> int \<times> int"
  sk_nsend :: nat
  sk_peer :: "int \<rightharpoonup> nat \<times> nat"
  sk_out :: "(int \<times> bytes) list"
  sk_closed :: "int list"

type_synonym 'w sock_cb = "nat \<Rightarrow> sock_commu \<times> 'w \<Rightarrow> (int \<times> sock_commu \<times> 'w) option"
type_synonym 'w sock_funcs = "cb_type \<Rightarrow> 'w sock_cb option"

definition registered :: "'a option \<Rightarrow> bool" where
  "registered f = (case f of None \<Rightarrow> False | Some _ \<Rightarrow> True)"

lemma registered_simps [simp]: "\<not> registered None" "registered (Some f)"
  by (simp_all add: registered_def)

definition call_back :: "'w sock_cb option \<Rightarrow> nat \<Rightarrow> sock_commu \<times> 'w \<Rightarrow> (int \<times> sock_commu \<times> 'w) option" where
  "call_back f flow st = (case f of None \<Rightarrow> Some (0, st) | Some g \<Rightarrow> g flow st)"

text \<open>
  The extended data \<open>x\<close> is copied to the start of the static buffer \<open>EXT_SBUFF\<close> (\<open>sk_sbuf\<close>),
  to which the blob points.
\<close>

definition set_ext :: "byte \<Rightarrow> bytes \<Rightarrow> sock_commu \<Rightarrow> sock_commu" where
  "set_ext ty x s =
     (let buf = overlay (sk_sbuf s) 0 x
      in s\<lparr>sk_sbuf := buf,
            sk_blob := (sk_blob s)\<lparr>b_ext_type := ty, b_ext_len := length x, b_extdata := buf\<rparr>\<rparr>)"

definition set_blob :: "int \<Rightarrow> bytes \<Rightarrow> byte \<Rightarrow> bytes \<Rightarrow> sock_commu \<Rightarrow> sock_commu" where
  "set_blob n d ty x s = set_ext ty x (s\<lparr>sk_blob := (sk_blob s)\<lparr>b_len := n, b_data := d\<rparr>\<rparr>)"

definition peer_info :: "int \<Rightarrow> nat \<Rightarrow> sock_commu \<Rightarrow> sock_commu" where
  "peer_info fd ty s =
     (let e = (sk_extinfo s)\<lparr>x_fd := fd, x_type := ty, x_localip := 0, x_localport := 0\<rparr>
      in s\<lparr>sk_extinfo := (case sk_peer s fd of None \<Rightarrow> e
                         | Some (ip, port) \<Rightarrow> e\<lparr>x_remoteip := ip, x_remoteport := port\<rparr>)\<rparr>)"

text \<open>\<open>EPOLL\_CTL\_MOD\<close> fails for a descriptor that is not in the set.\<close>

definition epoll_mod :: "int \<Rightarrow> nat \<times> epoll_ev \<Rightarrow> (int \<rightharpoonup> nat \<times> epoll_ev) \<Rightarrow> (int \<rightharpoonup> nat \<times> epoll_ev)" where
  "epoll_mod fd v m = (case m fd of None \<Rightarrow> m | Some _ \<Rightarrow> m(fd \<mapsto> v))"

section \<open>Initialisation\<close>

text \<open>The sockets that \<open>create_sock\<close> makes, from the results of the calls in it.\<close>

definition create_listen :: "nat \<Rightarrow> int \<Rightarrow> int \<Rightarrow> int \<Rightarrow> int \<Rightarrow> int" where
  "create_listen ty fd nonblock bind_rc listen_rc =
     (if fd < 0 then -1
      else if nonblock \<noteq> 0 then nonblock
      else if bind_rc \<noteq> 0 then bind_rc
      else if ty = SOCK_TYPE_UDP then fd
      else if listen_rc = 0 then fd else -1)"

definition create_sock :: "int \<Rightarrow> int \<Rightarrow> int" where
  "create_sock fd nonblock = (if fd < 0 then -1 else if nonblock \<noteq> 0 then nonblock else fd)"

text \<open>\<open>fds\<close> are the descriptors of the listening sockets, one for each entry of the configuration.\<close>

fun bind_all :: "sock_bind list \<Rightarrow> int list \<Rightarrow> sock_bind list \<Rightarrow> int \<Rightarrow> (sock_bind list \<times> int) option" where
  "bind_all [] fds binds maxfd = Some (binds, maxfd)"
| "bind_all (b # bs) fds binds maxfd =
     (if sb_type b = 0 then Some (binds, maxfd)
      else (case fds of [] \<Rightarrow> None
            | fd # fds' \<Rightarrow>
                if 0 \<le> fd \<and> fd < int SOCK_MAX_BIND
                then bind_all bs fds' (binds[nat fd := b]) (max maxfd fd)
                else None))"

definition no_bind :: sock_bind where
  "no_bind = \<lparr>sb_type = 0, sb_ip = 0, sb_port = 0, sb_path = []\<rparr>"

definition no_extinfo :: conn_ext_info where
  "no_extinfo = \<lparr>x_fd = 0, x_type = 0, x_localip = 0, x_localport = 0, x_remoteip = 0, x_remoteport = 0\<rparr>"

record sock_conf =
  sc_binds :: "sock_bind list"
  sc_maxconn :: int
  sc_maxpkg :: int
  sc_expiretime :: int
  sc_check_interval :: int

fun epoll_listen :: "sock_bind list \<Rightarrow> int \<Rightarrow> (int \<rightharpoonup> nat \<times> epoll_ev)" where
  "epoll_listen [] fd = Map.empty"
| "epoll_listen (b # bs) fd =
     (if sb_type b = SOCK_TYPE_TCP \<or> sb_type b = SOCK_TYPE_UNIX \<or> sb_type b = SOCK_TYPE_UDP
      then (epoll_listen bs (fd + 1))(fd \<mapsto> (0, EV_IN)) else epoll_listen bs (fd + 1))"

definition sock_init ::
  "sock_conf \<Rightarrow> int list \<Rightarrow> mempool \<Rightarrow> int \<Rightarrow> sock_commu \<Rightarrow> (int \<times> sock_commu) option" where
  "sock_init conf fds newpool now s =
     (if \<not> (sc_maxconn conf > 0 \<and> sc_maxpkg conf \<ge> 0 \<and> sc_expiretime conf > 0) then None
      else do {
        (binds, maxfd) \<leftarrow> bind_all (take SOCK_MAX_BIND (sc_binds conf)) fds (replicate SOCK_MAX_BIND no_bind) 0;
        Some (0, s\<lparr>sk_binds := binds, sk_maxbindfd := maxfd, sk_maxconn := sc_maxconn conf, sk_pool := newpool,
                   sk_conns := conn_set_new (nat (sc_maxconn conf)),
                   sk_epoll := epoll_listen (take (nat maxfd + 1) binds) 0,
                   sk_expiretime := sc_expiretime conf, sk_check_interval := sc_check_interval conf,
                   sk_blob := (sk_blob s)\<lparr>b_ext_type := EXT_TYPE_NONE, b_ext_len := 0, b_extdata := sk_sbuf s\<rparr>,
                   sk_extinfo := no_extinfo, sk_lastcheck := now, sk_flow := 0\<rparr>)
      })"

text \<open>
  For a worker: no listening sockets.  The bind table keeps its contents, \<open>maxbindfd_\<close> is 0.
\<close>

definition sock_InitExt :: "route_config \<Rightarrow> mempool \<Rightarrow> int \<Rightarrow> sock_commu \<Rightarrow> (int \<times> sock_commu) option" where
  "sock_InitExt conf newpool now s =
     (if \<not> (rc_max_conn conf > 0 \<and> rc_maxpkg conf \<ge> 0 \<and> rc_expiretime conf > 0 \<and> rc_check_expire_interval conf \<ge> 0)
      then None
      else Some (0, s\<lparr>sk_maxbindfd := 0, sk_maxconn := rc_max_conn conf, sk_pool := newpool,
                   sk_conns := conn_set_new (nat (rc_max_conn conf)), sk_epoll := Map.empty,
                   sk_expiretime := rc_expiretime conf, sk_check_interval := rc_check_expire_interval conf,
                   sk_blob := (sk_blob s)\<lparr>b_ext_type := EXT_TYPE_NONE, b_ext_len := 0, b_extdata := sk_sbuf s\<rparr>,
                   sk_lastcheck := now, sk_flow := 0\<rparr>))"

section \<open>Closing and expiry\<close>

text \<open>\<open>closeconn\<close>; a descriptor that is closed leaves the epoll set.\<close>

definition sock_close :: "nat \<Rightarrow> sock_commu \<Rightarrow> sock_commu option" where
  "sock_close flow s = do {
     cc \<leftarrow> getcc (sk_conns s) flow;
     (ret, closed, mp, cs) \<leftarrow> conn_close flow (sk_pool s) (sk_conns s);
     let s1 = s\<lparr>sk_pool := mp, sk_conns := cs\<rparr>;
     Some (if closed
           then s1\<lparr>sk_closed := sk_closed s1 @ [cc_fd cc], sk_epoll := (sk_epoll s1)(cc_fd cc := None)\<rparr>
           else s1)
   }"

fun expire_all :: "'w sock_cb option \<Rightarrow> nat list \<Rightarrow> sock_commu \<times> 'w \<Rightarrow> (sock_commu \<times> 'w) option" where
  "expire_all f [] st = Some st"
| "expire_all f (flow # flows) (s, w) =
     (case sock_close flow s of None \<Rightarrow> None
      | Some s1 \<Rightarrow> (case call_back f flow (s1, w) of None \<Rightarrow> None
                  | Some (_, st) \<Rightarrow> expire_all f flows st))"

definition sock_check_expire :: "'w sock_funcs \<Rightarrow> sock_commu \<times> 'w \<Rightarrow> (sock_commu \<times> 'w) option" where
  "sock_check_expire fs st =
     (let (s, w) = st; now = sk_now s
      in if sk_check_interval s = 0 then Some (s, w)
         else if now - sk_lastcheck s > sk_check_interval s
         then do {
           let flows = conn_check_expire (now - sk_expiretime s) (sk_conns s);
           let s1 = (if registered (fs CB_TIMEOUT) then set_blob 0 [] EXT_TYPE_NONE [] s else s);
           (s2, w2) \<leftarrow> expire_all (fs CB_TIMEOUT) flows (s1, w);
           Some (s2\<lparr>sk_lastcheck := now\<rparr>, w2)
         }
         else Some (s, w))"

section \<open>Accepting and connecting\<close>

definition next_flow :: "sock_commu \<Rightarrow> sock_commu" where
  "next_flow s = s\<lparr>sk_flow := (if add32 (sk_flow s) 1 = 0 then 1 else add32 (sk_flow s) 1)\<rparr>"

definition close_fd :: "int \<Rightarrow> sock_commu \<Rightarrow> sock_commu" where
  "close_fd fd s = s\<lparr>sk_closed := sk_closed s @ [fd], sk_epoll := (sk_epoll s)(fd := None)\<rparr>"

text \<open>\<open>addconn\<close> takes the flow by reference, so \<open>flow_\<close> moves with the search.\<close>

definition sock_addconn :: "int \<Rightarrow> nat \<Rightarrow> sock_commu \<Rightarrow> (int \<times> sock_commu) option" where
  "sock_addconn fd ty s = do {
     (ret, f, cs) \<leftarrow> conn_addconn (sk_now s) (sk_flow s) fd ty (sk_conns s);
     Some (ret, s\<lparr>sk_flow := f, sk_conns := cs\<rparr>)
   }"

definition report_overload :: "'w sock_funcs \<Rightarrow> sock_commu \<times> 'w \<Rightarrow> (sock_commu \<times> 'w) option" where
  "report_overload fs st =
     (let (s, w) = st
      in if registered (fs CB_OVERLOAD)
         then do {
           (_, st') \<leftarrow> call_back (fs CB_OVERLOAD) 0 (set_blob 0 [] EXT_TYPE_NONE [] s, w);
           Some st'
         }
         else Some st)"

text \<open>
  \<open>accepts\<close> are the results (and \<open>errno\<close>) of the successive \<open>accept\<close> calls, \<open>nonblock\<close> and
  \<open>add_rc\<close> those of \<open>set_nonblock\<close> and of the addition to the epoll set.  The loop ends when
  the results do: \<open>EAGAIN\<close> is tried again at once.
\<close>

fun accept_loop :: "(int \<times> int) list \<Rightarrow> int option option" where
  "accept_loop [] = None"
| "accept_loop ((ret, errno) # rs) =
     (if ret > 0 then Some (Some ret)
      else if errno = EINTR \<or> errno = EAGAIN then accept_loop rs
      else Some None)"

definition connected_info :: "int \<Rightarrow> sock_bind \<Rightarrow> sock_commu \<Rightarrow> sock_commu" where
  "connected_info clifd b s =
     (if sb_type b = SOCK_TYPE_TCP
      then let e = (sk_extinfo s)\<lparr>x_fd := clifd, x_type := sb_type b, x_localip := sb_ip b, x_localport := sb_port b\<rparr>;
               e' = (case sk_peer s clifd of None \<Rightarrow> e
                     | Some (ip, port) \<Rightarrow> e\<lparr>x_remoteip := ip, x_remoteport := port\<rparr>)
           in set_blob 0 [] EXT_TYPE_CONNEXTINFO (ext_bytes e') (s\<lparr>sk_extinfo := e'\<rparr>)
      else set_blob 0 [] EXT_TYPE_NONE [] s)"

definition handle_accept ::
  "'w sock_funcs \<Rightarrow> int \<Rightarrow> (int \<times> int) list \<Rightarrow> int \<Rightarrow> int \<Rightarrow> sock_commu \<times> 'w \<Rightarrow> (sock_commu \<times> 'w) option" where
  "handle_accept fs fd accepts nonblock add_rc st = do {
     acc \<leftarrow> accept_loop accepts;
     (case acc of None \<Rightarrow> Some st
      | Some clifd \<Rightarrow> do {
          let (s0, w) = st;
          let b = sk_binds s0 ! nat fd;
          let s = next_flow s0;
          (deny, s1, w1) \<leftarrow>
            (if registered (fs CB_CONNECTED) then call_back (fs CB_CONNECTED) (sk_flow s) (connected_info clifd b s, w)
             else Some (0, s, w));
          if deny \<noteq> 0 \<or> nonblock \<noteq> 0 then Some (close_fd clifd s1, w1)
          else do {
            (ret, s2) \<leftarrow> sock_addconn clifd (sb_type b) s1;
            if ret < 0 then report_overload fs (close_fd clifd s2, w1)
            else if add_rc < 0 then Some (close_fd clifd s2, w1)
            else Some (s2\<lparr>sk_epoll := (sk_epoll s2)(clifd \<mapsto> (sk_flow s2, EV_IN))\<rparr>, w1)
          }
        })
   }"

text \<open>
  A datagram: \<open>rbytes\<close>, \<open>errno\<close>, \<open>buf\<close> are the results of the receive call, \<open>from\<close> the address
  of the sender.  The exception of a full pool is not caught here.
\<close>

definition handle_accept_udp ::
  "'w sock_funcs \<Rightarrow> int \<Rightarrow> int \<times> int \<times> bytes \<Rightarrow> nat \<times> nat \<Rightarrow> sock_commu \<times> 'w \<Rightarrow> (sock_commu \<times> 'w) option" where
  "handle_accept_udp fs fd rcv src st = do {
     let (s0, w) = st;
     let (rbytes, errno, buf) = rcv;
     (ret, s1) \<leftarrow> sock_addconn fd UDP_SOCKET (next_flow s0);
     if ret < 0 then report_overload fs (s1, w)
     else do {
       let flow = sk_flow s1;
       (r, mp, cs) \<leftarrow> conn_recv (sk_now s1) rbytes errno buf flow (sk_pool s1) (sk_conns s1);
       let s2 = s1\<lparr>sk_pool := mp, sk_conns := cs\<rparr>;
       (case r of Inl _ \<Rightarrow> None
        | Inr n \<Rightarrow>
            if n > 0 then do {
              cc \<leftarrow> getcc cs flow;
              d \<leftarrow> cache_data mp (cc_r cc);
              let b = sk_binds s2 ! nat fd;
              let e = (sk_extinfo s2)\<lparr>x_fd := fd, x_type := SOCK_TYPE_UDP, x_localip := sb_ip b, x_localport := sb_port b,
                        x_remoteip := fst src, x_remoteport := snd src\<rparr>;
              let s3 = set_blob (int (cache_data_len (cc_r cc))) d EXT_TYPE_NONE (ext_bytes e) (s2\<lparr>sk_extinfo := e\<rparr>);
              (deny, s4, w4) \<leftarrow> call_back (fs CB_CONNECTED) flow (s3, w);
              if deny \<noteq> 0 then do { s5 \<leftarrow> sock_close (sk_flow s4) s4; Some (s5, w4) }
              else do {
                f \<leftarrow> fs CB_RECVDATA;
                (_, st5) \<leftarrow> f (sk_flow s4) (set_ext EXT_TYPE_CONNEXTINFO (ext_bytes (sk_extinfo s4)) s4, w4);
                Some st5
              }
            }
            else do { s3 \<leftarrow> sock_close flow s2; Some (s3, w) })
     }
   }"

text \<open>
  \<open>fd\<close> is the result of \<open>create_sock\<close>; the result of \<open>connect\<close> itself is not looked at, the
  socket does not block.
\<close>

definition sock_connect ::
  "'w sock_funcs \<Rightarrow> int \<Rightarrow> int \<Rightarrow> node_info \<Rightarrow> sock_commu \<times> 'w \<Rightarrow> (int \<times> sock_commu \<times> 'w) option" where
  "sock_connect fs fd add_rc node st =
     (if sb_type (n_bind node) = 0 then Some (-1, st)
      else if fd < 0 then None
      else do {
        let (s0, w) = st;
        (ret, s1) \<leftarrow> sock_addconn fd (sb_type (n_bind node)) (next_flow s0);
        if ret < 0 then do { st' \<leftarrow> report_overload fs (close_fd fd s1, w); Some (-1, st') }
        else if add_rc < 0 then Some (-2, close_fd fd s1, w)
        else do {
          let s2 = s1\<lparr>sk_epoll := (sk_epoll s1)(fd \<mapsto> (sk_flow s1, EV_IN))\<rparr>;
          (deny, s3, w3) \<leftarrow>
            (if registered (fs CB_CONNECT)
             then call_back (fs CB_CONNECT) (sk_flow s2) (set_blob 0 [] EXT_TYPE_CONNNODEINFO (node_bytes node) s2, w)
             else Some (0, s2, w));
          if deny \<noteq> 0 then Some (-3, close_fd fd s3, w3)
          else do {
            (deny2, s4, w4) \<leftarrow>
              (if registered (fs CB_CONNECTED)
               then call_back (fs CB_CONNECTED) (sk_flow s3)
                      (set_blob 0 [] EXT_TYPE_CONNECTED (ext_bytes (sk_extinfo s3)) s3, w3)
               else Some (0, s3, w3));
            if deny2 \<noteq> 0 then Some (-3, close_fd fd s4, w4) else Some (0, s4, w4)
          }
        }
      })"

section \<open>Sending\<close>

text \<open>
  The only callback of \<open>sendto\<close> is \<open>CB_SENDDONE\<close>.  The model asks for a data buffer of the
  stated length in every case, the code only when the connection exists.
\<close>

definition sock_sendto ::
  "'w sock_cb option \<Rightarrow> nat \<Rightarrow> blob \<Rightarrow> sock_commu \<times> 'w \<Rightarrow> (int \<times> sock_commu \<times> 'w) option" where
  "sock_sendto done flow b st = do {
     let (s, w) = st;
     if b_len b = 0 \<and> flow > 0 then do { s' \<leftarrow> sock_close flow s; Some (0, s', w) }
     else if b_len b < 0 then None
     else do {
       d \<leftarrow> memrd (b_data b) 0 (nat (b_len b));
       cc0 \<leftarrow> getcc (sk_conns s) flow;
       (r, out, mp, cs) \<leftarrow> conn_send (sk_now s) (sk_sends s (sk_nsend s) (cache_data_len (cc_w cc0)))
                             (sk_sends s (sk_nsend s + 1) (length d)) flow d (sk_pool s) (sk_conns s);
       let s1 = s\<lparr>sk_pool := mp, sk_conns := cs, sk_nsend := sk_nsend s + 2,
                  sk_out := (if out = [] then sk_out s else sk_out s @ [(cc_fd cc0, out)])\<rparr>;
       let ret = (case r of Inl _ \<Rightarrow> - E_NEED_CLOSE | Inr n \<Rightarrow> n);
       if ret \<ge> 0
       then do {
         cc \<leftarrow> getcc cs flow;
         if ret < b_len b
         then (if cc_type cc \<noteq> UDP_SOCKET
               then Some (ret, s1\<lparr>sk_epoll := epoll_mod (cc_fd cc) (flow, EV_INOUT) (sk_epoll s1)\<rparr>, w)
               else do { s2 \<leftarrow> sock_close flow s1; Some (ret, s2, w) })
         else if ret = b_len b
         then do {
           (_, s2, w2) \<leftarrow>
             (if registered done
              then let s' = peer_info (cc_fd cc) (cc_type cc) s1
                   in call_back done flow (set_blob (b_len b) (b_data b) EXT_TYPE_CONNEXTINFO (ext_bytes (sk_extinfo s')) s', w)
              else Some (0, s1, w));
           cc' \<leftarrow> getcc (sk_conns s2) flow;
           if cc_type cc' \<noteq> UDP_SOCKET
           then Some (ret, s2\<lparr>sk_epoll := epoll_mod (cc_fd cc') (flow, EV_IN) (sk_epoll s2)\<rparr>, w2)
           else do { s3 \<leftarrow> sock_close flow s2; Some (ret, s3, w2) }
         }
         else None
       }
       else if ret = - E_NEED_CLOSE then do { s2 \<leftarrow> sock_close flow s1; Some (ret, s2, w) }
       else Some (ret, s1, w)
     }
   }"

section \<open>Polling\<close>

text \<open>
  One readiness event: the flags, the descriptor and the flow that epoll reports, and the
  results of the calls that handling it makes.
\<close>

record net_event =
  ne_in :: bool
  ne_out :: bool
  ne_fd :: int
  ne_flow :: nat
  ne_accepts :: "(int \<times> int) list"
  ne_nonblock :: int
  ne_add_rc :: int
  ne_from :: "nat \<times> nat"
  ne_send :: "int \<times> int"
  ne_recvs :: "(int \<times> int \<times> bytes) list"

definition report_disconnect :: "'w sock_funcs \<Rightarrow> nat \<Rightarrow> sock_commu \<times> 'w \<Rightarrow> (sock_commu \<times> 'w) option" where
  "report_disconnect fs flow st =
     (if registered (fs CB_DISCONNECT)
      then do {
        (_, st') \<leftarrow> call_back (fs CB_DISCONNECT) flow (set_blob 0 [] EXT_TYPE_NONE [] (fst st), snd st);
        Some st'
      }
      else Some st)"

definition poll_out :: "'w sock_funcs \<Rightarrow> int \<Rightarrow> nat \<Rightarrow> int \<times> int \<Rightarrow> sock_commu \<times> 'w \<Rightarrow> (sock_commu \<times> 'w) option" where
  "poll_out fs fd flow snt st = do {
     let (s, w) = st;
     (ret, out, mp, cs) \<leftarrow> conn_sendfromcache (sk_now s) snt flow (sk_pool s) (sk_conns s);
     let s1 = s\<lparr>sk_pool := mp, sk_conns := cs, sk_out := (if out = [] then sk_out s else sk_out s @ [(fd, out)])\<rparr>;
     if ret = 0 then Some (s1\<lparr>sk_epoll := epoll_mod fd (flow, EV_IN) (sk_epoll s1)\<rparr>, w)
     else if ret = - E_NEED_CLOSE
     then do {
       (s2, w2) \<leftarrow>
         (if registered (fs CB_SENDERROR)
          then do {
            cc \<leftarrow> getcc cs flow;
            d \<leftarrow> cache_data mp (cc_w cc);
            let s' = peer_info fd (cc_type cc) s1;
            (_, st') \<leftarrow> call_back (fs CB_SENDERROR) flow
               (set_blob (int (cache_data_len (cc_w cc))) d EXT_TYPE_CONNEXTINFO (ext_bytes (sk_extinfo s')) s', w);
            Some st'
          }
          else Some (s1, w));
       s3 \<leftarrow> sock_close flow s2;
       Some (s3, w2)
     }
     else Some (s1, w)
   }"

text \<open>What happens to data that has arrived: the callback sees all unread bytes.\<close>

definition deliver_data ::
  "'w sock_funcs \<Rightarrow> int \<Rightarrow> nat \<Rightarrow> sock_commu \<times> 'w \<Rightarrow> (bool \<times> sock_commu \<times> 'w) option" where
  "deliver_data fs fd flow st = do {
     let (s, w) = st;
     cc \<leftarrow> getcc (sk_conns s) flow;
     d \<leftarrow> cache_data (sk_pool s) (cc_r cc);
     let s1 = peer_info fd (cc_type cc) s;
     f \<leftarrow> fs CB_RECVDATA;
     (ret, s2, w2) \<leftarrow> f flow (set_blob (int (cache_data_len (cc_r cc))) d EXT_TYPE_CONNEXTINFO
                              (ext_bytes (sk_extinfo s1)) s1, w);
     if ret = 0 then Some (True, s2, w2)
     else if ret > 0
     then do {
       (_, s3, w3) \<leftarrow> call_back (fs CB_RECVDONE) flow (s2\<lparr>sk_blob := (sk_blob s2)\<lparr>b_len := ret\<rparr>\<rparr>, w2);
       cc3 \<leftarrow> getcc (sk_conns s3) flow;
       (c, mp) \<leftarrow> cache_skip (nat ret) (sk_pool s3) (cc_r cc3);
       Some (True, s3\<lparr>sk_pool := mp, sk_conns := setcc (sk_conns s3) flow (cc3\<lparr>cc_r := c\<rparr>)\<rparr>, w3)
     }
     else do { s3 \<leftarrow> sock_close flow s2; Some (False, s3, w2) }
   }"

text \<open>The receive loop; \<open>rcvs\<close> are the results of the successive receive calls.\<close>

fun recv_loop ::
  "'w sock_funcs \<Rightarrow> int \<Rightarrow> nat \<Rightarrow> (int \<times> int \<times> bytes) list \<Rightarrow> sock_commu \<times> 'w \<Rightarrow> (sock_commu \<times> 'w) option" where
  "recv_loop fs fd flow [] st = None"
| "recv_loop fs fd flow ((rbytes, errno, buf) # rs) (s, w) =
     (case conn_recv (sk_now s) rbytes errno buf flow (sk_pool s) (sk_conns s) of None \<Rightarrow> None
      | Some (r, mp, cs) \<Rightarrow>
          (let s1 = s\<lparr>sk_pool := mp, sk_conns := cs\<rparr>;
               ret = (case r of Inl _ \<Rightarrow> - E_NEED_CLOSE | Inr n \<Rightarrow> n)
           in if ret > 0
              then (case deliver_data fs fd flow (s1, w) of None \<Rightarrow> None
                    | Some (go, st') \<Rightarrow> if go then recv_loop fs fd flow rs st' else Some st')
              else if ret = - E_NEED_CLOSE
              then (case report_disconnect fs flow (s1, w) of None \<Rightarrow> None
                    | Some (s2, w2) \<Rightarrow> (case sock_close flow s2 of None \<Rightarrow> None | Some s3 \<Rightarrow> Some (s3, w2)))
              else if ret = - E_NOT_FINDFD \<or> ret = - EAGAIN then Some (s1, w)
              else recv_loop fs fd flow rs (s1, w)))"

definition poll_event :: "'w sock_funcs \<Rightarrow> net_event \<Rightarrow> sock_commu \<times> 'w \<Rightarrow> (sock_commu \<times> 'w) option" where
  "poll_event fs e st =
     (let (s, w) = st; fd = ne_fd e; flow = ne_flow e
      in if 0 \<le> fd \<and> fd \<le> sk_maxbindfd s \<and> sb_type (sk_binds s ! nat fd) \<noteq> 0
         then (if \<not> ne_in e then Some st
               else if sb_type (sk_binds s ! nat fd) \<noteq> SOCK_TYPE_UDP
               then handle_accept fs fd (ne_accepts e) (ne_nonblock e) (ne_add_rc e) st
               else (case ne_recvs e of [] \<Rightarrow> None | r # _ \<Rightarrow> handle_accept_udp fs fd r (ne_from e) st))
         else if \<not> (ne_in e \<or> ne_out e)
         then do { s1 \<leftarrow> sock_close flow s; report_disconnect fs flow (s1, w) }
         else do {
           st1 \<leftarrow> (if ne_out e then poll_out fs fd flow (ne_send e) st else Some st);
           if ne_in e then recv_loop fs fd flow (ne_recvs e) st1 else Some st1
         })"

fun poll_events :: "'w sock_funcs \<Rightarrow> net_event list \<Rightarrow> sock_commu \<times> 'w \<Rightarrow> (sock_commu \<times> 'w) option" where
  "poll_events fs [] st = Some st"
| "poll_events fs (e # es) st =
     (case poll_event fs e st of None \<Rightarrow> None | Some st' \<Rightarrow> poll_events fs es st')"

definition sock_poll :: "'w sock_funcs \<Rightarrow> net_event list \<Rightarrow> sock_commu \<times> 'w \<Rightarrow> (int \<times> sock_commu \<times> 'w) option" where
  "sock_poll fs es st = do {
     st1 \<leftarrow> poll_events fs es st;
     st2 \<leftarrow> sock_check_expire fs st1;
     Some (if es = [] then -1 else 0, st2)
   }"

section \<open>Control\<close>

text \<open>The second component is what is written to the caller's buffer, of \<open>size\<close> bytes.\<close>

definition sock_ctrl :: "nat \<Rightarrow> ctrl_type \<Rightarrow> nat \<Rightarrow> sock_commu \<Rightarrow> (int \<times> bytes \<times> sock_commu) option" where
  "sock_ctrl flow ty bufsize s =
     (case ty of
        CT_LOAD \<Rightarrow> Some (0, le_bytes 4 (u32_of_int (curconn (sk_conns s))), s)
      | CT_GET_CONN_EXT_INFO \<Rightarrow> do {
          cc \<leftarrow> getcc (sk_conns s) flow;
          if cc_flow cc \<noteq> flow then Some (-1, [], s)
          else if 24 > bufsize then Some (-2, [], s)
          else let s' = peer_info (cc_fd cc) (cc_type cc) s in Some (0, ext_bytes (sk_extinfo s'), s')
        }
      | _ \<Rightarrow> Some (0, [], s))"

end
