(* ===== verification/ServerBase.thy ===== *)
theory ServerBase
  imports ShmCommu
begin

text \<open>
  What the proxy and the worker share (serverbase.h, serverbase.cpp): the flags that the
  signal handlers set, the registration of timers and of event callbacks, and the timer
  round of the main loops.  A registered function is a number (with its argument), 0 is the
  null pointer.
\<close>

section \<open>Signals\<close>

abbreviation RUN_FLAG_QUIT :: byte where "RUN_FLAG_QUIT \<equiv> 1"
abbreviation RUN_FLAG_RELOAD :: byte where "RUN_FLAG_RELOAD \<equiv> 2"
abbreviation RUN_FLAG_RELOAD_MODULE :: byte where "RUN_FLAG_RELOAD_MODULE \<equiv> 4"

definition reload :: "byte \<Rightarrow> bool \<times> byte" where
  "reload flag = (if flag AND RUN_FLAG_RELOAD \<noteq> 0 then (True, flag AND NOT RUN_FLAG_RELOAD) else (False, flag))"

definition reloadmoduleconfig :: "byte \<Rightarrow> bool \<times> byte" where
  "reloadmoduleconfig flag =
     (if flag AND RUN_FLAG_RELOAD_MODULE \<noteq> 0 then (True, flag AND NOT RUN_FLAG_RELOAD_MODULE) else (False, flag))"

definition quit :: "byte \<Rightarrow> bool \<times> byte" where
  "quit flag = (if flag AND RUN_FLAG_QUIT \<noteq> 0 then (True, flag AND NOT RUN_FLAG_QUIT) else (False, flag))"

definition sigusr1_handle :: "byte \<Rightarrow> byte" where
  "sigusr1_handle flag = flag OR RUN_FLAG_QUIT"

definition sigusr2_handle :: "byte \<Rightarrow> byte" where
  "sigusr2_handle flag = flag OR RUN_FLAG_RELOAD"

definition sigusr3_handle :: "byte \<Rightarrow> byte" where
  "sigusr3_handle flag = flag OR RUN_FLAG_RELOAD_MODULE"

section \<open>Events\<close>

datatype event_type = ET_CONNECTED | ET_DISCONNECT | ET_OVERLOAD | ET_TIMEOUT
datatype back_event_type = EVENT_CONNECTED | EVENT_DISCONNECT | EVENT_OVERLOAD | EVENT_TIMEOUT

text \<open>The value of the enumerator, with which the worker compares the type of a blob.\<close>

definition event_number :: "event_type \<Rightarrow> nat" where
  "event_number et = (case et of ET_CONNECTED \<Rightarrow> 0 | ET_DISCONNECT \<Rightarrow> 1 | ET_OVERLOAD \<Rightarrow> 2 | ET_TIMEOUT \<Rightarrow> 3)"

text \<open>The checks of the range always hold for an enumerator.\<close>

definition reg_event_proc :: "event_type \<Rightarrow> 'f \<Rightarrow> (event_type \<Rightarrow> 'f) \<Rightarrow> int \<times> (event_type \<Rightarrow> 'f)" where
  "reg_event_proc et func l = (0, l(et := func))"

definition reg_back_event_proc ::
  "back_event_type \<Rightarrow> 'f \<Rightarrow> (back_event_type \<Rightarrow> 'f) \<Rightarrow> int \<times> (back_event_type \<Rightarrow> 'f)" where
  "reg_back_event_proc et func l = (0, l(et := func))"

section \<open>Timers\<close>

record timer_info =
  t_interval :: int
  t_func :: nat
  t_proctime :: timeval

definition reg_timer_proc :: "timeval \<Rightarrow> int \<Rightarrow> nat \<Rightarrow> timer_info list \<Rightarrow> int \<times> timer_info list" where
  "reg_timer_proc now interval func ts =
     (if interval \<le> 0 \<or> func = 0 then (-1, ts)
      else (0, ts @ [\<lparr>t_interval = interval, t_func = func, t_proctime = now\<rparr>]))"

text \<open>Division of C by a positive number, and the conversion of a \<open>long\<close> to \<open>int\<close>.\<close>

definition cdiv :: "int \<Rightarrow> int \<Rightarrow> int" where
  "cdiv a b = (if a < 0 then - ((- a) div b) else a div b)"

definition timediff :: "timeval \<Rightarrow> timeval \<Rightarrow> int" where
  "timediff now t =
     s32_of_nat (u32_of_int ((int (tv_sec now) - int (tv_sec t)) * 1000
                             + cdiv (int (tv_usec now) - int (tv_usec t)) 1000))"

text \<open>
  One round over the timers: the functions called, in order, and the list afterwards.  (The
  loop also visits a timer that one of these functions registers, but does not call it: its
  interval is positive and none of it has passed.)
\<close>

fun do_timer_callback :: "timeval \<Rightarrow> timer_info list \<Rightarrow> nat list \<times> timer_info list" where
  "do_timer_callback now [] = ([], [])"
| "do_timer_callback now (t # ts) =
     (let (fs, ts') = do_timer_callback now ts
      in if t_interval t \<le> timediff now (t_proctime t)
         then (t_func t # fs, t\<lparr>t_proctime := now\<rparr> # ts')
         else (fs, t # ts'))"

text \<open>The time in microseconds.\<close>

definition tv_us :: "timeval \<Rightarrow> int" where
  "tv_us t = int (tv_sec t) * 1000000 + int (tv_usec t)"

lemma timediff_ms:
  assumes "tv_usec now < 1000000" "tv_usec t < 1000000" "tv_us t \<le> tv_us now" "tv_us now - tv_us t < (2 ^ 31 - 1) * 1000"
  shows "\<bar>timediff now t * 1000 - (tv_us now - tv_us t)\<bar> < 1000" "0 \<le> timediff now t"
proof -
  define d u where "d = int (tv_sec now) - int (tv_sec t)" and "u = int (tv_usec now) - int (tv_usec t)"
  let ?m = "d * 1000 + cdiv u 1000"
  have us: "tv_us now - tv_us t = d * 1000000 + u" by (simp add: tv_us_def d_def u_def algebra_simps)
  have u: "-1000000 < u" "u < 1000000" using assms(1,2) by (simp_all add: u_def)
  have c: "cdiv u 1000 * 1000 - u < 1000" "u - cdiv u 1000 * 1000 < 1000" "u \<ge> 0 \<Longrightarrow> cdiv u 1000 \<ge> 0" "-1000 < cdiv u 1000"
    using u by (auto simp: cdiv_def; linarith)+
  have nonneg: "0 \<le> ?m"
  proof (cases "d \<le> 0")
    case True
    have "d = 0" using True us u assms(3) by (cases "d = 0") linarith+
    then show ?thesis using us assms(3) c(3) by simp
  next
    case False
    then show ?thesis using c(4) by linarith
  qed
  have m: "\<bar>?m * 1000 - (d * 1000000 + u)\<bar> < 1000" using c by (simp add: algebra_simps abs_less_iff)
  have "?m < 2 ^ 31" using m us assms(4) by simp
  then have "timediff now t = ?m" using nonneg by (simp add: timediff_def d_def u_def)
  then show "\<bar>timediff now t * 1000 - (tv_us now - tv_us t)\<bar> < 1000" "0 \<le> timediff now t"
    using m nonneg us by simp_all
qed

lemma do_timer_callback_eq:
  "do_timer_callback now ts =
     (map t_func (filter (\<lambda>t. t_interval t \<le> timediff now (t_proctime t)) ts),
      map (\<lambda>t. if t_interval t \<le> timediff now (t_proctime t) then t\<lparr>t_proctime := now\<rparr> else t) ts)"
  by (induction now ts rule: do_timer_callback.induct) auto

lemma signal_once:
  "quit (sigusr1_handle f) = (True, f AND NOT RUN_FLAG_QUIT)"
  "fst (quit (snd (quit f))) = False"
  "fst (reload (sigusr1_handle f)) = fst (reload f)"
proof -
  have bit: "(w AND 1 \<noteq> 0) = bit w 0" "(w AND 2 \<noteq> 0) = bit w 1" for w :: byte
    by (simp_all add: bit_eq_iff) (auto simp: bit_simps)+
  show "quit (sigusr1_handle f) = (True, f AND NOT RUN_FLAG_QUIT)"
    unfolding quit_def sigusr1_handle_def bit by (simp add: bit_simps) (rule bit_eqI, auto simp: bit_simps)
  show "fst (quit (snd (quit f))) = False"
    unfolding quit_def bit by (simp add: bit_simps)
  show "fst (reload (sigusr1_handle f)) = fst (reload f)"
    unfolding reload_def sigusr1_handle_def bit by (simp add: bit_simps)
qed

end
