(* ===== verification/BenchAdapter.thy ===== *)
theory BenchAdapter
  imports NetOrder
begin

text \<open>
  The default functions of the adapter to the user's library (benchadapter.cpp): the framing
  of a byte stream by the length field of the packet header, and the answers to a full pipe
  and to a network event.  \<open>frames\<close> is what repeated framing makes of a stream.
\<close>

text \<open>The blob is given by the bytes that its length covers.\<close>

definition default_handle_input :: "bytes \<Rightarrow> int option" where
  "default_handle_input d =
     (if length d \<le> 29 then Some 0
      else do {
        packlen \<leftarrow> get_u32 d 3;
        Some (if length d < packlen then 0 else s32_of_nat packlen)
      })"

definition default_handle_queue_full :: int where
  "default_handle_queue_full = 0"

definition default_handle_event_route :: int where
  "default_handle_event_route = -1"

section \<open>Frames of a stream\<close>

text \<open>
  A framing function gives the length of the first frame, or a number that is not positive
  when there is no complete frame.  It must not ask for more than there is, and more bytes
  must not change its mind.
\<close>

definition framing_ok :: "(bytes \<Rightarrow> int) \<Rightarrow> bool" where
  "framing_ok fl \<longleftrightarrow> (\<forall>xs. fl xs \<le> int (length xs)) \<and> (\<forall>xs ys. fl xs > 0 \<longrightarrow> fl (xs @ ys) = fl xs)"

function frames :: "(bytes \<Rightarrow> int) \<Rightarrow> bytes \<Rightarrow> bytes list \<times> bytes" where
  "frames fl xs =
     (if fl xs > 0 \<and> xs \<noteq> []
      then let (fs, rest) = frames fl (drop (nat (fl xs)) xs) in (take (nat (fl xs)) xs # fs, rest)
      else ([], xs))"
  by pat_completeness auto
termination by (relation "measure (\<lambda>(fl, xs). length xs)") auto

declare frames.simps [simp del]

lemma frames_stop: "fl xs \<le> 0 \<or> xs = [] \<Longrightarrow> frames fl xs = ([], xs)"
  by (subst frames.simps) auto

lemma frames_step:
  "fl xs > 0 \<Longrightarrow> xs \<noteq> [] \<Longrightarrow> frames fl xs =
     (take (nat (fl xs)) xs # fst (frames fl (drop (nat (fl xs)) xs)), snd (frames fl (drop (nat (fl xs)) xs)))"
  by (subst frames.simps) (simp add: case_prod_unfold Let_def)

text \<open>The frames of a stream do not depend on where it was cut.\<close>

lemma frames_append:
  assumes "framing_ok fl"
  shows "frames fl (xs @ ys) =
     (fst (frames fl xs) @ fst (frames fl (snd (frames fl xs) @ ys)), snd (frames fl (snd (frames fl xs) @ ys)))"
proof (induction "length xs" arbitrary: xs rule: less_induct)
  case less
  show ?case
  proof (cases "fl xs > 0 \<and> xs \<noteq> []")
    case True
    have n: "fl (xs @ ys) = fl xs" "nat (fl xs) \<le> length xs"
      using assms True unfolding framing_ok_def by (auto simp: nat_le_iff)
    then have cut: "drop (nat (fl xs)) (xs @ ys) = drop (nat (fl xs)) xs @ ys"
      "take (nat (fl xs)) (xs @ ys) = take (nat (fl xs)) xs" by simp_all
    have "length (drop (nat (fl xs)) xs) < length xs" using True by simp
    from less [OF this] show ?thesis
      using True n by (simp add: frames_step)
  next
    case False
    then show ?thesis by (simp add: frames_stop not_less)
  qed
qed

lemma frames_concat: "framing_ok fl \<Longrightarrow> concat (fst (frames fl xs)) @ snd (frames fl xs) = xs"
proof (induction "length xs" arbitrary: xs rule: less_induct)
  case less
  show ?case
  proof (cases "fl xs > 0 \<and> xs \<noteq> []")
    case True
    then have "length (drop (nat (fl xs)) xs) < length xs" by simp
    from less(1) [OF this less(2)] show ?thesis using True by (simp add: frames_step)
  next
    case False
    then show ?thesis by (simp add: frames_stop not_less)
  qed
qed

lemma frames_rest: "fl [] \<le> 0 \<Longrightarrow> fl (snd (frames fl xs)) \<le> 0"
proof (induction "length xs" arbitrary: xs rule: less_induct)
  case less
  show ?case
  proof (cases "fl xs > 0 \<and> xs \<noteq> []")
    case True
    then have "length (drop (nat (fl xs)) xs) < length xs" by simp
    from less(1) [OF this less(2)] show ?thesis using True by (simp add: frames_step)
  next
    case False
    then show ?thesis using less(2) by (auto simp: frames_stop not_less)
  qed
qed

section \<open>The default framing\<close>

text \<open>The frame lengths as numbers; no blob has \<open>2^31\<close> bytes, so \<open>int\<close> is wide enough.\<close>

definition default_frame :: "bytes \<Rightarrow> int" where
  "default_frame d =
     (if length d \<le> 29 then 0
      else let n = be_val (slice d 3 4) in if length d < n then 0 else int n)"

lemma default_handle_input_frame: "length d < 2 ^ 31 \<Longrightarrow> default_handle_input d = Some (default_frame d)"
  by (auto simp: default_handle_input_def default_frame_def get_u32_slice Let_def)

lemma default_framing_ok: "framing_ok default_frame"
  by (auto simp: framing_ok_def default_frame_def Let_def slice_def split: if_splits)

lemma default_frame_Nil: "default_frame [] = 0"
  by (simp add: default_frame_def)

text \<open>A packet whose length field tells its length is one frame.\<close>

definition framed :: "bytes \<Rightarrow> bool" where
  "framed p \<longleftrightarrow> 29 < length p \<and> be_val (slice p 3 4) = length p"

lemma default_frame_packet: "framed p \<Longrightarrow> default_frame (p @ xs) = int (length p)"
  by (simp add: framed_def default_frame_def slice_def)

lemma frames_packets: "list_all framed ps \<Longrightarrow> frames default_frame (concat ps) = (ps, [])"
proof (induction ps)
  case Nil
  then show ?case by (simp add: frames_stop)
next
  case (Cons p ps)
  then have "default_frame (p @ concat ps) = int (length p)" "p \<noteq> []"
    by (auto simp: default_frame_packet framed_def)
  then show ?case using Cons by (simp add: frames_step framed_def)
qed

end
