(* ===== verification/Proxy.thy ===== *)
theory Proxy
  imports SockCommu ServerBase BenchAdapter
begin

text \<open>
  The proxy process (proxy/defaultproxy.cpp): the callbacks of its acceptor, a
  \<open>CTSockCommu\<close>, and of its connectors, the pipes to the worker groups.  The functions of
  the user's library and the registered event functions are parameters: they get the flow
  and a blob, may use the acceptor and their own state, and return an integer.
\<close>

section \<open>State\<close>

type_synonym 'm mod_fn = "nat \<Rightarrow> blob \<Rightarrow> sock_commu \<times> 'm \<Rightarrow> (int \<times> sock_commu \<times> 'm) option"

record 'm px_module =
  md_input :: "'m mod_fn"
  md_route :: "'m mod_fn option"
  md_local :: "'m mod_fn option"
  md_queue_full :: "nat \<Rightarrow> 'm mod_fn"
  md_event_route :: "(event_type \<Rightarrow> 'm mod_fn) option"
  md_event :: "event_type \<Rightarrow> 'm mod_fn option"

abbreviation (input) IPLIMIT_DISABLE :: nat where "IPLIMIT_DISABLE \<equiv> 0"
abbreviation (input) IPLIMIT_WHITE_LIST :: nat where "IPLIMIT_WHITE_LIST \<equiv> 1"
abbreviation (input) IPLIMIT_BLACK_LIST :: nat where "IPLIMIT_BLACK_LIST \<equiv> 2"

text \<open>\<open>px_tv\<close> is the time of day that \<open>enqueue\<close> reads.\<close>

record 'm proxy =
  px_ctor :: "shm_commu list"
  px_iplimit :: nat
  px_iptable :: "nat list"
  px_stat :: "(string \<times> int) list"
  px_tv :: timeval
  px_mod :: 'm

type_synonym 'm px_state = "sock_commu \<times> 'm proxy"

definition run_mod :: "'m mod_fn \<Rightarrow> nat \<Rightarrow> blob \<Rightarrow> 'm px_state \<Rightarrow> (int \<times> 'm px_state) option" where
  "run_mod f flow b st = do {
     (ret, s, m) \<leftarrow> f flow b (fst st, px_mod (snd st));
     Some (ret, s, (snd st)\<lparr>px_mod := m\<rparr>)
   }"

text \<open>A blob of length 0 asks \<open>sendto\<close> to close the connection.\<close>

definition close_blob :: blob where
  "close_blob = \<lparr>b_len = 0, b_data = [], b_ext_type = EXT_TYPE_NONE, b_ext_len = 0, b_extdata = []\<rparr>"

text \<open>The pipes have no send callbacks, no supervision of flows and no locks (\<open>initconf\<close>).\<close>

definition ctor_send :: "nat \<Rightarrow> nat \<Rightarrow> blob \<Rightarrow> 'm px_state \<Rightarrow> (int \<times> 'm px_state) option" where
  "ctor_send i flow b st =
     (let (s, px) = st
      in if i < length (px_ctor px)
         then do {
           (ret, c, evs) \<leftarrow> sendto 0 (px_tv px) 0 (px_ctor px ! i) flow b;
           Some (ret, s, px\<lparr>px_ctor := (px_ctor px)[i := c]\<rparr>)
         }
         else None)"

section \<open>Data from the clients\<close>

definition px_close :: "nat \<Rightarrow> 'm px_state \<Rightarrow> 'm px_state option" where
  "px_close flow st = do { (_, st') \<leftarrow> sock_sendto None flow close_blob st; Some st' }"

text \<open>
  One complete packet of \<open>n\<close> bytes at the start of the blob; the flag says whether the loop
  goes on.  \<open>SBUFFER\<close>, to which the packet is copied for local handling, has
  \<open>MAX_BLOB_DATA_LEN\<close> bytes.
\<close>

definition px_local :: "'m mod_fn \<Rightarrow> nat \<Rightarrow> int \<Rightarrow> 'm px_state \<Rightarrow> (bool \<times> 'm px_state) option" where
  "px_local f flow n st = do {
     let b = sk_blob (fst st);
     d \<leftarrow> (if n > 2 ^ 24 then None else memrd (b_data b) 0 (nat n));
     (ret, st1) \<leftarrow> run_mod f flow (b\<lparr>b_len := n, b_data := d\<rparr>) st;
     if ret = 0 then Some (True, st1)
     else do { st2 \<leftarrow> px_close flow st1; Some (False, st2) }
   }"

definition px_forward :: "'m px_module \<Rightarrow> nat \<Rightarrow> int \<Rightarrow> 'm px_state \<Rightarrow> (bool \<times> 'm px_state) option" where
  "px_forward md flow n st = do {
     let sendblob = (sk_blob (fst st))\<lparr>b_len := n\<rparr>;
     (route_no, st1) \<leftarrow>
       (case md_route md of None \<Rightarrow> Some (1, st)
        | Some f \<Rightarrow> do { (r, st1) \<leftarrow> run_mod f flow sendblob st; Some (u32_of_int r, st1) });
     if registered (md_route md) \<and> (route_no > length (px_ctor (snd st1)) \<or> route_no \<le> 0) then Some (False, st1)
     else do {
       (ret, st2) \<leftarrow> ctor_send (route_no - 1) flow sendblob st1;
       if ret = COMMU_ERR_MQFULL
       then do {
         (r, st3) \<leftarrow> run_mod (md_queue_full md (route_no - 1)) flow sendblob st2;
         if r = 0 then Some (False, st3)
         else if r < 0 then do { st4 \<leftarrow> px_close flow st3; Some (False, st4) }
         else Some (True, st3)
       }
       else Some (True, st2)
     }
   }"

definition px_packet :: "'m px_module \<Rightarrow> nat \<Rightarrow> int \<Rightarrow> 'm px_state \<Rightarrow> (bool \<times> 'm px_state) option" where
  "px_packet md flow n st =
     (case md_local md of Some f \<Rightarrow> px_local f flow n st | None \<Rightarrow> px_forward md flow n st)"

text \<open>
  The loop over the packets of the blob.  Every round takes a byte or more off the blob, so
  one unit of fuel per byte is enough unless the user's functions make the blob longer.
  The result is the last value of \<open>spp_handle_input\<close> and the number of bytes processed.
\<close>

definition advance_blob :: "int \<Rightarrow> sock_commu \<Rightarrow> sock_commu" where
  "advance_blob n s = s\<lparr>sk_blob := (sk_blob s)\<lparr>b_len := b_len (sk_blob s) - n, b_data := drop (nat n) (b_data (sk_blob s))\<rparr>\<rparr>"

fun px_recv_loop ::
  "nat \<Rightarrow> 'm px_module \<Rightarrow> nat \<Rightarrow> int \<Rightarrow> int \<Rightarrow> int \<Rightarrow> 'm px_state \<Rightarrow> (int \<times> int \<times> 'm px_state) option" where
  "px_recv_loop 0 md flow total_len processed proto_len st = None"
| "px_recv_loop (Suc fuel) md flow total_len processed proto_len st =
     (if \<not> b_len (sk_blob (fst st)) > 0 then Some (proto_len, processed, st)
      else (case run_mod (md_input md) flow (sk_blob (fst st)) st of None \<Rightarrow> None
            | Some (n, s1, px1) \<Rightarrow>
                if n \<le> 0 then Some (n, processed, s1, px1)
                else if n > b_len (sk_blob s1) then Some (n, total_len, s1, px1)
                else (case px_packet md flow n (s1, px1\<lparr>px_stat := px_stat px1 @ [(''proxy_ator_recv_num'', 1)]\<rparr>) of
                        None \<Rightarrow> None
                      | Some (go, s2, px2) \<Rightarrow>
                          if go then px_recv_loop fuel md flow total_len (processed + n) n (advance_blob n s2, px2)
                          else Some (n, processed + n, s2, px2))))"

definition px_ator_recvdata :: "'m px_module \<Rightarrow> nat \<Rightarrow> 'm px_state \<Rightarrow> (int \<times> 'm px_state) option" where
  "px_ator_recvdata md flow st = do {
     let len = b_len (sk_blob (fst st));
     (proto_len, processed, st') \<leftarrow> px_recv_loop (Suc (nat len)) md flow len 0 (-1) st;
     Some (if proto_len < 0 then proto_len else processed, st')
   }"

section \<open>Answers of the workers\<close>

definition px_ctor_recvdata :: "nat \<Rightarrow> blob \<Rightarrow> 'm px_state \<Rightarrow> (int \<times> 'm px_state) option" where
  "px_ctor_recvdata flow b st = do {
     let st1 = (fst st, (snd st)\<lparr>px_stat := px_stat (snd st) @ [(''proxy_ctor_recv_num'', 1)]\<rparr>);
     (ret, st2) \<leftarrow> sock_sendto None flow b st1;
     Some (0, st2)
   }"

section \<open>Network events\<close>

fun send_groups :: "nat list \<Rightarrow> nat \<Rightarrow> 'm px_state \<Rightarrow> 'm px_state option" where
  "send_groups [] flow st = Some st"
| "send_groups (i # groups) flow st =
     (case ctor_send i flow (sk_blob (fst st)) st of None \<Rightarrow> None
      | Some (ret, st1) \<Rightarrow> send_groups groups flow st1)"

definition run_event :: "'m px_module \<Rightarrow> event_type \<Rightarrow> nat \<Rightarrow> 'm px_state \<Rightarrow> 'm px_state option" where
  "run_event md et flow st =
     (case md_event md et of None \<Rightarrow> Some st
      | Some f \<Rightarrow> do { (_, st') \<leftarrow> run_mod f flow (sk_blob (fst st)) st; Some st' })"

definition route_event :: "'m px_module \<Rightarrow> event_type \<Rightarrow> byte \<Rightarrow> nat \<Rightarrow> 'm px_state \<Rightarrow> 'm px_state option" where
  "route_event md et ext flow st =
     (case md_event_route md of None \<Rightarrow> Some st
      | Some f \<Rightarrow> do {
          let (s, px) = st;
          let s1 = s\<lparr>sk_blob := (sk_blob s)\<lparr>b_ext_type := ext, b_ext_len := 0, b_extdata := []\<rparr>\<rparr>;
          (route_no, st2) \<leftarrow> run_mod (f et) flow (sk_blob s1) (s1, px);
          let n = length (px_ctor (snd st2));
          if route_no > 0 \<and> route_no \<le> int n then send_groups [nat route_no - 1] flow st2
          else if route_no = 0 then send_groups [0..<n] flow st2
          else Some st2
        })"

definition px_ator_overload :: "'m px_module \<Rightarrow> nat \<Rightarrow> 'm px_state \<Rightarrow> (int \<times> 'm px_state) option" where
  "px_ator_overload md flow st = do {
     st1 \<leftarrow> run_event md ET_OVERLOAD flow st;
     st2 \<leftarrow> route_event md ET_OVERLOAD EXT_TYPE_OVERLOAD flow st1;
     Some (0, st2)
   }"

text \<open>The remote address is read from the connection information behind \<open>extdata\<close>.\<close>

definition px_ator_connected :: "'m px_module \<Rightarrow> nat \<Rightarrow> 'm px_state \<Rightarrow> (int \<times> 'm px_state) option" where
  "px_ator_connected md flow st = do {
     ipb \<leftarrow> memrd (b_extdata (sk_blob (fst st))) 16 4;
     let ip = le_val ipb;
     let px = snd st;
     if px_iplimit px = IPLIMIT_WHITE_LIST \<and> ip \<notin> set (px_iptable px) then Some (-1, st)
     else if px_iplimit px = IPLIMIT_BLACK_LIST \<and> ip \<in> set (px_iptable px) then Some (-2, st)
     else do {
       st1 \<leftarrow> run_event md ET_CONNECTED flow st;
       st2 \<leftarrow> route_event md ET_CONNECTED EXT_TYPE_CONNECTED flow st1;
       Some (0, st2)
     }
   }"

definition px_ator_timeout :: "'m px_module \<Rightarrow> nat \<Rightarrow> 'm px_state \<Rightarrow> (int \<times> 'm px_state) option" where
  "px_ator_timeout md flow st = do {
     st1 \<leftarrow> run_event md ET_TIMEOUT flow st;
     st2 \<leftarrow> route_event md ET_TIMEOUT EXT_TYPE_TIMEOUT flow st1;
     Some (0, st2)
   }"

definition px_ator_disconn :: "'m px_module \<Rightarrow> nat \<Rightarrow> 'm px_state \<Rightarrow> (int \<times> 'm px_state) option" where
  "px_ator_disconn md flow st = do {
     st1 \<leftarrow> run_event md ET_DISCONNECT flow st;
     st2 \<leftarrow> route_event md ET_DISCONNECT EXT_TYPE_DISCONNECT flow st1;
     Some (0, st2)
   }"

text \<open>The callbacks that \<open>initconf\<close> registers with the acceptor and with each pipe.\<close>

definition px_ator_funcs :: "'m px_module \<Rightarrow> 'm proxy sock_funcs" where
  "px_ator_funcs md ty =
     (case ty of CB_RECVDATA \<Rightarrow> Some (px_ator_recvdata md)
      | CB_CONNECTED \<Rightarrow> Some (px_ator_connected md)
      | CB_OVERLOAD \<Rightarrow> Some (px_ator_overload md)
      | CB_DISCONNECT \<Rightarrow> Some (px_ator_disconn md)
      | CB_TIMEOUT \<Rightarrow> Some (px_ator_timeout md)
      | _ \<Rightarrow> None)"

definition px_ctor_funcs :: "cb_type \<Rightarrow> bool" where
  "px_ctor_funcs ty = (ty = CB_RECVDATA)"

section \<open>Configuration of the pipes\<close>

record shm_key_conf =
  key_producer :: int
  key_comsumer :: int
  key_conf :: shm_conf

text \<open>
  One pair of pipes for each worker group; a size in the configuration is in megabytes.
\<close>

definition px_shm_conf :: "int \<Rightarrow> int \<Rightarrow> int \<Rightarrow> nat \<Rightarrow> shm_key_conf" where
  "px_shm_conf key_base send_size recv_size idx =
     \<lparr>key_producer = key_base + 2 * int idx, key_comsumer = key_base + 2 * int idx + 1,
      key_conf = \<lparr>shmsize_producer = send_size * 2 ^ 20, shmsize_comsumer = recv_size * 2 ^ 20,
                  cf_locktype = 0, cf_expiretime = 0, cf_maxpkg = 0, cf_msg_timeout = 0\<rparr>\<rparr>"

definition px_shm_confs :: "int \<Rightarrow> int \<Rightarrow> int \<Rightarrow> nat \<Rightarrow> shm_key_conf list" where
  "px_shm_confs key_base send_size recv_size group_num =
     map (px_shm_conf key_base send_size recv_size) [0..<sub32 group_num 1]"

section \<open>The main loop\<close>

fun answer_all :: "commu_event list \<Rightarrow> 'm px_state \<Rightarrow> 'm px_state option" where
  "answer_all [] st = Some st"
| "answer_all (e # es) st =
     (case px_ctor_recvdata (ev_flow e) (ev_blob e) st of None \<Rightarrow> None | Some (_, st') \<Rightarrow> answer_all es st')"

text \<open>
  The poll of pipe \<open>i\<close>: the callbacks of one poll touch the acceptor only, so they can be
  run after it.  \<open>fuel\<close>, \<open>dfuel\<close> and the clocks are those of \<open>poll\<close>.
\<close>

definition px_poll_ctor ::
  "nat \<Rightarrow> (nat \<Rightarrow> nat \<Rightarrow> timeval) \<Rightarrow> nat \<Rightarrow> 'm px_state \<Rightarrow> (bool \<times> 'm px_state) option" where
  "px_poll_ctor fuel clk i st = do {
     (ret, c, evs) \<leftarrow> poll True False fuel fuel (\<lambda>_. 0) clk 0 0 (px_ctor (snd st) ! i);
     st' \<leftarrow> answer_all evs (fst st, (snd st)\<lparr>px_ctor := (px_ctor (snd st))[i := c]\<rparr>);
     Some (ret \<noteq> 0, st')
   }"

fun px_poll_ctors ::
  "nat \<Rightarrow> (nat \<Rightarrow> nat \<Rightarrow> timeval) \<Rightarrow> nat list \<Rightarrow> bool \<Rightarrow> 'm px_state \<Rightarrow> (bool \<times> 'm px_state) option" where
  "px_poll_ctors fuel clk [] que_idle st = Some (que_idle, st)"
| "px_poll_ctors fuel clk (i # js) que_idle st =
     (case px_poll_ctor fuel clk i st of None \<Rightarrow> None | Some (idle, st') \<Rightarrow> px_poll_ctors fuel clk js idle st')"

text \<open>The idle counter: the microseconds to sleep and the counter afterwards.\<close>

definition px_idle :: "nat \<Rightarrow> bool \<Rightarrow> bool \<Rightarrow> int \<Rightarrow> nat \<times> int" where
  "px_idle nctor que_idle fd_idle t_tick =
     (if nctor = 0 \<and> fd_idle then (if t_tick + 1 \<ge> 10 then (100, 1) else (0, t_tick + 1))
      else if que_idle \<and> fd_idle then (if t_tick + 1 \<ge> 100 then (10, 1) else (0, t_tick + 1))
      else (0, 1))"

text \<open>One turn of the loop up to the idle counter: the result, the sleep, the new counter.\<close>

definition px_turn ::
  "'m px_module \<Rightarrow> net_event list \<Rightarrow> nat \<Rightarrow> (nat \<Rightarrow> nat \<Rightarrow> timeval) \<Rightarrow> bool \<Rightarrow> int \<Rightarrow> 'm px_state \<Rightarrow>
   (nat \<times> int \<times> bool \<times> 'm px_state) option" where
  "px_turn md es fuel clk que_idle t_tick st = do {
     (ret, st1) \<leftarrow> sock_poll (px_ator_funcs md) es st;
     let n = length (px_ctor (snd st1));
     (que_idle', st2) \<leftarrow> px_poll_ctors fuel clk [0..<n] que_idle st1;
     let (us, tick) = px_idle n que_idle' (ret \<noteq> 0) t_tick;
     Some (us, tick, que_idle', st2)
   }"

end
