(* ===== verification/ProxyFraming.thy ===== *)
theory ProxyFraming
  imports Proxy
begin

text \<open>
  What the proxy makes of a byte stream: whatever the pieces in which a connection delivers
  its bytes, the messages in the pipes are the frames of the stream, in order, each in the
  pipe of the group to which it is routed.
\<close>

section \<open>The user's functions\<close>

text \<open>
  A framing function \<open>fl\<close> of the bytes and a route \<open>rt\<close> of the frame that do not touch the
  acceptor and keep no state.
\<close>

definition reads_frames :: "'m px_module \<Rightarrow> (bytes \<Rightarrow> int) \<Rightarrow> bool" where
  "reads_frames md fl \<longleftrightarrow>
     (\<forall>flow b s m. blob_ok b \<longrightarrow> md_input md flow b (s, m) = Some (fl (take (nat (b_len b)) (b_data b)), s, m))"

definition routes_by :: "'m px_module \<Rightarrow> (bytes \<Rightarrow> nat) \<Rightarrow> bool" where
  "routes_by md rt \<longleftrightarrow> md_local md = None \<and>
     (case md_route md of None \<Rightarrow> (\<forall>f. rt f = 1)
      | Some g \<Rightarrow> (\<forall>flow b s m. g flow b (s, m) = Some (int (rt (take (nat (b_len b)) (b_data b))), s, m)))"

text \<open>The state of the pipes to the workers.\<close>

definition pipes_rep :: "shm_commu list \<Rightarrow> mq_msg list list \<Rightarrow> bool" where
  "pipes_rep cs mss \<longleftrightarrow> length cs = length mss \<and>
     (\<forall>i<length cs. mq_rep (producer (cs ! i)) (mss ! i) \<and> lock_free (cs ! i) LOCK_TYPE_PRODUCER \<and>
        expiretime (cs ! i) = 0)"

definition pipe_sizes :: "shm_commu list \<Rightarrow> nat list" where
  "pipe_sizes cs = map (\<lambda>c. mq_blocksize (producer c)) cs"

text \<open>Nothing but the contents of the pipes to the workers differs.\<close>

definition pipe_rest :: "shm_commu list \<Rightarrow> shm_commu list" where
  "pipe_rest cs = map (\<lambda>c. c\<lparr>producer := fresh_mq\<rparr>) cs"

abbreviation pipe_same :: "shm_commu list \<Rightarrow> shm_commu list \<Rightarrow> bool" where
  "pipe_same cs cs' \<equiv> pipe_sizes cs' = pipe_sizes cs \<and> pipe_rest cs' = pipe_rest cs"

text \<open>The message for a frame, and the pipes after a list of frames.\<close>

definition frame_msg :: "nat \<Rightarrow> timeval \<Rightarrow> byte \<Rightarrow> bytes \<Rightarrow> bytes \<Rightarrow> mq_msg" where
  "frame_msg flow tv ty ext f = \<lparr>m_flow = flow, m_type = ty, m_data = f, m_ext = ext, m_time = tv\<rparr>"

definition pipe_add :: "(bytes \<Rightarrow> nat) \<Rightarrow> (bytes \<Rightarrow> mq_msg) \<Rightarrow> bytes list \<Rightarrow> mq_msg list list \<Rightarrow> mq_msg list list" where
  "pipe_add rt mk fs mss = map (\<lambda>i. mss ! i @ map mk (filter (\<lambda>f. rt f = Suc i) fs)) [0..<length mss]"

text \<open>Room for all of them, and every frame has a group and is not too long.\<close>

definition pipes_room :: "(bytes \<Rightarrow> nat) \<Rightarrow> (bytes \<Rightarrow> mq_msg) \<Rightarrow> bytes list \<Rightarrow> mq_msg list list \<Rightarrow> nat list \<Rightarrow> bool" where
  "pipes_room rt mk fs mss sizes \<longleftrightarrow> length sizes = length mss \<and> length mss < 2 ^ 31 \<and>
     (\<forall>i<length mss. mq_bytes (pipe_add rt mk fs mss ! i) < sizes ! i) \<and>
     (\<forall>f\<in>set fs. 0 < rt f \<and> rt f \<le> length mss \<and> length f \<le> 2 ^ 24)"

lemma length_pipe_add [simp]: "length (pipe_add rt mk fs mss) = length mss"
  by (simp add: pipe_add_def)

lemma pipe_add_Nil [simp]: "pipe_add rt mk [] mss = mss"
  by (rule nth_equalityI) (simp_all add: pipe_add_def)

lemma pipe_add_append: "pipe_add rt mk (fs @ gs) mss = pipe_add rt mk gs (pipe_add rt mk fs mss)"
  by (simp add: pipe_add_def)

lemma pipe_add_single:
  "0 < rt f \<Longrightarrow> rt f \<le> length mss \<Longrightarrow> pipe_add rt mk [f] mss = mss[rt f - 1 := mss ! (rt f - 1) @ [mk f]]"
  by (rule nth_equalityI) (auto simp: pipe_add_def nth_list_update)

lemma mq_bytes_append [simp]: "mq_bytes (xs @ ys) = mq_bytes xs + mq_bytes ys"
  by (simp add: mq_bytes_def)

lemma pipe_add_bytes_le:
  "i < length mss \<Longrightarrow> mq_bytes (mss ! i) \<le> mq_bytes (pipe_add rt mk fs mss ! i)"
  by (simp add: pipe_add_def)

lemma pipes_room_append:
  assumes "pipes_room rt mk (fs @ gs) mss sizes"
  shows "pipes_room rt mk fs mss sizes" "pipes_room rt mk gs (pipe_add rt mk fs mss) sizes"
proof -
  have "mq_bytes (pipe_add rt mk fs mss ! i) < sizes ! i" if "i < length mss" for i
    using assms that pipe_add_bytes_le [of i "pipe_add rt mk fs mss" rt mk gs]
    by (auto simp: pipes_room_def pipe_add_append intro: order_le_less_trans)
  then show "pipes_room rt mk fs mss sizes" using assms by (simp add: pipes_room_def)
  show "pipes_room rt mk gs (pipe_add rt mk fs mss) sizes"
    using assms by (simp add: pipes_room_def pipe_add_append)
qed

section \<open>Forwarding\<close>

lemma ctor_send_rep:
  assumes p: "pipes_rep (px_ctor px) mss" and i: "i < length mss" and b: "blob_ok b"
    and m: "msg_ok (blob_msg b flow (b_ext_type b) (px_tv px))"
  defines "msg \<equiv> blob_msg b flow (b_ext_type b) (px_tv px)"
  defines "fits \<equiv> mq_bytes (mss ! i) + msg_total msg < pipe_sizes (px_ctor px) ! i"
  shows "\<exists>cs. ctor_send i flow b (s, px) = Some (if fits then 0 else COMMU_ERR_MQFULL, s, px\<lparr>px_ctor := cs\<rparr>) \<and>
     pipes_rep cs (if fits then mss[i := mss ! i @ [msg]] else mss) \<and> pipe_same (px_ctor px) cs"
proof -
  let ?c = "px_ctor px ! i"
  have c: "mq_rep (producer ?c) (mss ! i)" "lock_free ?c LOCK_TYPE_PRODUCER" "expiretime ?c = 0"
    and len: "length (px_ctor px) = length mss"
    using p i by (simp_all add: pipes_rep_def)
  have f: "sent_fits ?c (mss ! i) msg = fits"
    using i len by (simp add: sent_fits_def fits_def pipe_sizes_def)
  obtain q where q: "sendto 0 (px_tv px) 0 ?c flow b =
     Some (if fits then 0 else COMMU_ERR_MQFULL, ?c\<lparr>producer := q, expiremap := expiremap ?c\<rparr>,
           call_cb ?c (if fits then CB_SENDDATA else CB_SENDERROR) flow b)"
    "mq_rep q (if fits then mss ! i @ [msg] else mss ! i)" "mq_blocksize q = mq_blocksize (producer ?c)"
    using sendto_rep [OF c(1) b m, of 0 0] c(2,3) f unfolding msg_def [symmetric]
    by (auto simp: send_lock_ok_def)
  let ?cs = "(px_ctor px)[i := ?c\<lparr>producer := q, expiremap := expiremap ?c\<rparr>]"
  have "ctor_send i flow b (s, px) = Some (if fits then 0 else COMMU_ERR_MQFULL, s, px\<lparr>px_ctor := ?cs\<rparr>)"
    using i len q(1) by (simp add: ctor_send_def)
  moreover have "pipes_rep ?cs (if fits then mss[i := mss ! i @ [msg]] else mss)"
    using p q(2) c i by (auto simp: pipes_rep_def nth_list_update lock_free_def)
  moreover have "pipe_same (px_ctor px) ?cs"
    using q(3) i len by (auto simp: pipe_sizes_def pipe_rest_def intro!: nth_equalityI simp: nth_list_update)
  ultimately show ?thesis by blast
qed

text \<open>The blob that a frame at the front of the blob is sent as.\<close>

lemma blob_ok_front: "blob_ok b \<Longrightarrow> 0 \<le> n \<Longrightarrow> n \<le> b_len b \<Longrightarrow> blob_ok (b\<lparr>b_len := n\<rparr>)"
  using nat_mono [of n "b_len b"] by (simp add: blob_ok_def)

lemma px_forward_fits:
  assumes md: "routes_by md rt" and p: "pipes_rep (px_ctor px) mss" and b: "blob_ok (sk_blob s)"
    and n: "0 < n" "n \<le> b_len (sk_blob s)" and fl: "flow < 2 ^ 32" and tv: "time_ok (px_tv px)"
  defines "f \<equiv> take (nat n) (b_data (sk_blob s))"
  defines "mk \<equiv> frame_msg flow (px_tv px) (b_ext_type (sk_blob s)) (take (b_ext_len (sk_blob s)) (b_extdata (sk_blob s)))"
  assumes room: "pipes_room rt mk [f] mss (pipe_sizes (px_ctor px))"
  shows "\<exists>cs. px_packet md flow n (s, px) = Some (True, s, px\<lparr>px_ctor := cs\<rparr>) \<and>
     pipes_rep cs (pipe_add rt mk [f] mss) \<and> pipe_same (px_ctor px) cs"
proof -
  let ?b = "(sk_blob s)\<lparr>b_len := n\<rparr>"
  let ?i = "rt f - 1"
  have rt: "0 < rt f" "rt f \<le> length mss" "length f \<le> 2 ^ 24" using room by (simp_all add: pipes_room_def)
  have len: "length (px_ctor px) = length mss" using p by (simp add: pipes_rep_def)
  have ok: "blob_ok ?b" using b n by (simp add: blob_ok_front)
  have msg: "blob_msg ?b flow (b_ext_type ?b) (px_tv px) = mk f"
    by (simp add: blob_msg_def mk_def frame_msg_def f_def)
  have lenf: "length f = nat n" using b n by (auto simp: f_def blob_ok_def)
  then have mok: "msg_ok (blob_msg ?b flow (b_ext_type ?b) (px_tv px))"
    unfolding msg using rt(3) fl tv b n by (auto simp: mk_def frame_msg_def msg_ok_def blob_ok_def)
  have fits: "mq_bytes (mss ! ?i) + msg_total (mk f) < pipe_sizes (px_ctor px) ! ?i"
    using room rt(1,2) by (auto simp: pipes_room_def pipe_add_single mq_bytes_def dest!: spec [of _ ?i])
  have i: "?i < length mss" using rt by simp
  obtain cs where cs: "ctor_send ?i flow ?b (s, px) = Some (0, s, px\<lparr>px_ctor := cs\<rparr>)"
    "pipes_rep cs (mss[?i := mss ! ?i @ [mk f]])" "pipe_same (px_ctor px) cs"
    using ctor_send_rep [OF p i ok mok, of s] fits unfolding msg by auto
  have route: "(case md_route md of None \<Rightarrow> Some (1, s, px)
        | Some g \<Rightarrow> do { (r, st1) \<leftarrow> run_mod g flow ?b (s, px); Some (u32_of_int r, st1) }) = Some (rt f, s, px)"
  proof (cases "md_route md")
    case None
    then show ?thesis using md by (simp add: routes_by_def)
  next
    case (Some g)
    have "rt f < 2 ^ 32" using rt(2) room by (simp add: pipes_room_def)
    then show ?thesis using md Some by (simp add: routes_by_def run_mod_def f_def)
  qed
  have "px_packet md flow n (s, px) = px_forward md flow n (s, px)"
    using md by (simp add: px_packet_def routes_by_def)
  also have "\<dots> = Some (True, s, px\<lparr>px_ctor := cs\<rparr>)"
    using cs(1) rt len by (simp add: px_forward_def route)
  finally show ?thesis using cs(2,3) rt by (auto simp: pipe_add_single)
qed

section \<open>The loop of the receive callback\<close>

definition blob_bytes :: "blob \<Rightarrow> bytes" where
  "blob_bytes b = take (nat (b_len b)) (b_data b)"

definition only_blob :: "sock_commu \<Rightarrow> sock_commu \<Rightarrow> bool" where
  "only_blob s s' \<longleftrightarrow> (\<exists>b. s' = s\<lparr>sk_blob := b\<rparr>)"

definition blob_mk :: "nat \<Rightarrow> timeval \<Rightarrow> blob \<Rightarrow> bytes \<Rightarrow> mq_msg" where
  "blob_mk flow tv b = frame_msg flow tv (b_ext_type b) (take (b_ext_len b) (b_extdata b))"

lemma length_blob_bytes [simp]: "blob_ok b \<Longrightarrow> length (blob_bytes b) = nat (b_len b)"
  by (simp add: blob_bytes_def blob_ok_def)

lemma blob_bytes_Nil: "blob_ok b \<Longrightarrow> blob_bytes b = [] \<longleftrightarrow> b_len b = 0"
  using length_blob_bytes [of b] by (metis blob_ok_def length_0_conv nat_0_iff order_antisym_conv)

lemma only_blob_refl [simp]: "only_blob s s"
  unfolding only_blob_def by (rule exI [of _ "sk_blob s"]) simp

lemma only_blob_trans: "only_blob s t \<Longrightarrow> only_blob t u \<Longrightarrow> only_blob s u"
  by (auto simp: only_blob_def)

lemma only_blob_same:
  "only_blob s s' \<Longrightarrow> sk_pool s' = sk_pool s" "only_blob s s' \<Longrightarrow> sk_conns s' = sk_conns s"
  "only_blob s s' \<Longrightarrow> sk_peer s' = sk_peer s" "only_blob s s' \<Longrightarrow> sk_now s' = sk_now s"
  by (auto simp: only_blob_def)

lemma advance_blob:
  assumes "blob_ok (sk_blob s)" "0 \<le> n" "n \<le> b_len (sk_blob s)"
  shows "blob_ok (sk_blob (advance_blob n s))"
    "blob_bytes (sk_blob (advance_blob n s)) = drop (nat n) (blob_bytes (sk_blob s))"
    "blob_mk flow tv (sk_blob (advance_blob n s)) = blob_mk flow tv (sk_blob s)"
    "only_blob s (advance_blob n s)"
proof -
  show "only_blob s (advance_blob n s)" unfolding only_blob_def advance_blob_def by (rule exI, rule refl)
qed (use assms nat_mono [OF assms(3)] in \<open>simp_all add: advance_blob_def blob_ok_def blob_bytes_def blob_mk_def
      nat_diff_distrib drop_take diff_le_mono\<close>)

lemma px_recv_loop_frames:
  assumes fr: "framing_ok fl" and md: "reads_frames md fl" "routes_by md rt" and flow: "flow < 2 ^ 32"
  shows "blob_ok (sk_blob s) \<Longrightarrow> frames fl (blob_bytes (sk_blob s)) = (fs, rest) \<Longrightarrow>
     pipes_rep (px_ctor px) mss \<Longrightarrow> time_ok (px_tv px) \<Longrightarrow>
     pipes_room rt (blob_mk flow (px_tv px) (sk_blob s)) fs mss (pipe_sizes (px_ctor px)) \<Longrightarrow>
     length (blob_bytes (sk_blob s)) < fuel \<Longrightarrow>
     \<exists>pl s' cs stt. px_recv_loop fuel md flow total_len processed pl0 (s, px) =
         Some (pl, processed + int (length (concat fs)), s', px\<lparr>px_ctor := cs, px_stat := stt\<rparr>) \<and>
       pipes_rep cs (pipe_add rt (blob_mk flow (px_tv px) (sk_blob s)) fs mss) \<and>
       pipe_same (px_ctor px) cs \<and> only_blob s s' \<and>
       (if rest = [] then (if fs = [] then pl = pl0 else 0 < pl) else pl = fl rest)"
proof (induction fuel arbitrary: s px mss processed pl0 fs)
  case 0
  then show ?case by simp
next
  case (Suc fuel)
  let ?b = "sk_blob s"
  let ?d = "blob_bytes ?b"
  let ?n = "fl ?d"
  have input: "run_mod (md_input md) flow ?b (s, px) = Some (?n, s, px)"
    using md(1) Suc.prems(1) by (simp add: run_mod_def reads_frames_def blob_bytes_def)
  have le: "?n \<le> int (length ?d)" using fr by (simp add: framing_ok_def)
  consider (none) "?d = []" | (part) "?d \<noteq> []" "?n \<le> 0" | (full) "?d \<noteq> []" "0 < ?n" by linarith
  then show ?case
  proof cases
    case none
    then have "b_len ?b = 0" "fs = []" "rest = []"
      using Suc.prems(1,2) blob_bytes_Nil [of ?b] none by (auto simp: frames_stop)
    then show ?thesis using Suc.prems(3)
      by (intro exI [of _ pl0] exI [of _ s] exI [of _ "px_ctor px"] exI [of _ "px_stat px"]) simp
  next
    case part
    then have f: "fs = []" "rest = ?d" using Suc.prems(2) by (simp_all add: frames_stop)
    have "0 < b_len ?b" using part(1) Suc.prems(1) length_blob_bytes [of ?b] by (cases ?d) auto
    then show ?thesis using Suc.prems(3) part input f
      by (intro exI [of _ ?n] exI [of _ s] exI [of _ "px_ctor px"] exI [of _ "px_stat px"]) simp
  next
    case full
    have len: "0 < b_len ?b" "?n \<le> b_len ?b"
      using le full(2) Suc.prems(1) length_blob_bytes [of ?b] by (auto simp: blob_ok_def)
    let ?f = "take (nat ?n) ?d"
    obtain gs where gs: "fs = ?f # gs" "frames fl (drop (nat ?n) ?d) = (gs, rest)"
      using Suc.prems(2) full by (simp add: frames_step prod_eq_iff)
    let ?px = "px\<lparr>px_stat := px_stat px @ [(''proxy_ator_recv_num'', 1)]\<rparr>"
    let ?mk = "blob_mk flow (px_tv px) ?b"
    have "pipes_room rt ?mk ([?f] @ gs) mss (pipe_sizes (px_ctor px))" using Suc.prems(5) gs(1) by simp
    note room = pipes_room_append [OF this]
    have f: "take (nat ?n) (b_data ?b) = ?f"
      using len by (simp add: blob_bytes_def min_def nat_le_iff)
    have "pipes_rep (px_ctor ?px) mss" "time_ok (px_tv ?px)" using Suc.prems(3,4) by simp_all
    from px_forward_fits [OF md(2) this(1) Suc.prems(1) full(2) len(2) flow this(2)] room(1)
    obtain cs where cs: "px_packet md flow ?n (s, ?px) = Some (True, s, ?px\<lparr>px_ctor := cs\<rparr>)"
      "pipes_rep cs (pipe_add rt ?mk [?f] mss)" "pipe_same (px_ctor px) cs"
      by (auto simp: f blob_mk_def)
    note adv = advance_blob [OF Suc.prems(1) less_imp_le [OF full(2)] len(2)]
    let ?px2 = "?px\<lparr>px_ctor := cs\<rparr>"
    let ?s2 = "advance_blob ?n s"
    have "length ?d - nat ?n < length ?d" using full by simp
    then have "length (blob_bytes (sk_blob ?s2)) < fuel"
      using Suc.prems(6) by (simp add: adv(2))
    then obtain pl s' cs' stt where ih:
      "px_recv_loop fuel md flow total_len (processed + ?n) ?n (?s2, ?px2) =
         Some (pl, processed + ?n + int (length (concat gs)), s', ?px2\<lparr>px_ctor := cs', px_stat := stt\<rparr>)"
      "pipes_rep cs' (pipe_add rt ?mk gs (pipe_add rt ?mk [?f] mss))" "pipe_same cs cs'" "only_blob ?s2 s'"
      "if rest = [] then (if gs = [] then pl = ?n else 0 < pl) else pl = fl rest"
      using Suc.IH [of ?s2 gs ?px2 "pipe_add rt ?mk [?f] mss" "processed + ?n" ?n] adv gs(2) cs(2,3) room(2) Suc.prems(4)
      by auto
    have "px_recv_loop (Suc fuel) md flow total_len processed pl0 (s, px) =
        px_recv_loop fuel md flow total_len (processed + ?n) ?n (?s2, ?px2)"
      using len full input cs(1) by simp
    moreover have "processed + ?n + int (length (concat gs)) = processed + int (length (concat fs))"
      using gs(1) full(2) le by simp
    moreover have "pipe_add rt ?mk gs (pipe_add rt ?mk [?f] mss) = pipe_add rt ?mk fs mss"
      using pipe_add_append [of rt ?mk "[?f]" gs mss] gs(1) by simp
    ultimately show ?thesis
      using ih cs(3) only_blob_trans [OF adv(4) ih(4)] gs(1) full(2)
      by (intro exI [of _ pl] exI [of _ s'] exI [of _ cs'] exI [of _ stt]) (auto split: if_splits)
  qed
qed

lemma px_ator_recvdata_frames:
  assumes fr: "framing_ok fl" and md: "reads_frames md fl" "routes_by md rt" and flow: "flow < 2 ^ 32"
    and b: "blob_ok (sk_blob s)" "blob_bytes (sk_blob s) \<noteq> []"
    and f: "frames fl (blob_bytes (sk_blob s)) = (fs, rest)"
    and p: "pipes_rep (px_ctor px) mss" "time_ok (px_tv px)"
    and room: "pipes_room rt (blob_mk flow (px_tv px) (sk_blob s)) fs mss (pipe_sizes (px_ctor px))"
  shows "\<exists>s' cs stt. px_ator_recvdata md flow (s, px) =
         Some (if rest \<noteq> [] \<and> fl rest < 0 then fl rest else int (length (concat fs)), s', px\<lparr>px_ctor := cs, px_stat := stt\<rparr>) \<and>
       pipes_rep cs (pipe_add rt (blob_mk flow (px_tv px) (sk_blob s)) fs mss) \<and>
       pipe_same (px_ctor px) cs \<and> only_blob s s'"
proof -
  have ne: "rest \<noteq> [] \<or> fs \<noteq> []" using frames_concat [OF fr, of "blob_bytes (sk_blob s)"] b(2) f by auto
  obtain pl s' cs stt where "px_recv_loop (Suc (nat (b_len (sk_blob s)))) md flow (b_len (sk_blob s)) 0 (-1) (s, px) =
         Some (pl, 0 + int (length (concat fs)), s', px\<lparr>px_ctor := cs, px_stat := stt\<rparr>)"
    "pipes_rep cs (pipe_add rt (blob_mk flow (px_tv px) (sk_blob s)) fs mss)"
    "pipe_same (px_ctor px) cs" "only_blob s s'"
    "if rest = [] then (if fs = [] then pl = -1 else 0 < pl) else pl = fl rest"
    using px_recv_loop_frames [OF fr md flow b(1) f p room, of "Suc (nat (b_len (sk_blob s)))" "b_len (sk_blob s)" 0 "-1"] b(1)
    by auto
  then show ?thesis using ne
    by (intro exI [of _ s'] exI [of _ cs] exI [of _ stt]) (auto simp: px_ator_recvdata_def split: if_splits)
qed

section \<open>The receive loop of the acceptor\<close>

text \<open>A TCP connection with unread bytes \<open>r\<close>; \<open>R\<close> are the blocks of the pool that others use.\<close>

definition conn_open :: "sock_commu \<Rightarrow> (nat \<rightharpoonup> nat) \<Rightarrow> nat \<Rightarrow> bytes \<Rightarrow> bool" where
  "conn_open s R flow r \<longleftrightarrow> unread (sk_pool s) R (sk_conns s) flow r \<and>
     conn_type (sk_conns s) flow = Some SOCK_TYPE_TCP"

text \<open>The connection information that a message carries.\<close>

definition tcp_ext :: "int \<Rightarrow> nat \<times> nat \<Rightarrow> bytes" where
  "tcp_ext fd peer = ext_bytes \<lparr>x_fd = fd, x_type = SOCK_TYPE_TCP, x_localip = 0, x_localport = 0,
     x_remoteip = fst peer, x_remoteport = snd peer\<rparr>"

definition stream_mk :: "nat \<Rightarrow> timeval \<Rightarrow> int \<Rightarrow> nat \<times> nat \<Rightarrow> bytes \<Rightarrow> mq_msg" where
  "stream_mk flow tv fd peer = frame_msg flow tv EXT_TYPE_CONNEXTINFO (tcp_ext fd peer)"

definition same_env :: "nat \<Rightarrow> sock_commu \<Rightarrow> sock_commu \<Rightarrow> bool" where
  "same_env flow s s' \<longleftrightarrow> sk_peer s' = sk_peer s \<and> sk_now s' = sk_now s \<and> sk_out s' = sk_out s \<and>
     sk_sends s' = sk_sends s \<and> sk_nsend s' = sk_nsend s \<and>
     conn_rest (sk_conns s') flow = conn_rest (sk_conns s) flow"

lemma same_env_refl [simp]: "same_env flow s s"
  by (simp add: same_env_def)

lemma same_env_trans: "same_env flow a b \<Longrightarrow> same_env flow b c \<Longrightarrow> same_env flow a c"
  by (simp add: same_env_def)

lemma only_blob_env: "only_blob s s' \<Longrightarrow> same_env flow s s'"
  by (auto simp: only_blob_def same_env_def)

lemma set_blob_simps:
  "length x < 2 ^ 16 \<Longrightarrow> n = int (length d) \<Longrightarrow> length d < 2 ^ 31 \<Longrightarrow> blob_ok (sk_blob (set_blob n d ty x s))"
  "n = int (length d) \<Longrightarrow> blob_bytes (sk_blob (set_blob n d ty x s)) = d"
  "blob_mk flow tv (sk_blob (set_blob n d ty x s)) = frame_msg flow tv ty x"
  by (simp_all add: set_blob_def set_ext_def blob_ok_def blob_bytes_def blob_mk_def overlay_def Let_def)

lemma set_blob_same:
  "sk_pool (set_blob n d ty x s) = sk_pool s" "sk_conns (set_blob n d ty x s) = sk_conns s"
  "same_env flow s (set_blob n d ty x s)"
  by (simp_all add: set_blob_def set_ext_def same_env_def Let_def)

lemma px_funcs_simps [simp]:
  "px_ator_funcs md CB_RECVDATA = Some (px_ator_recvdata md)" "px_ator_funcs md CB_RECVDONE = None"
  "px_ator_funcs md CB_CONNECTED = Some (px_ator_connected md)" "px_ator_funcs md CB_OVERLOAD = Some (px_ator_overload md)"
  "px_ator_funcs md CB_DISCONNECT = Some (px_ator_disconn md)" "px_ator_funcs md CB_TIMEOUT = Some (px_ator_timeout md)"
  by (simp_all add: px_ator_funcs_def)

lemma deliver_data_frames:
  assumes fr: "framing_ok fl" "\<And>xs. 0 \<le> fl xs" and md: "reads_frames md fl" "routes_by md rt" and flow: "flow < 2 ^ 32"
    and c: "conn_open s R flow d" "d \<noteq> []" "length d < 2 ^ 31" "sk_peer s fd = Some peer"
    and f: "frames fl d = (fs, rest)"
    and p: "pipes_rep (px_ctor px) mss" "time_ok (px_tv px)"
    and room: "pipes_room rt (stream_mk flow (px_tv px) fd peer) fs mss (pipe_sizes (px_ctor px))"
  shows "\<exists>s' cs stt. deliver_data (px_ator_funcs md) fd flow (s, px) = Some (True, s', px\<lparr>px_ctor := cs, px_stat := stt\<rparr>) \<and>
     conn_open s' R flow rest \<and> cache_keep R (sk_pool s) (sk_pool s') \<and> same_env flow s s' \<and>
     pipes_rep cs (pipe_add rt (stream_mk flow (px_tv px) fd peer) fs mss) \<and> pipe_same (px_ctor px) cs"
proof -
  obtain cc where cc: "getcc (sk_conns s) flow = Some cc" "cc_flow cc = flow" "flow \<noteq> 0" "cc_type cc = SOCK_TYPE_TCP"
    "cache_rep (sk_pool s) R (cc_r cc) d"
    using c(1) by (auto simp: conn_open_def unread_def conn_type_def conn_rest_def)
  have dat: "cache_data (sk_pool s) (cc_r cc) = Some d" "cache_data_len (cc_r cc) = length d"
    using cache_data_ok [OF cc(5)] by simp_all
  define s1 where "s1 = peer_info fd (cc_type cc) s"
  have ext: "ext_bytes (sk_extinfo s1) = tcp_ext fd peer"
    using c(4) cc(4) by (cases "sk_extinfo s"; cases peer) (simp add: s1_def peer_info_def tcp_ext_def Let_def)
  have s1: "sk_pool s1 = sk_pool s" "sk_conns s1 = sk_conns s" "same_env flow s s1"
    by (simp_all add: s1_def peer_info_def same_env_def Let_def)
  define t where "t = set_blob (int (length d)) d EXT_TYPE_CONNEXTINFO (tcp_ext fd peer) s1"
  have blob: "blob_ok (sk_blob t)" "blob_bytes (sk_blob t) = d"
    "blob_mk flow (px_tv px) (sk_blob t) = stream_mk flow (px_tv px) fd peer"
    using c(3) by (simp_all add: t_def set_blob_simps tcp_ext_def stream_mk_def)
  have t: "sk_pool t = sk_pool s" "sk_conns t = sk_conns s" "same_env flow s t"
    using s1 same_env_trans [OF s1(3), of t] by (simp_all add: t_def set_blob_same)
  have pre: "blob_bytes (sk_blob t) \<noteq> []" "frames fl (blob_bytes (sk_blob t)) = (fs, rest)"
    "pipes_room rt (blob_mk flow (px_tv px) (sk_blob t)) fs mss (pipe_sizes (px_ctor px))"
    using blob c(2) f room by simp_all
  obtain s2 cs stt where r: "px_ator_recvdata md flow (t, px) =
         Some (int (length (concat fs)), s2, px\<lparr>px_ctor := cs, px_stat := stt\<rparr>)"
    "pipes_rep cs (pipe_add rt (stream_mk flow (px_tv px) fd peer) fs mss)"
    "pipe_same (px_ctor px) cs" "only_blob t s2"
    using px_ator_recvdata_frames [OF fr(1) md flow blob(1) pre(1,2) p pre(3)] fr(2) [of rest]
    unfolding blob by (auto simp: not_less)
  have s2: "sk_pool s2 = sk_pool s" "sk_conns s2 = sk_conns s" "same_env flow s s2"
    using only_blob_same [OF r(4)] t same_env_trans [OF t(3) only_blob_env [OF r(4)]] by simp_all
  have split: "concat fs @ rest = d" using frames_concat [OF fr(1), of d] f by simp
  note unf = deliver_data_def cc(1) dat s1_def [symmetric] ext t_def [symmetric] r(1) Let_def
  show ?thesis
  proof (cases "concat fs = []")
    case True
    then have "deliver_data (px_ator_funcs md) fd flow (s, px) = Some (True, s2, px\<lparr>px_ctor := cs, px_stat := stt\<rparr>)"
      by (simp add: unf)
    moreover have "rest = d" using True split by (simp del: concat_eq_Nil_conv)
    then have "conn_open s2 R flow rest" using c(1) s2 by (simp add: conn_open_def)
    ultimately show ?thesis using r(2,3) s2 cache_keep_refl by fastforce
  next
    case False
    obtain c' mp where sk: "cache_skip (length (concat fs)) (sk_pool s) (cc_r cc) = Some (c', mp)"
      "cache_keep R (sk_pool s) mp" "cache_rep mp R c' rest"
      using cache_skip_ok [OF cc(5), of "length (concat fs)"] split by (metis append_eq_conv_conj)
    let ?s3 = "s2\<lparr>sk_blob := (sk_blob s2)\<lparr>b_len := int (length (concat fs))\<rparr>, sk_pool := mp,
                 sk_conns := setcc (sk_conns s2) flow (cc\<lparr>cc_r := c'\<rparr>)\<rparr>"
    have "deliver_data (px_ator_funcs md) fd flow (s, px) = Some (True, ?s3, px\<lparr>px_ctor := cs, px_stat := stt\<rparr>)"
      using False sk(1) by (simp add: unf call_back_def s2 cc(1) del: concat_eq_Nil_conv length_concat)
    moreover have "getcc (sk_conns ?s3) flow = Some (cc\<lparr>cc_r := c'\<rparr>)"
      using getcc_setcc [of "sk_conns s" flow] cc(1) s2 by simp
    then have "conn_open ?s3 R flow rest"
      using sk(3) cc by (simp add: conn_open_def unread_def conn_type_def conn_rest_def)
    moreover have "conn_rest (sk_conns ?s3) flow = conn_rest (sk_conns s) flow"
      using getcc_setcc [of "sk_conns s" flow] cc(1) s2(2) by (simp add: conn_rest_def)
    then have "same_env flow s ?s3" using s2(3) by (simp add: same_env_def)
    ultimately show ?thesis using r(2,3) s2 sk(2) by fastforce
  qed
qed

text \<open>
  The results of the receive calls for a list of chunks: each chunk with what else the
  buffer holds after the call, then nothing more for now.
\<close>

definition chunk_result :: "bytes \<times> bytes \<Rightarrow> int \<times> int \<times> bytes" where
  "chunk_result c = (int (length (fst c)), 0, fst c @ snd c)"

definition chunk_results :: "(bytes \<times> bytes) list \<Rightarrow> bytes \<Rightarrow> (int \<times> int \<times> bytes) list" where
  "chunk_results cs buf = map chunk_result cs @ [(-1, EAGAIN, buf)]"

definition chunk_data :: "(bytes \<times> bytes) list \<Rightarrow> bytes" where
  "chunk_data cs = concat (map fst cs)"

lemma chunk_data_simps [simp]: "chunk_data [] = []" "chunk_data (c # cs) = fst c @ chunk_data cs"
  by (simp_all add: chunk_data_def)

text \<open>What the proxy has done with the part \<open>xs\<close> of the stream: the state of connection and pipes.\<close>

definition stream_done ::
  "(bytes \<Rightarrow> int) \<Rightarrow> (bytes \<Rightarrow> nat) \<Rightarrow> (nat \<rightharpoonup> nat) \<Rightarrow> nat \<Rightarrow> int \<Rightarrow> nat \<times> nat \<Rightarrow> 'm px_state \<Rightarrow> mq_msg list list \<Rightarrow>
   bytes \<Rightarrow> 'm px_state \<Rightarrow> bool" where
  "stream_done fl rt R flow fd peer st mss xs st' \<longleftrightarrow>
     (\<exists>cs stt. snd st' = (snd st)\<lparr>px_ctor := cs, px_stat := stt\<rparr> \<and>
        pipes_rep cs (pipe_add rt (stream_mk flow (px_tv (snd st)) fd peer) (fst (frames fl xs)) mss) \<and>
        pipe_same (px_ctor (snd st)) cs) \<and>
     conn_open (fst st') R flow (snd (frames fl xs)) \<and> cache_keep R (sk_pool (fst st)) (sk_pool (fst st')) \<and>
     same_env flow (fst st) (fst st')"

definition no_memory :: "nat \<Rightarrow> bytes \<times> bytes \<Rightarrow> sock_commu \<Rightarrow> bool" where
  "no_memory flow c s \<longleftrightarrow>
     (\<exists>e mp cs. conn_recv (sk_now s) (int (length (fst c))) 0 (fst c @ snd c) flow (sk_pool s) (sk_conns s) = Some (Inl e, mp, cs))"

lemma recv_loop_frames:
  fixes md :: "'m px_module" and px :: "'m proxy"
  assumes fr: "framing_ok fl" "\<And>xs. 0 \<le> fl xs" and md: "reads_frames md fl" "routes_by md rt" and flow: "flow < 2 ^ 32"
  shows "conn_open s R flow r \<Longrightarrow> sk_peer s fd = Some peer \<Longrightarrow> frames fl r = ([], r) \<Longrightarrow>
     (\<forall>c\<in>set chunks. fst c \<noteq> []) \<Longrightarrow> length (r @ chunk_data chunks) < 2 ^ 31 \<Longrightarrow>
     pipes_rep (px_ctor px) mss \<Longrightarrow> time_ok (px_tv px) \<Longrightarrow>
     pipes_room rt (stream_mk flow (px_tv px) fd peer) (fst (frames fl (r @ chunk_data chunks))) mss (pipe_sizes (px_ctor px)) \<Longrightarrow>
     (\<exists>st'. recv_loop (px_ator_funcs md) fd flow (chunk_results chunks buf) (s, px) = Some st' \<and>
        stream_done fl rt R flow fd peer (s, px) mss (r @ chunk_data chunks) st') \<or>
     (\<exists>k st'. k < length chunks \<and> stream_done fl rt R flow fd peer (s, px) mss (r @ chunk_data (take k chunks)) st' \<and>
        no_memory flow (chunks ! k) (fst st'))"
proof (induction chunks arbitrary: s px mss r)
  case Nil
  have tcp: "conn_type (sk_conns s) flow \<noteq> Some UDP_SOCKET" using Nil.prems(1) by (simp add: conn_open_def)
  obtain cs where c: "conn_recv (sk_now s) (-1) EAGAIN buf flow (sk_pool s) (sk_conns s) = Some (Inr (- EAGAIN), sk_pool s, cs)"
    "conn_rest cs flow = conn_rest (sk_conns s) flow" "unread (sk_pool s) R cs flow r"
    using recv_nothing [of "sk_pool s" R "sk_conns s" flow r "-1" "sk_now s" EAGAIN buf] Nil.prems(1) tcp
    by (auto simp add: conn_open_def simp del: One_nat_def)
  let ?s = "s\<lparr>sk_conns := cs\<rparr>"
  have "recv_loop (px_ator_funcs md) fd flow (chunk_results [] buf) (s, px) = Some (?s, px)"
    using c(1) by (simp add: chunk_results_def Let_def)
  moreover have "stream_done fl rt R flow fd peer (s, px) mss r (?s, px)"
    using Nil.prems c(2,3)
    by (auto simp: stream_done_def conn_open_def conn_type_def same_env_def cache_keep_refl intro!: exI [of _ "px_ctor px"] exI [of _ "px_stat px"])
  ultimately show ?case by auto
next
  case (Cons c chunks)
  let ?d = "fst c"
  have d: "?d \<noteq> []" "length r + length ?d < 2 ^ 31" using Cons.prems(4,5) by auto
  have buf: "nat (int (length ?d)) \<le> length (?d @ snd c)" "int (length ?d) > 0"
    "length r + nat (int (length ?d)) < 2 ^ 31" using d by simp_all
  have u: "unread (sk_pool s) R (sk_conns s) flow r" using Cons.prems(1) by (simp add: conn_open_def)
  obtain x mp1 cs1 where rc: "conn_recv (sk_now s) (int (length ?d)) 0 (?d @ snd c) flow (sk_pool s) (sk_conns s) = Some (x, mp1, cs1)"
    "cache_keep R (sk_pool s) mp1" "conn_rest cs1 flow = conn_rest (sk_conns s) flow"
    "case x of Inl e \<Rightarrow> unread mp1 R cs1 flow r
       | Inr n \<Rightarrow> n = int (length ?d) \<and> unread mp1 R cs1 flow (r @ take (nat (int (length ?d))) (?d @ snd c))"
    using recv_chunk [OF u buf(2,1,3), of "sk_now s" 0] by blast
  show ?case
  proof (cases x)
    case (Inl e)
    have "stream_done fl rt R flow fd peer (s, px) mss (r @ chunk_data (take 0 (c # chunks))) (s, px)"
      using Cons.prems
      by (auto simp: stream_done_def cache_keep_refl intro!: exI [of _ "px_ctor px"] exI [of _ "px_stat px"])
    moreover have "no_memory flow ((c # chunks) ! 0) s" using rc(1) Inl by (simp add: no_memory_def)
    ultimately show ?thesis by (intro disjI2 exI [of _ 0] exI [of _ "(s, px)"]) simp
  next
    case (Inr n)
    let ?s1 = "s\<lparr>sk_pool := mp1, sk_conns := cs1\<rparr>"
    have n: "n = int (length ?d)" "unread mp1 R cs1 flow (r @ ?d)" using rc(4) Inr by simp_all
    have o1: "conn_open ?s1 R flow (r @ ?d)" "sk_peer ?s1 fd = Some peer"
      using n(2) rc(3) Cons.prems(1,2) by (simp_all add: conn_open_def conn_type_def)
    have env1: "same_env flow s ?s1" using rc(3) by (simp add: same_env_def)
    obtain fs r1 where f: "frames fl (r @ ?d) = (fs, r1)" by (cases "frames fl (r @ ?d)") auto
    have split: "frames fl ((r @ ?d) @ ys) = (fs @ fst (frames fl (r1 @ ys)), snd (frames fl (r1 @ ys)))" for ys
      using frames_append [OF fr(1), of "r @ ?d" ys] f by simp
    let ?mk = "stream_mk flow (px_tv px) fd peer"
    have "pipes_room rt ?mk (fs @ fst (frames fl (r1 @ chunk_data chunks))) mss (pipe_sizes (px_ctor px))"
      using Cons.prems(8) split [of "chunk_data chunks"] by simp
    note room = pipes_room_append [OF this]
    have ne: "r @ ?d \<noteq> []" "length (r @ ?d) < 2 ^ 31" using d by simp_all
    obtain s2 cs2 st2 where dd: "deliver_data (px_ator_funcs md) fd flow (?s1, px) = Some (True, s2, px\<lparr>px_ctor := cs2, px_stat := st2\<rparr>)"
      "conn_open s2 R flow r1" "cache_keep R (sk_pool ?s1) (sk_pool s2)" "same_env flow ?s1 s2"
      "pipes_rep cs2 (pipe_add rt ?mk fs mss)" "pipe_same (px_ctor px) cs2"
      using deliver_data_frames [OF fr md flow o1(1) ne o1(2) f Cons.prems(6,7) room(1)] by blast
    let ?px2 = "px\<lparr>px_ctor := cs2, px_stat := st2\<rparr>"
    have step: "recv_loop (px_ator_funcs md) fd flow (chunk_results (c # chunks) buf) (s, px) =
        recv_loop (px_ator_funcs md) fd flow (chunk_results chunks buf) (s2, ?px2)"
      using rc(1) Inr n(1) d(1) dd(1) by (simp add: chunk_results_def chunk_result_def Let_def)
    have rest: "frames fl r1 = ([], r1)" using split [of "[]"] f by (cases "frames fl r1") auto
    have lift: "stream_done fl rt R flow fd peer (s, px) mss (r @ ?d @ ys) st'"
      if "stream_done fl rt R flow fd peer (s2, ?px2) (pipe_add rt ?mk fs mss) (r1 @ ys) st'" for ys st'
      using that dd(3,6) rc(2) split [of ys] same_env_trans [OF env1 dd(4)]
      by (auto simp: stream_done_def pipe_add_append intro: cache_keep_trans same_env_trans)
    have len: "length r1 \<le> length (r @ ?d)" using frames_concat [OF fr(1), of "r @ ?d"] f by (metis fst_conv snd_conv length_append le_add2)
    have "(\<exists>st'. recv_loop (px_ator_funcs md) fd flow (chunk_results chunks buf) (s2, ?px2) = Some st' \<and>
        stream_done fl rt R flow fd peer (s2, ?px2) (pipe_add rt ?mk fs mss) (r1 @ chunk_data chunks) st') \<or>
      (\<exists>k st'. k < length chunks \<and>
        stream_done fl rt R flow fd peer (s2, ?px2) (pipe_add rt ?mk fs mss) (r1 @ chunk_data (take k chunks)) st' \<and>
        no_memory flow (chunks ! k) (fst st'))"
      using Cons.IH [OF dd(2) _ rest, of ?px2 "pipe_add rt ?mk fs mss"] Cons.prems dd(5,6) room(2) len
        same_env_trans [OF env1 dd(4)] by (simp add: same_env_def)
    then show ?thesis
    proof (elim disjE exE conjE)
      fix st' assume "recv_loop (px_ator_funcs md) fd flow (chunk_results chunks buf) (s2, ?px2) = Some st'"
        "stream_done fl rt R flow fd peer (s2, ?px2) (pipe_add rt ?mk fs mss) (r1 @ chunk_data chunks) st'"
      then show ?thesis using step lift by auto
    next
      fix k st' assume k: "k < length chunks"
        "stream_done fl rt R flow fd peer (s2, ?px2) (pipe_add rt ?mk fs mss) (r1 @ chunk_data (take k chunks)) st'"
        "no_memory flow (chunks ! k) (fst st')"
      then show ?thesis using lift [OF k(2)] by (intro disjI2 exI [of _ "Suc k"] exI [of _ st']) simp
    qed
  qed
qed

end
