(* ===== verification/Worker.thy ===== *)
theory Worker
  imports SockCommu ServerBase
begin

text \<open>
  The worker process (worker/defaultworker.cpp): the callbacks of its acceptor, the pipe
  from the proxy, and of its connector, a \<open>CTSockCommu\<close> to the servers behind it, and the
  routed send \<open>spp_sendto\<close>.  The state is the connector with the rest of the worker around
  it.  The functions of the user's library and the registered event functions are
  parameters; they get the whole server and may use all of it.
\<close>

section \<open>State\<close>

text \<open>
  \<open>wk_tv\<close>, \<open>wk_lock\<close>, \<open>wk_delay\<close> and \<open>wk_socket\<close> are what the system gives: the time of day,
  the result of the lock of the pipe, the measured delay, and for the next connection the
  result of \<open>create_sock\<close> and of the addition to the epoll set.
\<close>

record 'm worker =
  wk_ator :: shm_commu
  wk_has_ctor :: bool
  wk_mng :: commu_mng
  wk_routes :: "route_config option"
  wk_stat :: "(string \<times> int) list"
  wk_tv :: timeval
  wk_lock :: int
  wk_delay :: int
  wk_socket :: "int \<times> int"
  wk_mod :: 'm

type_synonym 'm wk_state = "sock_commu \<times> 'm worker"
type_synonym 'm wk_fn = "nat \<Rightarrow> blob \<Rightarrow> 'm wk_state \<Rightarrow> (int \<times> 'm wk_state) option"

abbreviation (input) PKG_SOURCE_CLIENT :: nat where "PKG_SOURCE_CLIENT \<equiv> 1"
abbreviation (input) PKG_SOURCE_SERVER :: nat where "PKG_SOURCE_SERVER \<equiv> 2"

record 'm wk_module =
  wm_input :: "'m wk_fn"
  wm_process :: "(nat \<Rightarrow> 'm wk_fn) option"
  wm_event :: "event_type \<Rightarrow> 'm wk_fn option"
  wm_back_event :: "back_event_type \<Rightarrow> (nat \<Rightarrow> 'm wk_fn) option"

definition wk_step :: "string \<Rightarrow> int \<Rightarrow> 'm wk_state \<Rightarrow> 'm wk_state" where
  "wk_step name n st = (fst st, (snd st)\<lparr>wk_stat := wk_stat (snd st) @ [(name, n)]\<rparr>)"

definition empty_blob :: blob where
  "empty_blob = \<lparr>b_len = 0, b_data = [], b_ext_type = EXT_TYPE_NONE, b_ext_len = 0, b_extdata = []\<rparr>"

section \<open>The pipe from the proxy\<close>

text \<open>\<open>sendto\<close> of the pipe calls back \<open>ator_senddata\<close>, which counts.\<close>

definition ator_senddata :: "nat \<Rightarrow> 'm wk_state \<Rightarrow> int \<times> 'm wk_state" where
  "ator_senddata flow st = (0, wk_step ''work_ator_send_num'' 1 st)"

fun senddata_all :: "commu_event list \<Rightarrow> 'm wk_state \<Rightarrow> 'm wk_state" where
  "senddata_all [] st = st"
| "senddata_all (e # es) st =
     senddata_all es (if ev_cb e = CB_SENDDATA then snd (ator_senddata (ev_flow e) st) else st)"

definition ator_send :: "nat \<Rightarrow> blob \<Rightarrow> 'm wk_state \<Rightarrow> (int \<times> 'm wk_state) option" where
  "ator_send flow b st = do {
     let (s, w) = st;
     (ret, c, evs) \<leftarrow> sendto (wk_lock w) (wk_tv w) 0 (wk_ator w) flow b;
     Some (ret, senddata_all evs (s, w\<lparr>wk_ator := c\<rparr>))
   }"

text \<open>The \<open>ret\<close> that is returned is the outer variable, which stays -1.\<close>

definition ator_recvdata :: "'m wk_module \<Rightarrow> nat \<Rightarrow> blob \<Rightarrow> 'm wk_state \<Rightarrow> (int \<times> 'm wk_state) option" where
  "ator_recvdata wm flow b st =
     (if b_len b > 0
      then do {
        process \<leftarrow> wm_process wm;
        (ret, st1) \<leftarrow> process PKG_SOURCE_CLIENT flow b (wk_step ''work_ator_recv_num'' 1 st);
        let delay = wk_delay (snd st1);
        let timed = (\<lambda>st. wk_step ''work_max_proc_time'' delay (wk_step ''work_avg_proc_time'' delay st));
        if ret = 0 then Some (-1, timed st1)
        else do {
          let st2 = (if ret < 0 then wk_step ''work_fail_proc_num'' 1 st1 else timed st1);
          (_, st3) \<leftarrow> ator_send flow empty_blob st2;
          Some (-1, st3)
        }
      }
      else Some (-1, st))"

text \<open>
  The events of the clients; the blob that the event function gets has no extended data.
\<close>

definition plain_blob :: "blob \<Rightarrow> blob" where
  "plain_blob b = b\<lparr>b_ext_len := 0, b_ext_type := EXT_TYPE_NONE\<rparr>"

definition ator_event :: "'m wk_module \<Rightarrow> event_type \<Rightarrow> nat \<Rightarrow> blob \<Rightarrow> 'm wk_state \<Rightarrow> (int \<times> 'm wk_state) option" where
  "ator_event wm et flow b st =
     (case wm_event wm et of None \<Rightarrow> Some (0, st)
      | Some f \<Rightarrow> do { (_, st') \<leftarrow> f flow (plain_blob b) st; Some (0, st') })"

definition ator_overload :: "'m wk_module \<Rightarrow> nat \<Rightarrow> blob \<Rightarrow> 'm wk_state \<Rightarrow> (int \<times> 'm wk_state) option" where
  "ator_overload wm flow b st =
     (if b_len (plain_blob b) = 0 \<and> unat (b_ext_type (plain_blob b)) = event_number ET_OVERLOAD
      then ator_event wm ET_OVERLOAD flow b st else Some (0, st))"

definition ator_connected :: "'m wk_module \<Rightarrow> nat \<Rightarrow> blob \<Rightarrow> 'm wk_state \<Rightarrow> (int \<times> 'm wk_state) option" where
  "ator_connected wm = ator_event wm ET_CONNECTED"

definition ator_timeout :: "'m wk_module \<Rightarrow> nat \<Rightarrow> blob \<Rightarrow> 'm wk_state \<Rightarrow> (int \<times> 'm wk_state) option" where
  "ator_timeout wm = ator_event wm ET_TIMEOUT"

definition ator_disconn :: "'m wk_module \<Rightarrow> nat \<Rightarrow> blob \<Rightarrow> 'm wk_state \<Rightarrow> (int \<times> 'm wk_state) option" where
  "ator_disconn wm = ator_event wm ET_DISCONNECT"

definition ator_callback :: "'m wk_module \<Rightarrow> commu_event \<Rightarrow> 'm wk_state \<Rightarrow> (int \<times> 'm wk_state) option" where
  "ator_callback wm e st =
     (case ev_cb e of
        CB_RECVDATA \<Rightarrow> ator_recvdata wm (ev_flow e) (ev_blob e) st
      | CB_OVERLOAD \<Rightarrow> ator_overload wm (ev_flow e) (ev_blob e) st
      | CB_CONNECTED \<Rightarrow> ator_connected wm (ev_flow e) (ev_blob e) st
      | CB_TIMEOUT \<Rightarrow> ator_timeout wm (ev_flow e) (ev_blob e) st
      | CB_DISCONNECT \<Rightarrow> ator_disconn wm (ev_flow e) (ev_blob e) st
      | _ \<Rightarrow> Some (0, st))"

section \<open>The servers behind the worker\<close>

definition ctor_connect :: "nat \<Rightarrow> 'm wk_state \<Rightarrow> (int \<times> 'm wk_state) option" where
  "ctor_connect flow st = do {
     let (s, w) = st;
     serv_type \<leftarrow> memrd (b_extdata (sk_blob s)) 0 4;
     node_id \<leftarrow> memrd (b_extdata (sk_blob s)) 4 4;
     let (_, g) = AddConn (le_val serv_type) (le_val node_id) flow (wk_mng w);
     Some (0, s, w\<lparr>wk_mng := g\<rparr>)
   }"

text \<open>
  The event function gets the blob with an empty data buffer, and the type of service of the
  flow, if the table knows it.
\<close>

definition ctor_event :: "'m wk_module \<Rightarrow> back_event_type \<Rightarrow> nat \<Rightarrow> 'm wk_state \<Rightarrow> (int \<times> 'm wk_state) option" where
  "ctor_event wm et flow st =
     (let (s, w) = st;
          s1 = s\<lparr>sk_blob := plain_blob (sk_blob s)\<rparr>
      in case wm_back_event wm et of None \<Rightarrow> Some (0, s1, w)
         | Some f \<Rightarrow>
             let serv_type = GetServerTypeByFlow flow (wk_mng w)
             in if serv_type > 0
                then do {
                  let s2 = s1\<lparr>sk_blob := (sk_blob s1)\<lparr>b_len := 0, b_data := []\<rparr>\<rparr>;
                  (_, st') \<leftarrow> f serv_type flow (sk_blob s2) (s2, w);
                  Some (0, st')
                }
                else Some (0, s1, w))"

definition ctor_overload :: "'m wk_module \<Rightarrow> nat \<Rightarrow> 'm wk_state \<Rightarrow> (int \<times> 'm wk_state) option" where
  "ctor_overload wm = ctor_event wm EVENT_OVERLOAD"

definition ctor_connected :: "'m wk_module \<Rightarrow> nat \<Rightarrow> 'm wk_state \<Rightarrow> (int \<times> 'm wk_state) option" where
  "ctor_connected wm = ctor_event wm EVENT_CONNECTED"

definition ctor_timeout :: "'m wk_module \<Rightarrow> nat \<Rightarrow> 'm wk_state \<Rightarrow> (int \<times> 'm wk_state) option" where
  "ctor_timeout wm = ctor_event wm EVENT_TIMEOUT"

definition ctor_disconn :: "'m wk_module \<Rightarrow> nat \<Rightarrow> 'm wk_state \<Rightarrow> (int \<times> 'm wk_state) option" where
  "ctor_disconn wm flow st =
     (let (s, w) = st; (_, g) = RMConn flow (wk_mng w)
      in ctor_event wm EVENT_DISCONNECT flow (s, w\<lparr>wk_mng := g\<rparr>))"

text \<open>
  The answers: a loop over the packets of the blob like that of the proxy.  The packet is
  copied to \<open>SBUFFER\<close>, of \<open>MAX_BLOB_DATA_LEN\<close> bytes, for the user's function.
\<close>

definition ctor_packet :: "'m wk_module \<Rightarrow> nat \<Rightarrow> int \<Rightarrow> 'm wk_state \<Rightarrow> (bool \<times> 'm wk_state) option" where
  "ctor_packet wm flow n st =
     (case wm_process wm of None \<Rightarrow> Some (True, st)
      | Some process \<Rightarrow> do {
          d \<leftarrow> (if n > 2 ^ 24 then None else memrd (b_data (sk_blob (fst st))) 0 (nat n));
          (ret, st1) \<leftarrow> process PKG_SOURCE_SERVER flow
             \<lparr>b_len = n, b_data = d, b_ext_type = EXT_TYPE_NONE, b_ext_len = 0, b_extdata = []\<rparr> st;
          if ret = 0 then Some (True, st1)
          else do { (_, st2) \<leftarrow> sock_sendto None flow empty_blob st1; Some (False, st2) }
        })"

fun ctor_recv_loop ::
  "nat \<Rightarrow> 'm wk_module \<Rightarrow> nat \<Rightarrow> int \<Rightarrow> int \<Rightarrow> int \<Rightarrow> 'm wk_state \<Rightarrow> (int \<times> int \<times> 'm wk_state) option" where
  "ctor_recv_loop 0 wm flow total_len processed proto_len st = None"
| "ctor_recv_loop (Suc fuel) wm flow total_len processed proto_len st =
     (if \<not> b_len (sk_blob (fst st)) > 0 then Some (proto_len, processed, st)
      else (case wm_input wm flow (sk_blob (fst st)) st of None \<Rightarrow> None
            | Some (n, s1, w1) \<Rightarrow>
                if n \<le> 0 then Some (n, processed, s1, w1)
                else if n > b_len (sk_blob s1) then Some (n, total_len, s1, w1)
                else (case ctor_packet wm flow n (wk_step ''work_ctor_recv_num'' 1 (s1, w1)) of
                        None \<Rightarrow> None
                      | Some (go, s2, w2) \<Rightarrow>
                          if go
                          then ctor_recv_loop fuel wm flow total_len (processed + n) n
                                 (s2\<lparr>sk_blob := (sk_blob s2)\<lparr>b_len := b_len (sk_blob s2) - n,
                                     b_data := drop (nat n) (b_data (sk_blob s2))\<rparr>\<rparr>, w2)
                          else Some (n, processed + n, s2, w2))))"

definition ctor_recvdata :: "'m wk_module \<Rightarrow> nat \<Rightarrow> 'm wk_state \<Rightarrow> (int \<times> 'm wk_state) option" where
  "ctor_recvdata wm flow st = do {
     let len = b_len (sk_blob (fst st));
     (proto_len, processed, st') \<leftarrow> ctor_recv_loop (Suc (nat len)) wm flow len 0 (-1) st;
     Some (if proto_len < 0 then proto_len else processed, st')
   }"

definition wk_ctor_funcs :: "'m wk_module \<Rightarrow> 'm worker sock_funcs" where
  "wk_ctor_funcs wm ty =
     (case ty of CB_CONNECT \<Rightarrow> Some ctor_connect
      | CB_CONNECTED \<Rightarrow> Some (ctor_connected wm)
      | CB_DISCONNECT \<Rightarrow> Some (ctor_disconn wm)
      | CB_TIMEOUT \<Rightarrow> Some (ctor_timeout wm)
      | CB_OVERLOAD \<Rightarrow> Some (ctor_overload wm)
      | CB_RECVDATA \<Rightarrow> Some (ctor_recvdata wm)
      | _ \<Rightarrow> None)"

section \<open>Sending to a server\<close>

definition wk_connect :: "'m wk_module \<Rightarrow> node_info \<Rightarrow> 'm wk_state \<Rightarrow> (int \<times> 'm wk_state) option" where
  "wk_connect wm node st =
     sock_connect (wk_ctor_funcs wm) (fst (wk_socket (snd st))) (snd (wk_socket (snd st))) node st"

text \<open>
  The key of the node: the route is \<open>%\<close> or \<open>/\<close> with a number, of which zero is a division
  by zero; the number is converted to unsigned.
\<close>

definition route_node_key :: "route_table \<Rightarrow> nat \<Rightarrow> nat option" where
  "route_node_key tbl route_key =
     (let v = u32_of_int (rt_route_val tbl)
      in if rt_route tbl = ''%'' then (if v = 0 then None else Some (route_key mod v))
         else if rt_route tbl = ''/'' then (if v = 0 then None else Some (route_key div v))
         else Some 0)"

text \<open>
  Connecting (again) and sending: \<open>ret\<close> is what the caller returns when the connection fails.
  The result is the return value and the flow.
\<close>

definition reconnect_send ::
  "'m wk_module \<Rightarrow> nat \<Rightarrow> nat \<Rightarrow> node_info \<Rightarrow> blob \<Rightarrow> int \<Rightarrow> nat \<Rightarrow> 'm wk_state \<Rightarrow> (int \<times> nat \<times> 'm wk_state) option" where
  "reconnect_send wm serv_type node_id node b ret to_flow st = do {
     (rc, st1) \<leftarrow> wk_connect wm node st;
     if rc = 0
     then let to_flow' = GetFlow serv_type node_id (wk_mng (snd st1))
          in if to_flow' > 0
             then do { (ret', st2) \<leftarrow> sock_sendto None to_flow' b st1; Some (ret', to_flow', st2) }
             else Some (-5, to_flow', st1)
     else Some (ret, to_flow, st1)
   }"

definition spp_sendto ::
  "'m wk_module \<Rightarrow> nat \<Rightarrow> nat \<Rightarrow> nat \<Rightarrow> blob \<Rightarrow> 'm wk_state \<Rightarrow> (int \<times> nat \<times> 'm wk_state) option" where
  "spp_sendto wm to_flow0 serv_type route_key b st =
     (case (wk_has_ctor (snd st), wk_routes (snd st)) of
        (True, Some conf) \<Rightarrow>
          (case GetRouteTable conf serv_type of
             (_, None) \<Rightarrow> Some (-2, to_flow0, st)
           | (ret0, Some tbl) \<Rightarrow> do {
               node_key \<leftarrow> route_node_key tbl route_key;
               let node_id = GetNodeID tbl node_key;
               if node_id = 0 then Some (-3, to_flow0, st)
               else do {
                 let to_flow = GetFlow serv_type node_id (wk_mng (snd st));
                 if to_flow > 0
                 then do {
                   (ret, st1) \<leftarrow> sock_sendto None to_flow b st;
                   if ret = - E_NOT_FINDFD \<or> ret = - E_NEED_CLOSE
                   then (case table_GetNodeInfo tbl node_id of
                           (_, Some node) \<Rightarrow> reconnect_send wm serv_type node_id node b ret to_flow st1
                         | (_, None) \<Rightarrow> Some (ret, to_flow, st1))
                   else Some (ret, to_flow, st1)
                 }
                 else (case table_GetNodeInfo tbl node_id of
                         (_, Some node) \<Rightarrow> reconnect_send wm serv_type node_id node b ret0 to_flow st
                       | (_, None) \<Rightarrow> Some (-6, to_flow, st))
               }
             })
      | _ \<Rightarrow> Some (-1, to_flow0, st))"

definition spp_sendbyflow :: "nat \<Rightarrow> blob \<Rightarrow> 'm wk_state \<Rightarrow> (int \<times> 'm wk_state) option" where
  "spp_sendbyflow flow b st =
     (if wk_has_ctor (snd st) then sock_sendto None flow b st else Some (-1, st))"

section \<open>Configuration of the pipe\<close>

text \<open>The producer of the worker is the consumer of the proxy and the other way round.\<close>

record wk_key_conf =
  wkey_producer :: int
  wkey_comsumer :: int
  wkey_conf :: shm_conf

definition wk_shm_conf :: "int \<Rightarrow> int \<Rightarrow> int \<Rightarrow> nat \<Rightarrow> nat \<Rightarrow> int \<Rightarrow> int \<Rightarrow> wk_key_conf" where
  "wk_shm_conf key_base send_attr recv_attr group_id max_proc_num timeout maxpkg =
     \<lparr>wkey_producer = key_base + 2 * (int group_id - 1) + 1, wkey_comsumer = key_base + 2 * (int group_id - 1),
      wkey_conf = \<lparr>shmsize_producer = recv_attr * 2 ^ 20, shmsize_comsumer = send_attr * 2 ^ 20,
                   cf_locktype = (if max_proc_num > 1 then LOCK_TYPE_PRODUCER OR LOCK_TYPE_COMSUMER else 0),
                   cf_expiretime = 0, cf_maxpkg = maxpkg, cf_msg_timeout = timeout\<rparr>\<rparr>"

definition wk_ator_cbs :: "cb_type \<Rightarrow> bool" where
  "wk_ator_cbs ty = (ty \<in> {CB_RECVDATA, CB_SENDDATA, CB_OVERLOAD, CB_CONNECTED, CB_DISCONNECT, CB_TIMEOUT})"

section \<open>The main loop\<close>

fun ator_callbacks :: "'m wk_module \<Rightarrow> commu_event list \<Rightarrow> 'm wk_state \<Rightarrow> 'm wk_state option" where
  "ator_callbacks wm [] st = Some st"
| "ator_callbacks wm (e # es) st =
     (case ator_callback wm e st of None \<Rightarrow> None | Some (_, st') \<Rightarrow> ator_callbacks wm es st')"

text \<open>
  A poll of the pipe takes out one message at most; its callback is the last thing that the
  poll does (no supervision of flows, \<open>expiretime_\<close> is 0), so it runs after it.
\<close>

definition wk_poll_ator ::
  "'m wk_module \<Rightarrow> nat \<Rightarrow> (nat \<Rightarrow> int) \<Rightarrow> (nat \<Rightarrow> nat \<Rightarrow> timeval) \<Rightarrow> 'm wk_state \<Rightarrow> (int \<times> 'm wk_state) option" where
  "wk_poll_ator wm dfuel lk clk st = do {
     (ret, c, evs) \<leftarrow> poll False False 1 dfuel lk clk 0 0 (wk_ator (snd st));
     st' \<leftarrow> ator_callbacks wm evs (fst st, (snd st)\<lparr>wk_ator := c\<rparr>);
     Some (ret, st')
   }"

definition wk_idle :: "bool \<Rightarrow> bool \<Rightarrow> int \<Rightarrow> nat \<times> int" where
  "wk_idle que_idle fd_idle t_tick =
     (if que_idle \<and> fd_idle then (if t_tick + 1 \<ge> 100 then (100, 1) else (0, t_tick + 1)) else (0, 1))"

text \<open>One turn of the loop up to the idle counter: the microseconds to sleep and the counter.\<close>

definition wk_turn ::
  "'m wk_module \<Rightarrow> nat \<Rightarrow> (nat \<Rightarrow> int) \<Rightarrow> (nat \<Rightarrow> nat \<Rightarrow> timeval) \<Rightarrow> net_event list \<Rightarrow> int \<Rightarrow> 'm wk_state \<Rightarrow>
   (nat \<times> int \<times> 'm wk_state) option" where
  "wk_turn wm dfuel lk clk es t_tick st = do {
     (ret, st1) \<leftarrow> wk_poll_ator wm dfuel lk clk st;
     (fd_idle, st2) \<leftarrow>
       (if wk_has_ctor (snd st1)
        then do { (r, st2) \<leftarrow> sock_poll (wk_ctor_funcs wm) es st1; Some (r \<noteq> 0, st2) }
        else Some (True, st1));
     let (us, tick) = wk_idle (ret \<noteq> 0) fd_idle t_tick;
     Some (us, tick, st2)
   }"

end
