(* ===== verification/System.thy ===== *)
theory System
  imports ProxyFraming Worker
begin

text \<open>
  The proxy and a worker together, over the two pipes in shared memory between them: a
  request of a client goes from the socket of the proxy through the one pipe to the worker,
  its answer through the other pipe back to the socket.
\<close>

section \<open>Shared memory\<close>

text \<open>
  The two processes map the same two segments; the time limit of messages is each process'
  own.  One side sees what the other side left there.
\<close>

definition share_to_worker :: "nat \<Rightarrow> 'm proxy \<Rightarrow> 'u worker \<Rightarrow> 'u worker" where
  "share_to_worker i px w =
     (let c = px_ctor px ! i; a = wk_ator w
      in w\<lparr>wk_ator := a\<lparr>comsumer := (producer c)\<lparr>mq_msg_timeout := mq_msg_timeout (comsumer a)\<rparr>,
                        producer := (comsumer c)\<lparr>mq_msg_timeout := mq_msg_timeout (producer a)\<rparr>\<rparr>\<rparr>)"

definition share_to_proxy :: "nat \<Rightarrow> 'u worker \<Rightarrow> 'm proxy \<Rightarrow> 'm proxy" where
  "share_to_proxy i w px =
     (let c = px_ctor px ! i; a = wk_ator w
      in px\<lparr>px_ctor := (px_ctor px)[i := c\<lparr>producer := (comsumer a)\<lparr>mq_msg_timeout := mq_msg_timeout (producer c)\<rparr>,
                                        comsumer := (producer a)\<lparr>mq_msg_timeout := mq_msg_timeout (comsumer c)\<rparr>\<rparr>]\<rparr>)"

section \<open>The worker answers\<close>

definition answer_blob :: "bytes \<Rightarrow> blob" where
  "answer_blob a = \<lparr>b_len = int (length a), b_data = a, b_ext_type = EXT_TYPE_NONE, b_ext_len = 0, b_extdata = []\<rparr>"

definition answer_msg :: "nat \<Rightarrow> timeval \<Rightarrow> bytes \<Rightarrow> mq_msg" where
  "answer_msg flow tv a = \<lparr>m_flow = flow, m_type = EXT_TYPE_NONE, m_data = a, m_ext = [], m_time = tv\<rparr>"

text \<open>A user's function that sends \<open>ans req\<close> for a request \<open>req\<close> and reports success.\<close>

definition answers :: "'u wk_module \<Rightarrow> (bytes \<Rightarrow> bytes) \<Rightarrow> bool" where
  "answers wm ans \<longleftrightarrow> (case wm_process wm of None \<Rightarrow> False
     | Some process \<Rightarrow> \<forall>flow b st. b_len b > 0 \<longrightarrow>
         process PKG_SOURCE_CLIENT flow b st =
           do { (_, st') \<leftarrow> ator_send flow (answer_blob (ans (blob_bytes b))) st; Some (0, st') })"

definition answer_ok :: "bytes \<Rightarrow> bool" where
  "answer_ok a \<longleftrightarrow> a \<noteq> [] \<and> length a \<le> 2 ^ 24"

definition wk_ready :: "'u worker \<Rightarrow> bool" where
  "wk_ready w \<longleftrightarrow> expiretime (wk_ator w) = 0 \<and> mq_msg_timeout (comsumer (wk_ator w)) = 0 \<and>
     func_list (wk_ator w) = wk_ator_cbs \<and> wk_lock w = 0 \<and> time_ok (wk_tv w)"

lemma blob_msg_answer: "blob_msg (answer_blob a) flow (b_ext_type (answer_blob a)) tv = answer_msg flow tv a"
  by (simp add: blob_msg_def answer_blob_def answer_msg_def)

lemma senddata_all_stat: "\<exists>l. senddata_all evs (s, w) = (s, w\<lparr>wk_stat := l\<rparr>)"
proof (induction evs arbitrary: w)
  case Nil
  show ?case by (intro exI [of _ "wk_stat w"]) simp
next
  case (Cons e evs)
  from Cons [of w] Cons [of "w\<lparr>wk_stat := wk_stat w @ [(''work_ator_send_num'', 1)]\<rparr>"]
  show ?case by (auto simp: ator_senddata_def wk_step_def)
qed

lemma ator_send_answer:
  assumes "wk_ready w" "mq_rep (producer (wk_ator w)) rs" "answer_ok a" "flow < 2 ^ 32"
    and "mq_bytes rs + msg_total (answer_msg flow (wk_tv w) a) < mq_blocksize (producer (wk_ator w))"
  shows "\<exists>q l. ator_send flow (answer_blob a) (s, w) = Some (0, s, w\<lparr>wk_ator := (wk_ator w)\<lparr>producer := q\<rparr>, wk_stat := l\<rparr>) \<and>
     mq_rep q (rs @ [answer_msg flow (wk_tv w) a]) \<and> mq_blocksize q = mq_blocksize (producer (wk_ator w))"
proof -
  let ?c = "wk_ator w"
  have ok: "blob_ok (answer_blob a)" "msg_ok (blob_msg (answer_blob a) flow (b_ext_type (answer_blob a)) (wk_tv w))"
    using assms(1,3,4) unfolding blob_msg_answer
    by (simp_all add: blob_ok_def answer_blob_def msg_ok_def answer_msg_def answer_ok_def wk_ready_def)
  have lk: "send_lock_ok ?c (wk_lock w)" "expiretime ?c = 0" using assms(1) by (simp_all add: send_lock_ok_def wk_ready_def)
  obtain q where q: "sendto (wk_lock w) (wk_tv w) 0 ?c flow (answer_blob a) =
      Some (0, ?c\<lparr>producer := q, expiremap := expiremap ?c\<rparr>, call_cb ?c CB_SENDDATA flow (answer_blob a))"
    "mq_rep q (rs @ [answer_msg flow (wk_tv w) a])" "mq_blocksize q = mq_blocksize (producer ?c)"
    using sendto_rep [OF assms(2) ok lk(1), of 0] assms(5) lk(2) unfolding blob_msg_answer
    by (auto simp: sent_fits_def)
  obtain l where "senddata_all (call_cb ?c CB_SENDDATA flow (answer_blob a)) (s, w\<lparr>wk_ator := ?c\<lparr>producer := q\<rparr>\<rparr>) =
      (s, w\<lparr>wk_ator := ?c\<lparr>producer := q\<rparr>, wk_stat := l\<rparr>)"
    using senddata_all_stat [of _ s "w\<lparr>wk_ator := ?c\<lparr>producer := q\<rparr>\<rparr>"] by auto
  then show ?thesis using q by (intro exI [of _ q] exI [of _ l]) (simp add: ator_send_def)
qed

text \<open>One poll of the worker takes one request out and puts one answer in.\<close>

lemma wk_poll_answers:
  assumes wm: "answers wm ans" and w: "wk_ready w" and c: "commu_ok (wk_ator w) (m # ms)" "length (m # ms) < dfuel"
    and rs: "mq_rep (producer (wk_ator w)) rs" and m: "m_type m = EXT_TYPE_CONNEXTINFO" "m_data m \<noteq> []" "m_flow m < 2 ^ 32"
    and a: "answer_ok (ans (m_data m))"
    and room: "mq_bytes rs + msg_total (answer_msg (m_flow m) (wk_tv w) (ans (m_data m))) < mq_blocksize (producer (wk_ator w))"
  shows "\<exists>c' l. wk_poll_ator wm dfuel (\<lambda>_. 0) clk (s, w) = Some (0, s, w\<lparr>wk_ator := c', wk_stat := l\<rparr>) \<and>
     wk_ready (w\<lparr>wk_ator := c', wk_stat := l\<rparr>) \<and> commu_ok c' ms \<and>
     mq_rep (producer c') (rs @ [answer_msg (m_flow m) (wk_tv w) (ans (m_data m))]) \<and>
     mq_blocksize (producer c') = mq_blocksize (producer (wk_ator w)) \<and>
     mq_blocksize (comsumer c') = mq_blocksize (comsumer (wk_ator w))"
proof -
  let ?c = "wk_ator w"
  have r: "expiretime ?c = 0" "mq_msg_timeout (comsumer ?c) = 0" "func_list ?c = wk_ator_cbs" "wk_lock w = 0" "time_ok (wk_tv w)"
    using w by (simp_all add: wk_ready_def)
  have dr: "drop_expired (clk 0) 0 (m # ms) = m # ms" by simp
  obtain c1 f evs where p: "poll_loop False False (Suc 0) dfuel (\<lambda>_. 0) clk ?c 0 EXT_TYPE_NONE = Some (0, c1, f, evs)"
    "same_flows ?c c1" "commu_ok c1 ms" "map event_msg evs = announced (func_list ?c) [m]"
    using poll_loop_worker [OF c, of "\<lambda>_. 0" False False 0 clk 0 EXT_TYPE_NONE] r(2) dr by (auto simp: locks_ok_def)
  have c1: "producer c1 = producer ?c" "expiretime c1 = 0" "func_list c1 = wk_ator_cbs"
    "mq_msg_timeout (comsumer c1) = 0" "mq_blocksize (comsumer c1) = mq_blocksize (comsumer ?c)"
    using p(2) r by (simp_all add: same_flows_def)
  have cb: "msg_cb m = CB_RECVDATA" using m(1) by (simp add: msg_cb_def)
  then obtain e where e: "evs = [e]" "event_msg e = (CB_RECVDATA, m\<lparr>m_time := no_time\<rparr>)"
    using p(4) r(3) by (auto simp: wk_ator_cbs_def)
  then have ev: "ev_cb e = CB_RECVDATA" "ev_flow e = m_flow m" "blob_bytes (ev_blob e) = m_data m"
    by (cases m; simp add: event_msg_def blob_msg_def blob_bytes_def)+
  have len: "b_len (ev_blob e) > 0" using ev(3) m(2) by (auto simp: blob_bytes_def intro: ccontr)
  obtain process where pr: "wm_process wm = Some process" "\<And>flow b st. b_len b > 0 \<Longrightarrow>
      process 1 flow b st = do { (_, st') \<leftarrow> ator_send flow (answer_blob (ans (blob_bytes b))) st; Some (0, st') }"
    using wm by (auto simp: answers_def split: option.splits)
  let ?w1 = "w\<lparr>wk_ator := c1, wk_stat := wk_stat w @ [(''work_ator_recv_num'', 1)]\<rparr>"
  have w1: "wk_ready ?w1" "mq_rep (producer (wk_ator ?w1)) rs"
    "mq_bytes rs + msg_total (answer_msg (m_flow m) (wk_tv ?w1) (ans (m_data m))) < mq_blocksize (producer (wk_ator ?w1))"
    using r c1 rs room by (simp_all add: wk_ready_def)
  obtain q l where q: "ator_send (m_flow m) (answer_blob (ans (m_data m))) (s, ?w1) =
      Some (0, s, ?w1\<lparr>wk_ator := c1\<lparr>producer := q\<rparr>, wk_stat := l\<rparr>)"
    "mq_rep q (rs @ [answer_msg (m_flow m) (wk_tv w) (ans (m_data m))])" "mq_blocksize q = mq_blocksize (producer ?c)"
    using ator_send_answer [OF w1(1,2) a m(3) w1(3), of s] c1(1) by auto
  let ?c' = "c1\<lparr>producer := q\<rparr>"
  let ?l = "l @ [(''work_avg_proc_time'', wk_delay w), (''work_max_proc_time'', wk_delay w)]"
  have "ator_callbacks wm evs (s, w\<lparr>wk_ator := c1\<rparr>) = Some (s, w\<lparr>wk_ator := ?c', wk_stat := ?l\<rparr>)"
    using pr(2) [OF len, of "m_flow m" "(s, ?w1)"] q(1) len
    by (simp add: e(1) ator_callback_def ev ator_recvdata_def pr(1) wk_step_def Let_def)
  then have "wk_poll_ator wm dfuel (\<lambda>_. 0) clk (s, w) = Some (0, s, w\<lparr>wk_ator := ?c', wk_stat := ?l\<rparr>)"
    using p(1) c1(2) by (simp add: wk_poll_ator_def poll_def)
  moreover have "wk_ready (w\<lparr>wk_ator := ?c', wk_stat := ?l\<rparr>)" using r c1 by (simp add: wk_ready_def)
  moreover have "commu_ok ?c' ms" using p(3) by (simp add: commu_ok_def)
  ultimately show ?thesis using q(2,3) c1(5) by (intro exI [of _ ?c'] exI [of _ ?l]) simp
qed

lemma wk_poll_empty:
  assumes w: "wk_ready w" and c: "commu_ok (wk_ator w) []" "0 < dfuel"
  shows "\<exists>r c'. wk_poll_ator wm dfuel (\<lambda>_. 0) clk (s, w) = Some (r, s, w\<lparr>wk_ator := c'\<rparr>) \<and>
     wk_ready (w\<lparr>wk_ator := c'\<rparr>) \<and> commu_ok c' [] \<and> producer c' = producer (wk_ator w) \<and>
     mq_blocksize (comsumer c') = mq_blocksize (comsumer (wk_ator w))"
proof -
  obtain r c1 f where p: "poll_loop False False (Suc 0) dfuel (\<lambda>_. 0) clk (wk_ator w) 0 EXT_TYPE_NONE = Some (r, c1, f, [])"
    "same_flows (wk_ator w) c1" "commu_ok c1 []"
    using poll_loop_worker [OF c(1), of dfuel "\<lambda>_. 0" False False 0 clk 0 EXT_TYPE_NONE] c(2) by (auto simp: locks_ok_def)
  then show ?thesis using w
    by (intro exI [of _ r] exI [of _ c1]) (simp add: wk_poll_ator_def poll_def wk_ready_def same_flows_def)
qed

text \<open>Enough polls answer all requests, in order.\<close>

fun wk_polls ::
  "'u wk_module \<Rightarrow> nat \<Rightarrow> nat \<Rightarrow> (nat \<Rightarrow> nat \<Rightarrow> timeval) \<Rightarrow> 'u wk_state \<Rightarrow> 'u wk_state option" where
  "wk_polls wm 0 dfuel clk st = Some st"
| "wk_polls wm (Suc n) dfuel clk st =
     (case wk_poll_ator wm dfuel (\<lambda>_. 0) clk st of None \<Rightarrow> None | Some (_, st') \<Rightarrow> wk_polls wm n dfuel clk st')"

definition request_ok :: "(bytes \<Rightarrow> bytes) \<Rightarrow> mq_msg \<Rightarrow> bool" where
  "request_ok ans m \<longleftrightarrow> m_type m = EXT_TYPE_CONNEXTINFO \<and> m_data m \<noteq> [] \<and> m_flow m < 2 ^ 32 \<and> answer_ok (ans (m_data m))"

definition reply :: "(bytes \<Rightarrow> bytes) \<Rightarrow> timeval \<Rightarrow> mq_msg \<Rightarrow> mq_msg" where
  "reply ans tv m = answer_msg (m_flow m) tv (ans (m_data m))"

lemma wk_polls_empty:
  "wk_ready w \<Longrightarrow> commu_ok (wk_ator w) [] \<Longrightarrow> 0 < dfuel \<Longrightarrow>
   \<exists>c'. wk_polls wm n dfuel clk (s, w) = Some (s, w\<lparr>wk_ator := c'\<rparr>) \<and> wk_ready (w\<lparr>wk_ator := c'\<rparr>) \<and>
     commu_ok c' [] \<and> producer c' = producer (wk_ator w) \<and>
     mq_blocksize (comsumer c') = mq_blocksize (comsumer (wk_ator w))"
proof (induction n arbitrary: w)
  case 0
  then show ?case by (intro exI [of _ "wk_ator w"]) simp
next
  case (Suc n)
  obtain r c' where p: "wk_poll_ator wm dfuel (\<lambda>_. 0) clk (s, w) = Some (r, s, w\<lparr>wk_ator := c'\<rparr>)"
    "wk_ready (w\<lparr>wk_ator := c'\<rparr>)" "commu_ok c' []" "producer c' = producer (wk_ator w)"
    "mq_blocksize (comsumer c') = mq_blocksize (comsumer (wk_ator w))"
    using wk_poll_empty [OF Suc.prems, of wm clk s] by (elim exE conjE)
  obtain c2 where "wk_polls wm n dfuel clk (s, w\<lparr>wk_ator := c'\<rparr>) = Some (s, w\<lparr>wk_ator := c2\<rparr>)"
    "wk_ready (w\<lparr>wk_ator := c2\<rparr>)" "commu_ok c2 []" "producer c2 = producer c'"
    "mq_blocksize (comsumer c2) = mq_blocksize (comsumer c')"
    using Suc.IH [OF p(2)] p(3) Suc.prems(3) by auto
  then show ?case using p(1,4,5) by (intro exI [of _ c2]) simp
qed

lemma wk_polls_answer:
  assumes wm: "answers wm ans"
  shows "wk_ready w \<Longrightarrow> commu_ok (wk_ator w) ms \<Longrightarrow> length ms < dfuel \<Longrightarrow> mq_rep (producer (wk_ator w)) rs \<Longrightarrow>
     list_all (request_ok ans) ms \<Longrightarrow> length ms \<le> n \<Longrightarrow>
     mq_bytes (rs @ map (reply ans (wk_tv w)) ms) < mq_blocksize (producer (wk_ator w)) \<Longrightarrow>
     \<exists>c' l. wk_polls wm n dfuel clk (s, w) = Some (s, w\<lparr>wk_ator := c', wk_stat := l\<rparr>) \<and>
       wk_ready (w\<lparr>wk_ator := c', wk_stat := l\<rparr>) \<and> commu_ok c' [] \<and>
       mq_rep (producer c') (rs @ map (reply ans (wk_tv w)) ms) \<and>
       mq_blocksize (producer c') = mq_blocksize (producer (wk_ator w)) \<and>
       mq_blocksize (comsumer c') = mq_blocksize (comsumer (wk_ator w))"
proof (induction ms arbitrary: w rs n)
  case Nil
  obtain c' where "wk_polls wm n dfuel clk (s, w) = Some (s, w\<lparr>wk_ator := c'\<rparr>)" "wk_ready (w\<lparr>wk_ator := c'\<rparr>)"
    "commu_ok c' []" "producer c' = producer (wk_ator w)" "mq_blocksize (comsumer c') = mq_blocksize (comsumer (wk_ator w))"
    using wk_polls_empty [OF Nil.prems(1,2), of dfuel wm n clk s] Nil.prems(3) by auto
  then show ?case using Nil.prems by (intro exI [of _ c'] exI [of _ "wk_stat w"]) simp
next
  case (Cons m ms)
  have m: "m_type m = EXT_TYPE_CONNEXTINFO" "m_data m \<noteq> []" "m_flow m < 2 ^ 32" "answer_ok (ans (m_data m))"
    using Cons.prems(5) by (simp_all add: request_ok_def)
  obtain k where k: "n = Suc k" "length ms \<le> k" using Cons.prems(6) by (cases n) auto
  have room: "mq_bytes rs + msg_total (answer_msg (m_flow m) (wk_tv w) (ans (m_data m))) < mq_blocksize (producer (wk_ator w))"
    using Cons.prems(7) by (simp add: reply_def mq_bytes_def)
  obtain c' l where p: "wk_poll_ator wm dfuel (\<lambda>_. 0) clk (s, w) = Some (0, s, w\<lparr>wk_ator := c', wk_stat := l\<rparr>)"
    "wk_ready (w\<lparr>wk_ator := c', wk_stat := l\<rparr>)" "commu_ok c' ms" "mq_rep (producer c') (rs @ [reply ans (wk_tv w) m])"
    "mq_blocksize (producer c') = mq_blocksize (producer (wk_ator w))"
    "mq_blocksize (comsumer c') = mq_blocksize (comsumer (wk_ator w))"
    using wk_poll_answers [OF wm Cons.prems(1,2,3,4) m room, of clk s] by (auto simp: reply_def)
  let ?w = "w\<lparr>wk_ator := c', wk_stat := l\<rparr>"
  obtain c2 l2 where "wk_polls wm k dfuel clk (s, ?w) = Some (s, ?w\<lparr>wk_ator := c2, wk_stat := l2\<rparr>)"
    "wk_ready (?w\<lparr>wk_ator := c2, wk_stat := l2\<rparr>)" "commu_ok c2 []"
    "mq_rep (producer c2) ((rs @ [reply ans (wk_tv w) m]) @ map (reply ans (wk_tv w)) ms)"
    "mq_blocksize (producer c2) = mq_blocksize (producer c')" "mq_blocksize (comsumer c2) = mq_blocksize (comsumer c')"
    using Cons.IH [of ?w "rs @ [reply ans (wk_tv w) m]" k] Cons.prems p k by auto
  then show ?case using p(1,5,6) k by (intro exI [of _ c2] exI [of _ l2]) simp
qed

section \<open>The proxy sends the answers\<close>

text \<open>
  A connection without unsent bytes, whose client takes at once whatever is sent to it.
\<close>

definition conn_ready :: "sock_commu \<Rightarrow> (nat \<rightharpoonup> nat) \<Rightarrow> nat \<Rightarrow> int \<Rightarrow> bytes \<Rightarrow> bool" where
  "conn_ready s R flow fd r \<longleftrightarrow> conn_open s R flow r \<and>
     conn_rest (sk_conns s) flow = Some (SOCK_TYPE_TCP, fd, raw_cache_new) \<and> sk_sends s = (\<lambda>i n. (int n, 0))"

lemma sock_sendto_ready:
  assumes s: "conn_ready s R flow fd r" and b: "blob_full b" "blob_bytes b \<noteq> []"
  shows "\<exists>s'. sock_sendto None flow b (s, w) = Some (b_len b, s', w) \<and>
     sk_out s' = sk_out s @ [(fd, blob_bytes b)] \<and> conn_ready s' R flow fd r \<and>
     sk_pool s' = sk_pool s \<and> sk_peer s' = sk_peer s"
proof -
  obtain cc where cc: "getcc (sk_conns s) flow = Some cc" "cc_flow cc = flow" "flow \<noteq> 0" "cc_type cc = SOCK_TYPE_TCP"
    "cc_fd cc = fd" "cc_w cc = raw_cache_new" "cache_rep (sk_pool s) R (cc_r cc) r"
    using s by (auto simp: conn_ready_def conn_open_def unread_def conn_rest_def)
  have sends: "sk_sends s = (\<lambda>i n. (int n, 0))" using s by (simp add: conn_ready_def)
  let ?d = "blob_bytes b"
  have d: "memrd (b_data b) 0 (nat (b_len b)) = Some ?d" "int (length ?d) = b_len b" "b_len b > 0"
    using b by (auto simp: blob_full_def blob_bytes_def memrd_def)
  have w0: "cache_data (sk_pool s) raw_cache_new = Some []" "cache_data_len raw_cache_new = 0"
    "cache_skip 0 (sk_pool s) raw_cache_new = Some (raw_cache_new, sk_pool s)"
    by (simp_all add: cache_data_def cache_data_len_def cache_skip_def raw_cache_new_def)
  let ?cc = "cc\<lparr>cc_access := sk_now s\<rparr>"
  let ?cs = "setcc (sk_conns s) flow ?cc"
  have eq: "cc\<lparr>cc_access := sk_now s, cc_w := raw_cache_new\<rparr> = cc\<lparr>cc_access := sk_now s\<rparr>"
    using cc(6) by (cases cc) simp
  have snd: "conn_send (sk_now s) (int 0, 0) (int (length ?d), 0) flow ?d (sk_pool s) (sk_conns s) =
      Some (Inr (int (length ?d)), ?d, sk_pool s, ?cs)"
    using cc w0 by (simp add: conn_send_def sock_send_def Let_def eq)
  have g: "getcc ?cs flow = Some ?cc" using getcc_setcc cc(1) by simp
  define s1 where "s1 = s\<lparr>sk_pool := sk_pool s, sk_conns := ?cs, sk_nsend := sk_nsend s + 2, sk_out := sk_out s @ [(fd, ?d)]\<rparr>"
  define s2 where "s2 = s1\<lparr>sk_epoll := epoll_mod fd (flow, EV_IN) (sk_epoll s1)\<rparr>"
  have s1: "sk_conns s1 = ?cs" by (simp add: s1_def)
  have n: "b_len b \<noteq> 0" "\<not> b_len b < 0" "?d \<noteq> []" "int (length ?d) = b_len b" using d b(2) by simp_all
  have "sock_sendto None flow b (s, w) = Some (b_len b, s2, w)"
    using d n cc(1-5) snd g w0(2) cc(6) by (simp add: sock_sendto_def sends Let_def s1_def s2_def)
  moreover have s2: "sk_conns s2 = ?cs" "sk_pool s2 = sk_pool s" "sk_sends s2 = sk_sends s"
    "sk_out s2 = sk_out s @ [(fd, ?d)]" "sk_peer s2 = sk_peer s" by (simp_all add: s1_def s2_def)
  moreover have "conn_rest ?cs flow = conn_rest (sk_conns s) flow" using g cc(1) by (simp add: conn_rest_def)
  moreover have "unread (sk_pool s) R ?cs flow r" using g cc by (simp add: unread_def)
  ultimately show ?thesis using s
    by (intro exI [of _ s2]) (simp add: conn_ready_def conn_open_def conn_type_def)
qed

lemma answer_all_ready:
  "conn_ready s R flow fd r \<Longrightarrow> events_full evs \<Longrightarrow>
   list_all (\<lambda>e. ev_flow e = flow \<and> blob_bytes (ev_blob e) \<noteq> []) evs \<Longrightarrow>
   \<exists>s' l. answer_all evs (s, px) = Some (s', px\<lparr>px_stat := l\<rparr>) \<and>
     sk_out s' = sk_out s @ map (\<lambda>e. (fd, blob_bytes (ev_blob e))) evs \<and> conn_ready s' R flow fd r \<and>
     sk_pool s' = sk_pool s \<and> sk_peer s' = sk_peer s"
proof (induction evs arbitrary: s px)
  case Nil
  then show ?case by (intro exI [of _ s] exI [of _ "px_stat px"]) simp
next
  case (Cons e evs)
  have e: "blob_full (ev_blob e)" "blob_bytes (ev_blob e) \<noteq> []" "ev_flow e = flow" and evs: "events_full evs"
    using Cons.prems(2,3) by (simp_all add: events_full_def)
  let ?px = "px\<lparr>px_stat := px_stat px @ [(''proxy_ctor_recv_num'', 1)]\<rparr>"
  obtain s1 where s1: "sock_sendto None flow (ev_blob e) (s, ?px) = Some (b_len (ev_blob e), s1, ?px)"
    "sk_out s1 = sk_out s @ [(fd, blob_bytes (ev_blob e))]" "conn_ready s1 R flow fd r" "sk_pool s1 = sk_pool s"
    "sk_peer s1 = sk_peer s"
    using sock_sendto_ready [OF Cons.prems(1) e(1,2), of ?px] by (elim exE conjE)
  obtain s' l where "answer_all evs (s1, ?px) = Some (s', ?px\<lparr>px_stat := l\<rparr>)"
    "sk_out s' = sk_out s1 @ map (\<lambda>e. (fd, blob_bytes (ev_blob e))) evs" "conn_ready s' R flow fd r"
    "sk_pool s' = sk_pool s1" "sk_peer s' = sk_peer s1"
    using Cons.IH [OF s1(3) evs, of ?px] Cons.prems(3) by auto
  then show ?case using s1 e(3) by (intro exI [of _ s'] exI [of _ l]) (simp add: px_ctor_recvdata_def)
qed

text \<open>The pipe to the proxy, drained: every answer goes to its connection.\<close>

definition px_pipe_ready :: "shm_commu \<Rightarrow> bool" where
  "px_pipe_ready c \<longleftrightarrow> func_list c = px_ctor_funcs \<and> locktype c = 0 \<and> expiretime c = 0 \<and> mq_msg_timeout (comsumer c) = 0"

lemma px_poll_ctor_answers:
  assumes s: "conn_ready s R flow fd r" and i: "i < length (px_ctor px)" and c: "px_pipe_ready (px_ctor px ! i)"
    and ok: "commu_ok (px_ctor px ! i) rs" and fuel: "length rs < fuel"
    and rs: "list_all (\<lambda>m. m_flow m = flow \<and> m_type m = EXT_TYPE_NONE \<and> m_data m \<noteq> []) rs"
  shows "\<exists>s' c' l. px_poll_ctor fuel clk i (s, px) = Some (True, s', px\<lparr>px_ctor := (px_ctor px)[i := c'], px_stat := l\<rparr>) \<and>
     sk_out s' = sk_out s @ map (\<lambda>m. (fd, m_data m)) rs \<and> conn_ready s' R flow fd r \<and> sk_pool s' = sk_pool s \<and>
     sk_peer s' = sk_peer s \<and> commu_ok c' [] \<and> same_flows (px_ctor px ! i) c'"
proof -
  let ?c = "px_ctor px ! i"
  have pr: "func_list ?c = px_ctor_funcs" "locktype ?c = 0" "expiretime ?c = 0" "mq_msg_timeout (comsumer ?c) = 0"
    using c by (simp_all add: px_pipe_ready_def)
  obtain c' f evs where p: "poll_loop True False fuel fuel (\<lambda>_. 0) clk ?c 0 EXT_TYPE_NONE = Some (COMMU_ERR_MQEMPTY, c', f, evs)"
    "commu_ok c' []" "same_flows ?c c'" "map event_msg evs = announced px_ctor_funcs rs" "events_full evs"
    using poll_loop_proxy [OF ok fuel fuel, of "\<lambda>_. 0" clk 0 EXT_TYPE_NONE] pr by (auto simp: locks_ok_def drain_no_timeout)
  have "announced px_ctor_funcs rs = map (\<lambda>m. (CB_RECVDATA, m\<lparr>m_time := no_time\<rparr>)) rs"
    using rs by (induction rs) (auto simp: msg_cb_def px_ctor_funcs_def)
  then have ev: "map event_msg evs = map (\<lambda>m. (CB_RECVDATA, m\<lparr>m_time := no_time\<rparr>)) rs" using p(4) by simp
  have fields: "map ev_flow evs = map m_flow rs" "map (\<lambda>e. blob_bytes (ev_blob e)) evs = map m_data rs"
    using arg_cong [OF ev, of "map (m_flow \<circ> snd)"] arg_cong [OF ev, of "map (m_data \<circ> snd)"]
    by (simp_all add: event_msg_def blob_msg_def blob_bytes_def o_def)
  have good: "list_all (\<lambda>e. ev_flow e = flow \<and> blob_bytes (ev_blob e) \<noteq> []) evs"
    using fields rs unfolding list_all_length
    by (metis (no_types, lifting) length_map nth_map)
  obtain s' l where a: "answer_all evs (s, px\<lparr>px_ctor := (px_ctor px)[i := c']\<rparr>) =
      Some (s', px\<lparr>px_ctor := (px_ctor px)[i := c'], px_stat := l\<rparr>)"
    "sk_out s' = sk_out s @ map (\<lambda>e. (fd, blob_bytes (ev_blob e))) evs" "conn_ready s' R flow fd r"
    "sk_pool s' = sk_pool s" "sk_peer s' = sk_peer s"
    using answer_all_ready [OF s p(5) good, of "px\<lparr>px_ctor := (px_ctor px)[i := c']\<rparr>"] by auto
  have "expiretime c' = 0" using p(3) pr(3) by (simp add: same_flows_def)
  then have "px_poll_ctor fuel clk i (s, px) = Some (True, s', px\<lparr>px_ctor := (px_ctor px)[i := c'], px_stat := l\<rparr>)"
    using p(1) a(1) by (simp add: px_poll_ctor_def poll_def)
  moreover have "map (\<lambda>e. (fd, blob_bytes (ev_blob e))) evs = map (\<lambda>m. (fd, m_data m)) rs"
    using arg_cong [OF fields(2), of "map (Pair fd)"] by (simp add: o_def)
  ultimately show ?thesis using a p(2,3) by (intro exI [of _ s'] exI [of _ c'] exI [of _ l]) simp
qed

end
