(* ===== verification/Rounds.thy ===== *)
theory Rounds
  imports System
begin

text \<open>
  Rounds of the system: a readiness event at the proxy, the work of a worker, the poll of
  the proxy.  A round that starts with both processes idle and the pipes empty ends so, and
  has sent one answer for each request that has become complete.
\<close>

section \<open>A round\<close>

text \<open>
  A round of the system with one worker group: the proxy receives what one readiness event
  brings, the worker polls \<open>n\<close> times, the proxy polls its pipe.
\<close>

definition sys_round ::
  "'m px_module \<Rightarrow> 'u wk_module \<Rightarrow> int \<Rightarrow> nat \<Rightarrow> nat \<Rightarrow> nat \<Rightarrow> (nat \<Rightarrow> nat \<Rightarrow> timeval) \<Rightarrow>
   (int \<times> int \<times> bytes) list \<Rightarrow> 'm px_state \<times> 'u wk_state \<Rightarrow> ('m px_state \<times> 'u wk_state) option" where
  "sys_round md wm fd flow n fuel clk rcvs st = do {
     (s1, px1) \<leftarrow> recv_loop (px_ator_funcs md) fd flow rcvs (fst st);
     (sw, w1) \<leftarrow> wk_polls wm n fuel clk (fst (snd st), share_to_worker 0 px1 (snd (snd st)));
     (idle, s2, px2) \<leftarrow> px_poll_ctor fuel clk 0 (s1, share_to_proxy 0 w1 px1);
     Some ((s2, px2), sw, share_to_worker 0 px2 w1)
   }"

fun sys_rounds ::
  "'m px_module \<Rightarrow> 'u wk_module \<Rightarrow> int \<Rightarrow> nat \<Rightarrow> nat \<Rightarrow> nat \<Rightarrow> (nat \<Rightarrow> nat \<Rightarrow> timeval) \<Rightarrow>
   (int \<times> int \<times> bytes) list list \<Rightarrow> 'm px_state \<times> 'u wk_state \<Rightarrow> ('m px_state \<times> 'u wk_state) option" where
  "sys_rounds md wm fd flow n fuel clk [] st = Some st"
| "sys_rounds md wm fd flow n fuel clk (rcvs # rs) st =
     (case sys_round md wm fd flow n fuel clk rcvs st of None \<Rightarrow> None
      | Some st' \<Rightarrow> sys_rounds md wm fd flow n fuel clk rs st')"

section \<open>Idle states\<close>

text \<open>What the functions of the users' libraries promise.\<close>

definition sys_mods :: "'m px_module \<Rightarrow> 'u wk_module \<Rightarrow> (bytes \<Rightarrow> int) \<Rightarrow> (bytes \<Rightarrow> bytes) \<Rightarrow> bool" where
  "sys_mods md wm fl ans \<longleftrightarrow>
     framing_ok fl \<and> (\<forall>xs. 0 \<le> fl xs) \<and> reads_frames md fl \<and> routes_by md (\<lambda>_. 1) \<and> answers wm ans"

text \<open>
  Both processes are idle, both pipes are empty, and the connection has received \<open>r\<close>, the
  start of a request; \<open>bp\<close> and \<open>bc\<close> are the sizes of the pipes.
\<close>

definition sys_idle ::
  "nat \<Rightarrow> nat \<Rightarrow> (nat \<rightharpoonup> nat) \<Rightarrow> int \<Rightarrow> nat \<Rightarrow> nat \<times> nat \<Rightarrow> timeval \<Rightarrow> bytes \<Rightarrow> 'm px_state \<times> 'u wk_state \<Rightarrow> bool" where
  "sys_idle bp bc R fd flow peer tv r st \<longleftrightarrow>
     (let s = fst (fst st); px = snd (fst st); w = snd (snd st); c = px_ctor px ! 0
      in length (px_ctor px) = 1 \<and> px_pipe_ready c \<and> commu_ok c [] \<and> mq_rep (producer c) [] \<and>
         mq_blocksize (producer c) = bp \<and> mq_blocksize (comsumer c) = bc \<and>
         wk_ready w \<and> buffers_ok (buff_blob (wk_ator w)) (producer c) \<and> func_list (wk_ator w) CB_RECVDATA \<and>
         conn_ready s R flow fd r \<and> sk_peer s fd = Some peer \<and> flow < 2 ^ 32 \<and> px_tv px = tv \<and> time_ok tv)"

text \<open>Room in the pipes for what one round moves.\<close>

definition round_fits ::
  "nat \<Rightarrow> nat \<Rightarrow> (bytes \<Rightarrow> mq_msg) \<Rightarrow> (bytes \<Rightarrow> bytes) \<Rightarrow> nat \<Rightarrow> bytes list \<Rightarrow> bool" where
  "round_fits bp bc mk ans n fs \<longleftrightarrow> length fs \<le> n \<and>
     mq_bytes (map mk fs) < bp \<and> mq_bytes (map (reply ans no_time \<circ> mk) fs) < bc \<and>
     list_all (\<lambda>f. length f \<le> 2 ^ 24 \<and> answer_ok (ans f)) fs"

lemma buffers_ok_timeout [simp]: "buffers_ok b (q\<lparr>mq_msg_timeout := t\<rparr>) = buffers_ok b q"
  by (simp add: buffers_ok_def)

lemma buffers_ok_size: "mq_blocksize q = mq_blocksize q' \<Longrightarrow> buffers_ok b q = buffers_ok b q'"
  by (simp add: buffers_ok_def)

lemma msg_total_reply: "msg_total (reply ans tv m) = msg_total (reply ans tv' m)"
  by (simp add: reply_def answer_msg_def msg_total_def)

lemma mq_bytes_reply: "mq_bytes (map (reply ans tv) ms) = mq_bytes (map (reply ans tv') ms)"
  by (simp add: mq_bytes_def o_def msg_total_reply [of ans tv _ tv'])

lemma pipe_add_one [simp]: "pipe_add (\<lambda>_. Suc 0) mk fs [ms] = [ms @ map mk fs]"
  by (simp add: pipe_add_def)

lemma frames_not_Nil: "f \<in> set (fst (frames fl xs)) \<Longrightarrow> f \<noteq> []"
proof (induction fl xs rule: frames.induct)
  case (1 fl xs)
  show ?case
  proof (cases "fl xs > 0 \<and> xs \<noteq> []")
    case True
    then have "f = take (nat (fl xs)) xs \<or> f \<in> set (fst (frames fl (drop (nat (fl xs)) xs)))"
      using 1(2) frames_step [of fl xs] by auto
    then show ?thesis using 1(1) [OF True] True by auto
  next
    case False
    then have "frames fl xs = ([], xs)" by (intro frames_stop) auto
    then show ?thesis using 1(2) by simp
  qed
qed

section \<open>One round answers what has become complete\<close>

text \<open>Memory for the bytes received ran out at some chunk; what came before was framed.\<close>

definition starved ::
  "(bytes \<Rightarrow> int) \<Rightarrow> (nat \<rightharpoonup> nat) \<Rightarrow> nat \<Rightarrow> int \<Rightarrow> nat \<times> nat \<Rightarrow> 'm px_state \<Rightarrow> bytes \<Rightarrow> (bytes \<times> bytes) list \<Rightarrow> bool" where
  "starved fl R flow fd peer pst r chunks \<longleftrightarrow>
     (\<exists>k st'. k < length chunks \<and> stream_done fl (\<lambda>_. 1) R flow fd peer pst [[]] (r @ chunk_data (take k chunks)) st' \<and>
        no_memory flow (chunks ! k) (fst st'))"

lemma round_receives:
  assumes md: "sys_mods md wm fl ans" and i: "sys_idle bp bc R fd flow peer tv r ((s, px), sw, w)"
    and r: "frames fl r = ([], r)" and ch: "\<forall>c\<in>set chunks. fst c \<noteq> []" "length (r @ chunk_data chunks) < 2 ^ 31"
    and fs: "frames fl (r @ chunk_data chunks) = (fs, r')" and fits: "round_fits bp bc (stream_mk flow tv fd peer) ans n fs"
  shows "(\<exists>s1 c1 l. recv_loop (px_ator_funcs md) fd flow (chunk_results chunks buf) (s, px) =
            Some (s1, px\<lparr>px_ctor := [c1], px_stat := l\<rparr>) \<and>
          c1\<lparr>producer := fresh_mq\<rparr> = (px_ctor px ! 0)\<lparr>producer := fresh_mq\<rparr> \<and>
          mq_rep (producer c1) (map (stream_mk flow tv fd peer) fs) \<and> mq_blocksize (producer c1) = bp \<and>
          conn_ready s1 R flow fd r' \<and> sk_out s1 = sk_out s \<and> sk_peer s1 fd = Some peer) \<or>
         starved fl R flow fd peer (s, px) r chunks"
proof -
  let ?mk = "stream_mk flow tv fd peer"
  have m: "framing_ok fl" "\<And>xs. 0 \<le> fl xs" "reads_frames md fl" "routes_by md (\<lambda>_. 1)" using md by (simp_all add: sys_mods_def)
  obtain c where c: "px_ctor px = [c]" "px_pipe_ready c" "mq_rep (producer c) []" "mq_blocksize (producer c) = bp"
    using i by (cases "px_ctor px") (auto simp: sys_idle_def Let_def)
  have e: "conn_ready s R flow fd r" "sk_peer s fd = Some peer" "flow < 2 ^ 32" "px_tv px = tv" "time_ok (px_tv px)"
    using i by (auto simp: sys_idle_def Let_def)
  have p: "pipes_rep (px_ctor px) [[]]" using c by (simp add: pipes_rep_def px_pipe_ready_def lock_free_def)
  have room: "pipes_room (\<lambda>_. 1) (stream_mk flow (px_tv px) fd peer) (fst (frames fl (r @ chunk_data chunks))) [[]] (pipe_sizes (px_ctor px))"
    using fits fs c e(4) by (auto simp: pipes_room_def round_fits_def pipe_sizes_def list_all_iff)
  have o: "conn_open s R flow r" using e(1) by (simp add: conn_ready_def)
  from recv_loop_frames [OF m(1,2,3,4) e(3) o e(2) r ch p e(5) room, of buf]
  show ?thesis
  proof (elim disjE exE conjE)
    fix st' assume a: "recv_loop (px_ator_funcs md) fd flow (chunk_results chunks buf) (s, px) = Some st'"
      "stream_done fl (\<lambda>_. 1) R flow fd peer (s, px) [[]] (r @ chunk_data chunks) st'"
    then obtain cs l where l: "snd st' = px\<lparr>px_ctor := cs, px_stat := l\<rparr>" "pipes_rep cs [map ?mk fs]"
      "pipe_same (px_ctor px) cs" "conn_open (fst st') R flow r'" "same_env flow s (fst st')"
      using fs e(4) by (auto simp: stream_done_def)
    obtain c1 where c1: "cs = [c1]" using l(2) by (cases cs) (auto simp: pipes_rep_def)
    have "conn_ready (fst st') R flow fd r'" using l(4,5) e(1) by (simp add: conn_ready_def same_env_def)
    then show ?thesis using a(1) l c1 c(1,4) e(2)
      by (intro disjI1 exI [of _ "fst st'"] exI [of _ c1] exI [of _ l])
        (auto simp: pipes_rep_def pipe_sizes_def pipe_rest_def same_env_def prod_eq_iff)
  next
    fix k st' assume "k < length chunks"
      "stream_done fl (\<lambda>_. 1) R flow fd peer (s, px) [[]] (r @ chunk_data (take k chunks)) st'"
      "no_memory flow (chunks ! k) (fst st')"
    then show ?thesis unfolding starved_def by blast
  qed
qed

text \<open>The worker takes the requests from the pipe of the proxy and fills the other one.\<close>

lemma round_works:
  assumes wm: "answers wm ans" and w: "wk_ready w" "func_list (wk_ator w) CB_RECVDATA"
    and c: "mq_rep (producer c) ms" "mq_rep (comsumer c) []" "buffers_ok (buff_blob (wk_ator w)) (producer c)"
    and px: "px_ctor px = [c]" and ms: "list_all (request_ok ans) ms" "length ms \<le> n" "n < fuel"
    and room: "mq_bytes (map (reply ans no_time) ms) < mq_blocksize (comsumer c)"
  shows "\<exists>a l. wk_polls wm n fuel clk (sw, share_to_worker 0 px w) = Some (sw, w\<lparr>wk_ator := a, wk_stat := l\<rparr>) \<and>
     wk_ready (w\<lparr>wk_ator := a, wk_stat := l\<rparr>) \<and> commu_ok a [] \<and> mq_rep (producer a) (map (reply ans (wk_tv w)) ms) \<and>
     mq_blocksize (producer a) = mq_blocksize (comsumer c) \<and> mq_blocksize (comsumer a) = mq_blocksize (producer c)"
proof -
  let ?w = "share_to_worker 0 px w"
  have eq: "?w = w\<lparr>wk_ator := wk_ator ?w\<rparr>" by (simp add: share_to_worker_def Let_def)
  have ok: "wk_ready ?w" "commu_ok (wk_ator ?w) ms" "mq_rep (producer (wk_ator ?w)) []" "wk_tv ?w = wk_tv w"
    "mq_blocksize (producer (wk_ator ?w)) = mq_blocksize (comsumer c)"
    "mq_blocksize (comsumer (wk_ator ?w)) = mq_blocksize (producer c)"
    using w c px by (simp_all add: share_to_worker_def Let_def wk_ready_def commu_ok_def)
  have rm: "mq_bytes ([] @ map (reply ans (wk_tv ?w)) ms) < mq_blocksize (producer (wk_ator ?w))"
    using room ok(5) mq_bytes_reply [of ans no_time ms "wk_tv ?w"] by simp
  have lt: "length ms < fuel" using ms by simp
  obtain a l where "wk_polls wm n fuel clk (sw, ?w) = Some (sw, ?w\<lparr>wk_ator := a, wk_stat := l\<rparr>)"
    "wk_ready (?w\<lparr>wk_ator := a, wk_stat := l\<rparr>)" "commu_ok a []"
    "mq_rep (producer a) ([] @ map (reply ans (wk_tv ?w)) ms)"
    "mq_blocksize (producer a) = mq_blocksize (producer (wk_ator ?w))"
    "mq_blocksize (comsumer a) = mq_blocksize (comsumer (wk_ator ?w))"
    using wk_polls_answer [OF wm ok(1,2) lt ok(3) ms(1,2) rm, of clk sw] by (elim exE conjE)
  moreover have "?w\<lparr>wk_ator := a, wk_stat := l\<rparr> = w\<lparr>wk_ator := a, wk_stat := l\<rparr>" by (subst eq) simp
  ultimately show ?thesis using ok by (intro exI [of _ a] exI [of _ l]) simp
qed

text \<open>The proxy polls its pipe and sends the answers to the connection.\<close>

lemma round_sends:
  assumes s: "conn_ready s R flow fd r" "sk_peer s fd = Some peer" and c: "px_pipe_ready c" "commu_ok c []"
    and px: "px_ctor px = [c1]" "c1\<lparr>producer := fresh_mq\<rparr> = c\<lparr>producer := fresh_mq\<rparr>"
    and a: "commu_ok (wk_ator w) []" "mq_rep (producer (wk_ator w)) (map (reply ans tv) ms)"
      "mq_blocksize (producer (wk_ator w)) = mq_blocksize (comsumer c)"
    and ms: "list_all (\<lambda>m. m_flow m = flow \<and> ans (m_data m) \<noteq> []) ms" "length ms < fuel"
  shows "\<exists>s' c' l. px_poll_ctor fuel clk 0 (s, share_to_proxy 0 w px) = Some (True, s', px\<lparr>px_ctor := [c'], px_stat := l\<rparr>) \<and>
     sk_out s' = sk_out s @ map (\<lambda>m. (fd, ans (m_data m))) ms \<and> conn_ready s' R flow fd r \<and> sk_peer s' fd = Some peer \<and>
     px_pipe_ready c' \<and> commu_ok c' [] \<and> mq_rep (producer c') [] \<and> buffers_ok (buff_blob (wk_ator w)) (producer c') \<and>
     mq_blocksize (producer c') = mq_blocksize (comsumer (wk_ator w)) \<and> mq_blocksize (comsumer c') = mq_blocksize (comsumer c)"
proof -
  let ?px = "share_to_proxy 0 w px"
  let ?c = "px_ctor ?px ! 0"
  let ?rs = "map (reply ans tv) ms"
  have eq: "?px = px\<lparr>px_ctor := [?c]\<rparr>" and one: "px_ctor ?px = [?c]" "0 < length (px_ctor ?px)"
    using px(1) by (simp_all add: share_to_proxy_def Let_def)
  have same: "func_list c1 = func_list c" "locktype c1 = locktype c" "expiretime c1 = expiretime c" "comsumer c1 = comsumer c"
    "buff_blob c1 = buff_blob c"
    using arg_cong [OF px(2), of func_list] arg_cong [OF px(2), of locktype] arg_cong [OF px(2), of expiretime]
      arg_cong [OF px(2), of comsumer] arg_cong [OF px(2), of buff_blob] by simp_all
  have ok: "px_pipe_ready ?c" "commu_ok ?c ?rs" "mq_rep (producer ?c) []" "buffers_ok (buff_blob (wk_ator w)) (producer ?c)"
    "mq_blocksize (producer ?c) = mq_blocksize (comsumer (wk_ator w))" "mq_blocksize (comsumer ?c) = mq_blocksize (comsumer c)"
    using c a same px(1) buffers_ok_size [OF a(3)]
    by (simp_all add: share_to_proxy_def Let_def px_pipe_ready_def commu_ok_def)
  have lt: "length ?rs < fuel" using ms(2) by simp
  have rs: "list_all (\<lambda>m. m_flow m = flow \<and> m_type m = EXT_TYPE_NONE \<and> m_data m \<noteq> []) ?rs"
    using ms(1) by (simp add: list_all_iff reply_def answer_msg_def)
  obtain s' c' l where p: "px_poll_ctor fuel clk 0 (s, ?px) = Some (True, s', ?px\<lparr>px_ctor := (px_ctor ?px)[0 := c'], px_stat := l\<rparr>)"
    "sk_out s' = sk_out s @ map (\<lambda>m. (fd, m_data m)) ?rs" "conn_ready s' R flow fd r"
    "sk_peer s' = sk_peer s" "commu_ok c' []" "same_flows ?c c'"
    using px_poll_ctor_answers [OF s(1) one(2) ok(1,2) lt rs, of clk] by (elim exE conjE)
  have "?px\<lparr>px_ctor := (px_ctor ?px)[0 := c'], px_stat := l\<rparr> = px\<lparr>px_ctor := [c'], px_stat := l\<rparr>"
    by (simp add: share_to_proxy_def Let_def px(1))
  moreover have "px_pipe_ready c'" "producer c' = producer ?c" "mq_blocksize (comsumer c') = mq_blocksize (comsumer ?c)"
    using p(6) ok(1) by (simp_all add: same_flows_def px_pipe_ready_def)
  ultimately show ?thesis using p ok s(2)
    by (intro exI [of _ s'] exI [of _ c'] exI [of _ l]) (simp add: reply_def answer_msg_def o_def)
qed

lemma sys_round_answers:
  assumes md: "sys_mods md wm fl ans" and i: "sys_idle bp bc R fd flow peer tv r (pst, wst)"
    and r: "frames fl r = ([], r)" and ch: "\<forall>c\<in>set chunks. fst c \<noteq> []" "length (r @ chunk_data chunks) < 2 ^ 31"
    and fs: "frames fl (r @ chunk_data chunks) = (fs, r')" and fits: "round_fits bp bc (stream_mk flow tv fd peer) ans n fs"
    and n: "n < fuel"
  shows "(\<exists>st'. sys_round md wm fd flow n fuel clk (chunk_results chunks buf) (pst, wst) = Some st' \<and>
          sys_idle bp bc R fd flow peer tv r' st' \<and> sk_out (fst (fst st')) = sk_out (fst pst) @ map (\<lambda>f. (fd, ans f)) fs) \<or>
         starved fl R flow fd peer pst r chunks"
proof -
  obtain s px sw w where st: "pst = (s, px)" "wst = (sw, w)" by (cases pst, cases wst)
  note i = i [unfolded st]
  let ?mk = "stream_mk flow tv fd peer"
  let ?ms = "map ?mk fs"
  obtain c where c: "px_ctor px = [c]" "px_pipe_ready c" "mq_rep (producer c) []" "mq_blocksize (producer c) = bp"
    "commu_ok c []" "mq_blocksize (comsumer c) = bc" "buffers_ok (buff_blob (wk_ator w)) (producer c)"
    using i by (cases "px_ctor px") (auto simp: sys_idle_def Let_def)
  have w: "wk_ready w" "func_list (wk_ator w) CB_RECVDATA" "answers wm ans" "flow < 2 ^ 32" "px_tv px = tv" "time_ok tv"
    using i md by (auto simp: sys_idle_def sys_mods_def Let_def)
  show ?thesis
  proof (cases "starved fl R flow fd peer (s, px) r chunks")
    case True
    then show ?thesis using st by simp
  next
    case False
    then obtain s1 c1 l1 where p1: "recv_loop (px_ator_funcs md) fd flow (chunk_results chunks buf) (s, px) =
          Some (s1, px\<lparr>px_ctor := [c1], px_stat := l1\<rparr>)"
      and same: "c1\<lparr>producer := fresh_mq\<rparr> = c\<lparr>producer := fresh_mq\<rparr>"
      and rep: "mq_rep (producer c1) ?ms" "mq_blocksize (producer c1) = bp"
      and s1: "conn_ready s1 R flow fd r'" "sk_out s1 = sk_out s" "sk_peer s1 fd = Some peer"
      using round_receives [OF md i r ch fs fits, of buf] c(1) by auto
    let ?px1 = "px\<lparr>px_ctor := [c1], px_stat := l1\<rparr>"
    have com: "comsumer c1 = comsumer c" using arg_cong [OF same, of comsumer] by simp
    have f: "f \<noteq> [] \<and> answer_ok (ans f)" if "f \<in> set fs" for f
      using fits that frames_not_Nil [of f fl "r @ chunk_data chunks"] fs by (auto simp: round_fits_def list_all_iff)
    have ms: "list_all (request_ok ans) ?ms" "length ?ms \<le> n"
      "list_all (\<lambda>m. m_flow m = flow \<and> ans (m_data m) \<noteq> []) ?ms" "length ?ms < fuel"
      using f w(4) fits n by (auto simp: list_all_iff request_ok_def stream_mk_def frame_msg_def answer_ok_def round_fits_def)
    have com_ok: "mq_rep (comsumer c1) []" "buffers_ok (buff_blob (wk_ator w)) (producer c1)"
      "mq_bytes (map (reply ans no_time) ?ms) < mq_blocksize (comsumer c1)" "px_ctor ?px1 = [c1]"
      using c com rep(2) buffers_ok_size [of "producer c1" "producer c"] fits by (simp_all add: commu_ok_def round_fits_def)
    obtain a l where p2: "wk_polls wm n fuel clk (sw, share_to_worker 0 ?px1 w) = Some (sw, w\<lparr>wk_ator := a, wk_stat := l\<rparr>)"
      "wk_ready (w\<lparr>wk_ator := a, wk_stat := l\<rparr>)" "commu_ok a []" "mq_rep (producer a) (map (reply ans (wk_tv w)) ?ms)"
      "mq_blocksize (producer a) = mq_blocksize (comsumer c1)" "mq_blocksize (comsumer a) = mq_blocksize (producer c1)"
      using round_works [OF w(3,1,2) rep(1) com_ok(1,2,4) ms(1,2) n com_ok(3), of clk sw] by (elim exE conjE)
    let ?w1 = "w\<lparr>wk_ator := a, wk_stat := l\<rparr>"
    have a: "commu_ok (wk_ator ?w1) []" "mq_rep (producer (wk_ator ?w1)) (map (reply ans (wk_tv w)) ?ms)"
      "mq_blocksize (producer (wk_ator ?w1)) = mq_blocksize (comsumer c)" using p2 com by simp_all
    obtain s2 c2 l2 where p3: "px_poll_ctor fuel clk 0 (s1, share_to_proxy 0 ?w1 ?px1) = Some (True, s2, ?px1\<lparr>px_ctor := [c2], px_stat := l2\<rparr>)"
      "sk_out s2 = sk_out s1 @ map (\<lambda>m. (fd, ans (m_data m))) ?ms" "conn_ready s2 R flow fd r'" "sk_peer s2 fd = Some peer"
      "px_pipe_ready c2" "commu_ok c2 []" "mq_rep (producer c2) []" "buffers_ok (buff_blob (wk_ator ?w1)) (producer c2)"
      "mq_blocksize (producer c2) = mq_blocksize (comsumer (wk_ator ?w1))" "mq_blocksize (comsumer c2) = mq_blocksize (comsumer c)"
      using round_sends [OF s1(1,3) c(2,5) com_ok(4) same a ms(3,4), of clk] by (elim exE conjE)
    let ?px2 = "?px1\<lparr>px_ctor := [c2], px_stat := l2\<rparr>"
    let ?w2 = "share_to_worker 0 ?px2 ?w1"
    have "sys_round md wm fd flow n fuel clk (chunk_results chunks buf) (pst, wst) = Some ((s2, ?px2), sw, ?w2)"
      using p1 p2(1) p3(1) by (simp add: sys_round_def st)
    moreover have "wk_ready ?w2" "buffers_ok (buff_blob (wk_ator ?w2)) (producer c2)" "func_list (wk_ator ?w2) CB_RECVDATA"
      using p2(2,3) p3(8) by (simp_all add: share_to_worker_def Let_def wk_ready_def commu_ok_def)
    then have "sys_idle bp bc R fd flow peer tv r' ((s2, ?px2), sw, ?w2)"
      using p3(3-7,9,10) p2(6) rep(2) c(6) w(4-6) by (simp add: sys_idle_def Let_def)
    moreover have "sk_out s2 = sk_out s @ map (\<lambda>f. (fd, ans f)) fs"
      using p3(2) s1(2) by (simp add: stream_mk_def frame_msg_def o_def)
    ultimately show ?thesis using st by auto
  qed
qed

section \<open>Any number of rounds\<close>

text \<open>
  Each round with its chunks and what the buffer of the last receive call holds; every
  round must fit the pipes, not the whole stream.
\<close>

definition round_data :: "((bytes \<times> bytes) list \<times> bytes) list \<Rightarrow> bytes" where
  "round_data css = concat (map (chunk_data \<circ> fst) css)"

definition round_results :: "((bytes \<times> bytes) list \<times> bytes) list \<Rightarrow> (int \<times> int \<times> bytes) list list" where
  "round_results css = map (\<lambda>(chunks, buf). chunk_results chunks buf) css"

fun rounds_fit ::
  "nat \<Rightarrow> nat \<Rightarrow> (bytes \<Rightarrow> mq_msg) \<Rightarrow> (bytes \<Rightarrow> bytes) \<Rightarrow> nat \<Rightarrow> (bytes \<Rightarrow> int) \<Rightarrow> bytes \<Rightarrow>
   ((bytes \<times> bytes) list \<times> bytes) list \<Rightarrow> bool" where
  "rounds_fit bp bc mk ans n fl r [] = True"
| "rounds_fit bp bc mk ans n fl r ((chunks, buf) # css) =
     (let (fs, r') = frames fl (r @ chunk_data chunks)
      in list_all (\<lambda>c. fst c \<noteq> []) chunks \<and> length (r @ chunk_data chunks) < 2 ^ 31 \<and>
         round_fits bp bc mk ans n fs \<and> rounds_fit bp bc mk ans n fl r' css)"

text \<open>The rounds before the one in which memory runs out, if it does.\<close>

fun rounds_starved ::
  "'m px_module \<Rightarrow> 'u wk_module \<Rightarrow> (bytes \<Rightarrow> int) \<Rightarrow> (nat \<rightharpoonup> nat) \<Rightarrow> int \<Rightarrow> nat \<Rightarrow> nat \<times> nat \<Rightarrow> nat \<Rightarrow> nat \<Rightarrow>
   (nat \<Rightarrow> nat \<Rightarrow> timeval) \<Rightarrow> bytes \<Rightarrow> ((bytes \<times> bytes) list \<times> bytes) list \<Rightarrow> 'm px_state \<times> 'u wk_state \<Rightarrow> bool" where
  "rounds_starved md wm fl R fd flow peer n fuel clk r [] st = False"
| "rounds_starved md wm fl R fd flow peer n fuel clk r ((chunks, buf) # css) st =
     (starved fl R flow fd peer (fst st) r chunks \<or>
      (\<exists>st'. sys_round md wm fd flow n fuel clk (chunk_results chunks buf) st = Some st' \<and>
         rounds_starved md wm fl R fd flow peer n fuel clk (snd (frames fl (r @ chunk_data chunks))) css st'))"

lemma sys_rounds_answers:
  assumes md: "sys_mods md wm fl ans" and n: "n < fuel"
  shows "sys_idle bp bc R fd flow peer tv r st \<Longrightarrow> frames fl r = ([], r) \<Longrightarrow>
     rounds_fit bp bc (stream_mk flow tv fd peer) ans n fl r css \<Longrightarrow>
     (\<exists>st'. sys_rounds md wm fd flow n fuel clk (round_results css) st = Some st' \<and>
        sys_idle bp bc R fd flow peer tv (snd (frames fl (r @ round_data css))) st' \<and>
        sk_out (fst (fst st')) = sk_out (fst (fst st)) @ map (\<lambda>f. (fd, ans f)) (fst (frames fl (r @ round_data css)))) \<or>
     rounds_starved md wm fl R fd flow peer n fuel clk r css st"
proof (induction css arbitrary: r st)
  case Nil
  then show ?case by (simp add: round_results_def round_data_def)
next
  case (Cons x css)
  obtain chunks buf where x: "x = (chunks, buf)" by (cases x)
  obtain fs r' where fs: "frames fl (r @ chunk_data chunks) = (fs, r')" by (cases "frames fl (r @ chunk_data chunks)")
  have fr: "framing_ok fl" using md by (simp add: sys_mods_def)
  have split: "frames fl (r @ round_data (x # css)) = (fs @ fst (frames fl (r' @ round_data css)), snd (frames fl (r' @ round_data css)))"
    using frames_append [OF fr, of "r @ chunk_data chunks" "round_data css"] fs by (simp add: x round_data_def)
  have fit: "\<forall>c\<in>set chunks. fst c \<noteq> []" "length (r @ chunk_data chunks) < 2 ^ 31"
    "round_fits bp bc (stream_mk flow tv fd peer) ans n fs" "rounds_fit bp bc (stream_mk flow tv fd peer) ans n fl r' css"
    using Cons.prems(3) fs by (simp_all add: x list_all_iff)
  have rest: "frames fl r' = ([], r')"
    using frames_append [OF fr, of "r @ chunk_data chunks" "[]"] fs by (cases "frames fl r'") auto
  have i: "sys_idle bp bc R fd flow peer tv r (fst st, snd st)" using Cons.prems(1) by simp
  from sys_round_answers [OF md i Cons.prems(2) fit(1,2) fs fit(3) n, of clk buf]
  show ?case
  proof (elim disjE exE conjE)
    fix st1 assume one: "sys_round md wm fd flow n fuel clk (chunk_results chunks buf) (fst st, snd st) = Some st1"
      "sys_idle bp bc R fd flow peer tv r' st1" "sk_out (fst (fst st1)) = sk_out (fst (fst st)) @ map (\<lambda>f. (fd, ans f)) fs"
    then have "sys_round md wm fd flow n fuel clk (chunk_results chunks buf) st = Some st1" by simp
    then show ?thesis using Cons.IH [OF one(2) rest fit(4)] one(3) split fs
      by (auto simp: x round_results_def)
  next
    assume "starved fl R flow fd peer (fst st) r chunks"
    then show ?thesis by (simp add: x)
  qed
qed

end
