(* ===== verification/SystemTheorems.thy ===== *)
theory SystemTheorems
  imports Rounds
begin

text \<open>
  The properties of the proxy and a worker together, and of the framing of the proxy, with
  the default functions of the adapter as their instance.
\<close>

section \<open>The default functions\<close>

text \<open>
  The users' functions that benchadapter.cpp installs when the library exports none: framing
  by the length field, everything to the first group, no local handling, no events.
\<close>

definition default_module :: "unit px_module" where
  "default_module = \<lparr>
     md_input = (\<lambda>flow b (s, m). do {
       d \<leftarrow> memrd (b_data b) 0 (nat (b_len b)); n \<leftarrow> default_handle_input d; Some (n, s, m) }),
     md_route = None, md_local = None,
     md_queue_full = (\<lambda>group flow b (s, m). Some (default_handle_queue_full, s, m)),
     md_event_route = Some (\<lambda>et flow b (s, m). Some (default_handle_event_route, s, m)),
     md_event = (\<lambda>et. None)\<rparr>"

lemma default_module_reads: "reads_frames default_module default_frame"
proof -
  have "(do { d \<leftarrow> memrd (b_data b) 0 (nat (b_len b)); n \<leftarrow> default_handle_input d; Some (n, s, m) }) =
      Some (default_frame (take (nat (b_len b)) (b_data b)), s, m)" if "blob_ok b" for b and s :: sock_commu and m :: unit
  proof -
    have "memrd (b_data b) 0 (nat (b_len b)) = Some (take (nat (b_len b)) (b_data b))"
      "length (take (nat (b_len b)) (b_data b)) < 2 ^ 31" using that by (auto simp: blob_ok_def memrd_def)
    then show ?thesis by (simp add: default_handle_input_frame)
  qed
  then show ?thesis by (simp add: reads_frames_def default_module_def)
qed

lemma default_module_routes: "routes_by default_module (\<lambda>_. 1)"
  by (simp add: routes_by_def default_module_def)

lemma default_frame_nonneg: "0 \<le> default_frame xs"
  by (simp add: default_frame_def Let_def)

text \<open>A worker whose process function answers every request with the same bytes.\<close>

definition answering :: "bytes \<Rightarrow> unit wk_module" where
  "answering a = \<lparr>wm_input = (\<lambda>flow b st. Some (0, st)),
     wm_process = Some (\<lambda>src flow b st. do { (_, st') \<leftarrow> ator_send flow (answer_blob a) st; Some (0, st') }),
     wm_event = (\<lambda>et. None), wm_back_event = (\<lambda>et. None)\<rparr>"

lemma default_sys_mods: "sys_mods default_module (answering a) default_frame (\<lambda>_. a)"
  by (simp add: sys_mods_def default_framing_ok default_frame_nonneg default_module_reads
      default_module_routes [simplified]
      answers_def answering_def)

text \<open>A small system with one client, for the witnesses.\<close>

definition small_conf :: shm_conf where
  "small_conf = \<lparr>shmsize_producer = 208, shmsize_comsumer = 208, cf_locktype = 0, cf_expiretime = 0,
     cf_maxpkg = 0, cf_msg_timeout = 0\<rparr>"

definition small_pipe :: "(cb_type \<Rightarrow> bool) \<Rightarrow> shm_commu" where
  "small_pipe cbs = idle_commu small_conf (replicate 208 0) (replicate 208 0) (\<lambda>n. replicate n 0) 0 cbs"

definition small_conns :: conn_set where
  "small_conns = \<lparr>ccs = [conn_new, conn_new\<lparr>cc_flow := 1, cc_fd := 5, cc_type := SOCK_TYPE_TCP\<rparr>], maxconn = 2, curconn = 1\<rparr>"

definition small_sock :: sock_commu where
  "small_sock = \<lparr>sk_binds = [], sk_maxconn = 2, sk_expiretime = 0, sk_check_interval = 0, sk_lastcheck = 0, sk_maxbindfd = 3,
     sk_flow = 2, sk_blob = answer_blob [], sk_sbuf = [],
     sk_extinfo = \<lparr>x_fd = 0, x_type = 0, x_localip = 0, x_localport = 0, x_remoteip = 0, x_remoteport = 0\<rparr>,
     sk_pool = mempool_new (\<lambda>p n. replicate n 7), sk_conns = small_conns, sk_epoll = Map.empty, sk_now = 0,
     sk_sends = (\<lambda>i n. (int n, 0)), sk_nsend = 0, sk_peer = [5 \<mapsto> (1, 80)], sk_out = [], sk_closed = []\<rparr>"

definition small_proxy :: "unit proxy" where
  "small_proxy = \<lparr>px_ctor = [small_pipe px_ctor_funcs], px_iplimit = 0, px_iptable = [], px_stat = [], px_tv = no_time, px_mod = ()\<rparr>"

definition small_worker :: "unit worker" where
  "small_worker = \<lparr>wk_ator = small_pipe wk_ator_cbs, wk_has_ctor = False, wk_mng = [], wk_routes = None, wk_stat = [],
     wk_tv = no_time, wk_lock = 0, wk_delay = 0, wk_socket = (0, 0), wk_mod = ()\<rparr>"

definition small_packet :: bytes where
  "small_packet = [0, 0, 0, 0, 0, 0, 30] @ replicate 23 1"

lemma small_idle:
  "sys_idle 200 200 Map.empty 5 1 (1, 80) no_time [] ((small_sock, small_proxy), small_sock, small_worker)"
proof -
  have c: "commu_ok (small_pipe cbs) []" "mq_rep (producer (small_pipe cbs)) []" if "cbs CB_RECVDATA" for cbs
    using that unfolding small_pipe_def by (auto intro!: idle_commu_ok)
  have "unread (sk_pool small_sock) Map.empty small_conns 1 []"
    using cache_rep_new [OF mempool_new_ok] by (simp add: unread_def getcc_def conn_new_def small_sock_def small_conns_def)
  moreover have "conn_rest small_conns 1 = Some (SOCK_TYPE_TCP, 5, raw_cache_new)"
    by (simp add: conn_rest_def small_conns_def getcc_def conn_new_def)
  ultimately have "conn_ready small_sock Map.empty 1 5 []"
    by (simp add: conn_ready_def conn_open_def conn_type_def small_sock_def)
  moreover have "buffers_ok (buff_blob (small_pipe wk_ator_cbs)) (producer (small_pipe px_ctor_funcs))"
    by (simp add: buffers_ok_def small_pipe_def idle_commu_def)
  moreover have "px_pipe_ready (small_pipe px_ctor_funcs)"
    by (simp add: px_pipe_ready_def small_pipe_def idle_commu_def small_conf_def)
  moreover have "wk_ready small_worker"
    by (simp add: wk_ready_def small_worker_def small_pipe_def idle_commu_def small_conf_def time_ok_def no_time_def)
  moreover have "mq_blocksize (producer (small_pipe px_ctor_funcs)) = 200" "mq_blocksize (comsumer (small_pipe px_ctor_funcs)) = 200"
    "func_list (small_pipe wk_ator_cbs) = wk_ator_cbs"
    by (simp_all add: small_pipe_def idle_commu_def)
  ultimately show ?thesis using c [of px_ctor_funcs]
    by (simp add: sys_idle_def Let_def small_proxy_def small_worker_def px_ctor_funcs_def wk_ator_cbs_def time_ok_def no_time_def)
      (simp add: small_sock_def)
qed

lemma small_packet_frames:
  "frames default_frame small_packet = ([small_packet], [])" "frames default_frame (take 9 small_packet) = ([], take 9 small_packet)"
proof -
  have "framed small_packet" by (simp add: framed_def small_packet_def be_val_def slice_def)
  then show "frames default_frame small_packet = ([small_packet], [])" using frames_packets [of "[small_packet]"] by simp
  show "frames default_frame (take 9 small_packet) = ([], take 9 small_packet)"
    by (rule frames_stop) (simp add: default_frame_def small_packet_def)
qed

section \<open>Requests are answered\<close>



section \<open>Framing\<close>



end
