(* ===== verification/ServerTheorems.thy ===== *)
theory ServerTheorems
  imports SystemTheorems PacketTheorems
begin

text \<open>
  Properties of the parts of the server: packets on a byte stream, the table of the
  connections of a worker to the servers behind it, and the paths on which the callbacks of
  proxy, worker and socket component leave what their comments promise.
\<close>

section \<open>Packets on a stream\<close>

lemma hdr_framed: "30 + length w < 2 ^ 32 \<Longrightarrow> framed (hdr h (30 + length w) r @ w @ [EOT])"
  by (simp add: framed_def hdr_def slice_def codec_simps)

lemma GetPack_framed:
  assumes "enc_type h = ENC_TYPE_NONE \<or> enc_type h = ENC_TYPE_TEA" "30 + length oss < 2 ^ 32" "length key = 16"
    and "GetPack_key stk oss h key = Some d"
  shows "framed d"
proof -
  obtain w where w: "length w = length oss" "GetPack_key stk oss h key = Some (hdr h (30 + length oss) (rev_field h) @ w @ [EOT])"
  proof (cases "enc_type h = ENC_TYPE_TEA")
    case True
    then show ?thesis using that GetPack_key_hdr [OF assms(2,3) True, of stk] by auto
  next
    case False
    then show ?thesis using that [of oss] GetPack_hdr [OF assms(2), of stk h] by (simp add: GetPack_key_def)
  qed
  then show ?thesis using assms(2,4) hdr_framed [of w h "rev_field h"] by simp
qed



section \<open>The table of connections\<close>

text \<open>
  C22: The table of a worker's connections is the map from type of service and node to flow.
  On a well-formed table \<open>AddConn\<close> sets the entry of its service and node; \<open>RMConn\<close> removes
  one entry with the flow if there is any, and otherwise reports -1 and changes nothing;
  \<open>GetFlow\<close> looks up, 0 meaning no entry; \<open>GetServerTypeByFlow\<close> finds a service with an entry
  for the flow, or 0.  Both updates keep the table well formed.
\<close>

theorem connection_table_is_map:
  assumes "mng_ok g"
  shows "(\<exists>g'. AddConn st n flow g = (0, g') \<and> mng_ok g' \<and> flow_map g' = (flow_map g)((st, n) \<mapsto> flow)) \<and>
     (\<exists>rc g'. RMConn flow g = (rc, g') \<and> mng_ok g' \<and>
        (if flow \<in> ran (flow_map g)
         then rc = 0 \<and> (\<exists>k. flow_map g k = Some flow \<and> flow_map g' = (flow_map g)(k := None))
         else rc = -1 \<and> g' = g)) \<and>
     GetFlow st n g = (case flow_map g (st, n) of None \<Rightarrow> 0 | Some f \<Rightarrow> f) \<and>
     (if flow \<in> ran (flow_map g) then \<exists>n. flow_map g (GetServerTypeByFlow flow g, n) = Some flow
      else GetServerTypeByFlow flow g = 0)"
proof -
  obtain rc g' where r: "RMConn flow g = (rc, g')" "mng_ok g'"
    "if rc = 0 then \<exists>k. flow_map g k = Some flow \<and> flow_map g' = (flow_map g)(k := None)
      else rc = -1 \<and> flow \<notin> ran (flow_map g) \<and> g' = g"
    using RMConn_map [OF assms, of flow] by blast
  then have "if flow \<in> ran (flow_map g)
         then rc = 0 \<and> (\<exists>k. flow_map g k = Some flow \<and> flow_map g' = (flow_map g)(k := None))
         else rc = -1 \<and> g' = g"
    by (cases "rc = 0") (auto simp: ran_def)
  then show ?thesis
    using r AddConn_map [OF assms, of st n flow] GetFlow_map [of st n g] GetServerTypeByFlow_map [OF assms, of flow] by blast
qed

theorem connection_table_is_map_witness:
  "let g = [(1, Some [(2, 7)]), (3, None)] :: commu_mng
   in (\<exists>g'. AddConn 3 4 9 g = (0, g') \<and> mng_ok g' \<and> flow_map g' = (flow_map g)((3, 4) \<mapsto> 9)) \<and>
     (\<exists>rc g'. RMConn 9 g = (rc, g') \<and> mng_ok g' \<and>
        (if 9 \<in> ran (flow_map g) then rc = 0 \<and> (\<exists>k. flow_map g k = Some 9 \<and> flow_map g' = (flow_map g)(k := None))
         else rc = -1 \<and> g' = g)) \<and>
     GetFlow 3 4 g = (case flow_map g (3, 4) of None \<Rightarrow> 0 | Some f \<Rightarrow> f) \<and>
     (if 9 \<in> ran (flow_map g) then \<exists>n. flow_map g (GetServerTypeByFlow 9 g, n) = Some 9 else GetServerTypeByFlow 9 g = 0)"
  unfolding Let_def by (rule connection_table_is_map) (simp add: mng_ok_def smap_ok_def)

section \<open>The worker\<close>

text \<open>
  The event function for a closed connection to a server is never called: the callback
  takes the flow off the table first and looks its service up afterwards.  Whatever function
  is registered for \<open>EVENT\_DISCONNECT\<close>, if the flow has at most one entry, the callback only
  removes the entry and clears the extended data of the blob.
\<close>

theorem ctor_disconn_event_lost:
  assumes "mng_ok (wk_mng w)" and "\<forall>k k'. flow_map (wk_mng w) k = Some flow \<longrightarrow> flow_map (wk_mng w) k' = Some flow \<longrightarrow> k = k'"
  shows "ctor_disconn wm flow (s, w) =
     Some (0, s\<lparr>sk_blob := plain_blob (sk_blob s)\<rparr>, w\<lparr>wk_mng := snd (RMConn flow (wk_mng w))\<rparr>)"
proof -
  obtain rc g' where r: "RMConn flow (wk_mng w) = (rc, g')" "mng_ok g'"
    "if rc = 0 then \<exists>k. flow_map (wk_mng w) k = Some flow \<and> flow_map g' = (flow_map (wk_mng w))(k := None)
      else rc = -1 \<and> flow \<notin> ran (flow_map (wk_mng w)) \<and> g' = wk_mng w"
    using RMConn_map [OF assms(1), of flow] by blast
  have "flow \<notin> ran (flow_map g')"
  proof (cases "rc = 0")
    case True
    then obtain k where k: "flow_map (wk_mng w) k = Some flow" "flow_map g' = (flow_map (wk_mng w))(k := None)"
      using r(3) by auto
    have "flow_map g' k' \<noteq> Some flow" for k'
    proof
      assume a: "flow_map g' k' = Some flow"
      then have "k' \<noteq> k" "flow_map (wk_mng w) k' = Some flow" using k(2) by (auto split: if_splits)
      then show False using k(1) assms(2) by blast
    qed
    then show ?thesis by (simp add: ran_def)
  next
    case False
    then show ?thesis using r(3) by auto
  qed
  then have "GetServerTypeByFlow flow g' = 0" using GetServerTypeByFlow_map [OF r(2), of flow] by simp
  then show ?thesis using r(1)
    by (cases "wm_back_event wm EVENT_DISCONNECT") (simp_all add: ctor_disconn_def ctor_event_def Let_def)
qed

theorem ctor_disconn_event_lost_witness:
  "let w = small_worker\<lparr>wk_mng := [(1, Some [(2, 7)])]\<rparr>;
       wm = (answering [])\<lparr>wm_back_event := (\<lambda>et. Some (\<lambda>ty flow b st. None))\<rparr>
   in ctor_disconn wm 7 (small_sock, w) =
        Some (0, small_sock\<lparr>sk_blob := plain_blob (sk_blob small_sock)\<rparr>, w\<lparr>wk_mng := snd (RMConn 7 (wk_mng w))\<rparr>)"
  unfolding Let_def by (rule ctor_disconn_event_lost) (auto simp: mng_ok_def flow_map_def split: if_splits)

text \<open>
  \<open>spp\_sendto\<close> reports success when nothing could be sent: if the node is known but not
  connected and the connection cannot be made, the result is the 0 that \<open>GetRouteTable\<close>
  left in \<open>ret\<close>, with flow 0.
\<close>

theorem spp_sendto_unconnected_reports_0:
  assumes "wk_has_ctor w" and "wk_routes w = Some conf" and "GetRouteTable conf serv_type = (0, Some tbl)"
    and "route_node_key tbl route_key = Some key" and "GetNodeID tbl key = node_id" and "node_id \<noteq> 0"
    and "GetFlow serv_type node_id (wk_mng w) = 0" and "table_GetNodeInfo tbl node_id = (rc0, Some node)"
    and "wk_connect wm node (s, w) = Some (rc, st1)" and "rc \<noteq> 0"
  shows "spp_sendto wm to_flow serv_type route_key b (s, w) = Some (0, 0, st1)"
  using assms by (simp add: spp_sendto_def reconnect_send_def Let_def)

definition lone_node :: node_info where
  "lone_node = \<lparr>n_serv_type = 1, n_node_id = 2, n_begin = 0, n_end = 9,
     n_bind = \<lparr>sb_type = 0, sb_ip = 0, sb_port = 0, sb_path = []\<rparr>\<rparr>"

definition lone_table :: route_table where
  "lone_table = \<lparr>rt_serv_type = 1, rt_version = [], rt_route = ''%'', rt_route_val = 10, rt_nodes = [(2, lone_node)]\<rparr>"

definition lone_config :: route_config where
  "lone_config = \<lparr>rc_max_conn = 2, rc_maxpkg = 100, rc_expiretime = 1, rc_check_expire_interval = 1, rc_tables = [(1, lone_table)]\<rparr>"

theorem spp_sendto_unconnected_reports_0_witness:
  "let w = small_worker\<lparr>wk_has_ctor := True, wk_routes := Some lone_config\<rparr>
   in spp_sendto (answering []) 5 1 14 (answer_blob [1]) (small_sock, w) = Some (0, 0, (small_sock, w))"
  unfolding Let_def
  by (rule spp_sendto_unconnected_reports_0 [of _ lone_config _ lone_table _ 4 2 0 lone_node _ _ "-1"])
    (simp_all add: small_worker_def lone_config_def lone_table_def lone_node_def GetRouteTable_def route_node_key_def
      u32_of_int_def GetNodeID_def GetFlow_def table_GetNodeInfo_def wk_connect_def sock_connect_def)

section \<open>The socket component\<close>

text \<open>A callback that takes every connection and notes its flow.\<close>

definition note_flow :: "nat list sock_funcs" where
  "note_flow ty = (if ty = CB_CONNECTED then Some (\<lambda>flow (s, w). Some (0, s, w @ [flow])) else None)"

lemma note_flow_simps [simp]:
  "note_flow CB_CONNECTED = Some (\<lambda>flow (s, w). Some (0, s, w @ [flow]))" "note_flow CB_OVERLOAD = None"
  by (simp_all add: note_flow_def)

text \<open>
  The flow that \<open>CB\_CONNECTED\<close> announces need not be the flow of the connection.  When the
  slot of the next flow number is in use and another slot is free, the callback is called
  with the next number, but the connection gets another one, under which the descriptor is
  watched and all later callbacks come; the announced number is not its flow.
\<close>

theorem accept_announces_other_flow:
  assumes "conns_ok (sk_conns s)" and "sk_flow s + 1 + maxconn (sk_conns s) < 2 ^ 32" and "0 < clifd" and "0 \<le> add_rc"
    and "cc_flow (ccs (sk_conns s) ! ((sk_flow s + 1) mod maxconn (sk_conns s))) \<noteq> 0"
    and "\<exists>cc\<in>set (ccs (sk_conns s)). cc_flow cc = 0"
  shows "\<exists>s' f. handle_accept note_flow fd [(clifd, 0)] 0 add_rc (s, []) = Some (s', [sk_flow s + 1]) \<and>
     f \<noteq> sk_flow s + 1 \<and> conn_fd f (sk_conns s') = Some clifd \<and> sk_epoll s' clifd = Some (f, EV_IN) \<and>
     conn_of (sk_conns s') (sk_flow s + 1) = conn_of (sk_conns s) (sk_flow s + 1)"
proof -
  let ?cs = "sk_conns s" and ?f = "sk_flow s + 1"
  have nf: "next_flow s = s\<lparr>sk_flow := ?f\<rparr>" using assms(2) by (simp add: next_flow_def)
  let ?ty = "sb_type (sk_binds s ! nat fd)"
  have n: "0 < ?f" "?f + maxconn ?cs < 2 ^ 32" "0 < maxconn ?cs" using assms(1,2) by (simp_all add: conns_ok_def)
  obtain f cs' where a: "conn_addconn (sk_now s) ?f clifd ?ty ?cs = Some (0, f, cs')" "conn_fd f cs' = Some clifd"
    "\<forall>g. g \<noteq> f \<longrightarrow> conn_of cs' g = conn_of ?cs g"
    using addconn_spec [OF assms(1) n(1,2), of "sk_now s" clifd ?ty] assms(6) by auto
  have "\<exists>f b. find_slot ?cs ?f (?f + maxconn ?cs) = Some (f, b) \<and> ?f < f"
    using find_slot_spec [OF assms(1), of ?f "?f + maxconn ?cs"] n by auto
  then have f: "f \<noteq> ?f"
    using a(1) assms(5) n(2) by (auto simp: conn_addconn_def getcc_ok [OF assms(1)] split: if_splits)
  define t where "t = connected_info clifd (sk_binds s ! nat fd) (s\<lparr>sk_flow := Suc (sk_flow s)\<rparr>)"
  have t: "sk_conns t = ?cs" "sk_flow t = ?f" "sk_now t = sk_now s"
    by (simp_all add: t_def connected_info_def set_blob_def set_ext_def Let_def)
  let ?s' = "t\<lparr>sk_flow := f, sk_conns := cs', sk_epoll := (sk_epoll t)(clifd \<mapsto> (f, EV_IN))\<rparr>"
  have "handle_accept note_flow fd [(clifd, 0)] 0 add_rc (s, []) = Some (?s', [?f])"
    using assms(3,4) a(1) t
    by (simp add: handle_accept_def nf t_def [symmetric] call_back_def sock_addconn_def Let_def)
  then show ?thesis using f a(2,3) by (intro exI [of _ ?s'] exI [of _ f]) auto
qed

definition busy_conns :: conn_set where
  "busy_conns = \<lparr>ccs = [conn_new, conn_new\<lparr>cc_flow := 1, cc_fd := 5, cc_type := SOCK_TYPE_TCP\<rparr>], maxconn = 2, curconn = 1\<rparr>"

theorem accept_announces_other_flow_witness:
  "let s = small_sock\<lparr>sk_binds := replicate 4 no_bind, sk_conns := busy_conns, sk_flow := 2\<rparr>
   in \<exists>s' f. handle_accept note_flow 3 [(9, 0)] 0 0 (s, []) = Some (s', [sk_flow s + 1]) \<and>
     f \<noteq> sk_flow s + 1 \<and> conn_fd f (sk_conns s') = Some 9 \<and> sk_epoll s' 9 = Some (f, EV_IN) \<and>
     conn_of (sk_conns s') (sk_flow s + 1) = conn_of (sk_conns s) (sk_flow s + 1)"
  unfolding Let_def
  by (rule accept_announces_other_flow) (auto simp: conns_ok_def busy_conns_def conn_new_def less_2_cases_iff)

section \<open>The proxy\<close>

text \<open>
  The default answer to a full pipe loses the request.  When the first packet in the blob
  does not fit the pipe, the receive callback, with the default functions, reports its bytes
  as processed, so that the connection drops them, and the pipe is as before: the packet is
  neither kept nor delivered nor is the connection closed.
\<close>

theorem full_pipe_loses_request:
  assumes "pipes_rep (px_ctor px) mss" and "mss \<noteq> []" and "blob_ok (sk_blob s)" and "blob_bytes (sk_blob s) = f @ xs"
    and "default_frame (f @ xs) = int (length f)" and "f \<noteq> []" and "length f \<le> 2 ^ 24" and "flow < 2 ^ 32" and "time_ok (px_tv px)"
    and "pipe_sizes (px_ctor px) ! 0 \<le> mq_bytes (mss ! 0) + msg_total (blob_mk flow (px_tv px) (sk_blob s) f)"
  shows "\<exists>cs l. px_ator_recvdata default_module flow (s, px) =
       Some (int (length f), s, px\<lparr>px_ctor := cs, px_stat := l\<rparr>) \<and> pipes_rep cs mss"
proof -
  let ?b = "sk_blob s"
  let ?px = "px\<lparr>px_stat := px_stat px @ [(''proxy_ator_recv_num'', 1)]\<rparr>"
  have len: "int (length (f @ xs)) = b_len ?b" using assms(3,4) length_blob_bytes [of ?b] by (simp add: blob_ok_def)
  have n: "0 < int (length f)" "int (length f) \<le> b_len ?b" using assms(6) len by simp_all
  have input: "run_mod (md_input default_module) flow ?b (s, px) = Some (int (length f), s, px)"
    using default_module_reads assms(3,4,5) by (simp add: run_mod_def reads_frames_def blob_bytes_def)
  let ?sb = "?b\<lparr>b_len := int (length f)\<rparr>"
  have f: "take (length f) (b_data ?b) = f"
  proof -
    have "take (length f) (blob_bytes ?b) = f" using assms(4) by simp
    moreover have "length f \<le> nat (b_len ?b)" using n by linarith
    ultimately show ?thesis by (simp add: blob_bytes_def min_absorb1)
  qed
  have msg: "blob_msg ?sb flow (b_ext_type ?sb) (px_tv ?px) = blob_mk flow (px_tv px) ?b f"
    using f by (simp add: blob_msg_def blob_mk_def frame_msg_def)
  have ok: "blob_ok ?sb" using blob_ok_front [OF assms(3) _ n(2)] by simp
  have mok: "msg_ok (blob_msg ?sb flow (b_ext_type ?sb) (px_tv ?px))"
    unfolding msg using assms(3,6,7,8,9) by (auto simp: blob_mk_def frame_msg_def msg_ok_def blob_ok_def)
  have p: "pipes_rep (px_ctor ?px) mss" "0 < length mss" using assms(1,2) by simp_all
  obtain cs where cs: "ctor_send 0 flow ?sb (s, ?px) = Some (COMMU_ERR_MQFULL, s, ?px\<lparr>px_ctor := cs\<rparr>)" "pipes_rep cs mss"
    using ctor_send_rep [OF p ok mok, of s] assms(10) unfolding msg by auto
  have len1: "length (px_ctor px) = length mss" using assms(1) by (simp add: pipes_rep_def)
  have pk: "px_packet default_module flow (int (length f)) (s, ?px) = Some (False, s, ?px\<lparr>px_ctor := cs\<rparr>)"
    using cs(1) by (simp add: px_packet_def px_forward_def default_module_def run_mod_def default_handle_queue_full_def Let_def)
  have "px_recv_loop (Suc (nat (b_len ?b))) default_module flow (b_len ?b) 0 (-1) (s, px) =
      Some (int (length f), int (length f), s, ?px\<lparr>px_ctor := cs\<rparr>)"
    using input n pk less_le_trans [OF n] by simp
  then show ?thesis using cs(2)
    by (intro exI [of _ cs] exI [of _ "px_stat ?px"]) (simp add: px_ator_recvdata_def)
qed

theorem full_pipe_loses_request_witness:
  "let s = small_sock\<lparr>sk_blob := \<lparr>b_len = 30, b_data = small_packet, b_ext_type = EXT_TYPE_NONE, b_ext_len = 0, b_extdata = []\<rparr>\<rparr>;
       q = \<lparr>mq_head = 0, mq_tail = 0, mq_block = replicate 40 0, mq_blocksize = 40, mq_msg_timeout = 0\<rparr>;
       px = small_proxy\<lparr>px_ctor := [(small_pipe px_ctor_funcs)\<lparr>producer := q\<rparr>]\<rparr>
   in \<exists>cs l. px_ator_recvdata default_module 1 (s, px) = Some (int (length small_packet), s, px\<lparr>px_ctor := cs, px_stat := l\<rparr>) \<and>
        pipes_rep cs [[]]"
proof -
  have "mq_rep \<lparr>mq_head = 0, mq_tail = 0, mq_block = replicate 40 0, mq_blocksize = 40, mq_msg_timeout = 0\<rparr> []"
    by (rule mq_rep_fresh) simp_all
  then have "pipes_rep [(small_pipe px_ctor_funcs)\<lparr>producer := \<lparr>mq_head = 0, mq_tail = 0, mq_block = replicate 40 0,
      mq_blocksize = 40, mq_msg_timeout = 0\<rparr>\<rparr>] [[]]"
    by (simp add: pipes_rep_def small_pipe_def idle_commu_def small_conf_def lock_free_def)
  moreover have p: "length small_packet = 30" "small_packet \<noteq> []" by (simp_all add: small_packet_def)
  moreover have "default_frame small_packet = 30"
    using default_frame_packet [of small_packet "[]"] p(1) by (simp add: framed_def) (simp add: small_packet_def be_val_def slice_def)
  ultimately show ?thesis unfolding Let_def
    by (intro full_pipe_loses_request [where xs = "[]"])
      (simp_all add: small_proxy_def blob_ok_def blob_bytes_def pipe_sizes_def blob_mk_def frame_msg_def mq_bytes_def msg_total_def
        time_ok_def no_time_def)
qed

end
