(* ===== verification/LinkedList.thy ===== *)
theory LinkedList
  imports Main
begin

text \<open>
  Singly linked lists as arrays store them: elements are indices, \<open>-1\<close> is the null link,
  \<open>nxt\<close> is the link field as a function of the index.
\<close>

definition first_of :: "int list \<Rightarrow> int \<Rightarrow> int" where
  "first_of xs n = (case xs of [] \<Rightarrow> n | x # _ \<Rightarrow> x)"

lemma first_of_simps [simp]: "first_of [] n = n" "first_of (x # xs) n = x"
  by (simp_all add: first_of_def)

fun sseg :: "(int \<Rightarrow> int) \<Rightarrow> int list \<Rightarrow> bool" where
  "sseg nxt [] = True"
| "sseg nxt (x # xs) = (x \<noteq> -1 \<and> nxt x = first_of xs (-1) \<and> sseg nxt xs)"

lemma sseg_cong: "(\<And>x. x \<in> set xs \<Longrightarrow> nxt x = nxt' x) \<Longrightarrow> sseg nxt xs = sseg nxt' xs"
  by (induction xs) auto

lemma sseg_not_null: "sseg nxt xs \<Longrightarrow> -1 \<notin> set xs"
  by (induction xs) auto

lemma first_of_null: "-1 \<notin> set xs \<Longrightarrow> first_of xs (-1) = -1 \<longleftrightarrow> xs = []"
  by (cases xs) auto

lemma sseg_append: "sseg nxt (xs @ ys) \<Longrightarrow> sseg nxt ys"
  by (induction xs) auto

lemma sseg_push: "sseg nxt xs \<Longrightarrow> x \<noteq> -1 \<Longrightarrow> nxt x = first_of xs (-1) \<Longrightarrow> sseg nxt (x # xs)"
  by simp

section \<open>Doubly linked lists\<close>

text \<open>The list \<open>xs\<close> whose first element links back to \<open>p\<close>.\<close>

fun dseg :: "(int \<Rightarrow> int) \<Rightarrow> (int \<Rightarrow> int) \<Rightarrow> int \<Rightarrow> int list \<Rightarrow> bool" where
  "dseg nxt prv p [] = True"
| "dseg nxt prv p (x # xs) = (x \<noteq> -1 \<and> prv x = p \<and> nxt x = first_of xs (-1) \<and> dseg nxt prv x xs)"

definition last_of :: "int list \<Rightarrow> int \<Rightarrow> int" where
  "last_of xs p = (if xs = [] then p else last xs)"

lemma last_of_simps [simp]: "last_of [] p = p" "last_of (x # xs) p = last_of xs x" "last_of (xs @ [x]) p = x"
  by (simp_all add: last_of_def)

lemma last_of_in: "last_of xs p = p \<or> last_of xs p \<in> set xs"
  by (simp add: last_of_def)

lemma last_of_null: "-1 \<notin> set xs \<Longrightarrow> last_of xs (-1) = -1 \<longleftrightarrow> xs = []"
  unfolding last_of_def by (metis last_in_set)

lemma first_of_append: "first_of (xs @ ys) n = first_of xs (first_of ys n)"
  by (cases xs) simp_all

lemma dseg_cong:
  "(\<And>x. x \<in> set xs \<Longrightarrow> nxt x = nxt' x) \<Longrightarrow> (\<And>x. x \<in> set xs \<Longrightarrow> prv x = prv' x) \<Longrightarrow>
   dseg nxt prv p xs = dseg nxt' prv' p xs"
  by (induction xs arbitrary: p) auto

lemma dseg_sseg: "dseg nxt prv p xs \<Longrightarrow> sseg nxt xs"
  by (induction xs arbitrary: p) auto

lemma dseg_not_null: "dseg nxt prv p xs \<Longrightarrow> -1 \<notin> set xs"
  using dseg_sseg sseg_not_null by blast

lemma dseg_at:
  "dseg nxt prv p (xs @ x # ys) \<Longrightarrow> prv x = last_of xs p \<and> nxt x = first_of ys (-1)"
  by (induction xs arbitrary: p) auto

lemma dseg_push:
  assumes "dseg nxt prv (-1) xs" "x \<notin> set xs" "x \<noteq> -1" "nxt' x = first_of xs (-1)" "prv' x = -1"
    and "\<And>y. y \<in> set xs \<Longrightarrow> nxt' y = nxt y" "\<And>y. y \<in> set xs \<Longrightarrow> prv' y = (if y = first_of xs (-1) then x else prv y)"
    and "distinct xs"
  shows "dseg nxt' prv' (-1) (x # xs)"
proof (cases xs)
  case (Cons z zs)
  then have "dseg nxt' prv' z zs = dseg nxt prv z zs" using assms by (intro dseg_cong) auto
  then show ?thesis using assms Cons by auto
qed (use assms in simp)

lemma dseg_delete:
  assumes "dseg nxt prv p (xs @ x # ys)" "distinct (xs @ x # ys)" "p \<notin> set (xs @ x # ys)"
    and "\<And>y. y \<in> set (xs @ ys) \<Longrightarrow> nxt' y = (if y = prv x then nxt x else nxt y)"
    and "\<And>y. y \<in> set (xs @ ys) \<Longrightarrow> prv' y = (if y = nxt x then prv x else prv y)"
  shows "dseg nxt' prv' p (xs @ ys)"
  using assms
proof (induction xs arbitrary: p)
  case Nil
  show ?case
  proof (cases ys)
    case (Cons z zs)
    then have "dseg nxt' prv' z zs = dseg nxt prv z zs" using Nil by (intro dseg_cong) auto
    then show ?thesis using Nil Cons by auto
  qed simp
next
  case (Cons a xs)
  have at: "prv x = last_of xs a" "nxt x = first_of ys (-1)" using dseg_at [of nxt prv a xs x ys] Cons.prems(1) by simp_all
  have n: "-1 \<notin> set (a # xs @ x # ys)" using dseg_not_null [OF Cons.prems(1)] by simp
  have a: "a \<noteq> nxt x" using Cons.prems(2) n at(2) by (cases ys) auto
  have "nxt' a = first_of (xs @ ys) (-1)"
  proof (cases "xs = []")
    case True
    then show ?thesis using Cons.prems(4) [of a] at by simp
  next
    case False
    then have "a \<noteq> prv x" using Cons.prems(2) at(1) by (auto simp: last_of_def)
    then show ?thesis using Cons.prems(1,4) False by (cases xs) auto
  qed
  moreover have "dseg nxt' prv' a (xs @ ys)" using Cons.prems by (intro Cons.IH) auto
  ultimately show ?case using Cons.prems(1,5) a by auto
qed

text \<open>The anchors of the list after a deletion.\<close>

lemma first_of_delete:
  assumes "distinct (xs @ x # ys)" "-1 \<notin> set (xs @ x # ys)"
  shows "first_of (xs @ ys) (-1) = (if first_of (xs @ x # ys) (-1) = x then first_of ys (-1) else first_of (xs @ x # ys) (-1))"
  using assms by (cases xs) auto

lemma last_of_delete:
  assumes "distinct (xs @ x # ys)"
  shows "last_of (xs @ ys) (-1) = (if last_of (xs @ x # ys) (-1) = x then last_of xs (-1) else last_of (xs @ x # ys) (-1))"
  using assms by (cases ys rule: rev_cases) (auto simp: last_of_def)

end
