(* ===== verification/Stat.thy ===== *)
theory Stat
  imports Prelude LinkedList "HOL-Library.Signed_Division"
begin

text \<open>
  The statistics pool \<open>CTStat\<close> (stat.h, stat_policy.h, stat.cpp): statistic objects in a fixed
  array, linked by index into the chains of a hash table and into the list of free objects,
  with their values in a second array.  Several objects may share an id; \<open>step\<close> updates all
  of them, each by the policy of its type.  A null pointer, an index outside an array and a
  failed assertion are \<open>None\<close>.  The texts of the reports are not modelled, their contents are.
\<close>

unbundle bit_operations_syntax

section \<open>Policies\<close>

type_synonym stat_val = "64 word"

abbreviation (input) STAT_TYPE_NUM :: nat where "STAT_TYPE_NUM \<equiv> 6"
abbreviation (input) BUCKET_NUM :: nat where "BUCKET_NUM \<equiv> 100"
abbreviation (input) DEFAULT_STATOBJ_NUM :: nat where "DEFAULT_STATOBJ_NUM \<equiv> 100"
abbreviation (input) DEFAULT_STATVAL_NUM :: nat where "DEFAULT_STATVAL_NUM \<equiv> 100"
abbreviation (input) STAT_ID_MAX_LEN :: nat where "STAT_ID_MAX_LEN \<equiv> 64"
abbreviation (input) STAT_MAX_VALSIZE :: nat where "STAT_MAX_VALSIZE \<equiv> 10"
abbreviation (input) TSTAT_MAGICNUM :: int where "TSTAT_MAGICNUM \<equiv> 83846584"
abbreviation (input) INVALID_HANDLE :: int where "INVALID_HANDLE \<equiv> -1"
abbreviation (input) STAT_TYPE_ALL :: int where "STAT_TYPE_ALL \<equiv> -1"
abbreviation (input) ERR_STAT_EXIST :: int where "ERR_STAT_EXIST \<equiv> -2000"
abbreviation (input) ERR_STAT_NONE :: int where "ERR_STAT_NONE \<equiv> -2001"
abbreviation (input) ERR_STAT_FULL :: int where "ERR_STAT_FULL \<equiv> -2010"

datatype stat_policy = PolicySum | PolicyAvg | PolicyMax | PolicyMin | PolicyCount | PolicyUpdate

record stat_obj =
  so_id :: bytes
  so_desc :: bytes
  so_type :: int
  so_val_size :: int
  so_count :: stat_val
  so_val_offset :: int
  so_next :: int

text \<open>A value by its index in the array of all values.\<close>

definition val_at :: "stat_val list \<Rightarrow> int \<Rightarrow> stat_val option" where
  "val_at vs i = (if 0 \<le> i \<and> nat i < length vs then Some (vs ! nat i) else None)"

definition val_set :: "int \<Rightarrow> stat_val \<Rightarrow> stat_val list \<Rightarrow> stat_val list option" where
  "val_set i v vs = (if 0 \<le> i \<and> nat i < length vs then Some (vs[nat i := v]) else None)"

definition count_at_last :: "int \<Rightarrow> stat_obj \<Rightarrow> stat_obj" where
  "count_at_last idx ob = (if idx = so_val_size ob then ob\<lparr>so_count := so_count ob + 1\<rparr> else ob)"

text \<open>\<open>__step__\<close> of the six policies; the dimension \<open>idx\<close> counts from 1.\<close>

fun policy_step :: "stat_policy \<Rightarrow> stat_val \<Rightarrow> int \<Rightarrow> stat_obj \<Rightarrow> stat_val list \<Rightarrow> (stat_obj \<times> stat_val list) option" where
  "policy_step PolicyMax v idx ob vs =
     (if so_val_size ob > 0 then do {
        temp \<leftarrow> val_at vs (so_val_offset ob + idx - 1);
        vs' \<leftarrow> (if temp <s v then val_set (so_val_offset ob + idx - 1) v vs else Some vs);
        Some (count_at_last idx ob, vs') }
      else None)"
| "policy_step PolicyMin v idx ob vs =
     (if so_val_size ob > 0 then do {
        temp \<leftarrow> val_at vs (so_val_offset ob);
        vs' \<leftarrow> (if v <s temp \<or> temp = 0 then val_set (so_val_offset ob) v vs else Some vs);
        Some (ob\<lparr>so_count := so_count ob + 1\<rparr>, vs') }
      else None)"
| "policy_step PolicyUpdate v idx ob vs =
     (if so_val_size ob > 0 then do { vs' \<leftarrow> val_set (so_val_offset ob + idx - 1) v vs; Some (ob, vs') } else None)"
| "policy_step _ v idx ob vs =
     (if so_val_size ob > 0 then do {
        temp \<leftarrow> val_at vs (so_val_offset ob + idx - 1);
        vs' \<leftarrow> val_set (so_val_offset ob + idx - 1) (temp + v) vs;
        Some (count_at_last idx ob, vs') }
      else None)"

definition read_values :: "stat_obj \<Rightarrow> stat_val list \<Rightarrow> stat_val list option" where
  "read_values ob vs =
     (let off = so_val_offset ob; n = so_val_size ob
      in if 0 \<le> off \<and> nat off + nat n \<le> length vs then Some (take (nat n) (drop (nat off) vs)) else None)"

text \<open>
  \<open>__result__\<close>: the count and the values; the caller has room for ten values.  \<open>PolicyAvg\<close>
  leaves the number of values 0 when nothing was counted.
\<close>

definition policy_result :: "stat_policy \<Rightarrow> stat_obj \<Rightarrow> stat_val list \<Rightarrow> (stat_val \<times> stat_val list) option" where
  "policy_result p ob vs =
     (if so_val_size ob > 0
      then (case p of
              PolicyAvg \<Rightarrow>
                if 0 <s so_count ob
                then do {
                  xs \<leftarrow> read_values ob vs;
                  if length xs \<le> STAT_MAX_VALSIZE then Some (so_count ob, map (\<lambda>x. word_of_int (sint x sdiv sint (so_count ob))) xs) else None
                }
                else Some (0, [])
            | _ \<Rightarrow> do {
                xs \<leftarrow> read_values ob vs;
                if length xs \<le> STAT_MAX_VALSIZE then Some (so_count ob, xs) else None
              })
      else None)"

definition policy_reset :: "stat_obj \<Rightarrow> stat_val list \<Rightarrow> (stat_obj \<times> stat_val list) option" where
  "policy_reset ob vs =
     (let off = so_val_offset ob; n = so_val_size ob
      in if n > 0 \<and> 0 \<le> off \<and> nat off + nat n \<le> length vs
         then Some (ob\<lparr>so_count := 0\<rparr>, take (nat off) vs @ replicate (nat n) 0 @ drop (nat off + nat n) vs)
         else None)"

text \<open>The table of policies; the constructor registers six.\<close>

record stat_policies =
  pt_policy :: "stat_policy option list"
  pt_no :: "int list"
  pt_type :: "nat list"
  pt_num :: nat

fun top_bit :: "nat \<Rightarrow> nat" where
  "top_bit j = (if j div 2 = 0 then 0 else Suc (top_bit (j div 2)))"

declare top_bit.simps [simp del]

definition init_statpolicy :: "stat_policy \<Rightarrow> nat \<Rightarrow> stat_policies \<Rightarrow> stat_policies option" where
  "init_statpolicy p type t =
     (let i = top_bit type
      in if pt_num t < STAT_TYPE_NUM \<and> i < STAT_TYPE_NUM \<and> type < 2 ^ STAT_TYPE_NUM
         then Some \<lparr>pt_policy = (pt_policy t)[i := Some p], pt_no = (pt_no t)[i := int type],
                    pt_type = (pt_type t)[type := i], pt_num = pt_num t + 1\<rparr>
         else None)"

definition stat_policies_init :: "stat_policies option" where
  "stat_policies_init = do {
     let t = \<lparr>pt_policy = replicate STAT_TYPE_NUM None, pt_no = replicate STAT_TYPE_NUM 0,
              pt_type = replicate (2 ^ STAT_TYPE_NUM) 0, pt_num = 0\<rparr>;
     t \<leftarrow> init_statpolicy PolicySum 1 t;
     t \<leftarrow> init_statpolicy PolicyAvg 2 t;
     t \<leftarrow> init_statpolicy PolicyMax 4 t;
     t \<leftarrow> init_statpolicy PolicyMin 8 t;
     t \<leftarrow> init_statpolicy PolicyCount 16 t;
     init_statpolicy PolicyUpdate 32 t
   }"

definition policy_of :: "stat_policies \<Rightarrow> int \<Rightarrow> stat_policy option" where
  "policy_of t ty =
     (if 0 \<le> ty \<and> nat ty < length (pt_type t) \<and> pt_type t ! nat ty < length (pt_policy t)
      then pt_policy t ! (pt_type t ! nat ty) else None)"

section \<open>The pool\<close>

record stat_pool =
  sp_magic :: int
  sp_ver :: int
  sp_freelist :: int
  sp_bucket :: "int list"
  sp_objs_used :: int
  sp_objs :: "stat_obj list"
  sp_vals_used :: int
  sp_vals :: "stat_val list"

definition no_obj :: stat_obj where
  "no_obj = \<lparr>so_id = [], so_desc = [], so_type = 0, so_val_size = 0, so_count = 0, so_val_offset = 0, so_next = 0\<rparr>"

definition newpool :: stat_pool where
  "newpool = \<lparr>sp_magic = TSTAT_MAGICNUM, sp_ver = 1, sp_freelist = 0, sp_bucket = replicate BUCKET_NUM INVALID_HANDLE,
     sp_objs_used = 0,
     sp_objs = map (\<lambda>i. no_obj\<lparr>so_next := int i + 1\<rparr>) [0..<DEFAULT_STATOBJ_NUM - 1] @ [no_obj\<lparr>so_next := INVALID_HANDLE\<rparr>],
     sp_vals_used = 0, sp_vals = replicate DEFAULT_STATVAL_NUM 0\<rparr>"

text \<open>
  \<open>init\_statpool\<close> with a mapped file: whether it exists and can be opened, enlarged and
  mapped, and the pool it holds.
\<close>

definition init_statpool :: "(bool \<times> bool \<times> bool \<times> bool \<times> stat_pool) option \<Rightarrow> int \<times> stat_pool option" where
  "init_statpool file =
     (case file of None \<Rightarrow> (0, Some newpool)
      | Some (exists, opened, truncated, mapped, held) \<Rightarrow>
          if \<not> opened then (-2020, None)
          else if \<not> exists \<and> \<not> truncated then (-2021, None)
          else if \<not> mapped then (-2030, None)
          else if exists then (if sp_magic held \<noteq> TSTAT_MAGICNUM then (-2040, None) else (0, Some held))
          else (0, Some newpool))"

text \<open>The characters are signed; the sum is computed in 32 bits.\<close>

definition hashid :: "bytes \<Rightarrow> nat" where
  "hashid sid =
     unat (foldl (\<lambda>h c. h XOR (push_bit 5 h + (word_of_int (sint c) :: 32 word) + drop_bit 2 h)) 1315423911 sid) mod BUCKET_NUM"

definition obj_entry :: "stat_pool \<Rightarrow> int \<Rightarrow> stat_obj option" where
  "obj_entry p i = (if 0 \<le> i \<and> nat i < length (sp_objs p) then Some (sp_objs p ! nat i) else None)"

definition set_obj :: "int \<Rightarrow> stat_obj \<Rightarrow> stat_pool \<Rightarrow> stat_pool" where
  "set_obj i ob p = p\<lparr>sp_objs := (sp_objs p)[nat i := ob]\<rparr>"

text \<open>
  A chain has at most as many objects as the array, so that many rounds and one more are
  enough unless the links form a cycle.
\<close>

fun find_from :: "nat \<Rightarrow> stat_pool \<Rightarrow> bytes \<Rightarrow> int \<Rightarrow> int \<Rightarrow> int option" where
  "find_from 0 p sid type k = None"
| "find_from (Suc fuel) p sid type k =
     (if k = INVALID_HANDLE then Some k
      else (case obj_entry p k of None \<Rightarrow> None
            | Some ob \<Rightarrow>
                if so_id ob = sid \<and> (type = STAT_TYPE_ALL \<or> type = so_type ob) then Some k
                else find_from fuel p sid type (so_next ob)))"

definition chain_fuel :: "stat_pool \<Rightarrow> nat" where
  "chain_fuel p = Suc (length (sp_objs p))"

definition find_statobj :: "stat_pool \<Rightarrow> bytes \<Rightarrow> int \<Rightarrow> int option" where
  "find_statobj p sid type = find_from (chain_fuel p) p sid type (sp_bucket p ! hashid sid)"

definition alloc_statobj :: "int \<Rightarrow> stat_pool \<Rightarrow> (int \<times> stat_pool) option" where
  "alloc_statobj val_size p =
     (if val_size \<ge> 1 \<and> sp_objs_used p < int DEFAULT_STATOBJ_NUM \<and> sp_vals_used p < int DEFAULT_STATVAL_NUM - val_size
      then do {
        let choice = sp_freelist p;
        ob \<leftarrow> obj_entry p choice;
        Some (choice, (set_obj choice (ob\<lparr>so_val_size := val_size, so_val_offset := sp_vals_used p\<rparr>) p)
               \<lparr>sp_freelist := so_next ob, sp_objs_used := sp_objs_used p + 1, sp_vals_used := sp_vals_used p + val_size\<rparr>)
      }
      else None)"

definition insert_statobj :: "int \<Rightarrow> stat_pool \<Rightarrow> stat_pool option" where
  "insert_statobj choice p = do {
     ob \<leftarrow> obj_entry p choice;
     let b = hashid (so_id ob);
     let p1 = set_obj choice (ob\<lparr>so_next := sp_bucket p ! b\<rparr>) p;
     Some (p1\<lparr>sp_bucket := (sp_bucket p1)[b := choice]\<rparr>)
   }"

definition obj_init :: "bytes \<Rightarrow> int \<Rightarrow> bytes option \<Rightarrow> stat_obj \<Rightarrow> stat_obj" where
  "obj_init sid type desc ob =
     ob\<lparr>so_id := take (STAT_ID_MAX_LEN - 1) sid,
        so_desc := (case desc of None \<Rightarrow> [] | Some d \<Rightarrow> take (STAT_ID_MAX_LEN * 2 - 1) d),
        so_type := type, so_next := INVALID_HANDLE\<rparr>"

text \<open>One object for each type in \<open>type\<close>, in the order of the policies.\<close>

fun add_statobjs :: "int list \<Rightarrow> bytes \<Rightarrow> int \<Rightarrow> bytes option \<Rightarrow> int \<Rightarrow> stat_pool \<Rightarrow> (int \<times> stat_pool) option" where
  "add_statobjs [] sid type desc val_size p = Some (0, p)"
| "add_statobjs (ty # tys) sid type desc val_size p =
     (if type AND ty \<noteq> 0
      then (case alloc_statobj val_size p of None \<Rightarrow> None
            | Some (choice, p1) \<Rightarrow>
                if choice \<noteq> INVALID_HANDLE
                then (case obj_entry p1 choice of None \<Rightarrow> None
                      | Some ob \<Rightarrow>
                          (case insert_statobj choice (set_obj choice (obj_init sid ty desc ob) p1) of None \<Rightarrow> None
                           | Some p2 \<Rightarrow> add_statobjs tys sid type desc val_size p2))
                else Some (ERR_STAT_FULL, p1))
      else add_statobjs tys sid type desc val_size p)"

definition init_statobj :: "stat_policies \<Rightarrow> bytes \<Rightarrow> int \<Rightarrow> bytes option \<Rightarrow> int \<Rightarrow> stat_pool \<Rightarrow> (int \<times> stat_pool) option" where
  "init_statobj t sid type desc val_size p = do {
     k \<leftarrow> find_statobj p sid STAT_TYPE_ALL;
     if k \<noteq> INVALID_HANDLE then Some (ERR_STAT_EXIST, p)
     else add_statobjs (pt_no t) sid type desc val_size p
   }"

section \<open>Statistics\<close>

text \<open>The objects with the id follow each other in their chain.\<close>

fun step_chain :: "nat \<Rightarrow> stat_policies \<Rightarrow> bytes \<Rightarrow> stat_val \<Rightarrow> int \<Rightarrow> int \<Rightarrow> stat_pool \<Rightarrow> stat_pool option" where
  "step_chain 0 t sid v idx k p = None"
| "step_chain (Suc fuel) t sid v idx k p =
     (if k = INVALID_HANDLE then Some p
      else (case obj_entry p k of None \<Rightarrow> None
            | Some ob \<Rightarrow>
                if so_id ob = sid
                then (case policy_of t (so_type ob) of None \<Rightarrow> None
                      | Some pol \<Rightarrow>
                          (case policy_step pol v idx ob (sp_vals p) of None \<Rightarrow> None
                           | Some (ob', vs) \<Rightarrow>
                               step_chain fuel t sid v idx (so_next ob') ((set_obj k ob' p)\<lparr>sp_vals := vs\<rparr>)))
                else Some p))"

definition step0 :: "stat_policies \<Rightarrow> bytes \<Rightarrow> stat_val \<Rightarrow> int \<Rightarrow> stat_pool \<Rightarrow> stat_pool option" where
  "step0 t sid v idx p = do {
     k \<leftarrow> find_statobj p sid STAT_TYPE_ALL;
     step_chain (chain_fuel p) t sid v idx k p
   }"

fun stat_step :: "stat_policies \<Rightarrow> bytes list \<Rightarrow> stat_val \<Rightarrow> int \<Rightarrow> stat_pool \<Rightarrow> stat_pool option" where
  "stat_step t [] v idx p = Some p"
| "stat_step t (sid # ids) v idx p =
     (case step0 t sid v idx p of None \<Rightarrow> None | Some p' \<Rightarrow> stat_step t ids v idx p')"

definition stat_query :: "bytes \<Rightarrow> stat_pool \<Rightarrow> (int \<times> stat_obj option) option" where
  "stat_query sid p = do {
     k \<leftarrow> find_statobj p sid STAT_TYPE_ALL;
     if k \<noteq> INVALID_HANDLE then do { ob \<leftarrow> obj_entry p k; Some (1, Some ob) }
     else Some (ERR_STAT_NONE, None)
   }"

section \<open>All statistics\<close>

text \<open>\<open>travel\<close>: the indices of all objects, chain by chain.\<close>

fun walk :: "nat \<Rightarrow> stat_pool \<Rightarrow> int \<Rightarrow> int list option" where
  "walk 0 p k = None"
| "walk (Suc fuel) p k =
     (if k = INVALID_HANDLE then Some []
      else (case obj_entry p k of None \<Rightarrow> None
            | Some ob \<Rightarrow> map_option ((#) k) (walk fuel p (so_next ob))))"

fun travel :: "stat_pool \<Rightarrow> int list \<Rightarrow> int list option" where
  "travel p [] = Some []"
| "travel p (k # ks) =
     (case walk (chain_fuel p) p k of None \<Rightarrow> None
      | Some xs \<Rightarrow> (case travel p ks of None \<Rightarrow> None | Some ys \<Rightarrow> Some (xs @ ys)))"

fun reset_all :: "int list \<Rightarrow> stat_pool \<Rightarrow> stat_pool option" where
  "reset_all [] p = Some p"
| "reset_all (k # ks) p =
     (case obj_entry p k of None \<Rightarrow> None
      | Some ob \<Rightarrow> (case policy_reset ob (sp_vals p) of None \<Rightarrow> None
                  | Some (ob', vs) \<Rightarrow> reset_all ks ((set_obj k ob' p)\<lparr>sp_vals := vs\<rparr>)))"

text \<open>The links do not change on the way, so the visits can follow the walk.\<close>

definition stat_reset :: "stat_pool \<Rightarrow> stat_pool option" where
  "stat_reset p = do { ks \<leftarrow> travel p (sp_bucket p); reset_all ks p }"

definition result_line :: "stat_policies \<Rightarrow> stat_pool \<Rightarrow> int \<Rightarrow> (bytes \<times> bytes \<times> stat_policy \<times> stat_val \<times> stat_val list) option" where
  "result_line t p k = do {
     ob \<leftarrow> obj_entry p k;
     pol \<leftarrow> policy_of t (so_type ob);
     (n, xs) \<leftarrow> policy_result pol ob (sp_vals p);
     Some (so_id ob, so_desc ob, pol, n, xs)
   }"

definition stat_result ::
  "stat_policies \<Rightarrow> stat_pool \<Rightarrow> (int \<times> int \<times> (bytes \<times> bytes \<times> stat_policy \<times> stat_val \<times> stat_val list) list) option" where
  "stat_result t p = do {
     ks \<leftarrow> travel p (sp_bucket p);
     lines \<leftarrow> those (map (result_line t p) ks);
     Some (sp_objs_used p, sp_vals_used p, lines)
   }"

end
