(* ===== verification/StatPool.thy ===== *)
theory StatPool
  imports Stat
begin

text \<open>
  What the statistics pool stores: the chains and the free list share the array of objects,
  the objects of an id follow each other in one chain, and the ranges of values are disjoint.
  The abstract view is the list of entries of each id, a type with its count and its values.
\<close>

section \<open>The pool as a map\<close>

type_synonym stat_entry = "int \<times> stat_val \<times> stat_val list"

definition obj_at :: "stat_pool \<Rightarrow> int \<Rightarrow> stat_obj" where
  "obj_at p k = sp_objs p ! nat k"

abbreviation next_at :: "stat_pool \<Rightarrow> int \<Rightarrow> int" where
  "next_at p \<equiv> \<lambda>k. so_next (obj_at p k)"

definition entry_at :: "stat_pool \<Rightarrow> int \<Rightarrow> stat_entry" where
  "entry_at p k =
     (let ob = obj_at p k
      in (so_type ob, so_count ob, take (nat (so_val_size ob)) (drop (nat (so_val_offset ob)) (sp_vals p))))"

text \<open>The objects with an id are a block of the list.\<close>

definition grouped :: "(int \<Rightarrow> bytes) \<Rightarrow> int list \<Rightarrow> bool" where
  "grouped f xs \<longleftrightarrow> (\<forall>sid. \<exists>us bs vs. xs = us @ bs @ vs \<and> (\<forall>k\<in>set (us @ vs). f k \<noteq> sid) \<and> (\<forall>k\<in>set bs. f k = sid))"

definition ranges_ok :: "stat_pool \<Rightarrow> int set \<Rightarrow> bool" where
  "ranges_ok p K \<longleftrightarrow>
     (\<forall>k\<in>K. 1 \<le> so_val_size (obj_at p k) \<and> 0 \<le> so_val_offset (obj_at p k) \<and>
        so_val_offset (obj_at p k) + so_val_size (obj_at p k) \<le> sp_vals_used p) \<and>
     (\<forall>k\<in>K. \<forall>k'\<in>K. k \<noteq> k' \<longrightarrow>
        so_val_offset (obj_at p k) + so_val_size (obj_at p k) \<le> so_val_offset (obj_at p k') \<or>
        so_val_offset (obj_at p k') + so_val_size (obj_at p k') \<le> so_val_offset (obj_at p k))"

definition links_ok :: "stat_pool \<Rightarrow> int list list \<Rightarrow> int list \<Rightarrow> bool" where
  "links_ok p ch fl \<longleftrightarrow>
     length (sp_objs p) = 100 \<and> length (sp_bucket p) = 100 \<and> length ch = 100 \<and>
     (\<forall>b<100. sp_bucket p ! b = first_of (ch ! b) (-1) \<and> sseg (next_at p) (ch ! b)) \<and>
     sp_freelist p = first_of fl (-1) \<and> sseg (next_at p) fl \<and>
     distinct (fl @ concat ch) \<and> set (fl @ concat ch) = {0..<100} \<and>
     sp_objs_used p = int (length (concat ch))"

definition stat_ok :: "stat_policies \<Rightarrow> stat_pool \<Rightarrow> int list list \<Rightarrow> int list \<Rightarrow> bool" where
  "stat_ok t p ch fl \<longleftrightarrow> links_ok p ch fl \<and>
     (\<forall>b<100. \<forall>k\<in>set (ch ! b). hashid (so_id (obj_at p k)) = b) \<and>
     (\<forall>b<100. grouped (\<lambda>k. so_id (obj_at p k)) (ch ! b)) \<and>
     (\<forall>k\<in>set (concat ch). policy_of t (so_type (obj_at p k)) \<noteq> None) \<and>
     (\<forall>k\<in>set fl. so_count (obj_at p k) = 0) \<and>
     length (sp_vals p) = 100 \<and> 0 \<le> sp_vals_used p \<and> sp_vals_used p \<le> 100 \<and>
     (\<forall>i. sp_vals_used p \<le> int i \<and> i < 100 \<longrightarrow> sp_vals p ! i = 0) \<and>
     ranges_ok p (set (concat ch))"

definition stat_map :: "stat_pool \<Rightarrow> int list list \<Rightarrow> bytes \<Rightarrow> stat_entry list" where
  "stat_map p ch sid = map (entry_at p) (filter (\<lambda>k. so_id (obj_at p k) = sid) (ch ! hashid sid))"

lemma groupedD:
  "grouped f xs \<Longrightarrow> \<exists>us bs vs. xs = us @ bs @ vs \<and> (\<forall>k\<in>set (us @ vs). f k \<noteq> sid) \<and> (\<forall>k\<in>set bs. f k = sid)"
  unfolding grouped_def by (erule spec)

lemma grouped_cong: "grouped f xs \<Longrightarrow> (\<And>k. k \<in> set xs \<Longrightarrow> f k = g k) \<Longrightarrow> grouped g xs"
proof -
  assume a: "grouped f xs" "\<And>k. k \<in> set xs \<Longrightarrow> f k = g k"
  show "grouped g xs" unfolding grouped_def
  proof
    fix sid
    obtain us bs vs where s: "xs = us @ bs @ vs" "\<forall>k\<in>set (us @ vs). f k \<noteq> sid" "\<forall>k\<in>set bs. f k = sid"
      using groupedD [OF a(1), of sid] by (elim exE conjE)
    have "g k \<noteq> sid" if k: "k \<in> set (us @ vs)" for k
    proof -
      have "f k \<noteq> sid" using s(2) k by (rule bspec)
      moreover have "k \<in> set xs" using k s(1) by auto
      ultimately show ?thesis using a(2) [of k] by simp
    qed
    moreover have "g k = sid" if k: "k \<in> set bs" for k
    proof -
      have "f k = sid" using s(3) k by (rule bspec)
      moreover have "k \<in> set xs" using k s(1) by auto
      ultimately show ?thesis using a(2) [of k] by simp
    qed
    ultimately have "\<forall>k\<in>set (us @ vs). g k \<noteq> sid" "\<forall>k\<in>set bs. g k = sid" by simp_all
    then show "\<exists>us bs vs. xs = us @ bs @ vs \<and> (\<forall>k\<in>set (us @ vs). g k \<noteq> sid) \<and> (\<forall>k\<in>set bs. g k = sid)"
      by (intro exI [of _ us] exI [of _ bs] exI [of _ vs] conjI s(1))
  qed
qed

lemma hashid_less [simp]: "hashid sid < 100"
  by (simp add: hashid_def)

lemma links_okD:
  assumes "links_ok p ch fl"
  shows "length (sp_objs p) = 100" "length (sp_bucket p) = 100" "length ch = 100"
    "b < 100 \<Longrightarrow> sp_bucket p ! b = first_of (ch ! b) (-1)" "b < 100 \<Longrightarrow> sseg (next_at p) (ch ! b)"
    "sp_freelist p = first_of fl (-1)" "sseg (next_at p) fl" "distinct fl" "distinct (concat ch)"
    "set fl \<inter> set (concat ch) = {}" "set fl \<subseteq> {0..<100}" "set (concat ch) \<subseteq> {0..<100}"
    "sp_objs_used p = int (length (concat ch))"
proof -
  have all: "set fl \<union> set (concat ch) = {0..<100}" and d: "distinct (fl @ concat ch)"
    using assms unfolding links_ok_def by simp_all
  show "set fl \<subseteq> {0..<100}" "set (concat ch) \<subseteq> {0..<100}" unfolding all [symmetric] by blast+
  show "distinct fl" "distinct (concat ch)" "set fl \<inter> set (concat ch) = {}" using d unfolding distinct_append by simp_all
qed (use assms in \<open>simp_all add: links_ok_def\<close>)

lemma chain_in:
  assumes "links_ok p ch fl" "b < 100"
  shows "set (ch ! b) \<subseteq> set (concat ch)"
proof -
  have "ch ! b \<in> set ch" using links_okD(3) [OF assms(1)] assms(2) by simp
  then show ?thesis by auto
qed

lemma entry_obj: "length (sp_objs p) = 100 \<Longrightarrow> k \<in> {0..<100} \<Longrightarrow> obj_entry p k = Some (obj_at p k)"
  by (auto simp: obj_entry_def obj_at_def)

text \<open>A chain is not longer than the array.\<close>

lemma chain_length:
  assumes "links_ok p ch fl" "b < 100"
  shows "length (ch ! b) < chain_fuel p"
proof -
  have d: "distinct (ch ! b)"
    using links_okD(3,9) [OF assms(1)] assms(2) by (auto simp: distinct_concat_iff)
  have "card (set (ch ! b)) \<le> card {0..<100::int}"
    using chain_in [OF assms] links_okD(12) [OF assms(1)] by (intro card_mono) auto
  then show ?thesis using d links_okD(1) [OF assms(1)] by (simp add: distinct_card chain_fuel_def)
qed

section \<open>Walking a chain\<close>

lemma find_from_chain:
  "length (sp_objs p) = 100 \<Longrightarrow> sseg (next_at p) xs \<Longrightarrow> set xs \<subseteq> {0..<100} \<Longrightarrow> length xs < fuel \<Longrightarrow>
   find_from fuel p sid STAT_TYPE_ALL (first_of xs (-1)) = Some (first_of (dropWhile (\<lambda>k. so_id (obj_at p k) \<noteq> sid) xs) (-1))"
proof (induction xs arbitrary: fuel)
  case Nil
  then show ?case by (cases fuel) auto
next
  case (Cons x xs)
  then obtain n where "fuel = Suc n" by (cases fuel) auto
  with Cons show ?case by (simp add: entry_obj)
qed

lemma walk_chain:
  "length (sp_objs p) = 100 \<Longrightarrow> sseg (next_at p) xs \<Longrightarrow> set xs \<subseteq> {0..<100} \<Longrightarrow> length xs < fuel \<Longrightarrow>
   walk fuel p (first_of xs (-1)) = Some xs"
proof (induction xs arbitrary: fuel)
  case Nil
  then show ?case by (cases fuel) auto
next
  case (Cons x xs)
  then obtain n where "fuel = Suc n" by (cases fuel) auto
  with Cons show ?case by (simp add: entry_obj)
qed

text \<open>The updates of the objects of a list, one after the other.\<close>

fun step_objs :: "stat_policies \<Rightarrow> stat_val \<Rightarrow> int \<Rightarrow> int list \<Rightarrow> stat_pool \<Rightarrow> stat_pool option" where
  "step_objs t v idx [] p = Some p"
| "step_objs t v idx (k # ks) p =
     (case policy_of t (so_type (obj_at p k)) of None \<Rightarrow> None
      | Some pol \<Rightarrow> (case policy_step pol v idx (obj_at p k) (sp_vals p) of None \<Rightarrow> None
                   | Some (ob, vs) \<Rightarrow> step_objs t v idx ks ((set_obj k ob p)\<lparr>sp_vals := vs\<rparr>)))"

lemma policy_step_same:
  "policy_step pol v idx ob vs = Some (ob', vs') \<Longrightarrow>
   so_id ob' = so_id ob \<and> so_next ob' = so_next ob \<and> so_type ob' = so_type ob \<and> so_val_size ob' = so_val_size ob \<and>
   so_val_offset ob' = so_val_offset ob \<and> so_desc ob' = so_desc ob \<and> length vs' = length vs"
  by (cases pol) (auto simp: count_at_last_def val_set_def bind_eq_Some_conv split: if_splits)

lemma obj_at_set:
  "length (sp_objs p) = 100 \<Longrightarrow> k \<in> {0..<100} \<Longrightarrow> j \<in> {0..<100} \<Longrightarrow>
   obj_at (set_obj k ob p) j = (if j = k then ob else obj_at p j)"
  by (auto simp: obj_at_def set_obj_def nth_list_update)

lemma step_chain_objs:
  "length (sp_objs p) = 100 \<Longrightarrow> sseg (next_at p) (bs @ vs) \<Longrightarrow> set (bs @ vs) \<subseteq> {0..<100} \<Longrightarrow> distinct (bs @ vs) \<Longrightarrow>
   \<forall>k\<in>set bs. so_id (obj_at p k) = sid \<Longrightarrow> (vs \<noteq> [] \<Longrightarrow> so_id (obj_at p (hd vs)) \<noteq> sid) \<Longrightarrow> length bs < fuel \<Longrightarrow>
   step_chain fuel t sid v idx (first_of (bs @ vs) (-1)) p = step_objs t v idx bs p"
proof (induction bs arbitrary: fuel p)
  case Nil
  then obtain n where "fuel = Suc n" by (cases fuel) auto
  with Nil show ?case by (cases vs) (auto simp: entry_obj)
next
  case (Cons b bs)
  then obtain n where n: "fuel = Suc n" by (cases fuel) auto
  have b: "b \<in> {0..<100}" "b \<noteq> -1" "obj_entry p b = Some (obj_at p b)" using Cons.prems by (auto simp: entry_obj)
  show ?case
  proof (cases "policy_of t (so_type (obj_at p b))")
    case None
    then show ?thesis using Cons.prems b n by simp
  next
    case (Some pol)
    show ?thesis
    proof (cases "policy_step pol v idx (obj_at p b) (sp_vals p)")
      case None
      then show ?thesis using Cons.prems b n Some by simp
    next
      case s: (Some r)
      obtain ob vs' where r: "r = (ob, vs')" by (cases r)
      note same = policy_step_same [OF s [unfolded r]]
      let ?p = "(set_obj b ob p)\<lparr>sp_vals := vs'\<rparr>"
      have at: "obj_at ?p j = (if j = b then ob else obj_at p j)" if "j \<in> {0..<100}" for j
        using obj_at_set [OF Cons.prems(1) b(1) that] by (simp add: obj_at_def)
      have "next_at ?p j = next_at p j" if "j \<in> set (bs @ vs)" for j
        using that Cons.prems(3) same at [of j] by auto
      then have "sseg (next_at ?p) (bs @ vs) = sseg (next_at p) (bs @ vs)" by (rule sseg_cong)
      moreover have "length (sp_objs ?p) = 100" using Cons.prems(1) by (simp add: set_obj_def)
      moreover have "\<forall>k\<in>set bs. so_id (obj_at ?p k) = sid"
      proof
        fix k assume k: "k \<in> set bs"
        then have "k \<in> {0..<100}" using Cons.prems(3) by auto
        then show "so_id (obj_at ?p k) = sid" using k Cons.prems(5) same at by simp
      qed
      moreover have "vs \<noteq> [] \<Longrightarrow> so_id (obj_at ?p (hd vs)) \<noteq> sid"
      proof -
        assume v: "vs \<noteq> []"
        have h: "hd vs \<in> set vs" using v by simp
        then have "hd vs \<in> {0..<100}" "hd vs \<noteq> b" using Cons.prems(3,4) by auto
        then show "so_id (obj_at ?p (hd vs)) \<noteq> sid" using Cons.prems(6) [OF v] at by simp
      qed
      ultimately have "step_chain n t sid v idx (first_of (bs @ vs) (-1)) ?p = step_objs t v idx bs ?p"
        using Cons.prems n by (intro Cons.IH) auto
      then show ?thesis using Cons.prems b n Some s r same by simp
    qed
  qed
qed

section \<open>One object\<close>

text \<open>What a policy does to an entry.\<close>

definition entry_step :: "stat_policy \<Rightarrow> stat_val \<Rightarrow> int \<Rightarrow> stat_entry \<Rightarrow> stat_entry" where
  "entry_step pol v idx e =
     (let (ty, n, xs) = e; i = nat idx - 1
      in (ty,
          (case pol of PolicyMin \<Rightarrow> n + 1 | PolicyUpdate \<Rightarrow> n | _ \<Rightarrow> if idx = int (length xs) then n + 1 else n),
          (case pol of
             PolicyMax \<Rightarrow> if xs ! i <s v then xs[i := v] else xs
           | PolicyMin \<Rightarrow> if v <s xs ! 0 \<or> xs ! 0 = 0 then xs[0 := v] else xs
           | PolicyUpdate \<Rightarrow> xs[i := v]
           | _ \<Rightarrow> xs[i := xs ! i + v])))"

lemma range_update:
  "i < n \<Longrightarrow> off + n \<le> length vs \<Longrightarrow> take n (drop off (vs[off + i := x])) = (take n (drop off vs))[i := x]"
  by (rule nth_equalityI) (auto simp: nth_list_update)

lemma range_other:
  "j < off \<or> off + n \<le> j \<Longrightarrow> take n (drop off (vs[j := x])) = take n (drop off vs)"
  by (rule nth_equalityI) (auto simp: nth_list_update)

lemma policy_step_entry:
  assumes r: "1 \<le> so_val_size ob" "0 \<le> so_val_offset ob" "nat (so_val_offset ob) + nat (so_val_size ob) \<le> length vs"
    and i: "1 \<le> idx" "idx \<le> so_val_size ob"
  defines "off \<equiv> nat (so_val_offset ob)" and "n \<equiv> nat (so_val_size ob)"
  shows "\<exists>ob' vs' j x. policy_step pol v idx ob vs = Some (ob', vs') \<and> (vs' = vs \<or> off \<le> j \<and> j < off + n \<and> vs' = vs[j := x]) \<and>
     (so_type ob', so_count ob', take n (drop off vs')) = entry_step pol v idx (so_type ob, so_count ob, take n (drop off vs))"
proof -
  define m where "m = nat idx - 1"
  have m: "m < n" "so_val_offset ob + idx - 1 = int (off + m)" "so_val_offset ob = int off" "idx = int m + 1" "so_val_size ob = int n"
    using r i by (auto simp: m_def n_def off_def)
  have len: "off + n \<le> length vs" "length (take n (drop off vs)) = n" "off + m < length vs" "0 < n" "off < length vs"
  proof -
    show "off + n \<le> length vs" using r(3) by (simp add: off_def n_def)
    then show "length (take n (drop off vs)) = n" "off + m < length vs" "0 < n" "off < length vs" using m(1) by simp_all
  qed
  have at: "val_at vs (int (off + k)) = Some (take n (drop off vs) ! k)" if "k < n" for k
    using that len by (simp add: val_at_def nat_int_add)
  have set: "val_set (int (off + k)) x vs = Some (vs[off + k := x])" if "k < n" for k x
    using that len by (simp add: val_set_def nat_int_add)
  have at0: "val_at vs (int off) = Some (take n (drop off vs) ! 0)" using at [of 0] len by simp
  have set0: "val_set (int off) x vs = Some (vs[off := x])" for x using set [of 0] len by simp
  have up: "take n (drop off (vs[off + k := x])) = (take n (drop off vs))[k := x]" if "k < n" for k x
    using that len by (intro range_update)
  have up0: "take n (drop off (vs[off := x])) = (take n (drop off vs))[0 := x]" for x using up [of 0] len by simp
  have n: "so_val_size ob > 0" using r by simp
  have cnt: "so_count (count_at_last idx ob) = (if idx = int n then so_count ob + 1 else so_count ob)"
    "so_type (count_at_last idx ob) = so_type ob" using m by (simp_all add: count_at_last_def)
  have mm: "nat idx - Suc 0 = m" by (simp add: m_def)
  let ?w = "vs[off + m := take n (drop off vs) ! m + v]"
  have sum: "\<exists>ob' vs' j x. policy_step pol v idx ob vs = Some (ob', vs') \<and> (vs' = vs \<or> off \<le> j \<and> j < off + n \<and> vs' = vs[j := x]) \<and>
     (so_type ob', so_count ob', take n (drop off vs')) = entry_step pol v idx (so_type ob, so_count ob, take n (drop off vs))"
    if "pol \<in> {PolicySum, PolicyAvg, PolicyCount}"
  proof (intro exI conjI)
    show "policy_step pol v idx ob vs = Some (count_at_last idx ob, ?w)"
      using that n at [OF m(1)] set [OF m(1)] unfolding m(2) [symmetric] by auto
    show "?w = vs \<or> off \<le> off + m \<and> off + m < off + n \<and> ?w = vs[off + m := take n (drop off vs) ! m + v]"
      using m(1) by simp
    show "(so_type (count_at_last idx ob), so_count (count_at_last idx ob), take n (drop off ?w)) =
        entry_step pol v idx (so_type ob, so_count ob, take n (drop off vs))"
      using that cnt up [OF m(1)] len(2) by (auto simp: entry_step_def mm Let_def)
  qed
  show ?thesis
  proof (cases pol)
    case PolicyMax
    then show ?thesis using n m(1) cnt at [OF m(1)] set [OF m(1)] up [OF m(1)] len(2) m(2)
      by (intro exI [of _ "count_at_last idx ob"]
          exI [of _ "if take n (drop off vs) ! m <s v then vs[off + m := v] else vs"] exI [of _ "off + m"] exI [of _ v])
        (simp add: entry_step_def mm Let_def)
  next
    case PolicyMin
    then show ?thesis using n len(4) at0 set0 up0 len(2) m(3)
      by (intro exI [of _ "ob\<lparr>so_count := so_count ob + 1\<rparr>"]
          exI [of _ "if v <s take n (drop off vs) ! 0 \<or> take n (drop off vs) ! 0 = 0 then vs[off := v] else vs"]
          exI [of _ off] exI [of _ v])
        (auto simp: entry_step_def Let_def)
  next
    case PolicyUpdate
    then show ?thesis using n m(1) set [OF m(1)] up [OF m(1)] len(2) m(2)
      by (intro exI [of _ ob] exI [of _ "vs[off + m := v]"] exI [of _ "off + m"] exI [of _ v])
        (simp add: entry_step_def mm Let_def)
  qed (use sum in simp_all)
qed

text \<open>Two pools with the same links, ids, types and ranges.\<close>

definition same_frame :: "stat_obj \<Rightarrow> stat_obj \<Rightarrow> bool" where
  "same_frame a b \<longleftrightarrow> so_id a = so_id b \<and> so_next a = so_next b \<and> so_type a = so_type b \<and>
     so_val_size a = so_val_size b \<and> so_val_offset a = so_val_offset b"

definition same_links :: "stat_pool \<Rightarrow> stat_pool \<Rightarrow> bool" where
  "same_links p p' \<longleftrightarrow> length (sp_objs p') = length (sp_objs p) \<and> sp_bucket p' = sp_bucket p \<and> sp_freelist p' = sp_freelist p \<and>
     sp_objs_used p' = sp_objs_used p \<and> sp_vals_used p' = sp_vals_used p \<and> length (sp_vals p') = length (sp_vals p) \<and>
     (\<forall>j\<in>{0..<100}. same_frame (obj_at p j) (obj_at p' j))"

lemma same_links_refl [simp]: "same_links p p"
  by (simp add: same_links_def same_frame_def)

lemma same_links_trans: "same_links a b \<Longrightarrow> same_links b c \<Longrightarrow> same_links a c"
  by (simp add: same_links_def same_frame_def)

lemma same_linksD:
  assumes "same_links p p'" "j \<in> {0..<100}"
  shows "so_id (obj_at p' j) = so_id (obj_at p j)" "so_next (obj_at p' j) = so_next (obj_at p j)"
    "so_type (obj_at p' j) = so_type (obj_at p j)" "so_val_size (obj_at p' j) = so_val_size (obj_at p j)"
    "so_val_offset (obj_at p' j) = so_val_offset (obj_at p j)"
proof -
  have "same_frame (obj_at p j) (obj_at p' j)" using assms unfolding same_links_def by blast
  then show "so_id (obj_at p' j) = so_id (obj_at p j)" "so_next (obj_at p' j) = so_next (obj_at p j)"
    "so_type (obj_at p' j) = so_type (obj_at p j)" "so_val_size (obj_at p' j) = so_val_size (obj_at p j)"
    "so_val_offset (obj_at p' j) = so_val_offset (obj_at p j)"
    by (simp_all add: same_frame_def)
qed

lemma links_ok_same:
  assumes "links_ok p ch fl" "same_links p p'"
  shows "links_ok p' ch fl"
proof -
  note l = links_okD [OF assms(1)]
  have nx: "next_at p' j = next_at p j" if "j \<in> {0..<100}" for j
    using same_linksD [OF assms(2) that] by simp
  have "sseg (next_at p') xs = sseg (next_at p) xs" if "set xs \<subseteq> {0..<100}" for xs
    using that nx by (intro sseg_cong) auto
  then have "sseg (next_at p') fl" "\<And>b. b < 100 \<Longrightarrow> sseg (next_at p') (ch ! b)"
    using l(5,7,11,12) chain_in [OF assms(1)] by (blast, metis subset_trans)
  then show ?thesis using assms by (simp add: links_ok_def same_links_def)
qed

lemma stat_ok_same:
  assumes ok: "stat_ok t p ch fl" and s: "same_links p p'"
    and c: "\<forall>k\<in>set fl. so_count (obj_at p' k) = 0" and z: "\<forall>i. sp_vals_used p \<le> int i \<and> i < 100 \<longrightarrow> sp_vals p' ! i = 0"
  shows "stat_ok t p' ch fl"
proof -
  have l: "links_ok p ch fl" using ok by (simp add: stat_ok_def)
  have f: "so_id (obj_at p' j) = so_id (obj_at p j)" "so_type (obj_at p' j) = so_type (obj_at p j)"
    "so_val_size (obj_at p' j) = so_val_size (obj_at p j)" "so_val_offset (obj_at p' j) = so_val_offset (obj_at p j)"
    if "j \<in> set (concat ch)" for j
    using same_linksD [OF s] subsetD [OF links_okD(12) [OF l] that] by simp_all
  have i: "j \<in> set (concat ch)" if "b < 100" "j \<in> set (ch ! b)" for b j using chain_in [OF l that(1)] that(2) by blast
  have h: "\<forall>b<100. \<forall>k\<in>set (ch ! b). hashid (so_id (obj_at p' k)) = b"
    using ok f(1) i by (simp add: stat_ok_def)
  have g: "\<forall>b<100. grouped (\<lambda>k. so_id (obj_at p' k)) (ch ! b)"
  proof (intro allI impI)
    fix b :: nat assume b: "b < 100"
    have "grouped (\<lambda>k. so_id (obj_at p k)) (ch ! b)" using ok b by (simp add: stat_ok_def)
    then show "grouped (\<lambda>k. so_id (obj_at p' k)) (ch ! b)" by (rule grouped_cong) (use f(1) i [OF b] in simp)
  qed
  have r: "ranges_ok p' (set (concat ch))"
  proof -
    have "ranges_ok p (set (concat ch))" "sp_vals_used p' = sp_vals_used p" using ok s by (simp_all add: stat_ok_def same_links_def)
    then show ?thesis using f(3,4) unfolding ranges_ok_def by simp
  qed
  have t: "\<forall>k\<in>set (concat ch). policy_of t (so_type (obj_at p' k)) \<noteq> None"
    using ok f(2) unfolding stat_ok_def by simp
  show ?thesis using ok s c z h g r t links_ok_same [OF l s] by (simp add: stat_ok_def same_links_def)
qed

section \<open>The objects of an id\<close>

definition upd :: "stat_policies \<Rightarrow> stat_val \<Rightarrow> int \<Rightarrow> stat_entry \<Rightarrow> stat_entry" where
  "upd t v idx e = (case policy_of t (fst e) of None \<Rightarrow> e | Some pol \<Rightarrow> entry_step pol v idx e)"

lemma rangeD:
  assumes "stat_ok t p ch fl" "k \<in> set (concat ch)"
  shows "1 \<le> so_val_size (obj_at p k)" "0 \<le> so_val_offset (obj_at p k)"
    "so_val_offset (obj_at p k) + so_val_size (obj_at p k) \<le> sp_vals_used p"
    "nat (so_val_offset (obj_at p k)) + nat (so_val_size (obj_at p k)) \<le> length (sp_vals p)"
    "j \<in> set (concat ch) \<Longrightarrow> j \<noteq> k \<Longrightarrow>
       so_val_offset (obj_at p k) + so_val_size (obj_at p k) \<le> so_val_offset (obj_at p j) \<or>
       so_val_offset (obj_at p j) + so_val_size (obj_at p j) \<le> so_val_offset (obj_at p k)"
proof -
  have r: "ranges_ok p (set (concat ch))" and v: "length (sp_vals p) = 100" "sp_vals_used p \<le> 100"
    using assms(1) by (simp_all add: stat_ok_def)
  show a: "1 \<le> so_val_size (obj_at p k)" "0 \<le> so_val_offset (obj_at p k)"
    "so_val_offset (obj_at p k) + so_val_size (obj_at p k) \<le> sp_vals_used p"
    using r assms(2) unfolding ranges_ok_def by blast+
  show "nat (so_val_offset (obj_at p k)) + nat (so_val_size (obj_at p k)) \<le> length (sp_vals p)" using a v by simp
  show "j \<in> set (concat ch) \<Longrightarrow> j \<noteq> k \<Longrightarrow>
       so_val_offset (obj_at p k) + so_val_size (obj_at p k) \<le> so_val_offset (obj_at p j) \<or>
       so_val_offset (obj_at p j) + so_val_size (obj_at p j) \<le> so_val_offset (obj_at p k)"
    using r assms(2) unfolding ranges_ok_def by blast
qed

lemma step_one:
  assumes ok: "stat_ok t p ch fl" and k: "k \<in> set (concat ch)" and i: "1 \<le> idx" "idx \<le> so_val_size (obj_at p k)"
  shows "\<exists>p'. (\<forall>ks. step_objs t v idx (k # ks) p = step_objs t v idx ks p') \<and> stat_ok t p' ch fl \<and> same_links p p' \<and>
     (\<forall>j\<in>set (concat ch). entry_at p' j = (if j = k then upd t v idx (entry_at p k) else entry_at p j))"
proof -
  have l: "links_ok p ch fl" using ok by (simp add: stat_ok_def)
  have kr: "k \<in> {0..<100}" using links_okD(12) [OF l] k by blast
  note len = links_okD(1) [OF l]
  let ?ob = "obj_at p k"
  obtain pol where pol: "policy_of t (so_type ?ob) = Some pol" using ok k unfolding stat_ok_def by blast
  note r = rangeD [OF ok k]
  define off n where "off = nat (so_val_offset ?ob)" and "n = nat (so_val_size ?ob)"
  obtain ob' vs' j x where st: "policy_step pol v idx ?ob (sp_vals p) = Some (ob', vs')"
    "vs' = sp_vals p \<or> off \<le> j \<and> j < off + n \<and> vs' = (sp_vals p)[j := x]"
    "(so_type ob', so_count ob', take n (drop off vs')) = entry_step pol v idx (so_type ?ob, so_count ?ob, take n (drop off (sp_vals p)))"
    using policy_step_entry [OF r(1,2,4) i, of pol v] unfolding off_def n_def by blast
  note sm = policy_step_same [OF st(1)]
  let ?p = "(set_obj k ob' p)\<lparr>sp_vals := vs'\<rparr>"
  have at: "obj_at ?p j = (if j = k then ob' else obj_at p j)" if "j \<in> {0..<100}" for j
    using obj_at_set [OF len kr that] by (simp add: obj_at_def)
  have sl: "same_links p ?p"
    using sm at by (auto simp: same_links_def same_frame_def) (auto simp: set_obj_def)
  have "\<forall>q\<in>set fl. so_count (obj_at ?p q) = 0"
  proof
    fix q assume q: "q \<in> set fl"
    then have "q \<noteq> k" "q \<in> {0..<100}" using links_okD(10,11) [OF l] k by blast+
    then show "so_count (obj_at ?p q) = 0" using at ok q by (simp add: stat_ok_def)
  qed
  moreover have "\<forall>i. sp_vals_used p \<le> int i \<and> i < 100 \<longrightarrow> sp_vals ?p ! i = 0"
  proof (intro allI impI)
    fix i assume i: "sp_vals_used p \<le> int i \<and> i < 100"
    then have "\<not> (off \<le> i \<and> i < off + n)" using r(1-3) by (auto simp: off_def n_def)
    then show "sp_vals ?p ! i = 0" using ok i st(2) by (auto simp: stat_ok_def nth_list_update)
  qed
  ultimately have ok': "stat_ok t ?p ch fl" by (rule stat_ok_same [OF ok sl])
  have en: "entry_at ?p q = (if q = k then upd t v idx (entry_at p k) else entry_at p q)" if q: "q \<in> set (concat ch)" for q
  proof (cases "q = k")
    case True
    have "entry_at ?p k = (so_type ob', so_count ob', take n (drop off vs'))"
      using at [OF kr] sm by (simp add: entry_at_def Let_def off_def n_def)
    then show ?thesis using True st(3) pol by (simp add: upd_def entry_at_def Let_def off_def n_def)
  next
    case False
    have "q \<in> {0..<100}" using links_okD(12) [OF l] q by blast
    moreover have "take (nat (so_val_size (obj_at p q))) (drop (nat (so_val_offset (obj_at p q))) vs') =
        take (nat (so_val_size (obj_at p q))) (drop (nat (so_val_offset (obj_at p q))) (sp_vals p))"
    proof (cases "vs' = sp_vals p")
      case nb: False
      then have j: "off \<le> j" "j < off + n" "vs' = (sp_vals p)[j := x]" using st(2) by simp_all
      have "j < nat (so_val_offset (obj_at p q)) \<or> nat (so_val_offset (obj_at p q)) + nat (so_val_size (obj_at p q)) \<le> j"
        using r(1,2) r(5) [OF q False] rangeD(1,2) [OF ok q] j(1,2) by (auto simp: off_def n_def)
      then show ?thesis unfolding j(3) by (rule range_other)
    qed simp
    ultimately show ?thesis using False at [of q] by (simp add: entry_at_def Let_def)
  qed
  have "\<forall>ks. step_objs t v idx (k # ks) p = step_objs t v idx ks ?p" using pol st(1) by simp
  then show ?thesis using ok' sl en by blast
qed

lemma step_objs_ok:
  "stat_ok t p ch fl \<Longrightarrow> distinct ks \<Longrightarrow> set ks \<subseteq> set (concat ch) \<Longrightarrow> 1 \<le> idx \<Longrightarrow>
   \<forall>k\<in>set ks. idx \<le> so_val_size (obj_at p k) \<Longrightarrow>
   \<exists>p'. step_objs t v idx ks p = Some p' \<and> stat_ok t p' ch fl \<and> same_links p p' \<and>
     (\<forall>j\<in>set (concat ch). entry_at p' j = (if j \<in> set ks then upd t v idx (entry_at p j) else entry_at p j))"
proof (induction ks arbitrary: p)
  case Nil
  then show ?case by simp
next
  case (Cons k ks)
  have k: "k \<in> set (concat ch)" "idx \<le> so_val_size (obj_at p k)" using Cons.prems by auto
  obtain p1 where p1: "\<forall>ks. step_objs t v idx (k # ks) p = step_objs t v idx ks p1" "stat_ok t p1 ch fl" "same_links p p1"
    "\<forall>j\<in>set (concat ch). entry_at p1 j = (if j = k then upd t v idx (entry_at p k) else entry_at p j)"
    using step_one [OF Cons.prems(1) k(1) Cons.prems(4) k(2)] by blast
  have l: "links_ok p ch fl" using Cons.prems(1) by (simp add: stat_ok_def)
  have "idx \<le> so_val_size (obj_at p1 j)" if "j \<in> set ks" for j
  proof -
    have "j \<in> set (concat ch)" using that Cons.prems(3) by (meson subsetD set_subset_Cons)
    then have "j \<in> {0..<100}" using links_okD(12) [OF l] by blast
    then show ?thesis using same_linksD(4) [OF p1(3)] that Cons.prems(5) by simp
  qed
  moreover have "distinct ks" "set ks \<subseteq> set (concat ch)" using Cons.prems(2,3) by simp_all
  ultimately obtain p2 where p2: "step_objs t v idx ks p1 = Some p2" "stat_ok t p2 ch fl" "same_links p1 p2"
    "\<forall>j\<in>set (concat ch). entry_at p2 j = (if j \<in> set ks then upd t v idx (entry_at p1 j) else entry_at p1 j)"
    using Cons.IH [OF p1(2)] Cons.prems(4) by blast
  have "step_objs t v idx (k # ks) p = Some p2" using p1(1) p2(1) by simp
  moreover have "\<forall>j\<in>set (concat ch). entry_at p2 j = (if j \<in> set (k # ks) then upd t v idx (entry_at p j) else entry_at p j)"
    using p1(4) p2(4) Cons.prems(2) by auto
  ultimately show ?case using p2(2) same_links_trans [OF p1(3) p2(3)] by blast
qed

end
