(* ===== verification/StatTheorems.thy ===== *)
theory StatTheorems
  imports StatPool "HOL-Library.Multiset"
begin

text \<open>
  The statistics pool is a map: registering, counting and resetting do to the entries of
  the ids what they should, whichever objects, chains and ranges of values they use.
\<close>

section \<open>Counting\<close>

lemma entry_length:
  assumes "stat_ok t p ch fl" "k \<in> set (concat ch)"
  shows "length (snd (snd (entry_at p k))) = nat (so_val_size (obj_at p k))"
  using rangeD(4) [OF assms] by (simp add: entry_at_def Let_def)

lemma stat_chain:
  assumes "stat_ok t p ch fl"
  shows "\<exists>us bs vs. ch ! hashid sid = us @ bs @ vs \<and> (\<forall>k\<in>set (us @ vs). so_id (obj_at p k) \<noteq> sid) \<and>
     (\<forall>k\<in>set bs. so_id (obj_at p k) = sid) \<and> filter (\<lambda>k. so_id (obj_at p k) = sid) (ch ! hashid sid) = bs"
proof -
  have g: "grouped (\<lambda>k. so_id (obj_at p k)) (ch ! hashid sid)" using assms by (simp add: stat_ok_def)
  obtain us bs vs where s: "ch ! hashid sid = us @ bs @ vs" "\<forall>k\<in>set (us @ vs). so_id (obj_at p k) \<noteq> sid"
    "\<forall>k\<in>set bs. so_id (obj_at p k) = sid" using groupedD [OF g, of sid] by (elim exE conjE)
  have "filter (\<lambda>k. so_id (obj_at p k) = sid) us = []" "filter (\<lambda>k. so_id (obj_at p k) = sid) vs = []"
    "filter (\<lambda>k. so_id (obj_at p k) = sid) bs = bs" using s(2,3) by (auto simp: filter_empty_conv)
  then show ?thesis using s by (intro exI [of _ us] exI [of _ bs] exI [of _ vs]) simp
qed

lemma find_statobj_chain:
  assumes ok: "stat_ok t p ch fl" and s: "ch ! hashid sid = us @ bs @ vs" "\<forall>k\<in>set (us @ vs). so_id (obj_at p k) \<noteq> sid"
    "\<forall>k\<in>set bs. so_id (obj_at p k) = sid"
  shows "find_statobj p sid STAT_TYPE_ALL = Some (if bs = [] then INVALID_HANDLE else first_of (bs @ vs) (-1))"
proof -
  have l: "links_ok p ch fl" using ok by (simp add: stat_ok_def)
  note c = links_okD [OF l]
  have r: "set (ch ! hashid sid) \<subseteq> {0..<100}" using chain_in [OF l hashid_less] c(12) by blast
  have f: "find_statobj p sid STAT_TYPE_ALL =
      Some (first_of (dropWhile (\<lambda>k. so_id (obj_at p k) \<noteq> sid) (ch ! hashid sid)) (-1))"
    unfolding find_statobj_def c(4) [OF hashid_less]
    by (rule find_from_chain [OF c(1) c(5) [OF hashid_less] r chain_length [OF l hashid_less]])
  have u: "dropWhile (\<lambda>k. so_id (obj_at p k) \<noteq> sid) (us @ xs) = dropWhile (\<lambda>k. so_id (obj_at p k) \<noteq> sid) xs" for xs
    using s(2) by (intro dropWhile_append2) auto
  show ?thesis
  proof (cases bs)
    case Nil
    have "dropWhile (\<lambda>k. so_id (obj_at p k) \<noteq> sid) vs = []" using s(2) by (simp add: dropWhile_eq_Nil_conv)
    then have "first_of (dropWhile (\<lambda>k. so_id (obj_at p k) \<noteq> sid) vs) (-1) = -1" by (simp only: first_of_simps)
    then show ?thesis using f u s(1) Nil by simp
  next
    case (Cons b bs')
    then show ?thesis using f u s(1,3) by simp
  qed
qed

lemma step0_map:
  assumes ok: "stat_ok t p ch fl" and i: "1 \<le> idx" "\<forall>e\<in>set (stat_map p ch sid). idx \<le> int (length (snd (snd e)))"
  shows "\<exists>p'. step0 t sid v idx p = Some p' \<and> stat_ok t p' ch fl \<and> sp_objs_used p' = sp_objs_used p \<and>
     sp_vals_used p' = sp_vals_used p \<and> stat_map p' ch = (stat_map p ch)(sid := map (upd t v idx) (stat_map p ch sid))"
proof -
  have l: "links_ok p ch fl" using ok by (simp add: stat_ok_def)
  note c = links_okD [OF l]
  obtain us bs vs where s: "ch ! hashid sid = us @ bs @ vs" "\<forall>k\<in>set (us @ vs). so_id (obj_at p k) \<noteq> sid"
    "\<forall>k\<in>set bs. so_id (obj_at p k) = sid" "filter (\<lambda>k. so_id (obj_at p k) = sid) (ch ! hashid sid) = bs"
    using stat_chain [OF ok, of sid] by (elim exE conjE)
  have cin: "set (us @ bs @ vs) \<subseteq> set (concat ch)" using chain_in [OF l hashid_less, of sid] s(1) by simp
  have dist: "distinct (us @ bs @ vs)"
    using c(3,9) hashid_less [of sid] s(1) by (metis distinct_concat_iff nth_mem)
  have sz: "\<forall>k\<in>set bs. idx \<le> so_val_size (obj_at p k)"
  proof
    fix k assume k: "k \<in> set bs"
    then have "entry_at p k \<in> set (stat_map p ch sid)" using s(4) by (simp add: stat_map_def)
    moreover have "k \<in> set (concat ch)" using k cin by auto
    ultimately show "idx \<le> so_val_size (obj_at p k)" using i entry_length [OF ok] rangeD(1) [OF ok] by fastforce
  qed
  have bin: "set bs \<subseteq> set (concat ch)" using cin by simp
  have db: "distinct bs" using dist by simp
  obtain p' where p': "step_objs t v idx bs p = Some p'" "stat_ok t p' ch fl" "same_links p p'"
    "\<forall>j\<in>set (concat ch). entry_at p' j = (if j \<in> set bs then upd t v idx (entry_at p j) else entry_at p j)"
    using step_objs_ok [OF ok db bin i(1) sz, of v] by (elim exE conjE)
  have st: "step0 t sid v idx p = Some p'"
  proof (cases "bs = []")
    case True
    then have "step0 t sid v idx p = Some p"
      using find_statobj_chain [OF ok s(1-3)] by (simp add: step0_def chain_fuel_def)
    then show ?thesis using p'(1) True by simp
  next
    case False
    have sg: "sseg (next_at p) (bs @ vs)" using c(5) [OF hashid_less, of sid] s(1) sseg_append by metis
    have rr: "set (bs @ vs) \<subseteq> {0..<100}" using cin c(12) by auto
    have nv: "vs \<noteq> [] \<Longrightarrow> so_id (obj_at p (hd vs)) \<noteq> sid" using s(2) by simp
    have dd: "distinct (bs @ vs)" using dist by simp
    have lf: "length bs < chain_fuel p" using chain_length [OF l hashid_less, of sid] s(1) by simp
    show ?thesis
      using find_statobj_chain [OF ok s(1-3)] False p'(1) step_chain_objs [OF c(1) sg rr dd s(3) nv lf, of t v idx]
      by (simp add: step0_def)
  qed
  have m: "stat_map p' ch g = (if g = sid then map (upd t v idx) (stat_map p ch sid) else stat_map p ch g)" for g
  proof -
    have gin: "set (ch ! hashid g) \<subseteq> set (concat ch)" by (rule chain_in [OF l hashid_less])
    have ids: "so_id (obj_at p' k) = so_id (obj_at p k)" if "k \<in> set (ch ! hashid g)" for k
      using same_linksD(1) [OF p'(3)] gin c(12) that by blast
    then have fl: "filter (\<lambda>k. so_id (obj_at p' k) = g) (ch ! hashid g) = filter (\<lambda>k. so_id (obj_at p k) = g) (ch ! hashid g)"
      by (intro filter_cong) simp_all
    show ?thesis
    proof (cases "g = sid")
      case True
      then show ?thesis unfolding stat_map_def fl using s(4) bin p'(4) by auto
    next
      case False
      have "entry_at p' k = entry_at p k" if "k \<in> set (ch ! hashid g)" "so_id (obj_at p k) = g" for k
      proof -
        have "k \<notin> set bs" using that(2) False s(3) by auto
        moreover have "k \<in> set (concat ch)" using that(1) gin by blast
        ultimately show ?thesis using p'(4) by (simp del: set_concat)
      qed
      then show ?thesis unfolding stat_map_def fl using False by simp
    qed
  qed
  have "sp_objs_used p' = sp_objs_used p" "sp_vals_used p' = sp_vals_used p" using p'(3) by (simp_all add: same_links_def)
  moreover have "stat_map p' ch = (stat_map p ch)(sid := map (upd t v idx) (stat_map p ch sid))" using m by (intro ext) simp
  ultimately show ?thesis using st p'(2) by blast
qed

section \<open>Registering\<close>

lemma mset_concat_push:
  "b < length ch \<Longrightarrow> mset (concat (ch[b := x # ch ! b])) = add_mset x (mset (concat ch))"
proof (induction ch arbitrary: b)
  case (Cons c ch)
  then show ?case by (cases b) simp_all
qed simp

text \<open>The pool after one more object \<open>k\<close>, the first of the free list.\<close>

definition added :: "int \<Rightarrow> bytes \<Rightarrow> int \<Rightarrow> bytes option \<Rightarrow> int \<Rightarrow> int \<Rightarrow> stat_pool \<Rightarrow> stat_pool" where
  "added k sid ty desc sz nxt p =
     p\<lparr>sp_objs := (sp_objs p)[nat k :=
           (obj_init sid ty desc ((obj_at p k)\<lparr>so_val_size := sz, so_val_offset := sp_vals_used p\<rparr>))
             \<lparr>so_next := sp_bucket p ! hashid sid\<rparr>],
        sp_bucket := (sp_bucket p)[hashid sid := k], sp_freelist := nxt,
        sp_objs_used := sp_objs_used p + 1, sp_vals_used := sp_vals_used p + sz\<rparr>"

lemma free_list:
  assumes "links_ok p ch fl" "sp_objs_used p < 100"
  obtains k fl' where "fl = k # fl'" "k \<in> {0..<100}" "k \<notin> set (concat ch)" "k \<notin> set fl'"
    "sp_freelist p = k" "next_at p k = first_of fl' (-1)"
proof -
  note c = links_okD [OF assms(1)]
  have "set (concat ch) \<noteq> {0..<100}"
  proof
    assume "set (concat ch) = {0..<100}"
    then have "length (concat ch) = 100" using distinct_card [OF c(9)] by simp
    then show False using c(13) assms(2) by simp
  qed
  then have "fl \<noteq> []" using assms(1) unfolding links_ok_def by auto
  then obtain k fl' where fl: "fl = k # fl'" by (cases fl) auto
  moreover have "k \<in> {0..<100}" "k \<notin> set (concat ch)" "k \<notin> set fl'" using c(8,10,11) fl by auto
  ultimately show ?thesis using c(6,7) that by simp
qed

lemma added_eq:
  assumes l: "links_ok p ch fl" and k: "sp_objs_used p < 100" "1 \<le> sz" "sp_vals_used p < 100 - sz" "length sid < 64"
    and fl: "fl = k # fl'" "k \<in> {0..<100}" "sp_freelist p = k" "next_at p k = first_of fl' (-1)"
    and ty: "type AND ty \<noteq> 0"
  shows "add_statobjs (ty # tys) sid type desc sz p = add_statobjs tys sid type desc sz (added k sid ty desc sz (first_of fl' (-1)) p)"
proof -
  note c = links_okD [OF l]
  have k1: "k \<noteq> INVALID_HANDLE" "nat k < 100" using fl(2) by auto
  have e: "obj_entry p k = Some (obj_at p k)" using entry_obj [OF c(1) fl(2)] .
  let ?ob = "(obj_at p k)\<lparr>so_val_size := sz, so_val_offset := sp_vals_used p\<rparr>"
  let ?p1 = "(set_obj k ?ob p)\<lparr>sp_freelist := first_of fl' (-1), sp_objs_used := sp_objs_used p + 1, sp_vals_used := sp_vals_used p + sz\<rparr>"
  have a: "alloc_statobj sz p = Some (k, ?p1)" using k e fl(3,4) by (simp add: alloc_statobj_def)
  have e1: "obj_entry ?p1 k = Some ?ob" using c(1) k1 fl(2) by (simp add: obj_entry_def set_obj_def)
  let ?ob2 = "obj_init sid ty desc ?ob"
  have e2: "obj_entry (set_obj k ?ob2 ?p1) k = Some ?ob2" using c(1) k1 fl(2) by (simp add: obj_entry_def set_obj_def)
  have sid: "so_id ?ob2 = sid" using k(4) by (simp add: obj_init_def)
  have "insert_statobj k (set_obj k ?ob2 ?p1) = Some (added k sid ty desc sz (first_of fl' (-1)) p)"
    using e2 sid by (simp add: insert_statobj_def added_def set_obj_def Let_def)
  then show ?thesis using ty a k1 e1 by simp
qed

text \<open>An id is at the front of its chain when it has no objects yet, or its objects come first.\<close>

definition at_front :: "stat_pool \<Rightarrow> int list list \<Rightarrow> bytes \<Rightarrow> bool" where
  "at_front p ch sid \<longleftrightarrow> (\<exists>bs vs. ch ! hashid sid = bs @ vs \<and> (\<forall>k\<in>set vs. so_id (obj_at p k) \<noteq> sid) \<and>
     (\<forall>k\<in>set bs. so_id (obj_at p k) = sid))"

lemma grouped_push_new:
  assumes g: "grouped f xs" and s: "xs = bs @ vs" "\<forall>k\<in>set vs. f k \<noteq> f x" "\<forall>k\<in>set bs. f k = f x"
  shows "grouped f (x # xs)"
  unfolding grouped_def
proof
  fix i
  show "\<exists>us bs vs. x # xs = us @ bs @ vs \<and> (\<forall>k\<in>set (us @ vs). f k \<noteq> i) \<and> (\<forall>k\<in>set bs. f k = i)"
  proof (cases "i = f x")
    case True
    then show ?thesis using s by (intro exI [of _ "[]"] exI [of _ "x # bs"] exI [of _ vs]) simp
  next
    case False
    obtain us cs ws where d: "xs = us @ cs @ ws" "\<forall>k\<in>set (us @ ws). f k \<noteq> i" "\<forall>k\<in>set cs. f k = i"
      using groupedD [OF g, of i] by (elim exE conjE)
    show ?thesis
    proof (rule exI [of _ "x # us"], rule exI [of _ cs], rule exI [of _ ws], intro conjI)
      show "\<forall>k\<in>set cs. f k = i" by (rule d(3))
      show "x # xs = (x # us) @ cs @ ws" using d(1) by simp
      show "\<forall>k\<in>set ((x # us) @ ws). f k \<noteq> i"
      proof
        fix k assume "k \<in> set ((x # us) @ ws)"
        then consider "k = x" | "k \<in> set (us @ ws)" by auto
        then show "f k \<noteq> i"
        proof cases
          case 1
          then show ?thesis using False by blast
        next
          case 2
          then show ?thesis by (rule bspec [OF d(2)])
        qed
      qed
    qed
  qed
qed

lemma added_at:
  assumes "length (sp_objs p) = 100" "length sid < 64" "k \<in> {0..<100}" "j \<in> {0..<100}"
  shows "j \<noteq> k \<Longrightarrow> obj_at (added k sid ty desc sz nxt p) j = obj_at p j"
    "so_id (obj_at (added k sid ty desc sz nxt p) k) = sid"
    "so_type (obj_at (added k sid ty desc sz nxt p) k) = ty"
    "so_val_size (obj_at (added k sid ty desc sz nxt p) k) = sz"
    "so_val_offset (obj_at (added k sid ty desc sz nxt p) k) = sp_vals_used p"
    "so_next (obj_at (added k sid ty desc sz nxt p) k) = sp_bucket p ! hashid sid"
    "so_count (obj_at (added k sid ty desc sz nxt p) k) = so_count (obj_at p k)"
  using assms by (auto simp: added_def obj_at_def obj_init_def nth_list_update)

lemma added_links:
  assumes l: "links_ok p ch fl" and sid: "length sid < 64"
    and fl: "fl = k # fl'" "k \<in> {0..<100}" "k \<notin> set (concat ch)" "k \<notin> set fl'"
  shows "links_ok (added k sid ty desc sz (first_of fl' (-1)) p) (ch[hashid sid := k # ch ! hashid sid]) fl'"
proof -
  let ?p = "added k sid ty desc sz (first_of fl' (-1)) p" and ?h = "hashid sid"
  let ?ch = "ch[?h := k # ch ! ?h]"
  note c = links_okD [OF l]
  note at = added_at [OF c(1) sid fl(2)]
  have sg: "sseg (next_at ?p) xs" if "sseg (next_at p) xs" "set xs \<subseteq> {0..<100}" "k \<notin> set xs" for xs
  proof -
    have "next_at p x = next_at ?p x" if "x \<in> set xs" for x
    proof -
      have "x \<in> {0..<100}" "x \<noteq> k" using that \<open>set xs \<subseteq> {0..<100}\<close> \<open>k \<notin> set xs\<close> by blast+
      then show ?thesis using at(1) [of x] by simp
    qed
    then show ?thesis using that(1) sseg_cong [of xs "next_at p" "next_at ?p"] by simp
  qed
  have chain: "sseg (next_at ?p) (ch ! b)" if "b < 100" for b
    using chain_in [OF l that] c(12) fl(3) by (intro sg [OF c(5) [OF that]]) blast+
  have m: "mset (fl' @ concat ?ch) = mset (fl @ concat ch)"
    using mset_concat_push [of ?h ch k] c(3) fl(1) by simp
  have d: "distinct (fl' @ concat ?ch)" "set (fl' @ concat ?ch) = {0..<100}" "length (concat ?ch) = Suc (length (concat ch))"
  proof -
    show "distinct (fl' @ concat ?ch)" using mset_eq_imp_distinct_iff [OF m] l unfolding links_ok_def by blast
    show "set (fl' @ concat ?ch) = {0..<100}" using mset_eq_setD [OF m] l unfolding links_ok_def by blast
    show "length (concat ?ch) = Suc (length (concat ch))"
      using arg_cong [OF mset_concat_push [of ?h ch k], of size] c(3) by (simp only: size_mset size_add_mset hashid_less)
  qed
  have "sseg (next_at ?p) (k # ch ! ?h)"
    using chain [OF hashid_less, of sid] at(6) [OF fl(2)] c(4) [OF hashid_less, of sid] fl(2) by auto
  then have b: "\<forall>b<100. sp_bucket ?p ! b = first_of (?ch ! b) (-1) \<and> sseg (next_at ?p) (?ch ! b)"
    using chain c(2,3,4) by (auto simp: nth_list_update) (auto simp: added_def nth_list_update)
  have "sseg (next_at p) fl'" using c(7) fl(1) by simp
  then have f: "sseg (next_at ?p) fl'" using c(11) fl(1,4) by (intro sg) auto
  have "length (sp_objs ?p) = 100" "length (sp_bucket ?p) = 100" "length ?ch = 100" "sp_freelist ?p = first_of fl' (-1)"
    "sp_objs_used ?p = int (length (concat ?ch))"
    using c(1,2,3,13) d(3) by (simp_all add: added_def)
  then show ?thesis unfolding links_ok_def using b f d(1,2) by blast
qed

lemma added_ranges:
  assumes ok: "stat_ok t p ch fl" and k: "1 \<le> sz" "length sid < 64" "k \<in> {0..<100}" "k \<notin> set (concat ch)"
  shows "ranges_ok (added k sid ty desc sz nxt p) (insert k (set (concat ch)))"
proof -
  let ?p = "added k sid ty desc sz nxt p"
  have l: "links_ok p ch fl" using ok by (simp add: stat_ok_def)
  note c = links_okD [OF l]
  note at = added_at [OF c(1) k(2,3)]
  have old: "obj_at ?p j = obj_at p j" if "j \<in> set (concat ch)" for j
    using at(1) [of j] c(12) that k(4) by blast
  have new: "so_val_size (obj_at ?p k) = sz" "so_val_offset (obj_at ?p k) = sp_vals_used p" "0 \<le> sp_vals_used p"
    "sp_vals_used ?p = sp_vals_used p + sz"
    using at(4,5) [OF k(3)] ok by (simp_all add: stat_ok_def) (simp add: added_def)
  have one: "1 \<le> so_val_size (obj_at ?p j) \<and> 0 \<le> so_val_offset (obj_at ?p j) \<and>
      so_val_offset (obj_at ?p j) + so_val_size (obj_at ?p j) \<le> sp_vals_used ?p" if "j \<in> insert k (set (concat ch))" for j
  proof (cases "j = k")
    case True
    then show ?thesis using new k(1) by simp
  next
    case False
    then have "j \<in> set (concat ch)" using that by blast
    then show ?thesis using old [of j] rangeD(1-3) [OF ok, of j] new(4) k(1) by simp
  qed
  have two: "so_val_offset (obj_at ?p i) + so_val_size (obj_at ?p i) \<le> so_val_offset (obj_at ?p j) \<or>
      so_val_offset (obj_at ?p j) + so_val_size (obj_at ?p j) \<le> so_val_offset (obj_at ?p i)"
    if "i \<in> insert k (set (concat ch))" "j \<in> insert k (set (concat ch))" "i \<noteq> j" for i j
  proof -
    have below: "so_val_offset (obj_at ?p q) + so_val_size (obj_at ?p q) \<le> so_val_offset (obj_at ?p k)"
      if "q \<in> set (concat ch)" for q using old [OF that] rangeD(3) [OF ok that] new(2) by simp
    consider "i = k" "j \<in> set (concat ch)" | "j = k" "i \<in> set (concat ch)" | "i \<in> set (concat ch)" "j \<in> set (concat ch)"
      using \<open>i \<in> insert k (set (concat ch))\<close> \<open>j \<in> insert k (set (concat ch))\<close> \<open>i \<noteq> j\<close> by blast
    then show ?thesis
    proof cases
      case 3
      then show ?thesis using old rangeD(5) [OF ok 3(1,2)] \<open>i \<noteq> j\<close> by simp
    qed (use below in simp_all)
  qed
  show ?thesis unfolding ranges_ok_def using one two by blast
qed

lemma added_ok:
  fixes desc :: "bytes option"
  assumes ok: "stat_ok t p ch fl" and k: "1 \<le> sz" "sp_vals_used p < 100 - sz" "length sid < 64" "policy_of t ty \<noteq> None"
    and fl: "fl = k # fl'" "k \<in> {0..<100}" "k \<notin> set (concat ch)" "k \<notin> set fl'" and fr: "at_front p ch sid"
  defines "p' \<equiv> added k sid ty desc sz (first_of fl' (-1)) p" and "ch' \<equiv> ch[hashid sid := k # ch ! hashid sid]"
  shows "stat_ok t p' ch' fl'" "at_front p' ch' sid"
    "stat_map p' ch' = (stat_map p ch)(sid := (ty, 0, replicate (nat sz) 0) # stat_map p ch sid)"
proof -
  have l: "links_ok p ch fl" using ok by (simp add: stat_ok_def)
  note c = links_okD [OF l]
  let ?h = "hashid sid"
  note at = added_at [OF c(1) k(3) fl(2), of _ ty desc sz "first_of fl' (-1)", folded p'_def]
  have l': "links_ok p' ch' fl'" using added_links [OF l k(3) fl] by (simp add: p'_def ch'_def)
  have old: "obj_at p' j = obj_at p j" if "j \<in> set (concat ch)" for j
    using at(1) [of j] c(12) that fl(3) by blast
  have oldb: "obj_at p' j = obj_at p j" if "b < 100" "j \<in> set (ch ! b)" for b j
    using old chain_in [OF l that(1)] that(2) by blast
  have sid: "so_id (obj_at p' k) = sid" by (rule at(2) [OF fl(2)])
  have ch: "ch' ! b = (if b = ?h then k # ch ! ?h else ch ! b)" if "b < 100" for b
    using that c(3) by (simp add: ch'_def nth_list_update)
  have set: "set (concat ch') = insert k (set (concat ch))"
    using mset_concat_push [of ?h ch k] c(3) by (metis ch'_def hashid_less set_mset_add_mset_insert set_mset_mset)
  obtain bs vs where f: "ch ! ?h = bs @ vs" "\<forall>q\<in>set vs. so_id (obj_at p q) \<noteq> sid" "\<forall>q\<in>set bs. so_id (obj_at p q) = sid"
    using fr unfolding at_front_def by (elim exE conjE)
  have inh: "set (bs @ vs) \<subseteq> set (concat ch)" using chain_in [OF l hashid_less, of sid] f(1) by simp
  have f': "\<forall>q\<in>set vs. so_id (obj_at p' q) \<noteq> so_id (obj_at p' k)" "\<forall>q\<in>set bs. so_id (obj_at p' q) = so_id (obj_at p' k)"
    using f(2,3) inh old unfolding sid by (simp_all add: subset_iff del: set_concat)
  have gr: "grouped (\<lambda>q. so_id (obj_at p' q)) (ch ! b)" if "b < 100" for b
  proof -
    have "grouped (\<lambda>k. so_id (obj_at p k)) (ch ! b)" using ok that by (simp add: stat_ok_def)
    then show ?thesis by (rule grouped_cong) (use oldb [OF that] in simp)
  qed
  have g: "\<forall>b<100. grouped (\<lambda>q. so_id (obj_at p' q)) (ch' ! b)"
    using gr ch grouped_push_new [OF gr [OF hashid_less] f(1) f'] by simp
  have h: "\<forall>b<100. \<forall>q\<in>set (ch' ! b). hashid (so_id (obj_at p' q)) = b"
  proof (intro allI impI ballI)
    fix b q assume b: "b < 100" and q: "q \<in> set (ch' ! b)"
    then consider "b = ?h" "q = k" | "q \<in> set (ch ! b)" using ch [OF b] by (auto split: if_splits)
    then show "hashid (so_id (obj_at p' q)) = b"
    proof cases
      case 1
      then show ?thesis using sid by simp
    next
      case 2
      then show ?thesis using oldb [OF b 2] ok b unfolding stat_ok_def by simp
    qed
  qed
  have po: "\<forall>q\<in>set (concat ch'). policy_of t (so_type (obj_at p' q)) \<noteq> None"
  proof
    fix q assume "q \<in> set (concat ch')"
    then consider "q = k" | "q \<in> set (concat ch)" unfolding set by blast
    then show "policy_of t (so_type (obj_at p' q)) \<noteq> None"
    proof cases
      case 1
      then show ?thesis using at(3) [OF fl(2)] k(4) by simp
    next
      case 2
      then show ?thesis using old [OF 2] ok unfolding stat_ok_def by (simp del: set_concat)
    qed
  qed
  have co: "\<forall>q\<in>set fl'. so_count (obj_at p' q) = 0"
  proof
    fix q assume q: "q \<in> set fl'"
    then have "q \<noteq> k" "q \<in> {0..<100}" "q \<in> set fl" using c(11) fl(1,4) by auto
    then show "so_count (obj_at p' q) = 0" using at(1) [of q] ok by (simp add: stat_ok_def)
  qed
  have v: "sp_vals p' = sp_vals p" "sp_vals_used p' = sp_vals_used p + sz" by (simp_all add: p'_def added_def)
  have vals: "length (sp_vals p') = 100" "0 \<le> sp_vals_used p'" "sp_vals_used p' \<le> 100"
    "\<forall>i. sp_vals_used p' \<le> int i \<and> i < 100 \<longrightarrow> sp_vals p' ! i = 0"
    using ok k(1,2) unfolding v by (simp_all add: stat_ok_def)
  have r: "ranges_ok p' (set (concat ch'))"
    using added_ranges [OF ok k(1,3) fl(2,3)] by (simp add: set p'_def del: set_concat)
  show "stat_ok t p' ch' fl'" unfolding stat_ok_def using l' h g po co vals r by blast
  show "at_front p' ch' sid" unfolding at_front_def
    using f(1) f' sid ch [OF hashid_less, of sid] by (intro exI [of _ "k # bs"] exI [of _ vs]) simp
  have en: "entry_at p' k = (ty, 0, replicate (nat sz) 0)"
  proof -
    have "so_count (obj_at p k) = 0" using ok fl(1) by (simp add: stat_ok_def)
    moreover have "take (nat sz) (drop (nat (sp_vals_used p)) (sp_vals p)) = replicate (nat sz) 0"
      using ok k(1,2) by (intro nth_equalityI) (auto simp: stat_ok_def)
    ultimately show ?thesis using at(3-5,7) [OF fl(2)] by (simp add: entry_at_def Let_def v)
  qed
  have eo: "entry_at p' q = entry_at p q" if "q \<in> set (concat ch)" for q
    using old [OF that] by (simp add: entry_at_def v)
  show "stat_map p' ch' = (stat_map p ch)(sid := (ty, 0, replicate (nat sz) 0) # stat_map p ch sid)"
  proof
    fix i
    have gin: "set (ch ! hashid i) \<subseteq> set (concat ch)" by (rule chain_in [OF l hashid_less])
    have fe: "map (entry_at p') (filter (\<lambda>q. so_id (obj_at p' q) = i) (ch ! hashid i)) = stat_map p ch i"
      unfolding stat_map_def using oldb [OF hashid_less] eo gin
      by (intro map_cong filter_cong) (auto simp del: set_concat)
    show "stat_map p' ch' i = ((stat_map p ch)(sid := (ty, 0, replicate (nat sz) 0) # stat_map p ch sid)) i"
    proof (cases "hashid i = ?h")
      case True
      have "stat_map p' ch' i = (if i = sid then [entry_at p' k] else []) @ stat_map p ch i"
        unfolding fe [symmetric] unfolding stat_map_def ch [OF hashid_less] using True sid by simp
      then show ?thesis using en by simp
    next
      case False
      then show ?thesis using fe unfolding stat_map_def ch [OF hashid_less] by auto
    qed
  qed
qed

section \<open>Runs\<close>

text \<open>
  The abstract pool: the entries of each id and the numbers of objects and values in use.
  Where the code fails an assertion or would write outside the values of an object, the
  abstract operation has no result.
\<close>

type_synonym stat_abs = "(bytes \<Rightarrow> stat_entry list) \<times> int \<times> int"

datatype stat_op = Register bytes int "bytes option" int | Count bytes stat_val int | Reset

fun abs_add :: "int list \<Rightarrow> bytes \<Rightarrow> int \<Rightarrow> int \<Rightarrow> stat_abs \<Rightarrow> stat_abs option" where
  "abs_add [] sid type sz a = Some a"
| "abs_add (ty # tys) sid type sz (m, n, u) =
     (if type AND ty \<noteq> 0
      then if 1 \<le> sz \<and> n < 100 \<and> u < 100 - sz
           then abs_add tys sid type sz (m(sid := (ty, 0, replicate (nat sz) 0) # m sid), n + 1, u + sz)
           else None
      else abs_add tys sid type sz (m, n, u))"

definition zero_entry :: "stat_entry \<Rightarrow> stat_entry" where
  "zero_entry e = (fst e, 0, replicate (length (snd (snd e))) 0)"

fun abs_op :: "stat_policies \<Rightarrow> stat_op \<Rightarrow> stat_abs \<Rightarrow> stat_abs option" where
  "abs_op t (Register sid type desc sz) (m, n, u) =
     (if length sid < 64 then if m sid \<noteq> [] then Some (m, n, u) else abs_add (pt_no t) sid type sz (m, n, u) else None)"
| "abs_op t (Count sid v idx) (m, n, u) =
     (if 1 \<le> idx \<and> list_all (\<lambda>e. idx \<le> int (length (snd (snd e)))) (m sid)
      then Some (m(sid := map (upd t v idx) (m sid)), n, u) else None)"
| "abs_op t Reset (m, n, u) = Some (\<lambda>i. map zero_entry (m i), n, u)"

fun pool_op :: "stat_policies \<Rightarrow> stat_op \<Rightarrow> stat_pool \<Rightarrow> stat_pool option" where
  "pool_op t (Register sid type desc sz) p = map_option snd (init_statobj t sid type desc sz p)"
| "pool_op t (Count sid v idx) p = stat_step t [sid] v idx p"
| "pool_op t Reset p = stat_reset p"

fun run_ops :: "('o \<Rightarrow> 's \<Rightarrow> 's option) \<Rightarrow> 'o list \<Rightarrow> 's \<Rightarrow> 's option" where
  "run_ops f [] s = Some s"
| "run_ops f (x # xs) s = (case f x s of None \<Rightarrow> None | Some s' \<Rightarrow> run_ops f xs s')"

definition stat_rep :: "stat_policies \<Rightarrow> stat_pool \<Rightarrow> stat_abs \<Rightarrow> bool" where
  "stat_rep t p a \<longleftrightarrow> (\<exists>ch fl. stat_ok t p ch fl \<and> a = (stat_map p ch, sp_objs_used p, sp_vals_used p))"

definition policies_ok :: "stat_policies \<Rightarrow> bool" where
  "policies_ok t \<longleftrightarrow> (\<forall>ty\<in>set (pt_no t). policy_of t ty \<noteq> None)"

lemma policies_init: "stat_policies_init = Some t \<Longrightarrow> policies_ok t"
proof -
  have c: "case stat_policies_init of None \<Rightarrow> True | Some t \<Rightarrow> list_all (\<lambda>ty. policy_of t ty \<noteq> None) (pt_no t)" by code_simp
  assume t: "stat_policies_init = Some t"
  have "list_all (\<lambda>ty. policy_of t ty \<noteq> None) (pt_no t)" using c unfolding t by simp
  then show "policies_ok t" by (simp add: policies_ok_def list_all_iff)
qed

lemma add_statobjs_rep:
  assumes t: "\<forall>ty\<in>set tys. policy_of t ty \<noteq> None"
  shows "stat_ok t p ch fl \<Longrightarrow> at_front p ch sid \<Longrightarrow> length sid < 64 \<Longrightarrow>
     abs_add tys sid type sz (stat_map p ch, sp_objs_used p, sp_vals_used p) = Some a \<Longrightarrow>
     \<exists>p'. add_statobjs tys sid type desc sz p = Some (0, p') \<and> stat_rep t p' a"
  using t
proof (induction tys arbitrary: p ch fl)
  case Nil
  then show ?case by (auto simp: stat_rep_def)
next
  case (Cons ty tys)
  show ?case
  proof (cases "type AND ty \<noteq> 0")
    case False
    then show ?thesis using Cons by simp
  next
    case True
    then have r: "1 \<le> sz" "sp_objs_used p < 100" "sp_vals_used p < 100 - sz"
      and a: "abs_add tys sid type sz ((stat_map p ch)(sid := (ty, 0, replicate (nat sz) 0) # stat_map p ch sid),
          sp_objs_used p + 1, sp_vals_used p + sz) = Some a"
      using Cons.prems(4) by (auto split: if_splits)
    have l: "links_ok p ch fl" using Cons.prems(1) by (simp add: stat_ok_def)
    obtain k fl' where fl: "fl = k # fl'" "k \<in> {0..<100}" "k \<notin> set (concat ch)" "k \<notin> set fl'"
      "sp_freelist p = k" "next_at p k = first_of fl' (-1)" using free_list [OF l r(2)] by blast
    have po: "policy_of t ty \<noteq> None" using Cons.prems(5) by simp
    let ?p = "added k sid ty desc sz (first_of fl' (-1)) p" and ?ch = "ch[hashid sid := k # ch ! hashid sid]"
    note ok = added_ok [OF Cons.prems(1) r(1,3) Cons.prems(3) po fl(1-4) Cons.prems(2), of desc]
    have u: "sp_objs_used ?p = sp_objs_used p + 1" "sp_vals_used ?p = sp_vals_used p + sz" by (simp_all add: added_def)
    have "abs_add tys sid type sz (stat_map ?p ?ch, sp_objs_used ?p, sp_vals_used ?p) = Some a"
      using a unfolding u ok(3) .
    moreover have "\<forall>ty\<in>set tys. policy_of t ty \<noteq> None" using Cons.prems(5) by simp
    ultimately obtain p' where "add_statobjs tys sid type desc sz ?p = Some (0, p')" "stat_rep t p' a"
      using Cons.IH [OF ok(1,2) Cons.prems(3)] by blast
    moreover have "add_statobjs (ty # tys) sid type desc sz p = add_statobjs tys sid type desc sz ?p"
      by (rule added_eq [OF l r(2,1,3) Cons.prems(3) fl(1,2,5,6) True])
    ultimately show ?thesis by (intro exI [of _ p']) simp
  qed
qed

lemma register_rep:
  assumes t: "policies_ok t" and ok: "stat_rep t p a" and a: "abs_op t (Register sid type desc sz) a = Some a'"
  shows "\<exists>p'. pool_op t (Register sid type desc sz) p = Some p' \<and> stat_rep t p' a'"
proof -
  obtain ch fl where c: "stat_ok t p ch fl" "a = (stat_map p ch, sp_objs_used p, sp_vals_used p)"
    using ok by (auto simp: stat_rep_def)
  have len: "length sid < 64" using a c(2) by (auto split: if_splits)
  obtain us bs vs where s: "ch ! hashid sid = us @ bs @ vs" "\<forall>k\<in>set (us @ vs). so_id (obj_at p k) \<noteq> sid"
    "\<forall>k\<in>set bs. so_id (obj_at p k) = sid" "filter (\<lambda>k. so_id (obj_at p k) = sid) (ch ! hashid sid) = bs"
    using stat_chain [OF c(1), of sid] by (elim exE conjE)
  have m: "stat_map p ch sid = map (entry_at p) bs" by (simp add: stat_map_def s(4))
  note f = find_statobj_chain [OF c(1) s(1-3)]
  show ?thesis
  proof (cases "bs = []")
    case True
    have fr: "at_front p ch sid" unfolding at_front_def
      by (rule exI [of _ "[]"], rule exI [of _ "us @ vs"]) (use s True in simp)
    have "abs_add (pt_no t) sid type sz (stat_map p ch, sp_objs_used p, sp_vals_used p) = Some a'"
      using a c(2) m True len by simp
    then obtain p' where "add_statobjs (pt_no t) sid type desc sz p = Some (0, p')" "stat_rep t p' a'"
      using add_statobjs_rep [OF _ c(1) fr len] t unfolding policies_ok_def by blast
    then show ?thesis using f True by (intro exI [of _ p']) (simp add: init_statobj_def)
  next
    case False
    then obtain b bs' where b: "bs = b # bs'" by (cases bs) auto
    have "b \<in> set (ch ! hashid sid)" using s(1) b by simp
    moreover have "links_ok p ch fl" using c(1) by (simp add: stat_ok_def)
    ultimately have "b \<in> {0..<100}" using chain_in [OF _ hashid_less] links_okD(12) by blast
    then have "b \<noteq> -1" by auto
    moreover have "a' = a" using a c(2) m False len by simp
    ultimately show ?thesis using f b ok by (intro exI [of _ p]) (simp add: init_statobj_def)
  qed
qed

lemma count_rep:
  assumes ok: "stat_rep t p a" and a: "abs_op t (Count sid v idx) a = Some a'"
  shows "\<exists>p'. pool_op t (Count sid v idx) p = Some p' \<and> stat_rep t p' a'"
proof -
  obtain ch fl where c: "stat_ok t p ch fl" "a = (stat_map p ch, sp_objs_used p, sp_vals_used p)"
    using ok by (auto simp: stat_rep_def)
  have i: "1 \<le> idx" "\<forall>e\<in>set (stat_map p ch sid). idx \<le> int (length (snd (snd e)))"
    and a': "a' = ((stat_map p ch)(sid := map (upd t v idx) (stat_map p ch sid)), sp_objs_used p, sp_vals_used p)"
    using a c(2) by (auto simp: list_all_iff split: if_splits)
  obtain p' where p': "step0 t sid v idx p = Some p'" "stat_ok t p' ch fl" "sp_objs_used p' = sp_objs_used p"
    "sp_vals_used p' = sp_vals_used p" "stat_map p' ch = (stat_map p ch)(sid := map (upd t v idx) (stat_map p ch sid))"
    using step0_map [OF c(1) i, of v] by (elim exE conjE)
  have "stat_rep t p' a'" unfolding stat_rep_def using p' a'
    by (intro exI [of _ ch] exI [of _ fl]) simp
  then show ?thesis using p'(1) by (intro exI [of _ p']) simp
qed

section \<open>Resetting\<close>

lemma policy_reset_entry:
  assumes "1 \<le> so_val_size ob" "0 \<le> so_val_offset ob" "nat (so_val_offset ob) + nat (so_val_size ob) \<le> length vs"
  shows "\<exists>vs'. policy_reset ob vs = Some (ob\<lparr>so_count := 0\<rparr>, vs') \<and> length vs' = length vs \<and>
     take (nat (so_val_size ob)) (drop (nat (so_val_offset ob)) vs') = replicate (nat (so_val_size ob)) 0 \<and>
     (\<forall>j<length vs. j < nat (so_val_offset ob) \<or> nat (so_val_offset ob) + nat (so_val_size ob) \<le> j \<longrightarrow> vs' ! j = vs ! j)"
proof -
  define off n where "off = nat (so_val_offset ob)" and "n = nat (so_val_size ob)"
  let ?vs = "take off vs @ replicate n 0 @ drop (off + n) vs"
  have b: "off + n \<le> length vs" using assms(3) by (simp add: off_def n_def)
  have "policy_reset ob vs = Some (ob\<lparr>so_count := 0\<rparr>, ?vs)"
    using assms by (simp add: policy_reset_def off_def n_def Let_def)
  moreover have "length ?vs = length vs" "take n (drop off ?vs) = replicate n 0" using b by simp_all
  moreover have "?vs ! j = vs ! j" if "j < length vs" "j < off \<or> off + n \<le> j" for j
    using that b by (auto simp: nth_append min_def)
  ultimately show ?thesis unfolding off_def n_def by blast
qed

lemma reset_one:
  assumes ok: "stat_ok t p ch fl" and k: "k \<in> set (concat ch)"
  shows "\<exists>p'. (\<forall>ks. reset_all (k # ks) p = reset_all ks p') \<and> stat_ok t p' ch fl \<and> same_links p p' \<and>
     (\<forall>j\<in>set (concat ch). entry_at p' j = (if j = k then zero_entry (entry_at p k) else entry_at p j))"
proof -
  have l: "links_ok p ch fl" using ok by (simp add: stat_ok_def)
  have kr: "k \<in> {0..<100}" using links_okD(12) [OF l] k by blast
  note len = links_okD(1) [OF l]
  let ?ob = "obj_at p k"
  note r = rangeD [OF ok k]
  define off n where "off = nat (so_val_offset ?ob)" and "n = nat (so_val_size ?ob)"
  obtain vs' where v: "policy_reset ?ob (sp_vals p) = Some (?ob\<lparr>so_count := 0\<rparr>, vs')" "length vs' = length (sp_vals p)"
    "take n (drop off vs') = replicate n 0" "\<forall>j<length (sp_vals p). j < off \<or> off + n \<le> j \<longrightarrow> vs' ! j = sp_vals p ! j"
    using policy_reset_entry [OF r(1,2,4)] unfolding off_def n_def by (elim exE conjE)
  let ?p = "(set_obj k (?ob\<lparr>so_count := 0\<rparr>) p)\<lparr>sp_vals := vs'\<rparr>"
  have at: "obj_at ?p j = (if j = k then ?ob\<lparr>so_count := 0\<rparr> else obj_at p j)" if "j \<in> {0..<100}" for j
    using obj_at_set [OF len kr that] by (simp add: obj_at_def)
  have sl: "same_links p ?p"
    using at v(2) by (auto simp: same_links_def same_frame_def) (auto simp: set_obj_def)
  have "\<forall>q\<in>set fl. so_count (obj_at ?p q) = 0"
  proof
    fix q assume q: "q \<in> set fl"
    then have "q \<noteq> k" "q \<in> {0..<100}" using links_okD(10,11) [OF l] k by blast+
    then show "so_count (obj_at ?p q) = 0" using at ok q by (simp add: stat_ok_def)
  qed
  moreover have "\<forall>i. sp_vals_used p \<le> int i \<and> i < 100 \<longrightarrow> sp_vals ?p ! i = 0"
  proof (intro allI impI)
    fix i assume i: "sp_vals_used p \<le> int i \<and> i < 100"
    then have "off + n \<le> i" using r(1-3) by (auto simp: off_def n_def)
    then show "sp_vals ?p ! i = 0" using ok i v(4) by (simp add: stat_ok_def)
  qed
  ultimately have ok': "stat_ok t ?p ch fl" by (rule stat_ok_same [OF ok sl])
  have ol: "off + n \<le> length (sp_vals p)" using r(4) by (simp add: off_def n_def)
  have en: "entry_at ?p q = (if q = k then zero_entry (entry_at p k) else entry_at p q)" if q: "q \<in> set (concat ch)" for q
  proof (cases "q = k")
    case True
    have "length (take n (drop off (sp_vals p))) = n" using ol by simp
    then show ?thesis using True at [OF kr] v(3)
      by (simp add: entry_at_def Let_def zero_entry_def off_def n_def)
  next
    case False
    have "q \<in> {0..<100}" using links_okD(12) [OF l] q by blast
    moreover have "take (nat (so_val_size (obj_at p q))) (drop (nat (so_val_offset (obj_at p q))) vs') =
        take (nat (so_val_size (obj_at p q))) (drop (nat (so_val_offset (obj_at p q))) (sp_vals p))"
      (is "take ?m (drop ?o _) = _")
    proof (rule nth_equalityI)
      show "length (take ?m (drop ?o vs')) = length (take ?m (drop ?o (sp_vals p)))" using v(2) by simp
      fix i assume "i < length (take ?m (drop ?o vs'))"
      then have i: "i < ?m" "?o + i < length vs'" by (auto simp: less_diff_conv add.commute)
      have "?o + i < off \<or> off + n \<le> ?o + i"
        using r(1,2) r(5) [OF q False] rangeD(1,2) [OF ok q] i(1) by (auto simp: off_def n_def)
      then have "vs' ! (?o + i) = sp_vals p ! (?o + i)" using spec [OF v(4), of "?o + i"] v(2) i(2) by auto
      then show "take ?m (drop ?o vs') ! i = take ?m (drop ?o (sp_vals p)) ! i" using v(2) i by simp
    qed
    ultimately show ?thesis using False at [of q] by (simp add: entry_at_def Let_def)
  qed
  have "obj_entry p k = Some ?ob" using entry_obj [OF len kr] .
  then have "\<forall>ks. reset_all (k # ks) p = reset_all ks ?p" using v(1) by simp
  then show ?thesis using ok' sl en by blast
qed

lemma reset_all_ok:
  "stat_ok t p ch fl \<Longrightarrow> distinct ks \<Longrightarrow> set ks \<subseteq> set (concat ch) \<Longrightarrow>
   \<exists>p'. reset_all ks p = Some p' \<and> stat_ok t p' ch fl \<and> same_links p p' \<and>
     (\<forall>j\<in>set (concat ch). entry_at p' j = (if j \<in> set ks then zero_entry (entry_at p j) else entry_at p j))"
proof (induction ks arbitrary: p)
  case Nil
  then show ?case by simp
next
  case (Cons k ks)
  have k: "k \<in> set (concat ch)" using Cons.prems(3) by (meson list.set_intros(1) subsetD)
  obtain p1 where p1: "\<forall>ks. reset_all (k # ks) p = reset_all ks p1" "stat_ok t p1 ch fl" "same_links p p1"
    "\<forall>j\<in>set (concat ch). entry_at p1 j = (if j = k then zero_entry (entry_at p k) else entry_at p j)"
    using reset_one [OF Cons.prems(1) k] by (elim exE conjE)
  have "distinct ks" "set ks \<subseteq> set (concat ch)" using Cons.prems(2,3) by (simp_all del: set_concat)
  then obtain p2 where p2: "reset_all ks p1 = Some p2" "stat_ok t p2 ch fl" "same_links p1 p2"
    "\<forall>j\<in>set (concat ch). entry_at p2 j = (if j \<in> set ks then zero_entry (entry_at p1 j) else entry_at p1 j)"
    using Cons.IH [OF p1(2)] by blast
  have "\<forall>j\<in>set (concat ch). entry_at p2 j = (if j \<in> set (k # ks) then zero_entry (entry_at p j) else entry_at p j)"
    using p1(4) p2(4) Cons.prems(2) by (auto simp del: set_concat)
  then show ?case using p1(1) p2(1,2) same_links_trans [OF p1(3) p2(3)] by (intro exI [of _ p2]) simp
qed

text \<open>The walk over all chains visits every object once.\<close>

lemma travel_chains:
  assumes "\<And>xs. xs \<in> set ch \<Longrightarrow> sseg (next_at p) xs \<and> set xs \<subseteq> {0..<100} \<and> length xs < chain_fuel p" "length (sp_objs p) = 100"
  shows "travel p (map (\<lambda>xs. first_of xs (-1)) ch) = Some (concat ch)"
  using assms(1)
proof (induction ch)
  case (Cons xs ch)
  have "walk (chain_fuel p) p (first_of xs (-1)) = Some xs" using Cons.prems [of xs] assms(2) by (intro walk_chain) simp_all
  moreover have "travel p (map (\<lambda>xs. first_of xs (-1)) ch) = Some (concat ch)" using Cons.prems by (intro Cons.IH) simp
  ultimately show ?case by simp
qed simp

lemma travel_all:
  assumes "links_ok p ch fl"
  shows "travel p (sp_bucket p) = Some (concat ch)"
proof -
  note c = links_okD [OF assms]
  have b: "sp_bucket p = map (\<lambda>xs. first_of xs (-1)) ch" using c(2-4) by (intro nth_equalityI) simp_all
  show ?thesis unfolding b
  proof (rule travel_chains [OF _ c(1)])
    fix xs assume "xs \<in> set ch"
    then obtain i where i: "i < 100" "xs = ch ! i" using c(3) by (metis in_set_conv_nth)
    then show "sseg (next_at p) xs \<and> set xs \<subseteq> {0..<100} \<and> length xs < chain_fuel p"
      using c(5) [OF i(1)] chain_in [OF assms i(1)] c(12) chain_length [OF assms i(1)] by blast
  qed
qed

lemma reset_rep:
  assumes ok: "stat_rep t p a" and a: "abs_op t Reset a = Some a'"
  shows "\<exists>p'. pool_op t Reset p = Some p' \<and> stat_rep t p' a'"
proof -
  obtain ch fl where c: "stat_ok t p ch fl" "a = (stat_map p ch, sp_objs_used p, sp_vals_used p)"
    using ok by (auto simp: stat_rep_def)
  have l: "links_ok p ch fl" using c(1) by (simp add: stat_ok_def)
  obtain p' where p': "reset_all (concat ch) p = Some p'" "stat_ok t p' ch fl" "same_links p p'"
    "\<forall>j\<in>set (concat ch). entry_at p' j = zero_entry (entry_at p j)"
    using reset_all_ok [OF c(1) links_okD(9) [OF l] order_refl] by (auto simp del: set_concat)
  have "stat_map p' ch i = map zero_entry (stat_map p ch i)" for i
  proof -
    have gin: "set (ch ! hashid i) \<subseteq> set (concat ch)" by (rule chain_in [OF l hashid_less])
    have "so_id (obj_at p' k) = so_id (obj_at p k)" if "k \<in> set (ch ! hashid i)" for k
      using same_linksD(1) [OF p'(3)] gin links_okD(12) [OF l] that by blast
    then have f: "filter (\<lambda>k. so_id (obj_at p' k) = i) (ch ! hashid i) = filter (\<lambda>k. so_id (obj_at p k) = i) (ch ! hashid i)"
      by (intro filter_cong) simp_all
    have "entry_at p' k = zero_entry (entry_at p k)" if "k \<in> set (ch ! hashid i)" for k
      using p'(4) gin that by blast
    then show ?thesis unfolding stat_map_def f by simp
  qed
  then have "stat_map p' ch = (\<lambda>i. map zero_entry (stat_map p ch i))" by (intro ext)
  moreover have "sp_objs_used p' = sp_objs_used p" "sp_vals_used p' = sp_vals_used p" using p'(3) by (simp_all add: same_links_def)
  ultimately have "stat_rep t p' a'" unfolding stat_rep_def using p'(2) a c(2) by (intro exI [of _ ch] exI [of _ fl]) simp
  then show ?thesis using p'(1) travel_all [OF l] by (intro exI [of _ p']) (simp add: stat_reset_def)
qed

section \<open>Properties\<close>

lemma op_rep:
  assumes "policies_ok t" "stat_rep t p a" "abs_op t x a = Some a'"
  shows "\<exists>p'. pool_op t x p = Some p' \<and> stat_rep t p' a'"
  using assms register_rep count_rep reset_rep by (cases x) blast+

lemma newpool_next: "j \<in> {0..<100} \<Longrightarrow> next_at newpool j = (if j = 99 then -1 else j + 1)"
  by (auto simp: newpool_def obj_at_def nth_append)

lemma sseg_upto:
  "99 - lo = int n \<Longrightarrow> 0 \<le> lo \<Longrightarrow> sseg (next_at newpool) [lo..99]"
proof (induction n arbitrary: lo)
  case 0
  then show ?case using newpool_next [of 99] by simp
next
  case (Suc n)
  have "sseg (next_at newpool) [lo + 1..99]" using Suc.prems by (intro Suc.IH) simp_all
  moreover have "first_of [lo + 1..99] (-1) = lo + 1" using Suc.prems by (simp add: upto.simps)
  moreover have "[lo..99] = lo # [lo + 1..99]" using Suc.prems by (simp add: upto.simps)
  ultimately show ?case using Suc.prems newpool_next [of lo] by simp
qed

lemma newpool_rep: "stat_rep t newpool (\<lambda>i. [], 0, 0)"
proof -
  have c: "concat (replicate n []) = ([] :: int list)" for n by (induction n) simp_all
  have "first_of [0..99] (-1) = (0 :: int)" by (simp add: upto.simps)
  then have "links_ok newpool (replicate 100 []) [0..99]"
    using sseg_upto [of 0 99] by (auto simp: links_ok_def newpool_def c)
  then have "stat_ok t newpool (replicate 100 []) [0..99]"
    by (auto simp: stat_ok_def c ranges_ok_def grouped_def) (auto simp: newpool_def obj_at_def nth_append no_obj_def)
  moreover have "stat_map newpool (replicate 100 []) = (\<lambda>i. [])" by (auto simp: stat_map_def)
  ultimately show ?thesis unfolding stat_rep_def
    by (intro exI [of _ "replicate 100 []"] exI [of _ "[0..99]"]) (simp add: newpool_def)
qed

lemma run_ops_rep:
  "policies_ok t \<Longrightarrow> stat_rep t p a \<Longrightarrow> run_ops (abs_op t) ops a = Some a' \<Longrightarrow>
   \<exists>p'. run_ops (pool_op t) ops p = Some p' \<and> stat_rep t p' a'"
proof (induction ops arbitrary: p a)
  case (Cons x ops)
  obtain a1 where a1: "abs_op t x a = Some a1" "run_ops (abs_op t) ops a1 = Some a'"
    using Cons.prems(3) by (cases "abs_op t x a") simp_all
  obtain p1 where p1: "pool_op t x p = Some p1" "stat_rep t p1 a1" using op_rep [OF Cons.prems(1,2) a1(1)] by blast
  then show ?case using Cons.IH [OF Cons.prems(1) p1(2) a1(2)] by simp
qed simp

text \<open>What a query of an id and the report see.\<close>

lemma query_rep:
  assumes "stat_rep t p (m, n, u)"
  shows "\<exists>ob. stat_query sid p = Some (if m sid = [] then (ERR_STAT_NONE, None) else (1, Some ob)) \<and>
     (m sid \<noteq> [] \<longrightarrow> so_id ob = sid \<and> so_type ob = fst (hd (m sid)) \<and> so_count ob = fst (snd (hd (m sid))) \<and>
        read_values ob (sp_vals p) = Some (snd (snd (hd (m sid)))))"
proof -
  obtain ch fl where c: "stat_ok t p ch fl" "m = stat_map p ch" using assms by (auto simp: stat_rep_def)
  have l: "links_ok p ch fl" using c(1) by (simp add: stat_ok_def)
  obtain us bs vs where s: "ch ! hashid sid = us @ bs @ vs" "\<forall>k\<in>set (us @ vs). so_id (obj_at p k) \<noteq> sid"
    "\<forall>k\<in>set bs. so_id (obj_at p k) = sid" "filter (\<lambda>k. so_id (obj_at p k) = sid) (ch ! hashid sid) = bs"
    using stat_chain [OF c(1), of sid] by (elim exE conjE)
  have m: "m sid = map (entry_at p) bs" by (simp add: c(2) stat_map_def s(4))
  note f = find_statobj_chain [OF c(1) s(1-3)]
  show ?thesis
  proof (cases bs)
    case Nil
    then show ?thesis using f m by (intro exI [of _ no_obj]) (simp add: stat_query_def)
  next
    case (Cons b bs')
    have b: "b \<in> set (concat ch)" using chain_in [OF l hashid_less, of sid] s(1) Cons by auto
    then have r: "b \<in> {0..<100}" using links_okD(12) [OF l] by blast
    have "b \<noteq> -1" using r by auto
    moreover have "obj_entry p b = Some (obj_at p b)" using entry_obj [OF links_okD(1) [OF l] r] .
    moreover have "read_values (obj_at p b) (sp_vals p) = Some (snd (snd (entry_at p b)))"
      using rangeD(2,4) [OF c(1) b] by (simp add: read_values_def entry_at_def Let_def)
    ultimately show ?thesis using f m Cons s(3)
      by (intro exI [of _ "obj_at p b"]) (simp add: stat_query_def entry_at_def Let_def)
  qed
qed


definition six_policies :: stat_policies where
  "six_policies = \<lparr>pt_policy = map Some [PolicySum, PolicyAvg, PolicyMax, PolicyMin, PolicyCount, PolicyUpdate],
     pt_no = [1, 2, 4, 8, 16, 32], pt_type = [0, 0, 1, 0, 2, 0, 0, 0, 3] @ replicate 7 0 @ [4] @ replicate 15 0 @ [5] @ replicate 31 0,
     pt_num = 6\<rparr>"

lemma stat_policies_init_eq: "stat_policies_init = Some six_policies"
  by code_simp


end
