(* ===== verification/DataPlatform.thy ===== *)
theory DataPlatform
  imports AppCombo
begin

text \<open>
  The data platform protocol (\<open>libprotocol/include/data_platform_protocol.h\<close>,
  \<open>libprotocol/src/data_platform_protocol.cpp\<close>; the part under \<open>#if 0\<close> is not compiled): typed
  values, the requests (query, update, delta, insert, delete, count, find, and the combination
  of several), their responses, and the cookie that goes with a request.  Every request has a
  variant for each packer; what they pack is one body, parametrised by the put operation.
\<close>

section \<open>Typed values\<close>

definition TLV_BYTE :: byte where "TLV_BYTE = 0"
definition TLV_WORD :: byte where "TLV_WORD = 1"
definition TLV_DWORD :: byte where "TLV_DWORD = 2"
definition TLV_QWORD :: byte where "TLV_QWORD = 3"
definition TLV_REAL :: byte where "TLV_REAL = 4"
definition TLV_STRING :: byte where "TLV_STRING = 5"
definition TLV_BINARY :: byte where "TLV_BINARY = 6"

lemmas tlv_types = TLV_BYTE_def TLV_WORD_def TLV_DWORD_def TLV_QWORD_def TLV_REAL_def TLV_STRING_def TLV_BINARY_def

text \<open>\<open>'r\<close> is the type of doubles, which the code only formats and parses.\<close>

record 'r tlv =
  tlv_type :: byte
  tlv_length :: nat
  int_value :: nat
  real_value :: 'r
  string_value :: bytes

definition tlv_new :: "'r tlv \<Rightarrow> 'r tlv" where
  "tlv_new junk = junk\<lparr>string_value := []\<rparr>"

text \<open>Copying an object: the copy starts with an empty string.\<close>

definition tlv_copy :: "'r tlv \<Rightarrow> 'r tlv" where
  "tlv_copy t = (if tlv_type t = TLV_STRING \<or> tlv_type t = TLV_BINARY then t else t\<lparr>string_value := []\<rparr>)"

definition Assign_byte :: "nat \<Rightarrow> 'r tlv \<Rightarrow> 'r tlv" where
  "Assign_byte v t = t\<lparr>tlv_type := TLV_BYTE, tlv_length := 1, int_value := v\<rparr>"

definition Assign_word :: "nat \<Rightarrow> 'r tlv \<Rightarrow> 'r tlv" where
  "Assign_word v t = t\<lparr>tlv_type := TLV_WORD, tlv_length := 2, int_value := v\<rparr>"

definition Assign_dword :: "nat \<Rightarrow> 'r tlv \<Rightarrow> 'r tlv" where
  "Assign_dword v t = t\<lparr>tlv_type := TLV_DWORD, tlv_length := 4, int_value := v\<rparr>"

definition Assign_qword :: "nat \<Rightarrow> 'r tlv \<Rightarrow> 'r tlv" where
  "Assign_qword v t = t\<lparr>tlv_type := TLV_QWORD, tlv_length := 8, int_value := v\<rparr>"

definition Assign_real :: "'r \<Rightarrow> 'r tlv \<Rightarrow> 'r tlv" where
  "Assign_real v t = t\<lparr>tlv_type := TLV_REAL, tlv_length := 8, real_value := v\<rparr>"

definition Assign_string :: "bytes \<Rightarrow> 'r tlv \<Rightarrow> 'r tlv" where
  "Assign_string v t = t\<lparr>tlv_type := TLV_STRING, tlv_length := length v mod 2 ^ 32, string_value := v\<rparr>"

text \<open>A C string, \<open>None\<close> is the null pointer, after which length and value are the old ones.\<close>

definition Assign_cstr :: "bytes option \<Rightarrow> 'r tlv \<Rightarrow> 'r tlv" where
  "Assign_cstr v t =
     (case v of None \<Rightarrow> t\<lparr>tlv_type := TLV_STRING\<rparr>
      | Some s \<Rightarrow> let s = takeWhile (\<lambda>b. b \<noteq> 0) s
                  in t\<lparr>tlv_type := TLV_STRING, tlv_length := length s mod 2 ^ 32, string_value := s\<rparr>)"

definition Assign_binary :: "bytes \<Rightarrow> nat \<Rightarrow> 'r tlv \<Rightarrow> 'r tlv option" where
  "Assign_binary v len t =
     (let t1 = t\<lparr>tlv_type := TLV_BINARY, tlv_length := len\<rparr>
      in if len > 0 then do { s \<leftarrow> memrd v 0 len; Some (t1\<lparr>string_value := s\<rparr>) } else Some t1)"

text \<open>The signed constructors convert to the unsigned type of the same width.\<close>

definition TLV_char :: "int \<Rightarrow> 'r tlv \<Rightarrow> 'r tlv" where
  "TLV_char v junk = Assign_byte (nat (v mod 2 ^ 8)) (tlv_new junk)"

definition TLV_short :: "int \<Rightarrow> 'r tlv \<Rightarrow> 'r tlv" where
  "TLV_short v junk = Assign_word (nat (v mod 2 ^ 16)) (tlv_new junk)"

definition TLV_int :: "int \<Rightarrow> 'r tlv \<Rightarrow> 'r tlv" where
  "TLV_int v junk = Assign_dword (nat (v mod 2 ^ 32)) (tlv_new junk)"

definition TLV_int64 :: "int \<Rightarrow> 'r tlv \<Rightarrow> 'r tlv" where
  "TLV_int64 v junk = Assign_qword (nat (v mod 2 ^ 64)) (tlv_new junk)"

definition PackTLV :: "('p \<Rightarrow> pack_item \<Rightarrow> 'p option) \<Rightarrow> ('p \<Rightarrow> 'r \<Rightarrow> 'p option) \<Rightarrow> 'p \<Rightarrow> 'r tlv \<Rightarrow> (nat \<times> 'p) option" where
  "PackTLV put put_real pk t = do {
     pk \<leftarrow> put pk (Byte (tlv_type t));
     pk \<leftarrow> put pk (DWord (tlv_length t));
     if tlv_type t = TLV_BYTE then do { pk \<leftarrow> put pk (Byte (of_nat (int_value t))); Some (RET_OK, pk) }
     else if tlv_type t = TLV_WORD then do { pk \<leftarrow> put pk (Word16 (int_value t mod 2 ^ 16)); Some (RET_OK, pk) }
     else if tlv_type t = TLV_DWORD then do { pk \<leftarrow> put pk (DWord (int_value t mod 2 ^ 32)); Some (RET_OK, pk) }
     else if tlv_type t = TLV_QWORD then do { pk \<leftarrow> put pk (QWord (int_value t)); Some (RET_OK, pk) }
     else if tlv_type t = TLV_REAL then do { pk \<leftarrow> put_real pk (real_value t); Some (RET_OK, pk) }
     else if tlv_type t = TLV_STRING \<or> tlv_type t = TLV_BINARY
     then do { pk \<leftarrow> put pk (Binary (take (length (string_value t) mod 2 ^ 32) (string_value t))); Some (RET_OK, pk) }
     else Some (ERR_PROTOCOL, pk)
   }"

definition PackTLV_packer :: "('r \<Rightarrow> bytes) \<Rightarrow> bytes \<Rightarrow> 'r tlv \<Rightarrow> (nat \<times> bytes) option" where
  "PackTLV_packer fmt = PackTLV packer_put (PackReal fmt)"

definition PackTLV_fixed :: "('r \<Rightarrow> bytes) \<Rightarrow> fixed_packer \<Rightarrow> 'r tlv \<Rightarrow> (nat \<times> fixed_packer) option" where
  "PackTLV_fixed fmt = PackTLV fixed_put (FP_PackReal fmt)"

definition UnPackTLV :: "(bytes \<Rightarrow> 'r :: zero) \<Rightarrow> unpacker \<Rightarrow> 'r tlv \<Rightarrow> (nat \<times> 'r tlv \<times> unpacker) option" where
  "UnPackTLV atof up t = do {
     (ty, up) \<leftarrow> UnPackByte up;
     (len, up) \<leftarrow> UnPackDWord up;
     let t = t\<lparr>tlv_type := ty, tlv_length := len\<rparr>;
     if ty = TLV_BYTE then do { (v, up) \<leftarrow> UnPackByte up; Some (RET_OK, t\<lparr>int_value := unat v\<rparr>, up) }
     else if ty = TLV_WORD then do { (v, up) \<leftarrow> UnPackWord up; Some (RET_OK, t\<lparr>int_value := v\<rparr>, up) }
     else if ty = TLV_DWORD then do { (v, up) \<leftarrow> UnPackDWord up; Some (RET_OK, t\<lparr>int_value := v\<rparr>, up) }
     else if ty = TLV_QWORD then do { (v, up) \<leftarrow> UnPackQWord up; Some (RET_OK, t\<lparr>int_value := v\<rparr>, up) }
     else if ty = TLV_REAL then do { (v, up) \<leftarrow> UnPackReal atof up; Some (RET_OK, t\<lparr>real_value := v\<rparr>, up) }
     else if ty = TLV_STRING \<or> ty = TLV_BINARY
     then do { (_, s, up) \<leftarrow> UnPackBinary_str up (string_value t) len; Some (RET_OK, t\<lparr>string_value := s\<rparr>, up) }
     else Some (ERR_PROTOCOL, t, up)
   }"

section \<open>Cookies\<close>

text \<open>\<open>m_pReqPack\<close> is the memory from the pointer on, \<open>None\<close> the null pointer.\<close>

record comm_cookie =
  m_Source :: nat
  m_Flow :: nat
  m_pReqPack :: "bytes option"
  m_ReqPackLen :: nat
  m_strExtInfo :: bytes

definition cookie_len :: "comm_cookie \<Rightarrow> nat" where
  "cookie_len c = (8 + length (m_strExtInfo c) + m_ReqPackLen c) mod 2 ^ 32"

definition CommCookie_Pack_buf :: "comm_cookie \<Rightarrow> bytes \<Rightarrow> nat \<Rightarrow> (int \<times> bytes) option" where
  "CommCookie_Pack_buf c buf len =
     (if cookie_len c > 0xFFFF then Some (-1, buf)
      else if len < cookie_len c then Some (-1, buf)
      else do {
        b \<leftarrow> memwr buf 0 (le_bytes 2 (htons (m_Source c)));
        b \<leftarrow> memwr b 2 (le_bytes 4 (htonl (m_Flow c)));
        b \<leftarrow> memwr b 6 (le_bytes 2 (htons (length (m_strExtInfo c) mod 2 ^ 16)));
        b \<leftarrow> (if m_strExtInfo c \<noteq> [] then memwr b 8 (m_strExtInfo c) else Some b);
        b \<leftarrow> (if m_ReqPackLen c > 0
              then do { r \<leftarrow> m_pReqPack c; v \<leftarrow> memrd r 0 (m_ReqPackLen c); memwr b (8 + length (m_strExtInfo c)) v }
              else Some b);
        Some (int (cookie_len c), b)
      })"

text \<open>\<open>stk\<close> is what the array on the stack holds before.\<close>

definition CommCookie_Pack :: "(nat \<Rightarrow> byte) \<Rightarrow> comm_cookie \<Rightarrow> bytes \<Rightarrow> (int \<times> bytes) option" where
  "CommCookie_Pack stk c ck =
     (let ck_len = s32_of_nat (cookie_len c)
      in if ck_len > 0xFFFF then Some (-1, ck)
         else if ck_len \<le> 0 then None
         else do {
           (_, b) \<leftarrow> CommCookie_Pack_buf c (map stk [0..<nat ck_len]) (nat ck_len);
           Some (ck_len, b)
         })"

definition CommCookie_UnPack :: "comm_cookie \<Rightarrow> bytes \<Rightarrow> nat \<Rightarrow> (int \<times> comm_cookie) option" where
  "CommCookie_UnPack c buf len =
     (if len < 8 then Some (-1, c)
      else do {
        s \<leftarrow> memrd buf 0 2;
        f \<leftarrow> memrd buf 2 4;
        os \<leftarrow> memrd buf 6 2;
        let c1 = c\<lparr>m_Source := ntohs (le_val s), m_Flow := ntohl (le_val f)\<rparr>;
        let other_size = ntohs (le_val os);
        let left = len - 8;
        if other_size > 0 \<and> left < other_size then Some (-2, c1)
        else do {
          c2 \<leftarrow> (if other_size > 0 then do { e \<leftarrow> memrd buf 8 other_size; Some (c1\<lparr>m_strExtInfo := e\<rparr>) } else Some c1);
          let left = left - other_size;
          if left > 0 then Some (0, c2\<lparr>m_ReqPackLen := left, m_pReqPack := Some (drop (8 + other_size) buf)\<rparr>)
          else Some (0, c2\<lparr>m_ReqPackLen := 0, m_pReqPack := None\<rparr>)
        }
      })"

section \<open>Requests\<close>

record 'r cond =
  field_id :: nat
  op_code :: byte
  cond_data :: "'r tlv"

definition OP_EQUAL :: byte where "OP_EQUAL = 0"

text \<open>Adding to a set of fields copies the value.\<close>

definition field_Add :: "nat \<Rightarrow> byte \<Rightarrow> 'r tlv \<Rightarrow> 'r cond list \<Rightarrow> 'r cond list" where
  "field_Add fid optype v cs = cs @ [\<lparr>field_id = fid, op_code = optype, cond_data = tlv_copy v\<rparr>]"

definition SYNC_FLAG_MASK :: nat where "SYNC_FLAG_MASK = 1"
definition PRIMARY_KEY_FLAG_MASK :: nat where "PRIMARY_KEY_FLAG_MASK = 2"

definition INSERT_MAIN_CMD :: nat where "INSERT_MAIN_CMD = 0x0500"
definition UPDATE_MAIN_CMD :: nat where "UPDATE_MAIN_CMD = 0x0501"
definition DELETE_MAIN_CMD :: nat where "DELETE_MAIN_CMD = 0x0502"
definition QUERY_MAIN_CMD :: nat where "QUERY_MAIN_CMD = 0x0503"
definition COUNT_MAIN_CMD :: nat where "COUNT_MAIN_CMD = 0x0504"
definition DELTA_MAIN_CMD :: nat where "DELTA_MAIN_CMD = 0x0505"
definition COND_FIND_MAIN_CMD :: nat where "COND_FIND_MAIN_CMD = 0x0981"

lemmas main_cmds = INSERT_MAIN_CMD_def UPDATE_MAIN_CMD_def DELETE_MAIN_CMD_def QUERY_MAIN_CMD_def
  COUNT_MAIN_CMD_def DELTA_MAIN_CMD_def COND_FIND_MAIN_CMD_def COMBO_REQUEST_MAIN_CMD_def

text \<open>What all requests have; the second component of a constructor is the counter \<open>m_DefaultSeq\<close>.\<close>

record base_req =
  rq_cookie :: bytes
  rq_header :: msg_header

definition BaseDpReq :: "nat \<Rightarrow> nat \<Rightarrow> nat \<Rightarrow> base_req \<times> nat" where
  "BaseDpReq junk main s =
     (\<lparr>rq_cookie = [], rq_header = (MsgHeader junk)\<lparr>main_cmd := main, sub_cmd := 0, seq := s\<rparr>\<rparr>, add32 s 1)"

definition dp_SetRouteKey :: "nat \<Rightarrow> bool \<Rightarrow> base_req \<Rightarrow> base_req" where
  "dp_SetRouteKey rk isUnique r =
     r\<lparr>rq_header := (rq_header r)\<lparr>to_uin := rk, source_type := (if isUnique then 0 else 1)\<rparr>\<rparr>"

definition dp_SetSeq :: "nat \<Rightarrow> base_req \<Rightarrow> base_req" where
  "dp_SetSeq s r = r\<lparr>rq_header := (rq_header r)\<lparr>seq := s\<rparr>\<rparr>"

text \<open>\<open>Cookie()\<close> is a reference, through which the caller writes.\<close>

definition set_Cookie :: "bytes \<Rightarrow> base_req \<Rightarrow> base_req" where
  "set_Cookie ck r = r\<lparr>rq_cookie := ck\<rparr>"

definition GetRouteKey :: "base_req \<Rightarrow> nat" where
  "GetRouteKey r = to_uin (rq_header r)"

text \<open>The key of a string, by the hash function of the C++ library.\<close>

definition MakeRouteKey :: "(bytes \<Rightarrow> nat) \<Rightarrow> bytes \<Rightarrow> nat" where
  "MakeRouteKey hasher rk = hasher rk mod 2 ^ 32"

definition dp_SetRouteKey_str :: "(bytes \<Rightarrow> nat) \<Rightarrow> bytes \<Rightarrow> bool \<Rightarrow> base_req \<Rightarrow> base_req" where
  "dp_SetRouteKey_str hasher rk isUnique r = dp_SetRouteKey (hasher rk mod 2 ^ 32) isUnique r"

record 'r query_req =
  q_base :: base_req
  q_ret_fields :: "nat list"
  q_conds :: "'r cond list"
  q_logic :: bytes
  q_primary :: bool

record 'r update_req =
  u_base :: base_req
  u_fields :: "'r cond list"
  u_conds :: "'r cond list"
  u_logic :: bytes
  u_async :: bool

record 'r insert_req =
  i_base :: base_req
  i_fields :: "'r cond list"
  i_async :: bool

record 'r delete_req =
  d_base :: base_req
  d_conds :: "'r cond list"
  d_logic :: bytes
  d_async :: bool

record 'r count_req =
  n_base :: base_req
  n_conds :: "'r cond list"
  n_logic :: bytes
  n_async :: bool

record 'r find_req =
  f_base :: base_req
  f_conds :: "'r cond list"
  f_limit :: nat
  f_status :: nat

definition DpQueryReq :: "nat \<Rightarrow> nat \<Rightarrow> 'r query_req \<times> nat" where
  "DpQueryReq junk s =
     (let (b, s') = BaseDpReq junk QUERY_MAIN_CMD s
      in (\<lparr>q_base = b, q_ret_fields = [], q_conds = [], q_logic = [0x24, 0x31], q_primary = True\<rparr>, s'))"

definition DpUpdateReq :: "nat \<Rightarrow> nat \<Rightarrow> 'r update_req \<times> nat" where
  "DpUpdateReq junk s =
     (let (b, s') = BaseDpReq junk UPDATE_MAIN_CMD s
      in (\<lparr>u_base = b, u_fields = [], u_conds = [], u_logic = [], u_async = False\<rparr>, s'))"

definition DpDeltaReq :: "nat \<Rightarrow> nat \<Rightarrow> 'r update_req \<times> nat" where
  "DpDeltaReq junk s =
     (let (b, s') = BaseDpReq junk DELTA_MAIN_CMD s
      in (\<lparr>u_base = b, u_fields = [], u_conds = [], u_logic = [], u_async = False\<rparr>, s'))"

definition DpInsertReq :: "nat \<Rightarrow> nat \<Rightarrow> 'r insert_req \<times> nat" where
  "DpInsertReq junk s =
     (let (b, s') = BaseDpReq junk INSERT_MAIN_CMD s in (\<lparr>i_base = b, i_fields = [], i_async = False\<rparr>, s'))"

definition DpDeleteReq :: "nat \<Rightarrow> nat \<Rightarrow> 'r delete_req \<times> nat" where
  "DpDeleteReq junk s =
     (let (b, s') = BaseDpReq junk DELETE_MAIN_CMD s
      in (\<lparr>d_base = b, d_conds = [], d_logic = [], d_async = False\<rparr>, s'))"

definition DpCountReq :: "nat \<Rightarrow> nat \<Rightarrow> 'r count_req \<times> nat" where
  "DpCountReq junk s =
     (let (b, s') = BaseDpReq junk COUNT_MAIN_CMD s
      in (\<lparr>n_base = b, n_conds = [], n_logic = [], n_async = False\<rparr>, s'))"

definition DpCondFindReq :: "nat \<Rightarrow> nat \<Rightarrow> 'r find_req \<times> nat" where
  "DpCondFindReq junk s =
     (let (b, s') = BaseDpReq junk COND_FIND_MAIN_CMD s
      in (\<lparr>f_base = b, f_conds = [], f_limit = 0, f_status = 0\<rparr>, s'))"

subsection \<open>Setters\<close>

definition query_AddCond :: "nat \<Rightarrow> byte \<Rightarrow> 'r tlv \<Rightarrow> 'r query_req \<Rightarrow> 'r query_req" where
  "query_AddCond fid optype v r = r\<lparr>q_conds := field_Add fid optype v (q_conds r)\<rparr>"

definition query_AddRetField :: "nat \<Rightarrow> 'r query_req \<Rightarrow> 'r query_req" where
  "query_AddRetField fid r = r\<lparr>q_ret_fields := q_ret_fields r @ [fid]\<rparr>"

definition query_SetLogicExp :: "bytes \<Rightarrow> 'r query_req \<Rightarrow> 'r query_req" where
  "query_SetLogicExp exp r = r\<lparr>q_logic := takeWhile (\<lambda>b. b \<noteq> 0) exp\<rparr>"

definition query_SetPrimaryKey :: "bool \<Rightarrow> 'r query_req \<Rightarrow> 'r query_req" where
  "query_SetPrimaryKey k r = r\<lparr>q_primary := k\<rparr>"

definition update_AddUpdData :: "nat \<Rightarrow> 'r tlv \<Rightarrow> 'r update_req \<Rightarrow> 'r update_req" where
  "update_AddUpdData fid v r = r\<lparr>u_fields := field_Add fid OP_EQUAL v (u_fields r)\<rparr>"

definition update_AddCond :: "nat \<Rightarrow> byte \<Rightarrow> 'r tlv \<Rightarrow> 'r update_req \<Rightarrow> 'r update_req" where
  "update_AddCond fid optype v r = r\<lparr>u_conds := field_Add fid optype v (u_conds r)\<rparr>"

definition insert_AddInsData :: "nat \<Rightarrow> 'r tlv \<Rightarrow> 'r insert_req \<Rightarrow> 'r insert_req" where
  "insert_AddInsData fid v r = r\<lparr>i_fields := field_Add fid OP_EQUAL v (i_fields r)\<rparr>"

definition delete_AddCond :: "nat \<Rightarrow> byte \<Rightarrow> 'r tlv \<Rightarrow> 'r delete_req \<Rightarrow> 'r delete_req" where
  "delete_AddCond fid optype v r = r\<lparr>d_conds := field_Add fid optype v (d_conds r)\<rparr>"

definition count_AddCond :: "nat \<Rightarrow> byte \<Rightarrow> 'r tlv \<Rightarrow> 'r count_req \<Rightarrow> 'r count_req" where
  "count_AddCond fid optype v r = r\<lparr>n_conds := field_Add fid optype v (n_conds r)\<rparr>"

definition find_AddCond :: "nat \<Rightarrow> byte \<Rightarrow> 'r tlv \<Rightarrow> 'r find_req \<Rightarrow> 'r find_req" where
  "find_AddCond fid optype v r = r\<lparr>f_conds := field_Add fid optype v (f_conds r)\<rparr>"

definition find_AddLimit :: "nat \<Rightarrow> nat \<Rightarrow> 'r find_req \<Rightarrow> 'r find_req" where
  "find_AddLimit limit_number status r = r\<lparr>f_limit := limit_number, f_status := status\<rparr>"

definition update_SetLogicExp :: "bytes \<Rightarrow> 'r update_req \<Rightarrow> 'r update_req" where
  "update_SetLogicExp exp r = r\<lparr>u_logic := takeWhile (\<lambda>b. b \<noteq> 0) exp\<rparr>"

definition update_SetAsync :: "bool \<Rightarrow> 'r update_req \<Rightarrow> 'r update_req" where
  "update_SetAsync b r = r\<lparr>u_async := b\<rparr>"

definition insert_SetAsync :: "bool \<Rightarrow> 'r insert_req \<Rightarrow> 'r insert_req" where
  "insert_SetAsync b r = r\<lparr>i_async := b\<rparr>"

definition delete_SetLogicExp :: "bytes \<Rightarrow> 'r delete_req \<Rightarrow> 'r delete_req" where
  "delete_SetLogicExp exp r = r\<lparr>d_logic := takeWhile (\<lambda>b. b \<noteq> 0) exp\<rparr>"

definition count_SetLogicExp :: "bytes \<Rightarrow> 'r count_req \<Rightarrow> 'r count_req" where
  "count_SetLogicExp exp r = r\<lparr>n_logic := takeWhile (\<lambda>b. b \<noteq> 0) exp\<rparr>"

text \<open>The four overloads of \<open>Delta\<close>, by the width of the number.\<close>

definition Delta_char :: "nat \<Rightarrow> int \<Rightarrow> 'r tlv \<Rightarrow> 'r update_req \<Rightarrow> 'r update_req" where
  "Delta_char fid v junk r = r\<lparr>u_fields := field_Add fid OP_EQUAL (TLV_char v junk) (u_fields r)\<rparr>"

definition Delta_short :: "nat \<Rightarrow> int \<Rightarrow> 'r tlv \<Rightarrow> 'r update_req \<Rightarrow> 'r update_req" where
  "Delta_short fid v junk r = r\<lparr>u_fields := field_Add fid OP_EQUAL (TLV_short v junk) (u_fields r)\<rparr>"

definition Delta_int :: "nat \<Rightarrow> int \<Rightarrow> 'r tlv \<Rightarrow> 'r update_req \<Rightarrow> 'r update_req" where
  "Delta_int fid v junk r = r\<lparr>u_fields := field_Add fid OP_EQUAL (TLV_int v junk) (u_fields r)\<rparr>"

definition Delta_int64 :: "nat \<Rightarrow> int \<Rightarrow> 'r tlv \<Rightarrow> 'r update_req \<Rightarrow> 'r update_req" where
  "Delta_int64 fid v junk r = r\<lparr>u_fields := field_Add fid OP_EQUAL (TLV_int64 v junk) (u_fields r)\<rparr>"

subsection \<open>What a request packs\<close>

text \<open>The conditions: \<open>pack_op\<close> packs the operator, a byte but in \<open>DpCondFindReq\<close>.  An unknown type stops.\<close>

primrec pack_conds ::
  "('p \<Rightarrow> pack_item \<Rightarrow> 'p option) \<Rightarrow> ('p \<Rightarrow> 'r \<Rightarrow> 'p option) \<Rightarrow> (byte \<Rightarrow> pack_item) \<Rightarrow> 'p \<Rightarrow> 'r cond list \<Rightarrow> (nat \<times> 'p) option" where
  "pack_conds put put_real pack_op pk [] = Some (RET_OK, pk)"
| "pack_conds put put_real pack_op pk (c # cs) = do {
     pk \<leftarrow> put pk (DWord (field_id c));
     pk \<leftarrow> put pk (pack_op (op_code c));
     (ret, pk) \<leftarrow> PackTLV put put_real pk (cond_data c);
     if ret \<noteq> RET_OK then Some (ret, pk) else pack_conds put put_real pack_op pk cs
   }"

text \<open>
  The loop of \<open>DpQueryReq\<close> and \<open>DpCondFindReq\<close> counts with 16 bits to a bound of 32 bits: with
  65536 conditions or more it starts over for ever, unless an unknown type stops it.
\<close>

definition pack_conds_16 ::
  "('p \<Rightarrow> pack_item \<Rightarrow> 'p option) \<Rightarrow> ('p \<Rightarrow> 'r \<Rightarrow> 'p option) \<Rightarrow> (byte \<Rightarrow> pack_item) \<Rightarrow> 'p \<Rightarrow> 'r cond list \<Rightarrow> (nat \<times> 'p) option" where
  "pack_conds_16 put put_real pack_op pk cs =
     (let cond_num = length cs mod 2 ^ 32
      in if cond_num < 2 ^ 16 then pack_conds put put_real pack_op pk (take cond_num cs)
         else do { (ret, pk) \<leftarrow> pack_conds put put_real pack_op pk (take (2 ^ 16) cs);
                   if ret \<noteq> RET_OK then Some (ret, pk) else None })"

text \<open>The fields to set: an unknown type is not noticed.\<close>

primrec pack_fields ::
  "('p \<Rightarrow> pack_item \<Rightarrow> 'p option) \<Rightarrow> ('p \<Rightarrow> 'r \<Rightarrow> 'p option) \<Rightarrow> 'p \<Rightarrow> 'r cond list \<Rightarrow> 'p option" where
  "pack_fields put put_real pk [] = Some pk"
| "pack_fields put put_real pk (c # cs) = do {
     pk \<leftarrow> put pk (DWord (field_id c));
     (_, pk) \<leftarrow> PackTLV put put_real pk (cond_data c);
     pack_fields put put_real pk cs
   }"

definition dword_items :: "nat list \<Rightarrow> pack_item list" where
  "dword_items ns = map DWord ns"

definition pack_logic :: "('p \<Rightarrow> pack_item \<Rightarrow> 'p option) \<Rightarrow> 'p \<Rightarrow> bytes \<Rightarrow> 'p option" where
  "pack_logic put pk exp = do {
     let len = length exp mod 2 ^ 16;
     pk \<leftarrow> put pk (Word16 len);
     if len > 0 then put pk (Binary (take len exp)) else Some pk
   }"

text \<open>In the requests to update and to delete the expression is packed also when it is empty.\<close>

definition pack_logic_always :: "('p \<Rightarrow> pack_item \<Rightarrow> 'p option) \<Rightarrow> 'p \<Rightarrow> bytes \<Rightarrow> 'p option" where
  "pack_logic_always put pk exp = do {
     let len = length exp mod 2 ^ 16;
     pk \<leftarrow> put pk (Word16 len);
     put pk (Binary (take len exp))
   }"

definition query_body ::
  "('p \<Rightarrow> pack_item \<Rightarrow> 'p option) \<Rightarrow> ('p \<Rightarrow> 'r \<Rightarrow> 'p option) \<Rightarrow> 'p \<Rightarrow> 'r query_req \<Rightarrow> (nat \<times> 'p) option" where
  "query_body put put_real pk r = do {
     pk \<leftarrow> put pk (Word16 (if q_primary r then PRIMARY_KEY_FLAG_MASK else 0));
     pk \<leftarrow> put pk (Word16 (length (q_conds r) mod 2 ^ 16));
     (ret, pk) \<leftarrow> pack_conds_16 put put_real Byte pk (q_conds r);
     if ret \<noteq> RET_OK then Some (ret, pk)
     else do {
       pk \<leftarrow> pack_logic put pk (q_logic r);
       let ret_field_num = length (q_ret_fields r) mod 2 ^ 16;
       pk \<leftarrow> put pk (Word16 ret_field_num);
       pk \<leftarrow> put_all put pk (dword_items (take ret_field_num (q_ret_fields r)));
       pk \<leftarrow> PackCookie put pk (rq_cookie (q_base r));
       Some (RET_OK, pk)
     }
   }"

definition update_body ::
  "('p \<Rightarrow> pack_item \<Rightarrow> 'p option) \<Rightarrow> ('p \<Rightarrow> 'r \<Rightarrow> 'p option) \<Rightarrow> 'p \<Rightarrow> 'r update_req \<Rightarrow> (nat \<times> 'p) option" where
  "update_body put put_real pk r = do {
     pk \<leftarrow> put pk (Word16 (if u_async r then 0 else SYNC_FLAG_MASK));
     let cond_num = length (u_conds r) mod 2 ^ 16;
     pk \<leftarrow> put pk (Word16 cond_num);
     (ret, pk) \<leftarrow> pack_conds put put_real Byte pk (take cond_num (u_conds r));
     if ret \<noteq> RET_OK then Some (ret, pk)
     else do {
       pk \<leftarrow> pack_logic_always put pk (u_logic r);
       let update_field_num = length (u_fields r) mod 2 ^ 16;
       pk \<leftarrow> put pk (Word16 update_field_num);
       pk \<leftarrow> pack_fields put put_real pk (take update_field_num (u_fields r));
       pk \<leftarrow> PackCookie put pk (rq_cookie (u_base r));
       Some (RET_OK, pk)
     }
   }"

definition insert_body ::
  "('p \<Rightarrow> pack_item \<Rightarrow> 'p option) \<Rightarrow> ('p \<Rightarrow> 'r \<Rightarrow> 'p option) \<Rightarrow> 'p \<Rightarrow> 'r insert_req \<Rightarrow> (nat \<times> 'p) option" where
  "insert_body put put_real pk r = do {
     pk \<leftarrow> put pk (Word16 (if i_async r then 0 else SYNC_FLAG_MASK));
     let ins_field_num = length (i_fields r) mod 2 ^ 16;
     pk \<leftarrow> put pk (Word16 ins_field_num);
     pk \<leftarrow> pack_fields put put_real pk (take ins_field_num (i_fields r));
     pk \<leftarrow> PackCookie put pk (rq_cookie (i_base r));
     Some (RET_OK, pk)
   }"

definition delete_body ::
  "('p \<Rightarrow> pack_item \<Rightarrow> 'p option) \<Rightarrow> ('p \<Rightarrow> 'r \<Rightarrow> 'p option) \<Rightarrow> 'p \<Rightarrow> 'r delete_req \<Rightarrow> (nat \<times> 'p) option" where
  "delete_body put put_real pk r = do {
     pk \<leftarrow> put pk (Word16 (if d_async r then 0 else SYNC_FLAG_MASK));
     let cond_num = length (d_conds r) mod 2 ^ 16;
     pk \<leftarrow> put pk (Word16 cond_num);
     (ret, pk) \<leftarrow> pack_conds put put_real Byte pk (take cond_num (d_conds r));
     if ret \<noteq> RET_OK then Some (ret, pk)
     else do {
       pk \<leftarrow> pack_logic_always put pk (d_logic r);
       pk \<leftarrow> PackCookie put pk (rq_cookie (d_base r));
       Some (RET_OK, pk)
     }
   }"

definition count_body ::
  "('p \<Rightarrow> pack_item \<Rightarrow> 'p option) \<Rightarrow> ('p \<Rightarrow> 'r \<Rightarrow> 'p option) \<Rightarrow> 'p \<Rightarrow> 'r count_req \<Rightarrow> (nat \<times> 'p) option" where
  "count_body put put_real pk r = do {
     pk \<leftarrow> put pk (Word16 0);
     let cond_num = length (n_conds r) mod 2 ^ 16;
     pk \<leftarrow> put pk (Word16 cond_num);
     (ret, pk) \<leftarrow> pack_conds put put_real Byte pk (take cond_num (n_conds r));
     if ret \<noteq> RET_OK then Some (ret, pk)
     else do {
       pk \<leftarrow> pack_logic put pk (n_logic r);
       pk \<leftarrow> PackCookie put pk (rq_cookie (n_base r));
       Some (RET_OK, pk)
     }
   }"

definition find_body ::
  "('p \<Rightarrow> pack_item \<Rightarrow> 'p option) \<Rightarrow> ('p \<Rightarrow> 'r \<Rightarrow> 'p option) \<Rightarrow> 'p \<Rightarrow> 'r find_req \<Rightarrow> (nat \<times> 'p) option" where
  "find_body put put_real pk r = do {
     pk \<leftarrow> put pk (Word16 (f_limit r));
     pk \<leftarrow> put pk (Word16 (f_status r));
     pk \<leftarrow> put pk (Word16 (length (f_conds r) mod 2 ^ 16));
     (ret, pk) \<leftarrow> pack_conds_16 put put_real (\<lambda>b. Word16 (unat b)) pk (f_conds r);
     if ret \<noteq> RET_OK then Some (ret, pk)
     else do { pk \<leftarrow> PackCookie put pk (rq_cookie (f_base r)); Some (RET_OK, pk) }
   }"

subsection \<open>MakeReq\<close>

text \<open>
  The end of \<open>MakeReq\<close> into a string: an error code is returned as it is and leaves the string.
  The variant into a buffer returns the length of the packet, or -1.
\<close>

definition finish_req :: "(nat \<Rightarrow> byte) \<Rightarrow> msg_header \<Rightarrow> (nat \<times> bytes) option \<Rightarrow> bytes \<Rightarrow> (int \<times> bytes) option" where
  "finish_req stk h res req0 = do {
     (ret, pk) \<leftarrow> res;
     if ret \<noteq> RET_OK then Some (s32_of_nat ret, req0)
     else do { req \<leftarrow> GetPack stk pk h; Some (s32_of_nat (length req), req) }
   }"

definition finish_buf :: "msg_header \<Rightarrow> (nat \<times> fixed_packer) option \<Rightarrow> (int \<times> fixed_packer) option" where
  "finish_buf h res = do {
     (ret, pk) \<leftarrow> res;
     if ret \<noteq> RET_OK then Some (s32_of_nat ret, pk)
     else if fp_err pk \<noteq> 0 then Some (-1, pk)
     else FP_GetPack pk h
   }"

definition start_buf :: "fixed_packer \<Rightarrow> bytes \<Rightarrow> nat \<Rightarrow> (fixed_packer \<Rightarrow> (int \<times> fixed_packer) option) \<Rightarrow> (int \<times> fixed_packer) option" where
  "start_buf fp0 buf buf_len k =
     (let (rc, pk) = FP_Init (snd (FP_Init fp0 [] 0)) buf buf_len in if rc \<noteq> 0 then Some (-1, pk) else k pk)"

definition query_MakeReq :: "(nat \<Rightarrow> byte) \<Rightarrow> ('r \<Rightarrow> bytes) \<Rightarrow> 'r query_req \<Rightarrow> bytes \<Rightarrow> (int \<times> bytes) option" where
  "query_MakeReq stk fmt r = finish_req stk (rq_header (q_base r)) (query_body packer_put (PackReal fmt) [] r)"

definition query_MakeReq_buf :: "('r \<Rightarrow> bytes) \<Rightarrow> 'r query_req \<Rightarrow> fixed_packer \<Rightarrow> bytes \<Rightarrow> nat \<Rightarrow> (int \<times> fixed_packer) option" where
  "query_MakeReq_buf fmt r fp0 buf buf_len =
     start_buf fp0 buf buf_len (\<lambda>pk. finish_buf (rq_header (q_base r)) (query_body fixed_put (FP_PackReal fmt) pk r))"

definition update_MakeReq :: "(nat \<Rightarrow> byte) \<Rightarrow> ('r \<Rightarrow> bytes) \<Rightarrow> 'r update_req \<Rightarrow> bytes \<Rightarrow> (int \<times> bytes) option" where
  "update_MakeReq stk fmt r = finish_req stk (rq_header (u_base r)) (update_body packer_put (PackReal fmt) [] r)"

definition update_MakeReq_buf :: "('r \<Rightarrow> bytes) \<Rightarrow> 'r update_req \<Rightarrow> fixed_packer \<Rightarrow> bytes \<Rightarrow> nat \<Rightarrow> (int \<times> fixed_packer) option" where
  "update_MakeReq_buf fmt r fp0 buf buf_len =
     start_buf fp0 buf buf_len (\<lambda>pk. finish_buf (rq_header (u_base r)) (update_body fixed_put (FP_PackReal fmt) pk r))"

definition insert_MakeReq :: "(nat \<Rightarrow> byte) \<Rightarrow> ('r \<Rightarrow> bytes) \<Rightarrow> 'r insert_req \<Rightarrow> bytes \<Rightarrow> (int \<times> bytes) option" where
  "insert_MakeReq stk fmt r = finish_req stk (rq_header (i_base r)) (insert_body packer_put (PackReal fmt) [] r)"

definition insert_MakeReq_buf :: "('r \<Rightarrow> bytes) \<Rightarrow> 'r insert_req \<Rightarrow> fixed_packer \<Rightarrow> bytes \<Rightarrow> nat \<Rightarrow> (int \<times> fixed_packer) option" where
  "insert_MakeReq_buf fmt r fp0 buf buf_len =
     start_buf fp0 buf buf_len (\<lambda>pk. finish_buf (rq_header (i_base r)) (insert_body fixed_put (FP_PackReal fmt) pk r))"

definition delete_MakeReq :: "(nat \<Rightarrow> byte) \<Rightarrow> ('r \<Rightarrow> bytes) \<Rightarrow> 'r delete_req \<Rightarrow> bytes \<Rightarrow> (int \<times> bytes) option" where
  "delete_MakeReq stk fmt r = finish_req stk (rq_header (d_base r)) (delete_body packer_put (PackReal fmt) [] r)"

definition delete_MakeReq_buf :: "('r \<Rightarrow> bytes) \<Rightarrow> 'r delete_req \<Rightarrow> fixed_packer \<Rightarrow> bytes \<Rightarrow> nat \<Rightarrow> (int \<times> fixed_packer) option" where
  "delete_MakeReq_buf fmt r fp0 buf buf_len =
     start_buf fp0 buf buf_len (\<lambda>pk. finish_buf (rq_header (d_base r)) (delete_body fixed_put (FP_PackReal fmt) pk r))"

definition count_MakeReq :: "(nat \<Rightarrow> byte) \<Rightarrow> ('r \<Rightarrow> bytes) \<Rightarrow> 'r count_req \<Rightarrow> bytes \<Rightarrow> (int \<times> bytes) option" where
  "count_MakeReq stk fmt r = finish_req stk (rq_header (n_base r)) (count_body packer_put (PackReal fmt) [] r)"

definition count_MakeReq_buf :: "('r \<Rightarrow> bytes) \<Rightarrow> 'r count_req \<Rightarrow> fixed_packer \<Rightarrow> bytes \<Rightarrow> nat \<Rightarrow> (int \<times> fixed_packer) option" where
  "count_MakeReq_buf fmt r fp0 buf buf_len =
     start_buf fp0 buf buf_len (\<lambda>pk. finish_buf (rq_header (n_base r)) (count_body fixed_put (FP_PackReal fmt) pk r))"

definition find_MakeReq :: "(nat \<Rightarrow> byte) \<Rightarrow> ('r \<Rightarrow> bytes) \<Rightarrow> 'r find_req \<Rightarrow> bytes \<Rightarrow> (int \<times> bytes) option" where
  "find_MakeReq stk fmt r = finish_req stk (rq_header (f_base r)) (find_body packer_put (PackReal fmt) [] r)"

definition find_MakeReq_buf :: "('r \<Rightarrow> bytes) \<Rightarrow> 'r find_req \<Rightarrow> fixed_packer \<Rightarrow> bytes \<Rightarrow> nat \<Rightarrow> (int \<times> fixed_packer) option" where
  "find_MakeReq_buf fmt r fp0 buf buf_len =
     start_buf fp0 buf buf_len (\<lambda>pk. finish_buf (rq_header (f_base r)) (find_body fixed_put (FP_PackReal fmt) pk r))"

subsection \<open>Combined requests\<close>

text \<open>
  A combined request points to its sub-requests; \<open>MakeReq\<close> is called on them when the
  combination is packed.  The model has the sub-requests as they are then.  The virtual call
  is the case distinction of \<open>dp_MakeReq\<close>.
\<close>

datatype 'r dp_req =
    QueryReq "'r query_req"
  | UpdateReq "'r update_req"
  | InsertReq "'r insert_req"
  | DeleteReq "'r delete_req"
  | CountReq "'r count_req"
  | FindReq "'r find_req"
  | ComboReq base_req "('r dp_req \<times> nat) list" nat

fun dp_base :: "'r dp_req \<Rightarrow> base_req" where
  "dp_base (QueryReq r) = q_base r"
| "dp_base (UpdateReq r) = u_base r"
| "dp_base (InsertReq r) = i_base r"
| "dp_base (DeleteReq r) = d_base r"
| "dp_base (CountReq r) = n_base r"
| "dp_base (FindReq r) = f_base r"
| "dp_base (ComboReq b l t) = b"

definition DpComboReq :: "nat \<Rightarrow> nat \<Rightarrow> 'r dp_req \<times> nat" where
  "DpComboReq junk s = (let (b, s') = BaseDpReq junk COMBO_REQUEST_MAIN_CMD s in (ComboReq b [] 0, s'))"

fun combo_SetTimeout :: "nat \<Rightarrow> 'r dp_req \<Rightarrow> 'r dp_req" where
  "combo_SetTimeout t (ComboReq b l _) = ComboReq b l t"
| "combo_SetTimeout t r = r"

fun dp_combo_Add :: "nat \<Rightarrow> 'r dp_req \<Rightarrow> 'r dp_req \<Rightarrow> 'r dp_req" where
  "dp_combo_Add server_type p (ComboReq b l t) = ComboReq b (l @ [(p, server_type)]) t"
| "dp_combo_Add server_type p r = r"

text \<open>The sub-requests as (type of server, route key, packet): what goes into the packet.\<close>

primrec combo_items :: "('p \<Rightarrow> pack_item \<Rightarrow> 'p option) \<Rightarrow> 'p \<Rightarrow> (nat \<times> nat \<times> bytes) list \<Rightarrow> 'p option" where
  "combo_items put pk [] = Some pk"
| "combo_items put pk (s # subs) =
     (case s of (table_id, route_key, req) \<Rightarrow> do {
        pk \<leftarrow> put pk (DWord table_id);
        pk \<leftarrow> put pk (DWord route_key);
        let req_size = length req mod 2 ^ 32;
        pk \<leftarrow> put pk (DWord req_size);
        pk \<leftarrow> put pk (Binary (take req_size req));
        combo_items put pk subs
      })"

definition combo_body :: "('p \<Rightarrow> pack_item \<Rightarrow> 'p option) \<Rightarrow> 'p \<Rightarrow> base_req \<Rightarrow> nat \<Rightarrow> nat \<Rightarrow> (nat \<times> nat \<times> bytes) list \<Rightarrow> 'p option" where
  "combo_body put pk b timeout req_num subs = do {
     pk \<leftarrow> put pk (Word16 timeout);
     pk \<leftarrow> put pk (Word16 req_num);
     pk \<leftarrow> combo_items put pk subs;
     PackCookie put pk (rq_cookie b)
   }"

function (sequential) dp_MakeReq :: "(nat \<Rightarrow> byte) \<Rightarrow> ('r \<Rightarrow> bytes) \<Rightarrow> 'r dp_req \<Rightarrow> bytes \<Rightarrow> (int \<times> bytes) option"
  and sub_packs :: "(nat \<Rightarrow> byte) \<Rightarrow> ('r \<Rightarrow> bytes) \<Rightarrow> nat \<Rightarrow> ('r dp_req \<times> nat) list \<Rightarrow> (nat \<times> nat \<times> bytes) list option" where
  "dp_MakeReq stk fmt (QueryReq r) req0 = query_MakeReq stk fmt r req0"
| "dp_MakeReq stk fmt (UpdateReq r) req0 = update_MakeReq stk fmt r req0"
| "dp_MakeReq stk fmt (InsertReq r) req0 = insert_MakeReq stk fmt r req0"
| "dp_MakeReq stk fmt (DeleteReq r) req0 = delete_MakeReq stk fmt r req0"
| "dp_MakeReq stk fmt (CountReq r) req0 = count_MakeReq stk fmt r req0"
| "dp_MakeReq stk fmt (FindReq r) req0 = find_MakeReq stk fmt r req0"
| "dp_MakeReq stk fmt (ComboReq b l t) req0 =
     (let req_num = length l mod 2 ^ 16
      in case sub_packs stk fmt req_num l of None \<Rightarrow> None
         | Some subs \<Rightarrow> finish_req stk (rq_header b) (map_option (Pair RET_OK) (combo_body packer_put [] b t req_num subs)) req0)"
| "sub_packs stk fmt (Suc n) ((r, table_id) # l) =
     (case dp_MakeReq stk fmt r [] of None \<Rightarrow> None
      | Some (_, req) \<Rightarrow>
          (case sub_packs stk fmt n l of None \<Rightarrow> None
           | Some subs \<Rightarrow> Some ((table_id, GetRouteKey (dp_base r), req) # subs)))"
| "sub_packs stk fmt n l = Some []"
  by pat_completeness auto

termination
  by (relation "measure (\<lambda>x. case x of Inl (stk, fmt, r, req) \<Rightarrow> size r | Inr (stk, fmt, n, l) \<Rightarrow> size_list (size_prod size (\<lambda>_. 0)) l)")
    auto

definition combo_MakeReq_buf ::
  "(nat \<Rightarrow> byte) \<Rightarrow> ('r \<Rightarrow> bytes) \<Rightarrow> base_req \<Rightarrow> ('r dp_req \<times> nat) list \<Rightarrow> nat \<Rightarrow> fixed_packer \<Rightarrow> bytes \<Rightarrow> nat \<Rightarrow> (int \<times> fixed_packer) option" where
  "combo_MakeReq_buf stk fmt b l t fp0 buf buf_len =
     start_buf fp0 buf buf_len (\<lambda>pk. do {
       let req_num = length l mod 2 ^ 16;
       subs \<leftarrow> sub_packs stk fmt req_num l;
       finish_buf (rq_header b) (map_option (Pair RET_OK) (combo_body fixed_put pk b t req_num subs))
     })"

fun dp_MakeReq_buf :: "(nat \<Rightarrow> byte) \<Rightarrow> ('r \<Rightarrow> bytes) \<Rightarrow> 'r dp_req \<Rightarrow> fixed_packer \<Rightarrow> bytes \<Rightarrow> nat \<Rightarrow> (int \<times> fixed_packer) option" where
  "dp_MakeReq_buf stk fmt (QueryReq r) = query_MakeReq_buf fmt r"
| "dp_MakeReq_buf stk fmt (UpdateReq r) = update_MakeReq_buf fmt r"
| "dp_MakeReq_buf stk fmt (InsertReq r) = insert_MakeReq_buf fmt r"
| "dp_MakeReq_buf stk fmt (DeleteReq r) = delete_MakeReq_buf fmt r"
| "dp_MakeReq_buf stk fmt (CountReq r) = count_MakeReq_buf fmt r"
| "dp_MakeReq_buf stk fmt (FindReq r) = find_MakeReq_buf fmt r"
| "dp_MakeReq_buf stk fmt (ComboReq b l t) = combo_MakeReq_buf stk fmt b l t"

section \<open>Responses\<close>

record base_rsp =
  rp_cookie :: bytes
  rp_retcode :: nat
  rp_recordnum :: nat

definition BaseDpRsp :: base_rsp where
  "BaseDpRsp = \<lparr>rp_cookie = [], rp_retcode = 0xFFFF, rp_recordnum = 0\<rparr>"

definition UnPackCookie :: "unpacker \<Rightarrow> bytes \<Rightarrow> (bytes \<times> unpacker) option" where
  "UnPackCookie up cookie = do {
     (cookie_len, up) \<leftarrow> UnPackWord up;
     (_, cookie, up) \<leftarrow> UnPackBinary_str up cookie cookie_len;
     Some (cookie, up)
   }"

definition base_ParseRsp :: "base_rsp \<Rightarrow> unpacker \<Rightarrow> bytes \<Rightarrow> nat \<Rightarrow> (int \<times> base_rsp) option" where
  "base_ParseRsp rsp up0 buf buf_len = do {
     (ret, up) \<leftarrow> UP_Init (up0\<lparr>up_err := RET_OK\<rparr>) (Some buf) buf_len;
     if ret \<noteq> RET_OK then Some (int ret, rsp)
     else do {
       (rc, up) \<leftarrow> UnPackWord up;
       (num, up) \<leftarrow> UnPackDWord up;
       (ck, up) \<leftarrow> UnPackCookie up (rp_cookie rsp);
       Some (0, rsp\<lparr>rp_retcode := rc, rp_recordnum := num, rp_cookie := ck\<rparr>)
     }
   }"

record 'r query_rsp =
  qr_base :: base_rsp
  qr_fields :: "nat list"
  qr_data :: "'r tlv list"

definition DpQueryRsp :: "'r query_rsp" where
  "DpQueryRsp = \<lparr>qr_base = BaseDpRsp, qr_fields = [], qr_data = []\<rparr>"

primrec read_dwords :: "nat \<Rightarrow> unpacker \<Rightarrow> nat list \<Rightarrow> (nat list \<times> unpacker) option" where
  "read_dwords 0 up l = Some (l, up)"
| "read_dwords (Suc n) up l = do { (v, up) \<leftarrow> UnPackDWord up; read_dwords n up (l @ [v]) }"

text \<open>The values; every \<open>TLV\<close> starts uninitialised, \<open>junk\<close>.  An unknown type ends the loop with its code.\<close>

primrec read_tlvs :: "nat \<Rightarrow> (bytes \<Rightarrow> 'r :: zero) \<Rightarrow> 'r tlv \<Rightarrow> unpacker \<Rightarrow> 'r tlv list \<Rightarrow> (nat \<times> 'r tlv list \<times> unpacker) option" where
  "read_tlvs 0 atof junk up l = Some (RET_OK, l, up)"
| "read_tlvs (Suc n) atof junk up l = do {
     (ret, t, up) \<leftarrow> UnPackTLV atof up (tlv_new junk);
     if ret \<noteq> RET_OK then Some (ret, l, up) else read_tlvs n atof junk up (l @ [tlv_copy t])
   }"

definition query_ParseRsp ::
  "(bytes \<Rightarrow> 'r :: zero) \<Rightarrow> 'r tlv \<Rightarrow> 'r query_rsp \<Rightarrow> unpacker \<Rightarrow> bytes \<Rightarrow> nat \<Rightarrow> (int \<times> 'r query_rsp) option" where
  "query_ParseRsp atof junk rsp up0 buf buf_len = do {
     (ret, up) \<leftarrow> UP_Init (up0\<lparr>up_err := RET_OK\<rparr>) (Some buf) buf_len;
     if ret \<noteq> RET_OK then Some (int ret, rsp)
     else do {
       (rc, up) \<leftarrow> UnPackWord up;
       (field_num, up) \<leftarrow> UnPackWord up;
       (fields, up) \<leftarrow> read_dwords field_num up (qr_fields rsp);
       (record_num, up) \<leftarrow> UnPackDWord up;
       let tlv_num = mul32 record_num field_num;
       (ret, tlvs, up) \<leftarrow> read_tlvs tlv_num atof junk up (qr_data rsp);
       let b = (qr_base rsp)\<lparr>rp_retcode := rc\<rparr>;
       if ret \<noteq> RET_OK then Some (int ret, \<lparr>qr_base = b, qr_fields = fields, qr_data = tlvs\<rparr>)
       else do {
         let b = (if field_num > 0 then b\<lparr>rp_recordnum := tlv_num div field_num\<rparr> else b);
         (ck, up) \<leftarrow> UnPackCookie up (rp_cookie b);
         Some (0, \<lparr>qr_base = b\<lparr>rp_cookie := ck\<rparr>, qr_fields = fields, qr_data = tlvs\<rparr>)
       }
     }
   }"

text \<open>The index is computed with 64 bits from the product of a 32-bit and a 64-bit number.\<close>

definition GetData :: "'r query_rsp \<Rightarrow> nat \<Rightarrow> nat \<Rightarrow> 'r tlv option" where
  "GetData rsp row_idx col_idx =
     (let i = (row_idx * length (qr_fields rsp) + col_idx) mod 2 ^ 64
      in if i < length (qr_data rsp) then Some (qr_data rsp ! i) else None)"

definition GetFieldNum :: "'r query_rsp \<Rightarrow> nat" where
  "GetFieldNum rsp = length (qr_fields rsp) mod 2 ^ 32"

definition GetFieldID :: "'r query_rsp \<Rightarrow> nat \<Rightarrow> nat option" where
  "GetFieldID rsp col_idx = (if col_idx < length (qr_fields rsp) then Some (qr_fields rsp ! col_idx) else None)"

subsection \<open>Combined responses\<close>

datatype 'r dp_rsp = BaseRsp base_rsp | QueryRsp "'r query_rsp"

fun sub_retcode :: "'r dp_rsp \<Rightarrow> nat" where
  "sub_retcode (BaseRsp r) = rp_retcode r"
| "sub_retcode (QueryRsp r) = rp_retcode (qr_base r)"

record 'r combo_dp_rsp =
  cb_base :: base_rsp
  cb_subs :: "('r dp_rsp \<times> nat) list"

definition DpComboRsp :: "'r combo_dp_rsp" where
  "DpComboRsp = \<lparr>cb_base = BaseDpRsp, cb_subs = []\<rparr>"

text \<open>The object for a command, parsed from the packet that starts at \<open>buf\<close>; \<open>None\<close> inside for an unknown command.\<close>

definition parse_sub ::
  "(bytes \<Rightarrow> 'r :: zero) \<Rightarrow> 'r tlv \<Rightarrow> unpacker \<Rightarrow> nat \<Rightarrow> bytes \<Rightarrow> nat \<Rightarrow> (int \<times> 'r dp_rsp) option option" where
  "parse_sub atof junk up0 cmd buf len =
     (if cmd \<in> {INSERT_MAIN_CMD, UPDATE_MAIN_CMD, DELETE_MAIN_CMD, DELTA_MAIN_CMD, COUNT_MAIN_CMD}
      then map_option (\<lambda>(r, b). Some (r, BaseRsp b)) (base_ParseRsp BaseDpRsp up0 buf len)
      else if cmd = QUERY_MAIN_CMD
      then map_option (\<lambda>(r, q). Some (r, QueryRsp q)) (query_ParseRsp atof junk DpQueryRsp up0 buf len)
      else Some None)"

primrec read_subs ::
  "nat \<Rightarrow> (bytes \<Rightarrow> 'r :: zero) \<Rightarrow> 'r tlv \<Rightarrow> unpacker \<Rightarrow> unpacker \<Rightarrow> ('r dp_rsp \<times> nat) list \<Rightarrow>
     (bool \<times> ('r dp_rsp \<times> nat) list \<times> unpacker) option" where
  "read_subs 0 atof junk up0 up l = Some (True, l, up)"
| "read_subs (Suc n) atof junk up0 up l = do {
     (len, up) \<leftarrow> UnPackDWord up;
     let (pRsp, up) = UnPackBinary_ptr up len;
     (case pRsp of
        None \<Rightarrow> Some (False, l, up)
      | Some off \<Rightarrow> do {
          (r, main, sub) \<leftarrow> GetRspCmd up off len;
          if r \<noteq> 0 then Some (False, l, up)
          else do {
            m \<leftarrow> body_mem up;
            res \<leftarrow> parse_sub atof junk up0 main (drop off m) len;
            (case res of
               None \<Rightarrow> Some (False, l, up)
             | Some (r, rsp) \<Rightarrow>
                 if r \<noteq> 0 then Some (False, l, up)
                 else read_subs n atof junk up0 up (l @ [(rsp, main)]))
          }
        })
   }"

definition combo_ParseRsp ::
  "(bytes \<Rightarrow> 'r :: zero) \<Rightarrow> 'r tlv \<Rightarrow> 'r combo_dp_rsp \<Rightarrow> unpacker \<Rightarrow> bytes \<Rightarrow> nat \<Rightarrow> (int \<times> 'r combo_dp_rsp) option" where
  "combo_ParseRsp atof junk rsp up0 buf buf_len = do {
     (ret, up) \<leftarrow> UP_Init (up0\<lparr>up_err := RET_OK\<rparr>) (Some buf) buf_len;
     if ret \<noteq> RET_OK then Some (int ret, rsp)
     else do {
       (retcode, up) \<leftarrow> UnPackWord up;
       if retcode \<noteq> 0 then Some (-1, rsp\<lparr>cb_base := (cb_base rsp)\<lparr>rp_retcode := DP_ERR_GENERAL\<rparr>\<rparr>)
       else do {
         (num, up) \<leftarrow> UnPackWord up;
         (good, subs, up) \<leftarrow> read_subs num atof junk up0 up (cb_subs rsp);
         let n = length subs mod 2 ^ 32;
         if \<not> good
         then Some (-1, \<lparr>cb_base = (cb_base rsp)\<lparr>rp_retcode := DP_ERR_GENERAL, rp_recordnum := n\<rparr>, cb_subs = subs\<rparr>)
         else do {
           (ck, up) \<leftarrow> UnPackCookie up (rp_cookie (cb_base rsp));
           Some (0, \<lparr>cb_base = (cb_base rsp)\<lparr>rp_retcode := 0, rp_recordnum := n, rp_cookie := ck\<rparr>, cb_subs = subs\<rparr>)
         }
       }
     }
   }"

definition GetRsp :: "'r combo_dp_rsp \<Rightarrow> nat \<Rightarrow> ('r dp_rsp \<times> nat) option" where
  "GetRsp rsp idx = (if idx \<ge> rp_recordnum (cb_base rsp) then None else Some (cb_subs rsp ! idx))"

definition IsAllCmdOK :: "'r combo_dp_rsp \<Rightarrow> bool" where
  "IsAllCmdOK rsp =
     list_all (\<lambda>i. case GetRsp rsp i of None \<Rightarrow> False | Some (p, cmd) \<Rightarrow> sub_retcode p = 0) [0..<rp_recordnum (cb_base rsp)]"

subsection \<open>The answer to a search\<close>

record find_rsp =
  fr_base :: base_rsp
  fr_online :: "nat list"
  fr_offline :: "nat list"

definition DpCondFindRsp :: find_rsp where
  "DpCondFindRsp = \<lparr>fr_base = BaseDpRsp, fr_online = [], fr_offline = []\<rparr>"

primrec read_groups :: "nat \<Rightarrow> unpacker \<Rightarrow> find_rsp \<Rightarrow> (find_rsp \<times> unpacker) option" where
  "read_groups 0 up rsp = Some (rsp, up)"
| "read_groups (Suc n) up rsp = do {
     (status, up) \<leftarrow> UnPackWord up;
     (count, up) \<leftarrow> UnPackWord up;
     if status = 1
     then do { (l, up) \<leftarrow> read_dwords count up (fr_offline rsp); read_groups n up (rsp\<lparr>fr_offline := l\<rparr>) }
     else do { (l, up) \<leftarrow> read_dwords count up (fr_online rsp); read_groups n up (rsp\<lparr>fr_online := l\<rparr>) }
   }"

definition find_ParseRsp :: "find_rsp \<Rightarrow> unpacker \<Rightarrow> bytes \<Rightarrow> nat \<Rightarrow> (int \<times> find_rsp) option" where
  "find_ParseRsp rsp up0 buf buf_len = do {
     (ret, up) \<leftarrow> UP_Init (up0\<lparr>up_err := RET_OK\<rparr>) (Some buf) buf_len;
     if ret \<noteq> RET_OK then Some (int ret, rsp)
     else do {
       (rc, up) \<leftarrow> UnPackWord up;
       (status_num, up) \<leftarrow> UnPackWord up;
       (total_num, up) \<leftarrow> UnPackWord up;
       (rsp, up) \<leftarrow> read_groups status_num up (rsp\<lparr>fr_base := (fr_base rsp)\<lparr>rp_retcode := rc, rp_recordnum := total_num\<rparr>\<rparr>);
       (ck, up) \<leftarrow> UnPackCookie up (rp_cookie (fr_base rsp));
       Some (0, rsp\<lparr>fr_base := (fr_base rsp)\<lparr>rp_cookie := ck\<rparr>\<rparr>)
     }
   }"

definition GetOnlineRecordNum :: "find_rsp \<Rightarrow> nat" where
  "GetOnlineRecordNum rsp = length (fr_online rsp) mod 2 ^ 32"

definition GetOffLineRecordNum :: "find_rsp \<Rightarrow> nat" where
  "GetOffLineRecordNum rsp = length (fr_offline rsp) mod 2 ^ 32"

definition GetOnLineUin :: "find_rsp \<Rightarrow> nat \<Rightarrow> nat option" where
  "GetOnLineUin rsp i = (if i < length (fr_online rsp) then Some (fr_online rsp ! i) else None)"

definition GetOffLineUin :: "find_rsp \<Rightarrow> nat \<Rightarrow> nat option" where
  "GetOffLineUin rsp i = (if i < length (fr_offline rsp) then Some (fr_offline rsp ! i) else None)"

end
