(* ===== verification/DataPlatformWire.thy ===== *)
theory DataPlatformWire
  imports DataPlatform
begin

text \<open>
  What the requests of the data platform look like on the wire, whichever packer makes them,
  and that the responses, the typed values and the cookies are read as they were written.
\<close>

section \<open>The items of a request\<close>

definition real_ok :: "bytes \<Rightarrow> bool" where
  "real_ok s \<longleftrightarrow> s \<noteq> [] \<and> 0 \<notin> set s \<and> length s < 64"

definition tlv_item :: "('r \<Rightarrow> bytes) \<Rightarrow> 'r tlv \<Rightarrow> pack_item" where
  "tlv_item fmt t =
     (if tlv_type t = TLV_BYTE then Byte (of_nat (int_value t))
      else if tlv_type t = TLV_WORD then Word16 (int_value t)
      else if tlv_type t = TLV_DWORD then DWord (int_value t)
      else if tlv_type t = TLV_QWORD then QWord (int_value t)
      else if tlv_type t = TLV_REAL then Str (fmt (real_value t))
      else Binary (string_value t))"

definition tlv_items :: "('r \<Rightarrow> bytes) \<Rightarrow> 'r tlv \<Rightarrow> pack_item list" where
  "tlv_items fmt t = [Byte (tlv_type t), DWord (tlv_length t), tlv_item fmt t]"

text \<open>A value as the constructors make it: the length is that of the value.\<close>

definition tlv_ok :: "('r \<Rightarrow> bytes) \<Rightarrow> 'r tlv \<Rightarrow> bool" where
  "tlv_ok fmt t \<longleftrightarrow>
     tlv_type t = TLV_BYTE \<and> tlv_length t = 1 \<and> int_value t < 2 ^ 8 \<or>
     tlv_type t = TLV_WORD \<and> tlv_length t = 2 \<and> int_value t < 2 ^ 16 \<or>
     tlv_type t = TLV_DWORD \<and> tlv_length t = 4 \<and> int_value t < 2 ^ 32 \<or>
     tlv_type t = TLV_QWORD \<and> tlv_length t = 8 \<and> int_value t < 2 ^ 64 \<or>
     tlv_type t = TLV_REAL \<and> tlv_length t = 8 \<and> real_ok (fmt (real_value t)) \<or>
     tlv_type t \<in> {TLV_STRING, TLV_BINARY} \<and> tlv_length t = length (string_value t) \<and> length (string_value t) < 2 ^ 32"

definition cond_items :: "('r \<Rightarrow> bytes) \<Rightarrow> (byte \<Rightarrow> pack_item) \<Rightarrow> 'r cond \<Rightarrow> pack_item list" where
  "cond_items fmt pack_op c = [DWord (field_id c), pack_op (op_code c)] @ tlv_items fmt (cond_data c)"

definition field_items :: "('r \<Rightarrow> bytes) \<Rightarrow> 'r cond \<Rightarrow> pack_item list" where
  "field_items fmt c = DWord (field_id c) # tlv_items fmt (cond_data c)"

definition logic_items :: "bytes \<Rightarrow> pack_item list" where
  "logic_items exp = Word16 (length exp) # (if exp = [] then [] else [Binary exp])"

definition cookie_items :: "bytes \<Rightarrow> pack_item list" where
  "cookie_items ck = [Word16 (length ck), Binary ck]"

definition query_items :: "('r \<Rightarrow> bytes) \<Rightarrow> 'r query_req \<Rightarrow> pack_item list" where
  "query_items fmt r =
     [Word16 (if q_primary r then PRIMARY_KEY_FLAG_MASK else 0), Word16 (length (q_conds r))] @
     concat (map (cond_items fmt Byte) (q_conds r)) @ logic_items (q_logic r) @
     Word16 (length (q_ret_fields r)) # dword_items (q_ret_fields r) @ cookie_items (rq_cookie (q_base r))"

definition update_items :: "('r \<Rightarrow> bytes) \<Rightarrow> 'r update_req \<Rightarrow> pack_item list" where
  "update_items fmt r =
     [Word16 (if u_async r then 0 else SYNC_FLAG_MASK), Word16 (length (u_conds r))] @
     concat (map (cond_items fmt Byte) (u_conds r)) @ [Word16 (length (u_logic r)), Binary (u_logic r)] @
     Word16 (length (u_fields r)) # concat (map (field_items fmt) (u_fields r)) @ cookie_items (rq_cookie (u_base r))"

definition insert_items :: "('r \<Rightarrow> bytes) \<Rightarrow> 'r insert_req \<Rightarrow> pack_item list" where
  "insert_items fmt r =
     [Word16 (if i_async r then 0 else SYNC_FLAG_MASK), Word16 (length (i_fields r))] @
     concat (map (field_items fmt) (i_fields r)) @ cookie_items (rq_cookie (i_base r))"

definition delete_items :: "('r \<Rightarrow> bytes) \<Rightarrow> 'r delete_req \<Rightarrow> pack_item list" where
  "delete_items fmt r =
     [Word16 (if d_async r then 0 else SYNC_FLAG_MASK), Word16 (length (d_conds r))] @
     concat (map (cond_items fmt Byte) (d_conds r)) @ [Word16 (length (d_logic r)), Binary (d_logic r)] @
     cookie_items (rq_cookie (d_base r))"

definition count_items :: "('r \<Rightarrow> bytes) \<Rightarrow> 'r count_req \<Rightarrow> pack_item list" where
  "count_items fmt r =
     [Word16 0, Word16 (length (n_conds r))] @
     concat (map (cond_items fmt Byte) (n_conds r)) @ logic_items (n_logic r) @ cookie_items (rq_cookie (n_base r))"

definition find_items :: "('r \<Rightarrow> bytes) \<Rightarrow> 'r find_req \<Rightarrow> pack_item list" where
  "find_items fmt r =
     [Word16 (f_limit r), Word16 (f_status r), Word16 (length (f_conds r))] @
     concat (map (cond_items fmt (\<lambda>b. Word16 (unat b))) (f_conds r)) @ cookie_items (rq_cookie (f_base r))"

definition sub_items :: "nat \<times> nat \<times> bytes \<Rightarrow> pack_item list" where
  "sub_items s = [DWord (fst s), DWord (fst (snd s)), DWord (length (snd (snd s))), Binary (snd (snd s))]"

definition combined_items :: "base_req \<Rightarrow> nat \<Rightarrow> (nat \<times> nat \<times> bytes) list \<Rightarrow> pack_item list" where
  "combined_items b t subs =
     [Word16 t, Word16 (length subs)] @ concat (map sub_items subs) @ cookie_items (rq_cookie b)"

section \<open>Either packer packs the items\<close>

text \<open>
  The template over the packer: all the requests ask of a packer is that it packs a formatted
  double as the string of its text.
\<close>

locale real_packer =
  fixes put :: "'p \<Rightarrow> pack_item \<Rightarrow> 'p option"
    and put_real :: "'p \<Rightarrow> 'r \<Rightarrow> 'p option"
    and fmt :: "'r \<Rightarrow> bytes"
  assumes put_real: "real_ok (fmt v) \<Longrightarrow> put_real pk v = put pk (Str (fmt v))"
begin

lemma PackTLV_items:
  "tlv_ok fmt t \<Longrightarrow> PackTLV put put_real pk t = map_option (Pair RET_OK) (put_all put pk (tlv_items fmt t))"
  unfolding tlv_ok_def
  by (elim disjE conjE insertE)
    (simp_all add: PackTLV_def tlv_items_def tlv_item_def put_real map_conv_bind_option comp_def tlv_types)

lemma pack_conds_items:
  "\<forall>c\<in>set cs. tlv_ok fmt (cond_data c) \<Longrightarrow>
   pack_conds put put_real pack_op pk cs = map_option (Pair RET_OK) (put_all put pk (concat (map (cond_items fmt pack_op) cs)))"
  by (induction cs arbitrary: pk)
    (simp_all add: PackTLV_items cond_items_def put_all_append map_conv_bind_option comp_def bind_assoc)

lemma pack_fields_items:
  "\<forall>c\<in>set cs. tlv_ok fmt (cond_data c) \<Longrightarrow>
   pack_fields put put_real pk cs = put_all put pk (concat (map (field_items fmt) cs))"
  by (induction cs arbitrary: pk)
    (simp_all add: PackTLV_items field_items_def put_all_append map_conv_bind_option comp_def bind_assoc)

lemma pack_conds_16_items:
  "\<forall>c\<in>set cs. tlv_ok fmt (cond_data c) \<Longrightarrow> length cs < 2 ^ 16 \<Longrightarrow>
   pack_conds_16 put put_real pack_op pk cs = map_option (Pair RET_OK) (put_all put pk (concat (map (cond_items fmt pack_op) cs)))"
  by (simp add: pack_conds_16_def pack_conds_items Let_def)

lemma PackCookie_items: "length ck < 2 ^ 16 \<Longrightarrow> PackCookie put pk ck = put_all put pk (cookie_items ck)"
  by (simp add: PackCookie_def cookie_items_def)

lemma pack_logic_items:
  "length exp < 2 ^ 16 \<Longrightarrow> pack_logic put pk exp = put_all put pk (logic_items exp)"
  "length exp < 2 ^ 16 \<Longrightarrow> pack_logic_always put pk exp = put_all put pk [Word16 (length exp), Binary exp]"
  by (simp_all add: pack_logic_def pack_logic_always_def logic_items_def Let_def)

lemma combo_items_sub:
  "\<forall>s\<in>set subs. length (snd (snd s)) < 2 ^ 32 \<Longrightarrow> combo_items put pk subs = put_all put pk (concat (map sub_items subs))"
  by (induction subs arbitrary: pk) (auto simp: sub_items_def Let_def)

lemmas body_items = pack_conds_items pack_conds_16_items pack_fields_items PackCookie_items pack_logic_items
  put_all_append map_conv_bind_option comp_def bind_assoc Let_def

lemma query_body_items:
  "\<forall>c\<in>set (q_conds r). tlv_ok fmt (cond_data c) \<Longrightarrow> length (q_conds r) < 2 ^ 16 \<Longrightarrow> length (q_logic r) < 2 ^ 16 \<Longrightarrow>
   length (q_ret_fields r) < 2 ^ 16 \<Longrightarrow> length (rq_cookie (q_base r)) < 2 ^ 16 \<Longrightarrow>
   query_body put put_real pk r = map_option (Pair RET_OK) (put_all put pk (query_items fmt r))"
  by (simp add: query_body_def query_items_def body_items)

lemma update_body_items:
  "\<forall>c\<in>set (u_conds r) \<union> set (u_fields r). tlv_ok fmt (cond_data c) \<Longrightarrow> length (u_conds r) < 2 ^ 16 \<Longrightarrow>
   length (u_logic r) < 2 ^ 16 \<Longrightarrow> length (u_fields r) < 2 ^ 16 \<Longrightarrow> length (rq_cookie (u_base r)) < 2 ^ 16 \<Longrightarrow>
   update_body put put_real pk r = map_option (Pair RET_OK) (put_all put pk (update_items fmt r))"
  by (simp add: update_body_def update_items_def body_items)

lemma insert_body_items:
  "\<forall>c\<in>set (i_fields r). tlv_ok fmt (cond_data c) \<Longrightarrow> length (i_fields r) < 2 ^ 16 \<Longrightarrow> length (rq_cookie (i_base r)) < 2 ^ 16 \<Longrightarrow>
   insert_body put put_real pk r = map_option (Pair RET_OK) (put_all put pk (insert_items fmt r))"
  by (simp add: insert_body_def insert_items_def body_items)

lemma delete_body_items:
  "\<forall>c\<in>set (d_conds r). tlv_ok fmt (cond_data c) \<Longrightarrow> length (d_conds r) < 2 ^ 16 \<Longrightarrow> length (d_logic r) < 2 ^ 16 \<Longrightarrow>
   length (rq_cookie (d_base r)) < 2 ^ 16 \<Longrightarrow>
   delete_body put put_real pk r = map_option (Pair RET_OK) (put_all put pk (delete_items fmt r))"
  by (simp add: delete_body_def delete_items_def body_items)

lemma count_body_items:
  "\<forall>c\<in>set (n_conds r). tlv_ok fmt (cond_data c) \<Longrightarrow> length (n_conds r) < 2 ^ 16 \<Longrightarrow> length (n_logic r) < 2 ^ 16 \<Longrightarrow>
   length (rq_cookie (n_base r)) < 2 ^ 16 \<Longrightarrow>
   count_body put put_real pk r = map_option (Pair RET_OK) (put_all put pk (count_items fmt r))"
  by (simp add: count_body_def count_items_def body_items)

lemma find_body_items:
  "\<forall>c\<in>set (f_conds r). tlv_ok fmt (cond_data c) \<Longrightarrow> length (f_conds r) < 2 ^ 16 \<Longrightarrow> length (rq_cookie (f_base r)) < 2 ^ 16 \<Longrightarrow>
   find_body put put_real pk r = map_option (Pair RET_OK) (put_all put pk (find_items fmt r))"
  by (simp add: find_body_def find_items_def body_items)

lemma combo_body_items:
  "length subs < 2 ^ 16 \<Longrightarrow> \<forall>s\<in>set subs. length (snd (snd s)) < 2 ^ 32 \<Longrightarrow> length (rq_cookie b) < 2 ^ 16 \<Longrightarrow>
   combo_body put pk b t (length subs) subs = put_all put pk (combined_items b t subs)"
  by (simp add: combo_body_def combined_items_def combo_items_sub body_items)

end

interpretation dp_oss: real_packer packer_put "PackReal fmt" fmt
proof
  fix v pk
  assume r: "real_ok (fmt v)"
  then have "takeWhile (\<lambda>b. b \<noteq> 0) (fmt v) = fmt v" by (auto simp: real_ok_def takeWhile_eq_all_conv)
  then show "PackReal fmt pk v = packer_put pk (Str (fmt v))"
    using r by (simp add: PackReal_def PackCString_def PackString_def real_ok_def)
qed

lemma fp_write_append: "fp_write fp (v @ w) = do { fp \<leftarrow> fp_write fp v; fp_write fp w }"
  by (auto simp: fp_write_def memwr_def overlay_join ac_simps)

interpretation dp_fixed: real_packer fixed_put "FP_PackReal fmt" fmt
proof
  fix v pk
  assume r: "real_ok (fmt v)"
  then have "takeWhile (\<lambda>b. b \<noteq> 0) (fmt v) = fmt v" by (auto simp: real_ok_def takeWhile_eq_all_conv)
  then have "FP_PackCString pk (Some (fmt v)) =
      (if LeftSpace pk < s32_of_nat (length (fmt v)) + 1 then Some (fp_fail pk) else fp_write pk (fmt v @ [0]))"
    unfolding FP_PackCString_def option.case Let_def by (rule arg_cong)
  then show "FP_PackReal fmt pk v = fixed_put pk (Str (fmt v))"
    using r by (simp add: FP_PackReal_def FP_PackString_def real_ok_def fp_write_append)
qed

section \<open>Packets\<close>

definition wire :: "msg_header \<Rightarrow> pack_item list \<Rightarrow> bytes" where
  "wire h is = hdr h (30 + length (encode_items is)) (rev_field h) @ encode_items is @ [EOT]"

lemma length_wire [simp]: "length (wire h is) = 30 + length (encode_items is)"
  by (simp add: wire_def)

text \<open>The packet of a request: that of a combination holds those of its parts.\<close>

function (sequential) dp_wire :: "('r \<Rightarrow> bytes) \<Rightarrow> 'r dp_req \<Rightarrow> bytes"
  and sub_wires :: "('r \<Rightarrow> bytes) \<Rightarrow> ('r dp_req \<times> nat) list \<Rightarrow> (nat \<times> nat \<times> bytes) list" where
  "dp_wire fmt (QueryReq r) = wire (rq_header (q_base r)) (query_items fmt r)"
| "dp_wire fmt (UpdateReq r) = wire (rq_header (u_base r)) (update_items fmt r)"
| "dp_wire fmt (InsertReq r) = wire (rq_header (i_base r)) (insert_items fmt r)"
| "dp_wire fmt (DeleteReq r) = wire (rq_header (d_base r)) (delete_items fmt r)"
| "dp_wire fmt (CountReq r) = wire (rq_header (n_base r)) (count_items fmt r)"
| "dp_wire fmt (FindReq r) = wire (rq_header (f_base r)) (find_items fmt r)"
| "dp_wire fmt (ComboReq b l t) = wire (rq_header b) (combined_items b t (sub_wires fmt l))"
| "sub_wires fmt [] = []"
| "sub_wires fmt ((r, table_id) # l) = (table_id, GetRouteKey (dp_base r), dp_wire fmt r) # sub_wires fmt l"
  by pat_completeness auto

termination
  by (relation "measure (\<lambda>x. case x of Inl (fmt, r) \<Rightarrow> size r | Inr (fmt, l) \<Rightarrow> size_list (size_prod size (\<lambda>_. 0)) l)") auto

text \<open>Requests within the field widths of the protocol, with values of known types.\<close>

definition fields_ok :: "('r \<Rightarrow> bytes) \<Rightarrow> 'r cond list \<Rightarrow> bool" where
  "fields_ok fmt cs \<longleftrightarrow> (\<forall>c\<in>set cs. tlv_ok fmt (cond_data c)) \<and> length cs < 2 ^ 16"

function (sequential) dp_ok :: "('r \<Rightarrow> bytes) \<Rightarrow> 'r dp_req \<Rightarrow> bool"
  and subs_ok :: "('r \<Rightarrow> bytes) \<Rightarrow> ('r dp_req \<times> nat) list \<Rightarrow> bool" where
  "dp_ok fmt (QueryReq r) \<longleftrightarrow> fields_ok fmt (q_conds r) \<and> length (q_logic r) < 2 ^ 16 \<and> length (q_ret_fields r) < 2 ^ 16 \<and>
     length (rq_cookie (q_base r)) < 2 ^ 16"
| "dp_ok fmt (UpdateReq r) \<longleftrightarrow> fields_ok fmt (u_conds r) \<and> fields_ok fmt (u_fields r) \<and> length (u_logic r) < 2 ^ 16 \<and>
     length (rq_cookie (u_base r)) < 2 ^ 16"
| "dp_ok fmt (InsertReq r) \<longleftrightarrow> fields_ok fmt (i_fields r) \<and> length (rq_cookie (i_base r)) < 2 ^ 16"
| "dp_ok fmt (DeleteReq r) \<longleftrightarrow> fields_ok fmt (d_conds r) \<and> length (d_logic r) < 2 ^ 16 \<and> length (rq_cookie (d_base r)) < 2 ^ 16"
| "dp_ok fmt (CountReq r) \<longleftrightarrow> fields_ok fmt (n_conds r) \<and> length (n_logic r) < 2 ^ 16 \<and> length (rq_cookie (n_base r)) < 2 ^ 16"
| "dp_ok fmt (FindReq r) \<longleftrightarrow> fields_ok fmt (f_conds r) \<and> length (rq_cookie (f_base r)) < 2 ^ 16"
| "dp_ok fmt (ComboReq b l t) \<longleftrightarrow> subs_ok fmt l \<and> length l < 2 ^ 16 \<and> length (rq_cookie b) < 2 ^ 16"
| "subs_ok fmt [] \<longleftrightarrow> True"
| "subs_ok fmt ((r, table_id) # l) \<longleftrightarrow> dp_ok fmt r \<and> subs_ok fmt l"
  by pat_completeness auto

termination
  by (relation "measure (\<lambda>x. case x of Inl (fmt, r) \<Rightarrow> size r | Inr (fmt, l) \<Rightarrow> size_list (size_prod size (\<lambda>_. 0)) l)") auto

lemma finish_req_items:
  assumes "length (wire h is) < 2 ^ 31"
  shows "finish_req stk h (map_option (Pair RET_OK) (put_all packer_put [] is)) req0 =
    Some (int (length (wire h is)), wire h is)"
proof -
  have "put_all packer_put [] is = Some (encode_items is)"
    using oss.put_all_fits [of "is" "[]"] assms by (auto simp: big_room_def)
  then show ?thesis
    using assms GetPack_hdr [of "encode_items is" stk h] by (simp add: finish_req_def wire_def)
qed

text \<open>The three outcomes of a buffer: the packet, -1, or a write behind the buffer.\<close>

definition buf_result :: "(int \<times> fixed_packer) option \<Rightarrow> nat \<Rightarrow> bytes \<Rightarrow> bool" where
  "buf_result res n d \<longleftrightarrow>
     (if length d \<le> n then \<exists>q. res = Some (int (length d), q) \<and> take (length d) (fp_buf q) = d
      else if length d = n + 1 then res = None
      else \<exists>q. res = Some (-1, q))"

lemma finish_buf_items:
  assumes "length (wire h is) < 2 ^ 31" and n: "30 \<le> n" "n < 2 ^ 31" "length buf = n"
  shows "buf_result (start_buf fp0 buf n (\<lambda>pk. finish_buf h (map_option (Pair RET_OK) (put_all fixed_put pk is)))) n (wire h is)"
proof -
  have "list_all (\<lambda>i. length (encode_item i) < 2 ^ 31) is"
    using assms(1) by (auto simp: list_all_iff dest!: encode_item_le)
  from fixed_pack_cases [OF n this, of "snd (FP_Init fp0 [] 0)" h "\<lambda>_. 0"] GetPack_hdr [of "encode_items is" "\<lambda>_. 0" h]
  obtain p q where p: "FP_Init (snd (FP_Init fp0 [] 0)) buf n = (0, p)" "put_all fixed_put p is = Some q"
      "29 + length (encode_items is) < n \<longrightarrow> (\<exists>q'. FP_GetPack q h = Some (int (length (wire h is)), q') \<and>
         take (length (wire h is)) (fp_buf q') = wire h is)"
      "n < 29 + length (encode_items is) \<longrightarrow> FP_GetPack q h = Some (0, q)"
      "29 + length (encode_items is) = n \<longrightarrow> fp_err q = 0 \<and> FP_GetPack q h = None"
    using assms(1) by (auto simp: Let_def wire_def)
  have s: "start_buf fp0 buf n (\<lambda>pk. finish_buf h (map_option (Pair RET_OK) (put_all fixed_put pk is))) =
      (if fp_err q \<noteq> 0 then Some (-1, q) else FP_GetPack q h)"
    by (simp add: start_buf_def finish_buf_def p(1,2))
  have "fp_err q = 0" if "\<exists>v q'. FP_GetPack q h = Some (v, q') \<and> v \<noteq> 0"
    using that by (auto simp: FP_GetPack_def split: if_splits)
  moreover have "fp_err q \<noteq> 0" if "FP_GetPack q h = Some (0, q)"
    using that by (auto simp: FP_GetPack_def Let_def bind_eq_Some_conv split: if_splits)
  ultimately show ?thesis using p(3-5) unfolding buf_result_def s by auto
qed

lemma sub_wires_short:
  assumes "length (wire h (combined_items b t subs)) < 2 ^ 31" "s \<in> set subs"
  shows "length (snd (snd s)) < 2 ^ 31"
proof -
  have "Binary (snd (snd s)) \<in> set (combined_items b t subs)"
    using assms(2) by (force simp: combined_items_def sub_items_def)
  from encode_item_le [OF this] show ?thesis using assms(1) by simp
qed

lemma length_sub_wires [simp]: "length (sub_wires fmt l) = length l"
  by (induction l) auto

lemma dp_MakeReq_wire:
  "dp_ok fmt r \<Longrightarrow> length (dp_wire fmt r) < 2 ^ 31 \<Longrightarrow>
     dp_MakeReq stk fmt r req0 = Some (int (length (dp_wire fmt r)), dp_wire fmt r)"
  "subs_ok fmt l \<Longrightarrow> \<forall>s\<in>set (sub_wires fmt l). length (snd (snd s)) < 2 ^ 31 \<Longrightarrow>
     sub_packs stk fmt (length l) l = Some (sub_wires fmt l)"
proof (induction fmt r and fmt l arbitrary: req0 rule: dp_wire_sub_wires.induct)
  case (7 fmt b l t)
  have "sub_packs stk fmt (length l) l = Some (sub_wires fmt l)"
    using 7 sub_wires_short [of "rq_header b" b t "sub_wires fmt l"] by simp
  moreover have "combo_body packer_put [] b t (length l) (sub_wires fmt l) = put_all packer_put [] (combined_items b t (sub_wires fmt l))"
    using dp_oss.combo_body_items [of "sub_wires fmt l" b "[]" t] 7(2,3) sub_wires_short [of "rq_header b" b t "sub_wires fmt l"]
    by fastforce
  ultimately show ?case using 7(2,3) finish_req_items by simp
qed (simp_all add: query_MakeReq_def update_MakeReq_def insert_MakeReq_def delete_MakeReq_def count_MakeReq_def find_MakeReq_def
  fields_ok_def ball_Un finish_req_items dp_oss.query_body_items dp_oss.update_body_items dp_oss.insert_body_items
  dp_oss.delete_body_items dp_oss.count_body_items dp_oss.find_body_items)

lemma dp_MakeReq_buf_wire:
  assumes "dp_ok fmt r" "length (dp_wire fmt r) < 2 ^ 31" and n: "30 \<le> n" "n < 2 ^ 31" "length buf = n"
  shows "buf_result (dp_MakeReq_buf stk fmt r fp0 buf n) n (dp_wire fmt r)"
proof (cases r)
  case (ComboReq b l t)
  have short: "\<forall>s\<in>set (sub_wires fmt l). length (snd (snd s)) < 2 ^ 31"
    using assms(2) sub_wires_short [of "rq_header b" b t "sub_wires fmt l"] by (simp add: ComboReq)
  then have "sub_packs stk fmt (length l) l = Some (sub_wires fmt l)"
    using dp_MakeReq_wire(2) [OF _ short] assms(1) by (simp add: ComboReq)
  moreover have "combo_body fixed_put pk b t (length l) (sub_wires fmt l) = put_all fixed_put pk (combined_items b t (sub_wires fmt l))" for pk
    using dp_fixed.combo_body_items [of "sub_wires fmt l" b pk t] short assms(1) by (fastforce simp: ComboReq)
  ultimately show ?thesis
    using finish_buf_items [OF _ n, of "rq_header b" "combined_items b t (sub_wires fmt l)" fp0] assms(1,2)
    by (simp add: ComboReq combo_MakeReq_buf_def)
qed (use assms in \<open>simp_all add: query_MakeReq_buf_def update_MakeReq_buf_def insert_MakeReq_buf_def delete_MakeReq_buf_def
  count_MakeReq_buf_def find_MakeReq_buf_def fields_ok_def ball_Un finish_buf_items dp_fixed.query_body_items
  dp_fixed.update_body_items dp_fixed.insert_body_items dp_fixed.delete_body_items dp_fixed.count_body_items dp_fixed.find_body_items\<close>)

section \<open>Reading\<close>

text \<open>What lies ahead of an unpacker, and the unpacker \<open>n\<close> bytes later.\<close>

definition ahead :: "unpacker \<Rightarrow> bytes \<Rightarrow> bytes \<Rightarrow> bytes \<Rightarrow> bool" where
  "ahead up body tail xs \<longleftrightarrow> up_sees up body tail \<and> up_off up \<le> length body \<and> drop (up_off up) body = xs"

definition later :: "nat \<Rightarrow> unpacker \<Rightarrow> unpacker" where
  "later n up = up\<lparr>up_off := up_off up + n\<rparr>"

lemma later_simps [simp]: "later m (later n up) = later (n + m) up" "later 0 up = up" "up_off (later n up) = up_off up + n"
  "up_err (later n up) = up_err up" "up_bodylen (later n up) = up_bodylen up" "body_mem (later n up) = body_mem up"
  by (simp_all add: later_def body_mem_def add.assoc)

lemma ahead_length:
  assumes "ahead up body tail (xs @ ys)"
  shows "up_off up + length xs \<le> length body"
proof -
  have "length (drop (up_off up) body) = length xs + length ys" "up_off up \<le> length body"
    using assms by (simp_all add: ahead_def)
  then show ?thesis by (simp only: length_drop)
qed

lemma ahead_later:
  assumes "ahead up body tail (xs @ ys)" "n = length xs"
  shows "ahead (later n up) body tail ys"
proof -
  have "drop n (drop (up_off up) body) = ys" using assms by (simp add: ahead_def)
  then show ?thesis using assms ahead_length [OF assms(1)]
    by (auto simp: ahead_def later_def drop_drop add.commute)
qed

lemma ahead_item:
  assumes "ahead up body tail (encode_item i @ rest)" "item_ok i"
  shows "unpack_item up (shape_of i) = Some (i, later (length (encode_item i)) up)"
  using unpack_item_encode [of up body tail i rest] assms by (simp add: ahead_def later_def)

lemma ahead_byte: "ahead up body tail ([v] @ rest) \<Longrightarrow> UnPackByte up = Some (v, later 1 up)"
  using ahead_item [of up body tail "Byte v" rest] by auto

lemma ahead_word: "ahead up body tail (be_bytes 2 v @ rest) \<Longrightarrow> v < 2 ^ 16 \<Longrightarrow> UnPackWord up = Some (v, later 2 up)"
  using ahead_item [of up body tail "Word16 v" rest] by auto

lemma ahead_dword: "ahead up body tail (be_bytes 4 v @ rest) \<Longrightarrow> v < 2 ^ 32 \<Longrightarrow> UnPackDWord up = Some (v, later 4 up)"
  using ahead_item [of up body tail "DWord v" rest] by auto

lemma ahead_qword: "ahead up body tail (be_bytes 8 v @ rest) \<Longrightarrow> v < 2 ^ 64 \<Longrightarrow> UnPackQWord up = Some (v, later 8 up)"
  using ahead_item [of up body tail "QWord v" rest] by auto

lemma ahead_binary:
  assumes "ahead up body tail (v @ rest)"
  shows "UnPackBinary_str up old (length v) = Some (RET_OK, if v = [] then old else v, later (length v) up)"
proof -
  have len: "up_off up + length v \<le> length body" "length body < 2 ^ 32" "up_bodylen up = length body" "up_sees up body tail"
    using ahead_length [OF assms] assms by (auto simp: ahead_def up_sees_def)
  have "slice body (up_off up) (length v) = v" using slice_at assms by (auto simp: ahead_def)
  then have "rd_body up (up_off up) (length v) = Some v" using rd_body_sees [OF len(4,1)] by simp
  then show ?thesis using len(1-3) by (auto simp: UnPackBinary_str_def later_def)
qed

lemma ahead_binary_ptr:
  assumes "ahead up body tail (v @ rest)"
  shows "UnPackBinary_ptr up (length v) = (Some (up_off up), later (length v) up)"
  using ahead_length [OF assms] assms by (auto simp: UnPackBinary_ptr_def later_def ahead_def up_sees_def)

lemma ahead_real:
  assumes "ahead up body tail (s @ [0] @ rest)" "real_ok s"
  shows "UnPackReal atof up = Some (atof s, later (length s + 1) up)"
proof -
  have len: "up_off up + length s + 1 \<le> length body" "length body < 2 ^ 32" "up_bodylen up = length body"
    "up_sees up body tail" "body_mem up = Some (body @ tail)"
    using ahead_length [of up body tail "s @ [0]" rest] assms by (auto simp: ahead_def up_sees_def)
  have "drop (up_off up) (body @ tail) = s @ 0 # (rest @ tail)"
    using assms(1) len(1) by (simp add: ahead_def)
  then have "scan_str (body @ tail) (up_off up) (length body) = Some (up_off up + length s)"
    using scan_str_skip [of s "up_off up" "length body" "body @ tail" "rest @ tail"] assms(2) len(1) by (simp add: real_ok_def)
  moreover have "rd_body up (up_off up) (length s) = Some s"
    using rd_body_sees [OF len(4), of "up_off up" "length s"] slice_at [of "up_off up" body s "[0] @ rest"] assms(1) len(1)
    by (simp add: ahead_def)
  ultimately show ?thesis using len assms(2)
    by (simp add: UnPackReal_def UnPackString_ptr_def real_ok_def later_def)
qed

lemma ahead_cookie:
  assumes "ahead up body tail (encode_items (cookie_items ck) @ rest)" "length ck < 2 ^ 16"
  shows "UnPackCookie up old = Some (if ck = [] then old else ck, later (2 + length ck) up)"
proof -
  have a: "ahead up body tail (be_bytes 2 (length ck) @ ck @ rest)" using assms(1) by (simp add: cookie_items_def)
  show ?thesis
    using ahead_word [OF a assms(2)] ahead_binary [OF ahead_later [OF a], of 2 old] by (simp add: UnPackCookie_def)
qed

lemma ahead_cookie_end:
  "ahead up body tail (encode_items (cookie_items ck)) \<Longrightarrow> length ck < 2 ^ 16 \<Longrightarrow>
   UnPackCookie up old = Some (if ck = [] then old else ck, later (2 + length ck) up)"
  using ahead_cookie [of up body tail ck "[]"] by simp

lemma ahead_dwords:
  "ahead up body tail (encode_items (dword_items vs) @ rest) \<Longrightarrow> \<forall>v\<in>set vs. v < 2 ^ 32 \<Longrightarrow>
   read_dwords (length vs) up l = Some (l @ vs, later (4 * length vs) up)"
proof (induction vs arbitrary: up l)
  case (Cons v vs)
  have a: "ahead up body tail (be_bytes 4 v @ encode_items (dword_items vs) @ rest)"
    using Cons.prems(1) by (simp add: dword_items_def)
  show ?case
    using ahead_dword [OF a] Cons.prems(2) Cons.IH [OF ahead_later [OF a], of 4 "l @ [v]"] by simp
qed (simp add: dword_items_def)

text \<open>A value as it is read: a double is what its text means.\<close>

definition tlv_read :: "('r \<Rightarrow> bytes) \<Rightarrow> (bytes \<Rightarrow> 'r) \<Rightarrow> 'r tlv \<Rightarrow> 'r tlv \<Rightarrow> 'r tlv" where
  "tlv_read fmt atof junk t =
     (let t1 = junk\<lparr>tlv_type := tlv_type t, tlv_length := tlv_length t, string_value := []\<rparr>
      in if tlv_type t = TLV_REAL then t1\<lparr>real_value := atof (fmt (real_value t))\<rparr>
         else if tlv_type t = TLV_STRING \<or> tlv_type t = TLV_BINARY then t1\<lparr>string_value := string_value t\<rparr>
         else t1\<lparr>int_value := int_value t\<rparr>)"

lemma tlv_copy_read: "tlv_copy (tlv_read fmt atof junk t) = tlv_read fmt atof junk t"
  by (simp add: tlv_copy_def tlv_read_def Let_def tlv_types)

lemma ahead_tlv:
  assumes "ahead up body tail (encode_items (tlv_items fmt t) @ rest)" and ok: "tlv_ok fmt t"
  shows "UnPackTLV atof up (tlv_new junk) =
    Some (RET_OK, tlv_read fmt atof junk t, later (length (encode_items (tlv_items fmt t))) up)"
proof -
  have a: "ahead up body tail ([tlv_type t] @ be_bytes 4 (tlv_length t) @ encode_item (tlv_item fmt t) @ rest)"
    using assms(1) by (simp add: tlv_items_def)
  have b: "ahead (later 1 up) body tail (be_bytes 4 (tlv_length t) @ encode_item (tlv_item fmt t) @ rest)"
    using ahead_later [OF a] by simp
  have c: "ahead (later 5 up) body tail (encode_item (tlv_item fmt t) @ rest)"
    using ahead_later [OF b] by simp
  have l: "tlv_length t < 2 ^ 32" using ok unfolding tlv_ok_def by auto
  note r = ahead_byte [OF a] ahead_dword [OF b l]
  from ok show ?thesis unfolding tlv_ok_def
  proof (elim disjE conjE)
    assume t: "tlv_type t = TLV_BYTE" "int_value t < 2 ^ 8"
    then have "UnPackByte (later 5 up) = Some (of_nat (int_value t), later 6 up)"
      using ahead_byte c by (fastforce simp: tlv_item_def)
    then show ?thesis using r t
      by (simp add: UnPackTLV_def tlv_new_def tlv_read_def tlv_items_def tlv_item_def tlv_types unat_of_nat)
  next
    assume t: "tlv_type t = TLV_REAL" "real_ok (fmt (real_value t))"
    then have "UnPackReal atof (later 5 up) = Some (atof (fmt (real_value t)), later (length (fmt (real_value t)) + 1) (later 5 up))"
      using c by (intro ahead_real) (auto simp: tlv_item_def tlv_types)
    then show ?thesis using r t
      by (simp add: UnPackTLV_def tlv_new_def tlv_read_def tlv_items_def tlv_item_def tlv_types)
  next
    assume t: "tlv_type t \<in> {TLV_STRING, TLV_BINARY}" "tlv_length t = length (string_value t)"
    then have "UnPackBinary_str (later 5 up) [] (length (string_value t)) =
        Some (RET_OK, string_value t, later (length (string_value t)) (later 5 up))"
      using ahead_binary [of "later 5 up" body tail "string_value t" rest] c by (auto simp: tlv_item_def tlv_types)
    then show ?thesis using r t
      by (auto simp: UnPackTLV_def tlv_new_def tlv_read_def tlv_items_def tlv_item_def tlv_types)
  qed (use r c in \<open>simp_all add: UnPackTLV_def tlv_new_def tlv_read_def tlv_items_def tlv_item_def tlv_types
        ahead_word [of "later 5 up"] ahead_dword [of "later 5 up"] ahead_qword [of "later 5 up"]\<close>)
qed

lemma Init_wire:
  assumes "wire_header h" "30 + length (encode_items is) < 2 ^ 32"
  obtains u where "UP_Init up (Some (wire h is @ ys)) (length (wire h is)) = Some (RET_OK, u)"
    "ahead u (encode_items is) (EOT # ys) (encode_items is)" "up_err u = up_err up"
proof -
  have "rev_field h < 2 ^ 32" using assms(1) by (simp add: wire_header_def)
  from Init_hdr_more [OF assms(1) this assms(2), of up ys]
  have "UP_Init up (Some (wire h is @ ys)) (length (wire h is)) =
      Some (RET_OK, up\<lparr>up_data := Some (wire h is @ ys), up_len := length (wire h is), up_in_copy := False,
                      up_bodylen := length (encode_items is), up_off := 0\<rparr>)"
    unfolding wire_def .
  then show ?thesis
    by (rule that) (use assms(2) in \<open>simp_all add: wire_def ahead_def up_sees_def body_mem_def msg_pos\<close>)
qed

lemma ahead_tlvs:
  "ahead up body tail (encode_items (concat (map (tlv_items fmt) ts)) @ rest) \<Longrightarrow> \<forall>t\<in>set ts. tlv_ok fmt t \<Longrightarrow>
   read_tlvs (length ts) atof junk up l =
     Some (RET_OK, l @ map (tlv_read fmt atof junk) ts, later (length (encode_items (concat (map (tlv_items fmt) ts)))) up)"
proof (induction ts arbitrary: up l)
  case (Cons t ts)
  have a: "ahead up body tail (encode_items (tlv_items fmt t) @ encode_items (concat (map (tlv_items fmt) ts)) @ rest)"
    using Cons.prems(1) by simp
  have "ahead (later (length (encode_items (tlv_items fmt t))) up) body tail (encode_items (concat (map (tlv_items fmt) ts)) @ rest)"
    by (rule ahead_later [OF a refl])
  then show ?case
    using ahead_tlv [OF a] Cons.prems(2) Cons.IH [of _ "l @ [tlv_read fmt atof junk t]"] by (simp add: tlv_copy_read)
qed simp

lemma concat_rows:
  "\<forall>r\<in>set rows. length r = k \<Longrightarrow> i < length rows \<Longrightarrow> j < k \<Longrightarrow>
   i * k + j < length (concat rows) \<and> concat rows ! (i * k + j) = rows ! i ! j"
proof (induction rows arbitrary: i)
  case (Cons r rows)
  then show ?case by (cases i) (auto simp: nth_append add.assoc)
qed simp

lemma length_concat_rows: "\<forall>r\<in>set rows. length r = k \<Longrightarrow> length (concat rows) = length rows * k"
  by (induction rows) auto

lemma tlvs_le: "length ts \<le> length (encode_items (concat (map (tlv_items fmt) ts)))"
  by (induction ts) (auto simp: tlv_items_def)

section \<open>The answer to a query\<close>

definition base_rsp_items :: "nat \<Rightarrow> nat \<Rightarrow> bytes \<Rightarrow> pack_item list" where
  "base_rsp_items rc num ck = [Word16 rc, DWord num] @ cookie_items ck"

definition query_rsp_items :: "('r \<Rightarrow> bytes) \<Rightarrow> nat \<Rightarrow> nat list \<Rightarrow> 'r tlv list list \<Rightarrow> bytes \<Rightarrow> pack_item list" where
  "query_rsp_items fmt rc cols rows ck =
     [Word16 rc, Word16 (length cols)] @ dword_items cols @ [DWord (length rows)] @
     concat (map (tlv_items fmt) (concat rows)) @ cookie_items ck"

lemma base_ParseRsp_reads:
  assumes "wire_header h" "rc < 2 ^ 16" "num < 2 ^ 32" "length ck < 2 ^ 16"
  shows "base_ParseRsp BaseDpRsp up (wire h (base_rsp_items rc num ck) @ ys) (length (wire h (base_rsp_items rc num ck))) =
    Some (0, \<lparr>rp_cookie = ck, rp_retcode = rc, rp_recordnum = num\<rparr>)"
proof -
  let ?is = "base_rsp_items rc num ck"
  have "30 + length (encode_items ?is) < 2 ^ 32" using assms(4) by (simp add: base_rsp_items_def cookie_items_def)
  then obtain u where u: "UP_Init (up\<lparr>up_err := RET_OK\<rparr>) (Some (wire h ?is @ ys)) (length (wire h ?is)) = Some (RET_OK, u)"
      "ahead u (encode_items ?is) (EOT # ys) (encode_items ?is)"
    using Init_wire [OF assms(1)] by blast
  have a: "ahead u (encode_items ?is) (EOT # ys) (be_bytes 2 rc @ be_bytes 4 num @ encode_items (cookie_items ck) @ [])"
    using u(2) by (simp add: base_rsp_items_def)
  have b: "ahead (later 2 u) (encode_items ?is) (EOT # ys) (be_bytes 4 num @ encode_items (cookie_items ck) @ [])"
    using ahead_later [OF a] by simp
  have c: "ahead (later 6 u) (encode_items ?is) (EOT # ys) (encode_items (cookie_items ck) @ [])"
    using ahead_later [OF b] by simp
  show ?thesis
    unfolding base_ParseRsp_def u(1)
    using ahead_word [OF a assms(2)] ahead_dword [OF b assms(3)] ahead_cookie [OF c assms(4), of "[]"] by (simp add: BaseDpRsp_def)
qed

definition query_result ::
  "('r \<Rightarrow> bytes) \<Rightarrow> (bytes \<Rightarrow> 'r) \<Rightarrow> 'r tlv \<Rightarrow> nat \<Rightarrow> nat list \<Rightarrow> 'r tlv list list \<Rightarrow> bytes \<Rightarrow> 'r query_rsp" where
  "query_result fmt atof junk rc cols rows ck =
     \<lparr>qr_base = \<lparr>rp_cookie = ck, rp_retcode = rc, rp_recordnum = (if cols = [] then 0 else length rows)\<rparr>,
      qr_fields = cols, qr_data = map (tlv_read fmt atof junk) (concat rows)\<rparr>"

definition query_rsp_ok :: "('r \<Rightarrow> bytes) \<Rightarrow> nat \<Rightarrow> nat list \<Rightarrow> 'r tlv list list \<Rightarrow> bytes \<Rightarrow> bool" where
  "query_rsp_ok fmt rc cols rows ck \<longleftrightarrow>
     rc < 2 ^ 16 \<and> length cols < 2 ^ 16 \<and> (\<forall>v\<in>set cols. v < 2 ^ 32) \<and> length rows < 2 ^ 32 \<and> length ck < 2 ^ 16 \<and>
     (\<forall>r\<in>set rows. length r = length cols \<and> (\<forall>t\<in>set r. tlv_ok fmt t)) \<and>
     30 + length (encode_items (query_rsp_items fmt rc cols rows ck)) < 2 ^ 32"

lemma query_ParseRsp_reads:
  assumes h: "wire_header h" and ok: "query_rsp_ok fmt rc cols rows ck"
  defines "d \<equiv> wire h (query_rsp_items fmt rc cols rows ck)"
  shows "query_ParseRsp atof junk DpQueryRsp up (d @ ys) (length d) =
    Some (0, query_result fmt atof junk rc cols rows ck)"
proof -
  let ?is = "query_rsp_items fmt rc cols rows ck" and ?ts = "concat rows"
  let ?b = "encode_items ?is" and ?e = "encode_items (concat (map (tlv_items fmt) (concat rows)))"
  have o: "rc < 2 ^ 16" "length cols < 2 ^ 16" "\<forall>v\<in>set cols. v < 2 ^ 32" "length rows < 2 ^ 32" "length ck < 2 ^ 16"
    "30 + length ?b < 2 ^ 32" "\<forall>t\<in>set ?ts. tlv_ok fmt t" "\<forall>r\<in>set rows. length r = length cols"
    using ok by (auto simp: query_rsp_ok_def)
  obtain u where u: "UP_Init (up\<lparr>up_err := RET_OK\<rparr>) (Some (d @ ys)) (length d) = Some (RET_OK, u)" "ahead u ?b (EOT # ys) ?b"
    unfolding d_def using Init_wire [OF h o(6)] by blast
  have a: "ahead u ?b (EOT # ys) (be_bytes 2 rc @ be_bytes 2 (length cols) @ encode_items (dword_items cols) @
      be_bytes 4 (length rows) @ ?e @ encode_items (cookie_items ck) @ [])"
    using u(2) by (simp add: query_rsp_items_def)
  note b = ahead_later [OF a, of 2, simplified]
  note c = ahead_later [OF b, of 2, simplified]
  have lf: "length (encode_items (dword_items cols)) = 4 * length cols"
    by (induction cols) (simp_all add: dword_items_def)
  note dd = ahead_later [OF c lf [symmetric], simplified]
  note e = ahead_later [OF dd, of 4, simplified]
  note f = ahead_later [OF e refl, simplified]
  have n: "length ?ts = length rows * length cols" using length_concat_rows [OF o(8)] .
  have "length ?ts \<le> length ?e" by (rule tlvs_le)
  then have "length ?ts < 2 ^ 32" using o(6) by (simp add: query_rsp_items_def)
  then have m: "mul32 (length rows) (length cols) = length ?ts" using n by (simp add: mul32_small)
  have q: "length ?ts div length cols = length rows" if "cols \<noteq> []" using n that by simp
  show ?thesis
    unfolding query_ParseRsp_def u(1)
    using ahead_word [OF a o(1)] ahead_word [OF b o(2)] ahead_dwords [of "later 4 u" ?b "EOT # ys" cols _ "[]"] c o(3)
      ahead_dword [OF dd o(4)] ahead_tlvs [of _ ?b "EOT # ys" fmt ?ts _ atof junk "[]"] e o(7)
      ahead_cookie_end [OF f o(5), of "[]"] m q
    by (auto simp: DpQueryRsp_def BaseDpRsp_def query_result_def)
qed

section \<open>Combined answers\<close>

datatype 'r sub_rsp =
    SubBase msg_header nat nat bytes
  | SubQuery msg_header nat "nat list" "'r tlv list list" bytes

fun sub_wire :: "('r \<Rightarrow> bytes) \<Rightarrow> 'r sub_rsp \<Rightarrow> bytes" where
  "sub_wire fmt (SubBase h rc num ck) = wire h (base_rsp_items rc num ck)"
| "sub_wire fmt (SubQuery h rc cols rows ck) = wire h (query_rsp_items fmt rc cols rows ck)"

fun sub_result :: "('r \<Rightarrow> bytes) \<Rightarrow> (bytes \<Rightarrow> 'r) \<Rightarrow> 'r tlv \<Rightarrow> 'r sub_rsp \<Rightarrow> 'r dp_rsp \<times> nat" where
  "sub_result fmt atof junk (SubBase h rc num ck) =
     (BaseRsp \<lparr>rp_cookie = ck, rp_retcode = rc, rp_recordnum = num\<rparr>, main_cmd h)"
| "sub_result fmt atof junk (SubQuery h rc cols rows ck) = (QueryRsp (query_result fmt atof junk rc cols rows ck), main_cmd h)"

fun sub_ok :: "('r \<Rightarrow> bytes) \<Rightarrow> 'r sub_rsp \<Rightarrow> bool" where
  "sub_ok fmt (SubBase h rc num ck) \<longleftrightarrow> wire_header h \<and>
     main_cmd h \<in> {INSERT_MAIN_CMD, UPDATE_MAIN_CMD, DELETE_MAIN_CMD, DELTA_MAIN_CMD, COUNT_MAIN_CMD} \<and>
     rc < 2 ^ 16 \<and> num < 2 ^ 32 \<and> length ck < 2 ^ 16"
| "sub_ok fmt (SubQuery h rc cols rows ck) \<longleftrightarrow> wire_header h \<and> main_cmd h = QUERY_MAIN_CMD \<and> query_rsp_ok fmt rc cols rows ck"

definition combo_rsp_items :: "bytes list \<Rightarrow> bytes \<Rightarrow> pack_item list" where
  "combo_rsp_items subs ck =
     [Word16 0, Word16 (length subs)] @ concat (map (\<lambda>s. [DWord (length s), Binary s]) subs) @ cookie_items ck"

lemma main_cmd_wire:
  "main_cmd h < 2 ^ 16 \<Longrightarrow> be_val (slice (wire h is) 7 2) = main_cmd h"
  by (simp add: wire_def slice_hdr codec_simps)

lemma sub_cmd_wire: "sub_ok fmt s \<Longrightarrow> be_val (slice (sub_wire fmt s) 7 2) = snd (sub_result fmt atof junk s)"
  by (cases s) (simp_all add: main_cmd_wire wire_header_def)

lemma sub_wire_length: "30 \<le> length (sub_wire fmt s)"
  by (cases s) simp_all

lemma parse_sub_wire:
  assumes "sub_ok fmt s"
  shows "parse_sub atof junk up (snd (sub_result fmt atof junk s)) (sub_wire fmt s @ ys) (length (sub_wire fmt s)) =
    Some (Some (0, fst (sub_result fmt atof junk s)))"
proof (cases s)
  case (SubBase h rc num ck)
  then have "base_ParseRsp BaseDpRsp up (sub_wire fmt s @ ys) (length (sub_wire fmt s)) =
      Some (0, \<lparr>rp_cookie = ck, rp_retcode = rc, rp_recordnum = num\<rparr>)"
    using base_ParseRsp_reads [of h rc num ck up ys] assms by simp
  then show ?thesis using assms SubBase by (simp add: parse_sub_def)
next
  case (SubQuery h rc cols rows ck)
  then have "query_ParseRsp atof junk DpQueryRsp up (sub_wire fmt s @ ys) (length (sub_wire fmt s)) =
      Some (0, query_result fmt atof junk rc cols rows ck)"
    using query_ParseRsp_reads [of h fmt rc cols rows ck atof junk up ys] assms by simp
  then show ?thesis using assms SubQuery by (simp add: parse_sub_def main_cmds)
qed

lemma GetRspCmd_ahead:
  assumes "ahead up body tail (s @ rest)" "29 \<le> length s"
  shows "GetRspCmd (later n up) (up_off up) (length s) = Some (RET_OK, be_val (slice s 7 2), be_val (slice s 9 2))"
proof -
  have rd: "rd_body (later n up) (up_off up + i) 2 = Some (slice s i 2)" if "i + 2 \<le> length s" for i
  proof -
    have "rd_body up (up_off up + i) 2 = Some (slice body (up_off up + i) 2)"
      using that assms ahead_length [OF assms(1)] by (intro rd_body_sees) (auto simp: ahead_def)
    moreover have "slice (s @ rest) i 2 = slice s i 2" using that by (simp add: slice_def)
    ultimately show ?thesis using assms(1) by (simp add: slice_drop ahead_def rd_body_def)
  qed
  show ?thesis using rd [of 7] rd [of 9] assms(2)
    by (simp add: GetRspCmd_def msg_pos htons_le_val ac_simps)
qed

lemma ahead_subs:
  "ahead up body tail (encode_items (concat (map (\<lambda>s. [DWord (length s), Binary s]) (map (sub_wire fmt) subs))) @ rest) \<Longrightarrow>
   \<forall>s\<in>set subs. sub_ok fmt s \<and> length (sub_wire fmt s) < 2 ^ 32 \<Longrightarrow>
   read_subs (length subs) atof junk up0 up l =
     Some (True, l @ map (sub_result fmt atof junk) subs,
       later (length (encode_items (concat (map (\<lambda>s. [DWord (length s), Binary s]) (map (sub_wire fmt) subs))))) up)"
proof (induction subs arbitrary: up l)
  case (Cons s subs)
  let ?w = "sub_wire fmt s" and ?r = "sub_result fmt atof junk s"
  define more where "more = encode_items (concat (map (\<lambda>s. [DWord (length s), Binary s]) (map (sub_wire fmt) subs))) @ rest"
  have a: "ahead up body tail (be_bytes 4 (length ?w) @ ?w @ more)" using Cons.prems(1) by (simp add: more_def)
  have b: "ahead (later 4 up) body tail (?w @ more)" using ahead_later [OF a] by simp
  have c: "ahead (later (4 + length ?w) up) body tail more" using ahead_later [OF b] by simp
  have m: "body_mem up = Some (body @ tail)" "drop (up_off up + 4) (body @ tail) = ?w @ more @ tail"
    using b by (auto simp: ahead_def up_sees_def)
  have p: "parse_sub atof junk up0 (snd ?r) (?w @ more @ tail) (length ?w) = Some (Some (0, fst ?r))"
    by (rule parse_sub_wire) (use Cons.prems(2) in simp)
  have g: "GetRspCmd (later (4 + length ?w) up) (up_off up + 4) (length ?w) = Some (RET_OK, snd ?r, be_val (slice ?w 9 2))"
    using GetRspCmd_ahead [OF b, of "length ?w"] sub_wire_length [of fmt s] sub_cmd_wire [of fmt s atof junk] Cons.prems(2)
    by simp
  show ?case
    using ahead_dword [OF a] ahead_binary_ptr [OF b] Cons.prems(2) g m p Cons.IH [of "later (4 + length ?w) up" "l @ [?r]"] c
    by (simp add: more_def RET_OK_def ac_simps)
qed simp

lemma combo_ParseRsp_reads:
  assumes h: "wire_header h" and subs: "\<forall>s\<in>set subs. sub_ok fmt s" "length subs < 2 ^ 16" and ck: "length ck < 2 ^ 16"
    and size: "30 + length (encode_items (combo_rsp_items (map (sub_wire fmt) subs) ck)) < 2 ^ 32"
  defines "d \<equiv> wire h (combo_rsp_items (map (sub_wire fmt) subs) ck)"
  shows "combo_ParseRsp atof junk DpComboRsp up d (length d) =
    Some (0, \<lparr>cb_base = \<lparr>rp_cookie = ck, rp_retcode = 0, rp_recordnum = length subs\<rparr>, cb_subs = map (sub_result fmt atof junk) subs\<rparr>)"
proof -
  let ?is = "combo_rsp_items (map (sub_wire fmt) subs) ck"
  let ?b = "encode_items ?is" and ?e = "encode_items (concat (map (\<lambda>s. [DWord (length s), Binary s]) (map (sub_wire fmt) subs)))"
  obtain u where u: "UP_Init (up\<lparr>up_err := RET_OK\<rparr>) (Some d) (length d) = Some (RET_OK, u)" "ahead u ?b [EOT] ?b"
    unfolding d_def using Init_wire [OF h size, of "up\<lparr>up_err := RET_OK\<rparr>" "[]"] by auto
  have a: "ahead u ?b [EOT] (be_bytes 2 0 @ be_bytes 2 (length subs) @ ?e @ encode_items (cookie_items ck))"
    using u(2) by (simp add: combo_rsp_items_def)
  note b = ahead_later [OF a, of 2, simplified]
  have c: "ahead (later 4 u) ?b [EOT] (?e @ encode_items (cookie_items ck))" using ahead_later [OF b, of 2] by simp
  note dd = ahead_later [OF c refl]
  have short: "\<forall>s\<in>set subs. sub_ok fmt s \<and> length (sub_wire fmt s) < 2 ^ 32"
  proof
    fix s assume s: "s \<in> set subs"
    then have "Binary (sub_wire fmt s) \<in> set ?is" by (force simp: combo_rsp_items_def)
    from encode_item_le [OF this] show "sub_ok fmt s \<and> length (sub_wire fmt s) < 2 ^ 32" using size subs(1) s by simp
  qed
  show ?thesis
    unfolding combo_ParseRsp_def u(1)
    using ahead_word [OF a] ahead_word [OF b subs(2)] ahead_subs [OF c short, of atof junk up "[]"]
      ahead_cookie_end [OF dd ck, of "[]"] subs(2)
    by (simp add: DpComboRsp_def BaseDpRsp_def)
qed

end
