(* ===== verification/DataPlatformTheorems.thy ===== *)
theory DataPlatformTheorems
  imports DataPlatformWire
begin

text \<open>
  The properties of the data platform protocol: requests on the wire, answers read back, the
  cookie, and what an empty answer and too many conditions lead to.
\<close>

section \<open>Requests\<close>

text \<open>
  C24: Every request, also a combination of combinations, is packed into the packet that the
  protocol prescribes: the header, the fields with their types and lengths, the packets of
  the parts, the cookie and the end mark.  \<open>MakeReq\<close> into a string gives it and its length; into
  a buffer it gives the same packet if the buffer has room, -1 if two bytes or more are
  missing, and writes behind the buffer if one byte is missing.
\<close>

theorem dp_request_packet:
  assumes "dp_ok fmt r" and "length (dp_wire fmt r) < 2 ^ 31" and "30 \<le> n" "n < 2 ^ 31" "length buf = n"
  shows "dp_MakeReq stk fmt r req0 = Some (int (length (dp_wire fmt r)), dp_wire fmt r) \<and>
     buf_result (dp_MakeReq_buf stk fmt r fp0 buf n) n (dp_wire fmt r)"
  using dp_MakeReq_wire(1) dp_MakeReq_buf_wire assms by blast

text \<open>Numbers as a stand-in for doubles, a number written as so many digits 1 and read by counting them.\<close>

definition unary :: "nat \<Rightarrow> bytes" where
  "unary n = replicate n 49"

definition demo_tlv :: "nat tlv" where
  "demo_tlv = \<lparr>tlv_type = 0, tlv_length = 0, int_value = 0, real_value = 0, string_value = []\<rparr>"

definition demo_insert :: "nat dp_req" where
  "demo_insert = InsertReq (insert_AddInsData 1 (TLV_int (-1) demo_tlv) (fst (DpInsertReq 0 7)))"

definition demo_combo :: "nat dp_req" where
  "demo_combo = ComboReq (fst (BaseDpReq 0 COMBO_REQUEST_MAIN_CMD 8)) [(demo_insert, 3)] 0"

lemmas demo_reqs = demo_combo_def demo_insert_def insert_AddInsData_def DpInsertReq_def BaseDpReq_def field_Add_def
  TLV_int_def Assign_dword_def tlv_new_def tlv_copy_def demo_tlv_def OP_EQUAL_def tlv_types

lemma demo_combo_wire: "dp_ok unary demo_combo" "length (dp_wire unary demo_combo) = 97"
  by (simp_all add: demo_reqs fields_ok_def tlv_ok_def combined_items_def sub_items_def insert_items_def
      field_items_def tlv_items_def tlv_item_def cookie_items_def)

theorem dp_request_packet_witness:
  "dp_MakeReq (\<lambda>_. 0) unary demo_combo [] = Some (97, dp_wire unary demo_combo) \<and>
   (\<exists>q. dp_MakeReq_buf (\<lambda>_. 0) unary demo_combo \<lparr>fp_buf = [], fp_tail = 0, fp_buflen = 0, fp_err = 0\<rparr> (replicate 60 0) 60 =
      Some (-1, q))"
proof -
  have "length (dp_wire unary demo_combo) < 2 ^ 31" by (simp add: demo_combo_wire)
  from dp_request_packet [OF demo_combo_wire(1) this, of 60 "replicate 60 0" "\<lambda>_. 0" "[]"
      "\<lparr>fp_buf = [], fp_tail = 0, fp_buflen = 0, fp_err = 0\<rparr>"]
  show ?thesis by (simp add: buf_result_def demo_combo_wire(2))
qed

text \<open>
  A query with 65536 conditions or more is never packed: the loop counts them with 16
  bits and starts over.  Neither variant of \<open>MakeReq\<close> returns.
\<close>

theorem dp_query_65536_conditions:
  assumes "\<forall>c\<in>set (q_conds r). tlv_ok fmt (cond_data c)" and "2 ^ 16 \<le> length (q_conds r)" "length (q_conds r) < 2 ^ 32"
    and n: "30 \<le> n" "n < 2 ^ 31" "length buf = n"
  shows "query_MakeReq stk fmt r req0 = None \<and> query_MakeReq_buf fmt r fp0 buf n = None"
proof -
  have t: "\<forall>c\<in>set (take (2 ^ 16) (q_conds r)). tlv_ok fmt (cond_data c)" using assms(1) by (meson in_set_takeD)
  have "pack_conds_16 packer_put (PackReal fmt) Byte pk (q_conds r) = None" for pk
    using assms(2,3) dp_oss.pack_conds_items [OF t, of Byte pk]
    by (cases "put_all packer_put pk (concat (map (cond_items fmt Byte) (take (2 ^ 16) (q_conds r))))") (simp_all add: pack_conds_16_def Let_def)
  moreover have "pack_conds_16 fixed_put (FP_PackReal fmt) Byte pk (q_conds r) = None" for pk
    using assms(2,3) dp_fixed.pack_conds_items [OF t, of Byte pk]
    by (cases "put_all fixed_put pk (concat (map (cond_items fmt Byte) (take (2 ^ 16) (q_conds r))))") (simp_all add: pack_conds_16_def Let_def)
  moreover obtain p where "FP_Init (snd (FP_Init fp0 [] 0)) buf n = (0, p)" using FP_Init_ok [OF n] by blast
  ultimately show ?thesis
    by (simp add: query_MakeReq_def query_MakeReq_buf_def finish_req_def finish_buf_def start_buf_def query_body_def Let_def
        bind_eq_None_conv)
qed

theorem dp_query_65536_conditions_witness:
  "let r = (fst (DpQueryReq 0 0))\<lparr>q_conds := replicate 65536 \<lparr>field_id = 1, op_code = 0, cond_data = TLV_int 1 demo_tlv\<rparr>\<rparr>
   in query_MakeReq (\<lambda>_. 0) unary r [] = None \<and>
      query_MakeReq_buf unary r \<lparr>fp_buf = [], fp_tail = 0, fp_buflen = 0, fp_err = 0\<rparr> (replicate 50 0) 50 = None"
  unfolding Let_def
  by (rule dp_query_65536_conditions)
    (simp_all add: DpQueryReq_def BaseDpReq_def tlv_ok_def TLV_int_def Assign_dword_def tlv_new_def tlv_types)

section \<open>Answers\<close>

text \<open>
  C25: The answer to a query is read as it was written: the return code, the fields, the number
  of records, the cookie, and in row \<open>i\<close> and column \<open>j\<close> the value that was put there (a double
  as its text is read back).
\<close>

theorem dp_query_answer_roundtrip:
  assumes "wire_header h" and "query_rsp_ok fmt rc cols rows ck" and "cols \<noteq> []" and "length rows * length cols < 2 ^ 64"
  defines "d \<equiv> wire h (query_rsp_items fmt rc cols rows ck)"
  shows "\<exists>rsp. query_ParseRsp atof junk DpQueryRsp up d (length d) = Some (0, rsp) \<and>
     qr_base rsp = \<lparr>rp_cookie = ck, rp_retcode = rc, rp_recordnum = length rows\<rparr> \<and>
     GetFieldNum rsp = length cols \<and> (\<forall>j<length cols. GetFieldID rsp j = Some (cols ! j)) \<and>
     (\<forall>i<length rows. \<forall>j<length cols. GetData rsp i j = Some (tlv_read fmt atof junk (rows ! i ! j)))"
proof (intro exI conjI allI impI)
  show "query_ParseRsp atof junk DpQueryRsp up d (length d) = Some (0, query_result fmt atof junk rc cols rows ck)"
    unfolding d_def using query_ParseRsp_reads [OF assms(1,2), of atof junk up "[]"] by simp
  have ok: "\<forall>r\<in>set rows. length r = length cols" "length cols < 2 ^ 16" using assms(2) by (auto simp: query_rsp_ok_def)
  fix i j assume ij: "i < length rows" "j < length cols"
  have "i * length cols + j < length (concat rows)" "concat rows ! (i * length cols + j) = rows ! i ! j"
    using concat_rows [OF ok(1) ij] by auto
  moreover have "length (concat rows) = length rows * length cols" by (rule length_concat_rows [OF ok(1)])
  ultimately show "GetData (query_result fmt atof junk rc cols rows ck) i j = Some (tlv_read fmt atof junk (rows ! i ! j))"
    using assms(4) by (simp add: GetData_def query_result_def Let_def)
qed (use assms(2,3) in \<open>auto simp: query_result_def GetFieldNum_def GetFieldID_def query_rsp_ok_def\<close>)

definition demo_rows :: "nat tlv list list" where
  "demo_rows = [[TLV_int 5 demo_tlv, Assign_string [72, 105] (tlv_new demo_tlv)], [TLV_char 1 demo_tlv, Assign_real 3 (tlv_new demo_tlv)]]"

lemmas demo_values = demo_rows_def TLV_int_def TLV_char_def Assign_byte_def Assign_dword_def Assign_string_def Assign_real_def
  tlv_new_def demo_tlv_def tlv_types

lemma demo_rows_ok: "query_rsp_ok unary 0 [1, 2] demo_rows [9]"
  by (simp add: query_rsp_ok_def query_rsp_items_def demo_values tlv_ok_def tlv_items_def tlv_item_def real_ok_def
      dword_items_def cookie_items_def unary_def)

theorem dp_query_answer_roundtrip_witness:
  "\<exists>d rsp. query_ParseRsp length demo_tlv DpQueryRsp demo_up d (length d) = Some (0, rsp) \<and>
     rp_recordnum (qr_base rsp) = 2 \<and> map_option string_value (GetData rsp 0 1) = Some [72, 105] \<and>
     map_option real_value (GetData rsp 1 1) = Some 3"
proof -
  let ?h = "MsgHeader 0" and ?d = "wire (MsgHeader 0) (query_rsp_items unary 0 [1, 2] demo_rows [9])"
  have "wire_header ?h" by (simp add: wire_header_def MsgHeader_def)
  from dp_query_answer_roundtrip [OF this demo_rows_ok, of length demo_tlv demo_up]
  obtain rsp where r: "query_ParseRsp length demo_tlv DpQueryRsp demo_up ?d (length ?d) = Some (0, rsp)"
      "qr_base rsp = \<lparr>rp_cookie = [9], rp_retcode = 0, rp_recordnum = length demo_rows\<rparr>"
      "\<forall>i<length demo_rows. \<forall>j<2. GetData rsp i j = Some (tlv_read unary length demo_tlv (demo_rows ! i ! j))"
    by (auto simp: demo_rows_def)
  have "length demo_rows = 2" by (simp add: demo_rows_def)
  then have "GetData rsp 0 1 = Some (tlv_read unary length demo_tlv (demo_rows ! 0 ! 1))"
    "GetData rsp 1 1 = Some (tlv_read unary length demo_tlv (demo_rows ! 1 ! 1))" "rp_recordnum (qr_base rsp) = 2"
    using r(2,3) by simp_all
  then have "rp_recordnum (qr_base rsp) = 2 \<and> map_option string_value (GetData rsp 0 1) = Some [72, 105] \<and>
      map_option real_value (GetData rsp 1 1) = Some 3"
    by (simp add: tlv_read_def demo_values unary_def)
  then show ?thesis using r(1) by blast
qed

text \<open>
  The answer to a combined request is taken apart into the answers it was put together
  from: each is read as if it had come alone, into an object of the class that its command
  asks for, and is found under its index with its command; \<open>IsAllCmdOK\<close> says whether all
  return codes are 0.
\<close>

theorem dp_combo_answer_roundtrip:
  assumes "wire_header h" and "\<forall>s\<in>set subs. sub_ok fmt s" and "length subs < 2 ^ 16" and "length ck < 2 ^ 16"
    and "30 + length (encode_items (combo_rsp_items (map (sub_wire fmt) subs) ck)) < 2 ^ 32"
  defines "d \<equiv> wire h (combo_rsp_items (map (sub_wire fmt) subs) ck)"
  shows "\<exists>rsp. combo_ParseRsp atof junk DpComboRsp up d (length d) = Some (0, rsp) \<and>
     rp_retcode (cb_base rsp) = 0 \<and> rp_cookie (cb_base rsp) = ck \<and>
     (\<forall>i. GetRsp rsp i = (if i < length subs then Some (sub_result fmt atof junk (subs ! i)) else None)) \<and>
     (IsAllCmdOK rsp \<longleftrightarrow> (\<forall>s\<in>set subs. sub_retcode (fst (sub_result fmt atof junk s)) = 0))"
proof (intro exI conjI allI)
  let ?r = "\<lparr>cb_base = \<lparr>rp_cookie = ck, rp_retcode = 0, rp_recordnum = length subs\<rparr>, cb_subs = map (sub_result fmt atof junk) subs\<rparr>"
  show "combo_ParseRsp atof junk DpComboRsp up d (length d) = Some (0, ?r)"
    unfolding d_def by (rule combo_ParseRsp_reads [OF assms(1-5)])
  show g: "GetRsp ?r i = (if i < length subs then Some (sub_result fmt atof junk (subs ! i)) else None)" for i
    by (simp add: GetRsp_def)
  show "IsAllCmdOK ?r \<longleftrightarrow> (\<forall>s\<in>set subs. sub_retcode (fst (sub_result fmt atof junk s)) = 0)"
    by (auto simp: IsAllCmdOK_def g list_all_iff all_set_conv_all_nth split_beta)
qed simp_all

theorem dp_combo_answer_roundtrip_witness:
  "\<exists>d rsp. combo_ParseRsp length demo_tlv DpComboRsp demo_up d (length d) = Some (0, rsp) \<and>
     GetRsp rsp 0 = Some (BaseRsp \<lparr>rp_cookie = [], rp_retcode = 2, rp_recordnum = 0\<rparr>, INSERT_MAIN_CMD) \<and>
     GetRsp rsp 1 = Some (QueryRsp (query_result unary length demo_tlv 0 [1, 2] demo_rows [9]), QUERY_MAIN_CMD) \<and> \<not> IsAllCmdOK rsp"
proof -
  define h where "h c = (MsgHeader 0)\<lparr>main_cmd := c\<rparr>" for c
  define subs where "subs = [SubBase (h INSERT_MAIN_CMD) 2 0 [], SubQuery (h QUERY_MAIN_CMD) 0 [1, 2] demo_rows [9]]"
  have h: "wire_header (h INSERT_MAIN_CMD)" "wire_header (h QUERY_MAIN_CMD)" "main_cmd (h c) = c" for c
    by (simp_all add: h_def wire_header_def MsgHeader_def main_cmds)
  have ok: "\<forall>s\<in>set subs. sub_ok unary s" using demo_rows_ok h by (simp add: subs_def)
  have size: "30 + length (encode_items (combo_rsp_items (map (sub_wire unary) subs) [])) < 2 ^ 32"
    by (simp add: subs_def combo_rsp_items_def base_rsp_items_def query_rsp_items_def cookie_items_def dword_items_def
        demo_values tlv_items_def tlv_item_def unary_def)
  have "length subs < 2 ^ 16" "length ([] :: bytes) < 2 ^ 16" by (simp_all add: subs_def)
  from dp_combo_answer_roundtrip [OF h(1) ok this size, of length demo_tlv demo_up]
  obtain d rsp where r: "combo_ParseRsp length demo_tlv DpComboRsp demo_up d (length d) = Some (0, rsp)"
      "\<forall>i. GetRsp rsp i = (if i < length subs then Some (sub_result unary length demo_tlv (subs ! i)) else None)"
      "IsAllCmdOK rsp \<longleftrightarrow> (\<forall>s\<in>set subs. sub_retcode (fst (sub_result unary length demo_tlv s)) = 0)"
    by blast
  have "GetRsp rsp 0 = Some (sub_result unary length demo_tlv (subs ! 0))"
    "GetRsp rsp 1 = Some (sub_result unary length demo_tlv (subs ! 1))" "\<not> IsAllCmdOK rsp"
    using r(2,3) by (simp_all add: subs_def)
  then show ?thesis using r(1) by (intro exI [of _ d] exI [of _ rsp]) (simp add: subs_def h(3))
qed

text \<open>
  The end of the packet is not noticed: \<open>ParseRsp\<close> does not ask the unpacker for errors, so
  an answer with an empty body is read as success with return code 0 and no records, and so
  is the answer to a query, a combined request or a search.
\<close>

theorem dp_empty_answer_is_success:
  assumes "wire_header h"
  defines "d \<equiv> wire h []"
  shows "base_ParseRsp BaseDpRsp up d (length d) = Some (0, \<lparr>rp_cookie = [], rp_retcode = 0, rp_recordnum = 0\<rparr>) \<and>
     query_ParseRsp atof junk DpQueryRsp up d (length d) =
       Some (0, \<lparr>qr_base = \<lparr>rp_cookie = [], rp_retcode = 0, rp_recordnum = 0\<rparr>, qr_fields = [], qr_data = []\<rparr>) \<and>
     combo_ParseRsp atof junk DpComboRsp up d (length d) =
       Some (0, \<lparr>cb_base = \<lparr>rp_cookie = [], rp_retcode = 0, rp_recordnum = 0\<rparr>, cb_subs = []\<rparr>) \<and>
     find_ParseRsp DpCondFindRsp up d (length d) =
       Some (0, \<lparr>fr_base = \<lparr>rp_cookie = [], rp_retcode = 0, rp_recordnum = 0\<rparr>, fr_online = [], fr_offline = []\<rparr>)"
proof -
  obtain u where u: "UP_Init (up\<lparr>up_err := RET_OK\<rparr>) (Some d) (length d) = Some (RET_OK, u)" "ahead u [] [EOT] []"
    unfolding d_def using Init_wire [OF assms(1), of "[]" "up\<lparr>up_err := RET_OK\<rparr>" "[]"] by auto
  have w: "up_bodylen v = 0 \<Longrightarrow> up_off v = 0 \<Longrightarrow> UnPackWord v = Some (0, up_fail v) \<and> UnPackDWord v = Some (0, up_fail v) \<and>
      UnPackBinary_str v s 0 = Some (RET_OK, s, v)" for v s
    by (simp add: UnPackWord_def UnPackDWord_def UnPackBinary_str_def)
  have f: "up_bodylen (up_fail v) = up_bodylen v" "up_off (up_fail v) = up_off v" for v by (simp_all add: up_fail_def)
  have z: "up_bodylen u = 0" "up_off u = 0" using u(2) by (simp_all add: ahead_def up_sees_def)
  have ck: "up_bodylen v = 0 \<Longrightarrow> up_off v = 0 \<Longrightarrow> UnPackCookie v s = Some (s, up_fail v)" for v s
    by (simp add: UnPackCookie_def w f)
  show ?thesis
    by (simp add: base_ParseRsp_def query_ParseRsp_def combo_ParseRsp_def find_ParseRsp_def u(1) w f z ck BaseDpRsp_def
        DpQueryRsp_def DpComboRsp_def DpCondFindRsp_def mul32_def)
qed

theorem dp_empty_answer_is_success_witness:
  "let d = wire (MsgHeader 0) []
   in base_ParseRsp BaseDpRsp demo_up d (length d) = Some (0, \<lparr>rp_cookie = [], rp_retcode = 0, rp_recordnum = 0\<rparr>) \<and>
      query_ParseRsp length demo_tlv DpQueryRsp demo_up d (length d) =
        Some (0, \<lparr>qr_base = \<lparr>rp_cookie = [], rp_retcode = 0, rp_recordnum = 0\<rparr>, qr_fields = [], qr_data = []\<rparr>)"
proof -
  have "wire_header (MsgHeader 0)" by (simp add: wire_header_def MsgHeader_def)
  from dp_empty_answer_is_success [OF this, of demo_up length demo_tlv] show ?thesis unfolding Let_def by blast
qed

section \<open>The cookie\<close>

text \<open>
  A cookie of at most 65535 bytes is packed into exactly its fields and read back as it
  was: source, flow, extra information and the request (without extra information the reader
  keeps what it had).
\<close>

theorem dp_cookie_roundtrip:
  assumes "m_Source c < 2 ^ 16" "m_Flow c < 2 ^ 32" and "m_ReqPackLen c = length req" and "m_pReqPack c = Some (req @ ys)"
    and "8 + length (m_strExtInfo c) + length req \<le> 0xFFFF"
  defines "d \<equiv> be_bytes 2 (m_Source c) @ be_bytes 4 (m_Flow c) @ be_bytes 2 (length (m_strExtInfo c)) @ m_strExtInfo c @ req"
  shows "CommCookie_Pack stk c ck = Some (int (length d), d) \<and>
     CommCookie_UnPack c0 d (length d) =
       Some (0, c0\<lparr>m_Source := m_Source c, m_Flow := m_Flow c, m_ReqPackLen := length req,
                   m_pReqPack := (if req = [] then None else Some req),
                   m_strExtInfo := (if m_strExtInfo c = [] then m_strExtInfo c0 else m_strExtInfo c)\<rparr>)"
proof
  let ?e = "m_strExtInfo c"
  have l: "cookie_len c = length d" "length d = 8 + length ?e + length req" "length d \<le> 0xFFFF"
    using assms(3,5) by (simp_all add: cookie_len_def d_def)
  have pos: "d \<noteq> []" using l(2) by auto
  let ?b = "map stk [0..<length d]"
  have w: "le_bytes 2 (htons (m_Source c)) = be_bytes 2 (m_Source c)" "le_bytes 4 (htonl (m_Flow c)) = be_bytes 4 (m_Flow c)"
    "le_bytes 2 (htons (length ?e)) = be_bytes 2 (length ?e)"
    using l assms(1,2) by (simp_all add: codec_simps)
  have full: "overlay ?b 0 d = d" by (simp add: overlay_def)
  have "CommCookie_Pack_buf c ?b (length d) = Some (int (length d), d)"
    using l assms(3,4) full
    by (auto simp: CommCookie_Pack_buf_def w memwr_def memrd_def overlay_join d_def)
  then show "CommCookie_Pack stk c ck = Some (int (length d), d)" using l(1,3) pos by (simp add: CommCookie_Pack_def Let_def)
  have r: "memrd d 0 2 = Some (be_bytes 2 (m_Source c))" "memrd d 2 4 = Some (be_bytes 4 (m_Flow c))"
    "memrd d 6 2 = Some (be_bytes 2 (length ?e))" "memrd d 8 (length ?e) = Some ?e" "drop (8 + length ?e) d = req"
    by (simp_all add: d_def memrd_def)
  have n: "ntohs (le_val (be_bytes 2 (m_Source c))) = m_Source c" "ntohl (le_val (be_bytes 4 (m_Flow c))) = m_Flow c"
    "ntohs (le_val (be_bytes 2 (length ?e))) = length ?e"
    using l assms(1,2) by (simp_all add: codec_simps)
  show "CommCookie_UnPack c0 d (length d) =
       Some (0, c0\<lparr>m_Source := m_Source c, m_Flow := m_Flow c, m_ReqPackLen := length req,
                   m_pReqPack := (if req = [] then None else Some req),
                   m_strExtInfo := (if m_strExtInfo c = [] then m_strExtInfo c0 else m_strExtInfo c)\<rparr>)"
  proof (cases "?e = []")
    case True
    have "ntohs (le_val (be_bytes 2 0)) = 0" "memrd d 6 2 = Some (be_bytes 2 0)" "drop 8 d = req" "length d = 8 + length req"
      using n(3) r(3,5) l(2) True by simp_all
    then show ?thesis using True by (simp add: CommCookie_UnPack_def r(1,2) n(1,2) Let_def)
  next
    case False
    then show ?thesis using l(2) by (simp add: CommCookie_UnPack_def r n Let_def)
  qed
qed

theorem dp_cookie_roundtrip_witness:
  "let c = \<lparr>m_Source = 3, m_Flow = 70000, m_pReqPack = Some [1, 2, 3], m_ReqPackLen = 2, m_strExtInfo = [9]\<rparr>
   in \<exists>d. CommCookie_Pack (\<lambda>_. 0) c [] = Some (11, d) \<and> CommCookie_UnPack c d 11 = Some (0, c\<lparr>m_pReqPack := Some [1, 2]\<rparr>)"
  using dp_cookie_roundtrip [of "\<lparr>m_Source = 3, m_Flow = 70000, m_pReqPack = Some [1, 2, 3], m_ReqPackLen = 2, m_strExtInfo = [9]\<rparr>"
    "[1, 2]" "[3]" "\<lambda>_. 0" "[]" "\<lparr>m_Source = 3, m_Flow = 70000, m_pReqPack = Some [1, 2, 3], m_ReqPackLen = 2, m_strExtInfo = [9]\<rparr>"]
  by (auto simp: Let_def)

end
