(* ===== verification/ProcMon.thy ===== *)
theory ProcMon
  imports Prelude
begin

text \<open>
  The process monitor (\<open>include/procmon.h\<close>, \<open>base/procmon.cpp\<close>): the controller keeps a table
  of the processes of each group, filled by the messages the processes send over a message
  queue; it starts processes when a group has too few, stops some when it has too many,
  replaces dead ones and tells the others to reduce their load.

  Starting and killing are system commands, here entries of the list of effects.  The message
  queue is the list of waiting messages; the time and whether a process still exists are
  fixed during a run.  A group is its position in the array of groups, an object is found by
  its position in its bucket.
\<close>

section \<open>Data\<close>

record group_info =
  gi_groupid :: int
  gi_adjust :: int
  gi_basepath :: string
  gi_exefile :: string
  gi_etcfile :: string
  gi_flag :: string
  gi_exitsignal :: int
  gi_maxproc :: nat
  gi_minproc :: nat
  gi_heartbeat :: nat
  gi_maxwater :: nat
  gi_minsrate :: nat
  gi_maxdelay :: nat
  gi_maxmem :: nat

record proc_info =
  pi_groupid :: int
  pi_procid :: int
  pi_timestamp :: int
  pi_watermark :: nat
  pi_srate :: nat
  pi_delay :: nat
  pi_memused :: nat
  pi_curconn :: nat

record proc_event =
  pe_groupid :: int
  pe_procid :: int
  pe_cmd :: int
  pe_arg1 :: int
  pe_arg2 :: int

text \<open>The lowest bit of \<open>srctype\_\<close> tells the messages of clients from those of the server.\<close>

datatype mon_msg = ClientMsg int proc_info | ServerMsg int proc_event

fun msg_type :: "mon_msg \<Rightarrow> int" where
  "msg_type (ClientMsg t i) = t"
| "msg_type (ServerMsg t e) = t"

fun from_client :: "mon_msg \<Rightarrow> bool" where
  "from_client (ClientMsg t i) = True"
| "from_client (ServerMsg t e) = False"

record proc_obj =
  po_info :: proc_info
  po_status :: nat
  po_notifytime :: int

record proc_group =
  pg_info :: group_info
  pg_buckets :: "proc_obj list list"
  pg_curproc :: int
  pg_errproc :: int
  pg_lastcheck :: int

datatype pm_effect =
    PmFork string string string int nat string
  | PmKill int int
  | PmNotify int "int option" nat
  | PmLoad nat

record procmon =
  pm_interval :: nat
  pm_groups :: "proc_group list"
  pm_notify :: bool
  pm_mq :: "mon_msg list"
  pm_sends :: "nat \<Rightarrow> bool"
  pm_nsend :: nat
  pm_now :: int
  pm_gone :: "int \<Rightarrow> bool"
  pm_out :: "pm_effect list"

definition BUCKET_SIZE :: nat where "BUCKET_SIZE = 10"
definition MAX_PROC_GROUP_NUM :: nat where "MAX_PROC_GROUP_NUM = 128"
definition GROUP_UNUSED :: int where "GROUP_UNUSED = -1"
definition MSG_ID_SERVER :: int where "MSG_ID_SERVER = 1"
definition ADJUST_PROC_DELAY :: int where "ADJUST_PROC_DELAY = 120"
definition MIN_NOTIFY_TIME_CYCLE :: int where "MIN_NOTIFY_TIME_CYCLE = 30"
definition SIGUSR1 :: int where "SIGUSR1 = 10"

definition EV_PROCDEAD :: nat where "EV_PROCDEAD = 1"
definition EV_OVERLOAD :: nat where "EV_OVERLOAD = 2"
definition EV_LOWSRATE :: nat where "EV_LOWSRATE = 4"
definition EV_LATENCY :: nat where "EV_LATENCY = 8"
definition EV_OTFMEM :: nat where "EV_OTFMEM = 16"
definition EV_PROCDOWN :: nat where "EV_PROCDOWN = 32"
definition EV_PROCUP :: nat where "EV_PROCUP = 64"
definition PROCMON_CMD_LOAD :: int where "PROCMON_CMD_LOAD = 2"

definition pm_new :: "nat \<Rightarrow> (nat \<Rightarrow> bool) \<Rightarrow> int \<Rightarrow> (int \<Rightarrow> bool) \<Rightarrow> mon_msg list \<Rightarrow> procmon" where
  "pm_new interval sends now gone q =
     \<lparr>pm_interval = interval, pm_groups = [], pm_notify = False, pm_mq = q, pm_sends = sends, pm_nsend = 0,
      pm_now = now, pm_gone = gone, pm_out = []\<rparr>"

definition put_effect :: "pm_effect \<Rightarrow> procmon \<Rightarrow> procmon" where
  "put_effect e pm = pm\<lparr>pm_out := pm_out pm @ [e]\<rparr>"

section \<open>The message queue\<close>

text \<open>
  \<open>msgrcv\<close> without waiting: type 0 takes the first message, a positive type the first of this
  type, a negative one the first of the lowest type up to its absolute value.
\<close>

definition mq_pick :: "int \<Rightarrow> mon_msg list \<Rightarrow> (mon_msg \<times> mon_msg list) option" where
  "mq_pick t q =
     (let low = filter (\<lambda>x. x \<le> - t) (map msg_type q);
          P = (\<lambda>m. t = 0 \<or> t > 0 \<and> msg_type m = t \<or> t < 0 \<and> low \<noteq> [] \<and> msg_type m = foldr min low (- t))
      in case List.extract P q of None \<Rightarrow> None | Some (xs, m, ys) \<Rightarrow> Some (m, xs @ ys))"

definition mq_send :: "mon_msg \<Rightarrow> procmon \<Rightarrow> procmon" where
  "mq_send m pm =
     (let pm1 = pm\<lparr>pm_nsend := pm_nsend pm + 1\<rparr>
      in if pm_sends pm (pm_nsend pm) then pm1\<lparr>pm_mq := pm_mq pm @ [m]\<rparr> else pm1)"

section \<open>Groups and processes\<close>

definition add_group :: "group_info \<Rightarrow> procmon \<Rightarrow> procmon option" where
  "add_group gi pm =
     (if length (pm_groups pm) < MAX_PROC_GROUP_NUM \<and> gi_groupid gi = int (length (pm_groups pm))
      then Some (pm\<lparr>pm_groups := pm_groups pm @
             [\<lparr>pg_info = gi, pg_buckets = replicate BUCKET_SIZE [], pg_curproc = 0, pg_errproc = 0, pg_lastcheck = 0\<rparr>]\<rparr>)
      else None)"

definition mod_group :: "int \<Rightarrow> group_info \<Rightarrow> procmon \<Rightarrow> procmon option" where
  "mod_group groupid gi pm =
     (if groupid < int (length (pm_groups pm)) \<and> groupid = gi_groupid gi \<and> 0 \<le> groupid
      then Some (pm\<lparr>pm_groups := (pm_groups pm)[nat groupid := (pm_groups pm ! nat groupid)\<lparr>pg_info := gi\<rparr>]\<rparr>)
      else None)"

definition upd_group :: "nat \<Rightarrow> (proc_group \<Rightarrow> proc_group) \<Rightarrow> procmon \<Rightarrow> procmon" where
  "upd_group i f pm = pm\<lparr>pm_groups := (pm_groups pm)[i := f (pm_groups pm ! i)]\<rparr>"

definition upd_bucket :: "nat \<Rightarrow> (proc_obj list \<Rightarrow> proc_obj list) \<Rightarrow> proc_group \<Rightarrow> proc_group" where
  "upd_bucket j f g = g\<lparr>pg_buckets := (pg_buckets g)[j := f (pg_buckets g ! j)]\<rparr>"

text \<open>The remainder of a negative number is negative: no bucket, unless it is 0.\<close>

definition bucket_of :: "int \<Rightarrow> nat option" where
  "bucket_of procid = (if procid < 0 \<and> procid mod int BUCKET_SIZE \<noteq> 0 then None else Some (nat (procid mod int BUCKET_SIZE)))"

abbreviation has_pid :: "int \<Rightarrow> proc_obj \<Rightarrow> bool" where
  "has_pid procid p \<equiv> pi_procid (po_info p) = procid"

text \<open>A negative number of a group passes the check and is used as an index: \<open>None\<close>.\<close>

definition find_proc :: "int \<Rightarrow> int \<Rightarrow> procmon \<Rightarrow> proc_obj option option" where
  "find_proc groupid procid pm =
     (if groupid \<ge> int (length (pm_groups pm)) then Some None
      else if groupid < 0 then None
      else do { j \<leftarrow> bucket_of procid; Some (find (has_pid procid) (pg_buckets (pm_groups pm ! nat groupid) ! j)) })"

definition add_proc :: "int \<Rightarrow> proc_info \<Rightarrow> procmon \<Rightarrow> procmon option" where
  "add_proc groupid info pm =
     (if groupid \<ge> int (length (pm_groups pm)) then Some pm
      else if groupid < 0 then None
      else do {
        j \<leftarrow> bucket_of (pi_procid info);
        Some (upd_group (nat groupid)
                (\<lambda>g. upd_bucket j ((#) \<lparr>po_info = info, po_status = 0, po_notifytime = pm_now pm\<rparr>)
                       (g\<lparr>pg_curproc := pg_curproc g + 1\<rparr>)) pm)
      })"

fun upd_first :: "('a \<Rightarrow> bool) \<Rightarrow> ('a \<Rightarrow> 'a) \<Rightarrow> 'a list \<Rightarrow> 'a list" where
  "upd_first P f [] = []"
| "upd_first P f (x # xs) = (if P x then f x # xs else x # upd_first P f xs)"

fun del_first :: "('a \<Rightarrow> bool) \<Rightarrow> 'a list \<Rightarrow> 'a list" where
  "del_first P [] = []"
| "del_first P (x # xs) = (if P x then xs else x # del_first P xs)"

text \<open>The count goes down also when nothing was found.\<close>

definition del_proc :: "int \<Rightarrow> int \<Rightarrow> procmon \<Rightarrow> procmon option" where
  "del_proc groupid procid pm =
     (if groupid \<ge> int (length (pm_groups pm)) then Some pm
      else if groupid < 0 then None
      else do {
        j \<leftarrow> bucket_of procid;
        Some (upd_group (nat groupid)
                (\<lambda>g. upd_bucket j (del_first (has_pid procid)) (g\<lparr>pg_curproc := pg_curproc g - 1\<rparr>)) pm)
      })"

section \<open>Receiving\<close>

definition recv_info :: "proc_info \<Rightarrow> procmon \<Rightarrow> procmon option" where
  "recv_info info pm = do {
     let pm = put_effect (PmLoad (pi_curconn info)) pm;
     p \<leftarrow> find_proc (pi_groupid info) (pi_procid info) pm;
     (case p of
        Some _ \<Rightarrow> do {
          j \<leftarrow> bucket_of (pi_procid info);
          Some (upd_group (nat (pi_groupid info))
                  (upd_bucket j (upd_first (has_pid (pi_procid info)) (\<lambda>p. p\<lparr>po_info := info\<rparr>))) pm)
        }
      | None \<Rightarrow> add_proc (pi_groupid info) info pm)
   }"

text \<open>One unit of fuel for each waiting message is enough, as receiving sends nothing.\<close>

fun pm_recv_loop :: "nat \<Rightarrow> int \<Rightarrow> procmon \<Rightarrow> procmon option" where
  "pm_recv_loop 0 t pm = None"
| "pm_recv_loop (Suc fuel) t pm =
     (case mq_pick t (pm_mq pm) of
        None \<Rightarrow> Some pm
      | Some (m, q) \<Rightarrow>
          (case m of
             ClientMsg _ info \<Rightarrow>
               (case recv_info info (pm\<lparr>pm_mq := q\<rparr>) of None \<Rightarrow> None | Some pm' \<Rightarrow> pm_recv_loop fuel t pm')
           | ServerMsg _ _ \<Rightarrow> pm_recv_loop fuel t (pm\<lparr>pm_mq := q\<rparr>)))"

definition do_recv :: "int \<Rightarrow> procmon \<Rightarrow> procmon option" where
  "do_recv t pm = pm_recv_loop (Suc (length (pm_mq pm))) t pm"

definition pm_set_commu :: "mon_msg list \<Rightarrow> procmon \<Rightarrow> procmon option" where
  "pm_set_commu q pm = do_recv 0 (pm\<lparr>pm_mq := q\<rparr>)"

section \<open>Effects\<close>

fun do_fork :: "group_info \<Rightarrow> nat \<Rightarrow> procmon \<Rightarrow> procmon" where
  "do_fork gi 0 pm = pm"
| "do_fork gi (Suc n) pm =
     do_fork gi n (put_effect (PmFork (gi_basepath gi) (gi_exefile gi) (gi_etcfile gi) (gi_groupid gi) (gi_maxproc gi) (gi_flag gi)) pm)"

definition do_kill :: "int \<Rightarrow> int \<Rightarrow> procmon \<Rightarrow> procmon" where
  "do_kill procid signo pm = put_effect (PmKill procid signo) pm"

definition do_order :: "int \<Rightarrow> int \<Rightarrow> int \<Rightarrow> int \<Rightarrow> procmon \<Rightarrow> procmon" where
  "do_order groupid procid cmd arg1 pm =
     mq_send (ServerMsg procid \<lparr>pe_groupid = groupid, pe_procid = procid, pe_cmd = cmd, pe_arg1 = arg1, pe_arg2 = 0\<rparr>) pm"

section \<open>Events of a group\<close>

definition check_groupbusy :: "nat \<Rightarrow> procmon \<Rightarrow> bool" where
  "check_groupbusy i pm =
     (let g = pm_groups pm ! i
      in gi_maxwater (pg_info g) \<noteq> 0 \<and>
         list_ex (list_ex (\<lambda>p. pi_watermark (po_info p) > gi_maxwater (pg_info g))) (take BUCKET_SIZE (pg_buckets g)))"

text \<open>Stopping \<open>diff\<close> processes: always the first one of the first bucket that has any.\<close>

fun stop_procs :: "nat \<Rightarrow> nat \<Rightarrow> nat \<Rightarrow> int \<Rightarrow> int \<Rightarrow> procmon \<Rightarrow> procmon option" where
  "stop_procs 0 i j count diff pm = None"
| "stop_procs (Suc fuel) i j count diff pm =
     (if j \<ge> BUCKET_SIZE then Some pm
      else (case pg_buckets (pm_groups pm ! i) ! j of
              [] \<Rightarrow> if count \<ge> diff then Some pm else stop_procs fuel i (j + 1) count diff pm
            | p # _ \<Rightarrow>
                (case do_recv (pi_procid (po_info p)) (do_kill (pi_procid (po_info p)) SIGUSR1 pm) of None \<Rightarrow> None
                 | Some pm1 \<Rightarrow>
                     (case del_proc (gi_groupid (pg_info (pm_groups pm1 ! i))) (pi_procid (po_info p)) pm1 of None \<Rightarrow> None
                      | Some pm2 \<Rightarrow>
                          if count + 1 \<ge> diff then Some pm2 else stop_procs fuel i j (count + 1) diff pm2))))"

definition set_adjust :: "nat \<Rightarrow> procmon \<Rightarrow> procmon" where
  "set_adjust i pm = upd_group i (\<lambda>g. g\<lparr>pg_info := (pg_info g)\<lparr>gi_adjust := pm_now pm\<rparr>\<rparr>) pm"

definition all_procs :: "procmon \<Rightarrow> nat" where
  "all_procs pm = sum_list (map (\<lambda>g. length (concat (pg_buckets g))) (pm_groups pm))"

definition client_msgs :: "procmon \<Rightarrow> nat" where
  "client_msgs pm = length (filter from_client (pm_mq pm))"

text \<open>Fuel for the loops that delete a process each time: a message may add one.\<close>

definition pm_fuel :: "procmon \<Rightarrow> nat" where
  "pm_fuel pm = Suc (all_procs pm + client_msgs pm)"

definition group_event :: "nat \<Rightarrow> nat \<Rightarrow> int \<Rightarrow> procmon \<Rightarrow> procmon option" where
  "group_event event i diff pm =
     (if event = EV_PROCDOWN
      then Some (set_adjust i (do_fork (pg_info (pm_groups pm ! i)) (nat diff) pm))
      else do { pm \<leftarrow> stop_procs (pm_fuel pm + BUCKET_SIZE) i 0 0 diff pm; Some (set_adjust i pm) })"

definition check_group :: "nat \<Rightarrow> procmon \<Rightarrow> procmon option" where
  "check_group i pm =
     (let g = pm_groups pm ! i; gi = pg_info g;
          lo = s32_of_nat (gi_minproc gi); hi = s32_of_nat (gi_maxproc gi); cur = pg_curproc g;
          (event, diff) =
            (if lo - cur > 0 then (EV_PROCDOWN, lo - cur)
             else if cur - hi > 0 then (EV_PROCUP, cur - hi)
             else if lo < cur \<and> gi_adjust gi + ADJUST_PROC_DELAY < pm_now pm \<and> \<not> check_groupbusy i pm then (EV_PROCUP, 1)
             else (0, 0))
      in if event = 0 then Some pm
         else group_event event i diff
                (if pm_notify pm then put_effect (PmNotify (gi_groupid gi) None event) pm else pm))"

section \<open>Events of a process\<close>

definition get_proc :: "nat \<Rightarrow> nat \<Rightarrow> nat \<Rightarrow> procmon \<Rightarrow> proc_obj" where
  "get_proc i j k pm = pg_buckets (pm_groups pm ! i) ! j ! k"

definition upd_proc :: "nat \<Rightarrow> nat \<Rightarrow> nat \<Rightarrow> (proc_obj \<Rightarrow> proc_obj) \<Rightarrow> procmon \<Rightarrow> procmon" where
  "upd_proc i j k f pm = upd_group i (upd_bucket j (\<lambda>b. b[k := f (b ! k)])) pm"

text \<open>A process is dead if it has not reported for the time of the heartbeat and does not exist any more.\<close>

definition proc_dead :: "group_info \<Rightarrow> proc_info \<Rightarrow> procmon \<Rightarrow> bool" where
  "proc_dead gi p pm \<longleftrightarrow> pi_timestamp p < int (u32_of_int (pm_now pm - int (gi_heartbeat gi))) \<and> pm_gone pm (pi_procid p)"

definition proc_events :: "group_info \<Rightarrow> proc_info \<Rightarrow> procmon \<Rightarrow> nat" where
  "proc_events gi p pm =
     (if gi_maxwater gi \<noteq> 0 \<and> pi_watermark p > gi_maxwater gi then EV_OVERLOAD else 0) +
     (if gi_minsrate gi \<noteq> 0 \<and> pi_srate p < gi_minsrate gi then EV_LOWSRATE else 0) +
     (if gi_maxdelay gi \<noteq> 0 \<and> pi_delay p > gi_maxdelay gi then EV_LATENCY else 0) +
     (if gi_maxmem gi \<noteq> 0 \<and> pi_memused p > gi_maxmem gi then EV_OTFMEM else 0) +
     (if proc_dead gi p pm then EV_PROCDEAD else 0)"

definition has_event :: "nat \<Rightarrow> nat \<Rightarrow> bool" where
  "has_event ev event \<longleftrightarrow> event div ev mod 2 = 1"

text \<open>
  The status bit of an event and the order to reduce the load.  The number of the group is
  read from the information of the process.
\<close>

definition order_load :: "nat \<Rightarrow> nat \<Rightarrow> nat \<Rightarrow> nat \<Rightarrow> procmon \<Rightarrow> procmon" where
  "order_load i j k st pm =
     (let pm1 = upd_proc i j k (\<lambda>p. p\<lparr>po_status := po_status p + st\<rparr>) pm; p = po_info (get_proc i j k pm1)
      in do_order (pi_groupid p) (pi_procid p) PROCMON_CMD_LOAD
           (s32_of_nat (gi_maxwater (pg_info (pm_groups pm1 ! nat (pi_groupid p))))) pm1)"

definition overload_fork :: "nat \<Rightarrow> procmon \<Rightarrow> procmon" where
  "overload_fork i pm =
     (let g = pm_groups pm ! i
      in if pg_curproc g < s32_of_nat (gi_maxproc (pg_info g)) then set_adjust i (do_fork (pg_info g) 1 pm) else pm)"

definition dead_event :: "nat \<Rightarrow> int \<Rightarrow> procmon \<Rightarrow> procmon option" where
  "dead_event g procid pm = do {
     let gi = pg_info (pm_groups pm ! g);
     pm \<leftarrow> do_recv procid (do_kill procid (gi_exitsignal gi) pm);
     pm \<leftarrow> del_proc (int g) procid pm;
     let pm = do_fork gi 1 pm;
     Some (upd_group g (\<lambda>g. g\<lparr>pg_errproc := pg_errproc g + 1\<rparr>) pm)
   }"

text \<open>The result says whether the list of processes has changed.\<close>

definition proc_event_at :: "nat \<Rightarrow> nat \<Rightarrow> nat \<Rightarrow> nat \<Rightarrow> procmon \<Rightarrow> (bool \<times> procmon) option" where
  "proc_event_at event i j k pm =
     (let p = po_info (get_proc i j k pm); pm = upd_proc i j k (\<lambda>p. p\<lparr>po_status := 0\<rparr>) pm; g = nat (pi_groupid p)
      in if has_event EV_PROCDEAD event
         then do { pm \<leftarrow> dead_event g (pi_procid p) pm; Some (True, pm) }
         else let pm = (if has_event EV_OVERLOAD event then overload_fork g (order_load i j k 1 pm) else pm);
                  pm = (if has_event EV_LOWSRATE event then order_load i j k 2 pm else pm);
                  pm = (if has_event EV_LATENCY event then order_load i j k 4 pm else pm);
                  pm = (if has_event EV_OTFMEM event then order_load i j k 8 pm else pm)
              in Some (False, pm))"

definition check_proc :: "nat \<Rightarrow> nat \<Rightarrow> nat \<Rightarrow> procmon \<Rightarrow> (bool \<times> procmon) option" where
  "check_proc i j k pm =
     (let gi = pg_info (pm_groups pm ! i); p = get_proc i j k pm; event = proc_events gi (po_info p) pm;
          pm = upd_proc i j k (\<lambda>p. p\<lparr>po_status := 0\<rparr>) pm
      in if event = 0 then Some (False, pm)
         else let pm = (if pm_notify pm \<and> po_notifytime p + MIN_NOTIFY_TIME_CYCLE < pm_now pm
                        then upd_proc i j k (\<lambda>p. p\<lparr>po_notifytime := pm_now pm\<rparr>)
                               (put_effect (PmNotify (gi_groupid gi) (Some (pi_procid (po_info p))) event) pm)
                        else pm)
              in proc_event_at event i j k pm)"

section \<open>The round of checks\<close>

text \<open>A bucket is walked from its head; after a deletion the walk starts again.\<close>

primrec walk_bucket :: "nat \<Rightarrow> nat \<Rightarrow> nat list \<Rightarrow> procmon \<Rightarrow> (bool \<times> procmon) option" where
  "walk_bucket i j [] pm = Some (False, pm)"
| "walk_bucket i j (k # ks) pm = do {
     (changed, pm) \<leftarrow> check_proc i j k pm;
     if changed then Some (True, pm) else walk_bucket i j ks pm
   }"

fun check_bucket :: "nat \<Rightarrow> nat \<Rightarrow> nat \<Rightarrow> procmon \<Rightarrow> procmon option" where
  "check_bucket 0 i j pm = None"
| "check_bucket (Suc fuel) i j pm =
     (case walk_bucket i j [0..<length (pg_buckets (pm_groups pm ! i) ! j)] pm of None \<Rightarrow> None
      | Some (changed, pm') \<Rightarrow> if changed then check_bucket fuel i j pm' else Some pm')"

primrec check_buckets :: "nat \<Rightarrow> nat list \<Rightarrow> procmon \<Rightarrow> procmon option" where
  "check_buckets i [] pm = Some pm"
| "check_buckets i (j # js) pm = do { pm \<leftarrow> check_bucket (pm_fuel pm) i j pm; check_buckets i js pm }"

definition group_due :: "nat \<Rightarrow> procmon \<Rightarrow> bool" where
  "group_due i pm =
     (let last = pg_lastcheck (pm_groups pm ! i)
      in last = 0 \<or> u32_of_int (pm_now pm) \<ge> u32_of_int (last + int (pm_interval pm)))"

definition check_one :: "nat \<Rightarrow> procmon \<Rightarrow> procmon option" where
  "check_one i pm =
     (if pg_curproc (pm_groups pm ! i) \<noteq> GROUP_UNUSED
      then do {
        pm \<leftarrow> (if group_due i pm
               then do { pm \<leftarrow> check_group i pm; Some (upd_group i (\<lambda>g. g\<lparr>pg_lastcheck := pm_now pm\<rparr>) pm) }
               else Some pm);
        check_buckets i [0..<BUCKET_SIZE] pm
      }
      else Some pm)"

primrec check_all :: "nat list \<Rightarrow> procmon \<Rightarrow> procmon option" where
  "check_all [] pm = Some pm"
| "check_all (i # is) pm = do { pm \<leftarrow> check_one i pm; check_all is pm }"

definition do_check :: "procmon \<Rightarrow> procmon option" where
  "do_check pm = check_all [0..<length (pm_groups pm)] pm"

definition pm_run :: "procmon \<Rightarrow> procmon option" where
  "pm_run pm = do { pm \<leftarrow> do_recv MSG_ID_SERVER pm; do_check pm }"

text \<open>Signals to all processes, in the order of groups and buckets.\<close>

definition killall :: "int \<Rightarrow> procmon \<Rightarrow> procmon" where
  "killall signo pm =
     fold (\<lambda>g pm. if pg_curproc g \<noteq> GROUP_UNUSED
                   then fold (\<lambda>p. do_kill (pi_procid (po_info p)) signo) (concat (take BUCKET_SIZE (pg_buckets g))) pm else pm)
       (pm_groups pm) pm"

text \<open>The groups with their processes, for the caller; an unused group is \<open>None\<close>.\<close>

definition pm_query :: "procmon \<Rightarrow> (group_info \<times> proc_obj list) option list option" where
  "pm_query pm =
     (if pm_groups pm = [] then None
      else Some (map (\<lambda>g. if pg_curproc g \<noteq> GROUP_UNUSED
                          then Some (pg_info g, take (nat (pg_curproc g)) (concat (take BUCKET_SIZE (pg_buckets g)))) else None)
                   (pm_groups pm)))"

section \<open>The client\<close>

record procmon_cli =
  pc_info :: proc_info
  pc_notify :: bool
  pc_cmds :: "int list"

text \<open>
  A client sends its information to the server and reads the orders for it; an order of
  another group fails an assertion.  The state of the queue is that of the server.
\<close>

fun cli_recv :: "nat \<Rightarrow> procmon_cli \<Rightarrow> mon_msg list \<Rightarrow> (procmon_cli \<times> mon_msg list) option" where
  "cli_recv 0 c q = None"
| "cli_recv (Suc fuel) c q =
     (case mq_pick (pi_procid (pc_info c)) q of
        None \<Rightarrow> Some (c, q)
      | Some (ClientMsg _ _, q') \<Rightarrow> cli_recv fuel c q'
      | Some (ServerMsg _ e, q') \<Rightarrow>
          if pe_groupid e \<noteq> pi_groupid (pc_info c) then None
          else cli_recv fuel (if pc_notify c then c\<lparr>pc_cmds := pc_cmds c @ [pe_cmd e]\<rparr> else c) q')"

definition cli_run :: "procmon_cli \<Rightarrow> procmon \<Rightarrow> (procmon_cli \<times> procmon) option" where
  "cli_run c pm = do {
     let pm = mq_send (ClientMsg MSG_ID_SERVER (pc_info c)) pm;
     (c, q) \<leftarrow> cli_recv (Suc (length (pm_mq pm))) c (pm_mq pm);
     Some (c, pm\<lparr>pm_mq := q\<rparr>)
   }"

end
