(* ===== verification/ProcMonTable.thy ===== *)
theory ProcMonTable
  imports ProcMon
begin

text \<open>
  The table of the process monitor: what a well-formed table is, what receiving does to it,
  and that a round of checks removes exactly the dead processes.  A group is seen through
  the information in its buckets, its counts and its configuration.
\<close>

section \<open>Views and well-formed tables\<close>

type_synonym gview = "proc_info list list \<times> int \<times> int \<times> group_info"

definition gview :: "proc_group \<Rightarrow> gview" where
  "gview g = (map (map po_info) (pg_buckets g), pg_curproc g, pg_errproc g, (pg_info g)\<lparr>gi_adjust := 0\<rparr>)"

definition bucket_ok :: "nat \<Rightarrow> nat \<Rightarrow> proc_info list \<Rightarrow> bool" where
  "bucket_ok i j ps \<longleftrightarrow> distinct (map pi_procid ps) \<and>
     (\<forall>p\<in>set ps. pi_groupid p = int i \<and> 1 < pi_procid p \<and> pi_procid p mod 10 = int j)"

fun view_ok :: "nat \<Rightarrow> gview \<Rightarrow> bool" where
  "view_ok i (bs, c, e, gi) \<longleftrightarrow> gi_groupid gi = int i \<and> length bs = 10 \<and> c = int (length (concat bs)) \<and>
     (\<forall>j<10. bucket_ok i j (bs ! j))"

definition views :: "procmon \<Rightarrow> gview list" where
  "views pm = map gview (pm_groups pm)"

text \<open>The messages of clients go to the server and come from processes of valid numbers.\<close>

fun client_ok :: "mon_msg \<Rightarrow> bool" where
  "client_ok (ClientMsg t p) \<longleftrightarrow> t = MSG_ID_SERVER \<and> 0 \<le> pi_groupid p \<and> 1 < pi_procid p"
| "client_ok (ServerMsg t e) \<longleftrightarrow> True"

definition clients :: "procmon \<Rightarrow> mon_msg list" where
  "clients pm = filter from_client (pm_mq pm)"

definition pm_ok :: "procmon \<Rightarrow> bool" where
  "pm_ok pm \<longleftrightarrow> (\<forall>i<length (views pm). view_ok i (views pm ! i)) \<and> (\<forall>m\<in>set (clients pm). client_ok m)"

definition infos :: "procmon \<Rightarrow> nat \<Rightarrow> nat \<Rightarrow> proc_info list" where
  "infos pm i j = fst (views pm ! i) ! j"

definition env :: "procmon \<Rightarrow> nat \<times> bool \<times> int \<times> (int \<Rightarrow> bool)" where
  "env pm = (pm_interval pm, pm_notify pm, pm_now pm, pm_gone pm)"

lemma length_views [simp]: "length (views pm) = length (pm_groups pm)"
  by (simp add: views_def)

lemma views_nth: "i < length (pm_groups pm) \<Longrightarrow> views pm ! i = gview (pm_groups pm ! i)"
  by (simp add: views_def)

lemma infos_bucket:
  "i < length (pm_groups pm) \<Longrightarrow> j < length (pg_buckets (pm_groups pm ! i)) \<Longrightarrow>
   infos pm i j = map po_info (pg_buckets (pm_groups pm ! i) ! j)"
  by (simp add: infos_def views_nth gview_def)

lemma pm_ok_group:
  assumes "pm_ok pm" "i < length (pm_groups pm)"
  shows "length (pg_buckets (pm_groups pm ! i)) = 10" "gi_groupid (pg_info (pm_groups pm ! i)) = int i"
    "pg_curproc (pm_groups pm ! i) = int (length (concat (pg_buckets (pm_groups pm ! i))))"
    "j < 10 \<Longrightarrow> bucket_ok i j (infos pm i j)"
proof -
  have v: "view_ok i (gview (pm_groups pm ! i))" using assms by (auto simp: pm_ok_def views_nth)
  then show "length (pg_buckets (pm_groups pm ! i)) = 10" "gi_groupid (pg_info (pm_groups pm ! i)) = int i"
    "pg_curproc (pm_groups pm ! i) = int (length (concat (pg_buckets (pm_groups pm ! i))))"
    by (auto simp: gview_def map_concat [symmetric])
  show "bucket_ok i j (infos pm i j)" if "j < 10" using v that assms(2) by (auto simp: infos_def views_nth gview_def)
qed

section \<open>Effects\<close>

fun is_kill :: "pm_effect \<Rightarrow> bool" where
  "is_kill (PmKill p s) = True"
| "is_kill _ = False"

fun is_fork :: "int \<Rightarrow> pm_effect \<Rightarrow> bool" where
  "is_fork g (PmFork a b c g' n f) \<longleftrightarrow> g' = g"
| "is_fork g _ = False"

text \<open>
  What a check does when it takes the processes \<open>D\<close> of group \<open>i\<close> away: they leave their buckets
  and the count, each is sent the signal \<open>s\<close>, \<open>n\<close> errors are counted and at least \<open>n\<close> processes
  are started; nothing else of the tables, the clients' messages and the environment changes.
\<close>

fun reapv :: "proc_info list \<Rightarrow> nat \<Rightarrow> gview \<Rightarrow> gview" where
  "reapv D n (bs, c, e, gi) = (map (filter (\<lambda>p. p \<notin> set D)) bs, c - int (length D), e + int n, gi)"

definition reap :: "nat \<Rightarrow> int \<Rightarrow> proc_info list \<Rightarrow> nat \<Rightarrow> procmon \<Rightarrow> procmon \<Rightarrow> bool" where
  "reap i s D n pm pm' \<longleftrightarrow>
     views pm' = (views pm)[i := reapv D n (views pm ! i)] \<and> env pm' = env pm \<and> clients pm' = clients pm \<and>
     (\<exists>es. pm_out pm' = pm_out pm @ es \<and> filter is_kill es = map (\<lambda>p. PmKill (pi_procid p) s) D \<and>
        n \<le> length (filter (is_fork (int i)) es))"

lemma reapv_Nil [simp]: "reapv [] 0 v = v"
  by (cases v) (simp add: map_idI)

lemma reapv_append: "reapv D2 n2 (reapv D1 n1 v) = reapv (D1 @ D2) (n1 + n2) v"
  by (cases v) (auto simp: comp_def intro!: filter_cong)

lemma reap_refl [simp]: "reap i s [] 0 pm pm"
  by (simp add: reap_def)

lemma reap_groups: "reap i s D n pm pm' \<Longrightarrow> length (pm_groups pm') = length (pm_groups pm)"
  unfolding reap_def by (metis length_list_update length_views)

lemma reap_trans:
  assumes "reap i s D1 n1 a b" "reap i s D2 n2 b c" "i < length (pm_groups a)"
  shows "reap i s (D1 @ D2) (n1 + n2) a c"
proof -
  have v: "views b = (views a)[i := reapv D1 n1 (views a ! i)]" "views c = (views b)[i := reapv D2 n2 (views b ! i)]"
    using assms(1,2) by (simp_all add: reap_def)
  then have "views c = (views a)[i := reapv (D1 @ D2) (n1 + n2) (views a ! i)]" using assms(3) by (simp add: reapv_append)
  moreover obtain es1 where e1: "pm_out b = pm_out a @ es1" "filter is_kill es1 = map (\<lambda>p. PmKill (pi_procid p) s) D1"
      "n1 \<le> length (filter (is_fork (int i)) es1)"
    using assms(1) unfolding reap_def by (elim conjE exE)
  moreover obtain es2 where e2: "pm_out c = pm_out b @ es2" "filter is_kill es2 = map (\<lambda>p. PmKill (pi_procid p) s) D2"
      "n2 \<le> length (filter (is_fork (int i)) es2)"
    using assms(2) unfolding reap_def by (elim conjE exE)
  ultimately show ?thesis
    using assms(1,2) unfolding reap_def by (intro conjI exI [of _ "es1 @ es2"]) auto
qed

text \<open>Steps that take no process away.\<close>

definition soft :: "procmon \<Rightarrow> procmon \<Rightarrow> bool" where
  "soft pm pm' \<longleftrightarrow> views pm' = views pm \<and> env pm' = env pm \<and> clients pm' = clients pm \<and>
     (\<exists>es. pm_out pm' = pm_out pm @ es \<and> filter is_kill es = [])"

lemma soft_refl [simp]: "soft pm pm"
  by (simp add: soft_def)

lemma soft_trans [trans]: "soft a b \<Longrightarrow> soft b c \<Longrightarrow> soft a c"
  unfolding soft_def by (elim conjE exE) auto

lemma soft_reap: "soft pm pm' \<Longrightarrow> reap i s [] 0 pm pm'"
  by (auto simp: soft_def reap_def)

lemma soft_groups: "soft pm pm' \<Longrightarrow> length (pm_groups pm') = length (pm_groups pm)"
  by (rule reap_groups [OF soft_reap])

lemma reap_infos:
  "reap i s D n pm pm' \<Longrightarrow> i < length (pm_groups pm) \<Longrightarrow> j < length (fst (views pm ! i)) \<Longrightarrow>
   infos pm' i j = filter (\<lambda>p. p \<notin> set D) (infos pm i j)"
  by (cases "views pm ! i") (simp add: reap_def infos_def)

lemma bucket_ok_filter: "bucket_ok i j ps \<Longrightarrow> bucket_ok i j (filter P ps)"
  by (auto simp: bucket_ok_def distinct_map intro: inj_on_subset)

lemma all_Suc_less: "(\<forall>j<Suc n. P j) \<longleftrightarrow> P 0 \<and> (\<forall>j<n. P (Suc j))"
  using less_Suc_eq_0_disj by auto

lemma length_filter_in:
  "distinct xs \<Longrightarrow> distinct D \<Longrightarrow> set D \<subseteq> set xs \<Longrightarrow> length (filter (\<lambda>p. p \<notin> set D) xs) = length xs - length D"
proof -
  assume a: "distinct xs" "distinct D" "set D \<subseteq> set xs"
  have "length (filter (\<lambda>p. p \<notin> set D) xs) = card (set xs - set D)"
    using a(1) by (simp add: distinct_card [symmetric] set_diff_eq)
  then show ?thesis using a by (simp add: card_Diff_subset distinct_card)
qed

lemma distinct_concat_keys:
  assumes "\<forall>j<length bs. distinct (bs ! j) \<and> (\<forall>x\<in>set (bs ! j). key x = k + j)"
  shows "distinct (concat bs) \<and> (\<forall>x\<in>set (concat bs). (k :: nat) \<le> key x)"
  using assms
proof (induction bs arbitrary: k)
  case (Cons b bs)
  have "\<forall>j<length bs. distinct (bs ! j) \<and> (\<forall>x\<in>set (bs ! j). key x = Suc k + j)"
    using Cons.prems by (auto simp: all_Suc_less)
  from Cons.IH [OF this] have IH: "distinct (concat bs)" "\<forall>x\<in>set (concat bs). Suc k \<le> key x" by auto
  have b: "distinct b" "\<forall>x\<in>set b. key x = k" using Cons.prems by (auto dest: spec [of _ 0])
  then show ?case using IH by force
qed simp

lemma view_ok_distinct:
  assumes "view_ok i (bs, c, e, gi)"
  shows "distinct (map pi_procid (concat bs))" "distinct (concat bs)"
proof -
  have "\<forall>j<length (map (map pi_procid) bs). distinct (map (map pi_procid) bs ! j) \<and>
      (\<forall>x\<in>set (map (map pi_procid) bs ! j). nat (x mod 10) = 0 + j)"
    using assms by (auto simp: bucket_ok_def)
  from distinct_concat_keys [OF this] show "distinct (map pi_procid (concat bs))"
    by (simp add: map_concat)
  then show "distinct (concat bs)" by (simp add: distinct_map)
qed

lemma view_ok_reapv:
  assumes ok: "view_ok i v" and D: "distinct D" "set D \<subseteq> set (concat (fst v))"
  shows "view_ok i (reapv D n v)"
proof -
  obtain bs c e gi where v: "v = (bs, c, e, gi)" by (cases v)
  have "length (filter (\<lambda>p. p \<notin> set D) (concat bs)) = length (concat bs) - length D"
    using D v view_ok_distinct(2) [OF ok [unfolded v]] by (intro length_filter_in) auto
  moreover have "length D \<le> length (concat bs)"
    using D v by (metis card_mono distinct_card fst_conv le_trans card_length List.finite_set)
  ultimately show ?thesis
    using ok v by (auto simp: filter_concat [symmetric] bucket_ok_filter)
qed

definition procs :: "procmon \<Rightarrow> nat \<Rightarrow> proc_info list" where
  "procs pm i = concat (fst (views pm ! i))"

lemma pm_ok_procs:
  assumes "pm_ok pm" "i < length (pm_groups pm)"
  shows "distinct (map pi_procid (procs pm i))" "distinct (procs pm i)"
proof -
  obtain bs c e gi where v: "views pm ! i = (bs, c, e, gi)" by (cases "views pm ! i")
  then have "view_ok i (bs, c, e, gi)" using assms by (auto simp: pm_ok_def dest: spec [of _ i])
  then show "distinct (map pi_procid (procs pm i))" "distinct (procs pm i)"
    using view_ok_distinct [of i bs c e gi] v by (simp_all add: procs_def)
qed

lemma pm_ok_reap:
  assumes "pm_ok pm" "i < length (pm_groups pm)" "reap i s D n pm pm'" "distinct D" "set D \<subseteq> set (procs pm i)"
  shows "pm_ok pm'"
  using assms view_ok_reapv [of i "views pm ! i" D n]
  by (auto simp: pm_ok_def reap_def procs_def nth_list_update)

lemma pm_ok_soft: "pm_ok pm \<Longrightarrow> soft pm pm' \<Longrightarrow> pm_ok pm'"
  by (simp add: pm_ok_def soft_def)

lemma views_groups: "views pm' = views pm \<Longrightarrow> length (pm_groups pm') = length (pm_groups pm)"
  by (metis length_views)

section \<open>The message queue\<close>

definition chosen :: "int \<Rightarrow> mon_msg \<Rightarrow> bool" where
  "chosen t m \<longleftrightarrow> t = 0 \<or> msg_type m = t"

lemma mq_pick_chosen:
  assumes "0 \<le> t"
  shows "mq_pick t q = (case List.extract (chosen t) q of None \<Rightarrow> None | Some (xs, m, ys) \<Rightarrow> Some (m, xs @ ys))"
proof -
  have "(\<lambda>m. t = 0 \<or> t > 0 \<and> msg_type m = t \<or> t < 0 \<and> l \<noteq> [] \<and> msg_type m = foldr min l (- t)) = chosen t" for l
    using assms by (auto simp: chosen_def)
  then show ?thesis by (simp only: mq_pick_def Let_def)
qed

lemma mq_pick_None: "0 \<le> t \<Longrightarrow> mq_pick t q = None \<longleftrightarrow> (\<forall>m\<in>set q. \<not> chosen t m)"
  by (auto simp: mq_pick_chosen extract_None_iff extract_Some_iff split: option.splits)

lemma mq_pick_Some:
  assumes "0 \<le> t" "mq_pick t q = Some (m, q')"
  shows "\<exists>xs ys. q = xs @ m # ys \<and> q' = xs @ ys \<and> chosen t m \<and> (\<forall>x\<in>set xs. \<not> chosen t x)"
  using assms by (auto simp: mq_pick_chosen extract_Some_iff split: option.splits) blast+

text \<open>Messages for a process are never those of clients, which all go to the server.\<close>

lemma pm_recv_loop_drops:
  assumes "1 < t" "\<forall>m\<in>set (clients pm). client_ok m" "length (filter (\<lambda>m. chosen t m) (pm_mq pm)) < fuel"
  shows "pm_recv_loop fuel t pm = Some (pm\<lparr>pm_mq := filter (\<lambda>m. \<not> chosen t m) (pm_mq pm)\<rparr>)"
  using assms
proof (induction fuel arbitrary: pm)
  case (Suc fuel)
  show ?case
  proof (cases "mq_pick t (pm_mq pm)")
    case None
    then have "filter (\<lambda>m. \<not> chosen t m) (pm_mq pm) = pm_mq pm"
      using Suc.prems(1) by (simp add: mq_pick_None filter_id_conv)
    then show ?thesis using None by simp
  next
    case (Some r)
    then obtain m q' where r: "mq_pick t (pm_mq pm) = Some (m, q')" by (cases r) auto
    obtain xs ys where q: "pm_mq pm = xs @ m # ys" "q' = xs @ ys" "chosen t m"
      using mq_pick_Some [OF _ r] Suc.prems(1) by auto
    have "m \<in> set (clients pm) \<or> \<not> from_client m" using q by (auto simp: clients_def)
    then obtain e where m: "m = ServerMsg t e" using Suc.prems(1,2) q(3) by (cases m) (auto simp: MSG_ID_SERVER_def chosen_def)
    show ?thesis using Suc.prems q m r by (simp add: Suc.IH clients_def)
  qed
qed simp

lemma do_recv_drops:
  assumes "1 < t" "pm_ok pm"
  shows "do_recv t pm = Some (pm\<lparr>pm_mq := filter (\<lambda>m. \<not> chosen t m) (pm_mq pm)\<rparr>)"
  using assms unfolding do_recv_def
  by (intro pm_recv_loop_drops) (auto simp: pm_ok_def le_imp_less_Suc)

lemma clients_drop:
  assumes "1 < t" "pm_ok pm"
  shows "clients (pm\<lparr>pm_mq := filter (\<lambda>m. \<not> chosen t m) (pm_mq pm)\<rparr>) = clients pm"
proof -
  have "m \<in> set (clients pm) \<Longrightarrow> \<not> chosen t m" for m
    using assms by (cases m) (auto simp: pm_ok_def clients_def chosen_def MSG_ID_SERVER_def)
  then show ?thesis by (auto simp: clients_def intro!: filter_cong)
qed

section \<open>Receiving\<close>

text \<open>The table of the monitor as a map from group and process to the last information.\<close>

definition known :: "procmon \<Rightarrow> int \<times> int \<Rightarrow> proc_info option" where
  "known pm = (\<lambda>(g, p). if 0 \<le> g \<and> g < int (length (pm_groups pm))
     then find (\<lambda>x. pi_procid x = p) (procs pm (nat g)) else None)"

definition put_info :: "proc_info \<Rightarrow> proc_info list \<Rightarrow> proc_info list" where
  "put_info info ps =
     (if list_ex (\<lambda>x. pi_procid x = pi_procid info) ps
      then map (\<lambda>x. if pi_procid x = pi_procid info then info else x) ps else info # ps)"

fun recvv :: "proc_info \<Rightarrow> gview \<Rightarrow> gview" where
  "recvv info (bs, c, e, gi) =
     (let j = nat (pi_procid info mod 10)
      in (bs[j := put_info info (bs ! j)], c + int (length (put_info info (bs ! j))) - int (length (bs ! j)), e, gi))"

lemma find_distinct_iff:
  "distinct (map f xs) \<Longrightarrow> find (\<lambda>x. f x = k) xs = Some y \<longleftrightarrow> y \<in> set xs \<and> f y = k"
  by (induction xs) (auto simp: image_iff)

lemma upd_first_distinct:
  assumes "distinct (map (key \<circ> h) xs)"
  shows "map h (upd_first (\<lambda>x. key (h x) = k) f xs) = map (\<lambda>x. if key (h x) = k then h (f x) else h x) xs"
  using assms by (induction xs) (auto simp: image_iff)

lemma del_first_distinct:
  assumes "distinct (map (key \<circ> h) xs)"
  shows "map h (del_first (\<lambda>x. key (h x) = k) xs) = filter (\<lambda>y. key y \<noteq> k) (map h xs)"
  using assms by (induction xs) (auto simp: image_iff intro!: filter_True [symmetric], metis)

lemma length_concat_update:
  "j < length bs \<Longrightarrow> int (length (concat (bs[j := b]))) = int (length (concat bs)) + int (length b) - int (length (bs ! j))"
proof -
  assume j: "j < length bs"
  have "length (bs ! j) \<le> sum_list (map length bs)" using j by (intro elem_le_sum_list [of j, THEN order_trans [rotated]]) auto
  then show ?thesis using j by (simp add: length_concat map_update sum_list_update of_nat_diff)
qed

lemma set_concat_nth: "set (concat bs) = (\<Union>k\<in>{..<length bs}. set (bs ! k))"
  by (auto simp: set_conv_nth [of bs])

lemma set_concat_update:
  "j < length bs \<Longrightarrow> set (concat (bs[j := b])) = set b \<union> (\<Union>k\<in>{..<length bs} - {j}. set (bs ! k))"
  unfolding set_concat_nth by (auto simp: nth_list_update split: if_splits)

lemma set_put_info:
  "set (put_info info ps) = insert info {x \<in> set ps. pi_procid x \<noteq> pi_procid info}"
  by (auto simp: put_info_def list_ex_iff)

lemma bucket_ok_put_info:
  assumes "bucket_ok i j ps" "pi_groupid info = int i" "1 < pi_procid info" "pi_procid info mod 10 = int j"
  shows "bucket_ok i j (put_info info ps)"
proof -
  have "map pi_procid (map (\<lambda>x. if pi_procid x = pi_procid info then info else x) ps) = map pi_procid ps" by simp
  then have "distinct (map pi_procid (put_info info ps))"
    using assms(1) unfolding put_info_def bucket_ok_def by (cases "list_ex (\<lambda>x. pi_procid x = pi_procid info) ps")
      (simp only: if_True, auto simp: list_ex_iff)
  then show ?thesis using assms by (auto simp: bucket_ok_def set_put_info)
qed

lemma view_ok_recvv:
  assumes "view_ok i v" "pi_groupid info = int i" "1 < pi_procid info"
  shows "view_ok i (recvv info v)"
proof -
  obtain bs c e gi where v: "v = (bs, c, e, gi)" by (cases v)
  have j: "nat (pi_procid info mod 10) < 10" by simp
  have "bucket_ok i k (bs[nat (pi_procid info mod 10) := put_info info (bs ! nat (pi_procid info mod 10))] ! k)" if "k < 10" for k
    using assms v that bucket_ok_put_info [of i k "bs ! k" info]
    by (auto simp: nth_list_update)
  then show ?thesis using assms(1) v j by (simp add: Let_def length_concat_update)
qed

lemma set_recvv:
  assumes "view_ok i v" "1 < pi_procid info"
  shows "set (concat (fst (recvv info v))) = insert info {x \<in> set (concat (fst v)). pi_procid x \<noteq> pi_procid info}"
proof -
  obtain bs c e gi where v: "v = (bs, c, e, gi)" by (cases v)
  let ?j = "nat (pi_procid info mod 10)"
  have l: "length bs = 10" "?j < 10" using assms v by auto
  have o: "pi_procid x mod 10 = int k" if "k < 10" "x \<in> set (bs ! k)" for k x
    using assms v that by (auto simp: bucket_ok_def)
  have k: "\<lbrakk>k < 10; x \<in> set (bs ! k)\<rbrakk> \<Longrightarrow> pi_procid x = pi_procid info \<Longrightarrow> k = ?j" for k x
    using o [of k x] by simp
  have "set (concat (bs[?j := put_info info (bs ! ?j)])) =
      insert info {x \<in> set (bs ! ?j). pi_procid x \<noteq> pi_procid info} \<union> (\<Union>k\<in>{..<10} - {?j}. set (bs ! k))"
    using l set_concat_update [of ?j bs "put_info info (bs ! ?j)"] by (simp only: set_put_info)
  also have "\<dots> = insert info {x \<in> (\<Union>k\<in>{..<10}. set (bs ! k)). pi_procid x \<noteq> pi_procid info}"
    using k l(2) by blast
  also have "(\<Union>k\<in>{..<10}. set (bs ! k)) = set (concat bs)"
    using l(1) by (simp only: set_concat_nth)
  finally show ?thesis using v by (simp add: Let_def)
qed

lemma put_info_find:
  "put_info info (map po_info b) =
     (case find (has_pid (pi_procid info)) b of
        Some _ \<Rightarrow> map (\<lambda>x. if pi_procid x = pi_procid info then info else x) (map po_info b)
      | None \<Rightarrow> info # map po_info b)"
  by (auto simp: put_info_def list_ex_iff find_None_iff find_Some_iff split: option.splits)

lemma views_upd_group:
  "i < length (pm_groups pm) \<Longrightarrow> views (upd_group i f pm) = (views pm)[i := gview (f (pm_groups pm ! i))]"
  by (simp add: views_def upd_group_def map_update)

lemma clients_simps [simp]:
  "clients (upd_group i f pm) = clients pm" "clients (put_effect e pm) = clients pm"
  by (simp_all add: clients_def upd_group_def put_effect_def)

lemma env_simps [simp]:
  "env (upd_group i f pm) = env pm" "env (put_effect e pm) = env pm"
  by (simp_all add: env_def upd_group_def put_effect_def)

lemma views_put_effect [simp]: "views (put_effect e pm) = views pm"
  by (simp add: views_def put_effect_def)

lemma groups_put_effect [simp]: "pm_groups (put_effect e pm) = pm_groups pm"
  by (simp add: put_effect_def)

lemma bucket_of_pid: "1 < p \<Longrightarrow> bucket_of p = Some (nat (p mod 10))"
  by (simp add: bucket_of_def BUCKET_SIZE_def)

text \<open>Information of a group that does not exist changes nothing.\<close>

lemma recv_info_unknown:
  assumes "int (length (pm_groups pm)) \<le> pi_groupid info"
  shows "recv_info info pm = Some (put_effect (PmLoad (pi_curconn info)) pm)"
  using assms by (simp add: recv_info_def find_proc_def add_proc_def)

lemma recv_info_view:
  assumes ok: "pm_ok pm" and g: "pi_groupid info = int i" "i < length (pm_groups pm)" and p: "1 < pi_procid info"
  shows "\<exists>pm'. recv_info info pm = Some pm' \<and> views pm' = (views pm)[i := recvv info (views pm ! i)] \<and>
     env pm' = env pm \<and> clients pm' = clients pm \<and> pm_mq pm' = pm_mq pm \<and>
     pm_out pm' = pm_out pm @ [PmLoad (pi_curconn info)]"
proof -
  let ?j = "nat (pi_procid info mod 10)" and ?b = "pg_buckets (pm_groups pm ! i) ! nat (pi_procid info mod 10)"
  have j: "?j < 10" by simp
  have l: "length (pg_buckets (pm_groups pm ! i)) = 10" using pm_ok_group(1) [OF ok g(2)] .
  have "distinct (map (pi_procid \<circ> po_info) ?b)"
    using pm_ok_group(4) [OF ok g(2) j] g(2) l j by (simp add: infos_bucket bucket_ok_def)
  note u = upd_first_distinct [OF this, of "pi_procid info" "\<lambda>p. p\<lparr>po_info := info\<rparr>"]
  show ?thesis
  proof (cases "find (has_pid (pi_procid info)) ?b")
    case None
    then show ?thesis using g p l j
      by (auto simp: recv_info_def find_proc_def add_proc_def bucket_of_pid views_upd_group views_nth gview_def
          upd_bucket_def map_update put_info_find Let_def) (auto simp: upd_group_def put_effect_def)
  next
    case (Some x)
    then show ?thesis using g p l j u
      by (auto simp: recv_info_def find_proc_def bucket_of_pid views_upd_group views_nth gview_def
          upd_bucket_def map_update put_info_find Let_def comp_def if_distrib cong: if_cong)
        (auto simp: upd_group_def put_effect_def)
  qed
qed

lemma procs_cong: "views a = views b \<Longrightarrow> procs a = procs b"
  by (simp add: procs_def fun_eq_iff)

lemma known_cong: "views a = views b \<Longrightarrow> known a = known b"
  using views_groups [of a b] procs_cong [of a b] by (auto simp: known_def fun_eq_iff)

lemma option_eqI: "(\<And>x. a = Some x \<longleftrightarrow> b = Some x) \<Longrightarrow> a = b"
  by (cases a; cases b) auto

lemma known_Some:
  assumes "pm_ok pm"
  shows "known pm (g, p) = Some x \<longleftrightarrow>
     0 \<le> g \<and> g < int (length (pm_groups pm)) \<and> x \<in> set (procs pm (nat g)) \<and> pi_procid x = p"
  using assms by (auto simp: known_def find_distinct_iff pm_ok_procs)

fun noted :: "int \<Rightarrow> mon_msg \<Rightarrow> (int \<times> int \<Rightarrow> proc_info option) \<Rightarrow> int \<times> int \<Rightarrow> proc_info option" where
  "noted n (ClientMsg t info) k = (if pi_groupid info < n then k((pi_groupid info, pi_procid info) \<mapsto> info) else k)"
| "noted n (ServerMsg t e) k = k"

lemma recv_info_known:
  assumes ok: "pm_ok pm" and info: "client_ok (ClientMsg t info)"
  shows "\<exists>pm'. recv_info info pm = Some pm' \<and> pm_ok pm' \<and> env pm' = env pm \<and> pm_mq pm' = pm_mq pm \<and>
     pm_out pm' = pm_out pm @ [PmLoad (pi_curconn info)] \<and> length (pm_groups pm') = length (pm_groups pm) \<and>
     known pm' = noted (int (length (pm_groups pm))) (ClientMsg t info) (known pm)"
proof (cases "pi_groupid info < int (length (pm_groups pm))")
  case False
  then show ?thesis using ok
    by (auto simp: recv_info_unknown known_def procs_def pm_ok_def) (simp_all add: put_effect_def)
next
  case True
  define i where "i = nat (pi_groupid info)"
  have g: "pi_groupid info = int i" "i < length (pm_groups pm)" and p: "1 < pi_procid info"
    using True info by (auto simp: i_def)
  obtain pm' where r: "recv_info info pm = Some pm'" "views pm' = (views pm)[i := recvv info (views pm ! i)]"
      "env pm' = env pm" "clients pm' = clients pm" "pm_mq pm' = pm_mq pm" "pm_out pm' = pm_out pm @ [PmLoad (pi_curconn info)]"
    using recv_info_view [OF ok g p] by blast
  have l: "length (pm_groups pm') = length (pm_groups pm)" by (metis length_list_update length_views r(2))
  have v: "view_ok i (views pm ! i)" using ok g(2) by (simp add: pm_ok_def)
  have ok': "pm_ok pm'"
    using ok r(2,4) view_ok_recvv [OF v g(1) p] l g(2)
    by (simp add: pm_ok_def nth_list_update del: view_ok.simps)
  have s: "set (procs pm' k) = (if k = i then insert info {x \<in> set (procs pm i). pi_procid x \<noteq> pi_procid info} else set (procs pm k))"
    if "k < length (pm_groups pm)" for k
    using that set_recvv [OF v p] g(2) r(2) by (simp add: procs_def nth_list_update)
  have "known pm' (a, b) = noted (int (length (pm_groups pm))) (ClientMsg t info) (known pm) (a, b)" for a b
  proof (rule option_eqI)
    fix x
    show "known pm' (a, b) = Some x \<longleftrightarrow> noted (int (length (pm_groups pm))) (ClientMsg t info) (known pm) (a, b) = Some x"
      using known_Some [OF ok] known_Some [OF ok'] s [of "nat a"] l True g
      by (cases "0 \<le> a \<and> a < int (length (pm_groups pm))") (auto split: if_splits)
  qed
  then show ?thesis using r ok' l by (auto simp: fun_eq_iff)
qed

text \<open>The chosen messages are taken in their order, and each of a client is recorded.\<close>

definition load_effects :: "mon_msg list \<Rightarrow> pm_effect list" where
  "load_effects q = concat (map (\<lambda>m. case m of ClientMsg t info \<Rightarrow> [PmLoad (pi_curconn info)] | ServerMsg t e \<Rightarrow> []) q)"

lemma pm_recv_loop_known:
  assumes "pm_ok pm" "t = 0 \<or> t = MSG_ID_SERVER" "length (filter (chosen t) (pm_mq pm)) < fuel"
  shows "\<exists>pm'. pm_recv_loop fuel t pm = Some pm' \<and> pm_ok pm' \<and> env pm' = env pm \<and>
     pm_mq pm' = filter (\<lambda>m. \<not> chosen t m) (pm_mq pm) \<and>
     length (pm_groups pm') = length (pm_groups pm) \<and> pm_out pm' = pm_out pm @ load_effects (filter (chosen t) (pm_mq pm)) \<and>
     known pm' = fold (noted (int (length (pm_groups pm)))) (filter (chosen t) (pm_mq pm)) (known pm)"
  using assms
proof (induction fuel arbitrary: pm)
  case (Suc fuel)
  have t: "0 \<le> t" using Suc.prems(2) by (auto simp: MSG_ID_SERVER_def)
  show ?case
  proof (cases "mq_pick t (pm_mq pm)")
    case None
    then have "filter (\<lambda>m. \<not> chosen t m) (pm_mq pm) = pm_mq pm" "filter (chosen t) (pm_mq pm) = []"
      by (simp_all add: mq_pick_None [OF t] filter_id_conv filter_empty_conv)
    then show ?thesis using None Suc.prems by (simp add: load_effects_def)
  next
    case (Some r)
    then obtain m q' where r: "mq_pick t (pm_mq pm) = Some (m, q')" by (cases r) auto
    obtain xs ys where q: "pm_mq pm = xs @ m # ys" "q' = xs @ ys" "chosen t m"
        "\<forall>x\<in>set xs. \<not> chosen t x"
      using mq_pick_Some [OF t r] by auto
    have f: "filter (chosen t) (pm_mq pm) = m # filter (chosen t) q'"
        "filter (\<lambda>m. \<not> chosen t m) q' = filter (\<lambda>m. \<not> chosen t m) (pm_mq pm)"
      using q by simp_all
    have ok: "pm_ok (pm\<lparr>pm_mq := q'\<rparr>)" using Suc.prems(1) q by (auto simp: pm_ok_def views_def clients_def)
    have s: "known (pm\<lparr>pm_mq := q'\<rparr>) = known pm" "env (pm\<lparr>pm_mq := q'\<rparr>) = env pm"
      by (rule known_cong) (simp_all add: views_def env_def)
    show ?thesis
    proof (cases m)
      case (ServerMsg u e)
      then show ?thesis using Suc.IH [OF ok Suc.prems(2)] Suc.prems(3) r f s by (simp add: load_effects_def)
    next
      case (ClientMsg u info)
      have "client_ok (ClientMsg u info)" using Suc.prems(1) q ClientMsg by (auto simp: pm_ok_def clients_def)
      from recv_info_known [OF ok this] obtain pm1 where pm1: "recv_info info (pm\<lparr>pm_mq := q'\<rparr>) = Some pm1" "pm_ok pm1"
          "env pm1 = env pm" "pm_mq pm1 = q'" "pm_out pm1 = pm_out pm @ [PmLoad (pi_curconn info)]"
          "length (pm_groups pm1) = length (pm_groups pm)"
          "known pm1 = noted (int (length (pm_groups pm))) (ClientMsg u info) (known pm)"
        by (auto simp: s)
      then show ?thesis using Suc.IH [OF pm1(2) Suc.prems(2)] Suc.prems(3) r f ClientMsg by (simp add: load_effects_def)
    qed
  qed
qed simp

lemma do_recv_known:
  assumes "pm_ok pm" "t = 0 \<or> t = MSG_ID_SERVER"
  shows "\<exists>pm'. do_recv t pm = Some pm' \<and> pm_ok pm' \<and> env pm' = env pm \<and>
     pm_mq pm' = filter (\<lambda>m. \<not> chosen t m) (pm_mq pm) \<and>
     length (pm_groups pm') = length (pm_groups pm) \<and> pm_out pm' = pm_out pm @ load_effects (filter (chosen t) (pm_mq pm)) \<and>
     known pm' = fold (noted (int (length (pm_groups pm)))) (filter (chosen t) (pm_mq pm)) (known pm)"
  unfolding do_recv_def by (rule pm_recv_loop_known [OF assms]) (simp add: le_imp_less_Suc)

end
