(* ===== verification/ProcMonCheck.thy ===== *)
theory ProcMonCheck
  imports ProcMonTable
begin

text \<open>
  The checks of the process monitor: every step of a check either leaves the table as it is
  or takes dead or surplus processes away, and the loops end.
\<close>

section \<open>Steps that take no process away\<close>

named_theorems soft_steps

lemma map_update_same: "(k < length xs \<Longrightarrow> h y = h (xs ! k)) \<Longrightarrow> map h (xs[k := y]) = map h xs"
  by (cases "k < length xs") (simp_all add: map_update list_update_beyond, metis length_map list_update_id nth_map)

lemma soft_upd_group: "gview (f (pm_groups pm ! i)) = gview (pm_groups pm ! i) \<Longrightarrow> soft pm (upd_group i f pm)"
  unfolding soft_def by (auto simp: views_def upd_group_def env_def clients_def map_update_same)

lemma soft_upd_proc [soft_steps]: "(\<And>p. po_info (f p) = po_info p) \<Longrightarrow> soft pm (upd_proc i j k f pm)"
  unfolding upd_proc_def
  by (rule soft_upd_group) (simp add: gview_def upd_bucket_def map_update_same)

lemma soft_set_adjust [soft_steps]: "soft pm (set_adjust i pm)"
  unfolding set_adjust_def by (rule soft_upd_group) (simp add: gview_def)

lemma soft_effect [soft_steps]: "\<not> is_kill e \<Longrightarrow> soft pm (put_effect e pm)"
  by (auto simp: soft_def) (simp add: put_effect_def)

lemma soft_send [soft_steps]: "\<not> from_client m \<Longrightarrow> soft pm (mq_send m pm)"
  by (auto simp: soft_def mq_send_def views_def env_def clients_def Let_def)

lemma do_fork_eq:
  "do_fork gi n pm = pm\<lparr>pm_out := pm_out pm @
     replicate n (PmFork (gi_basepath gi) (gi_exefile gi) (gi_etcfile gi) (gi_groupid gi) (gi_maxproc gi) (gi_flag gi))\<rparr>"
  by (induction n arbitrary: pm) (simp_all add: put_effect_def)

lemma soft_fork [soft_steps]: "soft pm (do_fork gi n pm)"
  by (simp add: do_fork_eq soft_def views_def env_def clients_def)

lemma soft_order_load [soft_steps]: "soft pm (order_load i j k st pm)"
  unfolding order_load_def do_order_def Let_def
  by (rule soft_trans [OF soft_upd_proc soft_send]) simp_all

lemma soft_overload_fork [soft_steps]: "soft pm (overload_fork i pm)"
  unfolding overload_fork_def Let_def
  by (auto simp del: do_fork.simps intro: soft_trans [OF soft_fork soft_set_adjust])

lemmas soft_then_order = soft_trans [OF _ soft_order_load]

lemmas soft_then_fork = soft_trans [OF _ soft_overload_fork]

section \<open>Taking processes away\<close>

lemma pm_ok_in_procs:
  assumes "i < length (pm_groups pm)" "j < 10" "pm_ok pm" "p \<in> set (infos pm i j)"
  shows "p \<in> set (procs pm i)" "pi_groupid p = int i" "1 < pi_procid p" "nat (pi_procid p mod 10) = j"
proof -
  obtain bs c e gi where v: "views pm ! i = (bs, c, e, gi)" by (cases "views pm ! i")
  have "view_ok i (bs, c, e, gi)" using assms(1,3) v by (auto simp: pm_ok_def dest: spec [of _ i])
  then show "p \<in> set (procs pm i)" "pi_groupid p = int i" "1 < pi_procid p" "nat (pi_procid p mod 10) = j"
    using assms(2,4) v by (auto simp: procs_def infos_def bucket_ok_def)
qed

lemma set_procs: "set (procs pm i) = (\<Union>j\<in>{..<length (fst (views pm ! i))}. set (infos pm i j))"
  by (simp only: procs_def infos_def set_concat_nth)

lemma views_length:
  assumes "pm_ok pm" "i < length (pm_groups pm)"
  shows "length (fst (views pm ! i)) = 10"
  using pm_ok_group(1) [OF assms] assms(2) by (simp add: views_nth gview_def)

text \<open>Sending a signal to a process of the table and taking it off.\<close>

definition drop_proc :: "nat \<Rightarrow> int \<Rightarrow> int \<Rightarrow> procmon \<Rightarrow> procmon option" where
  "drop_proc i p s pm = do { pm \<leftarrow> do_recv p (do_kill p s pm); del_proc (int i) p pm }"

lemma reap_drop:
  assumes ok: "pm_ok pm" and i: "i < length (pm_groups pm)" and p: "p \<in> set (procs pm i)"
  shows "\<exists>pm'. drop_proc i (pi_procid p) s pm = Some pm' \<and> reap i s [p] 0 pm pm' \<and>
     pm_out pm' = pm_out pm @ [PmKill (pi_procid p) s]"
proof -
  obtain j where j: "j < 10" "p \<in> set (infos pm i j)" using p views_length [OF ok i] by (auto simp: set_procs)
  note q = pm_ok_in_procs [OF i j(1) ok j(2)]
  have l: "length (pg_buckets (pm_groups pm ! i)) = 10" using pm_ok_group(1) [OF ok i] .
  let ?b = "\<lambda>k. map po_info (pg_buckets (pm_groups pm ! i) ! k)"
  have b: "k < 10 \<Longrightarrow> infos pm i k = ?b k" for k using i l by (simp add: infos_bucket)
  have d: "distinct (map pi_procid (?b j))" using pm_ok_group(4) [OF ok i j(1)] b j by (simp add: bucket_ok_def)
  then have d': "distinct (map (pi_procid \<circ> po_info) (pg_buckets (pm_groups pm ! i) ! j))" by simp
  have same: "x = p \<longleftrightarrow> pi_procid x = pi_procid p" if "x \<in> set (?b j)" for x
    using d that j b by (auto simp: distinct_map inj_on_def)
  have other: "map (filter (\<lambda>x. x \<noteq> p)) (map (map po_info) (pg_buckets (pm_groups pm ! i))) =
      (map (map po_info) (pg_buckets (pm_groups pm ! i)))[j := filter (\<lambda>x. x \<noteq> p) (?b j)]"
  proof (rule nth_equalityI)
    fix k assume k: "k < length (map (filter (\<lambda>x. x \<noteq> p)) (map (map po_info) (pg_buckets (pm_groups pm ! i))))"
    have "k \<noteq> j \<Longrightarrow> p \<notin> set (?b k)" using k l b q(4) pm_ok_in_procs(4) [OF i _ ok, of k p] by auto
    then show "map (filter (\<lambda>x. x \<noteq> p)) (map (map po_info) (pg_buckets (pm_groups pm ! i))) ! k =
        (map (map po_info) (pg_buckets (pm_groups pm ! i)))[j := filter (\<lambda>x. x \<noteq> p) (?b j)] ! k"
      using k l j by (cases "k = j") (auto intro!: filter_True)
  qed simp
  have del: "map po_info (del_first (has_pid (pi_procid p)) (pg_buckets (pm_groups pm ! i) ! j)) = filter (\<lambda>x. x \<noteq> p) (?b j)"
    unfolding del_first_distinct [OF d'] by (rule filter_cong [OF refl]) (use same in blast)
  let ?k = "do_kill (pi_procid p) s pm"
  have okk: "pm_ok ?k" using ok by (simp add: pm_ok_def do_kill_def)
  note r = do_recv_drops [OF q(3) okk] and c = clients_drop [OF q(3) okk]
  have bj: "bucket_of (pi_procid p) = Some j" using q(3,4) by (simp add: bucket_of_pid)
  define pm' where "pm' = upd_group i (\<lambda>g. upd_bucket j (del_first (has_pid (pi_procid p))) (g\<lparr>pg_curproc := pg_curproc g - 1\<rparr>))
      (?k\<lparr>pm_mq := filter (\<lambda>m. \<not> chosen (pi_procid p) m) (pm_mq ?k)\<rparr>)"
  have 1: "drop_proc i (pi_procid p) s pm = Some pm'"
    using i r bj by (simp add: drop_proc_def del_proc_def pm'_def do_kill_def)
  have v: "views pm' = (views pm)[i := reapv [p] 0 (views pm ! i)]"
    using i del l j other
    by (simp add: pm'_def do_kill_def views_upd_group [unfolded upd_group_def] views_def upd_group_def map_update gview_def
        upd_bucket_def put_effect_def)
  have "env pm' = env pm" "clients pm' = clients pm" "pm_out pm' = pm_out pm @ [PmKill (pi_procid p) s]"
    using c by (simp_all add: pm'_def do_kill_def env_def put_effect_def upd_group_def clients_def)
  then show ?thesis using 1 v by (simp add: reap_def)
qed

section \<open>One process\<close>

definition dead_in :: "procmon \<Rightarrow> nat \<Rightarrow> proc_info \<Rightarrow> bool" where
  "dead_in pm i p \<longleftrightarrow> proc_dead (pg_info (pm_groups pm ! i)) p pm"

text \<open>What a group is configured to; the time of the last adjustment is no part of it.\<close>

definition conf :: "procmon \<Rightarrow> nat \<Rightarrow> group_info" where
  "conf pm i = (pg_info (pm_groups pm ! i))\<lparr>gi_adjust := 0\<rparr>"

lemma conf_view: "i < length (pm_groups pm) \<Longrightarrow> conf pm i = snd (snd (snd (views pm ! i)))"
  by (simp add: conf_def views_nth gview_def)

lemma conf_reap:
  assumes "reap i s D n pm pm'" "k < length (pm_groups pm)"
  shows "conf pm' k = conf pm k"
proof -
  have "snd (snd (snd (reapv D n v))) = snd (snd (snd v))" for v by (cases v) simp
  then show ?thesis
    using assms reap_groups [OF assms(1)] by (cases "k = i") (simp_all add: conf_view reap_def)
qed

lemma conf_simps:
  "gi_exitsignal (conf pm i) = gi_exitsignal (pg_info (pm_groups pm ! i))"
  "gi_heartbeat (conf pm i) = gi_heartbeat (pg_info (pm_groups pm ! i))"
  "gi_groupid (conf pm i) = gi_groupid (pg_info (pm_groups pm ! i))"
  "gi_minproc (conf pm i) = gi_minproc (pg_info (pm_groups pm ! i))"
  "gi_maxproc (conf pm i) = gi_maxproc (pg_info (pm_groups pm ! i))"
  by (simp_all add: conf_def)

lemma dead_in_conf:
  "dead_in pm i p \<longleftrightarrow> pi_timestamp p < int (u32_of_int (pm_now pm - int (gi_heartbeat (conf pm i)))) \<and> pm_gone pm (pi_procid p)"
  by (simp add: dead_in_def proc_dead_def conf_simps)

lemma dead_in_reap:
  assumes "reap i s D n pm pm'" "k < length (pm_groups pm)"
  shows "dead_in pm' k = dead_in pm k"
  using assms conf_reap [OF assms] by (simp add: fun_eq_iff dead_in_conf reap_def env_def)

lemma has_dead_event: "has_event EV_PROCDEAD (proc_events gi p pm) \<longleftrightarrow> proc_dead gi p pm"
  by (simp add: has_event_def proc_events_def EV_PROCDEAD_def EV_OVERLOAD_def EV_LOWSRATE_def EV_LATENCY_def EV_OTFMEM_def)

lemma reap_soft: "reap i s D n a b \<Longrightarrow> soft b c \<Longrightarrow> i < length (pm_groups a) \<Longrightarrow> reap i s D n a c"
  using reap_trans [of i s D n a b "[]" 0 c] soft_reap by simp

lemma soft_then_reap: "soft a b \<Longrightarrow> reap i s D n b c \<Longrightarrow> i < length (pm_groups a) \<Longrightarrow> reap i s D n a c"
  using reap_trans [of i s "[]" 0 a b D n c] soft_reap by simp

text \<open>A dead process is sent the exit signal, taken off and replaced.\<close>

lemma reap_dead_event:
  assumes ok: "pm_ok pm" and i: "i < length (pm_groups pm)" and p: "p \<in> set (procs pm i)"
  shows "\<exists>pm'. dead_event i (pi_procid p) pm = Some pm' \<and> reap i (gi_exitsignal (conf pm i)) [p] 1 pm pm'"
proof -
  let ?gi = "pg_info (pm_groups pm ! i)"
  obtain pm1 where 1: "drop_proc i (pi_procid p) (gi_exitsignal ?gi) pm = Some pm1" "reap i (gi_exitsignal ?gi) [p] 0 pm pm1"
    using reap_drop [OF ok i p] by blast
  define pm' where "pm' = upd_group i (\<lambda>g. g\<lparr>pg_errproc := pg_errproc g + 1\<rparr>) (do_fork ?gi 1 pm1)"
  have d: "dead_event i (pi_procid p) pm = Some pm'"
    using 1(1) by (auto simp: dead_event_def drop_proc_def pm'_def Let_def split: Option.bind_splits)
  have i1: "i < length (pm_groups pm1)" using reap_groups [OF 1(2)] i by simp
  have f: "gi_groupid ?gi = int i" using pm_ok_group(2) [OF ok i] .
  have "reap i (gi_exitsignal ?gi) [] 1 pm1 pm'"
    using i1 f by (auto simp: reap_def pm'_def do_fork_eq views_def upd_group_def map_update gview_def env_def clients_def comp_def)
  then show ?thesis using d reap_trans [OF 1(2) _ i] by (auto simp: conf_simps)
qed

lemma infos_nth:
  assumes "pm_ok pm" "i < length (pm_groups pm)" "j < 10" "k < length (infos pm i j)"
  shows "po_info (get_proc i j k pm) = infos pm i j ! k" "infos pm i j ! k \<in> set (infos pm i j)"
  using assms pm_ok_group(1) [OF assms(1,2)] by (auto simp: get_proc_def infos_bucket)

lemma soft_simps:
  assumes "soft a b" "i < length (pm_groups a)"
  shows "infos b = infos a" "procs b = procs a" "conf b i = conf a i" "dead_in b i = dead_in a i"
    "length (pm_groups b) = length (pm_groups a)"
  using assms conf_reap [OF soft_reap] dead_in_reap [OF soft_reap] soft_groups
  by (simp_all add: soft_def infos_def procs_def fun_eq_iff)

lemma check_proc_spec:
  assumes ok: "pm_ok pm" and i: "i < length (pm_groups pm)" and j: "j < 10" and k: "k < length (infos pm i j)"
  shows "\<exists>pm'. check_proc i j k pm = Some (dead_in pm i (infos pm i j ! k), pm') \<and>
     (if dead_in pm i (infos pm i j ! k) then reap i (gi_exitsignal (conf pm i)) [infos pm i j ! k] 1 pm pm' else soft pm pm')"
proof -
  let ?p = "infos pm i j ! k" and ?gi = "pg_info (pm_groups pm ! i)"
  let ?ev = "proc_events ?gi ?p pm"
  note q = infos_nth [OF ok i j k]
  define pm1 where "pm1 = upd_proc i j k (\<lambda>p. p\<lparr>po_status := 0\<rparr>) pm"
  define pm2 where "pm2 = (if pm_notify pm1 \<and> po_notifytime (get_proc i j k pm) + MIN_NOTIFY_TIME_CYCLE < pm_now pm1
      then upd_proc i j k (\<lambda>p. p\<lparr>po_notifytime := pm_now pm1\<rparr>)
        (put_effect (PmNotify (gi_groupid ?gi) (Some (pi_procid ?p)) ?ev) pm1) else pm1)"
  have s1: "soft pm pm1" unfolding pm1_def by (rule soft_upd_proc) simp
  have s2: "soft pm1 pm2" unfolding pm2_def by (auto intro!: soft_trans [OF soft_effect soft_upd_proc])
  have c: "check_proc i j k pm = (if ?ev = 0 then Some (False, pm1) else proc_event_at ?ev i j k pm2)"
    unfolding check_proc_def Let_def q pm2_def pm1_def by simp
  define pm3 where "pm3 = upd_proc i j k (\<lambda>p. p\<lparr>po_status := 0\<rparr>) pm2"
  have s3: "soft pm pm3" unfolding pm3_def by (rule soft_trans [OF soft_trans [OF s1 s2] soft_upd_proc]) simp
  have p2: "po_info (get_proc i j k pm2) = ?p"
    using infos_nth(1) [of pm2 i j k] soft_simps [OF soft_trans [OF s1 s2] i] pm_ok_soft [OF ok soft_trans [OF s1 s2]] i j k by simp
  have g: "nat (pi_groupid ?p) = i" using pm_ok_in_procs(2) [OF i j ok q(2)] by simp
  show ?thesis
  proof (cases "dead_in pm i ?p")
    case True
    then have ev: "has_event EV_PROCDEAD ?ev" by (simp add: has_dead_event dead_in_def)
    then have "?ev \<noteq> 0" by (metis div_0 has_event_def mod_0 zero_neq_one)
    then have e: "check_proc i j k pm = (case dead_event i (pi_procid ?p) pm3 of None \<Rightarrow> None | Some pm' \<Rightarrow> Some (True, pm'))"
      using c ev by (simp add: proc_event_at_def p2 g pm3_def Let_def split: option.split)
    note s = soft_simps [OF s3 i]
    have "?p \<in> set (procs pm3 i)" using pm_ok_in_procs(1) [OF i j ok q(2)] s by simp
    from reap_dead_event [OF pm_ok_soft [OF ok s3] _ this]
    obtain pm' where "dead_event i (pi_procid ?p) pm3 = Some pm'" "reap i (gi_exitsignal (conf pm i)) [?p] 1 pm3 pm'"
      using i s by auto
    then show ?thesis using True e soft_then_reap [OF s3 _ i] by auto
  next
    case False
    then have "\<not> has_event EV_PROCDEAD ?ev" by (simp add: has_dead_event dead_in_def)
    then have "\<exists>pm'. proc_event_at ?ev i j k pm2 = Some (False, pm') \<and> soft pm3 pm'"
      unfolding proc_event_at_def Let_def pm3_def
      by (auto intro!: soft_then_order soft_then_fork)
    then show ?thesis using False c s1 soft_trans [OF s3] by auto
  qed
qed

section \<open>Buckets\<close>

text \<open>The processes of the bucket that a walk or a round has to take away.\<close>

lemma walk_bucket_spec:
  assumes "pm_ok pm" "i < length (pm_groups pm)" "j < 10" "\<forall>k\<in>set ks. k < length (infos pm i j)"
  shows "\<exists>c pm'. walk_bucket i j ks pm = Some (c, pm') \<and>
     (if c then \<exists>k\<in>set ks. dead_in pm i (infos pm i j ! k) \<and> reap i (gi_exitsignal (conf pm i)) [infos pm i j ! k] 1 pm pm'
      else (\<forall>k\<in>set ks. \<not> dead_in pm i (infos pm i j ! k)) \<and> soft pm pm')"
  using assms
proof (induction ks arbitrary: pm)
  case (Cons k ks)
  from check_proc_spec [of pm i j k] Cons.prems obtain pm1 where
    1: "check_proc i j k pm = Some (dead_in pm i (infos pm i j ! k), pm1)"
      "if dead_in pm i (infos pm i j ! k) then reap i (gi_exitsignal (conf pm i)) [infos pm i j ! k] 1 pm pm1 else soft pm pm1"
    by auto
  show ?case
  proof (cases "dead_in pm i (infos pm i j ! k)")
    case False
    then have s: "soft pm pm1" using 1 by simp
    note q = soft_simps [OF s Cons.prems(2)]
    have k1: "\<forall>k\<in>set ks. k < length (infos pm1 i j)" "i < length (pm_groups pm1)" using Cons.prems q by auto
    from Cons.IH [OF pm_ok_soft [OF Cons.prems(1) s] k1(2) Cons.prems(3) k1(1)] obtain c pm' where
      w: "walk_bucket i j ks pm1 = Some (c, pm')"
        "if c then \<exists>k\<in>set ks. dead_in pm i (infos pm i j ! k) \<and> reap i (gi_exitsignal (conf pm i)) [infos pm i j ! k] 1 pm1 pm'
         else (\<forall>k\<in>set ks. \<not> dead_in pm i (infos pm i j ! k)) \<and> soft pm1 pm'"
      unfolding q by blast
    have "walk_bucket i j (k # ks) pm = Some (c, pm')" using 1(1) False w(1) by simp
    moreover have "if c then \<exists>k\<in>set (k # ks). dead_in pm i (infos pm i j ! k) \<and> reap i (gi_exitsignal (conf pm i)) [infos pm i j ! k] 1 pm pm'
         else (\<forall>k\<in>set (k # ks). \<not> dead_in pm i (infos pm i j ! k)) \<and> soft pm pm'"
      using w(2) False soft_then_reap [OF s _ Cons.prems(2)] soft_trans [OF s] by (cases c) auto
    ultimately show ?thesis by blast
  qed (use 1 in auto)
next
  case Nil
  then show ?case by (intro exI [of _ False] exI [of _ pm]) simp
qed

definition dead_list :: "procmon \<Rightarrow> nat \<Rightarrow> proc_info list \<Rightarrow> proc_info list \<Rightarrow> bool" where
  "dead_list pm i ps D \<longleftrightarrow> distinct D \<and> set D = {p \<in> set ps. dead_in pm i p}"

lemma infos_distinct:
  "pm_ok pm \<Longrightarrow> i < length (pm_groups pm) \<Longrightarrow> j < 10 \<Longrightarrow> distinct (infos pm i j)"
  using pm_ok_group(4) [of pm i j] by (simp add: bucket_ok_def distinct_map)

lemma check_bucket_spec:
  assumes "pm_ok pm" "i < length (pm_groups pm)" "j < 10" "length (infos pm i j) < fuel"
  shows "\<exists>D pm'. check_bucket fuel i j pm = Some pm' \<and> dead_list pm i (infos pm i j) D \<and>
     reap i (gi_exitsignal (conf pm i)) D (length D) pm pm'"
  using assms
proof (induction fuel arbitrary: pm)
  case (Suc fuel)
  note ok = Suc.prems(1) and i = Suc.prems(2) and j = Suc.prems(3)
  have l: "length (pg_buckets (pm_groups pm ! i) ! j) = length (infos pm i j)"
    using pm_ok_group(1) [OF ok i] i j by (simp add: infos_bucket)
  have all: "\<forall>k\<in>set [0..<length (infos pm i j)]. k < length (infos pm i j)" by simp
  from walk_bucket_spec [OF ok i j all] obtain c pm1 where
    w: "walk_bucket i j [0..<length (infos pm i j)] pm = Some (c, pm1)"
      "if c then \<exists>k\<in>set [0..<length (infos pm i j)]. dead_in pm i (infos pm i j ! k) \<and>
           reap i (gi_exitsignal (conf pm i)) [infos pm i j ! k] 1 pm pm1
       else (\<forall>k\<in>set [0..<length (infos pm i j)]. \<not> dead_in pm i (infos pm i j ! k)) \<and> soft pm pm1"
    by blast
  show ?case
  proof (cases c)
    case False
    then show ?thesis using w l soft_reap [of pm pm1]
      by (intro exI [of _ "[]"]) (auto simp: dead_list_def in_set_conv_nth)
  next
    case True
    then obtain k where "k < length (infos pm i j)" "dead_in pm i (infos pm i j ! k)"
        "reap i (gi_exitsignal (conf pm i)) [infos pm i j ! k] 1 pm pm1"
      using w(2) by auto
    then obtain p where p: "p \<in> set (infos pm i j)" "dead_in pm i p" "reap i (gi_exitsignal (conf pm i)) [p] 1 pm pm1"
      by (intro that [of "infos pm i j ! k"]) simp_all
    have f: "infos pm1 i j = filter (\<lambda>x. x \<noteq> p) (infos pm i j)"
      using reap_infos [OF p(3) i, of j] views_length [OF ok i] j by simp
    have "p \<in> set (procs pm i)" using pm_ok_in_procs(1) [OF i j ok p(1)] .
    then have ok1: "pm_ok pm1" using pm_ok_reap [OF ok i p(3)] by simp
    have "length (infos pm1 i j) < length (infos pm i j)"
      using p(1) unfolding f by (rule length_filter_less) simp
    with Suc.IH [OF ok1] reap_groups [OF p(3)] i j Suc.prems(4) conf_reap [OF p(3) i] obtain D pm' where
      D: "check_bucket fuel i j pm1 = Some pm'" "dead_list pm1 i (infos pm1 i j) D"
        "reap i (gi_exitsignal (conf pm i)) D (length D) pm1 pm'"
      by auto
    have "dead_list pm i (infos pm i j) (p # D)"
      using D(2) p(1,2) f dead_in_reap [OF p(3) i] by (auto simp: dead_list_def)
    then show ?thesis using w(1) True l D(1) reap_trans [OF p(3) D(3) i]
      by (intro exI [of _ "p # D"] exI [of _ pm']) simp
  qed
qed simp

lemma pm_fuel_infos:
  assumes "pm_ok pm" "i < length (pm_groups pm)" "j < 10"
  shows "length (infos pm i j) < pm_fuel pm"
proof -
  have "length (infos pm i j) \<le> length (concat (pg_buckets (pm_groups pm ! i)))"
    using assms pm_ok_group(1) [OF assms(1,2)]
    by (auto simp: infos_bucket length_concat intro!: elem_le_sum_list [of j "map length _", THEN order_trans [rotated]])
  also have "\<dots> \<le> all_procs pm"
    using assms(2) elem_le_sum_list [of i "map (\<lambda>g. length (concat (pg_buckets g))) (pm_groups pm)"]
    by (simp add: all_procs_def)
  finally show ?thesis by (simp add: pm_fuel_def)
qed

lemma check_buckets_spec:
  assumes "pm_ok pm" "i < length (pm_groups pm)" "\<forall>j\<in>set js. j < 10" "distinct js"
  shows "\<exists>D pm'. check_buckets i js pm = Some pm' \<and> dead_list pm i (concat (map (infos pm i) js)) D \<and>
     reap i (gi_exitsignal (conf pm i)) D (length D) pm pm'"
  using assms
proof (induction js arbitrary: pm)
  case Nil
  then show ?case by (intro exI [of _ "[]"]) (simp add: dead_list_def)
next
  case (Cons j js)
  note ok = Cons.prems(1) and i = Cons.prems(2)
  have j: "j < 10" using Cons.prems by simp
  obtain D1 pm1 where 1: "check_bucket (pm_fuel pm) i j pm = Some pm1" "dead_list pm i (infos pm i j) D1"
      "reap i (gi_exitsignal (conf pm i)) D1 (length D1) pm pm1"
    using check_bucket_spec [OF ok i j pm_fuel_infos [OF ok i j]] by blast
  have sub: "set D1 \<subseteq> set (infos pm i j)" using 1(2) by (auto simp: dead_list_def)
  have ok1: "pm_ok pm1" using 1 sub pm_ok_in_procs(1) [OF i j ok] by (intro pm_ok_reap [OF ok i 1(3)]) (auto simp: dead_list_def)
  have disj: "x \<notin> set (infos pm i k)" if "x \<in> set (infos pm i j)" "k \<in> set js" for x k
    using that Cons.prems(3,4) pm_ok_in_procs(4) [OF i j ok, of x] pm_ok_in_procs(4) [OF i _ ok, of k x] by auto
  have same: "infos pm1 i k = infos pm i k" if "k \<in> set js" for k
  proof -
    have k: "k < 10" using that Cons.prems(3) by auto
    have "infos pm1 i k = filter (\<lambda>p. p \<notin> set D1) (infos pm i k)"
      using reap_infos [OF 1(3) i, of k] views_length [OF ok i] k by simp
    also have "\<dots> = infos pm i k" using sub disj [OF _ that] by (intro filter_True) blast
    finally show ?thesis .
  qed
  obtain D2 pm' where 2: "check_buckets i js pm1 = Some pm'" "dead_list pm1 i (concat (map (infos pm1 i) js)) D2"
      "reap i (gi_exitsignal (conf pm i)) D2 (length D2) pm1 pm'"
    using Cons.IH [OF ok1] Cons.prems(2-4) reap_groups [OF 1(3)] conf_reap [OF 1(3) i] by simp blast
  have m: "map (infos pm1 i) js = map (infos pm i) js" using same by simp
  have "set D2 \<subseteq> (\<Union>k\<in>set js. set (infos pm i k))" using 2(2) m by (auto simp: dead_list_def)
  then have "set D1 \<inter> set D2 = {}" using sub disj by blast
  then have "dead_list pm i (concat (map (infos pm i) (j # js))) (D1 @ D2)"
    using 1(2) 2(2) m dead_in_reap [OF 1(3) i] by (auto simp: dead_list_def)
  then show ?case using 1(1) 2(1) reap_trans [OF 1(3) 2(3) i]
    by (intro exI [of _ "D1 @ D2"] exI [of _ pm']) simp
qed

section \<open>Groups\<close>

lemma filter_not_take: "distinct xs \<Longrightarrow> filter (\<lambda>x. x \<notin> set (take n xs)) xs = drop n xs"
proof -
  assume d: "distinct xs"
  have "filter (\<lambda>x. x \<notin> set (take n xs)) (take n xs @ drop n xs) = drop n xs"
    unfolding filter_append using set_take_disj_set_drop_if_distinct [OF d order_refl, of n]
    by (auto simp: filter_empty_conv intro!: filter_True)
  then show ?thesis by simp
qed

lemma reap_procs:
  assumes "reap i s D n pm pm'" "i < length (pm_groups pm)"
  shows "procs pm' i = filter (\<lambda>p. p \<notin> set D) (procs pm i)"
  using assms by (cases "views pm ! i") (simp add: reap_def procs_def filter_concat)

lemma reap_procs_other: "reap i s D n pm pm' \<Longrightarrow> k \<noteq> i \<Longrightarrow> procs pm' k = procs pm k"
  by (simp add: reap_def procs_def)

lemma distinct_head: "distinct (x # xs) \<Longrightarrow> x # filter (\<lambda>y. y \<noteq> x) (x # xs) = x # xs"
  by (simp, intro filter_True) auto

text \<open>Stopping takes the first processes of the buckets in their order.\<close>

lemma stop_procs_spec:
  assumes "pm_ok pm" "i < length (pm_groups pm)" "count < diff" "j \<le> 10"
    "10 - j + length (concat (drop j (fst (views pm ! i)))) < fuel"
  shows "\<exists>pm'. stop_procs fuel i j count diff pm = Some pm' \<and>
     reap i SIGUSR1 (take (nat (diff - count)) (concat (drop j (fst (views pm ! i))))) 0 pm pm' \<and>
     pm_out pm' = pm_out pm @ map (\<lambda>p. PmKill (pi_procid p) SIGUSR1) (take (nat (diff - count)) (concat (drop j (fst (views pm ! i)))))"
  using assms
proof (induction fuel arbitrary: pm j count)
  case (Suc fuel)
  note ok = Suc.prems(1) and i = Suc.prems(2) and cd = Suc.prems(3)
  have l: "length (fst (views pm ! i)) = 10" using views_length [OF ok i] .
  show ?case
  proof (cases "j < 10")
    case False
    then show ?thesis using l by (simp add: BUCKET_SIZE_def)
  next
    case True
    have dj: "drop j (fst (views pm ! i)) = infos pm i j # drop (Suc j) (fst (views pm ! i))"
      using l True by (simp add: infos_def Cons_nth_drop_Suc)
    have b: "infos pm i j = map po_info (pg_buckets (pm_groups pm ! i) ! j)"
      using pm_ok_group(1) [OF ok i] i True by (simp add: infos_bucket)
    show ?thesis
    proof (cases "pg_buckets (pm_groups pm ! i) ! j")
      case Nil
      then show ?thesis using Suc.IH [OF ok i cd, of "Suc j"] Suc.prems(5) True b cd dj by (simp add: BUCKET_SIZE_def)
    next
      case (Cons p ps)
      let ?q = "po_info p"
      have q: "?q \<in> set (procs pm i)" using pm_ok_in_procs(1) [OF i True ok, of ?q] b Cons by simp
      obtain pm2 where 2: "drop_proc i (pi_procid ?q) SIGUSR1 pm = Some pm2" "reap i SIGUSR1 [?q] 0 pm pm2"
          "pm_out pm2 = pm_out pm @ [PmKill (pi_procid ?q) SIGUSR1]"
        using reap_drop [OF ok i q] by blast
      have ok2: "pm_ok pm2" using pm_ok_reap [OF ok i 2(2)] q by simp
      have i2: "i < length (pm_groups pm2)" using reap_groups [OF 2(2)] i by simp
      have "distinct (concat (drop j (fst (views pm ! i))))"
        using pm_ok_procs(2) [OF ok i] unfolding procs_def by (metis append_take_drop_id concat_append distinct_append)
      then have "concat (drop j (fst (views pm ! i))) = ?q # filter (\<lambda>x. x \<noteq> ?q) (concat (drop j (fst (views pm ! i))))"
        using distinct_head [of ?q "map po_info ps @ concat (drop (Suc j) (fst (views pm ! i)))"] unfolding dj b Cons by simp
      then have c: "concat (drop j (fst (views pm ! i))) = ?q # concat (drop j (fst (views pm2 ! i)))"
        using 2(2) i by (cases "views pm ! i") (simp add: reap_def drop_map filter_concat)
      have "pg_info (pm_groups pm1 ! i) = pg_info (pm_groups pm ! i)" if "do_recv (pi_procid ?q) (do_kill (pi_procid ?q) SIGUSR1 pm) = Some pm1" for pm1
        using that do_recv_drops [of "pi_procid ?q" "do_kill (pi_procid ?q) SIGUSR1 pm"] ok pm_ok_in_procs(3) [OF i True ok, of ?q] b Cons
        by (auto simp: pm_ok_def do_kill_def)
      then have st: "stop_procs (Suc fuel) i j count diff pm =
          (if count + 1 \<ge> diff then Some pm2 else stop_procs fuel i j (count + 1) diff pm2)"
        using 2(1) True Cons pm_ok_group(2) [OF ok i]
        by (auto simp: drop_proc_def BUCKET_SIZE_def split: Option.bind_splits option.splits)
      show ?thesis
      proof (cases "count + 1 \<ge> diff")
        case True
        then have "nat (diff - count) = 1" using cd by simp
        then show ?thesis using st True 2(2,3) c by simp
      next
        case False
        then have "count + 1 < diff" "nat (diff - count) = Suc (nat (diff - (count + 1)))" using cd by auto
        then show ?thesis
          using Suc.IH [OF ok2 i2, of "count + 1" j] Suc.prems(4,5) False st c 2(3) reap_trans [OF 2(2) _ i] by fastforce
      qed
    qed
  qed
qed simp

definition surplus :: "procmon \<Rightarrow> nat \<Rightarrow> nat" where
  "surplus pm i =
     (let gi = conf pm i; lo = s32_of_nat (gi_minproc gi); hi = s32_of_nat (gi_maxproc gi); cur = int (length (procs pm i))
      in if lo > cur then 0 else if cur > hi then nat (cur - hi)
         else if lo < cur \<and> gi_adjust (pg_info (pm_groups pm ! i)) + ADJUST_PROC_DELAY < pm_now pm \<and> \<not> check_groupbusy i pm
         then 1 else 0)"

definition missing :: "procmon \<Rightarrow> nat \<Rightarrow> nat" where
  "missing pm i = nat (s32_of_nat (gi_minproc (conf pm i)) - int (length (procs pm i)))"

definition new_effects :: "procmon \<Rightarrow> procmon \<Rightarrow> pm_effect list" where
  "new_effects pm pm' = drop (length (pm_out pm)) (pm_out pm')"

lemma curproc_procs:
  assumes "pm_ok pm" "i < length (pm_groups pm)"
  shows "pg_curproc (pm_groups pm ! i) = int (length (procs pm i))"
  using pm_ok_group(3) [OF assms] assms(2) by (simp add: procs_def views_nth gview_def map_concat [symmetric])

end
