(* ===== verification/ProcMonTheorems.thy ===== *)
theory ProcMonTheorems
  imports ProcMonCheck
begin

text \<open>
  Properties of the process monitor: its table is a map of the last information, a check of a
  group keeps the number of processes within its bounds, a check of the processes takes the
  dead ones away and replaces them, and a round ends with a well-formed table.
\<close>

section \<open>The check of a group\<close>

definition fork_of :: "group_info \<Rightarrow> pm_effect" where
  "fork_of gi = PmFork (gi_basepath gi) (gi_exefile gi) (gi_etcfile gi) (gi_groupid gi) (gi_maxproc gi) (gi_flag gi)"

lemma new_effects_append: "pm_out pm' = pm_out pm @ es \<Longrightarrow> new_effects pm pm' = es"
  by (simp add: new_effects_def)

lemma set_adjust_out [simp]: "pm_out (set_adjust i pm) = pm_out pm"
  by (simp add: set_adjust_def upd_group_def)

text \<open>What is left to a group check when the event is decided.\<close>

lemma up_event_spec:
  assumes "pm_ok pm" "i < length (pm_groups pm)" "0 < diff"
  shows "\<exists>pm'. group_event EV_PROCUP i diff pm = Some pm' \<and> reap i SIGUSR1 (take (nat diff) (procs pm i)) 0 pm pm' \<and>
     pm_out pm' = pm_out pm @ map (\<lambda>p. PmKill (pi_procid p) SIGUSR1) (take (nat diff) (procs pm i))"
proof -
  have "length (procs pm i) \<le> all_procs pm"
    using assms(2) elem_le_sum_list [of i "map (\<lambda>g. length (concat (pg_buckets g))) (pm_groups pm)"]
    by (simp add: all_procs_def procs_def views_nth gview_def map_concat [symmetric])
  then have "10 - 0 + length (concat (drop 0 (fst (views pm ! i)))) < pm_fuel pm + BUCKET_SIZE"
    by (simp add: pm_fuel_def BUCKET_SIZE_def procs_def)
  from stop_procs_spec [OF assms(1,2) assms(3) _ this] obtain pm1 where
    1: "stop_procs (pm_fuel pm + BUCKET_SIZE) i 0 0 diff pm = Some pm1" "reap i SIGUSR1 (take (nat diff) (procs pm i)) 0 pm pm1"
      "pm_out pm1 = pm_out pm @ map (\<lambda>p. PmKill (pi_procid p) SIGUSR1) (take (nat diff) (procs pm i))"
    by (auto simp: procs_def)
  then show ?thesis
    using reap_soft [OF 1(2) soft_set_adjust assms(2)] by (auto simp: group_event_def EV_PROCUP_def EV_PROCDOWN_def)
qed

lemma check_group_spec:
  assumes ok: "pm_ok pm" and i: "i < length (pm_groups pm)"
  shows "\<exists>pm'. check_group i pm = Some pm' \<and> reap i SIGUSR1 (take (surplus pm i) (procs pm i)) 0 pm pm' \<and>
     filter (is_fork (int i)) (new_effects pm pm') = replicate (missing pm i) (fork_of (pg_info (pm_groups pm ! i)))"
proof -
  let ?g = "pm_groups pm ! i"
  let ?lo = "s32_of_nat (gi_minproc (pg_info ?g))" and ?hi = "s32_of_nat (gi_maxproc (pg_info ?g))"
  let ?n = "\<lambda>ev. if pm_notify pm then put_effect (PmNotify (gi_groupid (pg_info ?g)) None ev) pm else pm"
  note cur = curproc_procs [OF ok i]
  have s: "soft pm (?n ev)" for ev by (simp add: soft_effect)
  have o: "pm_out (?n ev) = pm_out pm @ (if pm_notify pm then [PmNotify (gi_groupid (pg_info ?g)) None ev] else [])" for ev
    by (simp add: put_effect_def)
  have g: "pm_groups (?n ev) = pm_groups pm" for ev by simp
  have f: "is_fork (int i) (fork_of (pg_info ?g))" using pm_ok_group(2) [OF ok i] by (simp add: fork_of_def)
  consider "?lo > pg_curproc ?g" | "?lo \<le> pg_curproc ?g" "surplus pm i = 0" | "?lo \<le> pg_curproc ?g" "surplus pm i > 0" by linarith
  then show ?thesis
  proof cases
    case 1
    then have c: "check_group i pm = Some (set_adjust i (do_fork (pg_info ?g) (nat (?lo - pg_curproc ?g)) (?n EV_PROCDOWN)))"
      by (simp add: check_group_def Let_def group_event_def EV_PROCDOWN_def)
    have "soft pm (set_adjust i (do_fork (pg_info ?g) (nat (?lo - pg_curproc ?g)) (?n EV_PROCDOWN)))"
      by (rule soft_trans [OF s soft_trans [OF soft_fork soft_set_adjust]])
    moreover have "surplus pm i = 0" "missing pm i = nat (?lo - pg_curproc ?g)"
      using 1 cur by (simp_all add: surplus_def missing_def conf_simps)
    ultimately show ?thesis using c f o [of EV_PROCDOWN]
      by (intro exI [of _ "set_adjust i (do_fork (pg_info ?g) (nat (?lo - pg_curproc ?g)) (?n EV_PROCDOWN))"])
        (auto simp: soft_reap do_fork_eq new_effects_def fork_of_def [symmetric])
  next
    case 2
    then have "check_group i pm = Some pm" "missing pm i = 0"
      using cur by (auto simp: check_group_def surplus_def missing_def Let_def conf_simps split: if_splits)
    then show ?thesis using 2(2) by (simp add: new_effects_def)
  next
    case 3
    then have c: "check_group i pm = group_event EV_PROCUP i (int (surplus pm i)) (?n EV_PROCUP)" "missing pm i = 0"
      using cur by (auto simp: check_group_def surplus_def missing_def Let_def conf_simps EV_PROCUP_def split: if_splits)
    note q = soft_simps [OF s [of EV_PROCUP] i]
    from up_event_spec [OF pm_ok_soft [OF ok s [of EV_PROCUP]], where i = i and diff = "int (surplus pm i)"] 3(2) i q obtain pm' where
      u: "group_event EV_PROCUP i (int (surplus pm i)) (?n EV_PROCUP) = Some pm'"
        "reap i SIGUSR1 (take (surplus pm i) (procs pm i)) 0 (?n EV_PROCUP) pm'"
        "pm_out pm' = pm_out (?n EV_PROCUP) @ map (\<lambda>p. PmKill (pi_procid p) SIGUSR1) (take (surplus pm i) (procs pm i))"
      by auto
    have "filter (is_fork (int i)) (new_effects pm pm') = []"
      using u(3) o [of EV_PROCUP] by (auto simp: new_effects_def filter_empty_conv)
    then show ?thesis using c u soft_then_reap [OF s u(2) i] by auto
  qed
qed

lemma reap_kills:
  assumes "reap i s D n pm pm'"
  shows "filter is_kill (new_effects pm pm') = map (\<lambda>p. PmKill (pi_procid p) s) D"
    "n \<le> length (filter (is_fork (int i)) (new_effects pm pm'))"
    "\<exists>es. pm_out pm' = pm_out pm @ es"
  using assms by (auto simp: reap_def new_effects_def)

lemma reap_ok:
  assumes "pm_ok pm" "i < length (pm_groups pm)" "reap i s (take n (procs pm i)) m pm pm'"
  shows "pm_ok pm'" "procs pm' i = drop n (procs pm i)"
  using pm_ok_reap [OF assms] pm_ok_procs(2) [OF assms(1,2)] set_take_subset [of n "procs pm i"]
    reap_procs [OF assms(3,2)] by (simp_all add: filter_not_take)

section \<open>A round\<close>

text \<open>What a round does to one group, seen from outside.\<close>

definition signalled :: "procmon \<Rightarrow> procmon \<Rightarrow> proc_info \<Rightarrow> bool" where
  "signalled pm pm' p \<longleftrightarrow> list_ex (\<lambda>e. case e of PmKill q s \<Rightarrow> q = pi_procid p | _ \<Rightarrow> False) (new_effects pm pm')"

definition quits :: "nat \<Rightarrow> procmon \<Rightarrow> procmon \<Rightarrow> bool" where
  "quits i pm pm' \<longleftrightarrow> pm_ok pm' \<and> env pm' = env pm \<and> length (pm_groups pm') = length (pm_groups pm) \<and>
     (\<forall>k. k \<noteq> i \<longrightarrow> procs pm' k = procs pm k) \<and> (\<forall>k<length (pm_groups pm). conf pm' k = conf pm k) \<and>
     set (procs pm' i) \<subseteq> set (procs pm i) \<and> (\<exists>es. pm_out pm' = pm_out pm @ es) \<and>
     (\<forall>p\<in>set (procs pm i). p \<in> set (procs pm' i) \<or> signalled pm pm' p)"

lemma signalled_later:
  assumes "pm_out b = pm_out a @ es" "pm_out c = pm_out b @ es'"
  shows "signalled a b p \<Longrightarrow> signalled a c p" "signalled b c p \<Longrightarrow> signalled a c p"
  using assms by (auto simp: signalled_def new_effects_def)

lemma quits_refl: "pm_ok pm \<Longrightarrow> quits i pm pm"
  by (simp add: quits_def)

lemma quits_trans:
  assumes "quits i a b" "quits i b c"
  shows "quits i a c"
proof -
  obtain es es' where o: "pm_out b = pm_out a @ es" "pm_out c = pm_out b @ es'" using assms by (auto simp: quits_def)
  then have "\<exists>es. pm_out c = pm_out a @ es" by auto
  moreover have "p \<in> set (procs c i) \<or> signalled a c p" if "p \<in> set (procs a i)" for p
    using assms that signalled_later [OF o] unfolding quits_def by blast
  ultimately show ?thesis using assms unfolding quits_def by auto
qed

lemma reap_quits:
  assumes "pm_ok pm" "i < length (pm_groups pm)" "reap i s D n pm pm'" "distinct D" "set D \<subseteq> set (procs pm i)"
  shows "quits i pm pm'"
proof -
  have "signalled pm pm' p" if "p \<in> set D" for p
  proof -
    have "PmKill (pi_procid p) s \<in> set (filter is_kill (new_effects pm pm'))" using that reap_kills(1) [OF assms(3)] by auto
    then show ?thesis by (force simp: signalled_def list_ex_iff)
  qed
  then show ?thesis
    using pm_ok_reap [OF assms] reap_groups [OF assms(3)] reap_procs [OF assms(3,2)] reap_procs_other [OF assms(3)]
      conf_reap [OF assms(3)] reap_kills(3) [OF assms(3)] assms(3)
    by (auto simp: quits_def reap_def)
qed

lemma quits_dead:
  assumes "quits i a b" "k < length (pm_groups a)"
  shows "dead_in b k = dead_in a k"
  using assms by (simp add: quits_def dead_in_conf fun_eq_iff env_def)

lemma check_buckets_all:
  assumes ok: "pm_ok pm" and i: "i < length (pm_groups pm)"
  shows "\<exists>D pm'. check_buckets i [0..<BUCKET_SIZE] pm = Some pm' \<and> dead_list pm i (procs pm i) D \<and>
     reap i (gi_exitsignal (conf pm i)) D (length D) pm pm'"
proof -
  have "map (infos pm i) [0..<10] = fst (views pm ! i)"
    using views_length [OF ok i] by (intro nth_equalityI) (simp_all add: infos_def)
  then show ?thesis using check_buckets_spec [OF ok i, of "[0..<10]"] by (simp add: BUCKET_SIZE_def procs_def)
qed

lemma check_one_quits:
  assumes ok: "pm_ok pm" and i: "i < length (pm_groups pm)"
  shows "\<exists>pm'. check_one i pm = Some pm' \<and> quits i pm pm' \<and> (\<forall>p\<in>set (procs pm' i). \<not> dead_in pm' i p)"
proof -
  obtain pm1 where 1: "(if group_due i pm
      then do { pm \<leftarrow> check_group i pm; Some (upd_group i (\<lambda>g. g\<lparr>pg_lastcheck := pm_now pm\<rparr>) pm) } else Some pm) = Some pm1"
      "quits i pm pm1"
  proof (cases "group_due i pm")
    case True
    obtain pm2 where 2: "check_group i pm = Some pm2" "reap i SIGUSR1 (take (surplus pm i) (procs pm i)) 0 pm pm2"
      using check_group_spec [OF ok i] by blast
    have "soft pm2 (upd_group i (\<lambda>g. g\<lparr>pg_lastcheck := pm_now pm2\<rparr>) pm2)" by (rule soft_upd_group) (simp add: gview_def)
    from reap_quits [OF ok i reap_soft [OF 2(2) this i]] pm_ok_procs(2) [OF ok i]
    show ?thesis using that True 2(1) set_take_subset [of "surplus pm i" "procs pm i"] by simp
  qed (use that quits_refl [OF ok] in simp)
  have q: "pm_ok pm1" "i < length (pm_groups pm1)" using 1(2) i by (simp_all add: quits_def)
  from check_buckets_all [OF q] obtain D pm' where 3: "check_buckets i [0..<BUCKET_SIZE] pm1 = Some pm'"
      "dead_list pm1 i (procs pm1 i) D" "reap i (gi_exitsignal (conf pm1 i)) D (length D) pm1 pm'" by blast
  have "check_one i pm = Some pm'"
    using 1(1) 3(1) curproc_procs [OF ok i] by (auto simp: check_one_def GROUP_UNUSED_def)
  moreover have "quits i pm1 pm'" using 3(2) by (intro reap_quits [OF q 3(3)]) (auto simp: dead_list_def)
  moreover have "\<not> dead_in pm' i p" if "p \<in> set (procs pm' i)" for p
    using that 3(2) reap_procs [OF 3(3) q(2)] dead_in_reap [OF 3(3) q(2)] by (auto simp: dead_list_def)
  ultimately show ?thesis using quits_trans [OF 1(2)] by blast
qed

text \<open>A round over the groups \<open>gs\<close>.\<close>

lemma check_all_spec:
  assumes "pm_ok pm" "distinct gs" "\<forall>i\<in>set gs. i < length (pm_groups pm)"
  shows "\<exists>pm'. check_all gs pm = Some pm' \<and> pm_ok pm' \<and> env pm' = env pm \<and> length (pm_groups pm') = length (pm_groups pm) \<and>
     (\<forall>k<length (pm_groups pm). conf pm' k = conf pm k) \<and> (\<exists>es. pm_out pm' = pm_out pm @ es) \<and>
     (\<forall>k. set (procs pm' k) \<subseteq> set (procs pm k) \<and> (k \<notin> set gs \<longrightarrow> procs pm' k = procs pm k) \<and>
        (\<forall>p\<in>set (procs pm k). p \<in> set (procs pm' k) \<or> signalled pm pm' p)) \<and>
     (\<forall>k\<in>set gs. \<forall>p\<in>set (procs pm' k). \<not> dead_in pm' k p)"
  using assms
proof (induction gs arbitrary: pm)
  case (Cons i gs)
  have i: "i < length (pm_groups pm)" using Cons.prems by simp
  obtain pm1 where 1: "check_one i pm = Some pm1" "quits i pm pm1" "\<forall>p\<in>set (procs pm1 i). \<not> dead_in pm1 i p"
    using check_one_quits [OF Cons.prems(1) i] by blast
  have q: "pm_ok pm1" "length (pm_groups pm1) = length (pm_groups pm)" "env pm1 = env pm"
      "\<And>k. k < length (pm_groups pm) \<Longrightarrow> conf pm1 k = conf pm k"
    using 1(2) by (simp_all add: quits_def)
  obtain pm' where 2: "check_all gs pm1 = Some pm'" "pm_ok pm'" "env pm' = env pm1" "length (pm_groups pm') = length (pm_groups pm1)"
      "\<forall>k<length (pm_groups pm1). conf pm' k = conf pm1 k" "\<exists>es. pm_out pm' = pm_out pm1 @ es"
      "\<And>k. set (procs pm' k) \<subseteq> set (procs pm1 k)" "\<And>k. k \<notin> set gs \<Longrightarrow> procs pm' k = procs pm1 k"
      "\<And>k p. p \<in> set (procs pm1 k) \<Longrightarrow> p \<in> set (procs pm' k) \<or> signalled pm1 pm' p"
      "\<forall>k\<in>set gs. \<forall>p\<in>set (procs pm' k). \<not> dead_in pm' k p"
    using Cons.IH [OF q(1)] Cons.prems(2,3) q(2) by fastforce
  obtain es es' where o: "pm_out pm1 = pm_out pm @ es" "pm_out pm' = pm_out pm1 @ es'"
    using 1(2) 2(6) by (auto simp: quits_def)
  have sub: "set (procs pm1 k) \<subseteq> set (procs pm k)" and old: "p \<in> set (procs pm k) \<Longrightarrow> p \<in> set (procs pm1 k) \<or> signalled pm pm1 p"
      and other: "k \<noteq> i \<Longrightarrow> procs pm1 k = procs pm k" for k p
    using 1(2) by (cases "k = i"; simp add: quits_def)+
  have "dead_in pm' i = dead_in pm1 i" using 2(3,5) i q(2) by (simp add: dead_in_conf fun_eq_iff env_def)
  then have "\<forall>k\<in>set (i # gs). \<forall>p\<in>set (procs pm' k). \<not> dead_in pm' k p"
    using 1(3) 2(10) 2(7) [of i] by auto
  moreover have "p \<in> set (procs pm' k) \<or> signalled pm pm' p" if "p \<in> set (procs pm k)" for k p
    using old [OF that] 2(9) signalled_later [OF o] by blast
  moreover have "check_all (i # gs) pm = Some pm'" using 1(1) 2(1) by simp
  moreover have "set (procs pm' k) \<subseteq> set (procs pm k)" for k using sub [of k] 2(7) [of k] by blast
  moreover have "k \<notin> set (i # gs) \<Longrightarrow> procs pm' k = procs pm k" for k using other [of k] 2(8) [of k] by simp
  moreover have "\<exists>es. pm_out pm' = pm_out pm @ es" using o by simp
  ultimately show ?case using 2(2-5) q by (intro exI [of _ pm'] conjI allI impI) simp_all
qed simp

lemma pm_run_spec:
  assumes "pm_ok pm"
  shows "\<exists>pm1 pm'. do_recv MSG_ID_SERVER pm = Some pm1 \<and> pm_run pm = Some pm' \<and> pm_ok pm1 \<and> pm_ok pm' \<and>
     length (pm_groups pm1) = length (pm_groups pm) \<and> length (pm_groups pm') = length (pm_groups pm) \<and>
     known pm1 = fold (noted (int (length (pm_groups pm)))) (filter (chosen MSG_ID_SERVER) (pm_mq pm)) (known pm) \<and>
     (\<exists>es es'. pm_out pm1 = pm_out pm @ es \<and> pm_out pm' = pm_out pm1 @ es') \<and>
     (\<forall>k. set (procs pm' k) \<subseteq> set (procs pm1 k) \<and>
        (\<forall>p\<in>set (procs pm1 k). p \<in> set (procs pm' k) \<or> signalled pm1 pm' p)) \<and>
     (\<forall>k<length (pm_groups pm). \<forall>p\<in>set (procs pm' k). \<not> dead_in pm' k p)"
proof -
  obtain pm1 where 1: "do_recv MSG_ID_SERVER pm = Some pm1" "pm_ok pm1" "length (pm_groups pm1) = length (pm_groups pm)"
      "known pm1 = fold (noted (int (length (pm_groups pm)))) (filter (chosen MSG_ID_SERVER) (pm_mq pm)) (known pm)"
      "\<exists>es. pm_out pm1 = pm_out pm @ es"
    using do_recv_known [OF assms, of MSG_ID_SERVER] by auto
  from check_all_spec [OF 1(2), of "[0..<length (pm_groups pm1)]"]
  show ?thesis using 1 by (auto simp: pm_run_def do_check_def)
qed

section \<open>The other operations\<close>

lemma view_ok_new: "gi_groupid gi = int i \<Longrightarrow>
  view_ok i (gview \<lparr>pg_info = gi, pg_buckets = replicate BUCKET_SIZE [], pg_curproc = 0, pg_errproc = 0, pg_lastcheck = 0\<rparr>)"
  by (simp add: gview_def BUCKET_SIZE_def bucket_ok_def)

lemma add_group_ok: "pm_ok pm \<Longrightarrow> add_group gi pm = Some pm' \<Longrightarrow> pm_ok pm'"
  using view_ok_new [of gi "length (pm_groups pm)"]
  by (auto simp: add_group_def pm_ok_def views_def clients_def nth_append less_Suc_eq split: if_splits simp del: view_ok.simps)

lemma mod_group_ok:
  assumes "pm_ok pm" "mod_group groupid gi pm = Some pm'"
  shows "pm_ok pm'"
proof -
  have g: "nat groupid < length (pm_groups pm)" "gi_groupid gi = int (nat groupid)"
      "pm' = upd_group (nat groupid) (\<lambda>g. g\<lparr>pg_info := gi\<rparr>) pm"
    using assms(2) by (auto simp: mod_group_def upd_group_def split: if_splits)
  define i where "i = nat groupid"
  have "view_ok i (gview (pm_groups pm ! i))" using assms(1) g(1) by (simp add: pm_ok_def views_nth i_def)
  then have "view_ok i (gview ((pm_groups pm ! i)\<lparr>pg_info := gi\<rparr>))" using g(2) by (auto simp: gview_def i_def [symmetric])
  then show ?thesis using assms(1) g(1,3) unfolding i_def [symmetric]
    by (auto simp: pm_ok_def views_upd_group nth_list_update simp del: view_ok.simps)
qed

lemma fold_groups_kill:
  "views (fold (\<lambda>g pm. if pg_curproc g \<noteq> GROUP_UNUSED
       then fold (\<lambda>p. do_kill (pi_procid (po_info p)) signo) (f g) pm else pm) gs pm) = views pm \<and>
   clients (fold (\<lambda>g pm. if pg_curproc g \<noteq> GROUP_UNUSED
       then fold (\<lambda>p. do_kill (pi_procid (po_info p)) signo) (f g) pm else pm) gs pm) = clients pm"
proof -
  have k: "views (fold (\<lambda>p. do_kill (pi_procid (po_info p)) signo) ps pm) = views pm \<and>
      clients (fold (\<lambda>p. do_kill (pi_procid (po_info p)) signo) ps pm) = clients pm" for ps pm
    by (induction ps arbitrary: pm) (simp_all add: do_kill_def)
  show ?thesis by (induction gs arbitrary: pm) (simp_all add: k)
qed

lemma killall_ok: "pm_ok pm \<Longrightarrow> pm_ok (killall signo pm)"
  using fold_groups_kill [of signo "\<lambda>g. concat (take BUCKET_SIZE (pg_buckets g))" "pm_groups pm" pm]
  by (auto simp: killall_def pm_ok_def dest: views_groups)

lemma set_commu_ok:
  assumes "pm_ok pm" "\<forall>m\<in>set q. client_ok m"
  shows "\<exists>pm'. pm_set_commu q pm = Some pm' \<and> pm_ok pm'"
proof -
  have "pm_ok (pm\<lparr>pm_mq := q\<rparr>)" using assms by (auto simp: pm_ok_def views_def clients_def)
  then show ?thesis using do_recv_known [of "pm\<lparr>pm_mq := q\<rparr>" 0] by (auto simp: pm_set_commu_def)
qed

text \<open>A client reads the orders of its process in their order.\<close>

definition orders_for :: "int \<Rightarrow> mon_msg list \<Rightarrow> int list" where
  "orders_for p q = concat (map (\<lambda>m. case m of ServerMsg t e \<Rightarrow> if t = p then [pe_cmd e] else [] | ClientMsg t i \<Rightarrow> []) q)"

fun order_ok :: "int \<Rightarrow> int \<Rightarrow> mon_msg \<Rightarrow> bool" where
  "order_ok g p (ServerMsg t e) \<longleftrightarrow> t = p \<longrightarrow> pe_groupid e = g"
| "order_ok g p (ClientMsg t i) \<longleftrightarrow> t \<noteq> p"

lemma orders_for_skip: "\<forall>x\<in>set xs. \<not> chosen p x \<Longrightarrow> orders_for p (xs @ ys) = orders_for p ys"
  by (auto simp: orders_for_def chosen_def split: mon_msg.splits)

lemma cli_recv_orders:
  assumes "0 < pi_procid (pc_info c)" "\<forall>m\<in>set q. order_ok (pi_groupid (pc_info c)) (pi_procid (pc_info c)) m"
    "length (filter (chosen (pi_procid (pc_info c))) q) < fuel" "pc_notify c"
  shows "cli_recv fuel c q =
     Some (c\<lparr>pc_cmds := pc_cmds c @ orders_for (pi_procid (pc_info c)) q\<rparr>, filter (\<lambda>m. \<not> chosen (pi_procid (pc_info c)) m) q)"
  using assms
proof (induction fuel arbitrary: c q)
  case (Suc fuel)
  let ?p = "pi_procid (pc_info c)"
  have p: "0 \<le> ?p" "?p \<noteq> 0" using Suc.prems(1) by auto
  show ?case
  proof (cases "mq_pick ?p q")
    case None
    then have n: "\<forall>m\<in>set q. \<not> chosen ?p m" using mq_pick_None [OF p(1)] by simp
    then have "orders_for ?p q = []" using orders_for_skip [OF n, of "[]"] by (simp add: orders_for_def)
    then show ?thesis using None n by (simp add: filter_id_conv)
  next
    case (Some r)
    then obtain m q' where r: "mq_pick ?p q = Some (m, q')" by (cases r) auto
    obtain xs ys where q: "q = xs @ m # ys" "q' = xs @ ys" "chosen ?p m" "\<forall>x\<in>set xs. \<not> chosen ?p x"
      using mq_pick_Some [OF p(1) r] by auto
    have "order_ok (pi_groupid (pc_info c)) ?p m" using Suc.prems(2) q by simp
    then obtain e where m: "m = ServerMsg ?p e" "pe_groupid e = pi_groupid (pc_info c)"
      using q(3) p by (cases m) (auto simp: chosen_def)
    have o: "orders_for ?p q = pe_cmd e # orders_for ?p q'"
      unfolding q(1,2) orders_for_skip [OF q(4)] m(1) by (simp add: orders_for_def)
    show ?thesis
      using Suc.IH [of "c\<lparr>pc_cmds := pc_cmds c @ [pe_cmd e]\<rparr>" q'] Suc.prems q m r o by simp
  qed
qed simp

section \<open>Properties\<close>

lemma all_less_ten: "(\<forall>j<10. P j) \<longleftrightarrow> P 0 \<and> P 1 \<and> P 2 \<and> P 3 \<and> P 4 \<and> P 5 \<and> P 6 \<and> P 7 \<and> P 8 \<and> P (9::nat)"
  by (simp add: eval_nat_numeral all_Suc_less)

definition demo_conf :: group_info where
  "demo_conf = \<lparr>gi_groupid = 0, gi_adjust = 0, gi_basepath = ''./'', gi_exefile = ''worker'', gi_etcfile = ''w.xml'', gi_flag = ''f'',
     gi_exitsignal = 9, gi_maxproc = 2, gi_minproc = 1, gi_heartbeat = 60, gi_maxwater = 50, gi_minsrate = 0, gi_maxdelay = 0,
     gi_maxmem = 0\<rparr>"

definition demo_info :: "int \<Rightarrow> int \<Rightarrow> nat \<Rightarrow> proc_info" where
  "demo_info p t w = \<lparr>pi_groupid = 0, pi_procid = p, pi_timestamp = t, pi_watermark = w, pi_srate = 0, pi_delay = 0, pi_memused = 0,
     pi_curconn = 1\<rparr>"

definition demo_obj :: "int \<Rightarrow> int \<Rightarrow> nat \<Rightarrow> proc_obj" where
  "demo_obj p t w = \<lparr>po_info = demo_info p t w, po_status = 0, po_notifytime = 0\<rparr>"

text \<open>One group of three processes; process 21 does not exist any more.\<close>

definition demo_mon :: "nat \<Rightarrow> procmon" where
  "demo_mon n = \<lparr>pm_interval = 10,
     pm_groups = [\<lparr>pg_info = demo_conf\<lparr>gi_maxproc := n\<rparr>,
       pg_buckets = [[], [demo_obj 11 990 70, demo_obj 21 900 0], [demo_obj 12 990 0], [], [], [], [], [], [], []],
       pg_curproc = 3, pg_errproc = 0, pg_lastcheck = 0\<rparr>],
     pm_notify = False, pm_mq = [], pm_sends = (\<lambda>_. True), pm_nsend = 0, pm_now = 1000, pm_gone = (\<lambda>p. p = 21), pm_out = []\<rparr>"

lemmas event_defs = EV_PROCDEAD_def EV_OVERLOAD_def EV_LOWSRATE_def EV_LATENCY_def EV_OTFMEM_def BUCKET_SIZE_def
  PROCMON_CMD_LOAD_def

lemmas demo_defs = demo_mon_def demo_conf_def demo_obj_def demo_info_def

lemma demo_mon_ok: "pm_ok (demo_mon n)"
  by (simp add: pm_ok_def views_def clients_def gview_def bucket_ok_def demo_defs all_less_ten)

lemma demo_mon_procs: "procs (demo_mon n) 0 = [demo_info 11 990 70, demo_info 21 900 0, demo_info 12 990 0]"
  by (simp add: procs_def views_def gview_def demo_mon_def demo_obj_def)

lemma demo_mon_group: "0 < length (pm_groups (demo_mon n))"
  by (simp add: demo_mon_def)

text \<open>
  C10: Every operation of the monitor keeps its table well-formed: in a group with its own
  number and ten buckets, each process stands once, in the bucket of its number modulo ten,
  under its own group, and the count of the group is the number of its processes.  The
  receiving operations and the round of checks end and return.
\<close>

theorem monitor_well_formed:
  assumes "pm_ok pm"
  shows "(\<forall>gi pm'. add_group gi pm = Some pm' \<longrightarrow> pm_ok pm') \<and>
    (\<forall>g gi pm'. mod_group g gi pm = Some pm' \<longrightarrow> pm_ok pm') \<and>
    (\<forall>q. (\<forall>m\<in>set q. client_ok m) \<longrightarrow> (\<exists>pm'. pm_set_commu q pm = Some pm' \<and> pm_ok pm')) \<and>
    (\<exists>pm'. pm_run pm = Some pm' \<and> pm_ok pm') \<and> (\<forall>signo. pm_ok (killall signo pm))"
  using assms add_group_ok mod_group_ok set_commu_ok killall_ok pm_run_spec [OF assms] by blast

theorem monitor_well_formed_witness:
  "\<exists>pm'. pm_run (demo_mon 3) = Some pm' \<and> pm_ok pm'"
  using monitor_well_formed [OF demo_mon_ok [of 3]] by blast

text \<open>
  C3: After a round the table of the monitor holds no dead process, and each process that was
  known, or whose information was waiting, is in the table with its last information or was
  sent a signal in this round.
\<close>

theorem monitor_round:
  assumes "pm_ok pm"
    and "k = fold (noted (int (length (pm_groups pm)))) (filter (chosen MSG_ID_SERVER) (pm_mq pm)) (known pm)"
  shows "\<exists>pm'. pm_run pm = Some pm' \<and>
    (\<forall>i<length (pm_groups pm). \<forall>p\<in>set (procs pm' i). \<not> dead_in pm' i p) \<and>
    (\<forall>g p x. known pm' (g, p) = Some x \<longrightarrow> k (g, p) = Some x) \<and>
    (\<forall>g p x. k (g, p) = Some x \<longrightarrow> known pm' (g, p) = Some x \<or> signalled pm pm' x)"
proof -
  obtain pm1 pm' where r: "pm_run pm = Some pm'" "pm_ok pm1" "pm_ok pm'" "known pm1 = k"
      "length (pm_groups pm1) = length (pm_groups pm)" "length (pm_groups pm') = length (pm_groups pm)"
      "\<And>k. set (procs pm' k) \<subseteq> set (procs pm1 k)"
      "\<And>k p. p \<in> set (procs pm1 k) \<Longrightarrow> p \<in> set (procs pm' k) \<or> signalled pm1 pm' p"
      "\<exists>es es'. pm_out pm1 = pm_out pm @ es \<and> pm_out pm' = pm_out pm1 @ es'"
      "\<forall>k<length (pm_groups pm). \<forall>p\<in>set (procs pm' k). \<not> dead_in pm' k p"
    using pm_run_spec [OF assms(1)] assms(2) by metis
  note k1 = known_Some [OF r(2), unfolded r(4,5)] and k2 = known_Some [OF r(3), unfolded r(6)]
  have "known pm' (g, p) = Some x \<Longrightarrow> k (g, p) = Some x" for g p x
    unfolding k1 k2 using r(7) by blast
  moreover have "k (g, p) = Some x \<Longrightarrow> known pm' (g, p) = Some x \<or> signalled pm pm' x" for g p x
    unfolding k1 k2 using r(8) [of x "nat g"] r(9) signalled_later(2) by blast
  ultimately show ?thesis using r(1,10) by blast
qed

theorem monitor_round_witness:
  "\<exists>pm'. pm_run (demo_mon 3) = Some pm' \<and> (\<forall>p\<in>set (procs pm' 0). \<not> dead_in pm' 0 p)"
  using monitor_round [OF demo_mon_ok [of 3] refl] by (auto simp: demo_mon_def)

text \<open>
  C11: The check of a group keeps the number of its processes within the configured bounds: a
  group with too many is sent the signal to stop for exactly the processes above the maximum,
  the first ones in the table; one with too few starts exactly the missing ones; and one that
  has been idle gives up a single process.  Counting those just started, the group then has
  between its minimum and its maximum.
\<close>

theorem monitor_group_bounds:
  assumes "pm_ok pm" "i < length (pm_groups pm)"
  shows "\<exists>pm'. check_group i pm = Some pm' \<and> pm_ok pm' \<and> procs pm' i = drop (surplus pm i) (procs pm i) \<and>
    filter is_kill (new_effects pm pm') = map (\<lambda>p. PmKill (pi_procid p) SIGUSR1) (take (surplus pm i) (procs pm i)) \<and>
    filter (is_fork (int i)) (new_effects pm pm') = replicate (missing pm i) (fork_of (pg_info (pm_groups pm ! i))) \<and>
    (let n = int (length (procs pm' i)) + int (missing pm i);
         lo = s32_of_nat (gi_minproc (conf pm i)); hi = s32_of_nat (gi_maxproc (conf pm i))
     in 0 \<le> lo \<and> lo \<le> hi \<longrightarrow> lo \<le> n \<and> n \<le> hi)"
proof -
  obtain pm' where r: "check_group i pm = Some pm'" "reap i SIGUSR1 (take (surplus pm i) (procs pm i)) 0 pm pm'"
      "filter (is_fork (int i)) (new_effects pm pm') = replicate (missing pm i) (fork_of (pg_info (pm_groups pm ! i)))"
    using check_group_spec [OF assms] by blast
  note ok = reap_ok [OF assms r(2)]
  have "let n = int (length (procs pm' i)) + int (missing pm i);
         lo = s32_of_nat (gi_minproc (conf pm i)); hi = s32_of_nat (gi_maxproc (conf pm i))
     in 0 \<le> lo \<and> lo \<le> hi \<longrightarrow> lo \<le> n \<and> n \<le> hi"
    unfolding ok(2) by (auto simp: surplus_def missing_def Let_def)
  then show ?thesis using r ok reap_kills(1) [OF r(2)] by blast
qed

theorem monitor_group_bounds_witness:
  "\<exists>pm'. check_group 0 (demo_mon 2) = Some pm' \<and> map pi_procid (procs pm' 0) = [21, 12] \<and>
    filter is_kill (new_effects (demo_mon 2) pm') = [PmKill 11 SIGUSR1]"
proof -
  have "surplus (demo_mon 2) 0 = 1"
    by (simp add: surplus_def demo_mon_procs conf_def) (simp add: demo_defs s32_of_nat_def)
  then show ?thesis
    using monitor_group_bounds [of "demo_mon 2" 0, OF demo_mon_ok demo_mon_group]
    by (auto simp: demo_mon_procs demo_info_def)
qed

text \<open>
  C12: The check of the processes of a group takes away exactly the dead ones: those that have
  not reported for the time of the heartbeat and do not exist any more.  Each is sent the exit
  signal of the group once, none of the others is sent a signal, the errors of the group are
  counted, and at least one process is started for each.
\<close>

theorem monitor_dead_replaced:
  assumes "pm_ok pm" "i < length (pm_groups pm)"
  shows "\<exists>pm' D. check_buckets i [0..<BUCKET_SIZE] pm = Some pm' \<and> pm_ok pm' \<and>
    distinct D \<and> set D = {p \<in> set (procs pm i). dead_in pm i p} \<and>
    procs pm' i = filter (\<lambda>p. \<not> dead_in pm i p) (procs pm i) \<and>
    filter is_kill (new_effects pm pm') = map (\<lambda>p. PmKill (pi_procid p) (gi_exitsignal (conf pm i))) D \<and>
    length D \<le> length (filter (is_fork (int i)) (new_effects pm pm')) \<and>
    pg_errproc (pm_groups pm' ! i) = pg_errproc (pm_groups pm ! i) + int (length D) \<and>
    (\<forall>k. k \<noteq> i \<longrightarrow> procs pm' k = procs pm k)"
proof -
  obtain D pm' where r: "check_buckets i [0..<BUCKET_SIZE] pm = Some pm'" "distinct D"
      "set D = {p \<in> set (procs pm i). dead_in pm i p}" "reap i (gi_exitsignal (conf pm i)) D (length D) pm pm'"
    using check_buckets_all [OF assms] by (auto simp: dead_list_def)
  have "pm_ok pm'" using r(3) by (intro pm_ok_reap [OF assms r(4,2)]) auto
  moreover have "procs pm' i = filter (\<lambda>p. \<not> dead_in pm i p) (procs pm i)"
    using r(3) unfolding reap_procs [OF r(4) assms(2)] by (auto intro: filter_cong)
  moreover have "pg_errproc (pm_groups pm' ! i) = pg_errproc (pm_groups pm ! i) + int (length D)"
    using r(4) assms(2) reap_groups [OF r(4)] views_nth [of i pm'] by (simp add: reap_def views_nth gview_def)
  ultimately show ?thesis using r reap_kills(1,2) [OF r(4)] reap_procs_other [OF r(4)] by blast
qed

theorem monitor_dead_replaced_witness:
  "\<exists>pm'. check_buckets 0 [0..<BUCKET_SIZE] (demo_mon 3) = Some pm' \<and>
    procs pm' 0 = [demo_info 11 990 70, demo_info 12 990 0]"
proof -
  have "dead_in (demo_mon 3) 0 (demo_info p t w) \<longleftrightarrow> p = 21 \<and> t < 940" for p t w
    by (auto simp: dead_in_def proc_dead_def demo_defs u32_of_int_def)
  then show ?thesis
    using monitor_dead_replaced [of "demo_mon 3" 0, OF demo_mon_ok demo_mon_group] by (auto simp: demo_mon_procs)
qed

text \<open>
  C13: A client and the monitor exchange what they have: a run of the client reads all the
  orders waiting for its process, in their order, and leaves the messages of the others; when
  its own message is accepted, the monitor then receives it, and the table holds the
  information of the client.
\<close>

theorem monitor_client_exchange:
  assumes "pm_ok pm" "pc_notify c" "1 < pi_procid (pc_info c)" "0 \<le> pi_groupid (pc_info c)"
    and "\<forall>m\<in>set (pm_mq pm). order_ok (pi_groupid (pc_info c)) (pi_procid (pc_info c)) m"
    and "pm_sends pm (pm_nsend pm)" "pi_groupid (pc_info c) < int (length (pm_groups pm))"
  shows "\<exists>c' pm1 pm2. cli_run c pm = Some (c', pm1) \<and>
    pc_cmds c' = pc_cmds c @ orders_for (pi_procid (pc_info c)) (pm_mq pm) \<and>
    pm_mq pm1 = filter (\<lambda>m. msg_type m \<noteq> pi_procid (pc_info c)) (pm_mq pm) @ [ClientMsg MSG_ID_SERVER (pc_info c)] \<and>
    do_recv MSG_ID_SERVER pm1 = Some pm2 \<and>
    known pm2 (pi_groupid (pc_info c), pi_procid (pc_info c)) = Some (pc_info c)"
proof -
  let ?p = "pi_procid (pc_info c)" and ?m = "ClientMsg MSG_ID_SERVER (pc_info c)"
  define q where "q = pm_mq pm @ [?m]"
  define pm1 where "pm1 = (mq_send ?m pm)\<lparr>pm_mq := filter (\<lambda>m. \<not> chosen ?p m) q\<rparr>"
  have m: "\<not> chosen ?p ?m" using assms(3) by (auto simp: chosen_def MSG_ID_SERVER_def)
  have f: "filter (\<lambda>m. \<not> chosen ?p m) q = filter (\<lambda>m. msg_type m \<noteq> ?p) (pm_mq pm) @ [?m]"
    using m assms(3) by (auto simp: q_def chosen_def intro!: filter_cong)
  have o: "orders_for ?p q = orders_for ?p (pm_mq pm)" by (simp add: q_def orders_for_def)
  have s: "pm_mq (mq_send ?m pm) = q" using assms(6) by (simp add: mq_send_def q_def Let_def)
  have "cli_recv (Suc (length q)) c q = Some (c\<lparr>pc_cmds := pc_cmds c @ orders_for ?p q\<rparr>, filter (\<lambda>m. \<not> chosen ?p m) q)"
    using assms(2,3,5) by (intro cli_recv_orders) (auto simp only: less_Suc_eq_le length_filter_le, auto simp: q_def MSG_ID_SERVER_def)
  then have r: "cli_run c pm = Some (c\<lparr>pc_cmds := pc_cmds c @ orders_for ?p (pm_mq pm)\<rparr>, pm1)"
    using o by (simp add: cli_run_def s pm1_def del: cli_recv.simps)
  have v: "views pm1 = views pm" by (simp add: pm1_def mq_send_def views_def Let_def)
  have g: "length (pm_groups pm1) = length (pm_groups pm)" by (rule views_groups [OF v])
  have q1: "pm_mq pm1 = filter (\<lambda>m. msg_type m \<noteq> ?p) (pm_mq pm) @ [?m]" by (simp add: pm1_def f)
  have "pm_ok pm1" using assms(1,3,4) by (auto simp: pm_ok_def v g q1 clients_def)
  then obtain pm2 where 2: "do_recv MSG_ID_SERVER pm1 = Some pm2"
      "known pm2 = fold (noted (int (length (pm_groups pm)))) (filter (chosen MSG_ID_SERVER) (pm_mq pm1)) (known pm1)"
    using do_recv_known [of pm1 MSG_ID_SERVER] g by auto
  have "known pm2 (pi_groupid (pc_info c), ?p) = Some (pc_info c)"
    unfolding 2(2) using assms(7) by (simp add: pm1_def f chosen_def [of MSG_ID_SERVER ?m])
  then show ?thesis using r 2(1) f by (auto simp: pm1_def)
qed

theorem monitor_client_exchange_witness:
  "\<exists>c' pm1. cli_run \<lparr>pc_info = demo_info 11 995 10, pc_notify = True, pc_cmds = []\<rparr> (order_load 0 1 0 1 (demo_mon 3)) = Some (c', pm1) \<and>
     pc_cmds c' = [PROCMON_CMD_LOAD]"
proof -
  let ?c = "\<lparr>pc_info = demo_info 11 995 10, pc_notify = True, pc_cmds = []\<rparr>" 
  define st where "st = order_load 0 1 0 1 (demo_mon 3)"
  have q: "pm_mq st = [ServerMsg 11 \<lparr>pe_groupid = 0, pe_procid = 11, pe_cmd = PROCMON_CMD_LOAD, pe_arg1 = 50, pe_arg2 = 0\<rparr>]"
      "pm_sends st (pm_nsend st)" "length (pm_groups st) = 1"
    unfolding st_def by (simp_all add: order_load_def do_order_def mq_send_def upd_proc_def upd_group_def upd_bucket_def get_proc_def Let_def
        demo_defs s32_of_nat_def)
  have ok: "pm_ok st" unfolding st_def by (rule pm_ok_soft [OF demo_mon_ok soft_order_load])
  have "\<exists>c' pm1 pm2. cli_run ?c st = Some (c', pm1) \<and>
      pc_cmds c' = pc_cmds ?c @ orders_for (pi_procid (pc_info ?c)) (pm_mq st) \<and>
      pm_mq pm1 = filter (\<lambda>m. msg_type m \<noteq> pi_procid (pc_info ?c)) (pm_mq st) @ [ClientMsg MSG_ID_SERVER (pc_info ?c)] \<and>
      do_recv MSG_ID_SERVER pm1 = Some pm2 \<and> known pm2 (pi_groupid (pc_info ?c), pi_procid (pc_info ?c)) = Some (pc_info ?c)"
    by (rule monitor_client_exchange [OF ok]) (simp_all add: q demo_info_def)
  then show ?thesis unfolding st_def [symmetric] by (auto simp: q orders_for_def demo_info_def)
qed

text \<open>
  A walk over a bucket starts again from its head when a dead process was taken off, and
  the processes before it are then checked a second time: an overloaded one is sent its order
  twice, and a process is started for it twice.  With three processes and a maximum of four
  one check then leaves two and starts three.
\<close>

theorem monitor_restart_repeats_orders:
  "case check_bucket (pm_fuel (demo_mon 4)) 0 1 (demo_mon 4) of None \<Rightarrow> False
   | Some pm' \<Rightarrow>
       map (\<lambda>m. case m of ServerMsg t e \<Rightarrow> (t, pe_cmd e) | ClientMsg t i \<Rightarrow> (t, 0)) (pm_mq pm')
         = [(11, PROCMON_CMD_LOAD), (11, PROCMON_CMD_LOAD)] \<and>
       length (procs pm' 0) = 2 \<and> length (filter (is_fork 0) (pm_out pm')) = 3"
  by (simp add: pm_fuel_def all_procs_def client_msgs_def demo_defs check_proc_def proc_events_def proc_dead_def
      proc_event_at_def order_load_def overload_fork_def dead_event_def do_order_def do_kill_def do_recv_def del_proc_def
      mq_send_def mq_pick_def upd_proc_def upd_group_def upd_bucket_def get_proc_def set_adjust_def put_effect_def
      bucket_of_def has_event_def procs_def views_def gview_def event_defs s32_of_nat_def u32_of_int_def extract_Nil_code
      extract_Cons_code)

end
