(* ===== verification/ChunkAlloc.thy ===== *)
theory ChunkAlloc
  imports Prelude LinkedList
begin

text \<open>
  The chunk allocator (\<open>CChunkAllocator\<close> in \<open>libcomm/include/ChunkAlloc.hpp\<close> and
  \<open>src/shmhash/ChunkAlloc.cpp\<close>): a pool of chunks of one size, linked into chains that hold a
  value each and a list of free ones.  A handle is the number of a chunk, \<open>-1\<close> is the invalid
  one, and the null pointer is its counterpart, so \<open>handler2ptr\<close> and \<open>ptr2handler\<close> are the
  identity; an access to a chunk that does not exist is \<open>None\<close>.
\<close>

section \<open>The pool\<close>

record chunk =
  ck_next :: int
  ck_data :: "byte list"

record chunks =
  ca_total :: int
  ca_size :: nat
  ca_free_total :: int
  ca_free :: int
  ca_nodes :: "chunk list"

definition INVALID_HDR :: int where "INVALID_HDR = -1"
definition CHUNK_ERROR_INVALID_PARAM :: int where "CHUNK_ERROR_INVALID_PARAM = -2"
definition CHUNK_ERROR_DATA_VERIFY_FAIL :: int where "CHUNK_ERROR_DATA_VERIFY_FAIL = -4"

definition chunk_at :: "chunks \<Rightarrow> int \<Rightarrow> chunk option" where
  "chunk_at a i = (if 0 \<le> i \<and> i < int (length (ca_nodes a)) then Some (ca_nodes a ! nat i) else None)"

definition upd_chunk :: "int \<Rightarrow> (chunk \<Rightarrow> chunk) \<Rightarrow> chunks \<Rightarrow> chunks option" where
  "upd_chunk i f a = do { c \<leftarrow> chunk_at a i; Some (a\<lparr>ca_nodes := (ca_nodes a)[nat i := f c]\<rparr>) }"

definition ca_free_list_insert :: "int \<Rightarrow> chunks \<Rightarrow> chunks option" where
  "ca_free_list_insert i a = do { a \<leftarrow> upd_chunk i (\<lambda>c. c\<lparr>ck_next := ca_free a\<rparr>) a; Some (a\<lparr>ca_free := i\<rparr>) }"

definition ca_free_list_remove :: "chunks \<Rightarrow> (int \<times> chunks) option" where
  "ca_free_list_remove a =
     (if ca_free a = INVALID_HDR then Some (INVALID_HDR, a)
      else do {
        let i = ca_free a;
        c \<leftarrow> chunk_at a i;
        a \<leftarrow> upd_chunk i (\<lambda>c. c\<lparr>ck_next := INVALID_HDR\<rparr>) (a\<lparr>ca_free := ck_next c\<rparr>);
        Some (i, a)
      })"

primrec ca_malloc_loop :: "nat \<Rightarrow> int \<Rightarrow> chunks \<Rightarrow> (int \<times> chunks) option" where
  "ca_malloc_loop 0 h a = Some (h, a)"
| "ca_malloc_loop (Suc n) h a = do {
     (i, a) \<leftarrow> ca_free_list_remove a;
     a \<leftarrow> upd_chunk i (\<lambda>c. c\<lparr>ck_next := h\<rparr>) a;
     ca_malloc_loop n i a
   }"

definition ca_malloc :: "nat \<Rightarrow> chunks \<Rightarrow> (int \<times> chunks) option" where
  "ca_malloc n a =
     (if ca_free_total a < int n then Some (INVALID_HDR, a)
      else do { (h, a) \<leftarrow> ca_malloc_loop n INVALID_HDR a; Some (h, a\<lparr>ca_free_total := ca_free_total a - int n\<rparr>) })"

text \<open>A chain has no more chunks than the pool; more steps than that mean a cycle: \<open>None\<close>.\<close>

fun ca_free_loop :: "nat \<Rightarrow> int \<Rightarrow> chunks \<Rightarrow> chunks option" where
  "ca_free_loop 0 h a = None"
| "ca_free_loop (Suc fuel) h a =
     (if h = INVALID_HDR then Some a
      else case chunk_at a h of None \<Rightarrow> None
           | Some c \<Rightarrow>
               (case ca_free_list_insert h a of None \<Rightarrow> None
                | Some a' \<Rightarrow> ca_free_loop fuel (ck_next c) (a'\<lparr>ca_free_total := ca_free_total a' + 1\<rparr>)))"

definition chain_fuel :: "chunks \<Rightarrow> nat" where
  "chain_fuel a = Suc (length (ca_nodes a))"

definition ca_free_chain :: "int \<Rightarrow> chunks \<Rightarrow> chunks option" where
  "ca_free_chain h a = ca_free_loop (chain_fuel a) h a"

definition get_chunk_num :: "chunks \<Rightarrow> nat \<Rightarrow> nat option" where
  "get_chunk_num a n = (if ca_size a = 0 then None else Some (n div ca_size a + (if n mod ca_size a \<noteq> 0 then 1 else 0)))"

text \<open>The bytes that \<open>merge\<close> puts into the buffer; \<open>n\<close> of them are wanted.\<close>

fun ca_merge_loop :: "nat \<Rightarrow> int \<Rightarrow> nat \<Rightarrow> chunks \<Rightarrow> byte list option" where
  "ca_merge_loop 0 h n a = None"
| "ca_merge_loop (Suc fuel) h n a =
     (if h = INVALID_HDR then Some []
      else case chunk_at a h of None \<Rightarrow> None
           | Some c \<Rightarrow>
               if n < ca_size a then memrd (ck_data c) 0 n
               else (case memrd (ck_data c) 0 (ca_size a) of None \<Rightarrow> None
                     | Some x \<Rightarrow> map_option (\<lambda>y. x @ y) (ca_merge_loop fuel (ck_next c) (n - ca_size a) a)))"

text \<open>The return code, the buffer and the length the caller gets.\<close>

definition ca_merge :: "int \<Rightarrow> nat \<Rightarrow> byte list \<Rightarrow> nat \<Rightarrow> chunks \<Rightarrow> (int \<times> byte list \<times> nat) option" where
  "ca_merge h n buf buf_len a =
     (if buf_len < n then Some (CHUNK_ERROR_INVALID_PARAM, buf, n)
      else do { x \<leftarrow> ca_merge_loop (chain_fuel a) h n a; buf \<leftarrow> memwr buf 0 x; Some (0, buf, n) })"

fun ca_split_loop :: "nat \<Rightarrow> int \<Rightarrow> byte list \<Rightarrow> chunks \<Rightarrow> chunks option" where
  "ca_split_loop 0 h x a = None"
| "ca_split_loop (Suc fuel) h x a =
     (if h = INVALID_HDR then Some a
      else case chunk_at a h of None \<Rightarrow> None
           | Some c \<Rightarrow>
               (case memwr (ck_data c) 0 (take (ca_size a) x) of None \<Rightarrow> None
                | Some d \<Rightarrow>
                    (case upd_chunk h (\<lambda>c. c\<lparr>ck_data := d\<rparr>) a of None \<Rightarrow> None
                     | Some a' \<Rightarrow> if length x < ca_size a then Some a'
                                  else ca_split_loop fuel (ck_next c) (drop (ca_size a) x) a')))"

definition ca_split :: "int \<Rightarrow> byte list \<Rightarrow> chunks \<Rightarrow> chunks option" where
  "ca_split h x a = ca_split_loop (chain_fuel a) h x a"

primrec ca_init_loop :: "nat \<Rightarrow> chunks \<Rightarrow> chunks option" where
  "ca_init_loop 0 a = Some a"
| "ca_init_loop (Suc n) a = do {
     a \<leftarrow> ca_init_loop n a;
     a \<leftarrow> upd_chunk (int n) (\<lambda>c. c\<lparr>ck_next := INVALID_HDR\<rparr>) a;
     ca_free_list_insert (int n) a
   }"

definition ca_init_pool_data :: "nat \<Rightarrow> nat \<Rightarrow> chunks \<Rightarrow> chunks option" where
  "ca_init_pool_data n sz a = do {
     a \<leftarrow> ca_init_loop n (a\<lparr>ca_free := INVALID_HDR\<rparr>);
     Some (a\<lparr>ca_total := int n, ca_size := sz, ca_free_total := int n\<rparr>)
   }"

fun ca_count_free :: "nat \<Rightarrow> int \<Rightarrow> chunks \<Rightarrow> int option" where
  "ca_count_free 0 h a = None"
| "ca_count_free (Suc fuel) h a =
     (if h = INVALID_HDR then Some 0
      else case chunk_at a h of None \<Rightarrow> None | Some c \<Rightarrow> map_option (\<lambda>n. n + 1) (ca_count_free fuel (ck_next c) a))"

definition ca_verify_pool_data :: "nat \<Rightarrow> nat \<Rightarrow> chunks \<Rightarrow> int option" where
  "ca_verify_pool_data n sz a =
     (if ca_size a \<noteq> sz \<or> ca_total a \<noteq> int n then Some CHUNK_ERROR_DATA_VERIFY_FAIL
      else do {
        free \<leftarrow> ca_count_free (chain_fuel a) (ca_free a) a;
        Some (if free \<noteq> ca_free_total a then CHUNK_ERROR_DATA_VERIFY_FAIL else 0)
      })"

definition ca_open :: "bool \<Rightarrow> nat \<Rightarrow> nat \<Rightarrow> chunks \<Rightarrow> (int \<times> chunks) option" where
  "ca_open init n sz a =
     (if init then do { a \<leftarrow> ca_init_pool_data n sz a; Some (0, a) }
      else do { ret \<leftarrow> ca_verify_pool_data n sz a; Some (ret, a) })"

definition get_used_chunk_num :: "chunks \<Rightarrow> int" where
  "get_used_chunk_num a = ca_total a - ca_free_total a"

definition get_free_chunk_num :: "chunks \<Rightarrow> int" where
  "get_free_chunk_num a = ca_free_total a"

text \<open>Sizes in bytes, on the packed structures.\<close>

definition get_chunk_size :: "nat \<Rightarrow> nat" where
  "get_chunk_size sz = 8 + sz"

definition ca_get_pool_size :: "nat \<Rightarrow> nat \<Rightarrow> nat" where
  "ca_get_pool_size n sz = 20 + n * get_chunk_size sz"

section \<open>The contract of a store of values\<close>

text \<open>
  What a client relies on: values under handles, each in as many chunks as its length needs.
  \<open>M\<close> gives the bytes of the chunks of each handle in use; an empty value has no handle.
\<close>

locale chunk_store =
  fixes rep :: "'a \<Rightarrow> (int \<Rightarrow> byte list option) \<Rightarrow> bool"
    and free_num :: "'a \<Rightarrow> int" and csize :: "'a \<Rightarrow> nat"
    and num :: "'a \<Rightarrow> nat \<Rightarrow> nat option"
    and alloc :: "nat \<Rightarrow> 'a \<Rightarrow> (int \<times> 'a) option"
    and split :: "int \<Rightarrow> byte list \<Rightarrow> 'a \<Rightarrow> 'a option"
    and merge :: "int \<Rightarrow> nat \<Rightarrow> byte list \<Rightarrow> nat \<Rightarrow> 'a \<Rightarrow> (int \<times> byte list \<times> nat) option"
    and release :: "int \<Rightarrow> 'a \<Rightarrow> 'a option"
  assumes csize_pos: "rep a M \<Longrightarrow> 0 < csize a"
    and null_free: "rep a M \<Longrightarrow> M (-1) = None"
    and num_law: "rep a M \<Longrightarrow> num a n = Some ((n + csize a - 1) div csize a)"
    and alloc_full: "rep a M \<Longrightarrow> free_num a < int n \<Longrightarrow> alloc n a = Some (-1, a)"
    and alloc_none: "rep a M \<Longrightarrow> alloc 0 a = Some (-1, a)"
    and alloc_law: "rep a M \<Longrightarrow> 0 < n \<Longrightarrow> int n \<le> free_num a \<Longrightarrow>
      \<exists>h a' x. alloc n a = Some (h, a') \<and> h \<noteq> -1 \<and> M h = None \<and> length x = n * csize a \<and> rep a' (M(h \<mapsto> x)) \<and>
        free_num a' = free_num a - int n \<and> csize a' = csize a"
    and split_law: "rep a M \<Longrightarrow> M h = Some y \<Longrightarrow> length x \<le> length y \<Longrightarrow>
      \<exists>a' y'. split h x a = Some a' \<and> rep a' (M(h \<mapsto> y')) \<and> length y' = length y \<and> take (length x) y' = x \<and>
        free_num a' = free_num a \<and> csize a' = csize a"
    and split_none: "rep a M \<Longrightarrow> split (-1) [] a = Some a"
    and merge_law: "rep a M \<Longrightarrow> (if h = -1 then n = 0 else M h = Some y \<and> n \<le> length y) \<Longrightarrow> n \<le> len \<Longrightarrow> len \<le> length buf \<Longrightarrow>
      merge h n buf len a = Some (0, (if h = -1 then [] else take n y) @ drop n buf, n)"
    and merge_short: "len < n \<Longrightarrow> merge h n buf len a = Some (-2, buf, n)"
    and release_law: "rep a M \<Longrightarrow> M h = Some y \<Longrightarrow>
      \<exists>a'. release h a = Some a' \<and> rep a' (M(h := None)) \<and>
        free_num a' = free_num a + int (length y div csize a) \<and> csize a' = csize a"
    and release_none: "rep a M \<Longrightarrow> release (-1) a = Some a"
    and free_num_nonneg: "rep a M \<Longrightarrow> 0 \<le> free_num a"
begin

text \<open>The chunks that \<open>x\<close> needs, and that handle \<open>h\<close> stands for the value \<open>x\<close>.\<close>

definition need :: "'a \<Rightarrow> byte list \<Rightarrow> nat" where
  "need a x = (length x + csize a - 1) div csize a"

definition holds :: "'a \<Rightarrow> (int \<Rightarrow> byte list option) \<Rightarrow> int \<Rightarrow> byte list \<Rightarrow> bool" where
  "holds a M h x \<longleftrightarrow> (if h = -1 then x = [] else \<exists>y. M h = Some y \<and> length y = need a x * csize a \<and> take (length x) y = x)"

lemma need_pos: "rep a M \<Longrightarrow> 0 < need a x \<longleftrightarrow> x \<noteq> []"
  using csize_pos [of a M] by (cases x) (auto simp: need_def div_greater_zero_iff)

lemma need_enough: "rep a M \<Longrightarrow> length x \<le> need a x * csize a"
  using csize_pos [of a M] div_mult_mod_eq [of "length x + csize a - 1" "csize a"]
    mod_less_divisor [of "csize a" "length x + csize a - 1"]
  unfolding need_def by linarith

lemma holds_need_0: "rep a M \<Longrightarrow> need a x = 0 \<Longrightarrow> x = []"
  using need_pos [of a M x] by simp

text \<open>Putting a value into the store.\<close>

lemma store_value:
  assumes r: "rep a M" and x: "x \<noteq> []" and f: "int (need a x) \<le> free_num a"
  shows "\<exists>h a1 a' y. alloc (need a x) a = Some (h, a1) \<and> split h x a1 = Some a' \<and> h \<noteq> -1 \<and> M h = None \<and>
    rep a' (M(h \<mapsto> y)) \<and> holds a' (M(h \<mapsto> y)) h x \<and> free_num a' = free_num a - int (need a x) \<and> csize a' = csize a"
proof -
  have "0 < need a x" using need_pos [OF r] x by simp
  from alloc_law [OF r this f] obtain h a1 y1 where 1: "alloc (need a x) a = Some (h, a1)" "h \<noteq> -1" "M h = None"
      "length y1 = need a x * csize a" "rep a1 (M(h \<mapsto> y1))" "free_num a1 = free_num a - int (need a x)" "csize a1 = csize a"
    by blast
  have "length x \<le> length y1" using need_enough [OF r] 1(4) by simp
  from split_law [OF 1(5) fun_upd_same this] obtain a' y where 2: "split h x a1 = Some a'" "rep a' (M(h \<mapsto> y1, h \<mapsto> y))"
      "length y = length y1" "take (length x) y = x" "free_num a' = free_num a1" "csize a' = csize a1"
    by blast
  have "holds a' (M(h \<mapsto> y)) h x" using 1 2 by (simp add: holds_def need_def)
  then show ?thesis using 1 2 by auto
qed

text \<open>Reading a value into a buffer.\<close>

lemma load_value:
  assumes "rep a M" "holds a M h x" "length x \<le> len" "len \<le> length buf"
  shows "merge h (length x) buf len a = Some (0, x @ drop (length x) buf, length x)"
proof (cases "h = -1")
  case True
  then show ?thesis using assms merge_law [of a M h "length x" "[]" len buf] by (simp add: holds_def)
next
  case False
  then obtain y where y: "M h = Some y" "length y = need a x * csize a" "take (length x) y = x"
    using assms(2) by (auto simp: holds_def)
  then have "length x \<le> length y" using need_enough [OF assms(1)] by simp
  then show ?thesis using assms y False merge_law [of a M h "length x" y len buf] by simp
qed

lemma release_value:
  assumes "rep a M" "holds a M h x"
  shows "\<exists>a'. release h a = Some a' \<and> rep a' (M(h := None)) \<and> free_num a' = free_num a + int (need a x) \<and> csize a' = csize a"
proof (cases "h = -1")
  case True
  then have "x = []" "M(h := None) = M" using assms null_free [OF assms(1)] by (simp_all add: holds_def fun_upd_idem)
  then show ?thesis using True release_none [OF assms(1)] assms(1) need_pos [OF assms(1), of x] by simp
next
  case False
  then obtain y where y: "M h = Some y" "length y = need a x * csize a"
    using assms(2) by (auto simp: holds_def)
  then show ?thesis using release_law [OF assms(1) y(1)] csize_pos [OF assms(1)] by simp
qed

lemma holds_other: "holds a M h x \<Longrightarrow> csize a' = csize a \<Longrightarrow> (h \<noteq> -1 \<Longrightarrow> M' h = M h) \<Longrightarrow> holds a' M' h x"
  by (auto simp: holds_def need_def)

text \<open>A value is written anew in chunks of its own, or over the old one when it takes as many.\<close>

definition moved :: "(int \<Rightarrow> byte list option) \<Rightarrow> int \<Rightarrow> (int \<Rightarrow> byte list option) \<Rightarrow> int \<Rightarrow> bool" where
  "moved M h M' h' \<longleftrightarrow> (\<forall>j. j \<noteq> h \<longrightarrow> j \<noteq> h' \<longrightarrow> M' j = M j) \<and> (h' = h \<or> h' = -1 \<or> M h' = None) \<and> dom M' \<subseteq> insert h' (dom M - {h})"

lemma replace_value:
  assumes r: "rep a M" and old: "holds a M h x" and f: "int (need a y) \<le> free_num a + int (need a x)"
  shows "\<exists>a1 h' a2 a' M'. release h a = Some a1 \<and> alloc (need a y) a1 = Some (h', a2) \<and> split h' y a2 = Some a' \<and>
    rep a' M' \<and> holds a' M' h' y \<and> moved M h M' h' \<and> free_num a' = free_num a + int (need a x) - int (need a y) \<and> csize a' = csize a"
proof -
  obtain a1 where 1: "release h a = Some a1" "rep a1 (M(h := None))" "free_num a1 = free_num a + int (need a x)" "csize a1 = csize a"
    using release_value [OF r old] by blast
  have n: "need a1 y = need a y" using 1(4) by (simp add: need_def)
  show ?thesis
  proof (cases "y = []")
    case True
    then have "need a y = 0" using need_pos [OF r, of y] by simp
    moreover have "holds a1 (M(h := None)) (-1) y" using True by (simp add: holds_def)
    moreover have "moved M h (M(h := None)) (-1)" by (auto simp: moved_def)
    ultimately show ?thesis using 1 True alloc_none [OF 1(2)] split_none [OF 1(2)]
      by (intro exI [of _ a1] exI [of _ "-1"] exI [of _ "M(h := None)"]) simp
  next
    case False
    obtain h' a2 a' z where 2: "alloc (need a y) a1 = Some (h', a2)" "split h' y a2 = Some a'" "(M(h := None)) h' = None"
        "rep a' (M(h := None, h' \<mapsto> z))" "holds a' (M(h := None, h' \<mapsto> z)) h' y" "free_num a' = free_num a1 - int (need a y)"
        "csize a' = csize a1"
      using store_value [OF 1(2) False] f 1(3) n by auto
    have "moved M h (M(h := None, h' \<mapsto> z)) h'" using 2(3) by (auto simp: moved_def split: if_splits)
    then show ?thesis using 1 2
      by (intro exI [of _ a1] exI [of _ h'] exI [of _ a2] exI [of _ a'] exI [of _ "M(h := None, h' \<mapsto> z)"]) simp
  qed
qed

lemma rewrite_value:
  assumes r: "rep a M" and old: "holds a M h x" and n: "need a y = need a x"
  shows "\<exists>a' M'. split h y a = Some a' \<and> rep a' M' \<and> holds a' M' h y \<and> moved M h M' h \<and> free_num a' = free_num a \<and> csize a' = csize a"
proof (cases "h = -1")
  case True
  then have "y = []" using old n need_pos [OF r, of x] need_pos [OF r, of y] by (simp add: holds_def)
  moreover have "moved M h M h" by (auto simp: moved_def)
  ultimately show ?thesis using True r split_none [OF r] by (intro exI conjI) (auto simp: holds_def)
next
  case False
  then obtain z where z: "M h = Some z" "length z = need a y * csize a" using old n by (auto simp: holds_def)
  then have "length y \<le> length z" using need_enough [OF r, of y] by simp
  from split_law [OF r z(1) this] obtain a' z' where 1: "split h y a = Some a'" "rep a' (M(h \<mapsto> z'))" "length z' = length z"
      "take (length y) z' = y" "free_num a' = free_num a" "csize a' = csize a"
    by blast
  have "holds a' (M(h \<mapsto> z')) h y" using 1 z False by (simp add: holds_def need_def)
  moreover have "moved M h (M(h \<mapsto> z')) h" by (auto simp: moved_def)
  ultimately show ?thesis using 1 by blast
qed

end

end
