(* ===== verification/ChunkStore.thy ===== *)
theory ChunkStore
  imports ChunkAlloc
begin

text \<open>
  The chunk allocator is a store of values: the chains of its pool and the list of free chunks
  are disjoint lists, and each operation works on whole lists.
\<close>

section \<open>Chains\<close>

definition nx :: "chunks \<Rightarrow> int \<Rightarrow> int" where
  "nx a i = ck_next (ca_nodes a ! nat i)"

definition dat :: "chunks \<Rightarrow> int \<Rightarrow> byte list" where
  "dat a i = ck_data (ca_nodes a ! nat i)"

definition in_pool :: "chunks \<Rightarrow> int \<Rightarrow> bool" where
  "in_pool a i \<longleftrightarrow> 0 \<le> i \<and> i < int (length (ca_nodes a))"

definition chain_ok :: "chunks \<Rightarrow> int list \<Rightarrow> bool" where
  "chain_ok a xs \<longleftrightarrow> sseg (nx a) xs \<and> distinct xs \<and> (\<forall>i\<in>set xs. in_pool a i)"

text \<open>The pool \<open>a'\<close> differs from \<open>a\<close> in the links of \<open>S\<close> and the data of \<open>D\<close> at most.\<close>

definition same_pool :: "int set \<Rightarrow> int set \<Rightarrow> chunks \<Rightarrow> chunks \<Rightarrow> bool" where
  "same_pool S D a a' \<longleftrightarrow> length (ca_nodes a') = length (ca_nodes a) \<and> ca_size a' = ca_size a \<and> ca_total a' = ca_total a \<and>
     (\<forall>i\<ge>0. (i \<notin> S \<longrightarrow> nx a' i = nx a i) \<and> (i \<notin> D \<longrightarrow> dat a' i = dat a i))"

lemma same_pool_refl [simp]: "same_pool S D a a"
  by (simp add: same_pool_def)

lemma same_pool_trans: "same_pool S D a b \<Longrightarrow> same_pool S' D' b c \<Longrightarrow> S \<subseteq> T \<Longrightarrow> S' \<subseteq> T \<Longrightarrow> D \<subseteq> E \<Longrightarrow> D' \<subseteq> E \<Longrightarrow> same_pool T E a c"
  unfolding same_pool_def by (metis subset_eq)

lemma chain_ok_same:
  assumes "chain_ok a xs" "same_pool S D a a'" "set xs \<inter> S = {}"
  shows "chain_ok a' xs"
proof -
  have "i \<in> set xs \<Longrightarrow> nx a i = nx a' i" for i
    using assms unfolding chain_ok_def same_pool_def in_pool_def by (metis disjoint_iff)
  then have "sseg (nx a') xs" using assms(1) sseg_cong [of xs "nx a" "nx a'"] by (simp add: chain_ok_def)
  then show ?thesis using assms(1,2) by (simp add: chain_ok_def same_pool_def in_pool_def)
qed

lemma dat_same:
  assumes "chain_ok a xs" "same_pool S D a a'" "set xs \<inter> D = {}"
  shows "map (dat a') xs = map (dat a) xs"
  using assms by (auto simp: chain_ok_def same_pool_def in_pool_def)

lemma chain_ok_Cons:
  "chain_ok a (x # xs) \<longleftrightarrow> in_pool a x \<and> nx a x = first_of xs (-1) \<and> x \<notin> set xs \<and> chain_ok a xs"
  by (auto simp: chain_ok_def in_pool_def)

lemma chain_ok_Nil [simp]: "chain_ok a []"
  by (simp add: chain_ok_def)

lemma chain_ok_tail: "chain_ok a (xs @ ys) \<Longrightarrow> chain_ok a ys"
  by (auto simp: chain_ok_def dest: sseg_append)

lemma chain_not_null: "chain_ok a xs \<Longrightarrow> -1 \<notin> set xs"
  by (auto simp: chain_ok_def in_pool_def)

lemma chain_first: "chain_ok a xs \<Longrightarrow> first_of xs (-1) = -1 \<longleftrightarrow> xs = []"
  by (rule first_of_null [OF chain_not_null])

lemma chunk_chain_length: "chain_ok a xs \<Longrightarrow> length xs \<le> length (ca_nodes a)"
proof -
  assume c: "chain_ok a xs"
  have "set xs \<subseteq> {0..<int (length (ca_nodes a))}" using c by (auto simp: chain_ok_def in_pool_def)
  then have "card (set xs) \<le> card {0..<int (length (ca_nodes a))}" by (intro card_mono) simp_all
  then show ?thesis using c by (simp add: chain_ok_def distinct_card)
qed

section \<open>One chunk\<close>

lemma upd_chunk_in:
  assumes "in_pool a i"
  shows "\<exists>a'. upd_chunk i f a = Some a' \<and> ca_free a' = ca_free a \<and> ca_free_total a' = ca_free_total a \<and>
    ca_size a' = ca_size a \<and> ca_total a' = ca_total a \<and> length (ca_nodes a') = length (ca_nodes a) \<and>
    nx a' i = ck_next (f (ca_nodes a ! nat i)) \<and> dat a' i = ck_data (f (ca_nodes a ! nat i)) \<and>
    (\<forall>j\<ge>0. j \<noteq> i \<longrightarrow> nx a' j = nx a j \<and> dat a' j = dat a j)"
  using assms by (auto simp: upd_chunk_def chunk_at_def in_pool_def nx_def dat_def nth_list_update)

lemma upd_next:
  assumes "in_pool a i"
  shows "\<exists>a'. upd_chunk i (\<lambda>c. c\<lparr>ck_next := n\<rparr>) a = Some a' \<and> same_pool {i} {} a a' \<and> nx a' i = n \<and>
    ca_free a' = ca_free a \<and> ca_free_total a' = ca_free_total a"
proof -
  obtain a' where "upd_chunk i (\<lambda>c. c\<lparr>ck_next := n\<rparr>) a = Some a'" "ca_free a' = ca_free a" "ca_free_total a' = ca_free_total a"
    "ca_size a' = ca_size a" "ca_total a' = ca_total a" "length (ca_nodes a') = length (ca_nodes a)" "nx a' i = n"
    "dat a' i = dat a i" "\<forall>j\<ge>0. j \<noteq> i \<longrightarrow> nx a' j = nx a j \<and> dat a' j = dat a j"
    using upd_chunk_in [OF assms, of "\<lambda>c. c\<lparr>ck_next := n\<rparr>"] by (auto simp: dat_def)
  then show ?thesis by (intro exI [of _ a']) (auto simp: same_pool_def)
qed

lemma upd_data:
  assumes "in_pool a i"
  shows "\<exists>a'. upd_chunk i (\<lambda>c. c\<lparr>ck_data := d\<rparr>) a = Some a' \<and> same_pool {} {i} a a' \<and> dat a' i = d \<and>
    ca_free a' = ca_free a \<and> ca_free_total a' = ca_free_total a"
proof -
  obtain a' where "upd_chunk i (\<lambda>c. c\<lparr>ck_data := d\<rparr>) a = Some a'" "ca_free a' = ca_free a" "ca_free_total a' = ca_free_total a"
    "ca_size a' = ca_size a" "ca_total a' = ca_total a" "length (ca_nodes a') = length (ca_nodes a)" "nx a' i = nx a i"
    "dat a' i = d" "\<forall>j\<ge>0. j \<noteq> i \<longrightarrow> nx a' j = nx a j \<and> dat a' j = dat a j"
    using upd_chunk_in [OF assms, of "\<lambda>c. c\<lparr>ck_data := d\<rparr>"] by (auto simp: nx_def)
  then show ?thesis by (intro exI [of _ a']) (auto simp: same_pool_def)
qed

lemma chunk_at_in: "in_pool a i \<Longrightarrow> chunk_at a i = Some (ca_nodes a ! nat i)"
  by (simp add: chunk_at_def in_pool_def)

lemma in_pool_same: "same_pool S D a a' \<Longrightarrow> in_pool a' i = in_pool a i"
  by (simp add: same_pool_def in_pool_def)

lemma free_list_insert_spec:
  assumes "chain_ok a F" "ca_free a = first_of F (-1)" "in_pool a i" "i \<notin> set F"
  shows "\<exists>a'. ca_free_list_insert i a = Some a' \<and> same_pool {i} {} a a' \<and> chain_ok a' (i # F) \<and> ca_free a' = i \<and>
    ca_free_total a' = ca_free_total a"
proof -
  obtain a1 where 1: "upd_chunk i (\<lambda>c. c\<lparr>ck_next := ca_free a\<rparr>) a = Some a1" "same_pool {i} {} a a1" "nx a1 i = ca_free a"
      "ca_free_total a1 = ca_free_total a"
    using upd_next [OF assms(3)] by blast
  define a' where "a' = a1\<lparr>ca_free := i\<rparr>"
  have s: "same_pool {i} {} a a'" using 1(2) by (simp add: a'_def same_pool_def nx_def dat_def)
  have "chain_ok a' F" using chain_ok_same [OF assms(1) s] assms(4) by simp
  then have "chain_ok a' (i # F)" using 1 assms s by (simp add: chain_ok_Cons in_pool_same [OF s]) (simp add: a'_def nx_def)
  then show ?thesis using 1 s by (intro exI [of _ a']) (auto simp: ca_free_list_insert_def a'_def)
qed

lemma free_list_remove_spec:
  assumes "chain_ok a (i # F)" "ca_free a = i"
  shows "\<exists>a'. ca_free_list_remove a = Some (i, a') \<and> same_pool {i} {} a a' \<and> chain_ok a' F \<and> ca_free a' = first_of F (-1) \<and>
    ca_free_total a' = ca_free_total a"
proof -
  have i: "in_pool a i" "nx a i = first_of F (-1)" "i \<notin> set F" "chain_ok a F" using assms(1) by (simp_all add: chain_ok_Cons)
  let ?a = "a\<lparr>ca_free := nx a i\<rparr>"
  have "in_pool ?a i" using i(1) by (simp add: in_pool_def)
  from upd_next [OF this] obtain a' where 1: "upd_chunk i (\<lambda>c. c\<lparr>ck_next := INVALID_HDR\<rparr>) ?a = Some a'"
      "same_pool {i} {} ?a a'" "ca_free a' = nx a i" "ca_free_total a' = ca_free_total a"
    by auto
  have s: "same_pool {i} {} a a'" using 1(2) by (simp add: same_pool_def nx_def dat_def)
  have "chain_ok a' F" using chain_ok_same [OF i(4) s] i(3) by simp
  moreover have "ca_free_list_remove a = Some (i, a')"
    using 1(1) i(1) assms(2) by (auto simp: ca_free_list_remove_def chunk_at_in nx_def INVALID_HDR_def in_pool_def)
  ultimately show ?thesis using 1(3,4) s i(2) by auto
qed

lemma free_total_simps [simp]:
  "nx (a\<lparr>ca_free_total := n\<rparr>) = nx a" "dat (a\<lparr>ca_free_total := n\<rparr>) = dat a" "in_pool (a\<lparr>ca_free_total := n\<rparr>) = in_pool a"
  by (simp_all add: nx_def dat_def in_pool_def fun_eq_iff)

lemma chain_ok_free_total [simp]: "chain_ok (a\<lparr>ca_free_total := n\<rparr>) = chain_ok a"
  by (simp add: chain_ok_def fun_eq_iff)

section \<open>The loops\<close>

lemma malloc_loop_spec:
  assumes "chain_ok a F" "ca_free a = first_of F (-1)" "n \<le> length F" "chain_ok a C" "set C \<inter> set F = {}"
  shows "\<exists>a'. ca_malloc_loop n (first_of C (-1)) a = Some (first_of (rev (take n F) @ C) (-1), a') \<and>
    chain_ok a' (rev (take n F) @ C) \<and> chain_ok a' (drop n F) \<and> ca_free a' = first_of (drop n F) (-1) \<and>
    ca_free_total a' = ca_free_total a \<and> same_pool (set (take n F)) {} a a'"
  using assms
proof (induction n arbitrary: a F C)
  case (Suc n)
  obtain i F' where F: "F = i # F'" using Suc.prems(3) by (cases F) auto
  have f: "ca_free a = i" using Suc.prems(2) F by simp
  obtain a1 where 1: "ca_free_list_remove a = Some (i, a1)" "same_pool {i} {} a a1" "chain_ok a1 F'"
      "ca_free a1 = first_of F' (-1)" "ca_free_total a1 = ca_free_total a"
    using free_list_remove_spec [OF Suc.prems(1) [unfolded F] f] by blast
  have i: "in_pool a1 i" "i \<notin> set F'" "i \<notin> set C" using Suc.prems(1,5) in_pool_same [OF 1(2)] F by (auto simp: chain_ok_Cons)
  obtain a2 where 2: "upd_chunk i (\<lambda>c. c\<lparr>ck_next := first_of C (-1)\<rparr>) a1 = Some a2" "same_pool {i} {} a1 a2"
      "nx a2 i = first_of C (-1)" "ca_free a2 = ca_free a1" "ca_free_total a2 = ca_free_total a1"
    using upd_next [OF i(1)] by blast
  have s: "same_pool {i} {} a a2" by (rule same_pool_trans [OF 1(2) 2(2)]) auto
  have F2: "chain_ok a2 F'" using chain_ok_same [OF 1(3) 2(2)] i(2) by simp
  have C2: "chain_ok a2 (i # C)" using chain_ok_same [OF Suc.prems(4) s] i 2(3) in_pool_same [OF 2(2)] by (simp add: chain_ok_Cons)
  have p: "ca_free a2 = first_of F' (-1)" "n \<le> length F'" "set (i # C) \<inter> set F' = {}"
    using 2(4) 1(4) Suc.prems(3,5) i(2) F by auto
  from Suc.IH [OF F2 p(1,2) C2 p(3)] obtain a' where
    3: "ca_malloc_loop n i a2 = Some (first_of (rev (take n F') @ i # C) (-1), a')"
      "chain_ok a' (rev (take n F') @ i # C)" "chain_ok a' (drop n F')" "ca_free a' = first_of (drop n F') (-1)"
      "ca_free_total a' = ca_free_total a2" "same_pool (set (take n F')) {} a2 a'"
    by auto
  have "same_pool (set (take (Suc n) F)) {} a a'" by (rule same_pool_trans [OF s 3(6)]) (auto simp: F)
  then show ?case using 1(1,5) 2(1,5) 3 F by simp
qed simp

lemma free_loop_spec:
  assumes "chain_ok a C" "chain_ok a F" "set C \<inter> set F = {}" "ca_free a = first_of F (-1)" "length C < fuel"
  shows "\<exists>a'. ca_free_loop fuel (first_of C (-1)) a = Some a' \<and> chain_ok a' (rev C @ F) \<and> ca_free a' = first_of (rev C @ F) (-1) \<and>
    ca_free_total a' = ca_free_total a + int (length C) \<and> same_pool (set C) {} a a'"
  using assms
proof (induction C arbitrary: a F fuel)
  case Nil
  then show ?case by (cases fuel) (auto simp: INVALID_HDR_def)
next
  case (Cons c C)
  obtain k where k: "fuel = Suc k" using Cons.prems(5) by (cases fuel) auto
  have c: "in_pool a c" "nx a c = first_of C (-1)" "c \<notin> set C" "chain_ok a C" "c \<notin> set F" "c \<noteq> -1"
    using Cons.prems(1,3) by (auto simp: chain_ok_Cons in_pool_def)
  obtain a1 where 1: "ca_free_list_insert c a = Some a1" "same_pool {c} {} a a1" "chain_ok a1 (c # F)" "ca_free a1 = c"
      "ca_free_total a1 = ca_free_total a"
    using free_list_insert_spec [OF Cons.prems(2,4) c(1,5)] by blast
  let ?a = "a1\<lparr>ca_free_total := ca_free_total a1 + 1\<rparr>"
  have e: "nx ?a = nx a1" "dat ?a = dat a1" "ca_nodes ?a = ca_nodes a1" by (simp_all add: nx_def dat_def fun_eq_iff)
  have s: "same_pool {c} {} a ?a" using 1(2) by (simp add: same_pool_def e)
  have C1: "chain_ok ?a C" using chain_ok_same [OF c(4) s] c(3) by simp
  have F1: "chain_ok ?a (c # F)" using 1(3) by (simp add: chain_ok_def e in_pool_def)
  have p: "set C \<inter> set (c # F) = {}" "ca_free ?a = first_of (c # F) (-1)" "length C < k"
    using Cons.prems(3,5) c(3) 1(4) k by auto
  from Cons.IH [OF C1 F1 p] obtain a' where 2: "ca_free_loop k (first_of C (-1)) ?a = Some a'" "chain_ok a' (rev C @ c # F)"
      "ca_free a' = first_of (rev C @ c # F) (-1)" "ca_free_total a' = ca_free_total ?a + int (length C)" "same_pool (set C) {} ?a a'"
    by blast
  have "same_pool (set (c # C)) {} a a'" by (rule same_pool_trans [OF s 2(5)]) auto
  then show ?case using 1(1,5) 2 c k by (simp add: INVALID_HDR_def chunk_at_in nx_def)
qed

lemma split_loop_spec:
  assumes "chain_ok a C" "length x \<le> length C * ca_size a" "\<forall>i\<in>set C. length (dat a i) = ca_size a" "length C < fuel" "0 < ca_size a"
  shows "\<exists>a'. ca_split_loop fuel (first_of C (-1)) x a = Some a' \<and> same_pool {} (set C) a a' \<and> ca_free a' = ca_free a \<and>
    ca_free_total a' = ca_free_total a \<and> (\<forall>i\<in>set C. length (dat a' i) = ca_size a) \<and>
    take (length x) (concat (map (dat a') C)) = x"
  using assms
proof (induction C arbitrary: a x fuel)
  case Nil
  then show ?case by (cases fuel) (auto simp: INVALID_HDR_def)
next
  case (Cons c C)
  obtain k where k: "fuel = Suc k" using Cons.prems(4) by (cases fuel) auto
  have c: "in_pool a c" "nx a c = first_of C (-1)" "c \<notin> set C" "chain_ok a C" "c \<noteq> -1"
    using Cons.prems(1) by (auto simp: chain_ok_Cons in_pool_def)
  let ?n = "ca_size a"
  have l: "length (dat a c) = ?n" using Cons.prems(3) by simp
  define d where "d = overlay (dat a c) 0 (take ?n x)"
  have ld: "length d = ?n" using l by (simp add: d_def)
  have w: "memwr (ck_data (ca_nodes a ! nat c)) 0 (take ?n x) = Some d" using l by (simp add: d_def dat_def mem_simps)
  obtain a1 where 1: "upd_chunk c (\<lambda>c. c\<lparr>ck_data := d\<rparr>) a = Some a1" "same_pool {} {c} a a1" "dat a1 c = d"
      "ca_free a1 = ca_free a" "ca_free_total a1 = ca_free_total a"
    using upd_data [OF c(1)] by blast
  have C1: "map (dat a1) C = map (dat a) C" using dat_same [OF c(4) 1(2)] c(3) by simp
  have td: "take (min (length x) ?n) d = take ?n x" using l by (simp add: d_def overlay_def min_def)
  have step: "ca_split_loop fuel (first_of (c # C) (-1)) x a =
      (if length x < ?n then Some a1 else ca_split_loop k (first_of C (-1)) (drop ?n x) a1)"
    using c(1,2,5) w 1(1) k by (simp add: INVALID_HDR_def chunk_at_in nx_def)
  show ?case
  proof (cases "length x < ?n")
    case True
    have "\<forall>i\<in>set (c # C). length (dat a1 i) = ?n" using C1 Cons.prems(3) 1(3) ld by auto
    moreover have "same_pool {} (set (c # C)) a a1" by (rule same_pool_trans [OF 1(2) same_pool_refl]) auto
    moreover have "take (length x) (concat (map (dat a1) (c # C))) = x" using td True ld 1(3) by simp
    ultimately show ?thesis using step True 1(4,5) by simp
  next
    case False
    have p: "chain_ok a1 C" "ca_size a1 = ?n" using chain_ok_same [OF c(4) 1(2)] 1(2) by (simp_all add: same_pool_def)
    have q: "\<forall>i\<in>set C. length (dat a1 i) = ?n" using C1 Cons.prems(3) by auto
    have "length (drop ?n x) \<le> length C * ca_size a1" "length C < k" using Cons.prems(2,4) p(2) k by auto
    from Cons.IH [OF p(1) this(1) _ this(2)] q p(2) Cons.prems(5) obtain a' where
      2: "ca_split_loop k (first_of C (-1)) (drop ?n x) a1 = Some a'" "same_pool {} (set C) a1 a'" "ca_free a' = ca_free a1"
        "ca_free_total a' = ca_free_total a1" "\<forall>i\<in>set C. length (dat a' i) = ?n"
        "take (length (drop ?n x)) (concat (map (dat a') C)) = drop ?n x"
      by auto
    have "dat a' c = d" using 2(2) 1(3) c(1,3) by (simp add: same_pool_def in_pool_def)
    moreover have "same_pool {} (set (c # C)) a a'" by (rule same_pool_trans [OF 1(2) 2(2)]) auto
    moreover have "take (length x) (d @ concat (map (dat a') C)) = take ?n x @ drop ?n x"
      using td ld False 2(6) by (simp add: take_append)
    ultimately show ?thesis using step False 1(4,5) 2 ld by simp
  qed
qed

lemma merge_loop_spec:
  assumes "chain_ok a C" "n \<le> length C * ca_size a" "\<forall>i\<in>set C. length (dat a i) = ca_size a" "length C < fuel" "0 < ca_size a"
  shows "ca_merge_loop fuel (first_of C (-1)) n a = Some (take n (concat (map (dat a) C)))"
  using assms
proof (induction C arbitrary: n fuel)
  case Nil
  then show ?case by (cases fuel) (auto simp: INVALID_HDR_def)
next
  case (Cons c C)
  obtain k where k: "fuel = Suc k" using Cons.prems(4) by (cases fuel) auto
  have c: "in_pool a c" "nx a c = first_of C (-1)" "chain_ok a C" "c \<noteq> -1" using Cons.prems(1) by (auto simp: chain_ok_Cons in_pool_def)
  let ?n = "ca_size a"
  have l: "length (dat a c) = ?n" using Cons.prems(3) by simp
  have step: "ca_merge_loop fuel (first_of (c # C) (-1)) n a =
      (if n < ?n then Some (take n (dat a c))
       else map_option (\<lambda>y. dat a c @ y) (ca_merge_loop k (first_of C (-1)) (n - ?n) a))"
    using c(1,2,4) k l by (simp add: INVALID_HDR_def chunk_at_in nx_def dat_def mem_simps slice_def)
  show ?case
  proof (cases "n < ?n")
    case True
    then show ?thesis using step l by simp
  next
    case False
    have "n - ?n \<le> length C * ?n" "length C < k" using Cons.prems(2,4) k by auto
    then have "ca_merge_loop k (first_of C (-1)) (n - ?n) a = Some (take (n - ?n) (concat (map (dat a) C)))"
      using Cons.IH [OF c(3)] Cons.prems(3,5) by simp
    then show ?thesis using step False l by simp
  qed
qed

section \<open>The store\<close>

definition chunks_at :: "chunks \<Rightarrow> (int \<Rightarrow> byte list option) \<Rightarrow> (int \<Rightarrow> int list) \<Rightarrow> int list \<Rightarrow> bool" where
  "chunks_at a M ch F \<longleftrightarrow> 0 < ca_size a \<and> (\<forall>i. in_pool a i \<longrightarrow> length (dat a i) = ca_size a) \<and>
     chain_ok a F \<and> ca_free a = first_of F (-1) \<and> ca_free_total a = int (length F) \<and>
     (\<forall>h y. M h = Some y \<longrightarrow> chain_ok a (ch h) \<and> first_of (ch h) (-1) = h \<and> ch h \<noteq> [] \<and>
        y = concat (map (dat a) (ch h)) \<and> set (ch h) \<inter> set F = {}) \<and>
     (\<forall>h\<in>dom M. \<forall>h'\<in>dom M. h \<noteq> h' \<longrightarrow> set (ch h) \<inter> set (ch h') = {})"

definition chunks_rep :: "chunks \<Rightarrow> (int \<Rightarrow> byte list option) \<Rightarrow> bool" where
  "chunks_rep a M \<longleftrightarrow> (\<exists>ch F. chunks_at a M ch F)"

lemma chunks_atI:
  assumes "0 < ca_size a" "\<And>i. in_pool a i \<Longrightarrow> length (dat a i) = ca_size a" "chain_ok a F" "ca_free a = first_of F (-1)"
    "ca_free_total a = int (length F)"
    and "\<And>h y. M h = Some y \<Longrightarrow> chain_ok a (ch h) \<and> concat (map (dat a) (ch h)) = y"
    and "\<And>h y. M h = Some y \<Longrightarrow> first_of (ch h) (-1) = h \<and> ch h \<noteq> []"
    and "\<And>h y. M h = Some y \<Longrightarrow> set (ch h) \<inter> set F = {}"
    and "\<And>h h' y y'. M h = Some y \<Longrightarrow> M h' = Some y' \<Longrightarrow> h \<noteq> h' \<Longrightarrow> set (ch h) \<inter> set (ch h') = {}"
  shows "chunks_at a M ch F"
  using assms unfolding chunks_at_def dom_def by blast

lemma chunks_at_disj:
  "chunks_at a M ch F \<Longrightarrow> M h = Some y \<Longrightarrow> M h' = Some y' \<Longrightarrow> h \<noteq> h' \<Longrightarrow> set (ch h) \<inter> set (ch h') = {}"
  unfolding chunks_at_def dom_def by blast

lemma chunks_at_free: "chunks_at a M ch F \<Longrightarrow> M h = Some y \<Longrightarrow> set (ch h) \<inter> set F = {}"
  unfolding chunks_at_def by blast

lemma chunks_at_first: "chunks_at a M ch F \<Longrightarrow> M h = Some y \<Longrightarrow> first_of (ch h) (-1) = h \<and> ch h \<noteq> []"
  unfolding chunks_at_def by blast

lemma chunks_at_head:
  assumes "chunks_at a M ch F" "M h = Some y"
  shows "h \<in> set (ch h)" "h \<noteq> -1" "length y = length (ch h) * ca_size a" "\<forall>i\<in>set (ch h). length (dat a i) = ca_size a"
proof -
  have c: "chain_ok a (ch h)" "first_of (ch h) (-1) = h" "ch h \<noteq> []" "y = concat (map (dat a) (ch h))"
      "\<forall>i. in_pool a i \<longrightarrow> length (dat a i) = ca_size a"
    using assms by (auto simp: chunks_at_def)
  show "h \<in> set (ch h)" using c(2,3) by (cases "ch h") auto
  then show "h \<noteq> -1" using chain_not_null [OF c(1)] by auto
  show l: "\<forall>i\<in>set (ch h). length (dat a i) = ca_size a" using c(1,5) by (simp add: chain_ok_def)
  show "length y = length (ch h) * ca_size a"
    unfolding c(4) using l by (induction "ch h") (auto simp: length_concat comp_def sum_list_triv cong: map_cong)
qed

lemma length_concat_same: "\<forall>i\<in>set xs. length (f i) = n \<Longrightarrow> length (concat (map f xs)) = length xs * n"
  by (induction xs) simp_all

text \<open>Chains apart from the changed links and data are as before.\<close>

lemma chain_kept:
  assumes "chunks_at a M ch F" "same_pool S D a a'" "M h = Some y" "set (ch h) \<inter> S = {}" "set (ch h) \<inter> D = {}"
  shows "chain_ok a' (ch h) \<and> concat (map (dat a') (ch h)) = y"
proof -
  have c: "chain_ok a (ch h)" "y = concat (map (dat a) (ch h))" using assms(1,3) by (auto simp: chunks_at_def)
  show ?thesis using chain_ok_same [OF c(1) assms(2,4)] by (simp add: c(2) dat_same [OF c(1) assms(2,5)] del: map_eq_conv)
qed

lemma take_drop_disjoint: "distinct xs \<Longrightarrow> set (take n xs) \<inter> set (drop n xs) = {}"
  using set_take_disj_set_drop_if_distinct [of xs n n] by simp

lemma alloc_rep:
  assumes rep: "chunks_rep a M" and n: "0 < n" "int n \<le> ca_free_total a"
  shows "\<exists>h a' x. ca_malloc n a = Some (h, a') \<and> h \<noteq> -1 \<and> M h = None \<and> length x = n * ca_size a \<and> chunks_rep a' (M(h \<mapsto> x)) \<and>
    ca_free_total a' = ca_free_total a - int n \<and> ca_size a' = ca_size a"
proof -
  obtain ch F where at: "chunks_at a M ch F" using rep by (auto simp: chunks_rep_def)
  then have F: "chain_ok a F" "ca_free a = first_of F (-1)" "ca_free_total a = int (length F)"
      "\<forall>i. in_pool a i \<longrightarrow> length (dat a i) = ca_size a" "0 < ca_size a"
    by (simp_all add: chunks_at_def)
  have nF: "n \<le> length F" using n F(3) by simp
  from malloc_loop_spec [OF F(1,2) nF chain_ok_Nil] obtain a1 where
    1: "ca_malloc_loop n (-1) a = Some (first_of (rev (take n F)) (-1), a1)" "chain_ok a1 (rev (take n F))" "chain_ok a1 (drop n F)"
      "ca_free a1 = first_of (drop n F) (-1)" "ca_free_total a1 = ca_free_total a" "same_pool (set (take n F)) {} a a1"
    by auto
  define C h a' where "C = rev (take n F)" and "h = first_of C (-1)" and "a' = a1\<lparr>ca_free_total := ca_free_total a1 - int n\<rparr>"
  have e: "nx a' = nx a1" "dat a' = dat a1" "in_pool a' = in_pool a1" "chain_ok a' = chain_ok a1"
    by (simp_all add: a'_def)
  have C: "C \<noteq> []" "set C = set (take n F)" "length C = n" using n(1) nF by (auto simp: C_def)
  have h: "h \<in> set F" "h \<noteq> -1" "h \<in> set C"
  proof -
    show "h \<in> set C" using C(1) by (cases C) (auto simp: h_def)
    then show "h \<in> set F" using C(2) set_take_subset [of n F] by auto
    then show "h \<noteq> -1" using chain_not_null [OF F(1)] by auto
  qed
  have s: "same_pool (set C) {} a a'" using 1(6) C(2) by (simp add: same_pool_def e) (simp add: a'_def)
  have Mh: "M h = None"
  proof (rule ccontr)
    assume "M h \<noteq> None"
    then obtain y where y: "M h = Some y" by auto
    then have "set (ch h) \<inter> set F = {}" using at by (auto simp: chunks_at_def)
    then show False using chunks_at_head(1) [OF at y] h(1) by auto
  qed
  have disj: "set (ch k) \<inter> set F = {}" if "M k = Some y" for k y using at that by (auto simp: chunks_at_def)
  have sub: "set C \<subseteq> set F" "set (drop n F) \<subseteq> set F" using C(2) set_take_subset [of n F] set_drop_subset [of n F] by simp_all
  define x where "x = concat (map (dat a') C)"
  have dl: "\<forall>i. in_pool a' i \<longrightarrow> length (dat a' i) = ca_size a'" using F(4) s by (simp add: same_pool_def in_pool_def)
  have Cok: "chain_ok a' C" using 1(2) by (simp add: e C_def)
  have "length x = n * ca_size a"
    using length_concat_same [of C "dat a'" "ca_size a"] dl Cok C(3) s by (simp add: x_def chain_ok_def same_pool_def)
  moreover have "chunks_at a' (M(h \<mapsto> x)) (ch(h := C)) (drop n F)"
  proof (rule chunks_atI)
    show "0 < ca_size a'" "chain_ok a' (drop n F)" "ca_free a' = first_of (drop n F) (-1)"
      using F(5) s 1(3,4) e by (simp_all add: same_pool_def) (simp add: a'_def)
    show "ca_free_total a' = int (length (drop n F))" using 1(5) F(3) nF by (simp add: a'_def)
    show "length (dat a' i) = ca_size a'" if "in_pool a' i" for i using dl that by simp
  next
    fix k y assume k: "(M(h \<mapsto> x)) k = Some y"
    have old: "M k = Some y" if "k \<noteq> h" using k that by simp
    show "chain_ok a' ((ch(h := C)) k) \<and> concat (map (dat a') ((ch(h := C)) k)) = y"
      using k Cok chain_kept [OF at s old] disj [OF old] sub(1) by (cases "k = h") (auto simp: x_def)
    show "first_of ((ch(h := C)) k) (-1) = k \<and> (ch(h := C)) k \<noteq> []"
      using C(1) chunks_at_first [OF at old] by (cases "k = h") (simp_all add: h_def [symmetric])
    show "set ((ch(h := C)) k) \<inter> set (drop n F) = {}"
      using take_drop_disjoint [of F n] F(1) C(2) disj [OF old] sub(2) by (cases "k = h") (auto simp: chain_ok_def)
  next
    fix k k' y y' assume k: "(M(h \<mapsto> x)) k = Some y" "(M(h \<mapsto> x)) k' = Some y'" "k \<noteq> k'"
    have "M k = Some y" if "k \<noteq> h" using k that by simp
    moreover have "M k' = Some y'" if "k' \<noteq> h" using k that by simp
    ultimately show "set ((ch(h := C)) k) \<inter> set ((ch(h := C)) k') = {}"
      using k(3) chunks_at_disj [OF at] disj sub(1) by (cases "k = h"; cases "k' = h"; simp; blast)
  qed
  moreover have "ca_malloc n a = Some (h, a')" using 1(1,5) n(2) by (simp add: ca_malloc_def a'_def h_def C_def INVALID_HDR_def)
  ultimately have r: "chunks_rep a' (M(h \<mapsto> x))" "length x = n * ca_size a" "ca_malloc n a = Some (h, a')"
    unfolding chunks_rep_def by blast+
  have "ca_free_total a' = ca_free_total a - int n" "ca_size a' = ca_size a" using s 1(5) by (simp_all add: a'_def same_pool_def)
  then show ?thesis using r h(2) Mh by blast
qed

lemma release_rep:
  assumes rep: "chunks_rep a M" and y: "M h = Some y"
  shows "\<exists>a'. ca_free_chain h a = Some a' \<and> chunks_rep a' (M(h := None)) \<and>
    ca_free_total a' = ca_free_total a + int (length y div ca_size a) \<and> ca_size a' = ca_size a"
proof -
  obtain ch F where at: "chunks_at a M ch F" using rep by (auto simp: chunks_rep_def)
  then have F: "chain_ok a F" "ca_free a = first_of F (-1)" "ca_free_total a = int (length F)"
      "\<forall>i. in_pool a i \<longrightarrow> length (dat a i) = ca_size a" "0 < ca_size a"
    and C: "chain_ok a (ch h)" "first_of (ch h) (-1) = h" "set (ch h) \<inter> set F = {}"
    using y by (auto simp: chunks_at_def)
  have fuel: "length (ch h) < chain_fuel a" using chunk_chain_length [OF C(1)] by (simp add: chain_fuel_def)
  from free_loop_spec [OF C(1) F(1) C(3) F(2) fuel] obtain a' where
    1: "ca_free_chain h a = Some a'" "chain_ok a' (rev (ch h) @ F)" "ca_free a' = first_of (rev (ch h) @ F) (-1)"
      "ca_free_total a' = ca_free_total a + int (length (ch h))" "same_pool (set (ch h)) {} a a'"
    using C(2) by (auto simp: ca_free_chain_def)
  have n: "length y div ca_size a = length (ch h)" using chunks_at_head(3) [OF at y] F(5) by simp
  have disj: "set (ch k) \<inter> set (ch h) = {}" if "M k = Some z" "k \<noteq> h" for k z using chunks_at_disj [OF at that(1) y that(2)] .
  have "chunks_at a' (M(h := None)) ch (rev (ch h) @ F)"
  proof (rule chunks_atI)
    show "0 < ca_size a'" "chain_ok a' (rev (ch h) @ F)" "ca_free a' = first_of (rev (ch h) @ F) (-1)"
      "ca_free_total a' = int (length (rev (ch h) @ F))"
      using F(3,5) 1 by (simp_all add: same_pool_def)
    show "length (dat a' i) = ca_size a'" if "in_pool a' i" for i using F(4) 1(5) that by (simp add: same_pool_def in_pool_def)
  next
    fix k z assume "(M(h := None)) k = Some z"
    then have k: "M k = Some z" "k \<noteq> h" by (auto split: if_splits)
    show "chain_ok a' (ch k) \<and> concat (map (dat a') (ch k)) = z" using chain_kept [OF at 1(5) k(1)] disj [OF k] by simp
    show "first_of (ch k) (-1) = k \<and> ch k \<noteq> []" using chunks_at_first [OF at k(1)] .
    show "set (ch k) \<inter> set (rev (ch h) @ F) = {}" using disj [OF k] chunks_at_free [OF at k(1)] by auto
  next
    fix k k' z z' assume "(M(h := None)) k = Some z" "(M(h := None)) k' = Some z'" "k \<noteq> k'"
    then show "set (ch k) \<inter> set (ch k') = {}" using chunks_at_disj [OF at, of k z k' z'] by (simp split: if_splits)
  qed
  then have "chunks_rep a' (M(h := None))" unfolding chunks_rep_def by blast
  moreover have "ca_size a' = ca_size a" using 1(5) by (simp add: same_pool_def)
  ultimately show ?thesis using 1(1,4) n by simp
qed

lemma split_rep:
  assumes rep: "chunks_rep a M" and y: "M h = Some y" and x: "length x \<le> length y"
  shows "\<exists>a' y'. ca_split h x a = Some a' \<and> chunks_rep a' (M(h \<mapsto> y')) \<and> length y' = length y \<and> take (length x) y' = x \<and>
    ca_free_total a' = ca_free_total a \<and> ca_size a' = ca_size a"
proof -
  obtain ch F where at: "chunks_at a M ch F" using rep by (auto simp: chunks_rep_def)
  then have F: "chain_ok a F" "ca_free a = first_of F (-1)" "ca_free_total a = int (length F)"
      "\<forall>i. in_pool a i \<longrightarrow> length (dat a i) = ca_size a" "0 < ca_size a"
    and C: "chain_ok a (ch h)" "first_of (ch h) (-1) = h" "set (ch h) \<inter> set F = {}"
    using y by (auto simp: chunks_at_def)
  note hd = chunks_at_head [OF at y]
  have fuel: "length (ch h) < chain_fuel a" using chunk_chain_length [OF C(1)] by (simp add: chain_fuel_def)
  from split_loop_spec [OF C(1) _ hd(4) fuel F(5), of x] x hd(3) obtain a' where
    1: "ca_split h x a = Some a'" "same_pool {} (set (ch h)) a a'" "ca_free a' = ca_free a" "ca_free_total a' = ca_free_total a"
      "\<forall>i\<in>set (ch h). length (dat a' i) = ca_size a" "take (length x) (concat (map (dat a') (ch h))) = x"
    using C(2) by (auto simp: ca_split_def)
  define y' where "y' = concat (map (dat a') (ch h))"
  have l: "length y' = length y" unfolding y'_def hd(3) by (rule length_concat_same [OF 1(5)])
  have disj: "set (ch k) \<inter> set (ch h) = {}" if "M k = Some z" "k \<noteq> h" for k z using chunks_at_disj [OF at that(1) y that(2)] .
  have "chunks_at a' (M(h \<mapsto> y')) ch F"
  proof (rule chunks_atI)
    show "0 < ca_size a'" "chain_ok a' F" "ca_free a' = first_of F (-1)" "ca_free_total a' = int (length F)"
      using F(1,2,3,5) 1(2,3,4) chain_ok_same [OF F(1) 1(2)] by (simp_all add: same_pool_def)
    show "length (dat a' i) = ca_size a'" if "in_pool a' i" for i
      using F(4) 1(2,5) that by (cases "i \<in> set (ch h)") (auto simp: same_pool_def in_pool_def)
  next
    fix k z assume k: "(M(h \<mapsto> y')) k = Some z"
    have old: "M k = Some z" if "k \<noteq> h" using k that by simp
    show "chain_ok a' (ch k) \<and> concat (map (dat a') (ch k)) = z"
      using k chain_kept [OF at 1(2) old] disj [OF old] chain_ok_same [OF C(1) 1(2)] by (cases "k = h") (auto simp: y'_def)
    show "first_of (ch k) (-1) = k \<and> ch k \<noteq> []" using chunks_at_first [OF at y] chunks_at_first [OF at old] by (cases "k = h") auto
    show "set (ch k) \<inter> set F = {}" using C(3) chunks_at_free [OF at old] by (cases "k = h") auto
  next
    fix k k' z z' assume k: "(M(h \<mapsto> y')) k = Some z" "(M(h \<mapsto> y')) k' = Some z'" "k \<noteq> k'"
    then have "\<exists>u u'. M k = Some u \<and> M k' = Some u'" using y by (auto split: if_splits)
    then show "set (ch k) \<inter> set (ch k') = {}" using chunks_at_disj [OF at] k(3) by blast
  qed
  then have "chunks_rep a' (M(h \<mapsto> y'))" unfolding chunks_rep_def by blast
  moreover have "ca_size a' = ca_size a" using 1(2) by (simp add: same_pool_def)
  ultimately show ?thesis using 1(1,4,6) l unfolding y'_def by blast
qed

lemma merge_rep:
  assumes rep: "chunks_rep a M" and y: "if h = -1 then n = 0 else M h = Some y \<and> n \<le> length y" and len: "n \<le> len" "len \<le> length buf"
  shows "ca_merge h n buf len a = Some (0, (if h = -1 then [] else take n y) @ drop n buf, n)"
proof (cases "h = -1")
  case True
  then show ?thesis using y len by (simp add: ca_merge_def chain_fuel_def INVALID_HDR_def mem_simps)
next
  case False
  obtain ch F where at: "chunks_at a M ch F" using rep by (auto simp: chunks_rep_def)
  have m: "M h = Some y" "n \<le> length y" using y False by simp_all
  have C: "chain_ok a (ch h)" "first_of (ch h) (-1) = h" "y = concat (map (dat a) (ch h))" "0 < ca_size a"
    using at m(1) by (auto simp: chunks_at_def)
  note hd = chunks_at_head [OF at m(1)]
  have fuel: "length (ch h) < chain_fuel a" using chunk_chain_length [OF C(1)] by (simp add: chain_fuel_def)
  have "ca_merge_loop (chain_fuel a) h n a = Some (take n y)"
    using merge_loop_spec [OF C(1) _ hd(4) fuel C(4), of n] m(2) hd(3) C(2,3) by simp
  then show ?thesis using False len m(2) by (simp add: ca_merge_def mem_simps overlay_def)
qed

lemma chunk_num_eq:
  assumes c: "0 < (c :: nat)"
  shows "n div c + (if n mod c \<noteq> 0 then 1 else 0) = (n + c - 1) div c"
proof -
  obtain q r where n: "n = q * c + r" "r < c" "q = n div c" "r = n mod c" using c by (metis div_mult_mod_eq mod_less_divisor)
  have "(q * c + (r + c - 1)) div c = q + (r + c - 1) div c" using c by (intro div_mult_self3) simp
  moreover have "(r + c - 1) div c = (if r \<noteq> 0 then 1 else 0)" using c n(2) by (auto simp: div_if)
  moreover have "n + c - 1 = q * c + (r + c - 1)" using n(1) c by simp
  ultimately show ?thesis using n(3,4) by simp
qed

interpretation ca: chunk_store chunks_rep ca_free_total ca_size get_chunk_num ca_malloc ca_split ca_merge ca_free_chain
proof (unfold_locales, goal_cases)
  case (1 a M) then show ?case by (auto simp: chunks_rep_def chunks_at_def)
next
  case (2 a M)
  then obtain ch F where at: "chunks_at a M ch F" by (auto simp: chunks_rep_def)
  show ?case using chunks_at_head(2) [OF at, of "-1"] by (cases "M (-1)") auto
next
  case (3 a M n) then show ?case using chunk_num_eq [of "ca_size a" n] by (auto simp: get_chunk_num_def chunks_rep_def chunks_at_def)
next
  case (4 a M n) then show ?case by (simp add: ca_malloc_def INVALID_HDR_def)
next
  case (5 a M) then show ?case by (auto simp: ca_malloc_def INVALID_HDR_def chunks_rep_def chunks_at_def)
next
  case (6 a M n) then show ?case by (rule alloc_rep)
next
  case (7 a M h y x) then show ?case by (rule split_rep)
next
  case (8 a M) then show ?case by (simp add: ca_split_def chain_fuel_def INVALID_HDR_def)
next
  case (9 a M h n y len buf) then show ?case by (rule merge_rep)
next
  case (10 len n h buf a) then show ?case by (simp add: ca_merge_def CHUNK_ERROR_INVALID_PARAM_def)
next
  case (11 a M h y) then show ?case by (rule release_rep)
next
  case (12 a M) then show ?case by (simp add: ca_free_chain_def chain_fuel_def INVALID_HDR_def)
next
  case (13 a M) then show ?case by (auto simp: chunks_rep_def chunks_at_def)
qed

section \<open>Opening\<close>

lemma init_loop_spec:
  assumes "n \<le> length (ca_nodes a)"
  shows "\<exists>a'. ca_init_loop n (a\<lparr>ca_free := -1\<rparr>) = Some a' \<and> chain_ok a' (rev (map int [0..<n])) \<and>
    ca_free a' = first_of (rev (map int [0..<n])) (-1) \<and> same_pool (int ` {..<n}) {} a a'"
  using assms
proof (induction n)
  case 0
  then show ?case by (auto simp: same_pool_def nx_def dat_def)
next
  case (Suc n)
  then obtain a1 where 1: "ca_init_loop n (a\<lparr>ca_free := -1\<rparr>) = Some a1" "chain_ok a1 (rev (map int [0..<n]))"
      "ca_free a1 = first_of (rev (map int [0..<n])) (-1)" "same_pool (int ` {..<n}) {} a a1"
    by auto
  have i: "in_pool a1 (int n)" using 1(4) Suc.prems by (simp add: same_pool_def in_pool_def)
  have n: "int n \<notin> set (rev (map int [0..<n]))" by auto
  obtain a2 where 2: "upd_chunk (int n) (\<lambda>c. c\<lparr>ck_next := INVALID_HDR\<rparr>) a1 = Some a2" "same_pool {int n} {} a1 a2" "ca_free a2 = ca_free a1"
    using upd_next [OF i] by blast
  have "chain_ok a2 (rev (map int [0..<n]))" using chain_ok_same [OF 1(2) 2(2)] n by simp
  from free_list_insert_spec [OF this _ _ n] obtain a3 where 3: "ca_free_list_insert (int n) a2 = Some a3" "same_pool {int n} {} a2 a3"
      "chain_ok a3 (int n # rev (map int [0..<n]))" "ca_free a3 = int n"
    using 1(3) 2(3) i in_pool_same [OF 2(2)] by auto
  have "same_pool {int n} {} a1 a3" by (rule same_pool_trans [OF 2(2) 3(2)]) auto
  then have "same_pool (int ` {..<Suc n}) {} a a3" by (rule same_pool_trans [OF 1(4)]) auto
  then show ?case using 1(1) 2(1) 3 by simp
qed

lemma chunks_opened:
  assumes "\<forall>c\<in>set (ca_nodes a). length (ck_data c) = sz" "length (ca_nodes a) = n" "0 < sz"
  shows "\<exists>a'. ca_open True n sz a = Some (0, a') \<and> chunks_rep a' Map.empty \<and> ca_free_total a' = int n \<and> ca_size a' = sz"
proof -
  obtain a1 where 1: "ca_init_loop n (a\<lparr>ca_free := -1\<rparr>) = Some a1" "chain_ok a1 (rev (map int [0..<n]))"
      "ca_free a1 = first_of (rev (map int [0..<n])) (-1)" "same_pool (int ` {..<n}) {} a a1"
    using init_loop_spec [of n a] assms(2) by auto
  define a' where "a' = a1\<lparr>ca_total := int n, ca_size := sz, ca_free_total := int n\<rparr>"
  have e: "nx a' = nx a1" "dat a' = dat a1" "in_pool a' = in_pool a1" by (simp_all add: a'_def nx_def dat_def in_pool_def fun_eq_iff)
  have d: "length (dat a1 i) = sz" if "in_pool a1 i" for i
    using that 1(4) assms(1) by (auto simp: same_pool_def in_pool_def dat_def)
  have "chunks_at a' Map.empty (\<lambda>_. []) (rev (map int [0..<n]))"
    using 1(2,3) d assms(3) unfolding chunks_at_def chain_ok_def e by (simp add: a'_def)
  then show ?thesis using 1(1) by (auto simp: ca_open_def ca_init_pool_data_def INVALID_HDR_def a'_def chunks_rep_def)
qed

end
