(* ===== verification/HashMap.thy ===== *)
theory HashMap
  imports ChunkStore
begin

text \<open>
  The hash map in shared memory (\<open>CHashMap\<close> in \<open>libcomm/include/HashMap.hpp\<close> and
  \<open>HashMapImp.hpp\<close>, \<open>CShmHashMap\<close> in \<open>ShmHashMap.hpp\<close>): nodes with a key and a value in chunks,
  linked into a list per bucket, into a list of recent use and into a list of free nodes.

  As in the allocator a handle is the number of a node, \<open>-1\<close> the invalid one and the null
  pointer.  The hash function and the current time are inputs.  The semaphore makes an
  operation of \<open>CShmHashMap\<close> atomic and does not appear.
\<close>

section \<open>Data\<close>

record 'k hnode =
  hn_key :: 'k
  hn_len :: nat
  hn_chunk :: int
  hn_prev :: int
  hn_next :: int
  hn_aprev :: int
  hn_anext :: int
  hn_time :: int
  hn_count :: int
  hn_flag :: int

record 'k hmap =
  hm_node_total :: int
  hm_bucket_size :: int
  hm_used_node :: int
  hm_used_bucket :: int
  hm_add_head :: int
  hm_add_tail :: int
  hm_free :: int
  hm_bucket :: "int list"
  hm_nodes :: "'k hnode list"
  hm_alloc :: chunks
  hm_hash :: "'k \<Rightarrow> nat"

definition HASH_MAP_ERROR_BASE :: int where "HASH_MAP_ERROR_BASE = -1000"
definition NODE_FLAG_UNCHG :: int where "NODE_FLAG_UNCHG = 0"

definition node_at :: "'k hmap \<Rightarrow> int \<Rightarrow> 'k hnode option" where
  "node_at h i = (if 0 \<le> i \<and> i < int (length (hm_nodes h)) then Some (hm_nodes h ! nat i) else None)"

definition upd_node :: "int \<Rightarrow> ('k hnode \<Rightarrow> 'k hnode) \<Rightarrow> 'k hmap \<Rightarrow> 'k hmap option" where
  "upd_node i f h = do { n \<leftarrow> node_at h i; Some (h\<lparr>hm_nodes := (hm_nodes h)[nat i := f n]\<rparr>) }"

text \<open>An assignment through a pointer that is null when the handle is invalid.\<close>

definition upd_link :: "int \<Rightarrow> ('k hnode \<Rightarrow> 'k hnode) \<Rightarrow> 'k hmap \<Rightarrow> 'k hmap option" where
  "upd_link i f h = (if i = INVALID_HDR then Some h else upd_node i f h)"

definition get_bucket_id :: "'k hmap \<Rightarrow> 'k \<Rightarrow> nat option" where
  "get_bucket_id h key =
     (if u32_of_int (hm_bucket_size h) = 0 then None
      else Some (hm_hash h key mod 2 ^ 32 mod u32_of_int (hm_bucket_size h)))"

definition bucket_at :: "'k hmap \<Rightarrow> nat \<Rightarrow> int option" where
  "bucket_at h b = (if b < length (hm_bucket h) then Some (hm_bucket h ! b) else None)"

text \<open>The parameters for the old data: none, only the length, or a buffer and its length.\<close>

datatype out_arg = NoOut | OutLen nat | OutBuf "byte list" nat

section \<open>The list of recent use\<close>

definition delete_from_add_list :: "int \<Rightarrow> 'k hmap \<Rightarrow> 'k hmap option" where
  "delete_from_add_list i h = do {
     n \<leftarrow> node_at h i;
     if hn_anext n = INVALID_HDR \<and> hn_aprev n = INVALID_HDR \<and> hm_add_head h \<noteq> i \<and> hm_add_tail h \<noteq> i then Some h
     else do {
       h \<leftarrow> upd_link (hn_aprev n) (\<lambda>m. m\<lparr>hn_anext := hn_anext n\<rparr>) h;
       h \<leftarrow> upd_link (hn_anext n) (\<lambda>m. m\<lparr>hn_aprev := hn_aprev n\<rparr>) h;
       let h = (if hm_add_head h = i then h\<lparr>hm_add_head := hn_anext n\<rparr> else h);
       let h = (if hm_add_tail h = i then h\<lparr>hm_add_tail := hn_aprev n\<rparr> else h);
       upd_node i (\<lambda>m. m\<lparr>hn_aprev := INVALID_HDR, hn_anext := INVALID_HDR\<rparr>) h
     }
   }"

definition insert_add_list_head :: "int \<Rightarrow> 'k hmap \<Rightarrow> 'k hmap option" where
  "insert_add_list_head i h = do {
     h \<leftarrow> delete_from_add_list i h;
     let old = hm_add_head h;
     h \<leftarrow> upd_node i (\<lambda>m. m\<lparr>hn_anext := old\<rparr>) h;
     let h = h\<lparr>hm_add_head := i\<rparr>;
     let h = (if hm_add_tail h = INVALID_HDR then h\<lparr>hm_add_tail := i\<rparr> else h);
     h \<leftarrow> upd_node i (\<lambda>m. m\<lparr>hn_aprev := INVALID_HDR\<rparr>) h;
     upd_link old (\<lambda>m. m\<lparr>hn_aprev := i\<rparr>) h
   }"

definition insert_add_list_tail :: "int \<Rightarrow> 'k hmap \<Rightarrow> 'k hmap option" where
  "insert_add_list_tail i h = do {
     h \<leftarrow> delete_from_add_list i h;
     let old = hm_add_tail h;
     h \<leftarrow> upd_node i (\<lambda>m. m\<lparr>hn_aprev := old\<rparr>) h;
     let h = h\<lparr>hm_add_tail := i\<rparr>;
     let h = (if hm_add_head h = INVALID_HDR then h\<lparr>hm_add_head := i\<rparr> else h);
     h \<leftarrow> upd_node i (\<lambda>m. m\<lparr>hn_anext := INVALID_HDR\<rparr>) h;
     upd_link old (\<lambda>m. m\<lparr>hn_anext := i\<rparr>) h
   }"

definition get_add_list_head :: "'k hmap \<Rightarrow> int" where "get_add_list_head h = hm_add_head h"
definition get_add_list_tail :: "'k hmap \<Rightarrow> int" where "get_add_list_tail h = hm_add_tail h"

definition get_add_list_next :: "int \<Rightarrow> 'k hmap \<Rightarrow> int option" where
  "get_add_list_next i h = map_option hn_anext (node_at h i)"

definition get_add_list_prev :: "int \<Rightarrow> 'k hmap \<Rightarrow> int option" where
  "get_add_list_prev i h = map_option hn_aprev (node_at h i)"

section \<open>Free nodes and buckets\<close>

definition hm_free_list_insert :: "int \<Rightarrow> 'k hmap \<Rightarrow> 'k hmap option" where
  "hm_free_list_insert i h = do { h \<leftarrow> upd_node i (\<lambda>n. n\<lparr>hn_next := hm_free h\<rparr>) h; Some (h\<lparr>hm_free := i\<rparr>) }"

definition hm_free_list_remove :: "'k hmap \<Rightarrow> (int \<times> 'k hmap) option" where
  "hm_free_list_remove h =
     (if hm_free h = INVALID_HDR then Some (INVALID_HDR, h)
      else do {
        let i = hm_free h;
        n \<leftarrow> node_at h i;
        h \<leftarrow> upd_node i (\<lambda>n. n\<lparr>hn_next := INVALID_HDR\<rparr>) (h\<lparr>hm_free := hn_next n\<rparr>);
        Some (i, h)
      })"

definition init_node :: "int \<Rightarrow> 'k hmap \<Rightarrow> 'k hmap option" where
  "init_node i h = upd_node i (\<lambda>n. n\<lparr>hn_len := 0, hn_time := 0, hn_count := 0, hn_flag := NODE_FLAG_UNCHG, hn_chunk := INVALID_HDR,
     hn_next := INVALID_HDR, hn_prev := INVALID_HDR, hn_anext := INVALID_HDR, hn_aprev := INVALID_HDR\<rparr>) h"

definition insert_node_list :: "int \<Rightarrow> 'k hmap \<Rightarrow> 'k hmap option" where
  "insert_node_list i h = do {
     n \<leftarrow> node_at h i;
     b \<leftarrow> get_bucket_id h (hn_key n);
     old \<leftarrow> bucket_at h b;
     h \<leftarrow> upd_node i (\<lambda>m. m\<lparr>hn_next := old, hn_prev := INVALID_HDR\<rparr>) h;
     h \<leftarrow> upd_link old (\<lambda>m. m\<lparr>hn_prev := i\<rparr>) (h\<lparr>hm_bucket := (hm_bucket h)[b := i]\<rparr>);
     Some (h\<lparr>hm_used_node := hm_used_node h + 1\<rparr>)
   }"

definition delete_from_node_list :: "int \<Rightarrow> 'k hmap \<Rightarrow> 'k hmap option" where
  "delete_from_node_list i h = do {
     n \<leftarrow> node_at h i;
     h \<leftarrow> upd_link (hn_prev n) (\<lambda>m. m\<lparr>hn_next := hn_next n\<rparr>) h;
     h \<leftarrow> upd_link (hn_next n) (\<lambda>m. m\<lparr>hn_prev := hn_prev n\<rparr>) h;
     b \<leftarrow> get_bucket_id h (hn_key n);
     first \<leftarrow> bucket_at h b;
     let h = (if i = first then h\<lparr>hm_bucket := (hm_bucket h)[b := hn_next n]\<rparr> else h);
     h \<leftarrow> upd_node i (\<lambda>m. m\<lparr>hn_next := INVALID_HDR, hn_prev := INVALID_HDR\<rparr>) h;
     Some (h\<lparr>hm_used_node := hm_used_node h - 1\<rparr>)
   }"

text \<open>A list has no more nodes than the map; more steps than that mean a cycle: \<open>None\<close>.\<close>

definition node_fuel :: "'k hmap \<Rightarrow> nat" where
  "node_fuel h = Suc (length (hm_nodes h))"

fun list_len :: "nat \<Rightarrow> 'k hmap \<Rightarrow> int \<Rightarrow> nat option" where
  "list_len 0 h i = None"
| "list_len (Suc fuel) h i =
     (if i = INVALID_HDR then Some 0
      else case node_at h i of None \<Rightarrow> None | Some n \<Rightarrow> map_option Suc (list_len fuel h (hn_next n)))"

definition get_bucket_list_len :: "'k hmap \<Rightarrow> nat \<Rightarrow> nat option" where
  "get_bucket_list_len h b = do { i \<leftarrow> bucket_at h b; list_len (node_fuel h) h i }"

definition free_node :: "int \<Rightarrow> 'k hmap \<Rightarrow> 'k hmap option" where
  "free_node i h = do {
     h \<leftarrow> delete_from_node_list i h;
     n \<leftarrow> node_at h i;
     a \<leftarrow> ca_free_chain (hn_chunk n) (hm_alloc h);
     let h = h\<lparr>hm_alloc := a\<rparr>;
     b \<leftarrow> get_bucket_id h (hn_key n);
     len \<leftarrow> get_bucket_list_len h b;
     let h = (if len = 0 then h\<lparr>hm_used_bucket := hm_used_bucket h - 1\<rparr> else h);
     init_node i h
   }"

definition use_node :: "int \<Rightarrow> 'k \<Rightarrow> nat \<Rightarrow> int \<Rightarrow> 'k hmap \<Rightarrow> 'k hmap option" where
  "use_node i key len chunk h = do {
     h \<leftarrow> upd_node i (\<lambda>n. n\<lparr>hn_key := key, hn_len := len, hn_chunk := chunk, hn_time := 0, hn_count := 0\<rparr>) h;
     b \<leftarrow> get_bucket_id h key;
     m \<leftarrow> get_bucket_list_len h b;
     let h = (if m = 0 then h\<lparr>hm_used_bucket := hm_used_bucket h + 1\<rparr> else h);
     insert_node_list i h
   }"

section \<open>Nodes\<close>

fun find_loop :: "nat \<Rightarrow> 'k hmap \<Rightarrow> 'k \<Rightarrow> int \<Rightarrow> int option" where
  "find_loop 0 h key i = None"
| "find_loop (Suc fuel) h key i =
     (if i = INVALID_HDR then Some INVALID_HDR
      else case node_at h i of None \<Rightarrow> None
           | Some n \<Rightarrow> if hn_key n = key then Some i else find_loop fuel h key (hn_next n))"

definition touch_node :: "int \<Rightarrow> int \<Rightarrow> 'k hmap \<Rightarrow> 'k hmap option" where
  "touch_node now i h = do {
     h \<leftarrow> upd_node i (\<lambda>n. n\<lparr>hn_time := now, hn_count := hn_count n + 1\<rparr>) h;
     insert_add_list_head i h
   }"

definition find_node :: "int \<Rightarrow> 'k \<Rightarrow> 'k hmap \<Rightarrow> (int \<times> 'k hmap) option" where
  "find_node now key h = do {
     b \<leftarrow> get_bucket_id h key;
     first \<leftarrow> bucket_at h b;
     i \<leftarrow> find_loop (node_fuel h) h key first;
     if i = INVALID_HDR then Some (INVALID_HDR, h)
     else do { h \<leftarrow> touch_node now i h; Some (i, h) }
   }"

text \<open>Whether the key is in the map already is not checked.\<close>

definition insert_node :: "int \<Rightarrow> 'k \<Rightarrow> byte list \<Rightarrow> 'k hmap \<Rightarrow> (int \<times> 'k hmap) option" where
  "insert_node now key x h = do {
     (i, h) \<leftarrow> hm_free_list_remove h;
     if i = INVALID_HDR then Some (INVALID_HDR, h)
     else do {
       num \<leftarrow> get_chunk_num (hm_alloc h) (length x);
       (c, a) \<leftarrow> ca_malloc num (hm_alloc h);
       if c = INVALID_HDR then do { h \<leftarrow> hm_free_list_insert i (h\<lparr>hm_alloc := a\<rparr>); Some (INVALID_HDR, h) }
       else do {
         a \<leftarrow> ca_split c x a;
         h \<leftarrow> use_node i key (length x) c (h\<lparr>hm_alloc := a\<rparr>);
         h \<leftarrow> touch_node now i h;
         Some (i, h)
       }
     }
   }"

definition node_out :: "'k hnode \<Rightarrow> out_arg \<Rightarrow> chunks \<Rightarrow> (int \<times> out_arg) option" where
  "node_out n out a =
     (case out of NoOut \<Rightarrow> Some (0, NoOut) | OutLen l \<Rightarrow> Some (0, OutLen (hn_len n))
      | OutBuf buf l \<Rightarrow> do { (ret, buf, l) \<leftarrow> ca_merge (hn_chunk n) (hn_len n) buf l a; Some (ret, OutBuf buf l) })"

definition update_node :: "int \<Rightarrow> byte list \<Rightarrow> out_arg \<Rightarrow> 'k hmap \<Rightarrow> (int \<times> out_arg \<times> 'k hmap) option" where
  "update_node i x out h = do {
     n \<leftarrow> node_at h i;
     (ret, out) \<leftarrow> node_out n out (hm_alloc h);
     if ret \<noteq> 0 then Some (INVALID_HDR, out, h)
     else do {
       old_num \<leftarrow> get_chunk_num (hm_alloc h) (hn_len n);
       new_num \<leftarrow> get_chunk_num (hm_alloc h) (length x);
       if old_num \<noteq> new_num
       then if new_num > old_num \<and> get_free_chunk_num (hm_alloc h) < int new_num - int old_num then Some (INVALID_HDR, out, h)
            else do {
              a \<leftarrow> ca_free_chain (hn_chunk n) (hm_alloc h);
              (c, a) \<leftarrow> ca_malloc new_num a;
              a \<leftarrow> ca_split c x a;
              h \<leftarrow> upd_node i (\<lambda>n. n\<lparr>hn_len := length x, hn_chunk := c\<rparr>) (h\<lparr>hm_alloc := a\<rparr>);
              Some (i, out, h)
            }
       else do {
         a \<leftarrow> ca_split (hn_chunk n) x (hm_alloc h);
         h \<leftarrow> upd_node i (\<lambda>n. n\<lparr>hn_len := length x\<rparr>) (h\<lparr>hm_alloc := a\<rparr>);
         Some (i, out, h)
       }
     }
   }"

definition replace_node :: "int \<Rightarrow> 'k \<Rightarrow> byte list \<Rightarrow> out_arg \<Rightarrow> 'k hmap \<Rightarrow> (int \<times> out_arg \<times> 'k hmap) option" where
  "replace_node now key x out h = do {
     (i, h) \<leftarrow> find_node now key h;
     if i \<noteq> INVALID_HDR then update_node i x out h
     else do { (i, h) \<leftarrow> insert_node now key x h; Some (i, out, h) }
   }"

definition delete_node :: "int \<Rightarrow> out_arg \<Rightarrow> 'k hmap \<Rightarrow> (int \<times> out_arg \<times> 'k hmap) option" where
  "delete_node i out h = do {
     n \<leftarrow> node_at h i;
     (ret, out) \<leftarrow> node_out n out (hm_alloc h);
     if ret \<noteq> 0 then Some (-1, out, h)
     else do {
       h \<leftarrow> delete_from_add_list i h;
       h \<leftarrow> free_node i h;
       h \<leftarrow> hm_free_list_insert i h;
       Some (0, out, h)
     }
   }"

definition merge_node_data :: "int \<Rightarrow> out_arg \<Rightarrow> 'k hmap \<Rightarrow> (int \<times> out_arg) option" where
  "merge_node_data i out h = do {
     n \<leftarrow> node_at h i;
     case out of OutBuf buf l \<Rightarrow> node_out n out (hm_alloc h) | OutLen l \<Rightarrow> Some (-1, OutLen (hn_len n)) | NoOut \<Rightarrow> Some (-1, NoOut)
   }"

definition set_node_flag :: "int \<Rightarrow> int \<Rightarrow> 'k hmap \<Rightarrow> 'k hmap option" where
  "set_node_flag i f h = upd_node i (\<lambda>n. n\<lparr>hn_flag := f\<rparr>) h"

definition get_node_flag :: "int \<Rightarrow> 'k hmap \<Rightarrow> int option" where
  "get_node_flag i h = map_option hn_flag (node_at h i)"

definition get_bucket_list_head :: "nat \<Rightarrow> 'k hmap \<Rightarrow> int option" where
  "get_bucket_list_head b h = (if b < u32_of_int (hm_bucket_size h) then bucket_at h b else None)"

definition get_bucket_list_next :: "int \<Rightarrow> 'k hmap \<Rightarrow> int option" where
  "get_bucket_list_next i h = map_option hn_next (node_at h i)"

definition get_bucket_list_prev :: "int \<Rightarrow> 'k hmap \<Rightarrow> int option" where
  "get_bucket_list_prev i h = map_option hn_prev (node_at h i)"

section \<open>Opening\<close>

primrec hm_init_loop :: "nat \<Rightarrow> 'k hmap \<Rightarrow> 'k hmap option" where
  "hm_init_loop 0 h = Some h"
| "hm_init_loop (Suc n) h = do {
     h \<leftarrow> hm_init_loop n h;
     h \<leftarrow> init_node (int n) h;
     hm_free_list_insert (int n) h
   }"

definition hm_init_pool_data :: "nat \<Rightarrow> nat \<Rightarrow> 'k hmap \<Rightarrow> 'k hmap option" where
  "hm_init_pool_data ntotal buckets h =
     hm_init_loop ntotal (h\<lparr>hm_node_total := int ntotal, hm_bucket_size := int buckets, hm_used_node := 0, hm_used_bucket := 0,
       hm_add_head := INVALID_HDR, hm_add_tail := INVALID_HDR, hm_free := INVALID_HDR,
       hm_bucket := replicate buckets INVALID_HDR\<rparr>)"

definition hm_verify_pool_data :: "nat \<Rightarrow> nat \<Rightarrow> 'k hmap \<Rightarrow> int option" where
  "hm_verify_pool_data ntotal buckets h =
     (if int ntotal \<noteq> hm_node_total h \<or> int buckets \<noteq> hm_bucket_size h then Some HASH_MAP_ERROR_BASE
      else if int (length (filter (\<lambda>i. i \<noteq> INVALID_HDR) (take buckets (hm_bucket h)))) \<noteq> hm_used_bucket h
      then Some HASH_MAP_ERROR_BASE
      else do {
        free \<leftarrow> list_len (node_fuel h) h (hm_free h);
        Some (if hm_used_node h + int free \<noteq> hm_node_total h then HASH_MAP_ERROR_BASE else 0)
      })"

definition hm_open :: "bool \<Rightarrow> nat \<Rightarrow> nat \<Rightarrow> nat \<Rightarrow> nat \<Rightarrow> 'k hmap \<Rightarrow> (int \<times> 'k hmap) option" where
  "hm_open init ntotal buckets n_chunks chunk_size h = do {
     (ret, h) \<leftarrow> (if init then do { h \<leftarrow> hm_init_pool_data ntotal buckets h; Some (0, h) }
                   else do { ret \<leftarrow> hm_verify_pool_data ntotal buckets h; Some (ret, h) });
     if ret \<noteq> 0 then Some (ret, h)
     else do { (ret, a) \<leftarrow> ca_open init n_chunks chunk_size (hm_alloc h); Some (ret, h\<lparr>hm_alloc := a\<rparr>) }
   }"

text \<open>Sizes in bytes; \<open>ks\<close> is the size of a key.\<close>

definition hm_get_pool_size :: "nat \<Rightarrow> nat \<Rightarrow> nat \<Rightarrow> nat" where
  "hm_get_pool_size ks ntotal buckets = 40 + buckets * 8 + ntotal * (ks + 56)"

definition get_total_pool_size :: "nat \<Rightarrow> nat \<Rightarrow> nat \<Rightarrow> nat \<Rightarrow> nat \<Rightarrow> nat" where
  "get_total_pool_size ks ntotal buckets n_chunks chunk_size =
     hm_get_pool_size ks ntotal buckets + ca_get_pool_size n_chunks chunk_size"

definition free_node_num :: "'k hmap \<Rightarrow> int" where "free_node_num h = hm_node_total h - hm_used_node h"
definition free_bucket_num :: "'k hmap \<Rightarrow> int" where "free_bucket_num h = hm_bucket_size h - hm_used_bucket h"

section \<open>The map in shared memory\<close>

text \<open>
  \<open>Init\<close> opens the pool for a new segment; for one that existed its local variable \<open>init\<close> has
  not been assigned, and \<open>junk\<close> is the value it happens to have.
\<close>

definition shm_Init :: "bool \<Rightarrow> bool \<Rightarrow> nat \<Rightarrow> nat \<Rightarrow> nat \<Rightarrow> nat \<Rightarrow> 'k hmap \<Rightarrow> (int \<times> 'k hmap) option" where
  "shm_Init created junk ntotal buckets n_chunks chunk_size h = do {
     (ret, h) \<leftarrow> hm_open (if created then True else junk) ntotal buckets n_chunks chunk_size h;
     Some (if ret < 0 then -1 else 0, h)
   }"

definition shm_Find :: "int \<Rightarrow> 'k \<Rightarrow> 'k hmap \<Rightarrow> (bool \<times> 'k hmap) option" where
  "shm_Find now key h = do { (i, h) \<leftarrow> find_node now key h; Some (i \<noteq> INVALID_HDR, h) }"

definition shm_Find_data :: "int \<Rightarrow> 'k \<Rightarrow> out_arg \<Rightarrow> 'k hmap \<Rightarrow> (int \<times> out_arg \<times> 'k hmap) option" where
  "shm_Find_data now key out h = do {
     (i, h) \<leftarrow> find_node now key h;
     if i \<noteq> INVALID_HDR then do { (ret, out) \<leftarrow> merge_node_data i out h; Some (ret, out, h) } else Some (-1, out, h)
   }"

definition shm_Insert :: "int \<Rightarrow> 'k \<Rightarrow> byte list \<Rightarrow> 'k hmap \<Rightarrow> (int \<times> 'k hmap) option" where
  "shm_Insert now key x h = do { (i, h) \<leftarrow> insert_node now key x h; Some (if i = INVALID_HDR then -1 else 0, h) }"

definition shm_SetValue :: "int \<Rightarrow> 'k \<Rightarrow> byte list \<Rightarrow> 'k hmap \<Rightarrow> (int \<times> 'k hmap) option" where
  "shm_SetValue now key x h = do {
     (i, out, h) \<leftarrow> replace_node now key x NoOut h;
     Some (if i = INVALID_HDR then -1 else 0, h)
   }"

definition shm_Delete :: "int \<Rightarrow> 'k \<Rightarrow> 'k hmap \<Rightarrow> (int \<times> 'k hmap) option" where
  "shm_Delete now key h = do {
     (i, h) \<leftarrow> find_node now key h;
     if i \<noteq> INVALID_HDR then do { (ret, out, h) \<leftarrow> delete_node i NoOut h; Some (ret, h) } else Some (-1, h)
   }"

definition GetSize :: "'k hmap \<Rightarrow> int" where "GetSize h = hm_node_total h"
definition GetCount :: "'k hmap \<Rightarrow> int" where "GetCount h = hm_used_node h"

text \<open>The visitor.\<close>

definition visit_GetData :: "int \<Rightarrow> out_arg \<Rightarrow> 'k hmap \<Rightarrow> (int \<times> out_arg) option" where
  "visit_GetData i out h = merge_node_data i out h"

definition visit_Erase :: "int \<Rightarrow> 'k hmap \<Rightarrow> (int \<times> 'k hmap) option" where
  "visit_Erase i h =
     (if i = INVALID_HDR then Some (-1, h) else do { (ret, out, h) \<leftarrow> delete_node i NoOut h; Some (ret, h) })"

definition visit_UpdateData :: "int \<Rightarrow> byte list \<Rightarrow> 'k hmap \<Rightarrow> (int \<times> 'k hmap) option" where
  "visit_UpdateData i x h =
     (if i = INVALID_HDR then Some (INVALID_HDR, h) else do { (r, out, h) \<leftarrow> update_node i x NoOut h; Some (r, h) })"

end
