(* ===== verification/HashMapRep.thy ===== *)
theory HashMapRep
  imports HashMap
begin

text \<open>
  What the hash map stands for: its lists of nodes are disjoint linked lists, and read in the
  order of recent use they are a list of keys with their values.
\<close>

section \<open>Nodes as a function\<close>

definition nd :: "'k hmap \<Rightarrow> int \<Rightarrow> 'k hnode" where
  "nd h i = hm_nodes h ! nat i"

definition in_map :: "'k hmap \<Rightarrow> int \<Rightarrow> bool" where
  "in_map h i \<longleftrightarrow> 0 \<le> i \<and> i < int (length (hm_nodes h))"

definition setn :: "int \<Rightarrow> 'k hnode \<Rightarrow> 'k hmap \<Rightarrow> 'k hmap" where
  "setn i m h = h\<lparr>hm_nodes := (hm_nodes h)[nat i := m]\<rparr>"

lemma setn_simps [simp]:
  "hm_node_total (setn i m h) = hm_node_total h" "hm_bucket_size (setn i m h) = hm_bucket_size h"
  "hm_used_node (setn i m h) = hm_used_node h" "hm_used_bucket (setn i m h) = hm_used_bucket h"
  "hm_add_head (setn i m h) = hm_add_head h" "hm_add_tail (setn i m h) = hm_add_tail h"
  "hm_free (setn i m h) = hm_free h" "hm_bucket (setn i m h) = hm_bucket h"
  "hm_alloc (setn i m h) = hm_alloc h" "hm_hash (setn i m h) = hm_hash h"
  "length (hm_nodes (setn i m h)) = length (hm_nodes h)" "in_map (setn i m h) = in_map h"
  by (simp_all add: setn_def in_map_def fun_eq_iff)

lemma nd_setn: "in_map h i \<Longrightarrow> 0 \<le> j \<Longrightarrow> nd (setn i m h) j = (if j = i then m else nd h j)"
  by (auto simp: setn_def nd_def in_map_def nth_list_update)

lemma node_at_in: "in_map h i \<Longrightarrow> node_at h i = Some (nd h i)"
  by (simp add: node_at_def in_map_def nd_def)

lemma upd_node_in: "in_map h i \<Longrightarrow> upd_node i f h = Some (setn i (f (nd h i)) h)"
  by (simp add: upd_node_def node_at_in) (simp add: setn_def)

lemma upd_link_null [simp]: "upd_link (-1) f h = Some h"
  by (simp add: upd_link_def INVALID_HDR_def)

lemma upd_link_in: "in_map h i \<Longrightarrow> upd_link i f h = Some (setn i (f (nd h i)) h)"
  by (auto simp: upd_link_def INVALID_HDR_def upd_node_in in_map_def)

text \<open>Assignments to other members leave the nodes alone.\<close>

lemma nd_simps [simp]:
  "nd (h\<lparr>hm_used_node := a\<rparr>) = nd h" "nd (h\<lparr>hm_used_bucket := a\<rparr>) = nd h" "nd (h\<lparr>hm_add_head := a\<rparr>) = nd h"
  "nd (h\<lparr>hm_add_tail := a\<rparr>) = nd h" "nd (h\<lparr>hm_free := a\<rparr>) = nd h" "nd (h\<lparr>hm_bucket := b\<rparr>) = nd h" "nd (h\<lparr>hm_alloc := c\<rparr>) = nd h"
  by (simp_all add: nd_def fun_eq_iff)

lemma in_map_simps [simp]:
  "in_map (h\<lparr>hm_used_node := a\<rparr>) = in_map h" "in_map (h\<lparr>hm_used_bucket := a\<rparr>) = in_map h" "in_map (h\<lparr>hm_add_head := a\<rparr>) = in_map h"
  "in_map (h\<lparr>hm_add_tail := a\<rparr>) = in_map h" "in_map (h\<lparr>hm_free := a\<rparr>) = in_map h" "in_map (h\<lparr>hm_bucket := b\<rparr>) = in_map h"
  "in_map (h\<lparr>hm_alloc := c\<rparr>) = in_map h"
  by (simp_all add: in_map_def fun_eq_iff)

section \<open>The parts of a well-formed map\<close>

definition slot :: "'k hmap \<Rightarrow> 'k \<Rightarrow> nat" where
  "slot h k = hm_hash h k mod 2 ^ 32 mod nat (hm_bucket_size h)"

definition lru :: "'k hmap \<Rightarrow> int list \<Rightarrow> bool" where
  "lru h L \<longleftrightarrow> dseg (\<lambda>i. hn_anext (nd h i)) (\<lambda>i. hn_aprev (nd h i)) (-1) L \<and> distinct L \<and> (\<forall>i\<in>set L. in_map h i) \<and>
     hm_add_head h = first_of L (-1) \<and> hm_add_tail h = last_of L (-1)"

definition bucket_list :: "'k hmap \<Rightarrow> nat \<Rightarrow> int list \<Rightarrow> bool" where
  "bucket_list h b xs \<longleftrightarrow> dseg (\<lambda>i. hn_next (nd h i)) (\<lambda>i. hn_prev (nd h i)) (-1) xs \<and> distinct xs \<and>
     hm_bucket h ! b = first_of xs (-1) \<and> (\<forall>i\<in>set xs. in_map h i \<and> slot h (hn_key (nd h i)) = b)"

definition lists_ok :: "'k hmap \<Rightarrow> (nat \<Rightarrow> int list) \<Rightarrow> bool" where
  "lists_ok h B \<longleftrightarrow> 0 < hm_bucket_size h \<and> hm_bucket_size h < 2 ^ 31 \<and> length (hm_bucket h) = nat (hm_bucket_size h) \<and>
     (\<forall>b<nat (hm_bucket_size h). bucket_list h b (B b))"

definition used_buckets :: "'k hmap \<Rightarrow> (nat \<Rightarrow> int list) \<Rightarrow> nat" where
  "used_buckets h B = card {b. b < nat (hm_bucket_size h) \<and> B b \<noteq> []}"

definition free_ok :: "'k hmap \<Rightarrow> int list \<Rightarrow> bool" where
  "free_ok h F \<longleftrightarrow> sseg (\<lambda>i. hn_next (nd h i)) F \<and> distinct F \<and> hm_free h = first_of F (-1) \<and>
     (\<forall>i\<in>set F. in_map h i \<and> hn_anext (nd h i) = -1 \<and> hn_aprev (nd h i) = -1)"

text \<open>The values \<open>V\<close> of the nodes in the store, with their handles.\<close>

definition values_ok :: "'k hmap \<Rightarrow> (int \<Rightarrow> byte list option) \<Rightarrow> (int \<Rightarrow> byte list) \<Rightarrow> int list \<Rightarrow> bool" where
  "values_ok h M V L \<longleftrightarrow> chunks_rep (hm_alloc h) M \<and>
     (\<forall>i\<in>set L. ca.holds (hm_alloc h) M (hn_chunk (nd h i)) (V i) \<and> hn_len (nd h i) = length (V i)) \<and>
     (\<forall>i\<in>set L. \<forall>j\<in>set L. i \<noteq> j \<longrightarrow> hn_chunk (nd h i) = hn_chunk (nd h j) \<longrightarrow> hn_chunk (nd h i) = -1) \<and>
     dom M \<subseteq> (\<lambda>i. hn_chunk (nd h i)) ` set L"

definition map_nodes :: "'k hmap \<Rightarrow> (nat \<Rightarrow> int list) \<Rightarrow> int set" where
  "map_nodes h B = (\<Union>b<nat (hm_bucket_size h). set (B b))"

text \<open>The nodes of one key stand in their bucket in the order of recent use.\<close>

definition of_key :: "'k hmap \<Rightarrow> 'k \<Rightarrow> int list \<Rightarrow> int list" where
  "of_key h k xs = filter (\<lambda>i. hn_key (nd h i) = k) xs"

definition same_order :: "'k hmap \<Rightarrow> (nat \<Rightarrow> int list) \<Rightarrow> int list \<Rightarrow> bool" where
  "same_order h B L \<longleftrightarrow> (\<forall>k. of_key h k (B (slot h k)) = of_key h k L)"

definition hmap_at :: "'k hmap \<Rightarrow> (nat \<Rightarrow> int list) \<Rightarrow> int list \<Rightarrow> int list \<Rightarrow> (int \<Rightarrow> byte list option) \<Rightarrow> (int \<Rightarrow> byte list) \<Rightarrow> bool" where
  "hmap_at h B L F M V \<longleftrightarrow> lists_ok h B \<and> hm_used_bucket h = int (used_buckets h B) \<and> lru h L \<and> free_ok h F \<and> values_ok h M V L \<and>
     set L = map_nodes h B \<and> set F \<inter> set L = {} \<and> same_order h B L \<and>
     hm_used_node h = int (length L) \<and> hm_node_total h = int (length L + length F)"

definition contents :: "'k hmap \<Rightarrow> (int \<Rightarrow> byte list) \<Rightarrow> int list \<Rightarrow> ('k \<times> byte list) list" where
  "contents h V L = map (\<lambda>i. (hn_key (nd h i), V i)) L"

section \<open>What the parts depend on\<close>

lemma lru_cong:
  assumes "lru h L" "hm_add_head h' = hm_add_head h" "hm_add_tail h' = hm_add_tail h" "in_map h' = in_map h"
    and "\<And>i. i \<in> set L \<Longrightarrow> hn_anext (nd h' i) = hn_anext (nd h i) \<and> hn_aprev (nd h' i) = hn_aprev (nd h i)"
  shows "lru h' L"
proof -
  have "dseg (\<lambda>i. hn_anext (nd h' i)) (\<lambda>i. hn_aprev (nd h' i)) (-1) L = dseg (\<lambda>i. hn_anext (nd h i)) (\<lambda>i. hn_aprev (nd h i)) (-1) L"
    using assms(5) by (intro dseg_cong) auto
  then show ?thesis using assms(1-4) by (simp add: lru_def)
qed

lemma bucket_list_cong:
  assumes "bucket_list h b xs" "hm_bucket h' ! b = hm_bucket h ! b" "hm_bucket_size h' = hm_bucket_size h" "hm_hash h' = hm_hash h"
    "in_map h' = in_map h"
    and "\<And>i. i \<in> set xs \<Longrightarrow> hn_next (nd h' i) = hn_next (nd h i) \<and> hn_prev (nd h' i) = hn_prev (nd h i) \<and> hn_key (nd h' i) = hn_key (nd h i)"
  shows "bucket_list h' b xs"
proof -
  have "dseg (\<lambda>i. hn_next (nd h' i)) (\<lambda>i. hn_prev (nd h' i)) (-1) xs = dseg (\<lambda>i. hn_next (nd h i)) (\<lambda>i. hn_prev (nd h i)) (-1) xs"
    using assms(6) by (intro dseg_cong) auto
  then show ?thesis using assms by (simp add: bucket_list_def slot_def)
qed

lemma lists_ok_cong:
  assumes "lists_ok h B" "hm_bucket h' = hm_bucket h" "hm_bucket_size h' = hm_bucket_size h" "hm_hash h' = hm_hash h"
    "in_map h' = in_map h"
    and "\<And>i. i \<in> map_nodes h B \<Longrightarrow> hn_next (nd h' i) = hn_next (nd h i) \<and> hn_prev (nd h' i) = hn_prev (nd h i) \<and> hn_key (nd h' i) = hn_key (nd h i)"
  shows "lists_ok h' B"
proof -
  have "bucket_list h' b (B b)" if "b < nat (hm_bucket_size h)" for b
    using assms that by (intro bucket_list_cong [of h b "B b" h']) (auto simp: lists_ok_def map_nodes_def)
  then show ?thesis using assms by (simp add: lists_ok_def)
qed

lemma free_ok_cong:
  assumes "free_ok h F" "hm_free h' = hm_free h" "in_map h' = in_map h"
    and "\<And>i. i \<in> set F \<Longrightarrow> hn_next (nd h' i) = hn_next (nd h i) \<and> hn_anext (nd h' i) = hn_anext (nd h i) \<and> hn_aprev (nd h' i) = hn_aprev (nd h i)"
  shows "free_ok h' F"
proof -
  have "sseg (\<lambda>i. hn_next (nd h' i)) F = sseg (\<lambda>i. hn_next (nd h i)) F" using assms(4) by (intro sseg_cong) auto
  then show ?thesis using assms by (simp add: free_ok_def)
qed

lemma values_ok_cong:
  assumes "values_ok h M V L" "hm_alloc h' = hm_alloc h" "set L' = set L"
    and "\<And>i. i \<in> set L \<Longrightarrow> hn_chunk (nd h' i) = hn_chunk (nd h i) \<and> hn_len (nd h' i) = hn_len (nd h i)"
  shows "values_ok h' M V L'"
  using assms by (auto simp: values_ok_def image_iff subset_iff)

section \<open>The list of recent use\<close>

text \<open>Everything but the links of recent use, their anchors, the time and the count of a use.\<close>

definition unused :: "'k hnode \<Rightarrow> 'k hnode" where
  "unused n = n\<lparr>hn_anext := 0, hn_aprev := 0, hn_time := 0, hn_count := 0\<rparr>"

definition use_frame :: "'k hmap \<Rightarrow> 'k hmap \<Rightarrow> bool" where
  "use_frame h h' \<longleftrightarrow> h'\<lparr>hm_add_head := 0, hm_add_tail := 0, hm_nodes := []\<rparr> = h\<lparr>hm_add_head := 0, hm_add_tail := 0, hm_nodes := []\<rparr> \<and>
     length (hm_nodes h') = length (hm_nodes h) \<and>
     (\<forall>i\<ge>0. unused (nd h' i) = unused (nd h i))"

lemma use_frame_refl [simp]: "use_frame h h"
  by (simp add: use_frame_def)

lemma use_frame_trans: "use_frame a b \<Longrightarrow> use_frame b c \<Longrightarrow> use_frame a c"
  unfolding use_frame_def by metis

lemma use_frame_setn:
  assumes "in_map h i" "unused m = unused (nd h i)"
  shows "use_frame h (setn i m h)"
  using assms by (auto simp: use_frame_def nd_setn)

lemma use_frame_anchor [simp]: "use_frame h (h\<lparr>hm_add_head := a\<rparr>)" "use_frame h (h\<lparr>hm_add_tail := a\<rparr>)"
  by (simp_all add: use_frame_def)

lemma use_frame_fields:
  assumes "use_frame h h'"
  shows "hm_node_total h' = hm_node_total h" "hm_bucket_size h' = hm_bucket_size h" "hm_used_node h' = hm_used_node h"
    "hm_used_bucket h' = hm_used_bucket h" "hm_free h' = hm_free h" "hm_bucket h' = hm_bucket h" "hm_alloc h' = hm_alloc h"
    "hm_hash h' = hm_hash h" "in_map h' = in_map h"
    "0 \<le> i \<Longrightarrow> hn_key (nd h' i) = hn_key (nd h i)" "0 \<le> i \<Longrightarrow> hn_len (nd h' i) = hn_len (nd h i)"
    "0 \<le> i \<Longrightarrow> hn_chunk (nd h' i) = hn_chunk (nd h i)" "0 \<le> i \<Longrightarrow> hn_next (nd h' i) = hn_next (nd h i)"
    "0 \<le> i \<Longrightarrow> hn_prev (nd h' i) = hn_prev (nd h i)"
proof -
  have e: "h'\<lparr>hm_add_head := 0, hm_add_tail := 0, hm_nodes := []\<rparr> = h\<lparr>hm_add_head := 0, hm_add_tail := 0, hm_nodes := []\<rparr>"
    "length (hm_nodes h') = length (hm_nodes h)" using assms by (simp_all add: use_frame_def)
  then show "hm_node_total h' = hm_node_total h" "hm_bucket_size h' = hm_bucket_size h" "hm_used_node h' = hm_used_node h"
    "hm_used_bucket h' = hm_used_bucket h" "hm_free h' = hm_free h" "hm_bucket h' = hm_bucket h" "hm_alloc h' = hm_alloc h"
    "hm_hash h' = hm_hash h"
    by (cases h; cases h'; simp)+
  show "in_map h' = in_map h" using e(2) by (simp add: in_map_def fun_eq_iff)
  assume "0 \<le> i"
  then have n: "unused (nd h' i) = unused (nd h i)"
    using assms by (simp add: use_frame_def)
  show "hn_key (nd h' i) = hn_key (nd h i)" "hn_len (nd h' i) = hn_len (nd h i)" "hn_chunk (nd h' i) = hn_chunk (nd h i)"
    "hn_next (nd h' i) = hn_next (nd h i)" "hn_prev (nd h' i) = hn_prev (nd h i)"
    using n by (cases "nd h i"; cases "nd h' i"; simp add: unused_def)+
qed

lemma first_in: "first_of xs (-1) = -1 \<or> first_of xs (-1) \<in> set xs"
  by (cases xs) auto

text \<open>A node of the list is taken out; one that is in no list stays as it is.\<close>

lemma delete_from_add_list_in:
  assumes l: "lru h (xs @ i # ys)"
  shows "\<exists>h'. delete_from_add_list i h = Some h' \<and> lru h' (xs @ ys) \<and> use_frame h h' \<and>
    hn_anext (nd h' i) = -1 \<and> hn_aprev (nd h' i) = -1 \<and>
    (\<forall>j\<ge>0. j \<notin> set (xs @ i # ys) \<longrightarrow> nd h' j = nd h j)"
proof -
  let ?L = "xs @ i # ys" and ?nx = "\<lambda>i. hn_anext (nd h i)" and ?pv = "\<lambda>i. hn_aprev (nd h i)"
  have L: "dseg ?nx ?pv (-1) ?L" "distinct ?L" "\<forall>i\<in>set ?L. in_map h i" "hm_add_head h = first_of ?L (-1)" "hm_add_tail h = last_of ?L (-1)"
    using l by (simp_all add: lru_def)
  have n1: "-1 \<notin> set ?L" using dseg_not_null [OF L(1)] .
  have at: "?pv i = last_of xs (-1)" "?nx i = first_of ys (-1)" using dseg_at [OF L(1)] by simp_all
  have i: "in_map h i" "i \<noteq> -1" using L(3) n1 by auto
  have pin: "?pv i = -1 \<or> in_map h (?pv i) \<and> ?pv i \<noteq> i" using at(1) last_of_in [of xs "-1"] L(2,3) by auto
  have nin: "?nx i = -1 \<or> in_map h (?nx i) \<and> ?nx i \<noteq> i" using at(2) first_in [of ys] L(2,3) by auto
  have np: "?nx i = -1 \<or> ?nx i \<noteq> ?pv i"
    using at last_of_in [of xs "-1"] first_in [of ys] L(2) n1 by auto
  have not_out: "\<not> (?nx i = -1 \<and> ?pv i = -1 \<and> hm_add_head h \<noteq> i \<and> hm_add_tail h \<noteq> i)"
    using at(1) n1 last_of_null [of xs] L(4) by auto
  define h1 where "h1 = (if ?pv i = -1 then h else setn (?pv i) ((nd h (?pv i))\<lparr>hn_anext := ?nx i\<rparr>) h)"
  define h2 where "h2 = (if ?nx i = -1 then h1 else setn (?nx i) ((nd h1 (?nx i))\<lparr>hn_aprev := ?pv i\<rparr>) h1)"
  define h3 where "h3 = (if hm_add_head h2 = i then h2\<lparr>hm_add_head := ?nx i\<rparr> else h2)"
  define h4 where "h4 = (if hm_add_tail h3 = i then h3\<lparr>hm_add_tail := ?pv i\<rparr> else h3)"
  define h' where "h' = setn i ((nd h4 i)\<lparr>hn_aprev := -1, hn_anext := -1\<rparr>) h4"
  have im: "in_map h1 = in_map h" "in_map h2 = in_map h" "in_map h3 = in_map h" "in_map h4 = in_map h" "in_map h' = in_map h"
    by (simp_all add: h1_def h2_def h3_def h4_def h'_def)
  have "delete_from_add_list i h = Some h'"
  proof -
    have 1: "upd_link (?pv i) (\<lambda>m. m\<lparr>hn_anext := ?nx i\<rparr>) h = Some h1" using pin by (auto simp: h1_def upd_link_in)
    have 2: "upd_link (?nx i) (\<lambda>m. m\<lparr>hn_aprev := ?pv i\<rparr>) h1 = Some h2" using nin im by (auto simp: h2_def upd_link_in)
    have 3: "upd_node i (\<lambda>m. m\<lparr>hn_aprev := -1, hn_anext := -1\<rparr>) h4 = Some h'" using i(1) im by (simp add: h'_def upd_node_in)
    show ?thesis
      unfolding delete_from_add_list_def node_at_in [OF i(1)] Option.bind_lunit INVALID_HDR_def if_not_P [OF not_out] 1 2 Let_def
        h3_def [symmetric] h4_def [symmetric] 3 ..
  qed
  moreover have nd1: "nd h1 j = (if j = ?pv i \<and> ?pv i \<noteq> -1 then (nd h j)\<lparr>hn_anext := ?nx i\<rparr> else nd h j)" if "0 \<le> j" for j
    using pin that by (auto simp: h1_def nd_setn)
  have nd2: "nd h2 j = (if j = ?nx i \<and> ?nx i \<noteq> -1 then (nd h1 j)\<lparr>hn_aprev := ?pv i\<rparr> else nd h1 j)" if "0 \<le> j" for j
    using nin that im by (auto simp: h2_def nd_setn)
  have nd4: "nd h4 = nd h2" by (simp add: h4_def h3_def)
  have nd': "nd h' j = (if j = i then (nd h2 j)\<lparr>hn_aprev := -1, hn_anext := -1\<rparr> else nd h2 j)" if "0 \<le> j" for j
    using i(1) that im by (simp add: h'_def nd_setn nd4)
  have f1: "use_frame h h1" using pin by (auto simp: h1_def simp: unused_def intro!: use_frame_setn)
  have f2: "use_frame h1 h2" using nin im by (auto simp: h2_def simp: unused_def intro!: use_frame_setn)
  have f4: "use_frame h2 h4" by (auto simp: h4_def h3_def intro: use_frame_trans [OF use_frame_anchor(1) use_frame_anchor(2)])
  have "use_frame h4 h'" using i(1) im by (auto simp: h'_def simp: unused_def intro!: use_frame_setn)
  then have fr: "use_frame h h'" using f1 f2 f4 use_frame_trans by blast
  have ge: "0 \<le> j" if "j \<in> set ?L" for j using that L(3) by (auto simp: in_map_def)
  have "dseg (\<lambda>i. hn_anext (nd h' i)) (\<lambda>i. hn_aprev (nd h' i)) (-1) (xs @ ys)"
  proof (rule dseg_delete [OF L(1,2) n1])
    fix j assume j: "j \<in> set (xs @ ys)"
    then have "j \<noteq> i" "0 \<le> j" "j \<noteq> -1" using L(2) ge [of j] n1 by auto
    then show "hn_anext (nd h' j) = (if j = ?pv i then ?nx i else ?nx j)" "hn_aprev (nd h' j) = (if j = ?nx i then ?pv i else ?pv j)"
      using np by (auto simp: nd' nd2 nd1)
  qed
  moreover have "hm_add_head h' = first_of (xs @ ys) (-1)" "hm_add_tail h' = last_of (xs @ ys) (-1)"
    using first_of_delete [OF L(2) n1] last_of_delete [OF L(2)] at L(4,5)
    by (simp_all add: h'_def h4_def h3_def h2_def h1_def)
  ultimately have "lru h' (xs @ ys)" using L(2,3) im by (auto simp: lru_def)
  moreover have "nd h' j = nd h j" if "0 \<le> j" "j \<notin> set ?L" for j
    using that at last_of_in [of xs "-1"] first_in [of ys] by (auto simp: nd' nd2 nd1)
  ultimately show ?thesis
    using \<open>delete_from_add_list i h = Some h'\<close> fr nd' [of i] i by (auto simp: in_map_def)
qed

lemma delete_from_add_list_out:
  assumes "lru h L" "i \<notin> set L" "in_map h i" "hn_anext (nd h i) = -1" "hn_aprev (nd h i) = -1"
  shows "delete_from_add_list i h = Some h"
  using assms first_in [of L] last_of_in [of L "-1"]
  by (auto simp: delete_from_add_list_def node_at_in INVALID_HDR_def lru_def in_map_def)

lemma insert_add_list_head_after:
  assumes d: "delete_from_add_list i h0 = Some h" and l: "lru h L" and i: "i \<notin> set L" "in_map h i"
  shows "\<exists>h'. insert_add_list_head i h0 = Some h' \<and> lru h' (i # L) \<and> use_frame h h' \<and>
    (\<forall>j\<ge>0. j \<notin> set (i # L) \<longrightarrow> nd h' j = nd h j)"
proof -
  let ?old = "first_of L (-1)"
  have L: "dseg (\<lambda>i. hn_anext (nd h i)) (\<lambda>i. hn_aprev (nd h i)) (-1) L" "distinct L" "\<forall>i\<in>set L. in_map h i"
      "hm_add_head h = ?old" "hm_add_tail h = last_of L (-1)"
    using l by (simp_all add: lru_def)
  have n1: "-1 \<notin> set L" using dseg_not_null [OF L(1)] .
  have old: "?old = -1 \<or> in_map h ?old \<and> ?old \<noteq> i" using first_in [of L] L(3) i(1) by auto
  have ge: "0 \<le> j" if "j \<in> set L \<or> j = i" for j using that L(3) i(2) by (auto simp: in_map_def)
  define h1 where "h1 = setn i ((nd h i)\<lparr>hn_anext := ?old\<rparr>) h"
  define h2 where "h2 = h1\<lparr>hm_add_head := i\<rparr>"
  define h3 where "h3 = (if hm_add_tail h2 = -1 then h2\<lparr>hm_add_tail := i\<rparr> else h2)"
  define h4 where "h4 = setn i ((nd h3 i)\<lparr>hn_aprev := -1\<rparr>) h3"
  define h' where "h' = (if ?old = -1 then h4 else setn ?old ((nd h4 ?old)\<lparr>hn_aprev := i\<rparr>) h4)"
  have im: "in_map h1 = in_map h" "in_map h2 = in_map h" "in_map h3 = in_map h" "in_map h4 = in_map h" "in_map h' = in_map h"
    by (simp_all add: h1_def h2_def h3_def h4_def h'_def)
  have r: "insert_add_list_head i h0 = Some h'"
  proof -
    have 1: "upd_node i (\<lambda>m. m\<lparr>hn_anext := ?old\<rparr>) h = Some h1" using i(2) by (simp add: h1_def upd_node_in)
    have 2: "upd_node i (\<lambda>m. m\<lparr>hn_aprev := -1\<rparr>) h3 = Some h4" using i(2) im by (simp add: h4_def upd_node_in)
    have 3: "upd_link ?old (\<lambda>m. m\<lparr>hn_aprev := i\<rparr>) h4 = Some h'" using old im by (auto simp: h'_def upd_link_in)
    show ?thesis
      unfolding insert_add_list_head_def d Option.bind_lunit INVALID_HDR_def L(4) Let_def 1 h2_def [symmetric] h3_def [symmetric] 2 3 ..
  qed
  have nd3: "nd h3 = nd h1" by (simp add: h3_def h2_def)
  have nd4: "nd h4 j = (if j = i then (nd h i)\<lparr>hn_anext := ?old, hn_aprev := -1\<rparr> else nd h j)" if "0 \<le> j" for j
    using i(2) that im ge [of i] by (auto simp: h4_def nd_setn nd3 h1_def)
  have nd': "nd h' j = (if j = ?old \<and> ?old \<noteq> -1 then (nd h4 j)\<lparr>hn_aprev := i\<rparr> else nd h4 j)" if "0 \<le> j" for j
    using old im that by (auto simp: h'_def nd_setn)
  have "use_frame h h1" using i(2) by (auto simp: h1_def simp: unused_def intro!: use_frame_setn)
  moreover have "use_frame h1 h3" by (auto simp: h3_def h2_def intro: use_frame_trans [OF use_frame_anchor(1) use_frame_anchor(2)])
  moreover have "use_frame h3 h4" using i(2) im by (auto simp: h4_def simp: unused_def intro!: use_frame_setn)
  moreover have "use_frame h4 h'" using old im by (auto simp: h'_def simp: unused_def intro!: use_frame_setn)
  ultimately have fr: "use_frame h h'" using use_frame_trans by blast
  have "dseg (\<lambda>i. hn_anext (nd h' i)) (\<lambda>i. hn_aprev (nd h' i)) (-1) (i # L)"
  proof (rule dseg_push [OF L(1) i(1) _ _ _ _ _ L(2)])
    show "i \<noteq> -1" using i(2) by (simp add: in_map_def)
    show "hn_anext (nd h' i) = ?old" "hn_aprev (nd h' i) = -1" using ge [of i] old by (auto simp: nd' nd4)
    fix j assume j: "j \<in> set L"
    then have "j \<noteq> i" "0 \<le> j" "j \<noteq> -1" using i(1) ge n1 by auto
    then show "hn_anext (nd h' j) = hn_anext (nd h j)" "hn_aprev (nd h' j) = (if j = ?old then i else hn_aprev (nd h j))"
      by (auto simp: nd' nd4)
  qed
  moreover have "hm_add_head h' = i" "hm_add_tail h' = last_of L i"
    using L(5) last_of_null [OF n1] by (auto simp: h'_def h4_def h3_def h2_def h1_def last_of_def)
  ultimately have "lru h' (i # L)" using L(2,3) i im by (simp add: lru_def)
  moreover have "nd h' j = nd h j" if "0 \<le> j" "j \<notin> set (i # L)" for j
    using that first_in [of L] by (auto simp: nd' nd4)
  ultimately show ?thesis using r fr by blast
qed

text \<open>A node is brought to the front, or put there.\<close>

lemma insert_add_list_head_in:
  assumes l: "lru h (xs @ i # ys)"
  shows "\<exists>h'. insert_add_list_head i h = Some h' \<and> lru h' (i # xs @ ys) \<and> use_frame h h' \<and>
    (\<forall>j\<ge>0. j \<notin> set (xs @ i # ys) \<longrightarrow> nd h' j = nd h j)"
proof -
  obtain h1 where 1: "delete_from_add_list i h = Some h1" "lru h1 (xs @ ys)" "use_frame h h1"
      "\<forall>j\<ge>0. j \<notin> set (xs @ i # ys) \<longrightarrow> nd h1 j = nd h j"
    using delete_from_add_list_in [OF l] by blast
  have i: "i \<notin> set (xs @ ys)" "in_map h1 i" using l use_frame_fields(9) [OF 1(3)] by (simp_all add: lru_def)
  from insert_add_list_head_after [OF 1(1,2) i] obtain h' where 2: "insert_add_list_head i h = Some h'" "lru h' (i # xs @ ys)"
      "use_frame h1 h'" "\<forall>j\<ge>0. j \<notin> set (i # xs @ ys) \<longrightarrow> nd h' j = nd h1 j"
    by blast
  show ?thesis using 1(4) 2 use_frame_trans [OF 1(3) 2(3)] by auto
qed

lemma insert_add_list_head_new:
  assumes "lru h L" "i \<notin> set L" "in_map h i" "hn_anext (nd h i) = -1" "hn_aprev (nd h i) = -1"
  shows "\<exists>h'. insert_add_list_head i h = Some h' \<and> lru h' (i # L) \<and> use_frame h h' \<and>
    (\<forall>j\<ge>0. j \<notin> set (i # L) \<longrightarrow> nd h' j = nd h j)"
  by (rule insert_add_list_head_after [OF delete_from_add_list_out [OF assms] assms(1-3)])

text \<open>A use of a node counts, and puts it first.\<close>

lemma touch_node_from:
  fixes h :: "'k hmap"
  assumes l: "lru h L" and i: "in_map h i"
    and ins: "\<And>g :: 'k hmap. lru g L \<Longrightarrow> in_map g i \<Longrightarrow> hn_anext (nd g i) = a \<Longrightarrow> hn_aprev (nd g i) = b \<Longrightarrow>
      \<exists>h'. insert_add_list_head i g = Some h' \<and> lru h' L' \<and> use_frame g h' \<and> (\<forall>j\<ge>0. j \<notin> set L' \<longrightarrow> nd h' j = nd g j)"
    and ab: "hn_anext (nd h i) = a" "hn_aprev (nd h i) = b" and i': "i \<in> set L'"
  shows "\<exists>h'. touch_node now i h = Some h' \<and> lru h' L' \<and> use_frame h h' \<and> (\<forall>j\<ge>0. j \<notin> set L' \<longrightarrow> nd h' j = nd h j)"
proof -
  define h1 where "h1 = setn i ((nd h i)\<lparr>hn_time := now, hn_count := hn_count (nd h i) + 1\<rparr>) h"
  have n: "nd h1 j = (if j = i then (nd h i)\<lparr>hn_time := now, hn_count := hn_count (nd h i) + 1\<rparr> else nd h j)" if "0 \<le> j" for j
    using nd_setn [OF i that] by (simp add: h1_def)
  have fr: "use_frame h h1" using i by (auto simp: h1_def unused_def intro!: use_frame_setn)
  have l1: "lru h1 L"
  proof (rule lru_cong [OF l])
    fix j assume "j \<in> set L"
    then have "0 \<le> j" using l by (auto simp: lru_def in_map_def)
    then show "hn_anext (nd h1 j) = hn_anext (nd h j) \<and> hn_aprev (nd h1 j) = hn_aprev (nd h j)" using n by simp
  qed (simp_all add: h1_def)
  have i1: "in_map h1 i" "hn_anext (nd h1 i) = a" "hn_aprev (nd h1 i) = b" using i ab n [of i] by (auto simp: h1_def in_map_def)
  obtain h' where 2: "insert_add_list_head i h1 = Some h'" "lru h' L'" "use_frame h1 h'" "\<forall>j\<ge>0. j \<notin> set L' \<longrightarrow> nd h' j = nd h1 j"
    using ins [OF l1 i1] by blast
  have "touch_node now i h = Some h'" using 2(1) i by (simp add: touch_node_def upd_node_in h1_def)
  moreover have "\<forall>j\<ge>0. j \<notin> set L' \<longrightarrow> nd h' j = nd h j" using 2(4) n i' by metis
  ultimately show ?thesis using 2(2) use_frame_trans [OF fr 2(3)] by blast
qed

lemma touch_node_in:
  assumes "lru h (xs @ i # ys)"
  shows "\<exists>h'. touch_node now i h = Some h' \<and> lru h' (i # xs @ ys) \<and> use_frame h h' \<and>
    (\<forall>j\<ge>0. j \<notin> set (i # xs @ ys) \<longrightarrow> nd h' j = nd h j)"
proof (rule touch_node_from [OF assms])
  show "in_map h i" using assms by (simp add: lru_def)
  show "\<exists>h'. insert_add_list_head i h = Some h' \<and> lru h' (i # xs @ ys) \<and> use_frame h h' \<and>
      (\<forall>j\<ge>0. j \<notin> set (i # xs @ ys) \<longrightarrow> nd h' j = nd h j)" if "lru h (xs @ i # ys)" for h :: "'a hmap"
    using insert_add_list_head_in [OF that] by simp
qed simp_all

lemma touch_node_new:
  assumes "lru h L" "i \<notin> set L" "in_map h i" "hn_anext (nd h i) = -1" "hn_aprev (nd h i) = -1"
  shows "\<exists>h'. touch_node now i h = Some h' \<and> lru h' (i # L) \<and> use_frame h h' \<and>
    (\<forall>j\<ge>0. j \<notin> set (i # L) \<longrightarrow> nd h' j = nd h j)"
  by (rule touch_node_from [OF assms(1,3) insert_add_list_head_new [OF _ assms(2)] assms(4,5)]) simp_all

end
