(* ===== verification/HashMapLists.thy ===== *)
theory HashMapLists
  imports HashMapRep
begin

text \<open>
  The lists of the hash map: searching a bucket, and putting a node into a bucket or the free
  list and taking it out.
\<close>

section \<open>Buckets\<close>

lemma slot_less: "lists_ok h B \<Longrightarrow> slot h k < nat (hm_bucket_size h)"
  by (simp add: slot_def lists_ok_def)

lemma bucket_id_slot: "lists_ok h B \<Longrightarrow> get_bucket_id h k = Some (slot h k)"
  by (simp add: get_bucket_id_def slot_def lists_ok_def)

lemma bucket_first: "lists_ok h B \<Longrightarrow> b < nat (hm_bucket_size h) \<Longrightarrow> bucket_at h b = Some (first_of (B b) (-1))"
  by (simp add: bucket_at_def lists_ok_def bucket_list_def)

lemma bucket_list_of: "lists_ok h B \<Longrightarrow> b < nat (hm_bucket_size h) \<Longrightarrow> bucket_list h b (B b)"
  by (simp add: lists_ok_def)

lemma nodes_length:
  assumes "distinct xs" "\<forall>i\<in>set xs. in_map h i"
  shows "length xs \<le> length (hm_nodes h)"
proof -
  have "set xs \<subseteq> {0..<int (length (hm_nodes h))}" using assms(2) by (auto simp: in_map_def)
  then have "card (set xs) \<le> card {0..<int (length (hm_nodes h))}" by (intro card_mono) simp_all
  then show ?thesis using assms(1) by (simp add: distinct_card)
qed

lemma node_fuel_enough: "distinct xs \<Longrightarrow> \<forall>i\<in>set xs. in_map h i \<Longrightarrow> length xs < node_fuel h"
  using nodes_length [of xs h] by (simp add: node_fuel_def)

lemma find_loop_sseg:
  assumes "sseg (\<lambda>i. hn_next (nd h i)) xs" "\<forall>i\<in>set xs. in_map h i" "length xs < fuel"
  shows "find_loop fuel h k (first_of xs (-1)) = Some (case find (\<lambda>i. hn_key (nd h i) = k) xs of None \<Rightarrow> -1 | Some i \<Rightarrow> i)"
  using assms
proof (induction xs arbitrary: fuel)
  case Nil
  then show ?case by (cases fuel) (simp_all add: INVALID_HDR_def)
next
  case (Cons x xs)
  then show ?case by (cases fuel) (auto simp: INVALID_HDR_def node_at_in)
qed

lemma list_len_sseg:
  assumes "sseg (\<lambda>i. hn_next (nd h i)) xs" "\<forall>i\<in>set xs. in_map h i" "length xs < fuel"
  shows "list_len fuel h (first_of xs (-1)) = Some (length xs)"
  using assms
proof (induction xs arbitrary: fuel)
  case Nil
  then show ?case by (cases fuel) (simp_all add: INVALID_HDR_def)
next
  case (Cons x xs)
  then show ?case by (cases fuel) (auto simp: INVALID_HDR_def node_at_in)
qed

lemma bucket_list_sseg:
  assumes "lists_ok h B" "b < nat (hm_bucket_size h)"
  shows "sseg (\<lambda>i. hn_next (nd h i)) (B b)" "\<forall>i\<in>set (B b). in_map h i" "length (B b) < node_fuel h" "distinct (B b)"
proof -
  have b: "bucket_list h b (B b)" using bucket_list_of [OF assms] .
  then show "sseg (\<lambda>i. hn_next (nd h i)) (B b)" "\<forall>i\<in>set (B b). in_map h i" "distinct (B b)"
    by (auto simp: bucket_list_def dest: dseg_sseg)
  then show "length (B b) < node_fuel h" using node_fuel_enough by blast
qed

lemma bucket_len:
  assumes "lists_ok h B" "b < nat (hm_bucket_size h)"
  shows "get_bucket_list_len h b = Some (length (B b))"
  using bucket_first [OF assms] list_len_sseg [OF bucket_list_sseg(1-3) [OF assms]] by (simp add: get_bucket_list_len_def)

text \<open>A node of the map stands in the bucket of its key and nowhere else.\<close>

lemma node_bucket:
  assumes "lists_ok h B" "i \<in> map_nodes h B"
  shows "i \<in> set (B (slot h (hn_key (nd h i))))" "in_map h i"
  using assms by (auto simp: map_nodes_def lists_ok_def bucket_list_def)

lemma in_bucket: "lists_ok h B \<Longrightarrow> b < nat (hm_bucket_size h) \<Longrightarrow> i \<in> set (B b) \<Longrightarrow> i \<in> map_nodes h B \<and> slot h (hn_key (nd h i)) = b"
  by (auto simp: map_nodes_def lists_ok_def bucket_list_def)

section \<open>Frames\<close>

text \<open>Everything but the links of the buckets and free nodes and the counts.\<close>

definition list_frame :: "'k hmap \<Rightarrow> 'k hmap \<Rightarrow> bool" where
  "list_frame h h' \<longleftrightarrow> h'\<lparr>hm_used_node := 0, hm_used_bucket := 0, hm_free := 0, hm_bucket := [], hm_nodes := []\<rparr> =
       h\<lparr>hm_used_node := 0, hm_used_bucket := 0, hm_free := 0, hm_bucket := [], hm_nodes := []\<rparr> \<and>
     length (hm_nodes h') = length (hm_nodes h) \<and>
     (\<forall>i\<ge>0. (nd h' i)\<lparr>hn_next := 0, hn_prev := 0\<rparr> = (nd h i)\<lparr>hn_next := 0, hn_prev := 0\<rparr>)"

lemma list_frame_refl [simp]: "list_frame h h"
  by (simp add: list_frame_def)

lemma list_frame_trans: "list_frame a b \<Longrightarrow> list_frame b c \<Longrightarrow> list_frame a c"
  unfolding list_frame_def by metis

lemma list_frame_setn:
  assumes "in_map h i" "m\<lparr>hn_next := 0, hn_prev := 0\<rparr> = (nd h i)\<lparr>hn_next := 0, hn_prev := 0\<rparr>"
  shows "list_frame h (setn i m h)"
  using assms by (auto simp: list_frame_def nd_setn)

lemma list_frame_members [simp]:
  "list_frame h (h\<lparr>hm_used_node := a\<rparr>)" "list_frame h (h\<lparr>hm_used_bucket := a\<rparr>)" "list_frame h (h\<lparr>hm_free := a\<rparr>)"
  "list_frame h (h\<lparr>hm_bucket := b\<rparr>)"
  by (simp_all add: list_frame_def)

lemma list_frame_fields:
  assumes "list_frame h h'"
  shows "hm_node_total h' = hm_node_total h" "hm_bucket_size h' = hm_bucket_size h" "hm_add_head h' = hm_add_head h"
    "hm_add_tail h' = hm_add_tail h" "hm_alloc h' = hm_alloc h" "hm_hash h' = hm_hash h" "in_map h' = in_map h"
    "0 \<le> i \<Longrightarrow> hn_key (nd h' i) = hn_key (nd h i)" "0 \<le> i \<Longrightarrow> hn_len (nd h' i) = hn_len (nd h i)"
    "0 \<le> i \<Longrightarrow> hn_chunk (nd h' i) = hn_chunk (nd h i)" "0 \<le> i \<Longrightarrow> hn_anext (nd h' i) = hn_anext (nd h i)"
    "0 \<le> i \<Longrightarrow> hn_aprev (nd h' i) = hn_aprev (nd h i)"
proof -
  have e: "h'\<lparr>hm_used_node := 0, hm_used_bucket := 0, hm_free := 0, hm_bucket := [], hm_nodes := []\<rparr> =
      h\<lparr>hm_used_node := 0, hm_used_bucket := 0, hm_free := 0, hm_bucket := [], hm_nodes := []\<rparr>"
    "length (hm_nodes h') = length (hm_nodes h)" using assms by (simp_all add: list_frame_def)
  then show "hm_node_total h' = hm_node_total h" "hm_bucket_size h' = hm_bucket_size h" "hm_add_head h' = hm_add_head h"
    "hm_add_tail h' = hm_add_tail h" "hm_alloc h' = hm_alloc h" "hm_hash h' = hm_hash h"
    by (cases h; cases h'; simp)+
  show "in_map h' = in_map h" using e(2) by (simp add: in_map_def fun_eq_iff)
  assume "0 \<le> i"
  then have n: "(nd h' i)\<lparr>hn_next := 0, hn_prev := 0\<rparr> = (nd h i)\<lparr>hn_next := 0, hn_prev := 0\<rparr>"
    using assms by (simp add: list_frame_def)
  show "hn_key (nd h' i) = hn_key (nd h i)" "hn_len (nd h' i) = hn_len (nd h i)" "hn_chunk (nd h' i) = hn_chunk (nd h i)"
    "hn_anext (nd h' i) = hn_anext (nd h i)" "hn_aprev (nd h' i) = hn_aprev (nd h i)"
    using n by (cases "nd h i"; cases "nd h' i"; simp)+
qed

lemma in_map_ge: "in_map h i \<Longrightarrow> 0 \<le> i"
  by (simp add: in_map_def)

lemma lru_ge: "lru h L \<Longrightarrow> i \<in> set L \<Longrightarrow> 0 \<le> i"
  by (auto simp: lru_def in_map_def)

lemma map_nodes_ge: "lists_ok h B \<Longrightarrow> i \<in> map_nodes h B \<Longrightarrow> 0 \<le> i"
  using node_bucket(2) in_map_ge by blast

lemma lru_list_frame: "lru h L \<Longrightarrow> list_frame h h' \<Longrightarrow> lru h' L"
  by (rule lru_cong) (auto simp: list_frame_fields lru_ge)

lemma values_list_frame:
  assumes "values_ok h M V L" "\<forall>i\<in>set L. 0 \<le> i" "list_frame h h'"
  shows "values_ok h' M V L"
  using assms by (intro values_ok_cong [OF assms(1)]) (auto simp: list_frame_fields)

lemma lists_use_frame:
  assumes "lists_ok h B" "use_frame h h'"
  shows "lists_ok h' B"
  using assms by (intro lists_ok_cong [OF assms(1)]) (auto simp: use_frame_fields map_nodes_ge)

lemma values_use_frame:
  assumes "values_ok h M V L" "\<forall>i\<in>set L. 0 \<le> i" "use_frame h h'" "set L' = set L"
  shows "values_ok h' M V L'"
  using assms by (intro values_ok_cong [OF assms(1)]) (auto simp: use_frame_fields)

section \<open>A node into its bucket\<close>

lemma insert_node_list_spec:
  assumes ok: "lists_ok h B" and i: "in_map h i" "i \<notin> map_nodes h B" and b: "b = slot h (hn_key (nd h i))"
  shows "\<exists>h'. insert_node_list i h = Some h' \<and> lists_ok h' (B(b := i # B b)) \<and> list_frame h h' \<and>
    hm_used_node h' = hm_used_node h + 1 \<and> hm_used_bucket h' = hm_used_bucket h \<and> hm_free h' = hm_free h \<and>
    (\<forall>j\<ge>0. j \<notin> set (i # B b) \<longrightarrow> nd h' j = nd h j)"
proof -
  have bl: "b < nat (hm_bucket_size h)" using slot_less [OF ok] b by simp
  let ?old = "first_of (B b) (-1)"
  have B: "dseg (\<lambda>i. hn_next (nd h i)) (\<lambda>i. hn_prev (nd h i)) (-1) (B b)" "distinct (B b)"
      "\<forall>i\<in>set (B b). in_map h i \<and> slot h (hn_key (nd h i)) = b"
    using bucket_list_of [OF ok bl] by (simp_all add: bucket_list_def)
  have iB: "i \<notin> set (B b)" using i(2) bl by (auto simp: map_nodes_def)
  have n1: "-1 \<notin> set (B b)" using dseg_not_null [OF B(1)] .
  have old: "?old = -1 \<or> in_map h ?old \<and> ?old \<noteq> i" using first_in [of "B b"] B(3) iB by auto
  have ge: "0 \<le> j" if "j \<in> set (B b) \<or> j = i" for j using that B(3) i(1) by (auto simp: in_map_def)
  define h1 where "h1 = setn i ((nd h i)\<lparr>hn_next := ?old, hn_prev := -1\<rparr>) h"
  define h2 where "h2 = h1\<lparr>hm_bucket := (hm_bucket h)[b := i]\<rparr>"
  define h3 where "h3 = (if ?old = -1 then h2 else setn ?old ((nd h2 ?old)\<lparr>hn_prev := i\<rparr>) h2)"
  define h' where "h' = h3\<lparr>hm_used_node := hm_used_node h + 1\<rparr>"
  have im: "in_map h1 = in_map h" "in_map h2 = in_map h" "in_map h3 = in_map h" "in_map h' = in_map h"
    by (simp_all add: h1_def h2_def h3_def h'_def)
  have r: "insert_node_list i h = Some h'"
  proof -
    have 1: "upd_node i (\<lambda>m. m\<lparr>hn_next := ?old, hn_prev := INVALID_HDR\<rparr>) h = Some h1" using i by (simp add: h1_def upd_node_in INVALID_HDR_def)
    have 2: "upd_link ?old (\<lambda>m. m\<lparr>hn_prev := i\<rparr>) h2 = Some h3" using old im by (auto simp: h3_def upd_link_in)
    have 3: "hm_used_node h3 = hm_used_node h" "hm_bucket h1 = hm_bucket h" by (simp_all add: h3_def h2_def h1_def)
    show ?thesis
      unfolding insert_node_list_def node_at_in [OF i(1)] Option.bind_lunit bucket_id_slot [OF ok] b [symmetric] bucket_first [OF ok bl] 1
        3(2) h2_def [symmetric] 2 3(1) h'_def [symmetric] ..
  qed
  have nd2: "nd h2 j = (if j = i then (nd h i)\<lparr>hn_next := ?old, hn_prev := -1\<rparr> else nd h j)" if "0 \<le> j" for j
    using i(1) that by (simp add: h2_def h1_def nd_setn)
  have nd': "nd h' j = (if j = ?old \<and> ?old \<noteq> -1 then (nd h2 j)\<lparr>hn_prev := i\<rparr> else nd h2 j)" if "0 \<le> j" for j
    using old im that by (auto simp: h'_def h3_def nd_setn)
  have "list_frame h h1" using i(1) by (auto simp: h1_def intro!: list_frame_setn)
  moreover have "list_frame h1 h2" by (simp add: h2_def)
  moreover have "list_frame h2 h3" using old im by (auto simp: h3_def intro!: list_frame_setn)
  moreover have "list_frame h3 h'" by (simp add: h'_def)
  ultimately have fr: "list_frame h h'" using list_frame_trans by blast
  have out: "nd h' j = nd h j" if "0 \<le> j" "j \<notin> set (i # B b)" for j
    using that first_in [of "B b"] by (auto simp: nd' nd2)
  have bk: "hm_bucket h' = (hm_bucket h)[b := i]" by (simp add: h'_def h3_def h2_def)
  have sz: "hm_bucket_size h' = hm_bucket_size h" "slot h' = slot h"
    using list_frame_fields(2,6) [OF fr] by (simp_all add: slot_def fun_eq_iff)
  have "bucket_list h' b (i # B b)"
  proof -
    have "dseg (\<lambda>i. hn_next (nd h' i)) (\<lambda>i. hn_prev (nd h' i)) (-1) (i # B b)"
    proof (rule dseg_push [OF B(1) iB _ _ _ _ _ B(2)])
      show "i \<noteq> -1" using i(1) by (simp add: in_map_def)
      show "hn_next (nd h' i) = ?old" "hn_prev (nd h' i) = -1" using ge [of i] old by (auto simp: nd' nd2)
      fix j assume j: "j \<in> set (B b)"
      then have "j \<noteq> i" "0 \<le> j" "j \<noteq> -1" using iB ge n1 by auto
      then show "hn_next (nd h' j) = hn_next (nd h j)" "hn_prev (nd h' j) = (if j = ?old then i else hn_prev (nd h j))"
        by (auto simp: nd' nd2)
    qed
    moreover have "hm_bucket h' ! b = i" using bk ok bl by (simp add: lists_ok_def)
    moreover have "in_map h' j \<and> slot h' (hn_key (nd h' j)) = b" if "j \<in> set (i # B b)" for j
      using that B(3) i(1) b im sz list_frame_fields(8) [OF fr, of j] ge [of j] by auto
    ultimately show ?thesis using B(2) iB by (simp add: bucket_list_def)
  qed
  moreover have "bucket_list h' c (B c)" if c: "c < nat (hm_bucket_size h)" "c \<noteq> b" for c
  proof (rule bucket_list_cong [OF bucket_list_of [OF ok c(1)]])
    show "hm_bucket h' ! c = hm_bucket h ! c" using bk c(2) by simp
    fix j assume j: "j \<in> set (B c)"
    then have "j \<notin> set (i # B b)" "0 \<le> j"
      using in_bucket [OF ok c(1)] in_bucket [OF ok bl] c(2) i(2) map_nodes_ge [OF ok] by auto
    then show "hn_next (nd h' j) = hn_next (nd h j) \<and> hn_prev (nd h' j) = hn_prev (nd h j) \<and> hn_key (nd h' j) = hn_key (nd h j)"
      using out by simp
  qed (use sz list_frame_fields(6) [OF fr] im in simp_all)
  ultimately have "lists_ok h' (B(b := i # B b))" using ok sz(1) bk by (auto simp: lists_ok_def)
  then show ?thesis using r fr out by (intro exI [of _ h']) (simp add: h'_def h3_def h2_def h1_def)
qed

section \<open>A node out of its bucket\<close>

lemma delete_from_node_list_spec:
  assumes ok: "lists_ok h B" and i: "i \<in> map_nodes h B" and b: "b = slot h (hn_key (nd h i))" and split: "B b = xs @ i # ys"
  shows "\<exists>h'. delete_from_node_list i h = Some h' \<and> lists_ok h' (B(b := xs @ ys)) \<and> list_frame h h' \<and>
    hm_used_node h' = hm_used_node h - 1 \<and> hm_used_bucket h' = hm_used_bucket h \<and> hm_free h' = hm_free h \<and>
    (\<forall>j\<ge>0. j \<notin> set (B b) \<longrightarrow> nd h' j = nd h j)"
proof -
  have bl: "b < nat (hm_bucket_size h)" using slot_less [OF ok] b by simp
  let ?nx = "\<lambda>i. hn_next (nd h i)" and ?pv = "\<lambda>i. hn_prev (nd h i)" and ?L = "xs @ i # ys"
  have L: "dseg ?nx ?pv (-1) ?L" "distinct ?L" "\<forall>i\<in>set ?L. in_map h i \<and> slot h (hn_key (nd h i)) = b"
    using bucket_list_of [OF ok bl] by (simp_all add: bucket_list_def split)
  have n1: "-1 \<notin> set ?L" using dseg_not_null [OF L(1)] .
  have at: "?pv i = last_of xs (-1)" "?nx i = first_of ys (-1)" using dseg_at [OF L(1)] by simp_all
  have i': "in_map h i" "i \<noteq> -1" using L(3) n1 by auto
  have pin: "?pv i = -1 \<or> in_map h (?pv i) \<and> ?pv i \<noteq> i" using at(1) last_of_in [of xs "-1"] L(2,3) by auto
  have nin: "?nx i = -1 \<or> in_map h (?nx i) \<and> ?nx i \<noteq> i" using at(2) first_in [of ys] L(2,3) by auto
  have np: "?nx i = -1 \<or> ?nx i \<noteq> ?pv i" using at last_of_in [of xs "-1"] first_in [of ys] L(2) n1 by auto
  define h1 where "h1 = (if ?pv i = -1 then h else setn (?pv i) ((nd h (?pv i))\<lparr>hn_next := ?nx i\<rparr>) h)"
  define h2 where "h2 = (if ?nx i = -1 then h1 else setn (?nx i) ((nd h1 (?nx i))\<lparr>hn_prev := ?pv i\<rparr>) h1)"
  define h3 where "h3 = (if i = first_of ?L (-1) then h2\<lparr>hm_bucket := (hm_bucket h2)[b := ?nx i]\<rparr> else h2)"
  define h4 where "h4 = setn i ((nd h3 i)\<lparr>hn_next := -1, hn_prev := -1\<rparr>) h3"
  define h' where "h' = h4\<lparr>hm_used_node := hm_used_node h4 - 1\<rparr>"
  have im: "in_map h1 = in_map h" "in_map h2 = in_map h" "in_map h3 = in_map h" "in_map h4 = in_map h" "in_map h' = in_map h"
    by (simp_all add: h1_def h2_def h3_def h4_def h'_def)
  have hb: "hm_bucket h2 = hm_bucket h" "hm_bucket_size h2 = hm_bucket_size h" "hm_hash h2 = hm_hash h" by (simp_all add: h2_def h1_def)
  have r: "delete_from_node_list i h = Some h'"
  proof -
    have 1: "upd_link (?pv i) (\<lambda>m. m\<lparr>hn_next := ?nx i\<rparr>) h = Some h1" using pin by (auto simp: h1_def upd_link_in)
    have 2: "upd_link (?nx i) (\<lambda>m. m\<lparr>hn_prev := ?pv i\<rparr>) h1 = Some h2" using nin im by (auto simp: h2_def upd_link_in)
    have "get_bucket_id h2 = get_bucket_id h" using hb by (simp add: get_bucket_id_def fun_eq_iff)
    then have 3: "get_bucket_id h2 (hn_key (nd h i)) = Some b" using bucket_id_slot [OF ok] b by simp
    have "bucket_at h2 = bucket_at h" using hb by (simp add: bucket_at_def fun_eq_iff)
    then have 4: "bucket_at h2 b = Some (first_of ?L (-1))" using bucket_first [OF ok bl] split by simp
    have 5: "upd_node i (\<lambda>m. m\<lparr>hn_next := INVALID_HDR, hn_prev := INVALID_HDR\<rparr>) h3 = Some h4"
      using i'(1) im by (simp add: h4_def upd_node_in INVALID_HDR_def)
    show ?thesis
      unfolding delete_from_node_list_def node_at_in [OF i'(1)] Option.bind_lunit 1 2 3 4 Let_def h3_def [symmetric] 5 h'_def [symmetric] ..
  qed
  have nd1: "nd h1 j = (if j = ?pv i \<and> ?pv i \<noteq> -1 then (nd h j)\<lparr>hn_next := ?nx i\<rparr> else nd h j)" if "0 \<le> j" for j
    using pin that by (auto simp: h1_def nd_setn)
  have nd2: "nd h2 j = (if j = ?nx i \<and> ?nx i \<noteq> -1 then (nd h1 j)\<lparr>hn_prev := ?pv i\<rparr> else nd h1 j)" if "0 \<le> j" for j
    using nin that im by (auto simp: h2_def nd_setn)
  have nd3: "nd h3 = nd h2" by (simp add: h3_def)
  have nd': "nd h' j = (if j = i then (nd h2 j)\<lparr>hn_next := -1, hn_prev := -1\<rparr> else nd h2 j)" if "0 \<le> j" for j
    using i'(1) that im by (simp add: h'_def h4_def nd_setn nd3)
  have "list_frame h h1" using pin by (auto simp: h1_def intro!: list_frame_setn)
  moreover have "list_frame h1 h2" using nin im by (auto simp: h2_def intro!: list_frame_setn)
  moreover have "list_frame h2 h3" by (simp add: h3_def)
  moreover have "list_frame h3 h4" using i'(1) im by (auto simp: h4_def intro!: list_frame_setn)
  moreover have "list_frame h4 h'" by (simp add: h'_def)
  ultimately have fr: "list_frame h h'" using list_frame_trans by blast
  have ge: "0 \<le> j" if "j \<in> set ?L" for j using that L(3) by (auto simp: in_map_def)
  have out: "nd h' j = nd h j" if "0 \<le> j" "j \<notin> set ?L" for j
    using that at last_of_in [of xs "-1"] first_in [of ys] by (auto simp: nd' nd2 nd1)
  have bk: "hm_bucket h' = (if i = first_of ?L (-1) then (hm_bucket h)[b := ?nx i] else hm_bucket h)"
    using hb by (simp add: h'_def h4_def h3_def)
  have sz: "hm_bucket_size h' = hm_bucket_size h" "slot h' = slot h"
    using list_frame_fields(2,6) [OF fr] by (simp_all add: slot_def fun_eq_iff)
  have "bucket_list h' b (xs @ ys)"
  proof -
    have "dseg (\<lambda>i. hn_next (nd h' i)) (\<lambda>i. hn_prev (nd h' i)) (-1) (xs @ ys)"
    proof (rule dseg_delete [OF L(1,2) n1])
      fix j assume j: "j \<in> set (xs @ ys)"
      then have "j \<noteq> i" "0 \<le> j" "j \<noteq> -1" using L(2) ge [of j] n1 by auto
      then show "hn_next (nd h' j) = (if j = ?pv i then ?nx i else ?nx j)" "hn_prev (nd h' j) = (if j = ?nx i then ?pv i else ?pv j)"
        using np by (auto simp: nd' nd2 nd1)
    qed
    moreover have "hm_bucket h' ! b = first_of (xs @ ys) (-1)"
      using bk ok bl first_of_delete [OF L(2) n1] at(2) bucket_list_of [OF ok bl] split by (auto simp: lists_ok_def bucket_list_def)
    moreover have "in_map h' j \<and> slot h' (hn_key (nd h' j)) = b" if "j \<in> set (xs @ ys)" for j
      using that L(3) im sz list_frame_fields(8) [OF fr, of j] ge [of j] by auto
    ultimately show ?thesis using L(2) by (simp add: bucket_list_def)
  qed
  moreover have "bucket_list h' c (B c)" if c: "c < nat (hm_bucket_size h)" "c \<noteq> b" for c
  proof (rule bucket_list_cong [OF bucket_list_of [OF ok c(1)]])
    show "hm_bucket h' ! c = hm_bucket h ! c" using bk c(2) by simp
    fix j assume j: "j \<in> set (B c)"
    then have "j \<notin> set ?L" "0 \<le> j"
      using in_bucket [OF ok c(1)] in_bucket [OF ok bl] c(2) map_nodes_ge [OF ok] split by auto
    then show "hn_next (nd h' j) = hn_next (nd h j) \<and> hn_prev (nd h' j) = hn_prev (nd h j) \<and> hn_key (nd h' j) = hn_key (nd h j)"
      using out by simp
  qed (use sz list_frame_fields(6) [OF fr] im in simp_all)
  ultimately have "lists_ok h' (B(b := xs @ ys))" using ok sz(1) bk by (auto simp: lists_ok_def)
  then show ?thesis using r fr out split by (intro exI [of _ h']) (simp add: h'_def h4_def h3_def h2_def h1_def)
qed

section \<open>Taking a node into use and giving it back\<close>

text \<open>What a node stores, its links of recent use, and the members of the map that stay.\<close>

definition core :: "'k hnode \<Rightarrow> 'k \<times> nat \<times> int" where
  "core n = (hn_key n, hn_len n, hn_chunk n)"

definition uses :: "'k hnode \<Rightarrow> int \<times> int" where
  "uses n = (hn_anext n, hn_aprev n)"

definition rest :: "'k hmap \<Rightarrow> (int \<times> int \<times> ('k \<Rightarrow> nat)) \<times> int \<times> int \<times> int \<times> nat" where
  "rest h = ((hm_node_total h, hm_bucket_size h, hm_hash h), hm_free h, hm_add_head h, hm_add_tail h, length (hm_nodes h))"

lemma restD:
  assumes "rest h' = rest h"
  shows "hm_node_total h' = hm_node_total h" "hm_bucket_size h' = hm_bucket_size h" "hm_hash h' = hm_hash h" "hm_free h' = hm_free h"
    "hm_add_head h' = hm_add_head h" "hm_add_tail h' = hm_add_tail h" "in_map h' = in_map h" "slot h' = slot h"
  using assms by (simp_all add: rest_def in_map_def slot_def fun_eq_iff)

lemma list_len_cong: "hm_nodes h' = hm_nodes h \<Longrightarrow> list_len n h' j = list_len n h j"
  by (induction n arbitrary: j) (simp_all add: node_at_def split: option.split)

lemma bucket_len_cong: "hm_nodes h = hm_nodes h' \<Longrightarrow> hm_bucket h = hm_bucket h' \<Longrightarrow> get_bucket_list_len h = get_bucket_list_len h'"
  by (simp add: get_bucket_list_len_def fun_eq_iff bucket_at_def node_fuel_def list_len_cong [of h' h] del: list_len.simps)

lemma use_node_spec:
  assumes ok: "lists_ok h B" and i: "in_map h i" "i \<notin> map_nodes h B" and b: "b = slot h k"
  shows "\<exists>h'. use_node i k len c h = Some h' \<and> lists_ok h' (B(b := i # B b)) \<and> hm_used_node h' = hm_used_node h + 1 \<and>
    hm_used_bucket h' = hm_used_bucket h + (if B b = [] then 1 else 0) \<and> rest h' = rest h \<and> hm_alloc h' = hm_alloc h \<and>
    (\<forall>j\<ge>0. core (nd h' j) = (if j = i then (k, len, c) else core (nd h j)) \<and> uses (nd h' j) = uses (nd h j)) \<and>
    (\<forall>j\<ge>0. j \<notin> set (i # B b) \<longrightarrow> nd h' j = nd h j)"
proof -
  define h1 where "h1 = setn i ((nd h i)\<lparr>hn_key := k, hn_len := len, hn_chunk := c, hn_time := 0, hn_count := 0\<rparr>) h"
  define h2 where "h2 = (if length (B b) = 0 then h1\<lparr>hm_used_bucket := hm_used_bucket h1 + 1\<rparr> else h1)"
  have i0: "0 \<le> i" using i(1) by (simp add: in_map_def)
  have nd2: "nd h2 j = (if j = i then (nd h i)\<lparr>hn_key := k, hn_len := len, hn_chunk := c, hn_time := 0, hn_count := 0\<rparr> else nd h j)"
    if "0 \<le> j" for j using nd_setn [OF i(1) that] i(1) i0 by (simp add: h2_def h1_def nd_setn)
  have mem: "hm_bucket h2 = hm_bucket h" "hm_bucket_size h2 = hm_bucket_size h" "hm_hash h2 = hm_hash h" "in_map h2 = in_map h" "rest h2 = rest h"
      "hm_alloc h2 = hm_alloc h" "hm_used_node h2 = hm_used_node h" "hm_used_bucket h2 = hm_used_bucket h + (if B b = [] then 1 else 0)"
    by (simp_all add: h2_def h1_def rest_def)
  have ok2: "lists_ok h2 B"
    using nd2 i(2) map_nodes_ge [OF ok] by (intro lists_ok_cong [OF ok]) (auto simp: mem)
  have b2: "b = slot h2 (hn_key (nd h2 i))" using b nd2 [OF i0] restD(8) [OF mem(5)] by simp
  have i2: "in_map h2 i" "i \<notin> map_nodes h2 B" using i mem by (simp_all add: map_nodes_def)
  obtain h' where 1: "insert_node_list i h2 = Some h'" "lists_ok h' (B(b := i # B b))" "list_frame h2 h'"
      "hm_used_node h' = hm_used_node h2 + 1" "hm_used_bucket h' = hm_used_bucket h2" "hm_free h' = hm_free h2"
      "\<forall>j\<ge>0. j \<notin> set (i # B b) \<longrightarrow> nd h' j = nd h2 j"
    using insert_node_list_spec [OF ok2 i2 b2] by blast
  note l = list_frame_fields [OF 1(3)]
  have "get_bucket_id h1 = get_bucket_id h" by (simp add: get_bucket_id_def fun_eq_iff h1_def)
  then have id1: "get_bucket_id h1 k = Some b" using bucket_id_slot [OF ok] b by simp
  have "get_bucket_list_len h1 = get_bucket_list_len h2" by (rule bucket_len_cong) (simp_all add: h2_def)
  then have len1: "get_bucket_list_len h1 b = Some (length (B b))" using bucket_len [OF ok2] slot_less [OF ok, of k] b mem(2) by simp
  have u: "upd_node i (\<lambda>n. n\<lparr>hn_key := k, hn_len := len, hn_chunk := c, hn_time := 0, hn_count := 0\<rparr>) h = Some h1"
    using i(1) by (simp add: h1_def upd_node_in)
  have "use_node i k len c h = Some h'"
    unfolding use_node_def u Option.bind_lunit id1 len1 Let_def h2_def [symmetric] 1(1) ..
  moreover have "rest h' = rest h" using mem(5) l(1-7) 1(3,6) by (simp add: rest_def list_frame_def)
  moreover have "core (nd h' j) = (if j = i then (k, len, c) else core (nd h j)) \<and> uses (nd h' j) = uses (nd h j)" if "0 \<le> j" for j
    using l(8-12) [OF that] nd2 [OF that] by (simp add: core_def uses_def)
  moreover have "nd h' j = nd h j" if "0 \<le> j" "j \<notin> set (i # B b)" for j using 1(7) nd2 that by simp
  ultimately show ?thesis using 1(2,4,5) mem(6-8) l(5) by (intro exI [of _ h']) simp
qed

text \<open>The members that \<open>init_node\<close> leaves are the key and nothing else that matters.\<close>

lemma free_node_spec:
  assumes ok: "lists_ok h B" and i: "i \<in> map_nodes h B" and b: "b = slot h (hn_key (nd h i))" and Bb: "B b = us @ i # vs"
    and a: "ca_free_chain (hn_chunk (nd h i)) (hm_alloc h) = Some a"
  shows "\<exists>h'. free_node i h = Some h' \<and> lists_ok h' (B(b := us @ vs)) \<and> hm_used_node h' = hm_used_node h - 1 \<and>
    hm_used_bucket h' = hm_used_bucket h - (if us @ vs = [] then 1 else 0) \<and> rest h' = rest h \<and> hm_alloc h' = a \<and>
    uses (nd h' i) = (-1, -1) \<and>
    (\<forall>j\<ge>0. j \<noteq> i \<longrightarrow> core (nd h' j) = core (nd h j) \<and> uses (nd h' j) = uses (nd h j)) \<and> (\<forall>j\<ge>0. j \<notin> set (B b) \<longrightarrow> nd h' j = nd h j)"
proof -
  have im: "in_map h i" "0 \<le> i" using node_bucket(2) [OF ok i] by (simp_all add: in_map_def)
  have bl: "b < nat (hm_bucket_size h)" using slot_less [OF ok] b by simp
  obtain h1 where 1: "delete_from_node_list i h = Some h1" "lists_ok h1 (B(b := us @ vs))" "list_frame h h1"
      "hm_used_node h1 = hm_used_node h - 1" "hm_used_bucket h1 = hm_used_bucket h" "hm_free h1 = hm_free h"
      "\<forall>j\<ge>0. j \<notin> set (B b) \<longrightarrow> nd h1 j = nd h j"
    using delete_from_node_list_spec [OF ok i b Bb] by blast
  note l = list_frame_fields [OF 1(3)]
  define h2 where "h2 = h1\<lparr>hm_alloc := a\<rparr>"
  define h3 where "h3 = (if length (us @ vs) = 0 then h2\<lparr>hm_used_bucket := hm_used_bucket h2 - 1\<rparr> else h2)"
  define h4 where "h4 = setn i ((nd h3 i)\<lparr>hn_len := 0, hn_time := 0, hn_count := 0, hn_flag := NODE_FLAG_UNCHG, hn_chunk := -1,
     hn_next := -1, hn_prev := -1, hn_anext := -1, hn_aprev := -1\<rparr>) h3"
  have im1: "in_map h1 i" "in_map h2 = in_map h1" "in_map h3 = in_map h1" using im l(7) by (simp_all add: h2_def h3_def)
  have nd4: "nd h4 j = (if j = i then (nd h1 i)\<lparr>hn_len := 0, hn_time := 0, hn_count := 0, hn_flag := NODE_FLAG_UNCHG, hn_chunk := -1,
     hn_next := -1, hn_prev := -1, hn_anext := -1, hn_aprev := -1\<rparr> else nd h1 j)" if "0 \<le> j" for j
    using im1 that by (simp add: h4_def h3_def h2_def nd_setn)
  have mem: "hm_bucket h4 = hm_bucket h1" "hm_bucket_size h4 = hm_bucket_size h1" "hm_hash h4 = hm_hash h1" "in_map h4 = in_map h1" "rest h4 = rest h1"
      "hm_alloc h4 = a" "hm_used_node h4 = hm_used_node h1" "hm_used_bucket h4 = hm_used_bucket h - (if us @ vs = [] then 1 else 0)"
    using 1(5) by (simp_all add: h4_def h3_def h2_def rest_def)
  have gone: "i \<notin> map_nodes h1 (B(b := us @ vs))"
  proof
    assume "i \<in> map_nodes h1 (B(b := us @ vs))"
    then have "i \<in> set ((B(b := us @ vs)) (slot h1 (hn_key (nd h1 i))))" by (rule node_bucket(1) [OF 1(2)])
    moreover have "slot h1 (hn_key (nd h1 i)) = b" using l(2,6) l(8) [OF im(2)] b by (simp add: slot_def)
    ultimately show False using bucket_list_sseg(4) [OF ok bl] Bb by simp
  qed
  have lists4: "lists_ok h4 (B(b := us @ vs))"
    using nd4 gone map_nodes_ge [OF 1(2)] by (intro lists_ok_cong [OF 1(2)]) (auto simp: mem)
  have n1: "node_at h1 i = Some (nd h1 i)" "hm_alloc h1 = hm_alloc h" "hn_chunk (nd h1 i) = hn_chunk (nd h i)"
    using im1 l(5) l(10) [OF im(2)] by (simp_all add: node_at_in)
  have "slot h1 (hn_key (nd h1 i)) = b" using l(2,6) l(8) [OF im(2)] b by (simp add: slot_def)
  moreover have "get_bucket_id h2 = get_bucket_id h1" by (simp add: get_bucket_id_def fun_eq_iff h2_def)
  ultimately have id: "get_bucket_id h2 (hn_key (nd h1 i)) = Some b" using bucket_id_slot [OF 1(2)] by simp
  have "get_bucket_list_len h2 = get_bucket_list_len h1" by (rule bucket_len_cong) (simp_all add: h2_def)
  then have len: "get_bucket_list_len h2 b = Some (length (us @ vs))" using bucket_len [OF 1(2), of b] bl l(2) by simp
  have ini: "init_node i h3 = Some h4" using im1 by (simp add: init_node_def upd_node_in h4_def INVALID_HDR_def)
  have "free_node i h = Some h4"
    unfolding free_node_def 1(1) Option.bind_lunit n1 a Let_def h2_def [symmetric] id len h3_def [symmetric] ini ..
  moreover have "rest h4 = rest h" using mem(5) l(1-7) 1(3,6) by (simp add: rest_def list_frame_def)
  moreover have "core (nd h4 j) = core (nd h j) \<and> uses (nd h4 j) = uses (nd h j)" if "0 \<le> j" "j \<noteq> i" for j
    using l(8-12) [OF that(1)] nd4 [OF that(1)] that(2) by (simp add: core_def uses_def)
  moreover have "uses (nd h4 i) = (-1, -1)" using nd4 im by (simp add: uses_def)
  moreover have "nd h4 j = nd h j" if "0 \<le> j" "j \<notin> set (B b)" for j using 1(7) nd4 that Bb by auto
  ultimately show ?thesis using lists4 1(4) mem(6-8) by (intro exI [of _ h4]) simp
qed

end
