(* ===== verification/HashMapOps.thy ===== *)
theory HashMapOps
  imports HashMapLists
begin

text \<open>
  Finding and inserting, on the list of keys and values in the order of recent use, the last used
  one first.  A key may stand in the list more than once, as inserting does not look for it: the
  first entry is the one that counts.
\<close>

section \<open>The contents\<close>

fun drop_key :: "'k \<Rightarrow> ('k \<times> 'v) list \<Rightarrow> ('k \<times> 'v) list" where
  "drop_key k [] = []"
| "drop_key k (p # xs) = (if fst p = k then xs else p # drop_key k xs)"

definition to_front :: "'k \<Rightarrow> ('k \<times> 'v) list \<Rightarrow> ('k \<times> 'v) list" where
  "to_front k xs = (case map_of xs k of None \<Rightarrow> xs | Some v \<Rightarrow> (k, v) # drop_key k xs)"

definition chunks_for :: "nat \<Rightarrow> byte list \<Rightarrow> nat" where
  "chunks_for c v = (length v + c - 1) div c"

definition cost :: "nat \<Rightarrow> ('k \<times> byte list) list \<Rightarrow> nat" where
  "cost c xs = sum_list (map (\<lambda>p. chunks_for c (snd p)) xs)"

lemma drop_key_other: "k \<notin> fst ` set xs \<Longrightarrow> drop_key k xs = xs"
  by (induction xs) auto

lemma drop_key_at: "k \<notin> fst ` set xs \<Longrightarrow> drop_key k (xs @ (k, v) # ys) = xs @ ys"
  by (induction xs) auto

lemma cost_drop_key: "map_of xs k = Some v \<Longrightarrow> cost c (drop_key k xs) + chunks_for c v = cost c xs"
  by (induction xs) (auto simp: cost_def split: if_splits)

lemma length_drop_key: "map_of xs k = Some v \<Longrightarrow> Suc (length (drop_key k xs)) = length xs"
  by (induction xs) (auto split: if_splits)

lemma cost_to_front: "cost c (to_front k xs) = cost c xs"
  using cost_drop_key [of xs k _ c] by (cases "map_of xs k") (auto simp: to_front_def cost_def add.commute)

lemma length_to_front: "length (to_front k xs) = length xs"
  using length_drop_key [of xs k] by (cases "map_of xs k") (auto simp: to_front_def)

text \<open>Nodes, chunks in all and the size of a chunk bound what the map can hold.\<close>

definition hash_rep :: "'k hmap \<Rightarrow> nat \<Rightarrow> nat \<Rightarrow> nat \<Rightarrow> ('k \<times> byte list) list \<Rightarrow> bool" where
  "hash_rep h N T c xs \<longleftrightarrow> (\<exists>B L F M V. hmap_at h B L F M V \<and> xs = contents h V L \<and> hm_node_total h = int N \<and>
     ca_size (hm_alloc h) = c \<and> ca_free_total (hm_alloc h) + int (cost c xs) = int T)"

lemma hmap_atD:
  assumes "hmap_at h B L F M V"
  shows "lists_ok h B" "hm_used_bucket h = int (used_buckets h B)" "lru h L" "free_ok h F" "values_ok h M V L" "set L = map_nodes h B"
    "set F \<inter> set L = {}" "same_order h B L" "hm_used_node h = int (length L)"
    "hm_node_total h = int (length L + length F)" "\<forall>i\<in>set L. in_map h i" "distinct L"
  using assms by (auto simp: hmap_at_def lru_def)

lemma hmap_atI:
  assumes "lists_ok h B" "hm_used_bucket h = int (used_buckets h B)" "lru h L" "free_ok h F" "values_ok h M V L" "set L = map_nodes h B"
    "set F \<inter> set L = {}" "same_order h B L" "hm_used_node h = int (length L)"
    "hm_node_total h = int (length L + length F)"
  shows "hmap_at h B L F M V"
  using assms unfolding hmap_at_def by blast

lemma contents_cong: "(\<And>i. i \<in> set L \<Longrightarrow> hn_key (nd h' i) = hn_key (nd h i) \<and> V' i = V i) \<Longrightarrow> contents h' V' L = contents h V L"
  by (simp add: contents_def)

lemma find_filter: "find P xs = (case filter P xs of [] \<Rightarrow> None | x # _ \<Rightarrow> Some x)"
  by (induction xs) simp_all

lemma map_of_contents: "map_of (contents h V L) k = map_option V (find (\<lambda>i. hn_key (nd h i) = k) L)"
  by (induction L) (simp_all add: contents_def)

lemma contents_drop_key:
  assumes "\<forall>j\<in>set xs. hn_key (nd h j) \<noteq> hn_key (nd h i)"
  shows "drop_key (hn_key (nd h i)) (contents h V (xs @ i # ys)) = contents h V (xs @ ys)"
proof -
  have "hn_key (nd h i) \<notin> fst ` set (contents h V xs)" using assms by (auto simp: contents_def)
  then show ?thesis using drop_key_at [of "hn_key (nd h i)" "contents h V xs" "V i" "contents h V ys"] by (simp add: contents_def)
qed

text \<open>The bucket finds the same node of a key as the list of recent use.\<close>

lemma find_same: "same_order h B L \<Longrightarrow> find (\<lambda>i. hn_key (nd h i) = k) (B (slot h k)) = find (\<lambda>i. hn_key (nd h i) = k) L"
  by (simp add: find_filter same_order_def of_key_def)

lemma find_split:
  "find P xs = Some x \<Longrightarrow> \<exists>us vs. xs = us @ x # vs \<and> P x \<and> (\<forall>u\<in>set us. \<not> P u)"
proof (induction xs)
  case (Cons y ys)
  show ?case
  proof (cases "P y")
    case True
    then show ?thesis using Cons.prems by (intro exI [of _ "[]"] exI [of _ ys]) simp
  next
    case False
    then obtain us vs where "ys = us @ x # vs" "P x" "\<forall>u\<in>set us. \<not> P u" using Cons by auto
    then show ?thesis using False by (intro exI [of _ "y # us"] exI [of _ vs]) simp
  qed
qed simp

lemma same_order_cong:
  assumes "same_order h B L" "lists_ok h B" "set L = map_nodes h B" "slot h' = slot h"
    and k: "\<And>i. i \<in> set L \<Longrightarrow> hn_key (nd h' i) = hn_key (nd h i)" and "set L' = set L" "\<And>k. of_key h k L' = of_key h k L"
  shows "same_order h' B L'"
proof -
  have e: "of_key h' k xs = of_key h k xs" if "set xs \<subseteq> set L" for k xs
    using k that by (auto simp: of_key_def intro!: filter_cong)
  have "set (B (slot h k)) \<subseteq> set L" for k using slot_less [OF assms(2)] assms(3) by (auto simp: map_nodes_def)
  then show ?thesis using assms e by (simp add: same_order_def)
qed

lemma of_key_front:
  assumes "\<forall>j\<in>set xs. hn_key (nd h j) \<noteq> hn_key (nd h i)"
  shows "of_key h k (i # xs @ ys) = of_key h k (xs @ i # ys)"
proof (cases "hn_key (nd h i) = k")
  case True
  then have "filter (\<lambda>j. hn_key (nd h j) = k) xs = []" using assms by (auto simp: filter_empty_conv)
  then show ?thesis by (simp add: of_key_def)
qed (simp add: of_key_def)

section \<open>Finding\<close>

lemma used_buckets_size: "hm_bucket_size h' = hm_bucket_size h \<Longrightarrow> used_buckets h' B = used_buckets h B"
  by (simp add: used_buckets_def)

lemma map_nodes_size: "hm_bucket_size h' = hm_bucket_size h \<Longrightarrow> map_nodes h' B = map_nodes h B"
  by (simp add: map_nodes_def)

text \<open>A new order of recent use that keeps the order within a key.\<close>

lemma hmap_at_use:
  assumes at: "hmap_at h B L F M V" and fr: "use_frame h h'" and l: "lru h' L'" "set L' = set L" "\<And>k. of_key h k L' = of_key h k L"
    and out: "\<forall>j\<ge>0. j \<notin> set L' \<longrightarrow> nd h' j = nd h j"
  shows "hmap_at h' B L' F M V" "contents h' V L' = contents h V L'"
proof -
  note p = hmap_atD [OF at] and u = use_frame_fields [OF fr]
  have geL: "\<forall>j\<in>set L. 0 \<le> j" using p(11) by (auto simp: in_map_def)
  have F: "j \<in> set F \<Longrightarrow> nd h' j = nd h j" for j using out p(4,7) l(2) by (auto simp: free_ok_def in_map_def)
  have "free_ok h' F" using F u by (intro free_ok_cong [OF p(4)]) simp_all
  moreover have "values_ok h' M V L'" using values_use_frame [OF p(5) geL fr l(2)] .
  moreover have "same_order h' B L'"
    using u(2,8,10) geL l by (intro same_order_cong [OF p(8,1,6)]) (simp_all add: slot_def fun_eq_iff)
  moreover have "length L' = length L" using l p(12) by (metis distinct_card lru_def)
  ultimately show "hmap_at h' B L' F M V"
    using p l u lists_use_frame [OF p(1) fr]
    by (simp add: hmap_at_def used_buckets_size [OF u(2)] map_nodes_size [OF u(2)])
  show "contents h' V L' = contents h V L'" using u(10) geL l(2) by (intro contents_cong) simp
qed

lemma find_in_bucket:
  assumes at: "hmap_at h B L F M V"
  shows "find_node now k h =
    (case find (\<lambda>i. hn_key (nd h i) = k) L of None \<Rightarrow> Some (-1, h)
     | Some i \<Rightarrow> (case touch_node now i h of None \<Rightarrow> None | Some h' \<Rightarrow> Some (i, h')))"
proof -
  note ok = hmap_atD(1) [OF at]
  note s = slot_less [OF ok, of k]
  note f = find_loop_sseg [OF bucket_list_sseg(1-3) [OF ok s], of k, unfolded find_same [OF hmap_atD(8) [OF at]]]
  have "i \<noteq> -1" if "find (\<lambda>i. hn_key (nd h i) = k) L = Some i" for i
    using find_split [OF that] hmap_atD(11) [OF at] by (auto simp: in_map_def)
  then show ?thesis
    using f by (auto simp: find_node_def bucket_id_slot [OF ok] bucket_first [OF ok s] INVALID_HDR_def split: option.split)
qed

lemma find_node_none:
  assumes "hmap_at h B L F M V" "map_of (contents h V L) k = None"
  shows "find_node now k h = Some (-1, h)"
  using assms(2) find_in_bucket [OF assms(1)] by (simp add: map_of_contents)

lemma find_node_some:
  assumes at: "hmap_at h B L F M V" and k: "map_of (contents h V L) k = Some v"
  shows "\<exists>i h' L'. find_node now k h = Some (i, h') \<and> hmap_at h' B (i # L') F M V \<and> V i = v \<and> hn_key (nd h' i) = k \<and>
    contents h' V (i # L') = to_front k (contents h V L) \<and> contents h' V L' = drop_key k (contents h V L) \<and>
    hm_alloc h' = hm_alloc h \<and> hm_node_total h' = hm_node_total h"
proof -
  obtain i where f: "find (\<lambda>i. hn_key (nd h i) = k) L = Some i" "V i = v" using k by (auto simp: map_of_contents)
  obtain xs ys where L: "L = xs @ i # ys" "hn_key (nd h i) = k" "\<forall>j\<in>set xs. hn_key (nd h j) \<noteq> k" using find_split [OF f(1)] by blast
  have first: "\<forall>j\<in>set xs. hn_key (nd h j) \<noteq> hn_key (nd h i)" using L by simp
  have im: "0 \<le> i" using hmap_atD(11) [OF at] L(1) by (simp add: in_map_def)
  obtain h' where t: "touch_node now i h = Some h'" "lru h' (i # xs @ ys)" "use_frame h h'"
      "\<forall>j\<ge>0. j \<notin> set (i # xs @ ys) \<longrightarrow> nd h' j = nd h j"
    using touch_node_in [OF hmap_atD(3) [OF at, unfolded L(1)]] by blast
  have order: "of_key h k' (i # xs @ ys) = of_key h k' L" for k' using of_key_front [OF first] L(1) by simp
  have "set (i # xs @ ys) = set L" using L(1) by auto
  note n = hmap_at_use [OF at t(3,2) this order t(4)]
  have "contents h V (i # xs @ ys) = (k, v) # contents h V (xs @ ys)" using L(2) f(2) by (simp add: contents_def)
  moreover have d: "drop_key k (contents h V L) = contents h V (xs @ ys)" using contents_drop_key [OF first] L by simp
  ultimately have c: "contents h' V (i # xs @ ys) = to_front k (contents h V L)" using n(2) k by (simp add: to_front_def)
  have c': "contents h' V (xs @ ys) = drop_key k (contents h V L)" using n(2) d by (simp add: contents_def)
  have "hn_key (nd h' i) = k" using use_frame_fields(10) [OF t(3) im] L(2) by simp
  moreover have "find_node now k h = Some (i, h')" using find_in_bucket [OF at, of now k] f(1) t(1) by simp
  ultimately show ?thesis using n(1) f(2) c c' use_frame_fields(1,7) [OF t(3)] by blast
qed

section \<open>Inserting\<close>

lemma free_remove:
  assumes "hmap_at h B L (i # F) M V"
  shows "in_map h i" "hm_free h = i" "i \<noteq> -1" "i \<notin> set L" "hn_anext (nd h i) = -1" "hn_aprev (nd h i) = -1"
    "hm_free_list_remove h = Some (i, setn i ((nd h i)\<lparr>hn_next := -1\<rparr>) (h\<lparr>hm_free := hn_next (nd h i)\<rparr>))"
proof -
  note p = hmap_atD [OF assms]
  show i: "in_map h i" "hm_free h = i" "i \<noteq> -1" "i \<notin> set L" "hn_anext (nd h i) = -1" "hn_aprev (nd h i) = -1"
    using p(4,7) by (auto simp: free_ok_def)
  show "hm_free_list_remove h = Some (i, setn i ((nd h i)\<lparr>hn_next := -1\<rparr>) (h\<lparr>hm_free := hn_next (nd h i)\<rparr>))"
    using i(1-3) by (simp add: hm_free_list_remove_def INVALID_HDR_def node_at_in upd_node_in)
qed

lemma insert_node_full:
  assumes "hmap_at h B L [] M V"
  shows "insert_node now k x h = Some (-1, h)"
  using hmap_atD(4) [OF assms] by (simp add: insert_node_def hm_free_list_remove_def free_ok_def INVALID_HDR_def)

text \<open>When the chunks do not suffice, or there is no byte to store, the node goes back.\<close>

lemma insert_node_refused:
  assumes at: "hmap_at h B L (i # F) M V"
    and x: "x = [] \<or> ca_free_total (hm_alloc h) < int (ca.need (hm_alloc h) x)"
  shows "insert_node now k x h = Some (-1, h)"
proof -
  note f = free_remove [OF at]
  have r: "chunks_rep (hm_alloc h) M" using hmap_atD(5) [OF at] by (simp add: values_ok_def)
  let ?h1 = "setn i ((nd h i)\<lparr>hn_next := -1\<rparr>) (h\<lparr>hm_free := hn_next (nd h i)\<rparr>)"
  have n: "get_chunk_num (hm_alloc h) (length x) = Some (ca.need (hm_alloc h) x)" using ca.num_law [OF r] by (simp add: ca.need_def)
  have m: "ca_malloc (ca.need (hm_alloc h) x) (hm_alloc h) = Some (-1, hm_alloc h)"
    using x ca.alloc_full [OF r] ca.alloc_none [OF r] ca.need_pos [OF r, of x] by (cases "x = []") auto
  have e: "hm_free_list_insert i (?h1\<lparr>hm_alloc := hm_alloc ?h1\<rparr>) = Some h"
  proof -
    have "(nd h i)\<lparr>hn_next := hn_next (nd h i)\<rparr> = nd h i" by simp
    then have "(hm_nodes h)[nat i := (nd h i)\<lparr>hn_next := hn_next (nd h i)\<rparr>] = hm_nodes h" by (simp add: nd_def)
    then show ?thesis
      using f(1,2) by (simp add: hm_free_list_insert_def upd_node_in nd_setn in_map_ge) (simp add: setn_def)
  qed
  show ?thesis
    unfolding insert_node_def f(7) Option.bind_lunit prod.case
    using f(3) n m e by (simp add: INVALID_HDR_def)
qed

lemma used_buckets_push:
  assumes "b < nat (hm_bucket_size h)" "hm_bucket_size h' = hm_bucket_size h"
  shows "used_buckets h' (B(b := i # B b)) = used_buckets h B + (if B b = [] then 1 else 0)"
proof -
  have "{c. c < nat (hm_bucket_size h) \<and> (B(b := i # B b)) c \<noteq> []} = insert b {c. c < nat (hm_bucket_size h) \<and> B c \<noteq> []}"
    using assms(1) by auto
  then show ?thesis using assms by (auto simp: used_buckets_def card_insert_if)
qed

lemma map_nodes_push:
  "b < nat (hm_bucket_size h) \<Longrightarrow> hm_bucket_size h' = hm_bucket_size h \<Longrightarrow> map_nodes h' (B(b := i # B b)) = insert i (map_nodes h B)"
  by (auto simp: map_nodes_def split: if_splits)

lemma values_insert:
  assumes v: "values_ok h M V L" and r: "chunks_rep a (M(c \<mapsto> y))" and hx: "ca.holds a (M(c \<mapsto> y)) c x"
    and c: "c \<noteq> -1" "M c = None" and sz: "ca_size a = ca_size (hm_alloc h)" and i: "i \<notin> set L" and a: "hm_alloc h' = a"
    and n: "\<And>j. j \<in> set L \<Longrightarrow> hn_chunk (nd h' j) = hn_chunk (nd h j) \<and> hn_len (nd h' j) = hn_len (nd h j)"
    and ni: "hn_chunk (nd h' i) = c" "hn_len (nd h' i) = length x"
  shows "values_ok h' (M(c \<mapsto> y)) (V(i := x)) (i # L)"
proof -
  have old: "hn_chunk (nd h j) \<noteq> c" if "j \<in> set L" for j
  proof
    assume "hn_chunk (nd h j) = c"
    then show False using v that c by (auto simp: values_ok_def ca.holds_def split: if_splits)
  qed
  have "ca.holds a (M(c \<mapsto> y)) (hn_chunk (nd h j)) (V j)" if "j \<in> set L" for j
  proof (rule ca.holds_other [of "hm_alloc h" M])
    show "ca.holds (hm_alloc h) M (hn_chunk (nd h j)) (V j)" using v that by (simp add: values_ok_def)
    show "(M(c \<mapsto> y)) (hn_chunk (nd h j)) = M (hn_chunk (nd h j))" using old [OF that] by simp
  qed (rule sz)
  moreover have "hn_len (nd h' j) = length (V j)" if "j \<in> set L" for j using v n [OF that] that by (auto simp: values_ok_def)
  ultimately have 1: "\<forall>j\<in>set (i # L). ca.holds a (M(c \<mapsto> y)) (hn_chunk (nd h' j)) ((V(i := x)) j) \<and> hn_len (nd h' j) = length ((V(i := x)) j)"
    using hx n ni i by (metis fun_upd_apply set_ConsD)
  have oldL: "\<forall>j\<in>set L. \<forall>j'\<in>set L. j \<noteq> j' \<longrightarrow> hn_chunk (nd h j) = hn_chunk (nd h j') \<longrightarrow> hn_chunk (nd h j) = -1"
    using v by (simp add: values_ok_def)
  have 2: "\<forall>j\<in>set (i # L). \<forall>j'\<in>set (i # L). j \<noteq> j' \<longrightarrow> hn_chunk (nd h' j) = hn_chunk (nd h' j') \<longrightarrow> hn_chunk (nd h' j) = -1"
  proof (intro ballI impI)
    fix j j' assume j: "j \<in> set (i # L)" "j' \<in> set (i # L)" "j \<noteq> j'" "hn_chunk (nd h' j) = hn_chunk (nd h' j')"
    have "j \<in> set L \<and> j' \<in> set L" using j n ni old by (metis set_ConsD)
    then show "hn_chunk (nd h' j) = -1" using j oldL n by metis
  qed
  have "c' \<in> (\<lambda>j. hn_chunk (nd h' j)) ` set (i # L)" if "c' \<in> dom (M(c \<mapsto> y))" for c'
  proof (cases "c' = c")
    case True
    then show ?thesis using ni by auto
  next
    case False
    then have "c' \<in> (\<lambda>j. hn_chunk (nd h j)) ` set L" using that v by (auto simp: values_ok_def)
    then show ?thesis using n by auto
  qed
  then have "dom (M(c \<mapsto> y)) \<subseteq> (\<lambda>j. hn_chunk (nd h' j)) ` set (i # L)" by blast
  then show ?thesis using r a 1 2 unfolding values_ok_def by blast
qed

text \<open>The node that was free is the first of its bucket and of the list of recent use.\<close>

lemma hmap_at_push:
  assumes at: "hmap_at h B L (i # F) M V" and b: "b = slot h k"
    and lists: "lists_ok h' (B(b := i # B b))" "lru h' (i # L)" "hm_free h' = hn_next (nd h i)" "\<forall>j\<in>set F. nd h' j = nd h j"
    and core: "\<forall>j\<ge>0. core (nd h' j) = (if j = i then (k, length x, c) else core (nd h j))"
    and mem: "hm_used_node h' = hm_used_node h + 1" "hm_used_bucket h' = hm_used_bucket h + (if B b = [] then 1 else 0)"
      "hm_node_total h' = hm_node_total h" "hm_bucket_size h' = hm_bucket_size h" "slot h' = slot h" "in_map h' = in_map h"
    and v: "chunks_rep (hm_alloc h') (M(c \<mapsto> y))" "ca.holds (hm_alloc h') (M(c \<mapsto> y)) c x" "c \<noteq> -1" "M c = None"
      "ca_size (hm_alloc h') = ca_size (hm_alloc h)"
  shows "hmap_at h' (B(b := i # B b)) (i # L) F (M(c \<mapsto> y)) (V(i := x))" "contents h' (V(i := x)) (i # L) = (k, x) # contents h V L"
proof -
  note p = hmap_atD [OF at] and f = free_remove [OF at]
  have bl: "b < nat (hm_bucket_size h)" using slot_less [OF p(1)] b by simp
  have i0: "0 \<le> i" using f(1) by (simp add: in_map_def)
  have geL: "0 \<le> j \<and> j \<noteq> i" if "j \<in> set L" for j using that p(11) f(4) by (auto simp: in_map_def)
  have "core (nd h' i) = (k, length x, c)" using core i0 by simp
  then have new: "hn_key (nd h' i) = k" "hn_chunk (nd h' i) = c" "hn_len (nd h' i) = length x" by (simp_all add: core_def)
  have old: "hn_key (nd h' j) = hn_key (nd h j) \<and> hn_chunk (nd h' j) = hn_chunk (nd h j) \<and> hn_len (nd h' j) = hn_len (nd h j)"
    if "j \<in> set L" for j
  proof -
    have "core (nd h' j) = core (nd h j)" using core geL [OF that] by simp
    then show ?thesis by (simp add: core_def)
  qed
  have free0: "sseg (\<lambda>j. hn_next (nd h j)) F" "distinct F" "hn_next (nd h i) = first_of F (-1)"
      "\<forall>j\<in>set F. in_map h j \<and> hn_anext (nd h j) = -1 \<and> hn_aprev (nd h j) = -1"
    using p(4) by (auto simp: free_ok_def)
  have "sseg (\<lambda>j. hn_next (nd h' j)) F" using free0(1) lists(4) by (subst sseg_cong [of F _ "\<lambda>j. hn_next (nd h j)"]) simp_all
  then have free: "free_ok h' F" using free0 lists(3,4) mem(6) by (simp add: free_ok_def)
  have val: "values_ok h' (M(c \<mapsto> y)) (V(i := x)) (i # L)"
    by (rule values_insert [OF p(5) v(1,2,3,4,5) f(4) refl]) (use old new in simp_all)
  have order: "same_order h' (B(b := i # B b)) (i # L)"
    unfolding same_order_def
  proof
    fix k'
    have e: "of_key h' k' xs = of_key h k' xs" if "set xs \<subseteq> set L" for xs
      unfolding of_key_def by (rule filter_cong [OF refl]) (use old that in auto)
    have "set (B (slot h k')) \<subseteq> set L" using slot_less [OF p(1)] p(6) by (auto simp: map_nodes_def)
    then have "of_key h' k' (B (slot h k')) = of_key h' k' L" using e p(8) by (simp add: same_order_def)
    then show "of_key h' k' ((B(b := i # B b)) (slot h' k')) = of_key h' k' (i # L)"
      using mem(5) new(1) b by (auto simp: of_key_def)
  qed
  have "set (i # L) = map_nodes h' (B(b := i # B b))" using map_nodes_push [OF bl mem(4), of B i] p(6) by simp
  moreover have "hm_used_bucket h' = int (used_buckets h' (B(b := i # B b)))"
    using used_buckets_push [OF bl mem(4), of B i] p(2) mem(2) by simp
  moreover have "set F \<inter> set (i # L) = {}" using p(4,7) by (auto simp: free_ok_def)
  moreover have "hm_used_node h' = int (length (i # L))" "hm_node_total h' = int (length (i # L) + length F)" using p(9,10) mem(1,3) by simp_all
  ultimately show "hmap_at h' (B(b := i # B b)) (i # L) F (M(c \<mapsto> y)) (V(i := x))"
    using lists(1,2) free val order by (intro hmap_atI)
  show "contents h' (V(i := x)) (i # L) = (k, x) # contents h V L" using old new geL by (simp add: contents_def)
qed

lemma insert_node_ok:
  assumes at: "hmap_at h B L (i # F) M V" and x: "x \<noteq> []" "int (ca.need (hm_alloc h) x) \<le> ca_free_total (hm_alloc h)"
  shows "\<exists>h' B' M'. insert_node now k x h = Some (i, h') \<and> hmap_at h' B' (i # L) F M' (V(i := x)) \<and>
    contents h' (V(i := x)) (i # L) = (k, x) # contents h V L \<and> ca_size (hm_alloc h') = ca_size (hm_alloc h) \<and>
    ca_free_total (hm_alloc h') = ca_free_total (hm_alloc h) - int (ca.need (hm_alloc h) x) \<and> hm_node_total h' = hm_node_total h"
proof -
  note p = hmap_atD [OF at] and f = free_remove [OF at]
  have r: "chunks_rep (hm_alloc h) M" using p(5) by (simp add: values_ok_def)
  obtain c a1 a y where st: "ca_malloc (ca.need (hm_alloc h) x) (hm_alloc h) = Some (c, a1)" "ca_split c x a1 = Some a" "c \<noteq> -1"
      "M c = None" "chunks_rep a (M(c \<mapsto> y))" "ca.holds a (M(c \<mapsto> y)) c x"
      "ca_free_total a = ca_free_total (hm_alloc h) - int (ca.need (hm_alloc h) x)" "ca_size a = ca_size (hm_alloc h)"
    using ca.store_value [OF r x] by blast
  have n: "get_chunk_num (hm_alloc h) (length x) = Some (ca.need (hm_alloc h) x)" using ca.num_law [OF r] by (simp add: ca.need_def)
  define h1 where "h1 = setn i ((nd h i)\<lparr>hn_next := -1\<rparr>) (h\<lparr>hm_free := hn_next (nd h i)\<rparr>)"
  define h2 where "h2 = h1\<lparr>hm_alloc := a\<rparr>"
  define b where "b = slot h k"
  have nd2: "nd h2 j = (if j = i then (nd h i)\<lparr>hn_next := -1\<rparr> else nd h j)" if "0 \<le> j" for j
    using nd_setn [of "h\<lparr>hm_free := hn_next (nd h i)\<rparr>" i j] f(1) that by (simp add: h2_def h1_def)
  have mem2: "hm_bucket h2 = hm_bucket h" "hm_bucket_size h2 = hm_bucket_size h" "hm_hash h2 = hm_hash h" "in_map h2 = in_map h" "hm_alloc h2 = a"
      "hm_add_head h2 = hm_add_head h" "hm_add_tail h2 = hm_add_tail h" "hm_free h2 = hn_next (nd h i)" "hm_used_node h2 = hm_used_node h"
      "hm_node_total h2 = hm_node_total h" "hm_used_bucket h2 = hm_used_bucket h"
    by (simp_all add: h2_def h1_def)
  have slot2: "slot h2 = slot h" using mem2 by (simp add: slot_def fun_eq_iff)
  have i2: "in_map h2 i" "i \<notin> map_nodes h2 B" "0 \<le> i" using f(1,4) p(6) mem2 by (simp_all add: map_nodes_def in_map_def)
  have ok2: "lists_ok h2 B"
    using nd2 i2(2) map_nodes_ge [OF p(1)] map_nodes_size [OF mem2(2), of B] by (intro lists_ok_cong [OF p(1)]) (auto simp: mem2)
  have b2: "b = slot h2 k" using slot2 by (simp add: b_def)
  obtain h3 where 3: "use_node i k (length x) c h2 = Some h3" "lists_ok h3 (B(b := i # B b))" "hm_used_node h3 = hm_used_node h2 + 1"
      "hm_used_bucket h3 = hm_used_bucket h2 + (if B b = [] then 1 else 0)" "rest h3 = rest h2" "hm_alloc h3 = hm_alloc h2"
      "\<forall>j\<ge>0. core (nd h3 j) = (if j = i then (k, length x, c) else core (nd h2 j)) \<and> uses (nd h3 j) = uses (nd h2 j)"
      "\<forall>j\<ge>0. j \<notin> set (i # B b) \<longrightarrow> nd h3 j = nd h2 j"
    using use_node_spec [OF ok2 i2(1,2) b2, of "length x" c] by blast
  note m3 = restD [OF 3(5)]
  have lru3: "lru h3 L"
  proof (rule lru_cong [OF p(3)])
    fix j assume "j \<in> set L"
    then have "0 \<le> j" "j \<noteq> i" using p(11) f(4) by (auto simp: in_map_def)
    then show "hn_anext (nd h3 j) = hn_anext (nd h j) \<and> hn_aprev (nd h3 j) = hn_aprev (nd h j)" using 3(7) nd2 by (simp add: uses_def)
  qed (simp_all add: m3 mem2)
  have "hn_anext (nd h3 i) = -1" "hn_aprev (nd h3 i) = -1" "in_map h3 i" using 3(7) nd2 i2 f(5,6) m3 by (simp_all add: uses_def)
  then obtain h4 where 4: "touch_node now i h3 = Some h4" "lru h4 (i # L)" "use_frame h3 h4" "\<forall>j\<ge>0. j \<notin> set (i # L) \<longrightarrow> nd h4 j = nd h3 j"
    using touch_node_new [OF lru3 f(4)] by blast
  note u4 = use_frame_fields [OF 4(3)]
  have core4: "\<forall>j\<ge>0. core (nd h4 j) = (if j = i then (k, length x, c) else core (nd h j))"
    using 3(7) u4(10-12) nd2 by (simp add: core_def)
  have F4: "\<forall>j\<in>set F. nd h4 j = nd h j"
  proof
    fix j assume j: "j \<in> set F"
    then have j': "0 \<le> j" "j \<noteq> i" "j \<notin> set L" using p(4,7) by (auto simp: free_ok_def in_map_def)
    moreover have "j \<notin> set (B b)" using j'(3) p(6) slot_less [OF p(1)] by (auto simp: map_nodes_def b_def)
    ultimately show "nd h4 j = nd h j" using 4(4) 3(8) nd2 by simp
  qed
  have slot4: "slot h4 = slot h" using u4(2,8) m3(2,3) mem2 by (simp add: slot_def fun_eq_iff)
  have al: "hm_alloc h4 = a" using u4(7) 3(6) mem2 by simp
  have "hmap_at h4 (B(b := i # B b)) (i # L) F (M(c \<mapsto> y)) (V(i := x)) \<and> contents h4 (V(i := x)) (i # L) = (k, x) # contents h V L"
    using hmap_at_push [OF at b_def lists_use_frame [OF 3(2) 4(3)] 4(2) _ F4 core4 _ _ _ _ slot4 _ _ _ st(3,4)] st al u4 m3 mem2 3(3,4) by simp
  moreover have "insert_node now k x h = Some (i, h4)"
    unfolding insert_node_def f(7) h1_def [symmetric] Option.bind_lunit prod.case
    using f(3) st(1-3) n 3(1) 4(1) by (simp add: INVALID_HDR_def h2_def h1_def)
  moreover have "hm_node_total h4 = hm_node_total h" using u4(1) m3(1) mem2 by simp
  ultimately show ?thesis using st(7,8) al by metis
qed

end
