(* ===== verification/HashMapUpdate.thy ===== *)
theory HashMapUpdate
  imports HashMapOps
begin

text \<open>
  Writing the value of a node anew, taking a node out of the map, and the empty map.
\<close>

section \<open>Values\<close>

text \<open>The value of node \<open>i\<close> moves to the chunks of handle \<open>c\<close>.\<close>

lemma values_move:
  assumes v: "values_ok h M V L" and r: "chunks_rep a M'" and hx: "ca.holds a M' c x"
    and mv: "ca.moved M (hn_chunk (nd h i)) M' c" and sz: "ca_size a = ca_size (hm_alloc h)" and i: "i \<in> set L" and a: "hm_alloc h' = a"
    and n: "\<And>j. j \<in> set L \<Longrightarrow> j \<noteq> i \<Longrightarrow> hn_chunk (nd h' j) = hn_chunk (nd h j) \<and> hn_len (nd h' j) = hn_len (nd h j)"
    and ni: "hn_chunk (nd h' i) = c" "hn_len (nd h' i) = length x"
  shows "values_ok h' M' (V(i := x)) L"
proof -
  let ?c0 = "hn_chunk (nd h i)"
  have d: "hn_chunk (nd h j) \<noteq> hn_chunk (nd h j')" if "j \<in> set L" "j' \<in> set L" "j \<noteq> j'" "hn_chunk (nd h j) \<noteq> -1" for j j'
    using v that unfolding values_ok_def by blast
  have hold: "ca.holds (hm_alloc h) M (hn_chunk (nd h j)) (V j)" "hn_len (nd h j) = length (V j)" if "j \<in> set L" for j
    using v that unfolding values_ok_def by blast+
  have old: "hn_chunk (nd h j) = -1 \<or> hn_chunk (nd h j) \<noteq> ?c0 \<and> hn_chunk (nd h j) \<noteq> c" if "j \<in> set L" "j \<noteq> i" for j
  proof (cases "hn_chunk (nd h j) = -1")
    case False
    then have "M (hn_chunk (nd h j)) \<noteq> None" using hold(1) [OF that(1)] by (auto simp: ca.holds_def)
    then show ?thesis using mv d [OF that(1) i that(2) False] False unfolding ca.moved_def by metis
  qed simp
  have "ca.holds a M' (hn_chunk (nd h j)) (V j)" if "j \<in> set L" "j \<noteq> i" for j
  proof (rule ca.holds_other [OF hold(1) [OF that(1)] sz])
    assume "hn_chunk (nd h j) \<noteq> -1"
    then show "M' (hn_chunk (nd h j)) = M (hn_chunk (nd h j))" using mv old [OF that] unfolding ca.moved_def by blast
  qed
  then have 1: "\<forall>j\<in>set L. ca.holds a M' (hn_chunk (nd h' j)) ((V(i := x)) j) \<and> hn_len (nd h' j) = length ((V(i := x)) j)"
    using hx n ni hold(2) by (metis fun_upd_apply)
  have 2: "\<forall>j\<in>set L. \<forall>j'\<in>set L. j \<noteq> j' \<longrightarrow> hn_chunk (nd h' j) = hn_chunk (nd h' j') \<longrightarrow> hn_chunk (nd h' j) = -1"
    using old d n ni by metis
  have "c' \<in> (\<lambda>j. hn_chunk (nd h' j)) ` set L" if "c' \<in> dom M'" for c'
  proof (cases "c' = c")
    case True
    then show ?thesis using ni i by auto
  next
    case False
    then have "c' \<in> dom M" "c' \<noteq> ?c0" using that mv unfolding ca.moved_def by auto
    then obtain j where "j \<in> set L" "c' = hn_chunk (nd h j)" "j \<noteq> i" using v unfolding values_ok_def by blast
    then show ?thesis using n by force
  qed
  then have "dom M' \<subseteq> (\<lambda>j. hn_chunk (nd h' j)) ` set L" by blast
  then show ?thesis using r a 1 2 unfolding values_ok_def by blast
qed

text \<open>A node leaves and its chunks are given back.\<close>

lemma values_remove:
  assumes v: "values_ok h M V L" and r: "chunks_rep a (M(hn_chunk (nd h i) := None))" and sz: "ca_size a = ca_size (hm_alloc h)"
    and i: "i \<in> set L" and L': "set L' = set L - {i}" and a: "hm_alloc h' = a"
    and n: "\<And>j. j \<in> set L \<Longrightarrow> j \<noteq> i \<Longrightarrow> hn_chunk (nd h' j) = hn_chunk (nd h j) \<and> hn_len (nd h' j) = hn_len (nd h j)"
  shows "values_ok h' (M(hn_chunk (nd h i) := None)) V L'"
proof -
  let ?c0 = "hn_chunk (nd h i)" and ?M = "M(hn_chunk (nd h i) := None)"
  have d: "hn_chunk (nd h j) = -1" if "j \<in> set L" "j' \<in> set L" "j \<noteq> j'" "hn_chunk (nd h j) = hn_chunk (nd h j')" for j j'
    using v that unfolding values_ok_def by blast
  have hold: "ca.holds (hm_alloc h) M (hn_chunk (nd h j)) (V j)" "hn_len (nd h j) = length (V j)" if "j \<in> set L" for j
    using v that unfolding values_ok_def by blast+
  have "ca.holds a ?M (hn_chunk (nd h j)) (V j)" if "j \<in> set L" "j \<noteq> i" for j
  proof (rule ca.holds_other [OF hold(1) [OF that(1)] sz])
    assume "hn_chunk (nd h j) \<noteq> -1"
    then show "?M (hn_chunk (nd h j)) = M (hn_chunk (nd h j))" using d [OF that(1) i that(2)] by auto
  qed
  then have 1: "\<forall>j\<in>set L'. ca.holds a ?M (hn_chunk (nd h' j)) (V j) \<and> hn_len (nd h' j) = length (V j)"
    using n hold(2) L' by simp
  have 2: "\<forall>j\<in>set L'. \<forall>j'\<in>set L'. j \<noteq> j' \<longrightarrow> hn_chunk (nd h' j) = hn_chunk (nd h' j') \<longrightarrow> hn_chunk (nd h' j) = -1"
    using d n L' by (metis DiffD1 DiffD2 insertI1)
  have "c' \<in> (\<lambda>j. hn_chunk (nd h' j)) ` set L'" if "c' \<in> dom ?M" for c'
  proof -
    have "c' \<in> dom M" "c' \<noteq> ?c0" using that by (auto split: if_splits)
    then obtain j where "j \<in> set L" "c' = hn_chunk (nd h j)" "j \<noteq> i" using v unfolding values_ok_def by blast
    then show ?thesis using n L' by force
  qed
  then have "dom ?M \<subseteq> (\<lambda>j. hn_chunk (nd h' j)) ` set L'" by blast
  then show ?thesis using r a 1 2 unfolding values_ok_def by blast
qed

section \<open>Updating\<close>

text \<open>New chunks and a new length for a node of the list.\<close>

lemma hmap_at_value:
  assumes at: "hmap_at h B L F M V" and i: "i \<in> set L"
    and h': "h' = setn i ((nd h i)\<lparr>hn_len := length x, hn_chunk := c\<rparr>) (h\<lparr>hm_alloc := a\<rparr>)"
    and st: "chunks_rep a M'" "ca.holds a M' c x" "ca.moved M (hn_chunk (nd h i)) M' c" "ca_size a = ca_size (hm_alloc h)"
  shows "hmap_at h' B L F M' (V(i := x))" "contents h' (V(i := x)) L = contents h (V(i := x)) L" "hm_alloc h' = a" "hm_node_total h' = hm_node_total h"
proof -
  note p = hmap_atD [OF at]
  have im: "in_map h i" using p(11) i by simp
  have n: "nd h' j = (if j = i then (nd h i)\<lparr>hn_len := length x, hn_chunk := c\<rparr> else nd h j)" if "0 \<le> j" for j
    using nd_setn [of "h\<lparr>hm_alloc := a\<rparr>" i j] im that h' by simp
  have geL: "\<forall>j\<in>set L. 0 \<le> j" and geF: "\<forall>j\<in>set F. 0 \<le> j \<and> j \<noteq> i" using p(4,7,11) i by (auto simp: free_ok_def in_map_def)
  have mem: "hm_bucket_size h' = hm_bucket_size h" "hm_bucket h' = hm_bucket h" "hm_hash h' = hm_hash h" "in_map h' = in_map h"
      "hm_add_head h' = hm_add_head h" "hm_add_tail h' = hm_add_tail h" "hm_free h' = hm_free h" "hm_used_node h' = hm_used_node h"
      "hm_used_bucket h' = hm_used_bucket h"
    by (simp_all add: h')
  have "lists_ok h' B" using n map_nodes_ge [OF p(1)] by (intro lists_ok_cong [OF p(1)]) (simp_all add: mem)
  moreover have "lru h' L" using n geL by (intro lru_cong [OF p(3)]) (simp_all add: mem)
  moreover have "free_ok h' F" using n geF by (intro free_ok_cong [OF p(4)]) (simp_all add: mem)
  moreover have "values_ok h' M' (V(i := x)) L"
  proof (rule values_move [OF p(5) st i])
    show "hm_alloc h' = a" by (simp add: h')
    show "hn_chunk (nd h' j) = hn_chunk (nd h j) \<and> hn_len (nd h' j) = hn_len (nd h j)" if "j \<in> set L" "j \<noteq> i" for j
      using n that geL by simp
    show "hn_chunk (nd h' i) = c" "hn_len (nd h' i) = length x" using n geL i by simp_all
  qed
  moreover have "same_order h' B L"
    using n geL mem by (intro same_order_cong [OF p(8,1,6)]) (simp_all add: slot_def fun_eq_iff)
  moreover show tot: "hm_node_total h' = hm_node_total h" "hm_alloc h' = a" by (simp_all add: h')
  moreover have "set L = map_nodes h' B" "hm_used_bucket h' = int (used_buckets h' B)"
    using p(2,6) mem(1,9) map_nodes_size [of h' h B] used_buckets_size [of h' h B] by simp_all
  moreover have "hm_used_node h' = int (length L)" "hm_node_total h' = int (length L + length F)" using p(9,10) mem(8) tot by simp_all
  ultimately show "hmap_at h' B L F M' (V(i := x))"
    using p(7) by (intro hmap_atI)
  show "contents h' (V(i := x)) L = contents h (V(i := x)) L" using n geL by (auto simp: contents_def)
qed

lemma update_node_ok:
  assumes at: "hmap_at h B L F M V" and i: "i \<in> set L"
    and f: "int (ca.need (hm_alloc h) x) \<le> ca_free_total (hm_alloc h) + int (ca.need (hm_alloc h) (V i))"
  shows "\<exists>h' M'. update_node i x NoOut h = Some (i, NoOut, h') \<and> hmap_at h' B L F M' (V(i := x)) \<and>
    contents h' (V(i := x)) L = contents h (V(i := x)) L \<and> ca_size (hm_alloc h') = ca_size (hm_alloc h) \<and>
    ca_free_total (hm_alloc h') = ca_free_total (hm_alloc h) + int (ca.need (hm_alloc h) (V i)) - int (ca.need (hm_alloc h) x) \<and>
    hm_node_total h' = hm_node_total h"
proof -
  have im: "in_map h i" using hmap_atD(11) [OF at] i by simp
  have v: "chunks_rep (hm_alloc h) M" "ca.holds (hm_alloc h) M (hn_chunk (nd h i)) (V i)" "hn_len (nd h i) = length (V i)"
    using hmap_atD(5) [OF at] i by (simp_all add: values_ok_def)
  have n: "get_chunk_num (hm_alloc h) (length y) = Some (ca.need (hm_alloc h) y)" for y using ca.num_law [OF v(1)] by (simp add: ca.need_def)
  define put where "put c a = setn i ((nd h i)\<lparr>hn_len := length x, hn_chunk := c\<rparr>) (h\<lparr>hm_alloc := a\<rparr>)" for c a
  show ?thesis
  proof (cases "ca.need (hm_alloc h) x = ca.need (hm_alloc h) (V i)")
    case True
    obtain a M' where 1: "ca_split (hn_chunk (nd h i)) x (hm_alloc h) = Some a" "chunks_rep a M'" "ca.holds a M' (hn_chunk (nd h i)) x"
        "ca.moved M (hn_chunk (nd h i)) M' (hn_chunk (nd h i))" "ca_free_total a = ca_free_total (hm_alloc h)" "ca_size a = ca_size (hm_alloc h)"
      using ca.rewrite_value [OF v(1,2) True] by blast
    have "update_node i x NoOut h = Some (i, NoOut, put (hn_chunk (nd h i)) a)"
      using 1(1) True n v(3) im by (simp add: update_node_def node_at_in node_out_def upd_node_in put_def)
    then show ?thesis using hmap_at_value [OF at i put_def 1(2-4,6)] 1(5,6) True by force
  next
    case False
    obtain a1 c a2 a M' where 1: "ca_free_chain (hn_chunk (nd h i)) (hm_alloc h) = Some a1" "ca_malloc (ca.need (hm_alloc h) x) a1 = Some (c, a2)"
        "ca_split c x a2 = Some a" "chunks_rep a M'" "ca.holds a M' c x" "ca.moved M (hn_chunk (nd h i)) M' c"
        "ca_free_total a = ca_free_total (hm_alloc h) + int (ca.need (hm_alloc h) (V i)) - int (ca.need (hm_alloc h) x)"
        "ca_size a = ca_size (hm_alloc h)"
      using ca.replace_value [OF v(1,2) f] by blast
    have g: "\<not> ca_free_total (hm_alloc h) < int (ca.need (hm_alloc h) x) - int (ca.need (hm_alloc h) (V i))" using f by simp
    have "update_node i x NoOut h = Some (i, NoOut, put c a)"
      using 1(1-3) False g n v(3) im
      by (simp add: update_node_def node_at_in node_out_def upd_node_in put_def get_free_chunk_num_def)
    then show ?thesis using hmap_at_value [OF at i put_def 1(4-6,8)] 1(7,8) by force
  qed
qed

lemma update_node_refused:
  assumes at: "hmap_at h B L F M V" and i: "i \<in> set L"
    and f: "ca_free_total (hm_alloc h) + int (ca.need (hm_alloc h) (V i)) < int (ca.need (hm_alloc h) x)"
  shows "update_node i x NoOut h = Some (-1, NoOut, h)"
proof -
  have im: "in_map h i" using hmap_atD(11) [OF at] i by simp
  have v: "chunks_rep (hm_alloc h) M" "hn_len (nd h i) = length (V i)" using hmap_atD(5) [OF at] i by (simp_all add: values_ok_def)
  have n: "get_chunk_num (hm_alloc h) (length y) = Some (ca.need (hm_alloc h) y)" for y using ca.num_law [OF v(1)] by (simp add: ca.need_def)
  have "0 \<le> ca_free_total (hm_alloc h)" using ca.free_num_nonneg [OF v(1)] .
  then show ?thesis
    using f n v(2) im by (simp add: update_node_def node_at_in node_out_def get_free_chunk_num_def INVALID_HDR_def)
qed

section \<open>Deleting\<close>

lemma used_buckets_remove:
  assumes "b < nat (hm_bucket_size h)" "hm_bucket_size h' = hm_bucket_size h" "B b \<noteq> []"
  shows "int (used_buckets h' (B(b := us))) = int (used_buckets h B) - (if us = [] then 1 else 0)"
proof -
  let ?S = "{c. c < nat (hm_bucket_size h) \<and> B c \<noteq> []}"
  have b: "b \<in> ?S" "finite ?S" using assms(1,3) by simp_all
  have "{c. c < nat (hm_bucket_size h) \<and> (B(b := us)) c \<noteq> []} = (if us = [] then ?S - {b} else ?S)" using assms(1,3) by auto
  moreover have "0 < card ?S" using b card_gt_0_iff by blast
  ultimately show ?thesis using b assms(2) by (auto simp: used_buckets_def card_Diff_singleton)
qed

lemma map_nodes_remove:
  assumes "lists_ok h B" "b < nat (hm_bucket_size h)" "B b = us @ i # vs" "hm_bucket_size h' = hm_bucket_size h"
  shows "map_nodes h' (B(b := us @ vs)) = map_nodes h B - {i}"
proof -
  have other: "i \<notin> set (B c)" if "c < nat (hm_bucket_size h)" "c \<noteq> b" for c
  proof
    assume "i \<in> set (B c)"
    then have "c = b" using in_bucket [OF assms(1) that(1)] in_bucket [OF assms(1,2), of i] assms(3) by simp
    then show False using that by simp
  qed
  have "i \<notin> set (us @ vs)" using bucket_list_sseg(4) [OF assms(1,2)] assms(3) by simp
  then have "x \<in> set ((B(b := us @ vs)) c) \<longleftrightarrow> x \<in> set (B c) \<and> x \<noteq> i" if "c < nat (hm_bucket_size h)" for x c
    using other [OF that] assms(3) by auto
  then show ?thesis using assms(4) by (auto simp: map_nodes_def)
qed

text \<open>The node leaves its bucket and the list of recent use and becomes the first free one.\<close>

lemma hmap_at_pop:
  assumes at: "hmap_at h B (xs @ i # ys) F M V" and b: "b = slot h (hn_key (nd h i))" and Bb: "B b = us @ i # vs"
    and lists: "lists_ok h' (B(b := us @ vs))" "lru h' (xs @ ys)" "hm_free h' = i" "hn_next (nd h' i) = hm_free h" "uses (nd h' i) = (-1, -1)"
      "\<forall>j\<in>set F. nd h' j = nd h j"
    and core: "\<forall>j\<ge>0. j \<noteq> i \<longrightarrow> core (nd h' j) = core (nd h j)"
    and mem: "hm_used_node h' = hm_used_node h - 1" "hm_used_bucket h' = hm_used_bucket h - (if us @ vs = [] then 1 else 0)"
      "hm_node_total h' = hm_node_total h" "hm_bucket_size h' = hm_bucket_size h" "slot h' = slot h" "in_map h' = in_map h"
    and v: "chunks_rep (hm_alloc h') (M(hn_chunk (nd h i) := None))" "ca_size (hm_alloc h') = ca_size (hm_alloc h)"
  shows "hmap_at h' (B(b := us @ vs)) (xs @ ys) (i # F) (M(hn_chunk (nd h i) := None)) V" "contents h' V (xs @ ys) = contents h V (xs @ ys)"
proof -
  let ?L = "xs @ i # ys" and ?L' = "xs @ ys" and ?B = "B(b := us @ vs)"
  note p = hmap_atD [OF at]
  have bl: "b < nat (hm_bucket_size h)" using slot_less [OF p(1)] b by simp
  have im: "in_map h i" "i \<noteq> -1" "i \<notin> set F" "i \<notin> set ?L'" using p(7,11,12) by (auto simp: in_map_def)
  have old: "hn_key (nd h' j) = hn_key (nd h j) \<and> hn_chunk (nd h' j) = hn_chunk (nd h j) \<and> hn_len (nd h' j) = hn_len (nd h j)"
    if "j \<in> set ?L'" for j
  proof -
    have "core (nd h' j) = core (nd h j)" using core that p(11) im(4) by (auto simp: in_map_def)
    then show ?thesis by (simp add: core_def)
  qed
  have f0: "sseg (\<lambda>j. hn_next (nd h j)) F" "distinct F" "hm_free h = first_of F (-1)" "\<forall>j\<in>set F. in_map h j \<and> hn_anext (nd h j) = -1 \<and> hn_aprev (nd h j) = -1"
    using p(4) by (auto simp: free_ok_def)
  have "sseg (\<lambda>j. hn_next (nd h' j)) F" using f0(1) lists(6) by (subst sseg_cong [of F _ "\<lambda>j. hn_next (nd h j)"]) simp_all
  then have free: "free_ok h' (i # F)" using f0 lists(3-6) im mem(6) by (simp add: free_ok_def uses_def)
  have val: "values_ok h' (M(hn_chunk (nd h i) := None)) V ?L'"
  proof (rule values_remove [OF p(5) v])
    show "set ?L' = set ?L - {i}" using im(4) by auto
    show "hn_chunk (nd h' j) = hn_chunk (nd h j) \<and> hn_len (nd h' j) = hn_len (nd h j)" if "j \<in> set ?L" "j \<noteq> i" for j
      using that old [of j] by simp
  qed simp_all
  have order: "same_order h' ?B ?L'"
    unfolding same_order_def
  proof
    fix k
    have drop: "of_key h' k (as @ bs) = filter (\<lambda>j. j \<noteq> i) (of_key h k (as @ i # bs))"
      if "set (as @ bs) \<subseteq> set ?L'" for as bs
    proof -
      have "of_key h' k (as @ bs) = of_key h k (as @ bs)" unfolding of_key_def by (rule filter_cong [OF refl]) (use old that in auto)
      moreover have "filter (\<lambda>j. j \<noteq> i) (of_key h k (as @ i # bs)) = of_key h k (filter (\<lambda>j. j \<noteq> i) (as @ i # bs))"
        by (simp add: of_key_def conj_commute)
      moreover have "filter (\<lambda>j. j \<noteq> i) as = as" "filter (\<lambda>j. j \<noteq> i) bs = bs" using that im(4) by (force intro!: filter_True)+
      ultimately show ?thesis by simp
    qed
    have uv: "set (us @ vs) \<subseteq> set ?L'"
    proof
      fix j assume j: "j \<in> set (us @ vs)"
      then have "j \<in> set ?L" using in_bucket [OF p(1) bl, of j] Bb p(6) by auto
      moreover have "j \<noteq> i" using bucket_list_sseg(4) [OF p(1) bl] Bb j by auto
      ultimately show "j \<in> set ?L'" by auto
    qed
    have same: "of_key h k (B (slot h k)) = of_key h k ?L" using p(8) by (simp add: same_order_def)
    show "of_key h' k (?B (slot h' k)) = of_key h' k ?L'"
    proof (cases "slot h k = b")
      case True
      then show ?thesis using drop [OF uv] drop [of xs ys] same mem(5) Bb by simp
    next
      case False
      then have k: "hn_key (nd h i) \<noteq> k" using b by auto
      have sub: "set (B (slot h k)) \<subseteq> set ?L'"
      proof
        fix j assume j: "j \<in> set (B (slot h k))"
        then have "j \<in> set ?L" "slot h (hn_key (nd h j)) = slot h k"
          using in_bucket [OF p(1) slot_less [OF p(1)]] p(6) by auto
        then show "j \<in> set ?L'" using False b by auto
      qed
      have "of_key h' k xs' = of_key h k xs'" if "set xs' \<subseteq> set ?L'" for xs'
        unfolding of_key_def by (rule filter_cong [OF refl]) (use old that in auto)
      then show ?thesis using sub same k False mem(5) by (simp add: of_key_def)
    qed
  qed
  have "set ?L' = map_nodes h' ?B" using map_nodes_remove [OF p(1) bl Bb mem(4)] p(6) im(4) by auto
  moreover have "hm_used_bucket h' = int (used_buckets h' ?B)"
    using used_buckets_remove [OF bl mem(4), of B "us @ vs"] Bb mem(2) p(2) by simp
  moreover have "hm_used_node h' = int (length ?L')" "hm_node_total h' = int (length ?L' + length (i # F))" using p(9,10) mem(1,3) by simp_all
  moreover have "set (i # F) \<inter> set ?L' = {}" using p(7) im(4) by auto
  ultimately show "hmap_at h' ?B ?L' (i # F) (M(hn_chunk (nd h i) := None)) V" using lists(1,2) free val order by (intro hmap_atI)
  show "contents h' V ?L' = contents h V ?L'" using old by (simp add: contents_def)
qed

lemma delete_node_ok:
  assumes at: "hmap_at h B (xs @ i # ys) F M V"
  shows "\<exists>h' B' M'. delete_node i NoOut h = Some (0, NoOut, h') \<and> hmap_at h' B' (xs @ ys) (i # F) M' V \<and>
    contents h' V (xs @ ys) = contents h V (xs @ ys) \<and> ca_size (hm_alloc h') = ca_size (hm_alloc h) \<and>
    ca_free_total (hm_alloc h') = ca_free_total (hm_alloc h) + int (ca.need (hm_alloc h) (V i)) \<and> hm_node_total h' = hm_node_total h"
proof -
  note p = hmap_atD [OF at]
  have im: "in_map h i" "0 \<le> i" using p(11) by (simp_all add: in_map_def)
  obtain h1 where 1: "delete_from_add_list i h = Some h1" "lru h1 (xs @ ys)" "use_frame h h1"
      "\<forall>j\<ge>0. j \<notin> set (xs @ i # ys) \<longrightarrow> nd h1 j = nd h j"
    using delete_from_add_list_in [OF p(3)] by blast
  note u = use_frame_fields [OF 1(3)]
  have ok1: "lists_ok h1 B" by (rule lists_use_frame [OF p(1) 1(3)])
  have slot1: "slot h1 = slot h" using u(2,8) by (simp add: slot_def fun_eq_iff)
  define b where "b = slot h1 (hn_key (nd h1 i))"
  have b: "b = slot h (hn_key (nd h i))" using u(10) [OF im(2)] slot1 by (simp add: b_def)
  have iB: "i \<in> map_nodes h1 B" using p(6) map_nodes_size [OF u(2)] by auto
  obtain us vs where Bb: "B b = us @ i # vs" using node_bucket(1) [OF ok1 iB] by (auto simp: b_def in_set_conv_decomp)
  have v: "chunks_rep (hm_alloc h) M" "ca.holds (hm_alloc h) M (hn_chunk (nd h i)) (V i)" using p(5) by (simp_all add: values_ok_def)
  obtain a where 3: "ca_free_chain (hn_chunk (nd h i)) (hm_alloc h) = Some a" "chunks_rep a (M(hn_chunk (nd h i) := None))"
      "ca_free_total a = ca_free_total (hm_alloc h) + int (ca.need (hm_alloc h) (V i))" "ca_size a = ca_size (hm_alloc h)"
    using ca.release_value [OF v] by blast
  have fc: "ca_free_chain (hn_chunk (nd h1 i)) (hm_alloc h1) = Some a" using 3(1) u(7) u(12) [OF im(2)] by simp
  obtain h2 where 2: "free_node i h1 = Some h2" "lists_ok h2 (B(b := us @ vs))" "hm_used_node h2 = hm_used_node h1 - 1"
      "hm_used_bucket h2 = hm_used_bucket h1 - (if us @ vs = [] then 1 else 0)" "rest h2 = rest h1" "hm_alloc h2 = a" "uses (nd h2 i) = (-1, -1)"
      "\<forall>j\<ge>0. j \<noteq> i \<longrightarrow> core (nd h2 j) = core (nd h1 j) \<and> uses (nd h2 j) = uses (nd h1 j)" "\<forall>j\<ge>0. j \<notin> set (B b) \<longrightarrow> nd h2 j = nd h1 j"
    using free_node_spec [OF ok1 iB b_def Bb fc] by blast
  note m = restD [OF 2(5)]
  define h3 where "h3 = (setn i ((nd h2 i)\<lparr>hn_next := hm_free h2\<rparr>) h2)\<lparr>hm_free := i\<rparr>"
  have im2: "in_map h2 i" using im(1) m(7) u(9) by simp
  have nd3: "nd h3 j = (if j = i then (nd h2 i)\<lparr>hn_next := hm_free h\<rparr> else nd h2 j)" if "0 \<le> j" for j
    using nd_setn [OF im2 that] m(4) u(5) by (simp add: h3_def)
  have mem: "hm_bucket_size h3 = hm_bucket_size h2" "hm_bucket h3 = hm_bucket h2" "hm_hash h3 = hm_hash h2" "in_map h3 = in_map h2"
      "hm_add_head h3 = hm_add_head h2" "hm_add_tail h3 = hm_add_tail h2" "hm_alloc h3 = a" "slot h3 = slot h2" "hm_free h3 = i"
      "hm_node_total h3 = hm_node_total h" "hm_used_node h3 = hm_used_node h - 1" "in_map h3 = in_map h" "slot h3 = slot h" "hm_bucket_size h3 = hm_bucket_size h"
      "hm_used_bucket h3 = hm_used_bucket h - (if us @ vs = [] then 1 else 0)"
    using m u 2(3,4,6) slot1 by (simp_all add: h3_def slot_def fun_eq_iff)
  have iout: "i \<notin> map_nodes h2 (B(b := us @ vs))"
    using map_nodes_remove [OF ok1 _ Bb m(2)] slot_less [OF ok1] by (simp add: b_def)
  have lists3: "lists_ok h3 (B(b := us @ vs))"
    using nd3 iout map_nodes_ge [OF 2(2)] by (intro lists_ok_cong [OF 2(2)]) (auto simp: mem)
  have lru3: "lru h3 (xs @ ys)"
  proof (rule lru_cong [OF 1(2)])
    fix j assume "j \<in> set (xs @ ys)"
    then have "0 \<le> j" "j \<noteq> i" using p(11,12) by (auto simp: in_map_def)
    then show "hn_anext (nd h3 j) = hn_anext (nd h1 j) \<and> hn_aprev (nd h3 j) = hn_aprev (nd h1 j)" using 2(8) nd3 by (simp add: uses_def)
  qed (simp_all add: mem m u)
  have core3: "\<forall>j\<ge>0. j \<noteq> i \<longrightarrow> core (nd h3 j) = core (nd h j)" using 2(8) nd3 u(10-12) by (simp add: core_def)
  have F3: "\<forall>j\<in>set F. nd h3 j = nd h j"
  proof
    fix j assume j: "j \<in> set F"
    then have j': "0 \<le> j" "j \<notin> set (xs @ i # ys)" using p(4,7) by (auto simp: free_ok_def in_map_def)
    moreover have "j \<notin> set (B b)" using in_bucket [OF p(1) slot_less [OF p(1)], of j] j'(2) p(6) by (auto simp: b)
    ultimately show "nd h3 j = nd h j" using 1(4) 2(9) nd3 by simp
  qed
  have i3: "hn_next (nd h3 i) = hm_free h" "uses (nd h3 i) = (-1, -1)" using nd3 [OF im(2)] 2(7) by (simp_all add: uses_def)
  have "delete_node i NoOut h = Some (0, NoOut, h3)"
    using im im2 1(1) 2(1) by (simp add: delete_node_def node_at_in node_out_def hm_free_list_insert_def upd_node_in h3_def)
  moreover have "hmap_at h3 (B(b := us @ vs)) (xs @ ys) (i # F) (M(hn_chunk (nd h i) := None)) V \<and> contents h3 V (xs @ ys) = contents h V (xs @ ys)"
    using hmap_at_pop [OF at b Bb lists3 lru3 mem(9) i3 F3 core3 mem(11,15,10,14,13,12)] 3(2,4) mem(7) by simp
  ultimately show ?thesis using 3(3,4) mem(7,10) by metis
qed

section \<open>Opening\<close>

lemma setn_setn: "setn i m' (setn i m h) = setn i m' h"
  by (simp add: setn_def)

lemma hm_init_loop_spec:
  assumes "n \<le> length (hm_nodes h)" "hm_free h = -1"
  shows "\<exists>h'. hm_init_loop n h = Some h' \<and> h'\<lparr>hm_free := -1, hm_nodes := []\<rparr> = h\<lparr>hm_free := -1, hm_nodes := []\<rparr> \<and>
    length (hm_nodes h') = length (hm_nodes h) \<and> free_ok h' (rev (map int [0..<n]))"
  using assms
proof (induction n)
  case 0
  then show ?case by (simp add: free_ok_def)
next
  case (Suc n)
  let ?F = "rev (map int [0..<n])"
  obtain h1 where 1: "hm_init_loop n h = Some h1" "h1\<lparr>hm_free := -1, hm_nodes := []\<rparr> = h\<lparr>hm_free := -1, hm_nodes := []\<rparr>"
      "length (hm_nodes h1) = length (hm_nodes h)" "free_ok h1 ?F"
    using Suc by auto
  have i: "in_map h1 (int n)" using Suc.prems(1) 1(3) by (simp add: in_map_def)
  define m where "m = (nd h1 (int n))\<lparr>hn_len := 0, hn_time := 0, hn_count := 0, hn_flag := NODE_FLAG_UNCHG, hn_chunk := -1,
     hn_next := -1, hn_prev := -1, hn_anext := -1, hn_aprev := -1\<rparr>"
  define h2 where "h2 = (setn (int n) (m\<lparr>hn_next := hm_free h1\<rparr>) h1)\<lparr>hm_free := int n\<rparr>"
  have n2: "nd h2 j = (if j = int n then m\<lparr>hn_next := hm_free h1\<rparr> else nd h1 j)" if "0 \<le> j" for j
    using nd_setn [OF i that] by (simp add: h2_def)
  have "hm_init_loop (Suc n) h = Some h2"
    using 1(1) i by (simp add: init_node_def upd_node_in hm_free_list_insert_def setn_setn nd_setn h2_def m_def INVALID_HDR_def)
  moreover have "h2\<lparr>hm_free := -1, hm_nodes := []\<rparr> = h\<lparr>hm_free := -1, hm_nodes := []\<rparr>" using 1(2) by (simp add: h2_def setn_def)
  moreover have "length (hm_nodes h2) = length (hm_nodes h)" using 1(3) by (simp add: h2_def)
  moreover have "free_ok h2 (int n # ?F)"
  proof -
    have F: "nd h2 j = nd h1 j" if "j \<in> set ?F" for j using that n2 by auto
    have s: "sseg (\<lambda>j. hn_next (nd h1 j)) ?F" "hm_free h1 = first_of ?F (-1)" "\<forall>j\<in>set ?F. in_map h1 j \<and> hn_anext (nd h1 j) = -1 \<and> hn_aprev (nd h1 j) = -1"
      using 1(4) by (simp_all add: free_ok_def)
    have "sseg (\<lambda>j. hn_next (nd h2 j)) ?F" using s(1) F by (subst sseg_cong [of ?F _ "\<lambda>j. hn_next (nd h1 j)"]) simp_all
    moreover have "in_map h2 = in_map h1" "hm_free h2 = int n" by (simp_all add: h2_def)
    moreover have "distinct (int n # ?F)" by (auto simp: distinct_map)
    moreover have "\<forall>j\<in>set ?F. in_map h2 j \<and> hn_anext (nd h2 j) = -1 \<and> hn_aprev (nd h2 j) = -1"
      using s(3) F \<open>in_map h2 = in_map h1\<close> by simp
    ultimately show ?thesis using i s(2) n2 [of "int n"] unfolding free_ok_def by (simp add: m_def in_map_def)
  qed
  ultimately show ?case by simp
qed

text \<open>A map that has been set up is empty: no key, all nodes and all chunks free.\<close>

lemma opened_empty:
  assumes "length (hm_nodes h) = N" "0 < buckets" "int buckets < 2 ^ 31"
    "\<forall>ch\<in>set (ca_nodes (hm_alloc h)). length (ck_data ch) = c" "length (ca_nodes (hm_alloc h)) = T" "0 < c"
  shows "\<exists>h'. hm_open True N buckets T c h = Some (0, h') \<and> hash_rep h' N T c []"
proof -
  let ?F = "rev (map int [0..<N])"
  define h0 where "h0 = h\<lparr>hm_node_total := int N, hm_bucket_size := int buckets, hm_used_node := 0, hm_used_bucket := 0,
       hm_add_head := -1, hm_add_tail := -1, hm_free := -1, hm_bucket := replicate buckets (-1)\<rparr>"
  obtain h1 where 1: "hm_init_loop N h0 = Some h1" "h1\<lparr>hm_free := -1, hm_nodes := []\<rparr> = h0\<lparr>hm_free := -1, hm_nodes := []\<rparr>"
      "length (hm_nodes h1) = length (hm_nodes h0)" "free_ok h1 ?F"
    using hm_init_loop_spec [of N h0] assms(1) by (auto simp: h0_def)
  have mem: "hm_node_total h1 = int N" "hm_bucket_size h1 = int buckets" "hm_used_node h1 = 0" "hm_used_bucket h1 = 0" "hm_add_head h1 = -1"
      "hm_add_tail h1 = -1" "hm_bucket h1 = replicate buckets (-1)" "hm_alloc h1 = hm_alloc h"
    using arg_cong [OF 1(2), of hm_node_total] arg_cong [OF 1(2), of hm_bucket_size] arg_cong [OF 1(2), of hm_used_node]
      arg_cong [OF 1(2), of hm_used_bucket] arg_cong [OF 1(2), of hm_add_head] arg_cong [OF 1(2), of hm_add_tail]
      arg_cong [OF 1(2), of hm_bucket] arg_cong [OF 1(2), of hm_alloc]
    by (simp_all add: h0_def)
  obtain a where a: "ca_open True T c (hm_alloc h) = Some (0, a)" "chunks_rep a Map.empty" "ca_free_total a = int T" "ca_size a = c"
    using chunks_opened [OF assms(4-6)] by blast
  define h2 where "h2 = h1\<lparr>hm_alloc := a\<rparr>"
  have "hm_open True N buckets T c h = Some (0, h2)"
    using 1(1) a(1) mem(8) by (simp add: hm_open_def hm_init_pool_data_def INVALID_HDR_def h0_def h2_def)
  moreover have "hmap_at h2 (\<lambda>_. []) [] ?F Map.empty (\<lambda>_. [])"
  proof (rule hmap_atI)
    show "lists_ok h2 (\<lambda>_. [])" using assms(2,3) mem by (simp add: lists_ok_def bucket_list_def h2_def)
    show "hm_used_bucket h2 = int (used_buckets h2 (\<lambda>_. []))" using mem by (simp add: used_buckets_def h2_def)
    show "lru h2 []" using mem by (simp add: lru_def last_of_def h2_def)
    show "free_ok h2 ?F" using 1(4) by (simp add: free_ok_def h2_def)
    show "values_ok h2 Map.empty (\<lambda>_. []) []" using a by (simp add: values_ok_def h2_def)
    show "same_order h2 (\<lambda>_. []) []" by (simp add: same_order_def)
  qed (use mem in \<open>simp_all add: map_nodes_def h2_def\<close>)
  moreover have "contents h2 (\<lambda>_. []) [] = []" by (simp add: contents_def)
  moreover have "hm_node_total h2 = int N" "ca_size (hm_alloc h2) = c" "ca_free_total (hm_alloc h2) + int (cost c []) = int T"
    using mem a by (simp_all add: h2_def cost_def)
  ultimately show ?thesis unfolding hash_rep_def by metis
qed

end
