(* ===== verification/HashMapReopen.thy ===== *)
theory HashMapReopen
  imports HashMapUpdate
begin

text \<open>
  The check of a segment that is opened again, and that no operation changes the parameters the
  segment was made with.
\<close>

section \<open>The checks\<close>

lemma count_free_chain:
  "chain_ok a xs \<Longrightarrow> length xs < fuel \<Longrightarrow> ca_count_free fuel (first_of xs (-1)) a = Some (int (length xs))"
proof (induction xs arbitrary: fuel)
  case Nil
  then show ?case by (cases fuel) (simp_all add: INVALID_HDR_def)
next
  case (Cons i xs)
  then have i: "in_pool a i" "chain_ok a xs" "ck_next (ca_nodes a ! nat i) = first_of xs (-1)" by (auto simp: chain_ok_def nx_def)
  then have "i \<noteq> -1" by (auto simp: in_pool_def)
  then show ?case using Cons i chunk_at_in [OF i(1)] by (cases fuel) (simp_all add: INVALID_HDR_def)
qed

lemma verify_chunks:
  assumes "chunks_rep a M" "ca_total a = int n"
  shows "ca_verify_pool_data n (ca_size a) a = Some 0"
proof -
  obtain F where F: "chain_ok a F" "ca_free a = first_of F (-1)" "ca_free_total a = int (length F)"
    using assms(1) by (auto simp: chunks_rep_def chunks_at_def)
  have "length F < chain_fuel a" using chunk_chain_length [OF F(1)] by (simp add: chain_fuel_def)
  then show ?thesis using count_free_chain [OF F(1)] F(2,3) assms(2) by (simp add: ca_verify_pool_data_def)
qed

lemma used_bucket_heads:
  assumes "lists_ok h B"
  shows "length (filter (\<lambda>i. i \<noteq> -1) (hm_bucket h)) = used_buckets h B"
proof -
  have len: "length (hm_bucket h) = nat (hm_bucket_size h)" using assms by (simp add: lists_ok_def)
  have "hm_bucket h ! b \<noteq> -1 \<longleftrightarrow> B b \<noteq> []" if "b < nat (hm_bucket_size h)" for b
  proof -
    have "hm_bucket h ! b = first_of (B b) (-1)" "\<forall>i\<in>set (B b). in_map h i"
      using bucket_list_of [OF assms that] by (simp_all add: bucket_list_def)
    then show ?thesis by (cases "B b") (auto simp: in_map_def)
  qed
  then have "{b. b < length (hm_bucket h) \<and> hm_bucket h ! b \<noteq> -1} = {b. b < nat (hm_bucket_size h) \<and> B b \<noteq> []}" using len by auto
  then show ?thesis by (simp add: length_filter_conv_card used_buckets_def)
qed

lemma verify_map:
  assumes at: "hmap_at h B L F M V" and "hm_node_total h = int N" "hm_bucket_size h = int buckets"
  shows "hm_verify_pool_data N buckets h = Some 0"
proof -
  note p = hmap_atD [OF at]
  have f: "sseg (\<lambda>i. hn_next (nd h i)) F" "\<forall>i\<in>set F. in_map h i" "distinct F" "hm_free h = first_of F (-1)"
    using p(4) by (auto simp: free_ok_def)
  have "list_len (node_fuel h) h (hm_free h) = Some (length F)"
    using list_len_sseg [OF f(1,2) node_fuel_enough [OF f(3,2)]] f(4) by simp
  moreover have "length (hm_bucket h) = buckets" using p(1) assms(3) by (simp add: lists_ok_def)
  ultimately show ?thesis
    using assms(2,3) p(2,9,10) used_bucket_heads [OF p(1)] by (simp add: hm_verify_pool_data_def INVALID_HDR_def)
qed

section \<open>The parameters of the segment\<close>

text \<open>Every operation leaves the number of buckets and of chunks as they are.\<close>

definition shape :: "'k hmap \<Rightarrow> int \<times> int" where
  "shape h = (hm_bucket_size h, ca_total (hm_alloc h))"

named_theorems shape_kept

lemma shape_simps [simp]:
  "shape (h\<lparr>hm_used_node := a\<rparr>) = shape h" "shape (h\<lparr>hm_used_bucket := a\<rparr>) = shape h" "shape (h\<lparr>hm_add_head := a\<rparr>) = shape h"
  "shape (h\<lparr>hm_add_tail := a\<rparr>) = shape h" "shape (h\<lparr>hm_free := a\<rparr>) = shape h" "shape (h\<lparr>hm_bucket := b\<rparr>) = shape h"
  "shape (h\<lparr>hm_nodes := n\<rparr>) = shape h" "shape (h\<lparr>hm_alloc := c\<rparr>) = (hm_bucket_size h, ca_total c)"
  by (simp_all add: shape_def)

lemma upd_chunk_total: "upd_chunk i f a = Some a' \<Longrightarrow> ca_total a' = ca_total a"
  by (auto simp: upd_chunk_def bind_eq_Some_conv)

lemma ca_free_list_total:
  "ca_free_list_insert i a = Some a' \<Longrightarrow> ca_total a' = ca_total a"
  "ca_free_list_remove a = Some (j, a') \<Longrightarrow> ca_total a' = ca_total a"
  by (auto simp: ca_free_list_insert_def ca_free_list_remove_def bind_eq_Some_conv Let_def dest!: upd_chunk_total split: if_splits)

lemma ca_malloc_loop_total: "ca_malloc_loop n h a = Some (h', a') \<Longrightarrow> ca_total a' = ca_total a"
proof (induction n arbitrary: h a)
  case (Suc n)
  then obtain i a1 a2 where "ca_free_list_remove a = Some (i, a1)" "upd_chunk i (\<lambda>c. c\<lparr>ck_next := h\<rparr>) a1 = Some a2"
      "ca_malloc_loop n i a2 = Some (h', a')"
    by (auto simp: bind_eq_Some_conv)
  then show ?case using Suc.IH ca_free_list_total(2) upd_chunk_total by metis
qed simp

lemma ca_malloc_total: "ca_malloc n a = Some (h, a') \<Longrightarrow> ca_total a' = ca_total a"
  by (auto simp: ca_malloc_def bind_eq_Some_conv dest!: ca_malloc_loop_total split: if_splits)

lemma ca_free_loop_total: "ca_free_loop fuel h a = Some a' \<Longrightarrow> ca_total a' = ca_total a"
  by (induction fuel arbitrary: h a) (force dest: ca_free_list_total(1) split: if_splits option.splits)+

lemma ca_split_loop_total: "ca_split_loop fuel h x a = Some a' \<Longrightarrow> ca_total a' = ca_total a"
  by (induction fuel arbitrary: h x a) (force dest: upd_chunk_total split: if_splits option.splits)+

lemma chunks_total:
  "ca_free_chain h a = Some a' \<Longrightarrow> ca_total a' = ca_total a" "ca_split h x a = Some a' \<Longrightarrow> ca_total a' = ca_total a"
  by (auto simp: ca_free_chain_def ca_split_def dest: ca_free_loop_total ca_split_loop_total)

lemma upd_node_shape [shape_kept]: "upd_node i f h = Some h' \<Longrightarrow> shape h' = shape h"
  by (auto simp: upd_node_def bind_eq_Some_conv)

lemma upd_link_shape [shape_kept]: "upd_link i f h = Some h' \<Longrightarrow> shape h' = shape h"
  by (auto simp: upd_link_def dest: upd_node_shape split: if_splits)

lemma delete_from_add_list_shape [shape_kept]: "delete_from_add_list i h = Some h' \<Longrightarrow> shape h' = shape h"
  by (auto simp: delete_from_add_list_def bind_eq_Some_conv Let_def dest!: shape_kept split: if_splits)

lemma insert_add_list_head_shape [shape_kept]: "insert_add_list_head i h = Some h' \<Longrightarrow> shape h' = shape h"
  by (auto simp: insert_add_list_head_def bind_eq_Some_conv Let_def dest!: shape_kept split: if_splits)

lemma touch_node_shape [shape_kept]: "touch_node now i h = Some h' \<Longrightarrow> shape h' = shape h"
  by (auto simp: touch_node_def bind_eq_Some_conv dest!: shape_kept)

lemma hm_free_list_insert_shape [shape_kept]: "hm_free_list_insert i h = Some h' \<Longrightarrow> shape h' = shape h"
  by (auto simp: hm_free_list_insert_def bind_eq_Some_conv dest!: shape_kept)

lemma hm_free_list_remove_shape [shape_kept]: "hm_free_list_remove h = Some (i, h') \<Longrightarrow> shape h' = shape h"
  by (auto simp: hm_free_list_remove_def bind_eq_Some_conv Let_def dest!: shape_kept split: if_splits)

lemma node_list_shape [shape_kept]:
  "insert_node_list i h = Some h' \<Longrightarrow> shape h' = shape h" "delete_from_node_list i h = Some h' \<Longrightarrow> shape h' = shape h"
  by (auto simp: insert_node_list_def delete_from_node_list_def bind_eq_Some_conv Let_def dest!: shape_kept split: if_splits)

lemma init_node_shape [shape_kept]: "init_node i h = Some h' \<Longrightarrow> shape h' = shape h"
  by (simp add: init_node_def upd_node_shape)

lemma use_node_shape [shape_kept]: "use_node i k l c h = Some h' \<Longrightarrow> shape h' = shape h"
  by (auto simp: use_node_def bind_eq_Some_conv Let_def dest!: shape_kept split: if_splits)

lemma free_node_shape [shape_kept]: "free_node i h = Some h' \<Longrightarrow> shape h' = shape h"
  by (auto simp: free_node_def bind_eq_Some_conv Let_def shape_def dest!: shape_kept [unfolded shape_def] chunks_total split: if_splits)

lemma find_node_shape [shape_kept]: "find_node now k h = Some (i, h') \<Longrightarrow> shape h' = shape h"
  by (auto simp: find_node_def bind_eq_Some_conv dest!: shape_kept split: if_splits)

lemma insert_node_shape [shape_kept]:
  assumes "insert_node now k x h = Some (i, h')"
  shows "shape h' = shape h"
proof -
  have a: "shape h2 = shape h" if "hm_free_list_remove h = Some (j, h1)" "ca_malloc n (hm_alloc h1) = Some (c, a)"
      "hm_free_list_insert j (h1\<lparr>hm_alloc := a\<rparr>) = Some h2" for j h1 n c a h2
    using that by (auto dest!: shape_kept ca_malloc_total simp: shape_def)
  have b: "shape h3 = shape h" if "hm_free_list_remove h = Some (j, h1)" "ca_malloc n (hm_alloc h1) = Some (c, a)" "ca_split c x a = Some a'"
      "use_node j k (length x) c (h1\<lparr>hm_alloc := a'\<rparr>) = Some h2" "touch_node now j h2 = Some h3" for j h1 n c a a' h2 h3
    using that by (auto dest!: shape_kept ca_malloc_total chunks_total(2) simp: shape_def)
  show ?thesis
    using assms a b hm_free_list_remove_shape by (auto simp: insert_node_def bind_eq_Some_conv split: if_splits)
qed

lemma update_node_shape [shape_kept]:
  assumes "update_node i x out h = Some (j, out', h')"
  shows "shape h' = shape h"
proof -
  have a: "shape h1 = shape h" if "ca_free_chain c (hm_alloc h) = Some a" "ca_malloc n a = Some (d, a1)" "ca_split d x a1 = Some a2"
      "upd_node i f (h\<lparr>hm_alloc := a2\<rparr>) = Some h1" for c a n d a1 a2 f h1
    using that by (auto dest!: shape_kept ca_malloc_total chunks_total simp: shape_def)
  have b: "shape h1 = shape h" if "ca_split c x (hm_alloc h) = Some a" "upd_node i f (h\<lparr>hm_alloc := a\<rparr>) = Some h1" for c a f h1
    using that by (auto dest!: shape_kept chunks_total simp: shape_def)
  show ?thesis
    using assms a b by (auto simp: update_node_def bind_eq_Some_conv split: if_splits)
qed

lemma replace_node_shape [shape_kept]: "replace_node now k x out h = Some (j, out', h') \<Longrightarrow> shape h' = shape h"
  by (auto simp: replace_node_def bind_eq_Some_conv dest!: shape_kept split: if_splits)

lemma delete_node_shape [shape_kept]: "delete_node i out h = Some (j, out', h') \<Longrightarrow> shape h' = shape h"
  by (auto simp: delete_node_def bind_eq_Some_conv dest!: shape_kept split: if_splits)

lemma shm_shape [shape_kept]:
  "shm_Find now k h = Some (b, h') \<Longrightarrow> shape h' = shape h"
  "shm_Find_data now k out h = Some (r, out', h') \<Longrightarrow> shape h' = shape h"
  "shm_Insert now k x h = Some (r, h') \<Longrightarrow> shape h' = shape h"
  "shm_SetValue now k x h = Some (r, h') \<Longrightarrow> shape h' = shape h"
  "shm_Delete now k h = Some (r, h') \<Longrightarrow> shape h' = shape h"
  by (auto simp: shm_Find_def shm_Find_data_def shm_Insert_def shm_SetValue_def shm_Delete_def bind_eq_Some_conv dest!: shape_kept split: if_splits)

lemma hm_init_loop_shape: "hm_init_loop n h = Some h' \<Longrightarrow> shape h' = shape h"
  by (induction n arbitrary: h') (auto simp: bind_eq_Some_conv dest!: shape_kept)

lemma init_shape:
  assumes "shm_Init True junk N buckets T c h = Some (r, h')"
  shows "shape h' = (int buckets, int T)"
proof -
  obtain h1 a where "hm_init_pool_data N buckets h = Some h1" "ca_init_pool_data T c (hm_alloc h1) = Some a" "h' = h1\<lparr>hm_alloc := a\<rparr>"
    using assms by (auto simp: shm_Init_def hm_open_def ca_open_def bind_eq_Some_conv)
  then show ?thesis
    by (auto simp: hm_init_pool_data_def ca_init_pool_data_def bind_eq_Some_conv dest!: hm_init_loop_shape) (simp add: shape_def)
qed

end
