(* ===== verification/HashMapTheorems.thy ===== *)
theory HashMapTheorems
  imports HashMapReopen
begin

text \<open>
  The hash map in shared memory against its specification: a list of keys and values in the
  order of recent use, bounded by the number of nodes and the number of chunks.
\<close>

section \<open>Sequences of operations\<close>

datatype 'k hop = HFind 'k | HGet 'k "byte list" nat | HInsert 'k "byte list" | HSet 'k "byte list" | HDelete 'k

definition shm_op :: "int \<Rightarrow> 'k hop \<Rightarrow> 'k hmap \<Rightarrow> ((int \<times> out_arg) \<times> 'k hmap) option" where
  "shm_op now q h = (case q of
     HFind k \<Rightarrow> do { (found, h) \<leftarrow> shm_Find now k h; Some ((if found then 1 else 0, NoOut), h) }
   | HGet k buf l \<Rightarrow> do { (ret, out, h) \<leftarrow> shm_Find_data now k (OutBuf buf l) h; Some ((ret, out), h) }
   | HInsert k x \<Rightarrow> do { (ret, h) \<leftarrow> shm_Insert now k x h; Some ((ret, NoOut), h) }
   | HSet k x \<Rightarrow> do { (ret, h) \<leftarrow> shm_SetValue now k x h; Some ((ret, NoOut), h) }
   | HDelete k \<Rightarrow> do { (ret, h) \<leftarrow> shm_Delete now k h; Some ((ret, NoOut), h) })"

fun shm_run :: "(int \<times> 'k hop) list \<Rightarrow> 'k hmap \<Rightarrow> ((int \<times> out_arg) list \<times> 'k hmap) option" where
  "shm_run [] h = Some ([], h)"
| "shm_run ((now, q) # qs) h = do { (r, h) \<leftarrow> shm_op now q h; (rs, h) \<leftarrow> shm_run qs h; Some (r # rs, h) }"

text \<open>The same on the list; \<open>N\<close> nodes, \<open>T\<close> chunks of \<open>c\<close> bytes.\<close>

definition spec_insert :: "nat \<Rightarrow> nat \<Rightarrow> nat \<Rightarrow> 'k \<Rightarrow> byte list \<Rightarrow> ('k \<times> byte list) list \<Rightarrow> (int \<times> out_arg) \<times> ('k \<times> byte list) list" where
  "spec_insert N T c k x xs =
     (if length xs < N \<and> x \<noteq> [] \<and> cost c xs + chunks_for c x \<le> T then ((0, NoOut), (k, x) # xs) else ((-1, NoOut), xs))"

definition spec_op :: "nat \<Rightarrow> nat \<Rightarrow> nat \<Rightarrow> 'k hop \<Rightarrow> ('k \<times> byte list) list \<Rightarrow> (int \<times> out_arg) \<times> ('k \<times> byte list) list" where
  "spec_op N T c q xs = (case q of
     HFind k \<Rightarrow> ((if map_of xs k = None then 0 else 1, NoOut), to_front k xs)
   | HGet k buf l \<Rightarrow> (case map_of xs k of None \<Rightarrow> ((-1, OutBuf buf l), xs)
       | Some v \<Rightarrow> (if l < length v then (-2, OutBuf buf (length v)) else (0, OutBuf (v @ drop (length v) buf) (length v)), to_front k xs))
   | HInsert k x \<Rightarrow> spec_insert N T c k x xs
   | HSet k x \<Rightarrow> (case map_of xs k of None \<Rightarrow> spec_insert N T c k x xs
       | Some v \<Rightarrow> if cost c xs + chunks_for c x \<le> T + chunks_for c v then ((0, NoOut), (k, x) # drop_key k xs)
                    else ((-1, NoOut), to_front k xs))
   | HDelete k \<Rightarrow> ((if map_of xs k = None then -1 else 0, NoOut), drop_key k xs))"

fun spec_run :: "nat \<Rightarrow> nat \<Rightarrow> nat \<Rightarrow> 'k hop list \<Rightarrow> ('k \<times> byte list) list \<Rightarrow> (int \<times> out_arg) list \<times> ('k \<times> byte list) list" where
  "spec_run N T c [] xs = ([], xs)"
| "spec_run N T c (q # qs) xs = (let (r, ys) = spec_op N T c q xs; (rs, zs) = spec_run N T c qs ys in (r # rs, zs))"

text \<open>A buffer is at least as long as the caller says.\<close>

fun hop_ok :: "'k hop \<Rightarrow> bool" where
  "hop_ok (HGet k buf l) \<longleftrightarrow> l \<le> length buf"
| "hop_ok _ \<longleftrightarrow> True"

section \<open>The operations one by one\<close>

lemma hash_repD:
  assumes "hash_rep h N T c xs"
  obtains B L F M V where "hmap_at h B L F M V" "xs = contents h V L" "hm_node_total h = int N" "ca_size (hm_alloc h) = c"
    "ca_free_total (hm_alloc h) + int (cost c xs) = int T"
  using assms unfolding hash_rep_def by blast

lemma hash_repI:
  assumes "hmap_at h B L F M V" "xs = contents h V L" "hm_node_total h = int N" "ca_size (hm_alloc h) = c"
    "ca_free_total (hm_alloc h) + int (cost c xs) = int T"
  shows "hash_rep h N T c xs"
  using assms unfolding hash_rep_def by blast

lemma need_chunks: "ca.need a x = chunks_for (ca_size a) x"
  by (simp add: ca.need_def chunks_for_def)

lemma rep_found:
  assumes "hash_rep h N T c xs" "map_of xs k = Some v"
  shows "\<exists>i h'. find_node now k h = Some (i, h') \<and> i \<noteq> -1 \<and> hash_rep h' N T c (to_front k xs) \<and>
    (\<exists>B L F M V. hmap_at h' B (i # L) F M V \<and> V i = v \<and> hn_key (nd h' i) = k \<and> contents h' V L = drop_key k xs \<and> hm_node_total h' = int N \<and>
      ca_size (hm_alloc h') = c \<and> ca_free_total (hm_alloc h') + int (cost c xs) = int T)"
proof -
  from assms(1) obtain B L F M V where r: "hmap_at h B L F M V" "xs = contents h V L" "hm_node_total h = int N" "ca_size (hm_alloc h) = c"
      "ca_free_total (hm_alloc h) + int (cost c xs) = int T" by (rule hash_repD)
  obtain i h' L' where f: "find_node now k h = Some (i, h')" "hmap_at h' B (i # L') F M V" "V i = v" "hn_key (nd h' i) = k"
      "contents h' V (i # L') = to_front k xs" "contents h' V L' = drop_key k xs" "hm_alloc h' = hm_alloc h" "hm_node_total h' = hm_node_total h"
    using find_node_some [OF r(1) assms(2) [unfolded r(2)]] r(2) by blast
  have "i \<noteq> -1" using hmap_atD(11) [OF f(2)] by (auto simp: in_map_def)
  moreover have "hash_rep h' N T c (to_front k xs)"
    using r f by (intro hash_repI [OF f(2) f(5) [symmetric]]) (simp_all add: cost_to_front)
  ultimately show ?thesis using f r(3-5) by metis
qed

lemma rep_not_found:
  assumes "hash_rep h N T c xs" "map_of xs k = None"
  shows "find_node now k h = Some (-1, h)"
  using assms find_node_none by (metis hash_repD)

lemma rep_insert:
  assumes rep: "hash_rep h N T c xs"
  shows "\<exists>i h'. insert_node now k x h = Some (i, h') \<and> hash_rep h' N T c (snd (spec_insert N T c k x xs)) \<and>
    (if i = -1 then -1 else 0) = fst (fst (spec_insert N T c k x xs))"
proof -
  from rep obtain B L F M V where r: "hmap_at h B L F M V" "xs = contents h V L" "hm_node_total h = int N" "ca_size (hm_alloc h) = c"
      "ca_free_total (hm_alloc h) + int (cost c xs) = int T" by (rule hash_repD)
  have n: "N = length xs + length F" using hmap_atD(10) [OF r(1)] r(2,3) by (simp add: contents_def)
  have need: "ca.need (hm_alloc h) x = chunks_for c x" using r(4) by (simp add: need_chunks)
  show ?thesis
  proof (cases "length xs < N \<and> x \<noteq> [] \<and> cost c xs + chunks_for c x \<le> T")
    case True
    then obtain i F' where F: "F = i # F'" using n by (cases F) auto
    have "int (ca.need (hm_alloc h) x) \<le> ca_free_total (hm_alloc h)" using True r(5) need by linarith
    with insert_node_ok [OF r(1) [unfolded F], of x now k] True obtain h' B' M' where ins: "insert_node now k x h = Some (i, h')"
        "hmap_at h' B' (i # L) F' M' (V(i := x))" "contents h' (V(i := x)) (i # L) = (k, x) # contents h V L"
        "ca_size (hm_alloc h') = ca_size (hm_alloc h)"
        "ca_free_total (hm_alloc h') = ca_free_total (hm_alloc h) - int (ca.need (hm_alloc h) x)" "hm_node_total h' = hm_node_total h"
      by blast
    have "i \<noteq> -1" using hmap_atD(11) [OF ins(2)] by (auto simp: in_map_def)
    moreover have "hash_rep h' N T c ((k, x) # xs)"
      using r ins need by (intro hash_repI [OF ins(2)]) (simp_all add: cost_def)
    ultimately show ?thesis using ins(1) True by (simp add: spec_insert_def)
  next
    case False
    have "insert_node now k x h = Some (-1, h)"
    proof (cases F)
      case Nil
      show ?thesis by (rule insert_node_full [OF r(1) [unfolded Nil]])
    next
      case (Cons i F')
      have "x = [] \<or> ca_free_total (hm_alloc h) < int (ca.need (hm_alloc h) x)" using False n Cons r(5) need by auto
      then show ?thesis by (rule insert_node_refused [OF r(1) [unfolded Cons]])
    qed
    then show ?thesis using False rep by (auto simp: spec_insert_def)
  qed
qed

lemma rep_update:
  assumes rep: "hash_rep h N T c xs" and k: "map_of xs k = Some v"
  shows "\<exists>i h1 j h2. find_node now k h = Some (i, h1) \<and> i \<noteq> -1 \<and> update_node i x NoOut h1 = Some (j, NoOut, h2) \<and>
    (if cost c xs + chunks_for c x \<le> T + chunks_for c v then j \<noteq> -1 \<and> hash_rep h2 N T c ((k, x) # drop_key k xs)
     else j = -1 \<and> hash_rep h2 N T c (to_front k xs))"
proof -
  obtain i h1 B L F M V where f: "find_node now k h = Some (i, h1)" "i \<noteq> -1" "hash_rep h1 N T c (to_front k xs)" "hmap_at h1 B (i # L) F M V"
      "V i = v" "hn_key (nd h1 i) = k" "contents h1 V L = drop_key k xs" "hm_node_total h1 = int N"
      "ca_size (hm_alloc h1) = c" "ca_free_total (hm_alloc h1) + int (cost c xs) = int T"
    using rep_found [OF assms, of now] by blast
  have i: "i \<in> set (i # L)" "i \<notin> set L" using hmap_atD(12) [OF f(4)] by simp_all
  have need: "ca.need (hm_alloc h1) y = chunks_for c y" for y using f(9) by (simp add: need_chunks)
  show ?thesis
  proof (cases "cost c xs + chunks_for c x \<le> T + chunks_for c v")
    case True
    then have "int (ca.need (hm_alloc h1) x) \<le> ca_free_total (hm_alloc h1) + int (ca.need (hm_alloc h1) (V i))"
      using f(5,10) by (simp add: need)
    from update_node_ok [OF f(4) i(1) this] obtain h2 M' where u: "update_node i x NoOut h1 = Some (i, NoOut, h2)"
        "hmap_at h2 B (i # L) F M' (V(i := x))" "contents h2 (V(i := x)) (i # L) = contents h1 (V(i := x)) (i # L)"
        "ca_size (hm_alloc h2) = ca_size (hm_alloc h1)"
        "ca_free_total (hm_alloc h2) = ca_free_total (hm_alloc h1) + int (ca.need (hm_alloc h1) (V i)) - int (ca.need (hm_alloc h1) x)"
        "hm_node_total h2 = hm_node_total h1"
      by blast
    have "contents h1 (V(i := x)) L = contents h1 V L" using i(2) by (intro contents_cong) auto
    then have "contents h1 (V(i := x)) L = drop_key k xs" using f(7) by simp
    then have c: "contents h2 (V(i := x)) (i # L) = (k, x) # drop_key k xs" using u(3) f(6) by (simp add: contents_def)
    have "cost c ((k, x) # drop_key k xs) + chunks_for c v = cost c xs + chunks_for c x" using cost_drop_key [OF k, of c] by (simp add: cost_def)
    then have "ca_free_total (hm_alloc h2) + int (cost c ((k, x) # drop_key k xs)) = int T" using u(5) f(5,10) by (simp add: need)
    then have "hash_rep h2 N T c ((k, x) # drop_key k xs)"
      using u(4,6) f(8,9) by (intro hash_repI [OF u(2) c [symmetric]]) simp_all
    then show ?thesis using True f(1,2) u(1) by auto
  next
    case False
    then have "ca_free_total (hm_alloc h1) + int (ca.need (hm_alloc h1) (V i)) < int (ca.need (hm_alloc h1) x)"
      using f(5,10) by (simp add: need)
    then have "update_node i x NoOut h1 = Some (-1, NoOut, h1)" by (rule update_node_refused [OF f(4) i(1)])
    then show ?thesis using False f(1-3) by auto
  qed
qed

lemma rep_delete:
  assumes rep: "hash_rep h N T c xs" and k: "map_of xs k = Some v"
  shows "\<exists>i h1 h2. find_node now k h = Some (i, h1) \<and> i \<noteq> -1 \<and> delete_node i NoOut h1 = Some (0, NoOut, h2) \<and> hash_rep h2 N T c (drop_key k xs)"
proof -
  obtain i h1 B L F M V where f: "find_node now k h = Some (i, h1)" "i \<noteq> -1" "hmap_at h1 B (i # L) F M V"
      "V i = v" "contents h1 V L = drop_key k xs" "hm_node_total h1 = int N"
      "ca_size (hm_alloc h1) = c" "ca_free_total (hm_alloc h1) + int (cost c xs) = int T"
    using rep_found [OF assms, of now] by blast
  obtain h2 B' M' where d: "delete_node i NoOut h1 = Some (0, NoOut, h2)" "hmap_at h2 B' ([] @ L) (i # F) M' V"
      "contents h2 V ([] @ L) = contents h1 V ([] @ L)" "ca_size (hm_alloc h2) = ca_size (hm_alloc h1)"
      "ca_free_total (hm_alloc h2) = ca_free_total (hm_alloc h1) + int (ca.need (hm_alloc h1) (V i))" "hm_node_total h2 = hm_node_total h1"
    using delete_node_ok [of h1 B "[]" i L F M V] f(3) by auto
  have "ca_free_total (hm_alloc h2) + int (cost c (drop_key k xs)) = int T"
    using cost_drop_key [OF k, of c] d(5) f(4,7,8) by (simp add: need_chunks)
  then have "hash_rep h2 N T c (drop_key k xs)" using d f by (intro hash_repI [OF d(2)]) simp_all
  then show ?thesis using f(1,2) d(1) by blast
qed

text \<open>Reading the value of the node that has been found.\<close>

lemma rep_value:
  assumes at: "hmap_at h B (i # L) F M V" and l: "l \<le> length buf"
  shows "merge_node_data i (OutBuf buf l) h =
    Some (if l < length (V i) then (-2, OutBuf buf (length (V i))) else (0, OutBuf (V i @ drop (length (V i)) buf) (length (V i))))"
proof -
  have v: "chunks_rep (hm_alloc h) M" "ca.holds (hm_alloc h) M (hn_chunk (nd h i)) (V i)" "hn_len (nd h i) = length (V i)" "in_map h i"
    using hmap_atD(5,11) [OF at] by (simp_all add: values_ok_def)
  show ?thesis
  proof (cases "l < length (V i)")
    case True
    then show ?thesis using v ca.merge_short [OF True] by (simp add: merge_node_data_def node_at_in node_out_def)
  next
    case False
    then show ?thesis using v l ca.load_value [OF v(1,2) _ l] by (simp add: merge_node_data_def node_at_in node_out_def)
  qed
qed

lemma shm_op_spec:
  assumes rep: "hash_rep h N T c xs" and q: "hop_ok q"
  shows "\<exists>h'. shm_op now q h = Some (fst (spec_op N T c q xs), h') \<and> hash_rep h' N T c (snd (spec_op N T c q xs))"
proof (cases "\<exists>k x. q = HInsert k x \<or> q = HSet k x \<and> map_of xs k = None")
  case True
  then obtain k x where kx: "q = HInsert k x \<or> q = HSet k x \<and> map_of xs k = None" by blast
  obtain i h' where i: "insert_node now k x h = Some (i, h')" "hash_rep h' N T c (snd (spec_insert N T c k x xs))"
      "(if i = -1 then -1 else 0) = fst (fst (spec_insert N T c k x xs))"
    using rep_insert [OF rep, of now k x] by blast
  have "fst (spec_insert N T c k x xs) = (if i = -1 then -1 else 0, NoOut)" using i(3) by (auto simp: spec_insert_def)
  then show ?thesis
    using kx i(1,2) rep_not_found [OF rep, of k now]
    by (auto simp: shm_op_def spec_op_def shm_Insert_def shm_SetValue_def replace_node_def INVALID_HDR_def)
next
  case not_ins: False
  define k where "k = (case q of HFind k \<Rightarrow> k | HGet k b l \<Rightarrow> k | HInsert k x \<Rightarrow> k | HSet k x \<Rightarrow> k | HDelete k \<Rightarrow> k)"
  show ?thesis
  proof (cases "map_of xs k")
    case None
    then have "drop_key k xs = xs" using drop_key_other [of k xs] by (simp add: map_of_eq_None_iff)
    then show ?thesis
      using None not_ins rep rep_not_found [OF rep None, of now]
      by (cases q) (simp_all add: k_def shm_op_def spec_op_def shm_Find_def shm_Find_data_def shm_Delete_def INVALID_HDR_def to_front_def)
  next
    case (Some v)
    note found = rep_found [OF rep Some, of now] and upd = rep_update [OF rep Some, of now] and del = rep_delete [OF rep Some, of now]
    show ?thesis
    proof (cases q)
      case (HFind k')
      then show ?thesis using found Some by (auto simp: k_def shm_op_def spec_op_def shm_Find_def INVALID_HDR_def)
    next
      case (HGet k' buf l)
      obtain i h' B L F M V where f: "find_node now k h = Some (i, h')" "i \<noteq> -1" "hash_rep h' N T c (to_front k xs)"
          "hmap_at h' B (i # L) F M V" "V i = v"
        using found by blast
      have "l \<le> length buf" using q HGet by simp
      then show ?thesis using HGet Some f rep_value [OF f(4), of l buf]
        by (simp add: k_def shm_op_def spec_op_def shm_Find_data_def INVALID_HDR_def)
    next
      case (HInsert k' x)
      then show ?thesis using not_ins by blast
    next
      case (HSet k' x)
      then show ?thesis using upd [of x] Some
        by (auto simp: k_def shm_op_def spec_op_def shm_SetValue_def replace_node_def INVALID_HDR_def split: if_splits)
    next
      case (HDelete k')
      then show ?thesis using del Some by (auto simp: k_def shm_op_def spec_op_def shm_Delete_def INVALID_HDR_def)
    qed
  qed
qed

lemma shm_run_spec:
  "hash_rep h N T c xs \<Longrightarrow> \<forall>(t, q)\<in>set qs. hop_ok q \<Longrightarrow>
    \<exists>h'. shm_run qs h = Some (fst (spec_run N T c (map snd qs) xs), h') \<and> hash_rep h' N T c (snd (spec_run N T c (map snd qs) xs))"
proof (induction qs arbitrary: h xs)
  case (Cons p qs)
  obtain now q where p: "p = (now, q)" by (cases p)
  obtain h1 where 1: "shm_op now q h = Some (fst (spec_op N T c q xs), h1)" "hash_rep h1 N T c (snd (spec_op N T c q xs))"
    using shm_op_spec [OF Cons.prems(1), of q now] Cons.prems(2) p by auto
  obtain h2 where 2: "shm_run qs h1 = Some (fst (spec_run N T c (map snd qs) (snd (spec_op N T c q xs))), h2)"
      "hash_rep h2 N T c (snd (spec_run N T c (map snd qs) (snd (spec_op N T c q xs))))"
    using Cons.IH [OF 1(2)] Cons.prems(2) by auto
  show ?case using 1(1) 2 p by (simp add: split_beta Let_def)
qed simp

section \<open>Reading the order of use\<close>

text \<open>The keys that a visitor meets from a node on.\<close>

fun walk_next :: "nat \<Rightarrow> 'k hmap \<Rightarrow> int \<Rightarrow> 'k list option" where
  "walk_next 0 h i = None"
| "walk_next (Suc fuel) h i =
     (if i = INVALID_HDR then Some []
      else do { n \<leftarrow> node_at h i; j \<leftarrow> get_add_list_next i h; ks \<leftarrow> walk_next fuel h j; Some (hn_key n # ks) })"

lemma walk_dseg:
  assumes "sseg (\<lambda>i. hn_anext (nd h i)) xs" "\<forall>i\<in>set xs. in_map h i" "length xs < fuel"
  shows "walk_next fuel h (first_of xs (-1)) = Some (map (\<lambda>i. hn_key (nd h i)) xs)"
  using assms
proof (induction xs arbitrary: fuel)
  case Nil
  then show ?case by (cases fuel) (simp_all add: INVALID_HDR_def)
next
  case (Cons i xs)
  then have "in_map h i" "i \<noteq> -1" by (auto simp: in_map_def)
  then show ?case using Cons by (cases fuel) (simp_all add: INVALID_HDR_def node_at_in get_add_list_next_def)
qed

lemma rep_walk:
  assumes "hash_rep h N T c xs"
  shows "walk_next (Suc N) h (get_add_list_head h) = Some (map fst xs)" "GetSize h = int N" "GetCount h = int (length xs)"
    "length xs \<le> N" "cost c xs \<le> T" "get_free_chunk_num (hm_alloc h) = int (T - cost c xs)"
proof -
  from assms obtain B L F M V where r: "hmap_at h B L F M V" "xs = contents h V L" "hm_node_total h = int N" "ca_size (hm_alloc h) = c"
      "ca_free_total (hm_alloc h) + int (cost c xs) = int T" by (rule hash_repD)
  note p = hmap_atD [OF r(1)]
  have len: "length xs = length L" "map fst xs = map (\<lambda>i. hn_key (nd h i)) L" using r(2) by (simp_all add: contents_def)
  have N: "N = length L + length F" using p(10) r(3) by simp
  have l: "sseg (\<lambda>i. hn_anext (nd h i)) L" "hm_add_head h = first_of L (-1)" using p(3) by (auto simp: lru_def dest: dseg_sseg)
  show "walk_next (Suc N) h (get_add_list_head h) = Some (map fst xs)"
    using walk_dseg [OF l(1) p(11), of "Suc N"] l(2) len N by (simp add: get_add_list_head_def del: walk_next.simps)
  show "GetSize h = int N" "GetCount h = int (length xs)" "length xs \<le> N" using r(3) p(9) len N by (simp_all add: GetSize_def GetCount_def)
  have "0 \<le> ca_free_total (hm_alloc h)" using ca.free_num_nonneg p(5) by (auto simp: values_ok_def)
  then show "cost c xs \<le> T" "get_free_chunk_num (hm_alloc h) = int (T - cost c xs)" using r(5) by (simp_all add: get_free_chunk_num_def)
qed

lemma shm_op_shape: "shm_op now q h = Some (r, h') \<Longrightarrow> shape h' = shape h"
  by (cases q) (auto simp: shm_op_def bind_eq_Some_conv dest!: shm_shape)

lemma shm_run_shape: "shm_run qs h = Some (rs, h') \<Longrightarrow> shape h' = shape h"
proof (induction qs arbitrary: h rs)
  case (Cons p qs)
  then obtain now q r h1 rs1 where "p = (now, q)" "shm_op now q h = Some (r, h1)" "shm_run qs h1 = Some (rs1, h')"
    by (cases p) (auto simp: bind_eq_Some_conv)
  then show ?case using Cons.IH shm_op_shape by metis
qed simp

section \<open>Properties\<close>

text \<open>A segment for two nodes and three chunks of two bytes, all zero, for the examples.\<close>

definition zero_map :: "nat hmap" where
  "zero_map = \<lparr>hm_node_total = 0, hm_bucket_size = 0, hm_used_node = 0, hm_used_bucket = 0, hm_add_head = 0, hm_add_tail = 0, hm_free = 0,
     hm_bucket = [], hm_nodes = replicate 2 \<lparr>hn_key = 0, hn_len = 0, hn_chunk = 0, hn_prev = 0, hn_next = 0, hn_aprev = 0, hn_anext = 0,
       hn_time = 0, hn_count = 0, hn_flag = 0\<rparr>,
     hm_alloc = \<lparr>ca_total = 0, ca_size = 0, ca_free_total = 0, ca_free = 0, ca_nodes = replicate 3 \<lparr>ck_next = 0, ck_data = [0, 0]\<rparr>\<rparr>,
     hm_hash = (\<lambda>k. k)\<rparr>"

lemma init_opens:
  assumes "length (hm_nodes h) = N" "0 < buckets" "int buckets < 2 ^ 31"
    "\<forall>ch\<in>set (ca_nodes (hm_alloc h)). length (ck_data ch) = c" "length (ca_nodes (hm_alloc h)) = T" "0 < c"
  shows "\<exists>h'. shm_Init True junk N buckets T c h = Some (0, h') \<and> hash_rep h' N T c []"
  using opened_empty [OF assms] by (auto simp: shm_Init_def)

lemma zero_map_opens: "\<exists>h. shm_Init True False 2 1 3 2 zero_map = Some (0, h) \<and> hash_rep h 2 3 2 []"
  by (rule init_opens) (simp_all add: zero_map_def)



text \<open>
  After any operations on a new map, a visitor that starts at the head of the list of recent
  use and follows its links meets every entry once, the last used one first, and stops.
\<close>

theorem hash_map_use_order:
  assumes "length (hm_nodes h) = N" "0 < buckets" "int buckets < 2 ^ 31"
    "\<forall>ch\<in>set (ca_nodes (hm_alloc h)). length (ck_data ch) = c" "length (ca_nodes (hm_alloc h)) = T" "0 < c"
    and "\<forall>(t, q)\<in>set qs. hop_ok q" "shm_Init True junk N buckets T c h = Some (0, h1)" "shm_run qs h1 = Some (rs, h')"
  shows "walk_next (Suc N) h' (get_add_list_head h') = Some (map fst (snd (spec_run N T c (map snd qs) [])))"
proof -
  have "hash_rep h1 N T c []" using init_opens [OF assms(1-6), of junk] assms(8) by simp
  then have "hash_rep h' N T c (snd (spec_run N T c (map snd qs) []))" using shm_run_spec [OF _ assms(7)] assms(9) by fastforce
  then show ?thesis by (rule rep_walk(1))
qed

theorem hash_map_use_order_witness:
  "\<exists>h1 h' rs. shm_Init True False 2 1 3 2 zero_map = Some (0, h1) \<and>
    shm_run [(7, HSet 4 [1, 2, 3]), (8, HSet 5 [9]), (9, HFind 4)] h1 = Some (rs, h') \<and> walk_next 3 h' (get_add_list_head h') = Some [4, 5]"
proof -
  let ?qs = "[(7, HSet 4 [1, 2, 3]), (8, HSet 5 [9]), (9, HFind (4 :: nat))] :: (int \<times> nat hop) list"
  obtain h1 where 1: "shm_Init True False 2 1 3 2 zero_map = Some (0, h1)" "hash_rep h1 2 3 2 []" using zero_map_opens by blast
  have ok: "\<forall>(t, q)\<in>set ?qs. hop_ok q" by simp
  obtain rs h' where 2: "shm_run ?qs h1 = Some (rs, h')" using shm_run_spec [OF 1(2) ok] by blast
  have "walk_next (Suc 2) h' (get_add_list_head h') = Some (map fst (snd (spec_run 2 3 2 (map snd ?qs) [])))"
    by (rule hash_map_use_order [OF _ _ _ _ _ _ ok 1(1) 2]) (simp_all add: zero_map_def)
  moreover have "map fst (snd (spec_run 2 3 2 (map snd ?qs) [])) = [4, 5]"
    by (simp add: spec_op_def spec_insert_def cost_def chunks_for_def to_front_def)
  ultimately have "walk_next 3 h' (get_add_list_head h') = Some [4, 5]" by (simp del: walk_next.simps add: numeral_3_eq_3)
  then show ?thesis using 1(1) 2 by blast
qed

text \<open>
  A key that is in the map can be inserted again: \<open>Insert\<close> succeeds when a node and the chunks
  are free, hides the value the key had, and the next \<open>Delete\<close> brings that value back.
\<close>

theorem hash_insert_again:
  assumes "hash_rep h N T c xs" "map_of xs k = Some old" "length xs < N" "x \<noteq> []" "cost c xs + chunks_for c x \<le> T"
    "length old \<le> l" "length x \<le> l" "l \<le> length buf"
  shows "\<exists>h'. shm_run [(t1, HInsert k x), (t2, HGet k buf l), (t3, HDelete k), (t4, HGet k buf l)] h =
    Some ([(0, NoOut), (0, OutBuf (x @ drop (length x) buf) (length x)), (0, NoOut), (0, OutBuf (old @ drop (length old) buf) (length old))], h')"
  using shm_run_spec [OF assms(1), of "[(t1, HInsert k x), (t2, HGet k buf l), (t3, HDelete k), (t4, HGet k buf l)]"] assms(2-8)
  by (auto simp: spec_op_def spec_insert_def to_front_def)

theorem hash_insert_again_witness:
  "\<exists>h xs h'. hash_rep (h :: nat hmap) 2 3 2 xs \<and> map_of xs (4 :: nat) = Some [1, 2, 3] \<and>
    shm_run [(1, HInsert 4 [5]), (2, HGet 4 [0, 0, 0] 3), (3, HDelete 4), (4, HGet 4 [0, 0, 0] 3)] h =
      Some ([(0, NoOut), (0, OutBuf [5, 0, 0] 1), (0, NoOut), (0, OutBuf [1, 2, 3] 3)], h')"
proof -
  obtain h1 where 1: "hash_rep h1 2 3 2 ([] :: (nat \<times> byte list) list)" using zero_map_opens by blast
  obtain h where 2: "hash_rep h 2 3 2 [(4 :: nat, [1, 2, 3])]"
    using shm_op_spec [OF 1, of "HInsert 4 [1, 2, 3]" 0] by (auto simp: spec_op_def spec_insert_def cost_def chunks_for_def)
  from hash_insert_again [OF 2, of 4 "[1, 2, 3]" "[5]" 3 "[0, 0, 0]" 1 2 3 4]
  have "\<exists>h'. shm_run [(1, HInsert 4 [5]), (2, HGet 4 [0, 0, 0] 3), (3, HDelete 4), (4, HGet 4 [0, 0, 0] 3)] h =
      Some ([(0, NoOut), (0, OutBuf [5, 0, 0] 1), (0, NoOut), (0, OutBuf [1, 2, 3] 3)], h')"
    by (simp add: cost_def chunks_for_def numeral_3_eq_3 del: shm_run.simps)
  moreover have "map_of [(4, [1, 2, 3])] (4 :: nat) = Some ([1, 2, 3] :: byte list)" by simp
  ultimately show ?thesis using 2 by blast
qed



end
