(* ===== verification/CString.thy ===== *)
theory CString
  imports Prelude
begin

text \<open>
  The functions of the C library on strings that the configuration is read with: \<open>isspace\<close>,
  \<open>strtol\<close> with base 10 and with a prefix, \<open>atoi\<close>, \<open>string::find\<close>.  A C string is the list of
  its characters before the terminating zero.
\<close>

definition isspace :: "char \<Rightarrow> bool" where
  "isspace c \<longleftrightarrow> of_char c = (32 :: nat) \<or> 9 \<le> (of_char c :: nat) \<and> of_char c \<le> (13 :: nat)"

definition digit_val :: "nat \<Rightarrow> char \<Rightarrow> nat option" where
  "digit_val base c =
     (let n = of_char c :: nat;
          d = (if 48 \<le> n \<and> n \<le> 57 then n - 48 else if 97 \<le> n \<and> n \<le> 122 then n - 87
               else if 65 \<le> n \<and> n \<le> 90 then n - 55 else base)
      in if d < base then Some d else None)"

fun digits_val :: "nat \<Rightarrow> nat \<Rightarrow> string \<Rightarrow> nat" where
  "digits_val base acc [] = acc"
| "digits_val base acc (c # cs) = (case digit_val base c of None \<Rightarrow> acc | Some d \<Rightarrow> digits_val base (acc * base + d) cs)"

fun sign_of :: "string \<Rightarrow> bool \<times> string" where
  "sign_of [] = (False, [])"
| "sign_of (c # cs) = (if c = CHR ''-'' then (True, cs) else if c = CHR ''+'' then (False, cs) else (False, c # cs))"

text \<open>A \<open>long\<close> has 64 bits; what does not fit is the nearest that does.\<close>

definition clamp64 :: "int \<Rightarrow> int" where
  "clamp64 v = max (- (2 ^ 63)) (min (2 ^ 63 - 1) v)"

definition strtol10 :: "string \<Rightarrow> int" where
  "strtol10 s = (let (neg, t) = sign_of (dropWhile isspace s); v = int (digits_val 10 0 t) in clamp64 (if neg then - v else v))"

fun prefixed_val :: "string \<Rightarrow> nat" where
  "prefixed_val (z # x # c # cs) =
     (if z = CHR ''0'' then if (x = CHR ''x'' \<or> x = CHR ''X'') \<and> digit_val 16 c \<noteq> None then digits_val 16 0 (c # cs) else digits_val 8 0 (x # c # cs)
      else digits_val 10 0 (z # x # c # cs))"
| "prefixed_val s = digits_val (if s \<noteq> [] \<and> hd s = CHR ''0'' then 8 else 10) 0 s"

definition strtol0 :: "string \<Rightarrow> int" where
  "strtol0 s = (let (neg, t) = sign_of (dropWhile isspace s); v = int (prefixed_val t) in clamp64 (if neg then - v else v))"

definition int_of_long :: "int \<Rightarrow> int" where
  "int_of_long v = s32_of_nat (u32_of_int v)"

definition atoi :: "string \<Rightarrow> int" where
  "atoi s = int_of_long (strtol10 s)"

text \<open>The first position of a character from a position on.\<close>

fun find_char :: "char \<Rightarrow> nat \<Rightarrow> string \<Rightarrow> nat option" where
  "find_char c i [] = None"
| "find_char c i (x # xs) = (if x = c then Some i else find_char c (Suc i) xs)"

definition str_find :: "string \<Rightarrow> char \<Rightarrow> nat \<Rightarrow> nat option" where
  "str_find s c pos = find_char c pos (drop pos s)"

text \<open>\<open>sprintf\<close> of a number.\<close>

definition digit_char :: "nat \<Rightarrow> char" where
  "digit_char d = char_of (48 + d)"

fun show_nat :: "nat \<Rightarrow> string" where
  "show_nat n = (if n < 10 then [digit_char n] else show_nat (n div 10) @ [digit_char (n mod 10)])"

declare show_nat.simps [simp del]

definition show_int :: "int \<Rightarrow> string" where
  "show_int i = (if i < 0 then CHR ''-'' # show_nat (nat (- i)) else show_nat (nat i))"

section \<open>Decimal numbers\<close>

definition all_digits :: "string \<Rightarrow> bool" where
  "all_digits s \<longleftrightarrow> s \<noteq> [] \<and> (\<forall>c\<in>set s. digit_val 10 c \<noteq> None)"

definition dec_val :: "string \<Rightarrow> nat" where
  "dec_val s = digits_val 10 0 s"

lemma digit_range: "digit_val 10 c \<noteq> None \<Longrightarrow> 48 \<le> (of_char c :: nat) \<and> (of_char c :: nat) \<le> 57"
  by (auto simp: digit_val_def Let_def split: if_splits)

lemma digit_not_space: "digit_val 10 c \<noteq> None \<Longrightarrow> \<not> isspace c"
  using digit_range [of c] by (auto simp: isspace_def)

lemma digit_not: "digit_val 10 c \<noteq> None \<Longrightarrow> c \<noteq> CHR ''-'' \<and> c \<noteq> CHR ''+'' \<and> c \<noteq> CHR '':''"
  by (auto simp: digit_val_def)

lemma digits_val_append:
  "(\<forall>c\<in>set s. digit_val b c \<noteq> None) \<Longrightarrow> digits_val b acc (s @ t) = digits_val b (digits_val b acc s) t"
  by (induction s arbitrary: acc) auto

lemma digits_val_stop: "t = [] \<or> digit_val b (hd t) = None \<Longrightarrow> digits_val b acc t = acc"
  by (cases t) auto

text \<open>Digits, and what comes after them does not matter.\<close>

lemma atoi_digits:
  assumes "all_digits s" "dec_val s < 2 ^ 31" "t = [] \<or> digit_val 10 (hd t) = None"
  shows "atoi (s @ t) = int (dec_val s)"
proof -
  obtain c cs where s: "s = c # cs" "digit_val 10 c \<noteq> None" using assms(1) by (cases s) (auto simp: all_digits_def)
  have "dropWhile isspace (s @ t) = s @ t" using s digit_not_space by simp
  moreover have "sign_of (s @ t) = (False, s @ t)" using s digit_not by simp
  moreover have "digits_val 10 0 (s @ t) = dec_val s"
    using assms(1) digits_val_append [of s 10 0 t] digits_val_stop [OF assms(3)] by (simp add: all_digits_def dec_val_def)
  ultimately have "strtol10 (s @ t) = int (dec_val s)" using assms(2) by (simp add: strtol10_def clamp64_def)
  then show ?thesis using assms(2) by (simp add: atoi_def int_of_long_def)
qed

lemma find_char_skip: "c \<notin> set s \<Longrightarrow> find_char c i (s @ t) = find_char c (i + length s) t"
  by (induction s arbitrary: i) auto

end
