(* ===== verification/Ctrl.thy ===== *)
theory Ctrl
  imports CString ProcMon ServerBase Stat
begin

text \<open>
  The controller process (\<open>CDefaultCtrl\<close> in \<open>controller/defaultctrl.cpp\<close>): it reads the
  configuration, hands the groups to the process monitor, and then runs the monitor, writes the
  statistics and obeys the signals, until it is told to quit.

  The XML parser is third-party code: a configuration is what it yields, the attributes of the
  elements (an absent one is empty) and the child elements \<open>group\<close> in their order.  Commands, files
  and logs are entries of a list of effects.  The messages that arrive, the time, the processes
  that are gone, the signals and the local time are inputs of a round.
\<close>

section \<open>Configuration\<close>

type_synonym attrs = "string \<Rightarrow> string"

record ctrl_conf =
  cc_common :: "string \<Rightarrow> attrs option"
  cc_procmon :: "(attrs \<times> attrs list) option"
  cc_queue :: "int \<Rightarrow> mon_msg list"
  cc_statfile :: "bool \<times> bool \<times> bool \<times> bool \<times> stat_pool"

definition CvtTime :: "string \<Rightarrow> int \<times> int \<times> int" where
  "CvtTime s =
     (let first = str_find s CHR '':'' 0; last = str_find s CHR '':'' (case first of None \<Rightarrow> 0 | Some i \<Rightarrow> i + 1)
      in case (first, last) of
           (Some i, Some j) \<Rightarrow> (atoi (take i s), atoi (take j (drop (i + 1) s)), atoi (drop (j + 1) s))
         | _ \<Rightarrow> (0, 0, 0))"

datatype ctrl_effect =
    CSystem string
  | CMoni "(group_info \<times> proc_obj list) option list"
  | CWriteStat string "(bytes \<times> bytes \<times> stat_policy \<times> stat_val \<times> stat_val list) list"
  | CLogStat "int \<times> int \<times> (bytes \<times> bytes \<times> stat_policy \<times> stat_val \<times> stat_val list) list"
  | CReset

record ctrl =
  ct_pm :: procmon
  ct_mqkey :: int
  ct_pol :: stat_policies
  ct_stat :: "stat_pool option"
  ct_group_num :: int
  ct_moni_inter :: nat
  ct_stat_file :: string
  ct_stat_interval :: nat
  ct_stat_days :: nat
  ct_reset_hour :: int
  ct_reset_minute :: int
  ct_reset_second :: int
  ct_flag :: byte
  ct_out :: "ctrl_effect list"

definition put_ctrl :: "ctrl_effect \<Rightarrow> ctrl \<Rightarrow> ctrl" where
  "put_ctrl e c = c\<lparr>ct_out := ct_out c @ [e]\<rparr>"

text \<open>The buffer of the command has 1024 bytes, the last one zero.\<close>

definition do_fork_ex :: "string \<Rightarrow> string \<Rightarrow> string \<Rightarrow> string \<Rightarrow> ctrl \<Rightarrow> ctrl" where
  "do_fork_ex basepath proc_name etcfile flag =
     put_ctrl (CSystem (take 1022 (basepath @ ''/'' @ proc_name @ ''  '' @ etcfile @ '' '' @ flag)))"

section \<open>The groups\<close>

definition MAX_FILEPATH_LEN :: nat where "MAX_FILEPATH_LEN = 128"
definition MAX_SERVER_FLAG_LEN :: nat where "MAX_SERVER_FLAG_LEN = 64"

text \<open>
  A string for a member of \<open>TGroupInfo\<close>.  One that fills the member is not terminated and would
  be read into the next member: the model ends there with \<open>None\<close>.
\<close>

definition fit :: "nat \<Rightarrow> string \<Rightarrow> string option" where
  "fit n s = (if length s < n then Some s else None)"

definition attr_or :: "attrs \<Rightarrow> string \<Rightarrow> int \<Rightarrow> int" where
  "attr_or e a d = (if e a \<noteq> [] then atoi (e a) else d)"

definition group_conf :: "attrs \<Rightarrow> group_info option" where
  "group_conf e = do {
     base \<leftarrow> fit MAX_FILEPATH_LEN (e ''basepath'');
     exe \<leftarrow> fit MAX_FILEPATH_LEN (e ''exe'');
     etc \<leftarrow> fit MAX_FILEPATH_LEN (e ''etc'');
     flag \<leftarrow> fit MAX_SERVER_FLAG_LEN (e ''flag'');
     let gi = \<lparr>gi_groupid = 0, gi_adjust = 0, gi_basepath = base, gi_exefile = exe, gi_etcfile = etc, gi_flag = flag,
       gi_exitsignal = atoi (e ''exitsignal''), gi_maxproc = u32_of_int (attr_or e ''maxprocnum'' 100),
       gi_minproc = u32_of_int (attr_or e ''minprocnum'' 1), gi_heartbeat = u32_of_int (attr_or e ''heartbeat'' 60),
       gi_maxwater = u32_of_int (atoi (e ''watermark'')), gi_minsrate = nat (atoi (e ''minsrate'') mod 2 ^ 16),
       gi_maxdelay = nat (atoi (e ''maxdelay'') mod 2 ^ 16), gi_maxmem = u32_of_int (atoi (e ''maxmemused''))\<rparr>;
     if gi_minproc gi \<le> gi_maxproc gi \<and> gi_exitsignal gi > 0 then Some gi else None
   }"

text \<open>The loop over the elements \<open>group\<close>; \<open>cur\<close> is the first group that has no element yet.\<close>

fun group_loop :: "int \<Rightarrow> int \<Rightarrow> attrs list \<Rightarrow> group_info list \<Rightarrow> group_info list option" where
  "group_loop num cur [] l = Some l"
| "group_loop num cur (e # es) l =
     (case group_conf e of None \<Rightarrow> None
      | Some gi \<Rightarrow>
          let start = atoi (e ''start_group''); last = atoi (e ''end_group''); last = (if last < start then start else last);
              last = (if last \<ge> num then num - 1 else last)
          in if start \<noteq> cur \<or> \<not> start \<le> last then None
             else let l = l @ map (\<lambda>i. gi\<lparr>gi_groupid := i\<rparr>) [start..last]
                  in if last + 1 = num then Some l else group_loop num (last + 1) es l)"

text \<open>The groups go to the monitor; an index behind the end of the list leaves it.\<close>

fun put_groups :: "bool \<Rightarrow> nat \<Rightarrow> group_info list \<Rightarrow> procmon \<Rightarrow> procmon option" where
  "put_groups again 0 l pm = Some pm"
| "put_groups again (Suc n) [] pm = None"
| "put_groups again (Suc n) (gi # l) pm =
     (case (if again then mod_group (gi_groupid gi) gi pm else add_group gi pm) of None \<Rightarrow> None
      | Some pm' \<Rightarrow> put_groups again n l pm')"

definition InitProcMon :: "attrs \<Rightarrow> attrs list \<Rightarrow> bool \<Rightarrow> ctrl \<Rightarrow> ctrl option" where
  "InitProcMon conf es again c = do {
     let num = atoi (conf ''groupnum'');
     let interval = atoi (conf ''check_group_interval'');
     let pm = (if interval \<noteq> 0 then (ct_pm c)\<lparr>pm_interval := u32_of_int interval\<rparr> else ct_pm c);
     if \<not> (0 < num \<and> num < int MAX_PROC_GROUP_NUM) then None
     else do {
       l \<leftarrow> group_loop num 0 es [];
       pm \<leftarrow> put_groups again (nat num) l pm;
       Some (c\<lparr>ct_group_num := num, ct_pm := pm\<lparr>pm_notify := True\<rparr>\<rparr>)
     }
   }"

section \<open>Reading the configuration\<close>

text \<open>An element for a program to start: nothing without a name for it.\<close>

definition start_tool :: "string \<Rightarrow> ctrl_conf \<Rightarrow> ctrl \<Rightarrow> ctrl option" where
  "start_tool name cf c =
     (case cc_common cf name of None \<Rightarrow> Some c
      | Some e \<Rightarrow>
          if e ''basepath'' = [] then None
          else if e ''exe'' \<noteq> [] then Some (do_fork_ex (e ''basepath'') (e ''exe'') (e ''etc'') (e ''flag'') c)
          else Some c)"

definition LOG_NONE :: int where "LOG_NONE = 5"
definition LOG_TYPE_CYCLE_HOURLY :: int where "LOG_TYPE_CYCLE_HOURLY = 4"

text \<open>The assertions on the attributes of a log.\<close>

definition log_ok :: "attrs \<Rightarrow> bool" where
  "log_ok e \<longleftrightarrow> 0 \<le> atoi (e ''level'') \<and> atoi (e ''level'') \<le> LOG_NONE \<and> 0 \<le> atoi (e ''type'') \<and>
     atoi (e ''type'') \<le> LOG_TYPE_CYCLE_HOURLY \<and> 0 < atoi (e ''maxfilesize'') \<and> atoi (e ''maxfilesize'') \<le> 1024000000 \<and>
     0 < atoi (e ''maxfilenum'')"

definition open_log :: "string \<Rightarrow> ctrl_conf \<Rightarrow> unit option" where
  "open_log name cf = do { e \<leftarrow> cc_common cf name; if log_ok e then Some () else None }"

definition NOTIFY_NUM :: bytes where
  "NOTIFY_NUM = map of_char ''ctrl_notify_num''"

text \<open>
  The pool of the statistics.  A file that cannot be opened or enlarged leaves the old pool; an
  object in a pool that is not there is an access to the null pointer.
\<close>

definition init_stat :: "attrs \<Rightarrow> ctrl_conf \<Rightarrow> ctrl \<Rightarrow> ctrl option" where
  "init_stat e cf c = do {
     let (hour, minute, second) = CvtTime (e ''stat_reset_time'');
     let (ret, p) = init_statpool (if e ''mapfile'' = [] then None else Some (cc_statfile cf));
     p \<leftarrow> (if ret = -2020 \<or> ret = -2021 then ct_stat c else p);
     (ret, p) \<leftarrow> init_statobj (ct_pol c) NOTIFY_NUM 1 None 1 p;
     Some (c\<lparr>ct_stat_file := e ''output'', ct_stat_interval := u32_of_int (atoi (e ''interval'')),
       ct_stat_days := u32_of_int (atoi (e ''stat_reset_days'')), ct_reset_hour := hour, ct_reset_minute := minute,
       ct_reset_second := second, ct_stat := Some p\<rparr>)
   }"

text \<open>\<open>set\_commu\<close> reads everything that waits in the queue of the key.\<close>

definition init_moni :: "attrs \<Rightarrow> ctrl_conf \<Rightarrow> ctrl \<Rightarrow> ctrl option" where
  "init_moni e cf c = do {
     let key = int_of_long (strtol0 (e ''key_base''));
     let inter = u32_of_int (atoi (e ''intervial''));
     if inter = 0 \<or> key = -1 then None
     else do {
       pm \<leftarrow> pm_set_commu (if key = ct_mqkey c then pm_mq (ct_pm c) else cc_queue cf key) (ct_pm c);
       Some (c\<lparr>ct_moni_inter := inter, ct_mqkey := key, ct_pm := pm\<rparr>)
     }
   }"

definition initconf :: "bool \<Rightarrow> ctrl_conf \<Rightarrow> ctrl \<Rightarrow> ctrl option" where
  "initconf again cf c = do {
     c \<leftarrow> start_tool ''timer'' cf c;
     _ \<leftarrow> open_log ''fwlog'' cf;
     _ \<leftarrow> open_log ''log'' cf;
     (pattr, pgroups) \<leftarrow> cc_procmon cf;
     c \<leftarrow> InitProcMon pattr pgroups again c;
     e \<leftarrow> cc_common cf ''stat'';
     c \<leftarrow> init_stat e cf c;
     e \<leftarrow> cc_common cf ''moni'';
     c \<leftarrow> init_moni e cf c;
     c \<leftarrow> start_tool ''report'' cf c;
     start_tool ''updateclient'' cf c
   }"

section \<open>The main loop\<close>

record ctrl_times =
  tm_moni :: nat
  tm_stat :: nat
  tm_reset :: nat
  tm_today :: bool

record round_in =
  ri_now :: nat
  ri_gone :: "int \<Rightarrow> bool"
  ri_msgs :: "mon_msg list"
  ri_flag :: byte
  ri_conf :: ctrl_conf

text \<open>Day of the year, hour and minute of the local time.\<close>

type_synonym localtime = "nat \<Rightarrow> int \<times> int \<times> int"

fun is_notify :: "pm_effect \<Rightarrow> bool" where
  "is_notify (PmNotify g p ev) = True"
| "is_notify _ = False"

text \<open>\<open>notify\<close>: every event counts in the statistics.\<close>

primrec notify_steps :: "nat \<Rightarrow> ctrl \<Rightarrow> ctrl option" where
  "notify_steps 0 c = Some c"
| "notify_steps (Suc n) c = do {
     p \<leftarrow> ct_stat c;
     p \<leftarrow> step0 (ct_pol c) NOTIFY_NUM 1 1 p;
     notify_steps n (c\<lparr>ct_stat := Some p\<rparr>)
   }"

definition run_monitor :: "round_in \<Rightarrow> ctrl \<Rightarrow> ctrl option" where
  "run_monitor r c = do {
     let pm0 = (ct_pm c)\<lparr>pm_now := int (ri_now r), pm_gone := ri_gone r, pm_mq := pm_mq (ct_pm c) @ ri_msgs r\<rparr>;
     pm \<leftarrow> pm_run pm0;
     notify_steps (length (filter is_notify (drop (length (pm_out pm0)) (pm_out pm)))) (c\<lparr>ct_pm := pm\<rparr>)
   }"

text \<open>The daily reset: the day has changed enough, and this is the minute for it.\<close>

definition reset_due :: "localtime \<Rightarrow> nat \<Rightarrow> ctrl_times \<Rightarrow> ctrl \<Rightarrow> bool" where
  "reset_due lt now t c \<longleftrightarrow> ct_stat_days c \<le> u32_of_int (fst (lt now) - fst (lt (tm_reset t)))"

definition reset_now :: "localtime \<Rightarrow> nat \<Rightarrow> ctrl_times \<Rightarrow> ctrl \<Rightarrow> bool" where
  "reset_now lt now t c \<longleftrightarrow> \<not> tm_today t \<and> snd (lt now) = (ct_reset_hour c, ct_reset_minute c)"

definition stat_output :: "localtime \<Rightarrow> nat \<Rightarrow> ctrl_times \<times> ctrl \<Rightarrow> (ctrl_times \<times> ctrl) option" where
  "stat_output lt now tc = (case tc of (t, c) \<Rightarrow> do {
     p \<leftarrow> ct_stat c;
     (objs, vals, lines) \<leftarrow> stat_result (ct_pol c) p;
     let c = put_ctrl (CWriteStat (ct_stat_file c) lines) c;
     if reset_due lt now t c
     then if reset_now lt now t c
          then do {
            p' \<leftarrow> stat_reset p;
            Some (t\<lparr>tm_reset := now, tm_today := True\<rparr>, put_ctrl (CLogStat (objs, vals, lines)) (put_ctrl CReset (c\<lparr>ct_stat := Some p'\<rparr>)))
          }
          else Some (t, c)
     else Some (t\<lparr>tm_today := False\<rparr>, c)
   })"

definition output_round :: "localtime \<Rightarrow> nat \<Rightarrow> ctrl_times \<times> ctrl \<Rightarrow> (ctrl_times \<times> ctrl) option" where
  "output_round lt now tc = (case tc of (t, c) \<Rightarrow> do {
     let (t, c) = (if sub32 now (tm_moni t) > ct_moni_inter c
                   then (t\<lparr>tm_moni := now\<rparr>, put_ctrl (CMoni (case pm_query (ct_pm c) of None \<Rightarrow> [] | Some l \<Rightarrow> l)) c) else (t, c));
     if sub32 now (tm_stat t) > ct_stat_interval c then stat_output lt now (t\<lparr>tm_stat := now\<rparr>, c) else Some (t, c)
   })"

definition SIGUSR2 :: int where "SIGUSR2 = 12"
definition SIGUSR3 :: int where "SIGUSR3 = 35"

definition kill_procs :: "int \<Rightarrow> ctrl \<Rightarrow> ctrl" where
  "kill_procs signo c = c\<lparr>ct_pm := killall signo (ct_pm c)\<rparr>"

text \<open>The three checks for a signal; the result says whether the loop goes on.\<close>

definition signal_round :: "ctrl_conf \<Rightarrow> ctrl \<Rightarrow> (bool \<times> ctrl) option" where
  "signal_round cf c = do {
     let (again, f) = reload (ct_flag c);
     let c = c\<lparr>ct_flag := f\<rparr>;
     c \<leftarrow> (if again then do { c \<leftarrow> initconf True cf c; Some (kill_procs SIGUSR2 c) } else Some c);
     let (modules, f) = reloadmoduleconfig (ct_flag c);
     let c = c\<lparr>ct_flag := f\<rparr>;
     let c = (if modules then kill_procs SIGUSR3 c else c);
     let (stop, f) = quit (ct_flag c);
     let c = c\<lparr>ct_flag := f\<rparr>;
     Some (if stop then (False, kill_procs SIGUSR1 c) else (True, c))
   }"

definition ctrl_round :: "localtime \<Rightarrow> round_in \<Rightarrow> ctrl_times \<times> ctrl \<Rightarrow> (bool \<times> ctrl_times \<times> ctrl) option" where
  "ctrl_round lt r tc = do {
     c \<leftarrow> run_monitor r (snd tc);
     (t, c) \<leftarrow> output_round lt (ri_now r) (fst tc, c);
     (go, c) \<leftarrow> signal_round (ri_conf r) (c\<lparr>ct_flag := ct_flag c OR ri_flag r\<rparr>);
     Some (go, t, c)
   }"

fun ctrl_loop :: "localtime \<Rightarrow> round_in list \<Rightarrow> ctrl_times \<times> ctrl \<Rightarrow> (bool \<times> ctrl_times \<times> ctrl) option" where
  "ctrl_loop lt [] tc = Some (True, tc)"
| "ctrl_loop lt (r # rs) tc =
     (case ctrl_round lt r tc of None \<Rightarrow> None
      | Some (go, tc') \<Rightarrow> if go then ctrl_loop lt rs tc' else Some (False, tc'))"

definition realrun :: "localtime \<Rightarrow> ctrl_conf \<Rightarrow> nat \<Rightarrow> round_in list \<Rightarrow> ctrl \<Rightarrow> (bool \<times> ctrl_times \<times> ctrl) option" where
  "realrun lt cf now rs c = do {
     c \<leftarrow> initconf False cf c;
     ctrl_loop lt rs (\<lparr>tm_moni = now, tm_stat = now, tm_reset = now, tm_today = False\<rparr>, c)
   }"

end
