(* ===== verification/CtrlTheorems.thy ===== *)
theory CtrlTheorems
  imports Ctrl ProcMonTheorems StatTheorems
begin

text \<open>
  What the controller does: the groups it makes of its configuration, that it runs until it is
  told to quit, and when it resets the statistics.
\<close>

section \<open>Times of the day\<close>

text \<open>
  A time of the day written with two colons is read as its three numbers, although the
  substring for the minutes is cut too long.
\<close>

theorem cvt_time_reads:
  assumes "all_digits h" "all_digits m" "all_digits s" "dec_val h < 2 ^ 31" "dec_val m < 2 ^ 31" "dec_val s < 2 ^ 31"
  shows "CvtTime (h @ '':'' @ m @ '':'' @ s) = (int (dec_val h), int (dec_val m), int (dec_val s))"
proof -
  let ?s = "h @ CHR '':'' # m @ CHR '':'' # s"
  have no: "CHR '':'' \<notin> set h" "CHR '':'' \<notin> set m" "CHR '':'' \<notin> set s" using assms(1-3) digit_not unfolding all_digits_def by blast+
  have f: "str_find ?s CHR '':'' 0 = Some (length h)" using find_char_skip [OF no(1), of 0] by (simp add: str_find_def)
  have l: "str_find ?s CHR '':'' (length h + 1) = Some (length h + 1 + length m)"
    using find_char_skip [OF no(2), of "length h + 1"] by (simp add: str_find_def)
  have d: "digit_val 10 CHR '':'' = None" by (simp add: digit_val_def)
  have "take (length h) ?s = h @ []" by simp
  then have 1: "atoi (take (length h) ?s) = int (dec_val h)" using atoi_digits [OF assms(1,4), of "[]"] by simp
  have "take (length h + 1 + length m) (drop (length h + 1) ?s) = m @ take (length h + 1) (CHR '':'' # s)" by simp
  then have 2: "atoi (take (length h + 1 + length m) (drop (length h + 1) ?s)) = int (dec_val m)"
    using atoi_digits [OF assms(2,5), of "take (length h + 1) (CHR '':'' # s)"] d by simp
  have "drop (length h + 1 + length m + 1) ?s = s @ []" by simp
  then have 3: "atoi (drop (length h + 1 + length m + 1) ?s) = int (dec_val s)" using atoi_digits [OF assms(3,6), of "[]"] by simp
  show ?thesis using f l 1 2 3 by (simp add: CvtTime_def)
qed

theorem cvt_time_reads_witness:
  "CvtTime ''23:05:59'' = (23, 5, 59)"
proof -
  have d: "all_digits ''23''" "all_digits ''05''" "all_digits ''59''" "dec_val ''23'' = 23" "dec_val ''05'' = 5" "dec_val ''59'' = 59"
    by (simp_all add: all_digits_def dec_val_def digit_val_def)
  then show ?thesis using cvt_time_reads [of "''23''" "''05''" "''59''"] by simp
qed

section \<open>Groups\<close>

definition group_from :: "attrs list \<Rightarrow> int \<Rightarrow> group_info \<Rightarrow> bool" where
  "group_from es i gi \<longleftrightarrow> (\<exists>e\<in>set es. \<exists>g. group_conf e = Some g \<and> gi = g\<lparr>gi_groupid := i\<rparr> \<and>
     atoi (e ''start_group'') \<le> i \<and> i \<le> max (atoi (e ''start_group'')) (atoi (e ''end_group'')))"

lemma group_from_mono: "group_from es i gi \<Longrightarrow> group_from (e # es) i gi"
  unfolding group_from_def by auto

lemma group_loop_list:
  assumes "group_loop num cur es l = Some l'"
  shows "\<exists>m. l' = l @ m \<and> (\<forall>k<length m. group_from es (cur + int k) (m ! k))"
  using assms
proof (induction es arbitrary: cur l)
  case Nil
  then show ?case by (intro exI [of _ "[]"]) simp
next
  case (Cons e es)
  obtain gi where gi: "group_conf e = Some gi" using Cons.prems by (auto split: option.splits)
  define start where "start = atoi (e ''start_group'')"
  define last where "last = (let l = (if atoi (e ''end_group'') < start then start else atoi (e ''end_group'')) in if l \<ge> num then num - 1 else l)"
  define a where "a = map (\<lambda>i. gi\<lparr>gi_groupid := i\<rparr>) [start..last]"
  have c: "start = cur" "start \<le> last"
    and r: "(if last + 1 = num then Some (l @ a) else group_loop num (last + 1) es (l @ a)) = Some l'"
    using Cons.prems gi by (auto simp: Let_def start_def last_def a_def split: if_splits)
  have len: "length a = nat (last - cur + 1)" using c by (simp add: a_def)
  have bound: "last \<le> max start (atoi (e ''end_group''))" unfolding last_def Let_def max_def by simp
  have here: "group_from (e # es) (cur + int k) (a ! k)" if "k < length a" for k
  proof -
    have k: "int k \<le> last - cur" using that c len by simp
    then have "a ! k = gi\<lparr>gi_groupid := cur + int k\<rparr>" using that c(1) by (simp add: a_def nth_upto)
    moreover have "start \<le> cur + int k" "cur + int k \<le> max start (atoi (e ''end_group''))" using k c(1) bound by linarith+
    ultimately show ?thesis using gi unfolding group_from_def start_def by auto
  qed
  show ?case
  proof (cases "last + 1 = num")
    case True
    then show ?thesis using r here by (intro exI [of _ a]) simp
  next
    case False
    then obtain m where m: "l' = (l @ a) @ m" "\<forall>k<length m. group_from es (last + 1 + int k) (m ! k)"
      using Cons.IH [of "last + 1" "l @ a"] r by auto
    have "group_from (e # es) (cur + int k) ((a @ m) ! k)" if "k < length (a @ m)" for k
    proof (cases "k < length a")
      case True
      then show ?thesis using here by (simp add: nth_append)
    next
      case False
      then have k: "k - length a < length m" "last + 1 + int (k - length a) = cur + int k" using that len c by auto
      have "group_from es (cur + int k) (m ! (k - length a))" using m(2) k by metis
      then show ?thesis using False group_from_mono by (simp add: nth_append)
    qed
    then show ?thesis using m(1) by (intro exI [of _ "a @ m"]) simp
  qed
qed

definition new_group :: "group_info \<Rightarrow> proc_group" where
  "new_group gi = \<lparr>pg_info = gi, pg_buckets = replicate BUCKET_SIZE [], pg_curproc = 0, pg_errproc = 0, pg_lastcheck = 0\<rparr>"

lemma put_groups_new:
  "put_groups False n l pm = Some pm' \<Longrightarrow> n \<le> length l \<and> pm' = pm\<lparr>pm_groups := pm_groups pm @ map new_group (take n l)\<rparr>"
proof (induction n arbitrary: l pm)
  case (Suc n)
  then obtain gi l1 where l: "l = gi # l1" by (cases l) auto
  then obtain pm1 where 1: "add_group gi pm = Some pm1" "put_groups False n l1 pm1 = Some pm'" using Suc.prems by (auto split: option.splits)
  then show ?case using Suc.IH [OF 1(2)] l by (auto simp: add_group_def new_group_def split: if_splits)
qed simp

lemma put_groups_again:
  "put_groups True n l pm = Some pm' \<Longrightarrow> \<forall>k<length l. gi_groupid (l ! k) = i + int k \<Longrightarrow> 0 \<le> i \<Longrightarrow>
    n \<le> length l \<and> (n = 0 \<or> nat i + n \<le> length (pm_groups pm)) \<and> length (pm_groups pm') = length (pm_groups pm) \<and>
    pm'\<lparr>pm_groups := []\<rparr> = pm\<lparr>pm_groups := []\<rparr> \<and>
    (\<forall>k<length (pm_groups pm). pm_groups pm' ! k =
       (if nat i \<le> k \<and> k < nat i + n then (pm_groups pm ! k)\<lparr>pg_info := l ! (k - nat i)\<rparr> else pm_groups pm ! k))"
proof (induction n arbitrary: l pm i)
  case (Suc n)
  then obtain gi l1 where l: "l = gi # l1" by (cases l) auto
  have id: "gi_groupid gi = i" using Suc.prems(2) l by auto
  obtain pm1 where 1: "mod_group i gi pm = Some pm1" "put_groups True n l1 pm1 = Some pm'" using Suc.prems l id by (auto split: option.splits)
  have i: "nat i < length (pm_groups pm)" "pm1 = pm\<lparr>pm_groups := (pm_groups pm)[nat i := (pm_groups pm ! nat i)\<lparr>pg_info := gi\<rparr>]\<rparr>"
    using 1(1) by (auto simp: mod_group_def split: if_splits)
  have "\<forall>k<length l1. gi_groupid (l1 ! k) = (i + 1) + int k" using Suc.prems(2) l by (auto dest: spec [of _ "Suc _"])
  note IH = Suc.IH [OF 1(2) this]
  have n1: "nat (i + 1) = Suc (nat i)" and i1: "0 \<le> i + 1" using Suc.prems(3) by simp_all
  have parts: "n \<le> length l1" "n = 0 \<or> nat (i + 1) + n \<le> length (pm_groups pm1)" "length (pm_groups pm') = length (pm_groups pm1)"
    "pm'\<lparr>pm_groups := []\<rparr> = pm1\<lparr>pm_groups := []\<rparr>" using IH [OF i1] by blast+
  have g: "pm_groups pm' ! k = (if nat i \<le> k \<and> k < nat i + Suc n then (pm_groups pm ! k)\<lparr>pg_info := l ! (k - nat i)\<rparr> else pm_groups pm ! k)"
    if k: "k < length (pm_groups pm)" for k
  proof -
    have "pm_groups pm' ! k = (if Suc (nat i) \<le> k \<and> k < Suc (nat i) + n then (pm_groups pm1 ! k)\<lparr>pg_info := l1 ! (k - Suc (nat i))\<rparr> else pm_groups pm1 ! k)"
      using IH k i(2) n1 Suc.prems(3) by auto
    moreover have "pm_groups pm1 ! k = (if k = nat i then (pm_groups pm ! nat i)\<lparr>pg_info := gi\<rparr> else pm_groups pm ! k)"
      using i k by (auto simp: nth_list_update)
    moreover have "l ! (k - nat i) = (if k = nat i then gi else l1 ! (k - Suc (nat i)))" if "nat i \<le> k"
    proof -
      have "k - nat i = (if k = nat i then 0 else Suc (k - Suc (nat i)))" using that by auto
      then show ?thesis using l by simp
    qed
    ultimately show ?thesis by auto
  qed
  have "Suc n \<le> length l" "nat i + Suc n \<le> length (pm_groups pm)" "length (pm_groups pm') = length (pm_groups pm)"
    "pm'\<lparr>pm_groups := []\<rparr> = pm\<lparr>pm_groups := []\<rparr>" using parts i n1 l by auto
  then show ?case using g by blast
qed auto

text \<open>An interval for the checks and the notification are all that changes besides the groups.\<close>

lemma InitProcMon_parts:
  assumes "InitProcMon attr es again c = Some c'"
  shows "\<exists>l pm. group_loop (ct_group_num c') 0 es [] = Some l \<and> put_groups again (nat (ct_group_num c')) l pm = Some ((ct_pm c')\<lparr>pm_notify := pm_notify pm\<rparr>) \<and>
    pm\<lparr>pm_interval := 0\<rparr> = (ct_pm c)\<lparr>pm_interval := 0\<rparr> \<and> ct_group_num c' = atoi (attr ''groupnum'') \<and> 0 < ct_group_num c' \<and> pm_notify (ct_pm c')"
proof -
  define pm where "pm = (if atoi (attr ''check_group_interval'') \<noteq> 0
      then (ct_pm c)\<lparr>pm_interval := u32_of_int (atoi (attr ''check_group_interval''))\<rparr> else ct_pm c)"
  have n: "0 < atoi (attr ''groupnum'')" using assms by (auto simp: InitProcMon_def Let_def split: if_splits)
  obtain l pm' where 1: "group_loop (atoi (attr ''groupnum'')) 0 es [] = Some l" "put_groups again (nat (atoi (attr ''groupnum''))) l pm = Some pm'"
      "c' = c\<lparr>ct_group_num := atoi (attr ''groupnum''), ct_pm := pm'\<lparr>pm_notify := True\<rparr>\<rparr>"
    using assms unfolding InitProcMon_def Let_def pm_def [symmetric] by (auto simp: bind_eq_Some_conv split: if_splits)
  have notify: "put_groups ag k l1 p = Some p' \<Longrightarrow> pm_notify p' = pm_notify p" for ag k l1 p p'
    by (induction ag k l1 p rule: put_groups.induct) (auto simp: add_group_def mod_group_def split: if_splits option.splits)
  have "pm'\<lparr>pm_notify := pm_notify pm\<rparr> = pm'" using notify [OF 1(2)] by simp
  then show ?thesis using 1 n by (intro exI [of _ l] exI [of _ pm]) (simp add: pm_def)
qed

lemma InitProcMon_new:
  assumes "InitProcMon attr es False c = Some c'" "pm_groups (ct_pm c) = []" "pm_ok (ct_pm c)"
  shows "int (length (pm_groups (ct_pm c'))) = atoi (attr ''groupnum'') \<and> pm_ok (ct_pm c') \<and> pm_notify (ct_pm c') \<and>
    (\<forall>i<length (pm_groups (ct_pm c')). \<exists>gi. pm_groups (ct_pm c') ! i = new_group gi \<and> group_from es (int i) gi)"
proof -
  obtain l pm where 1: "group_loop (ct_group_num c') 0 es [] = Some l"
      "put_groups False (nat (ct_group_num c')) l pm = Some ((ct_pm c')\<lparr>pm_notify := pm_notify pm\<rparr>)"
      "pm\<lparr>pm_interval := 0\<rparr> = (ct_pm c)\<lparr>pm_interval := 0\<rparr>" "ct_group_num c' = atoi (attr ''groupnum'')" "0 < ct_group_num c'"
      "pm_notify (ct_pm c')"
    using InitProcMon_parts [OF assms(1)] by blast
  have pm: "pm_groups pm = []" "clients pm = clients (ct_pm c)"
    using arg_cong [OF 1(3), of pm_groups] arg_cong [OF 1(3), of pm_mq] assms(2) by (simp_all add: clients_def)
  note g = put_groups_new [OF 1(2)]
  have groups: "pm_groups (ct_pm c') = map new_group (take (nat (ct_group_num c')) l)"
    using arg_cong [OF conjunct2 [OF g], of pm_groups] pm(1) by simp
  have mq: "clients (ct_pm c') = clients (ct_pm c)"
    using arg_cong [OF conjunct2 [OF g], of pm_mq] arg_cong [OF 1(3), of pm_mq] by (simp add: clients_def)
  have origin: "\<forall>k<length l. group_from es (int k) (l ! k)" using group_loop_list [OF 1(1)] by auto
  have len: "length (pm_groups (ct_pm c')) = nat (ct_group_num c')" using groups g by simp
  have each: "pm_groups (ct_pm c') ! i = new_group (l ! i) \<and> group_from es (int i) (l ! i)" if "i < length (pm_groups (ct_pm c'))" for i
    using that groups len g origin by simp
  have "view_ok i (views (ct_pm c') ! i)" if "i < length (pm_groups (ct_pm c'))" for i
    using each [OF that] that by (auto simp: views_nth gview_def new_group_def group_from_def bucket_ok_def BUCKET_SIZE_def)
  then have "pm_ok (ct_pm c')" using mq assms(3) by (simp add: pm_ok_def)
  then show ?thesis using each len 1(4-6) by auto
qed

section \<open>A controller for examples\<close>

definition demo_ctrl :: "nat \<Rightarrow> ctrl" where
  "demo_ctrl days = \<lparr>ct_pm = demo_mon 3, ct_mqkey = 0, ct_pol = six_policies, ct_stat = Some newpool, ct_group_num = 1, ct_moni_inter = 60,
     ct_stat_file = ''stat'', ct_stat_interval = 60, ct_stat_days = days, ct_reset_hour = 0, ct_reset_minute = 5, ct_reset_second = 0,
     ct_flag = 0, ct_out = []\<rparr>"

definition demo_start :: ctrl where
  "demo_start = (demo_ctrl 1)\<lparr>ct_pm := (demo_mon 3)\<lparr>pm_groups := []\<rparr>\<rparr>"

definition demo_attrs :: attrs where
  "demo_attrs n = (if n = ''groupnum'' \<or> n = ''exitsignal'' \<or> n = ''intervial'' \<or> n = ''maxfilesize'' \<or> n = ''maxfilenum'' then ''1'' else [])"

lemma atoi_one: "atoi ''1'' = 1"
proof -
  have "all_digits ''1''" "dec_val ''1'' = 1" by (simp_all add: all_digits_def dec_val_def digit_val_def)
  then show ?thesis using atoi_digits [of "''1''" "[]"] by simp
qed

lemma small_int: "int_of_long 0 = 0"
  by (simp add: int_of_long_def u32_of_int_def s32_of_nat_def)

lemma atoi_nil: "atoi [] = 0" "strtol0 [] = 0"
  by (simp_all add: atoi_def strtol10_def strtol0_def clamp64_def small_int)

lemmas atoi_demo = atoi_one atoi_nil small_int

definition demo_group :: group_info where
  "demo_group = \<lparr>gi_groupid = 0, gi_adjust = 0, gi_basepath = [], gi_exefile = [], gi_etcfile = [], gi_flag = [], gi_exitsignal = 1,
     gi_maxproc = 100, gi_minproc = 1, gi_heartbeat = 60, gi_maxwater = 0, gi_minsrate = 0, gi_maxdelay = 0, gi_maxmem = 0\<rparr>"

lemma demo_attr: "demo_attrs ''groupnum'' = ''1''" "demo_attrs ''exitsignal'' = ''1''" "demo_attrs ''basepath'' = []" "demo_attrs ''exe'' = []"
  "demo_attrs ''etc'' = []" "demo_attrs ''flag'' = []" "demo_attrs ''maxprocnum'' = []" "demo_attrs ''minprocnum'' = []"
  "demo_attrs ''heartbeat'' = []" "demo_attrs ''watermark'' = []" "demo_attrs ''minsrate'' = []" "demo_attrs ''maxdelay'' = []"
  "demo_attrs ''maxmemused'' = []" "demo_attrs ''start_group'' = []" "demo_attrs ''end_group'' = []"
  "demo_attrs ''check_group_interval'' = []"
  unfolding demo_attrs_def by simp_all

lemma small_u32: "u32_of_int 0 = 0" "u32_of_int 1 = 1" "u32_of_int 60 = 60" "u32_of_int 100 = 100"
  by (simp_all add: u32_of_int_def)

lemma demo_group_conf: "group_conf demo_attrs = Some demo_group"
  unfolding group_conf_def demo_attr attr_or_def demo_group_def by (simp add: atoi_demo fit_def MAX_FILEPATH_LEN_def MAX_SERVER_FLAG_LEN_def small_u32)

lemma demo_groups: "group_loop 1 0 [demo_attrs] [] = Some [demo_group]"
proof -
  have "demo_attrs ''start_group'' = []" "demo_attrs ''end_group'' = []" by (simp_all add: demo_attrs_def)
  moreover have "demo_group\<lparr>gi_groupid := 0\<rparr> = demo_group" by (simp add: demo_group_def)
  ultimately show ?thesis by (simp add: demo_group_conf atoi_demo)
qed

lemma demo_init:
  assumes "pm_groups (ct_pm c) = []"
  shows "InitProcMon demo_attrs [demo_attrs] False c = Some (c\<lparr>ct_group_num := 1, ct_pm := (ct_pm c)\<lparr>pm_groups := [new_group demo_group], pm_notify := True\<rparr>\<rparr>)"
proof -
  have "demo_attrs ''groupnum'' = ''1''" "demo_attrs ''check_group_interval'' = []" "gi_groupid demo_group = 0"
    by (simp_all add: demo_attrs_def demo_group_def)
  then show ?thesis using assms
    by (simp add: InitProcMon_def demo_groups atoi_demo MAX_PROC_GROUP_NUM_def add_group_def new_group_def del: group_loop.simps)
qed

lemma demo_init_again:
  "\<exists>c. InitProcMon demo_attrs [demo_attrs] True (demo_ctrl 1) = Some c"
proof -
  have "gi_groupid demo_group = 0" by (simp add: demo_group_def)
  moreover have "length (pm_groups (demo_mon 3)) = 1" by (simp add: demo_mon_def)
  ultimately show ?thesis
    by (simp add: InitProcMon_def demo_groups demo_attr atoi_demo MAX_PROC_GROUP_NUM_def mod_group_def demo_ctrl_def del: group_loop.simps)
qed

section \<open>Properties of the groups\<close>

text \<open>
  C29: At the start the monitor has exactly the configured number of groups, without processes;
  each has the parameters of an element that covers its number, and the table is well-formed.
\<close>

theorem groups_configured:
  assumes "InitProcMon attr es False c = Some c'" "pm_groups (ct_pm c) = []" "pm_ok (ct_pm c)"
  shows "int (length (pm_groups (ct_pm c'))) = atoi (attr ''groupnum'') \<and> pm_ok (ct_pm c') \<and> pm_notify (ct_pm c') \<and>
    (\<forall>i<length (pm_groups (ct_pm c')). \<exists>gi. pm_groups (ct_pm c') ! i = new_group gi \<and> group_from es (int i) gi)"
  by (rule InitProcMon_new [OF assms])

theorem groups_configured_witness:
  "\<exists>c. InitProcMon demo_attrs [demo_attrs] False demo_start = Some c \<and> length (pm_groups (ct_pm c)) = 1 \<and> pm_ok (ct_pm c)"
proof -
  have s: "pm_groups (ct_pm demo_start) = []" "pm_ok (ct_pm demo_start)" by (simp_all add: demo_start_def pm_ok_def views_def clients_def demo_mon_def)
  show ?thesis using groups_configured [OF demo_init [OF s(1)] s] demo_init [OF s(1)] by simp
qed

text \<open>
  Reading the configuration again gives the groups new parameters and leaves their processes
  and counts alone; groups beyond the new number keep the old parameters.
\<close>

theorem groups_reread:
  assumes "InitProcMon attr es True c = Some c'"
  shows "length (pm_groups (ct_pm c')) = length (pm_groups (ct_pm c)) \<and> atoi (attr ''groupnum'') \<le> int (length (pm_groups (ct_pm c))) \<and>
    (\<forall>i<length (pm_groups (ct_pm c)). \<exists>gi. pm_groups (ct_pm c') ! i = (pm_groups (ct_pm c) ! i)\<lparr>pg_info := gi\<rparr> \<and>
       (if int i < atoi (attr ''groupnum'') then group_from es (int i) gi else gi = pg_info (pm_groups (ct_pm c) ! i)))"
proof -
  obtain l pm where 1: "group_loop (ct_group_num c') 0 es [] = Some l"
      "put_groups True (nat (ct_group_num c')) l pm = Some ((ct_pm c')\<lparr>pm_notify := pm_notify pm\<rparr>)"
      "pm\<lparr>pm_interval := 0\<rparr> = (ct_pm c)\<lparr>pm_interval := 0\<rparr>" "ct_group_num c' = atoi (attr ''groupnum'')" "0 < ct_group_num c'"
    using InitProcMon_parts [OF assms(1)] by blast
  have pm: "pm_groups pm = pm_groups (ct_pm c)" using arg_cong [OF 1(3), of pm_groups] by simp
  have origin: "\<forall>k<length l. group_from es (int k) (l ! k)" using group_loop_list [OF 1(1)] by auto
  then have "\<forall>k<length l. gi_groupid (l ! k) = 0 + int k" by (auto simp: group_from_def)
  note g = put_groups_again [OF 1(2) this]
  have len: "nat (ct_group_num c') \<le> length l" "nat (ct_group_num c') \<le> length (pm_groups (ct_pm c))"
      "length (pm_groups (ct_pm c')) = length (pm_groups (ct_pm c))"
    using g 1(5) pm by auto
  have groups: "pm_groups (ct_pm c') ! i = (if i < nat (ct_group_num c') then (pm_groups (ct_pm c) ! i)\<lparr>pg_info := l ! i\<rparr> else pm_groups (ct_pm c) ! i)"
    if "i < length (pm_groups (ct_pm c))" for i using g that pm by simp
  have "\<exists>gi. pm_groups (ct_pm c') ! i = (pm_groups (ct_pm c) ! i)\<lparr>pg_info := gi\<rparr> \<and>
       (if int i < atoi (attr ''groupnum'') then group_from es (int i) gi else gi = pg_info (pm_groups (ct_pm c) ! i))"
    if "i < length (pm_groups (ct_pm c))" for i
  proof (cases "i < nat (ct_group_num c')")
    case True
    then show ?thesis using groups [OF that] origin len(1) 1(4,5) by (intro exI [of _ "l ! i"]) auto
  next
    case False
    then show ?thesis using groups [OF that] 1(4,5) by (intro exI [of _ "pg_info (pm_groups (ct_pm c) ! i)"]) auto
  qed
  then show ?thesis using len 1(4,5) by auto
qed

theorem groups_reread_witness:
  "\<exists>c. InitProcMon demo_attrs [demo_attrs] True (demo_ctrl 1) = Some c \<and> length (pm_groups (ct_pm c)) = 1 \<and>
     pg_curproc (pm_groups (ct_pm c) ! 0) = 3"
proof -
  obtain c where c: "InitProcMon demo_attrs [demo_attrs] True (demo_ctrl 1) = Some c" using demo_init_again by blast
  have "length (pm_groups (ct_pm (demo_ctrl 1))) = 1" "pg_curproc (pm_groups (ct_pm (demo_ctrl 1)) ! 0) = 3"
    by (simp_all add: demo_ctrl_def demo_mon_def)
  then show ?thesis using groups_reread [OF c] c by auto
qed

end
