(* ===== verification/CtrlRun.thy ===== *)
theory CtrlRun
  imports CtrlTheorems
begin

text \<open>
  The main loop of the controller: that it runs until it is told to quit and then signals every
  process, and when the statistics are reset.
\<close>

section \<open>The statistics of the controller\<close>

text \<open>A well-formed pool whose objects have at most ten values each, the room a report has.\<close>

definition pool_fits :: "stat_policies \<Rightarrow> stat_pool \<Rightarrow> bool" where
  "pool_fits t p \<longleftrightarrow> (\<exists>m n u. stat_rep t p (m, n, u) \<and> (\<forall>sid. \<forall>e\<in>set (m sid). length (snd (snd e)) \<le> STAT_MAX_VALSIZE))"

lemma upd_length: "length (snd (snd (upd t v idx e))) = length (snd (snd e))"
  by (cases e) (auto simp: upd_def entry_step_def Let_def split: option.splits stat_policy.splits)

lemma rep_positive:
  assumes "stat_rep t p (m, n, u)" "e \<in> set (m sid)"
  shows "1 \<le> int (length (snd (snd e)))"
proof -
  obtain ch fl where c: "stat_ok t p ch fl" "m = stat_map p ch" using assms(1) by (auto simp: stat_rep_def)
  have "links_ok p ch fl" using c(1) by (simp add: stat_ok_def)
  then obtain k where k: "k \<in> set (concat ch)" "e = entry_at p k" using assms(2) c(2) chain_in [OF _ hashid_less] by (fastforce simp: stat_map_def)
  then show ?thesis using entry_length [OF c(1) k(1)] rangeD(1) [OF c(1) k(1)] by simp
qed

lemma step_fits:
  assumes "pool_fits t p"
  shows "\<exists>p'. step0 t sid v 1 p = Some p' \<and> pool_fits t p'"
proof -
  obtain m n u where r: "stat_rep t p (m, n, u)" "\<forall>sid. \<forall>e\<in>set (m sid). length (snd (snd e)) \<le> 10"
    using assms by (auto simp: pool_fits_def)
  have "abs_op t (Count sid v 1) (m, n, u) = Some (m(sid := map (upd t v 1) (m sid)), n, u)"
    using rep_positive [OF r(1)] by (simp add: list_all_iff)
  from count_rep [OF r(1) this] obtain p' where p': "pool_op t (Count sid v 1) p = Some p'"
      "stat_rep t p' (m(sid := map (upd t v 1) (m sid)), n, u)" by blast
  have "\<forall>s. \<forall>e\<in>set ((m(sid := map (upd t v 1) (m sid))) s). length (snd (snd e)) \<le> 10" using r(2) by (auto simp: upd_length)
  then have "pool_fits t p'" using p'(2) unfolding pool_fits_def by blast
  then show ?thesis using p'(1) by (auto split: option.splits)
qed

lemma reset_fits:
  assumes "pool_fits t p"
  shows "\<exists>p'. stat_reset p = Some p' \<and> pool_fits t p'"
proof -
  obtain m n u where r: "stat_rep t p (m, n, u)" "\<forall>sid. \<forall>e\<in>set (m sid). length (snd (snd e)) \<le> 10"
    using assms by (auto simp: pool_fits_def)
  from reset_rep [OF r(1) abs_op.simps(3)] obtain p' where p': "stat_reset p = Some p'"
      "stat_rep t p' (\<lambda>i. map zero_entry (m i), n, u)" by auto
  have "\<forall>s. \<forall>e\<in>set (map zero_entry (m s)). length (snd (snd e)) \<le> 10" using r(2) by (auto simp: zero_entry_def)
  then show ?thesis using p' unfolding pool_fits_def by blast
qed

lemma those_total: "\<forall>k\<in>set ks. f k \<noteq> None \<Longrightarrow> those (map f ks) \<noteq> None"
  by (induction ks) auto

lemma policy_result_total:
  assumes "1 \<le> so_val_size ob" "so_val_size ob \<le> 10" "0 \<le> so_val_offset ob"
    "nat (so_val_offset ob) + nat (so_val_size ob) \<le> length vs"
  shows "policy_result pol ob vs \<noteq> None"
proof -
  have "read_values ob vs = Some (take (nat (so_val_size ob)) (drop (nat (so_val_offset ob)) vs))" (is "_ = Some ?xs")
    using assms by (simp add: read_values_def)
  moreover have "length ?xs \<le> 10" using assms by simp
  ultimately show ?thesis using assms(1) by (simp add: policy_result_def split: stat_policy.split)
qed

lemma report_total:
  assumes "pool_fits t p"
  shows "\<exists>x. stat_result t p = Some x"
proof -
  obtain ch fl where c: "stat_ok t p ch fl" "\<forall>sid. \<forall>e\<in>set (stat_map p ch sid). length (snd (snd e)) \<le> 10"
    using assms by (auto simp: pool_fits_def stat_rep_def)
  have l: "links_ok p ch fl" using c(1) by (simp add: stat_ok_def)
  have "result_line t p k \<noteq> None" if k: "k \<in> set (concat ch)" for k
  proof -
    obtain b where b: "b < 100" "k \<in> set (ch ! b)" using k links_okD(3) [OF l] unfolding set_concat_nth by auto
    then have "hashid (so_id (obj_at p k)) = b" using c(1) by (simp add: stat_ok_def)
    then have "entry_at p k \<in> set (stat_map p ch (so_id (obj_at p k)))" using b by (simp add: stat_map_def)
    then have "length (snd (snd (entry_at p k))) \<le> 10" using c(2) by blast
    then have n: "so_val_size (obj_at p k) \<le> 10" using entry_length [OF c(1) k] by simp
    have "k \<in> {0..<100}" using links_okD(12) [OF l] k by blast
    then have e: "obj_entry p k = Some (obj_at p k)" using entry_obj [OF links_okD(1) [OF l]] by blast
    obtain pol where pol: "policy_of t (so_type (obj_at p k)) = Some pol" using c(1) k by (auto simp: stat_ok_def simp del: set_concat)
    have "policy_result pol (obj_at p k) (sp_vals p) \<noteq> None"
      using policy_result_total [OF rangeD(1) [OF c(1) k] n rangeD(2,4) [OF c(1) k]] .
    then show ?thesis using e pol by (auto simp: result_line_def)
  qed
  then have "those (map (result_line t p) (concat ch)) \<noteq> None" by (intro those_total ballI)
  then obtain ls where "those (map (result_line t p) (concat ch)) = Some ls" by (rule not_None_eq [THEN iffD1, THEN exE])
  then show ?thesis using travel_all [OF l] by (simp add: stat_result_def)
qed


section \<open>Rounds\<close>

definition ctrl_fit :: "ctrl \<Rightarrow> bool" where
  "ctrl_fit c \<longleftrightarrow> pm_ok (ct_pm c) \<and> (\<exists>p. ct_stat c = Some p \<and> pool_fits (ct_pol c) p)"

lemma ctrl_fitI: "pm_ok (ct_pm c) \<Longrightarrow> ct_stat c = Some p \<Longrightarrow> pool_fits (ct_pol c) p \<Longrightarrow> ctrl_fit c"
  by (simp add: ctrl_fit_def)

lemma notify_fit:
  "ctrl_fit c \<Longrightarrow> \<exists>c'. notify_steps n c = Some c' \<and> ctrl_fit c' \<and> c'\<lparr>ct_stat := None\<rparr> = c\<lparr>ct_stat := None\<rparr>"
proof (induction n arbitrary: c)
  case (Suc n)
  obtain p where p: "ct_stat c = Some p" "pool_fits (ct_pol c) p" "pm_ok (ct_pm c)" using Suc.prems by (auto simp: ctrl_fit_def)
  obtain p' where p': "step0 (ct_pol c) NOTIFY_NUM 1 1 p = Some p'" "pool_fits (ct_pol c) p'" using step_fits [OF p(2)] by blast
  have "ctrl_fit (c\<lparr>ct_stat := Some p'\<rparr>)" using p(3) p'(2) by (simp add: ctrl_fit_def)
  from Suc.IH [OF this] show ?case using p(1) p'(1) by simp
qed simp

lemma run_monitor_fit:
  assumes "ctrl_fit c" "\<forall>m\<in>set (ri_msgs r). client_ok m"
  shows "\<exists>c'. run_monitor r c = Some c' \<and> ctrl_fit c' \<and> c'\<lparr>ct_stat := None, ct_pm := ct_pm c\<rparr> = c\<lparr>ct_stat := None\<rparr>"
proof -
  define pm0 where "pm0 = (ct_pm c)\<lparr>pm_now := int (ri_now r), pm_gone := ri_gone r, pm_mq := pm_mq (ct_pm c) @ ri_msgs r\<rparr>"
  have "pm_ok pm0" using assms by (auto simp: ctrl_fit_def pm_ok_def pm0_def views_def clients_def)
  then obtain pm where pm: "pm_run pm0 = Some pm" "pm_ok pm" using pm_run_spec by blast
  have "ctrl_fit (c\<lparr>ct_pm := pm\<rparr>)" using assms(1) pm(2) by (simp add: ctrl_fit_def)
  from notify_fit [OF this] obtain c' where c': "notify_steps (length (filter is_notify (drop (length (pm_out pm0)) (pm_out pm)))) (c\<lparr>ct_pm := pm\<rparr>) = Some c'"
      "ctrl_fit c'" "c'\<lparr>ct_stat := None\<rparr> = c\<lparr>ct_pm := pm, ct_stat := None\<rparr>" by blast
  have "c'\<lparr>ct_stat := None, ct_pm := ct_pm c\<rparr> = c\<lparr>ct_stat := None\<rparr>" using arg_cong [OF c'(3), of "ct_pm_update (\<lambda>_. ct_pm c)"] by simp
  then show ?thesis using pm(1) c'(1,2) unfolding run_monitor_def pm0_def [symmetric] by simp
qed

lemma stat_output_fit:
  assumes "ctrl_fit c"
  shows "\<exists>t' c'. stat_output lt now (t, c) = Some (t', c') \<and> ctrl_fit c' \<and> ct_flag c' = ct_flag c \<and> ct_pm c' = ct_pm c"
proof -
  obtain p where p: "ct_stat c = Some p" "pool_fits (ct_pol c) p" "pm_ok (ct_pm c)" using assms by (auto simp: ctrl_fit_def)
  obtain objs vals lines where l: "stat_result (ct_pol c) p = Some (objs, vals, lines)" using report_total [OF p(2)] by auto
  obtain p' where p': "stat_reset p = Some p'" "pool_fits (ct_pol c) p'" using reset_fits [OF p(2)] by blast
  define c1 where "c1 = put_ctrl (CWriteStat (ct_stat_file c) lines) c"
  define c2 where "c2 = put_ctrl (CLogStat (objs, vals, lines)) (put_ctrl CReset (c1\<lparr>ct_stat := Some p'\<rparr>))"
  have c1: "ctrl_fit c1" "ct_flag c1 = ct_flag c" "ct_pm c1 = ct_pm c" using assms by (simp_all add: c1_def put_ctrl_def ctrl_fit_def)
  have c2: "ctrl_fit c2" "ct_flag c2 = ct_flag c" "ct_pm c2 = ct_pm c" using p p'(2) by (simp_all add: c1_def c2_def put_ctrl_def ctrl_fit_def)
  have "stat_output lt now (t, c) = Some (if reset_due lt now t c1
     then if reset_now lt now t c1 then (t\<lparr>tm_reset := now, tm_today := True\<rparr>, c2) else (t, c1) else (t\<lparr>tm_today := False\<rparr>, c1))"
    using p(1) l p'(1) by (simp add: stat_output_def c1_def [symmetric] c2_def)
  then show ?thesis using c1 c2 by simp
qed

lemma output_fit:
  assumes "ctrl_fit c"
  shows "\<exists>t' c'. output_round lt now (t, c) = Some (t', c') \<and> ctrl_fit c' \<and> ct_flag c' = ct_flag c \<and> ct_pm c' = ct_pm c"
proof -
  define x where "x = (if sub32 now (tm_moni t) > ct_moni_inter c
                   then (t\<lparr>tm_moni := now\<rparr>, put_ctrl (CMoni (case pm_query (ct_pm c) of None \<Rightarrow> [] | Some l \<Rightarrow> l)) c) else (t, c))"
  obtain t1 c1 where x: "x = (t1, c1)" by (cases x)
  then have c1: "ctrl_fit c1" "ct_flag c1 = ct_flag c" "ct_pm c1 = ct_pm c"
    using assms by (auto simp: x_def put_ctrl_def ctrl_fit_def split: if_splits)
  have "output_round lt now (t, c) = (if sub32 now (tm_stat t1) > ct_stat_interval c1 then stat_output lt now (t1\<lparr>tm_stat := now\<rparr>, c1) else Some (t1, c1))"
    using x by (simp add: output_round_def x_def)
  then show ?thesis using c1 stat_output_fit [OF c1(1), of lt now "t1\<lparr>tm_stat := now\<rparr>"] by auto
qed

lemma flag_bits: "(f :: byte) AND 1 = 0 \<longleftrightarrow> \<not> bit f 0" "f AND 2 = 0 \<longleftrightarrow> \<not> bit f 1" "f AND 4 = 0 \<longleftrightarrow> \<not> bit f 2"
  using and_exp_eq_0_iff_not_bit [of f 0] and_exp_eq_0_iff_not_bit [of f 1] and_exp_eq_0_iff_not_bit [of f 2] by simp_all

lemma flag_masks: "bit (f AND - 5 :: byte) 0 = bit f 0" "bit (f AND - 5 :: byte) (Suc 0) = bit f (Suc 0)"
  "\<not> bit (f AND - 2 :: byte) 0" "bit (f AND - 2 :: byte) (Suc 0) = bit f (Suc 0)"
  by (simp_all add: bit_and_iff)

lemma fold_kill_out:
  "pm_out (fold (\<lambda>p. do_kill (pi_procid (po_info p)) signo) ps pm) = pm_out pm @ map (\<lambda>p. PmKill (pi_procid (po_info p)) signo) ps"
  by (induction ps arbitrary: pm) (simp_all add: do_kill_def put_effect_def)

lemma fold_groups_out:
  "pm_out (fold (\<lambda>g pm. if pg_curproc g \<noteq> GROUP_UNUSED
       then fold (\<lambda>p. do_kill (pi_procid (po_info p)) signo) (f g) pm else pm) gs pm) =
   pm_out pm @ concat (map (\<lambda>g. if pg_curproc g \<noteq> GROUP_UNUSED then map (\<lambda>p. PmKill (pi_procid (po_info p)) signo) (f g) else []) gs)"
  by (induction gs arbitrary: pm) (simp_all add: fold_kill_out)

lemma killall_views: "views (killall signo pm) = views pm"
  unfolding killall_def by (rule conjunct1 [OF fold_groups_kill])

lemma killall_signals:
  assumes "pm_ok pm" "i < length (pm_groups pm)" "p \<in> set (procs pm i)"
  shows "PmKill (pi_procid p) signo \<in> set (pm_out (killall signo pm))"
proof -
  let ?g = "pm_groups pm ! i"
  define F where "F = (\<lambda>g :: proc_group. if pg_curproc g \<noteq> GROUP_UNUSED
      then map (\<lambda>p. PmKill (pi_procid (po_info p)) signo) (concat (take BUCKET_SIZE (pg_buckets g))) else [])"
  have g: "view_ok i (gview ?g)" using assms(1,2) by (simp add: pm_ok_def views_nth)
  have "procs pm i = map po_info (concat (pg_buckets ?g))" using assms(2) by (simp add: procs_def views_nth gview_def map_concat)
  then have p: "p \<in> po_info ` set (concat (pg_buckets ?g))" using assms(3) unfolding set_map [symmetric] by simp
  have "take BUCKET_SIZE (pg_buckets ?g) = pg_buckets ?g" "pg_curproc ?g \<noteq> GROUP_UNUSED"
    using g by (auto simp: gview_def BUCKET_SIZE_def GROUP_UNUSED_def)
  then have "F ?g = map (\<lambda>p. PmKill (pi_procid (po_info p)) signo) (concat (pg_buckets ?g))" by (simp add: F_def)
  then have "PmKill (pi_procid p) signo \<in> set (F ?g)" using p by (auto simp del: set_concat)
  moreover have "F ?g \<in> set (map F (pm_groups pm))" using assms(2) by simp
  ultimately have "PmKill (pi_procid p) signo \<in> set (concat (map F (pm_groups pm)))" unfolding set_concat by (rule UN_I [rotated])
  then show ?thesis unfolding killall_def fold_groups_out set_append F_def by (rule UnI2)
qed

lemma signal_fit:
  assumes "ctrl_fit c" "\<not> bit (ct_flag c) 1"
  shows "\<exists>c'. signal_round cf c = Some (\<not> bit (ct_flag c) 0, c') \<and> ctrl_fit c' \<and> \<not> bit (ct_flag c') 1 \<and> \<not> bit (ct_flag c') 0 \<and>
    (bit (ct_flag c) 0 \<longrightarrow> (\<forall>i<length (pm_groups (ct_pm c')). \<forall>p\<in>set (procs (ct_pm c') i). PmKill (pi_procid p) SIGUSR1 \<in> set (pm_out (ct_pm c'))))"
proof -
  define c1 where "c1 = (if bit (ct_flag c) 2 then kill_procs SIGUSR3 (c\<lparr>ct_flag := ct_flag c AND NOT 4\<rparr>) else c)"
  have c1: "ctrl_fit c1" "bit (ct_flag c1) 0 = bit (ct_flag c) 0" "\<not> bit (ct_flag c1) 1"
    using assms killall_ok by (auto simp: c1_def ctrl_fit_def kill_procs_def flag_masks)
  define c2 where "c2 = (if bit (ct_flag c) 0 then kill_procs SIGUSR1 (c1\<lparr>ct_flag := ct_flag c1 AND NOT 1\<rparr>) else c1)"
  have "signal_round cf c = Some (\<not> bit (ct_flag c) 0, c2)"
    using assms(2) by (cases "bit (ct_flag c) 0"; cases "bit (ct_flag c) 2")
      (simp_all add: signal_round_def reload_def reloadmoduleconfig_def quit_def flag_bits flag_masks c1_def c2_def kill_procs_def Let_def)
  moreover have "ctrl_fit c2" "\<not> bit (ct_flag c2) 1" "\<not> bit (ct_flag c2) 0"
    using c1 killall_ok by (auto simp: c2_def ctrl_fit_def kill_procs_def flag_masks)
  moreover have "PmKill (pi_procid p) SIGUSR1 \<in> set (pm_out (ct_pm c2))"
    if "bit (ct_flag c) 0" "i < length (pm_groups (ct_pm c2))" "p \<in> set (procs (ct_pm c2) i)" for i p
  proof -
    have "ct_pm c2 = killall SIGUSR1 (ct_pm c1)" using that(1) by (simp add: c2_def kill_procs_def)
    moreover have "i < length (pm_groups (ct_pm c1))" "p \<in> set (procs (ct_pm c1) i)"
      using that(2,3) calculation views_groups [OF killall_views] procs_cong [OF killall_views] by metis+
    ultimately show ?thesis using killall_signals c1(1) by (simp add: ctrl_fit_def)
  qed
  ultimately show ?thesis by blast
qed


definition quits_in :: "round_in \<Rightarrow> bool" where
  "quits_in r \<longleftrightarrow> ri_flag r AND RUN_FLAG_QUIT \<noteq> 0"

definition all_told :: "procmon \<Rightarrow> bool" where
  "all_told pm \<longleftrightarrow> (\<forall>i<length (pm_groups pm). \<forall>p\<in>set (procs pm i). PmKill (pi_procid p) SIGUSR1 \<in> set (pm_out pm))"

lemma ctrl_round_fit:
  assumes "ctrl_fit c" "ct_flag c AND RUN_FLAG_QUIT = 0" "ct_flag c AND RUN_FLAG_RELOAD = 0"
    "\<forall>m\<in>set (ri_msgs r). client_ok m" "ri_flag r AND RUN_FLAG_RELOAD = 0"
  shows "\<exists>t' c'. ctrl_round lt r (t, c) = Some (\<not> quits_in r, t', c') \<and> ctrl_fit c' \<and>
    ct_flag c' AND RUN_FLAG_QUIT = 0 \<and> ct_flag c' AND RUN_FLAG_RELOAD = 0 \<and> (quits_in r \<longrightarrow> all_told (ct_pm c'))"
proof -
  obtain c1 where 1: "run_monitor r c = Some c1" "ctrl_fit c1" "c1\<lparr>ct_stat := None, ct_pm := ct_pm c\<rparr> = c\<lparr>ct_stat := None\<rparr>"
    using run_monitor_fit [OF assms(1,4)] by blast
  obtain t' c2 where 2: "output_round lt (ri_now r) (t, c1) = Some (t', c2)" "ctrl_fit c2" "ct_flag c2 = ct_flag c1"
    using output_fit [OF 1(2)] by blast
  have f: "ct_flag c2 = ct_flag c" using 2(3) arg_cong [OF 1(3), of ct_flag] by simp
  let ?c = "c2\<lparr>ct_flag := ct_flag c2 OR ri_flag r\<rparr>"
  have "ctrl_fit ?c" using 2(2) by (simp add: ctrl_fit_def)
  moreover have b: "bit (ct_flag ?c) 0 = quits_in r" "\<not> bit (ct_flag ?c) 1"
    using assms(2,3,5) f unfolding quits_in_def flag_bits by (simp_all add: bit_or_iff)
  ultimately obtain c3 where "signal_round (ri_conf r) ?c = Some (\<not> quits_in r, c3)" "ctrl_fit c3" "\<not> bit (ct_flag c3) 1" "\<not> bit (ct_flag c3) 0"
      "quits_in r \<longrightarrow> all_told (ct_pm c3)"
    using signal_fit [of ?c "ri_conf r"] unfolding b(1) all_told_def by blast
  then show ?thesis using 1(1) 2(1) unfolding flag_bits by (intro exI [of _ t'] exI [of _ c3]) (simp add: ctrl_round_def)
qed

text \<open>Without a reload the rounds go on until the first that is told to quit.\<close>

lemma ctrl_loop_fit:
  assumes "ctrl_fit c" "ct_flag c AND RUN_FLAG_QUIT = 0" "ct_flag c AND RUN_FLAG_RELOAD = 0"
    "\<forall>r\<in>set rs. ri_flag r AND RUN_FLAG_RELOAD = 0 \<and> (\<forall>m\<in>set (ri_msgs r). client_ok m)"
  shows "\<exists>t' c'. ctrl_loop lt rs (t, c) = Some (\<not> list_ex quits_in rs, t', c') \<and> ctrl_fit c' \<and> (list_ex quits_in rs \<longrightarrow> all_told (ct_pm c'))"
  using assms
proof (induction rs arbitrary: t c)
  case (Cons r rs)
  obtain t1 c1 where 1: "ctrl_round lt r (t, c) = Some (\<not> quits_in r, t1, c1)" "ctrl_fit c1"
      "ct_flag c1 AND RUN_FLAG_QUIT = 0" "ct_flag c1 AND RUN_FLAG_RELOAD = 0" "quits_in r \<longrightarrow> all_told (ct_pm c1)"
    using ctrl_round_fit [OF Cons.prems(1-3), of r lt t] Cons.prems(4) by auto
  then show ?case using Cons.IH [OF 1(2-4), of t1] Cons.prems(4) by (cases "quits_in r") simp_all
qed simp

section \<open>A controller for examples\<close>

definition demo_times :: "bool \<Rightarrow> ctrl_times" where
  "demo_times today = \<lparr>tm_moni = 100, tm_stat = 100, tm_reset = 100, tm_today = today\<rparr>"

definition demo_conf_file :: ctrl_conf where
  "demo_conf_file = \<lparr>cc_common = (\<lambda>n. if n = ''timer'' then None else Some (demo_attrs(''basepath'' := ''bin''))),
     cc_procmon = Some (demo_attrs, [demo_attrs]), cc_queue = (\<lambda>k. []),
     cc_statfile = (False, False, False, False, newpool)\<rparr>"

definition demo_round :: "nat \<Rightarrow> byte \<Rightarrow> round_in" where
  "demo_round now f = \<lparr>ri_now = now, ri_gone = (\<lambda>p. False), ri_msgs = [], ri_flag = f, ri_conf = demo_conf_file\<rparr>"

lemma demo_ctrl_fit: "ctrl_fit (demo_ctrl days)"
proof -
  have "pool_fits six_policies newpool" unfolding pool_fits_def using newpool_rep [of six_policies] by (intro exI conjI) auto
  then show ?thesis using demo_mon_ok by (simp add: ctrl_fit_def demo_ctrl_def)
qed

section \<open>From the start\<close>

lemma start_tool_fit:
  assumes "start_tool name cf c = Some c'"
  shows "ct_pm c' = ct_pm c" "ct_stat c' = ct_stat c" "ct_pol c' = ct_pol c" "ct_flag c' = ct_flag c"
  using assms by (auto simp: start_tool_def do_fork_ex_def put_ctrl_def split: option.splits if_splits)

lemma notify_registered: "\<exists>ret p. init_statobj six_policies NOTIFY_NUM 1 None 1 newpool = Some (ret, p) \<and> pool_fits six_policies p"
proof -
  have "length NOTIFY_NUM < 64" by (simp add: NOTIFY_NUM_def)
  then have "abs_op six_policies (Register NOTIFY_NUM 1 None 1) (\<lambda>i. [], 0, 0) = Some ((\<lambda>i. [])(NOTIFY_NUM := [(1, 0, [0])]), 1, 1)"
    by (simp add: six_policies_def)
  from register_rep [OF policies_init [OF stat_policies_init_eq] newpool_rep this]
  obtain p ret where p: "init_statobj six_policies NOTIFY_NUM 1 None 1 newpool = Some (ret, p)"
      "stat_rep six_policies p ((\<lambda>i. [])(NOTIFY_NUM := [(1, 0, [0])]), 1, 1)" by auto
  have "pool_fits six_policies p" using p(2) unfolding pool_fits_def by (intro exI conjI) auto
  then show ?thesis using p(1) by blast
qed

lemma init_stat_fit:
  assumes "e ''mapfile'' = []" "stat_policies_init = Some (ct_pol c)"
  shows "\<exists>c'. init_stat e cf c = Some c' \<and> ct_pm c' = ct_pm c \<and> ct_mqkey c' = ct_mqkey c \<and> ct_pol c' = ct_pol c \<and> ct_flag c' = ct_flag c \<and>
    (\<exists>p. ct_stat c' = Some p \<and> pool_fits (ct_pol c') p)"
proof -
  have pol: "ct_pol c = six_policies" using trans [OF assms(2) [symmetric] stat_policies_init_eq] by simp
  obtain ret p where p: "init_statobj six_policies NOTIFY_NUM 1 None 1 newpool = Some (ret, p)" "pool_fits six_policies p"
    using notify_registered by blast
  obtain h m s where "CvtTime (e ''stat_reset_time'') = (h, m, s)" by (cases "CvtTime (e ''stat_reset_time'')") auto
  then show ?thesis using assms(1) pol p by (simp add: init_stat_def init_statpool_def)
qed

lemma init_moni_fit:
  assumes "init_moni e cf c = Some c'" "pm_ok (ct_pm c)" "\<forall>key. \<forall>m\<in>set (cc_queue cf key). client_ok m"
  shows "pm_ok (ct_pm c')" "ct_stat c' = ct_stat c" "ct_pol c' = ct_pol c" "ct_flag c' = ct_flag c"
proof -
  define key q where "key = int_of_long (strtol0 (e ''key_base''))" and "q = (if key = ct_mqkey c then pm_mq (ct_pm c) else cc_queue cf key)"
  obtain pm where q: "pm_set_commu q (ct_pm c) = Some pm" "ct_pm c' = pm" "ct_stat c' = ct_stat c" "ct_pol c' = ct_pol c" "ct_flag c' = ct_flag c"
    using assms(1) unfolding init_moni_def Let_def key_def [symmetric] q_def [symmetric] by (auto simp: bind_eq_Some_conv split: if_splits)
  have "client_ok m" if "m \<in> set (pm_mq (ct_pm c))" for m
    using assms(2) that by (cases m) (auto simp: pm_ok_def clients_def)
  then have "\<forall>m\<in>set q. client_ok m" using assms(3) by (simp add: q_def)
  then have "pm_ok pm" using set_commu_ok [OF assms(2), of q] q(1) by auto
  then show "pm_ok (ct_pm c')" "ct_stat c' = ct_stat c" "ct_pol c' = ct_pol c" "ct_flag c' = ct_flag c" using q by simp_all
qed

lemma initconf_fit:
  assumes "initconf False cf c = Some c'" "pm_groups (ct_pm c) = []" "pm_ok (ct_pm c)" "stat_policies_init = Some (ct_pol c)"
    "cc_common cf ''stat'' = Some e" "e ''mapfile'' = []" "\<forall>key. \<forall>m\<in>set (cc_queue cf key). client_ok m"
  shows "ctrl_fit c' \<and> ct_flag c' = ct_flag c"
proof -
  obtain c1 attr es c2 c3 e' c4 c5 where s: "start_tool ''timer'' cf c = Some c1" "InitProcMon attr es False c1 = Some c2"
      "init_stat e cf c2 = Some c3" "init_moni e' cf c3 = Some c4" "start_tool ''report'' cf c4 = Some c5" "start_tool ''updateclient'' cf c5 = Some c'"
    using assms(1,5) by (auto simp: initconf_def bind_eq_Some_conv)
  note 1 = start_tool_fit [OF s(1)]
  have "pm_ok (ct_pm c2)" using InitProcMon_new [OF s(2)] assms(2,3) 1(1) by simp
  moreover have "ct_pol c2 = ct_pol c1" "ct_flag c2 = ct_flag c1" using s(2) by (auto simp: InitProcMon_def Let_def bind_eq_Some_conv split: if_splits)
  moreover have "stat_policies_init = Some (ct_pol c2)" using calculation(2) 1(3) assms(4) by simp
  moreover note 3 = init_stat_fit [of e, OF assms(6) this, of cf, unfolded s(3)]
  ultimately have c3: "ctrl_fit c3" "ct_flag c3 = ct_flag c" using 1 by (auto simp: ctrl_fit_def)
  then have "pm_ok (ct_pm c3)" by (simp add: ctrl_fit_def)
  from init_moni_fit [OF s(4) this assms(7)] show ?thesis using c3 start_tool_fit [OF s(5)] start_tool_fit [OF s(6)] by (simp add: ctrl_fit_def)
qed


lemma demo_starts: "\<exists>c. initconf False demo_conf_file demo_start = Some c"
proof -
  let ?e = "demo_attrs(''basepath'' := ''bin'')"
  have tools: "start_tool n demo_conf_file c = Some c" for n c by (simp add: start_tool_def demo_conf_file_def demo_attrs_def)
  have logs: "open_log ''fwlog'' demo_conf_file = Some ()" "open_log ''log'' demo_conf_file = Some ()"
    by (simp_all add: open_log_def log_ok_def demo_conf_file_def demo_attrs_def atoi_demo LOG_NONE_def LOG_TYPE_CYCLE_HOURLY_def)
  obtain c1 where 1: "InitProcMon demo_attrs [demo_attrs] False demo_start = Some c1" "pm_mq (ct_pm c1) = []" "ct_pol c1 = six_policies"
    using demo_init [of demo_start] by (simp add: demo_start_def demo_ctrl_def demo_mon_def)
  have ok: "pm_ok (ct_pm c1)" using InitProcMon_new [OF 1(1)] by (simp add: demo_start_def pm_ok_def views_def clients_def demo_mon_def)
  obtain c2 where 2: "init_stat ?e demo_conf_file c1 = Some c2" "ct_pm c2 = ct_pm c1"
    using init_stat_fit [of ?e c1 demo_conf_file] 1(3) by (auto simp: stat_policies_init_eq demo_attrs_def)
  obtain pm where "pm_set_commu [] (ct_pm c2) = Some pm" using set_commu_ok [of "ct_pm c2" "[]"] ok 2(2) by auto
  moreover have "?e ''key_base'' = []" "?e ''intervial'' = ''1''" by (simp_all add: demo_attrs_def)
  ultimately obtain c3 where 3: "init_moni ?e demo_conf_file c2 = Some c3"
    using 1(2) 2(2) by (auto simp: init_moni_def atoi_demo small_u32 demo_conf_file_def)
  show ?thesis using tools logs 1(1) 2 3 by (simp add: initconf_def demo_conf_file_def)
qed


section \<open>Resetting the statistics\<close>

definition resets :: "ctrl \<Rightarrow> nat" where
  "resets c = length (filter (\<lambda>e. e = CReset) (ct_out c))"

lemma notify_parts: "notify_steps n c = Some c' \<Longrightarrow> c'\<lparr>ct_stat := None\<rparr> = c\<lparr>ct_stat := None\<rparr>"
proof (induction n arbitrary: c)
  case (Suc n)
  then obtain p where "notify_steps n (c\<lparr>ct_stat := Some p\<rparr>) = Some c'" by (auto simp: bind_eq_Some_conv)
  from Suc.IH [OF this] show ?case by simp
qed simp

lemma run_monitor_parts: "run_monitor r c = Some c' \<Longrightarrow> ct_out c' = ct_out c \<and> ct_stat_days c' = ct_stat_days c \<and> ct_flag c' = ct_flag c"
proof -
  assume "run_monitor r c = Some c'"
  then obtain n pm where "notify_steps n (c\<lparr>ct_pm := pm\<rparr>) = Some c'" by (auto simp: run_monitor_def bind_eq_Some_conv)
  note e = notify_parts [OF this]
  show ?thesis using arg_cong [OF e, of ct_out] arg_cong [OF e, of ct_stat_days] arg_cong [OF e, of ct_flag] by simp
qed

lemma signal_parts:
  "signal_round cf c = Some (go, c') \<Longrightarrow> ct_flag c AND RUN_FLAG_RELOAD = 0 \<Longrightarrow>
    ct_out c' = ct_out c \<and> ct_stat_days c' = ct_stat_days c \<and> ct_flag c' AND RUN_FLAG_RELOAD = 0"
  unfolding flag_bits
  by (auto simp: signal_round_def reload_def reloadmoduleconfig_def quit_def flag_bits flag_masks kill_procs_def Let_def split: if_splits)

lemma stat_output_no_reset:
  assumes "stat_output lt now (t, c) = Some (t', c')"
    "(ct_stat_days c = 0 \<and> tm_today t) \<or> (0 < ct_stat_days c \<and> fst (lt now) = fst (lt (tm_reset t)))"
  shows "resets c' = resets c \<and> ct_stat_days c' = ct_stat_days c \<and> tm_reset t' = tm_reset t \<and> (ct_stat_days c = 0 \<longrightarrow> tm_today t') \<and> ct_flag c' = ct_flag c"
proof -
  obtain p objs vals lines where p: "ct_stat c = Some p" "stat_result (ct_pol c) p = Some (objs, vals, lines)"
    using assms(1) by (auto simp: stat_output_def bind_eq_Some_conv)
  define x where "x = CWriteStat (ct_stat_file c) lines"
  have "\<not> (reset_due lt now t (put_ctrl x c) \<and> reset_now lt now t (put_ctrl x c))"
    using assms(2) by (auto simp: reset_due_def reset_now_def put_ctrl_def u32_of_int_def)
  then have "(t', c') = (if reset_due lt now t (put_ctrl x c) then (t, put_ctrl x c) else (t\<lparr>tm_today := False\<rparr>, put_ctrl x c))"
    using assms(1) p by (auto simp: stat_output_def x_def [symmetric] Let_def split: if_splits)
  moreover have "ct_stat_days c = 0 \<Longrightarrow> reset_due lt now t (put_ctrl x c)" by (simp add: reset_due_def put_ctrl_def)
  ultimately show ?thesis using assms(2) by (auto simp: resets_def put_ctrl_def x_def split: if_splits)
qed

lemma output_no_reset:
  assumes "output_round lt now (t, c) = Some (t', c')"
    "(ct_stat_days c = 0 \<and> tm_today t) \<or> (0 < ct_stat_days c \<and> fst (lt now) = fst (lt (tm_reset t)))"
  shows "resets c' = resets c \<and> ct_stat_days c' = ct_stat_days c \<and> tm_reset t' = tm_reset t \<and> (ct_stat_days c = 0 \<longrightarrow> tm_today t') \<and> ct_flag c' = ct_flag c"
proof -
  define x where "x = (if sub32 now (tm_moni t) > ct_moni_inter c
                   then (t\<lparr>tm_moni := now\<rparr>, put_ctrl (CMoni (case pm_query (ct_pm c) of None \<Rightarrow> [] | Some l \<Rightarrow> l)) c) else (t, c))"
  obtain t1 c1 where x: "x = (t1, c1)" by (cases x)
  then have c1: "resets c1 = resets c" "ct_stat_days c1 = ct_stat_days c" "ct_flag c1 = ct_flag c" "tm_reset t1 = tm_reset t" "tm_today t1 = tm_today t"
    by (auto simp: x_def put_ctrl_def resets_def split: if_splits)
  have "(if sub32 now (tm_stat t1) > ct_stat_interval c1 then stat_output lt now (t1\<lparr>tm_stat := now\<rparr>, c1) else Some (t1, c1)) = Some (t', c')"
    using x assms(1) by (simp add: output_round_def x_def)
  then show ?thesis using c1 assms(2) stat_output_no_reset [of lt now "t1\<lparr>tm_stat := now\<rparr>" c1 t' c'] by (auto split: if_splits)
qed

text \<open>
  The statistics are not reset a second time on the same day of the year when a number of
  days is configured; with no days configured (every day, as it is meant) they are reset once
  and then never again.
\<close>

theorem stats_reset_limited:
  assumes "ctrl_loop lt rs (t, c) = Some (go, t', c')" "ct_flag c AND RUN_FLAG_RELOAD = 0" "\<forall>r\<in>set rs. ri_flag r AND RUN_FLAG_RELOAD = 0"
    "if ct_stat_days c = 0 then tm_today t else \<forall>r\<in>set rs. fst (lt (ri_now r)) = fst (lt (tm_reset t))"
  shows "resets c' = resets c"
  using assms
proof (induction rs arbitrary: t c)
  case (Cons r rs)
  obtain go1 t1 c1 where 1: "ctrl_round lt r (t, c) = Some (go1, t1, c1)" using Cons.prems(1) by (auto split: option.splits)
  then obtain ca tb cb where r: "run_monitor r c = Some ca" "output_round lt (ri_now r) (t, ca) = Some (t1, cb)"
      "signal_round (ri_conf r) (cb\<lparr>ct_flag := ct_flag cb OR ri_flag r\<rparr>) = Some (go1, c1)"
    by (auto simp: ctrl_round_def bind_eq_Some_conv)
  have ca: "ct_stat_days ca = ct_stat_days c" "resets ca = resets c" "ct_flag ca = ct_flag c"
    using run_monitor_parts [OF r(1)] by (simp_all add: resets_def)
  have cb: "resets cb = resets ca" "ct_stat_days cb = ct_stat_days ca" "tm_reset t1 = tm_reset t" "ct_stat_days ca = 0 \<longrightarrow> tm_today t1"
      "ct_flag cb = ct_flag ca"
    using output_no_reset [OF r(2)] Cons.prems(4) ca(1) by (auto split: if_splits)
  have "ct_flag (cb\<lparr>ct_flag := ct_flag cb OR ri_flag r\<rparr>) AND RUN_FLAG_RELOAD = 0"
    using cb(5) ca(3) Cons.prems(2,3) unfolding flag_bits by (simp add: bit_or_iff)
  from signal_parts [OF r(3) this] have c1: "resets c1 = resets c" "ct_stat_days c1 = ct_stat_days c" "ct_flag c1 AND RUN_FLAG_RELOAD = 0"
    using ca cb by (simp_all add: resets_def)
  show ?case
  proof (cases go1)
    case True
    then have l: "ctrl_loop lt rs (t1, c1) = Some (go, t', c')" using Cons.prems(1) 1 by simp
    have "if ct_stat_days c1 = 0 then tm_today t1 else \<forall>r\<in>set rs. fst (lt (ri_now r)) = fst (lt (tm_reset t1))"
      using Cons.prems(4) cb(3,4) ca(1) c1(2) by (auto split: if_splits)
    then show ?thesis using Cons.IH [OF l c1(3)] Cons.prems(3) c1(1) by simp
  next
    case False
    then show ?thesis using Cons.prems(1) 1 c1(1) by simp
  qed
qed (simp add: resets_def)

text \<open>
  An output in the configured minute, on a day that is far enough from the last reset,
  reports the statistics and then clears them: every object counts from zero again.
\<close>

theorem stats_reset_clears:
  assumes "ctrl_fit c" "ct_stat_interval c < sub32 now (tm_stat t)"
    "ct_stat_days c \<le> u32_of_int (fst (lt now) - fst (lt (tm_reset t)))"
    "\<not> tm_today t" "snd (lt now) = (ct_reset_hour c, ct_reset_minute c)"
  shows "\<exists>t' c' p. output_round lt now (t, c) = Some (t', c') \<and> tm_reset t' = now \<and> tm_today t' \<and> resets c' = resets c + 1 \<and>
    ct_stat c' = Some p \<and> (\<forall>sid ob. stat_query sid p = Some (1, Some ob) \<longrightarrow> so_count ob = 0)"
proof -
  define x where "x = (if sub32 now (tm_moni t) > ct_moni_inter c
                   then (t\<lparr>tm_moni := now\<rparr>, put_ctrl (CMoni (case pm_query (ct_pm c) of None \<Rightarrow> [] | Some l \<Rightarrow> l)) c) else (t, c))"
  obtain t1 c1 where x: "x = (t1, c1)" by (cases x)
  then have c1: "resets c1 = resets c" "ct_stat c1 = ct_stat c" "ct_pol c1 = ct_pol c" "ct_stat_interval c1 = ct_stat_interval c"
      "ct_stat_days c1 = ct_stat_days c" "ct_reset_hour c1 = ct_reset_hour c" "ct_reset_minute c1 = ct_reset_minute c"
      "tm_reset t1 = tm_reset t" "tm_today t1 = tm_today t" "tm_stat t1 = tm_stat t"
    by (auto simp: x_def put_ctrl_def resets_def split: if_splits)
  obtain p where p: "ct_stat c = Some p" "pool_fits (ct_pol c) p" using assms(1) by (auto simp: ctrl_fit_def)
  obtain objs vals lines where l: "stat_result (ct_pol c) p = Some (objs, vals, lines)" using report_total [OF p(2)] by auto
  obtain m n u where r: "stat_rep (ct_pol c) p (m, n, u)" using p(2) by (auto simp: pool_fits_def)
  obtain p' where p': "stat_reset p = Some p'" "stat_rep (ct_pol c) p' (\<lambda>i. map zero_entry (m i), n, u)"
    using reset_rep [OF r abs_op.simps(3)] by auto
  define c2 where "c2 = put_ctrl (CWriteStat (ct_stat_file c1) lines) c1"
  define c3 where "c3 = put_ctrl (CLogStat (objs, vals, lines)) (put_ctrl CReset (c2\<lparr>ct_stat := Some p'\<rparr>))"
  have due: "reset_due lt now (t1\<lparr>tm_stat := now\<rparr>) c2" "reset_now lt now (t1\<lparr>tm_stat := now\<rparr>) c2"
    using assms(3-5) c1 by (simp_all add: reset_due_def reset_now_def c2_def put_ctrl_def)
  have "stat_output lt now (t1\<lparr>tm_stat := now\<rparr>, c1) = Some (t1\<lparr>tm_stat := now, tm_reset := now, tm_today := True\<rparr>, c3)"
    using p(1) l p'(1) c1(2,3) due by (simp add: stat_output_def c2_def [symmetric] c3_def)
  moreover have "output_round lt now (t, c) = stat_output lt now (t1\<lparr>tm_stat := now\<rparr>, c1)"
    using x assms(2) c1(4,10) by (simp add: output_round_def x_def)
  moreover have "resets c3 = resets c + 1" "ct_stat c3 = Some p'" using c1(1) by (simp_all add: c3_def c2_def put_ctrl_def resets_def)
  moreover have "so_count ob = 0" if "stat_query sid p' = Some (1, Some ob)" for sid ob
    using query_rep [OF p'(2), of sid] that by (cases "m sid") (auto simp: zero_entry_def)
  ultimately show ?thesis by (intro exI [of _ "t1\<lparr>tm_stat := now, tm_reset := now, tm_today := True\<rparr>"] exI [of _ c3] exI [of _ p']) simp
qed


theorem stats_reset_limited_witness:
  "\<exists>go t' c'. ctrl_loop (\<lambda>t. (7, 0, 5)) [demo_round 200 0] (demo_times True, demo_ctrl 1) = Some (go, t', c') \<and> resets c' = 0"
proof -
  have "ctrl_fit (demo_ctrl 1)" by (rule demo_ctrl_fit)
  then obtain go t' c' where 1: "ctrl_loop (\<lambda>t. (7, 0, 5)) [demo_round 200 0] (demo_times True, demo_ctrl 1) = Some (go, t', c')"
    using ctrl_loop_fit [of "demo_ctrl 1" "[demo_round 200 0]" "\<lambda>t. (7, 0, 5)" "demo_times True"] by (auto simp: demo_ctrl_def demo_round_def)
  then have "resets c' = resets (demo_ctrl 1)"
    using stats_reset_limited [OF 1] by (simp add: demo_ctrl_def demo_round_def)
  then show ?thesis using 1 by (simp add: resets_def demo_ctrl_def)
qed

theorem stats_reset_clears_witness:
  "\<exists>t' c'. output_round (\<lambda>t. (if t < 150 then 7 else 8, 0, 5)) 200 (demo_times False, demo_ctrl 1) = Some (t', c') \<and> tm_reset t' = 200 \<and> resets c' = 1"
  using stats_reset_clears [OF demo_ctrl_fit, of 1 200 "demo_times False" "\<lambda>t. (if t < 150 then 7 else 8, 0, 5)"]
  by (auto simp: demo_ctrl_def demo_times_def resets_def sub32_def u32_of_int_def)

end
