(* ===== verification/LoadTable.thy ===== *)
theory LoadTable
  imports Prelude
begin

text \<open>
  The load table \<open>CLoadTable\<close> (loadtable.h, loadtable.cpp): named items of fixed size in a shared
  memory segment.  The segment holds the length of the used part, then one block for each item, a
  header and its data.  A process keeps the places of the items it has registered in a map.

  The results of the system calls for the segment are inputs; what \<open>shmat\<close> attaches is its bytes.
  A pointer to a segment that is not attached is \<open>None\<close>.  The key is a C string without its
  terminating zero, the null pointer is \<open>None\<close>.  The code is built for 64 bits.
\<close>

definition HEAD_LEN :: nat where "HEAD_LEN = 8"
definition MAX_KEY_LEN :: nat where "MAX_KEY_LEN = 32"

section \<open>Headers\<close>

record block_header =
  bh_key :: bytes
  bh_timestamp :: nat
  bh_flag :: byte
  bh_pad :: byte
  bh_len :: nat

definition header_len :: nat where "header_len = 40"

definition header_bytes :: "block_header \<Rightarrow> bytes" where
  "header_bytes h = bh_key h @ le_bytes 4 (bh_timestamp h) @ [bh_flag h, bh_pad h] @ le_bytes 2 (bh_len h)"

definition block_header_of :: "bytes \<Rightarrow> block_header" where
  "block_header_of b = \<lparr>bh_key = slice b 0 32, bh_timestamp = le_val (slice b 32 4), bh_flag = b ! 36, bh_pad = b ! 37,
     bh_len = le_val (slice b 38 2)\<rparr>"

definition new_header :: "bytes \<Rightarrow> nat \<Rightarrow> block_header" where
  "new_header key len = \<lparr>bh_key = take MAX_KEY_LEN key @ replicate (MAX_KEY_LEN - length key) 0, bh_timestamp = 0, bh_flag = 0,
     bh_pad = 0, bh_len = len\<rparr>"

text \<open>\<open>strcmp\<close> of the bytes from the key on with a C string; \<open>None\<close> is a read behind the header.\<close>

fun strcmp_eq :: "bytes \<Rightarrow> bytes \<Rightarrow> bool option" where
  "strcmp_eq [] ks = None"
| "strcmp_eq (a # as) [] = Some (a = 0)"
| "strcmp_eq (a # as) (k # ks) = (if a = k then strcmp_eq as ks else Some False)"

section \<open>The table\<close>

record item_info =
  it_len :: nat
  it_pos :: nat

record load_table =
  lt_mem :: "bytes option"
  lt_blocksize :: nat
  lt_items :: "bytes \<Rightarrow> item_info option"

text \<open>Whether the segment exists and what attaching it yields; the same for a new one.\<close>

record shm_world =
  sw_found :: bool
  sw_attach :: "bytes option"
  sw_created :: bool
  sw_attach_new :: "bytes option"

definition lt_getmemory :: "shm_world \<Rightarrow> int \<times> bytes option" where
  "lt_getmemory w =
     (if sw_found w then (case sw_attach w of Some m \<Rightarrow> (0, Some m) | None \<Rightarrow> (-1, None))
      else if sw_created w then (case sw_attach_new w of Some m \<Rightarrow> (1, Some m) | None \<Rightarrow> (-2, None))
      else (-3, None))"

definition lt_fini :: "load_table \<Rightarrow> load_table" where
  "lt_fini t = t\<lparr>lt_mem := None\<rparr>"

definition lt_init :: "int \<Rightarrow> shm_world \<Rightarrow> load_table \<Rightarrow> (int \<times> load_table) option" where
  "lt_init shmsize w t =
     (let t = lt_fini t; (ret, m) = lt_getmemory w
      in if ret < 0 then Some (ret, t)
         else (case m of None \<Rightarrow> None
               | Some m \<Rightarrow> do {
                   m \<leftarrow> (if ret > 0 then memwr m 0 (replicate HEAD_LEN 0) else Some m);
                   Some (0, t\<lparr>lt_mem := Some m, lt_blocksize := u32_of_int (shmsize - int HEAD_LEN)\<rparr>)
                 }))"

text \<open>The used part has its length in front; the blocks start behind these four bytes.\<close>

definition lt_tail :: "bytes \<Rightarrow> nat option" where
  "lt_tail m = map_option le_val (memrd m 0 4)"

function lt_find_loop :: "bytes \<Rightarrow> nat \<Rightarrow> bytes \<Rightarrow> nat \<Rightarrow> (nat \<times> nat) option" where
  "lt_find_loop m used key pos =
     (if pos < used
      then (case memrd m (4 + pos) header_len of None \<Rightarrow> None
            | Some b \<Rightarrow>
                (case strcmp_eq b key of None \<Rightarrow> None
                 | Some same \<Rightarrow>
                     if same \<and> pos + header_len + bh_len (block_header_of b) \<le> used then Some (pos + header_len, bh_len (block_header_of b))
                     else lt_find_loop m used key (pos + header_len + bh_len (block_header_of b))))
      else Some (0, 0))"
  by pat_completeness auto
termination by (relation "measure (\<lambda>(m, used, key, pos). used - pos)") (auto simp: header_len_def)

declare lt_find_loop.simps [simp del]

definition lt_findblock :: "bytes \<Rightarrow> nat \<Rightarrow> bytes \<Rightarrow> (nat \<times> nat) option" where
  "lt_findblock m blocksize key = do {
     used \<leftarrow> lt_tail m;
     if used = 0 \<or> blocksize \<le> used then Some (0, 0) else lt_find_loop m used key 0
   }"

definition Init_LoadItem :: "bytes option \<Rightarrow> nat \<Rightarrow> load_table \<Rightarrow> (int \<times> load_table) option" where
  "Init_LoadItem key len t =
     (case key of None \<Rightarrow> Some (0, t)
      | Some k \<Rightarrow>
          (case lt_items t k of Some it \<Rightarrow> Some (int (it_len it), t)
           | None \<Rightarrow> do {
               m \<leftarrow> lt_mem t;
               (off, buflen) \<leftarrow> lt_findblock m (lt_blocksize t) k;
               if off > 0 \<and> buflen > 0
               then Some (int buflen, t\<lparr>lt_items := (lt_items t)(k \<mapsto> \<lparr>it_len = buflen, it_pos = off\<rparr>)\<rparr>)
               else do {
                 used \<leftarrow> lt_tail m;
                 if add32 (add32 used header_len) len > lt_blocksize t then Some (0, t)
                 else do {
                   m \<leftarrow> memwr m (4 + used) (header_bytes (new_header k len));
                   m \<leftarrow> memwr m (4 + used + header_len) (replicate len 0);
                   m \<leftarrow> memwr m 0 (le_bytes 4 (add32 (add32 used header_len) len));
                   Some (int len, t\<lparr>lt_mem := Some m, lt_items := (lt_items t)(k \<mapsto> \<lparr>it_len = len, it_pos = add32 used header_len\<rparr>)\<rparr>)
                 }
               }
             }))"

text \<open>
  The buffer of the caller has \<open>buf_len\<close> bytes, but the whole item is copied: when it does not
  fit, the result is \<open>None\<close>.
\<close>

definition lt_read :: "nat \<Rightarrow> bytes option \<Rightarrow> nat \<Rightarrow> nat \<Rightarrow> load_table \<Rightarrow> (int \<times> bytes) option" where
  "lt_read buf_len key timeout now t =
     (case key of None \<Rightarrow> Some (0, [])
      | Some k \<Rightarrow>
          (case lt_items t k of None \<Rightarrow> Some (-1, [])
           | Some it \<Rightarrow> do {
               m \<leftarrow> lt_mem t;
               used \<leftarrow> lt_tail m;
               if add32 (it_pos it) (it_len it) > used then Some (0, [])
               else do {
                 b \<leftarrow> memrd m (4 + (it_pos it - header_len)) header_len;
                 if sub32 now (bh_timestamp (block_header_of b)) > timeout then Some (0, [])
                 else do {
                   d \<leftarrow> memrd m (4 + it_pos it) (it_len it);
                   if it_len it \<le> buf_len then Some (int (min (it_len it) buf_len), d) else None
                 }
               }
             }))"

definition lt_write :: "bytes option \<Rightarrow> bytes \<Rightarrow> nat \<Rightarrow> load_table \<Rightarrow> (int \<times> load_table) option" where
  "lt_write key buf now t =
     (case key of None \<Rightarrow> Some (0, t)
      | Some k \<Rightarrow>
          (case lt_items t k of None \<Rightarrow> Some (-1, t)
           | Some it \<Rightarrow> do {
               m \<leftarrow> lt_mem t;
               used \<leftarrow> lt_tail m;
               if add32 (it_pos it) (it_len it) > used then Some (0, t)
               else do {
                 b \<leftarrow> memrd m (4 + (it_pos it - header_len)) header_len;
                 m \<leftarrow> memwr m (4 + (it_pos it - header_len)) (header_bytes ((block_header_of b)\<lparr>bh_timestamp := now\<rparr>));
                 let n = (if it_len it > length buf then length buf else it_len it);
                 m \<leftarrow> memwr m (4 + it_pos it) (take n buf);
                 Some (int n, t\<lparr>lt_mem := Some m\<rparr>)
               }
             }))"

end
