(* ===== verification/LoadTableTheorems.thy ===== *)
theory LoadTableTheorems
  imports LoadTable
begin

text \<open>
  The load table as a list of named items: what the segment holds, that every operation of any
  process keeps it so, and that all processes see the same items.
\<close>

section \<open>Parts of a memory area\<close>

lemma memrd_app: "length pre = p \<Longrightarrow> length xs = n \<Longrightarrow> memrd (pre @ xs @ post) p n = Some xs"
  by (auto simp: memrd_def)

lemma memwr_app: "length pre = p \<Longrightarrow> length old = length xs \<Longrightarrow> memwr (pre @ old @ post) p xs = Some (pre @ xs @ post)"
  by (auto simp: memwr_def)

section \<open>What the segment holds\<close>

type_synonym lt_item = "bytes \<times> nat \<times> bytes"

text \<open>A key that fits with its terminating zero.\<close>

definition key_ok :: "bytes \<Rightarrow> bool" where
  "key_ok k \<longleftrightarrow> length k < MAX_KEY_LEN \<and> 0 \<notin> set k"

fun item_ok :: "lt_item \<Rightarrow> bool" where
  "item_ok (k, ts, d) \<longleftrightarrow> key_ok k \<and> ts < 2 ^ 32 \<and> d \<noteq> [] \<and> length d < 2 ^ 16"

fun item_header :: "lt_item \<Rightarrow> block_header" where
  "item_header (k, ts, d) = (new_header k (length d))\<lparr>bh_timestamp := ts\<rparr>"

definition block_of :: "lt_item \<Rightarrow> bytes" where
  "block_of x = header_bytes (item_header x) @ snd (snd x)"

definition image_of :: "lt_item list \<Rightarrow> bytes" where
  "image_of xs = concat (map block_of xs)"

definition segment_of :: "lt_item list \<Rightarrow> bytes \<Rightarrow> bytes" where
  "segment_of xs rest = le_bytes 4 (length (image_of xs)) @ image_of xs @ rest"

definition keys_of :: "lt_item list \<Rightarrow> bytes list" where
  "keys_of xs = map fst xs"

definition lt_rep :: "nat \<Rightarrow> bytes \<Rightarrow> lt_item list \<Rightarrow> bool" where
  "lt_rep B m xs \<longleftrightarrow> (\<exists>rest. m = segment_of xs rest) \<and> length m = B + HEAD_LEN \<and> B < 2 ^ 31 \<and> length (image_of xs) \<le> B \<and>
     (\<forall>x\<in>set xs. item_ok x) \<and> distinct (keys_of xs)"

text \<open>The data of an item, and its place, which a process that has registered it knows.\<close>

definition look :: "lt_item list \<Rightarrow> bytes \<Rightarrow> bytes option" where
  "look xs = map_of (map (\<lambda>(k, ts, d). (k, d)) xs)"

definition place :: "lt_item list \<Rightarrow> bytes \<Rightarrow> item_info option" where
  "place xs k = (case look xs k of None \<Rightarrow> None
     | Some d \<Rightarrow> Some \<lparr>it_len = length d, it_pos = length (image_of (takeWhile (\<lambda>x. fst x \<noteq> k) xs)) + header_len\<rparr>)"

definition places_ok :: "lt_item list \<Rightarrow> (bytes \<Rightarrow> item_info option) \<Rightarrow> bool" where
  "places_ok xs its \<longleftrightarrow> (\<forall>k it. its k = Some it \<longrightarrow> place xs k = Some it)"

lemma length_new_key: "key_ok k \<Longrightarrow> length (take MAX_KEY_LEN k @ replicate (MAX_KEY_LEN - length k) 0) = 32"
  by (simp add: key_ok_def MAX_KEY_LEN_def)

lemma header_parts:
  assumes "key_ok k"
  shows "header_bytes (item_header (k, ts, d)) = k @ replicate (32 - length k) 0 @ le_bytes 4 ts @ [0, 0] @ le_bytes 2 (length d)"
    "length (header_bytes (item_header (k, ts, d))) = 40"
  using assms by (simp_all add: header_bytes_def new_header_def key_ok_def MAX_KEY_LEN_def)

lemma block_header_of_bytes:
  assumes "item_ok (k, ts, d)"
  shows "block_header_of (header_bytes (item_header (k, ts, d))) = item_header (k, ts, d)"
proof -
  have k: "key_ok k" "length k < 32" using assms by (simp_all add: key_ok_def MAX_KEY_LEN_def)
  let ?k = "k @ replicate (32 - length k) 0"
  have l: "length ?k = 32" using k by simp
  have b: "header_bytes (item_header (k, ts, d)) = ?k @ le_bytes 4 ts @ [0, 0] @ le_bytes 2 (length d)" using header_parts(1) [OF k(1)] by simp
  have 1: "slice (?k @ le_bytes 4 ts @ [0, 0] @ le_bytes 2 (length d)) 0 32 = ?k" using l unfolding slice_def by simp
  have 2: "slice (?k @ le_bytes 4 ts @ [0, 0] @ le_bytes 2 (length d)) 32 4 = le_bytes 4 ts" using l unfolding slice_def by simp
  have 3: "slice (?k @ le_bytes 4 ts @ [0, 0] @ le_bytes 2 (length d)) 38 2 = le_bytes 2 (length d)" using l unfolding slice_def by simp
  have 4: "(?k @ le_bytes 4 ts @ [0, 0] @ le_bytes 2 (length d)) ! 36 = 0" "(?k @ le_bytes 4 ts @ [0, 0] @ le_bytes 2 (length d)) ! 37 = 0"
    using k(2) by (auto simp: nth_append)
  have "le_val (le_bytes 4 ts) = ts" "le_val (le_bytes 2 (length d)) = length d" using assms by (simp_all add: codec_simps)
  then show ?thesis using k(2) unfolding b block_header_of_def 1 2 3 4 by (simp add: new_header_def MAX_KEY_LEN_def)
qed

lemma strcmp_padded:
  "0 \<notin> set k \<Longrightarrow> 0 \<notin> set key \<Longrightarrow> strcmp_eq (k @ 0 # rest) key = Some (k = key)"
proof (induction k arbitrary: key)
  case Nil
  then show ?case by (cases key) auto
next
  case (Cons a k)
  then show ?case by (cases key) auto
qed

lemma strcmp_header:
  assumes "key_ok k" "key_ok key"
  shows "strcmp_eq (header_bytes (item_header (k, ts, d))) key = Some (k = key)"
proof -
  obtain n where n: "32 - length k = Suc n" using assms(1) by (cases "32 - length k") (simp_all add: key_ok_def MAX_KEY_LEN_def)
  then show ?thesis using assms strcmp_padded [of k key] unfolding header_parts(1) [OF assms(1)] n by (simp add: key_ok_def)
qed

lemma image_simps [simp]: "image_of [] = []" "image_of (x # xs) = block_of x @ image_of xs" "image_of (xs @ ys) = image_of xs @ image_of ys"
  by (simp_all add: image_of_def)

lemma length_block: "item_ok (k, ts, d) \<Longrightarrow> length (block_of (k, ts, d)) = 40 + length d"
  by (simp add: block_of_def header_parts(2) del: item_header.simps)

section \<open>Searching\<close>

lemma find_loop_image:
  assumes "m = segment_of (as @ xs) rest" "\<forall>x\<in>set (as @ xs). item_ok x" "key_ok key" "used = length (image_of (as @ xs))"
  shows "lt_find_loop m used key (length (image_of as)) =
    Some (case look xs key of None \<Rightarrow> (0, 0)
      | Some d \<Rightarrow> (length (image_of (as @ takeWhile (\<lambda>x. fst x \<noteq> key) xs)) + 40, length d))"
  using assms
proof (induction xs arbitrary: as)
  case Nil
  then show ?case by (simp add: lt_find_loop.simps look_def)
next
  case (Cons x xs)
  obtain k ts d where x: "x = (k, ts, d)" by (cases x)
  have ok: "item_ok (k, ts, d)" using Cons.prems(2) x by simp
  then have k: "key_ok k" by simp
  let ?h = "header_bytes (item_header (k, ts, d))"
  have "m = (le_bytes 4 (length (image_of (as @ x # xs))) @ image_of as) @ ?h @ (d @ image_of xs @ rest)"
    using Cons.prems(1) x by (simp add: segment_of_def block_of_def del: item_header.simps)
  then have rd: "memrd m (4 + length (image_of as)) header_len = Some ?h"
    using memrd_app [of "le_bytes 4 (length (image_of (as @ x # xs))) @ image_of as" _ ?h 40] header_parts(2) [OF k]
    by (simp add: header_len_def del: item_header.simps)
  have len: "bh_len (block_header_of ?h) = length d" unfolding block_header_of_bytes [OF ok] by (simp add: new_header_def)
  have u: "used = length (image_of as) + 40 + length d + length (image_of xs)" using Cons.prems(4) x length_block [OF ok] by simp
  show ?case
  proof (cases "k = key")
    case True
    then show ?thesis using rd strcmp_header [OF k Cons.prems(3), of ts d] len u x
      by (subst lt_find_loop.simps) (simp add: header_len_def look_def del: item_header.simps)
  next
    case False
    have "lt_find_loop m used key (length (image_of as)) = lt_find_loop m used key (length (image_of (as @ [x])))"
      using rd strcmp_header [OF k Cons.prems(3), of ts d] len u x False length_block [OF ok]
      by (subst lt_find_loop.simps) (simp add: header_len_def add.assoc del: item_header.simps)
    also have "\<dots> = Some (case look xs key of None \<Rightarrow> (0, 0)
      | Some d \<Rightarrow> (length (image_of ((as @ [x]) @ takeWhile (\<lambda>x. fst x \<noteq> key) xs)) + 40, length d))"
      using Cons.prems by (intro Cons.IH) simp_all
    finally show ?thesis using x False by (simp add: add.assoc look_def split: option.split)
  qed
qed


section \<open>Lists of items\<close>

lemma look_split:
  assumes "look xs k = Some d"
  shows "\<exists>as ts cs. xs = as @ (k, ts, d) # cs \<and> takeWhile (\<lambda>x. fst x \<noteq> k) xs = as \<and> k \<notin> set (keys_of as)"
  using assms
proof (induction xs)
  case (Cons x xs)
  obtain k' ts' d' where x: "x = (k', ts', d')" by (cases x)
  show ?case
  proof (cases "k' = k")
    case True
    then show ?thesis using Cons.prems x by (intro exI [of _ "[]"] exI [of _ ts'] exI [of _ xs]) (simp add: look_def keys_of_def)
  next
    case False
    then obtain as ts cs where "xs = as @ (k, ts, d) # cs" "takeWhile (\<lambda>x. fst x \<noteq> k) xs = as" "k \<notin> set (keys_of as)"
      using Cons x by (auto simp: look_def)
    then show ?thesis using x False by (intro exI [of _ "x # as"] exI [of _ ts] exI [of _ cs]) (simp add: keys_of_def)
  qed
qed (simp add: look_def)

lemma look_None: "look xs k = None \<longleftrightarrow> k \<notin> set (keys_of xs)"
  by (auto simp: look_def keys_of_def map_of_eq_None_iff image_image split_beta)

lemma look_append: "look (xs @ ys) k = (case look xs k of None \<Rightarrow> look ys k | Some d \<Rightarrow> Some d)"
  by (auto simp: look_def map_add_def split: option.splits)

lemma takeWhile_key: "k \<in> set (keys_of xs) \<Longrightarrow> takeWhile (\<lambda>x. fst x \<noteq> k) (xs @ ys) = takeWhile (\<lambda>x. fst x \<noteq> k) xs"
  unfolding keys_of_def by (induction xs) auto

lemma place_append: "place xs k = Some it \<Longrightarrow> place (xs @ ys) k = Some it"
proof -
  assume p: "place xs k = Some it"
  then obtain d where d: "look xs k = Some d" by (auto simp: place_def split: option.splits)
  then have "k \<in> set (keys_of xs)" using look_None [of xs k] by auto
  then show ?thesis using p d by (simp add: place_def look_append takeWhile_key)
qed

text \<open>Writing an item changes its time and data, not its length.\<close>

definition patch :: "bytes \<Rightarrow> bytes \<Rightarrow> bytes" where
  "patch buf d = take (min (length buf) (length d)) buf @ drop (min (length buf) (length d)) d"

definition put_item :: "bytes \<Rightarrow> nat \<Rightarrow> bytes \<Rightarrow> lt_item list \<Rightarrow> lt_item list" where
  "put_item k now buf = map (\<lambda>(k', ts, d). if k' = k then (k', now, patch buf d) else (k', ts, d))"

lemma length_patch [simp]: "length (patch buf d) = length d"
  by (simp add: patch_def)

lemma keys_put [simp]: "keys_of (put_item k now buf xs) = keys_of xs"
  by (auto simp: keys_of_def put_item_def)

lemma put_other: "k \<notin> set (keys_of xs) \<Longrightarrow> put_item k now buf xs = xs"
  by (induction xs) (auto simp: put_item_def keys_of_def)

lemma put_split:
  assumes "distinct (keys_of (as @ (k, ts, d) # cs))"
  shows "put_item k now buf (as @ (k, ts, d) # cs) = as @ (k, now, patch buf d) # cs"
proof -
  have "k \<notin> set (keys_of as)" "k \<notin> set (keys_of cs)" using assms by (auto simp: keys_of_def)
  then have "put_item k now buf as = as" "put_item k now buf cs = cs" by (simp_all add: put_other)
  then show ?thesis by (simp add: put_item_def)
qed

lemma item_ok_patch: "item_ok (k, ts, d) \<Longrightarrow> now < 2 ^ 32 \<Longrightarrow> item_ok (k, now, patch buf d)"
  by (metis item_ok.simps length_0_conv length_patch)

lemma look_put: "look (put_item k now buf xs) j = map_option (\<lambda>d. if j = k then patch buf d else d) (look xs j)"
  by (induction xs) (auto simp: look_def put_item_def)

lemma length_block_put: "length (block_of (k', now, patch buf d)) = length (block_of (k', ts, d))"
  by (simp add: block_of_def header_bytes_def new_header_def)

lemma place_put: "place (put_item k now buf xs) = place xs"
proof
  fix j
  have "length (image_of (takeWhile (\<lambda>x. fst x \<noteq> j) (put_item k now buf xs))) = length (image_of (takeWhile (\<lambda>x. fst x \<noteq> j) xs))"
  proof (induction xs)
    case (Cons x xs)
    obtain k' ts d where x: "x = (k', ts, d)" by (cases x)
    then show ?case using Cons length_block_put [of k now buf d ts] by (cases "k' = k"; cases "k' = j") (simp_all add: put_item_def)
  qed (simp add: put_item_def)
  then show "place (put_item k now buf xs) j = place xs j" by (auto simp: place_def look_put split: option.splits)
qed


section \<open>Operations\<close>

abbreviation (input) table :: "bytes \<Rightarrow> nat \<Rightarrow> (bytes \<Rightarrow> item_info option) \<Rightarrow> load_table" where
  "table m B its \<equiv> \<lparr>lt_mem = Some m, lt_blocksize = B, lt_items = its\<rparr>"

lemma rep_tail: "lt_rep B m xs \<Longrightarrow> lt_tail m = Some (length (image_of xs))"
  using memrd_app [of "[]" 0 "le_bytes 4 (length (image_of xs))" 4]
  by (auto simp: lt_rep_def segment_of_def lt_tail_def codec_simps)

lemma rep_find:
  assumes "lt_rep B m xs" "key_ok k"
  shows "lt_findblock m B k = Some (case look xs k of None \<Rightarrow> (0, 0)
    | Some d \<Rightarrow> if length (image_of xs) = B then (0, 0) else (length (image_of (takeWhile (\<lambda>x. fst x \<noteq> k) xs)) + header_len, length d))"
proof -
  obtain rest where m: "m = segment_of ([] @ xs) rest" "length (image_of xs) \<le> B" "\<forall>x\<in>set ([] @ xs). item_ok x"
    using assms(1) by (auto simp: lt_rep_def)
  have l: "lt_find_loop m (length (image_of xs)) k 0 = Some (case look xs k of None \<Rightarrow> (0, 0)
      | Some d \<Rightarrow> (length (image_of (takeWhile (\<lambda>x. fst x \<noteq> k) xs)) + 40, length d))"
    using find_loop_image [OF m(1,3) assms(2) refl] by (simp split: option.split)
  have "look xs k = None" if "length (image_of xs) = 0"
  proof (cases xs)
    case (Cons x ys)
    obtain k ts d where "x = (k, ts, d)" by (cases x)
    then show ?thesis using that Cons m(3) length_block [of k ts d] by simp
  qed (simp add: look_def)
  then show ?thesis using l rep_tail [OF assms(1)] m(2) by (auto simp: lt_findblock_def header_len_def split: option.splits)
qed

lemma rep_room:
  assumes "lt_rep B m xs" "length (image_of xs) + 40 + len \<le> B" "key_ok k" "0 < len" "len < 2 ^ 16" "look xs k = None"
  shows "\<exists>m1 m2 m3. memwr m (4 + length (image_of xs)) (header_bytes (new_header k len)) = Some m1 \<and>
    memwr m1 (4 + length (image_of xs) + header_len) (replicate len 0) = Some m2 \<and>
    memwr m2 0 (le_bytes 4 (length (image_of xs) + 40 + len)) = Some m3 \<and> lt_rep B m3 (xs @ [(k, 0, replicate len 0)])"
proof -
  let ?new = "(k, 0, replicate len 0) :: lt_item"
  obtain rest where m: "m = segment_of xs rest" "length m = B + HEAD_LEN" "B < 2 ^ 31" "length (image_of xs) \<le> B" "\<forall>x\<in>set xs. item_ok x"
      "distinct (keys_of xs)" using assms(1) by (auto simp: lt_rep_def)
  let ?h = "header_bytes (new_header k len)"
  have h: "?h = header_bytes (item_header ?new)" "length ?h = 40" using header_parts(2) [OF assms(3), of 0 "replicate len 0"]
    by (simp_all add: new_header_def)
  have r: "40 + len \<le> length rest" using m(1,2) assms(2) by (simp add: segment_of_def HEAD_LEN_def)
  obtain r1 r2 r3 where rest: "rest = r1 @ r2 @ r3" "length r1 = 40" "length r2 = len"
    using r append_take_drop_id [of len "drop 40 rest"] by (intro that [of "take 40 rest" "take len (drop 40 rest)" "drop len (drop 40 rest)"]) simp_all
  let ?t = "le_bytes 4 (length (image_of xs))" and ?u = "le_bytes 4 (length (image_of xs) + 40 + len)"
  have 1: "memwr m (4 + length (image_of xs)) ?h = Some ((?t @ image_of xs) @ ?h @ r2 @ r3)"
    using memwr_app [of "?t @ image_of xs" "4 + length (image_of xs)" r1 ?h "r2 @ r3"] rest h(2) m(1) by (simp add: segment_of_def)
  have 2: "memwr ((?t @ image_of xs) @ ?h @ r2 @ r3) (4 + length (image_of xs) + header_len) (replicate len 0) =
      Some ((?t @ image_of xs @ ?h) @ replicate len 0 @ r3)"
    using memwr_app [of "?t @ image_of xs @ ?h" "4 + length (image_of xs) + header_len" r2 "replicate len 0" r3] rest h(2)
    by (simp add: header_len_def)
  have 3: "memwr ((?t @ image_of xs @ ?h) @ replicate len 0 @ r3) 0 ?u = Some (?u @ image_of xs @ ?h @ replicate len 0 @ r3)"
    using memwr_app [of "[]" 0 ?t ?u "image_of xs @ ?h @ replicate len 0 @ r3"] by simp
  have "?u @ image_of xs @ ?h @ replicate len 0 @ r3 = segment_of (xs @ [?new]) r3"
    using h by (simp add: segment_of_def block_of_def add.assoc del: item_header.simps)
  moreover have "length (?u @ image_of xs @ ?h @ replicate len 0 @ r3) = B + HEAD_LEN"
    using m(1,2) rest h(2) by (simp add: segment_of_def)
  moreover have "length (image_of (xs @ [?new])) \<le> B" using assms(2-5) length_block [of k 0 "replicate len 0"] by simp
  moreover have "\<forall>x\<in>set (xs @ [?new]). item_ok x" "distinct (keys_of (xs @ [?new]))"
    using m(5,6) assms(3-6) look_None by (auto simp: keys_of_def)
  ultimately have "lt_rep B (?u @ image_of xs @ ?h @ replicate len 0 @ r3) (xs @ [?new])" using m(3) unfolding lt_rep_def by auto
  then show ?thesis using 1 2 3 by blast
qed

lemma rep_item:
  assumes "lt_rep B m xs" "place xs k = Some it"
  shows "\<exists>as ts d cs rest. xs = as @ (k, ts, d) # cs \<and> look xs k = Some d \<and> it_len it = length d \<and> it_pos it = length (image_of as) + 40 \<and>
    item_ok (k, ts, d) \<and> it_pos it + length d \<le> length (image_of xs) \<and>
    m = (le_bytes 4 (length (image_of xs)) @ image_of as) @ header_bytes (item_header (k, ts, d)) @ d @ image_of cs @ rest"
proof -
  obtain d where d: "look xs k = Some d" "it = \<lparr>it_len = length d, it_pos = length (image_of (takeWhile (\<lambda>x. fst x \<noteq> k) xs)) + header_len\<rparr>"
    using assms(2) by (auto simp: place_def split: option.splits)
  obtain as ts cs where s: "xs = as @ (k, ts, d) # cs" "takeWhile (\<lambda>x. fst x \<noteq> k) xs = as" using look_split [OF d(1)] by blast
  obtain rest where m: "m = segment_of xs rest" "\<forall>x\<in>set xs. item_ok x" using assms(1) by (auto simp: lt_rep_def)
  have ok: "item_ok (k, ts, d)" using m(2) s(1) by simp
  have "m = (le_bytes 4 (length (image_of xs)) @ image_of as) @ header_bytes (item_header (k, ts, d)) @ d @ image_of cs @ rest"
    using m(1) s(1) by (simp add: segment_of_def block_of_def del: item_header.simps)
  moreover have "it_pos it + length d \<le> length (image_of xs)" using d(2) s length_block [OF ok] by (simp add: header_len_def)
  ultimately show ?thesis using s d ok by (intro exI [of _ as] exI [of _ ts] exI [of _ d] exI [of _ cs] exI [of _ rest]) (simp add: header_len_def)
qed

lemma rep_header:
  assumes "m = (le_bytes 4 n @ image_of as) @ header_bytes (item_header (k, ts, d)) @ d @ post" "item_ok (k, ts, d)"
  shows "memrd m (4 + length (image_of as)) header_len = Some (header_bytes (item_header (k, ts, d)))"
    "memrd m (4 + (length (image_of as) + 40)) (length d) = Some d"
proof -
  let ?h = "header_bytes (item_header (k, ts, d))"
  have h: "length ?h = 40" using assms(2) header_parts(2) by simp
  show "memrd m (4 + length (image_of as)) header_len = Some ?h"
    using memrd_app [of "le_bytes 4 n @ image_of as" "4 + length (image_of as)" ?h 40 "d @ post"] h assms(1)
    by (simp add: header_len_def del: item_header.simps)
  show "memrd m (4 + (length (image_of as) + 40)) (length d) = Some d"
    using memrd_app [of "le_bytes 4 n @ image_of as @ ?h" "4 + (length (image_of as) + 40)" d "length d" post] h assms(1)
    by (simp del: item_header.simps)
qed

lemma read_rep:
  assumes "lt_rep B m xs" "place xs k = Some it" "its k = Some it" "look xs k = Some d"
  shows "\<exists>as ts cs. xs = as @ (k, ts, d) # cs \<and> lt_read cap (Some k) timeout now (table m B its) =
    (if sub32 now ts > timeout then Some (0, []) else if length d \<le> cap then Some (int (length d), d) else None)"
proof -
  obtain as ts d' cs rest where s: "xs = as @ (k, ts, d') # cs" "look xs k = Some d'" "it_len it = length d'" "it_pos it = length (image_of as) + 40"
    "item_ok (k, ts, d')" "it_pos it + length d' \<le> length (image_of xs)"
    "m = (le_bytes 4 (length (image_of xs)) @ image_of as) @ header_bytes (item_header (k, ts, d')) @ d' @ image_of cs @ rest"
    using rep_item [OF assms(1,2)] by blast
  have d: "d' = d" using s(2) assms(4) by simp
  have b: "length (image_of xs) < 2 ^ 31" using assms(1) by (auto simp: lt_rep_def)
  note h = rep_header [OF s(7,5)]
  have "bh_timestamp (block_header_of (header_bytes (item_header (k, ts, d')))) = ts" unfolding block_header_of_bytes [OF s(5)] by simp
  then show ?thesis using s(1,3,4,6) assms(3) h rep_tail [OF assms(1)] b
    by (intro exI [of _ as] exI [of _ ts] exI [of _ cs]) (simp add: lt_read_def header_len_def d del: item_header.simps)
qed

lemma write_rep:
  assumes "lt_rep B m xs" "place xs k = Some it" "its k = Some it" "look xs k = Some d" "now < 2 ^ 32"
  shows "\<exists>m'. lt_write (Some k) buf now (table m B its) = Some (int (min (length buf) (length d)), table m' B its) \<and>
    lt_rep B m' (put_item k now buf xs)"
proof -
  obtain as ts d' cs rest where s: "xs = as @ (k, ts, d') # cs" "look xs k = Some d'" "it_len it = length d'" "it_pos it = length (image_of as) + 40"
    "item_ok (k, ts, d')" "it_pos it + length d' \<le> length (image_of xs)"
    "m = (le_bytes 4 (length (image_of xs)) @ image_of as) @ header_bytes (item_header (k, ts, d')) @ d' @ image_of cs @ rest"
    using rep_item [OF assms(1,2)] by blast
  have d: "d' = d" using s(2) assms(4) by simp
  have r: "length m = B + HEAD_LEN" "B < 2 ^ 31" "length (image_of xs) \<le> B" "\<forall>x\<in>set xs. item_ok x" "distinct (keys_of xs)"
    using assms(1) by (auto simp: lt_rep_def)
  let ?t = "le_bytes 4 (length (image_of xs))" and ?h = "header_bytes (item_header (k, ts, d))" and ?h' = "header_bytes (item_header (k, now, d))"
  let ?n = "min (length buf) (length d)"
  have ok: "item_ok (k, ts, d)" using s(5) d by simp
  have m: "m = (?t @ image_of as) @ ?h @ d @ image_of cs @ rest" using s(7) d by simp
  have l: "length ?h = 40" "length ?h' = 40" using ok header_parts(2) by simp_all
  have hh: "(block_header_of ?h)\<lparr>bh_timestamp := now\<rparr> = item_header (k, now, d)" unfolding block_header_of_bytes [OF ok] by simp
  have 1: "memwr m (4 + length (image_of as)) ?h' = Some ((?t @ image_of as) @ ?h' @ d @ image_of cs @ rest)"
    using memwr_app [of "?t @ image_of as" "4 + length (image_of as)" ?h ?h' "d @ image_of cs @ rest"] l m by simp
  have "memwr (?t @ image_of as @ ?h' @ d @ image_of cs @ rest) (4 + (length (image_of as) + 40)) (take ?n buf) =
      Some ((?t @ image_of as @ ?h') @ take ?n buf @ (drop ?n d @ image_of cs @ rest))"
    using memwr_app [of "?t @ image_of as @ ?h'" "4 + (length (image_of as) + 40)" "take ?n d" "take ?n buf" "drop ?n d @ image_of cs @ rest"] l
    by (simp del: item_header.simps)
  then have 2: "memwr ((?t @ image_of as) @ ?h' @ d @ image_of cs @ rest) (4 + (length (image_of as) + 40)) (take ?n buf) =
      Some (?t @ image_of as @ ?h' @ patch buf d @ image_of cs @ rest)" by (simp add: patch_def del: item_header.simps)
  define m' where "m' = ?t @ image_of as @ ?h' @ patch buf d @ image_of cs @ rest"
  have w: "lt_write (Some k) buf now (table m B its) = Some (int ?n, table m' B its)"
  proof (cases "length buf < length d")
    case True
    then have n: "?n = length buf" by simp
    show ?thesis using s(3,4,6) assms(3) rep_header(1) [OF m ok] rep_tail [OF assms(1)] r(2,3) 1 2 hh True
      unfolding n by (simp add: lt_write_def header_len_def d m'_def del: item_header.simps)
  next
    case False
    then have n: "?n = length d" by simp
    show ?thesis using s(3,4,6) assms(3) rep_header(1) [OF m ok] rep_tail [OF assms(1)] r(2,3) 1 2 hh False
      unfolding n by (simp add: lt_write_def header_len_def d m'_def Let_def del: item_header.simps)
  qed
  have p: "put_item k now buf xs = as @ (k, now, patch buf d) # cs" using put_split r(5) s(1) d by simp
  have hp: "item_header (k, now, patch buf d) = item_header (k, now, d)" by simp
  have len: "length (image_of (put_item k now buf xs)) = length (image_of xs)"
    using p s(1) d length_block_put [of k now buf d ts] by simp
  have "m' = segment_of (put_item k now buf xs) rest"
    unfolding segment_of_def len by (simp add: p block_of_def hp m'_def del: item_header.simps)
  moreover have "length m' = B + HEAD_LEN" using m m'_def l r(1) by (simp del: item_header.simps)
  moreover have "\<forall>x\<in>set (put_item k now buf xs). item_ok x" using r(4) s(1) d item_ok_patch [OF ok assms(5)] p by auto
  ultimately have "lt_rep B m' (put_item k now buf xs)" using r(2,3,5) len unfolding lt_rep_def by auto
  then show ?thesis using w by blast
qed


section \<open>All processes\<close>

text \<open>
  Operations of any processes on one segment of \<open>B\<close> bytes for blocks.  In the specification a
  process knows the keys it has registered, the items are common.
\<close>

datatype lt_op =
    LInit nat bytes nat
  | LRead nat nat bytes nat nat
  | LWrite nat bytes bytes nat

type_synonym lt_sys = "bytes \<times> (nat \<Rightarrow> bytes \<Rightarrow> item_info option)"

fun lt_do :: "nat \<Rightarrow> lt_op \<Rightarrow> lt_sys \<Rightarrow> ((int \<times> bytes) \<times> lt_sys) option" where
  "lt_do B (LInit p k len) (m, its) = do {
     (r, t) \<leftarrow> Init_LoadItem (Some k) len (table m B (its p));
     m' \<leftarrow> lt_mem t;
     Some ((r, []), m', its(p := lt_items t))
   }"
| "lt_do B (LRead p cap k timeout now) (m, its) = map_option (\<lambda>r. (r, m, its)) (lt_read cap (Some k) timeout now (table m B (its p)))"
| "lt_do B (LWrite p k buf now) (m, its) = do {
     (r, t) \<leftarrow> lt_write (Some k) buf now (table m B (its p));
     m' \<leftarrow> lt_mem t;
     Some ((r, []), m', its(p := lt_items t))
   }"

definition used_of :: "lt_item list \<Rightarrow> nat" where
  "used_of xs = sum_list (map (\<lambda>(k, ts, d). 40 + length d) xs)"

definition stamp :: "lt_item list \<Rightarrow> bytes \<Rightarrow> nat" where
  "stamp xs k = the (map_of (map (\<lambda>(k, ts, d). (k, ts)) xs) k)"

type_synonym lt_state = "lt_item list \<times> (nat \<Rightarrow> bytes set)"

fun lt_spec :: "nat \<Rightarrow> lt_op \<Rightarrow> lt_state \<Rightarrow> ((int \<times> bytes) \<times> lt_state) option" where
  "lt_spec B (LInit p k len) (xs, kn) =
     (if key_ok k \<and> 0 < len \<and> len < 2 ^ 16
      then (case look xs k of
              Some d \<Rightarrow> if k \<in> kn p \<or> used_of xs < B then Some ((int (length d), []), xs, kn(p := insert k (kn p))) else Some ((0, []), xs, kn)
            | None \<Rightarrow> if used_of xs + 40 + len \<le> B
                then Some ((int len, []), xs @ [(k, 0, replicate len 0)], kn(p := insert k (kn p))) else Some ((0, []), xs, kn))
      else None)"
| "lt_spec B (LRead p cap k timeout now) (xs, kn) =
     (case (if k \<in> kn p then look xs k else None) of
        None \<Rightarrow> Some ((-1, []), xs, kn)
      | Some d \<Rightarrow> if sub32 now (stamp xs k) > timeout then Some ((0, []), xs, kn)
          else if length d \<le> cap then Some ((int (length d), d), xs, kn) else None)"
| "lt_spec B (LWrite p k buf now) (xs, kn) =
     (if now < 2 ^ 32
      then (case (if k \<in> kn p then look xs k else None) of
              None \<Rightarrow> Some ((-1, []), xs, kn)
            | Some d \<Rightarrow> Some ((int (min (length buf) (length d)), []), put_item k now buf xs, kn))
      else None)"

fun lt_all :: "('o \<Rightarrow> 's \<Rightarrow> ('r \<times> 's) option) \<Rightarrow> 'o list \<Rightarrow> 's \<Rightarrow> ('r list \<times> 's) option" where
  "lt_all f [] s = Some ([], s)"
| "lt_all f (x # xs) s =
     (case f x s of None \<Rightarrow> None | Some (r, s') \<Rightarrow> (case lt_all f xs s' of None \<Rightarrow> None | Some (rs, s'') \<Rightarrow> Some (r # rs, s'')))"

definition lt_sim :: "nat \<Rightarrow> lt_sys \<Rightarrow> lt_state \<Rightarrow> bool" where
  "lt_sim B s a \<longleftrightarrow> lt_rep B (fst s) (fst a) \<and> (\<forall>p. places_ok (fst a) (snd s p) \<and> dom (snd s p) = snd a p)"

lemma used_of_image: "\<forall>x\<in>set xs. item_ok x \<Longrightarrow> used_of xs = length (image_of xs)"
proof (induction xs)
  case (Cons x xs)
  obtain k ts d where "x = (k, ts, d)" by (cases x)
  then show ?case using Cons length_block [of k ts d] by (simp add: used_of_def)
qed (simp add: used_of_def)

lemma places_insert: "places_ok xs its \<Longrightarrow> place xs k = Some it \<Longrightarrow> places_ok xs (its(k \<mapsto> it))"
  by (simp add: places_ok_def)

lemma places_append: "places_ok xs its \<Longrightarrow> places_ok (xs @ ys) its"
  by (simp add: places_ok_def place_append)

lemma stamp_split: "k \<notin> set (keys_of as) \<Longrightarrow> stamp (as @ (k, ts, d) # cs) k = ts"
  by (induction as) (auto simp: stamp_def keys_of_def)

lemma init_sim:
  assumes "lt_sim B (m, its) (xs, kn)" "lt_spec B (LInit p k len) (xs, kn) = Some (r, a')"
  shows "\<exists>s'. lt_do B (LInit p k len) (m, its) = Some (r, s') \<and> lt_sim B s' a'"
proof -
  have rep: "lt_rep B m xs" and pl: "\<And>q. places_ok xs (its q)" and kn: "\<And>q. dom (its q) = kn q" using assms(1) by (auto simp: lt_sim_def)
  have ok: "key_ok k" "0 < len" "len < 2 ^ 16" using assms(2) by (auto split: if_splits)
  have b: "length (image_of xs) \<le> B" "B < 2 ^ 31" "used_of xs = length (image_of xs)" using rep by (auto simp: lt_rep_def used_of_image)
  show ?thesis
  proof (cases "its p k")
    case (Some it)
    then have "place xs k = Some it" using pl by (auto simp: places_ok_def)
    then obtain d where d: "look xs k = Some d" "it_len it = length d" by (auto simp: place_def split: option.splits)
    have "k \<in> kn p" using Some kn [of p] by auto
    then show ?thesis using assms d Some ok by (auto simp: Init_LoadItem_def insert_absorb)
  next
    case None
    then have nk: "k \<notin> kn p" using kn [of p] by auto
    note find = rep_find [OF rep ok(1)]
    have full: "add32 (add32 (length (image_of xs)) header_len) len = length (image_of xs) + 40 + len"
      using b(1,2) ok(3) by (simp add: header_len_def)
    show ?thesis
    proof (cases "look xs k")
      case (Some d)
      then have pk: "place xs k = Some \<lparr>it_len = length d, it_pos = length (image_of (takeWhile (\<lambda>x. fst x \<noteq> k) xs)) + header_len\<rparr>"
        by (simp add: place_def)
      obtain as ts cs where "xs = as @ (k, ts, d) # cs" using look_split [OF Some] by blast
      then have d0: "0 < length d" using rep by (auto simp: lt_rep_def)
      show ?thesis
      proof (cases "length (image_of xs) = B")
        case True
        then have "Init_LoadItem (Some k) len (table m B (its p)) = Some (0, table m B (its p))"
          using None find Some rep_tail [OF rep] full ok(2) by (simp add: Init_LoadItem_def)
        then show ?thesis using assms Some True nk b ok by auto
      next
        case False
        then have "Init_LoadItem (Some k) len (table m B (its p)) =
            Some (int (length d), table m B ((its p)(k \<mapsto> \<lparr>it_len = length d, it_pos = length (image_of (takeWhile (\<lambda>x. fst x \<noteq> k) xs)) + header_len\<rparr>)))"
          using None find Some d0 by (simp add: Init_LoadItem_def header_len_def)
        moreover have "a' = (xs, kn(p := insert k (kn p)))" "r = (int (length d), [])" using assms(2) Some False nk b ok by auto
        ultimately show ?thesis using rep pl kn places_insert [OF pl pk] by (auto simp: lt_sim_def)
      qed
    next
      case new: None
      have find0: "lt_findblock m B k = Some (0, 0)" using find new by simp
      show ?thesis
      proof (cases "length (image_of xs) + 40 + len \<le> B")
        case True
        obtain m1 m2 m3 where w: "memwr m (4 + length (image_of xs)) (header_bytes (new_header k len)) = Some m1"
            "memwr m1 (4 + length (image_of xs) + header_len) (replicate len 0) = Some m2"
            "memwr m2 0 (le_bytes 4 (length (image_of xs) + 40 + len)) = Some m3" "lt_rep B m3 (xs @ [(k, 0, replicate len 0)])"
          using rep_room [OF rep True ok new] by blast
        let ?it = "\<lparr>it_len = len, it_pos = length (image_of xs) + header_len\<rparr>"
        have "add32 (length (image_of xs)) header_len = length (image_of xs) + header_len" using b(1,2) by (simp add: header_len_def)
        then have "Init_LoadItem (Some k) len (table m B (its p)) = Some (int len, table m3 B ((its p)(k \<mapsto> ?it)))"
          using None find0 rep_tail [OF rep] full True w(1-3) by (simp add: Init_LoadItem_def)
        moreover have "a' = (xs @ [(k, 0, replicate len 0)], kn(p := insert k (kn p)))" "r = (int len, [])" using assms(2) new True b ok by auto
        moreover have "place (xs @ [(k, 0, replicate len 0)]) k = Some ?it"
        proof -
          have "takeWhile (\<lambda>x. fst x \<noteq> k) (xs @ [(k, 0, replicate len 0)]) = xs"
            using new unfolding look_None keys_of_def by (induction xs) auto
          then show ?thesis using new by (simp add: place_def look_append) (simp add: look_def)
        qed
        ultimately show ?thesis using w(4) kn places_append [OF pl] places_insert [OF places_append [OF pl]] by (auto simp: lt_sim_def)
      next
        case False
        then have "Init_LoadItem (Some k) len (table m B (its p)) = Some (0, table m B (its p))"
          using None find0 rep_tail [OF rep] full by (simp add: Init_LoadItem_def)
        then show ?thesis using assms new False b ok by auto
      qed
    qed
  qed
qed

lemma access_sim:
  assumes "lt_sim B (m, its) (xs, kn)" "k \<in> kn p"
  shows "\<exists>it d. its p k = Some it \<and> place xs k = Some it \<and> look xs k = Some d"
proof -
  obtain it where "its p k = Some it" using assms by (auto simp: lt_sim_def dom_def)
  moreover have "place xs k = Some it" using assms(1) calculation by (auto simp: lt_sim_def places_ok_def)
  ultimately show ?thesis by (auto simp: place_def split: option.splits)
qed

lemma unknown_sim: "lt_sim B (m, its) (xs, kn) \<Longrightarrow> k \<notin> kn p \<Longrightarrow> its p k = None"
  by (auto simp: lt_sim_def dom_def)

lemma read_sim:
  assumes "lt_sim B (m, its) (xs, kn)" "lt_spec B (LRead p cap k timeout now) (xs, kn) = Some (r, a')"
  shows "\<exists>s'. lt_do B (LRead p cap k timeout now) (m, its) = Some (r, s') \<and> lt_sim B s' a'"
proof (cases "k \<in> kn p")
  case False
  then show ?thesis using assms unknown_sim [OF assms(1) False] by (auto simp: lt_read_def)
next
  case True
  obtain it d where k: "its p k = Some it" "place xs k = Some it" "look xs k = Some d" using access_sim [OF assms(1) True] by blast
  have rep: "lt_rep B m xs" using assms(1) by (simp add: lt_sim_def)
  obtain as ts cs where r: "xs = as @ (k, ts, d) # cs" "lt_read cap (Some k) timeout now (table m B (its p)) =
    (if sub32 now ts > timeout then Some (0, []) else if length d \<le> cap then Some (int (length d), d) else None)"
    using read_rep [where its = "its p", OF rep k(2,1,3)] by blast
  have "k \<notin> set (keys_of as)" using rep r(1) by (auto simp: lt_rep_def keys_of_def)
  then have "stamp xs k = ts" using stamp_split r(1) by simp
  then show ?thesis using assms True k(3) r(2) by (auto split: if_splits)
qed

lemma write_sim:
  assumes "lt_sim B (m, its) (xs, kn)" "lt_spec B (LWrite p k buf now) (xs, kn) = Some (r, a')"
  shows "\<exists>s'. lt_do B (LWrite p k buf now) (m, its) = Some (r, s') \<and> lt_sim B s' a'"
proof (cases "k \<in> kn p")
  case False
  then show ?thesis using assms unknown_sim [OF assms(1) False] by (auto simp: lt_write_def split: if_splits)
next
  case True
  obtain it d where k: "its p k = Some it" "place xs k = Some it" "look xs k = Some d" using access_sim [OF assms(1) True] by blast
  have rep: "lt_rep B m xs" and pl: "\<And>q. places_ok xs (its q)" and kn: "\<And>q. dom (its q) = kn q" using assms(1) by (auto simp: lt_sim_def)
  have now: "now < 2 ^ 32" using assms(2) by (auto split: if_splits)
  obtain m' where w: "lt_write (Some k) buf now (table m B (its p)) = Some (int (min (length buf) (length d)), table m' B (its p))"
    "lt_rep B m' (put_item k now buf xs)" using write_rep [where its = "its p", OF rep k(2,1,3) now] by blast
  have "places_ok (put_item k now buf xs) (its q)" for q using pl [of q] by (simp add: places_ok_def place_put)
  then show ?thesis using assms(2) True k(3) w kn now by (auto simp: lt_sim_def)
qed

lemma lt_step_sim:
  assumes "lt_sim B s a" "lt_spec B x a = Some (r, a')"
  shows "\<exists>s'. lt_do B x s = Some (r, s') \<and> lt_sim B s' a'"
proof -
  obtain m its xs kn where sa: "s = (m, its)" "a = (xs, kn)" by (cases s; cases a)
  note sim = assms(1) [unfolded sa] and step = assms(2) [unfolded sa]
  show ?thesis unfolding sa
  proof (cases x)
    case (LInit p k len)
    show "\<exists>s'. lt_do B x (m, its) = Some (r, s') \<and> lt_sim B s' a'" using init_sim [OF sim step [unfolded LInit]] LInit by simp
  next
    case (LRead p cap k timeout now)
    show "\<exists>s'. lt_do B x (m, its) = Some (r, s') \<and> lt_sim B s' a'" using read_sim [OF sim step [unfolded LRead]] LRead by simp
  next
    case (LWrite p k buf now)
    show "\<exists>s'. lt_do B x (m, its) = Some (r, s') \<and> lt_sim B s' a'" using write_sim [OF sim step [unfolded LWrite]] LWrite by simp
  qed
qed

lemma lt_all_sim: "lt_sim B s a \<Longrightarrow> lt_all (lt_spec B) ops a = Some (rs, a') \<Longrightarrow> \<exists>s'. lt_all (lt_do B) ops s = Some (rs, s') \<and> lt_sim B s' a'"
proof (induction ops arbitrary: s a rs)
  case (Cons x ops)
  obtain r a1 rs' where 1: "lt_spec B x a = Some (r, a1)" "lt_all (lt_spec B) ops a1 = Some (rs', a')" "rs = r # rs'"
    using Cons.prems(2) by (auto split: option.splits prod.splits)
  obtain s1 where s1: "lt_do B x s = Some (r, s1)" "lt_sim B s1 a1" using lt_step_sim [OF Cons.prems(1) 1(1)] by blast
  from Cons.IH [OF s1(2) 1(2)] show ?case using s1(1) 1(3) by auto
qed simp

lemma new_segment:
  assumes "length m = B + HEAD_LEN" "B < 2 ^ 31"
  shows "\<exists>m'. memwr m 0 (replicate HEAD_LEN 0) = Some m' \<and> lt_rep B m' []"
proof -
  have eight: "replicate 8 0 = le_bytes 4 0 @ replicate 4 (0 :: byte)" by code_simp
  have "memwr m 0 (replicate HEAD_LEN 0) = Some (replicate HEAD_LEN 0 @ drop HEAD_LEN m)" using assms(1) by (simp add: memwr_def)
  moreover have "replicate HEAD_LEN 0 @ drop HEAD_LEN m = segment_of [] (replicate 4 0 @ drop HEAD_LEN m)"
    using eight by (simp add: segment_of_def image_of_def HEAD_LEN_def)
  moreover have "length (replicate HEAD_LEN 0 @ drop HEAD_LEN m) = B + HEAD_LEN" using assms(1) by simp
  ultimately have "lt_rep B (replicate HEAD_LEN 0 @ drop HEAD_LEN m) []" using assms(2) unfolding lt_rep_def by (auto simp: keys_of_def)
  then show ?thesis using \<open>memwr m 0 (replicate HEAD_LEN 0) = Some _\<close> by blast
qed


section \<open>Properties\<close>


definition demo_key :: bytes where "demo_key = [99, 112, 117]"


text \<open>
  When the blocks fill the segment exactly, a process that has not registered an item
  before cannot find it any more, although it is there; with any space left it finds it.
\<close>

theorem load_table_full_hides:
  assumes "lt_rep B m xs" "look xs k = Some d" "key_ok k" "0 < len" "len < 2 ^ 16" "its k = None"
  shows "\<exists>its'. Init_LoadItem (Some k) len (table m B its) = Some (if length (image_of xs) = B then 0 else int (length d), table m B its')"
proof -
  have b: "length (image_of xs) \<le> B" "B < 2 ^ 31" using assms(1) by (auto simp: lt_rep_def)
  obtain as ts cs where "xs = as @ (k, ts, d) # cs" using look_split [OF assms(2)] by blast
  then have d0: "0 < length d" using assms(1) by (auto simp: lt_rep_def)
  have full: "add32 (add32 (length (image_of xs)) header_len) len = length (image_of xs) + 40 + len"
    using b assms(5) by (simp add: header_len_def)
  show ?thesis using rep_find [OF assms(1,3)] assms(2,4,6) rep_tail [OF assms(1)] full d0
    by (auto simp: Init_LoadItem_def header_len_def)
qed

theorem load_table_full_hides_witness:
  "\<exists>its. Init_LoadItem (Some demo_key) 1 (table (segment_of [(demo_key, 5, [7])] (replicate 4 0)) 41 Map.empty) =
     Some (0, table (segment_of [(demo_key, 5, [7])] (replicate 4 0)) 41 its)"
proof -
  have k: "key_ok demo_key" by (simp add: key_ok_def demo_key_def MAX_KEY_LEN_def)
  then have ok: "item_ok (demo_key, 5, [7])" by simp
  have l: "length (image_of [(demo_key, 5, [7])]) = 41" using length_block [OF ok] by simp
  then have "length (segment_of [(demo_key, 5, [7])] (replicate 4 0)) = 49" by (simp add: segment_of_def)
  then have "lt_rep 41 (segment_of [(demo_key, 5, [7])] (replicate 4 0)) [(demo_key, 5, [7])]"
    using l ok by (auto simp: lt_rep_def HEAD_LEN_def keys_of_def)
  from load_table_full_hides [OF this _ k, of "[7]" 1 Map.empty] show ?thesis using l by (simp add: look_def)
qed

end
