(* ===== verification/Load.thy ===== *)
theory Load
  imports Prelude "HOL-Library.Signed_Division"
begin

text \<open>
  The load meter \<open>CLoad\<close> (load.h, load.cpp): two grids of counters, one that counts and one that
  holds the last period.  The time of a call, seconds and microseconds, is an input; a counter
  outside its grid is \<open>None\<close>.  The places that call the meter are compiled in only with
  \<open>LOAD_CHECK_ENABLE\<close>.
\<close>

unbundle bit_operations_syntax

definition DEFAULT_MAX_LOAD :: int where "DEFAULT_MAX_LOAD = 65536"
definition DEFAULT_INTERVAL :: int where "DEFAULT_INTERVAL = 5"
definition LOADGRID_NUM :: nat where "LOADGRID_NUM = 2"

text \<open>\<open>ld\_first\<close> says that the current grid is the first one.\<close>

record load_meter =
  ld_maxload :: int
  ld_curtime :: int
  ld_direct :: bool
  ld_first :: bool
  ld_grid :: "32 word list"
  ld_grid2 :: "32 word list"

definition ld_reset :: "load_meter \<Rightarrow> load_meter" where
  "ld_reset l = l\<lparr>ld_grid := replicate LOADGRID_NUM 0, ld_grid2 := replicate LOADGRID_NUM 0, ld_direct := True, ld_first := True\<rparr>"

definition new_load :: "int \<Rightarrow> load_meter \<Rightarrow> load_meter" where
  "new_load maxload l = ld_reset (l\<lparr>ld_curtime := 0, ld_maxload := (if maxload > 0 then maxload else DEFAULT_MAX_LOAD)\<rparr>)"

definition current_grid :: "load_meter \<Rightarrow> 32 word list" where
  "current_grid l = (if ld_first l then ld_grid l else ld_grid2 l)"

definition set_current_grid :: "32 word list \<Rightarrow> load_meter \<Rightarrow> load_meter" where
  "set_current_grid g l = (if ld_first l then l\<lparr>ld_grid := g\<rparr> else l\<lparr>ld_grid2 := g\<rparr>)"

definition ld_trans :: "load_meter \<Rightarrow> load_meter" where
  "ld_trans l =
     (let l = (if ld_direct l then l\<lparr>ld_direct := False, ld_first := False\<rparr> else l\<lparr>ld_direct := True, ld_first := True\<rparr>)
      in set_current_grid (replicate LOADGRID_NUM 0) l)"

definition set_maxload :: "int \<Rightarrow> load_meter \<Rightarrow> int \<times> load_meter" where
  "set_maxload n l = (let l = (if n > 0 then l\<lparr>ld_maxload := n\<rparr> else l) in (ld_maxload l, l))"

definition grow_load :: "32 word \<Rightarrow> nat \<Rightarrow> load_meter \<Rightarrow> load_meter option" where
  "grow_load n usec l =
     (let g = current_grid l; i = usec div (1000000 div LOADGRID_NUM)
      in if i < length g then Some (set_current_grid (g[i := g ! i + n]) l) else None)"

definition int32 :: "int \<Rightarrow> int" where
  "int32 i = s32_of_nat (u32_of_int i)"

definition peek_load :: "int \<Rightarrow> load_meter \<Rightarrow> int \<times> load_meter" where
  "peek_load sec l =
     (let timediff = int32 (sec - ld_curtime l);
          l = (if timediff \<ge> DEFAULT_INTERVAL then (ld_trans l)\<lparr>ld_curtime := int32 (ld_curtime l + timediff)\<rparr> else l);
          grid = (if ld_direct l then ld_grid2 l else ld_grid l)
      in (sint (foldl (+) 0 grid) sdiv DEFAULT_INTERVAL, l))"

definition check_load :: "int \<Rightarrow> load_meter \<Rightarrow> bool \<times> load_meter" where
  "check_load sec l = (case peek_load sec l of (n, l') \<Rightarrow> (n > ld_maxload l', l'))"

section \<open>What the meter shows\<close>

datatype load_op = Grow "32 word" nat | Peek int | Check int

fun load_do :: "load_op \<Rightarrow> load_meter \<Rightarrow> (int \<times> load_meter) option" where
  "load_do (Grow n usec) l = map_option (\<lambda>l. (0, l)) (grow_load n usec l)"
| "load_do (Peek sec) l = Some (peek_load sec l)"
| "load_do (Check sec) l = (case check_load sec l of (b, l') \<Rightarrow> Some (of_bool b, l'))"

text \<open>The specification: the count of this period, that of the last one and the start of this one.\<close>

fun load_turn :: "int \<Rightarrow> 32 word \<times> 32 word \<times> int \<Rightarrow> 32 word \<times> 32 word \<times> int" where
  "load_turn sec (cur, prev, start) = (if int32 (sec - start) \<ge> 5 then (0, cur, int32 (start + int32 (sec - start))) else (cur, prev, start))"

fun load_spec :: "int \<Rightarrow> load_op \<Rightarrow> 32 word \<times> 32 word \<times> int \<Rightarrow> int \<times> 32 word \<times> 32 word \<times> int" where
  "load_spec mx (Grow n usec) (cur, prev, start) = (0, cur + n, prev, start)"
| "load_spec mx (Peek sec) s = (let s' = load_turn sec s in (sint (fst (snd s')) sdiv 5, s'))"
| "load_spec mx (Check sec) s = (let s' = load_turn sec s in (of_bool (sint (fst (snd s')) sdiv 5 > mx), s'))"

definition other_grid :: "load_meter \<Rightarrow> 32 word list" where
  "other_grid l = (if ld_first l then ld_grid2 l else ld_grid l)"

definition load_rep :: "int \<Rightarrow> load_meter \<Rightarrow> 32 word \<times> 32 word \<times> int \<Rightarrow> bool" where
  "load_rep mx l s \<longleftrightarrow> ld_maxload l = mx \<and> ld_direct l = ld_first l \<and> length (ld_grid l) = 2 \<and> length (ld_grid2 l) = 2 \<and>
     s = (sum_list (current_grid l), sum_list (other_grid l), ld_curtime l)"

fun op_in_time :: "load_op \<Rightarrow> bool" where
  "op_in_time (Grow n usec) \<longleftrightarrow> usec < 1000000"
| "op_in_time _ \<longleftrightarrow> True"

lemma sum_zeros [simp]: "sum_list (replicate 2 (0 :: 32 word)) = 0"
  by (simp add: numeral_2_eq_2)

lemma foldl_sum: "foldl (+) a xs = a + sum_list (xs :: 32 word list)"
  by (induction xs arbitrary: a) (simp_all add: add.assoc)

lemma sum_list_grow: "i < length g \<Longrightarrow> sum_list (g[i := g ! i + n]) = sum_list g + (n :: 32 word)"
  by (induction g arbitrary: i) (auto simp: algebra_simps split: nat.split)

lemma current_simps [simp]: "current_grid (set_current_grid g l) = g" "other_grid (set_current_grid g l) = other_grid l"
  by (simp_all add: current_grid_def set_current_grid_def other_grid_def)

lemma trans_rep:
  "load_rep mx l (cur, prev, start) \<Longrightarrow> load_rep mx ((ld_trans l)\<lparr>ld_curtime := t\<rparr>) (0, cur, t)"
  by (auto simp: load_rep_def ld_trans_def set_current_grid_def current_grid_def other_grid_def LOADGRID_NUM_def)

lemma peek_rep:
  assumes "load_rep mx l s"
  shows "\<exists>l'. peek_load sec l = (sint (fst (snd (load_turn sec s))) sdiv 5, l') \<and> load_rep mx l' (load_turn sec s)"
proof -
  obtain cur prev start where s: "s = (cur, prev, start)" by (cases s)
  define l' where "l' = (if int32 (sec - ld_curtime l) \<ge> 5 then (ld_trans l)\<lparr>ld_curtime := int32 (ld_curtime l + int32 (sec - ld_curtime l))\<rparr> else l)"
  have start: "start = ld_curtime l" using assms s by (simp add: load_rep_def)
  have r: "load_rep mx l' (load_turn sec s)" using assms trans_rep [of mx l cur prev start] unfolding l'_def s start by simp
  then have "sum_list (if ld_direct l' then ld_grid2 l' else ld_grid l') = fst (snd (load_turn sec s))"
    by (simp add: load_rep_def other_grid_def)
  then have "peek_load sec l = (sint (fst (snd (load_turn sec s))) sdiv 5, l')"
    by (simp add: peek_load_def DEFAULT_INTERVAL_def l'_def [symmetric] foldl_sum Let_def split: if_splits)
  then show ?thesis using r by blast
qed

lemma load_step_rep:
  assumes "load_rep mx l s" "op_in_time x"
  shows "\<exists>l' s'. load_do x l = Some (fst (load_spec mx x s), l') \<and> snd (load_spec mx x s) = s' \<and> load_rep mx l' s'"
proof (cases x)
  case (Grow n usec)
  obtain cur prev start where s: "s = (cur, prev, start)" by (cases s)
  let ?i = "usec div (1000000 div LOADGRID_NUM)" and ?g = "current_grid l"
  have "?i < length ?g" using assms Grow by (auto simp: load_rep_def LOADGRID_NUM_def current_grid_def)
  moreover have "length (?g[?i := ?g ! ?i + n]) = 2" using assms by (auto simp: load_rep_def current_grid_def)
  moreover have "load_rep mx (set_current_grid (?g[?i := ?g ! ?i + n]) l) (cur + n, prev, start)"
    using assms(1) calculation s sum_list_grow [of ?i ?g n] by (auto simp: load_rep_def) (auto simp: set_current_grid_def)
  ultimately show ?thesis using Grow s by (simp add: grow_load_def Let_def)
next
  case (Peek sec)
  then show ?thesis using peek_rep [OF assms(1), of sec] by (auto simp: Let_def)
next
  case (Check sec)
  obtain l' where l': "peek_load sec l = (sint (fst (snd (load_turn sec s))) sdiv 5, l')" "load_rep mx l' (load_turn sec s)"
    using peek_rep [OF assms(1), of sec] by blast
  have "ld_maxload l' = mx" using l'(2) by (simp add: load_rep_def)
  then show ?thesis using Check l' by (simp add: check_load_def Let_def)
qed

primrec load_specs :: "int \<Rightarrow> load_op list \<Rightarrow> 32 word \<times> 32 word \<times> int \<Rightarrow> int list" where
  "load_specs mx [] s = []"
| "load_specs mx (x # xs) s = fst (load_spec mx x s) # load_specs mx xs (snd (load_spec mx x s))"

fun load_run :: "load_op list \<Rightarrow> load_meter \<Rightarrow> int list option" where
  "load_run [] l = Some []"
| "load_run (x # xs) l = (case load_do x l of None \<Rightarrow> None | Some (r, l') \<Rightarrow> map_option ((#) r) (load_run xs l'))"

lemma load_run_rep: "load_rep mx l s \<Longrightarrow> list_all op_in_time ops \<Longrightarrow> load_run ops l = Some (load_specs mx ops s)"
proof (induction ops arbitrary: l s)
  case (Cons x ops)
  obtain l' where "load_do x l = Some (fst (load_spec mx x s), l')" "load_rep mx l' (snd (load_spec mx x s))"
    using load_step_rep [OF Cons.prems(1)] Cons.prems(2) by auto
  then show ?case using Cons.IH [of l'] Cons.prems(2) by simp
qed simp

text \<open>
  C31: The meter shows the count of the last period divided by five, whatever the grids and their
  turns: for every sequence of counts and looks at a new meter, each result is that of one
  counter for this period and one for the last.  A period ends with the first look that is at
  least five seconds after its start, so a longer one is divided by five as well.
\<close>

theorem load_meter_shows_last_period:
  assumes "list_all op_in_time ops" "0 < mx"
  shows "load_run ops (new_load mx l) = Some (load_specs mx ops (0, 0, 0))"
proof -
  have "load_rep mx (new_load mx l) (0, 0, 0)"
    using assms(2) by (simp add: load_rep_def new_load_def ld_reset_def current_grid_def other_grid_def LOADGRID_NUM_def)
  then show ?thesis using load_run_rep assms(1) by blast
qed

theorem load_meter_shows_last_period_witness:
  "\<exists>rs. load_run [Peek 100, Grow 30 5, Grow 20 700000, Peek 104, Peek 200, Check 201] (new_load 9
      \<lparr>ld_maxload = 0, ld_curtime = 0, ld_direct = False, ld_first = False, ld_grid = [], ld_grid2 = []\<rparr>) = Some rs \<and> rs = [0, 0, 0, 0, 10, 1]"
proof -
  have i: "int32 100 = 100" "int32 4 = 4" "int32 1 = 1" "int32 200 = 200" "int32 104 = 104" by (simp_all add: int32_def)
  have "load_specs 9 [Peek 100, Grow 30 5, Grow 20 700000, Peek 104, Peek 200, Check 201] (0, 0, 0) = [0, 0, 0, 0, 10, 1]"
    by (simp add: i)
  then show ?thesis using load_meter_shows_last_period [of "[Peek 100, Grow 30 5, Grow 20 700000, Peek 104, Peek 200, Check 201]" 9
      "\<lparr>ld_maxload = 0, ld_curtime = 0, ld_direct = False, ld_first = False, ld_grid = [], ld_grid2 = []\<rparr>"] by simp
qed

end
