(* ===== verification/IniFile.thy ===== *)
theory IniFile
  imports CString
begin

text \<open>
  Ini files (\<open>CIniFile\<close>, inifile.h, inifile.cpp): the text of the file in memory, a copy of it in
  lower case that is searched, and the operations that read and change the value of a key in a
  section.  Pointers into the text are positions; behind the text stands a zero.  The loops of
  the search are partial functions: \<open>None\<close> is a search that does not end, or an access outside
  the text.  What the file operations yield is an input.
\<close>

abbreviation (input) NUL :: char where "NUL \<equiv> CHR 0x00"
abbreviation (input) TAB :: char where "TAB \<equiv> CHR 0x09"
abbreviation (input) LF :: char where "LF \<equiv> CHR 0x0A"
abbreviation (input) CR :: char where "CR \<equiv> CHR 0x0D"

record ini =
  ini_filename :: "string option"
  ini_content :: "string option"
  ini_shadow :: "string option"
  ini_open :: bool

definition new_ini :: ini where
  "new_ini = \<lparr>ini_filename = None, ini_content = None, ini_shadow = None, ini_open = False\<rparr>"

definition lower_char :: "char \<Rightarrow> char" where
  "lower_char c = (if 65 \<le> (of_char c :: nat) \<and> of_char c \<le> (90 :: nat) then char_of (of_char c + 32 :: nat) else c)"

definition ToLower :: "string \<Rightarrow> string" where
  "ToLower s = map lower_char s"

definition is_nl :: "char \<Rightarrow> bool" where
  "is_nl c \<longleftrightarrow> c = CR \<or> c = LF"

definition is_blank :: "char \<Rightarrow> bool" where
  "is_blank c \<longleftrightarrow> c = CHR '' '' \<or> c = TAB"

section \<open>Opening\<close>

definition CloseFile :: "ini \<Rightarrow> ini" where
  "CloseFile i = new_ini"

text \<open>
  The file: whether it opens, whether the two seeks succeed, and what is read.  When a seek
  fails the object stays closed, and the buffers are not used.
\<close>

record ini_file =
  if_opens :: bool
  if_seeks :: bool
  if_data :: string

definition OpenFile :: "string option \<Rightarrow> ini_file \<Rightarrow> ini \<Rightarrow> int \<times> ini" where
  "OpenFile name f i =
     (let i = CloseFile i
      in case name of None \<Rightarrow> (-1, i)
         | Some n \<Rightarrow>
             let i = i\<lparr>ini_filename := Some n\<rparr>
             in if \<not> if_opens f \<or> \<not> if_seeks f then (-1, i)
                else (0, i\<lparr>ini_content := Some (if_data f), ini_shadow := Some (ToLower (if_data f)), ini_open := True\<rparr>))"

section \<open>Searching\<close>

text \<open>\<open>strstr\<close>: the first place of a string in the text from a position up to the next zero.\<close>

fun find_sub :: "string \<Rightarrow> string \<Rightarrow> nat option" where
  "find_sub pat s =
     (if take (length pat) s = pat then Some 0
      else (case s of [] \<Rightarrow> None | c # cs \<Rightarrow> map_option Suc (find_sub pat cs)))"

declare find_sub.simps [simp del]

definition strstr :: "string \<Rightarrow> nat \<Rightarrow> string \<Rightarrow> nat option" where
  "strstr b pos pat = map_option ((+) pos) (find_sub pat (takeWhile (\<lambda>c. c \<noteq> NUL) (drop pos b)))"

text \<open>
  A place counts when a blank or a new line stands before it, or it is where this round of the
  search starts, and a blank, a new line or an equals sign behind it.
\<close>

partial_function (option) SearchMarchStr :: "string \<Rightarrow> string \<Rightarrow> nat \<Rightarrow> nat option option" where
  "SearchMarchStr b pat temp =
     (case strstr b temp pat of None \<Rightarrow> Some None
      | Some f \<Rightarrow>
          if temp < f \<and> \<not> (is_blank (b ! (f - 1)) \<or> is_nl (b ! (f - 1))) then SearchMarchStr b pat (f + length pat)
          else if is_blank (b ! (f + length pat)) \<or> is_nl (b ! (f + length pat)) \<or> b ! (f + length pat) = CHR ''='' then Some (Some f)
          else SearchMarchStr b pat (f + length pat))"

definition LocateStr :: "string \<Rightarrow> string \<Rightarrow> nat \<Rightarrow> nat \<Rightarrow> nat option option" where
  "LocateStr b pat begin end =
     (if begin \<ge> end then Some None
      else do {
        r \<leftarrow> SearchMarchStr b pat begin;
        Some (case r of None \<Rightarrow> None | Some f \<Rightarrow> if f + length pat > end then None else Some f)
      })"

text \<open>The first position from \<open>p\<close> on and before \<open>n\<close> whose character fulfils \<open>P\<close>, or \<open>n\<close>.\<close>

definition skip_to :: "(char \<Rightarrow> bool) \<Rightarrow> string \<Rightarrow> nat \<Rightarrow> nat \<Rightarrow> nat" where
  "skip_to P b n p = p + length (takeWhile (\<lambda>c. \<not> P c) (take (n - p) (drop p b)))"

text \<open>The end of a section: the first line that starts with a bracket, or a zero.\<close>

fun section_end :: "bool \<Rightarrow> nat \<Rightarrow> string \<Rightarrow> nat" where
  "section_end first p [] = p"
| "section_end first p (c # cs) =
     (if first \<and> c = CHR ''['' then p
      else if c = NUL then p
      else section_end (if is_nl c then True else if \<not> is_blank c then False else first) (p + 1) cs)"

definition LocateSection :: "string option \<Rightarrow> ini \<Rightarrow> (nat \<times> nat) option option" where
  "LocateSection name i =
     (case (name, ini_content i, ini_shadow i) of
        (Some s, Some c, Some sh) \<Rightarrow> do {
          let pat = ToLower (''['' @ s @ '']'');
          r \<leftarrow> LocateStr (sh @ [NUL]) pat 0 (length c);
          Some (case r of None \<Rightarrow> None
            | Some f \<Rightarrow>
                let p = skip_to is_nl c (length c) (f + length pat);
                    p = skip_to (\<lambda>c. \<not> is_nl c) c (length c) p
                in Some (p, section_end True p (drop p (c @ [NUL]))))
        }
      | _ \<Rightarrow> Some None)"

text \<open>The line of a key: from the key to the start of the next line that is not empty.\<close>

partial_function (option) LocateKeyRange :: "string \<Rightarrow> string \<Rightarrow> string \<Rightarrow> nat \<Rightarrow> nat \<Rightarrow> (nat \<times> nat) option option" where
  "LocateKeyRange sh c key begin end =
     (if begin \<ge> end then Some None
      else
        LocateStr (sh @ [NUL]) (ToLower key) begin end \<bind> (\<lambda>r.
        case r of None \<Rightarrow> Some None
        | Some kb \<Rightarrow>
            let ke = skip_to (\<lambda>c. \<not> is_blank c) c end (kb + length key)
            in if (c @ [NUL]) ! ke \<noteq> CHR ''='' then LocateKeyRange sh c key ke end
               else
                 let ke = skip_to is_nl c end (ke + 1); ke = skip_to (\<lambda>c. \<not> is_nl c) c end ke
                 in Some (if ke > kb then Some (kb, ke) else None)))"

text \<open>The value of a key: from the first character that is not blank to a tabulator or the end of the line.\<close>

partial_function (option) LocateKeyValue :: "string \<Rightarrow> string \<Rightarrow> string \<Rightarrow> nat \<Rightarrow> nat \<Rightarrow> (nat \<times> nat) option option" where
  "LocateKeyValue sh c key begin end =
     (if begin \<ge> end then Some None
      else
        LocateStr (sh @ [NUL]) (ToLower key) begin end \<bind> (\<lambda>r.
        case r of None \<Rightarrow> Some None
        | Some kb \<Rightarrow>
            let vb = skip_to (\<lambda>c. \<not> is_blank c) c end (kb + length key)
            in if (c @ [NUL]) ! vb \<noteq> CHR ''='' then LocateKeyValue sh c key vb end
               else
                 let vb = skip_to (\<lambda>c. is_nl c \<or> \<not> is_blank c) c end (vb + 1); ve = skip_to (\<lambda>c. c = TAB \<or> is_nl c) c end vb
                 in Some (if ve > vb then Some (vb, ve) else None)))"

section \<open>Reading a value\<close>

definition high_byte :: "char \<Rightarrow> bool" where
  "high_byte c \<longleftrightarrow> (of_char c :: nat) > 127"

text \<open>
  The number of characters and the text, for a buffer of \<open>n\<close> characters.  When the text fills
  the buffer its last character is looked at, which with a buffer of one is outside of it.
\<close>

definition GetItemValue :: "string option \<Rightarrow> string option \<Rightarrow> nat \<Rightarrow> ini \<Rightarrow> (nat \<times> string) option" where
  "GetItemValue sec key n i =
     (case (sec, key, ini_content i, ini_shadow i) of
        (Some s, Some k, Some c, Some sh) \<Rightarrow>
          if \<not> ini_open i \<or> n = 0 then Some (0, [])
          else do {
            r \<leftarrow> LocateSection (Some s) i;
            case r of None \<Rightarrow> Some (0, [])
            | Some (sb, se) \<Rightarrow> do {
                r \<leftarrow> LocateKeyValue sh c k sb se;
                case r of None \<Rightarrow> Some (0, [])
                | Some (vb, ve) \<Rightarrow>
                    let v = take (n - 1) (take (ve - vb) (drop vb c)); count = length v
                    in if count = n - 1
                       then if count = 0 then None
                            else if high_byte (v ! (count - 1)) then Some (count - 1, take (count - 1) v) else Some (count, v)
                       else Some (count, v)
              }
          }
      | _ \<Rightarrow> Some (0, []))"

definition GetItemValue_default :: "string option \<Rightarrow> string option \<Rightarrow> nat \<Rightarrow> string \<Rightarrow> ini \<Rightarrow> (nat \<times> string) option" where
  "GetItemValue_default sec key n def i =
     (if n = 0 then Some (0, [])
      else do {
        (len, v) \<leftarrow> GetItemValue sec key n i;
        if len = 0 then Some (length (take (n - 1) def), take (n - 1) def) else Some (len, v)
      })"

text \<open>A number: whether there is one, and which.\<close>

definition GetItemValue_int :: "string option \<Rightarrow> string option \<Rightarrow> ini \<Rightarrow> int option option" where
  "GetItemValue_int sec key i = do {
     (len, v) \<leftarrow> GetItemValue sec key 100 i;
     Some (if len = 0 then None else Some (atoi (takeWhile (\<lambda>c. c \<noteq> NUL) v)))
   }"

definition GetItemValue_int_default :: "string option \<Rightarrow> string option \<Rightarrow> int \<Rightarrow> ini \<Rightarrow> (bool \<times> int) option" where
  "GetItemValue_int_default sec key def i = do {
     r \<leftarrow> GetItemValue_int sec key i;
     Some (case r of None \<Rightarrow> (False, def) | Some v \<Rightarrow> (True, v))
   }"

section \<open>Changing a value\<close>

text \<open>Whether the file opens for writing and everything is written.\<close>

definition SetItemValue :: "string option \<Rightarrow> string option \<Rightarrow> string option \<Rightarrow> bool \<times> bool \<Rightarrow> ini \<Rightarrow> (bool \<times> ini) option" where
  "SetItemValue sec key val wr i =
     (case (sec, key, val, ini_content i, ini_shadow i) of
        (Some s, Some k, Some v, Some c, Some sh) \<Rightarrow>
          if \<not> ini_open i then Some (False, i)
          else do {
            r \<leftarrow> LocateSection (Some s) i;
            case r of None \<Rightarrow> Some (False, i)
            | Some (sb, se) \<Rightarrow> do {
                r \<leftarrow> LocateKeyRange sh c k sb se;
                let (kb, ke) = (case r of None \<Rightarrow> (sb, sb) | Some x \<Rightarrow> x);
                let c = take kb c @ k @ '' = '' @ v @ [LF] @ drop ke c;
                let i = i\<lparr>ini_content := Some c, ini_shadow := Some (ToLower c)\<rparr>;
                Some (ini_filename i \<noteq> None \<and> fst wr \<and> snd wr, i)
              }
          }
      | _ \<Rightarrow> Some (False, i))"

definition SetItemValue_int :: "string option \<Rightarrow> string option \<Rightarrow> int \<Rightarrow> bool \<times> bool \<Rightarrow> ini \<Rightarrow> (bool \<times> ini) option" where
  "SetItemValue_int sec key val wr i = SetItemValue sec key (Some (show_int val)) wr i"

end
