(* ===== verification/IniTheorems.thy ===== *)
theory IniTheorems
  imports IniFile
begin

text \<open>
  Ini files: that a lookup ends, and that a value that was set is read back.
\<close>

section \<open>Characters\<close>

lemma lower_cases: "lower_char c = c \<or> 97 \<le> (of_char (lower_char c) :: nat) \<and> (of_char (lower_char c) :: nat) \<le> 122 \<and> 65 \<le> (of_char c :: nat) \<and> (of_char c :: nat) \<le> 90"
  by (auto simp: lower_char_def)

definition plain :: "char \<Rightarrow> bool" where
  "plain c \<longleftrightarrow> (of_char c :: nat) < 65 \<or> 122 < (of_char c :: nat)"

lemma lower_plain: "plain d \<Longrightarrow> lower_char c = d \<longleftrightarrow> c = d"
  using lower_cases [of c] by (auto simp: plain_def lower_char_def)

lemma plain_chars: "plain CR" "plain LF" "plain TAB" "plain (CHR '' '')" "plain (CHR ''='')" "plain NUL"
  by (simp_all add: plain_def)

lemma lower_tests [simp]: "is_blank (lower_char c) = is_blank c" "is_nl (lower_char c) = is_nl c"
    "lower_char c = CHR ''='' \<longleftrightarrow> c = CHR ''=''" "lower_char c = NUL \<longleftrightarrow> c = NUL"
  using lower_plain [OF plain_chars(1), of c] lower_plain [OF plain_chars(2), of c] lower_plain [OF plain_chars(3), of c]
    lower_plain [OF plain_chars(4), of c] lower_plain [OF plain_chars(5), of c] lower_plain [OF plain_chars(6), of c]
  by (auto simp: is_blank_def is_nl_def)

abbreviation (input) stops :: "char \<Rightarrow> bool" where
  "stops c \<equiv> is_blank c \<or> is_nl c \<or> c = CHR ''=''"

lemma length_ToLower [simp]: "length (ToLower s) = length s"
  by (simp add: ToLower_def)

lemma ToLower_append [simp]: "ToLower (s @ t) = ToLower s @ ToLower t"
  by (simp add: ToLower_def)

section \<open>Substrings\<close>

lemma find_sub_Some:
  "find_sub pat s = Some f \<longleftrightarrow> f \<le> length s \<and> take (length pat) (drop f s) = pat \<and> (\<forall>g<f. take (length pat) (drop g s) \<noteq> pat)"
proof (induction pat s arbitrary: f rule: find_sub.induct)
  case (1 pat s)
  show ?case
  proof (cases "take (length pat) s = pat")
    case True
    then show ?thesis by (subst find_sub.simps) (auto intro: gr0I)
  next
    case no: False
    show ?thesis
    proof (cases s)
      case Nil
      then show ?thesis using no by (subst find_sub.simps) auto
    next
      case (Cons c cs)
      have "find_sub pat s = Some f \<longleftrightarrow> (\<exists>g. find_sub pat cs = Some g \<and> f = Suc g)" using no Cons by (subst find_sub.simps) auto
      also have "\<dots> \<longleftrightarrow> f \<le> length s \<and> take (length pat) (drop f s) = pat \<and> (\<forall>g<f. take (length pat) (drop g s) \<noteq> pat)"
        using 1 [OF no Cons] no Cons by (cases f) (auto simp: less_Suc_eq_0_disj)
      finally show ?thesis .
    qed
  qed
qed

lemma occurs_length: "take (length pat) (drop g s) = pat \<Longrightarrow> g \<le> length s \<Longrightarrow> g + length pat \<le> length s"
proof -
  assume "take (length pat) (drop g s) = pat" "g \<le> length s"
  then have "min (length s - g) (length pat) = length pat" by (metis length_take length_drop min.commute)
  then show ?thesis using \<open>g \<le> length s\<close> by linarith
qed

lemma take_drop_local: "take n t = take n s \<Longrightarrow> g + k \<le> n \<Longrightarrow> take k (drop g t) = take k (drop g s)"
proof -
  assume "take n t = take n s" "g + k \<le> n"
  then have "take k (drop g (take n t)) = take k (drop g (take n s))" by simp
  then show ?thesis using \<open>g + k \<le> n\<close> by (simp add: drop_take min_def split: if_splits)
qed

lemma find_sub_local:
  assumes "find_sub pat s = Some f" "take (f + length pat) t = take (f + length pat) s"
  shows "find_sub pat t = Some f"
proof -
  have eq: "take (length pat) (drop g t) = take (length pat) (drop g s)" if "g \<le> f" for g
    by (rule take_drop_local [OF assms(2)]) (use that in simp)
  have s: "f \<le> length s" "take (length pat) (drop f s) = pat" "\<forall>g<f. take (length pat) (drop g s) \<noteq> pat"
    using assms(1) unfolding find_sub_Some by auto
  have "length (take (f + length pat) s) = f + length pat" using occurs_length [OF s(2,1)] by simp
  then have "f \<le> length t" using arg_cong [OF assms(2), of length] by (simp only: length_take min_def split: if_splits)
  then show ?thesis using s(2,3) eq unfolding find_sub_Some by simp
qed

lemma takeWhile_local:
  assumes "n \<le> length (takeWhile P xs)" "take n ys = take n xs"
  shows "take n (takeWhile P ys) = take n (takeWhile P xs)"
proof -
  have x: "take n (takeWhile P xs) = take n xs"
    using assms(1) by (metis append_take_drop_id length_takeWhile_le take_append takeWhile_eq_take take_take min_def)
  have n: "n \<le> length xs" using assms(1) length_takeWhile_le [of P xs] by linarith
  then have y: "n \<le> length ys" using arg_cong [OF assms(2), of length] by (simp only: length_take min_def split: if_splits)
  have "\<forall>x\<in>set (take n ys). P x" unfolding assms(2) x [symmetric] by (meson in_set_takeD set_takeWhileD)
  then have w: "takeWhile P ys = take n ys @ takeWhile P (drop n ys)"
    by (metis append_take_drop_id takeWhile_append2)
  have "take n (takeWhile P ys) = take n ys" unfolding w using y by simp
  then show ?thesis using x assms(2) by simp
qed

lemma strstr_found:
  assumes "strstr b p pat = Some f"
  shows "p \<le> f" "take (length pat) (drop f b) = pat" "f + length pat \<le> p + length (takeWhile (\<lambda>c. c \<noteq> NUL) (drop p b))"
    "pat \<noteq> [] \<Longrightarrow> f + length pat \<le> length b"
proof -
  let ?w = "takeWhile (\<lambda>c. c \<noteq> NUL) (drop p b)"
  obtain g where g: "find_sub pat ?w = Some g" "f = p + g" using assms by (auto simp: strstr_def)
  have s: "g \<le> length ?w" "take (length pat) (drop g ?w) = pat" using g(1) unfolding find_sub_Some by auto
  have l: "g + length pat \<le> length ?w" by (rule occurs_length [OF s(2,1)])
  have w: "take n ?w = take n (drop p b)" if "n \<le> length ?w" for n
    using that by (metis takeWhile_eq_take take_take min.absorb1)
  show "p \<le> f" using g(2) by simp
  have "take (length pat) (drop g ?w) = take (length pat) (drop g (drop p b))" by (rule take_drop_local [OF w [OF l]]) simp
  then show "take (length pat) (drop f b) = pat" using s(2) g(2) by (simp add: add.commute)
  show "f + length pat \<le> p + length ?w" using l g(2) by simp
  then show "pat \<noteq> [] \<Longrightarrow> f + length pat \<le> length b" using length_takeWhile_le [of "\<lambda>c. c \<noteq> NUL" "drop p b"] g(2)
    by (cases "p \<le> length b") auto
qed

lemma strstr_local:
  assumes "strstr b p pat = Some f" "take (f + length pat) b' = take (f + length pat) b"
  shows "strstr b' p pat = Some f"
proof -
  let ?w = "takeWhile (\<lambda>c. c \<noteq> NUL) (drop p b)" and ?w' = "takeWhile (\<lambda>c. c \<noteq> NUL) (drop p b')"
  obtain g where g: "find_sub pat ?w = Some g" "f = p + g" using assms by (auto simp: strstr_def)
  have s: "g \<le> length ?w" "take (length pat) (drop g ?w) = pat" using g(1) unfolding find_sub_Some by auto
  have l: "g + length pat \<le> length ?w" by (rule occurs_length [OF s(2,1)])
  have "take (g + length pat) (drop p b') = take (g + length pat) (drop p b)"
    by (rule take_drop_local [OF assms(2)]) (use g(2) in simp)
  from takeWhile_local [OF l this] have "find_sub pat ?w' = Some g" by (rule find_sub_local [OF g(1)])
  then show ?thesis using g(2) by (simp add: strstr_def)
qed

section \<open>The search\<close>

lemma search_induct [case_names step]:
  assumes "pat \<noteq> []" "\<And>temp. (\<And>g. strstr b temp pat = Some g \<Longrightarrow> P (g + length pat)) \<Longrightarrow> P temp"
  shows "P temp"
proof (induction "length b - temp" arbitrary: temp rule: less_induct)
  case less
  show ?case
  proof (rule assms(2))
    fix g
    assume g: "strstr b temp pat = Some g"
    have "temp < g + length pat" "g + length pat \<le> length b" using strstr_found [OF g] assms(1) by (cases pat; simp)+
    then show "P (g + length pat)" by (intro less) auto
  qed
qed

lemma search_None: "strstr b temp pat = None \<Longrightarrow> SearchMarchStr b pat temp = Some None"
  by (subst SearchMarchStr.simps) simp

lemma search_Some:
  "strstr b temp pat = Some g \<Longrightarrow> SearchMarchStr b pat temp =
     (if (g = temp \<or> is_blank (b ! (g - 1)) \<or> is_nl (b ! (g - 1))) \<and> stops (b ! (g + length pat)) then Some (Some g)
      else SearchMarchStr b pat (g + length pat))"
  using strstr_found(1) [of b temp pat g] by (subst SearchMarchStr.simps) auto

lemma search_returns:
  assumes "pat \<noteq> []"
  shows "\<exists>r. SearchMarchStr b pat temp = Some r"
proof (induction temp rule: search_induct [OF assms, of b, case_names step])
  case (step temp)
  then show ?case by (cases "strstr b temp pat") (auto simp: search_None search_Some)
qed

lemma search_found:
  assumes "pat \<noteq> []"
  shows "SearchMarchStr b pat temp = Some (Some f) \<Longrightarrow>
     temp \<le> f \<and> take (length pat) (drop f b) = pat \<and> f + length pat \<le> length b \<and> stops (b ! (f + length pat))"
proof (induction temp rule: search_induct [OF assms, of b, case_names step])
  case (step temp)
  then obtain g where g: "strstr b temp pat = Some g" by (cases "strstr b temp pat") (auto simp: search_None)
  show ?case using step(1) [OF g] step(2) strstr_found [OF g] assms unfolding search_Some [OF g] by (auto split: if_splits)
qed

lemma nth_local: "take n t = take n s \<Longrightarrow> j < n \<Longrightarrow> t ! j = s ! j"
  by (metis nth_take)

lemma search_local:
  assumes "pat \<noteq> []" "take (f + length pat) b' = take (f + length pat) b" "stops (b' ! (f + length pat))"
  shows "SearchMarchStr b pat temp = Some (Some f) \<Longrightarrow> SearchMarchStr b' pat temp = Some (Some f)"
proof (induction temp rule: search_induct [OF assms(1), of b, case_names step])
  case (step temp)
  then obtain g where g: "strstr b temp pat = Some g" by (cases "strstr b temp pat") (auto simp: search_None)
  consider (here) "g = f" "g = temp \<or> is_blank (b ! (g - 1)) \<or> is_nl (b ! (g - 1))"
    | (later) "SearchMarchStr b pat (g + length pat) = Some (Some f)"
        "\<not> ((g = temp \<or> is_blank (b ! (g - 1)) \<or> is_nl (b ! (g - 1))) \<and> stops (b ! (g + length pat)))"
    using step(2) unfolding search_Some [OF g] by (auto split: if_splits)
  then show ?case
  proof cases
    case here
    have "strstr b' temp pat = Some g" by (rule strstr_local [OF g]) (use here assms(2) in simp)
    moreover have "b' ! (g - 1) = b ! (g - 1)" by (rule nth_local [OF assms(2)]) (use here assms(1) in \<open>cases pat; auto\<close>)
    ultimately show ?thesis using here assms(3) by (simp add: search_Some)
  next
    case later
    have gf: "g + length pat \<le> f" using search_found [OF assms(1) later(1)] by simp
    have "take (g + length pat) b' = take (g + length pat) b"
      using take_drop_local [OF assms(2), of 0 "g + length pat"] gf by simp
    then have "strstr b' temp pat = Some g" by (rule strstr_local [OF g])
    moreover have "b' ! (g - 1) = b ! (g - 1)" "b' ! (g + length pat) = b ! (g + length pat)"
      by (rule nth_local [OF assms(2)], use gf assms(1) in \<open>cases pat; simp\<close>)+
    ultimately show ?thesis using later step(1) [OF g later(1)] by (auto simp: search_Some)
  qed
qed

section \<open>Steps over characters\<close>

lemma skip_props:
  assumes "p \<le> n" "n \<le> length b"
  shows "p \<le> skip_to P b n p" "skip_to P b n p \<le> n" "\<And>j. p \<le> j \<Longrightarrow> j < skip_to P b n p \<Longrightarrow> \<not> P (b ! j)"
    "skip_to P b n p < n \<Longrightarrow> P (b ! skip_to P b n p)"
proof -
  let ?w = "take (n - p) (drop p b)"
  have l: "length ?w = n - p" using assms by simp
  have nth: "?w ! j = b ! (p + j)" if "j < n - p" for j using that assms by simp
  show "p \<le> skip_to P b n p" by (simp add: skip_to_def)
  show "skip_to P b n p \<le> n" using length_takeWhile_le [of "\<lambda>c. \<not> P c" ?w] assms(1) unfolding l skip_to_def by linarith
  show "\<not> P (b ! j)" if "p \<le> j" "j < skip_to P b n p" for j
  proof -
    have j: "j - p < length (takeWhile (\<lambda>c. \<not> P c) ?w)" using that by (simp add: skip_to_def)
    then have "takeWhile (\<lambda>c. \<not> P c) ?w ! (j - p) \<in> set (takeWhile (\<lambda>c. \<not> P c) ?w)" by (rule nth_mem)
    then have "\<not> P (?w ! (j - p))" using takeWhile_nth [OF j] by (auto dest: set_takeWhileD)
    moreover have "j - p < n - p" using j length_takeWhile_le [of "\<lambda>c. \<not> P c" ?w] l by linarith
    ultimately show ?thesis using nth that(1) by simp
  qed
  show "P (b ! skip_to P b n p)" if "skip_to P b n p < n"
  proof -
    have "length (takeWhile (\<lambda>c. \<not> P c) ?w) < length ?w" using that l by (simp add: skip_to_def)
    from nth_length_takeWhile [OF this] show ?thesis using that nth by (simp add: skip_to_def less_diff_conv add.commute)
  qed
qed

lemma skip_eq:
  assumes "p \<le> q" "q \<le> n" "n \<le> length b" "\<And>j. p \<le> j \<Longrightarrow> j < q \<Longrightarrow> \<not> P (b ! j)" "q < n \<Longrightarrow> P (b ! q)"
  shows "skip_to P b n p = q"
proof -
  have pn: "p \<le> n" using assms by simp
  note s = skip_props [OF pn assms(3), where P = P]
  show ?thesis
  proof (rule linorder_cases [of "skip_to P b n p" q])
    assume "skip_to P b n p < q"
    then show ?thesis using s(1) s(4) assms(2) assms(4) [of "skip_to P b n p"] by simp
  next
    assume "q < skip_to P b n p"
    then show ?thesis using s(2) s(3) [of q] assms(1,5) by simp
  qed simp
qed

lemma section_end_ge: "p \<le> section_end f p cs"
  by (induction f p cs rule: section_end.induct) auto

lemma section_end_le: "section_end f p (u @ [NUL]) \<le> p + length u"
proof (induction u arbitrary: f p)
  case (Cons c u)
  then have "section_end g (Suc p) (u @ [NUL]) \<le> Suc (p + length u)" for g using Cons [of g "Suc p"] by simp
  then show ?case by simp
qed simp

lemma section_end_reach:
  "p + length u \<le> section_end f p (u @ w) \<Longrightarrow> \<exists>g. \<forall>w'. section_end f p (u @ w') = section_end g (p + length u) w'"
proof (induction u arbitrary: f p)
  case (Cons c u)
  have n: "\<not> (f \<and> c = CHR ''['')" "c \<noteq> NUL" using Cons(2) by auto
  then have e: "section_end f p ((c # u) @ v) = section_end (if is_nl c then True else if \<not> is_blank c then False else f) (Suc p) (u @ v)" for v
    by auto
  show ?case using Cons(1) [of "Suc p" "if is_nl c then True else if \<not> is_blank c then False else f"] Cons(2) unfolding e by simp
qed auto

lemma section_end_rest: "\<forall>c\<in>set u. \<not> is_nl c \<and> c \<noteq> NUL \<Longrightarrow> p + length u \<le> section_end False p (u @ w)"
proof (induction u arbitrary: p)
  case (Cons c u)
  then show ?case using Cons(1) [of "Suc p"] by simp
qed (simp add: section_end_ge)

definition key_word :: "string \<Rightarrow> bool" where
  "key_word k \<longleftrightarrow> k \<noteq> [] \<and> hd k \<noteq> CHR ''['' \<and> (\<forall>c\<in>set k. \<not> stops c \<and> c \<noteq> NUL)"

definition value_text :: "string \<Rightarrow> bool" where
  "value_text v \<longleftrightarrow> v \<noteq> [] \<and> \<not> is_blank (hd v) \<and> (\<forall>c\<in>set v. \<not> is_nl c \<and> c \<noteq> TAB \<and> c \<noteq> NUL)"

lemma section_end_line:
  assumes "key_word k" "value_text v"
  shows "p + length k + length v + 4 \<le> section_end f p (k @ '' = '' @ v @ [LF] @ w)"
proof -
  obtain c cs where k: "k = c # cs" using assms(1) by (cases k) (auto simp: key_word_def)
  let ?u = "cs @ '' = '' @ v"
  have c: "c \<noteq> CHR ''[''" "c \<noteq> NUL" "\<not> is_nl c" "\<not> is_blank c" using assms(1) k by (auto simp: key_word_def)
  have u: "\<forall>x\<in>set ?u. \<not> is_nl x \<and> x \<noteq> NUL" using assms k by (auto simp: key_word_def value_text_def is_nl_def)
  have 1: "section_end f p (k @ '' = '' @ v @ [LF] @ w) = section_end False (Suc p) (?u @ LF # w)" using c k by simp
  have "Suc p + length ?u \<le> section_end False (Suc p) (?u @ w')" for w' by (rule section_end_rest [OF u])
  then obtain g where g: "\<forall>w'. section_end False (Suc p) (?u @ w') = section_end g (Suc p + length ?u) w'"
    using section_end_reach by blast
  have "Suc (Suc p + length ?u) \<le> section_end g (Suc p + length ?u) (LF # w)"
    by (auto simp: section_end_ge is_nl_def)
  then show ?thesis unfolding 1 g [rule_format] using k by simp
qed

section \<open>Keys\<close>

lemma locate_returns: "pat \<noteq> [] \<Longrightarrow> \<exists>r. LocateStr b pat p e = Some r"
  using search_returns [of pat b p] by (auto simp: LocateStr_def)

lemma locate_found:
  assumes "LocateStr b pat p e = Some (Some f)" "pat \<noteq> []"
  shows "p \<le> f" "f + length pat \<le> e" "take (length pat) (drop f b) = pat" "f + length pat \<le> length b" "stops (b ! (f + length pat))" "p < e"
    "SearchMarchStr b pat p = Some (Some f)"
proof -
  obtain r where r: "SearchMarchStr b pat p = Some r" "\<not> e \<le> p" "(case r of None \<Rightarrow> None | Some f \<Rightarrow> if f + length pat > e then None else Some f) = Some f"
    using assms search_returns [OF assms(2), of b p] by (auto simp: LocateStr_def split: if_splits)
  then have f: "r = Some f" "f + length pat \<le> e" by (auto split: option.splits if_splits)
  show "SearchMarchStr b pat p = Some (Some f)" using r f by simp
  from search_found [OF assms(2) this] f r(2) show "p \<le> f" "f + length pat \<le> e" "take (length pat) (drop f b) = pat"
    "f + length pat \<le> length b" "stops (b ! (f + length pat))" "p < e" by auto
qed

lemma locate_local:
  assumes "LocateStr b pat p e = Some (Some f)" "pat \<noteq> []" "take (f + length pat) b' = take (f + length pat) b"
    "stops (b' ! (f + length pat))" "f + length pat \<le> e'"
  shows "LocateStr b' pat p e' = Some (Some f)"
proof -
  note l = locate_found [OF assms(1,2)]
  have "p < e'" using l(1) assms(2,5) by (cases pat) auto
  then show ?thesis using search_local [OF assms(2,3,4) l(7)] assms(5) by (simp add: LocateStr_def)
qed

lemma locate_here:
  assumes "drop p b = pat @ c # w" "pat \<noteq> []" "NUL \<notin> set pat" "stops c" "p + length pat \<le> e"
  shows "LocateStr b pat p e = Some (Some p)"
proof -
  have "takeWhile (\<lambda>c. c \<noteq> NUL) (drop p b) = pat @ takeWhile (\<lambda>c. c \<noteq> NUL) (c # w)"
    unfolding assms(1) by (rule takeWhile_append2) (use assms(3) in auto)
  then have "strstr b p pat = Some p" by (subst strstr_def, subst find_sub.simps) simp
  moreover have "p + length pat < length b" using arg_cong [OF assms(1), of length] assms(2) by simp
  then have "b ! (p + length pat) = c" using assms(1) nth_drop [of p b "length pat"] by simp
  moreover have "p < e" using assms(2,5) by (cases pat) auto
  ultimately show ?thesis using assms(4,5) by (auto simp: LocateStr_def search_Some)
qed

lemma lower_end [simp]: "ToLower c @ [NUL] = ToLower (c @ [NUL])"
  by (simp add: ToLower_def) (simp add: lower_char_def)

lemma ToLower_empty [simp]: "ToLower s = [] \<longleftrightarrow> s = []"
  by (simp add: ToLower_def)

lemma nth_ToLower [simp]: "j < length s \<Longrightarrow> ToLower s ! j = lower_char (s ! j)"
  by (simp add: ToLower_def)

lemma NUL_lower: "NUL \<in> set (ToLower k) \<longleftrightarrow> NUL \<in> set k"
  unfolding ToLower_def set_map by (metis imageE image_eqI lower_tests(4))

definition key_line :: "string \<Rightarrow> string \<Rightarrow> string" where
  "key_line k v = k @ '' = '' @ v @ [LF]"

lemma key_line_length [simp]: "length (key_line k v) = length k + length v + 4"
  by (simp add: key_line_def)

text \<open>A line of the key at a place.\<close>

definition line_at :: "string \<Rightarrow> nat \<Rightarrow> string \<Rightarrow> string \<Rightarrow> bool" where
  "line_at c p k v \<longleftrightarrow> p \<le> length c \<and> (\<exists>w. drop p c = key_line k v @ w)"

lemma line_at_nth:
  assumes "line_at c p k v" "j < length k + length v + 4"
  shows "p + j < length c" "c ! (p + j) = key_line k v ! j"
proof -
  obtain w where w: "drop p c = key_line k v @ w" "p \<le> length c" using assms(1) by (auto simp: line_at_def)
  have "length c - p = length k + length v + 4 + length w" using arg_cong [OF w(1), of length] by simp
  then show "p + j < length c" using assms(2) w(2) by simp
  have "c ! (p + j) = drop p c ! j" using w(2) by simp
  also have "\<dots> = key_line k v ! j" unfolding w(1) using assms(2) by (simp add: nth_append)
  finally show "c ! (p + j) = key_line k v ! j" .
qed

lemma key_value_line:
  assumes "LocateStr (ToLower (c @ [NUL])) (ToLower k) p e = Some (Some kb)" "line_at c kb k v" "key_word k" "value_text v"
    "kb + length k + length v + 4 \<le> e" "e \<le> length c"
  shows "LocateKeyValue (ToLower c) c k p e = Some (Some (kb + length k + 3, kb + length k + 3 + length v))"
proof -
  let ?k = "kb + length k" and ?q = "kb + length k + 1" and ?b = "kb + length k + 2" and ?v = "kb + length k + 3"
  have ne: "ToLower k \<noteq> []" using assms(3) by (simp add: key_word_def)
  have at: "c ! (kb + j) = key_line k v ! j" if "j < length k + length v + 4" for j using line_at_nth [OF assms(2) that] by simp
  have b: "c ! ?k = CHR '' ''" using at [of "length k"] by (simp add: key_line_def nth_append)
  have q: "c ! ?q = CHR ''=''" using at [of "length k + 1"] by (simp add: key_line_def nth_append add.assoc)
  have b2: "c ! ?b = CHR '' ''" using at [of "length k + 2"] by (simp add: key_line_def nth_append add.assoc)
  have v: "c ! (?v + j) = v ! j" if "j < length v" for j
    using at [of "length k + 3 + j"] that by (simp add: key_line_def nth_append add.assoc)
  have lf: "c ! (?v + length v) = LF" using at [of "length k + 3 + length v"] by (simp add: key_line_def nth_append add.assoc)
  have v0: "0 < length v" "\<not> is_blank (v ! 0)" using assms(4) unfolding value_text_def by (cases v; simp)+
  have v1: "\<not> is_nl (v ! j) \<and> v ! j \<noteq> TAB" if "j < length v" for j
    using assms(4) nth_mem [OF that] unfolding value_text_def by blast
  have 1: "skip_to (\<lambda>c. \<not> is_blank c) c e ?k = ?q"
  proof (rule skip_eq)
    fix j
    assume "?k \<le> j" "j < ?q"
    then have "j = ?k" by simp
    then show "\<not> \<not> is_blank (c ! j)" using b by (simp add: is_blank_def)
  qed (use assms(5,6) q in \<open>auto simp: is_blank_def\<close>)
  have 2: "skip_to (\<lambda>c. is_nl c \<or> \<not> is_blank c) c e ?b = ?v"
  proof (rule skip_eq)
    fix j
    assume "?b \<le> j" "j < ?v"
    then have "j = ?b" by simp
    then show "\<not> (is_nl (c ! j) \<or> \<not> is_blank (c ! j))" using b2 by (simp add: is_blank_def is_nl_def)
  qed (use assms(5,6) v [of 0] v0 in auto)
  have 3: "skip_to (\<lambda>c. c = TAB \<or> is_nl c) c e ?v = ?v + length v"
  proof (rule skip_eq)
    fix j
    assume "?v \<le> j" "j < ?v + length v"
    then show "\<not> (c ! j = TAB \<or> is_nl (c ! j))" using v [of "j - ?v"] v1 [of "j - ?v"] by auto
  qed (use assms(5,6) lf in \<open>auto simp: is_nl_def\<close>)
  have "(c @ [NUL]) ! ?q = CHR ''=''" using q assms(5,6) by (simp add: nth_append)
  moreover have "\<not> e \<le> p" using locate_found(6) [OF assms(1) ne] by simp
  moreover have "?q + 1 = ?b" by simp
  then have "skip_to (\<lambda>c. is_nl c \<or> \<not> is_blank c) c e (?q + 1) = ?v" using 2 by (simp only:)
  ultimately show ?thesis using assms(1) 1 3 v0(1) by (subst LocateKeyValue.simps) (simp add: Let_def del: One_nat_def add_2_eq_Suc')
qed

lemma key_range_step:
  assumes "key_word k" "e \<le> length c" "(c @ [NUL]) ! e \<noteq> CHR ''=''"
  obtains (none) "LocateKeyRange (ToLower c) c k p e = Some None"
    | (again) f q where "LocateStr (ToLower (c @ [NUL])) (ToLower k) p e = Some (Some f)"
        "q = skip_to (\<lambda>c. \<not> is_blank c) c e (f + length k)" "(c @ [NUL]) ! q \<noteq> CHR ''=''" "p < q" "p < e"
        "LocateKeyRange (ToLower c) c k p e = LocateKeyRange (ToLower c) c k q e"
    | (here) f q where "LocateStr (ToLower (c @ [NUL])) (ToLower k) p e = Some (Some f)" "f < q" "q \<le> e"
        "LocateKeyRange (ToLower c) c k p e = Some (Some (f, q))"
proof -
  have ne: "ToLower k \<noteq> []" using assms(1) by (simp add: key_word_def)
  obtain r where r: "LocateStr (ToLower (c @ [NUL])) (ToLower k) p e = Some r" using locate_returns [OF ne] by blast
  consider "e \<le> p" | "\<not> e \<le> p" "r = None" | f where "r = Some f" "\<not> e \<le> p" by (cases r) auto
  then show ?thesis
  proof cases
    case 1
    then show ?thesis by (intro none) (subst LocateKeyRange.simps, simp)
  next
    case 2
    then show ?thesis using r by (intro none) (subst LocateKeyRange.simps, simp)
  next
    case 3
    let ?q = "skip_to (\<lambda>c. \<not> is_blank c) c e (f + length k)"
    note l = locate_found [OF r [unfolded 3(1)] ne, unfolded length_ToLower]
    have q: "f + length k \<le> ?q" "?q \<le> e" by (rule skip_props [OF l(2) assms(2)])+
    have k: "0 < length k" using assms(1) by (simp add: key_word_def)
    show ?thesis
    proof (cases "(c @ [NUL]) ! ?q = CHR ''=''")
      case False
      then have "LocateKeyRange (ToLower c) c k p e = LocateKeyRange (ToLower c) c k ?q e"
        using r 3 by (subst LocateKeyRange.simps) (simp add: Let_def)
      moreover have "p < ?q" "p < e" using q(1) l(1) k 3(2) by linarith+
      ultimately show ?thesis using again [of f ?q] r 3(1) False by simp
    next
      case True
      then have "?q \<noteq> e" using assms(3) by metis
      then have q1: "?q + 1 \<le> e" using q by simp
      let ?q2 = "skip_to is_nl c e (?q + 1)"
      let ?q3 = "skip_to (\<lambda>c. \<not> is_nl c) c e ?q2"
      have q2: "?q + 1 \<le> ?q2" "?q2 \<le> e" by (rule skip_props [OF q1 assms(2)])+
      have q3: "?q2 \<le> ?q3" "?q3 \<le> e" by (rule skip_props [OF q2(2) assms(2)])+
      have "f < ?q3" using q q2 q3 by simp
      moreover have "LocateKeyRange (ToLower c) c k p e = Some (if ?q3 > f then Some (f, ?q3) else None)"
        using r 3 True by (subst LocateKeyRange.simps) (simp add: Let_def)
      ultimately show ?thesis using here [of f ?q3] r 3(1) q3(2) by simp
    qed
  qed
qed

lemma key_range_induct [consumes 3, case_names step]:
  assumes "key_word k" "e \<le> length c" "(c @ [NUL]) ! e \<noteq> CHR ''=''" "\<And>p. (\<And>q. p < q \<Longrightarrow> p < e \<Longrightarrow> P q) \<Longrightarrow> P p"
  shows "P (p :: nat)"
proof (induction "e - p" arbitrary: p rule: less_induct)
  case less
  show ?case by (rule assms(4), rule less) auto
qed

lemma key_range_returns:
  assumes "key_word k" "e \<le> length c" "(c @ [NUL]) ! e \<noteq> CHR ''=''"
  shows "\<exists>r. LocateKeyRange (ToLower c) c k p e = Some r"
  using assms
proof (induction p rule: key_range_induct [where k = k and e = e and c = c])
  case (step p)
  show ?case by (rule key_range_step [OF assms, of p]) (use step in auto)
qed

lemma key_range_found:
  assumes "key_word k" "e \<le> length c" "(c @ [NUL]) ! e \<noteq> CHR ''=''"
  shows "LocateKeyRange (ToLower c) c k p e = Some (Some (kb, ke)) \<Longrightarrow>
    p \<le> kb \<and> kb + length k \<le> e \<and> take (length k) (drop kb (ToLower (c @ [NUL]))) = ToLower k \<and> kb < ke \<and> ke \<le> e"
  using assms
proof (induction p rule: key_range_induct [where k = k and e = e and c = c])
  case (step p)
  have ne: "ToLower k \<noteq> []" using assms(1) by (simp add: key_word_def)
  show ?case
  proof (rule key_range_step [OF assms, of p])
    fix f q
    assume "LocateStr (ToLower (c @ [NUL])) (ToLower k) p e = Some (Some f)" "f < q" "q \<le> e"
      "LocateKeyRange (ToLower c) c k p e = Some (Some (f, q))"
    then show ?thesis using step(2) locate_found [of "ToLower (c @ [NUL])" "ToLower k" p e f] ne by simp
  next
    fix f q
    assume "p < q" "p < e" "LocateKeyRange (ToLower c) c k p e = LocateKeyRange (ToLower c) c k q e"
    then show ?thesis using step(1) [of q] step(2) by simp
  qed (use step(2) in simp)
qed

lemma agree_lower:
  assumes "take kb c' = take kb c" "kb \<le> length c" "line_at c' kb k v" "take (length k) (drop kb (ToLower (c @ [NUL]))) = ToLower k"
  shows "take (kb + length k) (ToLower (c' @ [NUL])) = take (kb + length k) (ToLower (c @ [NUL]))"
proof -
  obtain w where w: "drop kb c' = key_line k v @ w" "kb \<le> length c'" using assms(3) by (auto simp: line_at_def)
  have "take (kb + length k) (ToLower (c' @ [NUL])) = take kb (ToLower (c' @ [NUL])) @ take (length k) (drop kb (ToLower (c' @ [NUL])))"
    by (rule take_add)
  also have "take kb (ToLower (c' @ [NUL])) = take kb (ToLower (c @ [NUL]))"
    using assms(1,2) w(2) by (simp add: ToLower_def take_map)
  also have "take (length k) (drop kb (ToLower (c' @ [NUL]))) = ToLower k"
    using w by (simp add: ToLower_def drop_map key_line_def)
  finally show ?thesis unfolding take_add [of kb "length k" "ToLower (c @ [NUL])"] assms(4) .
qed

lemma key_value_after:
  assumes "key_word k" "e \<le> length c" "(c @ [NUL]) ! e \<noteq> CHR ''=''" "take kb c' = take kb c" "line_at c' kb k v" "value_text v"
    "kb + length k + length v + 4 \<le> e'" "e' \<le> length c'"
  shows "LocateKeyRange (ToLower c) c k p e = Some (Some (kb, ke)) \<Longrightarrow>
    LocateKeyValue (ToLower c') c' k p e' = Some (Some (kb + length k + 3, kb + length k + 3 + length v))"
  using assms(1-3)
proof (induction p rule: key_range_induct [where k = k and e = e and c = c])
  case (step p)
  note F = key_range_found [OF assms(1-3) step(2)]
  let ?b = "ToLower (c @ [NUL])" and ?b' = "ToLower (c' @ [NUL])"
  have kb: "kb \<le> length c" using F assms(2) by linarith
  have ne: "ToLower k \<noteq> []" and k0: "0 < length k" using assms(1) by (simp_all add: key_word_def)
  have agree: "take (kb + length k) ?b' = take (kb + length k) ?b" using agree_lower [OF assms(4) kb assms(5)] F by blast
  have at: "c' ! (kb + j) = key_line k v ! j \<and> kb + j < length c'" if "j < length k + length v + 4" for j
    using line_at_nth [OF assms(5) that] by simp
  have fk: "\<not> is_blank (c' ! kb)" "c' ! kb \<noteq> CHR ''=''" "kb < length c'" using at [of 0] k0 assms(1)
    by (auto simp: key_line_def nth_append key_word_def)
  have lt: "c' ! j = c ! j" if "j < kb" for j by (rule nth_local [OF assms(4) that])
  show ?case
  proof (rule key_range_step [OF assms(1-3), of p])
    fix f q
    assume f: "LocateStr ?b (ToLower k) p e = Some (Some f)" "LocateKeyRange (ToLower c) c k p e = Some (Some (f, q))"
    then have [simp]: "f = kb" using step(2) by simp
    have "?b' ! (kb + length k) = CHR '' ''" using at [of "length k"] by (simp add: key_line_def nth_append lower_char_def)
    then have "LocateStr ?b' (ToLower k) p e' = Some (Some kb)"
      using locate_local [OF f(1) ne, of ?b' e'] agree assms(7) by (simp add: is_blank_def)
    then show ?thesis by (rule key_value_line [OF _ assms(5,1,6,7,8)])
  next
    fix f q
    assume f: "LocateStr ?b (ToLower k) p e = Some (Some f)" "q = skip_to (\<lambda>c. \<not> is_blank c) c e (f + length k)"
      "(c @ [NUL]) ! q \<noteq> CHR ''=''" "p < q" "p < e" "LocateKeyRange (ToLower c) c k p e = LocateKeyRange (ToLower c) c k q e"
    note l = locate_found [OF f(1) ne, unfolded length_ToLower]
    note q = skip_props [OF l(2) assms(2), where P = "\<lambda>c. \<not> is_blank c", folded f(2)]
    have qk: "q \<le> kb" using key_range_found [OF assms(1-3), of q kb ke] step(2) f(6) by simp
    have "?b' ! (f + length k) = ?b ! (f + length k)" by (rule nth_local [OF agree]) (use q(1) qk k0 in linarith)
    moreover have "take (f + length k) ?b' = take (f + length k) ?b"
      using take_drop_local [OF agree, of 0 "f + length k"] q(1) qk by simp
    ultimately have 1: "LocateStr ?b' (ToLower k) p e' = Some (Some f)"
      using locate_local [OF f(1) ne, of ?b' e'] l(5) q(1) qk assms(7) by simp
    have 2: "skip_to (\<lambda>c. \<not> is_blank c) c' e' (f + length k) = q"
    proof (rule skip_eq [OF q(1) _ assms(8)])
      show "\<not> \<not> is_blank (c' ! j)" if "f + length k \<le> j" "j < q" for j using q(3) [OF that] lt [of j] that(2) qk by simp
      show "\<not> is_blank (c' ! q)" using q(4) fk(1) lt [of q] qk F k0 by (cases "q = kb") auto
    qed (use qk assms(7) in simp)
    have 3: "(c' @ [NUL]) ! q \<noteq> CHR ''=''" using f(3) fk(2,3) lt [of q] qk kb by (cases "q = kb") (auto simp: nth_append)
    have "LocateKeyValue (ToLower c') c' k p e' = LocateKeyValue (ToLower c') c' k q e'"
      using 1 2 3 l(1) q(1) qk assms(7) by (subst LocateKeyValue.simps) (simp add: Let_def)
    then show ?thesis using step(1) [of q] f(4,5,6) step(2) by simp
  qed (use step(2) in simp)
qed

section \<open>Sections\<close>

text \<open>An open file: its text, and the copy in lower case.\<close>

definition ini_ok :: "string \<Rightarrow> ini \<Rightarrow> bool" where
  "ini_ok c i \<longleftrightarrow> ini_open i \<and> ini_content i = Some c \<and> ini_shadow i = Some (ToLower c)"

lemma section_end_char: "(u @ [NUL]) ! (section_end f p (u @ [NUL]) - p) \<noteq> CHR ''=''"
proof (induction u arbitrary: f p)
  case (Cons c u)
  show ?case
  proof (cases "f \<and> c = CHR ''['' \<or> c = NUL")
    case False
    let ?g = "if is_nl c then True else if \<not> is_blank c then False else f"
    have e: "section_end f p ((c # u) @ [NUL]) = section_end ?g (Suc p) (u @ [NUL])" using False by auto
    have "section_end ?g (Suc p) (u @ [NUL]) - p = Suc (section_end ?g (Suc p) (u @ [NUL]) - Suc p)"
      using section_end_ge [of "Suc p" ?g "u @ [NUL]"] by simp
    then show ?thesis unfolding e using Cons by simp
  qed auto
qed simp

definition header_of_section :: "string \<Rightarrow> string" where
  "header_of_section s = ToLower (''['' @ s @ '']'')"

lemma section_found:
  assumes "ini_ok c i" "LocateSection (Some s) i = Some (Some (sb, se))"
  obtains f p where "LocateStr (ToLower (c @ [NUL])) (header_of_section s) 0 (length c) = Some (Some f)"
    "p = skip_to is_nl c (length c) (f + length (header_of_section s))" "sb = skip_to (\<lambda>c. \<not> is_nl c) c (length c) p"
    "se = section_end True sb (drop sb (c @ [NUL]))" "p \<le> sb" "sb \<le> se" "se \<le> length c" "(c @ [NUL]) ! se \<noteq> CHR ''=''"
proof -
  let ?h = "header_of_section s"
  have ne: "?h \<noteq> []" by (simp add: header_of_section_def)
  obtain f p where f: "LocateStr (ToLower (c @ [NUL])) ?h 0 (length c) = Some (Some f)"
    "p = skip_to is_nl c (length c) (f + length ?h)" "sb = skip_to (\<lambda>c. \<not> is_nl c) c (length c) p"
    "se = section_end True sb (drop sb (c @ [NUL]))"
    using assms by (auto simp: LocateSection_def ini_ok_def header_of_section_def Let_def bind_eq_Some_conv split: option.splits)
  note l = locate_found [OF f(1) ne]
  note p = skip_props [OF l(2) order_refl, where P = is_nl, folded f(2)]
  note q = skip_props [OF p(2) order_refl, where P = "\<lambda>c. \<not> is_nl c", folded f(3)]
  have d: "drop sb (c @ [NUL]) = drop sb c @ [NUL]" using q(2) by simp
  have "sb \<le> se" unfolding f(4) by (rule section_end_ge)
  moreover have "se \<le> length c" using section_end_le [of True sb "drop sb c"] q(2) unfolding f(4) d by simp
  moreover have "sb \<le> length (c @ [NUL])" using q(2) by simp
  then have "(c @ [NUL]) ! se = drop sb (c @ [NUL]) ! (se - sb)"
    using nth_drop [of sb "c @ [NUL]" "se - sb"] \<open>sb \<le> se\<close> by (simp only: le_add_diff_inverse)
  then have "(c @ [NUL]) ! se \<noteq> CHR ''=''" using section_end_char [of "drop sb c" True sb] unfolding f(4) d by simp
  ultimately show ?thesis using that f q(1) by blast
qed

lemma drop_split: "p \<le> q \<Longrightarrow> drop p xs = take (q - p) (drop p xs) @ drop q xs"
  using append_take_drop_id [of "q - p" "drop p xs"] by (simp only: drop_drop le_add_diff_inverse2)

lemma section_returns: "\<exists>r. LocateSection s i = Some r"
proof -
  have "\<exists>r. LocateStr b (ToLower (''['' @ n @ '']'')) 0 e = Some r" for b n e by (rule locate_returns) simp
  then show ?thesis by (auto simp: LocateSection_def split: option.splits) (metis bind.bind_lunit)
qed

lemma section_kept:
  assumes "ini_ok c i" "LocateSection (Some s) i = Some (Some (sb, se))" "is_nl (last c)" "c \<noteq> []" "ini_ok c' i'"
    "take kb c' = take kb c" "sb \<le> kb" "kb \<le> se" "line_at c' kb k v" "key_word k" "value_text v"
  obtains se' where "LocateSection (Some s) i' = Some (Some (sb, se'))" "kb + length k + length v + 4 \<le> se'" "se' \<le> length c'"
proof -
  let ?h = "header_of_section s"
  have ne: "?h \<noteq> []" by (simp add: header_of_section_def)
  obtain f p where f: "LocateStr (ToLower (c @ [NUL])) ?h 0 (length c) = Some (Some f)"
    "p = skip_to is_nl c (length c) (f + length ?h)" "sb = skip_to (\<lambda>c. \<not> is_nl c) c (length c) p"
    "se = section_end True sb (drop sb (c @ [NUL]))" "p \<le> sb" "sb \<le> se" "se \<le> length c"
    by (rule section_found [OF assms(1,2)])
  note l = locate_found [OF f(1) ne]
  note p = skip_props [OF l(2) order_refl, where P = is_nl, folded f(2)]
  note q = skip_props [OF p(2) order_refl, where P = "\<lambda>c. \<not> is_nl c", folded f(3)]
  have lt: "c' ! j = c ! j" if "j < kb" for j by (rule nth_local [OF assms(6) that])
  have kc: "kb < length c'" "c' ! kb = hd k" using line_at_nth [OF assms(9), of 0] assms(10)
    by (auto simp: key_line_def key_word_def nth_append hd_conv_nth)
  have k0: "\<not> is_nl (hd k)" using assms(10) by (simp add: key_word_def)
  have stop: "f + length ?h < length c"
  proof (rule ccontr)
    assume "\<not> ?thesis"
    then have "ToLower (c @ [NUL]) ! (f + length ?h) = NUL" using l(2) by (simp add: nth_append lower_char_def)
    then show False using l(5) by (simp add: is_blank_def is_nl_def)
  qed
  have pl: "p < length c"
  proof (rule ccontr)
    assume "\<not> ?thesis"
    then have "\<not> is_nl (c ! (length c - 1))" using p(3) [of "length c - 1"] stop by simp
    then show False using assms(3,4) by (simp add: last_conv_nth)
  qed
  then have psb: "p < sb" using p(4) q(1) q(4) by (cases "sb = p") auto
  have 1: "LocateStr (ToLower (c' @ [NUL])) ?h 0 (length c') = Some (Some f)"
  proof (rule locate_local [OF f(1) ne])
    have a: "take kb (ToLower (c' @ [NUL])) = take kb (ToLower (c @ [NUL]))"
      using assms(6) kc(1) f(6,7) assms(7,8) by (simp add: ToLower_def take_map)
    show "take (f + length ?h) (ToLower (c' @ [NUL])) = take (f + length ?h) (ToLower (c @ [NUL]))"
      using take_drop_local [OF a, of 0 "f + length ?h"] p(1) psb assms(7) by simp
    have "ToLower (c' @ [NUL]) ! (f + length ?h) = ToLower (c @ [NUL]) ! (f + length ?h)"
      by (rule nth_local [OF a]) (use p(1) psb assms(7) in linarith)
    then show "stops (ToLower (c' @ [NUL]) ! (f + length ?h))" using l(5) by simp
  qed (use p(1) psb assms(7) kc(1) in linarith)
  have 2: "skip_to is_nl c' (length c') (f + length ?h) = p"
    by (rule skip_eq) (use p lt psb assms(7) kc(1) pl in auto)
  have 3: "skip_to (\<lambda>c. \<not> is_nl c) c' (length c') p = sb"
  proof (rule skip_eq)
    show "\<not> is_nl (c' ! sb)"
    proof (cases "sb = kb")
      case False
      then have "sb < kb" using assms(7) by simp
      then show ?thesis using q(4) lt assms(8) f(7) by simp
    qed (use kc(2) k0 in simp)
  qed (use q(1,3) lt assms(7) kc(1) in auto)
  let ?u = "take (kb - sb) (drop sb c)" and ?e = "section_end True sb (drop sb (c' @ [NUL]))"
  obtain w where w: "drop kb c' = key_line k v @ w" using assms(9) by (auto simp: line_at_def)
  have ul: "length ?u = kb - sb" "sb + length ?u = kb" using assms(7,8) f(7) by simp_all
  have "drop sb (c @ [NUL]) = drop sb c @ [NUL]" using f(6,7) by simp
  then have "drop sb (c @ [NUL]) = ?u @ drop kb c @ [NUL]" using drop_split [OF assms(7), of c] by simp
  then obtain g where g: "\<forall>w'. section_end True sb (?u @ w') = section_end g (sb + length ?u) w'"
    using section_end_reach [of sb ?u True "drop kb c @ [NUL]"] assms(8) f(4) ul by auto
  have "take (kb - sb) (drop sb c') = ?u" by (rule take_drop_local [OF assms(6)]) (use assms(7) in simp)
  then have d: "drop sb (c' @ [NUL]) = ?u @ k @ '' = '' @ v @ [LF] @ (w @ [NUL])"
    using drop_split [OF assms(7), of c'] w assms(7) kc(1) by (simp add: key_line_def)
  have "kb + length k + length v + 4 \<le> ?e" unfolding d g [rule_format] ul(2) by (rule section_end_line [OF assms(10,11)])
  moreover have "?e \<le> length c'" using section_end_le [of True sb "drop sb c'"] assms(7) kc(1) by simp
  moreover have "LocateSection (Some s) i' = Some (Some (sb, ?e))"
    using assms(5) 1 2 3 by (simp add: LocateSection_def ini_ok_def header_of_section_def Let_def)
  ultimately show ?thesis using that by blast
qed

section \<open>Changing a value\<close>

text \<open>The text after a change: the line of the key in place of the text between two positions.\<close>

lemma line_put:
  assumes "kb \<le> length c"
  shows "take kb (take kb c @ key_line k v @ w) = take kb c" "line_at (take kb c @ key_line k v @ w) kb k v"
  using assms by (simp_all add: line_at_def)

lemma put_ends:
  "is_nl (last c) \<Longrightarrow> c \<noteq> [] \<Longrightarrow> is_nl (last (take kb c @ key_line k v @ drop ke c))"
  by (cases "ke < length c") (simp_all add: key_line_def is_nl_def)

lemma set_put:
  assumes "ini_ok c i" "LocateSection (Some s) i = Some (Some (sb, se))" "LocateKeyRange (ToLower c) c k sb se = Some r"
    "(kb, ke) = (case r of None \<Rightarrow> (sb, sb) | Some x \<Rightarrow> x)"
  shows "SetItemValue (Some s) (Some k) (Some v) wr i =
    Some (ini_filename i \<noteq> None \<and> fst wr \<and> snd wr,
      i\<lparr>ini_content := Some (take kb c @ key_line k v @ drop ke c), ini_shadow := Some (ToLower (take kb c @ key_line k v @ drop ke c))\<rparr>)"
  using assms(1-3) by (simp add: SetItemValue_def ini_ok_def key_line_def assms(4) [symmetric])

lemma get_at:
  assumes "ini_ok c i" "LocateSection (Some s) i = Some (Some (sb, se))" "line_at c kb k v"
    "LocateKeyValue (ToLower c) c k sb se = Some (Some (kb + length k + 3, kb + length k + 3 + length v))" "length v + 1 < n"
  shows "GetItemValue (Some s) (Some k) n i = Some (length v, v)"
proof -
  obtain w where w: "drop kb c = key_line k v @ w" using assms(3) by (auto simp: line_at_def)
  have "drop (kb + length k + 3) c = drop (length k + 3) (drop kb c)" by (simp add: add.commute add.left_commute)
  then have "take (length v) (drop (kb + length k + 3) c) = v" unfolding w by (simp add: key_line_def)
  then show ?thesis using assms(1,2,4,5) by (simp add: GetItemValue_def ini_ok_def Let_def)
qed

text \<open>
  C32: A value that was set is read back: in an open file whose text ends with a line, with a
  section that is found, setting a key (no blank, line end, equals sign or zero in it, no bracket
  in front) to a value (not empty, no blank in front, no tabulator, line end or zero in it)
  returns, whether the key had a value before or not, in whatever case and with whatever blanks;
  reading the key then yields exactly the value.  Afterwards the text ends with a line again and
  the section is still found, so that the next change can follow.
\<close>

theorem ini_set_get:
  assumes "ini_ok c i" "c \<noteq> []" "is_nl (last c)" "LocateSection (Some s) i = Some (Some (sb, se))" "key_word k" "value_text v"
    "length v + 1 < n"
  shows "\<exists>ok i' c' se'. SetItemValue (Some s) (Some k) (Some v) wr i = Some (ok, i') \<and>
    GetItemValue (Some s) (Some k) n i' = Some (length v, v) \<and>
    ini_ok c' i' \<and> c' \<noteq> [] \<and> is_nl (last c') \<and> LocateSection (Some s) i' = Some (Some (sb, se'))"
proof -
  have se: "sb \<le> se" "se \<le> length c" "(c @ [NUL]) ! se \<noteq> CHR ''=''" by (rule section_found [OF assms(1,4)]; simp)+
  obtain r where r: "LocateKeyRange (ToLower c) c k sb se = Some r" using key_range_returns [OF assms(5) se(2,3)] by blast
  obtain kb ke where k: "(kb, ke) = (case r of None \<Rightarrow> (sb, sb) | Some x \<Rightarrow> x)" by (metis surj_pair)
  let ?c = "take kb c @ key_line k v @ drop ke c"
  let ?i = "i\<lparr>ini_content := Some ?c, ini_shadow := Some (ToLower ?c)\<rparr>"
  have ok: "ini_ok ?c ?i" using assms(1) by (simp add: ini_ok_def)
  have kb: "sb \<le> kb" "kb \<le> se"
    using k key_range_found [OF assms(5) se(2,3), of sb kb ke] r se(1) by (cases r; force)+
  then have kc: "kb \<le> length c" using se(2) by simp
  note put = line_put [OF kc, of k v "drop ke c"]
  obtain se' where s': "LocateSection (Some s) ?i = Some (Some (sb, se'))" "kb + length k + length v + 4 \<le> se'" "se' \<le> length ?c"
    by (rule section_kept [OF assms(1,4,3,2) ok put(1) kb put(2) assms(5,6)])
  have ne: "ToLower k \<noteq> []" using assms(5) by (simp add: key_word_def)
  have "LocateKeyValue (ToLower ?c) ?c k sb se' = Some (Some (kb + length k + 3, kb + length k + 3 + length v))"
  proof (cases r)
    case (Some x)
    then have "LocateKeyRange (ToLower c) c k sb se = Some (Some (kb, ke))" using r k by simp
    then show ?thesis by (rule key_value_after [OF assms(5) se(2,3) put(1,2) assms(6) s'(2,3)])
  next
    case None
    then have sb: "sb = kb" using k by simp
    have "drop kb (ToLower (?c @ [NUL])) = ToLower k @ CHR '' '' # ToLower (''= '' @ v @ LF # drop ke c @ [NUL])"
      using kc by (simp add: ToLower_def key_line_def lower_char_def)
    moreover have "NUL \<notin> set (ToLower k)" using assms(5) unfolding NUL_lower key_word_def by blast
    ultimately have "LocateStr (ToLower (?c @ [NUL])) (ToLower k) kb se' = Some (Some kb)"
      by (rule locate_here [OF _ ne]) (use s'(2) in \<open>auto simp: is_blank_def\<close>)
    then show ?thesis unfolding sb by (rule key_value_line [OF _ put(2) assms(5,6) s'(2,3)])
  qed
  then have "GetItemValue (Some s) (Some k) n ?i = Some (length v, v)" by (rule get_at [OF ok s'(1) put(2) _ assms(7)])
  moreover have "?c \<noteq> []" by (simp add: key_line_def)
  ultimately show ?thesis using set_put [OF assms(1,4) r k] ok put_ends [OF assms(3,2)] s'(1) by blast
qed

section \<open>Ending\<close>

lemma key_value_step:
  assumes "k \<noteq> []" "e \<le> length c"
  obtains r where "LocateKeyValue (ToLower c) c k p e = Some r" "\<And>b q. r = Some (b, q) \<Longrightarrow> b < q"
    | q where "p < q" "p < e" "LocateKeyValue (ToLower c) c k p e = LocateKeyValue (ToLower c) c k q e"
proof -
  have ne: "ToLower k \<noteq> []" using assms(1) by simp
  obtain r where r: "LocateStr (ToLower (c @ [NUL])) (ToLower k) p e = Some r" using locate_returns [OF ne] by blast
  consider "e \<le> p" | "\<not> e \<le> p" "r = None" | f where "r = Some f" "\<not> e \<le> p" by (cases r) auto
  then show ?thesis
  proof cases
    case 1
    then show ?thesis by (intro that(1) [of None]) (subst LocateKeyValue.simps, simp_all)
  next
    case 2
    then show ?thesis using r by (intro that(1) [of None]) (subst LocateKeyValue.simps, simp_all)
  next
    case 3
    let ?q = "skip_to (\<lambda>c. \<not> is_blank c) c e (f + length k)"
    note l = locate_found [OF r [unfolded 3(1)] ne, unfolded length_ToLower]
    have q: "f + length k \<le> ?q" "?q \<le> e" by (rule skip_props [OF l(2) assms(2)])+
    have k: "0 < length k" using assms(1) by simp
    show ?thesis
    proof (cases "(c @ [NUL]) ! ?q = CHR ''=''")
      case False
      then have "LocateKeyValue (ToLower c) c k p e = LocateKeyValue (ToLower c) c k ?q e"
        using r 3 by (subst LocateKeyValue.simps) (simp add: Let_def)
      moreover have "p < ?q" "p < e" using q(1) l(1) k 3(2) by linarith+
      ultimately show ?thesis using that(2) by blast
    next
      case True
      let ?v = "skip_to (\<lambda>c. is_nl c \<or> \<not> is_blank c) c e (?q + 1)"
      let ?w = "skip_to (\<lambda>c. c = TAB \<or> is_nl c) c e ?v"
      have "LocateKeyValue (ToLower c) c k p e = Some (if ?w > ?v then Some (?v, ?w) else None)"
        using r 3 True by (subst LocateKeyValue.simps) (simp add: Let_def)
      then show ?thesis by (rule that(1)) (simp split: if_splits)
    qed
  qed
qed

lemma key_value_returns:
  assumes "k \<noteq> []" "e \<le> length c"
  shows "\<exists>r. LocateKeyValue (ToLower c) c k p e = Some r \<and> (\<forall>b q. r = Some (b, q) \<longrightarrow> b < q)"
proof (induction "e - p" arbitrary: p rule: less_induct)
  case less
  show ?case
  proof (rule key_value_step [OF assms, of p])
    fix q
    assume "p < q" "p < e" "LocateKeyValue (ToLower c) c k p e = LocateKeyValue (ToLower c) c k q e"
    then show ?thesis using less [of q] by simp
  qed blast
qed

text \<open>
  C33: Reading a value ends, whatever the text, the section and the key, unless the name of the key
  is empty, and it stays inside the buffer of the caller unless that has room for one character
  only: the text that is returned has the length that is returned and leaves room for the zero
  behind it.
\<close>

theorem ini_lookup_returns:
  assumes "ini_ok c i" "k \<noteq> []" "2 \<le> n"
  shows "\<exists>v. GetItemValue (Some s) (Some k) n i = Some (length v, v) \<and> length v < n"
proof -
  obtain r where r: "LocateSection (Some s) i = Some r" using section_returns by blast
  show ?thesis
  proof (cases r)
    case None
    then show ?thesis using r assms by (simp add: GetItemValue_def ini_ok_def)
  next
    case (Some x)
    obtain sb se where x: "x = (sb, se)" by (cases x)
    have "se \<le> length c" by (rule section_found [OF assms(1) r [unfolded Some x]]) simp
    from key_value_returns [OF assms(2) this, of sb]
    obtain y where y: "LocateKeyValue (ToLower c) c k sb se = Some y" by blast
    show ?thesis using r Some x y assms
      by (cases y) (auto simp: GetItemValue_def ini_ok_def Let_def min_def)
  qed
qed

lemma search_empty_loops:
  "SearchMarchStr b pat temp = Some r \<Longrightarrow> pat = [] \<Longrightarrow> stops (b ! temp)"
proof (rule SearchMarchStr.raw_induct [of "\<lambda>b pat temp r. pat = [] \<longrightarrow> stops (b ! temp)", THEN mp])
  fix search b pat temp r
  assume IH: "\<And>b pat temp r. search b pat temp = Some r \<Longrightarrow> pat = [] \<longrightarrow> stops (b ! temp)"
    and eq: "(case strstr b temp pat of None \<Rightarrow> Some None
      | Some f \<Rightarrow>
          if temp < f \<and> \<not> (is_blank (b ! (f - 1)) \<or> is_nl (b ! (f - 1))) then search b pat (f + length pat)
          else if stops (b ! (f + length pat)) then Some (Some f) else search b pat (f + length pat)) = Some r"
  show "pat = [] \<longrightarrow> stops (b ! temp)"
  proof
    assume "pat = []"
    then have "strstr b temp pat = Some temp" by (subst strstr_def, subst find_sub.simps) simp
    then show "stops (b ! temp)" using eq IH [of b pat temp r] \<open>pat = []\<close> by (auto split: if_splits)
  qed
qed

text \<open>
  With an empty name for the key reading a value does not end, unless the section is empty or
  starts with a blank or an equals sign.
\<close>

theorem ini_empty_key_hangs:
  assumes "ini_ok c i" "LocateSection (Some s) i = Some (Some (sb, se))" "sb < se" "\<not> is_blank (c ! sb)" "c ! sb \<noteq> CHR ''=''" "0 < n"
  shows "GetItemValue (Some s) (Some []) n i = None"
proof -
  obtain p where p: "sb = skip_to (\<lambda>c. \<not> is_nl c) c (length c) p" "p \<le> sb" "se \<le> length c"
    by (rule section_found [OF assms(1,2)]) auto
  then have sb: "sb < length c" using assms(3) by simp
  then have "\<not> is_nl (c ! sb)"
    using skip_props(4) [of p "length c" c "\<lambda>c. \<not> is_nl c"] p by simp
  then have "\<not> stops (ToLower (c @ [NUL]) ! sb)" using assms(4,5) sb by (simp add: nth_append)
  then have "SearchMarchStr (ToLower (c @ [NUL])) [] sb = None"
    using search_empty_loops [of "ToLower (c @ [NUL])" "[]" sb] by (cases "SearchMarchStr (ToLower (c @ [NUL])) [] sb") auto
  then have "LocateStr (ToLower (c @ [NUL])) (ToLower []) sb se = None" using assms(3) by (simp add: LocateStr_def ToLower_def)
  then have "LocateKeyValue (ToLower c) c [] sb se = None" using assms(3) by (subst LocateKeyValue.simps) simp
  then show ?thesis using assms(1,2,6) by (simp add: GetItemValue_def ini_ok_def)
qed

section \<open>Examples\<close>

definition small_text :: string where
  "small_text = ''[S]'' @ [LF] @ ''b=1'' @ [LF]"

definition small_ini :: ini where
  "small_ini = \<lparr>ini_filename = Some ''f'', ini_content = Some small_text, ini_shadow = Some (ToLower small_text), ini_open = True\<rparr>"

lemma small_ok: "ini_ok small_text small_ini"
  by (simp add: ini_ok_def small_ini_def)

lemma small_section: "LocateSection (Some ''s'') small_ini = Some (Some (4, 8))"
proof -
  have h: "ToLower (''['' @ ''s'' @ '']'') = ''[s]''" by code_simp
  have t: "ToLower (small_text @ [NUL]) = ''[s]'' @ LF # ''b=1'' @ [LF, NUL]" by code_simp
  have n: "length small_text = 8" by code_simp
  have 1: "LocateStr (ToLower small_text @ [NUL]) ''[s]'' 0 8 = Some (Some 0)"
    unfolding lower_end by (rule locate_here [where c = LF and w = "''b=1'' @ [LF, NUL]"]) (simp_all only: t, simp_all add: is_nl_def)
  have 2: "skip_to is_nl small_text 8 (0 + length ''[s]'') = 3" "skip_to (\<lambda>c. \<not> is_nl c) small_text 8 3 = 4" by code_simp+
  have 3: "section_end True 4 (drop 4 (small_text @ [NUL])) = 8" by code_simp
  show ?thesis unfolding LocateSection_def small_ini_def
    by (simp only: prod.case option.case ini.simps h n 1 2 3 Let_def bind.bind_lunit)
qed

theorem ini_set_get_witness:
  "\<exists>ok i'. SetItemValue (Some ''s'') (Some ''a'') (Some ''x y'') (True, True) small_ini = Some (ok, i') \<and>
    GetItemValue (Some ''s'') (Some ''a'') 9 i' = Some (3, ''x y'')"
proof -
  have "key_word ''a''" "value_text ''x y''" by (simp_all add: key_word_def value_text_def is_blank_def is_nl_def)
  then show ?thesis
    using ini_set_get [OF small_ok _ _ small_section, of "''a''" "''x y''" 9 "(True, True)"] by (auto simp: small_text_def is_nl_def)
qed

theorem ini_lookup_returns_witness:
  "\<exists>v. GetItemValue (Some ''none'') (Some ''b'') 5 small_ini = Some (length v, v) \<and> length v < 5"
  using ini_lookup_returns [OF small_ok, of "''b''" 5 "''none''"] by simp

theorem ini_empty_key_hangs_witness: "GetItemValue (Some ''s'') (Some []) 5 small_ini = None"
  using ini_empty_key_hangs [OF small_ok small_section, of 5] by (simp add: small_text_def is_blank_def)

end
