(* ===== verification/ServConf.thy ===== *)
theory ServConf
  imports Ctrl Proxy Worker
begin

text \<open>
  The configuration of a proxy and of a worker: \<open>initconf\<close> of \<open>proxy/defaultproxy.cpp\<close> and of
  \<open>worker/defaultworker.cpp\<close>, the route tables of the worker, and \<open>load_bench_adapter\<close> of
  \<open>base/benchadapter.cpp\<close>, which loads the user's library.

  What the XML parser yields is an input: the elements of a file with their attributes (an absent
  one is empty) and their children.  So are the results of system calls: the addresses of names,
  the segments of keys, the symbols of a library, the lines of a file.  A failed assertion, a
  call of a null pointer, a buffer that overflows and an overflow of an \<open>int\<close> are \<open>None\<close>.
\<close>

section \<open>Elements of a file\<close>

datatype xml = Elem (xname: string) (xattr: attrs) (xsubs: "xml list")

text \<open>\<open>FindElem\<close>: the first element of the name from the position on, and the position behind it.\<close>

fun find_elem :: "string \<Rightarrow> xml list \<Rightarrow> (xml \<times> xml list) option" where
  "find_elem n [] = None"
| "find_elem n (e # es) = (if xname e = n then Some (e, es) else find_elem n es)"

definition children :: "string \<Rightarrow> xml \<Rightarrow> attrs list" where
  "children n e = map xattr (filter (\<lambda>c. xname c = n) (xsubs e))"

section \<open>The user's library\<close>

datatype dll_fn = UserFn | DefaultFn

record sppdll =
  dl_init :: bool
  dl_input :: dll_fn
  dl_route :: bool
  dl_queue_full :: dll_fn
  dl_reloadconfig :: bool
  dl_event_route :: dll_fn
  dl_process :: bool
  dl_fini :: bool
  dl_syms :: "string \<Rightarrow> bool"

text \<open>The library is opened, with three more attempts when that fails; its symbols are a predicate.\<close>

fun dlopen_retry :: "nat \<Rightarrow> (nat \<Rightarrow> (string \<Rightarrow> bool) option) \<Rightarrow> nat \<Rightarrow> (string \<Rightarrow> bool) option" where
  "dlopen_retry i f 0 = f i"
| "dlopen_retry i f (Suc n) = (case f i of None \<Rightarrow> dlopen_retry (Suc i) f n | Some s \<Rightarrow> Some s)"

definition or_default :: "bool \<Rightarrow> dll_fn" where
  "or_default b = (if b then UserFn else DefaultFn)"

definition load_bench_adapter :: "(nat \<Rightarrow> (string \<Rightarrow> bool) option) \<Rightarrow> (int \<times> sppdll) option" where
  "load_bench_adapter dlopen = do {
     sym \<leftarrow> dlopen_retry 0 dlopen 3;
     let d = \<lparr>dl_init = sym ''spp_handle_init'', dl_input = or_default (sym ''spp_handle_input''),
       dl_route = sym ''spp_handle_route'', dl_queue_full = or_default (sym ''spp_handle_queue_full''),
       dl_reloadconfig = sym ''spp_handle_reloadconfig'', dl_event_route = or_default (sym ''spp_handle_event_route''),
       dl_process = sym ''spp_handle_process'', dl_fini = sym ''spp_handle_fini'', dl_syms = sym\<rparr>;
     if dl_process d then Some (0, d) else None
   }"

section \<open>State and inputs\<close>

text \<open>The members of \<open>CServerBase\<close> that the two processes share.\<close>

record server =
  sv_group_num :: nat
  sv_group_id :: nat
  sv_max_proc :: nat
  sv_moni_inter :: nat
  sv_mqkey :: int
  sv_cli :: procmon_cli
  sv_pol :: stat_policies
  sv_stat :: "stat_pool option"
  sv_dll :: "sppdll option"
  sv_fwlog :: "(string \<times> string \<times> int) option"
  sv_log :: "(string \<times> string \<times> int) option"
  sv_local :: "string option"
  sv_timers :: "timer_info list"
  sv_flag :: byte

record serv_in =
  si_arg :: "nat \<Rightarrow> string"
  si_xml :: "string \<Rightarrow> xml list"
  si_statfile :: "bool \<times> bool \<times> bool \<times> bool \<times> stat_pool"
  si_pid :: int
  si_ifip :: "string \<Rightarrow> nat"
  si_addr :: "string \<Rightarrow> nat option"
  si_shm :: "int \<Rightarrow> shm_env"
  si_newbuf :: "nat \<Rightarrow> bytes"
  si_now :: int
  si_fds :: "int list"
  si_pool :: mempool
  si_dlopen :: "string \<Rightarrow> nat \<Rightarrow> (string \<Rightarrow> bool) option"
  si_file :: "string \<Rightarrow> string option"
  si_aton :: "string \<Rightarrow> nat option"

definition serv_root :: "serv_in \<Rightarrow> nat \<Rightarrow> string \<Rightarrow> xml list option" where
  "serv_root i n name = map_option (\<lambda>p. xsubs (fst p)) (find_elem name (si_xml i (si_arg i n)))"

definition serv_groups :: "serv_in \<Rightarrow> server \<Rightarrow> server" where
  "serv_groups i sv = sv\<lparr>sv_group_num := u32_of_int (atoi (si_arg i 3)), sv_group_id := u32_of_int (atoi (si_arg i 4)),
     sv_max_proc := u32_of_int (atoi (si_arg i 5))\<rparr>"

text \<open>An \<open>int\<close> that must not overflow.\<close>

definition in_int :: "int \<Rightarrow> int option" where
  "in_int n = (if - (2 ^ 31) \<le> n \<and> n < 2 ^ 31 then Some n else None)"

section \<open>Logs, statistics, monitor, library\<close>

text \<open>The name of the program from its last slash on.\<close>

fun last_slash :: "string \<Rightarrow> string option" where
  "last_slash [] = None"
| "last_slash (c # cs) = (case last_slash cs of Some s \<Rightarrow> Some s | None \<Rightarrow> if c = CHR ''/'' then Some (c # cs) else None)"

text \<open>
  A log: its path, the prefix of its files and the key of its lock.  A worker adds its group to
  the prefix, in a buffer of \<open>n\<close> characters, and to the key.
\<close>

definition px_open_log :: "serv_in \<Rightarrow> attrs \<Rightarrow> (string \<times> string \<times> int) option" where
  "px_open_log i e = do {
     p \<leftarrow> last_slash (si_arg i 0);
     if log_ok e then Some (e ''path'', p, int_of_long (strtol0 (e ''key_base''))) else None
   }"

definition wk_open_log :: "nat \<Rightarrow> nat \<Rightarrow> serv_in \<Rightarrow> attrs \<Rightarrow> (string \<times> string \<times> int) option" where
  "wk_open_log n group_id i e = do {
     p \<leftarrow> last_slash (si_arg i 0);
     let pfx = p @ show_int (s32_of_nat group_id);
     if length pfx < n \<and> log_ok e
     then Some (e ''path'', pfx, s32_of_nat (add32 (u32_of_int (int_of_long (strtol0 (e ''key_base'')))) group_id)) else None
   }"

fun init_statobjs :: "stat_policies \<Rightarrow> (string \<times> int) list \<Rightarrow> stat_pool \<Rightarrow> stat_pool option" where
  "init_statobjs pol [] p = Some p"
| "init_statobjs pol ((n, ty) # l) p =
     (case init_statobj pol (map of_char n) ty None 1 p of None \<Rightarrow> None | Some (ret, p') \<Rightarrow> init_statobjs pol l p')"

definition serv_init_stat :: "(string \<times> int) list \<Rightarrow> attrs \<Rightarrow> serv_in \<Rightarrow> server \<Rightarrow> server option" where
  "serv_init_stat l e i sv = do {
     let (ret, p) = init_statpool (if e ''mapfile'' = [] then None else Some (si_statfile i));
     p \<leftarrow> (if ret = -2020 \<or> ret = -2021 then sv_stat sv else p);
     p \<leftarrow> init_statobjs (sv_pol sv) l p;
     Some (sv\<lparr>sv_stat := Some p\<rparr>)
   }"

definition no_proc_info :: proc_info where
  "no_proc_info = \<lparr>pi_groupid = 0, pi_procid = 0, pi_timestamp = 0, pi_watermark = 0, pi_srate = 0, pi_delay = 0,
     pi_memused = 0, pi_curconn = 0\<rparr>"

text \<open>Only the proxy checks the key.\<close>

definition serv_init_moni :: "bool \<Rightarrow> attrs \<Rightarrow> serv_in \<Rightarrow> server \<Rightarrow> server option" where
  "serv_init_moni check e i sv =
     (let inter = u32_of_int (atoi (e ''intervial'')); key = int_of_long (strtol0 (e ''key_base''))
      in if inter = 0 \<or> check \<and> key = -1 then None
         else Some (sv\<lparr>sv_moni_inter := inter, sv_mqkey := key,
           sv_cli := (sv_cli sv)\<lparr>pc_info := no_proc_info\<lparr>pi_groupid := s32_of_nat (sv_group_id sv), pi_procid := si_pid i\<rparr>\<rparr>\<rparr>))"

text \<open>
  Loading the library and calling its \<open>spp_handle_init\<close>, which may use the whole server, here
  \<open>ui\<close> on a state of any type; \<open>upd\<close> changes the members of the base in it.
\<close>

definition serv_load ::
  "(string \<Rightarrow> 's \<Rightarrow> (int \<times> 's) option) \<Rightarrow> attrs \<Rightarrow> serv_in \<Rightarrow> ((server \<Rightarrow> server) \<Rightarrow> 's \<Rightarrow> 's) \<Rightarrow> 's \<Rightarrow> (sppdll \<times> 's) option" where
  "serv_load ui e i upd st = do {
     (_, d) \<leftarrow> load_bench_adapter (si_dlopen i (e ''bin''));
     if \<not> dl_init d then None
     else do {
       (ret, st) \<leftarrow> ui (e ''etc'') (upd (\<lambda>sv. sv\<lparr>sv_dll := Some d\<rparr>) st);
       if ret = 0 then Some (d, st) else None
     }
   }"

section \<open>The proxy\<close>

text \<open>A socket of the acceptor; a path has 256 bytes.\<close>

definition entry_bind :: "(string \<Rightarrow> nat option) \<Rightarrow> string \<Rightarrow> attrs \<Rightarrow> sock_bind option" where
  "entry_bind ip addr e =
     (if e ''type'' = ''tcp'' \<or> e ''type'' = ''udp''
      then do {
        a \<leftarrow> ip (e addr);
        Some \<lparr>sb_type = (if e ''type'' = ''tcp'' then SOCK_TYPE_TCP else SOCK_TYPE_UDP), sb_ip = a,
          sb_port = nat (atoi (e ''port'') mod 2 ^ 16), sb_path = []\<rparr>
      }
      else if e ''type'' = ''unix''
      then Some \<lparr>sb_type = SOCK_TYPE_UNIX, sb_ip = 0, sb_port = 0, sb_path = take 256 (map of_char (e ''path''))\<rparr>
      else None)"

fun map_opt :: "('a \<Rightarrow> 'b option) \<Rightarrow> 'a list \<Rightarrow> 'b list option" where
  "map_opt f [] = Some []"
| "map_opt f (x # xs) = (case f x of None \<Rightarrow> None | Some y \<Rightarrow> map_option ((#) y) (map_opt f xs))"

definition px_sock_conf :: "serv_in \<Rightarrow> xml \<Rightarrow> sock_conf option" where
  "px_sock_conf i a = do {
     let e = xattr a;
     let sc = \<lparr>sc_binds = [], sc_maxconn = atoi (e ''maxconn''), sc_maxpkg = atoi (e ''maxpkg''), sc_expiretime = atoi (e ''timeout''),
       sc_check_interval = atoi (e ''check_expire_interval'')\<rparr>;
     if \<not> (e ''type'' = ''socket'' \<and> sc_maxconn sc > 0 \<and> sc_maxpkg sc \<ge> 0 \<and> sc_expiretime sc \<ge> 0 \<and> sc_check_interval sc \<ge> 0) then None
     else do {
       binds \<leftarrow> map_opt (entry_bind (\<lambda>n. Some (si_ifip i n)) ''if'') (children ''entry'' a);
       if binds = [] \<or> length binds > SOCK_MAX_BIND then None else Some (sc\<lparr>sc_binds := binds\<rparr>)
     }
   }"

definition px_acceptor :: "serv_in \<Rightarrow> xml list \<Rightarrow> sock_commu \<Rightarrow> sock_commu option" where
  "px_acceptor i conf s = do {
     (a, _) \<leftarrow> find_elem ''acceptor'' conf;
     sc \<leftarrow> px_sock_conf i a;
     (ret, s) \<leftarrow> sock_init sc (si_fds i) (si_pool i) (si_now i) s;
     if ret = 0 then Some s else None
   }"

text \<open>A pair of pipes: the segments are those of its keys, which wrap around; its sizes must not.\<close>

definition open_pipe :: "serv_in \<Rightarrow> int \<Rightarrow> int \<Rightarrow> shm_conf \<Rightarrow> shm_commu option" where
  "open_pipe i kp kc conf = do {
     _ \<leftarrow> in_int (shmsize_producer conf);
     _ \<leftarrow> in_int (shmsize_comsumer conf);
     (ret, c) \<leftarrow> commu_init conf (si_shm i (int_of_long kp)) (si_shm i (int_of_long kc)) (si_newbuf i) (si_now i) (\<lambda>_. False);
     if ret = 0 then Some c else None
   }"

definition reg_cbs :: "cb_type list \<Rightarrow> shm_commu \<Rightarrow> shm_commu" where
  "reg_cbs l c = fold (\<lambda>ty c. snd (reg_cb c ty True)) l c"

definition px_pipes :: "serv_in \<Rightarrow> nat \<Rightarrow> attrs \<Rightarrow> shm_commu list option" where
  "px_pipes i group_num e =
     map_opt (\<lambda>k. map_option (reg_cbs [CB_RECVDATA]) (open_pipe i (key_producer k) (key_comsumer k) (key_conf k)))
       (px_shm_confs (int_of_long (strtol0 (e ''key_base''))) (atoi (e ''send_size'')) (atoi (e ''recv_size'')) group_num)"

definition px_connector :: "serv_in \<Rightarrow> nat \<Rightarrow> xml list \<Rightarrow> xml list \<Rightarrow> shm_commu list option" where
  "px_connector i group_num common conf =
     (case find_elem ''connector'' conf of
        Some (c, _) \<Rightarrow>
          if xattr c ''type'' = ''shm''
          then do { (q, _) \<leftarrow> find_elem ''ShmQueue'' common; px_pipes i group_num (xattr q) }
          else Some []
      | None \<Rightarrow> Some [])"

text \<open>\<open>fgets\<close> with a buffer of \<open>n + 1\<close> characters, and all the lines it yields.\<close>

definition fgets :: "nat \<Rightarrow> string \<Rightarrow> string" where
  "fgets n s = (let t = take n s; u = takeWhile (\<lambda>c. c \<noteq> CHR 0x0A) t in if length u < length t then u @ [CHR 0x0A] else t)"

function fgets_lines :: "string \<Rightarrow> string list" where
  "fgets_lines s = (if s = [] then [] else fgets 30 s # fgets_lines (drop (length (fgets 30 s)) s))"
  by pat_completeness auto
termination by (relation "measure length") (auto simp: fgets_def Let_def)

declare fgets_lines.simps [simp del]

definition read_iplist :: "serv_in \<Rightarrow> string \<Rightarrow> nat list" where
  "read_iplist i f =
     (case si_file i f of None \<Rightarrow> []
      | Some s \<Rightarrow> fold (\<lambda>l t. case si_aton i l of None \<Rightarrow> t | Some ip \<Rightarrow> List.insert ip t) (fgets_lines s) [])"

text \<open>The list of addresses; without any the limit is off.\<close>

definition px_iplist :: "serv_in \<Rightarrow> xml list \<Rightarrow> nat \<times> nat list" where
  "px_iplist i conf =
     (case find_elem ''iptable'' conf of None \<Rightarrow> (IPLIMIT_DISABLE, [])
      | Some (e, _) \<Rightarrow>
          let (limit, f) = (if xattr e ''whitelist'' \<noteq> [] then (IPLIMIT_WHITE_LIST, xattr e ''whitelist'')
                            else if xattr e ''blacklist'' \<noteq> [] then (IPLIMIT_BLACK_LIST, xattr e ''blacklist'')
                            else (IPLIMIT_DISABLE, []));
              t = (if limit \<noteq> IPLIMIT_DISABLE then read_iplist i f else [])
          in (if t = [] then IPLIMIT_DISABLE else limit, t))"

definition px_stats :: "(string \<times> int) list" where
  "px_stats = [(''proxy_ator_recv_num'', 1), (''proxy_ctor_recv_num'', 1), (''proxy_ator_conn_num'', 32)]"

definition px_local_handle :: "attrs \<Rightarrow> sppdll \<Rightarrow> string option option" where
  "px_local_handle e d =
     (if e ''local_handle'' \<noteq> [] then (if dl_syms d (e ''local_handle'') then Some (Some (e ''local_handle'')) else None)
      else Some None)"

type_synonym 'm px_proc = "server \<times> 'm px_state"

text \<open>The second half: statistics, monitor, the user's library and the list of addresses.\<close>

definition px_rest ::
  "(string \<Rightarrow> 'm px_proc \<Rightarrow> (int \<times> 'm px_proc) option) \<Rightarrow> serv_in \<Rightarrow> xml list \<Rightarrow> xml list \<Rightarrow> 'm px_proc \<Rightarrow> 'm px_proc option" where
  "px_rest ui i common conf st = do {
     let (sv, x) = st;
     (e, _) \<leftarrow> find_elem ''stat'' common;
     sv \<leftarrow> serv_init_stat px_stats (xattr e) i sv;
     (e, _) \<leftarrow> find_elem ''moni'' common;
     sv \<leftarrow> serv_init_moni True (xattr e) i sv;
     (m, _) \<leftarrow> find_elem ''module'' conf;
     (d, sv, s, px) \<leftarrow> serv_load ui (xattr m) i (\<lambda>f (sv, x). (f sv, x)) (sv, x);
     local \<leftarrow> px_local_handle (xattr m) d;
     let (limit, t) = px_iplist i conf;
     Some (sv\<lparr>sv_local := local\<rparr>, s, px\<lparr>px_iplimit := limit, px_iptable := t\<rparr>)
   }"

definition px_logs :: "serv_in \<Rightarrow> xml list \<Rightarrow> server \<Rightarrow> server option" where
  "px_logs i common sv = do {
     (e, _) \<leftarrow> find_elem ''fwlog'' common;
     fwlog \<leftarrow> px_open_log i (xattr e);
     (e, _) \<leftarrow> find_elem ''log'' common;
     log \<leftarrow> px_open_log i (xattr e);
     Some (sv\<lparr>sv_fwlog := Some fwlog, sv_log := Some log\<rparr>)
   }"

definition px_initconf ::
  "(string \<Rightarrow> 'm px_proc \<Rightarrow> (int \<times> 'm px_proc) option) \<Rightarrow> bool \<Rightarrow> serv_in \<Rightarrow> 'm px_proc \<Rightarrow> 'm px_proc option" where
  "px_initconf ui again i st = do {
     let (sv, s, px) = st;
     common \<leftarrow> serv_root i 1 ''common'';
     conf \<leftarrow> serv_root i 2 ''proxy'';
     if sv_group_id (serv_groups i sv) \<noteq> 0 then None
     else do {
       sv \<leftarrow> px_logs i common (serv_groups i sv);
       s \<leftarrow> (if again then Some s else px_acceptor i conf s);
       pipes \<leftarrow> (if again then Some [] else px_connector i (sv_group_num sv) common conf);
       px_rest ui i common conf (sv, s, px\<lparr>px_ctor := px_ctor px @ pipes\<rparr>)
     }
   }"

section \<open>The route tables\<close>

definition AllTrim :: "string \<Rightarrow> string" where
  "AllTrim s = filter (\<lambda>c. c \<noteq> CHR '' '') s"

definition hex_digit :: "nat \<Rightarrow> char" where
  "hex_digit d = char_of (if d < 10 then 48 + d else 87 + d)"

definition hex8 :: "nat \<Rightarrow> string" where
  "hex8 n = map (\<lambda>k. hex_digit (n div 16 ^ (7 - k) mod 16)) [0..<8]"

definition wk_node :: "serv_in \<Rightarrow> nat \<Rightarrow> attrs \<Rightarrow> node_info option" where
  "wk_node i serv_type e = do {
     b \<leftarrow> entry_bind (si_addr i) ''serv_addr'' e;
     Some \<lparr>n_serv_type = serv_type, n_node_id = u32_of_int (atoi (e ''id'')), n_begin = u32_of_int (atoi (e ''begin'')),
       n_end = u32_of_int (atoi (e ''end'')), n_bind = b\<rparr>
   }"

text \<open>
  One table.  \<open>substr\<close> throws behind the end of the string; without a route the number is not
  set, and not used.
\<close>

definition InitRouteTable :: "serv_in \<Rightarrow> nat \<Rightarrow> string \<Rightarrow> route_table option" where
  "InitRouteTable i serv_type f = do {
     (g, _) \<leftarrow> find_elem ''group'' (si_xml i f);
     let e = xattr g;
     let r = AllTrim (e ''route'');
     if u32_of_int (strtol0 (e ''serv_type'')) \<noteq> serv_type \<or> r \<noteq> [] \<and> (take 3 r \<noteq> ''key'' \<or> length r = 3) then None
     else do {
       ns \<leftarrow> map_opt (wk_node i serv_type) (children ''node'' g);
       Some \<lparr>rt_serv_type = serv_type, rt_version = e ''version'', rt_route = take 1 (drop 3 r),
         rt_route_val = (if r = [] then 0 else atoi (drop 4 r)), rt_nodes = fold (\<lambda>n. smap_set (n_node_id n) n) ns []\<rparr>
     }
   }"

text \<open>The name of a file has less than 1024 characters.\<close>

definition route_file :: "string \<Rightarrow> string \<Rightarrow> nat \<Rightarrow> string option" where
  "route_file base pfx serv_type =
     (let f = base @ ''/'' @ pfx @ ''_'' @ hex8 serv_type @ ''.xml'' in if length f < 1024 then Some f else None)"

fun route_tables :: "serv_in \<Rightarrow> string \<Rightarrow> string \<Rightarrow> attrs list \<Rightarrow> (nat, route_table) smap \<Rightarrow> (nat, route_table) smap option" where
  "route_tables i base pfx [] m = Some m"
| "route_tables i base pfx (e # es) m =
     (let st = u32_of_int (strtol0 (e ''serv_type''))
      in case route_file base pfx st of None \<Rightarrow> None
         | Some f \<Rightarrow> (case InitRouteTable i st f of None \<Rightarrow> None
                      | Some t \<Rightarrow> route_tables i base pfx es (smap_set st t m)))"

definition InitRouteConfig :: "serv_in \<Rightarrow> string \<Rightarrow> bool \<Rightarrow> route_config \<Rightarrow> route_config option" where
  "InitRouteConfig i f again rc =
     (if again then Some rc
      else do {
        (t, _) \<leftarrow> find_elem ''routetable'' (si_xml i f);
        let pfx = (if xattr t ''prefix'' = [] then ''route_table'' else xattr t ''prefix'');
        m \<leftarrow> route_tables i (xattr t ''basepath'') pfx (children ''group'' t) (rc_tables rc);
        Some (rc\<lparr>rc_tables := m\<rparr>)
      })"

section \<open>The worker\<close>

text \<open>
  The acceptor: a pair of pipes.  With the type \<open>socket\<close> the type is compared again with those
  of a socket, and the assertion always fails; with any other there is no acceptor, and the
  null pointer is used below.  \<open>ShmQueue\<close> is searched from where the last search ended.
\<close>

definition wk_acceptor :: "serv_in \<Rightarrow> server \<Rightarrow> xml list \<Rightarrow> xml list \<Rightarrow> shm_commu option" where
  "wk_acceptor i sv common conf = do {
     (a, _) \<leftarrow> find_elem ''acceptor'' conf;
     let e = xattr a;
     if e ''type'' \<noteq> ''shm'' then None
     else do {
       (q, _) \<leftarrow> find_elem ''ShmQueue'' common;
       let q = xattr q;
       let k = wk_shm_conf (int_of_long (strtol0 (q ''key_base''))) (atoi (q ''send_size'')) (atoi (q ''recv_size'')) (sv_group_id sv)
         (sv_max_proc sv) (atoi (e ''timeout'')) (atoi (e ''maxpkg''));
       c \<leftarrow> open_pipe i (wkey_producer k) (wkey_comsumer k) (wkey_conf k);
       Some (reg_cbs [CB_RECVDATA, CB_SENDDATA, CB_OVERLOAD] c)
     }
   }"

definition wk_route_config :: "serv_in \<Rightarrow> attrs \<Rightarrow> route_config option" where
  "wk_route_config i e = do {
     let maxpkg = atoi (e ''maxpkg'');
     let rc = \<lparr>rc_max_conn = atoi (e ''maxconn''), rc_maxpkg = (if maxpkg < 0 then 0 else maxpkg), rc_expiretime = atoi (e ''timeout''),
       rc_check_expire_interval = atoi (e ''check_expire_interval''), rc_tables = []\<rparr>;
     if rc_check_expire_interval rc < 0 then None else InitRouteConfig i (e ''route_table'') False rc
   }"

definition wk_connector :: "serv_in \<Rightarrow> xml list \<Rightarrow> 'm wk_state \<Rightarrow> 'm wk_state option" where
  "wk_connector i conf st =
     (case find_elem ''connector'' conf of
        Some (c, _) \<Rightarrow>
          if xattr c ''type'' = ''socket''
          then do {
            let (s, w) = st;
            rc \<leftarrow> wk_route_config i (xattr c);
            (ret, s) \<leftarrow> sock_InitExt rc (si_pool i) (si_now i) s;
            if ret = 0 then Some (s, w\<lparr>wk_has_ctor := True, wk_routes := Some rc\<rparr>) else None
          }
          else Some st
      | None \<Rightarrow> Some st)"

definition wk_stats :: "(string \<times> int) list" where
  "wk_stats = [(''work_ator_recv_num'', 1), (''work_ator_send_num'', 1), (''work_avg_proc_time'', 2), (''work_max_proc_time'', 4),
     (''work_fail_proc_num'', 1)]"

type_synonym 'm wk_proc = "server \<times> 'm wk_state"

text \<open>The logs; the result is also what stands behind the element \<open>log\<close>.\<close>

definition wk_logs :: "serv_in \<Rightarrow> xml list \<Rightarrow> server \<Rightarrow> (server \<times> xml list) option" where
  "wk_logs i common sv = do {
     (e, _) \<leftarrow> find_elem ''fwlog'' common;
     fwlog \<leftarrow> wk_open_log 128 (sv_group_id sv) i (xattr e);
     (e, rest) \<leftarrow> find_elem ''log'' common;
     log \<leftarrow> wk_open_log 256 (sv_group_id sv) i (xattr e);
     Some (sv\<lparr>sv_fwlog := Some fwlog, sv_log := Some log\<rparr>, rest)
   }"

definition wk_rest ::
  "(string \<Rightarrow> 'm wk_proc \<Rightarrow> (int \<times> 'm wk_proc) option) \<Rightarrow> serv_in \<Rightarrow> xml list \<Rightarrow> xml list \<Rightarrow> 'm wk_proc \<Rightarrow> 'm wk_proc option" where
  "wk_rest ui i common conf st = do {
     let (sv, x) = st;
     (e, _) \<leftarrow> find_elem ''stat'' common;
     sv \<leftarrow> serv_init_stat wk_stats (xattr e) i sv;
     (e, _) \<leftarrow> find_elem ''moni'' common;
     sv \<leftarrow> serv_init_moni False (xattr e) i sv;
     (m, _) \<leftarrow> find_elem ''module'' conf;
     (d, sv, s, w) \<leftarrow> serv_load ui (xattr m) i (\<lambda>f (sv, x). (f sv, x)) (sv, x);
     Some (sv, s, w\<lparr>wk_ator := reg_cbs [CB_RECVDATA, CB_CONNECTED, CB_OVERLOAD, CB_DISCONNECT, CB_TIMEOUT] (wk_ator w)\<rparr>)
   }"

definition wk_initconf ::
  "(string \<Rightarrow> 'm wk_proc \<Rightarrow> (int \<times> 'm wk_proc) option) \<Rightarrow> bool \<Rightarrow> serv_in \<Rightarrow> 'm wk_proc \<Rightarrow> 'm wk_proc option" where
  "wk_initconf ui again i st = do {
     let (sv, s, w) = st;
     common \<leftarrow> serv_root i 1 ''common'';
     conf \<leftarrow> serv_root i 2 ''worker'';
     let sv = serv_groups i sv;
     if \<not> (0 < sv_group_id sv \<and> sv_group_id sv < MAX_PROC_GROUP_NUM) then None
     else do {
       (sv, rest) \<leftarrow> wk_logs i common sv;
       w \<leftarrow> (if again then Some w else do { c \<leftarrow> wk_acceptor i sv rest conf; Some (w\<lparr>wk_ator := c\<rparr>) });
       (s, w) \<leftarrow> (if again then Some (s, w) else wk_connector i conf (s, w));
       wk_rest ui i common conf (sv, s, w)
     }
   }"

end
