(* ===== verification/ServRun.thy ===== *)
theory ServRun
  imports ServConf
begin

text \<open>
  The run of the proxy and of a worker: the arguments (\<open>CServerBase::run\<close>), the start, and the
  main loops (\<open>realrun\<close> of defaultproxy.cpp and defaultworker.cpp) with the report to the
  controller, the timers, the signals and the end.  \<open>px_turn\<close> and \<open>wk_turn\<close>, the first part of
  a round, stand in \<open>Proxy\<close> and \<open>Worker\<close>.

  The functions of the user's library that get the server itself are a record of functions on
  the whole state.  What a round finds outside the process (events, clocks, the queue of the
  monitor, signals) is its input.
\<close>

section \<open>Starting\<close>

text \<open>
  What \<open>run\<close> does with the arguments.  A \<open>-\<close> anywhere in the first argument makes it an option;
  it is compared with one character only.
\<close>

datatype start_kind = Usage | Version | Help | Invalid | Start bool

definition run_args :: "string list \<Rightarrow> start_kind" where
  "run_args argv =
     (if length argv < 7 then Usage
      else case dropWhile (\<lambda>c. c \<noteq> CHR ''-'') (argv ! 1) of
             [] \<Rightarrow> Start (length argv \<le> 7)
           | _ # p \<Rightarrow>
               let p = (if p \<noteq> [] \<and> hd p = CHR ''-'' then tl p else p)
               in if p = ''v'' then Version else if p = ''h'' then Help else Invalid)"

definition new_server :: "stat_policies \<Rightarrow> server" where
  "new_server pol = \<lparr>sv_group_num = 0, sv_group_id = 0, sv_max_proc = 0, sv_moni_inter = 15, sv_mqkey = 0,
     sv_cli = \<lparr>pc_info = no_proc_info, pc_notify = False, pc_cmds = []\<rparr>, sv_pol = pol, sv_stat = None, sv_dll = None,
     sv_fwlog = None, sv_log = None, sv_local = None, sv_timers = [], sv_flag = 0\<rparr>"

text \<open>The limit of descriptors and the ignored signals apart, \<open>startup\<close> clears the flags.\<close>

definition startup :: "server \<Rightarrow> server" where
  "startup sv = sv\<lparr>sv_flag := 0\<rparr>"

section \<open>Inputs and user functions\<close>

datatype user_signal = Usr1 | Usr2 | Usr3

fun catch_signals :: "user_signal list \<Rightarrow> byte \<Rightarrow> byte" where
  "catch_signals [] f = f"
| "catch_signals (Usr1 # ss) f = catch_signals ss (sigusr1_handle f)"
| "catch_signals (Usr2 # ss) f = catch_signals ss (sigusr2_handle f)"
| "catch_signals (Usr3 # ss) f = catch_signals ss (sigusr3_handle f)"

record 's user_fns =
  uf_init :: "string \<Rightarrow> 's \<Rightarrow> (int \<times> 's) option"
  uf_timer :: "nat \<Rightarrow> 's \<Rightarrow> 's option"
  uf_reloadconfig :: "string \<Rightarrow> 's \<Rightarrow> 's option"
  uf_fini :: "'s \<Rightarrow> 's option"

text \<open>
  What a round finds: the events of the sockets, fuel and results of the locks and clocks for the
  pipes, the time before and after the report, the time of day, the queue of the monitor, the
  memory in use, the files, and the signals that arrive before each of the three checks.
\<close>

record round_in =
  ri_events :: "net_event list"
  ri_fuel :: nat
  ri_locks :: "nat \<Rightarrow> int"
  ri_clk :: "nat \<Rightarrow> nat \<Rightarrow> timeval"
  ri_now :: nat
  ri_now2 :: int
  ri_tod :: timeval
  ri_queue :: procmon
  ri_mem :: nat
  ri_conf :: serv_in
  ri_sig :: "user_signal list \<times> user_signal list \<times> user_signal list"

record serv_loop =
  sl_montime :: nat
  sl_que_idle :: bool
  sl_tick :: int

text \<open>What a round yields: the microseconds it slept, the queue after a report, and whether to end.\<close>

record round_out =
  ro_sleep :: nat
  ro_queue :: "procmon option"
  ro_quit :: bool

text \<open>The functions that a process calls: those of the library, or the defaults of the adapter.\<close>

definition default_input :: "'m mod_fn" where
  "default_input flow b = (\<lambda>(s, m). do { d \<leftarrow> memrd (b_data b) 0 (nat (b_len b)); n \<leftarrow> default_handle_input d; Some (n, s, m) })"

definition px_funcs :: "server \<Rightarrow> 'm px_module \<Rightarrow> 'm px_module option" where
  "px_funcs sv um = do {
     d \<leftarrow> sv_dll sv;
     Some (um\<lparr>
       md_input := (if dl_input d = UserFn then md_input um else default_input),
       md_route := (if dl_route d then md_route um else None),
       md_local := (if sv_local sv = None then None else md_local um),
       md_queue_full := (if dl_queue_full d = UserFn then md_queue_full um
                         else (\<lambda>group flow b (s, m). Some (default_handle_queue_full, s, m))),
       md_event_route := (if dl_event_route d = UserFn then md_event_route um
                          else Some (\<lambda>et flow b (s, m). Some (default_handle_event_route, s, m)))\<rparr>)
   }"

definition wk_default_input :: "'m wk_fn" where
  "wk_default_input flow b st = do { d \<leftarrow> memrd (b_data b) 0 (nat (b_len b)); n \<leftarrow> default_handle_input d; Some (n, st) }"

definition wk_funcs :: "server \<Rightarrow> 'm wk_module \<Rightarrow> 'm wk_module option" where
  "wk_funcs sv um = do {
     d \<leftarrow> sv_dll sv;
     Some (um\<lparr>wm_input := (if dl_input d = UserFn then wm_input um else wk_default_input),
              wm_process := (if dl_process d then wm_process um else None)\<rparr>)
   }"

section \<open>Statistics and reports\<close>

text \<open>The counts that the callbacks have noted, in their order.\<close>

fun count_stats :: "(string \<times> int) list \<Rightarrow> server \<Rightarrow> server option" where
  "count_stats [] sv = Some sv"
| "count_stats ((n, v) # l) sv =
     (case sv_stat sv of None \<Rightarrow> None
      | Some p \<Rightarrow> (case step0 (sv_pol sv) (map of_char n) (word_of_int v) 1 p of None \<Rightarrow> None
                   | Some p \<Rightarrow> count_stats l (sv\<lparr>sv_stat := Some p\<rparr>)))"

text \<open>The first value and the count of a statistic; without the object the wrapper would not be set.\<close>

definition stat_value :: "string \<Rightarrow> server \<Rightarrow> (64 word \<times> 64 word) option" where
  "stat_value n sv = do {
     p \<leftarrow> sv_stat sv;
     (_, ob) \<leftarrow> stat_query (map of_char n) p;
     ob \<leftarrow> ob;
     v \<leftarrow> val_at (sp_vals p) (so_val_offset ob);
     Some (v, so_count ob)
   }"

definition send_report :: "(proc_info \<Rightarrow> proc_info) \<Rightarrow> procmon \<Rightarrow> server \<Rightarrow> (procmon \<times> server) option" where
  "send_report f pm sv = do {
     let c = sv_cli sv;
     (c, pm) \<leftarrow> cli_run (c\<lparr>pc_info := f (pc_info c)\<rparr>) pm;
     Some (pm, sv\<lparr>sv_cli := c\<rparr>)
   }"

text \<open>The report of the proxy; it counts the connections as it sends them.\<close>

definition px_report :: "round_in \<Rightarrow> server \<Rightarrow> sock_commu \<Rightarrow> (procmon \<times> server \<times> sock_commu) option" where
  "px_report ri sv s = do {
     (_, b, s) \<leftarrow> sock_ctrl 0 CT_LOAD 4 s;
     let n = le_val b;
     sv \<leftarrow> count_stats [(''proxy_ator_conn_num'', s32_of_nat n)] sv;
     (pm, sv) \<leftarrow> send_report (\<lambda>p. p\<lparr>pi_curconn := n, pi_watermark := 0, pi_memused := ri_mem ri, pi_timestamp := ri_now2 ri\<rparr>)
       (ri_queue ri) sv;
     Some (pm, sv, s)
   }"

text \<open>
  The report of a worker: the rate of success in thousandths and the mean delay, in unsigned
  arithmetic of 64 bits, cut to the 16 bits of \<open>srate_\<close> and \<open>delay_\<close>.  The time of the report, an
  unsigned integer, fits \<open>timestamp_\<close>, which is long.  The memory in use is set after the report was
  sent.
\<close>

definition wk_report :: "round_in \<Rightarrow> server \<Rightarrow> (procmon \<times> server) option" where
  "wk_report ri sv = do {
     (proc_num, _) \<leftarrow> stat_value ''work_ator_recv_num'' sv;
     srate \<leftarrow>
       (if proc_num > 0 then do { (fail_num, _) \<leftarrow> stat_value ''work_fail_proc_num'' sv; Some ((proc_num - fail_num) * 1000 div proc_num) }
        else Some 0);
     (v, n) \<leftarrow> stat_value ''work_avg_proc_time'' sv;
     let delay = (if n > 0 then v div n else 0);
     (pm, sv) \<leftarrow> send_report (\<lambda>p. p\<lparr>pi_watermark := 0, pi_srate := unat srate mod 2 ^ 16, pi_delay := unat delay mod 2 ^ 16,
         pi_timestamp := int (ri_now ri)\<rparr>) (ri_queue ri) sv;
     let c = sv_cli sv;
     Some (pm, sv\<lparr>sv_cli := c\<lparr>pc_info := (pc_info c)\<lparr>pi_memused := ri_mem ri\<rparr>\<rparr>\<rparr>)
   }"

definition report_due :: "round_in \<Rightarrow> serv_loop \<Rightarrow> server \<Rightarrow> bool" where
  "report_due ri lp sv \<longleftrightarrow> sub32 (ri_now ri) (sl_montime lp) > sv_moni_inter sv"

text \<open>The report when it is due, and the time of the last one.\<close>

definition px_monitor :: "round_in \<Rightarrow> serv_loop \<Rightarrow> server \<Rightarrow> sock_commu \<Rightarrow> (procmon option \<times> nat \<times> server \<times> sock_commu) option" where
  "px_monitor ri lp sv s =
     (if report_due ri lp sv then do { (pm, sv, s) \<leftarrow> px_report ri sv s; Some (Some pm, ri_now ri, sv, s) }
      else Some (None, sl_montime lp, sv, s))"

definition wk_monitor :: "round_in \<Rightarrow> serv_loop \<Rightarrow> server \<Rightarrow> (procmon option \<times> nat \<times> server) option" where
  "wk_monitor ri lp sv =
     (if report_due ri lp sv then do { (pm, sv) \<leftarrow> wk_report ri sv; Some (Some pm, ri_now ri, sv) }
      else Some (None, sl_montime lp, sv))"

section \<open>Timers and signals\<close>

text \<open>
  The round over the timers, with what their functions do to the server.  Timers that these
  register are not due yet.
\<close>

fun timer_round :: "(nat \<Rightarrow> server \<times> 'x \<Rightarrow> (server \<times> 'x) option) \<Rightarrow> timeval \<Rightarrow> nat list \<Rightarrow> server \<times> 'x \<Rightarrow> (server \<times> 'x) option" where
  "timer_round ut now [] st = Some st"
| "timer_round ut now (k # ks) st =
     (let t = sv_timers (fst st) ! k
      in if t_interval t \<le> timediff now (t_proctime t)
         then (case ut (t_func t) st of None \<Rightarrow> None
               | Some (sv, x) \<Rightarrow>
                   timer_round ut now ks (sv\<lparr>sv_timers := (sv_timers sv)[k := (sv_timers sv ! k)\<lparr>t_proctime := now\<rparr>]\<rparr>, x))
         else timer_round ut now ks st)"

definition run_timers :: "(nat \<Rightarrow> server \<times> 'x \<Rightarrow> (server \<times> 'x) option) \<Rightarrow> timeval \<Rightarrow> server \<times> 'x \<Rightarrow> (server \<times> 'x) option" where
  "run_timers ut now st = timer_round ut now [0..<length (sv_timers (fst st))] st"

text \<open>
  The three checks at the end of a round: the reload of the configuration, here \<open>init\<close>, that of
  the user's library, and the end.  Each takes its flag back.
\<close>

definition check_signals ::
  "string \<Rightarrow> (serv_in \<Rightarrow> server \<times> 'x \<Rightarrow> (server \<times> 'x) option) \<Rightarrow> (server \<times> 'x) user_fns \<Rightarrow> round_in \<Rightarrow> server \<times> 'x \<Rightarrow>
   (bool \<times> server \<times> 'x) option" where
  "check_signals name init u ri st = do {
     let (s1, s2, s3) = ri_sig ri;
     let (sv, x) = st;
     let (r, f) = reload (catch_signals s1 (sv_flag sv));
     let st = (sv\<lparr>sv_flag := f\<rparr>, x);
     (sv, x) \<leftarrow> (if r then init (ri_conf ri) st else Some st);
     let (r, f) = reloadmoduleconfig (catch_signals s2 (sv_flag sv));
     let st = (sv\<lparr>sv_flag := f\<rparr>, x);
     d \<leftarrow> sv_dll sv;
     (sv, x) \<leftarrow>
       (if r \<and> dl_reloadconfig d
        then do {
          conf \<leftarrow> serv_root (ri_conf ri) 2 name;
          (m, _) \<leftarrow> find_elem ''module'' conf;
          uf_reloadconfig u (xattr m ''etc'') st
        }
        else Some st);
     let (r, f) = quit (catch_signals s3 (sv_flag sv));
     Some (r, sv\<lparr>sv_flag := f\<rparr>, x)
   }"

section \<open>The main loops\<close>

definition px_round ::
  "'m px_proc user_fns \<Rightarrow> 'm px_module \<Rightarrow> round_in \<Rightarrow> serv_loop \<Rightarrow> 'm px_proc \<Rightarrow> (round_out \<times> serv_loop \<times> 'm px_proc) option" where
  "px_round u um ri lp st = do {
     let (sv, s, px) = st;
     md \<leftarrow> px_funcs sv um;
     (us, tick, que_idle, s, px) \<leftarrow> px_turn md (ri_events ri) (ri_fuel ri) (ri_clk ri) (sl_que_idle lp) (sl_tick lp) (s, px);
     sv \<leftarrow> count_stats (px_stat px) sv;
     let px = px\<lparr>px_stat := []\<rparr>;
     (pm, montime, sv, s) \<leftarrow> px_monitor ri lp sv s;
     (sv, s, px) \<leftarrow> run_timers (uf_timer u) (ri_tod ri) (sv, s, px);
     sv \<leftarrow> count_stats (px_stat px) sv;
     let px = px\<lparr>px_stat := []\<rparr>;
     (end_it, st) \<leftarrow> check_signals ''proxy'' (px_initconf (uf_init u) True) u ri (sv, s, px);
     Some (\<lparr>ro_sleep = us, ro_queue = pm, ro_quit = end_it\<rparr>, \<lparr>sl_montime = montime, sl_que_idle = que_idle, sl_tick = tick\<rparr>, st)
   }"

definition wk_round ::
  "'m wk_proc user_fns \<Rightarrow> 'm wk_module \<Rightarrow> round_in \<Rightarrow> serv_loop \<Rightarrow> 'm wk_proc \<Rightarrow> (round_out \<times> serv_loop \<times> 'm wk_proc) option" where
  "wk_round u um ri lp st = do {
     let (sv, s, w) = st;
     wm \<leftarrow> wk_funcs sv um;
     (us, tick, s, w) \<leftarrow> wk_turn wm (ri_fuel ri) (ri_locks ri) (ri_clk ri) (ri_events ri) (sl_tick lp) (s, w);
     sv \<leftarrow> count_stats (wk_stat w) sv;
     let w = w\<lparr>wk_stat := []\<rparr>;
     (sv, s, w) \<leftarrow> run_timers (uf_timer u) (ri_tod ri) (sv, s, w);
     sv \<leftarrow> count_stats (wk_stat w) sv;
     let w = w\<lparr>wk_stat := []\<rparr>;
     (pm, montime, sv) \<leftarrow> wk_monitor ri lp sv;
     (end_it, st) \<leftarrow> check_signals ''worker'' (wk_initconf (uf_init u) True) u ri (sv, s, w);
     Some (\<lparr>ro_sleep = us, ro_queue = pm, ro_quit = end_it\<rparr>, \<lparr>sl_montime = montime, sl_que_idle = sl_que_idle lp, sl_tick = tick\<rparr>, st)
   }"

text \<open>
  The rounds until the end: their results, whether the process has ended, and the state, after
  \<open>spp_handle_fini\<close> if so.
\<close>

fun run_rounds ::
  "(round_in \<Rightarrow> serv_loop \<Rightarrow> server \<times> 'x \<Rightarrow> (round_out \<times> serv_loop \<times> server \<times> 'x) option) \<Rightarrow> (server \<times> 'x) user_fns \<Rightarrow>
   round_in list \<Rightarrow> serv_loop \<Rightarrow> server \<times> 'x \<Rightarrow> (round_out list \<times> bool \<times> server \<times> 'x) option" where
  "run_rounds step u [] lp st = Some ([], False, st)"
| "run_rounds step u (ri # ris) lp st =
     (case step ri lp st of None \<Rightarrow> None
      | Some (ro, lp, st) \<Rightarrow>
          if ro_quit ro
          then (case sv_dll (fst st) of None \<Rightarrow> None
                | Some d \<Rightarrow> (case (if dl_fini d then uf_fini u st else Some st) of None \<Rightarrow> None | Some st \<Rightarrow> Some ([ro], True, st)))
          else (case run_rounds step u ris lp st of None \<Rightarrow> None | Some (ros, e, st) \<Rightarrow> Some (ro # ros, e, st)))"

definition loop_start :: "nat \<Rightarrow> server \<Rightarrow> serv_loop" where
  "loop_start t sv = \<lparr>sl_montime = sub32 (sub32 t (sv_moni_inter sv)) 1, sl_que_idle = False, sl_tick = 0\<rparr>"

text \<open>From the start: the configuration, read at \<open>i\<close>, and the loop, from the time \<open>t\<close> on.\<close>

definition px_realrun ::
  "'m px_proc user_fns \<Rightarrow> 'm px_module \<Rightarrow> serv_in \<Rightarrow> nat \<Rightarrow> round_in list \<Rightarrow> 'm px_proc \<Rightarrow> (round_out list \<times> bool \<times> 'm px_proc) option" where
  "px_realrun u um i t ris st = do {
     st \<leftarrow> px_initconf (uf_init u) False i (startup (fst st), snd st);
     run_rounds (px_round u um) u ris (loop_start t (fst st)) st
   }"

definition wk_realrun ::
  "'m wk_proc user_fns \<Rightarrow> 'm wk_module \<Rightarrow> serv_in \<Rightarrow> nat \<Rightarrow> round_in list \<Rightarrow> 'm wk_proc \<Rightarrow> (round_out list \<times> bool \<times> 'm wk_proc) option" where
  "wk_realrun u um i t ris st = do {
     st \<leftarrow> wk_initconf (uf_init u) False i (startup (fst st), snd st);
     run_rounds (wk_round u um) u ris (loop_start t (fst st)) st
   }"

end
