(* ===== verification/ServConfTheorems.thy ===== *)
theory ServConfTheorems
  imports ServConf CtrlRun SystemTheorems
begin

text \<open>
  What the configurations of the processes yield together: the pipes of the proxy and of the
  workers meet, keys are routed to the configured nodes, the list of addresses is enforced, and
  a reload leaves the connections alone.
\<close>

section \<open>Lists\<close>

lemma map_opt_nth: "map_opt f xs = Some ys \<Longrightarrow> length ys = length xs \<and> (\<forall>j<length xs. f (xs ! j) = Some (ys ! j))"
  by (induction xs arbitrary: ys) (auto simp: less_Suc_eq_0_disj split: option.splits)

lemma map_opt_set: "map_opt f xs = Some ys \<Longrightarrow> set ys = {y. \<exists>x\<in>set xs. f x = Some y}"
  by (induction xs arbitrary: ys) (auto split: option.splits)

lemma find_elem_mem: "find_elem n es = Some (e, r) \<Longrightarrow> e \<in> set es \<and> xname e = n \<and> set r \<subseteq> set es"
  by (induction n es rule: find_elem.induct) (auto split: if_splits)

lemma find_only:
  assumes "filter (\<lambda>e. xname e = n) es = [q]" "find_elem n es' = Some (e, r)" "set es' \<subseteq> set es"
  shows "e = q"
proof -
  have "e \<in> set (filter (\<lambda>e. xname e = n) es)" using find_elem_mem [OF assms(2)] assms(3) by auto
  then show ?thesis unfolding assms(1) by simp
qed

section \<open>Pipes\<close>

definition same_ring :: "shm_mq \<Rightarrow> shm_mq \<Rightarrow> bool" where
  "same_ring q r \<longleftrightarrow> mq_head q = mq_head r \<and> mq_tail q = mq_tail r \<and> mq_block q = mq_block r \<and> mq_blocksize q = mq_blocksize r"

text \<open>All segments exist and are attached.\<close>

definition attached :: "serv_in \<Rightarrow> bool" where
  "attached i \<longleftrightarrow> (\<forall>k. env_exists (si_shm i k) \<and> env_mapped (si_shm i k))"

definition ring_at :: "serv_in \<Rightarrow> int \<Rightarrow> int \<Rightarrow> shm_mq option" where
  "ring_at i k n = map_option snd (mq_init True True True (env_seg (si_shm i (int_of_long k))) n fresh_mq)"

lemma mq_init_attached: "mq_init True c True seg n q = mq_init True True True seg n q"
  by (simp add: mq_init_def getmemory_def)

lemma locked_init:
  "(if b then producerL_init e n else producer_init e n) = Some (0, q) \<Longrightarrow> producer_init e n = Some (0, q)"
  "(if b then comsumerL_init e n else comsumer_init e n) = Some (0, q) \<Longrightarrow> comsumer_init e n = Some (0, q)"
  by (auto simp: producerL_init_def comsumerL_init_def bind_eq_Some_conv split: if_splits)

lemma commu_init_ok:
  assumes "commu_init pconf ep ec newbuf now cbs = Some (0, c)"
  shows "\<exists>p q. producer_init ep (shmsize_producer pconf) = Some (0, p) \<and> comsumer_init ec (shmsize_comsumer pconf) = Some (0, q) \<and>
    producer c = p\<lparr>mq_msg_timeout := cf_msg_timeout pconf\<rparr> \<and> comsumer c = q\<lparr>mq_msg_timeout := cf_msg_timeout pconf\<rparr>"
proof -
  let ?P = "if cf_locktype pconf AND LOCK_TYPE_PRODUCER \<noteq> 0 then producerL_init ep (shmsize_producer pconf) else producer_init ep (shmsize_producer pconf)"
  let ?C = "if cf_locktype pconf AND LOCK_TYPE_COMSUMER \<noteq> 0 then comsumerL_init ec (shmsize_comsumer pconf) else comsumer_init ec (shmsize_comsumer pconf)"
  obtain r1 p where p: "?P = Some (r1, p)"
    using assms unfolding commu_init_def Let_def by (cases ?P) (auto split: if_splits)
  have r1: "r1 = 0" using assms unfolding commu_init_def Let_def p by (auto split: if_splits)
  obtain r2 q where q: "?C = Some (r2, q)"
    using assms r1 unfolding commu_init_def Let_def p by (cases ?C) (auto split: if_splits)
  have r2: "r2 = 0" and c: "producer c = p\<lparr>mq_msg_timeout := cf_msg_timeout pconf\<rparr>" "comsumer c = q\<lparr>mq_msg_timeout := cf_msg_timeout pconf\<rparr>"
    using assms r1 unfolding commu_init_def Let_def p q by (auto split: if_splits)
  then show ?thesis using locked_init(1) [OF p [unfolded r1]] locked_init(2) [OF q [unfolded r2]] by blast
qed

lemma open_pipe_rings:
  assumes "attached i" "open_pipe i kp kc pconf = Some c"
  shows "\<exists>p q. ring_at i kp (shmsize_producer pconf) = Some p \<and> ring_at i kc (shmsize_comsumer pconf) = Some q \<and>
    producer c = p\<lparr>mq_msg_timeout := cf_msg_timeout pconf\<rparr> \<and> comsumer c = q\<lparr>mq_msg_timeout := cf_msg_timeout pconf\<rparr>"
proof -
  have e: "env_exists (si_shm i k)" "env_mapped (si_shm i k)" for k using assms(1) by (auto simp: attached_def)
  have "commu_init pconf (si_shm i (int_of_long kp)) (si_shm i (int_of_long kc)) (si_newbuf i) (si_now i) (\<lambda>_. False) = Some (0, c)"
    using assms(2) by (auto simp: open_pipe_def bind_eq_Some_conv split: if_splits)
  from commu_init_ok [OF this] obtain p q where pq:
      "producer_init (si_shm i (int_of_long kp)) (shmsize_producer pconf) = Some (0, p)"
      "comsumer_init (si_shm i (int_of_long kc)) (shmsize_comsumer pconf) = Some (0, q)"
      "producer c = p\<lparr>mq_msg_timeout := cf_msg_timeout pconf\<rparr>" "comsumer c = q\<lparr>mq_msg_timeout := cf_msg_timeout pconf\<rparr>" by blast
  have "mq_init True True True (env_seg (si_shm i (int_of_long kp))) (shmsize_producer pconf) fresh_mq = Some (0, p)"
    using pq(1) unfolding producer_init_def by (simp only: e mq_init_attached [of "env_created (si_shm i (int_of_long kp))"])
  moreover have "mq_init True True True (env_seg (si_shm i (int_of_long kc))) (shmsize_comsumer pconf) fresh_mq = Some (0, q)"
    using pq(2) unfolding comsumer_init_def by (simp only: e mq_init_attached [of "env_created (si_shm i (int_of_long kc))"])
  ultimately show ?thesis using pq(3,4) by (simp add: ring_at_def)
qed

lemma reg_cbs_rings [simp]: "producer (reg_cbs l c) = producer c" "comsumer (reg_cbs l c) = comsumer c"
proof -
  have "producer (fold (\<lambda>ty c. snd (reg_cb c ty True)) l c) = producer c \<and> comsumer (fold (\<lambda>ty c. snd (reg_cb c ty True)) l c) = comsumer c"
    by (induction l arbitrary: c) (simp_all add: reg_cb_def)
  then show "producer (reg_cbs l c) = producer c" "comsumer (reg_cbs l c) = comsumer c" by (simp_all add: reg_cbs_def)
qed

text \<open>The keys of the pipes of a proxy.\<close>

definition pipe_keys :: "attrs \<Rightarrow> nat \<Rightarrow> int list" where
  "pipe_keys e n = concat (map (\<lambda>k. [int_of_long (key_producer k), int_of_long (key_comsumer k)])
     (px_shm_confs (int_of_long (strtol0 (e ''key_base''))) (atoi (e ''send_size'')) (atoi (e ''recv_size'')) n))"

lemma int_of_long_mod: "int_of_long a mod 2 ^ 32 = a mod 2 ^ 32"
proof -
  have "int (nat (a mod 2 ^ 32)) = a mod 2 ^ 32" by simp
  moreover have "nat (a mod 2 ^ 32) mod 2 ^ 32 = nat (a mod 2 ^ 32)" by (rule mod_less) (simp add: nat_less_iff)
  ultimately show ?thesis by (auto simp: int_of_long_def u32_of_int_def s32_of_nat_def)
qed

lemma int_of_long_inj: "\<bar>a - b\<bar> < 2 ^ 32 \<Longrightarrow> int_of_long a = int_of_long b \<Longrightarrow> a = b"
proof -
  assume d: "\<bar>a - b\<bar> < 2 ^ 32" and "int_of_long a = int_of_long b"
  then have "a mod 2 ^ 32 = b mod 2 ^ 32" using int_of_long_mod [of a] int_of_long_mod [of b] by simp
  then have "(2 :: int) ^ 32 dvd a - b" by (simp only: mod_eq_dvd_iff)
  then show "a = b" using d dvd_imp_le_int [of "a - b" "2 ^ 32"] by (cases "a = b") simp_all
qed

lemma pairs_map: "concat (map (\<lambda>j. [f (2 * j), f (2 * j + 1)]) [0..<m]) = map f [0..<2 * m]"
  by (induction m) simp_all

lemma pipe_keys_distinct:
  assumes "0 < n" "n < 2 ^ 31"
  shows "distinct (pipe_keys e n)"
proof -
  let ?b = "int_of_long (strtol0 (e ''key_base''))"
  have "sub32 n 1 = n - 1" using assms by (simp add: sub32_small)
  then have k: "pipe_keys e n = map (\<lambda>j. int_of_long (?b + int j)) [0..<2 * (n - 1)]"
    using pairs_map [of "\<lambda>j. int_of_long (?b + int j)" "n - 1"]
    by (simp add: pipe_keys_def px_shm_confs_def px_shm_conf_def comp_def algebra_simps)
  have "inj_on (\<lambda>j. int_of_long (?b + int j)) (set [0..<2 * (n - 1)])"
  proof (rule inj_onI)
    fix x y
    assume "x \<in> set [0..<2 * (n - 1)]" "y \<in> set [0..<2 * (n - 1)]" "int_of_long (?b + int x) = int_of_long (?b + int y)"
    then show "x = y" using int_of_long_inj [of "?b + int x" "?b + int y"] assms by simp
  qed
  then show ?thesis unfolding k by (simp add: distinct_map)
qed

section \<open>The start of the processes\<close>

text \<open>What the user's \<open>spp_handle_init\<close> leaves alone.\<close>

definition keeps :: "('s \<Rightarrow> 'a) \<Rightarrow> (string \<Rightarrow> 's \<Rightarrow> (int \<times> 's) option) \<Rightarrow> bool" where
  "keeps v ui \<longleftrightarrow> (\<forall>a st r st'. ui a st = Some (r, st') \<longrightarrow> v st' = v st)"

lemma serv_load_ok:
  assumes "serv_load ui e i chg st = Some (d, st')"
  shows "\<exists>d'. ui (e ''etc'') (chg (\<lambda>sv. sv\<lparr>sv_dll := Some d'\<rparr>) st) = Some (0, st')"
  using assms by (auto simp: serv_load_def bind_eq_Some_conv split: if_splits prod.splits)

lemma init_stat_groups: "serv_init_stat l e i sv = Some sv' \<Longrightarrow> sv_group_num sv' = sv_group_num sv \<and> sv_group_id sv' = sv_group_id sv"
  by (auto simp: serv_init_stat_def bind_eq_Some_conv split: if_splits prod.splits)

lemma init_moni_groups: "serv_init_moni b e i sv = Some sv' \<Longrightarrow> sv_group_num sv' = sv_group_num sv \<and> sv_group_id sv' = sv_group_id sv"
  by (auto simp: serv_init_moni_def Let_def split: if_splits)

lemma px_rest_ok:
  assumes "px_rest ui i common pconf (sv0, s0, px0) = Some (sv, s, px)"
  obtains m sv1 sv2 px1 where "ui m (sv1, s0, px0) = Some (0, sv2, s, px1)"
    "px = px1\<lparr>px_iplimit := fst (px_iplist i pconf), px_iptable := snd (px_iplist i pconf)\<rparr>"
proof -
  obtain d e sv3 sv4 px1 where l: "serv_load ui e i (\<lambda>f (sv, x). (f sv, x)) (sv3, s0, px0) = Some (d, sv4, s, px1)"
    "px = px1\<lparr>px_iplimit := fst (px_iplist i pconf), px_iptable := snd (px_iplist i pconf)\<rparr>"
    using assms unfolding px_rest_def Let_def by (auto simp: bind_eq_Some_conv split_beta)
  from serv_load_ok [OF l(1)] show ?thesis using that [OF _ l(2)] by auto
qed

lemma px_initconf_ok:
  assumes "px_initconf ui again i (sv0, s0, px0) = Some (sv, s, px)"
  obtains common pconf sv1 s1 pipes where "serv_root i 1 ''common'' = Some common" "serv_root i 2 ''proxy'' = Some pconf"
    "(if again then Some s0 else px_acceptor i pconf s0) = Some s1"
    "(if again then Some [] else px_connector i (sv_group_num (serv_groups i sv0)) common pconf) = Some pipes"
    "px_rest ui i common pconf (sv1, s1, px0\<lparr>px_ctor := px_ctor px0 @ pipes\<rparr>) = Some (sv, s, px)"
    "sv_group_num sv1 = sv_group_num (serv_groups i sv0)"
proof -
  have g: "px_logs i common sv = Some sv' \<Longrightarrow> sv_group_num sv' = sv_group_num sv" for common sv sv'
    by (auto simp: px_logs_def bind_eq_Some_conv)
  obtain common pconf sv1 s1 pipes where "serv_root i 1 ''common'' = Some common" "serv_root i 2 ''proxy'' = Some pconf"
    "px_logs i common (serv_groups i sv0) = Some sv1"
    "(if again then Some s0 else px_acceptor i pconf s0) = Some s1"
    "(if again then Some [] else px_connector i (sv_group_num sv1) common pconf) = Some pipes"
    "px_rest ui i common pconf (sv1, s1, px0\<lparr>px_ctor := px_ctor px0 @ pipes\<rparr>) = Some (sv, s, px)"
    using assms unfolding px_initconf_def Let_def prod.case bind_eq_Some_conv if_distrib [of "\<lambda>x. x = _"] by (auto simp del: if_image_distrib split: if_splits)
  then show ?thesis using that g by metis
qed

lemma px_pipes_ok:
  assumes "px_pipes i n e = Some ps"
  shows "length ps = sub32 n 1" "j < sub32 n 1 \<Longrightarrow> \<exists>c. open_pipe i (int_of_long (strtol0 (e ''key_base'')) + 2 * int j)
      (int_of_long (strtol0 (e ''key_base'')) + 2 * int j + 1)
      (key_conf (px_shm_conf (int_of_long (strtol0 (e ''key_base''))) (atoi (e ''send_size'')) (atoi (e ''recv_size'')) j)) = Some c \<and>
    ps ! j = reg_cbs [CB_RECVDATA] c"
  using map_opt_nth [OF assms [unfolded px_pipes_def]] by (auto simp: px_shm_confs_def px_shm_conf_def)

lemma wk_rest_ok:
  assumes "wk_rest ui i common pconf (sv0, s0, w0) = Some (sv, s, w)"
  obtains m sv1 sv2 w1 l where "ui m (sv1, s0, w0) = Some (0, sv2, s, w1)" "w = w1\<lparr>wk_ator := reg_cbs l (wk_ator w1)\<rparr>"
proof -
  obtain d e sv3 sv4 w1 where l: "serv_load ui e i (\<lambda>f (sv, x). (f sv, x)) (sv3, s0, w0) = Some (d, sv4, s, w1)"
    "w = w1\<lparr>wk_ator := reg_cbs [CB_RECVDATA, CB_CONNECTED, CB_OVERLOAD, CB_DISCONNECT, CB_TIMEOUT] (wk_ator w1)\<rparr>"
    using assms unfolding wk_rest_def Let_def by (auto simp: bind_eq_Some_conv split_beta)
  from serv_load_ok [OF l(1)] show ?thesis using that [OF _ l(2)] by auto
qed

lemma wk_logs_ok:
  "wk_logs i common sv = Some (sv', rest) \<Longrightarrow> set rest \<subseteq> set common \<and> sv_group_id sv' = sv_group_id sv \<and> sv_max_proc sv' = sv_max_proc sv"
  by (auto simp: wk_logs_def bind_eq_Some_conv dest: find_elem_mem)

lemma wk_initconf_ok:
  assumes "wk_initconf ui again i (sv0, s0, w0) = Some (sv, s, w)"
  obtains common pconf sv1 w1 s1 w2 rest where "serv_root i 1 ''common'' = Some common" "serv_root i 2 ''worker'' = Some pconf"
    "(if again then Some w0 else do { c \<leftarrow> wk_acceptor i sv1 rest pconf; Some (w0\<lparr>wk_ator := c\<rparr>) }) = Some w1"
    "(if again then Some (s0, w1) else wk_connector i pconf (s0, w1)) = Some (s1, w2)"
    "wk_rest ui i common pconf (sv1, s1, w2) = Some (sv, s, w)" "set rest \<subseteq> set common"
    "0 < sv_group_id (serv_groups i sv0)" "sv_group_id (serv_groups i sv0) < MAX_PROC_GROUP_NUM"
    "sv_group_id sv1 = sv_group_id (serv_groups i sv0)"
proof -
  obtain common pconf sv1 rest w1 s1 w2 where "serv_root i 1 ''common'' = Some common" "serv_root i 2 ''worker'' = Some pconf"
    "wk_logs i common (serv_groups i sv0) = Some (sv1, rest)"
    "(if again then Some w0 else do { c \<leftarrow> wk_acceptor i sv1 rest pconf; Some (w0\<lparr>wk_ator := c\<rparr>) }) = Some w1"
    "(if again then Some (s0, w1) else wk_connector i pconf (s0, w1)) = Some (s1, w2)"
    "wk_rest ui i common pconf (sv1, s1, w2) = Some (sv, s, w)"
    "0 < sv_group_id (serv_groups i sv0)" "sv_group_id (serv_groups i sv0) < MAX_PROC_GROUP_NUM"
    using assms unfolding wk_initconf_def Let_def prod.case by (cases again) (auto simp: bind_eq_Some_conv split_beta split: if_splits)
  then show ?thesis using that wk_logs_ok by metis
qed

lemma wk_connector_ator: "wk_connector i pconf (s0, w0) = Some (s, w) \<Longrightarrow> wk_ator w = wk_ator w0"
  by (auto simp: wk_connector_def bind_eq_Some_conv split: option.splits if_splits)

lemma wk_acceptor_ok:
  assumes "wk_acceptor i sv common pconf = Some c"
  obtains q r c' T P where "find_elem ''ShmQueue'' common = Some (q, r)" "c = reg_cbs [CB_RECVDATA, CB_SENDDATA, CB_OVERLOAD] c'"
    "open_pipe i (int_of_long (strtol0 (xattr q ''key_base'')) + 2 * (int (sv_group_id sv) - 1) + 1)
       (int_of_long (strtol0 (xattr q ''key_base'')) + 2 * (int (sv_group_id sv) - 1))
       (wkey_conf (wk_shm_conf (int_of_long (strtol0 (xattr q ''key_base''))) (atoi (xattr q ''send_size'')) (atoi (xattr q ''recv_size''))
          (sv_group_id sv) (sv_max_proc sv) T P)) = Some c'"
  using assms by (auto simp: wk_acceptor_def bind_eq_Some_conv Let_def wk_shm_conf_def split: if_splits)

text \<open>
  C34: The pipes meet: when the proxy and a worker start from the same common configuration and
  segments, the proxy has one pair of pipes for each group of workers, all with different keys;
  the ring that the proxy writes to for the group of the worker is the one that the worker reads,
  in the same state and of the same size, and the other way round.
\<close>

theorem pipes_connect:
  assumes "px_initconf ui False ip (svp0, sp0, px0) = Some (svp, sp, px)" "px_ctor px0 = []" "keeps (\<lambda>(sv, s, px). px_ctor px) ui"
    "wk_initconf uw False iw (svw0, sw0, w0) = Some (svw, sw, w)" "keeps (\<lambda>(sv, s, w). wk_ator w) uw"
    "serv_root ip 1 ''common'' = Some common" "serv_root iw 1 ''common'' = Some common"
    "filter (\<lambda>e. xname e = ''ShmQueue'') common = [q]"
    "serv_root ip 2 ''proxy'' = Some pconf" "find_elem ''connector'' pconf = Some (c, r)" "xattr c ''type'' = ''shm''"
    "si_shm iw = si_shm ip" "attached ip"
    "n = u32_of_int (atoi (si_arg ip 3))" "g = u32_of_int (atoi (si_arg iw 4))" "g < n" "n < 2 ^ 31"
  shows "length (px_ctor px) = n - 1 \<and> 0 < g \<and> distinct (pipe_keys (xattr q) n) \<and>
    same_ring (producer (px_ctor px ! (g - 1))) (comsumer (wk_ator w)) \<and> same_ring (comsumer (px_ctor px ! (g - 1))) (producer (wk_ator w))"
proof -
  let ?b = "int_of_long (strtol0 (xattr q ''key_base''))" and ?S = "atoi (xattr q ''send_size'')" and ?R = "atoi (xattr q ''recv_size'')"
  obtain sv1 s1 pipes where p: "px_connector ip n common pconf = Some pipes"
      "px_rest ui ip common pconf (sv1, s1, px0\<lparr>px_ctor := px_ctor px0 @ pipes\<rparr>) = Some (svp, sp, px)"
    by (rule px_initconf_ok [OF assms(1)]) (use assms(6,9,14) in \<open>simp add: serv_groups_def\<close>)
  obtain m sv2 sv3 px1 where u: "ui m (sv2, s1, px0\<lparr>px_ctor := px_ctor px0 @ pipes\<rparr>) = Some (0, sv3, sp, px1)"
      "px = px1\<lparr>px_iplimit := fst (px_iplist ip pconf), px_iptable := snd (px_iplist ip pconf)\<rparr>"
    by (rule px_rest_ok [OF p(2)])
  then have ctor: "px_ctor px = pipes" using assms(2,3) by (auto simp: keeps_def)
  obtain q' r' where "find_elem ''ShmQueue'' common = Some (q', r')" "px_pipes ip n (xattr q') = Some pipes"
    using p(1) assms(10,11) by (auto simp: px_connector_def bind_eq_Some_conv)
  with find_only [OF assms(8)] have pipes: "px_pipes ip n (xattr q) = Some pipes" by blast
  obtain svw1 w1 sw1 w2 rest confw where k: "do { c \<leftarrow> wk_acceptor iw svw1 rest confw; Some (w0\<lparr>wk_ator := c\<rparr>) } = Some w1"
      "wk_connector iw confw (sw0, w1) = Some (sw1, w2)" "wk_rest uw iw common confw (svw1, sw1, w2) = Some (svw, sw, w)"
      "set rest \<subseteq> set common" "0 < g" "sv_group_id svw1 = g"
    by (rule wk_initconf_ok [OF assms(4)]) (use assms(7,15) in \<open>simp add: serv_groups_def\<close>)
  obtain mw sv4 sv5 w3 l where x: "uw mw (sv4, sw1, w2) = Some (0, sv5, sw, w3)" "w = w3\<lparr>wk_ator := reg_cbs l (wk_ator w3)\<rparr>"
    by (rule wk_rest_ok [OF k(3)])
  then have "wk_ator w3 = wk_ator w1" using assms(5) wk_connector_ator [OF k(2)] by (auto simp: keeps_def)
  then obtain ca where ca: "wk_acceptor iw svw1 rest confw = Some ca" "wk_ator w = reg_cbs l ca"
    using k(1) x(2) by (auto simp: bind_eq_Some_conv)
  obtain q2 r2 cw T P where a: "find_elem ''ShmQueue'' rest = Some (q2, r2)" "ca = reg_cbs [CB_RECVDATA, CB_SENDDATA, CB_OVERLOAD] cw"
    "open_pipe iw (int_of_long (strtol0 (xattr q2 ''key_base'')) + 2 * (int g - 1) + 1)
       (int_of_long (strtol0 (xattr q2 ''key_base'')) + 2 * (int g - 1))
       (wkey_conf (wk_shm_conf (int_of_long (strtol0 (xattr q2 ''key_base''))) (atoi (xattr q2 ''send_size'')) (atoi (xattr q2 ''recv_size''))
          g (sv_max_proc svw1) T P)) = Some cw"
    using wk_acceptor_ok [OF ca(1), unfolded k(6)] by blast
  have "q2 = q" by (rule find_only [OF assms(8) a(1) k(4)])
  note w = a(3) [unfolded this]
  have g: "g - 1 < sub32 n 1" "sub32 n 1 = n - 1" "int (g - 1) = int g - 1" using assms(16,17) k(5) by (simp_all add: sub32_small)
  obtain cp where cp: "open_pipe ip (?b + 2 * (int g - 1)) (?b + 2 * (int g - 1) + 1) (key_conf (px_shm_conf ?b ?S ?R (g - 1))) = Some cp"
      "pipes ! (g - 1) = reg_cbs [CB_RECVDATA] cp"
    using px_pipes_ok(2) [OF pipes g(1)] unfolding g(3) by blast
  have at: "attached iw" using assms(12,13) by (simp add: attached_def)
  have ring: "ring_at iw = ring_at ip" using assms(12) by (simp add: fun_eq_iff ring_at_def)
  have "length (px_ctor px) = n - 1" using px_pipes_ok(1) [OF pipes] ctor g(2) by simp
  moreover have "distinct (pipe_keys (xattr q) n)" by (rule pipe_keys_distinct) (use assms(16,17) in simp_all)
  ultimately show ?thesis
    using open_pipe_rings [OF assms(13) cp(1)] open_pipe_rings [OF at w] k(5) unfolding ring ctor cp(2) ca(2) a(2)
    by (auto simp: same_ring_def px_shm_conf_def wk_shm_conf_def)
qed

section \<open>Routes\<close>

lemma fold_nodes_ok: "smap_ok m \<Longrightarrow> smap_ok (fold (\<lambda>n. smap_set (n_node_id n) n) ns m)"
  by (induction ns arbitrary: m) simp_all

lemma fold_nodes_keep:
  "smap_ok m \<Longrightarrow> k \<notin> n_node_id ` set ns \<Longrightarrow> map_of (fold (\<lambda>n. smap_set (n_node_id n) n) ns m) k = map_of m k"
  by (induction ns arbitrary: m) auto

lemma fold_nodes_get:
  "smap_ok m \<Longrightarrow> distinct (map n_node_id ns) \<Longrightarrow> nd \<in> set ns \<Longrightarrow>
     map_of (fold (\<lambda>n. smap_set (n_node_id n) n) ns m) (n_node_id nd) = Some nd"
proof (induction ns arbitrary: m)
  case (Cons a ns)
  then show ?case by (cases "nd = a") (auto simp: fold_nodes_keep)
qed simp

lemma fold_nodes_set:
  "smap_ok m \<Longrightarrow> (k, nd) \<in> set (fold (\<lambda>n. smap_set (n_node_id n) n) ns m) \<Longrightarrow> (k, nd) \<in> set m \<or> nd \<in> set ns \<and> k = n_node_id nd"
proof (induction ns arbitrary: m)
  case (Cons a ns)
  then show ?case using set_smap_set [of "n_node_id a" a m] by (auto dest!: Cons.IH [rotated])
qed simp

definition covers :: "node_info \<Rightarrow> nat \<Rightarrow> bool" where
  "covers nd key \<longleftrightarrow> n_begin nd \<le> key \<and> key \<le> n_end nd"

definition disjoint_nodes :: "node_info list \<Rightarrow> bool" where
  "disjoint_nodes ns \<longleftrightarrow> distinct (map n_node_id ns) \<and> (\<forall>a\<in>set ns. \<forall>b\<in>set ns. \<forall>key. covers a key \<and> covers b key \<longrightarrow> a = b)"

lemma table_nodes:
  assumes "rt_nodes tbl = fold (\<lambda>n. smap_set (n_node_id n) n) ns []"
  shows "\<forall>nd\<in>set ns. \<not> covers nd key \<Longrightarrow> GetNodeID tbl key = 0"
    "disjoint_nodes ns \<Longrightarrow> nd \<in> set ns \<Longrightarrow> covers nd key \<Longrightarrow> GetNodeID tbl key = n_node_id nd \<and> table_GetNodeInfo tbl (n_node_id nd) = (0, Some nd)"
proof -
  have mem: "p \<in> set (rt_nodes tbl) \<Longrightarrow> snd p \<in> set ns \<and> fst p = n_node_id (snd p)" for p
    using fold_nodes_set [of "[]" "fst p" "snd p" ns] assms by simp
  have f: "GetNodeID tbl key = (case find (\<lambda>p. covers (snd p) key) (rt_nodes tbl) of None \<Rightarrow> 0 | Some p \<Rightarrow> n_node_id (snd p))"
    by (simp add: GetNodeID_def first_node_find covers_def)
  show "GetNodeID tbl key = 0" if "\<forall>nd\<in>set ns. \<not> covers nd key"
  proof -
    have "find (\<lambda>p. covers (snd p) key) (rt_nodes tbl) = None" using that mem by (auto simp: find_None_iff)
    then show ?thesis by (simp add: f)
  qed
  show "GetNodeID tbl key = n_node_id nd \<and> table_GetNodeInfo tbl (n_node_id nd) = (0, Some nd)"
    if d: "disjoint_nodes ns" "nd \<in> set ns" "covers nd key"
  proof -
    have m: "map_of (rt_nodes tbl) (n_node_id nd) = Some nd" unfolding assms
      by (rule fold_nodes_get) (use d in \<open>simp_all add: disjoint_nodes_def\<close>)
    then have "\<exists>p\<in>set (rt_nodes tbl). covers (snd p) key" using map_of_SomeD [OF m] d(3) by force
    then obtain p where p: "find (\<lambda>p. covers (snd p) key) (rt_nodes tbl) = Some p"
      by (cases "find (\<lambda>p. covers (snd p) key) (rt_nodes tbl)") (auto simp: find_None_iff)
    then have "p \<in> set (rt_nodes tbl) \<and> covers (snd p) key" by (auto simp: find_Some_iff)
    then have "snd p = nd" using mem d unfolding disjoint_nodes_def by blast
    then show ?thesis using m p by (simp add: f table_GetNodeInfo_def)
  qed
qed

lemma route_tables_get:
  assumes "route_tables i base pfx es m = Some m'" "smap_ok m"
  shows "smap_ok m' \<and> (\<forall>e\<in>set es. \<exists>f t. route_file base pfx (u32_of_int (strtol0 (e ''serv_type''))) = Some f \<and>
      InitRouteTable i (u32_of_int (strtol0 (e ''serv_type''))) f = Some t \<and> map_of m' (u32_of_int (strtol0 (e ''serv_type''))) = Some t) \<and>
    (\<forall>st. st \<notin> (\<lambda>e. u32_of_int (strtol0 (e ''serv_type''))) ` set es \<longrightarrow> map_of m' st = map_of m st)"
  using assms
proof (induction es arbitrary: m)
  case (Cons e es)
  let ?st = "\<lambda>e. u32_of_int (strtol0 (e ''serv_type''))"
  obtain f t where ft: "route_file base pfx (?st e) = Some f" "InitRouteTable i (?st e) f = Some t"
      "route_tables i base pfx es (smap_set (?st e) t m) = Some m'"
    using Cons(2) by (auto simp: Let_def split: option.splits)
  have IH: "smap_ok m'" "\<forall>e\<in>set es. \<exists>f t. route_file base pfx (?st e) = Some f \<and> InitRouteTable i (?st e) f = Some t \<and> map_of m' (?st e) = Some t"
      "\<forall>st. st \<notin> ?st ` set es \<longrightarrow> map_of m' st = map_of (smap_set (?st e) t m) st"
    using Cons(1) [OF ft(3)] Cons(3) by auto
  have here: "map_of m' (?st e) = Some t"
  proof (cases "?st e \<in> ?st ` set es")
    case True
    then obtain e' where "e' \<in> set es" "?st e' = ?st e" by auto
    then show ?thesis using IH(2) ft(1,2) by fastforce
  next
    case False
    then show ?thesis using IH(3) Cons(3) by simp
  qed
  then show ?case using IH ft Cons(3) by simp
qed simp

text \<open>
  C35: The route tables are those of the configuration: after a successful start there is a table
  for each configured type of service, read from its file; a key that no node covers goes to no
  node, and when the nodes have different numbers and cover different keys, each key goes to the
  node that covers it, with the address that was configured.
\<close>

theorem routes_configured:
  assumes "wk_route_config i a = Some rc" "find_elem ''routetable'' (si_xml i (a ''route_table'')) = Some (t, r)"
    "e \<in> set (children ''group'' t)" "st = u32_of_int (strtol0 (e ''serv_type''))"
  shows "\<exists>f g r' ns tbl. route_file (xattr t ''basepath'') (if xattr t ''prefix'' = [] then ''route_table'' else xattr t ''prefix'') st = Some f \<and>
    find_elem ''group'' (si_xml i f) = Some (g, r') \<and> map_opt (wk_node i st) (children ''node'' g) = Some ns \<and>
    GetRouteTable rc st = (0, Some tbl) \<and>
    (\<forall>key. (\<forall>nd\<in>set ns. \<not> covers nd key) \<longrightarrow> GetNodeID tbl key = 0) \<and>
    (disjoint_nodes ns \<longrightarrow> (\<forall>nd\<in>set ns. \<forall>key. covers nd key \<longrightarrow>
       GetNodeID tbl key = n_node_id nd \<and> table_GetNodeInfo tbl (n_node_id nd) = (0, Some nd)))"
proof -
  let ?pfx = "if xattr t ''prefix'' = [] then ''route_table'' else xattr t ''prefix''"
  have "route_tables i (xattr t ''basepath'') ?pfx (children ''group'' t) [] = Some (rc_tables rc)"
    using assms(1,2) by (auto simp: wk_route_config_def InitRouteConfig_def Let_def bind_eq_Some_conv split: if_splits)
  from route_tables_get [OF this] assms(3,4) obtain f tbl where
    f: "route_file (xattr t ''basepath'') ?pfx st = Some f" "InitRouteTable i st f = Some tbl" "map_of (rc_tables rc) st = Some tbl" by auto
  obtain g r' ns where g: "find_elem ''group'' (si_xml i f) = Some (g, r')" "map_opt (wk_node i st) (children ''node'' g) = Some ns"
      "rt_nodes tbl = fold (\<lambda>n. smap_set (n_node_id n) n) ns []"
    using f(2) by (auto simp: InitRouteTable_def Let_def bind_eq_Some_conv split: if_splits)
  show ?thesis using f(1,3) g(1,2) table_nodes [OF g(3)] by (auto simp: GetRouteTable_def)
qed

section \<open>The list of addresses\<close>

definition listed :: "serv_in \<Rightarrow> string \<Rightarrow> nat set" where
  "listed i f = {ip. \<exists>s l. si_file i f = Some s \<and> l \<in> set (fgets_lines s) \<and> si_aton i l = Some ip}"

lemma read_iplist_set: "set (read_iplist i f) = listed i f"
proof -
  have "set (fold (\<lambda>l t. case si_aton i l of None \<Rightarrow> t | Some ip \<Rightarrow> List.insert ip t) ls t) = set t \<union> {ip. \<exists>l\<in>set ls. si_aton i l = Some ip}" for ls t
    by (induction ls arbitrary: t) (auto split: option.splits)
  then show ?thesis by (cases "si_file i f") (simp_all add: read_iplist_def listed_def Bex_def)
qed

text \<open>
  C36: The list of addresses is enforced: after a start or a reload with the element \<open>iptable\<close> the
  proxy refuses exactly the connections whose address is not in the white list, if that has an
  address, and without a white list those whose address is in the black list.  A white list that
  cannot be read or has no address lets everybody in, whatever the black list says.
\<close>

theorem ip_list_enforced:
  assumes "px_initconf ui again i st = Some (sv, s, px)" "serv_root i 2 ''proxy'' = Some pconf" "find_elem ''iptable'' pconf = Some (e, r)"
    "memrd (b_extdata (sk_blob s')) 16 4 = Some b"
  shows "(\<exists>ret st'. px_ator_connected md flow (s', px) = Some (ret, st') \<and> ret < 0) \<longleftrightarrow>
    (if xattr e ''whitelist'' \<noteq> [] then listed i (xattr e ''whitelist'') \<noteq> {} \<and> le_val b \<notin> listed i (xattr e ''whitelist'')
     else xattr e ''blacklist'' \<noteq> [] \<and> le_val b \<in> listed i (xattr e ''blacklist''))"
proof -
  obtain sv0 s0 px0 where st: "st = (sv0, s0, px0)" by (cases st)
  obtain common sv1 s1 pipes where p: "px_rest ui i common pconf (sv1, s1, px0\<lparr>px_ctor := px_ctor px0 @ pipes\<rparr>) = Some (sv, s, px)"
    by (rule px_initconf_ok [OF assms(1) [unfolded st]]) (use assms(2) in simp)
  obtain px1 where "px = px1\<lparr>px_iplimit := fst (px_iplist i pconf), px_iptable := snd (px_iplist i pconf)\<rparr>"
    by (rule px_rest_ok [OF p]) simp
  then have l: "px_iplimit px = fst (px_iplist i pconf)" "px_iptable px = snd (px_iplist i pconf)" by simp_all
  have c: "(\<exists>ret st'. px_ator_connected md flow (s', px) = Some (ret, st') \<and> ret < 0) \<longleftrightarrow>
      px_iplimit px = IPLIMIT_WHITE_LIST \<and> le_val b \<notin> set (px_iptable px) \<or> px_iplimit px = IPLIMIT_BLACK_LIST \<and> le_val b \<in> set (px_iptable px)"
    using assms(4) by (auto simp: px_ator_connected_def Let_def bind_eq_Some_conv split: if_splits)
  have r: "read_iplist i f = [] \<longleftrightarrow> listed i f = {}" for f using read_iplist_set [of i f] by (metis set_empty)
  show ?thesis unfolding c l px_iplist_def assms(3) using read_iplist_set [of i] r by (simp add: Let_def)
qed

section \<open>Reload\<close>

lemma px_reload:
  assumes "px_initconf ui True i (sv0, s0, px0) = Some (sv, s, px)" "keeps (\<lambda>(sv, s, px). (s, px_ctor px)) ui"
  shows "s = s0 \<and> px_ctor px = px_ctor px0"
proof -
  obtain common pconf sv1 where p: "px_rest ui i common pconf (sv1, s0, px0\<lparr>px_ctor := px_ctor px0 @ []\<rparr>) = Some (sv, s, px)"
    by (rule px_initconf_ok [OF assms(1)]) simp
  show ?thesis
  proof (rule px_rest_ok [OF p])
    fix m sv1 sv2 px1
    assume "ui m (sv1, s0, px0\<lparr>px_ctor := px_ctor px0 @ []\<rparr>) = Some (0, sv2, s, px1)"
      "px = px1\<lparr>px_iplimit := fst (px_iplist i pconf), px_iptable := snd (px_iplist i pconf)\<rparr>"
    then show ?thesis using assms(2) by (auto simp: keeps_def)
  qed
qed

lemma wk_reload:
  assumes "wk_initconf ui True i (sv0, s0, w0) = Some (sv, s, w)"
    "keeps (\<lambda>(sv, s, w). (s, wk_ator w, wk_has_ctor w, wk_mng w, wk_routes w)) ui"
  shows "s = s0 \<and> producer (wk_ator w) = producer (wk_ator w0) \<and> comsumer (wk_ator w) = comsumer (wk_ator w0) \<and>
    wk_has_ctor w = wk_has_ctor w0 \<and> wk_mng w = wk_mng w0 \<and> wk_routes w = wk_routes w0"
proof -
  obtain common pconf sv1 where p: "wk_rest ui i common pconf (sv1, s0, w0) = Some (sv, s, w)"
    by (rule wk_initconf_ok [OF assms(1)]) simp
  show ?thesis
  proof (rule wk_rest_ok [OF p])
    fix m sv1 sv2 w1 l
    assume "ui m (sv1, s0, w0) = Some (0, sv2, s, w1)" "w = w1\<lparr>wk_ator := reg_cbs l (wk_ator w1)\<rparr>"
    then show ?thesis using assms(2) by (auto simp: keeps_def)
  qed
qed

text \<open>
  C37: A reload leaves the connections alone: what the user's \<open>spp_handle_init\<close> does not touch
  itself, the clients, the pipes with the messages in them, the connections to servers and the
  routes, is after a reload of the proxy or of a worker what it was.
\<close>

theorem reload_keeps_connections:
  assumes "px_initconf ui True ip (svp0, sp0, px0) = Some (svp, sp, px)" "keeps (\<lambda>(sv, s, px). (s, px_ctor px)) ui"
    "wk_initconf uw True iw (svw0, sw0, w0) = Some (svw, sw, w)"
    "keeps (\<lambda>(sv, s, w). (s, wk_ator w, wk_has_ctor w, wk_mng w, wk_routes w)) uw"
  shows "sp = sp0 \<and> px_ctor px = px_ctor px0 \<and> sw = sw0 \<and> producer (wk_ator w) = producer (wk_ator w0) \<and>
    comsumer (wk_ator w) = comsumer (wk_ator w0) \<and> wk_has_ctor w = wk_has_ctor w0 \<and> wk_mng w = wk_mng w0 \<and> wk_routes w = wk_routes w0"
  using px_reload [OF assms(1,2)] wk_reload [OF assms(3,4)] by simp

section \<open>Examples\<close>

lemma init_statobjs_rep:
  "policies_ok t \<Longrightarrow> stat_rep t p a \<Longrightarrow> run_ops (abs_op t) (map (\<lambda>(n, ty). Register (map of_char n) ty None 1) l) a = Some a' \<Longrightarrow>
     \<exists>p'. init_statobjs t l p = Some p' \<and> stat_rep t p' a'"
proof (induction l arbitrary: p a)
  case (Cons x l)
  obtain n ty where x: "x = (n, ty)" by (cases x)
  obtain a1 where a: "abs_op t (Register (map of_char n) ty None 1) a = Some a1"
      "run_ops (abs_op t) (map (\<lambda>(n, ty). Register (map of_char n) ty None 1) l) a1 = Some a'"
    using Cons(4) x by (auto split: option.splits)
  obtain p1 where p1: "pool_op t (Register (map of_char n) ty None 1) p = Some p1" "stat_rep t p1 a1"
    using register_rep [OF Cons(2,3) a(1)] by blast
  then show ?case using Cons(1) [OF Cons(2) p1(2) a(2)] x by (auto split: option.splits)
qed simp

definition ex_attrs :: "(string \<times> string) list \<Rightarrow> attrs" where
  "ex_attrs l = (\<lambda>n. case map_of l n of None \<Rightarrow> [] | Some v \<Rightarrow> v)"

definition ex_common :: "xml list" where
  "ex_common = [Elem ''fwlog'' (ex_attrs [(''maxfilesize'', ''1''), (''maxfilenum'', ''1'')]) [],
     Elem ''log'' (ex_attrs [(''maxfilesize'', ''1''), (''maxfilenum'', ''1'')]) [], Elem ''ShmQueue'' (ex_attrs []) [],
     Elem ''stat'' (ex_attrs []) [], Elem ''moni'' (ex_attrs [(''intervial'', ''1'')]) []]"

definition ex_proxy :: "xml list" where
  "ex_proxy = [Elem ''acceptor'' (ex_attrs [(''type'', ''socket''), (''maxconn'', ''1''), (''timeout'', ''1'')]) [Elem ''entry'' (ex_attrs [(''type'', ''unix'')]) []],
     Elem ''connector'' (ex_attrs [(''type'', ''shm'')]) [], Elem ''module'' (ex_attrs []) [],
     Elem ''iptable'' (ex_attrs [(''whitelist'', ''w'')]) []]"

definition ex_worker :: "xml list" where
  "ex_worker = [Elem ''acceptor'' (ex_attrs [(''type'', ''shm'')]) [], Elem ''module'' (ex_attrs []) []]"

definition ex_in :: "string \<Rightarrow> serv_in" where
  "ex_in g = \<lparr>si_arg = (\<lambda>n. if n = 0 then ''/p'' else if n = 1 then ''c'' else if n = 2 then ''x'' else if n = 3 then ''2'' else if n = 4 then g else ''1''),
     si_xml = (\<lambda>f. if f = ''c'' then [Elem ''common'' (ex_attrs []) ex_common] else [Elem ''proxy'' (ex_attrs []) ex_proxy, Elem ''worker'' (ex_attrs []) ex_worker]),
     si_statfile = (False, False, False, False, newpool), si_pid = 9, si_ifip = (\<lambda>n. 0), si_addr = (\<lambda>n. Some 0),
     si_shm = (\<lambda>k. \<lparr>env_exists = True, env_created = False, env_mapped = True, env_seg = replicate 8 0, env_lock_opened = True, env_lock_mapped = True\<rparr>),
     si_newbuf = (\<lambda>n. []), si_now = 0, si_fds = [3], si_pool = sk_pool small_sock, si_dlopen = (\<lambda>f n. Some (\<lambda>s. True)),
     si_file = (\<lambda>f. Some ''1''), si_aton = (\<lambda>l. Some 7)\<rparr>"

definition ex_server :: server where
  "ex_server = \<lparr>sv_group_num = 0, sv_group_id = 0, sv_max_proc = 0, sv_moni_inter = 15, sv_mqkey = 0,
     sv_cli = \<lparr>pc_info = no_proc_info, pc_notify = False, pc_cmds = []\<rparr>, sv_pol = six_policies, sv_stat = None, sv_dll = None,
     sv_fwlog = None, sv_log = None, sv_local = None, sv_timers = [], sv_flag = 0\<rparr>"

text \<open>An initialisation that succeeds and does \<open>f\<close>, and one that does nothing.\<close>

definition ex_ui :: "('s \<Rightarrow> 's) \<Rightarrow> string \<Rightarrow> 's \<Rightarrow> (int \<times> 's) option" where
  "ex_ui f a st = Some (0, f st)"

abbreviation ex_init :: "string \<Rightarrow> 's \<Rightarrow> (int \<times> 's) option" where
  "ex_init \<equiv> ex_ui (\<lambda>st. st)"

lemma ex_attrs_simps [simp]: "ex_attrs [] n = []" "ex_attrs ((m, v) # l) n = (if n = m then v else ex_attrs l n)"
  by (simp_all add: ex_attrs_def)

lemma atoi_two: "atoi ''2'' = 2"
proof -
  have "all_digits ''2''" "dec_val ''2'' = 2" by (simp_all add: all_digits_def dec_val_def digit_val_def)
  then show ?thesis using atoi_digits [of "''2''" "[]"] by simp
qed

lemma ex_roots: "serv_root (ex_in g) 1 ''common'' = Some ex_common" "serv_root (ex_in g) 2 ''proxy'' = Some ex_proxy"
    "serv_root (ex_in g) 2 ''worker'' = Some ex_worker"
  by (simp_all add: serv_root_def ex_in_def)

lemma ex_groups: "sv_group_num (serv_groups (ex_in g) sv) = 2" "sv_group_id (serv_groups (ex_in g) sv) = u32_of_int (atoi g)"
  by (simp_all add: serv_groups_def ex_in_def atoi_two)

lemma ex_log_ok: "log_ok (ex_attrs [(''maxfilesize'', ''1''), (''maxfilenum'', ''1'')])"
  by (simp add: log_ok_def atoi_demo LOG_NONE_def LOG_TYPE_CYCLE_HOURLY_def)

lemma ex_stat: "\<exists>p. init_statobjs six_policies px_stats newpool = Some p" "\<exists>p. init_statobjs six_policies wk_stats newpool = Some p"
proof -
  note r = init_statobjs_rep [OF policies_init [OF stat_policies_init_eq] newpool_rep]
  have "\<exists>a. run_ops (abs_op six_policies) (map (\<lambda>(n, ty). Register (map of_char n) ty None 1) px_stats) (\<lambda>i. [], 0, 0) = Some a"
    by (simp add: px_stats_def six_policies_def)
  then show "\<exists>p. init_statobjs six_policies px_stats newpool = Some p" using r by blast
  have "\<exists>a. run_ops (abs_op six_policies) (map (\<lambda>(n, ty). Register (map of_char n) ty None 1) wk_stats) (\<lambda>i. [], 0, 0) = Some a"
    by (simp add: wk_stats_def six_policies_def)
  then show "\<exists>p. init_statobjs six_policies wk_stats newpool = Some p" using r by blast
qed

lemma ex_moni: "\<exists>sv'. serv_init_moni b (ex_attrs [(''intervial'', ''1'')]) (ex_in g) sv = Some sv'"
  by (simp add: serv_init_moni_def atoi_demo small_u32 Let_def)

lemma ex_load: "\<exists>d sv'. serv_load (ex_ui f) (ex_attrs []) (ex_in g) (\<lambda>f (sv, x). (f sv, x)) (sv, x) = Some (d, f (sv', x))"
  by (auto simp: serv_load_def load_bench_adapter_def ex_in_def ex_ui_def numeral_3_eq_3)

lemma ex_init_stat: "sv_pol sv = six_policies \<Longrightarrow> l \<in> {px_stats, wk_stats} \<Longrightarrow> \<exists>sv'. serv_init_stat l (ex_attrs []) (ex_in g) sv = Some sv'"
  using ex_stat by (auto simp: serv_init_stat_def init_statpool_def)

lemma ex_find:
  "find_elem ''fwlog'' ex_common = Some (Elem ''fwlog'' (ex_attrs [(''maxfilesize'', ''1''), (''maxfilenum'', ''1'')]) [], drop 1 ex_common)"
  "find_elem ''log'' ex_common = Some (Elem ''log'' (ex_attrs [(''maxfilesize'', ''1''), (''maxfilenum'', ''1'')]) [], drop 2 ex_common)"
  "find_elem ''ShmQueue'' ex_common = Some (Elem ''ShmQueue'' (ex_attrs []) [], drop 3 ex_common)"
  "find_elem ''ShmQueue'' (drop 2 ex_common) = Some (Elem ''ShmQueue'' (ex_attrs []) [], drop 3 ex_common)"
  "find_elem ''stat'' ex_common = Some (Elem ''stat'' (ex_attrs []) [], drop 4 ex_common)"
  "find_elem ''moni'' ex_common = Some (Elem ''moni'' (ex_attrs [(''intervial'', ''1'')]) [], [])"
  "\<exists>r. find_elem ''module'' ex_proxy = Some (Elem ''module'' (ex_attrs []) [], r)"
  "find_elem ''module'' ex_worker = Some (Elem ''module'' (ex_attrs []) [], [])"
  "\<exists>r. find_elem ''connector'' ex_proxy = Some (Elem ''connector'' (ex_attrs [(''type'', ''shm'')]) [], r)"
  "find_elem ''connector'' ex_worker = None"
  "find_elem ''iptable'' ex_proxy = Some (Elem ''iptable'' (ex_attrs [(''whitelist'', ''w'')]) [], [])"
  by (simp_all add: ex_common_def ex_proxy_def ex_worker_def)

lemma ex_px_rest:
  fixes g :: string
  assumes "sv_pol sv = six_policies"
  shows "\<exists>sv'. px_rest (ex_ui f) (ex_in g) ex_common ex_proxy (sv, s, px) =
    Some (case f (sv', s, px) of (sv, s, px) \<Rightarrow>
      (sv\<lparr>sv_local := None\<rparr>, s, px\<lparr>px_iplimit := fst (px_iplist (ex_in g) ex_proxy), px_iptable := snd (px_iplist (ex_in g) ex_proxy)\<rparr>))"
proof -
  obtain sv2 where 2: "serv_init_stat px_stats (ex_attrs []) (ex_in g) sv = Some sv2" using ex_init_stat [OF assms] by blast
  obtain sv3 where 3: "serv_init_moni True (ex_attrs [(''intervial'', ''1'')]) (ex_in g) sv2 = Some sv3" using ex_moni by blast
  obtain d sv4 where 4: "serv_load (ex_ui f) (ex_attrs []) (ex_in g) (\<lambda>f (sv, x). (f sv, x)) (sv3, s, px) = Some (d, f (sv4, s, px))"
    using ex_load [of f g sv3 "(s, px)"] by blast
  obtain r where "find_elem ''module'' ex_proxy = Some (Elem ''module'' (ex_attrs []) [], r)" using ex_find(7) by blast
  then show ?thesis using 2 3 4 by (intro exI [of _ sv4]) (simp add: px_rest_def ex_find px_local_handle_def split_beta)
qed

lemma ex_wk_rest:
  fixes g :: string
  assumes "sv_pol sv = six_policies"
  shows "\<exists>sv'. wk_rest (ex_ui f) (ex_in g) ex_common ex_worker (sv, s, w) =
    Some (case f (sv', s, w) of (sv, s, w) \<Rightarrow>
      (sv, s, w\<lparr>wk_ator := reg_cbs [CB_RECVDATA, CB_CONNECTED, CB_OVERLOAD, CB_DISCONNECT, CB_TIMEOUT] (wk_ator w)\<rparr>))"
proof -
  obtain sv2 where 2: "serv_init_stat wk_stats (ex_attrs []) (ex_in g) sv = Some sv2" using ex_init_stat [OF assms] by blast
  obtain sv3 where 3: "serv_init_moni False (ex_attrs [(''intervial'', ''1'')]) (ex_in g) sv2 = Some sv3" using ex_moni by blast
  obtain d sv4 where 4: "serv_load (ex_ui f) (ex_attrs []) (ex_in g) (\<lambda>f (sv, x). (f sv, x)) (sv3, s, w) = Some (d, f (sv4, s, w))"
    using ex_load [of f g sv3 "(s, w)"] by blast
  then show ?thesis using 2 3 by (intro exI [of _ sv4]) (simp add: wk_rest_def ex_find split_beta)
qed

lemma ex_open_pipe: "shmsize_producer cf = 0 \<Longrightarrow> shmsize_comsumer cf = 0 \<Longrightarrow> cf_expiretime cf \<ge> 0 \<Longrightarrow> cf_maxpkg cf \<ge> 0 \<Longrightarrow>
    \<exists>c. open_pipe (ex_in g) kp kc cf = Some c"
proof -
  have m: "\<exists>q. mq_init True False True (replicate 8 0) n fresh_mq = Some (0, q)" for n
    by (simp add: mq_init_def getmemory_def memrd_def numeral_eq_Suc)
  assume "shmsize_producer cf = 0" "shmsize_comsumer cf = 0" "cf_expiretime cf \<ge> 0" "cf_maxpkg cf \<ge> 0"
  then show ?thesis using m [of 0]
    by (auto simp: open_pipe_def in_int_def commu_init_def ex_in_def producerL_init_def comsumerL_init_def producer_init_def comsumer_init_def Let_def)
qed

lemma ex_slash: "last_slash (si_arg (ex_in g) 0) = Some ''/p''"
  by (simp add: ex_in_def)

lemma ex_px_logs: "\<exists>sv'. px_logs (ex_in g) ex_common sv = Some sv' \<and> sv_pol sv' = sv_pol sv \<and> sv_group_num sv' = sv_group_num sv"
  by (simp add: px_logs_def ex_find px_open_log_def ex_log_ok ex_slash)

lemma ex_wk_logs: "sv_group_id sv = 1 \<Longrightarrow>
    \<exists>sv'. wk_logs (ex_in g) ex_common sv = Some (sv', drop 2 ex_common) \<and> sv_pol sv' = sv_pol sv \<and> sv_group_id sv' = sv_group_id sv"
proof -
  have "show_int 1 = ''1''" by code_simp
  then show "sv_group_id sv = 1 \<Longrightarrow> ?thesis" by (simp add: wk_logs_def ex_find wk_open_log_def ex_log_ok ex_slash)
qed

lemma ex_acceptor: "\<exists>s'. px_acceptor (ex_in g) ex_proxy s = Some s'"
  by (simp add: px_acceptor_def ex_proxy_def px_sock_conf_def atoi_demo children_def entry_bind_def sock_init_def ex_in_def)

lemma ex_pipes: "\<exists>ps. px_connector (ex_in g) 2 ex_common ex_proxy = Some ps"
proof -
  obtain r where r: "find_elem ''connector'' ex_proxy = Some (Elem ''connector'' (ex_attrs [(''type'', ''shm'')]) [], r)" using ex_find(9) by blast
  obtain c where "open_pipe (ex_in g) 0 1 (key_conf (px_shm_conf 0 0 0 0)) = Some c"
    using ex_open_pipe [of "key_conf (px_shm_conf 0 0 0 0)" g 0 1] by (auto simp: px_shm_conf_def)
  then show ?thesis using r by (simp add: px_connector_def ex_find px_pipes_def atoi_demo px_shm_confs_def px_shm_conf_def)
qed

lemma ex_proxy_inits:
  "\<exists>st. px_initconf (ex_ui f) again (ex_in []) (ex_server, small_sock, small_proxy\<lparr>px_ctor := []\<rparr>) =
    Some (case f st of (sv, s, px) \<Rightarrow>
      (sv\<lparr>sv_local := None\<rparr>, s, px\<lparr>px_iplimit := fst (px_iplist (ex_in []) ex_proxy), px_iptable := snd (px_iplist (ex_in []) ex_proxy)\<rparr>))"
proof -
  let ?sv = "serv_groups (ex_in []) ex_server"
  have pol: "sv_pol ?sv = six_policies" by (simp add: serv_groups_def ex_server_def)
  obtain sv1 where 1: "px_logs (ex_in []) ex_common ?sv = Some sv1" "sv_pol sv1 = six_policies" "sv_group_num sv1 = 2"
    using ex_px_logs [of "[]" ?sv] pol ex_groups(1) [of "[]" ex_server] by metis
  obtain s1 where 2: "px_acceptor (ex_in []) ex_proxy small_sock = Some s1" using ex_acceptor by blast
  obtain ps where 3: "px_connector (ex_in []) 2 ex_common ex_proxy = Some ps" using ex_pipes by blast
  have "sv_group_id ?sv = 0" by (simp add: ex_groups atoi_demo small_u32)
  then have i: "px_initconf (ex_ui f) again (ex_in []) (ex_server, small_sock, small_proxy\<lparr>px_ctor := []\<rparr>) =
      px_rest (ex_ui f) (ex_in []) ex_common ex_proxy (sv1, if again then small_sock else s1, small_proxy\<lparr>px_ctor := if again then [] else ps\<rparr>)"
    using 1 2 3 ex_roots [of "[]"] by (cases again) (simp_all add: px_initconf_def del: One_nat_def)
  show ?thesis unfolding i using ex_px_rest [OF 1(2), of f "[]"] by blast
qed

lemma ex_worker_inits:
  "\<exists>st. wk_initconf (ex_ui f) again (ex_in ''1'') (ex_server, small_sock, small_worker) =
    Some (case f st of (sv, s, w) \<Rightarrow>
      (sv, s, w\<lparr>wk_ator := reg_cbs [CB_RECVDATA, CB_CONNECTED, CB_OVERLOAD, CB_DISCONNECT, CB_TIMEOUT] (wk_ator w)\<rparr>))"
proof -
  let ?sv = "serv_groups (ex_in ''1'') ex_server"
  have pol: "sv_pol ?sv = six_policies" by (simp add: serv_groups_def ex_server_def)
  have g: "sv_group_id ?sv = 1" by (simp add: ex_groups atoi_demo small_u32)
  obtain sv1 where 1: "wk_logs (ex_in ''1'') ex_common ?sv = Some (sv1, drop 2 ex_common)" "sv_pol sv1 = six_policies"
    using ex_wk_logs [OF g, of "''1''"] pol by metis
  let ?k = "wk_shm_conf 0 0 0 (sv_group_id sv1) (sv_max_proc sv1) 0 0"
  obtain c where "open_pipe (ex_in ''1'') (wkey_producer ?k) (wkey_comsumer ?k) (wkey_conf ?k) = Some c"
    using ex_open_pipe [of "wkey_conf ?k" "''1''" "wkey_producer ?k" "wkey_comsumer ?k"] by (auto simp: wk_shm_conf_def)
  then obtain c where "wk_acceptor (ex_in ''1'') sv1 (drop 2 ex_common) ex_worker = Some c"
    by (simp add: wk_acceptor_def ex_worker_def ex_find atoi_demo)
  then have i: "wk_initconf (ex_ui f) again (ex_in ''1'') (ex_server, small_sock, small_worker) =
      wk_rest (ex_ui f) (ex_in ''1'') ex_common ex_worker (sv1, small_sock, if again then small_worker else small_worker\<lparr>wk_ator := c\<rparr>)"
    using 1 g ex_roots [of "''1''"] by (cases again) (simp_all add: wk_initconf_def wk_connector_def ex_find MAX_PROC_GROUP_NUM_def del: One_nat_def)
  show ?thesis unfolding i using ex_wk_rest [OF 1(2), of f "''1''"] by blast
qed

lemma ex_proxy_starts: "\<exists>sv s px. px_initconf ex_init again (ex_in []) (ex_server, small_sock, small_proxy\<lparr>px_ctor := []\<rparr>) = Some (sv, s, px)"
  using ex_proxy_inits [of "\<lambda>st. st" again] by (auto split: prod.splits)

lemma ex_worker_starts: "\<exists>sv s w. wk_initconf ex_init again (ex_in ''1'') (ex_server, small_sock, small_worker) = Some (sv, s, w)"
  using ex_worker_inits [of "\<lambda>st. st" again] by (auto split: prod.splits)

lemma ex_keeps: "keeps v ex_init"
  by (simp add: keeps_def ex_ui_def)

theorem pipes_connect_witness:
  "\<exists>px w. length (px_ctor px) = 1 \<and> same_ring (producer (px_ctor px ! 0)) (comsumer (wk_ator w)) \<and> same_ring (comsumer (px_ctor px ! 0)) (producer (wk_ator w)) \<and>
    (\<exists>sv s. px_initconf ex_init False (ex_in []) (ex_server, small_sock, small_proxy\<lparr>px_ctor := []\<rparr>) = Some (sv, s, px)) \<and>
    (\<exists>sv s. wk_initconf ex_init False (ex_in ''1'') (ex_server, small_sock, small_worker) = Some (sv, s, w))"
proof -
  obtain sv s px where p: "px_initconf ex_init False (ex_in []) (ex_server, small_sock, small_proxy\<lparr>px_ctor := []\<rparr>) = Some (sv, s, px)"
    using ex_proxy_starts by blast
  obtain sv' s' w where w: "wk_initconf ex_init False (ex_in ''1'') (ex_server, small_sock, small_worker) = Some (sv', s', w)"
    using ex_worker_starts by blast
  obtain r where c: "find_elem ''connector'' ex_proxy = Some (Elem ''connector'' (ex_attrs [(''type'', ''shm'')]) [], r)" using ex_find(9) by blast
  have q: "filter (\<lambda>e. xname e = ''ShmQueue'') ex_common = [Elem ''ShmQueue'' (ex_attrs []) []]" by (simp add: ex_common_def)
  have i: "si_shm (ex_in ''1'') = si_shm (ex_in [])" "attached (ex_in [])" "2 = u32_of_int (atoi (si_arg (ex_in []) 3))"
      "1 = u32_of_int (atoi (si_arg (ex_in ''1'') 4))"
    by (simp_all add: ex_in_def attached_def atoi_two atoi_demo)
  have "length (px_ctor px) = 2 - 1 \<and> 0 < (1 :: nat) \<and> distinct (pipe_keys (xattr (Elem ''ShmQueue'' (ex_attrs []) [])) 2) \<and>
    same_ring (producer (px_ctor px ! (1 - 1))) (comsumer (wk_ator w)) \<and> same_ring (comsumer (px_ctor px ! (1 - 1))) (producer (wk_ator w))"
    by (rule pipes_connect [OF p _ ex_keeps w ex_keeps ex_roots(1) ex_roots(1) q ex_roots(2) c _ i]) simp_all
  then show ?thesis using p w by auto
qed

theorem reload_keeps_connections_witness:
  "\<exists>sv px. px_initconf ex_init True (ex_in []) (ex_server, small_sock, small_proxy\<lparr>px_ctor := []\<rparr>) = Some (sv, small_sock, px)"
proof -
  obtain sv s px where p: "px_initconf ex_init True (ex_in []) (ex_server, small_sock, small_proxy\<lparr>px_ctor := []\<rparr>) = Some (sv, s, px)"
    using ex_proxy_starts by blast
  obtain sv' s' w where w: "wk_initconf ex_init True (ex_in ''1'') (ex_server, small_sock, small_worker) = Some (sv', s', w)"
    using ex_worker_starts by blast
  show ?thesis using reload_keeps_connections [OF p ex_keeps w ex_keeps] p by auto
qed

text \<open>A list with one address lets that one in and no other.\<close>

theorem ip_list_enforced_witness:
  "\<exists>px. (\<exists>sv s. px_initconf ex_init True (ex_in []) (ex_server, small_sock, small_proxy\<lparr>px_ctor := []\<rparr>) = Some (sv, s, px)) \<and>
    (\<exists>ret st'. px_ator_connected default_module 1 (small_sock\<lparr>sk_blob := answer_blob [], sk_blob := (answer_blob [])\<lparr>b_extdata := replicate 20 1\<rparr>\<rparr>, px) = Some (ret, st') \<and> ret < 0)"
proof -
  obtain sv s px where p: "px_initconf ex_init True (ex_in []) (ex_server, small_sock, small_proxy\<lparr>px_ctor := []\<rparr>) = Some (sv, s, px)"
    using ex_proxy_starts by blast
  let ?s = "small_sock\<lparr>sk_blob := answer_blob [], sk_blob := (answer_blob [])\<lparr>b_extdata := replicate 20 1\<rparr>\<rparr>"
  have m: "memrd (b_extdata (sk_blob ?s)) 16 4 = Some (replicate 4 1)" by (simp add: memrd_def)
  have "fgets_lines ''1'' = [''1'']" by (subst fgets_lines.simps, simp add: fgets_def Let_def) (simp add: fgets_lines.simps)
  then have l: "listed (ex_in []) f = {7}" for f by (simp add: listed_def ex_in_def)
  have "replicate 4 (1 :: 8 word) = [1, 1, 1, 1]" by (simp add: numeral_eq_Suc)
  then have v: "le_val (replicate 4 1) \<noteq> 7" by (simp only:) simp
  have w: "xattr (Elem ''iptable'' (ex_attrs [(''whitelist'', ''w'')]) []) ''whitelist'' = ''w''" by simp
  let ?w = "xattr (Elem ''iptable'' (ex_attrs [(''whitelist'', ''w'')]) [])"
  have "if ?w ''whitelist'' \<noteq> [] then listed (ex_in []) (?w ''whitelist'') \<noteq> {} \<and> le_val (replicate 4 1) \<notin> listed (ex_in []) (?w ''whitelist'')
     else ?w ''blacklist'' \<noteq> [] \<and> le_val (replicate 4 1) \<in> listed (ex_in []) (?w ''blacklist'')"
    unfolding l w using v by simp
  then have "\<exists>ret st'. px_ator_connected default_module 1 (?s, px) = Some (ret, st') \<and> ret < 0"
    by (rule iffD2 [OF ip_list_enforced [OF p ex_roots(2) ex_find(11) m]])
  then show ?thesis using p by blast
qed

definition ex_routes :: serv_in where
  "ex_routes = (ex_in [])\<lparr>si_xml := (\<lambda>f. if f = ''r'' then [Elem ''routetable'' (ex_attrs []) [Elem ''group'' (ex_attrs [(''serv_type'', ''1'')]) []]]
     else [Elem ''group'' (ex_attrs [(''serv_type'', ''1''), (''route'', ''key % 2'')]) [Elem ''node'' (ex_attrs [(''type'', ''tcp''), (''id'', ''1''), (''end'', ''1'')]) []]])\<rparr>"

theorem routes_configured_witness: "\<exists>rc tbl. wk_route_config ex_routes (ex_attrs [(''route_table'', ''r'')]) = Some rc \<and> GetRouteTable rc 1 = (0, Some tbl) \<and> GetNodeID tbl 1 = 1"
proof -
  let ?e = "ex_attrs [(''type'', ''tcp''), (''id'', ''1''), (''end'', ''1'')]"
  let ?t = "Elem ''routetable'' (ex_attrs []) [Elem ''group'' (ex_attrs [(''serv_type'', ''1'')]) []]"
  let ?f = "''/route_table_00000001.xml''"
  have st: "u32_of_int (strtol0 ''1'') = 1"
    by (simp add: strtol0_def isspace_def digit_val_def clamp64_def small_u32)
  have c: "char_of (48 :: nat) = CHR ''0''" "char_of (49 :: nat) = CHR ''1''" by code_simp+
  have "hex8 1 = ''00000001''" by (simp add: hex8_def hex_digit_def upt_rec c)
  then have f: "route_file [] ''route_table'' 1 = Some ?f" by (simp add: route_file_def)
  obtain nd where nd: "wk_node ex_routes 1 ?e = Some nd" "n_node_id nd = 1" "covers nd 1"
    by (simp add: wk_node_def entry_bind_def ex_routes_def ex_in_def atoi_demo small_u32 covers_def)
  have t: "find_elem ''routetable'' (si_xml ex_routes ''r'') = Some (?t, [])" by (simp add: ex_routes_def)
  let ?g = "Elem ''group'' (ex_attrs [(''serv_type'', ''1''), (''route'', ''key % 2'')]) [Elem ''node'' ?e []]"
  have g: "find_elem ''group'' (si_xml ex_routes ?f) = Some (?g, [])" by (simp add: ex_routes_def)
  have ns: "map_opt (wk_node ex_routes 1) (children ''node'' ?g) = Some [nd]" using nd(1) by (simp add: children_def)
  obtain tbl where "InitRouteTable ex_routes 1 ?f = Some tbl"
    using ns by (auto simp: InitRouteTable_def g st AllTrim_def)
  then obtain rc where rc: "wk_route_config ex_routes (ex_attrs [(''route_table'', ''r'')]) = Some rc"
    by (simp add: wk_route_config_def InitRouteConfig_def t atoi_demo children_def st f [simplified])
  have d: "disjoint_nodes [nd]" by (simp add: disjoint_nodes_def)
  have m: "ex_attrs [(''serv_type'', ''1'')] \<in> set (children ''group'' ?t)" by (simp add: children_def)
  have a: "find_elem ''routetable'' (si_xml ex_routes (ex_attrs [(''route_table'', ''r'')] ''route_table'')) = Some (?t, [])" using t by simp
  have s: "1 = u32_of_int (strtol0 (ex_attrs [(''serv_type'', ''1'')] ''serv_type''))" using st by simp
  obtain tbl ns' where "GetRouteTable rc 1 = (0, Some tbl)" "map_opt (wk_node ex_routes 1) (children ''node'' ?g) = Some ns'"
      "\<forall>n\<in>set ns'. \<forall>key. covers n key \<longrightarrow> disjoint_nodes ns' \<longrightarrow> GetNodeID tbl key = n_node_id n"
    using routes_configured [OF rc a m s] f g by fastforce
  then show ?thesis using ns d nd(2,3) rc by auto
qed

end
