(* ===== verification/ServRunTheorems.thy ===== *)
theory ServRunTheorems
  imports ServRun ServConfTheorems
begin

text \<open>
  The run of proxy and worker: each goes on until it is told to quit and no longer, it reports
  to the controller regularly, and the report of a worker says what it counted.  What the two
  loops have in common is a locale, which both interpret.
\<close>

section \<open>Flags\<close>

lemma take_flag:
  fixes f m :: byte
  shows "fst (if f AND m \<noteq> 0 then (True, f AND NOT m) else (False, f)) \<longleftrightarrow> f AND m \<noteq> 0"
    "bit (snd (if f AND m \<noteq> 0 then (True, f AND NOT m) else (False, f))) n \<longleftrightarrow> bit f n \<and> \<not> bit m n"
proof -
  have "f AND m = 0 \<Longrightarrow> bit f n \<Longrightarrow> \<not> bit m n" using bit_and_iff [of f m n] by simp
  then show "bit (snd (if f AND m \<noteq> 0 then (True, f AND NOT m) else (False, f))) n \<longleftrightarrow> bit f n \<and> \<not> bit m n"
    by (auto simp: bit_and_iff bit_not_iff dest: bit_imp_le_length)
qed simp

lemma mask_bits: "bit (RUN_FLAG_QUIT :: byte) n \<longleftrightarrow> n = 0" "bit (RUN_FLAG_RELOAD :: byte) n \<longleftrightarrow> n = 1" "bit (RUN_FLAG_RELOAD_MODULE :: byte) n \<longleftrightarrow> n = 2"
  using bit_exp_iff [of 0 n, where ?'a = byte] bit_exp_iff [of 1 n, where ?'a = byte] bit_exp_iff [of 2 n, where ?'a = byte] by auto

lemma run_flag_bits: "f AND RUN_FLAG_QUIT \<noteq> 0 \<longleftrightarrow> bit f 0" "f AND RUN_FLAG_RELOAD \<noteq> 0 \<longleftrightarrow> bit f 1" "f AND RUN_FLAG_RELOAD_MODULE \<noteq> 0 \<longleftrightarrow> bit f 2"
  for f :: byte
  using and_exp_eq_0_iff_not_bit [of f 0] and_exp_eq_0_iff_not_bit [of f 1] and_exp_eq_0_iff_not_bit [of f 2] by simp_all

lemma flag_quit: "fst (quit f) = bit f 0" "bit (snd (quit f)) n \<longleftrightarrow> n \<noteq> 0 \<and> bit f n"
  using take_flag [of f RUN_FLAG_QUIT] unfolding quit_def run_flag_bits mask_bits by blast+

lemma flag_reload: "fst (reload f) = bit f 1" "bit (snd (reload f)) n \<longleftrightarrow> n \<noteq> 1 \<and> bit f n"
  using take_flag [of f RUN_FLAG_RELOAD] unfolding reload_def run_flag_bits mask_bits by blast+

lemma flag_module: "fst (reloadmoduleconfig f) = bit f 2" "bit (snd (reloadmoduleconfig f)) n \<longleftrightarrow> n \<noteq> 2 \<and> bit f n"
  using take_flag [of f RUN_FLAG_RELOAD_MODULE] unfolding reloadmoduleconfig_def run_flag_bits mask_bits by blast+

lemma catch_bits: "bit (catch_signals ss f) 0 \<longleftrightarrow> Usr1 \<in> set ss \<or> bit f 0" "bit (catch_signals ss f) 1 \<longleftrightarrow> Usr2 \<in> set ss \<or> bit f 1"
  by (induction ss f rule: catch_signals.induct) (auto simp: sigusr1_handle_def sigusr2_handle_def sigusr3_handle_def bit_or_iff mask_bits)

section \<open>What the parts of a round leave alone\<close>

definition run_view :: "server \<times> 'x \<Rightarrow> byte \<times> nat" where
  "run_view st = (sv_flag (fst st), sv_moni_inter (fst st))"

text \<open>The user's functions leave the flags and the interval of the reports alone.\<close>

definition user_ok :: "(server \<times> 'x) user_fns \<Rightarrow> bool" where
  "user_ok u \<longleftrightarrow> keeps run_view (uf_init u) \<and> (\<forall>f st st'. uf_timer u f st = Some st' \<longrightarrow> run_view st' = run_view st) \<and>
     (\<forall>e st st'. uf_reloadconfig u e st = Some st' \<longrightarrow> run_view st' = run_view st)"

lemma count_stats_view: "count_stats l sv = Some sv' \<Longrightarrow> run_view (sv', y) = run_view (sv, x)"
  by (induction l sv arbitrary: sv' rule: count_stats.induct) (auto simp: run_view_def split: option.splits)

lemma send_report_view: "send_report f pm sv = Some (pm', sv') \<Longrightarrow> run_view (sv', y) = run_view (sv, x)"
  by (auto simp: send_report_def run_view_def bind_eq_Some_conv Let_def)

lemma px_report_view:
  assumes "px_report ri sv s = Some (pm, sv', s')"
  shows "run_view (sv', y) = run_view (sv, x)"
proof -
  obtain l f sv1 where 1: "count_stats l sv = Some sv1" "send_report f (ri_queue ri) sv1 = Some (pm, sv')"
    using assms unfolding px_report_def Let_def by (auto simp: bind_eq_Some_conv simp del: count_stats.simps)
  show ?thesis using count_stats_view [OF 1(1), of x x] send_report_view [OF 1(2), of y x] by simp
qed

lemma wk_report_view: "wk_report ri sv = Some (pm, sv') \<Longrightarrow> run_view (sv', y) = run_view (sv, x)"
  by (auto simp: wk_report_def bind_eq_Some_conv Let_def run_view_def split: if_splits dest!: send_report_view [where y = y and x = x])

lemma timer_round_view:
  "(\<And>f st st'. ut f st = Some st' \<Longrightarrow> run_view st' = run_view st) \<Longrightarrow> timer_round ut now ks st = Some st' \<Longrightarrow> run_view st' = run_view st"
  by (induction ut now ks st rule: timer_round.induct) (fastforce simp: run_view_def Let_def split: if_splits option.splits)+

lemma run_timers_view: "user_ok u \<Longrightarrow> run_timers (uf_timer u) now st = Some st' \<Longrightarrow> run_view st' = run_view st"
  unfolding run_timers_def by (rule timer_round_view) (auto simp: user_ok_def)

lemma serv_load_flag:
  assumes "keeps run_view ui" "serv_load ui e i (\<lambda>f (sv, x). (f sv, x)) (sv, x) = Some (d, sv', x')"
  shows "run_view (sv', x') = run_view (sv, x)"
proof -
  obtain d' where "ui (e ''etc'') (sv\<lparr>sv_dll := Some d'\<rparr>, x) = Some (0, sv', x')" using serv_load_ok [OF assms(2)] by auto
  then have "run_view (sv', x') = run_view (sv\<lparr>sv_dll := Some d'\<rparr>, x)" using assms(1) unfolding keeps_def by blast
  then show ?thesis by (simp add: run_view_def)
qed

lemma init_flags:
  "serv_init_stat l e i sv = Some sv' \<Longrightarrow> sv_flag sv' = sv_flag sv" "serv_init_moni b e i sv = Some sv' \<Longrightarrow> sv_flag sv' = sv_flag sv"
  "px_logs i common sv = Some sv' \<Longrightarrow> sv_flag sv' = sv_flag sv" "wk_logs i common sv = Some (sv', rest) \<Longrightarrow> sv_flag sv' = sv_flag sv"
  "sv_flag (serv_groups i sv) = sv_flag sv"
  by (auto simp: serv_init_stat_def serv_init_moni_def px_logs_def wk_logs_def serv_groups_def bind_eq_Some_conv Let_def split: if_splits prod.splits)

lemma px_rest_flag:
  assumes "keeps run_view ui" "px_rest ui i common pconf (sv, x) = Some (sv', x')"
  shows "sv_flag sv' = sv_flag sv"
proof -
  obtain e1 sv1 e2 sv2 e d sv3 s px l where r: "serv_init_stat px_stats e1 i sv = Some sv1" "serv_init_moni True e2 i sv1 = Some sv2"
      "serv_load ui e i (\<lambda>f (sv, x). (f sv, x)) (sv2, x) = Some (d, sv3, s, px)" "sv' = sv3\<lparr>sv_local := l\<rparr>"
    using assms(2) by (auto simp: px_rest_def bind_eq_Some_conv split_beta Let_def)
  then show ?thesis using serv_load_flag [OF assms(1) r(3)] init_flags by (simp add: run_view_def)
qed

lemma wk_rest_flag:
  assumes "keeps run_view ui" "wk_rest ui i common pconf (sv, x) = Some (sv', x')"
  shows "sv_flag sv' = sv_flag sv"
proof -
  obtain e1 sv1 e2 sv2 e d s w where r: "serv_init_stat wk_stats e1 i sv = Some sv1" "serv_init_moni False e2 i sv1 = Some sv2"
      "serv_load ui e i (\<lambda>f (sv, x). (f sv, x)) (sv2, x) = Some (d, sv', s, w)"
    using assms(2) by (auto simp: wk_rest_def bind_eq_Some_conv split_beta Let_def)
  then show ?thesis using serv_load_flag [OF assms(1) r(3)] init_flags by (simp add: run_view_def)
qed

lemma px_initconf_flag:
  assumes "keeps run_view ui" "px_initconf ui again i st = Some st'"
  shows "sv_flag (fst st') = sv_flag (fst st)"
proof -
  obtain sv s px sv' x' where st: "st = (sv, s, px)" "st' = (sv', x')" by (metis surj_pair)
  obtain common pconf sv1 x1 where "px_logs i common (serv_groups i sv) = Some sv1" "px_rest ui i common pconf (sv1, x1) = Some (sv', x')"
    using assms(2) unfolding st px_initconf_def Let_def prod.case by (cases again) (auto simp: bind_eq_Some_conv split: if_splits)
  then show ?thesis using px_rest_flag [OF assms(1)] init_flags st by auto
qed

lemma wk_initconf_flag:
  assumes "keeps run_view ui" "wk_initconf ui again i st = Some st'"
  shows "sv_flag (fst st') = sv_flag (fst st)"
proof -
  obtain sv s w sv' x' where st: "st = (sv, s, w)" "st' = (sv', x')" by (metis surj_pair)
  obtain common pconf sv1 x1 rest where "wk_logs i common (serv_groups i sv) = Some (sv1, rest)" "wk_rest ui i common pconf (sv1, x1) = Some (sv', x')"
    using assms(2) unfolding st wk_initconf_def Let_def prod.case by (cases again) (auto simp: bind_eq_Some_conv split_beta split: if_splits)
  then show ?thesis using wk_rest_flag [OF assms(1)] init_flags st by auto
qed

section \<open>The checks of the signals\<close>

lemma bind_SomeE: "x \<bind> f = Some y \<Longrightarrow> (\<And>a. x = Some a \<Longrightarrow> f a = Some y \<Longrightarrow> P) \<Longrightarrow> P"
  by (cases x) simp_all

definition told :: "user_signal \<Rightarrow> round_in \<Rightarrow> bool" where
  "told s ri \<longleftrightarrow> (case ri_sig ri of (s1, s2, s3) \<Rightarrow> s \<in> set (s1 @ s2 @ s3))"

lemma check_signals_flags:
  assumes "user_ok u" "\<And>i st st'. init i st = Some st' \<Longrightarrow> sv_flag (fst st') = sv_flag (fst st)" "check_signals name init u ri st = Some (q, st')"
  shows "q \<longleftrightarrow> bit (sv_flag (fst st)) 0 \<or> told Usr1 ri" "\<not> bit (sv_flag (fst st')) 0"
    "\<not> bit (sv_flag (fst st)) 1 \<Longrightarrow> \<not> told Usr2 ri \<Longrightarrow> \<not> bit (sv_flag (fst st')) 1 \<and> sv_moni_inter (fst st') = sv_moni_inter (fst st)"
proof -
  obtain s1 s2 s3 sv x where s: "ri_sig ri = (s1, s2, s3)" "st = (sv, x)" by (metis surj_pair)
  let ?f1 = "catch_signals s1 (sv_flag sv)"
  let ?A = "if fst (reload ?f1) then init (ri_conf ri) (sv\<lparr>sv_flag := snd (reload ?f1)\<rparr>, x) else Some (sv\<lparr>sv_flag := snd (reload ?f1)\<rparr>, x)"
  let ?B = "\<lambda>p d. if fst (reloadmoduleconfig (catch_signals s2 (sv_flag (fst p)))) \<and> dl_reloadconfig d
      then serv_root (ri_conf ri) 2 name \<bind> (\<lambda>conf. find_elem ''module'' conf \<bind> (\<lambda>m. uf_reloadconfig u (xattr (fst m) ''etc'')
        (fst p\<lparr>sv_flag := snd (reloadmoduleconfig (catch_signals s2 (sv_flag (fst p))))\<rparr>, snd p)))
      else Some (fst p\<lparr>sv_flag := snd (reloadmoduleconfig (catch_signals s2 (sv_flag (fst p))))\<rparr>, snd p)"
  have "check_signals name init u ri st = ?A \<bind> (\<lambda>p. sv_dll (fst p) \<bind>
      (\<lambda>d. ?B p d \<bind> (\<lambda>p. Some (fst (quit (catch_signals s3 (sv_flag (fst p)))), fst p\<lparr>sv_flag := snd (quit (catch_signals s3 (sv_flag (fst p))))\<rparr>, snd p))))"
    unfolding check_signals_def s Let_def split_beta prod.sel by (rule refl)
  note r = assms(3) [unfolded this]
  obtain p1 d p2 where p: "?A = Some p1" "sv_dll (fst p1) = Some d" "?B p1 d = Some p2"
      "Some (fst (quit (catch_signals s3 (sv_flag (fst p2)))), fst p2\<lparr>sv_flag := snd (quit (catch_signals s3 (sv_flag (fst p2))))\<rparr>, snd p2) = Some (q, st')"
    using r by (elim bind_SomeE) (rule that, assumption+)
  obtain sv1 x1 sv2 x2 where px: "p1 = (sv1, x1)" "p2 = (sv2, x2)" by (metis surj_pair)
  note 1 = p(1) [unfolded px]
  let ?f2 = "catch_signals s2 (sv_flag sv1)"
  have f1: "sv_flag sv1 = snd (reload ?f1)"
    using 1 assms(2) [of "ri_conf ri" "(sv\<lparr>sv_flag := snd (reload ?f1)\<rparr>, x)" "(sv1, x1)"] by (cases "fst (reload ?f1)") auto
  have 2: "q = fst (quit (catch_signals s3 (sv_flag sv2)))" "st' = (sv2\<lparr>sv_flag := snd (quit (catch_signals s3 (sv_flag sv2)))\<rparr>, x2)"
    using p(4) px by simp_all
  have v: "run_view (sv2, x2) = run_view (sv1\<lparr>sv_flag := snd (reloadmoduleconfig ?f2)\<rparr>, x1)"
    using p(3) assms(1) unfolding px by (auto simp: user_ok_def bind_eq_Some_conv split: if_splits)
  then have f2: "sv_flag sv2 = snd (reloadmoduleconfig ?f2)" "sv_moni_inter sv2 = sv_moni_inter sv1" by (simp_all add: run_view_def)
  have b: "bit (sv_flag sv2) 0 \<longleftrightarrow> Usr1 \<in> set s2 \<or> Usr1 \<in> set s1 \<or> bit (sv_flag sv) 0" "bit (sv_flag sv2) 1 \<longleftrightarrow> Usr2 \<in> set s2"
    by (simp_all add: f1 f2 flag_module flag_reload catch_bits del: One_nat_def)
  show "q \<longleftrightarrow> bit (sv_flag (fst st)) 0 \<or> told Usr1 ri" "\<not> bit (sv_flag (fst st')) 0"
    using s 2 by (auto simp: told_def flag_quit catch_bits b simp del: One_nat_def)
  assume n: "\<not> bit (sv_flag (fst st)) 1" "\<not> told Usr2 ri"
  then have "\<not> fst (reload ?f1)" using s by (simp add: flag_reload catch_bits told_def del: One_nat_def)
  then have "sv_moni_inter sv1 = sv_moni_inter sv" using 1 by auto
  then show "\<not> bit (sv_flag (fst st')) 1 \<and> sv_moni_inter (fst st') = sv_moni_inter (fst st)"
    using n s 2(2) f2(2) by (auto simp: told_def flag_quit catch_bits b simp del: One_nat_def)
qed

section \<open>The common loop\<close>

lemma sub32_int: "int (sub32 a b) = (int a - int b) mod 2 ^ 32"
proof -
  let ?M = "2 ^ 32 :: int"
  have "b mod 2 ^ 32 \<le> a + 2 ^ 32" by (rule order_trans [OF less_imp_le [OF mod_less_divisor]]) simp_all
  then have "int (sub32 a b) = (int a + ?M - int b mod ?M) mod ?M" by (simp add: sub32_def zmod_int of_nat_diff)
  also have "int a + ?M - int b mod ?M = int a - int b mod ?M + ?M" by (rule diff_add_eq [symmetric])
  also have "(int a - int b mod ?M + ?M) mod ?M = (int a - int b) mod ?M" unfolding mod_add_self2 by (rule mod_diff_right_eq)
  finally show ?thesis .
qed

lemma sub32_of_int:
  assumes "m \<le> int a" "int a < m + 2 ^ 32"
  shows "sub32 a (u32_of_int m) = nat (int a - m)"
proof -
  have "int (sub32 a (u32_of_int m)) = (int a - m mod 2 ^ 32) mod 2 ^ 32" by (simp add: sub32_int u32_of_int_def)
  also have "\<dots> = (int a - m) mod 2 ^ 32" by (rule mod_diff_right_eq)
  also have "\<dots> = int a - m" using assms by simp
  finally show ?thesis by simp
qed

text \<open>
  What a round does with the flag to quit, with the time of the last report and with the
  interval of the reports, whatever else it does.
\<close>

locale main_loop =
  fixes step :: "round_in \<Rightarrow> serv_loop \<Rightarrow> server \<times> 'x \<Rightarrow> (round_out \<times> serv_loop \<times> server \<times> 'x) option"
    and u :: "(server \<times> 'x) user_fns"
  assumes step_quit: "user_ok u \<Longrightarrow> step ri lp st = Some (ro, lp', st') \<Longrightarrow>
      (ro_quit ro \<longleftrightarrow> bit (sv_flag (fst st)) 0 \<or> told Usr1 ri) \<and> \<not> bit (sv_flag (fst st')) 0"
    and step_report: "user_ok u \<Longrightarrow> step ri lp st = Some (ro, lp', st') \<Longrightarrow>
      (ro_queue ro \<noteq> None \<longleftrightarrow> report_due ri lp (fst st)) \<and> sl_montime lp' = (if report_due ri lp (fst st) then ri_now ri else sl_montime lp)"
    and step_interval: "user_ok u \<Longrightarrow> step ri lp st = Some (ro, lp', st') \<Longrightarrow> \<not> bit (sv_flag (fst st)) 1 \<Longrightarrow> \<not> told Usr2 ri \<Longrightarrow>
      \<not> bit (sv_flag (fst st')) 1 \<and> sv_moni_inter (fst st') = sv_moni_inter (fst st)"
begin

lemma run_length: "run_rounds step u ris lp st = Some (ros, e, st') \<Longrightarrow> length ros \<le> length ris"
  by (induction ris arbitrary: lp st ros) (auto split: option.splits if_splits)

lemma runs_until_told:
  "user_ok u \<Longrightarrow> run_rounds step u ris lp st = Some (ros, e, st') \<Longrightarrow> \<not> bit (sv_flag (fst st)) 0 \<Longrightarrow>
     (e \<longleftrightarrow> (\<exists>ri\<in>set ris. told Usr1 ri)) \<and> length ros = length (takeWhile (\<lambda>ri. \<not> told Usr1 ri) ris) + (if e then 1 else 0)"
proof (induction ris arbitrary: lp st ros)
  case (Cons ri ris)
  obtain ro lp1 st1 where s: "step ri lp st = Some (ro, lp1, st1)" using Cons(3) by (auto split: option.splits)
  from step_quit [OF Cons(2) s] Cons(4) have q: "ro_quit ro \<longleftrightarrow> told Usr1 ri" "\<not> bit (sv_flag (fst st1)) 0" by auto
  show ?case
  proof (cases "ro_quit ro")
    case True
    then show ?thesis using Cons(3) s q by (auto split: option.splits)
  next
    case False
    then obtain ros1 where r: "run_rounds step u ris lp1 st1 = Some (ros1, e, st')" "ros = ro # ros1"
      using Cons(3) s by (auto split: option.splits)
    then show ?thesis using Cons(1) [OF Cons(2) r(1) q(2)] False q(1) by auto
  qed
qed simp

text \<open>
  Between two reports more than the interval passes, and at the end of each round the last one,
  sent at \<open>m\<close> or later, is at most the interval old.
\<close>

lemma reports_from:
  assumes "user_ok u"
  shows "run_rounds step u ris lp st = Some (ros, e, st') \<Longrightarrow> \<not> bit (sv_flag (fst st)) 1 \<Longrightarrow> \<forall>ri\<in>set ris. \<not> told Usr2 ri \<Longrightarrow>
    sv_moni_inter (fst st) = n \<Longrightarrow> n < 2 ^ 32 \<Longrightarrow> sorted (map ri_now ris) \<Longrightarrow> u32_of_int m = sl_montime lp \<Longrightarrow>
    \<forall>ri\<in>set ris. m \<le> int (ri_now ri) \<and> int (ri_now ri) < m + 2 ^ 32 \<and> ri_now ri < 2 ^ 32 \<Longrightarrow>
    k < length ros \<Longrightarrow>
    (ro_queue (ros ! k) \<noteq> None \<longrightarrow> int n < int (ri_now (ris ! k)) - m) \<and>
    (\<forall>j<k. ro_queue (ros ! j) \<noteq> None \<and> ro_queue (ros ! k) \<noteq> None \<longrightarrow> n < ri_now (ris ! k) - ri_now (ris ! j)) \<and>
    ((\<exists>j\<le>k. ro_queue (ros ! j) \<noteq> None \<and> ri_now (ris ! k) - ri_now (ris ! j) \<le> n) \<or> int (ri_now (ris ! k)) - m \<le> int n)"
proof (induction ris arbitrary: lp st ros m k)
  case (Cons ri ris)
  note IH = Cons(1) and hyps = Cons(2-10)
  obtain ro lp1 st1 where s: "step ri lp st = Some (ro, lp1, st1)" using hyps(1) by (auto split: option.splits)
  obtain ros1 where ros: "ros = ro # ros1" using hyps(1) s by (auto split: option.splits if_splits)
  have due: "report_due ri lp (fst st) \<longleftrightarrow> int n < int (ri_now ri) - m"
    using hyps(4,7,8) sub32_of_int [of m "ri_now ri"] by (auto simp: report_due_def)
  have rep: "ro_queue ro \<noteq> None \<longleftrightarrow> int n < int (ri_now ri) - m"
      "sl_montime lp1 = (if int n < int (ri_now ri) - m then ri_now ri else sl_montime lp)"
    using step_report [OF assms s] unfolding due by auto
  show ?case
  proof (cases k)
    case 0
    then show ?thesis using rep(1) ros by auto
  next
    case (Suc k')
    then have r: "run_rounds step u ris lp1 st1 = Some (ros1, e, st')" "k' < length ros1"
      using hyps(1,9) s ros by (auto split: option.splits if_splits)
    let ?m = "if int n < int (ri_now ri) - m then int (ri_now ri) else m"
    have i: "\<not> bit (sv_flag (fst st1)) 1" "sv_moni_inter (fst st1) = n" using step_interval [OF assms s hyps(2)] hyps(3,4) by auto
    have m: "u32_of_int ?m = sl_montime lp1" using rep(2) hyps(7,8) by (auto simp: u32_of_int_def)
    have le: "\<forall>x\<in>set ris. ri_now ri \<le> ri_now x" using hyps(6) by auto
    have "k' < length ris" using r(2) run_length [OF r(1)] by simp
    then have lek: "ri_now ri \<le> ri_now (ris ! k')" using le by auto
    have b: "\<forall>x\<in>set ris. ?m \<le> int (ri_now x) \<and> int (ri_now x) < ?m + 2 ^ 32 \<and> ri_now x < 2 ^ 32"
      using hyps(8) le by auto
    have c: "(ro_queue (ros1 ! k') \<noteq> None \<longrightarrow> int n < int (ri_now (ris ! k')) - ?m) \<and>
      (\<forall>j<k'. ro_queue (ros1 ! j) \<noteq> None \<and> ro_queue (ros1 ! k') \<noteq> None \<longrightarrow> n < ri_now (ris ! k') - ri_now (ris ! j)) \<and>
      ((\<exists>j\<le>k'. ro_queue (ros1 ! j) \<noteq> None \<and> ri_now (ris ! k') - ri_now (ris ! j) \<le> n) \<or> int (ri_now (ris ! k')) - ?m \<le> int n)"
      by (rule IH [OF r(1) i(1) _ i(2) hyps(5) _ m b r(2)]) (use hyps(3,6) in auto)
    show ?thesis
    proof (intro conjI allI impI)
      show "int n < int (ri_now ((ri # ris) ! k)) - m" if "ro_queue (ros ! k) \<noteq> None"
        using that c ros Suc lek by (auto split: if_splits)
      show "n < ri_now ((ri # ris) ! k) - ri_now ((ri # ris) ! j)" if "j < k" "ro_queue (ros ! j) \<noteq> None \<and> ro_queue (ros ! k) \<noteq> None" for j
        using that c ros Suc lek rep(1) by (cases j) (auto split: if_splits)
      show "(\<exists>j\<le>k. ro_queue (ros ! j) \<noteq> None \<and> ri_now ((ri # ris) ! k) - ri_now ((ri # ris) ! j) \<le> n) \<or> int (ri_now ((ri # ris) ! k)) - m \<le> int n"
      proof (cases "\<exists>j\<le>k'. ro_queue (ros1 ! j) \<noteq> None \<and> ri_now (ris ! k') - ri_now (ris ! j) \<le> n")
        case True
        then obtain j where "j \<le> k'" "ro_queue (ros1 ! j) \<noteq> None" "ri_now (ris ! k') - ri_now (ris ! j) \<le> n" by blast
        then show ?thesis using ros Suc by (intro disjI1 exI [of _ "Suc j"]) simp
      next
        case False
        then have d: "int (ri_now (ris ! k')) - ?m \<le> int n" using c by blast
        show ?thesis
        proof (cases "int n < int (ri_now ri) - m")
          case True
          then show ?thesis using d rep(1) ros Suc by (intro disjI1 exI [of _ 0]) auto
        next
          case False
          then show ?thesis using d Suc by simp
        qed
      qed
    qed
  qed
qed simp

end

text \<open>What both rounds come to, seen through the flags and the interval.\<close>

lemma due_view: "run_view st' = run_view st \<Longrightarrow> report_due ri lp (fst st') = report_due ri lp (fst st)"
  by (simp add: report_due_def run_view_def)

lemma px_monitor_view:
  assumes "px_monitor ri lp sv s = Some (pm, montime, sv', s')"
  shows "run_view (sv', y) = run_view (sv, x)" "pm \<noteq> None \<longleftrightarrow> report_due ri lp sv" "montime = (if report_due ri lp sv then ri_now ri else sl_montime lp)"
  using assms px_report_view [of ri sv s _ sv' s' y x]
  by (auto simp: px_monitor_def run_view_def bind_eq_Some_conv split: if_splits)

lemma wk_monitor_view:
  assumes "wk_monitor ri lp sv = Some (pm, montime, sv')"
  shows "run_view (sv', y) = run_view (sv, x)" "pm \<noteq> None \<longleftrightarrow> report_due ri lp sv" "montime = (if report_due ri lp sv then ri_now ri else sl_montime lp)"
  using assms wk_report_view [of ri sv _ sv' y x]
  by (auto simp: wk_monitor_def run_view_def bind_eq_Some_conv split: if_splits)

lemma px_round_ok:
  assumes "user_ok u" "px_round u um ri lp st = Some (ro, lp', st')"
  obtains x where "run_view x = run_view st" "check_signals ''proxy'' (px_initconf (uf_init u) True) u ri x = Some (ro_quit ro, st')"
    "ro_queue ro \<noteq> None \<longleftrightarrow> report_due ri lp (fst st)" "sl_montime lp' = (if report_due ri lp (fst st) then ri_now ri else sl_montime lp)"
proof -
  obtain sv s px where st: "st = (sv, s, px)" by (cases st)
  obtain s1 l1 x1 sv1 pm montime sv2 s2 sv3 s3 x3 l3 sv4 x4 where r: "count_stats l1 sv = Some sv1"
      "px_monitor ri lp sv1 s1 = Some (pm, montime, sv2, s2)" "run_timers (uf_timer u) (ri_tod ri) (sv2, s2, x1) = Some (sv3, s3, x3)"
      "count_stats l3 sv3 = Some sv4" "check_signals ''proxy'' (px_initconf (uf_init u) True) u ri (sv4, s3, x4) = Some (ro_quit ro, st')"
      "ro_queue ro = pm" "sl_montime lp' = montime"
    using assms(2) unfolding px_round_def st Let_def split_beta by (auto simp: bind_eq_Some_conv)
  have v: "run_view (sv1, s1, x1) = run_view st" unfolding st by (rule count_stats_view [OF r(1)])
  moreover have "run_view (sv2, s2, x1) = run_view (sv1, s1, x1)" by (rule px_monitor_view [OF r(2)])
  moreover have "run_view (sv3, s3, x3) = run_view (sv2, s2, x1)" by (rule run_timers_view [OF assms(1) r(3)])
  moreover have "run_view (sv4, s3, x4) = run_view (sv3, s3, x3)" by (rule count_stats_view [OF r(4)])
  ultimately show ?thesis using that [OF _ r(5)] px_monitor_view(2,3) [OF r(2)] due_view [OF v] r(6,7) by simp
qed

lemma wk_round_ok:
  assumes "user_ok u" "wk_round u um ri lp st = Some (ro, lp', st')"
  obtains x where "run_view x = run_view st" "check_signals ''worker'' (wk_initconf (uf_init u) True) u ri x = Some (ro_quit ro, st')"
    "ro_queue ro \<noteq> None \<longleftrightarrow> report_due ri lp (fst st)" "sl_montime lp' = (if report_due ri lp (fst st) then ri_now ri else sl_montime lp)"
proof -
  obtain sv s w where st: "st = (sv, s, w)" by (cases st)
  obtain l1 sv1 s1 w1 sv2 s2 w2 l2 sv3 w3 pm montime sv4 where r: "count_stats l1 sv = Some sv1"
      "run_timers (uf_timer u) (ri_tod ri) (sv1, s1, w1) = Some (sv2, s2, w2)" "count_stats l2 sv2 = Some sv3"
      "wk_monitor ri lp sv3 = Some (pm, montime, sv4)" "check_signals ''worker'' (wk_initconf (uf_init u) True) u ri (sv4, s2, w3) = Some (ro_quit ro, st')"
      "ro_queue ro = pm" "sl_montime lp' = montime"
    using assms(2) unfolding wk_round_def st Let_def split_beta by (auto simp: bind_eq_Some_conv)
  have "run_view (sv1, s1, w1) = run_view st" unfolding st by (rule count_stats_view [OF r(1)])
  moreover have "run_view (sv2, s2, w2) = run_view (sv1, s1, w1)" by (rule run_timers_view [OF assms(1) r(2)])
  moreover have "run_view (sv3, s2, w3) = run_view (sv2, s2, w2)" by (rule count_stats_view [OF r(3)])
  moreover have "run_view (sv4, s2, w3) = run_view (sv3, s2, w3)" by (rule wk_monitor_view [OF r(4)])
  ultimately show ?thesis using that [OF _ r(5)] wk_monitor_view(2,3) [OF r(4)] due_view [of "(sv3, s2, w3)" st] r(6,7) by simp
qed

lemma round_laws:
  assumes "user_ok u" "\<And>i st st'. init i st = Some st' \<Longrightarrow> sv_flag (fst st') = sv_flag (fst st)" "run_view x = run_view st"
    "check_signals name init u ri x = Some (q, st')"
  shows "(q \<longleftrightarrow> bit (sv_flag (fst st)) 0 \<or> told Usr1 ri) \<and> \<not> bit (sv_flag (fst st')) 0"
    "\<not> bit (sv_flag (fst st)) 1 \<Longrightarrow> \<not> told Usr2 ri \<Longrightarrow> \<not> bit (sv_flag (fst st')) 1 \<and> sv_moni_inter (fst st') = sv_moni_inter (fst st)"
  using check_signals_flags [OF assms(1,2,4)] assms(3) by (simp_all add: run_view_def)

lemma user_ok_init: "user_ok u \<Longrightarrow> keeps run_view (uf_init u)"
  by (simp add: user_ok_def)

interpretation px_loop: main_loop "px_round u um" u for u um
proof
  fix ri lp st ro lp' st'
  assume u: "user_ok u" and s: "px_round u um ri lp st = Some (ro, lp', st')"
  obtain x where x: "run_view x = run_view st" "check_signals ''proxy'' (px_initconf (uf_init u) True) u ri x = Some (ro_quit ro, st')"
    and r: "ro_queue ro \<noteq> None \<longleftrightarrow> report_due ri lp (fst st)" "sl_montime lp' = (if report_due ri lp (fst st) then ri_now ri else sl_montime lp)"
    using px_round_ok [OF u s] .
  note laws = round_laws [OF u px_initconf_flag [OF user_ok_init [OF u]] x]
  show "(ro_quit ro \<longleftrightarrow> bit (sv_flag (fst st)) 0 \<or> told Usr1 ri) \<and> \<not> bit (sv_flag (fst st')) 0" by (rule laws(1))
  show "(ro_queue ro \<noteq> None \<longleftrightarrow> report_due ri lp (fst st)) \<and> sl_montime lp' = (if report_due ri lp (fst st) then ri_now ri else sl_montime lp)"
    using r by simp
  show "\<not> bit (sv_flag (fst st)) 1 \<Longrightarrow> \<not> told Usr2 ri \<Longrightarrow> \<not> bit (sv_flag (fst st')) 1 \<and> sv_moni_inter (fst st') = sv_moni_inter (fst st)"
    by (rule laws(2))
qed

interpretation wk_loop: main_loop "wk_round u um" u for u um
proof
  fix ri lp st ro lp' st'
  assume u: "user_ok u" and s: "wk_round u um ri lp st = Some (ro, lp', st')"
  obtain x where x: "run_view x = run_view st" "check_signals ''worker'' (wk_initconf (uf_init u) True) u ri x = Some (ro_quit ro, st')"
    and r: "ro_queue ro \<noteq> None \<longleftrightarrow> report_due ri lp (fst st)" "sl_montime lp' = (if report_due ri lp (fst st) then ri_now ri else sl_montime lp)"
    using wk_round_ok [OF u s] .
  note laws = round_laws [OF u wk_initconf_flag [OF user_ok_init [OF u]] x]
  show "(ro_quit ro \<longleftrightarrow> bit (sv_flag (fst st)) 0 \<or> told Usr1 ri) \<and> \<not> bit (sv_flag (fst st')) 0" by (rule laws(1))
  show "(ro_queue ro \<noteq> None \<longleftrightarrow> report_due ri lp (fst st)) \<and> sl_montime lp' = (if report_due ri lp (fst st) then ri_now ri else sl_montime lp)"
    using r by simp
  show "\<not> bit (sv_flag (fst st)) 1 \<Longrightarrow> \<not> told Usr2 ri \<Longrightarrow> \<not> bit (sv_flag (fst st')) 1 \<and> sv_moni_inter (fst st') = sv_moni_inter (fst st)"
    by (rule laws(2))
qed

section \<open>Properties of the runs\<close>

text \<open>A hyphen anywhere in the path of the first configuration keeps a server from starting.\<close>

lemma hyphen_not_started: "CHR ''-'' \<in> set (argv ! 1) \<Longrightarrow> run_args argv \<noteq> Start b"
  by (cases "dropWhile (\<lambda>c. c \<noteq> CHR ''-'') (argv ! 1)") (auto simp: run_args_def Let_def dropWhile_eq_Nil_conv)


lemma px_initconf_inter:
  assumes "keeps run_view ui" "px_initconf ui again i st = Some st'" "serv_root i 1 ''common'' = Some common" "find_elem ''moni'' common = Some (e, r)"
  shows "sv_moni_inter (fst st') = u32_of_int (atoi (xattr e ''intervial''))"
proof -
  obtain sv s px sv' s' px' where st: "st = (sv, s, px)" "st' = (sv', s', px')" by (metis surj_pair)
  obtain pconf sv1 s1 pipes where "px_rest ui i common pconf (sv1, s1, px\<lparr>px_ctor := px_ctor px @ pipes\<rparr>) = Some (sv', s', px')"
    by (rule px_initconf_ok [OF assms(2) [unfolded st]]) (use assms(3) in simp)
  then obtain sv2 sv3 m d sv4 s4 px4 l where r: "serv_init_moni True (xattr e) i sv2 = Some sv3"
      "serv_load ui m i (\<lambda>f (sv, x). (f sv, x)) (sv3, s1, px\<lparr>px_ctor := px_ctor px @ pipes\<rparr>) = Some (d, sv4, s4, px4)" "sv' = sv4\<lparr>sv_local := l\<rparr>"
    using assms(4) by (auto simp: px_rest_def bind_eq_Some_conv split_beta Let_def)
  then show ?thesis using serv_load_flag [OF assms(1) r(2)] r(1,3) st by (auto simp: run_view_def serv_init_moni_def Let_def split: if_splits)
qed

lemma wk_initconf_inter:
  assumes "keeps run_view ui" "wk_initconf ui again i st = Some st'" "serv_root i 1 ''common'' = Some common" "find_elem ''moni'' common = Some (e, r)"
  shows "sv_moni_inter (fst st') = u32_of_int (atoi (xattr e ''intervial''))"
proof -
  obtain sv s w sv' s' w' where st: "st = (sv, s, w)" "st' = (sv', s', w')" by (metis surj_pair)
  obtain pconf sv1 s1 w1 where "wk_rest ui i common pconf (sv1, s1, w1) = Some (sv', s', w')"
    by (rule wk_initconf_ok [OF assms(2) [unfolded st]]) (use assms(3) in simp)
  then obtain sv2 sv3 m d s4 w4 where r: "serv_init_moni False (xattr e) i sv2 = Some sv3"
      "serv_load ui m i (\<lambda>f (sv, x). (f sv, x)) (sv3, s1, w1) = Some (d, sv', s4, w4)"
    using assms(4) by (auto simp: wk_rest_def bind_eq_Some_conv split_beta Let_def)
  then show ?thesis using serv_load_flag [OF assms(1) r(2)] r(1) st by (auto simp: run_view_def serv_init_moni_def Let_def split: if_splits)
qed

text \<open>
  The rounds \<open>ris\<close> sent reports regularly: after each round the last report is at most \<open>n\<close> seconds
  old, and between two reports more than \<open>n\<close> seconds pass.
\<close>

definition regular :: "nat \<Rightarrow> round_in list \<Rightarrow> round_out list \<Rightarrow> bool" where
  "regular n ris ros \<longleftrightarrow> (\<forall>k<length ros.
     (\<exists>j\<le>k. ro_queue (ros ! j) \<noteq> None \<and> ri_now (ris ! k) - ri_now (ris ! j) \<le> n) \<and>
     (\<forall>j<k. ro_queue (ros ! j) \<noteq> None \<and> ro_queue (ros ! k) \<noteq> None \<longrightarrow> n < ri_now (ris ! k) - ri_now (ris ! j)))"

text \<open>The clock goes on from \<open>t\<close>, and its numbers do not wrap around.\<close>

definition clock_ok :: "nat \<Rightarrow> nat \<Rightarrow> round_in list \<Rightarrow> bool" where
  "clock_ok n t ris \<longleftrightarrow> t < 2 ^ 31 \<and> n < 2 ^ 31 \<and> sorted (map ri_now ris) \<and> (\<forall>ri\<in>set ris. t \<le> ri_now ri \<and> ri_now ri < 2 ^ 31)"

lemma loop_start_time: "u32_of_int (int t - int (sv_moni_inter sv) - 1) = sl_montime (loop_start t sv)"
proof -
  let ?n = "sv_moni_inter sv"
  have "int (sub32 (sub32 t ?n) 1) = ((int t - int ?n) mod 2 ^ 32 - 1) mod 2 ^ 32" by (simp only: sub32_int of_nat_1)
  also have "\<dots> = (int t - int ?n - 1) mod 2 ^ 32" by (rule mod_diff_left_eq)
  finally show ?thesis by (simp add: loop_start_def u32_of_int_def nat_eq_iff)
qed

context main_loop
begin

lemma reports_regular:
  assumes "user_ok u" "run_rounds step u ris (loop_start t (fst st)) st = Some (ros, e, st')" "sv_flag (fst st) = 0"
    "\<forall>ri\<in>set ris. \<not> told Usr2 ri" "clock_ok (sv_moni_inter (fst st)) t ris"
  shows "regular (sv_moni_inter (fst st)) ris ros"
  unfolding regular_def
proof (intro allI impI)
  let ?n = "sv_moni_inter (fst st)"
  let ?m = "int t - int ?n - 1"
  fix k
  assume k: "k < length ros"
  have c: "sorted (map ri_now ris)" "?n < 2 ^ 32" "\<forall>ri\<in>set ris. ?m \<le> int (ri_now ri) \<and> int (ri_now ri) < ?m + 2 ^ 32 \<and> ri_now ri < 2 ^ 32"
    using assms(5) by (auto simp: clock_ok_def)
  have "k < length ris" using k run_length [OF assms(2)] by simp
  then have t: "t \<le> ri_now (ris ! k)" using assms(5) by (simp add: clock_ok_def)
  from reports_from [OF assms(1,2) _ assms(4) refl c(2,1) loop_start_time c(3) k] assms(3) t
  show "(\<exists>j\<le>k. ro_queue (ros ! j) \<noteq> None \<and> ri_now (ris ! k) - ri_now (ris ! j) \<le> ?n) \<and>
      (\<forall>j<k. ro_queue (ros ! j) \<noteq> None \<and> ro_queue (ros ! k) \<noteq> None \<longrightarrow> ?n < ri_now (ris ! k) - ri_now (ris ! j))"
    by auto
qed

end


section \<open>What the report of a worker says\<close>

lemma sid_inj: "map (of_char :: char \<Rightarrow> byte) a = map of_char b \<longleftrightarrow> a = b"
proof -
  have n: "unat (of_char c :: byte) = of_char c" for c
  proof -
    have "(of_char c :: byte) = of_nat (of_char c)" by (rule of_nat_of_char [symmetric])
    then show ?thesis by (simp add: unat_of_nat)
  qed
  have "inj (of_char :: char \<Rightarrow> byte)" by (rule injI) (metis n of_char_eq_iff)
  then show ?thesis by (simp add: inj_map_eq_map)
qed

text \<open>The sum of the counts of a statistic, and their number.\<close>

definition counted :: "string \<Rightarrow> (string \<times> int) list \<Rightarrow> int" where
  "counted n l = sum_list (map snd (filter (\<lambda>p. fst p = n) l))"

definition counts :: "string \<Rightarrow> (string \<times> int) list \<Rightarrow> nat" where
  "counts n l = length (filter (\<lambda>p. fst p = n) l)"

lemma upd_sum: "ty \<in> {1, 2} \<Longrightarrow> upd six_policies v 1 (ty, c, [x]) = (ty, c + 1, [x + v])"
  by (auto simp: upd_def policy_of_def six_policies_def entry_step_def)

lemma upd_length1: "length (snd (snd (upd t v 1 x))) = length (snd (snd x))"
  by (rule upd_length)

lemma count_stats_rep:
  "sv_stat sv = Some p \<Longrightarrow> sv_pol sv = six_policies \<Longrightarrow> stat_rep six_policies p (m, k, w) \<Longrightarrow> \<forall>s. \<forall>x\<in>set (m s). 1 \<le> length (snd (snd x)) \<Longrightarrow>
    \<exists>p' m'. count_stats l sv = Some (sv\<lparr>sv_stat := Some p'\<rparr>) \<and> stat_rep six_policies p' (m', k, w) \<and>
      (\<forall>n ty c x. ty \<in> {1, 2} \<longrightarrow> m (map of_char n) = [(ty, c, [x])] \<longrightarrow>
         m' (map of_char n) = [(ty, c + of_nat (counts n l), [x + word_of_int (counted n l)])])"
proof (induction l arbitrary: sv p m)
  case Nil
  then show ?case by (intro exI [of _ p] exI [of _ m]) (simp add: counts_def counted_def)
next
  case (Cons y l)
  obtain n v where y: "y = (n, v)" by (cases y)
  let ?s = "map of_char n :: bytes" and ?v = "word_of_int v :: stat_val"
  let ?m = "m(?s := map (upd six_policies ?v 1) (m ?s))"
  have "abs_op six_policies (Count ?s ?v 1) (m, k, w) = Some (?m, k, w)"
    using Cons(5) by (auto simp: list_all_iff)
  from count_rep [OF Cons(4) this] obtain p1 where "pool_op six_policies (Count ?s ?v 1) p = Some p1" and p1: "stat_rep six_policies p1 (?m, k, w)"
    by blast
  then have s: "step0 six_policies ?s ?v 1 p = Some p1" by (auto split: option.splits)
  have len: "\<forall>s. \<forall>x\<in>set (?m s). 1 \<le> length (snd (snd x))" using Cons(5) by (auto simp: upd_length1)
  have sv: "sv_stat (sv\<lparr>sv_stat := Some p1\<rparr>) = Some p1" "sv_pol (sv\<lparr>sv_stat := Some p1\<rparr>) = six_policies" using Cons(3) by simp_all
  obtain p' m' where r: "count_stats l (sv\<lparr>sv_stat := Some p1\<rparr>) = Some (sv\<lparr>sv_stat := Some p1, sv_stat := Some p'\<rparr>)"
      "stat_rep six_policies p' (m', k, w)"
      "\<forall>n ty c x. ty \<in> {1, 2} \<longrightarrow> ?m (map of_char n) = [(ty, c, [x])] \<longrightarrow>
         m' (map of_char n) = [(ty, c + of_nat (counts n l), [x + word_of_int (counted n l)])]"
    using Cons(1) [OF sv p1 len] by (elim exE conjE) (rule that)
  have "m' (map of_char n') = [(ty, c + of_nat (counts n' (y # l)), [x + word_of_int (counted n' (y # l))])]"
    if "ty \<in> {1, 2}" "m (map of_char n') = [(ty, c, [x])]" for n' ty c x
  proof (cases "n' = n")
    case True
    then have "?m (map of_char n') = [(ty, c + 1, [x + ?v])]" using that upd_sum [OF that(1)] by simp
    from r(3) [rule_format, OF that(1) this] show ?thesis using True y by (simp add: counts_def counted_def algebra_simps)
  next
    case False
    then have "?m (map of_char n') = [(ty, c, [x])]" using that(2) by (simp add: sid_inj)
    from r(3) [rule_format, OF that(1) this] show ?thesis using False y by (simp add: counts_def counted_def)
  qed
  then show ?case using Cons(2,3) y s r(1,2) by (intro exI [of _ p'] exI [of _ m']) simp
qed

lemma stat_value_rep:
  assumes "sv_stat sv = Some p" "stat_rep t p (m, k, w)" "m (map of_char n) = [(ty, c, [x])]"
  shows "stat_value n sv = Some (x, c)"
proof -
  from query_rep [OF assms(2), of "map of_char n"] assms(3) obtain ob where
    ob: "stat_query (map of_char n) p = Some (1, Some ob)" "so_count ob = c" "read_values ob (sp_vals p) = Some [x]" by auto
  have "val_at (sp_vals p) (so_val_offset ob) = Some x"
  proof -
    have r: "0 \<le> so_val_offset ob" "nat (so_val_offset ob) + nat (so_val_size ob) \<le> length (sp_vals p)"
        "take (nat (so_val_size ob)) (drop (nat (so_val_offset ob)) (sp_vals p)) = [x]"
      using ob(3) by (auto simp: read_values_def Let_def split: if_splits)
    have "nat (so_val_offset ob) < length (sp_vals p)" using r(3) by (cases "nat (so_val_offset ob) < length (sp_vals p)") simp_all
    moreover have "sp_vals p ! nat (so_val_offset ob) = x" using r(3) by (metis Cons_nth_drop_Suc calculation list.inject take_Suc_Cons take_eq_Nil2 list.distinct(1) not0_implies_Suc)
    ultimately show ?thesis using r(1) by (simp add: val_at_def)
  qed
  then show ?thesis using assms(1) ob by (simp add: stat_value_def)
qed

lemma wk_stats_start:
  assumes "init_statobjs six_policies wk_stats newpool = Some p"
  shows "\<exists>m k w. stat_rep six_policies p (m, k, w) \<and> m (map of_char ''work_ator_recv_num'') = [(1, 0, [0])] \<and>
    m (map of_char ''work_fail_proc_num'') = [(1, 0, [0])] \<and> m (map of_char ''work_avg_proc_time'') = [(2, 0, [0])]"
proof -
  let ?ops = "map (\<lambda>(n, ty). Register (map of_char n) ty None 1) wk_stats"
  obtain a where a: "run_ops (abs_op six_policies) ?ops (\<lambda>i. [], 0, 0) = Some a" by (simp add: wk_stats_def six_policies_def)
  obtain m k w where m: "a = (m, k, w)" by (cases a)
  have "m (map of_char ''work_ator_recv_num'') = [(1, 0, [0])]" "m (map of_char ''work_fail_proc_num'') = [(1, 0, [0])]"
      "m (map of_char ''work_avg_proc_time'') = [(2, 0, [0])]"
    using a unfolding m by (auto simp: wk_stats_def six_policies_def)
  moreover have "stat_rep six_policies p a"
    using init_statobjs_rep [OF policies_init [OF stat_policies_init_eq] newpool_rep a] assms by simp
  ultimately show ?thesis unfolding m by blast
qed

lemma word_quot:
  assumes "0 \<le> a" "a < 2 ^ 64" "0 < b" "b < 2 ^ 64"
  shows "unat ((word_of_int a :: 64 word) div word_of_int b) = nat (a div b)"
proof -
  have "unat (word_of_int x :: 64 word) = nat x" if "0 \<le> x" "x < 2 ^ 64" for x
  proof -
    have "uint (word_of_int x :: 64 word) = x" using that by (simp add: uint_word_of_int)
    then have "nat (uint (word_of_int x :: 64 word)) = nat x" by (rule arg_cong)
    then show ?thesis by simp
  qed
  then show ?thesis using assms by (simp add: unat_div_distrib nat_div_distrib)
qed

text \<open>
  C40: The report of a worker says what the worker has counted: with the statistics of its start and
  any counts \<open>l\<close> since then, the rate of success it sends is the share of the requests that did not
  fail, in thousandths, and the delay the mean of the times of those that were timed, of which only
  the lower 16 bits fit the report; without any both are 0.
\<close>

theorem worker_report_says_counts:
  assumes "init_statobjs six_policies wk_stats newpool = Some p" "sv_stat sv = Some p" "sv_pol sv = six_policies"
    "recv = counted ''work_ator_recv_num'' l" "fail = counted ''work_fail_proc_num'' l" "0 \<le> fail" "fail \<le> recv" "recv < 2 ^ 53"
    "time = counted ''work_avg_proc_time'' l" "n = counts ''work_avg_proc_time'' l" "0 \<le> time" "time < 2 ^ 32" "n < 2 ^ 32"
  shows "\<exists>sv'. count_stats l sv = Some sv' \<and> sv_cli sv' = sv_cli sv \<and>
    (\<forall>ri. wk_report ri sv' =
       (case cli_run ((sv_cli sv)\<lparr>pc_info := (pc_info (sv_cli sv))\<lparr>pi_watermark := 0,
               pi_srate := (if recv = 0 then 0 else nat ((recv - fail) * 1000 div recv)),
               pi_delay := (if n = 0 then 0 else nat time div n mod 2 ^ 16), pi_timestamp := int (ri_now ri)\<rparr>\<rparr>) (ri_queue ri) of
          None \<Rightarrow> None
        | Some (c, pm) \<Rightarrow> Some (pm, sv'\<lparr>sv_cli := c\<lparr>pc_info := (pc_info c)\<lparr>pi_memused := ri_mem ri\<rparr>\<rparr>\<rparr>)))"
proof -
  obtain m k w where m: "stat_rep six_policies p (m, k, w)" "m (map of_char ''work_ator_recv_num'') = [(1, 0, [0])]"
      "m (map of_char ''work_fail_proc_num'') = [(1, 0, [0])]" "m (map of_char ''work_avg_proc_time'') = [(2, 0, [0])]"
    using wk_stats_start [OF assms(1)] by (elim exE conjE)
  have len: "\<forall>s. \<forall>x\<in>set (m s). 1 \<le> length (snd (snd x))" using rep_positive [OF m(1)] by fastforce
  obtain p' m' where r: "count_stats l sv = Some (sv\<lparr>sv_stat := Some p'\<rparr>)" "stat_rep six_policies p' (m', k, w)"
      "\<forall>n ty c x. ty \<in> {1, 2} \<longrightarrow> m (map of_char n) = [(ty, c, [x])] \<longrightarrow>
         m' (map of_char n) = [(ty, c + of_nat (counts n l), [x + word_of_int (counted n l)])]"
    using count_stats_rep [where l = l, OF assms(2,3) m(1) len] by (elim exE conjE) (rule that)
  let ?sv = "sv\<lparr>sv_stat := Some p'\<rparr>"
  have st: "sv_stat ?sv = Some p'" by simp
  have "m' (map of_char ''work_ator_recv_num'') = [(1, of_nat (counts ''work_ator_recv_num'' l), [word_of_int recv])]"
    using r(3) [rule_format, OF _ m(2)] assms(4) by simp
  note v1 = stat_value_rep [OF st r(2) this]
  have "m' (map of_char ''work_fail_proc_num'') = [(1, of_nat (counts ''work_fail_proc_num'' l), [word_of_int fail])]"
    using r(3) [rule_format, OF _ m(3)] assms(5) by simp
  note v2 = stat_value_rep [OF st r(2) this]
  have "m' (map of_char ''work_avg_proc_time'') = [(2, of_nat n, [word_of_int time])]"
    using r(3) [rule_format, OF _ m(4)] assms(9,10) by simp
  note v3 = stat_value_rep [OF st r(2) this]
  have u: "uint (word_of_int recv :: 64 word) = recv" "uint (of_nat n :: 64 word) = int n"
    using assms(6-8,13) by (simp_all add: uint_word_of_int unsigned_of_nat take_bit_nat_eq_self)
  have z: "(0 :: 64 word) < word_of_int recv \<longleftrightarrow> recv \<noteq> 0" "(0 :: 64 word) < of_nat n \<longleftrightarrow> n \<noteq> 0"
    unfolding word_less_def u using assms(6,7) by auto
  have s: "unat ((word_of_int recv - word_of_int fail :: 64 word) * 1000 div word_of_int recv) mod 2 ^ 16 = nat ((recv - fail) * 1000 div recv)"
    if "recv \<noteq> 0"
  proof -
    have "(word_of_int recv - word_of_int fail :: 64 word) * 1000 = word_of_int ((recv - fail) * 1000)" by simp
    moreover have "(recv - fail) * 1000 div recv \<le> 1000 * recv div recv" using assms(6,7) that by (intro zdiv_mono1) auto
    ultimately show ?thesis using word_quot [of "(recv - fail) * 1000" recv] assms(6-8) that by (simp add: nat_less_iff)
  qed
  have d: "unat ((word_of_int time :: 64 word) div of_nat n) = nat time div n" if "n \<noteq> 0"
    using word_quot [of time "int n"] assms(11-13) that by (simp add: nat_div_distrib)
  let ?c = "\<lambda>ri. (sv_cli sv)\<lparr>pc_info := (pc_info (sv_cli sv))\<lparr>pi_watermark := 0,
     pi_srate := (if recv = 0 then 0 else nat ((recv - fail) * 1000 div recv)),
     pi_delay := (if n = 0 then 0 else nat time div n mod 2 ^ 16), pi_timestamp := int (ri_now ri)\<rparr>\<rparr>"
  have "wk_report ri ?sv = (case cli_run (?c ri) (ri_queue ri) of None \<Rightarrow> None
        | Some (c, pm) \<Rightarrow> Some (pm, ?sv\<lparr>sv_cli := c\<lparr>pc_info := (pc_info c)\<lparr>pi_memused := ri_mem ri\<rparr>\<rparr>\<rparr>))" for ri
    using s d by (cases "cli_run (?c ri) (ri_queue ri)") (auto simp: wk_report_def v1 v2 v3 z send_report_def Let_def)
  then show ?thesis using r(1) by (intro exI [of _ ?sv]) simp
qed

section \<open>Examples\<close>

text \<open>A library without functions of its own, and a monitor without messages.\<close>

definition run_dll :: sppdll where
  "run_dll = \<lparr>dl_init = True, dl_input = DefaultFn, dl_route = False, dl_queue_full = DefaultFn, dl_reloadconfig = False,
     dl_event_route = DefaultFn, dl_process = True, dl_fini = False, dl_syms = (\<lambda>n. False)\<rparr>"

definition run_mon :: procmon where
  "run_mon = \<lparr>pm_interval = 1, pm_groups = [], pm_notify = False, pm_mq = [], pm_sends = (\<lambda>n. True), pm_nsend = 0, pm_now = 0,
     pm_gone = (\<lambda>p. False), pm_out = []\<rparr>"

definition run_sv :: "stat_pool \<Rightarrow> server \<Rightarrow> server" where
  "run_sv p sv = sv\<lparr>sv_stat := Some p, sv_pol := six_policies, sv_dll := Some run_dll, sv_timers := [],
     sv_cli := \<lparr>pc_info = no_proc_info, pc_notify = False, pc_cmds = []\<rparr>\<rparr>"

definition run_px :: "stat_pool \<Rightarrow> unit px_proc \<Rightarrow> unit px_proc" where
  "run_px p = (\<lambda>(sv, s, px). (run_sv p sv, small_sock, small_proxy\<lparr>px_ctor := []\<rparr>))"

definition run_wk :: "stat_pool \<Rightarrow> unit wk_proc \<Rightarrow> unit wk_proc" where
  "run_wk p = (\<lambda>(sv, s, w). (run_sv p sv, small_sock, small_worker))"

definition run_user :: "(server \<times> 'x \<Rightarrow> server \<times> 'x) \<Rightarrow> (server \<times> 'x) user_fns" where
  "run_user f = \<lparr>uf_init = ex_ui f, uf_timer = (\<lambda>n. Some), uf_reloadconfig = (\<lambda>e. Some), uf_fini = Some\<rparr>"

definition run_in :: "nat \<Rightarrow> user_signal list \<Rightarrow> round_in" where
  "run_in t ss = \<lparr>ri_events = [], ri_fuel = 1, ri_locks = (\<lambda>i. 0), ri_clk = (\<lambda>i j. no_time), ri_now = t, ri_now2 = int t, ri_tod = no_time,
     ri_queue = run_mon, ri_mem = 0, ri_conf = ex_in [], ri_sig = (ss, [], [])\<rparr>"

lemma run_user_ok: "user_ok (run_user (run_px p))" "user_ok (run_user (run_wk p))"
  by (auto simp: user_ok_def run_user_def keeps_def ex_ui_def run_px_def run_wk_def run_sv_def run_view_def)

lemma px_stats_start:
  assumes "init_statobjs six_policies px_stats newpool = Some p"
  shows "\<exists>m k w. stat_rep six_policies p (m, k, w)"
proof -
  let ?ops = "map (\<lambda>(n, ty). Register (map of_char n) ty None 1) px_stats"
  obtain a where a: "run_ops (abs_op six_policies) ?ops (\<lambda>i. [], 0, 0) = Some a" by (simp add: px_stats_def six_policies_def)
  then show ?thesis
    using init_statobjs_rep [OF policies_init [OF stat_policies_init_eq] newpool_rep a] assms by (cases a) auto
qed

lemma cli_run_alone: "pi_procid (pc_info c) = 0 \<Longrightarrow> \<exists>c' pm. cli_run c run_mon = Some (c', pm) \<and> pc_info c' = pc_info c"
  by (simp add: cli_run_def run_mon_def mq_send_def mq_pick_def extract_Nil_code extract_Cons_code)

lemma run_signals:
  assumes "sv_flag sv = 0" "sv_dll sv = Some d"
  shows "check_signals name init u (run_in t [Usr1]) (sv, x) = Some (True, sv\<lparr>sv_flag := 0\<rparr>, x)"
proof -
  have "sigusr1_handle 0 = 1" "reload 1 = (False, 1)" "reloadmoduleconfig 1 = (False, 1)" "quit 1 = (True, 0)"
    by (simp_all add: sigusr1_handle_def reload_def reloadmoduleconfig_def quit_def)
  then show ?thesis using assms by (simp add: check_signals_def run_in_def)
qed

lemma run_due: "sv_moni_inter sv = 1 \<Longrightarrow> report_due (run_in 10 ss) (loop_start 10 sv) sv"
  by (simp add: report_due_def loop_start_def run_in_def)

text \<open>Any counts of a single value are made.\<close>

lemma counts_made:
  assumes "sv_stat sv = Some p" "sv_pol sv = six_policies" "stat_rep six_policies p (m, k, w)"
  shows "\<exists>p'. count_stats l sv = Some (sv\<lparr>sv_stat := Some p'\<rparr>)"
proof -
  have "\<forall>s. \<forall>x\<in>set (m s). 1 \<le> length (snd (snd x))" using rep_positive [OF assms(3)] by fastforce
  then show ?thesis using count_stats_rep [OF assms, where l = l] by blast
qed

definition run_ready :: "stat_pool \<Rightarrow> server \<Rightarrow> bool" where
  "run_ready p sv \<longleftrightarrow> sv_stat sv = Some p \<and> sv_pol sv = six_policies \<and> sv_dll sv = Some run_dll \<and> sv_timers sv = [] \<and> sv_flag sv = 0 \<and>
     sv_moni_inter sv = 1 \<and> pi_procid (pc_info (sv_cli sv)) = 0"

lemma px_round_once:
  assumes "run_ready p sv" "stat_rep six_policies p (m, k, w)" "px_ctor px = []" "px_stat px = []"
  shows "\<exists>ro lp st. px_round u um (run_in 10 [Usr1]) (loop_start 10 sv) (sv, small_sock, px) = Some (ro, lp, st) \<and>
    ro_queue ro \<noteq> None \<and> ro_quit ro \<and> sv_dll (fst st) = Some run_dll"
proof -
  note r = assms(1) [unfolded run_ready_def]
  obtain md where md: "px_funcs sv um = Some md" using r by (simp add: px_funcs_def)
  obtain us tick where t: "px_turn md [] 1 (\<lambda>i j. no_time) False 0 (small_sock, px) = Some (us, tick, False, small_sock, px)"
    using assms(3) by (cases "px_idle 0 False True 0") (simp add: px_turn_def sock_poll_def sock_check_expire_def small_sock_def)
  obtain p' where c: "count_stats [(''proxy_ator_conn_num'', s32_of_nat (le_val (le_bytes 4 (u32_of_int (curconn (sk_conns small_sock))))))] sv =
      Some (sv\<lparr>sv_stat := Some p'\<rparr>)"
    using counts_made [OF _ _ assms(2)] r by blast
  let ?f = "\<lambda>q. q\<lparr>pi_curconn := le_val (le_bytes 4 (u32_of_int (curconn (sk_conns small_sock)))), pi_watermark := 0, pi_memused := 0, pi_timestamp := 10\<rparr>"
  obtain c' pm where "cli_run ((sv_cli sv)\<lparr>pc_info := ?f (pc_info (sv_cli sv))\<rparr>) run_mon = Some (c', pm)"
    using cli_run_alone [of "(sv_cli sv)\<lparr>pc_info := ?f (pc_info (sv_cli sv))\<rparr>"] r by auto
  then have "px_report (run_in 10 [Usr1]) sv small_sock = Some (pm, sv\<lparr>sv_stat := Some p', sv_cli := c'\<rparr>, small_sock)"
    using c by (simp add: px_report_def sock_ctrl_def send_report_def Let_def del: count_stats.simps) (simp add: run_in_def)
  then have m: "px_monitor (run_in 10 [Usr1]) (loop_start 10 sv) sv small_sock = Some (Some pm, 10, sv\<lparr>sv_stat := Some p', sv_cli := c'\<rparr>, small_sock)"
    using run_due [of sv] r by (simp add: px_monitor_def) (simp add: run_in_def)
  let ?sv = "sv\<lparr>sv_stat := Some p', sv_cli := c'\<rparr>"
  have s: "check_signals ''proxy'' (px_initconf (uf_init u) True) u (run_in 10 [Usr1]) (?sv, x) = Some (True, ?sv\<lparr>sv_flag := 0\<rparr>, x)" for x
    by (rule run_signals) (use r in simp_all)
  have i: "ri_events (run_in 10 [Usr1]) = []" "ri_fuel (run_in 10 [Usr1]) = 1" "ri_clk (run_in 10 [Usr1]) = (\<lambda>i j. no_time)" "ri_tod (run_in 10 [Usr1]) = no_time"
      "sl_que_idle (loop_start 10 sv) = False" "sl_tick (loop_start 10 sv) = 0"
    by (simp_all add: run_in_def loop_start_def)
  have "px_round u um (run_in 10 [Usr1]) (loop_start 10 sv) (sv, small_sock, px) =
    Some (\<lparr>ro_sleep = us, ro_queue = Some pm, ro_quit = True\<rparr>, \<lparr>sl_montime = 10, sl_que_idle = False, sl_tick = tick\<rparr>, ?sv\<lparr>sv_flag := 0\<rparr>, small_sock, px)"
    using assms(4) md t m s r by (simp add: px_round_def i run_timers_def)
  then show ?thesis using r by auto
qed


lemma px_run_once:
  assumes "init_statobjs six_policies px_stats newpool = Some p"
  shows "\<exists>ro st. px_realrun (run_user (run_px p)) default_module (ex_in []) 10 [run_in 10 [Usr1]] (ex_server, small_sock, small_proxy\<lparr>px_ctor := []\<rparr>) =
    Some ([ro], True, st) \<and> ro_queue ro \<noteq> None"
proof -
  let ?st = "(ex_server, small_sock, small_proxy\<lparr>px_ctor := []\<rparr>)"
  obtain x where x: "px_initconf (ex_ui (run_px p)) False (ex_in []) ?st = Some (case run_px p x of (sv, s, px) \<Rightarrow>
      (sv\<lparr>sv_local := None\<rparr>, s, px\<lparr>px_iplimit := fst (px_iplist (ex_in []) ex_proxy), px_iptable := snd (px_iplist (ex_in []) ex_proxy)\<rparr>))"
    using ex_proxy_inits [of "run_px p" False] by (rule exE)
  obtain sv1 s1 px1 where x1: "x = (sv1, s1, px1)" by (cases x)
  note i = x [unfolded x1]
  let ?sv = "(run_sv p sv1)\<lparr>sv_local := None\<rparr>"
  let ?px = "small_proxy\<lparr>px_ctor := [], px_iplimit := fst (px_iplist (ex_in []) ex_proxy), px_iptable := snd (px_iplist (ex_in []) ex_proxy)\<rparr>"
  have st: "px_initconf (ex_ui (run_px p)) False (ex_in []) ?st = Some (?sv, small_sock, ?px)" using i by (simp add: run_px_def)
  have k: "keeps run_view (ex_ui (run_px p))" using run_user_ok(1) [of p] by (simp add: user_ok_def run_user_def)
  have r: "run_ready p ?sv"
    using px_initconf_flag [OF k st] px_initconf_inter [OF k st ex_roots(1) ex_find(6)]
    by (simp add: run_ready_def run_sv_def no_proc_info_def ex_server_def atoi_demo small_u32)
  obtain m k w where rep: "stat_rep six_policies p (m, k, w)" using px_stats_start [OF assms] by blast
  have px: "px_ctor ?px = []" "px_stat ?px = []" by (simp_all add: small_proxy_def)
  obtain ro lp st' where "px_round (run_user (run_px p)) default_module (run_in 10 [Usr1]) (loop_start 10 ?sv) (?sv, small_sock, ?px) = Some (ro, lp, st')"
      "ro_queue ro \<noteq> None" "ro_quit ro" "sv_dll (fst st') = Some run_dll"
    using px_round_once [OF r rep px] by blast
  moreover have "startup ex_server = ex_server" by (simp add: startup_def ex_server_def)
  ultimately show ?thesis using st by (cases st') (simp add: px_realrun_def run_user_def run_dll_def)
qed

lemma reg_cbs_fields [simp]: "locktype (reg_cbs l c) = locktype c" "expiretime (reg_cbs l c) = expiretime c"
proof -
  have "locktype (fold (\<lambda>ty c. snd (reg_cb c ty True)) l c) = locktype c \<and> expiretime (fold (\<lambda>ty c. snd (reg_cb c ty True)) l c) = expiretime c"
    by (induction l arbitrary: c) (simp_all add: reg_cb_def)
  then show "locktype (reg_cbs l c) = locktype c" "expiretime (reg_cbs l c) = expiretime c" by (simp_all add: reg_cbs_def)
qed

lemma wk_round_once:
  fixes w :: "unit worker"
  assumes "run_ready p sv" "init_statobjs six_policies wk_stats newpool = Some p" "w = small_worker\<lparr>wk_ator := reg_cbs l (small_pipe wk_ator_cbs)\<rparr>"
  shows "\<exists>ro lp st. wk_round u um (run_in 10 [Usr1]) (loop_start 10 sv) (sv, small_sock, w) = Some (ro, lp, st) \<and>
    ro_queue ro \<noteq> None \<and> ro_quit ro \<and> sv_dll (fst st) = Some run_dll"
proof -
  note r = assms(1) [unfolded run_ready_def]
  obtain m k z where rep: "stat_rep six_policies p (m, k, z)" "m (map of_char ''work_ator_recv_num'') = [(1, 0, [0])]"
      "m (map of_char ''work_avg_proc_time'') = [(2, 0, [0])]"
    using wk_stats_start [OF assms(2)] by blast
  obtain wm where wm: "wk_funcs sv um = Some wm" using r by (simp add: wk_funcs_def)
  obtain ret c where "poll False False 1 1 (\<lambda>i. 0) (\<lambda>i j. no_time) 0 0 (wk_ator w) = Some (ret, c, [])"
    by (simp add: poll_def comsume_def comsume_i_def comsumeL_i_def dequeue_i_def assms(3) small_pipe_def idle_commu_def small_conf_def)
  then have "wk_poll_ator wm 1 (\<lambda>i. 0) (\<lambda>i j. no_time) (small_sock, w) = Some (ret, small_sock, w\<lparr>wk_ator := c\<rparr>)"
    by (simp add: wk_poll_ator_def)
  then obtain us tick where t: "wk_turn wm 1 (\<lambda>i. 0) (\<lambda>i j. no_time) [] 0 (small_sock, w) = Some (us, tick, small_sock, w\<lparr>wk_ator := c\<rparr>)"
    using assms(3) by (cases "wk_idle (ret \<noteq> 0) True 0") (simp add: wk_turn_def small_worker_def)
  let ?f = "\<lambda>q. q\<lparr>pi_watermark := 0, pi_srate := 0, pi_delay := 0, pi_timestamp := 10\<rparr>"
  obtain c' pm where "cli_run ((sv_cli sv)\<lparr>pc_info := ?f (pc_info (sv_cli sv))\<rparr>) run_mon = Some (c', pm)"
    using cli_run_alone [of "(sv_cli sv)\<lparr>pc_info := ?f (pc_info (sv_cli sv))\<rparr>"] r by auto
  then obtain sv2 where "wk_report (run_in 10 [Usr1]) sv = Some (pm, sv2)" and sv2: "sv_flag sv2 = 0" "sv_dll sv2 = Some run_dll"
    using stat_value_rep [OF _ rep(1,2)] stat_value_rep [OF _ rep(1,3)] r
    by (simp add: wk_report_def send_report_def Let_def) (simp add: run_in_def)
  then have m: "wk_monitor (run_in 10 [Usr1]) (loop_start 10 sv) sv = Some (Some pm, 10, sv2)"
    using run_due [of sv] r by (simp add: wk_monitor_def) (simp add: run_in_def)
  have s: "check_signals ''worker'' (wk_initconf (uf_init u) True) u (run_in 10 [Usr1]) (sv2, x) = Some (True, sv2\<lparr>sv_flag := 0\<rparr>, x)" for x
    by (rule run_signals [OF sv2])
  have i: "ri_events (run_in 10 [Usr1]) = []" "ri_fuel (run_in 10 [Usr1]) = 1" "ri_locks (run_in 10 [Usr1]) = (\<lambda>i. 0)"
      "ri_clk (run_in 10 [Usr1]) = (\<lambda>i j. no_time)" "ri_tod (run_in 10 [Usr1]) = no_time" "sl_tick (loop_start 10 sv) = 0"
    by (simp_all add: run_in_def loop_start_def)
  have "\<exists>ro lp x. wk_round u um (run_in 10 [Usr1]) (loop_start 10 sv) (sv, small_sock, w) = Some (ro, lp, sv2\<lparr>sv_flag := 0\<rparr>, x) \<and>
    ro_queue ro = Some pm \<and> ro_quit ro"
    using wm t m s r assms(3) by (simp add: wk_round_def i run_timers_def) (simp add: small_worker_def)
  then show ?thesis using sv2 by fastforce
qed

definition run_module :: "unit wk_module" where
  "run_module = \<lparr>wm_input = wk_default_input, wm_process = None, wm_event = (\<lambda>e. None), wm_back_event = (\<lambda>e. None)\<rparr>"

lemma wk_run_once:
  assumes "init_statobjs six_policies wk_stats newpool = Some p"
  shows "\<exists>ro st. wk_realrun (run_user (run_wk p)) run_module (ex_in ''1'') 10 [run_in 10 [Usr1]] (ex_server, small_sock, small_worker) =
    Some ([ro], True, st) \<and> ro_queue ro \<noteq> None"
proof -
  let ?st = "(ex_server, small_sock, small_worker)" and ?l = "[CB_RECVDATA, CB_CONNECTED, CB_OVERLOAD, CB_DISCONNECT, CB_TIMEOUT]"
  obtain x where x: "wk_initconf (ex_ui (run_wk p)) False (ex_in ''1'') ?st = Some (case run_wk p x of (sv, s, w) \<Rightarrow>
      (sv, s, w\<lparr>wk_ator := reg_cbs ?l (wk_ator w)\<rparr>))"
    using ex_worker_inits [of "run_wk p" False] by (rule exE)
  obtain sv1 s1 w1 where x1: "x = (sv1, s1, w1)" by (cases x)
  note i = x [unfolded x1]
  let ?sv = "run_sv p sv1" and ?w = "small_worker\<lparr>wk_ator := reg_cbs ?l (small_pipe wk_ator_cbs)\<rparr>"
  have "wk_ator small_worker = small_pipe wk_ator_cbs" by (simp add: small_worker_def)
  then have st: "wk_initconf (ex_ui (run_wk p)) False (ex_in ''1'') ?st = Some (?sv, small_sock, ?w)" using i by (simp add: run_wk_def)
  have k: "keeps run_view (ex_ui (run_wk p))" using run_user_ok(2) [of p] by (simp add: user_ok_def run_user_def)
  have r: "run_ready p ?sv"
    using wk_initconf_flag [OF k st] wk_initconf_inter [OF k st ex_roots(1) ex_find(6)]
    by (simp add: run_ready_def run_sv_def no_proc_info_def ex_server_def atoi_demo small_u32)
  obtain ro lp st' where "wk_round (run_user (run_wk p)) run_module (run_in 10 [Usr1]) (loop_start 10 ?sv) (?sv, small_sock, ?w) = Some (ro, lp, st')"
      "ro_queue ro \<noteq> None" "ro_quit ro" "sv_dll (fst st') = Some run_dll"
    using wk_round_once [OF r assms refl] by blast
  moreover have "startup ex_server = ex_server" by (simp add: startup_def ex_server_def)
  ultimately show ?thesis using st by (cases st') (simp add: wk_realrun_def run_user_def run_dll_def)
qed



text \<open>Four requests, one failed; two were timed, with 10 and 30.\<close>

theorem worker_report_says_counts_witness:
  "\<exists>p sv'. count_stats [(''work_ator_recv_num'', 1), (''work_fail_proc_num'', 1), (''work_ator_recv_num'', 3), (''work_avg_proc_time'', 10),
      (''work_avg_proc_time'', 30)] (run_sv p ex_server) = Some sv' \<and>
    (\<exists>pm sv''. wk_report (run_in 10 []) sv' = Some (pm, sv'') \<and> pi_srate (pc_info (sv_cli sv'')) = 750 \<and> pi_delay (pc_info (sv_cli sv'')) = 20)"
proof -
  let ?l = "[(''work_ator_recv_num'', 1), (''work_fail_proc_num'', 1), (''work_ator_recv_num'', 3), (''work_avg_proc_time'', 10), (''work_avg_proc_time'', 30)]"
  obtain p where p: "init_statobjs six_policies wk_stats newpool = Some p" using ex_stat by blast
  have sv: "sv_stat (run_sv p ex_server) = Some p" "sv_pol (run_sv p ex_server) = six_policies" by (simp_all add: run_sv_def)
  have l: "4 = counted ''work_ator_recv_num'' ?l" "1 = counted ''work_fail_proc_num'' ?l" "40 = counted ''work_avg_proc_time'' ?l"
      "2 = counts ''work_avg_proc_time'' ?l" by (simp_all add: counted_def counts_def)
  let ?c = "(sv_cli (run_sv p ex_server))\<lparr>pc_info := (pc_info (sv_cli (run_sv p ex_server)))\<lparr>pi_watermark := 0, pi_srate := 750, pi_delay := 20,
      pi_timestamp := int (ri_now (run_in 10 []))\<rparr>\<rparr>"
  obtain c' pm where c: "cli_run ?c run_mon = Some (c', pm)" "pc_info c' = pc_info ?c"
    using cli_run_alone [of ?c] by (auto simp: run_sv_def no_proc_info_def)
  have q: "ri_queue (run_in 10 []) = run_mon" by (simp add: run_in_def)
  obtain sv' where "count_stats ?l (run_sv p ex_server) = Some sv'" "\<forall>ri. wk_report ri sv' =
       (case cli_run ((sv_cli (run_sv p ex_server))\<lparr>pc_info := (pc_info (sv_cli (run_sv p ex_server)))\<lparr>pi_watermark := 0,
               pi_srate := (if (4 :: int) = 0 then 0 else nat ((4 - 1) * 1000 div 4)),
               pi_delay := (if (2 :: nat) = 0 then 0 else nat 40 div 2 mod 2 ^ 16), pi_timestamp := int (ri_now ri)\<rparr>\<rparr>) (ri_queue ri) of
          None \<Rightarrow> None
        | Some (c, pm) \<Rightarrow> Some (pm, sv'\<lparr>sv_cli := c\<lparr>pc_info := (pc_info c)\<lparr>pi_memused := ri_mem ri\<rparr>\<rparr>\<rparr>))"
    using worker_report_says_counts [OF p sv l(1,2) _ _ _ l(3,4)] by auto
  then show ?thesis using c q by (intro exI [of _ p] exI [of _ sv'] conjI) auto
qed

end
