(* ===== verification/Spec2Isabelle.thy ===== *)
theory Spec2Isabelle
  imports ShmContainers ShmCommu ConnSet PacketTheorems AppCombo ServerTheorems StatTheorems
    DataPlatformTheorems ProcMonTheorems HashMapTheorems CtrlRun LoadTableTheorems Load
    IniTheorems ServRunTheorems
begin

text \<open>
  A verification library for the server framework in \<open>src/ServerFrameWork\<close> and the
  libraries \<open>src/libcomm\<close> and \<open>src/libprotocol\<close> it is built on.

  \<^bold>\<open>The program.\<close>  A server is a controller that starts one proxy and several groups of
  workers.  The proxy accepts clients on its sockets, cuts their byte streams into requests
  with a function of the user's library, picks a worker group for each request and puts it
  into the group's pipe in shared memory.  A worker takes a request off the pipe, lets the
  user's library process it and puts the answer into a second pipe, from which the proxy
  sends it to the client.  A worker also keeps connections to other servers, found by route
  tables.  Requests are packets of libprotocol, with a header, cookies and an optional
  encryption.

  \<^bold>\<open>Theories and code.\<close>
  \<^item> \<open>Prelude\<close>: bytes, memory areas with partial reads and writes (a fault is \<open>None\<close>), the
    unsigned and signed 32-bit arithmetic of the code.  \<open>NetOrder\<close>: byte order on x86.
    \<open>StdMap\<close>: \<open>std::map\<close> as a sorted association list.  \<open>LinkedList\<close>: lists linked by indices.
  \<^item> \<open>Fifo\<close>, \<open>BlockAlloc\<close>, \<open>ByteBuffer\<close>: the contracts (locales) of a bounded channel, a pool of
    memory blocks and a growing byte buffer.  \<open>Ring\<close>: runs of bytes in a ring.
  \<^item> \<open>ShmContainers\<close> (\<open>libcomm/include/shm_queue.h, shm_stack.h, shm_array.h\<close>): the containers
    in shared memory; the queue is an interpretation of the channel.
  \<^item> \<open>ShmMQ\<close> (\<open>CShmMQ\<close> of \<open>base/shmcommu.cpp\<close>): the message pipe on the ring of bytes, another
    interpretation of the channel.  \<open>ShmCommu\<close> (\<open>CTShmCommu\<close>, same file): the two pipes, their
    locks and callbacks, \<open>init\<close>, \<open>poll\<close>, \<open>sendto\<close>, \<open>ctrl\<close>.
  \<^item> \<open>MemPool\<close> (\<open>base/mempool.cpp\<close>), \<open>RawCache\<close> (\<open>base/cache.cpp\<close>), \<open>ConnSet\<close>
    (\<open>base/connset.cpp\<close>): blocks, byte buffers in blocks, the table of connections with a
    receive and a send buffer each.
  \<^item> \<open>SockCommu\<close> (\<open>CTSockCommu\<close> of \<open>base/sockcommu.cpp\<close>): accepting, connecting, receiving,
    sending and expiring connections.  The results of system calls are inputs of the
    definitions, the callbacks are a parameter.
  \<^item> \<open>CommuMng\<close> (\<open>base/sockcommumng.cpp\<close>, the route tables of \<open>base/sockcommu.cpp\<close>),
    \<open>ServerBase\<close> (\<open>base/serverbase.cpp\<close>), \<open>BenchAdapter\<close> (\<open>base/benchadapter.cpp\<close>): routes and
    connections to servers, events, timers and signals, the default functions of the adapter.
  \<^item> \<open>Proxy\<close> (\<open>proxy/defaultproxy.cpp\<close>), \<open>Worker\<close> (\<open>worker/defaultworker.cpp\<close>): the callbacks and
    the first part of a round.  The functions of the user's library are fields of a module record.
  \<^item> \<open>ProxyFraming\<close>, \<open>System\<close>, \<open>Rounds\<close>: no new code, but what proxy and worker do together:
    frames of a stream, one request through both pipes, any number of rounds.
  \<^item> \<open>Xxtea\<close>, \<open>PacketHeader\<close>, \<open>Packer\<close>, \<open>UnPacker\<close> (\<open>libprotocol/src/protocol_pack.cpp\<close> and its
    header), \<open>AppCombo\<close> (\<open>libprotocol/src/app_combo_protocol.cpp\<close>): the packet layer.
  \<^item> \<open>Stat\<close>, \<open>StatPool\<close> (\<open>base/stat.cpp, include/stat_policy.h\<close>): the statistics pool.
  \<^item> \<open>DataPlatform\<close> (\<open>libprotocol/include/data_platform_protocol.h\<close> and its source): the
    requests, answers and cookies of the data platform; \<open>DataPlatformWire\<close>: the bytes they
    stand for, with the packers as interpretations of one contract.
  \<^item> \<open>ProcMon\<close> (\<open>include/procmon.h, base/procmon.cpp\<close>): the process monitor of the controller and its
    client.  \<open>ProcMonTable\<close>: well-formed tables, what receiving does to them, and what a check may
    do; \<open>ProcMonCheck\<close>: that the steps and loops of the checks do that.
  \<^item> \<open>ChunkAlloc\<close> (\<open>libcomm/src/shmhash/ChunkAlloc.cpp\<close>): the allocator of chunks and the contract
    (a locale) of a store of values; \<open>ChunkStore\<close>: that the allocator fulfils it.  \<open>HashMap\<close>
    (\<open>libcomm/include/HashMap.hpp, HashMapImp.hpp, ShmHashMap.hpp\<close>): the hash map in shared memory.
    \<open>HashMapRep\<close>: its lists and what it stands for; \<open>HashMapLists\<close>: the buckets; \<open>HashMapOps\<close>,
    \<open>HashMapUpdate\<close>: finding, inserting, updating, deleting and opening; \<open>HashMapReopen\<close>: the
    checks of a segment.
  \<^item> \<open>CString\<close>: the functions of the C library on numbers in text.  \<open>Ctrl\<close>
    (\<open>controller/defaultctrl.cpp\<close>): the controller, its configuration, the rounds of its main loop,
    signals and the reset of the statistics.  What the XML parser yields is an input.
    \<open>CtrlTheorems\<close>: the groups it makes; \<open>CtrlRun\<close>: its run from start to quit.
  \<^item> \<open>ServConf\<close> (\<open>initconf\<close> of \<open>proxy/defaultproxy.cpp\<close> and \<open>worker/defaultworker.cpp\<close>, the route
    tables of the latter, \<open>load_bench_adapter\<close> of \<open>base/benchadapter.cpp\<close>): the start and the reload
    of proxy and worker.  \<open>ServConfTheorems\<close>: that what they set up fits together and that a
    reload leaves the connections alone.  What the XML parser yields, the shared memory and the
    files are inputs; what the user's \<open>spp_handle_init\<close> does is a parameter.
  \<^item> \<open>ServRun\<close> (\<open>run\<close> and \<open>startup\<close> of \<open>base/serverbase.cpp\<close>, \<open>realrun\<close> of \<open>proxy/defaultproxy.cpp\<close>
    and \<open>worker/defaultworker.cpp\<close>): the arguments, the start and the rounds of the main loops with
    the report to the controller, the timers and the signals.  \<open>ServRunTheorems\<close>: what the two
    loops have in common (a locale) and the properties of their runs.
  \<^item> \<open>IniFile\<close> (\<open>libcomm/src/base/inifile.cpp\<close>): ini files, the text in memory and the searches in
    it; \<open>IniTheorems\<close>: that a value that was set is read back, and that the searches end.
  \<^item> \<open>LoadTable\<close> (\<open>base/loadtable.cpp\<close>): named items in a shared segment; \<open>LoadTableTheorems\<close>: that
    all processes see one list of items.  \<open>Load\<close> (\<open>base/load.cpp\<close>): the load meter.
  \<^item> \<open>PacketTheorems\<close>, \<open>SystemTheorems\<close>, \<open>ServerTheorems\<close>, \<open>StatTheorems\<close>,
    \<open>DataPlatformTheorems\<close>, \<open>ProcMonTheorems\<close>, \<open>HashMapTheorems\<close> hold the properties that span several
    definitions; the other properties stand in the theory of their code.

  \<^bold>\<open>Correspondence.\<close>  A class is a record whose fields are its members, a method is a
  definition of the same name that takes and returns the record.  Integers of 32 bits are
  numbers with the wrap-around written out (\<open>add32\<close>, \<open>sub32\<close>, \<open>u32_of_int\<close>) or words.  An
  access outside an area, a division by zero, a null call and a failed assertion are \<open>None\<close>;
  return codes are the code's numbers.  Pointers into the pool are block numbers.

  \<^bold>\<open>Fuel.\<close>  The loop of the proxy over the packets of a blob and that of the worker have one
  unit of fuel for each byte, and every round takes a byte off; the chain of the statistics
  pool has one for each object, and chains are shorter than that.  \<open>poll_loop\<close> of the pipe has
  as much as its caller gives: the properties state how many messages that must exceed.  The
  loops over the chains of chunks and nodes of the hash map have one unit more than there are
  chunks or nodes, which no chain without a cycle exceeds.  The search for the name of a key in
  an ini file is a partial function: with an empty name it does not end, otherwise it does.

  \<^bold>\<open>Results.\<close>  Requests are answered: over any number of rounds of the readiness of a
  connection, the work of a worker and the poll of the proxy, every complete request is
  answered once and in order, whatever the pieces in which its bytes arrived.  Below that,
  each container refines its abstract view (the pipe a channel, the pool a set of blocks, a
  buffer a byte string, the table of connections and the statistics pool maps, the hash map a
  list in the order of recent use), a packer and
  an unpacker are inverse, and an unpacker never leaves the packet except where stated.  The
  controller keeps its table of processes well-formed, removes the dead ones and runs until it
  is told to quit; then it has told every process.  What the proxy and the workers set up from
  their configuration fits together, a reload leaves their connections alone, they run until they
  are told to quit and report to the controller regularly.  The
  properties of kind \<open>error\<close> pin down the paths on which the code does not do what its
  comments promise.

  \<^bold>\<open>Not modelled.\<close>  The timer manager is a loop over system timers and signals.  The XML
  parser and writing logs, the pid file and reports have no effect on the modelled
  state.  The wrappers of sockets, epoll, pipes and locks only pass system calls on.  The
  parts of libcomm and libprotocol that the processes do not use (digests, text helpers) and
  the tools are left out.  Concurrency of the processes is modelled by the order of the steps:
  each pipe has one reader and one writer, and the locks of the pipes make their operations
  atomic.
\<close>

end
